(* ===== verification/Lemon_Prelude.thy ===== *)
theory Lemon_Prelude
  imports Main "HOL-Library.Word" "HOL-Library.Sublist"
begin

text \<open>
  What every component of the development shares: the machine integers of
  \<^verbatim>\<open>common/common_types.h\<close> as words, faults and partial operations as a sum type with its
  sequencing operator, bounds-checked array access, the little-endian view of a 64-bit
  variable through which C++ code passes untyped memory, and the simplification collections
  the component theories add to.
\<close>

unbundle bit_operations_syntax

section \<open>Machine integers and named collections\<close>

type_synonym u8 = "8 word"
type_synonym u16 = "16 word"
type_synonym u32 = "32 word"
type_synonym u64 = "64 word"
type_synonym VAddr = u64

named_theorems fault_simps \<open>evaluation of the fault monad and of checked array access\<close>
named_theorems op_defs \<open>the definitions of the operations of a component\<close>

section \<open>Faults\<close>

text \<open>
  An operation that can run into undefined behaviour or abort the process returns
  \<open>Inl fault\<close>; \<open>bindF\<close> runs a continuation on a normal result, as the next statement runs
  when the previous one did not abort.
\<close>

definition bindF :: "('f + 'a) \<Rightarrow> ('a \<Rightarrow> 'f + 'b) \<Rightarrow> 'f + 'b" where
  "bindF m k = (case m of Inl f \<Rightarrow> Inl f | Inr x \<Rightarrow> k x)"

text \<open>Array access of a \<^verbatim>\<open>std::array\<close>: out of range is the given fault, never a value.\<close>

definition arr_get :: "'f \<Rightarrow> 'a list \<Rightarrow> nat \<Rightarrow> 'f + 'a" where
  "arr_get f xs i = (if i < length xs then Inr (xs ! i) else Inl f)"

definition arr_set :: "'f \<Rightarrow> 'a list \<Rightarrow> nat \<Rightarrow> 'a \<Rightarrow> 'f + 'a list" where
  "arr_set f xs i v = (if i < length xs then Inr (xs[i := v]) else Inl f)"

section \<open>Little-endian views of a 64-bit variable\<close>

text \<open>
  \<^verbatim>\<open>MemoryWriteUnsafe(address, &value, size)\<close> passes the first \<open>size\<close> bytes of a \<open>u64\<close>, and
  \<^verbatim>\<open>MemoryReadUnsafe(address, &value, size)\<close> overwrites the first \<open>size\<close> bytes of one and leaves
  the others as they were. The hosts the program is built for are little endian.
\<close>

definition le_bytes :: "nat \<Rightarrow> u64 \<Rightarrow> u8 list" where
  "le_bytes n v = map (\<lambda>i. ucast (drop_bit (8 * i) v)) [0..<n]"

fun le_value :: "u8 list \<Rightarrow> u64" where
  "le_value [] = 0"
| "le_value (b # bs) = ucast b OR push_bit 8 (le_value bs)"

definition overlay :: "u64 \<Rightarrow> u8 list \<Rightarrow> u64" where
  "overlay old bs = (old AND NOT (mask (8 * length bs))) OR (le_value bs AND mask (8 * length bs))"

section \<open>Lemmas of the fault monad and of checked access\<close>

lemma bindF_simps [simp, fault_simps]:
  "bindF (Inl f) k = Inl f"
  "bindF (Inr x) k = k x"
  by (simp_all add: bindF_def)

lemma bindF_eq_Inr: "bindF m k = Inr y \<longleftrightarrow> (\<exists>x. m = Inr x \<and> k x = Inr y)"
  by (cases m) simp_all

lemma bindF_eq_Inl: "bindF m k = Inl f \<longleftrightarrow> m = Inl f \<or> (\<exists>x. m = Inr x \<and> k x = Inl f)"
  by (cases m) simp_all

lemma bindF_assoc: "bindF (bindF m k) h = bindF m (\<lambda>x. bindF (k x) h)"
  by (cases m) simp_all

lemma bindF_cong [fundef_cong]:
  "m = m' \<Longrightarrow> (\<And>x. m' = Inr x \<Longrightarrow> k x = k' x) \<Longrightarrow> bindF m k = bindF m' k'"
  by (cases m') simp_all

lemma arr_get_ok [simp, fault_simps]: "i < length xs \<Longrightarrow> arr_get f xs i = Inr (xs ! i)"
  by (simp add: arr_get_def)

lemma arr_set_ok [simp, fault_simps]: "i < length xs \<Longrightarrow> arr_set f xs i v = Inr (xs[i := v])"
  by (simp add: arr_set_def)

lemma arr_get_eq_Inr: "arr_get f xs i = Inr x \<longleftrightarrow> i < length xs \<and> x = xs ! i"
  by (auto simp: arr_get_def)

lemma arr_set_eq_Inr: "arr_set f xs i v = Inr ys \<longleftrightarrow> i < length xs \<and> ys = xs[i := v]"
  by (auto simp: arr_set_def)

lemma arr_get_eq_Inl: "arr_get f xs i = Inl g \<longleftrightarrow> g = f \<and> length xs \<le> i"
  by (auto simp: arr_get_def)

lemma arr_set_eq_Inl: "arr_set f xs i v = Inl g \<longleftrightarrow> g = f \<and> length xs \<le> i"
  by (auto simp: arr_set_def)

lemmas fault_elims = bindF_eq_Inr bindF_eq_Inl arr_get_eq_Inr arr_set_eq_Inr arr_get_eq_Inl
  arr_set_eq_Inl

section \<open>Words\<close>

lemma unat_and_mask_less: "unat (w AND mask n :: 'a::len word) < 2 ^ n"
  by (simp flip: take_bit_eq_mask add: unsigned_take_bit_eq)

lemma unat_and_0xF [simp]: "unat (w AND 0xF :: u32) < 16"
  using unat_and_mask_less [of w 4] by (simp add: mask_eq_exp_minus_1)

lemma unat_and_0xFF [simp]: "unat (w AND 0xFF :: u32) < 256"
  using unat_and_mask_less [of w 8] by (simp add: mask_eq_exp_minus_1)

lemma length_le_bytes [simp]: "length (le_bytes n v) = n"
  by (simp add: le_bytes_def)

section \<open>Lemmas of the little-endian views\<close>

lemma bit_u8: "bit (w :: u8) j \<Longrightarrow> j < 8"
  by (drule bit_imp_le_length) simp

lemma bit_le_value:
  "bit (le_value bs) i \<longleftrightarrow> i < 64 \<and> i div 8 < length bs \<and> bit (bs ! (i div 8)) (i mod 8)"
proof (induction bs arbitrary: i)
  case Nil
  then show ?case by simp
next
  case (Cons b bs)
  show ?case
  proof (cases "i < 8")
    case True
    then show ?thesis by (auto simp: bit_simps)
  next
    case False
    have "i div 8 = Suc ((i - 8) div 8)" "(i - 8) mod 8 = i mod 8"
      using False by (simp_all add: le_div_geq le_mod_geq)
    with False Cons.IH [of "i - 8"] show ?thesis
      by (auto simp: bit_simps dest: bit_u8)
  qed
qed

lemma bit_le_bytes: "k < n \<Longrightarrow> bit (le_bytes n v ! k) j \<longleftrightarrow> j < 8 \<and> bit v (8 * k + j)"
  by (auto simp: le_bytes_def bit_simps)

lemma le_value_le_bytes: "le_value (le_bytes n v) = take_bit (8 * n) v"
proof (rule bit_eqI)
  fix i :: nat
  have "8 * (i div 8) + i mod 8 = i" by simp
  moreover have "i div 8 < n \<longleftrightarrow> i < 8 * n" by (auto simp: div_less_iff_less_mult)
  ultimately show "bit (le_value (le_bytes n v)) i \<longleftrightarrow> bit (take_bit (8 * n) v) i"
    by (auto simp: bit_le_value bit_le_bytes bit_simps dest: bit_imp_le_length)
qed

lemma bit_overlay: "bit (overlay old bs) i \<longleftrightarrow> (if i < 8 * length bs then bit (le_value bs) i else bit old i)"
  by (auto simp: overlay_def bit_simps dest: bit_imp_le_length)

lemma le_bytes_overlay:
  assumes "length bs \<le> 8"
  shows "le_bytes (length bs) (overlay old bs) = bs"
proof (rule nth_equalityI)
  fix k assume "k < length (le_bytes (length bs) (overlay old bs))"
  then have k: "k < length bs" by simp
  show "le_bytes (length bs) (overlay old bs) ! k = bs ! k"
  proof (rule bit_eqI)
    fix j assume "possible_bit TYPE(u8) j"
    then have "j < 8" by simp
    moreover from this k assms have "8 * k + j < 64" "8 * k + j < 8 * length bs" by linarith+
    ultimately show "bit (le_bytes (length bs) (overlay old bs) ! k) j = bit (bs ! k) j"
      using k by (simp add: bit_le_bytes bit_overlay bit_le_value)
  qed
qed simp

lemma drop_bit_overlay: "drop_bit (8 * length bs) (overlay old bs) = drop_bit (8 * length bs) old"
  by (rule bit_eqI) (simp add: bit_drop_bit_eq bit_overlay)

lemma overlay_zero: "overlay 0 bs = le_value bs"
  by (rule bit_eqI) (auto simp: bit_overlay bit_le_value div_less_iff_less_mult)
end
