(* ===== verification/Cheat_Types.thy ===== *)
theory Cheat_Types
  imports Lemon_Prelude
begin

text \<open>
  The data of the cheat subsystem: \<^verbatim>\<open>core/memory/dmnt_cheat_types.h\<close> (process metadata, cheat
  definitions and entries) and \<^verbatim>\<open>core/memory/dmnt_cheat_vm.h\<close> (the enumerations, the decoded
  opcodes, the callbacks interface and the state of the virtual machine).

  The source casts raw nibbles to its enumerations, and an \<^verbatim>\<open>enum class\<close> with a fixed underlying
  type may hold any value of that type. Each enumeration is therefore a datatype with the
  source's enumerators and one constructor for the remaining values, with its cast from and to
  the underlying integer.
\<close>

section \<open>Enumerations\<close>

datatype CheatVmOpcodeType =
    StoreStatic | BeginConditionalBlock | EndConditionalBlock | ControlLoop | LoadRegisterStatic
  | LoadRegisterMemory | StoreStaticToAddress | PerformArithmeticStatic
  | BeginKeypressConditionalBlock | PerformArithmeticRegister | StoreRegisterToAddress | Reserved11
  | ExtendedWidth | BeginRegisterConditionalBlock | SaveRestoreRegister | SaveRestoreRegisterMask
  | ReadWriteStaticRegister | DoubleExtendedWidth | PauseProcessType | ResumeProcessType
  | DebugLogType | OpcodeType_other u32

definition to_OpcodeType :: "u32 \<Rightarrow> CheatVmOpcodeType" where
  "to_OpcodeType x =
     (if x = 0 then StoreStatic else if x = 1 then BeginConditionalBlock
      else if x = 2 then EndConditionalBlock else if x = 3 then ControlLoop
      else if x = 4 then LoadRegisterStatic else if x = 5 then LoadRegisterMemory
      else if x = 6 then StoreStaticToAddress else if x = 7 then PerformArithmeticStatic
      else if x = 8 then BeginKeypressConditionalBlock
      else if x = 9 then PerformArithmeticRegister
      else if x = 10 then StoreRegisterToAddress else if x = 11 then Reserved11
      else if x = 12 then ExtendedWidth else if x = 0xC0 then BeginRegisterConditionalBlock
      else if x = 0xC1 then SaveRestoreRegister else if x = 0xC2 then SaveRestoreRegisterMask
      else if x = 0xC3 then ReadWriteStaticRegister else if x = 0xF0 then DoubleExtendedWidth
      else if x = 0xFF0 then PauseProcessType else if x = 0xFF1 then ResumeProcessType
      else if x = 0xFFF then DebugLogType else OpcodeType_other x)"

fun OpcodeType_value :: "CheatVmOpcodeType \<Rightarrow> u32" where
  "OpcodeType_value StoreStatic = 0"
| "OpcodeType_value BeginConditionalBlock = 1"
| "OpcodeType_value EndConditionalBlock = 2"
| "OpcodeType_value ControlLoop = 3"
| "OpcodeType_value LoadRegisterStatic = 4"
| "OpcodeType_value LoadRegisterMemory = 5"
| "OpcodeType_value StoreStaticToAddress = 6"
| "OpcodeType_value PerformArithmeticStatic = 7"
| "OpcodeType_value BeginKeypressConditionalBlock = 8"
| "OpcodeType_value PerformArithmeticRegister = 9"
| "OpcodeType_value StoreRegisterToAddress = 10"
| "OpcodeType_value Reserved11 = 11"
| "OpcodeType_value ExtendedWidth = 12"
| "OpcodeType_value BeginRegisterConditionalBlock = 0xC0"
| "OpcodeType_value SaveRestoreRegister = 0xC1"
| "OpcodeType_value SaveRestoreRegisterMask = 0xC2"
| "OpcodeType_value ReadWriteStaticRegister = 0xC3"
| "OpcodeType_value DoubleExtendedWidth = 0xF0"
| "OpcodeType_value PauseProcessType = 0xFF0"
| "OpcodeType_value ResumeProcessType = 0xFF1"
| "OpcodeType_value DebugLogType = 0xFFF"
| "OpcodeType_value (OpcodeType_other x) = x"

datatype MemoryAccessType = MainNso | Heap | Alias | Aslr | MemoryAccessType_other u32

definition to_MemoryAccessType :: "u32 \<Rightarrow> MemoryAccessType" where
  "to_MemoryAccessType x =
     (if x = 0 then MainNso else if x = 1 then Heap else if x = 2 then Alias
      else if x = 3 then Aslr else MemoryAccessType_other x)"

fun MemoryAccessType_value :: "MemoryAccessType \<Rightarrow> u32" where
  "MemoryAccessType_value MainNso = 0"
| "MemoryAccessType_value Heap = 1"
| "MemoryAccessType_value Alias = 2"
| "MemoryAccessType_value Aslr = 3"
| "MemoryAccessType_value (MemoryAccessType_other x) = x"

datatype ConditionalComparisonType = GT | GE | LT | LE | EQ | NE | ComparisonType_other u32

definition to_ComparisonType :: "u32 \<Rightarrow> ConditionalComparisonType" where
  "to_ComparisonType x =
     (if x = 1 then GT else if x = 2 then GE else if x = 3 then LT else if x = 4 then LE
      else if x = 5 then EQ else if x = 6 then NE else ComparisonType_other x)"

fun ComparisonType_value :: "ConditionalComparisonType \<Rightarrow> u32" where
  "ComparisonType_value GT = 1"
| "ComparisonType_value GE = 2"
| "ComparisonType_value LT = 3"
| "ComparisonType_value LE = 4"
| "ComparisonType_value EQ = 5"
| "ComparisonType_value NE = 6"
| "ComparisonType_value (ComparisonType_other x) = x"

datatype RegisterArithmeticType =
    Addition | Subtraction | Multiplication | LeftShift | RightShift | LogicalAnd | LogicalOr
  | LogicalNot | LogicalXor | NoArithmetic | ArithmeticType_other u32

definition to_ArithmeticType :: "u32 \<Rightarrow> RegisterArithmeticType" where
  "to_ArithmeticType x =
     (if x = 0 then Addition else if x = 1 then Subtraction else if x = 2 then Multiplication
      else if x = 3 then LeftShift else if x = 4 then RightShift else if x = 5 then LogicalAnd
      else if x = 6 then LogicalOr else if x = 7 then LogicalNot else if x = 8 then LogicalXor
      else if x = 9 then NoArithmetic else ArithmeticType_other x)"

fun ArithmeticType_value :: "RegisterArithmeticType \<Rightarrow> u32" where
  "ArithmeticType_value Addition = 0"
| "ArithmeticType_value Subtraction = 1"
| "ArithmeticType_value Multiplication = 2"
| "ArithmeticType_value LeftShift = 3"
| "ArithmeticType_value RightShift = 4"
| "ArithmeticType_value LogicalAnd = 5"
| "ArithmeticType_value LogicalOr = 6"
| "ArithmeticType_value LogicalNot = 7"
| "ArithmeticType_value LogicalXor = 8"
| "ArithmeticType_value NoArithmetic = 9"
| "ArithmeticType_value (ArithmeticType_other x) = x"

datatype StoreRegisterOffsetType =
  OfsNone | OfsReg | OfsImm | OfsMemReg | OfsMemImm | OfsMemImmReg | OffsetType_other u32

definition to_OffsetType :: "u32 \<Rightarrow> StoreRegisterOffsetType" where
  "to_OffsetType x =
     (if x = 0 then OfsNone else if x = 1 then OfsReg else if x = 2 then OfsImm
      else if x = 3 then OfsMemReg else if x = 4 then OfsMemImm
      else if x = 5 then OfsMemImmReg else OffsetType_other x)"

datatype CompareRegisterValueType =
    CmpMemoryRelAddr | CmpMemoryOfsReg | CmpRegisterRelAddr | CmpRegisterOfsReg | CmpStaticValue
  | CmpOtherRegister | CompareType_other u32

definition to_CompareType :: "u32 \<Rightarrow> CompareRegisterValueType" where
  "to_CompareType x =
     (if x = 0 then CmpMemoryRelAddr else if x = 1 then CmpMemoryOfsReg
      else if x = 2 then CmpRegisterRelAddr else if x = 3 then CmpRegisterOfsReg
      else if x = 4 then CmpStaticValue else if x = 5 then CmpOtherRegister
      else CompareType_other x)"

datatype SaveRestoreRegisterOpType =
  SrRestore | SrSave | SrClearSaved | SrClearRegs | SaveRestore_other u32

definition to_SaveRestoreType :: "u32 \<Rightarrow> SaveRestoreRegisterOpType" where
  "to_SaveRestoreType x =
     (if x = 0 then SrRestore else if x = 1 then SrSave else if x = 2 then SrClearSaved
      else if x = 3 then SrClearRegs else SaveRestore_other x)"

fun SaveRestoreType_value :: "SaveRestoreRegisterOpType \<Rightarrow> u32" where
  "SaveRestoreType_value SrRestore = 0"
| "SaveRestoreType_value SrSave = 1"
| "SaveRestoreType_value SrClearSaved = 2"
| "SaveRestoreType_value SrClearRegs = 3"
| "SaveRestoreType_value (SaveRestore_other x) = x"

datatype DebugLogValueType =
    LogMemoryRelAddr | LogMemoryOfsReg | LogRegisterRelAddr | LogRegisterOfsReg
  | LogRegisterValue | LogValueType_other u32

definition to_LogValueType :: "u32 \<Rightarrow> DebugLogValueType" where
  "to_LogValueType x =
     (if x = 0 then LogMemoryRelAddr else if x = 1 then LogMemoryOfsReg
      else if x = 2 then LogRegisterRelAddr else if x = 3 then LogRegisterOfsReg
      else if x = 4 then LogRegisterValue else LogValueType_other x)"

fun LogValueType_value :: "DebugLogValueType \<Rightarrow> u32" where
  "LogValueType_value LogMemoryRelAddr = 0"
| "LogValueType_value LogMemoryOfsReg = 1"
| "LogValueType_value LogRegisterRelAddr = 2"
| "LogValueType_value LogRegisterOfsReg = 3"
| "LogValueType_value LogRegisterValue = 4"
| "LogValueType_value (LogValueType_other x) = x"

section \<open>Decoded opcodes\<close>

text \<open>
  The \<^verbatim>\<open>union VmInt\<close> overlays an 8, 16, 32 and 64-bit integer; it is modelled by the 64-bit view,
  of which the narrower members are the low bits. Its decoder starts from a cleared value.
\<close>

type_synonym VmInt = u64

text \<open>
  One constructor per alternative of the \<^verbatim>\<open>std::variant\<close>, with the fields of the structure in the
  order of its declaration.
\<close>

datatype VmOpcode =
    StoreStaticOpcode u32 MemoryAccessType u32 u64 VmInt
      \<comment> \<open>bit width, memory type, offset register, relative address, value\<close>
  | BeginConditionalOpcode u32 MemoryAccessType ConditionalComparisonType u64 VmInt
      \<comment> \<open>bit width, memory type, condition, relative address, value\<close>
  | EndConditionalOpcode bool \<comment> \<open>is else\<close>
  | ControlLoopOpcode bool u32 u32 \<comment> \<open>start loop, register, number of iterations\<close>
  | LoadRegisterStaticOpcode u32 u64 \<comment> \<open>register, value\<close>
  | LoadRegisterMemoryOpcode u32 MemoryAccessType u32 bool u64
      \<comment> \<open>bit width, memory type, register, load from register, relative address\<close>
  | StoreStaticToAddressOpcode u32 u32 bool bool u32 u64
      \<comment> \<open>bit width, register, increment register, add offset register, offset register, value\<close>
  | PerformArithmeticStaticOpcode u32 u32 RegisterArithmeticType u32
      \<comment> \<open>bit width, register, operation, value\<close>
  | BeginKeypressConditionalOpcode u32 \<comment> \<open>key mask\<close>
  | PerformArithmeticRegisterOpcode u32 RegisterArithmeticType u32 u32 u32 bool VmInt
      \<comment> \<open>bit width, operation, destination, source 1, source 2, has immediate, value\<close>
  | StoreRegisterToAddressOpcode u32 u32 u32 bool StoreRegisterOffsetType MemoryAccessType u32 u64
      \<comment> \<open>bit width, stored register, address register, increment, offset type, memory type,
          offset register, relative address\<close>
  | BeginRegisterConditionalOpcode u32 ConditionalComparisonType u32 CompareRegisterValueType
      MemoryAccessType u32 u32 u32 u64 VmInt
      \<comment> \<open>bit width, condition, value register, comparison type, memory type, address register,
          other register, offset register, relative address, value\<close>
  | SaveRestoreRegisterOpcode u32 u32 SaveRestoreRegisterOpType \<comment> \<open>destination, source, kind\<close>
  | SaveRestoreRegisterMaskOpcode SaveRestoreRegisterOpType "bool list" \<comment> \<open>kind, should operate\<close>
  | ReadWriteStaticRegisterOpcode u32 u32 \<comment> \<open>static index, index\<close>
  | PauseProcessOpcode
  | ResumeProcessOpcode
  | DebugLogOpcode u32 u32 DebugLogValueType MemoryAccessType u32 u32 u32 u64
      \<comment> \<open>bit width, log id, value type, memory type, address register, value register, offset
          register, relative address\<close>
  | UnrecognizedInstruction CheatVmOpcodeType

record CheatVmOpcode =
  begin_conditional_block :: bool
  vm_opcode :: VmOpcode

section \<open>Process metadata and cheat entries\<close>

record MemoryRegionExtents =
  ext_base :: u64
  ext_size :: u64

record CheatProcessMetadata =
  process_id :: u64
  title_id :: u64
  main_nso_extents :: MemoryRegionExtents
  heap_extents :: MemoryRegionExtents
  alias_extents :: MemoryRegionExtents
  aslr_extents :: MemoryRegionExtents
  main_nso_build_id :: "u8 list"

text \<open>
  \<^verbatim>\<open>readable_name\<close> is an array of 0x40 characters and \<^verbatim>\<open>opcodes\<close> one of 0x100 words, of which the
  first \<^verbatim>\<open>num_opcodes\<close> are used.
\<close>

record CheatDefinition =
  readable_name :: "char list"
  def_num_opcodes :: u32
  def_opcodes :: "u32 list"

record CheatEntry =
  enabled :: bool
  cheat_id :: u32
  cheat_definition :: CheatDefinition

definition new_CheatEntry :: CheatEntry where
  "new_CheatEntry =
     \<lparr>enabled = False, cheat_id = 0,
      cheat_definition = \<lparr>readable_name = replicate 0x40 (CHR 0x00), def_num_opcodes = 0,
                     def_opcodes = replicate 0x100 0\<rparr>\<rparr>"

section \<open>The state of the virtual machine and its callbacks\<close>

definition MaximumProgramOpcodeCount :: nat where
  "MaximumProgramOpcodeCount = 0x400"

definition NumRegisters :: nat where
  "NumRegisters = 0x10"

definition NumReadableStaticRegisters :: nat where
  "NumReadableStaticRegisters = 0x80"

definition NumWritableStaticRegisters :: nat where
  "NumWritableStaticRegisters = 0x80"

definition NumStaticRegisters :: nat where
  "NumStaticRegisters = NumReadableStaticRegisters + NumWritableStaticRegisters"

record DmntCheatVm =
  num_opcodes :: nat
  instruction_ptr :: nat
  condition_depth :: nat
  decode_success :: bool
  program :: "u32 list"
  registers :: "u64 list"
  saved_values :: "u64 list"
  static_registers :: "u64 list"
  loop_tops :: "nat list"

definition new_DmntCheatVm :: DmntCheatVm where
  "new_DmntCheatVm =
     \<lparr>num_opcodes = 0, instruction_ptr = 0, condition_depth = 0, decode_success = False,
      program = replicate MaximumProgramOpcodeCount 0,
      registers = replicate NumRegisters 0, saved_values = replicate NumRegisters 0,
      static_registers = replicate NumStaticRegisters 0, loop_tops = replicate NumRegisters 0\<rparr>"

text \<open>
  The abstract class \<^verbatim>\<open>DmntCheatVm::Callbacks\<close>: a table of the virtual functions over a state
  \<open>'e\<close> of the world outside the machine. A read returns the bytes stored to the caller's buffer.
\<close>

record 'e Callbacks =
  MemoryReadUnsafe :: "VAddr \<Rightarrow> nat \<Rightarrow> 'e \<Rightarrow> u8 list \<times> 'e"
  MemoryWriteUnsafe :: "VAddr \<Rightarrow> u8 list \<Rightarrow> 'e \<Rightarrow> 'e"
  HidKeysDown :: "'e \<Rightarrow> u64 \<times> 'e"
  PauseProcess :: "'e \<Rightarrow> 'e"
  ResumeProcess :: "'e \<Rightarrow> 'e"
  cb_DebugLog :: "u8 \<Rightarrow> u64 \<Rightarrow> 'e \<Rightarrow> 'e"
  CommandLog :: "string \<Rightarrow> 'e \<Rightarrow> 'e"

text \<open>
  What can stop the machine other than the end of its program: an access outside an array, a
  shift by 64 or more (undefined in C++), and the fatal \<^verbatim>\<open>UNREACHABLE_MSG\<close> of
  \<^verbatim>\<open>SkipConditionalBlock\<close>, which aborts the process.
\<close>

datatype vm_fault = IndexOutOfRange | ShiftOutOfRange | InvalidConditionDepth

end
