(* ===== verification/Cheat_Decode.thy ===== *)
theory Cheat_Decode
  imports Cheat_Types
begin

text \<open>
  \<^verbatim>\<open>DmntCheatVm::DecodeNextOpcode\<close>: the instruction decoder of the cheat virtual machine, one
  definition per case of its \<^verbatim>\<open>switch\<close>. The local variable \<^verbatim>\<open>valid\<close> and the instruction pointer, which
  the helper \<^verbatim>\<open>GetNextDword\<close> updates, are threaded as a cursor, with the fault of a read of \<^verbatim>\<open>program\<close>
  out of its bounds; such a fault stays in the cursor and is the result of the decoder. Where the source combines two calls
  of \<^verbatim>\<open>GetNextDword\<close> in one expression, the first operand is taken to be evaluated first, as the
  compiler the program is built with does.
\<close>

section \<open>Fetching\<close>

type_synonym cursor = "nat \<times> bool \<times> vm_fault option" \<comment> \<open>instruction pointer, valid, fault\<close>

definition GetNextDword :: "DmntCheatVm \<Rightarrow> cursor \<Rightarrow> u32 \<times> cursor" where
  "GetNextDword vm c =
     (let (ip, valid, fault) = c in
      if num_opcodes vm \<le> ip then (0, (ip, False, fault))
      else
        (case arr_get IndexOutOfRange (program vm) ip of
           Inl f \<Rightarrow> (0, (ip + 1, valid, Some f))
         | Inr w \<Rightarrow> (w, (ip + 1, valid, fault))))"

definition GetNextVmInt :: "DmntCheatVm \<Rightarrow> u32 \<Rightarrow> cursor \<Rightarrow> VmInt \<times> cursor" where
  "GetNextVmInt vm bit_width c =
     (let (first_dword, c) = GetNextDword vm c in
      if bit_width = 1 then (ucast (ucast first_dword :: u8), c)
      else if bit_width = 2 then (ucast (ucast first_dword :: u16), c)
      else if bit_width = 4 then (ucast first_dword, c)
      else if bit_width = 8 then
        (let (second_dword, c) = GetNextDword vm c in
         (push_bit 32 (ucast first_dword) OR ucast second_dword, c))
      else (0, c))"

definition nibble :: "nat \<Rightarrow> u32 \<Rightarrow> u32" where
  "nibble k w = drop_bit k w AND 0xF"

text \<open>The relative addresses \<^verbatim>\<open>AA AAAAAAAA\<close> and \<^verbatim>\<open>a aaaaaaaa\<close>: the low bits of the first word on top of
  the next one.\<close>

definition rel_address_of :: "u32 \<Rightarrow> u32 \<Rightarrow> u64" where
  "rel_address_of high low = push_bit 32 (ucast high) OR ucast low"

definition opcode_type_of :: "u32 \<Rightarrow> u32" where
  "opcode_type_of first_dword =
     (let t = nibble 28 first_dword;
          t = (if 12 \<le> t then push_bit 4 t OR nibble 24 first_dword else t)
      in if 0xF0 \<le> t then push_bit 4 t OR nibble 20 first_dword else t)"

definition begins_conditional :: "CheatVmOpcodeType \<Rightarrow> bool" where
  "begins_conditional t \<longleftrightarrow>
     (case t of BeginConditionalBlock \<Rightarrow> True | BeginKeypressConditionalBlock \<Rightarrow> True
      | BeginRegisterConditionalBlock \<Rightarrow> True | _ \<Rightarrow> False)"

section \<open>The cases of the decoder\<close>

definition decode_StoreStatic :: "DmntCheatVm \<Rightarrow> u32 \<Rightarrow> cursor \<Rightarrow> VmOpcode \<times> cursor" where
  "decode_StoreStatic vm first_dword c =
     (let (second_dword, c) = GetNextDword vm c;
          bit_width = nibble 24 first_dword;
          (val, c) = GetNextVmInt vm bit_width c
      in (StoreStaticOpcode bit_width (to_MemoryAccessType (nibble 20 first_dword))
            (nibble 16 first_dword) (rel_address_of (first_dword AND 0xFF) second_dword) val, c))"

definition decode_BeginConditional :: "DmntCheatVm \<Rightarrow> u32 \<Rightarrow> cursor \<Rightarrow> VmOpcode \<times> cursor" where
  "decode_BeginConditional vm first_dword c =
     (let (second_dword, c) = GetNextDword vm c;
          bit_width = nibble 24 first_dword;
          (val, c) = GetNextVmInt vm bit_width c
      in (BeginConditionalOpcode bit_width (to_MemoryAccessType (nibble 20 first_dword))
            (to_ComparisonType (nibble 16 first_dword))
            (rel_address_of (first_dword AND 0xFF) second_dword) val, c))"

definition decode_EndConditional :: "u32 \<Rightarrow> VmOpcode" where
  "decode_EndConditional first_dword = EndConditionalOpcode (nibble 24 first_dword = 1)"

definition decode_ControlLoop :: "DmntCheatVm \<Rightarrow> u32 \<Rightarrow> cursor \<Rightarrow> VmOpcode \<times> cursor" where
  "decode_ControlLoop vm first_dword c =
     (let start_loop = (nibble 24 first_dword = 0); reg_index = nibble 20 first_dword in
      if start_loop then
        (let (num_iters, c) = GetNextDword vm c in (ControlLoopOpcode start_loop reg_index num_iters, c))
      else (ControlLoopOpcode start_loop reg_index 0, c))"

definition decode_LoadRegisterStatic :: "DmntCheatVm \<Rightarrow> u32 \<Rightarrow> cursor \<Rightarrow> VmOpcode \<times> cursor" where
  "decode_LoadRegisterStatic vm first_dword c =
     (let (high, c) = GetNextDword vm c; (low, c) = GetNextDword vm c
      in (LoadRegisterStaticOpcode (nibble 16 first_dword) (push_bit 32 (ucast high) OR ucast low), c))"

definition decode_LoadRegisterMemory :: "DmntCheatVm \<Rightarrow> u32 \<Rightarrow> cursor \<Rightarrow> VmOpcode \<times> cursor" where
  "decode_LoadRegisterMemory vm first_dword c =
     (let (second_dword, c) = GetNextDword vm c
      in (LoadRegisterMemoryOpcode (nibble 24 first_dword)
            (to_MemoryAccessType (nibble 20 first_dword)) (nibble 16 first_dword)
            (nibble 12 first_dword \<noteq> 0) (rel_address_of (first_dword AND 0xFF) second_dword), c))"

definition decode_StoreStaticToAddress :: "DmntCheatVm \<Rightarrow> u32 \<Rightarrow> cursor \<Rightarrow> VmOpcode \<times> cursor" where
  "decode_StoreStaticToAddress vm first_dword c =
     (let (high, c) = GetNextDword vm c; (low, c) = GetNextDword vm c
      in (StoreStaticToAddressOpcode (nibble 24 first_dword) (nibble 16 first_dword)
            (nibble 12 first_dword \<noteq> 0) (nibble 8 first_dword \<noteq> 0) (nibble 4 first_dword)
            (push_bit 32 (ucast high) OR ucast low), c))"

definition decode_PerformArithmeticStatic ::
    "DmntCheatVm \<Rightarrow> u32 \<Rightarrow> cursor \<Rightarrow> VmOpcode \<times> cursor" where
  "decode_PerformArithmeticStatic vm first_dword c =
     (let (val, c) = GetNextDword vm c
      in (PerformArithmeticStaticOpcode (nibble 24 first_dword) (nibble 16 first_dword)
            (to_ArithmeticType (nibble 12 first_dword)) val, c))"

definition decode_BeginKeypressConditional :: "u32 \<Rightarrow> VmOpcode" where
  "decode_BeginKeypressConditional first_dword =
     BeginKeypressConditionalOpcode (first_dword AND 0x0FFFFFFF)"

definition decode_PerformArithmeticRegister ::
    "DmntCheatVm \<Rightarrow> u32 \<Rightarrow> cursor \<Rightarrow> VmOpcode \<times> cursor" where
  "decode_PerformArithmeticRegister vm first_dword c =
     (let bit_width = nibble 24 first_dword;
          math_type = to_ArithmeticType (nibble 20 first_dword);
          dst = nibble 16 first_dword;
          src1 = nibble 12 first_dword;
          has_immediate = (nibble 8 first_dword \<noteq> 0)
      in if has_immediate then
           (let (val, c) = GetNextVmInt vm bit_width c
            in (PerformArithmeticRegisterOpcode bit_width math_type dst src1 0 True val, c))
         else
           (PerformArithmeticRegisterOpcode bit_width math_type dst src1 (nibble 4 first_dword)
              False 0, c))"

definition decode_StoreRegisterToAddress ::
    "DmntCheatVm \<Rightarrow> u32 \<Rightarrow> cursor \<Rightarrow> VmOpcode \<times> cursor" where
  "decode_StoreRegisterToAddress vm first_dword c =
     (let bit_width = nibble 24 first_dword;
          str_reg = nibble 20 first_dword;
          addr_reg = nibble 16 first_dword;
          increment = (nibble 12 first_dword \<noteq> 0);
          ofs_type = to_OffsetType (nibble 8 first_dword);
          ofs_reg = nibble 4 first_dword;
          mem_type = to_MemoryAccessType (nibble 4 first_dword);
          mk = (\<lambda>ot mt rel. StoreRegisterToAddressOpcode bit_width str_reg addr_reg increment ot mt
                 ofs_reg rel)
      in case ofs_type of
           OfsNone \<Rightarrow> (mk OfsNone MainNso 0, c)
         | OfsReg \<Rightarrow> (mk OfsReg MainNso 0, c)
         | OfsImm \<Rightarrow>
             (let (low, c) = GetNextDword vm c
              in (mk OfsImm MainNso (rel_address_of (first_dword AND 0xF) low), c))
         | OfsMemReg \<Rightarrow> (mk OfsMemReg mem_type 0, c)
         | OfsMemImm \<Rightarrow>
             (let (low, c) = GetNextDword vm c
              in (mk OfsMemImm mem_type (rel_address_of (first_dword AND 0xF) low), c))
         | OfsMemImmReg \<Rightarrow>
             (let (low, c) = GetNextDword vm c
              in (mk OfsMemImmReg mem_type (rel_address_of (first_dword AND 0xF) low), c))
         | OffsetType_other _ \<Rightarrow> (mk OfsNone MainNso 0, c))"

definition decode_BeginRegisterConditional ::
    "DmntCheatVm \<Rightarrow> u32 \<Rightarrow> cursor \<Rightarrow> VmOpcode \<times> cursor" where
  "decode_BeginRegisterConditional vm first_dword c =
     (let bit_width = nibble 20 first_dword;
          cond_type = to_ComparisonType (nibble 16 first_dword);
          val_reg = nibble 12 first_dword;
          comp_type = to_CompareType (nibble 8 first_dword);
          mem_type = to_MemoryAccessType (nibble 4 first_dword);
          mk = BeginRegisterConditionalOpcode bit_width cond_type val_reg comp_type
      in case comp_type of
           CmpStaticValue \<Rightarrow>
             (let (val, c) = GetNextVmInt vm bit_width c in (mk MainNso 0 0 0 0 val, c))
         | CmpOtherRegister \<Rightarrow> (mk MainNso 0 (nibble 4 first_dword) 0 0 0, c)
         | CmpMemoryRelAddr \<Rightarrow>
             (let (low, c) = GetNextDword vm c
              in (mk mem_type 0 0 0 (rel_address_of (first_dword AND 0xF) low) 0, c))
         | CmpMemoryOfsReg \<Rightarrow> (mk mem_type 0 0 (first_dword AND 0xF) 0 0, c)
         | CmpRegisterRelAddr \<Rightarrow>
             (let (low, c) = GetNextDword vm c
              in (mk MainNso (nibble 4 first_dword) 0 0
                    (rel_address_of (first_dword AND 0xF) low) 0, c))
         | CmpRegisterOfsReg \<Rightarrow>
             (mk MainNso (nibble 4 first_dword) 0 (first_dword AND 0xF) 0 0, c)
         | CompareType_other _ \<Rightarrow> (mk MainNso 0 0 0 0 0, c))"

definition decode_SaveRestoreRegister :: "u32 \<Rightarrow> VmOpcode" where
  "decode_SaveRestoreRegister first_dword =
     SaveRestoreRegisterOpcode (nibble 16 first_dword) (nibble 8 first_dword)
       (to_SaveRestoreType (nibble 4 first_dword))"

definition decode_SaveRestoreRegisterMask :: "u32 \<Rightarrow> VmOpcode" where
  "decode_SaveRestoreRegisterMask first_dword =
     SaveRestoreRegisterMaskOpcode (to_SaveRestoreType (nibble 20 first_dword))
       (map (\<lambda>i. first_dword AND push_bit i 1 \<noteq> 0) [0..<NumRegisters])"

definition decode_ReadWriteStaticRegister :: "u32 \<Rightarrow> VmOpcode" where
  "decode_ReadWriteStaticRegister first_dword =
     ReadWriteStaticRegisterOpcode (drop_bit 4 first_dword AND 0xFF) (first_dword AND 0xF)"

definition decode_DebugLog :: "DmntCheatVm \<Rightarrow> u32 \<Rightarrow> cursor \<Rightarrow> VmOpcode \<times> cursor" where
  "decode_DebugLog vm first_dword c =
     (let bit_width = nibble 16 first_dword;
          log_id = nibble 12 first_dword;
          val_type = to_LogValueType (nibble 8 first_dword);
          mem_type = to_MemoryAccessType (nibble 4 first_dword);
          mk = DebugLogOpcode bit_width log_id val_type
      in case val_type of
           LogRegisterValue \<Rightarrow> (mk MainNso 0 (nibble 4 first_dword) 0 0, c)
         | LogMemoryRelAddr \<Rightarrow>
             (let (low, c) = GetNextDword vm c
              in (mk mem_type 0 0 0 (rel_address_of (first_dword AND 0xF) low), c))
         | LogMemoryOfsReg \<Rightarrow> (mk mem_type 0 0 (first_dword AND 0xF) 0, c)
         | LogRegisterRelAddr \<Rightarrow>
             (let (low, c) = GetNextDword vm c
              in (mk MainNso (nibble 4 first_dword) 0 0
                    (rel_address_of (first_dword AND 0xF) low), c))
         | LogRegisterOfsReg \<Rightarrow> (mk MainNso (nibble 4 first_dword) 0 (first_dword AND 0xF) 0, c)
         | LogValueType_other _ \<Rightarrow> (mk MainNso 0 0 0 0, c))"

section \<open>The decoder\<close>

text \<open>The second \<^verbatim>\<open>switch\<close> of the source. An unrecognised opcode type makes the decoding invalid.\<close>

definition decode_body ::
    "DmntCheatVm \<Rightarrow> CheatVmOpcodeType \<Rightarrow> u32 \<Rightarrow> cursor \<Rightarrow> VmOpcode \<times> cursor" where
  "decode_body vm t first_dword c =
     (case t of
        StoreStatic \<Rightarrow> decode_StoreStatic vm first_dword c
      | BeginConditionalBlock \<Rightarrow> decode_BeginConditional vm first_dword c
      | EndConditionalBlock \<Rightarrow> (decode_EndConditional first_dword, c)
      | ControlLoop \<Rightarrow> decode_ControlLoop vm first_dword c
      | LoadRegisterStatic \<Rightarrow> decode_LoadRegisterStatic vm first_dword c
      | LoadRegisterMemory \<Rightarrow> decode_LoadRegisterMemory vm first_dword c
      | StoreStaticToAddress \<Rightarrow> decode_StoreStaticToAddress vm first_dword c
      | PerformArithmeticStatic \<Rightarrow> decode_PerformArithmeticStatic vm first_dword c
      | BeginKeypressConditionalBlock \<Rightarrow> (decode_BeginKeypressConditional first_dword, c)
      | PerformArithmeticRegister \<Rightarrow> decode_PerformArithmeticRegister vm first_dword c
      | StoreRegisterToAddress \<Rightarrow> decode_StoreRegisterToAddress vm first_dword c
      | BeginRegisterConditionalBlock \<Rightarrow> decode_BeginRegisterConditional vm first_dword c
      | SaveRestoreRegister \<Rightarrow> (decode_SaveRestoreRegister first_dword, c)
      | SaveRestoreRegisterMask \<Rightarrow> (decode_SaveRestoreRegisterMask first_dword, c)
      | ReadWriteStaticRegister \<Rightarrow> (decode_ReadWriteStaticRegister first_dword, c)
      | PauseProcessType \<Rightarrow> (PauseProcessOpcode, c)
      | ResumeProcessType \<Rightarrow> (ResumeProcessOpcode, c)
      | DebugLogType \<Rightarrow> decode_DebugLog vm first_dword c
      | _ \<Rightarrow> (UnrecognizedInstruction t, (fst c, False, snd (snd c))))"

text \<open>
  The result is \<open>None\<close> where the source returns false; the out parameter is then left alone and
  no caller reads it. The scope guard clears \<^verbatim>\<open>decode_success\<close> on every failure.
\<close>

definition DecodeNextOpcode :: "DmntCheatVm \<Rightarrow> vm_fault + CheatVmOpcode option \<times> DmntCheatVm" where
  "DecodeNextOpcode vm =
     (let (first_dword, (ip, valid, fault)) = GetNextDword vm (instruction_ptr vm, decode_success vm, None) in
      if fault \<noteq> None then Inl (the fault)
      else if \<not> valid then Inr (None, vm\<lparr>instruction_ptr := ip, decode_success := False\<rparr>)
      else
        (let t = to_OpcodeType (opcode_type_of first_dword);
             (op, (ip', valid', fault')) = decode_body vm t first_dword (ip, valid, fault);
             vm' = vm\<lparr>instruction_ptr := ip', decode_success := decode_success vm \<and> valid'\<rparr>
         in if fault' \<noteq> None then Inl (the fault')
            else if valid'
            then Inr (Some \<lparr>begin_conditional_block = begins_conditional t, vm_opcode = op\<rparr>, vm')
            else Inr (None, vm')))"

section \<open>Register indices of decoded opcodes\<close>

text \<open>
  Every register index of a decoded opcode is below \<^verbatim>\<open>NumRegisters\<close>, every static register index
  below \<^verbatim>\<open>NumStaticRegisters\<close>, and the register mask has one flag per register.
\<close>

fun opcode_ok :: "VmOpcode \<Rightarrow> bool" where
  "opcode_ok (StoreStaticOpcode _ _ ofs _ _) = (unat ofs < NumRegisters)"
| "opcode_ok (ControlLoopOpcode _ reg _) = (unat reg < NumRegisters)"
| "opcode_ok (LoadRegisterStaticOpcode reg _) = (unat reg < NumRegisters)"
| "opcode_ok (LoadRegisterMemoryOpcode _ _ reg _ _) = (unat reg < NumRegisters)"
| "opcode_ok (StoreStaticToAddressOpcode _ reg _ _ ofs _) =
     (unat reg < NumRegisters \<and> unat ofs < NumRegisters)"
| "opcode_ok (PerformArithmeticStaticOpcode _ reg _ _) = (unat reg < NumRegisters)"
| "opcode_ok (PerformArithmeticRegisterOpcode _ _ dst src1 src2 _ _) =
     (unat dst < NumRegisters \<and> unat src1 < NumRegisters \<and> unat src2 < NumRegisters)"
| "opcode_ok (StoreRegisterToAddressOpcode _ str addr _ _ _ ofs _) =
     (unat str < NumRegisters \<and> unat addr < NumRegisters \<and> unat ofs < NumRegisters)"
| "opcode_ok (BeginRegisterConditionalOpcode _ _ val _ _ addr other ofs _ _) =
     (unat val < NumRegisters \<and> unat addr < NumRegisters \<and> unat other < NumRegisters \<and>
      unat ofs < NumRegisters)"
| "opcode_ok (SaveRestoreRegisterOpcode dst src _) =
     (unat dst < NumRegisters \<and> unat src < NumRegisters)"
| "opcode_ok (SaveRestoreRegisterMaskOpcode _ ops) = (length ops = NumRegisters)"
| "opcode_ok (ReadWriteStaticRegisterOpcode st reg) =
     (unat st < NumStaticRegisters \<and> unat reg < NumRegisters)"
| "opcode_ok (DebugLogOpcode _ _ _ _ addr val ofs _) =
     (unat addr < NumRegisters \<and> unat val < NumRegisters \<and> unat ofs < NumRegisters)"
| "opcode_ok _ = True"

text \<open>How a decoder may move the cursor: forwards, within the program, only losing validity, and without a fault
  where the program fits in its array.\<close>

definition cursor_le :: "DmntCheatVm \<Rightarrow> cursor \<Rightarrow> cursor \<Rightarrow> bool" where
  "cursor_le vm c c' \<longleftrightarrow>
     fst c \<le> fst c' \<and> (fst (snd c') \<longrightarrow> fst (snd c)) \<and> fst c' \<le> max (fst c) (num_opcodes vm) \<and>
     (snd (snd c') = None \<longrightarrow> snd (snd c) = None) \<and>
     (num_opcodes vm \<le> length (program vm) \<longrightarrow> snd (snd c') = snd (snd c))"

section \<open>Lemmas\<close>

lemma nibble_less [simp]: "unat (nibble k w) < 16"
  by (simp add: nibble_def)

lemma cursor_le_refl [simp, intro]: "cursor_le vm c c"
  by (simp add: cursor_le_def)

lemma cursor_le_trans: "cursor_le vm a b \<Longrightarrow> cursor_le vm b c \<Longrightarrow> cursor_le vm a c"
  by (auto simp: cursor_le_def max_def split: if_splits)

lemma cursor_le_invalid [simp]: "cursor_le vm c c' \<Longrightarrow> cursor_le vm c (fst c', False, snd (snd c'))"
  by (simp add: cursor_le_def)

lemma GetNextDword_le: "GetNextDword vm c = (w, c') \<Longrightarrow> cursor_le vm c c'"
  by (auto simp: GetNextDword_def cursor_le_def arr_get_def split: prod.splits if_splits)

lemma GetNextVmInt_le: "GetNextVmInt vm bw c = (v, c') \<Longrightarrow> cursor_le vm c c'"
  by (auto simp: GetNextVmInt_def Let_def split: prod.splits if_splits
      dest!: GetNextDword_le intro: cursor_le_trans)

lemmas decode_defs = decode_StoreStatic_def decode_BeginConditional_def decode_EndConditional_def
  decode_ControlLoop_def decode_LoadRegisterStatic_def decode_LoadRegisterMemory_def
  decode_StoreStaticToAddress_def decode_PerformArithmeticStatic_def
  decode_BeginKeypressConditional_def decode_PerformArithmeticRegister_def
  decode_StoreRegisterToAddress_def decode_BeginRegisterConditional_def
  decode_SaveRestoreRegister_def decode_SaveRestoreRegisterMask_def
  decode_ReadWriteStaticRegister_def decode_DebugLog_def

lemmas enum_splits = StoreRegisterOffsetType.splits CompareRegisterValueType.splits
  DebugLogValueType.splits

lemma decode_body_le: "decode_body vm t w c = (op, c') \<Longrightarrow> cursor_le vm c c'"
  by (cases t)
    (auto simp: decode_body_def decode_defs Let_def split: prod.splits if_splits enum_splits
      dest!: GetNextDword_le GetNextVmInt_le intro: cursor_le_trans)

lemma decode_body_ok: "decode_body vm t w c = (op, c') \<Longrightarrow> opcode_ok op"
  by (cases t)
    (auto simp: decode_body_def decode_defs Let_def NumRegisters_def NumStaticRegisters_def
      NumReadableStaticRegisters_def NumWritableStaticRegisters_def
      split: prod.splits if_splits enum_splits)

lemma DecodeNextOpcode_Some:
  assumes "DecodeNextOpcode vm = Inr (Some op, vm')"
  shows "\<exists>ip'. vm' = vm\<lparr>instruction_ptr := ip'\<rparr> \<and> instruction_ptr vm < ip' \<and>
           ip' \<le> num_opcodes vm"
    and "decode_success vm" and "opcode_ok (vm_opcode op)"
proof -
  let ?ip = "instruction_ptr vm"
  obtain w ip valid where first: "GetNextDword vm (?ip, decode_success vm, None) = (w, (ip, valid, None))" and valid: "valid"
    using assms by (auto simp: DecodeNextOpcode_def Let_def split: prod.splits if_splits)
  then have lt: "?ip < num_opcodes vm" "ip = ?ip + 1" and ds: "decode_success vm"
    by (auto simp: GetNextDword_def arr_get_def split: if_splits)
  obtain opc ip' where body: "decode_body vm (to_OpcodeType (opcode_type_of w)) w (ip, True, None) = (opc, (ip', True, None))"
      and vm': "vm' = vm\<lparr>instruction_ptr := ip'\<rparr>" and op: "vm_opcode op = opc"
    using assms first valid ds by (auto simp: DecodeNextOpcode_def Let_def split: prod.splits if_splits)
  from decode_body_le [OF body] lt have "?ip < ip'" "ip' \<le> num_opcodes vm"
    by (auto simp: cursor_le_def)
  with vm' show "\<exists>ip'. vm' = vm\<lparr>instruction_ptr := ip'\<rparr> \<and> ?ip < ip' \<and> ip' \<le> num_opcodes vm"
    by blast
  show "opcode_ok (vm_opcode op)" using decode_body_ok [OF body] op by simp
  show "decode_success vm" by (rule ds)
qed

lemma DecodeNextOpcode_None:
  assumes "DecodeNextOpcode vm = Inr (None, vm')"
  shows "\<exists>ip'. vm' = vm\<lparr>instruction_ptr := ip', decode_success := False\<rparr>"
  using assms by (auto simp: DecodeNextOpcode_def Let_def split: if_splits prod.splits)

lemma DecodeNextOpcode_in_bounds:
  assumes "num_opcodes vm \<le> length (program vm)"
  shows "\<exists>r vm'. DecodeNextOpcode vm = Inr (r, vm')"
proof -
  obtain w ip valid fault where first: "GetNextDword vm (instruction_ptr vm, decode_success vm, None) = (w, (ip, valid, fault))"
    by (metis prod.collapse)
  obtain op ip' valid' fault' where body: "decode_body vm (to_OpcodeType (opcode_type_of w)) w (ip, valid, fault) = (op, (ip', valid', fault'))"
    by (metis prod.collapse)
  have "fault = None" using GetNextDword_le [OF first] assms by (simp add: cursor_le_def)
  moreover have "fault' = None" using decode_body_le [OF body] assms calculation by (simp add: cursor_le_def)
  ultimately show ?thesis using first body by (cases valid) (simp_all add: DecodeNextOpcode_def Let_def)
qed

text \<open>The decoder reads the program and the cursor only.\<close>

lemma GetNextDword_cong:
  "program vm = program vm2 \<Longrightarrow> num_opcodes vm = num_opcodes vm2 \<Longrightarrow>
   GetNextDword vm = GetNextDword vm2"
  by (simp add: GetNextDword_def fun_eq_iff)

lemma decode_body_cong:
  assumes "program vm = program vm2" "num_opcodes vm = num_opcodes vm2"
  shows "decode_body vm = decode_body vm2"
proof -
  note eq = GetNextDword_cong [OF assms]
  show ?thesis
    unfolding fun_eq_iff decode_body_def decode_defs GetNextVmInt_def eq by simp
qed

end
