(* ===== verification/Cheat_Log.thy ===== *)
theory Cheat_Log
  imports Cheat_Types
begin

text \<open>
  \<^verbatim>\<open>DmntCheatVm::LogOpcode\<close>: the lines the machine writes to its command log for a decoded opcode,
  with the integer formats of \<^verbatim>\<open>fmt\<close> it uses (\<^verbatim>\<open>{:X}\<close>, \<^verbatim>\<open>{:d}\<close> and zero-padded \<^verbatim>\<open>{:0nX}\<close>).
\<close>

section \<open>Formats\<close>

definition digit_char :: "nat \<Rightarrow> char" where
  "digit_char d = ''0123456789ABCDEF'' ! (d mod 16)"

fun digits_of :: "nat \<Rightarrow> nat \<Rightarrow> string" where
  "digits_of base n =
     (if base < 2 \<or> n < base then [digit_char n]
      else digits_of base (n div base) @ [digit_char (n mod base)])"

declare digits_of.simps [simp del]

definition fmt_X :: "nat \<Rightarrow> string" where
  "fmt_X n = digits_of 16 n"

definition fmt_d :: "nat \<Rightarrow> string" where
  "fmt_d n = digits_of 10 n"

definition fmt_0X :: "nat \<Rightarrow> nat \<Rightarrow> string" where
  "fmt_0X width n = (let s = fmt_X n in replicate (width - length s) (CHR ''0'') @ s)"

definition fmt_bool_d :: "bool \<Rightarrow> string" where
  "fmt_bool_d b = (if b then ''1'' else ''0'')"

section \<open>The log lines of an opcode\<close>

definition log_StoreRegisterToAddress ::
    "u32 \<Rightarrow> u32 \<Rightarrow> u32 \<Rightarrow> bool \<Rightarrow> StoreRegisterOffsetType \<Rightarrow> MemoryAccessType \<Rightarrow> u32 \<Rightarrow> u64
      \<Rightarrow> string list" where
  "log_StoreRegisterToAddress bw str addr incr ofs_type mt ofs rel =
     [''Opcode: Store Register to Address'', ''Bit Width: '' @ fmt_X (unat bw),
      ''S Reg Idx: '' @ fmt_X (unat str), ''A Reg Idx: '' @ fmt_X (unat addr),
      ''Incr Reg:  '' @ fmt_bool_d incr] @
     (case ofs_type of
        OfsNone \<Rightarrow> []
      | OfsReg \<Rightarrow> [''O Reg Idx: '' @ fmt_X (unat ofs)]
      | OfsImm \<Rightarrow> [''Rel Addr:  '' @ fmt_X (unat rel)]
      | OfsMemReg \<Rightarrow> [''Mem Type:  '' @ fmt_X (unat (MemoryAccessType_value mt))]
      | OfsMemImm \<Rightarrow> [''Mem Type:  '' @ fmt_X (unat (MemoryAccessType_value mt)),
                     ''Rel Addr:  '' @ fmt_X (unat rel)]
      | OfsMemImmReg \<Rightarrow> [''Mem Type:  '' @ fmt_X (unat (MemoryAccessType_value mt)),
                        ''Rel Addr:  '' @ fmt_X (unat rel)]
      | OffsetType_other _ \<Rightarrow> [])"

definition log_BeginRegisterConditional ::
    "u32 \<Rightarrow> ConditionalComparisonType \<Rightarrow> u32 \<Rightarrow> CompareRegisterValueType \<Rightarrow> MemoryAccessType \<Rightarrow>
      u32 \<Rightarrow> u32 \<Rightarrow> u32 \<Rightarrow> u64 \<Rightarrow> VmInt \<Rightarrow> string list" where
  "log_BeginRegisterConditional bw ct val cmp mt addr other ofs rel v =
     [''Opcode: Begin Register Conditional'', ''Bit Width: '' @ fmt_X (unat bw),
      ''Cond Type: '' @ fmt_X (unat (ComparisonType_value ct)),
      ''V Reg Idx: '' @ fmt_X (unat val)] @
     (case cmp of
        CmpStaticValue \<Rightarrow> [''Comp Type: Static Value'', ''Value:     '' @ fmt_X (unat v)]
      | CmpOtherRegister \<Rightarrow>
          [''Comp Type: Other Register'', ''X Reg Idx: '' @ fmt_X (unat other)]
      | CmpMemoryRelAddr \<Rightarrow>
          [''Comp Type: Memory Relative Address'',
           ''Mem Type:  '' @ fmt_X (unat (MemoryAccessType_value mt)),
           ''Rel Addr:  '' @ fmt_X (unat rel)]
      | CmpMemoryOfsReg \<Rightarrow>
          [''Comp Type: Memory Offset Register'',
           ''Mem Type:  '' @ fmt_X (unat (MemoryAccessType_value mt)),
           ''O Reg Idx: '' @ fmt_X (unat ofs)]
      | CmpRegisterRelAddr \<Rightarrow>
          [''Comp Type: Register Relative Address'', ''A Reg Idx: '' @ fmt_X (unat addr),
           ''Rel Addr:  '' @ fmt_X (unat rel)]
      | CmpRegisterOfsReg \<Rightarrow>
          [''Comp Type: Register Offset Register'', ''A Reg Idx: '' @ fmt_X (unat addr),
           ''O Reg Idx: '' @ fmt_X (unat ofs)]
      | CompareType_other _ \<Rightarrow> [])"

definition log_DebugLog ::
    "u32 \<Rightarrow> u32 \<Rightarrow> DebugLogValueType \<Rightarrow> MemoryAccessType \<Rightarrow> u32 \<Rightarrow> u32 \<Rightarrow> u32 \<Rightarrow> u64
      \<Rightarrow> string list" where
  "log_DebugLog bw log_id vt mt addr val ofs rel =
     [''Opcode: Debug Log'', ''Bit Width: '' @ fmt_X (unat bw),
      ''Log ID:    '' @ fmt_X (unat log_id),
      ''Val Type:  '' @ fmt_X (unat (LogValueType_value vt))] @
     (case vt of
        LogRegisterValue \<Rightarrow>
          [''Val Type:  Register Value'', ''X Reg Idx: '' @ fmt_X (unat val)]
      | LogMemoryRelAddr \<Rightarrow>
          [''Val Type:  Memory Relative Address'',
           ''Mem Type:  '' @ fmt_X (unat (MemoryAccessType_value mt)),
           ''Rel Addr:  '' @ fmt_X (unat rel)]
      | LogMemoryOfsReg \<Rightarrow>
          [''Val Type:  Memory Offset Register'',
           ''Mem Type:  '' @ fmt_X (unat (MemoryAccessType_value mt)),
           ''O Reg Idx: '' @ fmt_X (unat ofs)]
      | LogRegisterRelAddr \<Rightarrow>
          [''Val Type:  Register Relative Address'', ''A Reg Idx: '' @ fmt_X (unat addr),
           ''Rel Addr:  '' @ fmt_X (unat rel)]
      | LogRegisterOfsReg \<Rightarrow>
          [''Val Type:  Register Offset Register'', ''A Reg Idx: '' @ fmt_X (unat addr),
           ''O Reg Idx: '' @ fmt_X (unat ofs)]
      | LogValueType_other _ \<Rightarrow> [])"

fun LogOpcode :: "VmOpcode \<Rightarrow> string list" where
  "LogOpcode (StoreStaticOpcode bw mt ofs rel v) =
     [''Opcode: Store Static'', ''Bit Width: '' @ fmt_X (unat bw),
      ''Mem Type:  '' @ fmt_X (unat (MemoryAccessType_value mt)),
      ''Reg Idx:   '' @ fmt_X (unat ofs), ''Rel Addr:  '' @ fmt_X (unat rel),
      ''Value:     '' @ fmt_X (unat v)]"
| "LogOpcode (BeginConditionalOpcode bw mt ct rel v) =
     [''Opcode: Begin Conditional'', ''Bit Width: '' @ fmt_X (unat bw),
      ''Mem Type:  '' @ fmt_X (unat (MemoryAccessType_value mt)),
      ''Cond Type: '' @ fmt_X (unat (ComparisonType_value ct)),
      ''Rel Addr:  '' @ fmt_X (unat rel), ''Value:     '' @ fmt_X (unat v)]"
| "LogOpcode (EndConditionalOpcode is_else) = [''Opcode: End Conditional'']"
| "LogOpcode (ControlLoopOpcode start reg n) =
     (if start then
        [''Opcode: Start Loop'', ''Reg Idx:   '' @ fmt_X (unat reg), ''Num Iters: '' @ fmt_X (unat n)]
      else [''Opcode: End Loop'', ''Reg Idx:   '' @ fmt_X (unat reg)])"
| "LogOpcode (LoadRegisterStaticOpcode reg v) =
     [''Opcode: Load Register Static'', ''Reg Idx:   '' @ fmt_X (unat reg),
      ''Value:     '' @ fmt_X (unat v)]"
| "LogOpcode (LoadRegisterMemoryOpcode bw mt reg from_reg rel) =
     [''Opcode: Load Register Memory'', ''Bit Width: '' @ fmt_X (unat bw),
      ''Reg Idx:   '' @ fmt_X (unat reg),
      ''Mem Type:  '' @ fmt_X (unat (MemoryAccessType_value mt)),
      ''From Reg:  '' @ fmt_bool_d from_reg, ''Rel Addr:  '' @ fmt_X (unat rel)]"
| "LogOpcode (StoreStaticToAddressOpcode bw reg incr add ofs v) =
     [''Opcode: Store Static to Address'', ''Bit Width: '' @ fmt_X (unat bw),
      ''Reg Idx:   '' @ fmt_X (unat reg)] @
     (if add then [''O Reg Idx: '' @ fmt_X (unat ofs)] else []) @
     [''Incr Reg:  '' @ fmt_bool_d incr, ''Value:     '' @ fmt_X (unat v)]"
| "LogOpcode (PerformArithmeticStaticOpcode bw reg mt v) =
     [''Opcode: Perform Static Arithmetic'', ''Bit Width: '' @ fmt_X (unat bw),
      ''Reg Idx:   '' @ fmt_X (unat reg),
      ''Math Type: '' @ fmt_X (unat (ArithmeticType_value mt)), ''Value:     '' @ fmt_X (unat v)]"
| "LogOpcode (BeginKeypressConditionalOpcode keys) =
     [''Opcode: Begin Keypress Conditional'', ''Key Mask:  '' @ fmt_X (unat keys)]"
| "LogOpcode (PerformArithmeticRegisterOpcode bw mt dst src1 src2 has_imm v) =
     [''Opcode: Perform Register Arithmetic'', ''Bit Width: '' @ fmt_X (unat bw),
      ''Dst Idx:   '' @ fmt_X (unat dst), ''Src1 Idx:  '' @ fmt_X (unat src1),
      (if has_imm then ''Value:     '' @ fmt_X (unat v) else ''Src2 Idx:  '' @ fmt_X (unat src2))]"
| "LogOpcode (StoreRegisterToAddressOpcode bw str addr incr ot mt ofs rel) =
     log_StoreRegisterToAddress bw str addr incr ot mt ofs rel"
| "LogOpcode (BeginRegisterConditionalOpcode bw ct val cmp mt addr other ofs rel v) =
     log_BeginRegisterConditional bw ct val cmp mt addr other ofs rel v"
| "LogOpcode (SaveRestoreRegisterOpcode dst src kind) =
     [''Opcode: Save or Restore Register'', ''Dst Idx:   '' @ fmt_X (unat dst),
      ''Src Idx:   '' @ fmt_X (unat src),
      ''Op Type:   '' @ fmt_d (unat (SaveRestoreType_value kind))]"
| "LogOpcode (SaveRestoreRegisterMaskOpcode kind ops) =
     [''Opcode: Save or Restore Register Mask'',
      ''Op Type:   '' @ fmt_d (unat (SaveRestoreType_value kind))] @
     map (\<lambda>i. ''Act['' @ fmt_0X 2 i @ '']:   '' @ fmt_bool_d (ops ! i)) [0..<NumRegisters]"
| "LogOpcode (ReadWriteStaticRegisterOpcode st reg) =
     [''Opcode: Read/Write Static Register'',
      (if unat st < NumReadableStaticRegisters then ''Op Type: ReadStaticRegister''
       else ''Op Type: WriteStaticRegister''),
      ''Reg Idx   '' @ fmt_X (unat reg), ''Stc Idx   '' @ fmt_X (unat st)]"
| "LogOpcode PauseProcessOpcode = []"
| "LogOpcode ResumeProcessOpcode = []"
| "LogOpcode (DebugLogOpcode bw log_id vt mt addr val ofs rel) =
     log_DebugLog bw log_id vt mt addr val ofs rel"
| "LogOpcode (UnrecognizedInstruction t) =
     [''Unknown opcode: '' @ fmt_X (unat (OpcodeType_value t))]"

text \<open>The lines of the register dump at the head of every iteration of \<^verbatim>\<open>Execute\<close>.\<close>

definition log_registers :: "string \<Rightarrow> u64 list \<Rightarrow> string list" where
  "log_registers name regs =
     map (\<lambda>i. name @ ''['' @ fmt_0X 2 i @ '']: '' @ fmt_0X 16 (unat (regs ! i))) [0..<NumRegisters]"

end
