(* ===== verification/Cheat_Vm.thy ===== *)
theory Cheat_Vm
  imports Cheat_Decode Cheat_Log
begin

text \<open>
  The cheat virtual machine of \<^verbatim>\<open>core/memory/dmnt_cheat_vm.cpp\<close>: \<^verbatim>\<open>SkipConditionalBlock\<close>, \<^verbatim>\<open>GetVmInt\<close>,
  \<^verbatim>\<open>GetCheatProcessAddress\<close>, \<^verbatim>\<open>ResetState\<close>, \<^verbatim>\<open>LoadProgram\<close> and the interpreter loop \<^verbatim>\<open>Execute\<close>, with one
  definition per opcode it handles. The callbacks of the machine are a parameter, a table of
  functions over a state \<open>'e\<close> of the outside world. A handler returns the new machine and
  world, or the fault the C++ code would run into. A cheat may loop for ever, so \<^verbatim>\<open>Execute\<close> is a
  partial function: \<open>None\<close> is not returning.
\<close>

section \<open>Helpers of the interpreter\<close>

text \<open>
  \<^verbatim>\<open>SkipConditionalBlock\<close> for a positive depth: decode until the depth falls below that of the
  block, or, when an \<^verbatim>\<open>if\<close> branch is skipped, until the \<^verbatim>\<open>else\<close> of the block. Every round decodes at
  least one word, which bounds the loop.
\<close>

function skip_loop :: "bool \<Rightarrow> nat \<Rightarrow> DmntCheatVm \<Rightarrow> vm_fault + DmntCheatVm" where
  "skip_loop is_if desired_depth vm =
     (if desired_depth < condition_depth vm then
        (case DecodeNextOpcode vm of
           Inl f \<Rightarrow> Inl f
         | Inr (None, vm') \<Rightarrow> Inr vm'
         | Inr (Some skip_opcode, vm') \<Rightarrow>
             if begin_conditional_block skip_opcode then
               skip_loop is_if desired_depth (vm'\<lparr>condition_depth := condition_depth vm' + 1\<rparr>)
             else
               (case vm_opcode skip_opcode of
                  EndConditionalOpcode is_else \<Rightarrow>
                    if \<not> is_else then
                      skip_loop is_if desired_depth (vm'\<lparr>condition_depth := condition_depth vm' - 1\<rparr>)
                    else if is_if \<and> condition_depth vm' - 1 = desired_depth then Inr vm'
                    else skip_loop is_if desired_depth vm'
                | _ \<Rightarrow> skip_loop is_if desired_depth vm'))
      else Inr vm)"
  by pat_completeness auto
termination
  by (relation "measure (\<lambda>(_, _, vm). num_opcodes vm - instruction_ptr vm)")
    (auto dest!: DecodeNextOpcode_Some(1))

declare skip_loop.simps [simp del]

definition SkipConditionalBlock :: "bool \<Rightarrow> DmntCheatVm \<Rightarrow> vm_fault + DmntCheatVm" where
  "SkipConditionalBlock is_if vm =
     (if 0 < condition_depth vm then skip_loop is_if (condition_depth vm - 1) vm
      else Inl InvalidConditionDepth)"

definition GetVmInt :: "VmInt \<Rightarrow> u32 \<Rightarrow> u64" where
  "GetVmInt v bit_width =
     (if bit_width = 1 then ucast (ucast v :: u8)
      else if bit_width = 2 then ucast (ucast v :: u16)
      else if bit_width = 4 then ucast (ucast v :: u32)
      else if bit_width = 8 then v else 0)"

definition GetCheatProcessAddress :: "CheatProcessMetadata \<Rightarrow> MemoryAccessType \<Rightarrow> u64 \<Rightarrow> u64" where
  "GetCheatProcessAddress metadata mem_type rel_address =
     (case mem_type of
        Heap \<Rightarrow> ext_base (heap_extents metadata) + rel_address
      | Alias \<Rightarrow> ext_base (alias_extents metadata) + rel_address
      | Aslr \<Rightarrow> ext_base (aslr_extents metadata) + rel_address
      | _ \<Rightarrow> ext_base (main_nso_extents metadata) + rel_address)"

definition ResetState :: "DmntCheatVm \<Rightarrow> DmntCheatVm" where
  "ResetState vm = vm\<lparr>registers := replicate NumRegisters 0, saved_values := replicate NumRegisters 0,
     loop_tops := replicate NumRegisters 0, instruction_ptr := 0, condition_depth := 0,
     decode_success := True\<rparr>"

text \<open>The four widths for which the \<^verbatim>\<open>switch (bit_width)\<close> statements access memory.\<close>

definition valid_width :: "u32 \<Rightarrow> bool" where
  "valid_width w \<longleftrightarrow> w = 1 \<or> w = 2 \<or> w = 4 \<or> w = 8"

text \<open>The casts \<^verbatim>\<open>static_cast<u8>\<close> \<dots> \<^verbatim>\<open>static_cast<u64>\<close> applied to a value; the value itself for other
  widths.\<close>

definition apply_width :: "u32 \<Rightarrow> u64 \<Rightarrow> u64" where
  "apply_width w v =
     (if w = 1 then ucast (ucast v :: u8) else if w = 2 then ucast (ucast v :: u16)
      else if w = 4 then ucast (ucast v :: u32) else v)"

text \<open>A register read through a width, starting from a value of zero: zero for other widths.\<close>

definition width_value :: "u32 \<Rightarrow> u64 \<Rightarrow> u64" where
  "width_value w v = (if valid_width w then apply_width w v else 0)"

definition condition_met :: "ConditionalComparisonType \<Rightarrow> u64 \<Rightarrow> u64 \<Rightarrow> bool" where
  "condition_met ct src_value cond_value =
     (case ct of
        GT \<Rightarrow> cond_value < src_value
      | GE \<Rightarrow> cond_value \<le> src_value
      | LT \<Rightarrow> src_value < cond_value
      | LE \<Rightarrow> src_value \<le> cond_value
      | EQ \<Rightarrow> src_value = cond_value
      | NE \<Rightarrow> src_value \<noteq> cond_value
      | ComparisonType_other _ \<Rightarrow> False)"

text \<open>Register access of the machine.\<close>

definition get_reg :: "DmntCheatVm \<Rightarrow> u32 \<Rightarrow> vm_fault + u64" where
  "get_reg vm i = arr_get IndexOutOfRange (registers vm) (unat i)"

definition set_reg :: "DmntCheatVm \<Rightarrow> u32 \<Rightarrow> u64 \<Rightarrow> vm_fault + DmntCheatVm" where
  "set_reg vm i v =
     bindF (arr_set IndexOutOfRange (registers vm) (unat i) v) (\<lambda>rs. Inr (vm\<lparr>registers := rs\<rparr>))"

text \<open>Memory access on a valid width: a read overwrites the low bytes of the variable it is given.\<close>

definition read_width :: "'e Callbacks \<Rightarrow> u32 \<Rightarrow> u64 \<Rightarrow> u64 \<Rightarrow> 'e \<Rightarrow> u64 \<times> 'e" where
  "read_width cb w address old e =
     (if valid_width w then
        (let (bs, e) = MemoryReadUnsafe cb address (unat w) e in (overlay old bs, e))
      else (old, e))"

definition write_width :: "'e Callbacks \<Rightarrow> u32 \<Rightarrow> u64 \<Rightarrow> u64 \<Rightarrow> 'e \<Rightarrow> 'e" where
  "write_width cb w address v e =
     (if valid_width w then MemoryWriteUnsafe cb address (le_bytes (unat w) v) e else e)"

section \<open>Loading a program\<close>

text \<open>Copying the opcodes of one cheat to the end of the program.\<close>

fun load_opcodes :: "CheatDefinition \<Rightarrow> nat \<Rightarrow> nat \<Rightarrow> DmntCheatVm \<Rightarrow> vm_fault + DmntCheatVm" where
  "load_opcodes d 0 n vm = Inr vm"
| "load_opcodes d (Suc k) n vm =
     bindF (arr_get IndexOutOfRange (def_opcodes d) n) (\<lambda>w.
     bindF (arr_set IndexOutOfRange (program vm) (num_opcodes vm) w) (\<lambda>p.
       load_opcodes d k (n + 1) (vm\<lparr>program := p, num_opcodes := num_opcodes vm + 1\<rparr>)))"

fun load_entries :: "CheatEntry list \<Rightarrow> DmntCheatVm \<Rightarrow> vm_fault + (bool \<times> DmntCheatVm)" where
  "load_entries [] vm = Inr (True, vm)"
| "load_entries (entry # entries) vm =
     (if enabled entry then
        (if unat (def_num_opcodes (cheat_definition entry)) + num_opcodes vm > MaximumProgramOpcodeCount
         then Inr (False, vm\<lparr>num_opcodes := 0\<rparr>)
         else
           bindF (load_opcodes (cheat_definition entry) (unat (def_num_opcodes (cheat_definition entry))) 0 vm)
             (\<lambda>vm. load_entries entries vm))
      else load_entries entries vm)"

definition LoadProgram :: "CheatEntry list \<Rightarrow> DmntCheatVm \<Rightarrow> vm_fault + (bool \<times> DmntCheatVm)" where
  "LoadProgram entries vm = load_entries entries (vm\<lparr>num_opcodes := 0\<rparr>)"

section \<open>The opcode handlers\<close>

type_synonym 'e vm_result = "vm_fault + (DmntCheatVm \<times> 'e)"

definition exec_StoreStatic :: "'e Callbacks \<Rightarrow> CheatProcessMetadata \<Rightarrow> u32 \<Rightarrow> MemoryAccessType \<Rightarrow>
    u32 \<Rightarrow> u64 \<Rightarrow> VmInt \<Rightarrow> DmntCheatVm \<Rightarrow> 'e \<Rightarrow> 'e vm_result" where
  "exec_StoreStatic cb md bit_width mem_type offset_register rel_address v vm e =
     bindF (get_reg vm offset_register) (\<lambda>ofs.
       let dst_address = GetCheatProcessAddress md mem_type (rel_address + ofs);
           dst_value = GetVmInt v bit_width
       in Inr (vm, write_width cb bit_width dst_address dst_value e))"

definition skip_unless :: "bool \<Rightarrow> DmntCheatVm \<Rightarrow> 'e \<Rightarrow> 'e vm_result" where
  "skip_unless cond_met vm e =
     (if cond_met then Inr (vm, e) else bindF (SkipConditionalBlock True vm) (\<lambda>vm. Inr (vm, e)))"

definition exec_BeginConditional :: "'e Callbacks \<Rightarrow> CheatProcessMetadata \<Rightarrow> u32 \<Rightarrow>
    MemoryAccessType \<Rightarrow> ConditionalComparisonType \<Rightarrow> u64 \<Rightarrow> VmInt \<Rightarrow> DmntCheatVm \<Rightarrow> 'e \<Rightarrow>
    'e vm_result" where
  "exec_BeginConditional cb md bit_width mem_type cond_type rel_address v vm e =
     (let src_address = GetCheatProcessAddress md mem_type rel_address;
          (src_value, e) = read_width cb bit_width src_address 0 e;
          cond_value = GetVmInt v bit_width
      in skip_unless (condition_met cond_type src_value cond_value) vm e)"

definition exec_EndConditional :: "bool \<Rightarrow> DmntCheatVm \<Rightarrow> 'e \<Rightarrow> 'e vm_result" where
  "exec_EndConditional is_else vm e =
     (if is_else then bindF (SkipConditionalBlock False vm) (\<lambda>vm. Inr (vm, e))
      else if 0 < condition_depth vm
      then Inr (vm\<lparr>condition_depth := condition_depth vm - 1\<rparr>, e)
      else Inr (vm, e))"

definition exec_ControlLoop :: "bool \<Rightarrow> u32 \<Rightarrow> u32 \<Rightarrow> DmntCheatVm \<Rightarrow> 'e \<Rightarrow> 'e vm_result" where
  "exec_ControlLoop start_loop reg_index num_iters vm e =
     (if start_loop then
        bindF (set_reg vm reg_index (ucast num_iters)) (\<lambda>vm.
        bindF (arr_set IndexOutOfRange (loop_tops vm) (unat reg_index) (instruction_ptr vm)) (\<lambda>tops.
          Inr (vm\<lparr>loop_tops := tops\<rparr>, e)))
      else
        bindF (get_reg vm reg_index) (\<lambda>r.
        bindF (set_reg vm reg_index (r - 1)) (\<lambda>vm.
          if r - 1 \<noteq> 0 then
            bindF (arr_get IndexOutOfRange (loop_tops vm) (unat reg_index)) (\<lambda>top.
              Inr (vm\<lparr>instruction_ptr := top\<rparr>, e))
          else Inr (vm, e))))"

definition exec_LoadRegisterStatic :: "u32 \<Rightarrow> u64 \<Rightarrow> DmntCheatVm \<Rightarrow> 'e \<Rightarrow> 'e vm_result" where
  "exec_LoadRegisterStatic reg_index v vm e = bindF (set_reg vm reg_index v) (\<lambda>vm. Inr (vm, e))"

definition exec_LoadRegisterMemory :: "'e Callbacks \<Rightarrow> CheatProcessMetadata \<Rightarrow> u32 \<Rightarrow>
    MemoryAccessType \<Rightarrow> u32 \<Rightarrow> bool \<Rightarrow> u64 \<Rightarrow> DmntCheatVm \<Rightarrow> 'e \<Rightarrow> 'e vm_result" where
  "exec_LoadRegisterMemory cb md bit_width mem_type reg_index load_from_reg rel_address vm e =
     bindF (get_reg vm reg_index) (\<lambda>old.
       let src_address = (if load_from_reg then old + rel_address
                          else GetCheatProcessAddress md mem_type rel_address);
           (new, e) = read_width cb bit_width src_address old e
       in bindF (set_reg vm reg_index new) (\<lambda>vm. Inr (vm, e)))"

definition exec_StoreStaticToAddress :: "'e Callbacks \<Rightarrow> u32 \<Rightarrow> u32 \<Rightarrow> bool \<Rightarrow> bool \<Rightarrow> u32 \<Rightarrow> u64 \<Rightarrow>
    DmntCheatVm \<Rightarrow> 'e \<Rightarrow> 'e vm_result" where
  "exec_StoreStaticToAddress cb bit_width reg_index increment_reg add_offset_reg offset_reg_index v vm e =
     bindF (get_reg vm reg_index) (\<lambda>base.
     bindF (if add_offset_reg then bindF (get_reg vm offset_reg_index) (\<lambda>o'. Inr (base + o'))
            else Inr base) (\<lambda>dst_address.
       let e = write_width cb bit_width dst_address v e in
       if increment_reg then
         bindF (set_reg vm reg_index (base + ucast bit_width)) (\<lambda>vm. Inr (vm, e))
       else Inr (vm, e)))"

text \<open>Shifting by the width of the type or more is undefined.\<close>

definition shift_left :: "u64 \<Rightarrow> u64 \<Rightarrow> vm_fault + u64" where
  "shift_left a n = (if n < 64 then Inr (push_bit (unat n) a) else Inl ShiftOutOfRange)"

definition shift_right :: "u64 \<Rightarrow> u64 \<Rightarrow> vm_fault + u64" where
  "shift_right a n = (if n < 64 then Inr (drop_bit (unat n) a) else Inl ShiftOutOfRange)"

definition exec_PerformArithmeticStatic :: "u32 \<Rightarrow> u32 \<Rightarrow> RegisterArithmeticType \<Rightarrow> u32 \<Rightarrow>
    DmntCheatVm \<Rightarrow> 'e \<Rightarrow> 'e vm_result" where
  "exec_PerformArithmeticStatic bit_width reg_index math_type v vm e =
     bindF (get_reg vm reg_index) (\<lambda>r.
     bindF (case math_type of
              Addition \<Rightarrow> Inr (r + ucast v)
            | Subtraction \<Rightarrow> Inr (r - ucast v)
            | Multiplication \<Rightarrow> Inr (r * ucast v)
            | LeftShift \<Rightarrow> shift_left r (ucast v)
            | RightShift \<Rightarrow> shift_right r (ucast v)
            | _ \<Rightarrow> Inr r) (\<lambda>res.
     bindF (set_reg vm reg_index (apply_width bit_width res)) (\<lambda>vm. Inr (vm, e))))"

definition exec_BeginKeypressConditional :: "u64 \<Rightarrow> u32 \<Rightarrow> DmntCheatVm \<Rightarrow> 'e \<Rightarrow> 'e vm_result" where
  "exec_BeginKeypressConditional kDown key_mask vm e =
     skip_unless (ucast key_mask AND kDown = ucast key_mask) vm e"

definition register_arithmetic :: "RegisterArithmeticType \<Rightarrow> u64 \<Rightarrow> u64 \<Rightarrow> vm_fault + u64" where
  "register_arithmetic math_type a b =
     (case math_type of
        Addition \<Rightarrow> Inr (a + b)
      | Subtraction \<Rightarrow> Inr (a - b)
      | Multiplication \<Rightarrow> Inr (a * b)
      | LeftShift \<Rightarrow> shift_left a b
      | RightShift \<Rightarrow> shift_right a b
      | LogicalAnd \<Rightarrow> Inr (a AND b)
      | LogicalOr \<Rightarrow> Inr (a OR b)
      | LogicalNot \<Rightarrow> Inr (NOT a)
      | LogicalXor \<Rightarrow> Inr (a XOR b)
      | NoArithmetic \<Rightarrow> Inr a
      | ArithmeticType_other _ \<Rightarrow> Inr 0)"

definition exec_PerformArithmeticRegister :: "u32 \<Rightarrow> RegisterArithmeticType \<Rightarrow> u32 \<Rightarrow> u32 \<Rightarrow> u32 \<Rightarrow>
    bool \<Rightarrow> VmInt \<Rightarrow> DmntCheatVm \<Rightarrow> 'e \<Rightarrow> 'e vm_result" where
  "exec_PerformArithmeticRegister bit_width math_type dst src1 src2 has_immediate v vm e =
     bindF (get_reg vm src1) (\<lambda>a.
     bindF (if has_immediate then Inr (GetVmInt v bit_width) else get_reg vm src2) (\<lambda>b.
     bindF (register_arithmetic math_type a b) (\<lambda>res.
     bindF (set_reg vm dst (apply_width bit_width res)) (\<lambda>vm. Inr (vm, e)))))"

definition exec_StoreRegisterToAddress :: "'e Callbacks \<Rightarrow> CheatProcessMetadata \<Rightarrow> u32 \<Rightarrow> u32 \<Rightarrow>
    u32 \<Rightarrow> bool \<Rightarrow> StoreRegisterOffsetType \<Rightarrow> MemoryAccessType \<Rightarrow> u32 \<Rightarrow> u64 \<Rightarrow> DmntCheatVm \<Rightarrow> 'e \<Rightarrow>
    'e vm_result" where
  "exec_StoreRegisterToAddress cb md bit_width str_reg addr_reg increment_reg ofs_type mem_type
       ofs_reg rel_address vm e =
     bindF (get_reg vm str_reg) (\<lambda>dst_value.
     bindF (get_reg vm addr_reg) (\<lambda>base.
     bindF (case ofs_type of
              OfsNone \<Rightarrow> Inr base
            | OfsReg \<Rightarrow> bindF (get_reg vm ofs_reg) (\<lambda>o'. Inr (base + o'))
            | OfsImm \<Rightarrow> Inr (base + rel_address)
            | OfsMemReg \<Rightarrow> Inr (GetCheatProcessAddress md mem_type base)
            | OfsMemImm \<Rightarrow> Inr (GetCheatProcessAddress md mem_type rel_address)
            | OfsMemImmReg \<Rightarrow> Inr (GetCheatProcessAddress md mem_type (base + rel_address))
            | OffsetType_other _ \<Rightarrow> Inr base) (\<lambda>dst_address.
       let e = write_width cb bit_width dst_address dst_value e in
       if increment_reg then
         bindF (set_reg vm addr_reg (base + ucast bit_width)) (\<lambda>vm. Inr (vm, e))
       else Inr (vm, e))))"

definition exec_BeginRegisterConditional :: "'e Callbacks \<Rightarrow> CheatProcessMetadata \<Rightarrow> u32 \<Rightarrow>
    ConditionalComparisonType \<Rightarrow> u32 \<Rightarrow> CompareRegisterValueType \<Rightarrow> MemoryAccessType \<Rightarrow> u32 \<Rightarrow> u32 \<Rightarrow>
    u32 \<Rightarrow> u64 \<Rightarrow> VmInt \<Rightarrow> DmntCheatVm \<Rightarrow> 'e \<Rightarrow> 'e vm_result" where
  "exec_BeginRegisterConditional cb md bit_width cond_type val_reg comp_type mem_type addr_reg
       other_reg ofs_reg rel_address v vm e =
     bindF (get_reg vm val_reg) (\<lambda>raw.
       let src_value = width_value bit_width raw;
           compare_memory = (\<lambda>cond_address.
             let (cond_value, e) = read_width cb bit_width cond_address 0 e
             in skip_unless (condition_met cond_type src_value cond_value) vm e)
       in case comp_type of
            CmpStaticValue \<Rightarrow>
              skip_unless (condition_met cond_type src_value (GetVmInt v bit_width)) vm e
          | CmpOtherRegister \<Rightarrow>
              bindF (get_reg vm other_reg) (\<lambda>o'.
                skip_unless (condition_met cond_type src_value (width_value bit_width o')) vm e)
          | CmpMemoryRelAddr \<Rightarrow> compare_memory (GetCheatProcessAddress md mem_type rel_address)
          | CmpMemoryOfsReg \<Rightarrow>
              bindF (get_reg vm ofs_reg) (\<lambda>o'. compare_memory (GetCheatProcessAddress md mem_type o'))
          | CmpRegisterRelAddr \<Rightarrow>
              bindF (get_reg vm addr_reg) (\<lambda>a. compare_memory (a + rel_address))
          | CmpRegisterOfsReg \<Rightarrow>
              bindF (get_reg vm addr_reg) (\<lambda>a.
              bindF (get_reg vm ofs_reg) (\<lambda>o'. compare_memory (a + o')))
          | CompareType_other _ \<Rightarrow> compare_memory 0)"

definition exec_SaveRestoreRegister :: "u32 \<Rightarrow> u32 \<Rightarrow> SaveRestoreRegisterOpType \<Rightarrow> DmntCheatVm \<Rightarrow>
    'e \<Rightarrow> 'e vm_result" where
  "exec_SaveRestoreRegister dst src op_type vm e =
     (case op_type of
        SrClearRegs \<Rightarrow> bindF (set_reg vm dst 0) (\<lambda>vm. Inr (vm, e))
      | SrClearSaved \<Rightarrow>
          bindF (arr_set IndexOutOfRange (saved_values vm) (unat dst) 0) (\<lambda>sv.
            Inr (vm\<lparr>saved_values := sv\<rparr>, e))
      | SrSave \<Rightarrow>
          bindF (get_reg vm src) (\<lambda>r.
          bindF (arr_set IndexOutOfRange (saved_values vm) (unat dst) r) (\<lambda>sv.
            Inr (vm\<lparr>saved_values := sv\<rparr>, e)))
      | _ \<Rightarrow>
          bindF (arr_get IndexOutOfRange (saved_values vm) (unat src)) (\<lambda>s.
          bindF (set_reg vm dst s) (\<lambda>vm. Inr (vm, e))))"

text \<open>The mask loop of the source, on the destination array \<open>dst\<close> and the source array \<open>src\<close>.\<close>

fun mask_loop :: "(u64 \<Rightarrow> u64) \<Rightarrow> bool list \<Rightarrow> nat \<Rightarrow> u64 list \<Rightarrow> u64 list \<Rightarrow> vm_fault + u64 list" where
  "mask_loop f [] i src dst = Inr dst"
| "mask_loop f (b # bs) i src dst =
     (if b then
        bindF (arr_get IndexOutOfRange src i) (\<lambda>x.
        bindF (arr_set IndexOutOfRange dst i (f x)) (\<lambda>dst. mask_loop f bs (i + 1) src dst))
      else mask_loop f bs (i + 1) src dst)"

definition exec_SaveRestoreRegisterMask :: "SaveRestoreRegisterOpType \<Rightarrow> bool list \<Rightarrow> DmntCheatVm \<Rightarrow>
    'e \<Rightarrow> 'e vm_result" where
  "exec_SaveRestoreRegisterMask op_type should_operate vm e =
     (let f = (if op_type = SrClearSaved \<or> op_type = SrClearRegs then (\<lambda>_. 0) else (\<lambda>x. x)) in
      if op_type = SrClearSaved \<or> op_type = SrSave then
        bindF (mask_loop f should_operate 0 (registers vm) (saved_values vm)) (\<lambda>sv.
          Inr (vm\<lparr>saved_values := sv\<rparr>, e))
      else
        bindF (mask_loop f should_operate 0 (saved_values vm) (registers vm)) (\<lambda>rs.
          Inr (vm\<lparr>registers := rs\<rparr>, e)))"

definition exec_ReadWriteStaticRegister :: "u32 \<Rightarrow> u32 \<Rightarrow> DmntCheatVm \<Rightarrow> 'e \<Rightarrow> 'e vm_result" where
  "exec_ReadWriteStaticRegister static_idx idx vm e =
     (if unat static_idx < NumReadableStaticRegisters then
        bindF (arr_get IndexOutOfRange (static_registers vm) (unat static_idx)) (\<lambda>s.
        bindF (set_reg vm idx s) (\<lambda>vm. Inr (vm, e)))
      else
        bindF (get_reg vm idx) (\<lambda>r.
        bindF (arr_set IndexOutOfRange (static_registers vm) (unat static_idx) r) (\<lambda>st.
          Inr (vm\<lparr>static_registers := st\<rparr>, e))))"

definition DebugLog :: "'e Callbacks \<Rightarrow> u32 \<Rightarrow> u64 \<Rightarrow> 'e \<Rightarrow> 'e" where
  "DebugLog cb log_id v e = cb_DebugLog cb (ucast log_id) v e"

definition exec_DebugLog :: "'e Callbacks \<Rightarrow> CheatProcessMetadata \<Rightarrow> u32 \<Rightarrow> u32 \<Rightarrow>
    DebugLogValueType \<Rightarrow> MemoryAccessType \<Rightarrow> u32 \<Rightarrow> u32 \<Rightarrow> u32 \<Rightarrow> u64 \<Rightarrow> DmntCheatVm \<Rightarrow> 'e \<Rightarrow>
    'e vm_result" where
  "exec_DebugLog cb md bit_width log_id val_type mem_type addr_reg val_reg ofs_reg rel_address vm e =
     (let log_memory = (\<lambda>val_address.
            let (log_value, e) = read_width cb bit_width val_address 0 e
            in Inr (vm, DebugLog cb log_id log_value e))
      in case val_type of
           LogRegisterValue \<Rightarrow>
             bindF (get_reg vm val_reg) (\<lambda>r.
               Inr (vm, DebugLog cb log_id (width_value bit_width r) e))
         | LogMemoryRelAddr \<Rightarrow> log_memory (GetCheatProcessAddress md mem_type rel_address)
         | LogMemoryOfsReg \<Rightarrow>
             bindF (get_reg vm ofs_reg) (\<lambda>o'. log_memory (GetCheatProcessAddress md mem_type o'))
         | LogRegisterRelAddr \<Rightarrow> bindF (get_reg vm addr_reg) (\<lambda>a. log_memory (a + rel_address))
         | LogRegisterOfsReg \<Rightarrow>
             bindF (get_reg vm addr_reg) (\<lambda>a.
             bindF (get_reg vm ofs_reg) (\<lambda>o'. log_memory (a + o')))
         | LogValueType_other _ \<Rightarrow> log_memory 0)"

section \<open>The interpreter loop\<close>

fun exec_opcode :: "'e Callbacks \<Rightarrow> CheatProcessMetadata \<Rightarrow> u64 \<Rightarrow> VmOpcode \<Rightarrow> DmntCheatVm \<Rightarrow> 'e \<Rightarrow>
    'e vm_result" where
  "exec_opcode cb md kDown (StoreStaticOpcode bw mt ofs rel v) vm e =
     exec_StoreStatic cb md bw mt ofs rel v vm e"
| "exec_opcode cb md kDown (BeginConditionalOpcode bw mt ct rel v) vm e =
     exec_BeginConditional cb md bw mt ct rel v vm e"
| "exec_opcode cb md kDown (EndConditionalOpcode is_else) vm e = exec_EndConditional is_else vm e"
| "exec_opcode cb md kDown (ControlLoopOpcode start reg n) vm e = exec_ControlLoop start reg n vm e"
| "exec_opcode cb md kDown (LoadRegisterStaticOpcode reg v) vm e = exec_LoadRegisterStatic reg v vm e"
| "exec_opcode cb md kDown (LoadRegisterMemoryOpcode bw mt reg from_reg rel) vm e =
     exec_LoadRegisterMemory cb md bw mt reg from_reg rel vm e"
| "exec_opcode cb md kDown (StoreStaticToAddressOpcode bw reg incr add ofs v) vm e =
     exec_StoreStaticToAddress cb bw reg incr add ofs v vm e"
| "exec_opcode cb md kDown (PerformArithmeticStaticOpcode bw reg mt v) vm e =
     exec_PerformArithmeticStatic bw reg mt v vm e"
| "exec_opcode cb md kDown (BeginKeypressConditionalOpcode keys) vm e =
     exec_BeginKeypressConditional kDown keys vm e"
| "exec_opcode cb md kDown (PerformArithmeticRegisterOpcode bw mt dst src1 src2 has_imm v) vm e =
     exec_PerformArithmeticRegister bw mt dst src1 src2 has_imm v vm e"
| "exec_opcode cb md kDown (StoreRegisterToAddressOpcode bw str addr incr ot mt ofs rel) vm e =
     exec_StoreRegisterToAddress cb md bw str addr incr ot mt ofs rel vm e"
| "exec_opcode cb md kDown (BeginRegisterConditionalOpcode bw ct val cmp mt addr other ofs rel v) vm e =
     exec_BeginRegisterConditional cb md bw ct val cmp mt addr other ofs rel v vm e"
| "exec_opcode cb md kDown (SaveRestoreRegisterOpcode dst src kind) vm e =
     exec_SaveRestoreRegister dst src kind vm e"
| "exec_opcode cb md kDown (SaveRestoreRegisterMaskOpcode kind ops) vm e =
     exec_SaveRestoreRegisterMask kind ops vm e"
| "exec_opcode cb md kDown (ReadWriteStaticRegisterOpcode st reg) vm e =
     exec_ReadWriteStaticRegister st reg vm e"
| "exec_opcode cb md kDown PauseProcessOpcode vm e = Inr (vm, PauseProcess cb e)"
| "exec_opcode cb md kDown ResumeProcessOpcode vm e = Inr (vm, ResumeProcess cb e)"
| "exec_opcode cb md kDown (DebugLogOpcode bw log_id vt mt addr val ofs rel) vm e =
     exec_DebugLog cb md bw log_id vt mt addr val ofs rel vm e"
| "exec_opcode cb md kDown (UnrecognizedInstruction t) vm e = Inr (vm, e)"

definition command_log :: "'e Callbacks \<Rightarrow> string list \<Rightarrow> 'e \<Rightarrow> 'e" where
  "command_log cb lines e = fold (CommandLog cb) lines e"

text \<open>The log lines at the head of an iteration.\<close>

definition iteration_log :: "CheatVmOpcode \<Rightarrow> DmntCheatVm \<Rightarrow> string list" where
  "iteration_log cur_opcode vm =
     [''Instruction Ptr: '' @ fmt_0X 4 (instruction_ptr vm mod 2 ^ 32)] @
     log_registers ''Registers'' (registers vm) @ log_registers ''SavedRegs'' (saved_values vm) @
     LogOpcode (vm_opcode cur_opcode)"

text \<open>The body of the loop for a decoded opcode.\<close>

definition exec_iteration :: "'e Callbacks \<Rightarrow> CheatProcessMetadata \<Rightarrow> u64 \<Rightarrow> CheatVmOpcode \<Rightarrow>
    DmntCheatVm \<Rightarrow> 'e \<Rightarrow> 'e vm_result" where
  "exec_iteration cb md kDown cur_opcode vm e =
     (let e = command_log cb (iteration_log cur_opcode vm) e;
          vm = (if begin_conditional_block cur_opcode
                then vm\<lparr>condition_depth := condition_depth vm + 1\<rparr> else vm)
      in exec_opcode cb md kDown (vm_opcode cur_opcode) vm e)"

partial_function (option) execute_loop :: "'e Callbacks \<Rightarrow> CheatProcessMetadata \<Rightarrow> u64 \<Rightarrow>
    DmntCheatVm \<Rightarrow> 'e \<Rightarrow> 'e vm_result option" where
  "execute_loop cb md kDown vm e =
     (case DecodeNextOpcode vm of
        Inl f \<Rightarrow> Some (Inl f)
      | Inr (None, vm') \<Rightarrow> Some (Inr (vm', e))
      | Inr (Some cur_opcode, vm') \<Rightarrow>
          (case exec_iteration cb md kDown cur_opcode vm' e of
             Inl f \<Rightarrow> Some (Inl f)
           | Inr (vm'', e') \<Rightarrow> execute_loop cb md kDown vm'' e'))"

declare execute_loop.simps [code]

definition Execute :: "'e Callbacks \<Rightarrow> CheatProcessMetadata \<Rightarrow> DmntCheatVm \<Rightarrow> 'e \<Rightarrow>
    'e vm_result option" where
  "Execute cb md vm e =
     (let (kDown, e) = HidKeysDown cb e;
          e = command_log cb
                [''Started VM execution.'',
                 ''Main NSO:  '' @ fmt_0X 12 (unat (ext_base (main_nso_extents md))),
                 ''Heap:      '' @ fmt_0X 12 (unat (ext_base (main_nso_extents md))),
                 ''Keys Down: '' @ fmt_0X 8 (unat (ucast (kDown AND 0x0FFFFFFF) :: u32))] e
      in execute_loop cb md kDown (ResetState vm) e)"

end
