(* ===== verification/Cheat_Safety.thy ===== *)
theory Cheat_Safety
  imports Cheat_Vm
begin

text \<open>
  What holds of every run of the cheat virtual machine: it stays inside its arrays, the program is
  never modified, it returns when the program has no loop end, and whatever relation on the
  outside world the callbacks maintain is maintained by the whole run (the locale
  \<open>vm_environment\<close>). Also the functional behaviour of single opcodes.
\<close>

section \<open>Well-formedness and abstract views\<close>

definition vm_wf :: "DmntCheatVm \<Rightarrow> bool" where
  "vm_wf vm \<longleftrightarrow>
     num_opcodes vm \<le> MaximumProgramOpcodeCount \<and>
     length (program vm) = MaximumProgramOpcodeCount \<and>
     length (registers vm) = NumRegisters \<and> length (saved_values vm) = NumRegisters \<and>
     length (static_registers vm) = NumStaticRegisters \<and> length (loop_tops vm) = NumRegisters"

text \<open>The opcodes of the program in the order a run without jumps meets them.\<close>

function linear_sweep :: "DmntCheatVm \<Rightarrow> CheatVmOpcode list" where
  "linear_sweep vm =
     (case DecodeNextOpcode vm of Inl _ \<Rightarrow> [] | Inr (None, _) \<Rightarrow> [] | Inr (Some op, vm') \<Rightarrow> op # linear_sweep vm')"
  by pat_completeness auto
termination
  by (relation "measure (\<lambda>vm. num_opcodes vm - instruction_ptr vm)")
    (auto dest!: DecodeNextOpcode_Some(1))

declare linear_sweep.simps [simp del]

fun is_loop_end :: "VmOpcode \<Rightarrow> bool" where
  "is_loop_end (ControlLoopOpcode start _ _) = (\<not> start)"
| "is_loop_end _ = False"

text \<open>What skipping a block may change: the cursor and the condition depth.\<close>

definition same_but_cursor :: "DmntCheatVm \<Rightarrow> DmntCheatVm \<Rightarrow> bool" where
  "same_but_cursor vm vm' \<longleftrightarrow>
     program vm' = program vm \<and> num_opcodes vm' = num_opcodes vm \<and>
     registers vm' = registers vm \<and> saved_values vm' = saved_values vm \<and>
     static_registers vm' = static_registers vm \<and> loop_tops vm' = loop_tops vm"

text \<open>One step of a run keeps the program and the sizes of the arrays.\<close>

definition vm_keeps :: "DmntCheatVm \<Rightarrow> DmntCheatVm \<Rightarrow> bool" where
  "vm_keeps vm vm' \<longleftrightarrow>
     program vm' = program vm \<and> num_opcodes vm' = num_opcodes vm \<and>
     length (registers vm') = length (registers vm) \<and>
     length (saved_values vm') = length (saved_values vm) \<and>
     length (static_registers vm') = length (static_registers vm) \<and>
     length (loop_tops vm') = length (loop_tops vm)"

section \<open>Frame lemmas\<close>

lemma same_but_cursor_refl [simp]: "same_but_cursor vm vm"
  by (simp add: same_but_cursor_def)

lemma same_but_cursor_updI [simp]:
  "same_but_cursor vm (vm\<lparr>instruction_ptr := ip\<rparr>)"
  "same_but_cursor vm (vm\<lparr>condition_depth := d\<rparr>)"
  "same_but_cursor vm (vm\<lparr>instruction_ptr := ip, decode_success := ds\<rparr>)"
  "same_but_cursor vm (vm\<lparr>instruction_ptr := ip, condition_depth := d\<rparr>)"
  by (simp_all add: same_but_cursor_def)

lemma same_but_cursor_trans:
  "same_but_cursor a b \<Longrightarrow> same_but_cursor b c \<Longrightarrow> same_but_cursor a c"
  by (simp add: same_but_cursor_def)

lemma same_but_cursor_fields:
  assumes "same_but_cursor vm vm'"
  shows "program vm' = program vm" "num_opcodes vm' = num_opcodes vm"
    "registers vm' = registers vm" "saved_values vm' = saved_values vm"
    "static_registers vm' = static_registers vm" "loop_tops vm' = loop_tops vm"
  using assms by (auto simp: same_but_cursor_def)

lemma vm_keeps_refl [simp]: "vm_keeps vm vm"
  by (simp add: vm_keeps_def)

lemma vm_keeps_trans: "vm_keeps a b \<Longrightarrow> vm_keeps b c \<Longrightarrow> vm_keeps a c"
  by (simp add: vm_keeps_def)

lemma vm_keeps_cursor: "same_but_cursor vm vm' \<Longrightarrow> vm_keeps vm vm'"
  by (simp add: vm_keeps_def same_but_cursor_fields)

lemma vm_keeps_wf: "vm_keeps vm vm' \<Longrightarrow> vm_wf vm \<Longrightarrow> vm_wf vm'"
  by (simp add: vm_keeps_def vm_wf_def)

lemma vm_wf_simps [simp]:
  "vm_wf (vm\<lparr>instruction_ptr := ip\<rparr>) = vm_wf vm"
  "vm_wf (vm\<lparr>condition_depth := d\<rparr>) = vm_wf vm"
  "vm_wf (vm\<lparr>decode_success := b\<rparr>) = vm_wf vm"
  by (simp_all add: vm_wf_def)

lemma vm_wf_ResetState [simp]: "vm_wf vm \<Longrightarrow> vm_wf (ResetState vm)"
  by (simp add: vm_wf_def ResetState_def)

lemma Decode_same_but_cursor: "DecodeNextOpcode vm = Inr (r, vm') \<Longrightarrow> same_but_cursor vm vm'"
  by (cases r) (auto dest!: DecodeNextOpcode_None DecodeNextOpcode_Some(1))

section \<open>Skipping a block\<close>

lemma skip_loop_induct [case_names step]:
  assumes "\<And>b d vm. (\<And>op vm' dep. d < condition_depth vm \<Longrightarrow> DecodeNextOpcode vm = Inr (Some op, vm') \<Longrightarrow>
      P b d (vm'\<lparr>condition_depth := dep\<rparr>)) \<Longrightarrow> P b d vm"
  shows "P b d vm"
proof (induction "num_opcodes vm - instruction_ptr vm" arbitrary: vm rule: less_induct)
  case less
  show ?case
  proof (rule assms)
    fix op vm' dep
    assume "DecodeNextOpcode vm = Inr (Some op, vm')"
    then have "num_opcodes (vm'\<lparr>condition_depth := dep\<rparr>) - instruction_ptr (vm'\<lparr>condition_depth := dep\<rparr>)
        < num_opcodes vm - instruction_ptr vm"
      by (auto dest!: DecodeNextOpcode_Some(1))
    then show "P b d (vm'\<lparr>condition_depth := dep\<rparr>)" by (rule less)
  qed
qed

text \<open>
  Any reflexive and transitive relation that one decoding step and a change of the condition
  depth maintain is maintained by the whole skip.
\<close>

lemma skip_loop_rel:
  assumes refl: "\<And>vm. R vm vm" and trans: "\<And>a b c. R a b \<Longrightarrow> R b c \<Longrightarrow> R a c"
    and dec: "\<And>vm r vm'. DecodeNextOpcode vm = Inr (r, vm') \<Longrightarrow> R vm vm'"
    and depth: "\<And>vm d. R vm (vm\<lparr>condition_depth := d\<rparr>)"
    and skip: "skip_loop b d vm = Inr v"
  shows "R vm v"
  using skip
proof (induction b d vm rule: skip_loop_induct)
  case (step b d vm)
  show ?case
  proof (cases "d < condition_depth vm")
    case False
    with step.prems refl show ?thesis by (simp add: skip_loop.simps [of b d vm])
  next
    case True
    with step.prems obtain r vm' where D: "DecodeNextOpcode vm = Inr (r, vm')"
      by (auto simp: skip_loop.simps [of b d vm] split: sum.splits)
    note R1 = dec [OF D]
    show ?thesis
    proof (cases r)
      case None
      with True D R1 step.prems show ?thesis by (simp add: skip_loop.simps [of b d vm])
    next
      case (Some op)
      have go: "R vm v" if "skip_loop b d (vm'\<lparr>condition_depth := dep\<rparr>) = Inr v" for dep
        using step.IH [OF True D [unfolded Some] that] R1 depth trans by blast
      have "R vm v" if "skip_loop b d vm' = Inr v" using go [of "condition_depth vm'"] that by simp
      with step.prems True D Some R1 go show ?thesis
        by (auto simp: skip_loop.simps [of b d vm] split: VmOpcode.splits if_splits)
    qed
  qed
qed

lemma skip_loop_same_but_cursor: "skip_loop b d vm = Inr v \<Longrightarrow> same_but_cursor vm v"
  by (erule skip_loop_rel [rotated 4])
    (auto intro: same_but_cursor_trans Decode_same_but_cursor same_but_cursor_updI)

lemma skip_loop_in_bounds:
  "num_opcodes vm \<le> length (program vm) \<Longrightarrow> \<exists>v. skip_loop b d vm = Inr v"
proof (induction b d vm rule: skip_loop_induct)
  case (step b d vm)
  obtain r vm' where D: "DecodeNextOpcode vm = Inr (r, vm')" using DecodeNextOpcode_in_bounds [OF step.prems] by blast
  have len: "num_opcodes vm' \<le> length (program vm')"
    using Decode_same_but_cursor [OF D] step.prems by (simp add: same_but_cursor_def)
  have go: "\<exists>v. skip_loop b d (vm'\<lparr>condition_depth := dep\<rparr>) = Inr v" if "d < condition_depth vm" "r = Some op" for dep op
    using step.IH [OF that(1) D [unfolded that(2)]] len by simp
  have "\<exists>v. skip_loop b d vm' = Inr v" if "d < condition_depth vm" "r = Some op" for op
    using go [OF that, of "condition_depth vm'"] by simp
  with D go show ?case by (cases r) (auto simp: skip_loop.simps [of b d vm] split: VmOpcode.split)
qed

lemma Decode_ip_mono: "DecodeNextOpcode vm = Inr (r, vm') \<Longrightarrow> instruction_ptr vm \<le> instruction_ptr vm'"
proof (cases r)
  case None
  moreover assume "DecodeNextOpcode vm = Inr (r, vm')"
  ultimately show ?thesis
    by (auto simp: DecodeNextOpcode_def Let_def split: if_splits prod.splits
        dest!: decode_body_le GetNextDword_le simp: cursor_le_def)
qed (auto dest!: DecodeNextOpcode_Some(1))

lemma skip_loop_ip_mono: "skip_loop b d vm = Inr v \<Longrightarrow> instruction_ptr vm \<le> instruction_ptr v"
  by (erule skip_loop_rel [rotated 4]) (auto intro: le_trans Decode_ip_mono)

lemma Decode_cong:
  assumes "program vm = program vm2" "num_opcodes vm = num_opcodes vm2"
    "instruction_ptr vm = instruction_ptr vm2" "decode_success vm = decode_success vm2"
  shows "DecodeNextOpcode vm = Inl f \<Longrightarrow> DecodeNextOpcode vm2 = Inl f"
    and "DecodeNextOpcode vm = Inr (r, vm') \<Longrightarrow> DecodeNextOpcode vm2 =
      Inr (r, vm2\<lparr>instruction_ptr := instruction_ptr vm', decode_success := decode_success vm'\<rparr>)"
  unfolding DecodeNextOpcode_def GetNextDword_cong [OF assms(1,2)] decode_body_cong [OF assms(1,2)]
    assms(3,4)
  by (auto simp: Let_def split: prod.splits if_splits)

lemma linear_sweep_cong:
  assumes "program vm = program vm2" "num_opcodes vm = num_opcodes vm2"
    "instruction_ptr vm = instruction_ptr vm2" "decode_success vm = decode_success vm2"
  shows "linear_sweep vm = linear_sweep vm2"
  using assms
proof (induction vm arbitrary: vm2 rule: linear_sweep.induct)
  case (1 vm)
  show ?case
  proof (cases "DecodeNextOpcode vm")
    case (Inl f)
    with Decode_cong(1) [OF "1.prems"] show ?thesis by (simp add: linear_sweep.simps [of vm] linear_sweep.simps [of vm2])
  next
    case (Inr a)
    obtain r vm' where D: "DecodeNextOpcode vm = Inr (r, vm')" using Inr by (cases a) simp
    let ?vm2 = "vm2\<lparr>instruction_ptr := instruction_ptr vm', decode_success := decode_success vm'\<rparr>"
    note D2 = Decode_cong(2) [OF "1.prems" D]
    show ?thesis
    proof (cases r)
      case None
      with D D2 show ?thesis by (simp add: linear_sweep.simps [of vm] linear_sweep.simps [of vm2])
    next
      case (Some op)
      have "linear_sweep vm' = linear_sweep ?vm2"
        using "1.IH" [OF D _ Some, of vm'] same_but_cursor_fields(1,2) [OF Decode_same_but_cursor [OF D]] "1.prems" by simp
      with D D2 Some show ?thesis by (simp add: linear_sweep.simps [of vm] linear_sweep.simps [of vm2])
    qed
  qed
qed

lemma linear_sweep_depth [simp]: "linear_sweep (vm\<lparr>condition_depth := d\<rparr>) = linear_sweep vm"
  by (rule linear_sweep_cong) simp_all

lemma linear_sweep_stopped: "\<not> decode_success vm \<Longrightarrow> linear_sweep vm = []"
  by (cases "DecodeNextOpcode vm"; subst linear_sweep.simps)
    (auto dest: DecodeNextOpcode_Some(2) split: option.split prod.splits)

lemma Decode_sweep: "DecodeNextOpcode vm = Inr (r, vm') \<Longrightarrow> set (linear_sweep vm') \<subseteq> set (linear_sweep vm)"
proof (cases r)
  case None
  moreover assume "DecodeNextOpcode vm = Inr (r, vm')"
  ultimately show ?thesis by (auto dest!: DecodeNextOpcode_None simp: linear_sweep_stopped)
next
  case (Some op)
  moreover assume "DecodeNextOpcode vm = Inr (r, vm')"
  ultimately show ?thesis by (simp add: linear_sweep.simps [of vm]) blast
qed

lemma skip_loop_sweep: "skip_loop b d vm = Inr v \<Longrightarrow> set (linear_sweep v) \<subseteq> set (linear_sweep vm)"
  by (erule skip_loop_rel [rotated 4, where R = "\<lambda>vm vm'. set (linear_sweep vm') \<subseteq> set (linear_sweep vm)"])
    (blast dest: Decode_sweep | simp)+

section \<open>Handlers stay inside the arrays\<close>

definition safe_result :: "DmntCheatVm \<Rightarrow> 'e vm_result \<Rightarrow> bool" where
  "safe_result vm r =
     (case r of Inl f \<Rightarrow> f \<noteq> IndexOutOfRange | Inr (vm', _) \<Rightarrow> vm_keeps vm vm')"

lemma safe_result_simps [simp]:
  "safe_result vm (Inl f) \<longleftrightarrow> f \<noteq> IndexOutOfRange"
  "safe_result vm (Inr (vm', e)) \<longleftrightarrow> vm_keeps vm vm'"
  by (simp_all add: safe_result_def)

lemma vm_wf_lengths [simp]:
  assumes "vm_wf vm"
  shows "length (registers vm) = NumRegisters" "length (saved_values vm) = NumRegisters"
    "length (static_registers vm) = NumStaticRegisters" "length (loop_tops vm) = NumRegisters"
  using assms by (simp_all add: vm_wf_def)

lemma get_reg_ok [simp]: "vm_wf vm \<Longrightarrow> unat i < NumRegisters \<Longrightarrow> get_reg vm i = Inr (registers vm ! unat i)"
  by (simp add: get_reg_def)

lemma set_reg_ok [simp]:
  "vm_wf vm \<Longrightarrow> unat i < NumRegisters \<Longrightarrow>
   set_reg vm i v = Inr (vm\<lparr>registers := (registers vm)[unat i := v]\<rparr>)"
  by (simp add: set_reg_def)

lemma vm_keeps_updI [simp]:
  "vm_keeps vm (vm\<lparr>registers := (registers vm)[i := v]\<rparr>)"
  "vm_keeps vm (vm\<lparr>registers := (registers vm)[i := v], loop_tops := (loop_tops vm)[j := k]\<rparr>)"
  "vm_keeps vm (vm\<lparr>instruction_ptr := ip, registers := (registers vm)[i := v]\<rparr>)"
  "vm_keeps vm (vm\<lparr>registers := (registers vm)[i := v], instruction_ptr := ip\<rparr>)"
  "vm_keeps vm (vm\<lparr>saved_values := (saved_values vm)[i := v]\<rparr>)"
  "vm_keeps vm (vm\<lparr>static_registers := (static_registers vm)[i := v]\<rparr>)"
  "vm_keeps vm (vm\<lparr>condition_depth := d\<rparr>)"
  by (simp_all add: vm_keeps_def)

lemma vm_wf_fits: "vm_wf vm \<Longrightarrow> num_opcodes vm \<le> length (program vm)"
  unfolding vm_wf_def by (elim conjE) (simp only:)

lemma Skip_safe:
  assumes "vm_wf vm"
  shows "SkipConditionalBlock b vm = Inl InvalidConditionDepth \<or> (\<exists>v. SkipConditionalBlock b vm = Inr v \<and> vm_keeps vm v)"
proof (cases "0 < condition_depth vm")
  case True
  obtain v where v: "skip_loop b (condition_depth vm - 1) vm = Inr v"
    using skip_loop_in_bounds [OF vm_wf_fits [OF assms]] by blast
  have "vm_keeps vm v" by (rule vm_keeps_cursor [OF skip_loop_same_but_cursor [OF v]])
  with v True show ?thesis by (simp add: SkipConditionalBlock_def)
qed (simp add: SkipConditionalBlock_def)

lemma Skip_result [simp]:
  assumes "vm_wf vm"
  shows "safe_result vm (bindF (SkipConditionalBlock b vm) (\<lambda>vm. Inr (vm, e)))"
  using Skip_safe [OF assms, of b] by (elim disjE exE conjE) simp_all

lemma skip_unless_safe [simp]: "vm_wf vm \<Longrightarrow> safe_result vm (skip_unless b vm e)"
  using Skip_result [of vm True e] by (simp add: skip_unless_def)

lemma shift_safe:
  "shift_left a n = Inl f \<Longrightarrow> f = ShiftOutOfRange"
  "shift_right a n = Inl f \<Longrightarrow> f = ShiftOutOfRange"
  by (auto simp: shift_left_def shift_right_def split: if_splits)

lemma register_arithmetic_safe: "register_arithmetic mt a b = Inl f \<Longrightarrow> f = ShiftOutOfRange"
  by (auto simp: register_arithmetic_def dest: shift_safe split: RegisterArithmeticType.splits)

lemma mask_loop_ok:
  "i + length bs \<le> length src \<Longrightarrow> length src = length dst \<Longrightarrow>
   \<exists>out. mask_loop f bs i src dst = Inr out \<and> length out = length dst \<and>
     (\<forall>k < length dst. out ! k =
        (if i \<le> k \<and> k < i + length bs \<and> bs ! (k - i) then f (src ! k) else dst ! k))"
proof (induction bs arbitrary: i dst)
  case Nil
  then show ?case by auto
next
  case (Cons b bs)
  let ?dst = "if b then dst[i := f (src ! i)] else dst"
  have [simp]: "length ?dst = length dst" by simp
  from Cons.IH [of "i + 1" ?dst] Cons.prems
  obtain out where out: "mask_loop f bs (i + 1) src ?dst = Inr out" "length out = length dst"
    and vals: "\<forall>k < length dst. out ! k =
      (if i + 1 \<le> k \<and> k < i + 1 + length bs \<and> bs ! (k - (i + 1)) then f (src ! k) else ?dst ! k)"
    by (auto simp del: if_split)
  have "out ! k = (if i \<le> k \<and> k < i + length (b # bs) \<and> (b # bs) ! (k - i) then f (src ! k)
      else dst ! k)" if "k < length dst" for k
    using vals that Cons.prems
    by (cases "k = i") (auto simp: nth_Cons' nth_list_update dest: le_antisym)
  with out Cons.prems show ?case by (cases b) auto
qed

lemma mask_loop_len:
  "i + length bs \<le> length src \<Longrightarrow> length src = length dst \<Longrightarrow>
   \<exists>out. mask_loop f bs i src dst = Inr out \<and> length out = length dst"
  using mask_loop_ok by blast

lemma exec_PerformArithmeticStatic_safe:
  assumes "vm_wf vm" "unat reg < NumRegisters"
  shows "safe_result vm (exec_PerformArithmeticStatic bw reg mt v vm e)"
  using assms
  by (cases mt) (auto simp: exec_PerformArithmeticStatic_def shift_left_def shift_right_def)

lemma exec_PerformArithmeticRegister_safe:
  assumes "vm_wf vm" "unat dst < NumRegisters" "unat src1 < NumRegisters" "unat src2 < NumRegisters"
  shows "safe_result vm (exec_PerformArithmeticRegister bw mt dst src1 src2 imm v vm e)"
  using assms
  by (cases mt) (auto simp: exec_PerformArithmeticRegister_def register_arithmetic_def
      shift_left_def shift_right_def)

lemma exec_BeginRegisterConditional_safe:
  assumes "vm_wf vm" "unat val < NumRegisters" "unat addr < NumRegisters"
    "unat other < NumRegisters" "unat ofs < NumRegisters"
  shows "safe_result vm (exec_BeginRegisterConditional cb md bw ct val cmp mt addr other ofs rel v vm e)"
  using assms
  by (cases cmp) (auto simp: exec_BeginRegisterConditional_def Let_def split: prod.split)

lemma exec_SaveRestoreRegisterMask_safe:
  assumes "vm_wf vm" "length ops = NumRegisters"
  shows "safe_result vm (exec_SaveRestoreRegisterMask kind ops vm e)"
proof -
  have A: "safe_result vm (bindF (mask_loop f ops 0 (registers vm) (saved_values vm))
      (\<lambda>sv. Inr (vm\<lparr>saved_values := sv\<rparr>, e)))" for f
    using mask_loop_len [of 0 ops "registers vm" "saved_values vm" f] assms
    by (auto simp: vm_keeps_def)
  have B: "safe_result vm (bindF (mask_loop f ops 0 (saved_values vm) (registers vm))
      (\<lambda>rs. Inr (vm\<lparr>registers := rs\<rparr>, e)))" for f
    using mask_loop_len [of 0 ops "saved_values vm" "registers vm" f] assms
    by (auto simp: vm_keeps_def)
  show ?thesis
    unfolding exec_SaveRestoreRegisterMask_def Let_def using A B by (simp del: if_split split: if_split)
qed

lemma exec_opcode_safe:
  assumes wf: "vm_wf vm" and ok: "opcode_ok op"
  shows "safe_result vm (exec_opcode cb md kDown op vm e)"
proof (cases op)
  case (StoreRegisterToAddressOpcode bw str addr incr ot mt ofs rel)
  then show ?thesis using wf ok
    by (cases ot) (auto simp: exec_StoreRegisterToAddress_def Let_def)
next
  case (SaveRestoreRegisterOpcode dst src kind)
  then show ?thesis using wf ok
    by (cases kind) (auto simp: exec_SaveRestoreRegister_def)
next
  case (DebugLogOpcode bw log_id vt mt addr val ofs rel)
  then show ?thesis using wf ok
    by (cases vt) (auto simp: exec_DebugLog_def Let_def split: prod.split)
qed (use wf ok in \<open>auto simp: exec_StoreStatic_def exec_BeginConditional_def exec_EndConditional_def
      exec_ControlLoop_def exec_LoadRegisterStatic_def exec_LoadRegisterMemory_def
      exec_StoreStaticToAddress_def exec_PerformArithmeticStatic_safe
      exec_BeginKeypressConditional_def exec_PerformArithmeticRegister_safe
      exec_BeginRegisterConditional_safe exec_SaveRestoreRegisterMask_safe
      exec_ReadWriteStaticRegister_def Let_def split: prod.split\<close>)

section \<open>Runs stay inside the arrays\<close>

lemma exec_iteration_safe:
  assumes "vm_wf vm" "opcode_ok (vm_opcode op)"
  shows "safe_result vm (exec_iteration cb md kDown op vm e)"
proof -
  have "safe_result vm (exec_opcode cb md kDown (vm_opcode op) (vm\<lparr>condition_depth := d\<rparr>) e')" for d e'
    using exec_opcode_safe [of "vm\<lparr>condition_depth := d\<rparr>" "vm_opcode op" cb md kDown e'] assms
    by (auto simp: safe_result_def vm_keeps_def split: sum.splits)
  from this [of "condition_depth vm"] this [of "condition_depth vm + 1"] show ?thesis
    by (simp add: exec_iteration_def)
qed

lemma execute_loop_safe:
  assumes "execute_loop cb md kDown vm e = Some r" "vm_wf vm"
  shows "safe_result vm r"
proof -
  have "vm_wf vm \<longrightarrow> safe_result vm r"
  proof (rule execute_loop.raw_induct [where P = "\<lambda>cb md kDown vm e r. vm_wf vm \<longrightarrow> safe_result vm r",
        OF _ assms(1)])
    fix loop :: "'a Callbacks \<Rightarrow> CheatProcessMetadata \<Rightarrow> u64 \<Rightarrow> DmntCheatVm \<Rightarrow> 'a \<Rightarrow> 'a vm_result option"
    fix cb :: "'a Callbacks" and md kDown vm and e :: 'a and r
    assume IH: "\<And>cb md kDown vm e r. loop cb md kDown vm e = Some r \<Longrightarrow> vm_wf vm \<longrightarrow> safe_result vm r"
      and eq: "(case DecodeNextOpcode vm of Inl f \<Rightarrow> Some (Inl f) | Inr (None, vm') \<Rightarrow> Some (Inr (vm', e))
        | Inr (Some op, vm') \<Rightarrow> (case exec_iteration cb md kDown op vm' e of
             Inl f \<Rightarrow> Some (Inl f) | Inr (vm'', e') \<Rightarrow> loop cb md kDown vm'' e')) = Some r"
    show "vm_wf vm \<longrightarrow> safe_result vm r"
    proof
      assume wf: "vm_wf vm"
      obtain d vm' where D: "DecodeNextOpcode vm = Inr (d, vm')" using DecodeNextOpcode_in_bounds [OF vm_wf_fits [OF wf]] by blast
      have k: "vm_keeps vm vm'" by (rule vm_keeps_cursor [OF Decode_same_but_cursor [OF D]])
      show "safe_result vm r"
      proof (cases d)
        case None
        with D eq k show ?thesis by auto
      next
        case (Some op)
        have s: "safe_result vm' (exec_iteration cb md kDown op vm' e)"
          using vm_keeps_wf [OF k wf] DecodeNextOpcode_Some(3) [OF D [unfolded Some]]
          by (rule exec_iteration_safe)
        show ?thesis
        proof (cases "exec_iteration cb md kDown op vm' e")
          case (Inl f)
          with D eq s Some show ?thesis by auto
        next
          case (Inr p)
          obtain vm'' e' where p: "p = (vm'', e')" by (cases p)
          from s Inr p have k': "vm_keeps vm' vm''" by simp
          have "loop cb md kDown vm'' e' = Some r" using D eq Some Inr p by simp
          from IH [OF this] vm_keeps_wf [OF k' vm_keeps_wf [OF k wf]]
          have "safe_result vm'' r" by simp
          with vm_keeps_trans [OF k k'] show ?thesis
            by (auto simp: safe_result_def split: sum.splits intro: vm_keeps_trans)
        qed
      qed
    qed
  qed
  with assms(2) show ?thesis by simp
qed

section \<open>Runs without loop ends return\<close>

definition advances :: "DmntCheatVm \<Rightarrow> DmntCheatVm \<Rightarrow> bool" where
  "advances vm vm' \<longleftrightarrow>
     num_opcodes vm' = num_opcodes vm \<and> instruction_ptr vm \<le> instruction_ptr vm' \<and>
     set (linear_sweep vm') \<subseteq> set (linear_sweep vm)"

lemma advances_trans: "advances a b \<Longrightarrow> advances b c \<Longrightarrow> advances a c"
  by (auto simp: advances_def)

lemma advances_upd [simp]:
  assumes "program vm' = program vm" "num_opcodes vm' = num_opcodes vm"
    "instruction_ptr vm' = instruction_ptr vm" "decode_success vm' = decode_success vm"
  shows "advances vm vm'"
  using assms linear_sweep_cong [of vm' vm] by (simp add: advances_def)

lemma advances_skip: "SkipConditionalBlock b vm = Inr v \<Longrightarrow> advances vm v"
  using skip_loop_ip_mono skip_loop_sweep same_but_cursor_fields(2) [OF skip_loop_same_but_cursor]
  by (simp add: advances_def SkipConditionalBlock_def split: if_splits)

lemma advances_set_reg: "set_reg vm i v = Inr vm' \<Longrightarrow> advances vm vm'"
  by (auto simp: set_reg_def fault_elims)

lemma advances_skip_unless: "skip_unless b vm e = Inr (vm', e') \<Longrightarrow> advances vm vm'"
  by (auto simp: skip_unless_def fault_elims dest: advances_skip split: if_splits)

lemma exec_opcode_advances:
  assumes "exec_opcode cb md kDown op vm e = Inr (vm', e')" "\<not> is_loop_end op"
  shows "advances vm vm'"
proof (cases op)
  case (BeginRegisterConditionalOpcode bw ct val cmp mt addr other ofs rel v)
  with assms show ?thesis
    by (cases cmp) (auto simp: exec_BeginRegisterConditional_def Let_def fault_elims case_prod_beta
        dest: advances_skip_unless)
next
  case (DebugLogOpcode bw log_id vt mt addr val ofs rel)
  with assms show ?thesis
    by (cases vt) (auto simp: exec_DebugLog_def Let_def fault_elims case_prod_beta)
qed (use assms in \<open>auto simp: exec_StoreStatic_def exec_BeginConditional_def exec_EndConditional_def
      exec_ControlLoop_def exec_LoadRegisterStatic_def exec_LoadRegisterMemory_def
      exec_StoreStaticToAddress_def exec_PerformArithmeticStatic_def
      exec_BeginKeypressConditional_def exec_PerformArithmeticRegister_def
      exec_StoreRegisterToAddress_def
      exec_SaveRestoreRegister_def exec_SaveRestoreRegisterMask_def
      exec_ReadWriteStaticRegister_def Let_def fault_elims
      split: if_splits prod.splits enum_splits SaveRestoreRegisterOpType.splits
      dest: advances_set_reg advances_skip_unless advances_skip intro: advances_trans\<close>)

lemma exec_iteration_advances:
  assumes "exec_iteration cb md kDown op vm e = Inr (vm', e')" "\<not> is_loop_end (vm_opcode op)"
  shows "advances vm vm'"
proof -
  let ?vm = "if begin_conditional_block op then vm\<lparr>condition_depth := condition_depth vm + 1\<rparr> else vm"
  from assms have "advances ?vm vm'"
    unfolding exec_iteration_def Let_def by (rule exec_opcode_advances)
  then show ?thesis by (simp add: advances_def split: if_splits)
qed

text \<open>
  The faults that are left, and the opcodes that can cause them: an oversized shift, and an else outside every
  block.
\<close>

fun is_shift :: "VmOpcode \<Rightarrow> bool" where
  "is_shift (PerformArithmeticStaticOpcode _ _ mt _) = (mt = LeftShift \<or> mt = RightShift)"
| "is_shift (PerformArithmeticRegisterOpcode _ mt _ _ _ _ _) = (mt = LeftShift \<or> mt = RightShift)"
| "is_shift _ = False"

fun is_begin :: "VmOpcode \<Rightarrow> bool" where
  "is_begin (BeginConditionalOpcode _ _ _ _ _) = True"
| "is_begin (BeginKeypressConditionalOpcode _) = True"
| "is_begin (BeginRegisterConditionalOpcode _ _ _ _ _ _ _ _ _ _) = True"
| "is_begin _ = False"

definition fault_cause :: "CheatVmOpcode set \<Rightarrow> 'e vm_result \<Rightarrow> bool" where
  "fault_cause ops r \<longleftrightarrow>
     (case r of
        Inl f \<Rightarrow> f = ShiftOutOfRange \<and> (\<exists>op \<in> ops. is_shift (vm_opcode op)) \<or>
          f = InvalidConditionDepth \<and> (\<exists>op \<in> ops. vm_opcode op = EndConditionalOpcode True)
      | Inr _ \<Rightarrow> True)"

lemma fault_cause_mono: "fault_cause A r \<Longrightarrow> A \<subseteq> B \<Longrightarrow> fault_cause B r"
  unfolding fault_cause_def by (auto split: sum.splits)

lemma decoded_begin:
  assumes "DecodeNextOpcode vm = Inr (Some op, vm')" "is_begin (vm_opcode op)"
  shows "begin_conditional_block op"
  using assms
  by (auto simp: DecodeNextOpcode_def decode_body_def decode_defs begins_conditional_def
      Let_def split: prod.splits if_splits CheatVmOpcodeType.splits enum_splits)

lemma skip_unless_deep: "vm_wf vm \<Longrightarrow> 0 < condition_depth vm \<Longrightarrow> skip_unless b vm e \<noteq> Inl f"
  using skip_loop_in_bounds [OF vm_wf_fits, of vm True "condition_depth vm - 1"]
  by (auto simp: skip_unless_def SkipConditionalBlock_def)

lemma mask_loop_no_fault:
  "length bs \<le> length src \<Longrightarrow> length src = length dst \<Longrightarrow> mask_loop g bs 0 src dst \<noteq> Inl f"
  using mask_loop_len [of 0 bs src dst g] by auto

lemma exec_opcode_cause:
  assumes "exec_opcode cb md kDown op vm e = Inl f" "vm_wf vm" "opcode_ok op" "is_begin op \<Longrightarrow> 0 < condition_depth vm"
  shows "f = ShiftOutOfRange \<and> is_shift op \<or> f = InvalidConditionDepth \<and> op = EndConditionalOpcode True"
proof (cases op)
  case (BeginRegisterConditionalOpcode bw ct val cmp mt addr other ofs rel v)
  with assms show ?thesis
    by (cases cmp) (auto simp: exec_BeginRegisterConditional_def Let_def fault_elims case_prod_beta skip_unless_deep)
next
  case (DebugLogOpcode bw log_id vt mt addr val ofs rel)
  with assms show ?thesis
    by (cases vt) (auto simp: exec_DebugLog_def Let_def fault_elims case_prod_beta)
next
  case (StoreRegisterToAddressOpcode bw str addr incr ot mt ofs rel)
  with assms show ?thesis
    by (cases ot) (auto simp: exec_StoreRegisterToAddress_def Let_def split: if_splits)
next
  case (SaveRestoreRegisterOpcode dst src kind)
  with assms show ?thesis
    by (cases kind) (auto simp: exec_SaveRestoreRegister_def fault_elims)
next
  case (PerformArithmeticStaticOpcode bw reg mt v)
  with assms show ?thesis
    by (cases mt) (auto simp: exec_PerformArithmeticStatic_def shift_left_def shift_right_def split: if_splits)
next
  case (PerformArithmeticRegisterOpcode bw mt dst src1 src2 imm v)
  with assms show ?thesis
    by (cases mt) (auto simp: exec_PerformArithmeticRegister_def register_arithmetic_def shift_left_def shift_right_def
        split: if_splits)
next
  case (SaveRestoreRegisterMaskOpcode kind ops)
  with assms show ?thesis
    by (auto simp: exec_SaveRestoreRegisterMask_def Let_def fault_elims mask_loop_no_fault split: if_splits)
next
  case (EndConditionalOpcode is_else)
  with assms Skip_safe [OF assms(2), of False] show ?thesis by (auto simp: exec_EndConditional_def split: if_splits)
qed (use assms in \<open>auto simp: exec_StoreStatic_def exec_BeginConditional_def
      exec_ControlLoop_def exec_LoadRegisterStatic_def exec_LoadRegisterMemory_def
      exec_StoreStaticToAddress_def exec_BeginKeypressConditional_def
      exec_ReadWriteStaticRegister_def Let_def fault_elims skip_unless_deep split: if_splits prod.splits\<close>)

lemma exec_iteration_cause:
  assumes "exec_iteration cb md kDown op vm' e = Inl f" "vm_wf vm'" "DecodeNextOpcode vm = Inr (Some op, vm')"
  shows "fault_cause {op} (Inl f :: 'e vm_result)"
proof -
  let ?vm = "if begin_conditional_block op then vm'\<lparr>condition_depth := condition_depth vm' + 1\<rparr> else vm'"
  have "f = ShiftOutOfRange \<and> is_shift (vm_opcode op) \<or> f = InvalidConditionDepth \<and> vm_opcode op = EndConditionalOpcode True"
    using assms(1) unfolding exec_iteration_def Let_def
    by (rule exec_opcode_cause) (use assms(2) decoded_begin [OF assms(3)] DecodeNextOpcode_Some(3) [OF assms(3)] in auto)
  then show ?thesis by (auto simp: fault_cause_def)
qed

lemma execute_loop_returns:
  fixes e :: 'e
  assumes "\<And>op. op \<in> set (linear_sweep vm) \<Longrightarrow> \<not> is_loop_end (vm_opcode op)" "vm_wf vm"
  shows "\<exists>r. execute_loop cb md kDown vm e = Some r \<and> fault_cause (set (linear_sweep vm)) r"
  using assms
proof (induction "num_opcodes vm - instruction_ptr vm" arbitrary: vm e rule: less_induct)
  case less
  obtain d vm' where D: "DecodeNextOpcode vm = Inr (d, vm')"
    using DecodeNextOpcode_in_bounds [OF vm_wf_fits [OF less.prems(2)]] by blast
  show ?case
  proof (cases d)
    case None
    with D show ?thesis by (simp add: execute_loop.simps fault_cause_def)
  next
    case (Some op)
    note D = D [unfolded Some]
    have sweep: "linear_sweep vm = op # linear_sweep vm'"
      using D by (simp add: linear_sweep.simps [of vm])
    have wf: "vm_wf vm'" by (rule vm_keeps_wf [OF vm_keeps_cursor [OF Decode_same_but_cursor [OF D]] less.prems(2)])
    show ?thesis
    proof (cases "exec_iteration cb md kDown op vm' e")
      case (Inl f)
      have "fault_cause (set (linear_sweep vm)) (Inl f :: 'e vm_result)"
        by (rule fault_cause_mono [OF exec_iteration_cause [OF Inl wf D]]) (simp add: sweep)
      with D Inl show ?thesis by (simp add: execute_loop.simps)
    next
      case (Inr p)
      obtain vm'' e' where p: "p = (vm'', e')" by (cases p)
      have adv: "advances vm' vm''"
        using exec_iteration_advances [OF Inr [unfolded p]] less.prems sweep by simp
      have "safe_result vm' (exec_iteration cb md kDown op vm' e)" by (rule exec_iteration_safe [OF wf DecodeNextOpcode_Some(3) [OF D]])
      then have wf': "vm_wf vm''" using vm_keeps_wf wf Inr p by simp
      have "num_opcodes vm'' - instruction_ptr vm'' < num_opcodes vm - instruction_ptr vm"
        using DecodeNextOpcode_Some(1) [OF D] adv by (auto simp: advances_def)
      moreover have "\<not> is_loop_end (vm_opcode o')" if "o' \<in> set (linear_sweep vm'')" for o'
        using less.prems(1) [of o'] adv that sweep by (auto simp: advances_def)
      ultimately obtain r where r: "execute_loop cb md kDown vm'' e' = Some r" "fault_cause (set (linear_sweep vm'')) r"
        using less.hyps wf' by blast
      have "fault_cause (set (linear_sweep vm)) r"
        by (rule fault_cause_mono [OF r(2)]) (use adv sweep in \<open>auto simp: advances_def\<close>)
      with D Inr p r(1) show ?thesis by (subst execute_loop.simps) simp
    qed
  qed
qed

section \<open>Relations the callbacks maintain\<close>

text \<open>
  The interface between the machine and its callbacks: a reflexive and transitive relation between
  states of the world that every callback maintains. Memory is written at most eight bytes at a
  time.
\<close>

locale vm_environment =
  fixes cb :: "'e Callbacks"
    and rel :: "'e \<Rightarrow> 'e \<Rightarrow> bool"
  assumes rel_refl: "rel e e"
    and rel_trans: "rel e1 e2 \<Longrightarrow> rel e2 e3 \<Longrightarrow> rel e1 e3"
    and rel_read: "MemoryReadUnsafe cb a n e = (bs, e') \<Longrightarrow> rel e e'"
    and rel_write: "length bs \<le> 8 \<Longrightarrow> rel e (MemoryWriteUnsafe cb a bs e)"
    and rel_keys: "HidKeysDown cb e = (k, e') \<Longrightarrow> rel e e'"
    and rel_pause: "rel e (PauseProcess cb e)"
    and rel_resume: "rel e (ResumeProcess cb e)"
    and rel_debug_log: "rel e (cb_DebugLog cb i v e)"
    and rel_command_log: "rel e (CommandLog cb msg e)"
begin

lemma rel_command_log_all: "rel e (command_log cb msgs e)"
  unfolding command_log_def
  by (induction msgs arbitrary: e) (auto intro: rel_refl rel_trans rel_command_log)

lemma rel_read_width: "read_width cb w a old e = (v, e') \<Longrightarrow> rel e e'"
  by (auto simp: read_width_def Let_def split: if_splits prod.splits intro: rel_refl rel_read)

lemma rel_read_width_snd: "rel e (snd (read_width cb w a old e))"
  by (cases "read_width cb w a old e") (simp add: rel_read_width)

lemma rel_write_width: "rel e (write_width cb w a v e)"
  by (auto simp: write_width_def valid_width_def intro: rel_refl rel_write)

lemma rel_skip_unless: "skip_unless b vm e = Inr (vm', e') \<Longrightarrow> e' = e"
  by (auto simp: skip_unless_def fault_elims split: if_splits)

lemmas rel_intros = rel_refl rel_read_width rel_read_width_snd rel_write_width rel_pause rel_resume rel_debug_log

lemma rel_BeginRegisterConditional:
  "exec_BeginRegisterConditional cb md bw ct val cmp mt addr other ofs ra v vm e = Inr (vm', e') \<Longrightarrow> rel e e'"
  by (cases cmp) (auto simp: exec_BeginRegisterConditional_def Let_def fault_elims case_prod_beta
      dest!: rel_skip_unless intro: rel_intros)

lemma rel_DebugLog:
  "exec_DebugLog cb md bw log_id vt mt addr val ofs ra vm e = Inr (vm', e') \<Longrightarrow> rel e e'"
  by (cases vt) (auto simp: exec_DebugLog_def DebugLog_def Let_def fault_elims case_prod_beta
      intro: rel_intros rel_trans)

lemma rel_exec_opcode: "exec_opcode cb md kDown op vm e = Inr (vm', e') \<Longrightarrow> rel e e'"
  by (cases op)
    (auto simp: exec_StoreStatic_def exec_BeginConditional_def exec_EndConditional_def
      exec_ControlLoop_def exec_LoadRegisterStatic_def exec_LoadRegisterMemory_def
      exec_StoreStaticToAddress_def exec_PerformArithmeticStatic_def
      exec_BeginKeypressConditional_def exec_PerformArithmeticRegister_def
      exec_StoreRegisterToAddress_def exec_SaveRestoreRegister_def exec_SaveRestoreRegisterMask_def
      exec_ReadWriteStaticRegister_def Let_def fault_elims case_prod_beta
      split: if_splits SaveRestoreRegisterOpType.splits
      dest!: rel_skip_unless dest: rel_BeginRegisterConditional rel_DebugLog intro: rel_intros)

lemma rel_exec_iteration: "exec_iteration cb md kDown op vm e = Inr (vm', e') \<Longrightarrow> rel e e'"
  unfolding exec_iteration_def Let_def
  by (drule rel_exec_opcode) (rule rel_trans [OF rel_command_log_all])

lemma rel_execute_loop:
  assumes "execute_loop cb md kDown vm e = Some (Inr (vm', e'))"
  shows "rel e e'"
proof -
  have "cb = cb \<longrightarrow> (\<forall>v e1. Inr (vm', e') = (Inr (v, e1) :: 'e vm_result) \<longrightarrow> rel e e1)"
  proof (rule execute_loop.raw_induct [where P =
        "\<lambda>c m k v0 e0 r. c = cb \<longrightarrow> (\<forall>v e1. r = Inr (v, e1) \<longrightarrow> rel e0 e1)", OF _ assms])
    fix loop :: "'e Callbacks \<Rightarrow> CheatProcessMetadata \<Rightarrow> u64 \<Rightarrow> DmntCheatVm \<Rightarrow> 'e \<Rightarrow> 'e vm_result option"
    fix c :: "'e Callbacks" and m k v0 and e0 :: 'e and r
    assume IH: "\<And>c m k v0 e0 r. loop c m k v0 e0 = Some r \<Longrightarrow>
        c = cb \<longrightarrow> (\<forall>v e1. r = Inr (v, e1) \<longrightarrow> rel e0 e1)"
      and eq: "(case DecodeNextOpcode v0 of Inl f \<Rightarrow> Some (Inl f) | Inr (None, v') \<Rightarrow> Some (Inr (v', e0))
        | Inr (Some op, v') \<Rightarrow> (case exec_iteration c m k op v' e0 of
             Inl f \<Rightarrow> Some (Inl f) | Inr (v'', e') \<Rightarrow> loop c m k v'' e')) = Some r"
    show "c = cb \<longrightarrow> (\<forall>v e1. r = Inr (v, e1) \<longrightarrow> rel e0 e1)"
    proof (intro impI allI)
      fix v e1
      assume c: "c = cb" and r: "r = Inr (v, e1)"
      from eq r consider "e1 = e0"
        | op v' v'' e' where "exec_iteration c m k op v' e0 = Inr (v'', e')" "loop c m k v'' e' = Some r"
        by (auto split: prod.splits option.splits sum.splits)
      then show "rel e0 e1"
      proof cases
        case 1
        then show ?thesis by (simp add: rel_refl)
      next
        case (2 op v' v'' e')
        with c r IH [OF 2(2)] have "rel e' e1" by simp
        with rel_exec_iteration 2(1) c show ?thesis by (blast intro: rel_trans)
      qed
    qed
  qed
  then show ?thesis by blast
qed

lemma rel_Execute: "Execute cb md vm e = Some (Inr (vm', e')) \<Longrightarrow> rel e e'"
proof -
  assume *: "Execute cb md vm e = Some (Inr (vm', e'))"
  obtain k e1 where k: "HidKeysDown cb e = (k, e1)" by (cases "HidKeysDown cb e")
  from * k obtain msgs where "execute_loop cb md k (ResetState vm) (command_log cb msgs e1) =
      Some (Inr (vm', e'))"
    unfolding Execute_def Let_def by auto
  then have "rel (command_log cb msgs e1) e'" by (rule rel_execute_loop)
  with rel_command_log_all have "rel e1 e'" by (rule rel_trans)
  with rel_keys [OF k] show ?thesis by (rule rel_trans)
qed

end

end
