(* ===== verification/Cheat_Blocks.thy ===== *)
theory Cheat_Blocks
  imports Cheat_Safety
begin

text \<open>
  The block structure of cheat programs and what \<^verbatim>\<open>SkipConditionalBlock\<close> does with it. \<open>block vm i j\<close>
  says that the words from position \<open>i\<close> to position \<open>j\<close> decode to a sequence of complete
  statements: plain opcodes, conditional blocks closed by an end, and conditional blocks with an
  else, nested to any depth. It is the specification against which the depth-counting loop of the
  source is proved.
\<close>

section \<open>Positions and blocks\<close>

definition at_pos :: "DmntCheatVm \<Rightarrow> nat \<Rightarrow> nat \<Rightarrow> DmntCheatVm" where
  "at_pos vm i c = vm\<lparr>instruction_ptr := i, condition_depth := c, decode_success := True\<rparr>"

definition fetch :: "DmntCheatVm \<Rightarrow> nat \<Rightarrow> (CheatVmOpcode \<times> nat) option" where
  "fetch vm i =
     (case DecodeNextOpcode (at_pos vm i 0) of
        Inl _ \<Rightarrow> None
      | Inr (None, _) \<Rightarrow> None
      | Inr (Some op, vm') \<Rightarrow> Some (op, instruction_ptr vm'))"

fun is_end_conditional :: "VmOpcode \<Rightarrow> bool" where
  "is_end_conditional (EndConditionalOpcode _) = True"
| "is_end_conditional _ = False"

inductive block :: "DmntCheatVm \<Rightarrow> nat \<Rightarrow> nat \<Rightarrow> bool" for vm where
  block_nil: "block vm i i"
| block_plain: "fetch vm i = Some (op, k) \<Longrightarrow> \<not> begin_conditional_block op \<Longrightarrow>
    \<not> is_end_conditional (vm_opcode op) \<Longrightarrow> block vm k j \<Longrightarrow> block vm i j"
| block_if: "fetch vm i = Some (op, k) \<Longrightarrow> begin_conditional_block op \<Longrightarrow> block vm k m \<Longrightarrow>
    fetch vm m = Some (e, n) \<Longrightarrow> vm_opcode e = EndConditionalOpcode False \<Longrightarrow> block vm n j \<Longrightarrow>
    block vm i j"
| block_if_else: "fetch vm i = Some (op, k) \<Longrightarrow> begin_conditional_block op \<Longrightarrow> block vm k m \<Longrightarrow>
    fetch vm m = Some (l, n) \<Longrightarrow> vm_opcode l = EndConditionalOpcode True \<Longrightarrow> block vm n p \<Longrightarrow>
    fetch vm p = Some (e, q) \<Longrightarrow> vm_opcode e = EndConditionalOpcode False \<Longrightarrow> block vm q j \<Longrightarrow>
    block vm i j"

inductive_cases block_selfE: "block vm i i"

section \<open>Lemmas\<close>

lemma at_pos_simps [simp]:
  "instruction_ptr (at_pos vm i c) = i" "condition_depth (at_pos vm i c) = c"
  "decode_success (at_pos vm i c) = True" "program (at_pos vm i c) = program vm"
  "num_opcodes (at_pos vm i c) = num_opcodes vm"
  "(at_pos vm i c)\<lparr>condition_depth := d\<rparr> = at_pos vm i d"
  "(at_pos vm i c)\<lparr>instruction_ptr := j\<rparr> = at_pos vm j c"
  by (simp_all add: at_pos_def)

lemma at_pos_self: "decode_success vm \<Longrightarrow> at_pos vm (instruction_ptr vm) (condition_depth vm) = vm"
  by (simp add: at_pos_def)

lemma Decode_at_pos:
  assumes "fetch vm i = Some (op, j)"
  shows "DecodeNextOpcode (at_pos vm i c) = Inr (Some op, at_pos vm j c)"
proof -
  obtain vm0 where D0: "DecodeNextOpcode (at_pos vm i 0) = Inr (Some op, vm0)" "instruction_ptr vm0 = j"
    using assms by (auto simp: fetch_def split: sum.splits prod.splits option.splits)
  have "decode_success vm0" using DecodeNextOpcode_Some(1) [OF D0(1)] by auto
  with Decode_cong(2) [OF _ _ _ _ D0(1), of "at_pos vm i c"] D0(2) show ?thesis by (simp add: at_pos_def)
qed

lemma end_not_begin: "fetch vm i = Some (op, j) \<Longrightarrow> is_end_conditional (vm_opcode op) \<Longrightarrow>
    \<not> begin_conditional_block op"
  by (auto simp: fetch_def DecodeNextOpcode_def decode_body_def decode_defs begins_conditional_def
      Let_def split: sum.splits prod.splits option.splits if_splits CheatVmOpcodeType.splits enum_splits)

lemma skip_loop_at:
  assumes "fetch vm i = Some (op, j)" "d < c"
  shows "begin_conditional_block op \<Longrightarrow>
      skip_loop b d (at_pos vm i c) = skip_loop b d (at_pos vm j (c + 1))"
    and "vm_opcode op = EndConditionalOpcode False \<Longrightarrow>
      skip_loop b d (at_pos vm i c) = skip_loop b d (at_pos vm j (c - 1))"
    and "vm_opcode op = EndConditionalOpcode True \<Longrightarrow> \<not> (b \<and> c - 1 = d) \<Longrightarrow>
      skip_loop b d (at_pos vm i c) = skip_loop b d (at_pos vm j c)"
    and "vm_opcode op = EndConditionalOpcode True \<Longrightarrow> b \<Longrightarrow> c - 1 = d \<Longrightarrow>
      skip_loop b d (at_pos vm i c) = Inr (at_pos vm j c)"
    and "\<not> begin_conditional_block op \<Longrightarrow> \<not> is_end_conditional (vm_opcode op) \<Longrightarrow>
      skip_loop b d (at_pos vm i c) = skip_loop b d (at_pos vm j c)"
  using Decode_at_pos [OF assms(1), of c] assms end_not_begin [OF assms(1)]
  by (auto simp: skip_loop.simps [of _ d "at_pos vm i c"] split: VmOpcode.split)

text \<open>Complete statements are passed over at any depth above the one the skip is looking for.\<close>

lemma skip_loop_block:
  assumes "block vm i j" "d < c"
  shows "skip_loop b d (at_pos vm i c) = skip_loop b d (at_pos vm j c)"
  using assms
proof (induction arbitrary: c rule: block.induct)
  case (block_nil i)
  show ?case ..
next
  case (block_plain i op k j)
  then show ?case by (simp add: skip_loop_at(5))
next
  case (block_if i op k m e n j)
  then show ?case by (simp add: skip_loop_at(1) skip_loop_at(2))
next
  case (block_if_else i op k m l n p e q j)
  then show ?case by (simp add: skip_loop_at(1) skip_loop_at(2) skip_loop_at(3))
qed

lemma skip_loop_done: "\<not> d < c \<Longrightarrow> skip_loop b d (at_pos vm i c) = Inr (at_pos vm i c)"
  by (simp add: skip_loop.simps)

lemma skip_to_end:
  assumes "block vm i m" "fetch vm m = Some (e, n)" "vm_opcode e = EndConditionalOpcode False"
  shows "SkipConditionalBlock b (at_pos vm i (Suc c)) = Inr (at_pos vm n c)"
  using assms skip_loop_block [OF assms(1), of c "Suc c"]
  by (simp add: SkipConditionalBlock_def skip_loop_at(2) skip_loop_done)

lemma skip_to_else:
  assumes "block vm i m" "fetch vm m = Some (l, n)" "vm_opcode l = EndConditionalOpcode True"
  shows "SkipConditionalBlock True (at_pos vm i (Suc c)) = Inr (at_pos vm n (Suc c))"
  using assms skip_loop_block [OF assms(1), of c "Suc c"]
  by (simp add: SkipConditionalBlock_def skip_loop_at(4))

end
