(* ===== verification/Cheat_Loading.thy ===== *)
theory Cheat_Loading
  imports Cheat_Safety
begin

text \<open>
  \<^verbatim>\<open>DmntCheatVm::LoadProgram\<close>: the program the machine holds after loading is the concatenation of the
  opcodes of the enabled cheats, or nothing when they do not fit. Loading is also the client of
  the cheat list, so the shape the list must have is stated here and proved of the parser in
  the theory of the parser.
\<close>

section \<open>Specification\<close>

definition entry_ok :: "CheatEntry \<Rightarrow> bool" where
  "entry_ok entry \<longleftrightarrow>
     length (def_opcodes (cheat_definition entry)) = 0x100 \<and>
     unat (def_num_opcodes (cheat_definition entry)) \<le> 0x100 \<and>
     length (readable_name (cheat_definition entry)) = 0x40"

definition entry_program :: "CheatEntry \<Rightarrow> u32 list" where
  "entry_program entry =
     take (unat (def_num_opcodes (cheat_definition entry))) (def_opcodes (cheat_definition entry))"

definition enabled_program :: "CheatEntry list \<Rightarrow> u32 list" where
  "enabled_program entries = concat (map entry_program (filter enabled entries))"

text \<open>The opcodes a machine would execute.\<close>

definition loaded_program :: "DmntCheatVm \<Rightarrow> u32 list" where
  "loaded_program vm = take (num_opcodes vm) (program vm)"

text \<open>What loading may change.\<close>

definition loaded_from :: "DmntCheatVm \<Rightarrow> DmntCheatVm \<Rightarrow> bool" where
  "loaded_from vm vm' \<longleftrightarrow> vm' = vm\<lparr>program := program vm', num_opcodes := num_opcodes vm'\<rparr> \<and>
     length (program vm') = length (program vm)"

section \<open>Lemmas\<close>

lemma loaded_from_refl [simp]: "loaded_from vm vm"
  by (simp add: loaded_from_def)

lemma loaded_from_trans: "loaded_from a b \<Longrightarrow> loaded_from b c \<Longrightarrow> loaded_from a c"
  by (cases a; cases b; cases c) (simp add: loaded_from_def)

lemma loaded_from_upd [simp]:
  "loaded_from vm (vm\<lparr>num_opcodes := n\<rparr>)"
  "loaded_from vm (vm\<lparr>program := (program vm)[i := w], num_opcodes := n\<rparr>)"
  by (simp_all add: loaded_from_def)

lemma loaded_from_wf:
  "loaded_from vm vm' \<Longrightarrow> vm_wf vm \<Longrightarrow> num_opcodes vm' \<le> MaximumProgramOpcodeCount \<Longrightarrow> vm_wf vm'"
  unfolding loaded_from_def vm_wf_def by (metis DmntCheatVm.select_convs DmntCheatVm.surjective
    DmntCheatVm.update_convs(1,5))

lemma load_opcodes_ok:
  assumes "n + k \<le> length (def_opcodes d)" "num_opcodes vm + k \<le> length (program vm)"
  shows "\<exists>vm'. load_opcodes d k n vm = Inr vm' \<and> loaded_from vm vm' \<and>
    num_opcodes vm' = num_opcodes vm + k \<and>
    loaded_program vm' = loaded_program vm @ take k (drop n (def_opcodes d))"
  using assms
proof (induction k arbitrary: n vm)
  case 0
  then show ?case by simp
next
  case (Suc k)
  let ?vm = "vm\<lparr>program := (program vm)[num_opcodes vm := def_opcodes d ! n],
      num_opcodes := num_opcodes vm + 1\<rparr>"
  from Suc.prems have "n + 1 + k \<le> length (def_opcodes d)"
    "num_opcodes ?vm + k \<le> length (program ?vm)" by simp_all
  from Suc.IH [OF this] obtain vm' where vm': "load_opcodes d k (n + 1) ?vm = Inr vm'"
    "loaded_from ?vm vm'" "num_opcodes vm' = num_opcodes ?vm + k"
    "loaded_program vm' = loaded_program ?vm @ take k (drop (n + 1) (def_opcodes d))" by blast
  have "loaded_program ?vm = loaded_program vm @ [def_opcodes d ! n]"
    using Suc.prems by (simp add: loaded_program_def take_Suc_conv_app_nth)
  moreover have "take (Suc k) (drop n (def_opcodes d)) =
      def_opcodes d ! n # take k (drop (n + 1) (def_opcodes d))"
    using Suc.prems by (simp add: Cons_nth_drop_Suc [symmetric])
  ultimately show ?case
    using Suc.prems vm' loaded_from_trans [OF loaded_from_upd(2) vm'(2)] by simp
qed

lemma length_entry_program: "entry_ok en \<Longrightarrow> length (entry_program en) = unat (def_num_opcodes (cheat_definition en))"
  by (simp add: entry_ok_def entry_program_def)

lemma enabled_program_Cons [simp]:
  "enabled_program (en # entries) =
     (if enabled en then entry_program en @ enabled_program entries else enabled_program entries)"
  "enabled_program [] = []"
  by (simp_all add: enabled_program_def)

lemma vm_wf_program: "vm_wf vm \<Longrightarrow> length (program vm) = MaximumProgramOpcodeCount"
  by (auto simp only: vm_wf_def)

lemma load_entries_ok:
  assumes "\<forall>en \<in> set entries. entry_ok en" "num_opcodes vm \<le> MaximumProgramOpcodeCount"
    "length (program vm) = MaximumProgramOpcodeCount"
  shows "\<exists>vm'. load_entries entries vm =
      Inr (num_opcodes vm + length (enabled_program entries) \<le> MaximumProgramOpcodeCount, vm') \<and>
    loaded_from vm vm' \<and> num_opcodes vm' \<le> MaximumProgramOpcodeCount \<and>
    loaded_program vm' =
      (if num_opcodes vm + length (enabled_program entries) \<le> MaximumProgramOpcodeCount
       then loaded_program vm @ enabled_program entries else [])"
  using assms
proof (induction entries arbitrary: vm)
  case Nil
  then show ?case by simp
next
  case (Cons en entries)
  let ?d = "cheat_definition en" and ?n = "unat (def_num_opcodes (cheat_definition en))"
  from Cons.prems have ok: "entry_ok en" by simp
  consider "\<not> enabled en" | "enabled en" "?n + num_opcodes vm > MaximumProgramOpcodeCount"
    | "enabled en" "?n + num_opcodes vm \<le> MaximumProgramOpcodeCount" by linarith
  then show ?case
  proof cases
    case 1
    with Cons.prems Cons.IH [of vm] show ?thesis by (auto simp del: One_nat_def)
  next
    case 2
    then show ?thesis using length_entry_program [OF ok]
      by (simp add: loaded_program_def)
  next
    case 3
    from load_opcodes_ok [of 0 ?n ?d vm] ok 3 Cons.prems obtain vm' where
      vm': "load_opcodes ?d ?n 0 vm = Inr vm'" "loaded_from vm vm'" "num_opcodes vm' = num_opcodes vm + ?n"
        "loaded_program vm' = loaded_program vm @ entry_program en"
      by (auto simp: entry_ok_def entry_program_def)
    have len: "length (program vm') = MaximumProgramOpcodeCount"
      using vm'(2) Cons.prems(3) by (simp add: loaded_from_def)
    have sum: "num_opcodes vm' + length (enabled_program entries) =
        num_opcodes vm + length (enabled_program (en # entries))"
      using 3(1) vm'(3) length_entry_program [OF ok] by simp
    from Cons.IH [of vm'] Cons.prems(1) len 3(2) vm'(3) obtain vm'' where
      vm'': "load_entries entries vm' = Inr (num_opcodes vm' + length (enabled_program entries)
          \<le> MaximumProgramOpcodeCount, vm'')"
      "loaded_from vm' vm''" "num_opcodes vm'' \<le> MaximumProgramOpcodeCount"
      "loaded_program vm'' = (if num_opcodes vm' + length (enabled_program entries)
          \<le> MaximumProgramOpcodeCount then loaded_program vm' @ enabled_program entries else [])"
      by (metis add.commute list.set_intros(2))
    have "load_entries (en # entries) vm = load_entries entries vm'"
      using 3 vm'(1) by simp
    with vm'' vm'(4) 3(1) loaded_from_trans [OF vm'(2) vm''(2)] show ?thesis
      unfolding sum by auto
  qed
qed

lemma LoadProgram_ok:
  assumes "vm_wf vm" "\<forall>en \<in> set entries. entry_ok en"
  shows "\<exists>vm'. LoadProgram entries vm =
      Inr (length (enabled_program entries) \<le> MaximumProgramOpcodeCount, vm') \<and>
    vm_wf vm' \<and> loaded_from vm vm' \<and>
    loaded_program vm' = (if length (enabled_program entries) \<le> MaximumProgramOpcodeCount
       then enabled_program entries else [])"
proof -
  from load_entries_ok [OF assms(2), of "vm\<lparr>num_opcodes := 0\<rparr>"] assms(1) obtain vm' where
    vm': "LoadProgram entries vm = Inr (length (enabled_program entries) \<le> MaximumProgramOpcodeCount, vm')"
      "loaded_from (vm\<lparr>num_opcodes := 0\<rparr>) vm'" "num_opcodes vm' \<le> MaximumProgramOpcodeCount"
      "loaded_program vm' = (if length (enabled_program entries) \<le> MaximumProgramOpcodeCount
         then enabled_program entries else [])"
    by (auto simp: LoadProgram_def vm_wf_program loaded_program_def)
  from loaded_from_trans [OF loaded_from_upd(1) vm'(2)] have "loaded_from vm vm'" .
  with vm' assms(1) loaded_from_wf show ?thesis by blast
qed

end
