(* ===== verification/Cheat_Behaviour.thy ===== *)
theory Cheat_Behaviour
  imports Cheat_Blocks Cheat_Loading
begin

text \<open>
  The properties of the cheat virtual machine: bounds, termination, the meaning of conditional
  blocks, program loading, arithmetic at the width of the opcode, and saving and restoring
  registers.
\<close>

section \<open>Concrete programs\<close>

text \<open>A machine holding a program, and an outside world with no memory, used in concrete runs.\<close>

definition vm_with :: "u32 list \<Rightarrow> DmntCheatVm" where
  "vm_with p = new_DmntCheatVm\<lparr>program := p @ replicate (MaximumProgramOpcodeCount - length p) 0,
     num_opcodes := length p\<rparr>"

definition no_callbacks :: "unit Callbacks" where
  "no_callbacks = \<lparr>MemoryReadUnsafe = (\<lambda>a n e. (replicate n 0, e)), MemoryWriteUnsafe = (\<lambda>a bs e. e),
     HidKeysDown = (\<lambda>e. (0, e)), PauseProcess = (\<lambda>e. e), ResumeProcess = (\<lambda>e. e),
     cb_DebugLog = (\<lambda>i v e. e), CommandLog = (\<lambda>s e. e)\<rparr>"

definition no_metadata :: CheatProcessMetadata where
  "no_metadata = \<lparr>process_id = 0, title_id = 0,
     main_nso_extents = \<lparr>ext_base = 0, ext_size = 0\<rparr>, heap_extents = \<lparr>ext_base = 0, ext_size = 0\<rparr>,
     alias_extents = \<lparr>ext_base = 0, ext_size = 0\<rparr>, aslr_extents = \<lparr>ext_base = 0, ext_size = 0\<rparr>,
     main_nso_build_id = replicate 0x20 0\<rparr>"

text \<open>A cheat with the given opcodes.\<close>

definition sample_entry :: "bool \<Rightarrow> u32 list \<Rightarrow> CheatEntry" where
  "sample_entry on ws = new_CheatEntry\<lparr>enabled := on,
     cheat_definition := cheat_definition new_CheatEntry\<lparr>def_num_opcodes := of_nat (length ws),
       def_opcodes := ws @ replicate (0x100 - length ws) 0\<rparr>\<rparr>"

text \<open>
  The arithmetic of \<^verbatim>\<open>RegisterArithmeticType\<close> on the integers, and the shift amounts for which the
  source is defined.
\<close>

definition arith_int :: "RegisterArithmeticType \<Rightarrow> int \<Rightarrow> int \<Rightarrow> int" where
  "arith_int math_type a b =
     (case math_type of
        Addition \<Rightarrow> a + b
      | Subtraction \<Rightarrow> a - b
      | Multiplication \<Rightarrow> a * b
      | LeftShift \<Rightarrow> a * 2 ^ nat b
      | RightShift \<Rightarrow> a div 2 ^ nat b
      | LogicalAnd \<Rightarrow> a AND b
      | LogicalOr \<Rightarrow> a OR b
      | LogicalNot \<Rightarrow> - a - 1
      | LogicalXor \<Rightarrow> a XOR b
      | NoArithmetic \<Rightarrow> a
      | ArithmeticType_other _ \<Rightarrow> 0)"

definition shift_ok :: "RegisterArithmeticType \<Rightarrow> u64 \<Rightarrow> bool" where
  "shift_ok math_type b \<longleftrightarrow> (math_type = LeftShift \<or> math_type = RightShift \<longrightarrow> b < 64)"

section \<open>Shared lemmas\<close>

lemma vm_wf_vm_with: "length p \<le> MaximumProgramOpcodeCount \<Longrightarrow> vm_wf (vm_with p)"
  unfolding vm_wf_def by (simp add: vm_with_def new_DmntCheatVm_def)

lemma Execute_cases:
  obtains k e1 where "\<And>vm. Execute cb md vm e = execute_loop cb md k (ResetState vm) e1"
  by (cases "HidKeysDown cb e") (auto simp: Execute_def Let_def)

lemma ResetState_program [simp]:
  "program (ResetState vm) = program vm" "num_opcodes (ResetState vm) = num_opcodes vm"
  by (simp_all add: ResetState_def)

lemma safe_result_wf:
  assumes "safe_result vm r" "vm_wf vm"
  shows "case r of Inl f \<Rightarrow> f \<noteq> IndexOutOfRange
    | Inr (vm', e') \<Rightarrow> vm_wf vm' \<and> loaded_program vm' = loaded_program vm"
proof (cases r)
  case (Inl f)
  with assms show ?thesis by simp
next
  case (Inr a)
  obtain vm' e' where a: "a = (vm', e')" by (cases a)
  with Inr assms(1) have "vm_keeps vm vm'" by simp
  with vm_keeps_wf [OF this assms(2)] Inr a show ?thesis by (simp add: vm_keeps_def loaded_program_def)
qed

lemma Execute_returns:
  assumes "vm_wf vm" "list_all (\<lambda>op. \<not> is_loop_end (vm_opcode op)) (linear_sweep (ResetState vm))"
  shows "\<exists>r. Execute cb md vm e = Some r \<and> fault_cause (set (linear_sweep (ResetState vm))) r"
proof -
  obtain k e1 where E: "\<And>vm. Execute cb md vm e = execute_loop cb md k (ResetState vm) e1"
    by (rule Execute_cases [of cb md e]) blast
  show ?thesis unfolding E
    by (rule execute_loop_returns) (use assms vm_wf_ResetState in \<open>auto simp: list_all_iff\<close>)
qed

lemma no_fault_cause:
  "fault_cause ops r \<Longrightarrow> \<forall>op \<in> ops. \<not> is_shift (vm_opcode op) \<and> vm_opcode op \<noteq> EndConditionalOpcode True \<Longrightarrow>
   \<exists>x. r = Inr x"
  by (cases r) (auto simp: fault_cause_def)

lemma apply_width_take_bit: "valid_width w \<Longrightarrow> apply_width w v = take_bit (8 * unat w) v"
  by (auto simp: valid_width_def apply_width_def intro!: bit_eqI simp: bit_simps)

lemma uint_apply_width:
  "valid_width w \<Longrightarrow> uint (apply_width w v) = uint v mod 2 ^ (8 * unat w)"
  by (simp add: apply_width_take_bit unsigned_take_bit_eq flip: take_bit_eq_mod)

lemma take_bit_uint_64: "take_bit 64 (uint (a :: u64)) = uint a"
  using uint_bounded [of a] by (simp add: take_bit_int_eq_self)

lemma register_arithmetic_int:
  assumes "shift_ok mt b"
  shows "\<exists>r. register_arithmetic mt a b = Inr r \<and> uint r = take_bit 64 (arith_int mt (uint a) (uint b))"
proof (cases mt)
  case LeftShift
  with assms show ?thesis
    by (simp add: register_arithmetic_def arith_int_def shift_ok_def shift_left_def
      unsigned_push_bit_eq flip: push_bit_eq_mult)
next
  case RightShift
  have "take_bit 64 (drop_bit (unat b) (uint a)) = drop_bit (unat b) (uint a)"
    by (rule bit_eqI) (auto simp: bit_simps dest: bit_imp_le_length)
  moreover note assms
  ultimately show ?thesis using RightShift
    by (simp add: register_arithmetic_def arith_int_def shift_ok_def shift_right_def take_bit_uint_64
      unsigned_drop_bit_eq flip: drop_bit_eq_div)
next
  case LogicalNot
  then show ?thesis
    by (simp add: register_arithmetic_def arith_int_def unsigned_not_eq not_int_def)
next
  case Addition
  then show ?thesis
    by (simp add: register_arithmetic_def arith_int_def uint_word_ariths take_bit_eq_mod)
next
  case Subtraction
  then show ?thesis
    by (simp add: register_arithmetic_def arith_int_def uint_word_ariths take_bit_eq_mod)
next
  case Multiplication
  then show ?thesis
    by (simp add: register_arithmetic_def arith_int_def uint_word_ariths take_bit_eq_mod)
qed (simp_all add: register_arithmetic_def arith_int_def unsigned_and_eq unsigned_or_eq
    unsigned_xor_eq take_bit_uint_64)

lemma width_le_64: "valid_width w \<Longrightarrow> 8 * unat w \<le> 64"
  by (auto simp: valid_width_def)

lemma exec_mask_save:
  assumes "vm_wf vm" "length ops = NumRegisters"
  shows "\<exists>sv. exec_SaveRestoreRegisterMask SrSave ops vm e = Inr (vm\<lparr>saved_values := sv\<rparr>, e) \<and>
    length sv = NumRegisters \<and>
    (\<forall>i < NumRegisters. sv ! i = (if ops ! i then registers vm ! i else saved_values vm ! i))"
  using mask_loop_ok [of 0 ops "registers vm" "saved_values vm" "\<lambda>x. x"] assms
  by (auto simp: exec_SaveRestoreRegisterMask_def)

lemma exec_mask_restore:
  assumes "vm_wf vm" "length ops = NumRegisters"
  shows "\<exists>rs. exec_SaveRestoreRegisterMask SrRestore ops vm e = Inr (vm\<lparr>registers := rs\<rparr>, e) \<and>
    length rs = NumRegisters \<and>
    (\<forall>i < NumRegisters. rs ! i = (if ops ! i then saved_values vm ! i else registers vm ! i))"
  using mask_loop_ok [of 0 ops "saved_values vm" "registers vm" "\<lambda>x. x"] assms
  by (auto simp: exec_SaveRestoreRegisterMask_def)

lemma Execute_keeps:
  assumes "vm_wf vm" "Execute cb md vm e = Some r"
  shows "case r of
      Inl f \<Rightarrow> f \<noteq> IndexOutOfRange
    | Inr (vm', e') \<Rightarrow> vm_wf vm' \<and> loaded_program vm' = loaded_program vm"
proof -
  obtain k e1 where E: "\<And>vm. Execute cb md vm e = execute_loop cb md k (ResetState vm) e1"
    by (rule Execute_cases [of cb md e]) blast
  from assms(2) have "execute_loop cb md k (ResetState vm) e1 = Some r" by (simp add: E)
  from execute_loop_safe [OF this vm_wf_ResetState [OF assms(1)]] vm_wf_ResetState [OF assms(1)]
  have "case r of Inl f \<Rightarrow> f \<noteq> IndexOutOfRange
    | Inr (vm', e') \<Rightarrow> vm_wf vm' \<and> loaded_program vm' = loaded_program (ResetState vm)"
    by (rule safe_result_wf)
  then show ?thesis by (simp only: loaded_program_def ResetState_program)
qed

section \<open>Bounds and termination\<close>

text \<open>
  C1. A run of the interpreter never accesses an array out of its bounds, whatever the program,
  the memory and the callbacks: on a machine whose arrays have their declared sizes, \<^verbatim>\<open>Execute\<close> either
  stops normally, with the program unchanged and the arrays of the same sizes, or ends in one of
  the two other faults (an oversized shift, an else without a block).
\<close>

theorem Execute_in_bounds:
  assumes "vm_wf vm" "Execute cb md vm e = Some r"
  shows "case r of
      Inl f \<Rightarrow> f \<noteq> IndexOutOfRange
    | Inr (vm', e') \<Rightarrow> vm_wf vm' \<and> loaded_program vm' = loaded_program vm"
  using assms by (rule Execute_keeps)

theorem Execute_in_bounds_witness:
  "\<exists>r. Execute no_callbacks no_metadata (vm_with [0x40000000, 0, 5]) () = Some r \<and>
     (case r of Inl f \<Rightarrow> f \<noteq> IndexOutOfRange
      | Inr (vm', e') \<Rightarrow> vm_wf vm' \<and> loaded_program vm' = loaded_program (vm_with [0x40000000, 0, 5]))"
proof -
  have wf: "vm_wf (vm_with [0x40000000, 0, 5])" by (simp add: vm_wf_vm_with MaximumProgramOpcodeCount_def)
  have "list_all (\<lambda>op. \<not> is_loop_end (vm_opcode op)) (linear_sweep (ResetState (vm_with [0x40000000, 0, 5])))"
    by code_simp
  from Execute_returns [OF wf this, of no_callbacks no_metadata "()"]
  have "\<exists>r. Execute no_callbacks no_metadata (vm_with [0x40000000, 0, 5]) () = Some r" by blast
  then show ?thesis
    using Execute_in_bounds [of "vm_with [0x40000000, 0, 5]" no_callbacks no_metadata "()"]
    by (fastforce simp: vm_wf_vm_with MaximumProgramOpcodeCount_def)
qed

text \<open>
  C2. Every run of a program in which no loop end can be decoded comes to an end, with any memory and
  any callbacks, and the end is one of three: a normal return, with the arrays of their declared
  sizes; the undefined shift, and then the program has a shift opcode; or the abort of an else outside every
  block, and then the program has an else opcode. So a program with neither of the two opcodes returns
  normally.
\<close>

theorem Execute_terminates:
  assumes "vm_wf vm" "\<forall>op \<in> set (linear_sweep (ResetState vm)). \<not> is_loop_end (vm_opcode op)"
  shows "(\<exists>r. Execute cb md vm e = Some r \<and>
      (case r of
         Inr (vm', e') \<Rightarrow> vm_wf vm'
       | Inl f \<Rightarrow>
           f = ShiftOutOfRange \<and> (\<exists>op \<in> set (linear_sweep (ResetState vm)). is_shift (vm_opcode op)) \<or>
           f = InvalidConditionDepth \<and>
             (\<exists>op \<in> set (linear_sweep (ResetState vm)). vm_opcode op = EndConditionalOpcode True))) \<and>
    ((\<forall>op \<in> set (linear_sweep (ResetState vm)).
        \<not> is_shift (vm_opcode op) \<and> vm_opcode op \<noteq> EndConditionalOpcode True) \<longrightarrow>
      (\<exists>vm' e'. Execute cb md vm e = Some (Inr (vm', e'))))"
proof -
  obtain r where r: "Execute cb md vm e = Some r" and f: "fault_cause (set (linear_sweep (ResetState vm))) r"
    using Execute_returns [OF assms(1) assms(2) [folded list_all_iff], of cb md e] by blast
  from Execute_keeps [OF assms(1) r] f r no_fault_cause [OF f] show ?thesis
    by (auto simp: fault_cause_def split: sum.splits)
qed

theorem Execute_terminates_witness:
  "\<exists>vm' e'. Execute no_callbacks no_metadata
     (vm_with [0x14150000, 0, 0, 0x40000000, 0, 5, 0x20000000]) () = Some (Inr (vm', e'))"
proof -
  let ?vm = "vm_with [0x14150000, 0, 0, 0x40000000, 0, 5, 0x20000000]"
  have wf: "vm_wf ?vm" by (simp add: vm_wf_vm_with MaximumProgramOpcodeCount_def)
  have ops: "\<forall>op \<in> set (linear_sweep (ResetState ?vm)). \<not> is_loop_end (vm_opcode op)" by code_simp
  have "\<forall>op \<in> set (linear_sweep (ResetState ?vm)).
      \<not> is_shift (vm_opcode op) \<and> vm_opcode op \<noteq> EndConditionalOpcode True" by code_simp
  then show ?thesis by (rule Execute_terminates [OF wf ops, THEN conjunct2, THEN mp])
qed

section \<open>Conditional blocks\<close>

text \<open>
  C3. An if-else statement whose branches are well nested, from position \<open>k\<close> to the else at \<open>m\<close> and
  from \<open>n\<close> to the end at \<open>p\<close>: a condition that fails continues at the first opcode of the else
  branch, inside the block; the else reached at the end of a branch taken jumps behind the end
  of the block; and the end reached from the else branch leaves the block there too. None of
  them touches a register or the outside world.
\<close>

theorem if_else_control_flow:
  assumes "block vm k m" "fetch vm m = Some (l, n)" "vm_opcode l = EndConditionalOpcode True"
    and "block vm n p" "fetch vm p = Some (x, q)" "vm_opcode x = EndConditionalOpcode False"
  shows "skip_unless False (at_pos vm k (Suc c)) e = Inr (at_pos vm n (Suc c), e) \<and>
    skip_unless True (at_pos vm k (Suc c)) e = Inr (at_pos vm k (Suc c), e) \<and>
    exec_opcode cb md kDown (vm_opcode l) (at_pos vm n (Suc c)) e = Inr (at_pos vm q c, e) \<and>
    exec_opcode cb md kDown (vm_opcode x) (at_pos vm q (Suc c)) e = Inr (at_pos vm q c, e)"
  using skip_to_else [OF assms(1-3), of c] skip_to_end [OF assms(4-6), of False c] assms(3,6)
  by (simp add: skip_unless_def exec_EndConditional_def)

theorem if_else_control_flow_witness:
  "skip_unless False (at_pos (vm_with [0x80000001, 0x40000000, 0, 5, 0x21000000, 0x40000000, 0, 6,
       0x20000000]) 1 1) () =
     Inr (at_pos (vm_with [0x80000001, 0x40000000, 0, 5, 0x21000000, 0x40000000, 0, 6, 0x20000000]) 5 1, ())"
proof -
  let ?vm = "vm_with [0x80000001, 0x40000000, 0, 5, 0x21000000, 0x40000000, 0, 6, 0x20000000]"
  let ?plain = "\<lambda>op. \<lparr>begin_conditional_block = False, vm_opcode = op\<rparr>"
  have f: "fetch ?vm 1 = Some (?plain (LoadRegisterStaticOpcode 0 5), 4)"
    "fetch ?vm 4 = Some (?plain (EndConditionalOpcode True), 5)"
    "fetch ?vm 5 = Some (?plain (LoadRegisterStaticOpcode 0 6), 8)"
    "fetch ?vm 8 = Some (?plain (EndConditionalOpcode False), 9)" by code_simp+
  have b: "block ?vm 1 4" "block ?vm 5 8"
    by (rule block_plain [OF f(1) _ _ block_nil]; simp) (rule block_plain [OF f(3) _ _ block_nil]; simp)
  show ?thesis
    using if_else_control_flow [OF b(1) f(2) _ b(2) f(4), of 0 "()" no_callbacks no_metadata 0]
    by simp
qed

section \<open>Loading\<close>

text \<open>
  C4. Loading a cheat list of well-formed entries succeeds exactly when the opcodes of the enabled
  entries fit in the 0x400 words of the machine; then the machine holds their concatenation in
  list order, and otherwise it holds no program. Loading changes nothing else.
\<close>

theorem LoadProgram_loads_enabled:
  assumes "vm_wf vm" "\<forall>en \<in> set entries. entry_ok en"
  shows "\<exists>ok vm'. LoadProgram entries vm = Inr (ok, vm') \<and>
    (ok \<longleftrightarrow> length (enabled_program entries) \<le> MaximumProgramOpcodeCount) \<and>
    loaded_program vm' = (if ok then enabled_program entries else []) \<and>
    vm_wf vm' \<and> vm' = vm\<lparr>program := program vm', num_opcodes := num_opcodes vm'\<rparr>"
  using LoadProgram_ok [OF assms] by (auto simp: loaded_from_def)

theorem LoadProgram_loads_enabled_witness:
  "\<exists>vm'. LoadProgram [sample_entry True [1, 2], sample_entry False [3], sample_entry True [4]]
       new_DmntCheatVm = Inr (True, vm') \<and> loaded_program vm' = [1, 2, 4]"
proof -
  let ?es = "[sample_entry True [1, 2], sample_entry False [3], sample_entry True [4]]"
  have "vm_wf new_DmntCheatVm" unfolding vm_wf_def by (simp add: new_DmntCheatVm_def)
  moreover have "\<forall>en \<in> set ?es. entry_ok en"
    by (simp add: entry_ok_def sample_entry_def new_CheatEntry_def)
  moreover have "enabled_program ?es = [1, 2, 4]"
    by (simp add: entry_program_def sample_entry_def new_CheatEntry_def)
  ultimately show ?thesis
    using LoadProgram_loads_enabled [of new_DmntCheatVm ?es] by (auto simp: MaximumProgramOpcodeCount_def)
qed

section \<open>Registers\<close>

text \<open>
  C5. Register arithmetic computes at the width of the opcode: for each of the ten operations and
  the four widths, the destination register receives the result of the operation on the integers
  reduced modulo two to the number of bits, as long as a shift is by less than 64; no other
  register and nothing outside the machine changes.
\<close>

theorem register_arithmetic_at_width:
  assumes "vm_wf vm" "valid_width w" "unat dst < NumRegisters" "unat src1 < NumRegisters"
    "unat src2 < NumRegisters" "shift_ok math_type (registers vm ! unat src2)"
  shows "\<exists>x. exec_PerformArithmeticRegister w math_type dst src1 src2 False v vm e =
      Inr (vm\<lparr>registers := (registers vm)[unat dst := x]\<rparr>, e) \<and>
    uint x = arith_int math_type (uint (registers vm ! unat src1)) (uint (registers vm ! unat src2))
      mod 2 ^ (8 * unat w)"
proof -
  from register_arithmetic_int [OF assms(6)] obtain r where
    r: "register_arithmetic math_type (registers vm ! unat src1) (registers vm ! unat src2) = Inr r"
      "uint r = take_bit 64 (arith_int math_type (uint (registers vm ! unat src1))
         (uint (registers vm ! unat src2)))" by blast
  have "uint (apply_width w r) = arith_int math_type (uint (registers vm ! unat src1))
      (uint (registers vm ! unat src2)) mod 2 ^ (8 * unat w)"
    using width_le_64 [OF assms(2)]
    by (simp add: uint_apply_width assms(2) r(2) min_def flip: take_bit_eq_mod)
  with r(1) assms(1,3,4,5) show ?thesis
    by (intro exI [of _ "apply_width w r"]) (simp add: exec_PerformArithmeticRegister_def)
qed

theorem register_arithmetic_at_width_witness:
  "\<exists>x. exec_PerformArithmeticRegister 1 Subtraction 0 1 2 False 0
       (new_DmntCheatVm\<lparr>registers := [7, 3, 5] @ replicate 13 0\<rparr>) () =
     Inr (new_DmntCheatVm\<lparr>registers := [x, 3, 5] @ replicate 13 0\<rparr>, ()) \<and> uint x = 254"
proof -
  let ?vm = "new_DmntCheatVm\<lparr>registers := [7, 3, 5] @ replicate 13 0\<rparr>"
  have "vm_wf ?vm" unfolding vm_wf_def by (simp add: new_DmntCheatVm_def NumRegisters_def)
  then show ?thesis
    using register_arithmetic_at_width [of ?vm 1 0 1 2 Subtraction 0 "()"]
    by (auto simp: valid_width_def NumRegisters_def shift_ok_def arith_int_def)
qed

text \<open>
  Saving registers through a mask and restoring them through the same mask later, whatever the
  registers hold by then, brings back exactly the registers of the mask and leaves the others.
\<close>

theorem save_restore_mask_round_trip:
  assumes "vm_wf vm" "length ops = NumRegisters" "length other = NumRegisters"
    "exec_SaveRestoreRegisterMask SrSave ops vm e = Inr (vm1, e1)"
  shows "e1 = e \<and> registers vm1 = registers vm \<and>
    (\<exists>vm2. exec_SaveRestoreRegisterMask SrRestore ops (vm1\<lparr>registers := other\<rparr>) e = Inr (vm2, e) \<and>
       (\<forall>i < NumRegisters. registers vm2 ! i = (if ops ! i then registers vm ! i else other ! i)) \<and>
       saved_values vm2 = saved_values vm1)"
proof -
  from exec_mask_save [OF assms(1,2), of e] assms(4) obtain sv where
    sv: "vm1 = vm\<lparr>saved_values := sv\<rparr>" "e1 = e" "length sv = NumRegisters"
      "\<forall>i < NumRegisters. sv ! i = (if ops ! i then registers vm ! i else saved_values vm ! i)" by auto
  have "vm_keeps vm (vm1\<lparr>registers := other\<rparr>)"
    using assms(1,3) sv(1,3) by (simp add: vm_keeps_def)
  from exec_mask_restore [OF vm_keeps_wf [OF this assms(1)] assms(2), of e] sv show ?thesis by auto
qed

theorem save_restore_mask_round_trip_witness:
  "\<exists>vm1 vm2. exec_SaveRestoreRegisterMask SrSave (True # replicate 15 False)
        (new_DmntCheatVm\<lparr>registers := replicate 16 9\<rparr>) () = Inr (vm1, ()) \<and>
     exec_SaveRestoreRegisterMask SrRestore (True # replicate 15 False)
        (vm1\<lparr>registers := replicate 16 1\<rparr>) () = Inr (vm2, ()) \<and>
     registers vm2 ! 0 = 9 \<and> registers vm2 ! 1 = 1"
proof -
  let ?vm = "new_DmntCheatVm\<lparr>registers := replicate 16 9\<rparr>" and ?ops = "True # replicate 15 False"
  have wf: "vm_wf ?vm" unfolding vm_wf_def by (simp add: new_DmntCheatVm_def NumRegisters_def)
  obtain vm1 where s: "exec_SaveRestoreRegisterMask SrSave ?ops ?vm () = Inr (vm1, ())"
    using exec_mask_save [OF wf, of ?ops "()"] by (auto simp: NumRegisters_def)
  with save_restore_mask_round_trip [OF wf _ _ s, of "replicate 16 1"] show ?thesis
    by (auto simp: NumRegisters_def)
qed

text \<open>
  Loading a register from memory at width \<open>w\<close> replaces its low \<open>w\<close> bytes by the bytes the memory
  returns, in little-endian order, and keeps the bytes above: a narrow load does not clear the
  rest of the register.
\<close>

theorem load_register_memory_low_bytes:
  assumes "vm_wf vm" "valid_width w" "unat reg < NumRegisters"
    "address = (if from_reg then registers vm ! unat reg + rel else GetCheatProcessAddress md mt rel)"
    "MemoryReadUnsafe cb address (unat w) e = (bs, e')" "length bs = unat w"
  shows "\<exists>x. exec_LoadRegisterMemory cb md w mt reg from_reg rel vm e =
      Inr (vm\<lparr>registers := (registers vm)[unat reg := x]\<rparr>, e') \<and>
    le_bytes (unat w) x = bs \<and> drop_bit (8 * unat w) x = drop_bit (8 * unat w) (registers vm ! unat reg)"
proof -
  have *: "unat w \<le> 8" using assms(2) by (auto simp: valid_width_def)
  show ?thesis
    using assms * le_bytes_overlay [of bs "registers vm ! unat reg"]
      drop_bit_overlay [of bs "registers vm ! unat reg"]
    by (intro exI [of _ "overlay (registers vm ! unat reg) bs"])
      (auto simp: exec_LoadRegisterMemory_def read_width_def Let_def)
qed
theorem load_register_memory_low_bytes_witness:
  "\<exists>x. exec_LoadRegisterMemory no_callbacks no_metadata 1 Heap 0 False 0
       (new_DmntCheatVm\<lparr>registers := 0x1234 # replicate 15 0\<rparr>) () =
     Inr (new_DmntCheatVm\<lparr>registers := x # replicate 15 0\<rparr>, ()) \<and>
     le_bytes 1 x = [0] \<and> drop_bit 8 x = 0x12"
proof -
  let ?vm = "new_DmntCheatVm\<lparr>registers := 0x1234 # replicate 15 0\<rparr>"
  have "vm_wf ?vm" unfolding vm_wf_def by (simp add: new_DmntCheatVm_def NumRegisters_def)
  then show ?thesis
    using load_register_memory_low_bytes [of ?vm 1 0 _ False 0 no_metadata Heap no_callbacks "()" "[0]" "()"]
    by (auto simp: valid_width_def NumRegisters_def no_callbacks_def)
qed

end
