(* ===== verification/Cheat_Parser.thy ===== *)
theory Cheat_Parser
  imports Cheat_Loading
begin

text \<open>
  The text parser of cheat files, \<^verbatim>\<open>TextCheatParser::Parse\<close> in \<^verbatim>\<open>core/memory/cheat_engine.cpp\<close>. The position
  in the text is modelled by the suffix that starts there. A syntax error returns the empty list;
  reading a character behind the end of the text, which the search for the end of a name does
  when there is none, is a fault.
\<close>

section \<open>Characters\<close>

text \<open>\<^verbatim>\<open>isspace\<close> and \<^verbatim>\<open>isxdigit\<close> in the C locale.\<close>

definition code :: "char \<Rightarrow> nat" where
  "code c = of_char c"

definition isspace :: "char \<Rightarrow> bool" where
  "isspace c \<longleftrightarrow> code c = 32 \<or> (9 \<le> code c \<and> code c \<le> 13)"

definition isxdigit :: "char \<Rightarrow> bool" where
  "isxdigit c \<longleftrightarrow> (48 \<le> code c \<and> code c \<le> 57) \<or> (65 \<le> code c \<and> code c \<le> 70) \<or> (97 \<le> code c \<and> code c \<le> 102)"

definition hex_digit_value :: "char \<Rightarrow> nat" where
  "hex_digit_value c =
     (if code c \<le> 57 then code c - 48 else if code c \<le> 70 then code c - 55 else code c - 87)"

text \<open>\<^verbatim>\<open>strtoul\<close> on a string of hexadecimal digits.\<close>

definition strtoul16 :: "string \<Rightarrow> nat" where
  "strtoul16 s = foldl (\<lambda>acc c. 16 * acc + hex_digit_value c) 0 s"

section \<open>The parser\<close>

datatype parse_fault = ReadPastEnd

text \<open>A character of the view; there is none at its size.\<close>

definition view_at :: "string \<Rightarrow> nat \<Rightarrow> parse_fault + char" where
  "view_at data i = (if i < length data then Inr (data ! i) else Inl ReadPastEnd)"

text \<open>
  The search for the end of a name: the character is read, then the index is increased and
  compared with the size. \<open>Inr None\<close> is the return of the empty name.
\<close>

function name_loop :: "string \<Rightarrow> char \<Rightarrow> nat \<Rightarrow> parse_fault + nat option" where
  "name_loop data m end_index =
     (case view_at data end_index of
        Inl f \<Rightarrow> Inl f
      | Inr c \<Rightarrow>
          if c = m then Inr (Some end_index)
          else if length data < end_index + 1 then Inr None
          else name_loop data m (end_index + 1))"
  by pat_completeness auto
termination
  by (relation "measure (\<lambda>(data, m, end_index). length data - end_index)")
    (auto simp: view_at_def split: if_splits)

declare name_loop.simps [simp del]

text \<open>The size of the name and the name, clamped to the 0x40 characters of \<^verbatim>\<open>readable_name\<close>.\<close>

definition ExtractName :: "string \<Rightarrow> nat \<Rightarrow> char \<Rightarrow> parse_fault + (nat \<times> string)" where
  "ExtractName data start_index m =
     bindF (name_loop data m start_index) (\<lambda>found.
       case found of
         None \<Rightarrow> Inr (0, [])
       | Some end_index \<Rightarrow>
           let out_name_size = end_index - start_index;
               end_index = (if 0x40 < out_name_size then start_index + 0x40 else end_index)
           in Inr (out_name_size, take (end_index - start_index) (drop start_index data)))"

definition store_name :: "string \<Rightarrow> CheatEntry \<Rightarrow> CheatEntry" where
  "store_name name entry =
     (let d = cheat_definition entry;
          n = min (length (readable_name d)) (length name);
          copied = take n name @ drop n (readable_name d)
      in entry\<lparr>cheat_definition :=
           d\<lparr>readable_name := copied[length (readable_name d) - 1 := CHR 0x00]\<rparr>\<rparr>)"

definition store_opcode :: "u32 \<Rightarrow> CheatEntry \<Rightarrow> CheatEntry" where
  "store_opcode w entry =
     (let d = cheat_definition entry
      in entry\<lparr>cheat_definition :=
           d\<lparr>def_opcodes := (def_opcodes d)[unat (def_num_opcodes d) := w],
             def_num_opcodes := def_num_opcodes d + 1\<rparr>\<rparr>)"

text \<open>
  The loop: \<open>None\<close> is an early return of the empty list. The text before the position is not read again, and
  the search for the end of a name does not depend on it (\<open>ExtractName_suffix\<close> below). After a name the position is behind the
  closing character, after a word behind the character that follows its eight digits.
\<close>

function parse_loop :: "string \<Rightarrow> CheatEntry list \<Rightarrow> nat option \<Rightarrow> parse_fault + CheatEntry list option" where
  "parse_loop [] out current_entry = Inr (Some out)"
| "parse_loop (c # rest) out current_entry =
     (if isspace c then parse_loop rest out current_entry
      else if c = CHR ''{'' then
        (if 0 < def_num_opcodes (cheat_definition (out ! 0)) then Inr None
         else
           bindF (ExtractName rest 0 (CHR ''}'')) (\<lambda>(name_size, name).
             if name = [] then Inr None
             else parse_loop (drop (name_size + 1) rest) (out[0 := store_name name (out ! 0)]) (Some 0)))
      else if c = CHR ''['' then
        bindF (ExtractName rest 0 (CHR '']'')) (\<lambda>(name_size, name).
          if name = [] then Inr None
          else parse_loop (drop (name_size + 1) rest) (out @ [store_name name new_CheatEntry]) (Some (length out)))
      else if isxdigit c then
        (case current_entry of
           None \<Rightarrow> Inr None
         | Some k \<Rightarrow>
             if length (def_opcodes (cheat_definition (out ! k)))
                  \<le> unat (def_num_opcodes (cheat_definition (out ! k))) then Inr None
             else
               let hex = take 8 (c # rest) in
               if \<not> list_all isxdigit hex then Inr None
               else parse_loop (drop 8 rest) (out[k := store_opcode (of_nat (strtoul16 hex)) (out ! k)]) (Some k))
      else Inr None)"
  by pat_completeness auto
termination
  by (relation "measure (\<lambda>(rest, out, current_entry). length rest)") auto

declare parse_loop.simps(2) [simp del]

definition number_entries :: "CheatEntry list \<Rightarrow> CheatEntry list" where
  "number_entries out =
     map (\<lambda>(i, entry). entry\<lparr>enabled := 0 < def_num_opcodes (cheat_definition entry), cheat_id := of_nat i\<rparr>)
       (enumerate 0 out)"

definition Parse :: "string \<Rightarrow> parse_fault + CheatEntry list" where
  "Parse data =
     bindF (parse_loop data [new_CheatEntry] None) (\<lambda>r.
       case r of None \<Rightarrow> Inr [] | Some out \<Rightarrow> Inr (number_entries out))"

section \<open>Printing\<close>

text \<open>A cheat file with the given cheats, the first of them the master cheat, in the layout the parser accepts.\<close>

definition hex_digit :: "nat \<Rightarrow> char" where
  "hex_digit n = (if n < 10 then char_of (48 + n) else char_of (55 + n))"

fun hex_digits :: "nat \<Rightarrow> nat \<Rightarrow> string" where
  "hex_digits 0 x = []"
| "hex_digits (Suc n) x = hex_digits n (x div 16) @ [hex_digit (x mod 16)]"

definition render_word :: "u32 \<Rightarrow> string" where
  "render_word w = hex_digits 8 (unat w) @ [CHR 0x20]"

definition render_words :: "u32 list \<Rightarrow> string" where
  "render_words ws = concat (map render_word ws)"

definition render_cheat :: "char \<Rightarrow> char \<Rightarrow> string \<times> u32 list \<Rightarrow> string" where
  "render_cheat l r c = [l] @ fst c @ [r, CHR 0x0A] @ render_words (snd c) @ [CHR 0x0A]"

definition render :: "string \<times> u32 list \<Rightarrow> (string \<times> u32 list) list \<Rightarrow> string" where
  "render master cheats =
     render_cheat (CHR ''{'') (CHR ''}'') master @ concat (map (render_cheat (CHR ''['') (CHR '']'')) cheats)"

text \<open>The entry a cheat of a file becomes.\<close>

definition entry_of_cheat :: "nat \<Rightarrow> string \<times> u32 list \<Rightarrow> CheatEntry" where
  "entry_of_cheat i c =
     \<lparr>enabled = snd c \<noteq> [], cheat_id = of_nat i,
      cheat_definition = \<lparr>readable_name = fst c @ replicate (0x40 - length (fst c)) (CHR 0x00),
        def_num_opcodes = of_nat (length (snd c)),
        def_opcodes = snd c @ replicate (0x100 - length (snd c)) 0\<rparr>\<rparr>"

definition printable :: "char \<Rightarrow> string \<times> u32 list \<Rightarrow> bool" where
  "printable r c \<longleftrightarrow> fst c \<noteq> [] \<and> length (fst c) < 0x40 \<and> r \<notin> set (fst c) \<and> length (snd c) \<le> 0x100"

section \<open>Every parsed list is well formed\<close>

lemma entry_ok_new [simp]: "entry_ok new_CheatEntry"
  by (simp add: entry_ok_def new_CheatEntry_def)

lemma entry_ok_store_name [simp]: "entry_ok entry \<Longrightarrow> entry_ok (store_name name entry)"
  by (simp add: entry_ok_def store_name_def Let_def)

lemma entry_ok_store_opcode:
  "entry_ok entry \<Longrightarrow> unat (def_num_opcodes (cheat_definition entry)) < 0x100 \<Longrightarrow> entry_ok (store_opcode w entry)"
  by (simp add: entry_ok_def store_opcode_def Let_def unat_word_ariths)

definition out_ok :: "CheatEntry list \<Rightarrow> nat option \<Rightarrow> bool" where
  "out_ok out current \<longleftrightarrow> out \<noteq> [] \<and> list_all entry_ok out \<and>
     (case current of None \<Rightarrow> True | Some k \<Rightarrow> k < length out)"

lemma out_ok_simps:
  assumes "out_ok out cur"
  shows "out_ok (out[0 := store_name name (out ! 0)]) (Some 0)"
    and "out_ok (out @ [store_name name new_CheatEntry]) (Some (length out))"
    and "cur = Some k \<Longrightarrow> unat (def_num_opcodes (cheat_definition (out ! k))) < 0x100 \<Longrightarrow>
      out_ok (out[k := store_opcode w (out ! k)]) (Some k)"
    and "cur = Some k \<Longrightarrow> length (def_opcodes (cheat_definition (out ! k))) = 0x100"
  using assms
  by (auto simp: out_ok_def list_all_length nth_list_update nth_append entry_ok_store_opcode)
    (auto simp: entry_ok_def)

lemma parse_loop_Cons_Some:
  assumes "parse_loop (c # rest) out cur = Inr (Some out')" "out_ok out cur"
  shows "\<exists>n out2 cur2. parse_loop (drop n rest) out2 cur2 = Inr (Some out') \<and> out_ok out2 cur2"
proof -
  note out = out_ok_simps [OF assms(2)]
  note eq = assms(1) [unfolded parse_loop.simps(2)]
  consider "parse_loop rest out cur = Inr (Some out')"
    | n name where "parse_loop (drop n rest) (out[0 := store_name name (out ! 0)]) (Some 0) = Inr (Some out')"
    | n name where "parse_loop (drop n rest) (out @ [store_name name new_CheatEntry]) (Some (length out)) =
        Inr (Some out')"
    | k w where "cur = Some k" "unat (def_num_opcodes (cheat_definition (out ! k))) < 0x100"
        "parse_loop (drop 8 rest) (out[k := store_opcode w (out ! k)]) (Some k) = Inr (Some out')"
    using eq out(4) by (auto simp: fault_elims Let_def not_le split: if_splits option.splits prod.splits)
  then show ?thesis
  proof cases
    case 1
    with assms(2) show ?thesis by (metis drop_0)
  qed (use out in blast)+
qed

lemma parse_loop_ok:
  "parse_loop rest out cur = Inr (Some out') \<Longrightarrow> out_ok out cur \<Longrightarrow> out' \<noteq> [] \<and> list_all entry_ok out'"
proof (induction "length rest" arbitrary: rest out cur rule: less_induct)
  case less
  show ?case
  proof (cases rest)
    case Nil
    with less.prems show ?thesis by (simp add: out_ok_def)
  next
    case (Cons c cs)
    from parse_loop_Cons_Some [OF less.prems(1) [unfolded Cons] less.prems(2)] obtain n out2 cur2 where
      "parse_loop (drop n cs) out2 cur2 = Inr (Some out')" "out_ok out2 cur2" by blast
    with less.hyps [of "drop n cs" out2 cur2] Cons show ?thesis by simp
  qed
qed

lemma length_number_entries [simp]: "length (number_entries out) = length out"
  by (simp add: number_entries_def)

lemma nth_number_entries:
  "i < length out \<Longrightarrow> number_entries out ! i =
     (out ! i)\<lparr>enabled := 0 < def_num_opcodes (cheat_definition (out ! i)), cheat_id := of_nat i\<rparr>"
  by (simp add: number_entries_def nth_enumerate_eq)

lemma Parse_ok:
  assumes "Parse data = Inr entries" "i < length entries"
  shows "entry_ok (entries ! i) \<and> cheat_id (entries ! i) = of_nat i \<and>
    (enabled (entries ! i) \<longleftrightarrow> entry_program (entries ! i) \<noteq> [])"
proof -
  have ok: "out_ok [new_CheatEntry] None" by (simp add: out_ok_def)
  from assms obtain out where out: "parse_loop data [new_CheatEntry] None = Inr (Some out)"
    "entries = number_entries out"
    by (auto simp: Parse_def fault_elims split: option.splits)
  from parse_loop_ok [OF out(1) ok] have "list_all entry_ok out" by simp
  with assms(2) out(2) have *: "entry_ok (out ! i)" "i < length out" by (simp_all add: list_all_length)
  then show ?thesis
    unfolding out(2) nth_number_entries [OF *(2)]
    by (auto simp: entry_ok_def entry_program_def word_neq_0_conv [symmetric] unat_eq_0)
qed

section \<open>Parsing what was printed\<close>

lemma code_char_of: "n < 256 \<Longrightarrow> code (char_of n) = n"
  by (simp add: code_def)

lemma hex_digit_ok:
  assumes "n < 16"
  shows "isxdigit (hex_digit n)" "hex_digit_value (hex_digit n) = n" "\<not> isspace (hex_digit n)"
    "hex_digit n \<noteq> CHR ''{''" "hex_digit n \<noteq> CHR ''[''"
proof -
  have c: "code (hex_digit n) = (if n < 10 then 48 + n else 55 + n)"
    using assms by (simp add: hex_digit_def code_char_of)
  show "isxdigit (hex_digit n)" "hex_digit_value (hex_digit n) = n" "\<not> isspace (hex_digit n)"
    using assms by (auto simp: isxdigit_def hex_digit_value_def isspace_def c)
  have "code (CHR ''{'') = 123" "code (CHR ''['') = 91" by (simp_all add: code_def)
  with c assms show "hex_digit n \<noteq> CHR ''{''" "hex_digit n \<noteq> CHR ''[''" by (auto split: if_splits)
qed

lemma length_hex_digits [simp]: "length (hex_digits n x) = n"
  by (induction n arbitrary: x) simp_all

lemma hex_digits_xdigit: "list_all isxdigit (hex_digits n x)"
  by (induction n arbitrary: x) (simp_all add: hex_digit_ok)

lemma strtoul16_hex_digits: "strtoul16 (hex_digits n x) = x mod 16 ^ n"
proof (induction n arbitrary: x)
  case (Suc n)
  have "strtoul16 (hex_digits (Suc n) x) = 16 * (x div 16 mod 16 ^ n) + x mod 16"
    using Suc.IH [of "x div 16"] by (simp add: strtoul16_def hex_digit_ok)
  also have "\<dots> = x mod 16 ^ Suc n" by (simp add: mod_mult2_eq)
  finally show ?case .
qed (simp add: strtoul16_def)

lemma hex_digits_first: "\<exists>d cs. d < 16 \<and> hex_digits (Suc n) x = hex_digit d # cs"
proof (induction n arbitrary: x)
  case 0
  then show ?case by (auto intro: exI [of _ "x mod 16"])
next
  case (Suc n)
  from Suc.IH [of "x div 16"] obtain d cs where "d < 16" "hex_digits (Suc n) (x div 16) = hex_digit d # cs" by blast
  then show ?case by (simp only: hex_digits.simps(2) [of "Suc n"] append_Cons) blast
qed

text \<open>The entry under construction after a name and some words.\<close>

definition partial_entry :: "string \<Rightarrow> u32 list \<Rightarrow> CheatEntry" where
  "partial_entry name ws =
     \<lparr>enabled = False, cheat_id = 0,
      cheat_definition = \<lparr>readable_name = name @ replicate (0x40 - length name) (CHR 0x00),
        def_num_opcodes = of_nat (length ws), def_opcodes = ws @ replicate (0x100 - length ws) 0\<rparr>\<rparr>"

lemma store_name_new: "length name < 0x40 \<Longrightarrow> store_name name new_CheatEntry = partial_entry name []"
  by (auto simp: store_name_def new_CheatEntry_def partial_entry_def Let_def nth_append list_eq_iff_nth_eq
      nth_list_update)

lemma store_opcode_partial:
  "length ws < 0x100 \<Longrightarrow> store_opcode w (partial_entry name ws) = partial_entry name (ws @ [w])"
  by (auto simp: store_opcode_def partial_entry_def Let_def unat_of_nat list_update_append
      simp flip: replicate_Suc intro!: nth_equalityI simp: nth_Cons' nth_append)

lemma parse_word:
  assumes "k < length out" "out ! k = partial_entry name ws" "length ws < 0x100"
  shows "parse_loop (render_word w @ rest) out (Some k) =
    parse_loop rest (out[k := partial_entry name (ws @ [w])]) (Some k)"
proof -
  obtain d cs where d: "d < 16" "hex_digits 8 (unat w) = hex_digit d # cs"
    using hex_digits_first [of 7 "unat w"] by auto
  have len: "length cs = 7" using d(2) length_hex_digits [of 8 "unat w"] by simp
  have num: "unat (def_num_opcodes (cheat_definition (out ! k))) = length ws"
    "length (def_opcodes (cheat_definition (out ! k))) = 0x100"
    using assms(2,3) by (simp_all add: partial_entry_def unat_of_nat)
  have take: "take 8 (hex_digit d # cs @ CHR 0x20 # rest) = hex_digits 8 (unat w)"
    using d(2) len by simp
  have "strtoul16 (hex_digits 8 (unat w)) = unat w"
    using unsigned_less [of w, where 'a = nat] by (simp add: strtoul16_hex_digits)
  then have "of_nat (strtoul16 (hex_digits 8 (unat w))) = w" by simp
  moreover have "render_word w @ rest = hex_digit d # cs @ CHR 0x20 # rest" by (simp add: render_word_def d(2))
  moreover have "drop 8 (cs @ CHR 0x20 # rest) = rest" using len by simp
  ultimately show ?thesis
    using hex_digit_ok [OF d(1)] num take hex_digits_xdigit [of 8 "unat w"] assms store_opcode_partial
    by (simp only: parse_loop.simps(2)) simp
qed

lemma parse_words:
  assumes "k < length out" "out ! k = partial_entry name done" "length done + length ws \<le> 0x100"
  shows "parse_loop (render_words ws @ rest) out (Some k) =
    parse_loop rest (out[k := partial_entry name (done @ ws)]) (Some k)"
  using assms
proof (induction ws arbitrary: out "done")
  case Nil
  then have "out[k := partial_entry name done] = out" by (metis list_update_id)
  then show ?case by (simp add: render_words_def)
next
  case (Cons w ws)
  have "parse_loop (render_words (w # ws) @ rest) out (Some k) =
      parse_loop (render_words ws @ rest) (out[k := partial_entry name (done @ [w])]) (Some k)"
    using parse_word [OF Cons.prems(1,2)] Cons.prems(3) by (simp add: render_words_def)
  also have "\<dots> = parse_loop rest (out[k := partial_entry name (done @ w # ws)]) (Some k)"
    using Cons.IH [of "out[k := partial_entry name (done @ [w])]" "done @ [w]"] Cons.prems by simp
  finally show ?case .
qed

text \<open>The search finds the first closing character, or reads behind the end of the text.\<close>

lemma name_loop_found:
  "m \<in> set (drop i data) \<Longrightarrow>
   name_loop data m i = Inr (Some (i + length (takeWhile (\<lambda>c. c \<noteq> m) (drop i data))))"
proof (induction data m i rule: name_loop.induct)
  case (1 data m i)
  have i: "i < length data" using "1.prems" by (cases "i < length data") auto
  then have d: "drop i data = data ! i # drop (Suc i) data" by (simp add: Cons_nth_drop_Suc)
  show ?case
  proof (cases "data ! i = m")
    case True
    with i d show ?thesis by (simp add: name_loop.simps [of data m i] view_at_def)
  next
    case False
    with "1.IH" [of "data ! i"] "1.prems" i d show ?thesis
      by (simp add: name_loop.simps [of data m i] view_at_def)
  qed
qed

lemma name_loop_not_found: "m \<notin> set (drop i data) \<Longrightarrow> name_loop data m i = Inl ReadPastEnd"
proof (induction data m i rule: name_loop.induct)
  case (1 data m i)
  show ?case
  proof (cases "i < length data")
    case True
    then have d: "drop i data = data ! i # drop (Suc i) data" by (simp add: Cons_nth_drop_Suc)
    with "1.prems" have "data ! i \<noteq> m" by auto
    with "1.IH" [of "data ! i"] "1.prems" True d show ?thesis
      by (simp add: name_loop.simps [of data m i] view_at_def)
  qed (simp add: name_loop.simps [of data m i] view_at_def)
qed

lemma ExtractName_fault: "ExtractName data i m = Inl ReadPastEnd \<longleftrightarrow> m \<notin> set (drop i data)"
  using name_loop_found [of m i data] name_loop_not_found [of m i data]
  by (auto simp: ExtractName_def Let_def)

lemma ExtractName_suffix: "ExtractName (pre @ data) (length pre) m = ExtractName data 0 m"
  using name_loop_found [of m "length pre" "pre @ data"] name_loop_not_found [of m "length pre" "pre @ data"]
    name_loop_found [of m 0 data] name_loop_not_found [of m 0 data]
  by (cases "m \<in> set data") (simp_all add: ExtractName_def Let_def)

lemma ExtractName_append:
  assumes "m \<notin> set name" "length name < 0x40"
  shows "ExtractName (name @ m # rest) 0 m = Inr (length name, name)"
proof -
  have "takeWhile (\<lambda>c. c \<noteq> m) (name @ m # rest) = name" using assms(1) by (induction name) auto
  with name_loop_found [of m 0 "name @ m # rest"] assms(2) show ?thesis by (simp add: ExtractName_def)
qed

lemma brackets: "\<not> isspace (CHR ''{'')" "\<not> isspace (CHR ''['')" "isspace (CHR 0x0A)"
  by (simp_all add: isspace_def code_def)

lemma parse_newline: "parse_loop (CHR 0x0A # rest) out cur = parse_loop rest out cur"
  by (simp add: parse_loop.simps(2) brackets)

lemma parse_master:
  assumes "printable (CHR ''}'') c"
  shows "parse_loop (render_cheat (CHR ''{'') (CHR ''}'') c @ rest) [new_CheatEntry] None =
    parse_loop rest [partial_entry (fst c) (snd c)] (Some 0)"
proof -
  let ?t = "CHR 0x0A # render_words (snd c) @ CHR 0x0A # rest"
  have "parse_loop (CHR ''{'' # fst c @ CHR ''}'' # ?t) [new_CheatEntry] None =
      parse_loop ?t [partial_entry (fst c) []] (Some 0)"
    using assms ExtractName_append [of "CHR ''}''" "fst c" ?t] store_name_new [of "fst c"]
    by (simp add: parse_loop.simps(2) [of "CHR ''{''"] brackets printable_def new_CheatEntry_def)
  then show ?thesis
    using parse_words [of 0 "[partial_entry (fst c) []]" "fst c" "[]" "snd c" "CHR 0x0A # rest"] assms
    by (simp add: render_cheat_def parse_newline printable_def)
qed

lemma parse_cheat:
  assumes "printable (CHR '']'') c"
  shows "parse_loop (render_cheat (CHR ''['') (CHR '']'') c @ rest) out cur =
    parse_loop rest (out @ [partial_entry (fst c) (snd c)]) (Some (length out))"
proof -
  let ?t = "CHR 0x0A # render_words (snd c) @ CHR 0x0A # rest"
  have "parse_loop (CHR ''['' # fst c @ CHR '']'' # ?t) out cur =
      parse_loop ?t (out @ [partial_entry (fst c) []]) (Some (length out))"
    using assms ExtractName_append [of "CHR '']''" "fst c" ?t] store_name_new [of "fst c"]
    by (simp add: parse_loop.simps(2) [of "CHR ''[''"] brackets printable_def)
  then show ?thesis
    using parse_words [of "length out" "out @ [partial_entry (fst c) []]" "fst c" "[]" "snd c" "CHR 0x0A # rest"]
      assms
    by (simp add: render_cheat_def parse_newline printable_def)
qed

lemma parse_cheats_then:
  assumes "\<forall>c \<in> set cheats. printable (CHR '']'') c"
  shows "\<exists>cur'. parse_loop (concat (map (render_cheat (CHR ''['') (CHR '']'')) cheats) @ rest) out cur =
    parse_loop rest (out @ map (\<lambda>c. partial_entry (fst c) (snd c)) cheats) cur'"
  using assms
proof (induction cheats arbitrary: out cur)
  case (Cons c cheats)
  from Cons.prems Cons.IH [of "out @ [partial_entry (fst c) (snd c)]" "Some (length out)"] parse_cheat [of c]
  show ?case by simp
qed auto

lemma parse_cheats:
  assumes "\<forall>c \<in> set cheats. printable (CHR '']'') c"
  shows "parse_loop (concat (map (render_cheat (CHR ''['') (CHR '']'')) cheats)) out cur =
    Inr (Some (out @ map (\<lambda>c. partial_entry (fst c) (snd c)) cheats))"
  using parse_cheats_then [OF assms, of "[]" out cur] by auto

lemma of_nat_length_pos: "length ws \<le> 0x100 \<Longrightarrow> 0 < (of_nat (length ws) :: u32) \<longleftrightarrow> ws \<noteq> []"
  by (simp add: word_less_nat_alt unat_of_nat)

lemma number_partial:
  assumes "\<forall>c \<in> set cs. length (snd c) \<le> 0x100"
  shows "number_entries (map (\<lambda>c. partial_entry (fst c) (snd c)) cs) =
    map (\<lambda>(i, c). entry_of_cheat i c) (enumerate 0 cs)"
proof (rule nth_equalityI)
  fix i assume "i < length (number_entries (map (\<lambda>c. partial_entry (fst c) (snd c)) cs))"
  then have i: "i < length cs" by simp
  with assms have "length (snd (cs ! i)) \<le> 0x100" by simp
  from of_nat_length_pos [OF this] i show "number_entries (map (\<lambda>c. partial_entry (fst c) (snd c)) cs) ! i =
      map (\<lambda>(i, c). entry_of_cheat i c) (enumerate 0 cs) ! i"
    by (simp add: nth_number_entries nth_enumerate_eq partial_entry_def entry_of_cheat_def)
qed simp

lemma Parse_rendered:
  assumes "printable (CHR ''}'') master" "\<forall>c \<in> set cheats. printable (CHR '']'') c"
  shows "Parse (render master cheats) =
    Inr (map (\<lambda>(i, c). entry_of_cheat i c) (enumerate 0 (master # cheats)))"
proof -
  have "parse_loop (render master cheats) [new_CheatEntry] None =
      Inr (Some (map (\<lambda>c. partial_entry (fst c) (snd c)) (master # cheats)))"
    using assms by (simp add: render_def parse_master parse_cheats)
  moreover have "\<forall>c \<in> set (master # cheats). length (snd c) \<le> 0x100" using assms by (auto simp: printable_def)
  ultimately show ?thesis by (simp only: Parse_def bindF_simps option.case number_partial)
qed

section \<open>Properties\<close>

text \<open>
  Every entry of a parsed cheat file is well formed: its name and opcode arrays have their
  declared sizes, at most 0x100 opcodes are used, its identifier is its position, and it is
  enabled exactly when it has opcodes. Such lists are what \<^verbatim>\<open>LoadProgram\<close> relies on.
\<close>

theorem Parse_well_formed:
  assumes "Parse data = Inr entries" "i < length entries"
  shows "entry_ok (entries ! i) \<and> cheat_id (entries ! i) = of_nat i \<and>
    (enabled (entries ! i) \<longleftrightarrow> entry_program (entries ! i) \<noteq> [])"
  using assms by (rule Parse_ok)

text \<open>
  C15. Parsing a printed cheat file gives back its cheats: a master cheat in braces and any
  number of cheats in brackets, with names of 1 to 63 characters without their closing character
  and up to 0x100 opcodes each, become the entries with these names (padded with zeros) and
  opcodes, in order.
\<close>

theorem Parse_render:
  assumes "printable (CHR ''}'') master" "\<forall>c \<in> set cheats. printable (CHR '']'') c"
  shows "Parse (render master cheats) =
    Inr (map (\<lambda>(i, c). entry_of_cheat i c) (enumerate 0 (master # cheats)))"
  using assms by (rule Parse_rendered)

theorem Parse_render_witness:
  "Parse (render (''M'', []) [(''Inf HP'', [0x04000000, 0x0BADF00D, 99])]) =
     Inr [entry_of_cheat 0 (''M'', []), entry_of_cheat 1 (''Inf HP'', [0x04000000, 0x0BADF00D, 99])]"
proof -
  have "printable (CHR ''}'') (''M'', [])" "printable (CHR '']'') (''Inf HP'', [0x04000000, 0x0BADF00D, 99])"
    by (simp_all add: printable_def)
  with Parse_render [of "(''M'', [])" "[(''Inf HP'', [0x04000000, 0x0BADF00D, 99])]"] show ?thesis
    by (simp add: enumerate_Suc_eq)
qed

theorem Parse_well_formed_witness:
  "\<exists>entries. Parse (render (''M'', []) [(''A'', [7])]) = Inr entries \<and> length entries = 2 \<and>
     cheat_id (entries ! 1) = 1 \<and> enabled (entries ! 1) = (entry_program (entries ! 1) \<noteq> [])"
proof -
  let ?es = "map (\<lambda>(i, c). entry_of_cheat i c) (enumerate 0 [(''M'', []), (''A'', [7])])"
  have "Parse (render (''M'', []) [(''A'', [7])]) = Inr ?es"
    by (rule Parse_rendered) (simp_all add: printable_def)
  with Parse_well_formed [OF this, of 1] show ?thesis by simp
qed

text \<open>
  C16. A name that is not closed makes the parser read behind the end of the text: after any printed
  file, with any number of cheats, an opening bracket with no closing one after it, and likewise a file
  that is only an unclosed master name. In general the search for the end of a name reads behind the
  text exactly when the closing character does not occur from its start on; so the test of the index against the
  size, which stands behind the read, is never what ends it.
\<close>

theorem Parse_unterminated_name:
  assumes "printable (CHR ''}'') master" "\<forall>c \<in> set cheats. printable (CHR '']'') c"
    and "CHR '']'' \<notin> set name" "CHR ''}'' \<notin> set name'"
  shows "Parse (render master cheats @ CHR ''['' # name) = Inl ReadPastEnd \<and>
    Parse (CHR ''{'' # name') = Inl ReadPastEnd \<and>
    (\<forall>data start m. ExtractName data start m = Inl ReadPastEnd \<longleftrightarrow> m \<notin> set (drop start data)) \<and>
    (\<forall>data start m. name_loop data m start \<noteq> Inr None)"
proof (intro conjI allI)
  have open1: "parse_loop (CHR ''['' # name) out cur = Inl ReadPastEnd" for out cur
    using ExtractName_fault [of name 0 "CHR '']''"] assms(3) by (simp add: parse_loop.simps(2) brackets)
  obtain cur where "parse_loop (render master cheats @ CHR ''['' # name) [new_CheatEntry] None =
      parse_loop (CHR ''['' # name) (partial_entry (fst master) (snd master) #
        map (\<lambda>c. partial_entry (fst c) (snd c)) cheats) cur"
    using parse_cheats_then [OF assms(2), of "CHR ''['' # name" "[partial_entry (fst master) (snd master)]" "Some 0"]
      parse_master [OF assms(1)] by (auto simp: render_def)
  then show "Parse (render master cheats @ CHR ''['' # name) = Inl ReadPastEnd" by (simp add: Parse_def open1)
  show "Parse (CHR ''{'' # name') = Inl ReadPastEnd"
    using ExtractName_fault [of name' 0 "CHR ''}''"] assms(4)
    by (simp add: Parse_def parse_loop.simps(2) brackets new_CheatEntry_def)
  show "ExtractName data start m = Inl ReadPastEnd \<longleftrightarrow> m \<notin> set (drop start data)" for data start m
    by (rule ExtractName_fault)
  show "name_loop data m start \<noteq> Inr None" for data start m
    using name_loop_found [of m start data] name_loop_not_found [of m start data]
    by (cases "m \<in> set (drop start data)") auto
qed

theorem Parse_unterminated_name_witness:
  "Parse (render (''M'', [5]) [(''A'', [1, 2]), (''B'', [3])] @ ''[C'') = Inl ReadPastEnd \<and> Parse ''{M'' = Inl ReadPastEnd"
  using Parse_unterminated_name [of "(''M'', [5])" "[(''A'', [1, 2]), (''B'', [3])]" "''C''" "''M''"]
  by (simp add: printable_def)

end
