(* ===== verification/Page_Table.thy ===== *)
theory Page_Table
  imports Lemon_Prelude
begin

text \<open>
  The entries of the guest page table, \<^verbatim>\<open>common/page_table.h\<close>: a host pointer, a page type, a block
  identifier and a mark packed into one 64-bit word. The fields of the bit-field structure
  \<^verbatim>\<open>PageEntryData::Data\<close> are laid out from the least significant bit, as the ABIs the program is
  built for do: one bit of mark, two of type, nine of block, forty-five of page, seven of block.
\<close>

section \<open>Entries\<close>

datatype PageType = Unmapped | Memory | DebugMemory | RasterizerCachedMemory

definition PageType_value :: "PageType \<Rightarrow> u64" where
  "PageType_value t =
     (case t of Unmapped \<Rightarrow> 0 | Memory \<Rightarrow> 1 | DebugMemory \<Rightarrow> 2 | RasterizerCachedMemory \<Rightarrow> 3)"

definition raw_marked :: "u64 \<Rightarrow> bool" where
  "raw_marked raw = bit raw 0"

definition raw_type :: "u64 \<Rightarrow> PageType" where
  "raw_type raw =
     (if bit raw 1 then (if bit raw 2 then RasterizerCachedMemory else Memory)
      else (if bit raw 2 then DebugMemory else Unmapped))"

definition raw_page :: "u64 \<Rightarrow> u64" where
  "raw_page raw = take_bit 45 (drop_bit 12 raw)"

text \<open>
  \<^verbatim>\<open>ExtractPointer\<close> moves the page number to the top of a signed word, dropping its highest bit, and
  shifts it back with sign extension.
\<close>

definition ExtractPointer :: "u64 \<Rightarrow> bool \<Rightarrow> u64" where
  "ExtractPointer raw ignore_marked =
     (if raw_marked raw \<and> \<not> ignore_marked then 0
      else signed_drop_bit 8 (push_bit 20 (raw_page raw)))"

definition ExtractBlock :: "u64 \<Rightarrow> u16" where
  "ExtractBlock raw =
     ucast (take_bit 9 (drop_bit 3 raw) OR push_bit 9 (take_bit 7 (drop_bit 57 raw)))"

definition PointerTypeBlock :: "u64 \<Rightarrow> bool \<Rightarrow> u64 \<times> PageType \<times> u16" where
  "PointerTypeBlock raw ignore_marked =
     (ExtractPointer raw ignore_marked, raw_type raw, ExtractBlock raw)"

definition Store :: "bool \<Rightarrow> PageType \<Rightarrow> u16 \<Rightarrow> u64 \<Rightarrow> u64" where
  "Store marked ty block pointer =
     of_bool marked OR push_bit 1 (take_bit 2 (PageType_value ty)) OR
     push_bit 3 (take_bit 9 (ucast block)) OR push_bit 12 (take_bit 45 (drop_bit 12 pointer)) OR
     push_bit 57 (take_bit 7 (drop_bit 9 (ucast block)))"

definition MarkRasterizerCached :: "u64 \<Rightarrow> u64" where
  "MarkRasterizerCached raw = raw OR 7"

definition MarkDebug :: "u64 \<Rightarrow> u16 \<Rightarrow> u64" where
  "MarkDebug ptr block = Store True DebugMemory block ptr"

section \<open>The page table\<close>

record PageTable =
  pt_entries :: "nat \<Rightarrow> u64"
  pt_size :: nat \<comment> \<open>the number of entries\<close>
  address_space_bits :: nat

definition Resize :: "nat \<Rightarrow> nat \<Rightarrow> PageTable" where
  "Resize address_space_width_in_bits page_bits =
     \<lparr>pt_entries = (\<lambda>_. 0), pt_size = 2 ^ (address_space_width_in_bits - page_bits),
      address_space_bits = address_space_width_in_bits\<rparr>"

text \<open>The pointers an entry can represent: page aligned, bits 56 to 63 equal to bit 55.\<close>

definition storable_pointer :: "u64 \<Rightarrow> bool" where
  "storable_pointer p \<longleftrightarrow> take_bit 12 p = 0 \<and> signed_drop_bit 8 (push_bit 8 p) = p"

section \<open>Lemmas\<close>

lemma storable_bits:
  assumes "storable_pointer p"
  shows "i < 12 \<Longrightarrow> \<not> bit p i" and "56 \<le> i \<Longrightarrow> i < 64 \<Longrightarrow> bit p i \<longleftrightarrow> bit p 55"
proof -
  assume "i < 12"
  moreover have "\<not> bit (take_bit 12 p) i" using assms by (simp add: storable_pointer_def)
  ultimately show "\<not> bit p i" by (simp add: bit_take_bit_iff)
next
  assume "56 \<le> i" "i < 64"
  have "bit p i = bit (signed_drop_bit 8 (push_bit 8 p)) i" using assms by (simp add: storable_pointer_def)
  also have "\<dots> = bit p 55" using \<open>56 \<le> i\<close> \<open>i < 64\<close> by (simp add: bit_signed_drop_bit_iff bit_simps)
  finally show "bit p i \<longleftrightarrow> bit p 55" .
qed

lemma raw_type_Store [simp]: "raw_type (Store m ty b p) = ty"
  by (cases ty; cases m) (simp_all add: raw_type_def Store_def PageType_value_def bit_simps)

lemma raw_marked_Store [simp]: "raw_marked (Store m ty b p) = m"
  by (cases m; cases ty) (simp_all add: raw_marked_def Store_def PageType_value_def bit_simps)

lemma raw_type_cases: "raw_type (MarkRasterizerCached raw) = RasterizerCachedMemory"
  "raw_marked (MarkRasterizerCached raw)"
  by (simp_all add: raw_type_def raw_marked_def MarkRasterizerCached_def bit_simps)

lemma bit_page_pointer:
  "bit (signed_drop_bit 8 (push_bit 20 (raw_page raw)) :: u64) i \<longleftrightarrow>
     12 \<le> i \<and> i < 64 \<and> bit raw (min i 55)"
  by (auto simp: bit_signed_drop_bit_iff raw_page_def bit_simps min_def dest: bit_imp_le_length)

lemma bit_PageType_value: "3 \<le> i \<Longrightarrow> \<not> bit (take_bit 2 (x :: u64) * 2) i"
  using bit_push_bit_iff [of 1 "take_bit 2 x" i] by (auto simp: bit_take_bit_iff)

lemma bit_Store_page: "12 \<le> i \<Longrightarrow> i < 57 \<Longrightarrow> bit (Store m ty b p) i \<longleftrightarrow> bit p i"
  by (auto simp: Store_def bit_simps bit_PageType_value)

lemma bit_Store_block_low: "i < 9 \<Longrightarrow> bit (Store m ty b p) (i + 3) \<longleftrightarrow> bit b i"
  by (auto simp: Store_def bit_simps bit_PageType_value)

lemma bit_Store_block_high: "i < 7 \<Longrightarrow> bit (Store m ty b p) (i + 57) \<longleftrightarrow> bit b (i + 9)"
  by (auto simp: Store_def bit_simps bit_PageType_value add.commute)

lemma page_pointer_Store:
  assumes "storable_pointer p"
  shows "signed_drop_bit 8 (push_bit 20 (raw_page (Store m ty b p))) = p"
proof (rule bit_eqI)
  fix i assume "possible_bit TYPE(u64) i"
  then have i: "i < 64" by simp
  show "bit (signed_drop_bit 8 (push_bit 20 (raw_page (Store m ty b p)))) i = bit p i"
  proof (cases "i < 56")
    case True
    with i storable_bits(1) [OF assms, of i] show ?thesis
      by (cases "12 \<le> i") (simp_all add: bit_page_pointer bit_Store_page min_def)
  next
    case False
    with i storable_bits(2) [OF assms, of i] show ?thesis
      by (simp add: bit_page_pointer bit_Store_page min_def)
  qed
qed

lemma ExtractPointer_Store:
  "storable_pointer p \<Longrightarrow> ExtractPointer (Store m ty b p) ign = (if m \<and> \<not> ign then 0 else p)"
  by (simp add: ExtractPointer_def page_pointer_Store)

lemma ExtractBlock_Store [simp]: "ExtractBlock (Store m ty b p) = b"
proof (rule bit_eqI)
  fix i assume "possible_bit TYPE(u16) i"
  then have i: "i < 16" by simp
  show "bit (ExtractBlock (Store m ty b p)) i = bit b i"
  proof (cases "i < 9")
    case True
    then show ?thesis
      using bit_Store_block_low [OF True, of m ty b p] by (auto simp: ExtractBlock_def bit_simps add.commute)
  next
    case False
    then show ?thesis
      using i bit_Store_block_high [of "i - 9" m ty b p] by (auto simp: ExtractBlock_def bit_simps add.commute)
  qed
qed

lemma cached_keeps:
  "ExtractBlock (MarkRasterizerCached raw) = ExtractBlock raw"
  "ExtractPointer (MarkRasterizerCached raw) True = ExtractPointer raw True"
  "ExtractPointer (MarkRasterizerCached raw) False = 0"
proof -
  have seven: "(7 :: u64) = mask 3" by (simp add: mask_eq_exp_minus_1)
  have *: "drop_bit n (MarkRasterizerCached raw) = drop_bit n raw" if "3 \<le> n" for n
    using that by (intro bit_eqI) (auto simp: MarkRasterizerCached_def seven bit_simps)
  show "ExtractBlock (MarkRasterizerCached raw) = ExtractBlock raw" by (simp add: ExtractBlock_def *)
  show "ExtractPointer (MarkRasterizerCached raw) True = ExtractPointer raw True"
    by (simp add: ExtractPointer_def raw_page_def *)
  show "ExtractPointer (MarkRasterizerCached raw) False = 0"
    by (simp add: ExtractPointer_def raw_type_cases)
qed

section \<open>Properties\<close>

text \<open>
  A page-table entry keeps what is stored in it: a page-aligned pointer whose top bits are a sign
  extension, any page type and any 16-bit block identifier come back unchanged, and the pointer
  of a marked entry reads as null unless the mark is ignored. Marking the entry as cached by the
  rasterizer keeps the pointer behind the mark and the block.
\<close>

theorem page_entry_round_trip:
  assumes "storable_pointer pointer"
  shows "PointerTypeBlock (Store marked ty block pointer) ignore_marked =
      (if marked \<and> \<not> ignore_marked then 0 else pointer, ty, block) \<and>
    PointerTypeBlock (MarkRasterizerCached (Store marked ty block pointer)) ignore_marked =
      (if ignore_marked then pointer else 0, RasterizerCachedMemory, block)"
  using assms
  by (cases ignore_marked) (simp_all add: PointerTypeBlock_def ExtractPointer_Store cached_keeps raw_type_cases)

theorem page_entry_round_trip_witness:
  "PointerTypeBlock (Store False Memory 0xABCD 0xFF80000012345000) False =
     (0xFF80000012345000, Memory, 0xABCD)"
proof -
  have "storable_pointer 0xFF80000012345000" by code_simp
  from page_entry_round_trip [OF this, where marked = False and ty = Memory and block = "0xABCD" and ignore_marked = False] show ?thesis by simp
qed

end
