(* ===== verification/Guest_Memory.thy ===== *)
theory Guest_Memory
  imports Page_Table
begin

text \<open>
  Guest memory, \<^verbatim>\<open>core/memory.cpp\<close>: the walk over the pages of a block and the block operations
  built on it, the pointer lookup, the typed reads and writes with their splitting of unaligned
  accesses, mapping and unmapping of pages and the marking of pages as cached by the rasterizer or
  as watched by the debugger.

  Host memory is a function from host addresses to bytes, so that two guest pages backed by the
  same host page alias in the model as they do in the program. The notifications sent to the
  GPU before a cached page is accessed (\<^verbatim>\<open>HandleRasterizerDownload\<close>, \<^verbatim>\<open>HandleRasterizerWrite\<close>) run code of
  the video core, which may write guest memory; they are a parameter. Accessing a null host
  pointer is a fault.
\<close>

section \<open>State\<close>

record GuestMemory =
  page_table :: PageTable
  host :: "u64 \<Rightarrow> u8"
  block_count :: u32

record Rasterizer =
  HandleRasterizerDownload :: "VAddr \<Rightarrow> nat \<Rightarrow> GuestMemory \<Rightarrow> GuestMemory"
  HandleRasterizerWrite :: "VAddr \<Rightarrow> nat \<Rightarrow> GuestMemory \<Rightarrow> GuestMemory"

datatype mem_fault = NullPointer

definition YUZU_PAGEBITS :: nat where
  "YUZU_PAGEBITS = 12"

definition YUZU_PAGESIZE :: nat where
  "YUZU_PAGESIZE = 2 ^ YUZU_PAGEBITS"

definition NoSpanBlock :: u16 where
  "NoSpanBlock = 0xFFFF"

text \<open>The entry of a page; \<^verbatim>\<open>SparseLargeVector\<close> reads pages that were never committed as zero.\<close>

definition entry_of :: "GuestMemory \<Rightarrow> nat \<Rightarrow> u64" where
  "entry_of m page = pt_entries (page_table m) page"

definition set_entry :: "GuestMemory \<Rightarrow> nat \<Rightarrow> u64 \<Rightarrow> GuestMemory" where
  "set_entry m page raw =
     m\<lparr>page_table := (page_table m)\<lparr>pt_entries := (pt_entries (page_table m))(page := raw)\<rparr>\<rparr>"

definition page_of :: "VAddr \<Rightarrow> nat" where
  "page_of vaddr = unat (drop_bit 12 vaddr)"

section \<open>Host memory\<close>

text \<open>\<^verbatim>\<open>memcpy\<close> from and to host memory.\<close>

definition host_read :: "GuestMemory \<Rightarrow> u64 \<Rightarrow> nat \<Rightarrow> u8 list" where
  "host_read m ptr n = map (\<lambda>i. host m (ptr + of_nat i)) [0..<n]"

definition host_write :: "GuestMemory \<Rightarrow> u64 \<Rightarrow> u8 list \<Rightarrow> GuestMemory" where
  "host_write m ptr bs =
     m\<lparr>host := (\<lambda>a. if unat (a - ptr) < length bs then bs ! unat (a - ptr) else host m a)\<rparr>"

text \<open>\<^verbatim>\<open>memcpy\<close> into a buffer at an offset.\<close>

definition splice :: "'a list \<Rightarrow> nat \<Rightarrow> 'a list \<Rightarrow> 'a list" where
  "splice buf off bs = take off buf @ bs @ drop (off + length bs) buf"

section \<open>Walking a block\<close>

definition AddressSpaceContains :: "GuestMemory \<Rightarrow> VAddr \<Rightarrow> u64 \<Rightarrow> bool" where
  "AddressSpaceContains m addr sz \<longleftrightarrow>
     addr \<le> addr + sz \<and> addr + sz \<le> push_bit (address_space_bits (page_table m)) 1"

text \<open>
  The pointers behind debug pages and pages cached by the rasterizer: the one stored behind the
  mark, relative to the address, or null.
\<close>

definition GetPointerFromRasterizerCachedMemory :: "GuestMemory \<Rightarrow> VAddr \<Rightarrow> u64 option" where
  "GetPointerFromRasterizerCachedMemory m vaddr =
     (let paddr = ExtractPointer (entry_of m (page_of vaddr)) True
      in if paddr \<noteq> 0 then Some (paddr + vaddr) else None)"

definition GetPointerFromDebugMemory :: "GuestMemory \<Rightarrow> VAddr \<Rightarrow> u64 option" where
  "GetPointerFromDebugMemory m vaddr =
     (let paddr = ExtractPointer (entry_of m (page_of vaddr)) True
      in if paddr \<noteq> 0 then Some (paddr + vaddr) else None)"

text \<open>
  The three callbacks of \<^verbatim>\<open>WalkBlock\<close>, over the memory and a state \<open>'b\<close> of the caller (its buffer):
  each gets the offset in the block and the number of bytes.
\<close>

record 'b Walker =
  on_unmapped :: "nat \<Rightarrow> nat \<Rightarrow> VAddr \<Rightarrow> GuestMemory \<times> 'b \<Rightarrow> mem_fault + (GuestMemory \<times> 'b)"
  on_memory :: "nat \<Rightarrow> nat \<Rightarrow> u64 option \<Rightarrow> GuestMemory \<times> 'b \<Rightarrow> mem_fault + (GuestMemory \<times> 'b)"
  on_rasterizer :: "VAddr \<Rightarrow> nat \<Rightarrow> nat \<Rightarrow> u64 option \<Rightarrow> GuestMemory \<times> 'b \<Rightarrow>
    mem_fault + (GuestMemory \<times> 'b)"

definition visit_page :: "'b Walker \<Rightarrow> nat \<Rightarrow> nat \<Rightarrow> 12 word \<Rightarrow> nat \<Rightarrow> GuestMemory \<times> 'b \<Rightarrow>
    mem_fault + (GuestMemory \<times> 'b)" where
  "visit_page w offset page_index page_offset copy_amount s =
     (let raw = entry_of (fst s) page_index;
          current_vaddr = push_bit 12 (of_nat page_index) + ucast page_offset
      in case raw_type raw of
           Unmapped \<Rightarrow> on_unmapped w offset copy_amount current_vaddr s
         | Memory \<Rightarrow>
             on_memory w offset copy_amount
               (Some (ExtractPointer raw False + ucast page_offset + push_bit 12 (of_nat page_index))) s
         | DebugMemory \<Rightarrow>
             on_memory w offset copy_amount (GetPointerFromDebugMemory (fst s) current_vaddr) s
         | RasterizerCachedMemory \<Rightarrow>
             on_rasterizer w current_vaddr offset copy_amount
               (GetPointerFromRasterizerCachedMemory (fst s) current_vaddr) s)"

lemma page_room_pos: "unat (page_offset :: 12 word) < YUZU_PAGESIZE"
  using unsigned_less [of page_offset, where 'a = nat] by (simp add: YUZU_PAGESIZE_def YUZU_PAGEBITS_def)

text \<open>
  The loop over the pages. The offset in the page is a 12-bit word, zero from the second page on;
  every round handles at least one byte.
\<close>

function walk_loop :: "'b Walker \<Rightarrow> nat \<Rightarrow> nat \<Rightarrow> 12 word \<Rightarrow> nat \<Rightarrow> bool \<Rightarrow> GuestMemory \<times> 'b \<Rightarrow>
    mem_fault + (bool \<times> GuestMemory \<times> 'b)" where
  "walk_loop w offset page_index page_offset remaining_size user_accessible s =
     (if remaining_size = 0 then Inr (user_accessible, s)
      else
        let copy_amount = min (YUZU_PAGESIZE - unat page_offset) remaining_size;
            accessible = (user_accessible \<and> raw_type (entry_of (fst s) page_index) \<noteq> Unmapped)
        in bindF (visit_page w offset page_index page_offset copy_amount s) (\<lambda>s'.
             walk_loop w (offset + copy_amount) (page_index + 1) 0 (remaining_size - copy_amount) accessible s'))"
  by pat_completeness auto
termination
  by (relation "measure (\<lambda>(w, offset, page_index, page_offset, remaining_size, acc, s). remaining_size)")
    (auto simp: page_room_pos)

declare walk_loop.simps [simp del]

definition WalkBlock :: "'b Walker \<Rightarrow> VAddr \<Rightarrow> u64 \<Rightarrow> GuestMemory \<times> 'b \<Rightarrow>
    mem_fault + (bool \<times> GuestMemory \<times> 'b)" where
  "WalkBlock w addr sz s =
     (if \<not> AddressSpaceContains (fst s) addr sz then
        bindF (on_unmapped w 0 (unat sz) addr s) (\<lambda>s'. Inr (False, s'))
      else walk_loop w 0 (page_of addr) (ucast addr) (unat sz) True s)"

section \<open>Block operations\<close>

text \<open>The copies of the callbacks; a null pointer faults.\<close>

definition read_ptr :: "u64 option \<Rightarrow> nat \<Rightarrow> nat \<Rightarrow> GuestMemory \<times> u8 list \<Rightarrow>
    mem_fault + (GuestMemory \<times> u8 list)" where
  "read_ptr ptr offset n s =
     (case ptr of
        None \<Rightarrow> Inl NullPointer
      | Some p \<Rightarrow> Inr (fst s, splice (snd s) offset (host_read (fst s) p n)))"

definition write_ptr :: "u64 option \<Rightarrow> u8 list \<Rightarrow> GuestMemory \<times> 'b \<Rightarrow> mem_fault + (GuestMemory \<times> 'b)" where
  "write_ptr ptr bs s =
     (case ptr of None \<Rightarrow> Inl NullPointer | Some p \<Rightarrow> Inr (host_write (fst s) p bs, snd s))"

text \<open>The callbacks of the block operations.\<close>

definition read_walker :: "Rasterizer \<Rightarrow> bool \<Rightarrow> u8 list Walker" where
  "read_walker r unsafe =
     \<lparr>on_unmapped = (\<lambda>offset n vaddr (m, buf). Inr (m, splice buf offset (replicate n 0))),
      on_memory = (\<lambda>offset n ptr s. read_ptr ptr offset n s),
      on_rasterizer = (\<lambda>vaddr offset n ptr (m, buf).
        read_ptr ptr offset n (if unsafe then m else HandleRasterizerDownload r vaddr n m, buf))\<rparr>"

definition write_walker :: "Rasterizer \<Rightarrow> u8 list \<Rightarrow> bool \<Rightarrow> unit Walker" where
  "write_walker r buffer unsafe =
     \<lparr>on_unmapped = (\<lambda>offset n vaddr s. Inr s),
      on_memory = (\<lambda>offset n ptr s. write_ptr ptr (take n (drop offset buffer)) s),
      on_rasterizer = (\<lambda>vaddr offset n ptr (m, u).
        write_ptr ptr (take n (drop offset buffer))
          (if unsafe then m else HandleRasterizerWrite r vaddr n m, u))\<rparr>"

definition zero_walker :: "Rasterizer \<Rightarrow> unit Walker" where
  "zero_walker r =
     \<lparr>on_unmapped = (\<lambda>offset n vaddr s. Inr s),
      on_memory = (\<lambda>offset n ptr s. write_ptr ptr (replicate n 0) s),
      on_rasterizer = (\<lambda>vaddr offset n ptr (m, u).
        write_ptr ptr (replicate n 0) (HandleRasterizerWrite r vaddr n m, u))\<rparr>"

definition ReadBlockImpl :: "Rasterizer \<Rightarrow> VAddr \<Rightarrow> u64 \<Rightarrow> bool \<Rightarrow> GuestMemory \<times> u8 list \<Rightarrow>
    mem_fault + (bool \<times> GuestMemory \<times> u8 list)" where
  "ReadBlockImpl r addr sz unsafe s = WalkBlock (read_walker r unsafe) addr sz s"

definition WriteBlockImpl :: "Rasterizer \<Rightarrow> VAddr \<Rightarrow> u8 list \<Rightarrow> bool \<Rightarrow> GuestMemory \<Rightarrow>
    mem_fault + (bool \<times> GuestMemory)" where
  "WriteBlockImpl r addr buffer unsafe m =
     bindF (WalkBlock (write_walker r buffer unsafe) addr (of_nat (length buffer)) (m, ()))
       (\<lambda>(ok, m, _). Inr (ok, m))"

definition ZeroBlock :: "Rasterizer \<Rightarrow> VAddr \<Rightarrow> u64 \<Rightarrow> GuestMemory \<Rightarrow> mem_fault + (bool \<times> GuestMemory)" where
  "ZeroBlock r addr sz m =
     bindF (WalkBlock (zero_walker r) addr sz (m, ())) (\<lambda>(ok, m, _). Inr (ok, m))"

text \<open>
  \<^verbatim>\<open>CopyBlock\<close> walks the destination: the pointer its callbacks copy from is the one of the
  destination page. The source address only appears in the log message.
\<close>

definition copy_from :: "Rasterizer \<Rightarrow> VAddr \<Rightarrow> nat \<Rightarrow> nat \<Rightarrow> u64 option \<Rightarrow> GuestMemory \<Rightarrow>
    mem_fault + (GuestMemory \<times> unit)" where
  "copy_from r dest_addr offset n ptr m =
     (case ptr of
        None \<Rightarrow> Inl NullPointer
      | Some p \<Rightarrow>
          bindF (WriteBlockImpl r (dest_addr + of_nat offset) (host_read m p n) False m)
            (\<lambda>(_, m). Inr (m, ())))"

definition copy_walker :: "Rasterizer \<Rightarrow> VAddr \<Rightarrow> unit Walker" where
  "copy_walker r dest_addr =
     \<lparr>on_unmapped = (\<lambda>offset n vaddr (m, u).
        bindF (ZeroBlock r (dest_addr + of_nat offset) (of_nat n) m) (\<lambda>(_, m). Inr (m, u))),
      on_memory = (\<lambda>offset n ptr (m, u). copy_from r dest_addr offset n ptr m),
      on_rasterizer = (\<lambda>vaddr offset n ptr (m, u).
        copy_from r dest_addr offset n ptr (HandleRasterizerDownload r vaddr n m))\<rparr>"

definition CopyBlock :: "Rasterizer \<Rightarrow> VAddr \<Rightarrow> VAddr \<Rightarrow> u64 \<Rightarrow> GuestMemory \<Rightarrow>
    mem_fault + (bool \<times> GuestMemory)" where
  "CopyBlock r dest_addr src_addr sz m =
     bindF (WalkBlock (copy_walker r dest_addr) dest_addr sz (m, ())) (\<lambda>(ok, m, _). Inr (ok, m))"

definition ReadBlock :: "Rasterizer \<Rightarrow> VAddr \<Rightarrow> u64 \<Rightarrow> GuestMemory \<times> u8 list \<Rightarrow>
    mem_fault + (bool \<times> GuestMemory \<times> u8 list)" where
  "ReadBlock r src_addr sz s = ReadBlockImpl r src_addr sz False s"

definition WriteBlock :: "Rasterizer \<Rightarrow> VAddr \<Rightarrow> u8 list \<Rightarrow> GuestMemory \<Rightarrow>
    mem_fault + (bool \<times> GuestMemory)" where
  "WriteBlock r dest_addr src_buffer m = WriteBlockImpl r dest_addr src_buffer False m"

section \<open>Pointers and typed access\<close>

text \<open>
  \<^verbatim>\<open>GetPointerImpl\<close> with its two callbacks; a regular page without a pointer is asserted away and gives
  null. The debug and rasterizer cases are only reached behind a mark or a null pointer.
\<close>

datatype lookup = Direct u64 | Null_unmapped | Null_mapped | Through_debug "u64 option"
  | Through_rasterizer "u64 option"

definition GetPointerImpl :: "GuestMemory \<Rightarrow> VAddr \<Rightarrow> lookup" where
  "GetPointerImpl m vaddr0 =
     (let vaddr = take_bit 48 vaddr0 in
      if AddressSpaceContains m vaddr 1 then
        let raw = entry_of m (page_of vaddr); pointer = ExtractPointer raw False in
        if pointer \<noteq> 0 then Direct (pointer + vaddr)
        else case raw_type raw of
               Memory \<Rightarrow> Null_mapped
             | DebugMemory \<Rightarrow> Through_debug (GetPointerFromDebugMemory m vaddr)
             | RasterizerCachedMemory \<Rightarrow> Through_rasterizer (GetPointerFromRasterizerCachedMemory m vaddr)
             | Unmapped \<Rightarrow> Null_unmapped
      else Null_unmapped)"

definition GetPointerSilent :: "GuestMemory \<Rightarrow> VAddr \<Rightarrow> u64 option" where
  "GetPointerSilent m vaddr =
     (case GetPointerImpl m vaddr of
        Direct p \<Rightarrow> Some p | Through_debug p \<Rightarrow> p | Through_rasterizer p \<Rightarrow> p | _ \<Rightarrow> None)"

text \<open>\<^verbatim>\<open>Read<T>\<close> for a type of \<open>n\<close> bytes, and \<^verbatim>\<open>Write<T>\<close>: the notification runs when the lookup goes through a
  cached page, before the copy; without a pointer a read gives zero and a write is dropped.\<close>

definition Read_T :: "Rasterizer \<Rightarrow> nat \<Rightarrow> VAddr \<Rightarrow> GuestMemory \<Rightarrow> u64 \<times> GuestMemory" where
  "Read_T r n vaddr m =
     (case GetPointerImpl m vaddr of
        Direct p \<Rightarrow> (le_value (host_read m p n), m)
      | Through_debug (Some p) \<Rightarrow> (le_value (host_read m p n), m)
      | Through_rasterizer q \<Rightarrow>
          (let m = HandleRasterizerDownload r vaddr n m
           in case q of Some p \<Rightarrow> (le_value (host_read m p n), m) | None \<Rightarrow> (0, m))
      | _ \<Rightarrow> (0, m))"

definition Write_T :: "Rasterizer \<Rightarrow> nat \<Rightarrow> VAddr \<Rightarrow> u64 \<Rightarrow> GuestMemory \<Rightarrow> GuestMemory" where
  "Write_T r n vaddr data m =
     (case GetPointerImpl m vaddr of
        Direct p \<Rightarrow> host_write m p (le_bytes n data)
      | Through_debug (Some p) \<Rightarrow> host_write m p (le_bytes n data)
      | Through_rasterizer q \<Rightarrow>
          (let m = HandleRasterizerWrite r vaddr n m
           in case q of Some p \<Rightarrow> host_write m p (le_bytes n data) | None \<Rightarrow> m)
      | _ \<Rightarrow> m)"

definition Read8 :: "Rasterizer \<Rightarrow> VAddr \<Rightarrow> GuestMemory \<Rightarrow> u8 \<times> GuestMemory" where
  "Read8 r addr m = (let (v, m) = Read_T r 1 addr m in (ucast v, m))"

definition Read16 :: "Rasterizer \<Rightarrow> VAddr \<Rightarrow> GuestMemory \<Rightarrow> u16 \<times> GuestMemory" where
  "Read16 r addr m =
     (if addr AND 1 = 0 then (let (v, m) = Read_T r 2 addr m in (ucast v, m))
      else
        let (a, m) = Read_T r 1 addr m; (b, m) = Read_T r 1 (addr + 1) m
        in (ucast (push_bit 8 (ucast b :: u32) OR (ucast a :: u32)), m))"

definition Read32 :: "Rasterizer \<Rightarrow> VAddr \<Rightarrow> GuestMemory \<Rightarrow> u32 \<times> GuestMemory" where
  "Read32 r addr m =
     (if addr AND 3 = 0 then (let (v, m) = Read_T r 4 addr m in (ucast v, m))
      else
        let (a, m) = Read16 r addr m; (b, m) = Read16 r (addr + 2) m
        in (push_bit 16 (ucast b) OR ucast a, m))"

definition Read64 :: "Rasterizer \<Rightarrow> VAddr \<Rightarrow> GuestMemory \<Rightarrow> u64 \<times> GuestMemory" where
  "Read64 r addr m =
     (if addr AND 7 = 0 then Read_T r 8 addr m
      else
        let (a, m) = Read32 r addr m; (b, m) = Read32 r (addr + 4) m
        in (push_bit 32 (ucast b) OR ucast a, m))"

definition Write8 :: "Rasterizer \<Rightarrow> VAddr \<Rightarrow> u8 \<Rightarrow> GuestMemory \<Rightarrow> GuestMemory" where
  "Write8 r addr data m = Write_T r 1 addr (ucast data) m"

definition Write16 :: "Rasterizer \<Rightarrow> VAddr \<Rightarrow> u16 \<Rightarrow> GuestMemory \<Rightarrow> GuestMemory" where
  "Write16 r addr data m =
     (if addr AND 1 = 0 then Write_T r 2 addr (ucast data) m
      else
        let m = Write_T r 1 addr (ucast (ucast data :: u8)) m
        in Write_T r 1 (addr + 1) (ucast (ucast (drop_bit 8 data) :: u8)) m)"

definition Write32 :: "Rasterizer \<Rightarrow> VAddr \<Rightarrow> u32 \<Rightarrow> GuestMemory \<Rightarrow> GuestMemory" where
  "Write32 r addr data m =
     (if addr AND 3 = 0 then Write_T r 4 addr (ucast data) m
      else
        let m = Write16 r addr (ucast data) m in Write16 r (addr + 2) (ucast (drop_bit 16 data)) m)"

definition Write64 :: "Rasterizer \<Rightarrow> VAddr \<Rightarrow> u64 \<Rightarrow> GuestMemory \<Rightarrow> GuestMemory" where
  "Write64 r addr data m =
     (if addr AND 7 = 0 then Write_T r 8 addr data m
      else
        let m = Write32 r addr (ucast data) m in Write32 r (addr + 4) (ucast (drop_bit 32 data)) m)"

section \<open>Mapping and marking pages\<close>

text \<open>\<^verbatim>\<open>NextBlock\<close> hands out block identifiers; the last value stands for mappings without one.\<close>

definition NextBlock :: "GuestMemory \<Rightarrow> u16 \<times> GuestMemory" where
  "NextBlock m =
     (let block = block_count m
      in (if block < ucast NoSpanBlock then ucast block else NoSpanBlock, m\<lparr>block_count := block + 1\<rparr>))"

text \<open>
  \<^verbatim>\<open>MapPages\<close>: page numbers \<open>base\<close> to \<open>base + n\<close>; \<open>dram\<close> is the host pointer of the target address in device
  memory, stored relative to the virtual address of the page, or zero to unmap.
\<close>

fun map_loop :: "nat \<Rightarrow> nat \<Rightarrow> u64 \<Rightarrow> PageType \<Rightarrow> u16 \<Rightarrow> GuestMemory \<Rightarrow> GuestMemory" where
  "map_loop 0 base dram ty block m = m"
| "map_loop (Suc k) base dram ty block m =
     map_loop k (base + 1) (dram + of_nat YUZU_PAGESIZE) ty block
       (set_entry m base (Store False ty block (dram - push_bit 12 (of_nat base))))"

fun zero_region :: "nat \<Rightarrow> nat \<Rightarrow> GuestMemory \<Rightarrow> GuestMemory" where
  "zero_region 0 base m = m"
| "zero_region (Suc k) base m = zero_region k (base + 1) (set_entry m base 0)"

definition MapPages :: "nat \<Rightarrow> nat \<Rightarrow> u64 option \<Rightarrow> PageType \<Rightarrow> GuestMemory \<Rightarrow> GuestMemory" where
  "MapPages base n target ty m =
     (case target of
        None \<Rightarrow> zero_region n base m
      | Some dram \<Rightarrow> (let (block, m) = NextBlock m in map_loop n base dram ty block m))"

text \<open>The page loops of \<^verbatim>\<open>RasterizerMarkRegionCached\<close> and \<^verbatim>\<open>MarkRegionDebug\<close>.\<close>

definition mark_cached_page :: "bool \<Rightarrow> u64 \<Rightarrow> u64" where
  "mark_cached_page cached raw =
     (if cached then
        (case raw_type raw of
           DebugMemory \<Rightarrow> MarkRasterizerCached raw
         | Memory \<Rightarrow> MarkRasterizerCached raw
         | _ \<Rightarrow> raw)
      else
        (case raw_type raw of
           RasterizerCachedMemory \<Rightarrow>
             (let (ptr, _, block) = PointerTypeBlock raw True
              in if ptr = 0 then Store False Unmapped block 0 else Store False Memory block ptr)
         | _ \<Rightarrow> raw))"

definition mark_debug_page :: "bool \<Rightarrow> u64 \<Rightarrow> u64" where
  "mark_debug_page debug raw =
     (let (pointer, ty, block) = PointerTypeBlock raw True in
      if debug then (if ty = Memory then MarkDebug pointer block else raw)
      else (if ty = DebugMemory then Store False Memory block pointer else raw))"

fun mark_loop :: "(u64 \<Rightarrow> u64) \<Rightarrow> nat \<Rightarrow> nat \<Rightarrow> GuestMemory \<Rightarrow> GuestMemory" where
  "mark_loop f 0 page m = m"
| "mark_loop f (Suc k) page m = mark_loop f k (page + 1) (set_entry m page (f (entry_of m page)))"

definition num_pages :: "VAddr \<Rightarrow> u64 \<Rightarrow> nat" where
  "num_pages vaddr sz = unat (drop_bit 12 (vaddr + sz - 1) - drop_bit 12 vaddr + 1)"

definition RasterizerMarkRegionCached :: "VAddr \<Rightarrow> u64 \<Rightarrow> bool \<Rightarrow> GuestMemory \<Rightarrow> GuestMemory" where
  "RasterizerMarkRegionCached vaddr sz cached m =
     (if vaddr = 0 \<or> \<not> AddressSpaceContains m vaddr sz then m
      else mark_loop (mark_cached_page cached) (num_pages vaddr sz) (page_of vaddr) m)"

definition MarkRegionDebug :: "VAddr \<Rightarrow> u64 \<Rightarrow> bool \<Rightarrow> GuestMemory \<Rightarrow> GuestMemory" where
  "MarkRegionDebug vaddr sz debug m =
     (if vaddr = 0 \<or> \<not> AddressSpaceContains m vaddr sz then m
      else mark_loop (mark_debug_page debug) (num_pages vaddr sz) (page_of vaddr) m)"

section \<open>Validity and spans\<close>

definition IsValidVirtualAddress :: "GuestMemory \<Rightarrow> VAddr \<Rightarrow> bool" where
  "IsValidVirtualAddress m vaddr =
     (if pt_size (page_table m) \<le> page_of vaddr then False
      else
        let (pointer, ty, _) = PointerTypeBlock (entry_of m (page_of vaddr)) False
        in pointer \<noteq> 0 \<or> ty = RasterizerCachedMemory \<or> ty = DebugMemory)"

definition IsSameMapping :: "GuestMemory \<Rightarrow> VAddr \<Rightarrow> VAddr \<Rightarrow> bool" where
  "IsSameMapping m first_addr last_addr \<longleftrightarrow>
     (let block = ExtractBlock (entry_of m (page_of first_addr))
      in block \<noteq> NoSpanBlock \<and> block = ExtractBlock (entry_of m (page_of last_addr)))"

definition GetSpan :: "GuestMemory \<Rightarrow> VAddr \<Rightarrow> u64 \<Rightarrow> u64 option" where
  "GetSpan m addr sz = (if IsSameMapping m addr (addr + sz) then GetPointerSilent m addr else None)"

end
