(* ===== verification/Guest_Memory_Laws.thy ===== *)
theory Guest_Memory_Laws
  imports Guest_Memory
begin

text \<open>
  The page-wise block operations of guest memory against a byte-wise specification: an address is
  translated to a host address, a block read is the list of the bytes behind its addresses, a
  block write stores its bytes one after the other. From the specification follow the frame and
  round-trip properties, with aliasing of host pages made explicit.
\<close>

section \<open>Byte-wise specification\<close>

text \<open>The host address behind a guest address.\<close>

definition translate :: "GuestMemory \<Rightarrow> VAddr \<Rightarrow> u64 option" where
  "translate m a =
     (let raw = entry_of m (page_of a) in
      case raw_type raw of
        Unmapped \<Rightarrow> None
      | Memory \<Rightarrow> Some (ExtractPointer raw False + a)
      | _ \<Rightarrow> (if ExtractPointer raw True = 0 then None else Some (ExtractPointer raw True + a)))"

definition byte_at :: "GuestMemory \<Rightarrow> VAddr \<Rightarrow> u8" where
  "byte_at m a = (case translate m a of None \<Rightarrow> 0 | Some p \<Rightarrow> host m p)"

definition mapped :: "GuestMemory \<Rightarrow> VAddr \<Rightarrow> bool" where
  "mapped m a \<longleftrightarrow> translate m a \<noteq> None"

definition store_byte :: "GuestMemory \<Rightarrow> VAddr \<Rightarrow> u8 \<Rightarrow> GuestMemory" where
  "store_byte m a b = (case translate m a of None \<Rightarrow> m | Some p \<Rightarrow> m\<lparr>host := (host m)(p := b)\<rparr>)"

fun store_bytes :: "GuestMemory \<Rightarrow> nat \<Rightarrow> u8 list \<Rightarrow> GuestMemory" where
  "store_bytes m a [] = m"
| "store_bytes m a (b # bs) = store_bytes (store_byte m (of_nat a) b) (a + 1) bs"

definition load_bytes :: "GuestMemory \<Rightarrow> nat \<Rightarrow> nat \<Rightarrow> u8 list" where
  "load_bytes m a n = map (\<lambda>i. byte_at m (of_nat (a + i))) [0..<n]"

text \<open>
  The blocks the theorems are about: inside the address space, with no page cached by the
  rasterizer (so that no notification runs) and no debug page without a pointer.
\<close>

definition plain_entry :: "(nat \<Rightarrow> u64) \<Rightarrow> nat \<Rightarrow> bool" where
  "plain_entry entries page \<longleftrightarrow>
     raw_type (entries page) \<noteq> RasterizerCachedMemory \<and>
     (raw_type (entries page) = DebugMemory \<longrightarrow> ExtractPointer (entries page) True \<noteq> 0)"

definition plain_block :: "GuestMemory \<Rightarrow> nat \<Rightarrow> nat \<Rightarrow> bool" where
  "plain_block m a n \<longleftrightarrow>
     address_space_bits (page_table m) < 64 \<and> a + n \<le> 2 ^ address_space_bits (page_table m) \<and>
     (\<forall>i < n. plain_entry (entry_of m) ((a + i) div YUZU_PAGESIZE))"

definition all_mapped :: "GuestMemory \<Rightarrow> nat \<Rightarrow> nat \<Rightarrow> bool" where
  "all_mapped m a n \<longleftrightarrow> (\<forall>i < n. mapped m (of_nat (a + i)))"

text \<open>No two addresses of the block share a host byte.\<close>

definition no_alias :: "GuestMemory \<Rightarrow> nat \<Rightarrow> nat \<Rightarrow> bool" where
  "no_alias m a n \<longleftrightarrow>
     (\<forall>i < n. \<forall>j < n. translate m (of_nat (a + i)) = translate m (of_nat (a + j)) \<longrightarrow> i = j)"

text \<open>A memory with two guest pages on host pages far apart, for concrete runs.\<close>

definition sample_memory :: GuestMemory where
  "sample_memory =
     \<lparr>page_table = \<lparr>pt_entries = (\<lambda>_. 0)(1 := Store False Memory 1 0x10000, 2 := Store False Memory 1 0x20000),
        pt_size = 2 ^ 27, address_space_bits = 39\<rparr>,
      host = (\<lambda>_. 0), block_count = 2\<rparr>"

definition idle_rasterizer :: Rasterizer where
  "idle_rasterizer = \<lparr>HandleRasterizerDownload = (\<lambda>a n m. m), HandleRasterizerWrite = (\<lambda>a n m. m)\<rparr>"

text \<open>The effects of the block operations on a part of a block, for the walk below.\<close>

definition read_effect :: "nat \<Rightarrow> nat \<Rightarrow> nat \<Rightarrow> GuestMemory \<times> u8 list \<Rightarrow> GuestMemory \<times> u8 list" where
  "read_effect base off n s = (fst s, splice (snd s) off (load_bytes (fst s) (base + off) n))"

definition write_effect :: "u8 list \<Rightarrow> nat \<Rightarrow> nat \<Rightarrow> nat \<Rightarrow> GuestMemory \<times> unit \<Rightarrow> GuestMemory \<times> unit" where
  "write_effect buffer base off n s = (store_bytes (fst s) (base + off) (take n (drop off buffer)), ())"

definition mapped_entry :: "(nat \<Rightarrow> u64) \<Rightarrow> nat \<Rightarrow> bool" where
  "mapped_entry entries page \<longleftrightarrow> plain_entry entries page \<and> raw_type (entries page) \<noteq> Unmapped"

section \<open>Addresses\<close>

lemma PAGESIZE [simp]: "YUZU_PAGESIZE = 4096"
  by (simp add: YUZU_PAGESIZE_def YUZU_PAGEBITS_def)

lemma page_of_unat: "page_of addr = unat addr div 4096"
  by (simp add: page_of_def drop_bit_eq_div unat_div_distrib)

lemma page_of_nat: "x < 2 ^ 64 \<Longrightarrow> page_of (of_nat x) = x div 4096"
  by (simp add: page_of_unat unat_of_nat)

lemma unat_low_bits: "unat (ucast (addr :: u64) :: 12 word) = unat addr mod 4096"
  by (simp add: unsigned_ucast_eq take_bit_eq_mod)

lemma current_vaddr_nat:
  "push_bit 12 (of_nat page) + ucast (po :: 12 word) = (of_nat (page * 4096 + unat po) :: u64)"
  by (simp add: push_bit_eq_mult)

lemma plain_block_bound: "plain_block m a n \<Longrightarrow> a + n \<le> 2 ^ 63"
proof -
  assume "plain_block m a n"
  then have "address_space_bits (page_table m) \<le> 63" "a + n \<le> 2 ^ address_space_bits (page_table m)"
    by (auto simp: plain_block_def)
  moreover from this(1) have "(2 :: nat) ^ address_space_bits (page_table m) \<le> 2 ^ 63"
    by (intro power_increasing) simp_all
  ultimately show ?thesis by linarith
qed

section \<open>Unchanged page tables\<close>

lemma entry_of_host [simp]: "entry_of (m\<lparr>host := h\<rparr>) = entry_of m"
  by (rule ext) (simp add: entry_of_def)

lemma entry_of_host_write [simp]: "entry_of (host_write m p bs) = entry_of m"
  by (simp add: host_write_def)

lemma translate_host [simp]: "translate (m\<lparr>host := h\<rparr>) = translate m"
  by (rule ext) (simp add: translate_def)

lemma translate_store_byte [simp]: "translate (store_byte m a b) = translate m"
  by (simp add: store_byte_def split: option.split)

lemma translate_store_bytes [simp]: "translate (store_bytes m a bs) = translate m"
  by (induction bs arbitrary: m a) simp_all

lemma store_byte_only_host: "\<exists>h. store_byte m a b = m\<lparr>host := h\<rparr>"
  by (cases "translate m a") (auto simp: store_byte_def intro: exI [of _ "host m"])

lemma space_le: "bits < 64 \<Longrightarrow> (2 :: nat) ^ bits \<le> 2 ^ 63"
  by (intro power_increasing) simp_all

lemma AddressSpaceContains_nat:
  assumes "address_space_bits (page_table m) < 64" "unat addr + n \<le> 2 ^ address_space_bits (page_table m)"
  shows "AddressSpaceContains m addr (of_nat n)"
proof -
  have le: "unat addr + n \<le> 2 ^ 63" using assms space_le by (metis le_trans)
  then have n: "unat (of_nat n :: u64) = n" by (simp add: unat_of_nat)
  with le have s: "unat (addr + of_nat n) = unat addr + n"
    by (subst unat_plus_if') simp
  have "unat (push_bit (address_space_bits (page_table m)) (1 :: u64)) = 2 ^ address_space_bits (page_table m)"
    using unat_of_nat [of "2 ^ address_space_bits (page_table m)", where 'a = 64]
      space_le [OF assms(1)] by (simp add: push_bit_eq_mult)
  with s assms(2) show ?thesis by (simp add: AddressSpaceContains_def word_le_nat_alt)
qed

section \<open>The walk over a block\<close>

text \<open>
  What a client of \<^verbatim>\<open>WalkBlock\<close> provides: its callbacks have, on every part of a block that lies in
  one page, an effect \<open>E offset n\<close>, the effects of adjacent parts compose, and the page table is
  not changed. The walk then has the effect on the whole block, however it is cut into pages.
\<close>

locale block_walk =
  fixes w :: "'b Walker" and base :: nat and limit :: nat
    and E :: "nat \<Rightarrow> nat \<Rightarrow> GuestMemory \<times> 'b \<Rightarrow> GuestMemory \<times> 'b"
    and ok :: "(nat \<Rightarrow> u64) \<Rightarrow> nat \<Rightarrow> bool"
    and inv :: "nat \<Rightarrow> GuestMemory \<times> 'b \<Rightarrow> bool"
  assumes limit: "limit \<le> 2 ^ 63"
    and visit: "0 < n \<Longrightarrow> n + unat po \<le> 4096 \<Longrightarrow> page * 4096 + unat po = base + off \<Longrightarrow>
      base + off + n \<le> limit \<Longrightarrow> ok (entry_of (fst s)) page \<Longrightarrow> inv off s \<Longrightarrow>
      visit_page w off page po n s = Inr (E off n s)"
    and compose: "inv off s \<Longrightarrow> E (off + n) k (E off n s) = E off (n + k) s"
    and none: "inv off s \<Longrightarrow> E off 0 s = s"
    and keeps: "inv off s \<Longrightarrow> inv (off + n) (E off n s)"
    and entries: "entry_of (fst (E off n s)) = entry_of (fst s)"
begin

lemma walk_loop_E:
  assumes "page * 4096 + unat po = base + off" "base + off + rem \<le> limit"
    "\<forall>i < rem. ok (entry_of (fst s)) ((base + off + i) div 4096)" "inv off s"
  shows "walk_loop w off page po rem acc s =
    Inr (acc \<and> (\<forall>i < rem. raw_type (entry_of (fst s) ((base + off + i) div 4096)) \<noteq> Unmapped), E off rem s)"
  using assms
proof (induction rem arbitrary: off page po acc s rule: less_induct)
  case (less rem)
  show ?case
  proof (cases "rem = 0")
    case True
    then show ?thesis using none [OF less.prems(4)] by (simp add: walk_loop.simps)
  next
    case False
    let ?n = "min (4096 - unat po) rem"
    have po: "unat po < 4096" using page_room_pos [of po] by simp
    have page: "(base + off + i) div 4096 = page" if "i < ?n" for i
      unfolding less.prems(1) [symmetric] using that po by (intro div_nat_eqI) auto
    have "ok (entry_of (fst s)) page" using less.prems(3) False page [of 0] po by auto
    then have v: "visit_page w off page po ?n s = Inr (E off ?n s)"
      using less.prems po False by (intro visit) auto
    have IH: "walk_loop w (off + ?n) (page + 1) 0 (rem - ?n) a (E off ?n s) =
        Inr (a \<and> (\<forall>i < rem - ?n. raw_type (entry_of (fst s) ((base + (off + ?n) + i) div 4096)) \<noteq> Unmapped),
          E (off + ?n) (rem - ?n) (E off ?n s))" for a
    proof (cases "4096 - unat po \<le> rem")
      case True
      then have n: "?n = 4096 - unat po" by simp
      have 1: "rem - ?n < rem" using False po n by simp
      have 2: "(page + 1) * 4096 + unat (0 :: 12 word) = base + (off + ?n)"
        using less.prems(1) po unfolding n by simp
      have 3: "base + (off + ?n) + (rem - ?n) \<le> limit" using less.prems(2) True unfolding n by simp
      have 4: "\<forall>i < rem - ?n. ok (entry_of (fst (E off ?n s))) ((base + (off + ?n) + i) div 4096)"
        unfolding entries
      proof (intro allI impI)
        fix i assume "i < rem - ?n"
        then have "?n + i < rem" by simp
        with less.prems(3) have "ok (entry_of (fst s)) ((base + off + (?n + i)) div 4096)" by blast
        then show "ok (entry_of (fst s)) ((base + (off + ?n) + i) div 4096)" by (simp only: add.assoc)
      qed
      show ?thesis
        using less.IH [OF 1 2 3 4 keeps [OF less.prems(4)], of a] by (simp only: entries)
    next
      case False
      then have n: "?n = rem" by simp
      show ?thesis
        using none [OF keeps [OF less.prems(4), of rem]] unfolding n by (simp add: walk_loop.simps)
    qed
    have "(\<forall>i < rem. raw_type (entry_of (fst s) ((base + off + i) div 4096)) \<noteq> Unmapped) \<longleftrightarrow>
        raw_type (entry_of (fst s) page) \<noteq> Unmapped \<and>
        (\<forall>i < rem - ?n. raw_type (entry_of (fst s) ((base + (off + ?n) + i) div 4096)) \<noteq> Unmapped)"
      (is "?L \<longleftrightarrow> ?R")
    proof
      assume L: ?L
      with page [of 0] False po have "raw_type (entry_of (fst s) page) \<noteq> Unmapped" by force
      moreover from L have "\<forall>i < rem - ?n. raw_type (entry_of (fst s) ((base + off + (?n + i)) div 4096)) \<noteq> Unmapped"
        by auto
      ultimately show ?R by (simp add: add.assoc)
    next
      assume R: ?R
      show ?L
      proof (intro allI impI)
        fix i assume "i < rem"
        show "raw_type (entry_of (fst s) ((base + off + i) div 4096)) \<noteq> Unmapped"
        proof (cases "i < ?n")
          case True
          with R page show ?thesis by simp
        next
          case False
          then obtain k where "i = ?n + k" using le_Suc_ex by (metis not_less)
          with R \<open>i < rem\<close> show ?thesis by (simp add: add.assoc)
        qed
      qed
    qed
    then show ?thesis
      using False v IH compose [OF less.prems(4), of ?n "rem - ?n"]
      by (subst walk_loop.simps) (simp add: Let_def conj_assoc)
  qed
qed

lemma WalkBlock_E:
  assumes "base = unat addr" "address_space_bits (page_table (fst s)) < 64"
    "base + n \<le> 2 ^ address_space_bits (page_table (fst s))" "base + n \<le> limit"
    "\<forall>i < n. ok (entry_of (fst s)) ((base + i) div 4096)" "inv 0 s"
  shows "WalkBlock w addr (of_nat n) s =
    Inr (\<forall>i < n. raw_type (entry_of (fst s) ((base + i) div 4096)) \<noteq> Unmapped, E 0 n s)"
proof -
  have "base + n \<le> 2 ^ 63" using assms(4) limit by linarith
  then have "unat (of_nat n :: u64) = n" by (simp add: unat_of_nat)
  moreover have "AddressSpaceContains (fst s) addr (of_nat n)"
    using AddressSpaceContains_nat assms(1-3) by blast
  ultimately show ?thesis
    using walk_loop_E [of "page_of addr" "ucast addr" 0 n s True] assms
    by (simp add: WalkBlock_def page_of_unat unat_low_bits)
qed

end
section \<open>Reading a block\<close>

lemma length_load_bytes [simp]: "length (load_bytes m a n) = n"
  by (simp add: load_bytes_def)

lemma load_bytes_append: "load_bytes m a n @ load_bytes m (a + n) k = load_bytes m a (n + k)"
  by (rule nth_equalityI) (auto simp: load_bytes_def nth_append add.assoc)

lemma splice_splice:
  "off \<le> length buf \<Longrightarrow> splice (splice buf off xs) (off + length xs) ys = splice buf off (xs @ ys)"
  by (simp add: splice_def ac_simps)

lemma splice_nil: "off \<le> length buf \<Longrightarrow> splice buf off [] = buf"
  by (simp add: splice_def)

lemma page_chunk:
  assumes "n + unat po \<le> 4096" "page * 4096 + unat (po :: 12 word) = a" "a + n \<le> 2 ^ 63" "i < n"
  shows "page_of (of_nat (a + i)) = page"
proof -
  have "(a + i) div 4096 = page" unfolding assms(2) [symmetric] using assms by (intro div_nat_eqI) auto
  with assms show ?thesis by (subst page_of_nat) auto
qed

lemma load_chunk:
  assumes "n + unat po \<le> 4096" "page * 4096 + unat (po :: 12 word) = a" "a + n \<le> 2 ^ 63"
  shows "raw_type (entry_of m page) = Unmapped \<Longrightarrow> load_bytes m a n = replicate n 0"
    and "raw_type (entry_of m page) = Memory \<Longrightarrow>
      load_bytes m a n = host_read m (ExtractPointer (entry_of m page) False + of_nat a) n"
    and "raw_type (entry_of m page) = DebugMemory \<Longrightarrow> ExtractPointer (entry_of m page) True \<noteq> 0 \<Longrightarrow>
      load_bytes m a n = host_read m (ExtractPointer (entry_of m page) True + of_nat a) n"
  using page_chunk [OF assms]
  by (auto simp: load_bytes_def host_read_def byte_at_def translate_def Let_def ac_simps
      intro!: nth_equalityI)

lemma visit_read:
  assumes "0 < n" "n + unat po \<le> 4096" "page * 4096 + unat (po :: 12 word) = a" "a + n \<le> 2 ^ 63"
    "plain_entry (entry_of m) page"
  shows "visit_page (read_walker r unsafe) off page po n (m, buf) =
    Inr (m, splice buf off (load_bytes m a n))"
proof -
  have va: "push_bit 12 (of_nat page) + ucast po = (of_nat a :: u64)"
    using current_vaddr_nat [of page po] assms(3) by simp
  have ptr: "p + ucast po + push_bit 12 (of_nat page) = p + (of_nat a :: u64)" for p
    by (simp add: va [symmetric] ac_simps)
  have pg: "page_of (of_nat a) = page" using page_chunk [OF assms(2-4,1)] by simp
  show ?thesis
    using assms(5) load_chunk [OF assms(2-4), of m]
    by (cases "raw_type (entry_of m page)")
      (auto simp: visit_page_def Let_def read_walker_def read_ptr_def plain_entry_def
        GetPointerFromDebugMemory_def va ptr pg)
qed

interpretation reader: block_walk "read_walker r unsafe" base "2 ^ 63" "read_effect base" plain_entry
    "\<lambda>off s. off \<le> length (snd s)" for r unsafe base
proof
  fix n page off and po :: "12 word" and s :: "GuestMemory \<times> u8 list"
  assume "0 < n" "n + unat po \<le> 4096" "page * 4096 + unat po = base + off" "base + off + n \<le> 2 ^ 63"
    "plain_entry (entry_of (fst s)) page"
  then show "visit_page (read_walker r unsafe) off page po n s = Inr (read_effect base off n s)"
    using visit_read [of n po page "base + off" "fst s" r unsafe off "snd s"] by (simp add: read_effect_def)
next
  fix off n k and s :: "GuestMemory \<times> u8 list"
  assume "off \<le> length (snd s)"
  then show "read_effect base (off + n) k (read_effect base off n s) = read_effect base off (n + k) s"
    using splice_splice [of off "snd s" "load_bytes (fst s) (base + off) n"
        "load_bytes (fst s) (base + off + n) k"]
    by (simp add: read_effect_def load_bytes_append add.assoc [symmetric])
qed (simp_all add: read_effect_def splice_nil, simp_all add: load_bytes_def splice_def)

lemma ReadBlock_plain:
  assumes "plain_block m (unat addr) n" "length buf = n"
  shows "ReadBlockImpl r addr (of_nat n) unsafe (m, buf) =
    Inr (\<forall>i < n. raw_type (entry_of m ((unat addr + i) div 4096)) \<noteq> Unmapped, m, load_bytes m (unat addr) n)"
  using reader.WalkBlock_E [of "unat addr" addr "(m, buf)" n r unsafe] assms
    plain_block_bound [OF assms(1)] by (simp add: plain_block_def ReadBlockImpl_def read_effect_def splice_def)

lemma mapped_page:
  assumes "plain_entry (entry_of m) (x div 4096)" "x < 2 ^ 64"
  shows "mapped m (of_nat x) \<longleftrightarrow> raw_type (entry_of m (x div 4096)) \<noteq> Unmapped"
  using assms
  by (cases "raw_type (entry_of m (x div 4096))")
    (auto simp: mapped_def translate_def Let_def page_of_nat plain_entry_def)

lemma all_mapped_pages:
  assumes "plain_block m a n"
  shows "(\<forall>i < n. raw_type (entry_of m ((a + i) div 4096)) \<noteq> Unmapped) \<longleftrightarrow> all_mapped m a n"
proof -
  have "mapped m (of_nat (a + i)) \<longleftrightarrow> raw_type (entry_of m ((a + i) div 4096)) \<noteq> Unmapped" if "i < n" for i
    using plain_block_bound [OF assms] assms that by (intro mapped_page) (auto simp: plain_block_def)
  then show ?thesis by (auto simp: all_mapped_def)
qed

section \<open>Writing a block\<close>

lemma store_byte_fields [simp]:
  "page_table (store_byte m a b) = page_table m" "entry_of (store_byte m a b) = entry_of m"
  by (auto simp: store_byte_def entry_of_def fun_eq_iff split: option.split)

lemma store_bytes_fields [simp]:
  "page_table (store_bytes m a bs) = page_table m" "entry_of (store_bytes m a bs) = entry_of m"
  by (induction bs arbitrary: m a) simp_all

lemma store_bytes_append:
  "store_bytes m a (xs @ ys) = store_bytes (store_bytes m a xs) (a + length xs) ys"
  by (induction xs arbitrary: m a) simp_all

lemma host_write_nil [simp]: "host_write m p [] = m"
  by (simp add: host_write_def)

lemma host_write_Cons:
  assumes "length bs < 2 ^ 63"
  shows "host_write (m\<lparr>host := (host m)(p := b)\<rparr>) (p + 1) bs = host_write m p (b # bs)"
proof -
  have *: "host (host_write (m\<lparr>host := (host m)(p := b)\<rparr>) (p + 1) bs) a = host (host_write m p (b # bs)) a" for a
  proof (cases "a = p")
    case True
    have "unat (- 1 :: u64) = 2 ^ 64 - 1" by (simp add: unsigned_minus_1_eq_mask mask_eq_exp_minus_1)
    with True assms show ?thesis by (simp add: host_write_def)
  next
    case False
    then have "unat (a - p) \<noteq> 0" by (simp add: unat_eq_0)
    moreover have "unat (a - (p + 1)) = unat (a - p) - 1"
      using unat_minus_one [of "a - p"] False by (simp add: diff_diff_add)
    ultimately show ?thesis using False by (cases "unat (a - p)") (auto simp: host_write_def)
  qed
  have "host (host_write (m\<lparr>host := (host m)(p := b)\<rparr>) (p + 1) bs) = host (host_write m p (b # bs))"
    by (rule ext) (rule *)
  then show ?thesis by (simp add: host_write_def)
qed

lemma store_bytes_chunk:
  assumes "\<And>i. i < length bs \<Longrightarrow> translate m (of_nat (a + i)) = Some (q + of_nat (a + i))" "length bs < 2 ^ 63"
  shows "store_bytes m a bs = host_write m (q + of_nat a) bs"
  using assms
proof (induction bs arbitrary: m a)
  case (Cons b bs)
  let ?m = "m\<lparr>host := (host m)(q + of_nat a := b)\<rparr>"
  have t: "translate m (of_nat a) = Some (q + of_nat a)" using Cons.prems(1) [of 0] by simp
  have "store_bytes ?m (a + 1) bs = host_write ?m (q + of_nat (a + 1)) bs"
    using Cons.prems(1) [of "Suc _"] Cons.prems(2) by (intro Cons.IH) (auto simp: ac_simps)
  also have "\<dots> = host_write m (q + of_nat a) (b # bs)"
    using host_write_Cons [of bs m "q + of_nat a" b] Cons.prems(2) by (simp add: ac_simps)
  finally show ?case using t by (simp add: store_byte_def)
qed simp

lemma store_bytes_unmapped:
  assumes "\<And>i. i < length bs \<Longrightarrow> translate m (of_nat (a + i)) = None"
  shows "store_bytes m a bs = m"
  using assms
proof (induction bs arbitrary: a)
  case (Cons b bs)
  have "translate m (of_nat a) = None" using Cons.prems [of 0] by simp
  moreover have "store_bytes m (a + 1) bs = m"
    using Cons.prems [of "Suc _"] by (intro Cons.IH) (auto simp: ac_simps)
  ultimately show ?case by (simp add: store_byte_def)
qed simp

lemma translate_chunk:
  assumes "n + unat po \<le> 4096" "page * 4096 + unat (po :: 12 word) = a" "a + n \<le> 2 ^ 63" "i < n"
  shows "raw_type (entry_of m page) = Unmapped \<Longrightarrow> translate m (of_nat (a + i)) = None"
    and "raw_type (entry_of m page) = Memory \<Longrightarrow>
      translate m (of_nat (a + i)) = Some (ExtractPointer (entry_of m page) False + of_nat (a + i))"
    and "raw_type (entry_of m page) = DebugMemory \<Longrightarrow> ExtractPointer (entry_of m page) True \<noteq> 0 \<Longrightarrow>
      translate m (of_nat (a + i)) = Some (ExtractPointer (entry_of m page) True + of_nat (a + i))"
  using page_chunk [OF assms] by (simp_all add: translate_def Let_def)

lemma store_chunk:
  assumes "n + unat po \<le> 4096" "page * 4096 + unat (po :: 12 word) = a" "a + n \<le> 2 ^ 63" "length bs \<le> n"
  shows "raw_type (entry_of m page) = Unmapped \<Longrightarrow> store_bytes m a bs = m"
    and "raw_type (entry_of m page) = Memory \<Longrightarrow>
      store_bytes m a bs = host_write m (ExtractPointer (entry_of m page) False + of_nat a) bs"
    and "raw_type (entry_of m page) = DebugMemory \<Longrightarrow> ExtractPointer (entry_of m page) True \<noteq> 0 \<Longrightarrow>
      store_bytes m a bs = host_write m (ExtractPointer (entry_of m page) True + of_nat a) bs"
proof -
  have l: "i < n" if "i < length bs" for i using that assms(4) by simp
  have b: "length bs < 2 ^ 63" using assms(1,4) by simp
  note c = translate_chunk [OF assms(1-3) l]
  show "raw_type (entry_of m page) = Unmapped \<Longrightarrow> store_bytes m a bs = m"
    using c(1) by (rule store_bytes_unmapped)
  show "raw_type (entry_of m page) = Memory \<Longrightarrow>
      store_bytes m a bs = host_write m (ExtractPointer (entry_of m page) False + of_nat a) bs"
    using c(2) b by (rule store_bytes_chunk)
  show "raw_type (entry_of m page) = DebugMemory \<Longrightarrow> ExtractPointer (entry_of m page) True \<noteq> 0 \<Longrightarrow>
      store_bytes m a bs = host_write m (ExtractPointer (entry_of m page) True + of_nat a) bs"
    using c(3) b by (rule store_bytes_chunk)
qed

lemma visit_write:
  assumes "0 < n" "n + unat po \<le> 4096" "page * 4096 + unat (po :: 12 word) = a" "a + n \<le> 2 ^ 63"
    "plain_entry (entry_of m) page"
  shows "visit_page (write_walker r buffer unsafe) off page po n (m, u) =
    Inr (store_bytes m a (take n (drop off buffer)), ())"
proof -
  have va: "push_bit 12 (of_nat page) + ucast po = (of_nat a :: u64)"
    using current_vaddr_nat [of page po] assms(3) by simp
  have ptr: "p + ucast po + push_bit 12 (of_nat page) = p + (of_nat a :: u64)" for p
    by (simp add: va [symmetric] ac_simps)
  have pg: "page_of (of_nat a) = page" using page_chunk [OF assms(2-4,1)] by simp
  show ?thesis
    using assms(5) store_chunk [OF assms(2-4), of "take n (drop off buffer)" m]
    by (cases "raw_type (entry_of m page)")
      (auto simp: visit_page_def Let_def write_walker_def write_ptr_def plain_entry_def
        GetPointerFromDebugMemory_def va ptr pg)
qed

lemma write_effect_compose:
  "write_effect buffer base (off + n) k (write_effect buffer base off n s) = write_effect buffer base off (n + k) s"
proof (cases "off + n \<le> length buffer")
  case True
  then have "length (take n (drop off buffer)) = n" by simp
  then show ?thesis
    by (simp add: write_effect_def take_add store_bytes_append add.assoc add.commute [of n off])
next
  case False
  then show ?thesis by (simp add: write_effect_def)
qed

interpretation writer: block_walk "write_walker r buffer unsafe" base "2 ^ 63" "write_effect buffer base" plain_entry
    "\<lambda>off s. True" for r buffer unsafe base
proof
  fix n page off and po :: "12 word" and s :: "GuestMemory \<times> unit"
  assume "0 < n" "n + unat po \<le> 4096" "page * 4096 + unat po = base + off" "base + off + n \<le> 2 ^ 63"
    "plain_entry (entry_of (fst s)) page"
  then show "visit_page (write_walker r buffer unsafe) off page po n s = Inr (write_effect buffer base off n s)"
    using visit_write [of n po page "base + off" "fst s" r buffer unsafe off "snd s"]
    by (cases s) (simp add: write_effect_def)
qed (simp_all add: write_effect_compose, simp_all add: write_effect_def prod_eq_iff)

lemma WriteBlock_plain:
  assumes "plain_block m (unat addr) (length buffer)"
  shows "WriteBlockImpl r addr buffer unsafe m =
    Inr (all_mapped m (unat addr) (length buffer), store_bytes m (unat addr) buffer)"
  using writer.WalkBlock_E [of "unat addr" addr "(m, ())" "length buffer" r buffer unsafe] assms
    all_mapped_pages [OF assms] plain_block_bound [OF assms]
  by (simp add: plain_block_def WriteBlockImpl_def write_effect_def)

section \<open>Copying a block\<close>

lemma store_loaded: "translate m (of_nat a) = Some p \<Longrightarrow> store_byte m (of_nat a) (byte_at m (of_nat a)) = m"
  by (simp add: store_byte_def byte_at_def)

lemma load_bytes_Suc: "load_bytes m a (Suc n) = byte_at m (of_nat a) # load_bytes m (a + 1) n"
  by (simp add: load_bytes_def upt_conv_Cons map_Suc_upt [symmetric] ac_simps del: upt_Suc)

lemma store_load_bytes: "all_mapped m a n \<Longrightarrow> store_bytes m a (load_bytes m a n) = m"
proof (induction n arbitrary: a)
  case 0
  then show ?case by (simp add: load_bytes_def)
next
  case (Suc n)
  have "all_mapped m (a + 1) n"
    using Suc.prems unfolding all_mapped_def by (metis Suc_less_eq add_Suc_right add.commute plus_1_eq_Suc)
  moreover obtain p where "translate m (of_nat a) = Some p"
    using Suc.prems by (auto simp: all_mapped_def mapped_def dest!: spec [of _ 0])
  ultimately show ?case using Suc.IH by (simp add: load_bytes_Suc store_loaded)
qed

lemma visit_copy:
  assumes "0 < n" "n + unat po \<le> 4096" "page * 4096 + unat (po :: 12 word) = unat dest + off"
    "unat dest + off + n \<le> 2 ^ address_space_bits (page_table m)" "address_space_bits (page_table m) < 64"
    "mapped_entry (entry_of m) page"
  shows "visit_page (copy_walker r dest) off page po n (m, ()) = Inr (m, ())"
proof -
  let ?a = "unat dest + off"
  have le: "?a + n \<le> 2 ^ 63" using assms(4) space_le [OF assms(5)] by linarith
  have va: "push_bit 12 (of_nat page) + ucast po = (of_nat ?a :: u64)"
    using current_vaddr_nat [of page po] assms(3) by simp
  have ptr: "p + ucast po + push_bit 12 (of_nat page) = p + (of_nat ?a :: u64)" for p
    using va by (simp add: add.assoc add.commute [of "ucast po"])
  have pg: "page_of (of_nat ?a) = page" using page_chunk [OF assms(2,3) le assms(1)] by simp
  have dest: "dest + of_nat off = of_nat ?a" by simp
  have ua: "unat (of_nat ?a :: u64) = ?a" using le assms(1) by (simp only: unat_of_nat) simp
  have div: "(?a + i) div 4096 = page" if "i < n" for i
    unfolding assms(3) [symmetric] using that assms(2) by (intro div_nat_eqI) auto
  have pb: "plain_block m ?a n"
    using assms(4-6) div by (auto simp: plain_block_def mapped_entry_def)
  have am: "all_mapped m ?a n"
    using assms(6) div by (auto simp: mapped_entry_def simp flip: all_mapped_pages [OF pb])
  have w: "WriteBlockImpl r (of_nat ?a) (load_bytes m ?a n) False m = Inr (True, m)"
    using WriteBlock_plain [of m "of_nat ?a" "load_bytes m ?a n" r False] pb am store_load_bytes [OF am]
    unfolding ua by simp
  show ?thesis
    using assms(6) load_chunk [OF assms(2,3) le, of m] w
    unfolding visit_page_def Let_def copy_walker_def copy_from_def va ptr dest
    by (cases "raw_type (entry_of m page)")
      (auto simp: mapped_entry_def plain_entry_def GetPointerFromDebugMemory_def pg dest Let_def simp del: of_nat_add)
qed

interpretation copier: block_walk "copy_walker r dest" "unat dest" "2 ^ min bits 63" "\<lambda>off n s. s" mapped_entry
    "\<lambda>off s. address_space_bits (page_table (fst s)) = bits \<and> bits < 64" for r dest bits
proof
  fix n page off and po :: "12 word" and s :: "GuestMemory \<times> unit"
  assume "0 < n" "n + unat po \<le> 4096" "page * 4096 + unat po = unat dest + off"
    "unat dest + off + n \<le> 2 ^ min bits 63" "mapped_entry (entry_of (fst s)) page"
    "address_space_bits (page_table (fst s)) = bits \<and> bits < 64"
  then show "visit_page (copy_walker r dest) off page po n s = Inr s"
    using visit_copy [of n po page dest off "fst s" r] by (cases s) (auto simp: min_def split: if_splits)
next
  show "2 ^ min bits 63 \<le> (2 ^ 63 :: nat)" by (rule power_increasing) simp_all
qed auto

lemma CopyBlock_plain:
  assumes "plain_block m (unat dest) n" "all_mapped m (unat dest) n"
  shows "CopyBlock r dest src (of_nat n) m = Inr (True, m)"
proof -
  let ?b = "address_space_bits (page_table m)"
  have b: "?b < 64" "unat dest + n \<le> 2 ^ ?b" using assms(1) by (auto simp: plain_block_def)
  have "\<forall>i < n. mapped_entry (entry_of m) ((unat dest + i) div 4096)"
    using assms(1,2) unfolding all_mapped_pages [OF assms(1), symmetric]
    by (auto simp: mapped_entry_def plain_block_def)
  then show ?thesis
    using copier.WalkBlock_E [of dest dest "(m, ())" n ?b r] b by (auto simp: CopyBlock_def min_def mapped_entry_def)
qed

section \<open>Frame and round trip of the specification\<close>

lemma store_bytes_frame:
  assumes "\<And>i. i < length bs \<Longrightarrow> translate m (of_nat (a + i)) \<noteq> Some p"
  shows "host (store_bytes m a bs) p = host m p"
  using assms
proof (induction bs arbitrary: m a)
  case (Cons b bs)
  have "host (store_bytes (store_byte m (of_nat a) b) (a + 1) bs) p = host (store_byte m (of_nat a) b) p"
    using Cons.prems [of "Suc _"] by (intro Cons.IH) (auto simp: ac_simps)
  also have "\<dots> = host m p"
    using Cons.prems [of 0] by (auto simp: store_byte_def split: option.split)
  finally show ?case by simp
qed simp

lemma store_bytes_nth:
  assumes "all_mapped m a (length bs)" "no_alias m a (length bs)" "i < length bs"
  shows "byte_at (store_bytes m a bs) (of_nat (a + i)) = bs ! i"
proof -
  obtain p where p: "translate m (of_nat (a + i)) = Some p"
    using assms(1,3) by (auto simp: all_mapped_def mapped_def)
  have split: "bs = take i bs @ bs ! i # drop (Suc i) bs" using assms(3) by (rule id_take_nth_drop)
  let ?m = "store_bytes m a (take i bs)"
  have "host (store_bytes m a bs) p =
      host (store_bytes (store_byte ?m (of_nat (a + i)) (bs ! i)) (a + i + 1) (drop (Suc i) bs)) p"
    using assms(3) by (subst split) (simp add: store_bytes_append)
  also have "\<dots> = host (store_byte ?m (of_nat (a + i)) (bs ! i)) p"
  proof (rule store_bytes_frame)
    fix j assume "j < length (drop (Suc i) bs)"
    then have "i + 1 + j < length bs" "i + 1 + j \<noteq> i" by simp_all
    with assms(2,3) have "translate m (of_nat (a + (i + 1 + j))) \<noteq> translate m (of_nat (a + i))"
      unfolding no_alias_def by blast
    with p show "translate (store_byte ?m (of_nat (a + i)) (bs ! i)) (of_nat (a + i + 1 + j)) \<noteq> Some p"
      by (simp add: add.assoc)
  qed
  also have "\<dots> = bs ! i" using p by (simp add: store_byte_def)
  finally show ?thesis using p by (simp add: byte_at_def)
qed

lemma load_store_bytes:
  "all_mapped m a (length bs) \<Longrightarrow> no_alias m a (length bs) \<Longrightarrow>
   load_bytes (store_bytes m a bs) a (length bs) = bs"
  using store_bytes_nth [of m a bs] by (auto simp: load_bytes_def intro!: nth_equalityI simp del: of_nat_add)

lemma plain_block_store [simp]: "plain_block (store_bytes m a bs) b n = plain_block m b n"
  by (simp add: plain_block_def)

lemma all_mapped_store [simp]: "all_mapped (store_bytes m a bs) b n = all_mapped m b n"
  by (simp add: all_mapped_def mapped_def)

section \<open>Marking\<close>

lemma mark_loop_entries:
  "entry_of (mark_loop f k page m) p = (if page \<le> p \<and> p < page + k then f (entry_of m p) else entry_of m p)"
  by (induction k arbitrary: page m) (auto simp: entry_of_def set_entry_def)

lemma mark_loop_frame:
  "host (mark_loop f k page m) = host m" "block_count (mark_loop f k page m) = block_count m"
  "address_space_bits (page_table (mark_loop f k page m)) = address_space_bits (page_table m)"
  "pt_size (page_table (mark_loop f k page m)) = pt_size (page_table m)"
  by (induction k arbitrary: page m) (simp_all add: set_entry_def)

lemma memory_eqI:
  "entry_of m = entry_of m' \<Longrightarrow> host m = host m' \<Longrightarrow> block_count m = block_count m' \<Longrightarrow>
   address_space_bits (page_table m) = address_space_bits (page_table m') \<Longrightarrow>
   pt_size (page_table m) = pt_size (page_table m') \<Longrightarrow> m = m'"
  by (cases m; cases m'; cases "page_table m"; cases "page_table m'") (simp add: entry_of_def fun_eq_iff)

lemma cached_page_twice:
  assumes "raw = Store False Memory block ptr" "storable_pointer ptr" "ptr \<noteq> 0"
  shows "mark_cached_page False (mark_cached_page True raw) = raw"
  using assms
  by (simp add: mark_cached_page_def raw_type_cases PointerTypeBlock_def cached_keeps ExtractPointer_Store)

section \<open>The sample memory\<close>

lemma sample_entry_of [simp]:
  "entry_of sample_memory 1 = Store False Memory 1 0x10000"
  "entry_of sample_memory (Suc 0) = Store False Memory 1 0x10000"
  "entry_of sample_memory 2 = Store False Memory 1 0x20000"
  by (simp_all add: entry_of_def sample_memory_def)

lemma sample_translate:
  assumes "x < 2 ^ 64"
  shows "x div 4096 = 1 \<Longrightarrow> translate sample_memory (of_nat x) = Some (0x10000 + of_nat x)"
    and "x div 4096 = 2 \<Longrightarrow> translate sample_memory (of_nat x) = Some (0x20000 + of_nat x)"
proof -
  have "storable_pointer 0x10000" "storable_pointer 0x20000" by code_simp+
  then show "x div 4096 = 1 \<Longrightarrow> translate sample_memory (of_nat x) = Some (0x10000 + of_nat x)"
    "x div 4096 = 2 \<Longrightarrow> translate sample_memory (of_nat x) = Some (0x20000 + of_nat x)"
    using assms by (simp_all add: translate_def page_of_nat Let_def ExtractPointer_Store)
qed

lemma sample_bytes:
  "translate sample_memory 0x1FFE = Some 0x11FFE" "translate sample_memory 0x1FFF = Some 0x11FFF"
  "translate sample_memory 0x2000 = Some 0x22000" "translate sample_memory 0x2001 = Some 0x22001"
  "translate sample_memory 0x1000 = Some 0x11000" "translate sample_memory 0x1001 = Some 0x11001"
  "translate sample_memory 0x1002 = Some 0x11002" "translate sample_memory 0x1003 = Some 0x11003"
  using sample_translate [of "0x1FFE"] sample_translate [of "0x1FFF"] sample_translate [of "0x2000"]
    sample_translate [of "0x2001"] sample_translate [of "0x1000"] sample_translate [of "0x1001"]
    sample_translate [of "0x1002"] sample_translate [of "0x1003"] by simp_all

lemma all_less_4: "(\<forall>i < 4. P i) \<longleftrightarrow> P 0 \<and> P 1 \<and> P 2 \<and> P (3 :: nat)"
  by (auto simp: numeral_eq_Suc less_Suc_eq)

lemma sample_block:
  "plain_block sample_memory 0x1FFE 4" "all_mapped sample_memory 0x1FFE 4" "no_alias sample_memory 0x1FFE 4"
  "plain_block sample_memory 0x1000 4" "all_mapped sample_memory 0x1000 4"
  by (simp_all add: plain_block_def all_mapped_def no_alias_def all_less_4 mapped_def sample_bytes plain_entry_def)
    (simp_all add: sample_memory_def)

lemma sample_load: "load_bytes sample_memory 0x1FFE 4 = [0, 0, 0, 0]"
proof -
  have "byte_at sample_memory a = 0" for a
    by (simp add: byte_at_def split: option.split) (simp add: sample_memory_def)
  then show ?thesis by (simp add: load_bytes_def upt_conv_Cons)
qed

lemma sample_host [simp]:
  "plain_block (sample_memory\<lparr>host := h\<rparr>) a n = plain_block sample_memory a n"
  "all_mapped (sample_memory\<lparr>host := h\<rparr>) a n = all_mapped sample_memory a n"
  by (simp_all add: plain_block_def all_mapped_def mapped_def)

section \<open>Properties\<close>

text \<open>
  C10. A block read returns, for every address of the block, the byte behind it, and zero for the
  addresses that are not mapped; it reports whether all of them were; and it changes nothing. The
  block may span any number of pages with different host pages.
\<close>

theorem ReadBlock_reads_bytes:
  assumes "plain_block m (unat addr) n" "length buf = n"
  shows "ReadBlock r addr (of_nat n) (m, buf) =
    Inr (all_mapped m (unat addr) n, m, load_bytes m (unat addr) n)"
  using ReadBlock_plain [OF assms, of r False] all_mapped_pages [OF assms(1)] by (simp add: ReadBlock_def)

theorem ReadBlock_reads_bytes_witness:
  "ReadBlock idle_rasterizer 0x1FFE (of_nat 4) (sample_memory, [9, 9, 9, 9]) =
     Inr (True, sample_memory, [0, 0, 0, 0])"
proof -
  show ?thesis
    using ReadBlock_reads_bytes [of sample_memory "0x1FFE" 4 "[9, 9, 9, 9]" idle_rasterizer]
    by (simp add: sample_block sample_load)
qed

text \<open>
  C11. A block write to mapped pages that do not alias each other succeeds; reading the block
  afterwards returns what was written; the page table is unchanged, and so is every host byte
  that backs no address of the block.
\<close>

theorem WriteBlock_ReadBlock_round_trip:
  assumes "plain_block m (unat addr) (length bs)" "all_mapped m (unat addr) (length bs)"
    "no_alias m (unat addr) (length bs)" "length buf = length bs"
  shows "\<exists>m'. WriteBlock r addr bs m = Inr (True, m') \<and>
    ReadBlock r addr (of_nat (length bs)) (m', buf) = Inr (True, m', bs) \<and>
    page_table m' = page_table m \<and>
    (\<forall>p. (\<forall>i < length bs. translate m (of_nat (unat addr + i)) \<noteq> Some p) \<longrightarrow> host m' p = host m p)"
proof -
  let ?m = "store_bytes m (unat addr) bs"
  have "ReadBlock r addr (of_nat (length bs)) (?m, buf) =
      Inr (True, ?m, load_bytes ?m (unat addr) (length bs))"
    using ReadBlock_plain [of ?m addr "length bs" buf r False] assms all_mapped_pages [of ?m "unat addr" "length bs"]
    by (simp add: ReadBlock_def)
  moreover have "load_bytes ?m (unat addr) (length bs) = bs" using assms by (simp add: load_store_bytes)
  moreover have "WriteBlock r addr bs m = Inr (True, ?m)"
    using WriteBlock_plain [OF assms(1), of r False] assms(2) by (simp add: WriteBlock_def)
  ultimately show ?thesis using store_bytes_frame [of bs m "unat addr"] by (intro exI [of _ ?m]) simp
qed

theorem WriteBlock_ReadBlock_round_trip_witness:
  "\<exists>m'. WriteBlock idle_rasterizer 0x1FFE [1, 2, 3, 4] sample_memory = Inr (True, m') \<and>
     ReadBlock idle_rasterizer 0x1FFE (of_nat 4) (m', [0, 0, 0, 0]) = Inr (True, m', [1, 2, 3, 4])"
proof -
  have l: "length [1, 2, 3, 4 :: u8] = 4" by simp
  show ?thesis
    using WriteBlock_ReadBlock_round_trip [of sample_memory "0x1FFE" "[1, 2, 3, 4]" "[0, 0, 0, 0]"
        idle_rasterizer, unfolded l]
    by (auto simp: sample_block)
qed

text \<open>
  \<^verbatim>\<open>CopyBlock\<close> does not copy: on mapped destination pages it reports success and leaves the memory as
  it was, whatever the source address, because the walk it copies from is the one over the
  destination.
\<close>

theorem CopyBlock_copies_nothing:
  assumes "plain_block m (unat dest) n" "all_mapped m (unat dest) n"
  shows "CopyBlock r dest src (of_nat n) m = Inr (True, m)"
  using assms by (rule CopyBlock_plain)

theorem CopyBlock_copies_nothing_witness:
  "CopyBlock idle_rasterizer 0x1000 0x2000 (of_nat 4) (sample_memory\<lparr>host := (\<lambda>_. 0)(0x22000 := 7)\<rparr>) =
     Inr (True, sample_memory\<lparr>host := (\<lambda>_. 0)(0x22000 := 7)\<rparr>) \<and>
   byte_at (sample_memory\<lparr>host := (\<lambda>_. 0)(0x22000 := 7)\<rparr>) 0x2000 = 7 \<and>
   byte_at (sample_memory\<lparr>host := (\<lambda>_. 0)(0x22000 := 7)\<rparr>) 0x1000 = 0"
proof -
  let ?m = "sample_memory\<lparr>host := (\<lambda>_. 0)(0x22000 := 7)\<rparr>"
  show ?thesis
    using CopyBlock_copies_nothing [of ?m "0x1000" 4 idle_rasterizer "0x2000"]
    by (simp add: sample_block byte_at_def sample_bytes)
qed

text \<open>
  Marking a region as cached by the rasterizer keeps the host byte behind every address, and
  unmarking the region restores the page table, when the pages of the region are regular memory.
\<close>

theorem cached_marking_round_trip:
  assumes "\<forall>p. page_of vaddr \<le> p \<and> p < page_of vaddr + num_pages vaddr sz \<longrightarrow>
      (\<exists>block ptr. entry_of m p = Store False Memory block ptr \<and> storable_pointer ptr \<and> ptr \<noteq> 0)"
  shows "RasterizerMarkRegionCached vaddr sz False (RasterizerMarkRegionCached vaddr sz True m) = m \<and>
    translate (RasterizerMarkRegionCached vaddr sz True m) = translate m"
proof (cases "vaddr = 0 \<or> \<not> AddressSpaceContains m vaddr sz")
  case True
  then show ?thesis by (auto simp: RasterizerMarkRegionCached_def)
next
  case False
  let ?k = "num_pages vaddr sz" and ?p = "page_of vaddr"
  let ?m = "mark_loop (mark_cached_page True) ?k ?p m"
  have e: "mark_cached_page False (mark_cached_page True (entry_of m p)) = entry_of m p"
    "raw_type (entry_of m p) = Memory" "ExtractPointer (entry_of m p) True = ExtractPointer (entry_of m p) False"
    "ExtractPointer (entry_of m p) False \<noteq> 0" if "?p \<le> p" "p < ?p + ?k" for p
    using assms [rule_format, OF conjI [OF that]] cached_page_twice by (auto simp: ExtractPointer_Store)
  have "AddressSpaceContains ?m vaddr sz = AddressSpaceContains m vaddr sz"
    by (simp add: AddressSpaceContains_def mark_loop_frame)
  moreover have "mark_loop (mark_cached_page False) ?k ?p ?m = m"
    using e(1) by (intro memory_eqI ext) (simp_all add: mark_loop_entries mark_loop_frame)
  moreover have "translate ?m a = translate m a" for a
    using e(2-4) [of "page_of a"]
    by (auto simp: translate_def Let_def mark_loop_entries mark_cached_page_def raw_type_cases cached_keeps)
  ultimately show ?thesis using False by (auto simp: RasterizerMarkRegionCached_def)
qed

theorem cached_marking_round_trip_witness:
  "RasterizerMarkRegionCached 0x1000 0x1000 False (RasterizerMarkRegionCached 0x1000 0x1000 True sample_memory) =
     sample_memory"
proof -
  have s: "storable_pointer 0x10000" by code_simp
  have n: "page_of 0x1000 = 1" "num_pages 0x1000 0x1000 = 1"
    by (simp_all add: page_of_def num_pages_def drop_bit_eq_div)
  have "\<exists>block ptr. entry_of sample_memory p = Store False Memory block ptr \<and> storable_pointer ptr \<and> ptr \<noteq> 0"
    if "1 \<le> p \<and> p < 1 + 1" for p
  proof -
    from that have "p = 1" by simp
    with s show ?thesis by (intro exI [of _ 1] exI [of _ "0x10000"]) simp
  qed
  then show ?thesis
    using cached_marking_round_trip [of "0x1000" "0x1000" sample_memory] by (simp only: n) blast
qed

end
