(* ===== verification/Cheat_Engine.thy ===== *)
theory Cheat_Engine
  imports Cheat_Behaviour Cheat_Parser Guest_Memory_Laws
begin

text \<open>
  The cheat engine, \<^verbatim>\<open>core/memory/cheat_engine.cpp\<close>: \<^verbatim>\<open>StandardVmCallbacks\<close>, which connects the virtual machine
  to the memory of the game, and \<^verbatim>\<open>CheatEngine\<close>, which loads and runs the program on every timer event.

  The world outside the machine holds the processes of the kernel, the process the callbacks have
  cached, the button state of the controller and the log. A cached pointer is named by the
  identifier of the process it points to. \<open>crashed\<close> records that a memory access went through a null
  host pointer; what the world holds after that is of no interest. The rasterizer is the parameter
  of guest memory.
\<close>

section \<open>The world\<close>

record KProcess =
  kp_memory :: GuestMemory
  kp_suspended :: bool
  kp_terminating :: bool

record World =
  metadata :: CheatProcessMetadata
  processes :: "u64 \<Rightarrow> KProcess option"
  cached_process :: "u64 option"
  cached_process_id :: u64
  press_state :: "u64 option" \<comment> \<open>\<open>None\<close> while the controller service is not initialized\<close>
  invalidated :: "(VAddr \<times> nat) list" \<comment> \<open>instruction cache ranges, latest first\<close>
  debug_log :: "(u8 \<times> u64) list"
  crashed :: bool

section \<open>StandardVmCallbacks\<close>

definition GetProcess :: "World \<Rightarrow> u64 option \<times> World" where
  "GetProcess w =
     (if cached_process w \<noteq> None \<and> cached_process_id w = process_id (metadata w)
      then (cached_process w, w)
      else
        let p = (if processes w (process_id (metadata w)) = None then None
                 else Some (process_id (metadata w)));
            w = w\<lparr>cached_process := p, cached_process_id := process_id (metadata w)\<rparr>
        in (p, w))"

definition in_extents :: "MemoryRegionExtents \<Rightarrow> VAddr \<Rightarrow> bool" where
  "in_extents e a \<longleftrightarrow> \<not> (a < ext_base e \<or> ext_base e + ext_size e \<le> a)"

definition IsAddressInRange :: "CheatProcessMetadata \<Rightarrow> VAddr \<Rightarrow> bool" where
  "IsAddressInRange md a \<longleftrightarrow>
     in_extents (main_nso_extents md) a \<or> in_extents (heap_extents md) a \<or>
     in_extents (alias_extents md) a \<or> in_extents (aslr_extents md) a"

definition set_memory :: "u64 \<Rightarrow> GuestMemory \<Rightarrow> World \<Rightarrow> World" where
  "set_memory pid m w =
     w\<lparr>processes := (processes w)(pid := map_option (kp_memory_update (\<lambda>_. m)) (processes w pid))\<rparr>"

definition memory_of :: "World \<Rightarrow> u64 \<Rightarrow> GuestMemory" where
  "memory_of w pid = kp_memory (the (processes w pid))"

text \<open>The process the access may go to: it exists, the address is in range and its page is valid.\<close>

definition access_target :: "VAddr \<Rightarrow> World \<Rightarrow> u64 option \<times> World" where
  "access_target address w =
     (let (process, w) = GetProcess w in
      case process of
        None \<Rightarrow> (None, w)
      | Some pid \<Rightarrow>
          (if IsAddressInRange (metadata w) address \<and> IsValidVirtualAddress (memory_of w pid) address
           then Some pid else None, w))"

definition std_MemoryReadUnsafe :: "Rasterizer \<Rightarrow> VAddr \<Rightarrow> nat \<Rightarrow> World \<Rightarrow> u8 list \<times> World" where
  "std_MemoryReadUnsafe r address n w =
     (let (target, w) = access_target address w in
      case target of
        None \<Rightarrow> (replicate n 0, w)
      | Some pid \<Rightarrow>
          (case ReadBlock r address (of_nat n) (memory_of w pid, replicate n 0) of
             Inl _ \<Rightarrow> (replicate n 0, w\<lparr>crashed := True\<rparr>)
           | Inr (_, m, bs) \<Rightarrow> (bs, set_memory pid m w)))"

definition std_MemoryWriteUnsafe :: "Rasterizer \<Rightarrow> VAddr \<Rightarrow> u8 list \<Rightarrow> World \<Rightarrow> World" where
  "std_MemoryWriteUnsafe r address bs w =
     (let (target, w) = access_target address w in
      case target of
        None \<Rightarrow> w
      | Some pid \<Rightarrow>
          (case WriteBlock r address bs (memory_of w pid) of
             Inl _ \<Rightarrow> w\<lparr>crashed := True\<rparr>
           | Inr (ok, m) \<Rightarrow>
               let w = set_memory pid m w
               in if ok then w\<lparr>invalidated := (address, length bs) # invalidated w\<rparr> else w))"

definition std_HidKeysDown :: "World \<Rightarrow> u64 \<times> World" where
  "std_HidKeysDown w =
     (case press_state w of None \<Rightarrow> (0, w) | Some s \<Rightarrow> (s AND 0xFFFFFFFFFFFFFFFF, w\<lparr>press_state := Some 0\<rparr>))"

text \<open>\<^verbatim>\<open>KProcess::SetActivity\<close>, without its effect on the threads.\<close>

definition SetActivity :: "bool \<Rightarrow> KProcess \<Rightarrow> KProcess" where
  "SetActivity paused p =
     (if kp_terminating p then p
      else if paused then (if \<not> kp_suspended p then p\<lparr>kp_suspended := True\<rparr> else p)
      else (if kp_suspended p then p\<lparr>kp_suspended := False\<rparr> else p))"

definition std_PauseProcess :: "World \<Rightarrow> World" where
  "std_PauseProcess w =
     (let (process, w) = GetProcess w in
      case process of
        None \<Rightarrow> w
      | Some pid \<Rightarrow>
          if \<not> kp_suspended (the (processes w pid))
          then w\<lparr>processes := (processes w)(pid := map_option (SetActivity True) (processes w pid))\<rparr>
          else w)"

definition std_ResumeProcess :: "World \<Rightarrow> World" where
  "std_ResumeProcess w =
     (let (process, w) = GetProcess w in
      case process of
        None \<Rightarrow> w
      | Some pid \<Rightarrow>
          if kp_suspended (the (processes w pid))
          then w\<lparr>processes := (processes w)(pid := map_option (SetActivity False) (processes w pid))\<rparr>
          else w)"

definition std_DebugLog :: "u8 \<Rightarrow> u64 \<Rightarrow> World \<Rightarrow> World" where
  "std_DebugLog i v w = w\<lparr>debug_log := (i, v) # debug_log w\<rparr>"

definition StandardVmCallbacks :: "Rasterizer \<Rightarrow> World Callbacks" where
  "StandardVmCallbacks r =
     \<lparr>MemoryReadUnsafe = std_MemoryReadUnsafe r, MemoryWriteUnsafe = std_MemoryWriteUnsafe r,
      HidKeysDown = std_HidKeysDown, PauseProcess = std_PauseProcess, ResumeProcess = std_ResumeProcess,
      cb_DebugLog = std_DebugLog, CommandLog = (\<lambda>msg w. w)\<rparr>"

section \<open>CheatEngine\<close>

text \<open>The metadata of the engine is the one the callbacks refer to, so it is kept in the world.\<close>

record CheatEngine =
  vm :: DmntCheatVm
  cheats :: "CheatEntry list"
  is_pending_reload :: bool
  event_scheduled :: bool

definition new_CheatEngine :: "CheatEntry list \<Rightarrow> u8 list \<Rightarrow> World \<Rightarrow> CheatEngine \<times> World" where
  "new_CheatEngine cheats0 build_id w =
     (\<lparr>vm = new_DmntCheatVm, cheats = cheats0, is_pending_reload = False, event_scheduled = False\<rparr>,
      w\<lparr>metadata := (metadata w)\<lparr>main_nso_build_id := build_id\<rparr>\<rparr>)"

text \<open>\<^verbatim>\<open>Initialize\<close> takes the identifiers of the application and the regions of its page table.\<close>

definition Initialize :: "u64 \<Rightarrow> u64 \<Rightarrow> MemoryRegionExtents \<Rightarrow> MemoryRegionExtents \<Rightarrow> MemoryRegionExtents \<Rightarrow>
    CheatEngine \<times> World \<Rightarrow> CheatEngine \<times> World" where
  "Initialize pid program_id heap_region alias_code_region alias_region s =
     (let (eng, w) = s
      in (eng\<lparr>event_scheduled := True, is_pending_reload := True\<rparr>,
          w\<lparr>metadata := (metadata w)\<lparr>process_id := pid, title_id := program_id,
              heap_extents := heap_region, aslr_extents := alias_code_region,
              alias_extents := alias_region\<rparr>\<rparr>))"

definition SetMainMemoryParameters :: "VAddr \<Rightarrow> u64 \<Rightarrow> World \<Rightarrow> World" where
  "SetMainMemoryParameters main_region_begin main_region_size w =
     w\<lparr>metadata := (metadata w)\<lparr>main_nso_extents := \<lparr>ext_base = main_region_begin, ext_size = main_region_size\<rparr>\<rparr>\<rparr>"

definition Reload :: "CheatEntry list \<Rightarrow> CheatEngine \<Rightarrow> CheatEngine" where
  "Reload reload_cheats eng = eng\<lparr>cheats := reload_cheats, is_pending_reload := True\<rparr>"

text \<open>\<^verbatim>\<open>FrameCallback\<close>: \<open>None\<close> when the program does not return.\<close>

definition FrameCallback :: "Rasterizer \<Rightarrow> CheatEngine \<times> World \<Rightarrow> (vm_fault + (CheatEngine \<times> World)) option" where
  "FrameCallback r s =
     (let (eng, w) = s;
          loaded = (if is_pending_reload eng
                    then bindF (LoadProgram (cheats eng) (vm eng)) (\<lambda>(_, v). Inr v) else Inr (vm eng));
          eng = eng\<lparr>is_pending_reload := False\<rparr>
      in case loaded of
           Inl f \<Rightarrow> Some (Inl f)
         | Inr v \<Rightarrow>
             if num_opcodes v = 0 then Some (Inr (eng\<lparr>vm := v\<rparr>, w))
             else
               (case Execute (StandardVmCallbacks r) (metadata w) v w of
                  None \<Rightarrow> None
                | Some (Inl f) \<Rightarrow> Some (Inl f)
                | Some (Inr (v, w)) \<Rightarrow> Some (Inr (eng\<lparr>vm := v\<rparr>, w))))"

end
