(* ===== verification/Cheat_Loops.thy ===== *)
theory Cheat_Loops
  imports Cheat_Behaviour
begin

text \<open>
  The interpreter as a small-step relation: one step is one round of the loop of \<^verbatim>\<open>Execute\<close>. The
  relation gives a proof rule for the counted loops of the cheat language, whose body may be any
  sequence of steps.
\<close>

section \<open>Steps\<close>

inductive vm_step :: "'e Callbacks \<Rightarrow> CheatProcessMetadata \<Rightarrow> u64 \<Rightarrow> DmntCheatVm \<times> 'e \<Rightarrow>
    DmntCheatVm \<times> 'e \<Rightarrow> bool" for cb md kDown where
  vm_stepI: "DecodeNextOpcode vm = Inr (Some op, vm1) \<Longrightarrow>
    exec_iteration cb md kDown op vm1 e = Inr (vm', e') \<Longrightarrow> vm_step cb md kDown (vm, e) (vm', e')"

inductive_cases vm_stepE: "vm_step cb md kDown (vm, e) s"

text \<open>A machine inside the loop over register \<open>reg\<close> that starts at \<open>tp\<close>, running the program of \<open>vm\<close>.\<close>

definition in_loop :: "DmntCheatVm \<Rightarrow> u32 \<Rightarrow> nat \<Rightarrow> DmntCheatVm \<Rightarrow> bool" where
  "in_loop vm reg tp v \<longleftrightarrow>
     vm_wf v \<and> decode_success v \<and> program v = program vm \<and> num_opcodes v = num_opcodes vm \<and>
     loop_tops v ! unat reg = tp"

text \<open>
  What a loop control opcode may change besides the position: the counter, the top of the loop
  and the log.
\<close>

definition loop_stable :: "'e Callbacks \<Rightarrow> u32 \<Rightarrow> (nat \<Rightarrow> DmntCheatVm \<times> 'e \<Rightarrow> bool) \<Rightarrow> bool" where
  "loop_stable cb reg Q \<longleftrightarrow>
     (\<forall>k v e x t ip msgs. Q k (v, e) \<longrightarrow>
        Q k (v\<lparr>registers := (registers v)[unat reg := x], loop_tops := (loop_tops v)[unat reg := t],
             instruction_ptr := ip\<rparr>, command_log cb msgs e))"

section \<open>Steps and the interpreter loop\<close>

text \<open>Steps that lead to a state lead the interpreter to the same result.\<close>

lemma execute_loop_step:
  assumes "vm_step cb md kDown s t"
  shows "execute_loop cb md kDown (fst s) (snd s) = execute_loop cb md kDown (fst t) (snd t)"
  using assms by cases (subst execute_loop.simps, simp)

lemma execute_loop_steps:
  "(vm_step cb md kDown)\<^sup>*\<^sup>* s t \<Longrightarrow>
   execute_loop cb md kDown (fst s) (snd s) = execute_loop cb md kDown (fst t) (snd t)"
  by (induction rule: rtranclp_induct) (simp_all add: execute_loop_step)

section \<open>Counted loops\<close>

lemma Decode_program:
  assumes "fetch vm i = Some (op, j)" "program v = program vm" "num_opcodes v = num_opcodes vm"
    "decode_success v" "instruction_ptr v = i"
  shows "DecodeNextOpcode v = Inr (Some op, v\<lparr>instruction_ptr := j\<rparr>)"
proof -
  have "DecodeNextOpcode v = Inr (Some op, v\<lparr>instruction_ptr := j, decode_success := True\<rparr>)"
    using Decode_cong(2) [OF _ _ _ _ Decode_at_pos [OF assms(1), of 0], of v] assms by simp
  then show ?thesis using assms(4) by simp
qed

lemma vm_wf_arrays [simp]:
  "vm_wf (vm\<lparr>registers := (registers vm)[i := x]\<rparr>) = vm_wf vm"
  "vm_wf (vm\<lparr>loop_tops := (loop_tops vm)[i := t]\<rparr>) = vm_wf vm"
  "vm_wf (vm\<lparr>registers := (registers vm)[i := x], loop_tops := (loop_tops vm)[j := t]\<rparr>) = vm_wf vm"
  "vm_wf (vm\<lparr>instruction_ptr := ip, registers := (registers vm)[i := x]\<rparr>) = vm_wf vm"
  unfolding vm_wf_def by simp_all

lemma loop_end_step:
  assumes "in_loop vm reg tp v" "unat reg < NumRegisters" "instruction_ptr v = m"
    "fetch vm m = Some (\<lparr>begin_conditional_block = False, vm_opcode = ControlLoopOpcode False reg n\<rparr>, after)"
  shows "\<exists>msgs. vm_step cb md kDown (v, e)
    (v\<lparr>registers := (registers v)[unat reg := registers v ! unat reg - 1],
       instruction_ptr := (if registers v ! unat reg - 1 = 0 then after else tp)\<rparr>, command_log cb msgs e)"
proof -
  have D: "DecodeNextOpcode v = Inr (Some \<lparr>begin_conditional_block = False,
      vm_opcode = ControlLoopOpcode False reg n\<rparr>, v\<lparr>instruction_ptr := after\<rparr>)"
    using assms by (intro Decode_program [OF assms(4)]) (auto simp: in_loop_def)
  have "vm_wf v" "loop_tops v ! unat reg = tp" using assms(1) by (auto simp: in_loop_def)
  then show ?thesis using assms(2)
    by (intro exI vm_stepI [OF D])
      (auto simp: exec_iteration_def exec_ControlLoop_def Let_def set_reg_def get_reg_def)
qed

lemma loop_start_step:
  assumes "vm_wf vm" "decode_success vm" "unat reg < NumRegisters"
    "fetch vm (instruction_ptr vm) = Some (\<lparr>begin_conditional_block = False,
       vm_opcode = ControlLoopOpcode True reg n\<rparr>, tp)"
  shows "\<exists>msgs. vm_step cb md kDown (vm, e)
    (vm\<lparr>registers := (registers vm)[unat reg := ucast n], loop_tops := (loop_tops vm)[unat reg := tp],
        instruction_ptr := tp\<rparr>, command_log cb msgs e)"
proof -
  have D: "DecodeNextOpcode vm = Inr (Some \<lparr>begin_conditional_block = False,
      vm_opcode = ControlLoopOpcode True reg n\<rparr>, vm\<lparr>instruction_ptr := tp\<rparr>)"
    using assms by (intro Decode_program [OF assms(4)]) auto
  show ?thesis using assms(1-3)
    by (intro exI vm_stepI [OF D])
      (auto simp: exec_iteration_def exec_ControlLoop_def Let_def set_reg_def get_reg_def)
qed

lemma loop_rounds:
  assumes reg: "unat reg < NumRegisters"
    and fin: "fetch vm m = Some (\<lparr>begin_conditional_block = False,
      vm_opcode = ControlLoopOpcode False reg n\<rparr>, after)"
    and stable: "loop_stable cb reg Q"
    and body: "\<And>k v e. Q k (v, e) \<Longrightarrow> in_loop vm reg tp v \<Longrightarrow> instruction_ptr v = tp \<Longrightarrow>
      \<exists>v' e'. (vm_step cb md kDown)\<^sup>*\<^sup>* (v, e) (v', e') \<and> Q (Suc k) (v', e') \<and> in_loop vm reg tp v' \<and>
        instruction_ptr v' = m \<and> registers v' ! unat reg = registers v ! unat reg"
    and "Q k (v, e)" "in_loop vm reg tp v" "instruction_ptr v = tp" "registers v ! unat reg = of_nat (Suc j)"
    and "Suc j < 2 ^ 64"
  shows "\<exists>v' e'. (vm_step cb md kDown)\<^sup>*\<^sup>* (v, e) (v', e') \<and> Q (k + Suc j) (v', e') \<and>
    in_loop vm reg tp v' \<and> instruction_ptr v' = after \<and> registers v' ! unat reg = 0"
  using assms(5-)
proof (induction j arbitrary: k v e)
  case (0 k v e)
  from body [OF 0(1-3)] 0(4) obtain v1 e1 where
    b: "(vm_step cb md kDown)\<^sup>*\<^sup>* (v, e) (v1, e1)" "Q (Suc k) (v1, e1)" "in_loop vm reg tp v1"
      "instruction_ptr v1 = m" "registers v1 ! unat reg = 1" by auto
  let ?v2 = "v1\<lparr>registers := (registers v1)[unat reg := 0], instruction_ptr := after\<rparr>"
  from loop_end_step [OF b(3) reg b(4) fin, of cb md kDown e1] b(5)
  obtain msgs where s: "vm_step cb md kDown (v1, e1) (?v2, command_log cb msgs e1)" by auto
  have "Q (Suc k) (?v2, command_log cb msgs e1)"
    using stable [unfolded loop_stable_def, rule_format, OF b(2),
        where x = 0 and t = "loop_tops v1 ! unat reg" and ip = after and msgs = msgs] by simp
  moreover have "in_loop vm reg tp ?v2" "registers ?v2 ! unat reg = 0"
    using b(3) reg by (auto simp: in_loop_def)
  ultimately show ?case using b(1) s
    by (intro exI [of _ ?v2] exI [of _ "command_log cb msgs e1"]) auto
next
  case (Suc j k v e)
  from body [OF Suc.prems(1-3)] Suc.prems(4) obtain v1 e1 where
    b: "(vm_step cb md kDown)\<^sup>*\<^sup>* (v, e) (v1, e1)" "Q (Suc k) (v1, e1)" "in_loop vm reg tp v1"
      "instruction_ptr v1 = m" "registers v1 ! unat reg = of_nat (Suc (Suc j))" by auto
  have ne: "(of_nat (Suc j) :: u64) \<noteq> 0"
    using Suc.prems(5) by (simp del: of_nat_Suc add: of_nat_eq_0_iff nat_dvd_not_less word_of_nat_eq_0_iff)
  let ?v2 = "v1\<lparr>registers := (registers v1)[unat reg := of_nat (Suc j)], instruction_ptr := tp\<rparr>"
  from loop_end_step [OF b(3) reg b(4) fin, of cb md kDown e1] b(5) ne
  obtain msgs where s: "vm_step cb md kDown (v1, e1) (?v2, command_log cb msgs e1)" by auto
  have "Q (Suc k) (?v2, command_log cb msgs e1)"
    using stable [unfolded loop_stable_def, rule_format, OF b(2),
        where x = "of_nat (Suc j)" and t = "loop_tops v1 ! unat reg" and ip = tp and msgs = msgs] by simp
  moreover have "in_loop vm reg tp ?v2" "registers ?v2 ! unat reg = of_nat (Suc j)"
    using b(3) reg by (auto simp: in_loop_def)
  ultimately obtain v' e' where "(vm_step cb md kDown)\<^sup>*\<^sup>* (?v2, command_log cb msgs e1) (v', e')"
    "Q (Suc k + Suc j) (v', e')" "in_loop vm reg tp v'" "instruction_ptr v' = after"
    "registers v' ! unat reg = 0"
    using Suc.IH [of "Suc k" ?v2 "command_log cb msgs e1"] Suc.prems(5) by auto
  with b(1) s show ?case
    by (intro exI [of _ v'] exI [of _ e']) (auto intro: rtranclp_trans converse_rtranclp_into_rtranclp)
qed

text \<open>
  C8. A counted loop runs its body exactly as many times as its start says. The start and the end
  of the loop are at known places of the program and use the same register; the body is any
  sequence of steps that leads from behind the start to the end, keeps the counter and takes the
  assertion \<open>Q k\<close> to \<open>Q (k + 1)\<close>. Then a run that meets the start with \<open>n > 0\<close> rounds and \<open>Q 0\<close> reaches
  the opcode behind the end with \<open>Q n\<close> and a counter of zero, and the interpreter continues from
  there.
\<close>

theorem counted_loop:
  assumes "vm_wf vm" "decode_success vm" "unat reg < NumRegisters" "0 < n"
    and "fetch vm (instruction_ptr vm) = Some (\<lparr>begin_conditional_block = False,
      vm_opcode = ControlLoopOpcode True reg n\<rparr>, tp)"
    and "fetch vm m = Some (\<lparr>begin_conditional_block = False,
      vm_opcode = ControlLoopOpcode False reg n'\<rparr>, after)"
    and stable: "loop_stable cb reg Q"
    and body: "\<And>k v e. Q k (v, e) \<Longrightarrow> in_loop vm reg tp v \<Longrightarrow> instruction_ptr v = tp \<Longrightarrow>
      \<exists>v' e'. (vm_step cb md kDown)\<^sup>*\<^sup>* (v, e) (v', e') \<and> Q (Suc k) (v', e') \<and> in_loop vm reg tp v' \<and>
        instruction_ptr v' = m \<and> registers v' ! unat reg = registers v ! unat reg"
    and "Q 0 (vm, e)"
  shows "\<exists>v' e'. Q (unat n) (v', e') \<and> in_loop vm reg tp v' \<and> instruction_ptr v' = after \<and>
    registers v' ! unat reg = 0 \<and>
    execute_loop cb md kDown vm e = execute_loop cb md kDown v' e'"
proof -
  let ?v = "vm\<lparr>registers := (registers vm)[unat reg := ucast n],
      loop_tops := (loop_tops vm)[unat reg := tp], instruction_ptr := tp\<rparr>"
  from loop_start_step [OF assms(1-3,5), of cb md kDown e] obtain msgs where
    s: "vm_step cb md kDown (vm, e) (?v, command_log cb msgs e)" by blast
  have q: "Q 0 (?v, command_log cb msgs e)"
    using stable assms(9) unfolding loop_stable_def by blast
  have l: "in_loop vm reg tp ?v" using assms(1-3) by (simp add: in_loop_def)
  obtain j where j: "unat n = Suc j" using assms(4) by (metis gr0_implies_Suc unat_gt_0 word_neq_0_conv)
  have r: "registers ?v ! unat reg = of_nat (Suc j)"
    using assms(1,3) by (simp add: j [symmetric] del: of_nat_Suc)
  have le: "Suc j < 2 ^ 64" using unsigned_less [of n, where 'a = nat] by (simp add: j [symmetric])
  have "\<exists>v' e'. (vm_step cb md kDown)\<^sup>*\<^sup>* (?v, command_log cb msgs e) (v', e') \<and>
      Q (0 + Suc j) (v', e') \<and> in_loop vm reg tp v' \<and> instruction_ptr v' = after \<and>
      registers v' ! unat reg = 0"
    by (rule loop_rounds [OF assms(3,6) stable _ q l _ r le]) (rule body, assumption+, simp)
  then obtain v' e' where
    "(vm_step cb md kDown)\<^sup>*\<^sup>* (?v, command_log cb msgs e) (v', e')" "Q (unat n) (v', e')"
    "in_loop vm reg tp v'" "instruction_ptr v' = after" "registers v' ! unat reg = 0"
    unfolding j add_0 by blast
  with execute_loop_steps [OF converse_rtranclp_into_rtranclp [OF s this(1)]] show ?thesis by auto
qed

theorem counted_loop_witness:
  "\<exists>v'. registers v' ! 2 = 15 \<and> instruction_ptr v' = 5 \<and> registers v' ! 1 = 0 \<and>
     execute_loop no_callbacks no_metadata 0
       (ResetState (vm_with [0x30100000, 3, 0x78020000, 5, 0x31100000])) () =
     execute_loop no_callbacks no_metadata 0 v' ()"
proof -
  let ?vm = "ResetState (vm_with [0x30100000, 3, 0x78020000, 5, 0x31100000])"
  let ?plain = "\<lambda>op. \<lparr>begin_conditional_block = False, vm_opcode = op\<rparr>"
  let ?Q = "\<lambda>k (v, e :: unit). registers v ! 2 = 5 * of_nat k"
  have f: "fetch ?vm 0 = Some (?plain (ControlLoopOpcode True 1 3), 2)"
    "fetch ?vm 2 = Some (?plain (PerformArithmeticStaticOpcode 8 2 Addition 5), 4)"
    "fetch ?vm 4 = Some (?plain (ControlLoopOpcode False 1 0), 5)" by code_simp+
  have wf: "vm_wf ?vm" by (simp add: vm_wf_vm_with MaximumProgramOpcodeCount_def)
  have "loop_stable no_callbacks 1 ?Q" by (simp add: loop_stable_def)
  moreover have "\<exists>v' e'. (vm_step no_callbacks no_metadata 0)\<^sup>*\<^sup>* (v, e) (v', e') \<and> ?Q (Suc k) (v', e') \<and>
      in_loop ?vm 1 2 v' \<and> instruction_ptr v' = 4 \<and> registers v' ! unat (1 :: u32) = registers v ! unat (1 :: u32)"
    if q: "?Q k (v, e)" and l: "in_loop ?vm 1 2 v" and ip: "instruction_ptr v = 2" for k v e
  proof -
    let ?v = "v\<lparr>instruction_ptr := 4, registers := (registers v)[2 := 5 * of_nat k + 5]\<rparr>"
    have wfv: "vm_wf v" using l by (simp add: in_loop_def)
    have two: "unat (2 :: u32) < NumRegisters" "2 < NumRegisters" by (simp_all add: NumRegisters_def)
    have "DecodeNextOpcode v = Inr (Some (?plain (PerformArithmeticStaticOpcode 8 2 Addition 5)),
        v\<lparr>instruction_ptr := 4\<rparr>)"
      using l ip by (intro Decode_program [OF f(2)]) (auto simp: in_loop_def)
    then have "vm_step no_callbacks no_metadata 0 (v, e) (?v, ())"
      using q wfv two
      by (intro vm_stepI) (auto simp: exec_iteration_def exec_PerformArithmeticStatic_def apply_width_def Let_def)
    with l wfv two show ?thesis
      by (intro exI [of _ ?v] exI [of _ "()"]) (auto simp: in_loop_def)
  qed
  moreover have "?Q 0 (?vm, ())" by (simp add: ResetState_def NumRegisters_def)
  ultimately show ?thesis
    using counted_loop [OF wf _ _ _ _ f(3), of 3 2 no_callbacks ?Q no_metadata 0 "()"] f(1)
    by (fastforce simp: ResetState_def NumRegisters_def)
qed

end
