(* ===== verification/Cheat_Confinement.thy ===== *)
theory Cheat_Confinement
  imports Cheat_Engine Cheat_Loops
begin

text \<open>
  What a cheat can reach: the standard callbacks only touch the memory of the game, only through
  addresses of its declared regions, and leave everything else of the system as it was. The
  callbacks satisfy the laws of the locale \<open>vm_environment\<close> for that relation, so every run of the
  virtual machine does.
\<close>

section \<open>Specification\<close>

text \<open>Memory without pages cached by the rasterizer: no notification to the video core runs.\<close>

definition uncached :: "GuestMemory \<Rightarrow> bool" where
  "uncached m \<longleftrightarrow> address_space_bits (page_table m) < 64 \<and> (\<forall>page. plain_entry (entry_of m) page)"

text \<open>The host bytes within eight bytes of an address of the declared regions.\<close>

definition reachable_bytes :: "CheatProcessMetadata \<Rightarrow> GuestMemory \<Rightarrow> u64 set" where
  "reachable_bytes md m =
     {p. \<exists>a k. IsAddressInRange md a \<and> k < 8 \<and> translate m (of_nat (unat a + k)) = Some p}"

definition mem_confined :: "CheatProcessMetadata \<Rightarrow> GuestMemory \<Rightarrow> GuestMemory \<Rightarrow> bool" where
  "mem_confined md m m' \<longleftrightarrow>
     (uncached m \<longrightarrow> page_table m' = page_table m \<and> (\<forall>p. p \<notin> reachable_bytes md m \<longrightarrow> host m' p = host m p))"

text \<open>The cached pointer belongs to the cached identifier and to a process that exists.\<close>

definition cache_ok :: "World \<Rightarrow> bool" where
  "cache_ok w \<longleftrightarrow>
     (cached_process w \<noteq> None \<longrightarrow>
        cached_process w = Some (cached_process_id w) \<and> processes w (cached_process_id w) \<noteq> None)"

definition process_confined :: "CheatProcessMetadata \<Rightarrow> KProcess option \<Rightarrow> KProcess option \<Rightarrow> bool" where
  "process_confined md p p' \<longleftrightarrow>
     (case p of
        None \<Rightarrow> p' = None
      | Some q \<Rightarrow> (\<exists>q'. p' = Some q' \<and> mem_confined md (kp_memory q) (kp_memory q') \<and>
                     kp_terminating q' = kp_terminating q))"

definition world_confined :: "World \<Rightarrow> World \<Rightarrow> bool" where
  "world_confined w w' \<longleftrightarrow>
     (cache_ok w \<longrightarrow>
        cache_ok w' \<and> metadata w' = metadata w \<and>
        (\<forall>pid. pid \<noteq> process_id (metadata w) \<longrightarrow> processes w' pid = processes w pid) \<and>
        process_confined (metadata w) (processes w (process_id (metadata w)))
          (processes w' (process_id (metadata w))))"

text \<open>A game with the sample memory and an engine about to load a cheat that sets a register.\<close>

definition sample_world :: World where
  "sample_world =
     \<lparr>metadata = no_metadata, processes = [0 \<mapsto> \<lparr>kp_memory = sample_memory, kp_suspended = False, kp_terminating = False\<rparr>],
      cached_process = None, cached_process_id = 0, press_state = None, invalidated = [], debug_log = [],
      crashed = False\<rparr>"

section \<open>Memory\<close>

lemma mem_confined_refl [simp]: "mem_confined md m m"
  by (simp add: mem_confined_def)

lemma page_table_translate: "page_table m' = page_table m \<Longrightarrow> translate m' = translate m"
  by (rule ext) (simp add: translate_def entry_of_def)

lemma page_table_uncached: "page_table m' = page_table m \<Longrightarrow> uncached m' = uncached m"
  by (simp add: uncached_def entry_of_def plain_entry_def)

lemma mem_confined_trans: "mem_confined md a b \<Longrightarrow> mem_confined md b c \<Longrightarrow> mem_confined md a c"
  unfolding mem_confined_def
  using page_table_translate [of b a] page_table_uncached [of b a] by (auto simp: reachable_bytes_def)

lemma process_confined_refl [simp]: "process_confined md p p"
  by (cases p) (simp_all add: process_confined_def)

lemma process_confined_trans:
  "process_confined md a b \<Longrightarrow> process_confined md b c \<Longrightarrow> process_confined md a c"
  by (cases a; cases b) (auto simp: process_confined_def intro: mem_confined_trans)

lemma world_confined_refl: "world_confined w w"
  by (simp add: world_confined_def)

lemma world_confined_trans: "world_confined a b \<Longrightarrow> world_confined b c \<Longrightarrow> world_confined a c"
  unfolding world_confined_def by (auto intro: process_confined_trans)

lemma contains_bound:
  assumes "AddressSpaceContains m a sz" "address_space_bits (page_table m) < 64"
  shows "unat a + unat sz \<le> 2 ^ address_space_bits (page_table m)"
proof -
  have "unat (push_bit (address_space_bits (page_table m)) (1 :: u64)) = 2 ^ address_space_bits (page_table m)"
    using unat_of_nat [of "2 ^ address_space_bits (page_table m)", where 'a = 64]
      space_le [OF assms(2)] by (simp add: push_bit_eq_mult)
  moreover have "unat (a + sz) = unat a + unat sz"
    using assms(1) unfolding AddressSpaceContains_def by (metis unat_plus_simple)
  ultimately show ?thesis
    using assms(1) by (simp add: AddressSpaceContains_def word_le_nat_alt)
qed

lemma uncached_read:
  assumes "uncached m" "ReadBlock r a sz (m, buf) = Inr (ok, m', bs)"
  shows "m' = m"
proof (cases "AddressSpaceContains m a sz")
  case True
  have b: "address_space_bits (page_table m) < 64" "\<forall>page. plain_entry (entry_of m) page"
    using assms(1) by (auto simp: uncached_def)
  have le: "unat a + unat sz \<le> 2 ^ address_space_bits (page_table m)" using contains_bound [OF True b(1)] .
  with space_le [OF b(1)] have "unat a + unat sz \<le> 2 ^ 63" by linarith
  with reader.WalkBlock_E [of "unat a" a "(m, buf)" "unat sz" r False] b le assms(2) show ?thesis
    by (auto simp: ReadBlock_def ReadBlockImpl_def read_effect_def)
next
  case False
  with assms(2) show ?thesis by (auto simp: ReadBlock_def ReadBlockImpl_def WalkBlock_def read_walker_def)
qed

lemma uncached_write:
  assumes "uncached m" "length bs \<le> 8" "WriteBlock r a bs m = Inr (ok, m')"
  shows "m' = m \<or> m' = store_bytes m (unat a) bs"
proof (cases "AddressSpaceContains m a (of_nat (length bs))")
  case True
  have b: "address_space_bits (page_table m) < 64" "\<forall>page. plain_entry (entry_of m) page"
    using assms(1) by (auto simp: uncached_def)
  have "unat (of_nat (length bs) :: u64) = length bs" using assms(2) by (simp add: unat_of_nat)
  with contains_bound [OF True b(1)] b have "plain_block m (unat a) (length bs)"
    by (simp add: plain_block_def)
  from WriteBlock_plain [OF this, of r False] assms(3) show ?thesis by (simp add: WriteBlock_def)
next
  case False
  with assms(3) show ?thesis by (auto simp: WriteBlock_def WriteBlockImpl_def WalkBlock_def write_walker_def)
qed

lemma write_confined:
  assumes "IsAddressInRange md a" "length bs \<le> 8" "WriteBlock r a bs m = Inr (ok, m')"
  shows "mem_confined md m m'"
  unfolding mem_confined_def
proof
  assume u: "uncached m"
  from uncached_write [OF u assms(2,3)] show "page_table m' = page_table m \<and>
      (\<forall>p. p \<notin> reachable_bytes md m \<longrightarrow> host m' p = host m p)"
  proof
    assume m': "m' = store_bytes m (unat a) bs"
    have "host m' p = host m p" if "p \<notin> reachable_bytes md m" for p
      unfolding m' using that assms(1,2)
      by (intro store_bytes_frame) (auto simp: reachable_bytes_def simp del: of_nat_add)
    with m' show ?thesis by simp
  qed simp
qed

lemma read_confined: "ReadBlock r a sz (m, buf) = Inr (ok, m', bs) \<Longrightarrow> mem_confined md m m'"
  by (auto simp: mem_confined_def dest: uncached_read)

section \<open>The callbacks\<close>

lemma GetProcess_ok:
  assumes "cache_ok w" "GetProcess w = (p, w')"
  shows "cache_ok w'" "metadata w' = metadata w" "processes w' = processes w"
    "p = (if processes w (process_id (metadata w)) = None then None else Some (process_id (metadata w)))"
  using assms by (auto simp: GetProcess_def cache_ok_def Let_def split: if_splits)

lemma access_target_ok:
  assumes "cache_ok w" "access_target a w = (t, w')"
  shows "cache_ok w'" "metadata w' = metadata w" "processes w' = processes w"
    "t = Some pid \<Longrightarrow> pid = process_id (metadata w) \<and> processes w pid \<noteq> None \<and> IsAddressInRange (metadata w) a"
proof -
  obtain p w1 where g: "GetProcess w = (p, w1)" by (cases "GetProcess w")
  note ok = GetProcess_ok [OF assms(1) g]
  from assms(2) g have "w' = w1" by (auto simp: access_target_def split: option.splits)
  with ok show "cache_ok w'" "metadata w' = metadata w" "processes w' = processes w" by simp_all
  show "pid = process_id (metadata w) \<and> processes w pid \<noteq> None \<and> IsAddressInRange (metadata w) a"
    if "t = Some pid" using assms(2) g ok that by (auto simp: access_target_def split: option.splits if_splits)
qed

text \<open>Replacing the memory of the game by a confined one, and changing fields the relation does not mention.\<close>

lemma set_memory_confined:
  assumes "cache_ok w" "metadata w = metadata w0" "processes w = processes w0"
    "pid = process_id (metadata w0)" "processes w0 pid \<noteq> None" "mem_confined (metadata w0) (memory_of w pid) m"
  shows "world_confined w0 (set_memory pid m w)"
  using assms by (auto simp: world_confined_def set_memory_def cache_ok_def process_confined_def memory_of_def)

lemma world_confined_fields:
  "cache_ok w' \<Longrightarrow> metadata w' = metadata w \<Longrightarrow> processes w' = processes w \<Longrightarrow> world_confined w w'"
  by (simp add: world_confined_def)

lemma world_confined_upd:
  "world_confined w w' \<Longrightarrow> world_confined w (w'\<lparr>crashed := c\<rparr>)"
  "world_confined w w' \<Longrightarrow> world_confined w (w'\<lparr>invalidated := i\<rparr>)"
  "world_confined w w' \<Longrightarrow> world_confined w (w'\<lparr>press_state := s\<rparr>)"
  "world_confined w w' \<Longrightarrow> world_confined w (w'\<lparr>debug_log := l\<rparr>)"
  by (simp_all add: world_confined_def cache_ok_def)

lemma world_confinedI: "(cache_ok w \<Longrightarrow> world_confined w w') \<Longrightarrow> world_confined w w'"
  by (auto simp: world_confined_def)

lemma read_world:
  assumes "std_MemoryReadUnsafe r a n w = (bs, w')"
  shows "world_confined w w'"
proof (rule world_confinedI)
  assume c: "cache_ok w"
  obtain t w1 where t: "access_target a w = (t, w1)" by (cases "access_target a w")
  note ok = access_target_ok [OF c t]
  show "world_confined w w'"
  proof (cases t)
    case None
    with assms t ok show ?thesis by (auto simp: std_MemoryReadUnsafe_def intro: world_confined_fields)
  next
    case (Some pid)
    show ?thesis
    proof (cases "ReadBlock r a (of_nat n) (memory_of w1 pid, replicate n 0)")
      case (Inl f)
      with assms t Some ok show ?thesis
        by (auto simp: std_MemoryReadUnsafe_def intro: world_confined_fields world_confined_upd)
    next
      case (Inr x)
      obtain k m bs' where x: "x = (k, m, bs')" by (cases x)
      with Inr have "mem_confined (metadata w) (memory_of w1 pid) m" by (blast intro: read_confined)
      with ok(1-3) ok(4) [OF Some] have "world_confined w (set_memory pid m w1)"
        by (blast intro: set_memory_confined)
      with assms t Some Inr x show ?thesis by (simp add: std_MemoryReadUnsafe_def)
    qed
  qed
qed

lemma write_world:
  assumes "length bs \<le> 8"
  shows "world_confined w (std_MemoryWriteUnsafe r a bs w)"
proof (rule world_confinedI)
  assume c: "cache_ok w"
  obtain t w1 where t: "access_target a w = (t, w1)" by (cases "access_target a w")
  note ok = access_target_ok [OF c t]
  show "world_confined w (std_MemoryWriteUnsafe r a bs w)"
  proof (cases t)
    case None
    with t ok show ?thesis by (auto simp: std_MemoryWriteUnsafe_def intro: world_confined_fields)
  next
    case (Some pid)
    show ?thesis
    proof (cases "WriteBlock r a bs (memory_of w1 pid)")
      case (Inl f)
      with t Some ok show ?thesis
        by (auto simp: std_MemoryWriteUnsafe_def intro: world_confined_fields world_confined_upd)
    next
      case (Inr x)
      obtain k m where x: "x = (k, m)" by (cases x)
      with Inr ok(4) [OF Some] assms have "mem_confined (metadata w) (memory_of w1 pid) m"
        by (blast intro: write_confined)
      with ok(1-3) ok(4) [OF Some] have "world_confined w (set_memory pid m w1)"
        by (blast intro: set_memory_confined)
      with t Some Inr x show ?thesis
        by (auto simp: std_MemoryWriteUnsafe_def Let_def intro: world_confined_upd)
    qed
  qed
qed

lemma SetActivity_fields [simp]:
  "kp_memory (SetActivity b p) = kp_memory p" "kp_terminating (SetActivity b p) = kp_terminating p"
  by (simp_all add: SetActivity_def)

lemma activity_world: "world_confined w (std_PauseProcess w)" "world_confined w (std_ResumeProcess w)"
proof -
  obtain p w1 where g: "GetProcess w = (p, w1)" by (cases "GetProcess w")
  show "world_confined w (std_PauseProcess w)" "world_confined w (std_ResumeProcess w)"
    using GetProcess_ok [OF _ g] g
    by (auto simp: world_confined_def std_PauseProcess_def std_ResumeProcess_def cache_ok_def
        process_confined_def split: option.splits)
qed

interpretation std: vm_environment "StandardVmCallbacks r" world_confined for r
proof
  fix w w1 w2 :: World
  show "world_confined w w" by (rule world_confined_refl)
  show "world_confined w w1 \<Longrightarrow> world_confined w1 w2 \<Longrightarrow> world_confined w w2" by (rule world_confined_trans)
qed (auto simp: StandardVmCallbacks_def read_world write_world activity_world std_HidKeysDown_def std_DebugLog_def
    split: option.splits intro: world_confined_upd world_confined_refl)

section \<open>Properties\<close>

text \<open>
  C17. A cheat cannot leave the game: one call of the frame callback, whatever program is loaded,
  leaves the metadata and every other process as they were; in the memory of the game it changes
  no page table entry, and no byte that is not within eight bytes of an address of the declared
  regions (main module, heap, alias and code alias region), as long as no page of the game is
  cached by the rasterizer.
\<close>

theorem FrameCallback_confined:
  assumes "cache_ok w" "FrameCallback r (eng, w) = Some (Inr (eng', w'))"
    "processes w (process_id (metadata w)) = Some game" "uncached (kp_memory game)"
  shows "metadata w' = metadata w \<and>
    (\<forall>pid. pid \<noteq> process_id (metadata w) \<longrightarrow> processes w' pid = processes w pid) \<and>
    (\<exists>game'. processes w' (process_id (metadata w)) = Some game' \<and>
       page_table (kp_memory game') = page_table (kp_memory game) \<and>
       (\<forall>p. p \<notin> reachable_bytes (metadata w) (kp_memory game) \<longrightarrow>
          host (kp_memory game') p = host (kp_memory game) p))"
proof -
  from assms(2) consider "w' = w"
    | v v' where "Execute (StandardVmCallbacks r) (metadata w) v w = Some (Inr (v', w'))"
    by (auto simp: FrameCallback_def Let_def split: if_splits option.splits sum.splits prod.splits)
  then have "world_confined w w'" by cases (auto intro: world_confined_refl std.rel_Execute)
  with assms(1,3,4) show ?thesis by (auto simp: world_confined_def process_confined_def mem_confined_def)
qed

lemma command_log_std [simp]: "command_log (StandardVmCallbacks r) msgs w = w"
  by (induction msgs) (simp_all add: command_log_def StandardVmCallbacks_def)

lemma sample_run:
  assumes "press_state w = None"
  shows "\<exists>v'. Execute (StandardVmCallbacks r) md (vm_with [0x40000000, 0, 5]) w = Some (Inr (v', w)) \<and>
    registers v' ! 0 = 5"
proof -
  let ?vm = "ResetState (vm_with [0x40000000, 0, 5])"
  let ?v = "?vm\<lparr>instruction_ptr := 3, registers := (registers ?vm)[0 := 5]\<rparr>"
  have f: "fetch ?vm 0 = Some (\<lparr>begin_conditional_block = False, vm_opcode = LoadRegisterStaticOpcode 0 5\<rparr>, 3)"
    by code_simp
  have "DecodeNextOpcode ?vm = Inr (Some \<lparr>begin_conditional_block = False, vm_opcode = LoadRegisterStaticOpcode 0 5\<rparr>,
      ?vm\<lparr>instruction_ptr := 3\<rparr>)"
    by (rule Decode_program [OF f]) (simp_all add: ResetState_def)
  moreover have "exec_iteration (StandardVmCallbacks r) md 0
      \<lparr>begin_conditional_block = False, vm_opcode = LoadRegisterStaticOpcode 0 5\<rparr> (?vm\<lparr>instruction_ptr := 3\<rparr>) w = Inr (?v, w)"
    by (simp add: exec_iteration_def Let_def exec_LoadRegisterStatic_def set_reg_def)
      (simp add: ResetState_def NumRegisters_def)
  ultimately have "vm_step (StandardVmCallbacks r) md 0 (?vm, w) (?v, w)" by (rule vm_stepI)
  from execute_loop_step [OF this]
  have "execute_loop (StandardVmCallbacks r) md 0 ?vm w = execute_loop (StandardVmCallbacks r) md 0 ?v w" by simp
  moreover have "\<exists>v'. DecodeNextOpcode ?v = Inr (None, v') \<and> registers v' ! 0 = 5"
    by (simp add: DecodeNextOpcode_def GetNextDword_def ResetState_def vm_with_def NumRegisters_def)
  then have "\<exists>v'. execute_loop (StandardVmCallbacks r) md 0 ?v w = Some (Inr (v', w)) \<and> registers v' ! 0 = 5"
    by (auto simp: execute_loop.simps [of _ _ _ ?v])
  ultimately show ?thesis
    using assms by (simp add: Execute_def StandardVmCallbacks_def std_HidKeysDown_def)
      (simp add: StandardVmCallbacks_def [symmetric])
qed

theorem FrameCallback_confined_witness:
  "\<exists>eng' w'. FrameCallback idle_rasterizer
       (\<lparr>vm = vm_with [0x40000000, 0, 5], cheats = [], is_pending_reload = False, event_scheduled = True\<rparr>, sample_world) =
     Some (Inr (eng', w')) \<and> metadata w' = metadata sample_world \<and>
     (\<exists>game'. processes w' 0 = Some game' \<and> page_table (kp_memory game') = page_table sample_memory)"
proof -
  let ?eng = "\<lparr>vm = vm_with [0x40000000, 0, 5], cheats = [], is_pending_reload = False, event_scheduled = True\<rparr>"
  have "press_state sample_world = None" by (simp add: sample_world_def)
  from sample_run [OF this, of idle_rasterizer "metadata sample_world"] obtain v' where
    run: "Execute (StandardVmCallbacks idle_rasterizer) (metadata sample_world) (vm_with [0x40000000, 0, 5])
        sample_world = Some (Inr (v', sample_world))" by blast
  have n: "num_opcodes (vm_with [0x40000000, 0, 5]) \<noteq> 0" by (simp add: vm_with_def)
  have f: "FrameCallback idle_rasterizer (?eng, sample_world) = Some (Inr (?eng\<lparr>vm := v'\<rparr>, sample_world))"
    using run n by (simp add: FrameCallback_def)
  have "uncached sample_memory"
    by (auto simp: uncached_def plain_entry_def entry_of_def sample_memory_def) (simp_all add: raw_type_def)
  with FrameCallback_confined [OF _ f, of "\<lparr>kp_memory = sample_memory, kp_suspended = False, kp_terminating = False\<rparr>"] f
  show ?thesis by (auto simp: cache_ok_def sample_world_def no_metadata_def)
qed

text \<open>
  From a cheat file to the machine: when the cheats of a parsed file are pending, the frame
  callback loads the opcodes of the enabled ones in the order of the file, or nothing if they do
  not fit in 0x400 words, runs them without leaving an array, and has nothing pending afterwards.
\<close>

theorem FrameCallback_loads_parsed:
  assumes "Parse data = Inr entries" "vm_wf (vm eng)" "FrameCallback r (Reload entries eng, w) = Some res"
  shows "case res of
      Inl f \<Rightarrow> f \<noteq> IndexOutOfRange
    | Inr (eng', w') \<Rightarrow> \<not> is_pending_reload eng' \<and> cheats eng' = entries \<and> vm_wf (vm eng') \<and>
        loaded_program (vm eng') =
          (if length (enabled_program entries) \<le> MaximumProgramOpcodeCount then enabled_program entries else [])"
proof -
  have "\<forall>en \<in> set entries. entry_ok en"
    using Parse_ok [OF assms(1)] by (metis in_set_conv_nth)
  from LoadProgram_ok [OF assms(2) this] obtain v where
    v: "LoadProgram entries (vm eng) = Inr (length (enabled_program entries) \<le> MaximumProgramOpcodeCount, v)" "vm_wf v"
      "loaded_program v = (if length (enabled_program entries) \<le> MaximumProgramOpcodeCount
         then enabled_program entries else [])" by blast
  from assms(3) v(1) consider "num_opcodes v = 0" "res = Inr ((Reload entries eng)\<lparr>is_pending_reload := False, vm := v\<rparr>, w)"
    | f where "Execute (StandardVmCallbacks r) (metadata w) v w = Some (Inl f)" "res = Inl f"
    | v' w' where "Execute (StandardVmCallbacks r) (metadata w) v w = Some (Inr (v', w'))"
        "res = Inr ((Reload entries eng)\<lparr>is_pending_reload := False, vm := v'\<rparr>, w')"
    by (auto simp: FrameCallback_def Reload_def Let_def split: if_splits option.splits sum.splits)
  then show ?thesis
  proof cases
    case 1
    with v show ?thesis by (simp add: Reload_def)
  next
    case 2
    with Execute_keeps [OF v(2) 2(1)] show ?thesis by simp
  next
    case 3
    with Execute_keeps [OF v(2) 3(1)] v(3) show ?thesis by (simp add: Reload_def)
  qed
qed

theorem FrameCallback_loads_parsed_witness:
  "\<exists>entries eng' w'. Parse (render (''M'', [0x40000000, 0, 5]) [(''A'', [])]) = Inr entries \<and>
     FrameCallback idle_rasterizer (Reload entries
       \<lparr>vm = new_DmntCheatVm, cheats = [], is_pending_reload = False, event_scheduled = True\<rparr>, sample_world) =
       Some (Inr (eng', w')) \<and> \<not> is_pending_reload eng' \<and> loaded_program (vm eng') = [0x40000000, 0, 5] \<and>
     registers (vm eng') ! 0 = 5"
proof -
  let ?es = "map (\<lambda>(i, c). entry_of_cheat i c) (enumerate 0 [(''M'', [0x40000000, 0, 5]), (''A'', [])])"
  let ?eng = "\<lparr>vm = new_DmntCheatVm, cheats = [], is_pending_reload = False, event_scheduled = True\<rparr>"
  have p: "Parse (render (''M'', [0x40000000, 0, 5]) [(''A'', [])]) = Inr ?es"
    by (rule Parse_rendered) (simp_all add: printable_def)
  have wf: "vm_wf (vm ?eng)" unfolding vm_wf_def by (simp add: new_DmntCheatVm_def)
  have e: "enabled_program ?es = [0x40000000, 0, 5]"
    by (simp add: entry_of_cheat_def enabled_program_def entry_program_def enumerate_Suc_eq)
  have ld: "LoadProgram ?es new_DmntCheatVm = Inr (True, vm_with [0x40000000, 0, 5])"
    by code_simp
  have n: "num_opcodes (vm_with [0x40000000, 0, 5]) \<noteq> 0" by (simp add: vm_with_def)
  have "press_state sample_world = None" by (simp add: sample_world_def)
  from sample_run [OF this, of idle_rasterizer "metadata sample_world"] obtain v' where
    run: "Execute (StandardVmCallbacks idle_rasterizer) (metadata sample_world) (vm_with [0x40000000, 0, 5])
        sample_world = Some (Inr (v', sample_world))" "registers v' ! 0 = 5" by blast
  have f: "FrameCallback idle_rasterizer (Reload ?es ?eng, sample_world) =
      Some (Inr ((Reload ?es ?eng)\<lparr>is_pending_reload := False, vm := v'\<rparr>, sample_world))"
    using run n ld by (simp add: FrameCallback_def Reload_def del: enumerate_simps)
  from FrameCallback_loads_parsed [OF p wf f] p f e run(2) show ?thesis
    by (auto simp: MaximumProgramOpcodeCount_def simp del: enumerate_simps)
qed

end
