(* ===== verification/Kernel_Objects.thy ===== *)
theory Kernel_Objects
  imports Lemon_Prelude
begin

text \<open>
  The reference-counted kernel objects of \<^verbatim>\<open>core/hle/kernel/k_auto_object.h\<close>, their class
  tokens (\<^verbatim>\<open>k_class_token.h\<close>) and the registries of \<^verbatim>\<open>kernel.cpp\<close> the object life cycle touches.
  A pointer to an object is a number, the heap of live objects a map from numbers; touching an
  object that is not there is the fault \<open>DanglingObject\<close>. The virtual method
  \<^verbatim>\<open>Destroy\<close> is dispatched to the object's class and appears as the parameter \<open>Destroy\<close> of \<open>Close\<close>.

  A failed \<^verbatim>\<open>ASSERT\<close> logs and goes on, unless the setting \<^verbatim>\<open>use_debug_asserts\<close> turns it into a
  break: both behaviours are in the model, the second as the fault \<open>AssertFailed\<close>.
\<close>

section \<open>Class tokens\<close>

datatype ObjectType =
  KAutoObject | KSynchronizationObject | KReadableEvent
| KInterruptEvent | KDebug | KThread | KServerPort | KServerSession | KClientPort
| KClientSession | KProcess | KResourceLimit | KLightSession | KPort | KSession
| KSharedMemory | KEvent | KLightClientSession | KLightServerSession | KTransferMemory
| KDeviceAddressSpace | KSessionRequest | KCodeMemory | KSystemResource | KAlpha | KBeta

text \<open>The enumerators in the order of the source; \<^verbatim>\<open>BaseClassesStart\<close> is 1 and
  \<^verbatim>\<open>FinalClassesStart\<close> is 3.\<close>

fun object_number :: "ObjectType \<Rightarrow> nat" where
  "object_number KAutoObject = 0"
| "object_number KSynchronizationObject = 1"
| "object_number KReadableEvent = 2"
| "object_number KInterruptEvent = 3"
| "object_number KDebug = 4"
| "object_number KThread = 5"
| "object_number KServerPort = 6"
| "object_number KServerSession = 7"
| "object_number KClientPort = 8"
| "object_number KClientSession = 9"
| "object_number KProcess = 10"
| "object_number KResourceLimit = 11"
| "object_number KLightSession = 12"
| "object_number KPort = 13"
| "object_number KSession = 14"
| "object_number KSharedMemory = 15"
| "object_number KEvent = 16"
| "object_number KLightClientSession = 17"
| "object_number KLightServerSession = 18"
| "object_number KTransferMemory = 19"
| "object_number KDeviceAddressSpace = 20"
| "object_number KSessionRequest = 21"
| "object_number KCodeMemory = 22"
| "object_number KSystemResource = 23"
| "object_number KAlpha = 24"
| "object_number KBeta = 25"

definition BaseClassesStart :: nat where
  "BaseClassesStart = 1"

definition BaseClassesEnd :: nat where
  "BaseClassesEnd = 3"

definition FinalClassesStart :: nat where
  "FinalClassesStart = 3"

definition BaseClassBits :: nat where
  "BaseClassBits = 8"

definition FinalClassBits :: nat where
  "FinalClassBits = 8"

text \<open>The second argument of \<^verbatim>\<open>KERNEL_AUTOOBJECT_TRAITS(CLASS, BASE_CLASS)\<close> in each class;
  \<open>None\<close> for the root and for the three enumerators that no class uses.\<close>

fun BaseClass :: "ObjectType \<Rightarrow> ObjectType option" where
  "BaseClass KAutoObject = None"
| "BaseClass KInterruptEvent = None"
| "BaseClass KAlpha = None"
| "BaseClass KBeta = None"
| "BaseClass KReadableEvent = Some KSynchronizationObject"
| "BaseClass KThread = Some KSynchronizationObject"
| "BaseClass KServerPort = Some KSynchronizationObject"
| "BaseClass KServerSession = Some KSynchronizationObject"
| "BaseClass KClientPort = Some KSynchronizationObject"
| "BaseClass KProcess = Some KSynchronizationObject"
| "BaseClass _ = Some KAutoObject"

definition BaseClassToken :: "nat \<Rightarrow> u16" where
  "BaseClassToken Index = push_bit Index 1"

text \<open>The three nested loops enumerate the bit triples of the final classes.\<close>

definition final_triples :: "u16 list" where
  "final_triples =
    concat (map (\<lambda>i. concat (map (\<lambda>j. map (\<lambda>k.
        push_bit BaseClassBits (push_bit i 1 OR push_bit j 1 OR push_bit k 1))
      [j + 1..<FinalClassBits]) [i + 1..<FinalClassBits])) [0..<FinalClassBits])"

definition FinalClassToken :: "nat \<Rightarrow> u16" where
  "FinalClassToken Index = final_triples ! Index"

definition own_token :: "ObjectType \<Rightarrow> u16" where
  "own_token T =
    (if BaseClassesStart \<le> object_number T \<and> object_number T < BaseClassesEnd
     then BaseClassToken (object_number T - BaseClassesStart)
     else FinalClassToken (object_number T - FinalClassesStart))"

lemma BaseClass_number: "BaseClass T = Some B \<Longrightarrow> object_number B < object_number T"
  by (cases T) auto

function GetClassToken :: "ObjectType \<Rightarrow> u16" where
  "GetClassToken T = (case BaseClass T of None \<Rightarrow> 0 | Some B \<Rightarrow> own_token T OR GetClassToken B)"
  by auto
termination
  by (relation "measure object_number") (auto dest: BaseClass_number)

text \<open>The language's \<^verbatim>\<open>std::derived_from\<close> on these classes.\<close>

function derived_from :: "ObjectType \<Rightarrow> ObjectType \<Rightarrow> bool" where
  "derived_from T U \<longleftrightarrow> T = U \<or> (case BaseClass T of None \<Rightarrow> False | Some B \<Rightarrow> derived_from B U)"
  by auto
termination
  by (relation "measure (\<lambda>(T, U). object_number T)") (auto dest: BaseClass_number)

declare GetClassToken.simps [simp del] derived_from.simps [simp del]

definition IsClassTokenDerivedFrom :: "u16 \<Rightarrow> u16 \<Rightarrow> bool" where
  "IsClassTokenDerivedFrom self base \<longleftrightarrow> self OR base = self"

section \<open>Objects, the kernel and the life cycle\<close>

datatype kernel_fault = KIndexOutOfRange | AssertFailed | DanglingObject | SignedOverflow

datatype KResult =
  ResultOutOfMemory | ResultOutOfHandles | ResultInvalidHandle | ResultInvalidState
| ResultInvalidEnumValue | ResultOutOfResource | ResultOutOfRange | ResultNotImplemented

definition ASSERT :: "bool \<Rightarrow> bool \<Rightarrow> kernel_fault + unit" where
  "ASSERT use_debug_asserts cond = (if cond \<or> \<not> use_debug_asserts then Inr () else Inl AssertFailed)"

type_synonym kobject = nat

record auto_object =
  m_ref_count :: u32
  m_class_token :: u16

record Kernel =
  use_debug_asserts :: bool
  live_objects :: "kobject \<rightharpoonup> auto_object"
  registered_objects :: "kobject set"
  registered_in_use_objects :: "kobject set"

type_synonym destructor = "kobject \<Rightarrow> Kernel \<Rightarrow> Kernel"

definition get_object :: "Kernel \<Rightarrow> kobject \<Rightarrow> kernel_fault + auto_object" where
  "get_object k ob = (case live_objects k ob of None \<Rightarrow> Inl DanglingObject | Some a \<Rightarrow> Inr a)"

definition set_ref_count :: "kobject \<Rightarrow> auto_object \<Rightarrow> u32 \<Rightarrow> Kernel \<Rightarrow> Kernel" where
  "set_ref_count ob a n k =
    k\<lparr>live_objects := (live_objects k)(ob \<mapsto> a\<lparr>m_ref_count := n\<rparr>)\<rparr>"

definition RegisterKernelObject :: "kobject \<Rightarrow> Kernel \<Rightarrow> Kernel" where
  "RegisterKernelObject ob k = k\<lparr>registered_objects := insert ob (registered_objects k)\<rparr>"

definition UnregisterKernelObject :: "kobject \<Rightarrow> Kernel \<Rightarrow> Kernel" where
  "UnregisterKernelObject ob k = k\<lparr>registered_objects := registered_objects k - {ob}\<rparr>"

definition RegisterInUseObject :: "kobject \<Rightarrow> Kernel \<Rightarrow> Kernel" where
  "RegisterInUseObject ob k =
    k\<lparr>registered_in_use_objects := insert ob (registered_in_use_objects k)\<rparr>"

definition UnregisterInUseObject :: "kobject \<Rightarrow> Kernel \<Rightarrow> Kernel" where
  "UnregisterInUseObject ob k =
    k\<lparr>registered_in_use_objects := registered_in_use_objects k - {ob}\<rparr>"

text \<open>The constructor (whose count and token are overwritten by the static \<^verbatim>\<open>Create\<close>) registers
  the object.\<close>

definition new_KAutoObject :: "kobject \<Rightarrow> Kernel \<Rightarrow> Kernel" where
  "new_KAutoObject ob k =
    RegisterKernelObject ob
      (k\<lparr>live_objects := (live_objects k)(ob \<mapsto>
        \<lparr>m_ref_count = 0, m_class_token = GetClassToken KAutoObject\<rparr>)\<rparr>)"

definition Create :: "ObjectType \<Rightarrow> kobject \<Rightarrow> Kernel \<Rightarrow> kernel_fault + Kernel" where
  "Create T ob k = bindF (get_object k ob) (\<lambda>a.
    Inr (k\<lparr>live_objects := (live_objects k)(ob \<mapsto>
      a\<lparr>m_ref_count := 1, m_class_token := GetClassToken T\<rparr>)\<rparr>))"

definition IsDerivedFrom :: "auto_object \<Rightarrow> ObjectType \<Rightarrow> bool" where
  "IsDerivedFrom a T = IsClassTokenDerivedFrom (m_class_token a) (GetClassToken T)"

definition DynamicCast :: "ObjectType \<Rightarrow> Kernel \<Rightarrow> kobject \<Rightarrow> kernel_fault + kobject option" where
  "DynamicCast T k ob = bindF (get_object k ob) (\<lambda>a.
    Inr (if IsDerivedFrom a T then Some ob else None))"

text \<open>The compare-and-swap loops of \<^verbatim>\<open>Open\<close> and \<^verbatim>\<open>Close\<close> make each update atomic.\<close>

definition Open :: "Kernel \<Rightarrow> kobject \<Rightarrow> kernel_fault + bool \<times> Kernel" where
  "Open k ob = bindF (get_object k ob) (\<lambda>a.
    let cur_ref_count = m_ref_count a in
    if cur_ref_count = 0 then Inr (False, k)
    else bindF (ASSERT (use_debug_asserts k) (cur_ref_count < cur_ref_count + 1)) (\<lambda>_.
      Inr (True, set_ref_count ob a (cur_ref_count + 1) k)))"

definition Close :: "destructor \<Rightarrow> Kernel \<Rightarrow> kobject \<Rightarrow> kernel_fault + Kernel" where
  "Close Destroy k ob = bindF (get_object k ob) (\<lambda>a.
    let cur_ref_count = m_ref_count a in
    if cur_ref_count = 0 then Inr k
    else bindF (ASSERT (use_debug_asserts k) (cur_ref_count > 0)) (\<lambda>_.
      let k = set_ref_count ob a (cur_ref_count - 1) k in
      if cur_ref_count = 1 then Inr (UnregisterKernelObject ob (Destroy ob k))
      else Inr k))"

text \<open>\<^verbatim>\<open>KScopedAutoObject\<close>: the constructor opens the object it is given and ignores whether that
  worked; the destructor closes it.\<close>

definition scoped_object :: "Kernel \<Rightarrow> kobject option \<Rightarrow> kernel_fault + kobject option \<times> Kernel" where
  "scoped_object k m_obj = (case m_obj of
      None \<Rightarrow> Inr (None, k)
    | Some ob \<Rightarrow> bindF (Open k ob) (\<lambda>(_, k). Inr (Some ob, k)))"

definition drop_scoped :: "destructor \<Rightarrow> Kernel \<Rightarrow> kobject option \<Rightarrow> kernel_fault + Kernel" where
  "drop_scoped Destroy k m_obj = (case m_obj of None \<Rightarrow> Inr k | Some ob \<Rightarrow> Close Destroy k ob)"

section \<open>Laws of the life cycle\<close>

lemma ASSERT_simps [simp]:
  "ASSERT d True = Inr ()"
  "c \<Longrightarrow> ASSERT d c = Inr ()"
  "ASSERT False c = Inr ()"
  by (simp_all add: ASSERT_def)

lemma ASSERT_eq_Inr: "ASSERT d c = Inr u \<longleftrightarrow> c \<or> \<not> d"
  by (simp add: ASSERT_def)

definition ref_count :: "Kernel \<Rightarrow> kobject \<Rightarrow> nat" where
  "ref_count k ob = (case live_objects k ob of None \<Rightarrow> 0 | Some a \<Rightarrow> unat (m_ref_count a))"

lemma set_ref_count_select [simp]:
  "live_objects (set_ref_count ob a n k) = (live_objects k)(ob \<mapsto> a\<lparr>m_ref_count := n\<rparr>)"
  "use_debug_asserts (set_ref_count ob a n k) = use_debug_asserts k"
  "registered_objects (set_ref_count ob a n k) = registered_objects k"
  "registered_in_use_objects (set_ref_count ob a n k) = registered_in_use_objects k"
  by (simp_all add: set_ref_count_def)

lemma word_plus_one_gt: "unat (w :: u32) + 1 < 2 ^ 32 \<Longrightarrow> w < w + 1"
  by (simp add: word_less_nat_alt unat_word_ariths)

text \<open>An object that is alive and not about to overflow its count can be opened; closing it
  again gives back the kernel as it was.\<close>

lemma Open_live:
  assumes "live_objects k ob = Some a" and "0 < m_ref_count a" and "unat (m_ref_count a) + 1 < 2 ^ 32"
  shows "Open k ob = Inr (True, set_ref_count ob a (m_ref_count a + 1) k)"
  using assms word_plus_one_gt [OF assms(3)] by (simp add: Open_def get_object_def Let_def)

lemma Close_many:
  assumes "live_objects k ob = Some a" and "1 < m_ref_count a"
  shows "Close D k ob = Inr (set_ref_count ob a (m_ref_count a - 1) k)"
proof -
  have "0 < m_ref_count a" using assms(2) by (simp add: word_less_nat_alt)
  then show ?thesis using assms by (auto simp: Close_def get_object_def Let_def)
qed

lemma set_ref_count_twice:
  "set_ref_count ob (a\<lparr>m_ref_count := m\<rparr>) n (set_ref_count ob a' m' k) = set_ref_count ob a n k"
  by (simp add: set_ref_count_def)

lemma set_ref_count_same:
  "live_objects k ob = Some a \<Longrightarrow> set_ref_count ob a (m_ref_count a) k = k"
  by (simp add: set_ref_count_def map_upd_triv)

text \<open>A live object's static type, when its token is one the generator gave out.\<close>

definition is_class :: "ObjectType \<Rightarrow> bool" where
  "is_class T \<longleftrightarrow> T = KAutoObject \<or> BaseClass T \<noteq> None"

definition all_classes :: "ObjectType list" where
  "all_classes = [KAutoObject, KSynchronizationObject, KReadableEvent, KDebug, KThread, KServerPort,
    KServerSession, KClientPort, KClientSession, KProcess, KResourceLimit, KLightSession, KPort,
    KSession, KSharedMemory, KEvent, KLightClientSession, KLightServerSession, KTransferMemory,
    KDeviceAddressSpace, KSessionRequest, KCodeMemory, KSystemResource]"

lemma is_class_all: "is_class T \<longleftrightarrow> T \<in> set all_classes"
  by (cases T) (simp_all add: is_class_def all_classes_def)

definition tokens_decide :: bool where
  "tokens_decide \<longleftrightarrow> list_all (\<lambda>T. list_all (\<lambda>U.
      IsClassTokenDerivedFrom (GetClassToken T) (GetClassToken U) = derived_from T U) all_classes)
    all_classes"

lemma final_triples_values:
  "final_triples = [
    0x700, 0xB00, 0x1300, 0x2300, 0x4300, 0x8300, 0xD00, 0x1500, 0x2500, 0x4500, 0x8500,
    0x1900, 0x2900, 0x4900, 0x8900, 0x3100, 0x5100, 0x9100, 0x6100, 0xA100, 0xC100,
    0xE00, 0x1600, 0x2600, 0x4600, 0x8600, 0x1A00, 0x2A00, 0x4A00, 0x8A00, 0x3200,
    0x5200, 0x9200, 0x6200, 0xA200, 0xC200, 0x1C00, 0x2C00, 0x4C00, 0x8C00, 0x3400,
    0x5400, 0x9400, 0x6400, 0xA400, 0xC400, 0x3800, 0x5800, 0x9800, 0x6800, 0xA800,
    0xC800, 0x7000, 0xB000, 0xD000, 0xE000]"
  by (simp add: final_triples_def BaseClassBits_def FinalClassBits_def upt_rec push_bit_eq_mult)

text \<open>The tokens that the \<^verbatim>\<open>static_assert\<close>s of \<^verbatim>\<open>k_class_token.cpp\<close> list, for every class.\<close>

lemma GetClassToken_values:
  "GetClassToken KAutoObject = 0x0000"
  "GetClassToken KSynchronizationObject = 0x0001"
  "GetClassToken KReadableEvent = 0x0003"
  "GetClassToken KDebug = 0x0B00"
  "GetClassToken KThread = 0x1301"
  "GetClassToken KServerPort = 0x2301"
  "GetClassToken KServerSession = 0x4301"
  "GetClassToken KClientPort = 0x8301"
  "GetClassToken KClientSession = 0x0D00"
  "GetClassToken KProcess = 0x1501"
  "GetClassToken KResourceLimit = 0x2500"
  "GetClassToken KLightSession = 0x4500"
  "GetClassToken KPort = 0x8500"
  "GetClassToken KSession = 0x1900"
  "GetClassToken KSharedMemory = 0x2900"
  "GetClassToken KEvent = 0x4900"
  "GetClassToken KLightClientSession = 0x8900"
  "GetClassToken KLightServerSession = 0x3100"
  "GetClassToken KTransferMemory = 0x5100"
  "GetClassToken KDeviceAddressSpace = 0x9100"
  "GetClassToken KSessionRequest = 0x6100"
  "GetClassToken KCodeMemory = 0xA100"
  "GetClassToken KSystemResource = 0xC100"
  by (simp_all add: GetClassToken.simps own_token_def FinalClassToken_def final_triples_values
    BaseClassToken_def BaseClassesStart_def BaseClassesEnd_def FinalClassesStart_def)

lemma tokens_decide_holds: tokens_decide
  by (simp add: tokens_decide_def all_classes_def GetClassToken_values IsClassTokenDerivedFrom_def
    derived_from.simps)

lemma token_derived_from:
  "is_class T \<Longrightarrow> is_class U \<Longrightarrow>
    IsClassTokenDerivedFrom (GetClassToken T) (GetClassToken U) \<longleftrightarrow> derived_from T U"
  using tokens_decide_holds by (auto simp: tokens_decide_def list_all_iff is_class_all)

end
