(* ===== verification/Handle_Table.thy ===== *)
theory Handle_Table
  imports Kernel_Objects
begin

text \<open>
  The handle table of a process (\<^verbatim>\<open>core/hle/kernel/k_handle_table.h\<close> and \<^verbatim>\<open>.cpp\<close>): two arrays of
  1024 entries, a free list threaded through the entry infos of the free slots, and a serial
  (linear id) that is stored in an entry when it is used and is part of the handle. The union
  \<^verbatim>\<open>EntryInfo\<close> is one 16-bit word read as \<^verbatim>\<open>u16\<close> (the linear id) or as \<^verbatim>\<open>s16\<close> (the next free
  index). Every operation is one critical section of the table's spin lock; the closing of an
  object in \<open>Remove\<close> and \<open>Finalize\<close> follows it. Array accesses outside the arrays are faults.
\<close>

section \<open>Bit fields and handles\<close>

type_synonym Handle = u32

definition bit_field_mask :: "nat \<Rightarrow> nat \<Rightarrow> u32" where
  "bit_field_mask position bits = push_bit position (mask bits)"

definition FormatValue :: "nat \<Rightarrow> nat \<Rightarrow> u32 \<Rightarrow> u32" where
  "FormatValue position bits v = push_bit position v AND bit_field_mask position bits"

definition ExtractValue :: "nat \<Rightarrow> nat \<Rightarrow> u32 \<Rightarrow> u32" where
  "ExtractValue position bits storage = drop_bit position (storage AND bit_field_mask position bits)"

definition Assign :: "nat \<Rightarrow> nat \<Rightarrow> u32 \<Rightarrow> u32 \<Rightarrow> u32" where
  "Assign position bits v storage =
    (storage AND NOT (bit_field_mask position bits)) OR FormatValue position bits v"

definition pack_index :: "Handle \<Rightarrow> u32" where
  "pack_index raw = ExtractValue 0 15 raw"

definition pack_linear_id :: "Handle \<Rightarrow> u32" where
  "pack_linear_id raw = ExtractValue 15 15 raw"

definition pack_reserved :: "Handle \<Rightarrow> u32" where
  "pack_reserved raw = ExtractValue 30 2 raw"

definition EncodeHandle :: "u16 \<Rightarrow> u16 \<Rightarrow> Handle" where
  "EncodeHandle index linear_id =
    Assign 30 2 0 (Assign 15 15 (ucast linear_id) (Assign 0 15 (ucast index) 0))"

definition CurrentThread :: Handle where
  "CurrentThread = 0xFFFF8000"

definition CurrentProcess :: Handle where
  "CurrentProcess = 0xFFFF8001"

definition IsPseudoHandle :: "Handle \<Rightarrow> bool" where
  "IsPseudoHandle handle \<longleftrightarrow> handle = CurrentProcess \<or> handle = CurrentThread"

section \<open>The table\<close>

definition MaxTableSize :: nat where
  "MaxTableSize = 1024"

definition MinLinearId :: u16 where
  "MinLinearId = 1"

definition MaxLinearId :: u16 where
  "MaxLinearId = 0x7FFF"

record KHandleTable =
  m_entry_infos :: "u16 list"
  m_objects :: "kobject option list"
  m_free_head_index :: int
  m_table_size :: u16
  m_max_count :: u16
  m_next_linear_id :: u16
  m_count :: u16

definition new_KHandleTable :: KHandleTable where
  "new_KHandleTable = \<lparr>m_entry_infos = replicate MaxTableSize 0,
    m_objects = replicate MaxTableSize None, m_free_head_index = 0, m_table_size = 0,
    m_max_count = 0, m_next_linear_id = 0, m_count = 0\<rparr>"

definition GetNextFreeIndex :: "u16 \<Rightarrow> int" where
  "GetNextFreeIndex info = sint info"

text \<open>The index of an array access as the source computes it: negative indices are outside.\<close>

definition info_get :: "KHandleTable \<Rightarrow> int \<Rightarrow> kernel_fault + u16" where
  "info_get t i = (if i < 0 then Inl KIndexOutOfRange
    else arr_get KIndexOutOfRange (m_entry_infos t) (nat i))"

definition info_set :: "KHandleTable \<Rightarrow> int \<Rightarrow> u16 \<Rightarrow> kernel_fault + KHandleTable" where
  "info_set t i w = (if i < 0 then Inl KIndexOutOfRange
    else bindF (arr_set KIndexOutOfRange (m_entry_infos t) (nat i) w) (\<lambda>xs.
      Inr (t\<lparr>m_entry_infos := xs\<rparr>)))"

definition obj_get :: "KHandleTable \<Rightarrow> int \<Rightarrow> kernel_fault + kobject option" where
  "obj_get t i = (if i < 0 then Inl KIndexOutOfRange
    else arr_get KIndexOutOfRange (m_objects t) (nat i))"

definition obj_set :: "KHandleTable \<Rightarrow> int \<Rightarrow> kobject option \<Rightarrow> kernel_fault + KHandleTable" where
  "obj_set t i v = (if i < 0 then Inl KIndexOutOfRange
    else bindF (arr_set KIndexOutOfRange (m_objects t) (nat i) v) (\<lambda>xs.
      Inr (t\<lparr>m_objects := xs\<rparr>)))"

text \<open>The loop of \<^verbatim>\<open>Initialize\<close> over the entries \<open>i, i + 1, \<dots>\<close>, \<open>n\<close> of them.\<close>

fun init_entries :: "nat \<Rightarrow> int \<Rightarrow> KHandleTable \<Rightarrow> kernel_fault + KHandleTable" where
  "init_entries 0 i t = Inr t"
| "init_entries (Suc n) i t = bindF (obj_set t i None) (\<lambda>t.
    bindF (info_set t i (word_of_int (i - 1))) (\<lambda>t.
    init_entries n (i + 1) (t\<lparr>m_free_head_index := i\<rparr>)))"

definition Initialize :: "KHandleTable \<Rightarrow> int \<Rightarrow> kernel_fault + (KResult + unit) \<times> KHandleTable" where
  "Initialize t sz =
    (if sz \<le> int MaxTableSize then
       let table_size = word_of_int (if sz \<le> 0 then int MaxTableSize else sz);
           t = t\<lparr>m_max_count := 0, m_table_size := table_size, m_next_linear_id := MinLinearId,
                 m_count := 0, m_free_head_index := -1\<rparr>
       in bindF (init_entries (unat table_size) 0 t) (\<lambda>t. Inr (Inr (), t))
     else Inr (Inl ResultOutOfMemory, t))"

definition AllocateEntry :: "bool \<Rightarrow> KHandleTable \<Rightarrow> kernel_fault + int \<times> KHandleTable" where
  "AllocateEntry dbg t = bindF (ASSERT dbg (m_count t < m_table_size t)) (\<lambda>_.
    let index = m_free_head_index t in
    bindF (info_get t index) (\<lambda>info.
      let count = m_count t + 1 in
      Inr (index, t\<lparr>m_free_head_index := GetNextFreeIndex info, m_count := count,
                    m_max_count := max (m_max_count t) count\<rparr>)))"

definition FreeEntry :: "bool \<Rightarrow> KHandleTable \<Rightarrow> int \<Rightarrow> kernel_fault + KHandleTable" where
  "FreeEntry dbg t index = bindF (ASSERT dbg (m_count t > 0)) (\<lambda>_.
    bindF (obj_set t index None) (\<lambda>t.
    bindF (info_set t index (word_of_int (m_free_head_index t))) (\<lambda>t.
    Inr (t\<lparr>m_free_head_index := index, m_count := m_count t - 1\<rparr>))))"

definition AllocateLinearId :: "KHandleTable \<Rightarrow> u16 \<times> KHandleTable" where
  "AllocateLinearId t =
    (let nid = m_next_linear_id t; next = nid + 1 in
     (nid, t\<lparr>m_next_linear_id := (if next > MaxLinearId then MinLinearId else next)\<rparr>))"

definition IsValidHandle :: "bool \<Rightarrow> KHandleTable \<Rightarrow> Handle \<Rightarrow> kernel_fault + bool" where
  "IsValidHandle dbg t handle =
    (let index = uint (pack_index handle); linear_id = pack_linear_id handle in
     bindF (ASSERT dbg (pack_reserved handle = 0)) (\<lambda>_.
     if handle = 0 then Inr False
     else if linear_id = 0 then Inr False
     else if index \<ge> uint (m_table_size t) then Inr False
     else bindF (obj_get t index) (\<lambda>ob.
       if ob = None then Inr False
       else bindF (info_get t index) (\<lambda>info. Inr (ucast info = linear_id)))))"

definition GetObjectImpl :: "bool \<Rightarrow> KHandleTable \<Rightarrow> Handle \<Rightarrow> kernel_fault + kobject option" where
  "GetObjectImpl dbg t handle =
    (if pack_reserved handle \<noteq> 0 then Inr None
     else bindF (IsValidHandle dbg t handle) (\<lambda>valid.
       if valid then obj_get t (uint (pack_index handle)) else Inr None))"

definition GetObjectByIndexImpl :: "KHandleTable \<Rightarrow> nat \<Rightarrow> kernel_fault + (Handle \<times> kobject) option" where
  "GetObjectByIndexImpl t index =
    (if index \<ge> unat (m_table_size t) then Inr None
     else bindF (obj_get t (int index)) (\<lambda>ob. case ob of
         None \<Rightarrow> Inr None
       | Some ob \<Rightarrow> bindF (info_get t (int index)) (\<lambda>info.
           Inr (Some (EncodeHandle (of_nat index) info, ob)))))"

fun for_each_from :: "KHandleTable \<Rightarrow> nat \<Rightarrow> nat \<Rightarrow> kernel_fault + (nat \<times> u32 \<times> kobject) list" where
  "for_each_from t 0 i = Inr []"
| "for_each_from t (Suc n) i = bindF (obj_get t (int i)) (\<lambda>ob. case ob of
      None \<Rightarrow> for_each_from t n (i + 1)
    | Some ob \<Rightarrow> bindF (info_get t (int i)) (\<lambda>info.
        bindF (for_each_from t n (i + 1)) (\<lambda>rest. Inr ((i, ucast info, ob) # rest))))"

text \<open>The calls \<^verbatim>\<open>f(index, linear_id, object)\<close> that \<^verbatim>\<open>ForEachEntry\<close> makes, in order.\<close>

definition ForEachEntry :: "KHandleTable \<Rightarrow> kernel_fault + (nat \<times> u32 \<times> kobject) list" where
  "ForEachEntry t = for_each_from t (unat (m_table_size t)) 0"

section \<open>Operations\<close>

fun close_entries ::
  "destructor \<Rightarrow> KHandleTable \<Rightarrow> nat \<Rightarrow> nat \<Rightarrow> Kernel \<Rightarrow> kernel_fault + Kernel" where
  "close_entries D t 0 i k = Inr k"
| "close_entries D t (Suc n) i k = bindF (obj_get t (int i)) (\<lambda>ob. case ob of
      None \<Rightarrow> close_entries D t n (i + 1) k
    | Some ob \<Rightarrow> bindF (Close D k ob) (\<lambda>k. close_entries D t n (i + 1) k))"

definition Finalize :: "destructor \<Rightarrow> Kernel \<Rightarrow> KHandleTable \<Rightarrow> kernel_fault + Kernel \<times> KHandleTable" where
  "Finalize D k t =
    (let saved_table_size = m_table_size t; t = t\<lparr>m_table_size := 0\<rparr> in
     bindF (close_entries D t (unat saved_table_size) 0 k) (\<lambda>k. Inr (k, t)))"

definition Remove ::
  "destructor \<Rightarrow> Kernel \<Rightarrow> KHandleTable \<Rightarrow> Handle \<Rightarrow> kernel_fault + bool \<times> Kernel \<times> KHandleTable" where
  "Remove D k t handle =
    (if IsPseudoHandle handle then Inr (False, k, t)
     else if pack_reserved handle \<noteq> 0 then Inr (False, k, t)
     else bindF (IsValidHandle (use_debug_asserts k) t handle) (\<lambda>valid.
       if valid then
         let index = uint (pack_index handle) in
         bindF (obj_get t index) (\<lambda>ob.
         bindF (FreeEntry (use_debug_asserts k) t index) (\<lambda>t.
         case ob of
           None \<Rightarrow> Inl DanglingObject
         | Some ob \<Rightarrow> bindF (Close D (UnregisterInUseObject ob k) ob) (\<lambda>k. Inr (True, k, t))))
       else Inr (False, k, t)))"

definition Add ::
  "Kernel \<Rightarrow> KHandleTable \<Rightarrow> kobject \<Rightarrow> kernel_fault + (KResult + Handle) \<times> Kernel \<times> KHandleTable" where
  "Add k t ob =
    (if m_count t < m_table_size t then
       let (linear_id, t) = AllocateLinearId t in
       bindF (AllocateEntry (use_debug_asserts k) t) (\<lambda>(index, t).
       bindF (info_set t index linear_id) (\<lambda>t.
       bindF (obj_set t index (Some ob)) (\<lambda>t.
       bindF (Open k ob) (\<lambda>(_, k).
       Inr (Inr (EncodeHandle (word_of_int index) linear_id), k, t)))))
     else Inr (Inl ResultOutOfHandles, k, t))"

definition Reserve ::
  "Kernel \<Rightarrow> KHandleTable \<Rightarrow> kernel_fault + (KResult + Handle) \<times> KHandleTable" where
  "Reserve k t =
    (if m_count t < m_table_size t then
       bindF (AllocateEntry (use_debug_asserts k) t) (\<lambda>(index, t).
       let (linear_id, t) = AllocateLinearId t in
       Inr (Inr (EncodeHandle (word_of_int index) linear_id), t))
     else Inr (Inl ResultOutOfHandles, t))"

definition Unreserve :: "Kernel \<Rightarrow> KHandleTable \<Rightarrow> Handle \<Rightarrow> kernel_fault + KHandleTable" where
  "Unreserve k t handle =
    (let index = uint (pack_index handle); dbg = use_debug_asserts k in
     bindF (ASSERT dbg (pack_reserved handle = 0)) (\<lambda>_.
     bindF (ASSERT dbg (pack_linear_id handle \<noteq> 0)) (\<lambda>_.
     if index < uint (m_table_size t) then
       bindF (obj_get t index) (\<lambda>ob.
       bindF (ASSERT dbg (ob = None)) (\<lambda>_. FreeEntry dbg t index))
     else Inr t)))"

definition Register ::
  "Kernel \<Rightarrow> KHandleTable \<Rightarrow> Handle \<Rightarrow> kobject \<Rightarrow> kernel_fault + Kernel \<times> KHandleTable" where
  "Register k t handle ob =
    (let index = uint (pack_index handle); dbg = use_debug_asserts k in
     bindF (ASSERT dbg (pack_reserved handle = 0)) (\<lambda>_.
     bindF (ASSERT dbg (pack_linear_id handle \<noteq> 0)) (\<lambda>_.
     if index < uint (m_table_size t) then
       bindF (obj_get t index) (\<lambda>old.
       bindF (ASSERT dbg (old = None)) (\<lambda>_.
       bindF (info_set t index (ucast (pack_linear_id handle))) (\<lambda>t.
       bindF (obj_set t index (Some ob)) (\<lambda>t.
       bindF (Open k ob) (\<lambda>(_, k). Inr (k, t))))))
     else Inr (k, t))))"

section \<open>Looking objects up\<close>

definition GetObjectWithoutPseudoHandle ::
  "ObjectType \<Rightarrow> Kernel \<Rightarrow> KHandleTable \<Rightarrow> Handle \<Rightarrow> kernel_fault + kobject option \<times> Kernel" where
  "GetObjectWithoutPseudoHandle T k t handle =
    bindF (GetObjectImpl (use_debug_asserts k) t handle) (\<lambda>ob.
    if T = KAutoObject then scoped_object k ob
    else case ob of
        None \<Rightarrow> scoped_object k None
      | Some ob \<Rightarrow> bindF (DynamicCast T k ob) (\<lambda>ob. scoped_object k ob))"

definition GetObject ::
  "ObjectType \<Rightarrow> Kernel \<Rightarrow> kobject option \<Rightarrow> kobject option \<Rightarrow> KHandleTable \<Rightarrow> Handle
    \<Rightarrow> kernel_fault + kobject option \<times> Kernel" where
  "GetObject T k cur_process cur_thread t handle =
    (if derived_from KProcess T \<and> handle = CurrentProcess then
       bindF (ASSERT (use_debug_asserts k) (cur_process \<noteq> None)) (\<lambda>_. scoped_object k cur_process)
     else if \<not> derived_from KProcess T \<and> derived_from KThread T \<and> handle = CurrentThread then
       bindF (ASSERT (use_debug_asserts k) (cur_thread \<noteq> None)) (\<lambda>_. scoped_object k cur_thread)
     else GetObjectWithoutPseudoHandle T k t handle)"

definition GetObjectForIpcWithoutPseudoHandle ::
  "Kernel \<Rightarrow> KHandleTable \<Rightarrow> Handle \<Rightarrow> kernel_fault + kobject option \<times> Kernel" where
  "GetObjectForIpcWithoutPseudoHandle k t handle =
    bindF (GetObjectImpl (use_debug_asserts k) t handle) (\<lambda>ob. scoped_object k ob)"

text \<open>\<open>cur_thread\<close> is the calling thread with the process that owns it.\<close>

definition GetObjectForIpc ::
  "Kernel \<Rightarrow> KHandleTable \<Rightarrow> Handle \<Rightarrow> kobject \<times> kobject option \<Rightarrow> kernel_fault + kobject option \<times> Kernel"
  where
  "GetObjectForIpc k t handle cur_thread =
    (if handle = CurrentProcess then
       bindF (ASSERT (use_debug_asserts k) (snd cur_thread \<noteq> None)) (\<lambda>_.
         scoped_object k (snd cur_thread))
     else if handle = CurrentThread then scoped_object k (Some (fst cur_thread))
     else GetObjectForIpcWithoutPseudoHandle k t handle)"

definition GetObjectByIndex ::
  "Kernel \<Rightarrow> KHandleTable \<Rightarrow> nat \<Rightarrow> kernel_fault + (Handle \<times> kobject) option \<times> Kernel" where
  "GetObjectByIndex k t index = bindF (GetObjectByIndexImpl t index) (\<lambda>r. case r of
      None \<Rightarrow> Inr (None, k)
    | Some (h, ob) \<Rightarrow> bindF (Open k ob) (\<lambda>(_, k). Inr (Some (h, ob), k)))"

text \<open>The conversion loop of \<^verbatim>\<open>GetMultipleObjects\<close> returns the objects it has opened, in order;
  it stops at the first handle that does not name a \<open>T\<close>.\<close>

fun open_handles ::
  "ObjectType \<Rightarrow> KHandleTable \<Rightarrow> Handle list \<Rightarrow> Kernel \<Rightarrow> kernel_fault + kobject list \<times> Kernel" where
  "open_handles T t [] k = Inr ([], k)"
| "open_handles T t (h # hs) k = bindF (GetObjectImpl (use_debug_asserts k) t h) (\<lambda>ob. case ob of
      None \<Rightarrow> Inr ([], k)
    | Some ob \<Rightarrow> bindF (DynamicCast T k ob) (\<lambda>c. case c of
          None \<Rightarrow> Inr ([], k)
        | Some ob \<Rightarrow> bindF (Open k ob) (\<lambda>(_, k).
            bindF (open_handles T t hs k) (\<lambda>(out, k). Inr (ob # out, k)))))"

fun close_all :: "destructor \<Rightarrow> kobject list \<Rightarrow> Kernel \<Rightarrow> kernel_fault + Kernel" where
  "close_all D [] k = Inr k"
| "close_all D (ob # obs) k = bindF (Close D k ob) (\<lambda>k. close_all D obs k)"

definition GetMultipleObjects ::
  "ObjectType \<Rightarrow> destructor \<Rightarrow> Kernel \<Rightarrow> KHandleTable \<Rightarrow> Handle list
    \<Rightarrow> kernel_fault + bool \<times> kobject list \<times> Kernel" where
  "GetMultipleObjects T D k t handles = bindF (open_handles T t handles k) (\<lambda>(out, k).
    if length out = length handles then Inr (True, out, k)
    else bindF (close_all D out k) (\<lambda>k. Inr (False, out, k)))"

end
