(* ===== verification/Handle_Laws.thy ===== *)
theory Handle_Laws
  imports Handle_Table
begin

text \<open>
  What the handle table promises. The invariant \<open>table_ok\<close> (arrays of full length, a free list
  without repetition that covers the unused capacity, null objects on it, serials in range) is
  established by \<open>Initialize\<close> and kept by every operation; under it no operation indexes outside
  the arrays. A table is then a finite map from handles to objects: \<open>Add\<close> inserts under a fresh
  handle, \<open>Remove\<close> deletes, and a sequence of operations acts as the sequence of map updates.
\<close>

section \<open>The abstraction\<close>

fun walk_free :: "nat \<Rightarrow> u16 list \<Rightarrow> int \<Rightarrow> nat list" where
  "walk_free 0 infos h = []"
| "walk_free (Suc n) infos h =
    (if h < 0 \<or> int (length infos) \<le> h then []
     else nat h # walk_free n infos (GetNextFreeIndex (infos ! nat h)))"

definition free_list :: "KHandleTable \<Rightarrow> nat list" where
  "free_list t = walk_free (unat (m_table_size t) - unat (m_count t)) (m_entry_infos t)
    (m_free_head_index t)"

fun free_chain :: "u16 list \<Rightarrow> int \<Rightarrow> nat list \<Rightarrow> bool" where
  "free_chain infos h [] \<longleftrightarrow> h = -1"
| "free_chain infos h (i # is) \<longleftrightarrow>
    h = int i \<and> i < length infos \<and> free_chain infos (GetNextFreeIndex (infos ! i)) is"

definition used_info :: "u16 \<Rightarrow> bool" where
  "used_info w \<longleftrightarrow> MinLinearId \<le> w \<and> w \<le> MaxLinearId"

definition table_inv :: "KHandleTable \<Rightarrow> nat list \<Rightarrow> bool" where
  "table_inv t fl \<longleftrightarrow>
    length (m_entry_infos t) = MaxTableSize \<and> length (m_objects t) = MaxTableSize \<and>
    unat (m_table_size t) \<le> MaxTableSize \<and>
    free_chain (m_entry_infos t) (m_free_head_index t) fl \<and> distinct fl \<and>
    set fl \<subseteq> {..<unat (m_table_size t)} \<and> (\<forall>i \<in> set fl. m_objects t ! i = None) \<and>
    unat (m_count t) + length fl = unat (m_table_size t) \<and>
    m_count t \<le> m_max_count t \<and> m_max_count t \<le> m_table_size t \<and>
    used_info (m_next_linear_id t) \<and>
    (\<forall>i < unat (m_table_size t). m_objects t ! i \<noteq> None \<longrightarrow> used_info (m_entry_infos t ! i))"

definition table_ok :: "KHandleTable \<Rightarrow> bool" where
  "table_ok t \<longleftrightarrow> table_inv t (free_list t)"

definition handle_index :: "Handle \<Rightarrow> nat" where
  "handle_index h = unat (pack_index h)"

definition lookup :: "KHandleTable \<Rightarrow> Handle \<Rightarrow> kobject option" where
  "lookup t h = (case GetObjectImpl False t h of Inl f \<Rightarrow> None | Inr ob \<Rightarrow> ob)"

text \<open>An entry that was handed out by \<^verbatim>\<open>Reserve\<close> and holds no object yet.\<close>

definition is_reserved :: "KHandleTable \<Rightarrow> Handle \<Rightarrow> bool" where
  "is_reserved t h \<longleftrightarrow> pack_reserved h = 0 \<and> pack_linear_id h \<noteq> 0 \<and>
    handle_index h < unat (m_table_size t) \<and> handle_index h \<notin> set (free_list t) \<and>
    m_objects t ! handle_index h = None"

section \<open>Handles\<close>

lemma bit_bit_field_mask:
  "bit (bit_field_mask p b) n \<longleftrightarrow> n < 32 \<and> p \<le> n \<and> n < p + b"
  by (auto simp: bit_field_mask_def bit_simps)

lemmas field_defs = pack_index_def pack_linear_id_def pack_reserved_def ExtractValue_def
  EncodeHandle_def Assign_def FormatValue_def

lemma bit_less_15: "w < 0x8000 \<Longrightarrow> bit (w :: u16) n \<Longrightarrow> n < 15"
proof (rule ccontr)
  assume w: "w < 0x8000" and b: "bit w n" and n: "\<not> n < 15"
  have "take_bit 15 w = w"
    using w by (simp add: word_unat_eq_iff unsigned_take_bit_eq take_bit_nat_eq_self word_less_nat_alt)
  then have "bit (take_bit 15 w) n" using b by simp
  then show False using n by (simp add: bit_simps)
qed

lemma pack_EncodeHandle [simp]:
  assumes "i < 0x8000" and "l < 0x8000"
  shows "pack_index (EncodeHandle i l) = ucast i"
    and "pack_linear_id (EncodeHandle i l) = ucast l"
    and "pack_reserved (EncodeHandle i l) = 0"
  by (rule bit_word_eqI; auto simp: field_defs bit_bit_field_mask bit_simps
    dest: bit_less_15 [OF assms(1)] bit_less_15 [OF assms(2)])+

lemma EncodeHandle_pack:
  assumes "pack_reserved h = 0"
  shows "EncodeHandle (ucast (pack_index h)) (ucast (pack_linear_id h)) = h"
proof (rule bit_word_eqI)
  fix n assume n: "n < LENGTH(32)"
  have r: "\<not> bit h m" if "30 \<le> m" "m < 32" for m
    using arg_cong [OF assms, of "\<lambda>w. bit w (m - 30)"] that
    by (auto simp: field_defs bit_bit_field_mask bit_simps)
  consider "n < 15" | "15 \<le> n" "n < 30" | "30 \<le> n" by linarith
  then show "bit (EncodeHandle (ucast (pack_index h)) (ucast (pack_linear_id h))) n = bit h n"
    using n r [of n] by cases (auto simp: field_defs bit_bit_field_mask bit_simps)
qed

lemma pack_less: "pack_index h < 0x8000" "pack_linear_id h < 0x8000"
proof -
  have m: "w AND mask 15 < 0x8000" for w :: u32
    using unat_and_mask_less [of w 15] by (simp add: word_less_nat_alt)
  have "pack_index h = h AND mask 15"
    "pack_linear_id h = drop_bit 15 h AND mask 15"
    by (rule bit_word_eqI; auto simp: field_defs bit_bit_field_mask bit_simps)+
  then show "pack_index h < 0x8000" "pack_linear_id h < 0x8000" by (simp_all only: m)
qed

lemma handle_index_less: "handle_index h < 2 ^ 15"
  using pack_less(1) [of h] by (simp add: handle_index_def word_less_nat_alt)

lemma uint_pack_index: "uint (pack_index h) = int (handle_index h)"
  by (simp add: handle_index_def)

text \<open>A handle without reserved bits is determined by its index and its serial.\<close>

lemma handle_eqI:
  assumes "pack_reserved h = 0" and "pack_reserved h' = 0"
    and "handle_index h = handle_index h'" and "pack_linear_id h = pack_linear_id h'"
  shows "h = h'"
proof -
  have "pack_index h = pack_index h'" using assms(3) by (simp add: handle_index_def word_unat_eq_iff)
  then show ?thesis
    using EncodeHandle_pack [OF assms(1)] EncodeHandle_pack [OF assms(2)] assms(4) by metis
qed

section \<open>The free list\<close>

lemma free_chain_walk: "free_chain infos h fl \<Longrightarrow> walk_free (length fl) infos h = fl"
  by (induction fl arbitrary: h) auto

lemma free_chain_update:
  "i \<notin> set fl \<Longrightarrow> free_chain (infos[i := w]) h fl = free_chain infos h fl"
  by (induction fl arbitrary: h) auto

lemma free_chain_head: "free_chain infos h fl \<Longrightarrow> -1 \<le> h \<and> h < int (length infos)"
  by (cases fl) auto

lemma GetNextFreeIndex_of_int:
  "- 32768 \<le> h \<Longrightarrow> h < 32768 \<Longrightarrow> GetNextFreeIndex (word_of_int h) = h"
  by (simp add: GetNextFreeIndex_def signed_of_int signed_take_bit_int_eq_self)

lemma table_inv_free_list: "table_inv t fl \<Longrightarrow> free_list t = fl"
proof -
  assume "table_inv t fl"
  then have "free_chain (m_entry_infos t) (m_free_head_index t) fl"
    and "unat (m_table_size t) - unat (m_count t) = length fl"
    by (auto simp: table_inv_def)
  then show ?thesis using free_chain_walk by (simp add: free_list_def)
qed

lemma table_invD [dest]:
  assumes "table_inv t fl"
  shows "length (m_entry_infos t) = 1024" "length (m_objects t) = 1024" "unat (m_table_size t) \<le> 1024"
    "unat (m_count t) + length fl = unat (m_table_size t)" "distinct fl"
    "set fl \<subseteq> {..<unat (m_table_size t)}"
    "free_chain (m_entry_infos t) (m_free_head_index t) fl"
  using assms by (auto simp: table_inv_def MaxTableSize_def)

lemma table_ok_inv: "table_ok t \<longleftrightarrow> (\<exists>fl. table_inv t fl)"
  using table_inv_free_list by (auto simp: table_ok_def)

lemma table_full_iff: "table_inv t fl \<Longrightarrow> m_count t < m_table_size t \<longleftrightarrow> fl \<noteq> []"
  by (drule table_invD(4), cases fl) (auto simp: word_less_nat_alt)

section \<open>Lookups\<close>

definition entry_at :: "KHandleTable \<Rightarrow> nat \<Rightarrow> (u16 \<times> kobject) option" where
  "entry_at t i = (if i < unat (m_table_size t)
    then map_option (Pair (m_entry_infos t ! i)) (m_objects t ! i) else None)"

lemma ucast_u16_inj: "(ucast (v :: u16) = (ucast w :: u32)) \<longleftrightarrow> v = w"
proof
  assume *: "(ucast v :: u32) = ucast w"
  show "v = w"
  proof (rule bit_word_eqI)
    fix n assume "n < LENGTH(16)"
    then show "bit v n = bit w n"
      using arg_cong [OF *, of "\<lambda>x. bit x n"] by (simp add: bit_simps)
  qed
qed simp

lemma ucast_eq_0_u16: "(ucast (w :: u16) = (0 :: u32)) \<longleftrightarrow> w = 0"
  using ucast_u16_inj [of w 0] by simp

lemma ucast_pack_linear_id: "ucast (ucast (pack_linear_id h) :: u16) = pack_linear_id h"
proof (rule bit_word_eqI)
  fix n assume "n < LENGTH(32)"
  then show "bit (ucast (ucast (pack_linear_id h) :: u16) :: u32) n = bit (pack_linear_id h) n"
    by (auto simp: field_defs bit_bit_field_mask bit_simps)
qed

lemma entry_at_Some:
  "entry_at t i = Some (w, ob) \<longleftrightarrow>
    i < unat (m_table_size t) \<and> m_entry_infos t ! i = w \<and> m_objects t ! i = Some ob"
  by (auto simp: entry_at_def)

lemma entry_at_used: "table_inv t fl \<Longrightarrow> entry_at t i = Some (w, ob) \<Longrightarrow> used_info w \<and> i \<notin> set fl"
  by (auto simp: entry_at_Some table_inv_def)

lemma obj_info_get:
  assumes "table_inv t fl" and "i < unat (m_table_size t)"
  shows "obj_get t (int i) = Inr (m_objects t ! i)" "info_get t (int i) = Inr (m_entry_infos t ! i)"
  using table_invD(1-3) [OF assms(1)] assms(2) by (simp_all add: obj_get_def info_get_def)

lemma IsValidHandle_inv:
  assumes "table_inv t fl" and "pack_reserved h = 0"
  shows "IsValidHandle d t h =
    Inr (\<exists>w ob. entry_at t (handle_index h) = Some (w, ob) \<and> ucast w = pack_linear_id h)"
proof -
  have z: "pack_linear_id h \<noteq> 0" "h \<noteq> 0"
    if "entry_at t (handle_index h) = Some (w, ob)" "ucast w = pack_linear_id h" for w ob
  proof -
    have "w \<noteq> 0" using entry_at_used [OF assms(1) that(1)] by (auto simp: used_info_def MinLinearId_def)
    then show "pack_linear_id h \<noteq> 0" using that(2) ucast_eq_0_u16 by metis
    then show "h \<noteq> 0" by (auto simp: pack_linear_id_def ExtractValue_def)
  qed
  have lt: "uint (m_table_size t) \<le> int (handle_index h) \<longleftrightarrow> unat (m_table_size t) \<le> handle_index h"
    by (metis of_nat_le_iff uint_nat)
  show ?thesis
  proof (cases "handle_index h < unat (m_table_size t)")
    case True
    then show ?thesis
      using assms(2) z by (auto simp: IsValidHandle_def uint_pack_index lt entry_at_def
        obj_info_get [OF assms(1)] Let_def)
  next
    case False
    then show ?thesis using assms(2) by (auto simp: IsValidHandle_def uint_pack_index lt entry_at_def Let_def)
  qed
qed

text \<open>Under the invariant a lookup does not fault, and finds the object of the entry the index
  names when the serials agree.\<close>

lemma GetObjectImpl_inv:
  assumes "table_inv t fl"
  shows "GetObjectImpl d t h = Inr (case entry_at t (handle_index h) of
      None \<Rightarrow> None
    | Some (w, ob) \<Rightarrow> if pack_reserved h = 0 \<and> ucast w = pack_linear_id h then Some ob else None)"
proof (cases "pack_reserved h = 0")
  case True
  then show ?thesis
    using IsValidHandle_inv [OF assms True] obj_info_get [OF assms, of "handle_index h"]
    by (auto simp: GetObjectImpl_def uint_pack_index entry_at_def split: option.split)
next
  case False
  then show ?thesis by (auto simp: GetObjectImpl_def split: option.split)
qed

lemma lookup_inv:
  assumes "table_inv t fl"
  shows "lookup t h = Some ob \<longleftrightarrow>
    pack_reserved h = 0 \<and> entry_at t (handle_index h) = Some (ucast (pack_linear_id h), ob)"
proof -
  have u: "ucast w = pack_linear_id h \<longleftrightarrow> w = ucast (pack_linear_id h)" for w :: u16
    by (metis ucast_pack_linear_id ucast_u16_inj)
  show ?thesis
    by (auto simp: lookup_def GetObjectImpl_inv [OF assms] u split: option.split)
qed

lemma GetObjectImpl_lookup: "table_inv t fl \<Longrightarrow> GetObjectImpl d t h = Inr (lookup t h)"
  by (simp add: lookup_def GetObjectImpl_inv)


section \<open>The effect of the operations on the table\<close>

definition next_id :: "u16 \<Rightarrow> u16" where
  "next_id w = (if w + 1 > MaxLinearId then MinLinearId else w + 1)"

definition allocated :: "KHandleTable \<Rightarrow> nat \<Rightarrow> KHandleTable" where
  "allocated t i = t\<lparr>m_free_head_index := GetNextFreeIndex (m_entry_infos t ! i),
    m_count := m_count t + 1, m_max_count := max (m_max_count t) (m_count t + 1),
    m_next_linear_id := next_id (m_next_linear_id t)\<rparr>"

definition entered :: "KHandleTable \<Rightarrow> nat \<Rightarrow> u16 \<Rightarrow> kobject \<Rightarrow> KHandleTable" where
  "entered t i w ob = t\<lparr>m_entry_infos := (m_entry_infos t)[i := w],
    m_objects := (m_objects t)[i := Some ob]\<rparr>"

definition freed :: "KHandleTable \<Rightarrow> nat \<Rightarrow> KHandleTable" where
  "freed t i = t\<lparr>m_objects := (m_objects t)[i := None],
    m_entry_infos := (m_entry_infos t)[i := word_of_int (m_free_head_index t)],
    m_free_head_index := int i, m_count := m_count t - 1\<rparr>"

lemma used_info_next: "used_info w \<Longrightarrow> used_info (next_id w)"
  by (auto simp: used_info_def next_id_def MinLinearId_def MaxLinearId_def word_le_nat_alt
    word_less_nat_alt unat_word_ariths)

lemma count_Suc:
  assumes "table_inv t (i # fl)"
  shows "unat (m_count t + 1) = unat (m_count t) + 1"
  using table_invD(3,4) [OF assms] by (simp add: unat_word_ariths)

lemma allocated_inv:
  assumes "table_inv t (i # fl)"
  shows "table_inv (allocated t i) fl"
  using assms count_Suc [OF assms] unfolding table_inv_def allocated_def
  by (auto simp: used_info_next word_le_nat_alt max_def)

lemma AllocateEntry_inv:
  assumes "table_inv t (i # fl)"
  shows "AllocateEntry d t = Inr (int i, t\<lparr>m_free_head_index := GetNextFreeIndex (m_entry_infos t ! i),
    m_count := m_count t + 1, m_max_count := max (m_max_count t) (m_count t + 1)\<rparr>)"
proof -
  have "m_free_head_index t = int i" and "i < unat (m_table_size t)" and "m_count t < m_table_size t"
    using assms table_full_iff [OF assms] by (auto simp: table_inv_def)
  then show ?thesis
    using obj_info_get(2) [OF assms] by (simp add: AllocateEntry_def Let_def)
qed

lemma entered_inv:
  assumes "table_inv t fl" and "i \<notin> set fl" and "i < unat (m_table_size t)" and "used_info w"
  shows "table_inv (entered t i w ob) fl"
  using assms by (auto simp: table_inv_def entered_def free_chain_update nth_list_update)

lemma freed_inv:
  assumes "table_inv t fl" and "i \<notin> set fl" and "i < unat (m_table_size t)"
  shows "table_inv (freed t i) (i # fl)"
proof -
  have h: "GetNextFreeIndex (word_of_int (m_free_head_index t)) = m_free_head_index t"
    using free_chain_head [OF table_invD(7) [OF assms(1)]] table_invD(1) [OF assms(1)]
    by (simp add: GetNextFreeIndex_of_int)
  have "length fl < unat (m_table_size t)"
  proof -
    have "card (insert i (set fl)) \<le> card {..<unat (m_table_size t)}"
      using assms(3) table_invD(6) [OF assms(1)] by (intro card_mono) auto
    then show ?thesis using assms(2) table_invD(5) [OF assms(1)] by (simp add: distinct_card)
  qed
  then have "0 < unat (m_count t)" using table_invD(4) [OF assms(1)] by linarith
  then have c: "unat (m_count t - 1) = unat (m_count t) - 1" by (simp add: unat_sub_if')
  show ?thesis
    using assms h c \<open>0 < unat (m_count t)\<close>
    by (auto simp: table_inv_def freed_def free_chain_update nth_list_update word_le_nat_alt)
qed

lemma count_positive:
  assumes "table_inv t fl" and "i \<notin> set fl" and "i < unat (m_table_size t)"
  shows "0 < m_count t"
  using table_invD(4) [OF freed_inv [OF assms]] table_invD(4) [OF assms(1)]
  by (auto simp: freed_def word_gt_0)

lemma set_get_inv:
  assumes "table_inv t fl" and "i < unat (m_table_size t)"
  shows "info_set t (int i) w = Inr (t\<lparr>m_entry_infos := (m_entry_infos t)[i := w]\<rparr>)"
    and "obj_set t (int i) v = Inr (t\<lparr>m_objects := (m_objects t)[i := v]\<rparr>)"
  using table_invD(1-3) [OF assms(1)] assms(2) by (simp_all add: info_set_def obj_set_def)

lemma FreeEntry_inv:
  assumes "table_inv t fl" and "i \<notin> set fl" and "i < unat (m_table_size t)"
  shows "FreeEntry d t (int i) = Inr (freed t i)"
  using count_positive [OF assms] table_invD(1-3) [OF assms(1)] assms(3)
  by (simp add: FreeEntry_def info_set_def obj_set_def freed_def)

lemma entry_at_effect:
  assumes "table_inv t fl" and "i < unat (m_table_size t)"
  shows "entry_at (entered t i w ob) = (entry_at t)(i \<mapsto> (w, ob))"
    and "entry_at (freed t i) = (entry_at t)(i := None)"
    and "entry_at (allocated t j) = entry_at t"
  using table_invD(1-3) [OF assms(1)] assms(2)
  by (auto simp: entry_at_def entered_def freed_def allocated_def nth_list_update fun_eq_iff)


lemma option_eqI: "(\<And>x. a = Some x \<longleftrightarrow> b = Some x) \<Longrightarrow> a = b"
  by (cases a; cases b) auto

text \<open>The handle that is given out for an entry.\<close>

definition entry_handle :: "nat \<Rightarrow> u16 \<Rightarrow> Handle" where
  "entry_handle i w = EncodeHandle (of_nat i) w"

lemma entry_handle_pack:
  assumes "i < 1024" and "used_info w"
  shows "handle_index (entry_handle i w) = i" and "pack_linear_id (entry_handle i w) = ucast w"
    and "pack_reserved (entry_handle i w) = 0"
proof -
  have i: "(of_nat i :: u16) < 0x8000"
    using assms(1) by (simp add: word_less_nat_alt unat_of_nat take_bit_nat_eq_self)
  have w: "w < 0x8000" using assms(2) by (simp add: used_info_def MaxLinearId_def word_le_nat_alt word_less_nat_alt)
  have "unat (ucast (of_nat i :: u16) :: u32) = i"
    using assms(1) by (simp add: unsigned_ucast_eq unsigned_take_bit_eq unat_of_nat take_bit_nat_eq_self)
  with i w show "handle_index (entry_handle i w) = i" "pack_linear_id (entry_handle i w) = ucast w"
    "pack_reserved (entry_handle i w) = 0"
    by (simp_all add: entry_handle_def handle_index_def)
qed

lemma entry_handle_eqI:
  assumes "i < 1024" and "used_info w" and "pack_reserved h = 0" and "handle_index h = i"
    and "ucast (pack_linear_id h) = w"
  shows "h = entry_handle i w"
proof (rule handle_eqI)
  note p = entry_handle_pack [OF assms(1,2)]
  show "pack_reserved h = 0" "pack_reserved (entry_handle i w) = 0" by (fact assms(3) p(3))+
  show "handle_index h = handle_index (entry_handle i w)" by (simp only: p(1) assms(4))
  show "pack_linear_id h = pack_linear_id (entry_handle i w)"
    unfolding p(2) using ucast_pack_linear_id [of h] assms(5) by metis
qed

lemma lookup_enter:
  assumes "table_inv t fl" and "table_inv t' fl'" and "entry_at t' = (entry_at t)(i \<mapsto> (w, ob))"
    and "entry_at t i = None" and "i < 1024" and "used_info w"
  shows "lookup t' = (lookup t)(entry_handle i w \<mapsto> ob)" and "lookup t (entry_handle i w) = None"
proof -
  note p = entry_handle_pack [OF assms(5,6)]
  have c: "ucast (ucast w :: u32) = w"
    by (rule bit_word_eqI) (auto simp: bit_simps)
  show "lookup t' = (lookup t)(entry_handle i w \<mapsto> ob)"
  proof (rule ext, rule option_eqI)
    fix h x
    show "(lookup t' h = Some x) = (((lookup t)(entry_handle i w \<mapsto> ob)) h = Some x)"
    proof (cases "h = entry_handle i w")
      case True
      then show ?thesis using assms(3) p c by (simp add: lookup_inv [OF assms(2)])
    next
      case False
      then have "pack_reserved h = 0 \<Longrightarrow> handle_index h = i \<Longrightarrow> ucast (pack_linear_id h) \<noteq> w"
        using entry_handle_eqI [OF assms(5,6), of h] by blast
      then show ?thesis
        using False assms(3,4) lookup_inv [OF assms(1), of h x] lookup_inv [OF assms(2), of h x]
        by (cases "handle_index h = i") auto
    qed
  qed
  show "lookup t (entry_handle i w) = None"
    using lookup_inv [OF assms(1), of "entry_handle i w"] assms(4) p(1) by (cases "lookup t (entry_handle i w)") auto
qed

lemma lookup_free:
  assumes "table_inv t fl" and "table_inv t' fl'" and "entry_at t' = (entry_at t)(i := None)"
    and "lookup t h = Some ob" and "i = handle_index h"
  shows "lookup t' = (lookup t)(h := None)"
proof (rule ext, rule option_eqI)
  fix h' x
  note L = lookup_inv [OF assms(1), of h' x] lookup_inv [OF assms(1), of h ob]
    lookup_inv [OF assms(2), of h' x]
  show "(lookup t' h' = Some x) = (((lookup t)(h := None)) h' = Some x)"
  proof (cases "handle_index h' = i")
    case True
    have "h' = h" if "lookup t h' = Some x"
    proof (rule handle_eqI)
      show "pack_reserved h' = 0" "pack_reserved h = 0" "handle_index h' = handle_index h"
        using that L assms(4,5) True by blast+
      have "(ucast (pack_linear_id h') :: u16) = ucast (pack_linear_id h)"
        using that L assms(4,5) True by auto
      then show "pack_linear_id h' = pack_linear_id h" using ucast_pack_linear_id by metis
    qed
    then show ?thesis using True L assms(3) by auto
  next
    case False
    then show ?thesis using L assms(3,5) by auto
  qed
qed

lemma lookup_same: "table_inv t fl \<Longrightarrow> table_inv t' fl' \<Longrightarrow> entry_at t' = entry_at t \<Longrightarrow> lookup t' = lookup t"
  by (rule ext, rule option_eqI) (simp add: lookup_inv)

lemma free_entry_none: "table_inv t fl \<Longrightarrow> i \<in> set fl \<Longrightarrow> entry_at t i = None"
  by (auto simp: table_inv_def entry_at_def)

text \<open>\<^verbatim>\<open>Add\<close>: the head of the free list and the next serial make the handle.\<close>

lemma Add_inv:
  assumes "table_inv t (i # fl)" and "Open k ob = Inr (b, k')"
    and h_eq: "h = entry_handle i (m_next_linear_id t)"
    and t_eq: "t' = entered (allocated t i) i (m_next_linear_id t) ob"
  shows "Add k t ob = Inr (Inr h, k', t')" and "table_inv t' fl"
    and "lookup t' = (lookup t)(h \<mapsto> ob)" and "lookup t h = None"
proof -
  have lt: "m_count t < m_table_size t" and i: "i < unat (m_table_size t)" "i \<notin> set fl"
    and w: "used_info (m_next_linear_id t)" and i2: "i < 1024"
    using assms(1) table_full_iff [OF assms(1)] table_invD(3) [OF assms(1)] by (auto simp: table_inv_def)
  have inv': "table_inv (t\<lparr>m_next_linear_id := next_id (m_next_linear_id t)\<rparr>) (i # fl)"
    using assms(1) used_info_next [OF w] by (simp add: table_inv_def)
  note A = AllocateEntry_inv [OF inv']
  show "Add k t ob = Inr (Inr h, k', t')"
    unfolding h_eq t_eq using lt assms(2) table_invD(1-3) [OF assms(1)] i(1)
    by (simp add: Add_def AllocateLinearId_def Let_def next_id_def [symmetric] A info_set_def
      obj_set_def entered_def allocated_def entry_handle_def)
  show inv2: "table_inv t' fl"
    unfolding t_eq using allocated_inv [OF assms(1)] i w by (intro entered_inv) (auto simp: allocated_def)
  have "entry_at t' = (entry_at t)(i \<mapsto> (m_next_linear_id t, ob))"
    unfolding t_eq using entry_at_effect [OF allocated_inv [OF assms(1)], of i] entry_at_effect(3) [OF assms(1) i(1)] i(1)
    by (simp add: allocated_def)
  from lookup_enter [OF assms(1) inv2 this free_entry_none [OF assms(1)] i2 w]
  show "lookup t' = (lookup t)(h \<mapsto> ob)" and "lookup t h = None" by (simp_all add: h_eq)
qed

lemma Reserve_inv:
  assumes "table_inv t (i # fl)"
  shows "Reserve k t = Inr (Inr (entry_handle i (m_next_linear_id t)), allocated t i)"
    and "lookup (allocated t i) = lookup t"
    and "is_reserved (allocated t i) (entry_handle i (m_next_linear_id t))"
proof -
  have lt: "m_count t < m_table_size t" and i: "i < unat (m_table_size t)" "i \<notin> set fl"
    and w: "used_info (m_next_linear_id t)" and i2: "i < 1024" and n: "m_objects t ! i = None"
    using assms(1) table_full_iff [OF assms(1)] table_invD(3) [OF assms(1)] by (auto simp: table_inv_def)
  have nz: "m_next_linear_id t \<noteq> 0" using w by (auto simp: used_info_def MinLinearId_def)
  show "Reserve k t = Inr (Inr (entry_handle i (m_next_linear_id t)), allocated t i)"
    using lt by (simp add: Reserve_def AllocateLinearId_def Let_def next_id_def [symmetric]
      AllocateEntry_inv [OF assms] allocated_def entry_handle_def)
  show "lookup (allocated t i) = lookup t"
    using lookup_same [OF assms allocated_inv [OF assms]] entry_at_effect(3) [OF assms i(1)] by simp
  have "free_list (allocated t i) = fl" by (rule table_inv_free_list) (rule allocated_inv [OF assms])
  then show "is_reserved (allocated t i) (entry_handle i (m_next_linear_id t))"
    using i n nz entry_handle_pack [OF i2 w] ucast_eq_0_u16 by (simp add: is_reserved_def allocated_def)
qed

lemma full_inv:
  assumes "table_inv t []"
  shows "Add k t ob = Inr (Inl ResultOutOfHandles, k, t)" "Reserve k t = Inr (Inl ResultOutOfHandles, t)"
  using table_full_iff [OF assms] by (simp_all add: Add_def Reserve_def)

text \<open>\<^verbatim>\<open>Remove\<close> frees the entry of a handle that names an object, and refuses every other one.\<close>

lemma lookup_pseudo: "table_inv t fl \<Longrightarrow> IsPseudoHandle h \<Longrightarrow> lookup t h = None"
proof -
  assume t: "table_inv t fl" and p: "IsPseudoHandle h"
  have "pack_reserved CurrentProcess \<noteq> 0" "pack_reserved CurrentThread \<noteq> 0"
    by (simp_all add: pack_reserved_def ExtractValue_def bit_field_mask_def CurrentProcess_def
      CurrentThread_def mask_eq_exp_minus_1)
  then show ?thesis
    using lookup_inv [OF t, of h] p by (cases "lookup t h") (auto simp: IsPseudoHandle_def)
qed

lemma Remove_absent:
  assumes "table_inv t fl" and "lookup t h = None"
  shows "Remove D k t h = Inr (False, k, t)"
proof (cases "pack_reserved h = 0")
  case True
  have "IsValidHandle d t h = Inr False" for d
    using assms(2) True by (auto simp: IsValidHandle_inv [OF assms(1) True] lookup_def
      GetObjectImpl_inv [OF assms(1)] split: option.splits)
  then show ?thesis using True by (simp add: Remove_def)
qed (simp add: Remove_def)

lemma Remove_present:
  assumes "table_inv t fl" and "lookup t h = Some ob"
    and "Close D (UnregisterInUseObject ob k) ob = Inr k'"
  shows "Remove D k t h = Inr (True, k', freed t (handle_index h))"
    and "table_inv (freed t (handle_index h)) (handle_index h # fl)"
    and "lookup (freed t (handle_index h)) = (lookup t)(h := None)"
proof -
  have r: "pack_reserved h = 0" and e: "entry_at t (handle_index h) = Some (ucast (pack_linear_id h), ob)"
    using assms(2) lookup_inv [OF assms(1)] by auto
  have i: "handle_index h < unat (m_table_size t)" "handle_index h \<notin> set fl" "m_objects t ! handle_index h = Some ob"
    using e entry_at_used [OF assms(1) e] by (auto simp: entry_at_Some)
  have v: "IsValidHandle d t h = Inr True" for d
    using IsValidHandle_inv [OF assms(1) r] e ucast_pack_linear_id by simp
  have "\<not> IsPseudoHandle h" using lookup_pseudo [OF assms(1)] assms(2) by fastforce
  then show "Remove D k t h = Inr (True, k', freed t (handle_index h))"
    using r v i assms(3) by (simp add: Remove_def uint_pack_index obj_info_get [OF assms(1)]
      FreeEntry_inv [OF assms(1)] Let_def)
  show inv: "table_inv (freed t (handle_index h)) (handle_index h # fl)"
    using freed_inv [OF assms(1)] i by simp
  show "lookup (freed t (handle_index h)) = (lookup t)(h := None)"
    using lookup_free [OF assms(1) inv entry_at_effect(2) [OF assms(1) i(1)] assms(2)] by simp
qed


text \<open>\<^verbatim>\<open>Register\<close> and \<^verbatim>\<open>Unreserve\<close> complete or give back a reservation.\<close>

lemma lookup_reserved: "table_inv t fl \<Longrightarrow> is_reserved t h \<Longrightarrow> lookup t h = None"
  by (cases "lookup t h") (auto simp: is_reserved_def lookup_inv entry_at_Some)

lemma handle_index_less_size:
  "uint (pack_index h) < uint (m_table_size t) \<longleftrightarrow> handle_index h < unat (m_table_size t)"
  unfolding uint_pack_index by (metis of_nat_less_iff uint_nat)

lemma Register_inv:
  assumes "table_inv t fl" and "is_reserved t h" and "Open k ob = Inr (b, k')"
    and t_eq: "t' = entered t (handle_index h) (ucast (pack_linear_id h)) ob"
  shows "Register k t h ob = Inr (k', t')" and "table_inv t' fl" and "lookup t' = (lookup t)(h \<mapsto> ob)"
proof -
  have r: "pack_reserved h = 0" "pack_linear_id h \<noteq> 0" and i: "handle_index h < unat (m_table_size t)"
    "handle_index h \<notin> set fl" and n: "m_objects t ! handle_index h = None"
    using assms(2) table_inv_free_list [OF assms(1)] by (auto simp: is_reserved_def)
  have w: "used_info (ucast (pack_linear_id h))"
    using r(2) pack_less(2) [of h] arg_cong [OF ucast_pack_linear_id [of h], of unat]
    by (simp add: used_info_def MinLinearId_def MaxLinearId_def word_le_nat_alt word_less_nat_alt
      unsigned_ucast_eq unsigned_take_bit_eq take_bit_nat_eq_self unat_gt_0 Suc_le_eq)
  show "Register k t h ob = Inr (k', t')"
    using r i n assms(3) table_invD(1-3) [OF assms(1)]
    by (simp add: Register_def Let_def handle_index_less_size, simp add: uint_pack_index obj_get_def
      obj_set_def info_set_def t_eq entered_def)
  show inv: "table_inv t' fl" unfolding t_eq using entered_inv [OF assms(1) i(2,1) w] .
  have lt: "handle_index h < 1024" using i(1) table_invD(3) [OF assms(1)] by linarith
  have "h = entry_handle (handle_index h) (ucast (pack_linear_id h))"
    using entry_handle_eqI [OF lt w r(1)] by simp
  moreover have "entry_at t (handle_index h) = None" using n by (simp add: entry_at_def)
  ultimately show "lookup t' = (lookup t)(h \<mapsto> ob)"
    using lookup_enter(1) [OF assms(1) inv, of "handle_index h" "ucast (pack_linear_id h)" ob]
      entry_at_effect(1) [OF assms(1) i(1)] lt w by (simp add: t_eq)
qed

lemma Unreserve_inv:
  assumes "table_inv t fl" and "is_reserved t h"
  shows "Unreserve k t h = Inr (freed t (handle_index h))"
    and "table_inv (freed t (handle_index h)) (handle_index h # fl)"
    and "lookup (freed t (handle_index h)) = lookup t"
proof -
  have r: "pack_reserved h = 0" "pack_linear_id h \<noteq> 0" and i: "handle_index h < unat (m_table_size t)"
    "handle_index h \<notin> set fl" and n: "m_objects t ! handle_index h = None"
    using assms(2) table_inv_free_list [OF assms(1)] by (auto simp: is_reserved_def)
  show "Unreserve k t h = Inr (freed t (handle_index h))"
    using r i n by (simp add: Unreserve_def Let_def handle_index_less_size,
      simp add: uint_pack_index obj_info_get [OF assms(1)] FreeEntry_inv [OF assms(1)])
  show inv: "table_inv (freed t (handle_index h)) (handle_index h # fl)"
    by (rule freed_inv [OF assms(1) i(2,1)])
  have "entry_at t (handle_index h) = None" using n by (simp add: entry_at_def)
  then have "entry_at (freed t (handle_index h)) = entry_at t"
    using entry_at_effect(2) [OF assms(1) i(1)] by auto
  then show "lookup (freed t (handle_index h)) = lookup t" by (rule lookup_same [OF assms(1) inv])
qed

text \<open>\<^verbatim>\<open>Initialize\<close> links the entries from the last to the first.\<close>

lemma free_chain_init:
  assumes "n \<le> length infos" "length infos \<le> 1024" "\<And>i. i < n \<Longrightarrow> infos ! i = word_of_int (int i - 1)"
  shows "free_chain infos (int n - 1) (rev [0..<n])"
  using assms
proof (induction n)
  case (Suc n)
  have "GetNextFreeIndex (infos ! n) = int n - 1"
    unfolding Suc.prems(3) [OF lessI] using Suc.prems by (intro GetNextFreeIndex_of_int) auto
  with Suc show ?case by simp
qed simp

lemma init_entries_ok:
  assumes "length (m_entry_infos t) = 1024" "length (m_objects t) = 1024" "i + n \<le> 1024"
    "m_free_head_index t = int i - 1"
    "\<And>j. j < i \<Longrightarrow> m_entry_infos t ! j = word_of_int (int j - 1) \<and> m_objects t ! j = None"
  shows "\<exists>t'. init_entries n (int i) t = Inr t' \<and> length (m_entry_infos t') = 1024 \<and>
    length (m_objects t') = 1024 \<and> m_free_head_index t' = int (i + n) - 1 \<and>
    (\<forall>j < i + n. m_entry_infos t' ! j = word_of_int (int j - 1) \<and> m_objects t' ! j = None) \<and>
    m_table_size t' = m_table_size t \<and> m_max_count t' = m_max_count t \<and>
    m_next_linear_id t' = m_next_linear_id t \<and> m_count t' = m_count t"
  using assms
proof (induction n arbitrary: i t)
  case (Suc n)
  let ?t = "t\<lparr>m_objects := (m_objects t)[i := None],
    m_entry_infos := (m_entry_infos t)[i := word_of_int (int i - 1)], m_free_head_index := int i\<rparr>"
  have s: "init_entries (Suc n) (int i) t = init_entries n (int (Suc i)) ?t"
    using Suc.prems by (simp add: obj_set_def info_set_def add.commute)
  have pre: "m_entry_infos ?t ! j = word_of_int (int j - 1) \<and> m_objects ?t ! j = None" if "j < Suc i" for j
    using that Suc.prems(1-3) Suc.prems(5) [of j] by (cases "j = i") auto
  have "\<exists>t'. init_entries n (int (Suc i)) ?t = Inr t' \<and> length (m_entry_infos t') = 1024 \<and>
    length (m_objects t') = 1024 \<and> m_free_head_index t' = int (Suc i + n) - 1 \<and>
    (\<forall>j < Suc i + n. m_entry_infos t' ! j = word_of_int (int j - 1) \<and> m_objects t' ! j = None) \<and>
    m_table_size t' = m_table_size ?t \<and> m_max_count t' = m_max_count ?t \<and>
    m_next_linear_id t' = m_next_linear_id ?t \<and> m_count t' = m_count ?t"
    by (rule Suc.IH) (use Suc.prems pre in auto)
  then show ?case unfolding s by simp
qed simp

lemma Initialize_inv:
  assumes "length (m_entry_infos t) = 1024" "length (m_objects t) = 1024" "sz \<le> 1024"
    and n: "n = (if sz \<le> 0 then 1024 else nat sz)"
  shows "\<exists>t'. Initialize t sz = Inr (Inr (), t') \<and> table_inv t' (rev [0..<n]) \<and>
    unat (m_table_size t') = n \<and> m_count t' = 0 \<and> lookup t' = Map.empty"
proof -
  define t0 where "t0 = t\<lparr>m_max_count := 0, m_table_size := of_nat n, m_next_linear_id := MinLinearId,
    m_count := 0, m_free_head_index := -1\<rparr>"
  have u: "unat (of_nat n :: u16) = n" using n assms(3) by (simp add: unat_of_nat take_bit_nat_eq_self)
  have w: "word_of_int (if sz \<le> 0 then int MaxTableSize else sz) = (of_nat n :: u16)"
    using n by (simp add: MaxTableSize_def)
  have "n \<le> 1024" using n assms(3) by auto
  then obtain t' where t': "init_entries n 0 t0 = Inr t'" "length (m_entry_infos t') = 1024"
    "length (m_objects t') = 1024" "m_free_head_index t' = int n - 1"
    "\<forall>j < n. m_entry_infos t' ! j = word_of_int (int j - 1) \<and> m_objects t' ! j = None"
    "m_table_size t' = of_nat n" "m_max_count t' = 0" "m_next_linear_id t' = MinLinearId" "m_count t' = 0"
    using init_entries_ok [of t0 0 n] assms(1,2) by (auto simp: t0_def)
  have "free_chain (m_entry_infos t') (int n - 1) (rev [0..<n])"
    using free_chain_init [of n "m_entry_infos t'"] t' \<open>n \<le> 1024\<close> by simp
  then have inv: "table_inv t' (rev [0..<n])"
    using t' u \<open>n \<le> 1024\<close> by (auto simp: table_inv_def MaxTableSize_def used_info_def MinLinearId_def
      MaxLinearId_def)
  have "lookup t' h = None" for h
  proof (cases "lookup t' h")
    case (Some ob)
    then show ?thesis using lookup_inv [OF inv, of h ob] t'(5,6) u by (auto simp: entry_at_Some)
  qed simp
  then have "lookup t' = Map.empty" by (rule ext)
  moreover have "Initialize t sz = Inr (Inr (), t')"
    using t'(1) assms(3) by (simp add: Initialize_def Let_def w u t0_def, simp add: MaxTableSize_def)
  ultimately show ?thesis using inv t' u by auto
qed

end
