(* ===== verification/Handle_Behaviour.thy ===== *)
theory Handle_Behaviour
  imports Handle_Laws
begin

text \<open>
  The handle table as a client sees it: a map from handles to objects (the locale
  \<open>handle_map\<close>, interpreted on the table's operations), the sequences of operations of a process
  as a step relation with its simulation by map updates, the lifetime of serials, and the
  all-or-nothing behaviour of \<open>GetMultipleObjects\<close> on the reference counts.
\<close>

section \<open>The contract of a handle map\<close>

locale handle_map =
  fixes invar :: "'s \<Rightarrow> bool"
    and find :: "'s \<Rightarrow> 'h \<Rightarrow> 'o option"
    and enter :: "'s \<Rightarrow> 'o \<Rightarrow> ('h \<times> 's) option"
    and delete :: "'s \<Rightarrow> 'h \<Rightarrow> 's option"
  assumes enter_laws: "invar s \<Longrightarrow> enter s ob = Some (h, s') \<Longrightarrow>
      invar s' \<and> find s h = None \<and> find s' = (find s)(h \<mapsto> ob)"
    and delete_laws: "invar s \<Longrightarrow> delete s h = Some s' \<Longrightarrow>
      invar s' \<and> find s h \<noteq> None \<and> find s' = (find s)(h := None)"
begin

lemma enter_find: "invar s \<Longrightarrow> enter s ob = Some (h, s') \<Longrightarrow> find s' h = Some ob"
  using enter_laws by fastforce

lemma enter_others:
  "invar s \<Longrightarrow> enter s ob = Some (h, s') \<Longrightarrow> find s h' = Some ob' \<Longrightarrow> find s' h' = Some ob' \<and> h' \<noteq> h"
  using enter_laws by fastforce

lemma enter_delete:
  "invar s \<Longrightarrow> enter s ob = Some (h, s') \<Longrightarrow> delete s' h = Some s'' \<Longrightarrow> find s'' = find s"
  using enter_laws [of s ob h s'] delete_laws [of s' h s''] by auto

lemma delete_twice:
  assumes "invar s" and "delete s h = Some s'"
  shows "delete s' h = None"
proof (rule ccontr)
  assume "delete s' h \<noteq> None"
  then obtain s'' where "delete s' h = Some s''" by blast
  with delete_laws [OF assms] delete_laws [of s' h s''] show False by simp
qed

end

section \<open>Operations of a process as steps\<close>

type_synonym handle_state = "Kernel \<times> KHandleTable"

definition add_result :: "handle_state \<Rightarrow> kobject \<Rightarrow> (Handle \<times> handle_state) option" where
  "add_result s ob = (case Add (fst s) (snd s) ob of
      Inr (Inr h, k, t) \<Rightarrow> Some (h, k, t) | _ \<Rightarrow> None)"

definition remove_result :: "destructor \<Rightarrow> handle_state \<Rightarrow> Handle \<Rightarrow> handle_state option" where
  "remove_result D s h = (case Remove D (fst s) (snd s) h of
      Inr (True, k, t) \<Rightarrow> Some (k, t) | _ \<Rightarrow> None)"

datatype handle_event =
  Added Handle kobject | Removed Handle | Reserved Handle | Registered Handle kobject
| Unreserved Handle | Refused | Elsewhere

text \<open>One operation of the table that returns. \<^verbatim>\<open>Register\<close> and \<^verbatim>\<open>Unreserve\<close> are called with a
  reserved handle, as their assertions demand; \<open>Elsewhere\<close> is everything other parts of the
  kernel do to the objects in between.\<close>

inductive table_step :: "destructor \<Rightarrow> handle_state \<Rightarrow> handle_event \<Rightarrow> handle_state \<Rightarrow> bool"
  for D where
  step_add: "Add k t ob = Inr (Inr h, k', t') \<Longrightarrow> table_step D (k, t) (Added h ob) (k', t')"
| step_add_full: "Add k t ob = Inr (Inl e, k', t') \<Longrightarrow> table_step D (k, t) Refused (k', t')"
| step_remove: "Remove D k t h = Inr (True, k', t') \<Longrightarrow> table_step D (k, t) (Removed h) (k', t')"
| step_remove_bad: "Remove D k t h = Inr (False, k', t') \<Longrightarrow> table_step D (k, t) Refused (k', t')"
| step_reserve: "Reserve k t = Inr (Inr h, t') \<Longrightarrow> table_step D (k, t) (Reserved h) (k, t')"
| step_reserve_full: "Reserve k t = Inr (Inl e, t') \<Longrightarrow> table_step D (k, t) Refused (k, t')"
| step_register: "is_reserved t h \<Longrightarrow> Register k t h ob = Inr (k', t') \<Longrightarrow>
    table_step D (k, t) (Registered h ob) (k', t')"
| step_unreserve: "is_reserved t h \<Longrightarrow> Unreserve k t h = Inr t' \<Longrightarrow>
    table_step D (k, t) (Unreserved h) (k, t')"
| step_elsewhere: "table_step D (k, t) Elsewhere (k', t)"

inductive table_run :: "destructor \<Rightarrow> handle_state \<Rightarrow> handle_event list \<Rightarrow> handle_state \<Rightarrow> bool"
  for D where
  run_nil: "table_run D s [] s"
| run_cons: "table_step D s e s' \<Longrightarrow> table_run D s' es s'' \<Longrightarrow> table_run D s (e # es) s''"

inductive_cases table_stepE: "table_step D s e s'"
inductive_cases table_run_consE: "table_run D s (e # es) s'"

text \<open>The specification: what an event does to the map, and which handles it gives out.\<close>

fun event_effect :: "handle_event \<Rightarrow> (Handle \<rightharpoonup> kobject) \<Rightarrow> (Handle \<rightharpoonup> kobject)" where
  "event_effect (Added h ob) m = m(h \<mapsto> ob)"
| "event_effect (Registered h ob) m = m(h \<mapsto> ob)"
| "event_effect (Removed h) m = m(h := None)"
| "event_effect _ m = m"

fun given_out :: "handle_event \<Rightarrow> Handle list" where
  "given_out (Added h ob) = [h]"
| "given_out (Reserved h) = [h]"
| "given_out _ = []"

section \<open>Every step keeps the invariant and simulates its map update\<close>

lemma Add_cases:
  assumes "table_inv t fl" and "Add k t ob = Inr (r, k', t')"
  obtains i fl' b where "fl = i # fl'" "Open k ob = Inr (b, k')"
      "r = Inr (entry_handle i (m_next_linear_id t))"
      "t' = entered (allocated t i) i (m_next_linear_id t) ob"
    | "fl = []" "r = Inl ResultOutOfHandles" "k' = k" "t' = t"
proof (cases fl)
  case Nil
  then show ?thesis using full_inv(1) [of t k ob] assms that(2) by simp
next
  case (Cons i fl')
  then have inv: "table_inv t (i # fl')" using assms(1) by simp
  have lt: "m_count t < m_table_size t" using table_full_iff [OF inv] by simp
  obtain b k1 where o: "Open k ob = Inr (b, k1)"
    using assms(2) lt unfolding Add_def AllocateLinearId_def Let_def
    by (auto simp: bindF_eq_Inr split: prod.splits)
  show ?thesis
    using Add_inv(1) [OF inv o refl refl] assms(2) Cons o that(1) by auto
qed

lemma Remove_cases:
  assumes "table_inv t fl" and "Remove D k t h = Inr (r, k', t')"
  obtains ob where "lookup t h = Some ob" "Close D (UnregisterInUseObject ob k) ob = Inr k'" "r = True"
      "t' = freed t (handle_index h)"
    | "lookup t h = None" "r = False" "k' = k" "t' = t"
proof (cases "lookup t h")
  case None
  have "r = False" "k' = k" "t' = t" using Remove_absent [OF assms(1) None, of D k] assms(2) by auto
  with None show ?thesis by (rule that(2))
next
  case (Some ob)
  have "pack_reserved h = 0" and e: "entry_at t (handle_index h) = Some (ucast (pack_linear_id h), ob)"
    using Some lookup_inv [OF assms(1)] by auto
  obtain k1 where c: "Close D (UnregisterInUseObject ob k) ob = Inr k1"
  proof (cases "Close D (UnregisterInUseObject ob k) ob")
    case (Inl f)
    have "\<not> IsPseudoHandle h" using lookup_pseudo [OF assms(1)] Some by fastforce
    moreover have "obj_get t (uint (pack_index h)) = Inr (Some ob)"
      using e obj_info_get(1) [OF assms(1), of "handle_index h"] by (simp add: entry_at_Some uint_pack_index)
    moreover have "IsValidHandle d t h = Inr True" for d
      using IsValidHandle_inv [OF assms(1) \<open>pack_reserved h = 0\<close>] e ucast_pack_linear_id by simp
    ultimately show ?thesis
      using Inl assms(2) \<open>pack_reserved h = 0\<close> by (simp add: Remove_def bindF_eq_Inr Let_def)
  qed (use that in auto)
  show ?thesis using Remove_present(1) [OF assms(1) Some c] assms(2) Some c that(1) by auto
qed

lemma Register_cases:
  assumes "table_inv t fl" and "is_reserved t h" and "Register k t h ob = Inr (k', t')"
  obtains b where "Open k ob = Inr (b, k')" "t' = entered t (handle_index h) (ucast (pack_linear_id h)) ob"
proof -
  obtain b k1 where o: "Open k ob = Inr (b, k1)"
  proof (cases "Open k ob")
    case (Inl f)
    have "handle_index h < unat (m_table_size t)" using assms(2) by (simp add: is_reserved_def)
    then show ?thesis using Inl assms(3)
      by (auto simp: Register_def Let_def bindF_eq_Inr handle_index_less_size)
  qed (use that in auto)
  show ?thesis using Register_inv(1) [OF assms(1,2) o refl] assms(3) o that by auto
qed

lemma Add_effect:
  assumes "table_ok t" and "Add k t ob = Inr (r, k', t')"
  shows "table_ok t' \<and> (case r of
      Inl e \<Rightarrow> e = ResultOutOfHandles \<and> m_count t = m_table_size t \<and> k' = k \<and> t' = t
    | Inr h \<Rightarrow> lookup t h = None \<and> lookup t' = (lookup t)(h \<mapsto> ob) \<and>
        pack_linear_id h = ucast (m_next_linear_id t) \<and>
        m_next_linear_id t' = next_id (m_next_linear_id t))"
proof -
  from assms(1) obtain fl where inv: "table_inv t fl" by (auto simp: table_ok_inv)
  show ?thesis
  proof (cases rule: Add_cases [OF inv assms(2)])
    case (1 i fl' b)
    then have inv': "table_inv t (i # fl')" using inv by simp
    have "i < 1024" "used_info (m_next_linear_id t)"
      using inv' by (auto simp: table_inv_def MaxTableSize_def)
    then have "pack_linear_id (entry_handle i (m_next_linear_id t)) = ucast (m_next_linear_id t)"
      by (rule entry_handle_pack(2))
    with Add_inv(2-4) [OF inv' 1(2) refl refl] 1(3,4) show ?thesis
      by (auto simp: table_ok_inv entered_def allocated_def)
  next
    case 2
    then have "unat (m_count t) = unat (m_table_size t)" using table_invD(4) [OF inv] by simp
    with 2 assms(1) show ?thesis by (simp add: word_unat_eq_iff)
  qed
qed

lemma Remove_effect:
  assumes "table_ok t" and "Remove D k t h = Inr (r, k', t')"
  shows "table_ok t' \<and> r = (lookup t h \<noteq> None) \<and> lookup t' = (lookup t)(h := None) \<and>
    m_next_linear_id t' = m_next_linear_id t"
proof -
  from assms(1) obtain fl where inv: "table_inv t fl" by (auto simp: table_ok_inv)
  show ?thesis
  proof (cases rule: Remove_cases [OF inv assms(2)])
    case (1 ob)
    then show ?thesis
      using Remove_present(2,3) [OF inv 1(1,2)] by (auto simp: table_ok_inv freed_def)
  next
    case 2
    then show ?thesis using assms(1) by auto
  qed
qed

lemma Reserve_effect:
  assumes "table_ok t" and "Reserve k t = Inr (r, t')"
  shows "table_ok t' \<and> lookup t' = lookup t \<and> (case r of
      Inl e \<Rightarrow> e = ResultOutOfHandles \<and> t' = t
    | Inr h \<Rightarrow> is_reserved t' h \<and> pack_linear_id h = ucast (m_next_linear_id t) \<and>
        m_next_linear_id t' = next_id (m_next_linear_id t))"
proof -
  from assms(1) obtain fl where inv: "table_inv t fl" by (auto simp: table_ok_inv)
  show ?thesis
  proof (cases fl)
    case Nil
    then show ?thesis using full_inv(2) [of t k] inv assms by simp
  next
    case (Cons i fl')
    then have inv': "table_inv t (i # fl')" using inv by simp
    have "i < 1024" "used_info (m_next_linear_id t)"
      using inv' by (auto simp: table_inv_def MaxTableSize_def)
    then have "pack_linear_id (entry_handle i (m_next_linear_id t)) = ucast (m_next_linear_id t)"
      by (rule entry_handle_pack(2))
    with Reserve_inv(1) [OF inv', of k] Reserve_inv(2,3) [OF inv'] allocated_inv [OF inv'] assms(2) show ?thesis
      by (auto simp: table_ok_inv allocated_def)
  qed
qed

lemma Register_effect:
  assumes "table_ok t" and "is_reserved t h" and "Register k t h ob = Inr (k', t')"
  shows "table_ok t' \<and> lookup t' = (lookup t)(h \<mapsto> ob) \<and> m_next_linear_id t' = m_next_linear_id t"
proof -
  from assms(1) obtain fl where inv: "table_inv t fl" by (auto simp: table_ok_inv)
  show ?thesis
  proof (cases rule: Register_cases [OF inv assms(2,3)])
    case (1 b)
    then show ?thesis
      using Register_inv(2,3) [OF inv assms(2) 1] by (auto simp: table_ok_inv entered_def)
  qed
qed

lemma Unreserve_effect:
  assumes "table_ok t" and "is_reserved t h" and "Unreserve k t h = Inr t'"
  shows "table_ok t' \<and> lookup t' = lookup t \<and> m_next_linear_id t' = m_next_linear_id t"
proof -
  from assms(1) obtain fl where inv: "table_inv t fl" by (auto simp: table_ok_inv)
  show ?thesis using Unreserve_inv [OF inv assms(2)] assms(3) by (auto simp: table_ok_inv freed_def)
qed

lemma table_step_simulates:
  assumes "table_step D s e s'" and "table_ok (snd s)"
  shows "table_ok (snd s') \<and> lookup (snd s') = event_effect e (lookup (snd s))"
  using assms
proof cases
  case (step_add k t ob h k' t')
  then show ?thesis using Add_effect [OF _ step_add(4)] assms(2) by simp
next
  case (step_add_full k t ob r k' t')
  then show ?thesis using Add_effect [OF _ step_add_full(4)] assms(2) by simp
next
  case (step_remove k t h k' t')
  then show ?thesis using Remove_effect [OF _ step_remove(4)] assms(2) by simp
next
  case (step_remove_bad k t h k' t')
  then show ?thesis using Remove_effect [OF _ step_remove_bad(4)] assms(2) by (auto simp: fun_upd_idem)
next
  case (step_reserve k t h t')
  then show ?thesis using Reserve_effect [OF _ step_reserve(4)] assms(2) by simp
next
  case (step_reserve_full k t r t')
  then show ?thesis using Reserve_effect [OF _ step_reserve_full(4)] assms(2) by simp
next
  case (step_register t h k ob k' t')
  then show ?thesis using Register_effect [OF _ step_register(4,5)] assms(2) by simp
next
  case (step_unreserve t h k t')
  then show ?thesis using Unreserve_effect [OF _ step_unreserve(4,5)] assms(2) by simp
next
  case (step_elsewhere k t k')
  then show ?thesis using assms(2) by simp
qed


interpretation table: handle_map "\<lambda>s. table_ok (snd s)" "\<lambda>s. lookup (snd s)" add_result "remove_result D"
  for D
proof
  fix s ob h s'
  assume "table_ok (snd s)" and "add_result s ob = Some (h, s')"
  then show "table_ok (snd s') \<and> lookup (snd s) h = None \<and> lookup (snd s') = (lookup (snd s))(h \<mapsto> ob)"
    using Add_effect [of "snd s" "fst s" ob "Inr h" "fst s'" "snd s'"]
    by (auto simp: add_result_def split: sum.splits)
next
  fix s h s'
  assume "table_ok (snd s)" and "remove_result D s h = Some s'"
  then show "table_ok (snd s') \<and> lookup (snd s) h \<noteq> None \<and> lookup (snd s') = (lookup (snd s))(h := None)"
    using Remove_effect [of "snd s" D "fst s" h True "fst s'" "snd s'"]
    by (auto simp: remove_result_def split: sum.splits bool.splits)
qed

section \<open>Serials\<close>

lemma unat_ucast_u16: "unat (ucast (w :: u16) :: u32) = unat w"
  using unsigned_less [of w, where ?'a = nat]
  by (simp add: unsigned_ucast_eq unsigned_take_bit_eq take_bit_nat_eq_self)

lemma id_position:
  assumes "used_info w"
  shows "unat (next_id w) - 1 = (unat w - 1 + 1) mod 32767" and "1 \<le> unat w" and "unat w \<le> 32767"
proof -
  show b: "1 \<le> unat w" "unat w \<le> 32767"
    using assms by (auto simp: used_info_def MinLinearId_def MaxLinearId_def word_le_nat_alt)
  have u: "unat (w + 1) = unat w + 1" using b by (simp add: unat_word_ariths)
  show "unat (next_id w) - 1 = (unat w - 1 + 1) mod 32767"
    using b u by (auto simp: next_id_def MinLinearId_def MaxLinearId_def word_less_nat_alt mod_if)
qed

lemma table_ok_next_id: "table_ok t \<Longrightarrow> used_info (m_next_linear_id t)"
  by (auto simp: table_ok_inv table_inv_def)

lemma table_step_serial:
  assumes "table_step D s e s'" and "table_ok (snd s)"
  shows "case given_out e of
      [] \<Rightarrow> m_next_linear_id (snd s') = m_next_linear_id (snd s)
    | h # _ \<Rightarrow> pack_linear_id h = ucast (m_next_linear_id (snd s)) \<and>
        m_next_linear_id (snd s') = next_id (m_next_linear_id (snd s))"
  using assms
proof cases
  case (step_add k t ob h k' t')
  then show ?thesis using Add_effect [OF _ step_add(4)] assms(2) by simp
next
  case (step_add_full k t ob r k' t')
  then show ?thesis using Add_effect [OF _ step_add_full(4)] assms(2) by simp
next
  case (step_remove k t h k' t')
  then show ?thesis using Remove_effect [OF _ step_remove(4)] assms(2) by simp
next
  case (step_remove_bad k t h k' t')
  then show ?thesis using Remove_effect [OF _ step_remove_bad(4)] assms(2) by simp
next
  case (step_reserve k t h t')
  then show ?thesis using Reserve_effect [OF _ step_reserve(4)] assms(2) by simp
next
  case (step_reserve_full k t r t')
  then show ?thesis using Reserve_effect [OF _ step_reserve_full(4)] assms(2) by simp
next
  case (step_register t h k ob k' t')
  then show ?thesis using Register_effect [OF _ step_register(4,5)] assms(2) by simp
next
  case (step_unreserve t h k t')
  then show ?thesis using Unreserve_effect [OF _ step_unreserve(4,5)] assms(2) by simp
qed simp

definition all_given :: "handle_event list \<Rightarrow> Handle list" where
  "all_given es = concat (map given_out es)"

lemma all_given_simps [simp]: "all_given [] = []" "all_given (e # es) = given_out e @ all_given es"
  by (simp_all add: all_given_def)

text \<open>The serial of the \<open>j\<close>-th handle that a run gives out.\<close>

lemma run_serial:
  assumes "table_run D s es s'" and "table_ok (snd s)" and "j < length (all_given es)"
  shows "unat (pack_linear_id (all_given es ! j)) - 1 =
      (unat (m_next_linear_id (snd s)) - 1 + j) mod 32767 \<and>
    1 \<le> unat (pack_linear_id (all_given es ! j))"
  using assms
proof (induction arbitrary: j rule: table_run.induct)
  case (run_cons s e s' es s'')
  have ok: "table_ok (snd s')" using table_step_simulates [OF run_cons.hyps(1) run_cons.prems(1)] by simp
  note ser = table_step_serial [OF run_cons.hyps(1) run_cons.prems(1)]
  note pos = id_position [OF table_ok_next_id [OF run_cons.prems(1)]]
  consider (none) "given_out e = []" | (one) h where "given_out e = [h]" by (cases e) auto
  then show ?case
  proof cases
    case none
    then show ?thesis using run_cons.IH [OF ok, of j] run_cons.prems(2) ser by simp
  next
    case (one h)
    show ?thesis
    proof (cases j)
      case 0
      have "unat (pack_linear_id h) = unat (m_next_linear_id (snd s))"
        using ser one by (simp add: unat_ucast_u16)
      then show ?thesis using one 0 pos by simp
    next
      case (Suc i)
      then have "i < length (all_given es)" using run_cons.prems(2) one by simp
      note IH = run_cons.IH [OF ok this]
      have "m_next_linear_id (snd s') = next_id (m_next_linear_id (snd s))" using ser one by simp
      then have "unat (m_next_linear_id (snd s')) - 1 = (unat (m_next_linear_id (snd s)) - 1 + 1) mod 32767"
        using pos(1) by simp
      then show ?thesis using IH one Suc by (simp add: mod_simps ac_simps)
    qed
  qed
qed simp

lemma table_run_simulates:
  assumes "table_run D s es s'" and "table_ok (snd s)"
  shows "table_ok (snd s') \<and> lookup (snd s') = fold event_effect es (lookup (snd s))"
  using assms
proof (induction rule: table_run.induct)
  case (run_cons s e s' es s'')
  then show ?case using table_step_simulates [OF run_cons.hyps(1) run_cons.prems] by simp
qed simp


section \<open>Opening several handles\<close>

text \<open>The kernel after one more reference to each object of a list.\<close>

definition bumped :: "kobject list \<Rightarrow> Kernel \<Rightarrow> Kernel" where
  "bumped obs k = k\<lparr>live_objects := (\<lambda>ob. map_option
    (\<lambda>a. a\<lparr>m_ref_count := m_ref_count a + of_nat (count_list obs ob)\<rparr>) (live_objects k ob))\<rparr>"

text \<open>Every object of the table is alive and can take \<open>n\<close> more references.\<close>

definition objects_live :: "nat \<Rightarrow> Kernel \<Rightarrow> KHandleTable \<Rightarrow> bool" where
  "objects_live n k t \<longleftrightarrow> (\<forall>ob \<in> ran (lookup t). \<exists>a. live_objects k ob = Some a \<and>
    0 < m_ref_count a \<and> unat (m_ref_count a) + n < 2 ^ 32)"

definition names_class :: "ObjectType \<Rightarrow> Kernel \<Rightarrow> KHandleTable \<Rightarrow> Handle \<Rightarrow> bool" where
  "names_class T k t h \<longleftrightarrow> (case lookup t h of None \<Rightarrow> False
    | Some ob \<Rightarrow> (case live_objects k ob of None \<Rightarrow> False | Some a \<Rightarrow> IsDerivedFrom a T))"

lemma bumped_select [simp]:
  "use_debug_asserts (bumped obs k) = use_debug_asserts k"
  "live_objects (bumped obs k) ob = map_option
    (\<lambda>a. a\<lparr>m_ref_count := m_ref_count a + of_nat (count_list obs ob)\<rparr>) (live_objects k ob)"
  by (simp_all add: bumped_def)

lemma bumped_Nil [simp]: "bumped [] k = k"
  by (simp add: bumped_def option.map_ident)

lemma unat_add_of_nat:
  "unat (w :: u32) + n < 2 ^ 32 \<Longrightarrow> unat (w + of_nat n) = unat w + n"
  by (simp add: unat_word_ariths unat_of_nat take_bit_nat_eq_self)

lemma Open_bumped:
  assumes "live_objects k ob = Some a" "0 < m_ref_count a"
    "unat (m_ref_count a) + count_list obs ob + 1 < 2 ^ 32"
  shows "Open (bumped obs k) ob = Inr (True, bumped (obs @ [ob]) k)"
proof -
  let ?a = "a\<lparr>m_ref_count := m_ref_count a + of_nat (count_list obs ob)\<rparr>"
  have u: "unat (m_ref_count ?a) = unat (m_ref_count a) + count_list obs ob"
    using unat_add_of_nat [of "m_ref_count a" "count_list obs ob"] assms(3) by simp
  have "Open (bumped obs k) ob = Inr (True, set_ref_count ob ?a (m_ref_count ?a + 1) (bumped obs k))"
    by (rule Open_live) (use assms u in \<open>auto simp: word_less_nat_alt\<close>)
  also have "set_ref_count ob ?a (m_ref_count ?a + 1) (bumped obs k) = bumped (obs @ [ob]) k"
    using assms(1) by (auto simp: set_ref_count_def bumped_def fun_eq_iff ac_simps)
  finally show ?thesis .
qed

lemma Close_bumped:
  assumes "live_objects k ob = Some a" "0 < m_ref_count a"
    "unat (m_ref_count a) + count_list (ob # obs) ob < 2 ^ 32"
  shows "Close D (bumped (ob # obs) k) ob = Inr (bumped obs k)"
proof -
  let ?a = "a\<lparr>m_ref_count := m_ref_count a + of_nat (count_list (ob # obs) ob)\<rparr>"
  have u: "unat (m_ref_count ?a) = unat (m_ref_count a) + count_list (ob # obs) ob"
    using unat_add_of_nat [of "m_ref_count a" "count_list (ob # obs) ob"] assms(3) by simp
  have "Close D (bumped (ob # obs) k) ob =
      Inr (set_ref_count ob ?a (m_ref_count ?a - 1) (bumped (ob # obs) k))"
    by (rule Close_many) (use assms u in \<open>auto simp: word_less_nat_alt\<close>)
  also have "set_ref_count ob ?a (m_ref_count ?a - 1) (bumped (ob # obs) k) = bumped obs k"
    using assms(1) by (auto simp: set_ref_count_def bumped_def fun_eq_iff)
  finally show ?thesis .
qed

lemma open_handles_bumped:
  assumes "table_inv t fl" and "objects_live (length obs + length hs) k t"
  shows "open_handles T t hs (bumped obs k) =
    (let out = map (\<lambda>h. the (lookup t h)) (takeWhile (names_class T k t) hs) in
     Inr (out, bumped (obs @ out) k))"
  using assms(2)
proof (induction hs arbitrary: obs)
  case (Cons h hs)
  show ?case
  proof (cases "lookup t h")
    case None
    then show ?thesis by (simp add: GetObjectImpl_lookup [OF assms(1)] names_class_def)
  next
    case (Some ob)
    then obtain a where a: "live_objects k ob = Some a" "0 < m_ref_count a"
      "unat (m_ref_count a) + (length obs + length (h # hs)) < 2 ^ 32"
      using Cons.prems by (auto simp: objects_live_def ran_def)
    have d: "DynamicCast T (bumped obs k) ob = Inr (if IsDerivedFrom a T then Some ob else None)"
      using a(1) by (simp add: DynamicCast_def get_object_def IsDerivedFrom_def)
    have n: "names_class T k t h = IsDerivedFrom a T" using Some a(1) by (simp add: names_class_def)
    have "Open (bumped obs k) ob = Inr (True, bumped (obs @ [ob]) k)"
      using a count_le_length [of obs ob] by (intro Open_bumped) auto
    then show ?thesis
      using Some d n Cons.IH [of "obs @ [ob]"] Cons.prems
      by (auto simp: GetObjectImpl_lookup [OF assms(1)] Let_def)
  qed
qed simp

lemma close_all_bumped:
  assumes "\<And>ob. ob \<in> set obs \<Longrightarrow> \<exists>a. live_objects k ob = Some a \<and> 0 < m_ref_count a \<and>
    unat (m_ref_count a) + length obs < 2 ^ 32"
  shows "close_all D obs (bumped obs k) = Inr k"
  using assms
proof (induction obs)
  case (Cons ob obs)
  then obtain a where a: "live_objects k ob = Some a" "0 < m_ref_count a"
    "unat (m_ref_count a) + length (ob # obs) < 2 ^ 32"
    by (meson list.set_intros(1))
  have c: "Close D (bumped (ob # obs) k) ob = Inr (bumped obs k)"
    using a count_le_length [of obs ob] by (intro Close_bumped) auto
  have "close_all D obs (bumped obs k) = Inr k"
  proof (rule Cons.IH)
    fix x assume "x \<in> set obs"
    then show "\<exists>a. live_objects k x = Some a \<and> 0 < m_ref_count a \<and>
        unat (m_ref_count a) + length obs < 2 ^ 32"
      using Cons.prems [of x] by auto
  qed
  with c show ?case by simp
qed simp


section \<open>A table and a kernel to run on\<close>

definition sample_kernel :: Kernel where
  "sample_kernel = \<lparr>use_debug_asserts = True,
    live_objects = [7 \<mapsto> \<lparr>m_ref_count = 1, m_class_token = GetClassToken KThread\<rparr>,
                    8 \<mapsto> \<lparr>m_ref_count = 1, m_class_token = GetClassToken KResourceLimit\<rparr>],
    registered_objects = {7, 8}, registered_in_use_objects = {}\<rparr>"

definition no_destroy :: destructor where
  "no_destroy ob k = k"

definition sample_table :: KHandleTable where
  "sample_table = (case Initialize new_KHandleTable 2 of Inr (_, t) \<Rightarrow> t | Inl _ \<Rightarrow> new_KHandleTable)"

lemma sample_table_inv:
  "table_inv sample_table [1, 0]" "lookup sample_table = Map.empty" "m_next_linear_id sample_table = 1"
proof -
  obtain t where t: "Initialize new_KHandleTable 2 = Inr (Inr (), t)" "table_inv t (rev [0..<2])"
    "lookup t = Map.empty"
    using Initialize_inv [of new_KHandleTable 2 2] by (auto simp: new_KHandleTable_def MaxTableSize_def)
  then show "table_inv sample_table [1, 0]" "lookup sample_table = Map.empty"
    by (simp_all add: sample_table_def upt_rec)
  have "m_next_linear_id t = 1"
    using t(1) init_entries_ok [of "new_KHandleTable\<lparr>m_max_count := 0, m_table_size := 2,
      m_next_linear_id := MinLinearId, m_count := 0, m_free_head_index := -1\<rparr>" 0 2]
    by (auto simp: Initialize_def Let_def MaxTableSize_def new_KHandleTable_def MinLinearId_def)
  with t(1) show "m_next_linear_id sample_table = 1" by (simp add: sample_table_def)
qed

lemma sample_table_ok: "table_ok sample_table"
  using sample_table_inv by (auto simp: table_ok_inv)

definition sample_handle :: Handle where
  "sample_handle = EncodeHandle 1 1"

definition sample_added :: handle_state where
  "sample_added = (set_ref_count 7 \<lparr>m_ref_count = 1, m_class_token = GetClassToken KThread\<rparr> 2 sample_kernel,
    entered (allocated sample_table 1) 1 1 7)"

lemma sample_Add:
  "Add sample_kernel sample_table 7 = Inr (Inr sample_handle, sample_added)"
  "table_inv (snd sample_added) [0]" "lookup (snd sample_added) = [sample_handle \<mapsto> 7]"
proof -
  have o: "Open sample_kernel 7 = Inr (True, set_ref_count 7
      \<lparr>m_ref_count = 1, m_class_token = GetClassToken KThread\<rparr> 2 sample_kernel)"
    by (simp add: Open_def get_object_def sample_kernel_def set_ref_count_def Let_def)
  have h: "sample_handle = entry_handle 1 (m_next_linear_id sample_table)"
    by (simp add: sample_table_inv sample_handle_def entry_handle_def)
  note A = Add_inv [OF sample_table_inv(1) o h refl]
  show "Add sample_kernel sample_table 7 = Inr (Inr sample_handle, sample_added)"
    using A(1) by (simp add: sample_added_def sample_table_inv(3))
  show "table_inv (snd sample_added) [0]" using A(2) by (simp add: sample_added_def sample_table_inv(3))
  show "lookup (snd sample_added) = [sample_handle \<mapsto> 7]"
    using A(3) by (simp add: sample_added_def sample_table_inv(2,3))
qed

lemma sample_live:
  "live_objects (fst sample_added) 7 = Some \<lparr>m_ref_count = 2, m_class_token = GetClassToken KThread\<rparr>"
  by (simp add: sample_added_def)

lemma sample_added_ok: "table_ok (snd sample_added)"
  using sample_Add by (auto simp: table_ok_inv)

lemma sample_Remove:
  "\<exists>k t. Remove no_destroy (fst sample_added) (snd sample_added) sample_handle = Inr (True, k, t)"
proof -
  have "\<exists>k. Close no_destroy (UnregisterInUseObject 7 (fst sample_added)) 7 = Inr k"
    by (simp add: sample_added_def Close_def get_object_def UnregisterInUseObject_def Let_def
      sample_kernel_def set_ref_count_def)
  then show ?thesis using Remove_present(1) [OF sample_Add(2)] sample_Add(3) by fastforce
qed

section \<open>The properties\<close>

text \<open>C19: refinement. A run of table operations, in any order and with anything happening to the
  kernel's objects in between, keeps the invariant and acts on the lookups exactly as the
  sequence of map updates that its events name.\<close>

theorem handle_table_refines_map:
  assumes "table_run D (k, t) es (k', t')" and "table_ok t"
  shows "table_ok t' \<and> lookup t' = fold event_effect es (lookup t)"
  using table_run_simulates [OF assms(1)] assms(2) by simp

theorem handle_table_refines_map_witness:
  "\<exists>k t. table_run no_destroy (sample_kernel, sample_table) [Added sample_handle 7, Removed sample_handle] (k, t)
    \<and> table_ok t \<and> lookup t = Map.empty"
proof -
  obtain k t where r: "Remove no_destroy (fst sample_added) (snd sample_added) sample_handle = Inr (True, k, t)"
    using sample_Remove by blast
  have run: "table_run no_destroy (sample_kernel, sample_table) [Added sample_handle 7, Removed sample_handle] (k, t)"
    using step_add [of sample_kernel sample_table 7 sample_handle "fst sample_added" "snd sample_added"]
      step_remove [OF r] sample_Add(1) by (auto intro!: run_cons run_nil)
  then show ?thesis
    using handle_table_refines_map [OF run sample_table_ok] by (auto simp: sample_table_inv(2))
qed

text \<open>C20: safety. After a handle was given out, none of the next 32766 handles that the table gives
  out, for added objects or for reservations, is that handle again, whatever was removed in
  between: a stale handle stays dead for a full round of serials.\<close>

theorem handle_not_reused:
  assumes "table_ok t" and "Add k t ob = Inr (Inr h, k1, t1)" and "table_run D (k1, t1) es s"
    and "length (all_given es) < 32767"
  shows "h \<notin> set (all_given es)"
proof
  assume "h \<in> set (all_given es)"
  then obtain j where j: "j < length (all_given es)" "all_given es ! j = h" by (auto simp: in_set_conv_nth)
  note E = Add_effect [OF assms(1,2)]
  have ok: "table_ok (snd (k1, t1))" and nx: "m_next_linear_id t1 = next_id (m_next_linear_id t)"
    and lid: "unat (pack_linear_id h) = unat (m_next_linear_id t)"
    using E by (simp_all add: unat_ucast_u16)
  note p = id_position [OF table_ok_next_id [OF assms(1)]]
  have "unat (pack_linear_id h) - 1 = (unat (m_next_linear_id t1) - 1 + j) mod 32767"
    using run_serial [OF assms(3) ok j(1)] j(2) by simp
  also have "\<dots> = (unat (m_next_linear_id t) - 1 + 1 + j) mod 32767" by (simp only: nx p(1) mod_add_left_eq)
  finally have e: "unat (m_next_linear_id t) - 1 = (unat (m_next_linear_id t) - 1 + 1 + j) mod 32767"
    by (simp only: lid)
  have "unat (m_next_linear_id t) - 1 < 32767" using p(2,3) by linarith
  then have "(unat (m_next_linear_id t) - 1 + (1 + j)) mod 32767 = (unat (m_next_linear_id t) - 1) mod 32767"
    using e by (simp only: add.assoc mod_less)
  then have "32767 dvd 1 + j" by (metis add_diff_cancel_left' mod_eq_dvd_iff_nat le_add1)
  then show False using j(1) assms(4) by (auto dest: dvd_imp_le)
qed

theorem handle_not_reused_witness:
  "\<exists>h t1. Reserve (fst sample_added) (snd sample_added) = Inr (Inr h, t1) \<and> sample_handle \<noteq> h"
proof -
  note R = Reserve_inv(1) [OF sample_Add(2), of "fst sample_added"]
  have run: "table_run no_destroy (fst sample_added, snd sample_added)
      [Reserved (entry_handle 0 (m_next_linear_id (snd sample_added)))]
      (fst sample_added, allocated (snd sample_added) 0)"
    using step_reserve [OF R] by (auto intro: run_cons run_nil)
  have "Add sample_kernel sample_table 7 = Inr (Inr sample_handle, fst sample_added, snd sample_added)"
    using sample_Add(1) by simp
  from handle_not_reused [OF sample_table_ok this run] R show ?thesis by auto
qed


text \<open>C21: error behaviour. With an object that can be opened, \<^verbatim>\<open>Add\<close> always returns: with
  \<^verbatim>\<open>ResultOutOfHandles\<close> and nothing changed exactly when all the capacity is in use, and
  otherwise with a handle that looks the object up, was not valid before, is not a pseudo
  handle, and costs one entry and one reference.\<close>

theorem Add_returns:
  assumes "table_ok t" and "live_objects k ob = Some a" and "0 < m_ref_count a"
    and "unat (m_ref_count a) + 1 < 2 ^ 32"
  shows "(m_count t = m_table_size t \<longrightarrow> Add k t ob = Inr (Inl ResultOutOfHandles, k, t)) \<and>
    (m_count t \<noteq> m_table_size t \<longrightarrow> (\<exists>h t'.
      Add k t ob = Inr (Inr h, set_ref_count ob a (m_ref_count a + 1) k, t') \<and>
      GetObjectImpl (use_debug_asserts k) t' h = Inr (Some ob) \<and>
      GetObjectImpl (use_debug_asserts k) t h = Inr None \<and> \<not> IsPseudoHandle h \<and>
      m_count t' = m_count t + 1))"
proof -
  from assms(1) obtain fl where inv: "table_inv t fl" by (auto simp: table_ok_inv)
  show ?thesis
  proof (cases fl)
    case Nil
    then have "m_count t = m_table_size t"
      using table_invD(4) [OF inv] by (simp add: word_unat_eq_iff)
    then show ?thesis using full_inv(1) [of t k ob] inv Nil by simp
  next
    case (Cons i fl')
    then have inv': "table_inv t (i # fl')" using inv by simp
    have ne: "m_count t \<noteq> m_table_size t" using table_full_iff [OF inv'] by auto
    note A = Add_inv [OF inv' Open_live [OF assms(2-4)] refl refl]
    have "\<not> IsPseudoHandle (entry_handle i (m_next_linear_id t))"
      using lookup_pseudo [OF A(2)] A(3) by fastforce
    then show ?thesis
      using A ne GetObjectImpl_lookup [OF A(2)] GetObjectImpl_lookup [OF inv']
      by (auto simp: entered_def allocated_def)
  qed
qed

theorem Add_returns_witness:
  "\<exists>h t'. Add sample_kernel sample_table 7 = Inr (Inr h, set_ref_count 7
      \<lparr>m_ref_count = 1, m_class_token = GetClassToken KThread\<rparr> 2 sample_kernel, t') \<and>
    GetObjectImpl True t' h = Inr (Some 7)"
proof -
  have "m_count sample_table \<noteq> m_table_size sample_table"
    using table_full_iff [OF sample_table_inv(1)] by auto
  then show ?thesis
    using Add_returns [OF sample_table_ok, of sample_kernel 7
      "\<lparr>m_ref_count = 1, m_class_token = GetClassToken KThread\<rparr>"]
    by (auto simp: sample_kernel_def)
qed

text \<open>C22: round trip. Adding an object and removing the handle it got leaves every lookup as it
  was before, and the handle cannot be removed a second time.\<close>

theorem Add_Remove_round_trip:
  assumes "table_ok t" and "Add k t ob = Inr (Inr h, k1, t1)" and "Remove D k1 t1 h = Inr (True, k2, t2)"
  shows "lookup t1 h = Some ob \<and> lookup t2 = lookup t \<and> Remove D k2 t2 h = Inr (False, k2, t2)"
proof -
  have a: "add_result (k, t) ob = Some (h, k1, t1)" and r: "remove_result D (k1, t1) h = Some (k2, t2)"
    using assms(2,3) by (simp_all add: add_result_def remove_result_def)
  have ok: "table_ok t1" "table_ok t2" and n: "lookup t2 h = None"
    using table.enter_laws [OF _ a] table.delete_laws [OF _ r] assms(1) by auto
  then obtain fl where "table_inv t2 fl" by (auto simp: table_ok_inv)
  from Remove_absent [OF this n] show ?thesis
    using table.enter_find [OF _ a] table.enter_delete [OF _ a r] assms(1) by simp
qed

theorem Add_Remove_round_trip_witness:
  "\<exists>k t. Remove no_destroy (fst sample_added) (snd sample_added) sample_handle = Inr (True, k, t) \<and>
    Remove no_destroy k t sample_handle = Inr (False, k, t)"
proof -
  obtain k t where r: "Remove no_destroy (fst sample_added) (snd sample_added) sample_handle = Inr (True, k, t)"
    using sample_Remove by blast
  have "Add sample_kernel sample_table 7 = Inr (Inr sample_handle, fst sample_added, snd sample_added)"
    using sample_Add(1) by simp
  from Add_Remove_round_trip [OF sample_table_ok this r] r show ?thesis by blast
qed

text \<open>C23: safety. \<^verbatim>\<open>GetMultipleObjects\<close> takes all references or none: if every handle names an
  object of the class asked for, it returns their objects in order with one reference more per
  handle, and otherwise every reference it took is given back and the kernel is as before.\<close>

theorem GetMultipleObjects_all_or_nothing:
  assumes "table_ok t" and "objects_live (length hs) k t"
  shows "(list_all (names_class T k t) hs \<longrightarrow>
      GetMultipleObjects T D k t hs = Inr (True, map (\<lambda>h. the (lookup t h)) hs,
        bumped (map (\<lambda>h. the (lookup t h)) hs) k)) \<and>
    (\<not> list_all (names_class T k t) hs \<longrightarrow>
      (\<exists>out. GetMultipleObjects T D k t hs = Inr (False, out, k)))"
proof -
  from assms(1) obtain fl where inv: "table_inv t fl" by (auto simp: table_ok_inv)
  let ?good = "takeWhile (names_class T k t) hs"
  define out where "out = map (\<lambda>h. the (lookup t h)) ?good"
  have o: "open_handles T t hs k = Inr (out, bumped out k)"
    using open_handles_bumped [OF inv, of "[]" hs k T] assms(2) by (simp add: out_def Let_def)
  show ?thesis
  proof (cases "list_all (names_class T k t) hs")
    case True
    then have g: "?good = hs" by (simp add: list_all_iff takeWhile_eq_all_conv)
    show ?thesis using o True unfolding out_def g by (simp add: GetMultipleObjects_def)
  next
    case False
    then have ne: "length out \<noteq> length hs"
      by (metis length_map list_all_iff out_def takeWhile_eq_all_conv takeWhile_eq_take take_all_iff
        order_refl)
    have le: "length out \<le> length hs" by (simp add: out_def length_takeWhile_le)
    have "close_all D out (bumped out k) = Inr k"
    proof (rule close_all_bumped)
      fix ob assume "ob \<in> set out"
      then obtain h where "names_class T k t h" "ob = the (lookup t h)"
        by (auto simp: out_def dest: set_takeWhileD)
      then have "ob \<in> ran (lookup t)" by (auto simp: names_class_def ran_def split: option.splits)
      then show "\<exists>a. live_objects k ob = Some a \<and> 0 < m_ref_count a \<and>
          unat (m_ref_count a) + length out < 2 ^ 32"
        using assms(2) le by (fastforce simp: objects_live_def)
    qed
    then show ?thesis using o False ne by (simp add: GetMultipleObjects_def)
  qed
qed

theorem GetMultipleObjects_all_or_nothing_witness:
  "\<exists>out. GetMultipleObjects KSynchronizationObject no_destroy (fst sample_added) (snd sample_added)
    [sample_handle, 5] = Inr (False, out, fst sample_added)"
proof -
  have "objects_live (length [sample_handle, 5]) (fst sample_added) (snd sample_added)"
    by (simp add: objects_live_def sample_Add(3) sample_live)
  moreover have "\<not> list_all (names_class KSynchronizationObject (fst sample_added) (snd sample_added)) [sample_handle, 5]"
    by (simp add: names_class_def sample_Add(3) sample_handle_def EncodeHandle_def Assign_def
      FormatValue_def bit_field_mask_def mask_eq_exp_minus_1)
  ultimately show ?thesis
    using GetMultipleObjects_all_or_nothing [OF sample_added_ok] by blast
qed

text \<open>\<^verbatim>\<open>Initialize\<close> refuses more than 1024 entries; otherwise it makes an empty table
  with exactly the capacity asked for (1024 for sizes that are not positive) whose invariant
  holds, whatever the table held before.\<close>

theorem Initialize_capacity:
  assumes "length (m_entry_infos t) = MaxTableSize" and "length (m_objects t) = MaxTableSize"
  shows "(1024 < sz \<longrightarrow> Initialize t sz = Inr (Inl ResultOutOfMemory, t)) \<and>
    (sz \<le> 1024 \<longrightarrow> (\<exists>t'. Initialize t sz = Inr (Inr (), t') \<and> table_ok t' \<and>
      length (free_list t') = (if sz \<le> 0 then 1024 else nat sz) \<and>
      (\<forall>h. GetObjectImpl False t' h = Inr None)))"
proof (cases "1024 < sz")
  case True
  then show ?thesis by (simp add: Initialize_def MaxTableSize_def)
next
  case False
  define n where "n = (if sz \<le> 0 then 1024 else nat sz)"
  obtain t' where "Initialize t sz = Inr (Inr (), t')" and inv: "table_inv t' (rev [0..<n])"
    and "lookup t' = Map.empty"
    using Initialize_inv [of t sz n] assms False by (auto simp: n_def MaxTableSize_def)
  then show ?thesis
    using False table_inv_free_list [OF inv] GetObjectImpl_lookup [OF inv]
    by (auto simp: table_ok_inv n_def)
qed

theorem Initialize_capacity_witness:
  "\<exists>t'. Initialize new_KHandleTable 0 = Inr (Inr (), t') \<and> length (free_list t') = 1024"
  using Initialize_capacity [of new_KHandleTable 0] by (auto simp: new_KHandleTable_def)

text \<open>C32. A lookup for a class returns an object exactly when the handle names one whose
  class derives from it: the class tokens decide the class hierarchy.\<close>

theorem GetObject_by_class:
  assumes "table_ok t" and "lookup t h = Some ob" and "live_objects k ob = Some a"
    and "m_class_token a = GetClassToken U" and "is_class U" and "is_class T"
    and "0 < m_ref_count a" and "unat (m_ref_count a) + 1 < 2 ^ 32"
  shows "GetObject T k cur_process cur_thread t h =
    (if derived_from U T then Inr (Some ob, set_ref_count ob a (m_ref_count a + 1) k) else Inr (None, k))"
proof -
  from assms(1) obtain fl where inv: "table_inv t fl" by (auto simp: table_ok_inv)
  have np: "h \<noteq> CurrentProcess" "h \<noteq> CurrentThread"
    using lookup_pseudo [OF inv, of h] assms(2) by (auto simp: IsPseudoHandle_def)
  have top: "derived_from U KAutoObject"
    using assms(5) by (cases U) (simp_all add: is_class_def derived_from.simps)
  have "DynamicCast T k ob = Inr (if derived_from U T then Some ob else None)"
    using assms(3-6) by (simp add: DynamicCast_def get_object_def IsDerivedFrom_def token_derived_from)
  then show ?thesis
    using np top Open_live [OF assms(3,7,8)] assms(2)
    by (auto simp: GetObject_def GetObjectWithoutPseudoHandle_def GetObjectImpl_lookup [OF inv]
      scoped_object_def)
qed

theorem GetObject_by_class_witness:
  "GetObject KResourceLimit (fst sample_added) None None (snd sample_added) sample_handle =
    Inr (None, fst sample_added)"
proof -
  have "\<not> derived_from KThread KResourceLimit" by (simp add: derived_from.simps)
  then show ?thesis
    using GetObject_by_class [OF sample_added_ok, of sample_handle 7 "fst sample_added"
      "\<lparr>m_ref_count = 2, m_class_token = GetClassToken KThread\<rparr>" KThread KResourceLimit]
    by (simp add: sample_Add(3) is_class_def sample_live)
qed

end
