(* ===== verification/Resource_Limit.thy ===== *)
theory Resource_Limit
  imports Kernel_Objects
begin

text \<open>
  Resource limits (\<^verbatim>\<open>core/hle/kernel/k_resource_limit.cpp\<close>) and the scoped reservation built on them
  (\<^verbatim>\<open>k_scoped_resource_reservation.h\<close>). The four arrays hold \<^verbatim>\<open>s64\<close> values, here integers whose
  arithmetic faults where the signed addition of the source would overflow. \<^verbatim>\<open>Reserve\<close> holds the
  lock except while it waits on the condition variable: one pass of its loop is \<open>reserve_iter\<close>,
  which returns or asks to wait, and \<open>Reserve\<close> runs it along a schedule that gives, for every
  wait, what the other threads did to the limit meanwhile and the tick at which the thread goes
  on. A schedule that ends during a wait leaves the thread waiting, as a value of the result.
\<close>

section \<open>State\<close>

definition s64_min :: int where
  "s64_min = - (2 ^ 63)"

definition s64_max :: int where
  "s64_max = 2 ^ 63 - 1"

definition s64_value :: "int \<Rightarrow> kernel_fault + int" where
  "s64_value x = (if s64_min \<le> x \<and> x \<le> s64_max then Inr x else Inl SignedOverflow)"

definition WrappingAdd :: "int \<Rightarrow> int \<Rightarrow> int" where
  "WrappingAdd lhs rhs = sint (word_of_int lhs + word_of_int rhs :: u64)"

definition LimitableResource_Count :: nat where
  "LimitableResource_Count = 5"

definition PhysicalMemoryMax :: nat where "PhysicalMemoryMax = 0"
definition ThreadCountMax :: nat where "ThreadCountMax = 1"
definition EventCountMax :: nat where "EventCountMax = 2"
definition TransferMemoryCountMax :: nat where "TransferMemoryCountMax = 3"
definition SessionCountMax :: nat where "SessionCountMax = 4"

definition IsValidResourceType :: "nat \<Rightarrow> bool" where
  "IsValidResourceType which \<longleftrightarrow> which < LimitableResource_Count"

text \<open>The counter of waiting threads is an integer without bounds: it counts threads, and overflows after 2 ^ 31 of them.\<close>

record resource_limit =
  m_limit_values :: "int list"
  m_current_values :: "int list"
  m_current_hints :: "int list"
  m_peak_values :: "int list"
  m_waiter_count :: int

definition new_KResourceLimit :: resource_limit where
  "new_KResourceLimit = \<lparr>m_limit_values = replicate LimitableResource_Count 0,
    m_current_values = replicate LimitableResource_Count 0,
    m_current_hints = replicate LimitableResource_Count 0,
    m_peak_values = replicate LimitableResource_Count 0, m_waiter_count = 0\<rparr>"

text \<open>The four values at an index; an index outside the arrays is a fault.\<close>

definition values_at :: "resource_limit \<Rightarrow> nat \<Rightarrow> kernel_fault + int \<times> int \<times> int \<times> int" where
  "values_at r i = bindF (arr_get KIndexOutOfRange (m_limit_values r) i) (\<lambda>limit.
    bindF (arr_get KIndexOutOfRange (m_current_values r) i) (\<lambda>current.
    bindF (arr_get KIndexOutOfRange (m_current_hints r) i) (\<lambda>hint.
    bindF (arr_get KIndexOutOfRange (m_peak_values r) i) (\<lambda>peak.
    Inr (limit, current, hint, peak)))))"

section \<open>Reading and setting\<close>

definition GetLimitValue :: "bool \<Rightarrow> resource_limit \<Rightarrow> nat \<Rightarrow> kernel_fault + int" where
  "GetLimitValue dbg r i = bindF (values_at r i) (\<lambda>(limit, current, hint, peak).
    bindF (ASSERT dbg (limit \<ge> 0)) (\<lambda>_.
    bindF (ASSERT dbg (current \<le> limit)) (\<lambda>_.
    bindF (ASSERT dbg (hint \<le> current)) (\<lambda>_. Inr limit))))"

definition GetCurrentValue :: "bool \<Rightarrow> resource_limit \<Rightarrow> nat \<Rightarrow> kernel_fault + int" where
  "GetCurrentValue dbg r i = bindF (values_at r i) (\<lambda>(limit, current, hint, peak).
    bindF (ASSERT dbg (current \<ge> 0)) (\<lambda>_.
    bindF (ASSERT dbg (current \<le> limit)) (\<lambda>_.
    bindF (ASSERT dbg (hint \<le> current)) (\<lambda>_. Inr current))))"

definition GetPeakValue :: "bool \<Rightarrow> resource_limit \<Rightarrow> nat \<Rightarrow> kernel_fault + int" where
  "GetPeakValue dbg r i = bindF (values_at r i) (\<lambda>(limit, current, hint, peak).
    bindF (ASSERT dbg (peak \<ge> 0)) (\<lambda>_.
    bindF (ASSERT dbg (current \<le> limit)) (\<lambda>_.
    bindF (ASSERT dbg (hint \<le> current)) (\<lambda>_. Inr peak))))"

definition GetFreeValue :: "bool \<Rightarrow> resource_limit \<Rightarrow> nat \<Rightarrow> kernel_fault + int" where
  "GetFreeValue dbg r i = bindF (values_at r i) (\<lambda>(limit, current, hint, peak).
    bindF (ASSERT dbg (current \<ge> 0)) (\<lambda>_.
    bindF (ASSERT dbg (current \<le> limit)) (\<lambda>_.
    bindF (ASSERT dbg (hint \<le> current)) (\<lambda>_. s64_value (limit - current)))))"

definition SetLimitValue ::
  "resource_limit \<Rightarrow> nat \<Rightarrow> int \<Rightarrow> kernel_fault + (KResult + unit) \<times> resource_limit" where
  "SetLimitValue r i v = bindF (values_at r i) (\<lambda>(limit, current, hint, peak).
    if current \<le> v then
      Inr (Inr (), r\<lparr>m_limit_values := (m_limit_values r)[i := v],
                     m_peak_values := (m_peak_values r)[i := current]\<rparr>)
    else Inr (Inl ResultInvalidState, r))"

section \<open>Reserving\<close>

datatype reserve_step = Returns bool resource_limit | Waits resource_limit

definition reserve_iter ::
  "bool \<Rightarrow> resource_limit \<Rightarrow> nat \<Rightarrow> int \<Rightarrow> int \<Rightarrow> int \<Rightarrow> kernel_fault + reserve_step" where
  "reserve_iter dbg r i v timeout tick = bindF (values_at r i) (\<lambda>(limit, current, hint, peak).
    bindF (ASSERT dbg (current \<le> limit)) (\<lambda>_.
    bindF (ASSERT dbg (hint \<le> current)) (\<lambda>_.
    if WrappingAdd current v \<le> current then Inr (Returns False r)
    else bindF (s64_value (current + v)) (\<lambda>total.
      if total \<le> limit then
        bindF (s64_value (hint + v)) (\<lambda>hints.
        Inr (Returns True (r\<lparr>m_current_values := (m_current_values r)[i := total],
          m_current_hints := (m_current_hints r)[i := hints],
          m_peak_values := (m_peak_values r)[i := max peak total]\<rparr>)))
      else bindF (s64_value (hint + v)) (\<lambda>hints.
        if hints \<le> limit \<and> (timeout < 0 \<or> tick < timeout) then
          Inr (Waits (r\<lparr>m_waiter_count := m_waiter_count r + 1\<rparr>))
        else Inr (Returns False r))))))"

type_synonym wakeup = "(resource_limit \<Rightarrow> resource_limit) \<times> int"

fun reserve_loop ::
  "bool \<Rightarrow> nat \<Rightarrow> int \<Rightarrow> int \<Rightarrow> wakeup list \<Rightarrow> resource_limit \<Rightarrow> int \<Rightarrow> kernel_fault + reserve_step" where
  "reserve_loop dbg i v timeout ws r tick = bindF (reserve_iter dbg r i v timeout tick) (\<lambda>s. case s of
      Returns b r \<Rightarrow> Inr (Returns b r)
    | Waits r \<Rightarrow> (case ws of
          [] \<Rightarrow> Inr (Waits r)
        | (others, tick') # ws' \<Rightarrow> let r = others r in
            reserve_loop dbg i v timeout ws' (r\<lparr>m_waiter_count := m_waiter_count r - 1\<rparr>) tick'))"

declare reserve_loop.simps [simp del]

definition Reserve_until ::
  "bool \<Rightarrow> resource_limit \<Rightarrow> nat \<Rightarrow> int \<Rightarrow> int \<Rightarrow> int \<Rightarrow> wakeup list \<Rightarrow> kernel_fault + reserve_step" where
  "Reserve_until dbg r i v timeout tick ws = bindF (ASSERT dbg (v \<ge> 0)) (\<lambda>_.
    bindF (values_at r i) (\<lambda>(limit, current, hint, peak).
    bindF (ASSERT dbg (hint \<le> current)) (\<lambda>_.
    if hint \<ge> limit then Inr (Returns False r)
    else reserve_loop dbg i v timeout ws r tick)))"

definition DefaultTimeout :: int where
  "DefaultTimeout = 10000000000"

definition Reserve ::
  "bool \<Rightarrow> resource_limit \<Rightarrow> nat \<Rightarrow> int \<Rightarrow> int \<Rightarrow> wakeup list \<Rightarrow> kernel_fault + reserve_step" where
  "Reserve dbg r i v tick ws =
    bindF (s64_value (tick + DefaultTimeout)) (\<lambda>timeout. Reserve_until dbg r i v timeout tick ws)"

section \<open>Releasing\<close>

text \<open>The flag says whether the waiting threads are woken.\<close>

definition Release_hint ::
  "bool \<Rightarrow> resource_limit \<Rightarrow> nat \<Rightarrow> int \<Rightarrow> int \<Rightarrow> kernel_fault + bool \<times> resource_limit" where
  "Release_hint dbg r i v hnt = bindF (ASSERT dbg (v \<ge> 0)) (\<lambda>_.
    bindF (ASSERT dbg (hnt \<ge> 0)) (\<lambda>_.
    bindF (values_at r i) (\<lambda>(limit, current, hint, peak).
    bindF (ASSERT dbg (current \<le> limit)) (\<lambda>_.
    bindF (ASSERT dbg (hint \<le> current)) (\<lambda>_.
    bindF (ASSERT dbg (v \<le> current)) (\<lambda>_.
    bindF (ASSERT dbg (hnt \<le> hint)) (\<lambda>_.
    bindF (s64_value (current - v)) (\<lambda>c.
    bindF (s64_value (hint - hnt)) (\<lambda>h.
    Inr (m_waiter_count r \<noteq> 0,
      r\<lparr>m_current_values := (m_current_values r)[i := c],
        m_current_hints := (m_current_hints r)[i := h]\<rparr>))))))))))"

definition Release :: "bool \<Rightarrow> resource_limit \<Rightarrow> nat \<Rightarrow> int \<Rightarrow> kernel_fault + bool \<times> resource_limit" where
  "Release dbg r i v = Release_hint dbg r i v v"

text \<open>\<^verbatim>\<open>CreateResourceLimitForProcess\<close>: the assertions around the calls are soft, so the calls are
  made in any case.\<close>

definition set_limit :: "bool \<Rightarrow> nat \<Rightarrow> int \<Rightarrow> resource_limit \<Rightarrow> kernel_fault + resource_limit" where
  "set_limit dbg i v r = bindF (SetLimitValue r i v) (\<lambda>(res, r).
    bindF (ASSERT dbg (res = Inr ())) (\<lambda>_. Inr r))"

definition CreateResourceLimitForProcess :: "bool \<Rightarrow> int \<Rightarrow> kernel_fault + resource_limit" where
  "CreateResourceLimitForProcess dbg physical_memory_size =
    bindF (set_limit dbg PhysicalMemoryMax physical_memory_size new_KResourceLimit) (\<lambda>r.
    bindF (set_limit dbg ThreadCountMax 800 r) (\<lambda>r.
    bindF (set_limit dbg EventCountMax 900 r) (\<lambda>r.
    bindF (set_limit dbg TransferMemoryCountMax 200 r) (\<lambda>r.
    set_limit dbg SessionCountMax 1133 r))))"

section \<open>Scoped reservations\<close>

record KScopedResourceReservation =
  m_limit :: bool
  m_value :: int
  m_resource :: nat
  m_succeeded :: bool

text \<open>\<open>m_limit\<close> tells whether the pointer to the limit \<open>r\<close> is not null. The constructor with an
  explicit timeout; \<open>None\<close> is a constructor still waiting.\<close>

definition scoped_reservation ::
  "bool \<Rightarrow> bool \<Rightarrow> resource_limit \<Rightarrow> nat \<Rightarrow> int \<Rightarrow> int \<Rightarrow> int \<Rightarrow> wakeup list
    \<Rightarrow> kernel_fault + (KScopedResourceReservation \<times> resource_limit) option" where
  "scoped_reservation dbg has_limit r which v timeout tick ws =
    (if has_limit \<and> v \<noteq> 0 then
       bindF (Reserve_until dbg r which v timeout tick ws) (\<lambda>s. case s of
           Waits r \<Rightarrow> Inr None
         | Returns b r \<Rightarrow> Inr (Some (\<lparr>m_limit = has_limit, m_value = v, m_resource = which,
             m_succeeded = b\<rparr>, r)))
     else Inr (Some (\<lparr>m_limit = has_limit, m_value = v, m_resource = which, m_succeeded = True\<rparr>, r)))"

definition scoped_destroy ::
  "bool \<Rightarrow> KScopedResourceReservation \<Rightarrow> resource_limit \<Rightarrow> kernel_fault + resource_limit" where
  "scoped_destroy dbg s r =
    (if m_limit s \<and> m_value s \<noteq> 0 \<and> m_succeeded s then
       bindF (Release dbg r (m_resource s) (m_value s)) (\<lambda>(_, r). Inr r)
     else Inr r)"

definition Commit :: "KScopedResourceReservation \<Rightarrow> KScopedResourceReservation" where
  "Commit s = s\<lparr>m_limit := False\<rparr>"

end
