(* ===== verification/Resource_Laws.thy ===== *)
theory Resource_Laws
  imports Resource_Limit
begin

text \<open>
  What resource limits promise: \<open>rl_ok\<close> (hints at most the current value, that at most the peak,
  and that at most the limit) is kept by every operation and makes every assertion of the source
  hold; the current value is always the sum of what is reserved and not yet released, for any
  interleaving of threads that reserve, wait, go on and release; and a reservation with a
  timeout returns.
\<close>

section \<open>Invariant and specification\<close>

definition limit_of :: "resource_limit \<Rightarrow> nat \<Rightarrow> int" where "limit_of r i = m_limit_values r ! i"
definition current_of :: "resource_limit \<Rightarrow> nat \<Rightarrow> int" where "current_of r i = m_current_values r ! i"
definition hint_of :: "resource_limit \<Rightarrow> nat \<Rightarrow> int" where "hint_of r i = m_current_hints r ! i"
definition peak_of :: "resource_limit \<Rightarrow> nat \<Rightarrow> int" where "peak_of r i = m_peak_values r ! i"

lemmas of_defs = limit_of_def current_of_def hint_of_def peak_of_def

definition rl_ok :: "resource_limit \<Rightarrow> bool" where
  "rl_ok r \<longleftrightarrow> length (m_limit_values r) = LimitableResource_Count \<and>
    length (m_current_values r) = LimitableResource_Count \<and>
    length (m_current_hints r) = LimitableResource_Count \<and>
    length (m_peak_values r) = LimitableResource_Count \<and>
    (\<forall>i < LimitableResource_Count. 0 \<le> hint_of r i \<and> hint_of r i \<le> current_of r i \<and>
      current_of r i \<le> peak_of r i \<and> peak_of r i \<le> limit_of r i \<and> limit_of r i \<le> s64_max)"

text \<open>What one pass of the loop of \<open>Reserve\<close> decides.\<close>

definition reserve_spec :: "resource_limit \<Rightarrow> nat \<Rightarrow> int \<Rightarrow> int \<Rightarrow> int \<Rightarrow> reserve_step" where
  "reserve_spec r i v timeout tick =
    (if v = 0 \<or> s64_max < current_of r i + v then Returns False r
     else if current_of r i + v \<le> limit_of r i then
       Returns True (r\<lparr>m_current_values := (m_current_values r)[i := current_of r i + v],
         m_current_hints := (m_current_hints r)[i := hint_of r i + v],
         m_peak_values := (m_peak_values r)[i := max (peak_of r i) (current_of r i + v)]\<rparr>)
     else if hint_of r i + v \<le> limit_of r i \<and> (timeout < 0 \<or> tick < timeout) then
       Waits (r\<lparr>m_waiter_count := m_waiter_count r + 1\<rparr>)
     else Returns False r)"

text \<open>Threads and their reservations: a reservation holds some value and some hint of a resource;
  a waiting thread is a call of \<open>Reserve\<close> inside the condition variable.\<close>

type_synonym holding = "nat \<times> int \<times> int"
type_synonym waiting = "nat \<times> int \<times> int"
type_synonym rl_system = "resource_limit \<times> holding list \<times> waiting list"

definition held :: "holding list \<Rightarrow> nat \<Rightarrow> int" where
  "held hs i = sum_list (map (\<lambda>(j, v, h). if j = i then v else 0) hs)"

definition hinted :: "holding list \<Rightarrow> nat \<Rightarrow> int" where
  "hinted hs i = sum_list (map (\<lambda>(j, v, h). if j = i then h else 0) hs)"

definition valid_request :: "nat \<Rightarrow> int \<Rightarrow> bool" where
  "valid_request i v \<longleftrightarrow> i < LimitableResource_Count \<and> 0 \<le> v \<and> v \<le> s64_max"

definition granted :: "bool \<Rightarrow> nat \<Rightarrow> int \<Rightarrow> holding list \<Rightarrow> holding list" where
  "granted b i v hs = (if b then (i, v, v) # hs else hs)"

text \<open>The critical sections of the limit's lock, in the order the threads enter them. A thread
  releases at most what its reservation still holds, and never leaves more hint than value.\<close>

inductive rl_step :: "bool \<Rightarrow> rl_system \<Rightarrow> rl_system \<Rightarrow> bool" for dbg where
  rl_call: "valid_request i v \<Longrightarrow> Reserve_until dbg r i v timeout tick [] = Inr (Returns b r') \<Longrightarrow>
    rl_step dbg (r, hs, ws) (r', granted b i v hs, ws)"
| rl_call_waits: "valid_request i v \<Longrightarrow> Reserve_until dbg r i v timeout tick [] = Inr (Waits r') \<Longrightarrow>
    rl_step dbg (r, hs, ws) (r', hs, (i, v, timeout) # ws)"
| rl_resume: "reserve_loop dbg i v timeout [] (r\<lparr>m_waiter_count := m_waiter_count r - 1\<rparr>) tick
      = Inr (Returns b r') \<Longrightarrow>
    rl_step dbg (r, hs, ws1 @ (i, v, timeout) # ws2) (r', granted b i v hs, ws1 @ ws2)"
| rl_resume_waits: "reserve_loop dbg i v timeout [] (r\<lparr>m_waiter_count := m_waiter_count r - 1\<rparr>) tick
      = Inr (Waits r') \<Longrightarrow>
    rl_step dbg (r, hs, ws1 @ (i, v, timeout) # ws2) (r', hs, ws1 @ (i, v, timeout) # ws2)"
| rl_release: "0 \<le> v \<Longrightarrow> 0 \<le> hnt \<Longrightarrow> v \<le> hv \<Longrightarrow> hnt \<le> hh \<Longrightarrow> hh - hnt \<le> hv - v \<Longrightarrow>
    Release_hint dbg r i v hnt = Inr (woken, r') \<Longrightarrow>
    rl_step dbg (r, hs1 @ (i, hv, hh) # hs2, ws) (r', hs1 @ (i, hv - v, hh - hnt) # hs2, ws)"
| rl_set_limit: "i < LimitableResource_Count \<Longrightarrow> v \<le> s64_max \<Longrightarrow> SetLimitValue r i v = Inr (res, r') \<Longrightarrow>
    rl_step dbg (r, hs, ws) (r', hs, ws)"

definition holding_ok :: "holding \<Rightarrow> bool" where
  "holding_ok x \<longleftrightarrow> (case x of (i, v, h) \<Rightarrow> i < LimitableResource_Count \<and> 0 \<le> h \<and> h \<le> v)"

definition waiting_ok :: "waiting \<Rightarrow> bool" where
  "waiting_ok x \<longleftrightarrow> (case x of (i, v, _) \<Rightarrow> valid_request i v)"

definition rl_account :: "rl_system \<Rightarrow> bool" where
  "rl_account s \<longleftrightarrow> (case s of (r, hs, ws) \<Rightarrow>
    rl_ok r \<and> m_waiter_count r = int (length ws) \<and> list_all holding_ok hs \<and> list_all waiting_ok ws \<and>
    (\<forall>i < LimitableResource_Count. current_of r i = held hs i \<and> hint_of r i = hinted hs i))"

inductive rl_reachable :: "bool \<Rightarrow> rl_system \<Rightarrow> rl_system \<Rightarrow> bool" for dbg where
  rl_refl: "rl_reachable dbg s s"
| rl_trans: "rl_reachable dbg s s' \<Longrightarrow> rl_step dbg s' s'' \<Longrightarrow> rl_reachable dbg s s''"

section \<open>The operations under the invariant\<close>

lemma rl_okD:
  assumes "rl_ok r" and "i < LimitableResource_Count"
  shows "0 \<le> hint_of r i" "hint_of r i \<le> current_of r i" "current_of r i \<le> peak_of r i"
    "peak_of r i \<le> limit_of r i" "limit_of r i \<le> s64_max"
    "values_at r i = Inr (limit_of r i, current_of r i, hint_of r i, peak_of r i)"
  using assms by (auto simp: rl_ok_def values_at_def of_defs)

lemma s64_value_ok [simp]: "s64_min \<le> x \<Longrightarrow> x \<le> s64_max \<Longrightarrow> s64_value x = Inr x"
  by (simp add: s64_value_def)

lemma s64_value_nonneg: "0 \<le> x \<Longrightarrow> x \<le> s64_max \<Longrightarrow> s64_value x = Inr x"
  by (rule s64_value_ok) (simp_all add: s64_min_def)

lemma WrappingAdd_cases:
  assumes "0 \<le> c" "c \<le> s64_max" "0 \<le> v" "v \<le> s64_max"
  shows "WrappingAdd c v = (if c + v \<le> s64_max then c + v else c + v - 2 ^ 64)"
proof -
  have "WrappingAdd c v = signed_take_bit 63 (c + v)"
    by (simp add: WrappingAdd_def signed_of_int flip: of_int_add)
  also have "\<dots> = (if c + v \<le> s64_max then c + v else c + v - 2 ^ 64)"
  proof (cases "c + v \<le> s64_max")
    case True
    then show ?thesis using assms by (simp add: signed_take_bit_int_eq_self s64_max_def)
  next
    case False
    have "signed_take_bit 63 (c + v) = signed_take_bit 63 (c + v - 2 ^ 64)"
      unfolding signed_take_bit_eq_iff_take_bit_eq take_bit_eq_mod by simp
    also have "\<dots> = c + v - 2 ^ 64"
      using False assms by (intro signed_take_bit_int_eq_self) (auto simp: s64_max_def)
    finally show ?thesis using False by simp
  qed
  finally show ?thesis .
qed

lemma WrappingAdd_le:
  assumes "0 \<le> c" "c \<le> s64_max" "0 \<le> v" "v \<le> s64_max"
  shows "WrappingAdd c v \<le> c \<longleftrightarrow> v = 0 \<or> s64_max < c + v"
  unfolding WrappingAdd_cases [OF assms] using assms by (auto simp: s64_max_def)

lemma reserve_iter_spec:
  assumes "rl_ok r" and "valid_request i v"
  shows "reserve_iter dbg r i v timeout tick = Inr (reserve_spec r i v timeout tick)"
proof -
  have i: "i < LimitableResource_Count" and v: "0 \<le> v" "v \<le> s64_max"
    using assms(2) by (auto simp: valid_request_def)
  note b = rl_okD [OF assms(1) i]
  have w: "WrappingAdd (current_of r i) v \<le> current_of r i \<longleftrightarrow> v = 0 \<or> s64_max < current_of r i + v"
    by (rule WrappingAdd_le) (use b v in linarith)+
  have "s64_value (current_of r i + v) = Inr (current_of r i + v)"
    "s64_value (hint_of r i + v) = Inr (hint_of r i + v)" if "\<not> s64_max < current_of r i + v"
    by (rule s64_value_nonneg; use b v that in linarith)+
  then show ?thesis using b by (auto simp: reserve_iter_def reserve_spec_def w)
qed

lemma reserve_spec_ok:
  assumes "rl_ok r" and "valid_request i v"
  shows "case reserve_spec r i v timeout tick of Returns b r' \<Rightarrow> rl_ok r' | Waits r' \<Rightarrow> rl_ok r'"
proof -
  have i: "i < LimitableResource_Count" and v: "0 \<le> v"
    using assms(2) by (auto simp: valid_request_def)
  note b = rl_okD [OF assms(1) i]
  show ?thesis using assms(1) i v b
    by (auto simp: reserve_spec_def rl_ok_def of_defs nth_list_update max_def)
qed


lemma reserve_loop_nil:
  assumes "rl_ok r" and "valid_request i v"
  shows "reserve_loop dbg i v timeout [] r tick = Inr (reserve_spec r i v timeout tick)"
  by (simp add: reserve_loop.simps [of dbg i v timeout "[]"] reserve_iter_spec [OF assms] split: reserve_step.split)

lemma Reserve_until_nil:
  assumes "rl_ok r" and "valid_request i v"
  shows "Reserve_until dbg r i v timeout tick [] =
    Inr (if limit_of r i \<le> hint_of r i then Returns False r else reserve_spec r i v timeout tick)"
proof -
  have i: "i < LimitableResource_Count" and v: "0 \<le> v" using assms(2) by (auto simp: valid_request_def)
  show ?thesis
    using rl_okD [OF assms(1) i] v by (simp add: Reserve_until_def reserve_loop_nil [OF assms])
qed

lemma Release_hint_ok:
  assumes "rl_ok r" and "i < LimitableResource_Count" and "0 \<le> v" "0 \<le> hnt" "v \<le> current_of r i"
    "hnt \<le> hint_of r i"
  shows "Release_hint dbg r i v hnt = Inr (m_waiter_count r \<noteq> 0,
    r\<lparr>m_current_values := (m_current_values r)[i := current_of r i - v],
      m_current_hints := (m_current_hints r)[i := hint_of r i - hnt]\<rparr>)"
proof -
  note b = rl_okD [OF assms(1,2)]
  have "s64_value (current_of r i - v) = Inr (current_of r i - v)"
    "s64_value (hint_of r i - hnt) = Inr (hint_of r i - hnt)"
    by (rule s64_value_nonneg; use b assms in linarith)+
  then show ?thesis using b assms by (simp add: Release_hint_def)
qed

lemma SetLimitValue_ok:
  assumes "rl_ok r" and "i < LimitableResource_Count"
  shows "SetLimitValue r i v = (if current_of r i \<le> v
    then Inr (Inr (), r\<lparr>m_limit_values := (m_limit_values r)[i := v],
                      m_peak_values := (m_peak_values r)[i := current_of r i]\<rparr>)
    else Inr (Inl ResultInvalidState, r))"
  using rl_okD(6) [OF assms] by (simp add: SetLimitValue_def)

section \<open>The account is kept by every step\<close>

lemma held_simps [simp]:
  "held [] i = 0" "held ((j, v, h) # hs) i = (if j = i then v else 0) + held hs i"
  "held (hs1 @ hs2) i = held hs1 i + held hs2 i"
  "hinted [] i = 0" "hinted ((j, v, h) # hs) i = (if j = i then h else 0) + hinted hs i"
  "hinted (hs1 @ hs2) i = hinted hs1 i + hinted hs2 i"
  by (simp_all add: held_def hinted_def)

lemma held_nonneg:
  "list_all holding_ok hs \<Longrightarrow> 0 \<le> hinted hs i \<and> hinted hs i \<le> held hs i"
  by (induction hs) (auto simp: holding_ok_def)

text \<open>The outcome of one pass, entered in the books: \<open>r0\<close> is the limit the pass starts from,
  whose waiter count lists the threads \<open>ws\<close> other than the one that runs.\<close>

lemma account_Returns:
  assumes "rl_account (r, hs, ws)" and "valid_request i v"
    and "reserve_spec r i v timeout tick = Returns b r'"
  shows "rl_account (r', granted b i v hs, ws)"
proof -
  have ok: "rl_ok r" and i: "i < LimitableResource_Count" "0 \<le> v"
    using assms(1,2) by (auto simp: rl_account_def valid_request_def)
  have "rl_ok r'" using reserve_spec_ok [OF ok assms(2), of timeout tick] assms(3) by simp
  then show ?thesis
    using assms(1,3) i by (auto simp: rl_account_def reserve_spec_def granted_def holding_ok_def of_defs
      nth_list_update rl_ok_def split: if_splits)
qed

lemma account_Waits:
  assumes "rl_account (r, hs, ws)" and "valid_request i v"
    and "reserve_spec r i v timeout tick = Waits r'" and "ws = ws1 @ ws2"
  shows "rl_account (r', hs, ws1 @ (i, v, timeout) # ws2)"
proof -
  have "rl_ok r" using assms(1) by (simp add: rl_account_def)
  then have "rl_ok r'" using reserve_spec_ok [of r i v timeout tick] assms(2,3) by simp
  then show ?thesis
    using assms by (auto simp: rl_account_def reserve_spec_def waiting_ok_def of_defs split: if_splits)
qed

lemma account_leave:
  assumes "rl_account (r, hs, ws1 @ w # ws2)"
  shows "rl_account (r\<lparr>m_waiter_count := m_waiter_count r - 1\<rparr>, hs, ws1 @ ws2)"
  using assms by (auto simp: rl_account_def rl_ok_def of_defs)

lemma account_refused: "rl_account (r, hs, ws) \<Longrightarrow> rl_account (r, granted False i v hs, ws)"
  by (simp add: granted_def)

lemma rl_step_account:
  assumes "rl_step dbg s s'" and "rl_account s"
  shows "rl_account s'"
  using assms
proof cases
  case (rl_call i v r timeout tick b r' hs ws)
  have ok: "rl_ok r" using assms(2) rl_call(1) by (simp add: rl_account_def)
  show ?thesis
    using rl_call(4) Reserve_until_nil [OF ok rl_call(3)] account_Returns [OF _ rl_call(3)]
      account_refused assms(2) rl_call(1,2) by (auto split: if_splits)
next
  case (rl_call_waits i v r timeout tick r' hs ws)
  have ok: "rl_ok r" using assms(2) rl_call_waits(1) by (simp add: rl_account_def)
  show ?thesis
    using rl_call_waits(4) Reserve_until_nil [OF ok rl_call_waits(3)]
      account_Waits [OF _ rl_call_waits(3), of r hs ws timeout tick r' "[]" ws] assms(2) rl_call_waits(1,2)
    by (auto split: if_splits)
next
  case (rl_resume i v timeout r tick b r' hs ws1 ws2)
  let ?r = "r\<lparr>m_waiter_count := m_waiter_count r - 1\<rparr>"
  have acc: "rl_account (?r, hs, ws1 @ ws2)" using account_leave assms(2) rl_resume(1) by blast
  have ok: "rl_ok ?r" and q: "valid_request i v"
    using acc assms(2) rl_resume(1) by (auto simp: rl_account_def waiting_ok_def)
  show ?thesis
    using account_Returns [OF acc q] reserve_loop_nil [OF ok q] rl_resume by auto
next
  case (rl_resume_waits i v timeout r tick r' hs ws1 ws2)
  let ?r = "r\<lparr>m_waiter_count := m_waiter_count r - 1\<rparr>"
  have acc: "rl_account (?r, hs, ws1 @ ws2)" using account_leave assms(2) rl_resume_waits(1) by blast
  have ok: "rl_ok ?r" and q: "valid_request i v"
    using acc assms(2) rl_resume_waits(1) by (auto simp: rl_account_def waiting_ok_def)
  show ?thesis
    using account_Waits [OF acc q, of timeout tick r' ws1 ws2] reserve_loop_nil [OF ok q] rl_resume_waits by auto
next
  case (rl_release v hnt hv hh r i woken r' hs1 hs2 ws)
  have acc: "rl_account (r, hs1 @ (i, hv, hh) # hs2, ws)" using assms(2) rl_release(1) by simp
  then have ok: "rl_ok r" and i: "i < LimitableResource_Count"
    and cur: "current_of r i = held hs1 i + hv + held hs2 i" "hint_of r i = hinted hs1 i + hh + hinted hs2 i"
    and n: "list_all holding_ok hs1" "list_all holding_ok hs2"
    by (auto simp: rl_account_def holding_ok_def)
  have le: "v \<le> current_of r i" "hnt \<le> hint_of r i"
    "0 \<le> hint_of r i - hnt" "hint_of r i - hnt \<le> current_of r i - v"
    using cur held_nonneg [OF n(1), of i] held_nonneg [OF n(2), of i] rl_release(3-7) by linarith+
  have r': "r' = r\<lparr>m_current_values := (m_current_values r)[i := current_of r i - v],
      m_current_hints := (m_current_hints r)[i := hint_of r i - hnt]\<rparr>"
    using Release_hint_ok [OF ok i rl_release(3,4) le(1,2)] rl_release(8) by simp
  have "rl_ok r'"
    using ok i le rl_okD [OF ok i] rl_release(3) unfolding r' by (auto simp: rl_ok_def of_defs nth_list_update)
  then show ?thesis
    using acc i rl_release(3-7) unfolding rl_release(2) r'
    by (auto simp: rl_account_def holding_ok_def of_defs nth_list_update rl_ok_def)
next
  case (rl_set_limit i v r res r' hs ws)
  have ok: "rl_ok r" using assms(2) rl_set_limit(1) by (simp add: rl_account_def)
  show ?thesis
    using SetLimitValue_ok [OF ok rl_set_limit(3), of v] rl_set_limit assms(2) rl_okD [OF ok rl_set_limit(3)]
    by (auto simp: rl_account_def rl_ok_def of_defs nth_list_update split: if_splits)
qed


lemma rl_reachable_account: "rl_reachable dbg s s' \<Longrightarrow> rl_account s \<Longrightarrow> rl_account s'"
  by (induction rule: rl_reachable.induct) (auto intro: rl_step_account)

lemma process_limit:
  assumes "0 \<le> sz"
  shows "CreateResourceLimitForProcess dbg sz = Inr \<lparr>m_limit_values = [sz, 800, 900, 200, 1133],
    m_current_values = [0, 0, 0, 0, 0], m_current_hints = [0, 0, 0, 0, 0],
    m_peak_values = [0, 0, 0, 0, 0], m_waiter_count = 0\<rparr>"
  using assms by (simp add: CreateResourceLimitForProcess_def set_limit_def SetLimitValue_def values_at_def
    new_KResourceLimit_def LimitableResource_Count_def numeral_eq_Suc PhysicalMemoryMax_def
    ThreadCountMax_def EventCountMax_def TransferMemoryCountMax_def SessionCountMax_def)

lemma less_Count: "i < LimitableResource_Count \<longleftrightarrow> i \<in> {0, 1, 2, 3, 4}"
  by (auto simp: LimitableResource_Count_def)

lemma process_limit_account:
  assumes "0 \<le> sz" "sz \<le> s64_max" and "CreateResourceLimitForProcess dbg sz = Inr r"
  shows "rl_account (r, [], [])"
  using assms process_limit [OF assms(1), of dbg]
  by (auto simp: rl_account_def rl_ok_def less_Count of_defs s64_max_def) (simp_all add: LimitableResource_Count_def)

section \<open>Waiting\<close>

lemma rl_ok_waiter [simp]: "rl_ok (r\<lparr>m_waiter_count := n\<rparr>) = rl_ok r"
  by (simp add: rl_ok_def of_defs)

lemma reserve_loop_returns:
  assumes "rl_ok r" and "valid_request i v" and "0 \<le> timeout"
    and "\<forall>(f, t) \<in> set ws. \<forall>r. rl_ok r \<longrightarrow> rl_ok (f r)"
    and "timeout \<le> tick \<or> (\<exists>(f, t) \<in> set ws. timeout \<le> t)"
  shows "\<exists>b r'. reserve_loop dbg i v timeout ws r tick = Inr (Returns b r') \<and> rl_ok r'"
  using assms(1,4,5)
proof (induction ws arbitrary: r tick)
  case Nil
  have "\<exists>b r'. reserve_spec r i v timeout tick = Returns b r'"
    using Nil.prems(3) assms(3) by (auto simp: reserve_spec_def)
  then show ?case
    using reserve_spec_ok [OF Nil.prems(1) assms(2), of timeout tick]
    by (auto simp: reserve_loop_nil [OF Nil.prems(1) assms(2)])
next
  case (Cons w ws)
  obtain f t where w: "w = (f, t)" by (cases w)
  note sp = reserve_iter_spec [OF Cons.prems(1) assms(2), of dbg timeout tick]
    reserve_spec_ok [OF Cons.prems(1) assms(2), of timeout tick]
  show ?case
  proof (cases "reserve_spec r i v timeout tick")
    case (Returns b r')
    then show ?thesis using sp by (simp add: reserve_loop.simps [of dbg i v timeout "w # ws"])
  next
    case (Waits r')
    then have "\<not> timeout \<le> tick" using assms(3) by (auto simp: reserve_spec_def split: if_splits)
    then have "timeout \<le> t \<or> (\<exists>(f, t) \<in> set ws. timeout \<le> t)" using Cons.prems(3) w by auto
    moreover have "rl_ok (f r')" using Cons.prems(2) sp(2) Waits w by auto
    ultimately show ?thesis
      using Cons.IH [of "(f r')\<lparr>m_waiter_count := m_waiter_count (f r') - 1\<rparr>" t] Cons.prems(2) sp Waits w
      by (simp add: reserve_loop.simps [of dbg i v timeout "(f, t) # ws"] Let_def)
  qed
qed

section \<open>The properties\<close>

text \<open>C26: invariant. Whatever threads do with the limit of a process, in any interleaving of
  their reservations, waits, releases and limit changes, the current value of each resource
  is the sum of what is reserved and not released, hints stay at most that, the peak stays between
  it and the limit, and the waiter count is the number of threads inside the wait.\<close>

theorem resource_account:
  assumes "CreateResourceLimitForProcess dbg sz = Inr r0" and "0 \<le> sz" and "sz \<le> s64_max"
    and "rl_reachable dbg (r0, [], []) (r, hs, ws)" and "i < LimitableResource_Count"
  shows "current_of r i = held hs i \<and> hint_of r i = hinted hs i \<and> 0 \<le> hint_of r i \<and>
    hint_of r i \<le> current_of r i \<and> current_of r i \<le> peak_of r i \<and> peak_of r i \<le> limit_of r i \<and>
    m_waiter_count r = int (length ws)"
proof -
  have "rl_account (r, hs, ws)"
    using rl_reachable_account [OF assms(4)] process_limit_account [OF assms(2,3,1)] by simp
  then show ?thesis using assms(5) rl_okD [of r i] by (auto simp: rl_account_def)
qed

text \<open>A limit of four threads of which three are reserved, and a thread waiting for two more.\<close>

definition sample_limit :: resource_limit where
  "sample_limit = \<lparr>m_limit_values = [100, 4, 900, 200, 1133], m_current_values = [0, 3, 0, 0, 0],
    m_current_hints = [0, 0, 0, 0, 0], m_peak_values = [0, 3, 0, 0, 0], m_waiter_count = 0\<rparr>"

lemma sample_limit_ok: "rl_ok sample_limit"
  by (auto simp: rl_ok_def less_Count of_defs sample_limit_def s64_max_def) (simp_all add: LimitableResource_Count_def)

theorem resource_account_witness:
  "\<exists>r0 r. CreateResourceLimitForProcess True 100 = Inr r0 \<and>
    rl_reachable True (r0, [], []) (r, [(1, 3, 3)], []) \<and> current_of r 1 = 3 \<and> peak_of r 1 \<le> limit_of r 1"
proof -
  obtain r0 where r0: "CreateResourceLimitForProcess True 100 = Inr r0" and
    r0_eq: "r0 = \<lparr>m_limit_values = [100, 800, 900, 200, 1133], m_current_values = [0, 0, 0, 0, 0],
      m_current_hints = [0, 0, 0, 0, 0], m_peak_values = [0, 0, 0, 0, 0], m_waiter_count = 0\<rparr>"
    using process_limit [of 100 True] by simp
  have acc: "rl_account (r0, [], [])" using process_limit_account [OF _ _ r0] by (simp add: s64_max_def)
  have q: "valid_request 1 3" by (simp add: valid_request_def LimitableResource_Count_def s64_max_def)
  obtain r where "Reserve_until True r0 1 3 0 0 [] = Inr (Returns True r)"
    using Reserve_until_nil [of r0 1 3 True 0 0] acc q
    by (auto simp: rl_account_def reserve_spec_def r0_eq of_defs s64_max_def)
  from rl_call [OF q this, of "[]" "[]"] have run: "rl_reachable True (r0, [], []) (r, [(1, 3, 3)], [])"
    by (auto simp: granted_def intro: rl_trans [OF rl_refl])
  show ?thesis
    using r0 run resource_account [OF r0 _ _ run, of 1] by (auto simp: s64_max_def LimitableResource_Count_def)
qed

text \<open>C27: safety. With debug assertions on, no assertion of the resource limit fails and no signed
  arithmetic overflows: a request, the readers and a change of the limit return normally from
  every state that keeps the account.\<close>

theorem resource_limit_no_fault:
  assumes "rl_account (r, hs, ws)" and "valid_request i v"
  shows "(\<exists>s. Reserve_until True r i v timeout tick [] = Inr s) \<and>
    GetLimitValue True r i = Inr (limit_of r i) \<and> GetCurrentValue True r i = Inr (current_of r i) \<and>
    GetPeakValue True r i = Inr (peak_of r i) \<and>
    GetFreeValue True r i = Inr (limit_of r i - current_of r i) \<and>
    (\<exists>res r'. SetLimitValue r i v = Inr (res, r')) \<and>
    (v \<le> hinted hs i \<longrightarrow> (\<exists>x. Release True r i v = Inr x))"
proof -
  have ok: "rl_ok r" and i: "i < LimitableResource_Count" and v: "0 \<le> v"
    and h: "hint_of r i = hinted hs i"
    using assms by (auto simp: rl_account_def valid_request_def)
  note b = rl_okD [OF ok i]
  have f: "s64_value (limit_of r i - current_of r i) = Inr (limit_of r i - current_of r i)"
    by (rule s64_value_nonneg) (use b in linarith)+
  show ?thesis
    using b f v h Reserve_until_nil [OF ok assms(2)] SetLimitValue_ok [OF ok i] Release_hint_ok [OF ok i v v, of True]
    by (simp add: GetLimitValue_def GetCurrentValue_def GetPeakValue_def GetFreeValue_def Release_def)
qed

theorem resource_limit_no_fault_witness: "GetFreeValue True sample_limit 1 = Inr 1"
proof -
  have "rl_account (sample_limit, [(1, 3, 0)], [])"
    using sample_limit_ok by (auto simp: rl_account_def less_Count holding_ok_def of_defs)
      (simp_all add: sample_limit_def)
  then show ?thesis
    using resource_limit_no_fault [of sample_limit "[(1, 3, 0)]" "[]" 1 0 0 0]
    by (simp add: valid_request_def LimitableResource_Count_def s64_max_def of_defs) (simp add: sample_limit_def)
qed

text \<open>C28: liveness. A reservation with a timeout returns once the thread is woken at or after that
  time, whatever the other threads did to the limit in the meantime.\<close>

theorem Reserve_returns_by_timeout:
  assumes "rl_ok r" and "valid_request i v" and "0 \<le> timeout"
    and "\<forall>(f, t) \<in> set ws. \<forall>r. rl_ok r \<longrightarrow> rl_ok (f r)" and "\<exists>(f, t) \<in> set ws. timeout \<le> t"
  shows "\<exists>b r'. Reserve_until dbg r i v timeout tick ws = Inr (Returns b r') \<and> rl_ok r'"
proof -
  have i: "i < LimitableResource_Count" and v: "0 \<le> v" using assms(2) by (auto simp: valid_request_def)
  show ?thesis
    using reserve_loop_returns [OF assms(1-4), of tick dbg] assms(1,5) rl_okD [OF assms(1) i] v
    by (auto simp: Reserve_until_def)
qed

theorem Reserve_returns_by_timeout_witness:
  "\<exists>b r. Reserve_until True sample_limit 1 2 50 10 [(\<lambda>r. r, 20), (\<lambda>r. r, 60)] = Inr (Returns b r)"
  using Reserve_returns_by_timeout [of sample_limit 1 2 50 "[(\<lambda>r. r, 20), (\<lambda>r. r, 60)]" True 10] sample_limit_ok
  by (auto simp: valid_request_def LimitableResource_Count_def s64_max_def)

text \<open>A scoped reservation that is destroyed without \<^verbatim>\<open>Commit\<close> gives back exactly
  what it took, whether it succeeded or not; a committed one that succeeded keeps it.\<close>

theorem scoped_reservation_round_trip:
  assumes "rl_ok r" and "valid_request i v"
    and "scoped_reservation dbg True r i v timeout tick [] = Inr (Some (s, r'))"
  shows "(\<exists>r''. scoped_destroy dbg s r' = Inr r'' \<and> m_current_values r'' = m_current_values r \<and>
      m_current_hints r'' = m_current_hints r \<and> m_limit_values r'' = m_limit_values r) \<and>
    scoped_destroy dbg (Commit s) r' = Inr r' \<and>
    (m_succeeded s \<longrightarrow> current_of r' i = current_of r i + v)"
proof -
  have i: "i < LimitableResource_Count" and v: "0 \<le> v" using assms(2) by (auto simp: valid_request_def)
  have len: "i < length (m_current_values r)" "i < length (m_current_hints r)" "i < length (m_peak_values r)"
    using assms(1) i by (auto simp: rl_ok_def)
  have c: "scoped_destroy dbg (Commit s) r' = Inr r'" by (simp add: scoped_destroy_def Commit_def)
  show ?thesis
  proof (cases "v \<noteq> 0 \<and> m_succeeded s")
    case False
    then have "r' = r \<and> scoped_destroy dbg s r' = Inr r' \<and> (m_succeeded s \<longrightarrow> v = 0)"
      using assms(3) Reserve_until_nil [OF assms(1,2), of dbg timeout tick]
      by (auto simp: scoped_reservation_def scoped_destroy_def reserve_spec_def split: if_splits)
    then show ?thesis using c by auto
  next
    case True
    then have s: "s = \<lparr>m_limit = True, m_value = v, m_resource = i, m_succeeded = True\<rparr>"
      and r': "r' = r\<lparr>m_current_values := (m_current_values r)[i := current_of r i + v],
        m_current_hints := (m_current_hints r)[i := hint_of r i + v],
        m_peak_values := (m_peak_values r)[i := max (peak_of r i) (current_of r i + v)]\<rparr>"
      and sp: "reserve_spec r i v timeout tick = Returns True r'"
      using assms(3) Reserve_until_nil [OF assms(1,2), of dbg timeout tick]
      by (auto simp: scoped_reservation_def reserve_spec_def split: if_splits)
    have ok: "rl_ok r'" using reserve_spec_ok [OF assms(1,2), of timeout tick] sp by simp
    have of': "current_of r' i = current_of r i + v" "hint_of r' i = hint_of r i + v"
      using len by (simp_all add: r' of_defs)
    have "scoped_destroy dbg s r' = Inr (r'\<lparr>m_current_values := (m_current_values r')[i := current_of r i],
        m_current_hints := (m_current_hints r')[i := hint_of r i]\<rparr>)"
      using Release_hint_ok [OF ok i v v, of dbg] of' rl_okD [OF assms(1) i] True
      by (simp add: scoped_destroy_def s Release_def)
    then show ?thesis using c of' by (simp add: r' of_defs)
  qed
qed

theorem scoped_reservation_round_trip_witness:
  "\<exists>s r' r''. scoped_reservation True True sample_limit 1 1 0 0 [] = Inr (Some (s, r')) \<and>
    current_of r' 1 = 4 \<and> scoped_destroy True s r' = Inr r'' \<and>
    m_current_values r'' = [0, 3, 0, 0, 0]"
proof -
  have q: "valid_request 1 1" by (simp add: valid_request_def LimitableResource_Count_def s64_max_def)
  obtain s r' where *: "scoped_reservation True True sample_limit 1 1 0 0 [] = Inr (Some (s, r'))" "m_succeeded s"
    using Reserve_until_nil [OF sample_limit_ok q, of True 0 0]
    by (auto simp: scoped_reservation_def reserve_spec_def sample_limit_def of_defs s64_max_def)
  have "current_of sample_limit 1 = 3" "m_current_values sample_limit = [0, 3, 0, 0, 0]"
    by (simp_all add: sample_limit_def of_defs)
  with scoped_reservation_round_trip [OF sample_limit_ok q *(1)] * show ?thesis by auto
qed

end
