(* ===== verification/Svc_Resource.thy ===== *)
theory Svc_Resource
  imports Handle_Behaviour Resource_Laws
begin

text \<open>
  The supervisor calls on resource limits and handles (\<^verbatim>\<open>core/hle/kernel/svc/svc_resource_limit.cpp\<close>
  and \<^verbatim>\<open>CloseHandle\<close> of \<^verbatim>\<open>svc_synchronization.cpp\<close>): they go through the handle table of the
  current process to a resource limit. The state is that of the objects, of the table and of the
  limits; what the slab heap returns is an argument of the call that allocates. The global list of objects
  that \<^verbatim>\<open>KResourceLimit::Register\<close> adds a new limit to is not part of the state: no call modelled here reads it.
\<close>

record svc_state =
  svc_kernel :: Kernel
  svc_table :: KHandleTable
  svc_limits :: "kobject \<rightharpoonup> resource_limit"

text \<open>The null check, the constructor of the object and \<^verbatim>\<open>KAutoObject::Create\<close> for a slot of the
  slab heap.\<close>

definition slab_create :: "ObjectType \<Rightarrow> kobject \<Rightarrow> Kernel \<Rightarrow> kernel_fault + Kernel" where
  "slab_create T ob k = Create T ob (new_KAutoObject ob k)"

definition CreateResourceLimit ::
  "destructor \<Rightarrow> kobject option \<Rightarrow> svc_state \<Rightarrow> kernel_fault + (KResult + Handle) \<times> svc_state" where
  "CreateResourceLimit D slab s = (case slab of
      None \<Rightarrow> Inr (Inl ResultOutOfResource, s)
    | Some ob \<Rightarrow> bindF (slab_create KResourceLimit ob (svc_kernel s)) (\<lambda>k.
        bindF (Add k (svc_table s) ob) (\<lambda>(res, k, t).
        bindF (Close D k ob) (\<lambda>k.
        Inr (res, \<lparr>svc_kernel = k, svc_table = t,
          svc_limits = (svc_limits s)(ob \<mapsto> new_KResourceLimit)\<rparr>)))))"

text \<open>The part the calls share: validate the resource, look the limit up, use it, and let the
  scoped reference go. \<open>use\<close> returns the result and the limit.\<close>

definition with_limit ::
  "destructor \<Rightarrow> kobject option \<Rightarrow> kobject option \<Rightarrow> svc_state \<Rightarrow> Handle \<Rightarrow> nat
    \<Rightarrow> (bool \<Rightarrow> resource_limit \<Rightarrow> kernel_fault + (KResult + 'a) \<times> resource_limit)
    \<Rightarrow> kernel_fault + (KResult + 'a) \<times> svc_state" where
  "with_limit D cur_process cur_thread s handle which use =
    (if \<not> IsValidResourceType which then Inr (Inl ResultInvalidEnumValue, s)
     else bindF (GetObject KResourceLimit (svc_kernel s) cur_process cur_thread (svc_table s) handle)
       (\<lambda>(ob, k). case ob of
           None \<Rightarrow> Inr (Inl ResultInvalidHandle, s\<lparr>svc_kernel := k\<rparr>)
         | Some ob \<Rightarrow> (case svc_limits s ob of
               None \<Rightarrow> Inl DanglingObject
             | Some r \<Rightarrow> bindF (use (use_debug_asserts k) r) (\<lambda>(res, r).
                 bindF (drop_scoped D k (Some ob)) (\<lambda>k.
                 Inr (res, s\<lparr>svc_kernel := k, svc_limits := (svc_limits s)(ob \<mapsto> r)\<rparr>))))))"

definition GetResourceLimitLimitValue ::
  "destructor \<Rightarrow> kobject option \<Rightarrow> kobject option \<Rightarrow> svc_state \<Rightarrow> Handle \<Rightarrow> nat
    \<Rightarrow> kernel_fault + (KResult + int) \<times> svc_state" where
  "GetResourceLimitLimitValue D cp ct s handle which = with_limit D cp ct s handle which
    (\<lambda>dbg r. bindF (GetLimitValue dbg r which) (\<lambda>v. Inr (Inr v, r)))"

definition GetResourceLimitCurrentValue ::
  "destructor \<Rightarrow> kobject option \<Rightarrow> kobject option \<Rightarrow> svc_state \<Rightarrow> Handle \<Rightarrow> nat
    \<Rightarrow> kernel_fault + (KResult + int) \<times> svc_state" where
  "GetResourceLimitCurrentValue D cp ct s handle which = with_limit D cp ct s handle which
    (\<lambda>dbg r. bindF (GetCurrentValue dbg r which) (\<lambda>v. Inr (Inr v, r)))"

definition SetResourceLimitLimitValue ::
  "destructor \<Rightarrow> kobject option \<Rightarrow> kobject option \<Rightarrow> svc_state \<Rightarrow> Handle \<Rightarrow> nat \<Rightarrow> int
    \<Rightarrow> kernel_fault + (KResult + unit) \<times> svc_state" where
  "SetResourceLimitLimitValue D cp ct s handle which limit_value = with_limit D cp ct s handle which
    (\<lambda>dbg r. SetLimitValue r which limit_value)"

definition GetResourceLimitPeakValue ::
  "bool \<Rightarrow> svc_state \<Rightarrow> kernel_fault + (KResult + int) \<times> svc_state" where
  "GetResourceLimitPeakValue dbg s =
    bindF (ASSERT dbg False) (\<lambda>_. Inr (Inl ResultNotImplemented, s))"

definition CloseHandle ::
  "destructor \<Rightarrow> svc_state \<Rightarrow> Handle \<Rightarrow> kernel_fault + (KResult + unit) \<times> svc_state" where
  "CloseHandle D s handle = bindF (Remove D (svc_kernel s) (svc_table s) handle) (\<lambda>(removed, k, t).
    let s = s\<lparr>svc_kernel := k, svc_table := t\<rparr> in
    Inr (if removed then Inr () else Inl ResultInvalidHandle, s))"

section \<open>Looking a limit up and letting it go\<close>

lemma open_then_close:
  assumes "live_objects k ob = Some a" and "0 < m_ref_count a" and "unat (m_ref_count a) + 1 < 2 ^ 32"
  shows "Close D (set_ref_count ob a (m_ref_count a + 1) k) ob = Inr k"
proof -
  let ?a = "a\<lparr>m_ref_count := m_ref_count a + 1\<rparr>"
  have u: "unat (m_ref_count a + 1) = unat (m_ref_count a) + 1" using assms(3) by (simp add: unat_word_ariths)
  have "Close D (set_ref_count ob a (m_ref_count a + 1) k) ob =
      Inr (set_ref_count ob ?a (m_ref_count ?a - 1) (set_ref_count ob a (m_ref_count a + 1) k))"
    by (rule Close_many) (use assms u in \<open>auto simp: word_less_nat_alt\<close>)
  then show ?thesis using set_ref_count_same [OF assms(1)] by (simp add: set_ref_count_twice)
qed

text \<open>A handle that names a live resource limit, with its values.\<close>

definition limit_handle :: "svc_state \<Rightarrow> Handle \<Rightarrow> kobject \<Rightarrow> resource_limit \<Rightarrow> bool" where
  "limit_handle s h ob r \<longleftrightarrow> table_ok (svc_table s) \<and> lookup (svc_table s) h = Some ob \<and>
    svc_limits s ob = Some r \<and> (case live_objects (svc_kernel s) ob of None \<Rightarrow> False
      | Some a \<Rightarrow> m_class_token a = GetClassToken KResourceLimit \<and> 0 < m_ref_count a \<and>
          unat (m_ref_count a) + 1 < 2 ^ 32)"

lemma GetObject_token:
  assumes "table_ok t" and "lookup t h = Some ob" and "live_objects k ob = Some a"
    and "m_class_token a = GetClassToken KResourceLimit"
    and "0 < m_ref_count a" and "unat (m_ref_count a) + 1 < 2 ^ 32"
  shows "GetObject KResourceLimit k cp ct t h = Inr (Some ob, set_ref_count ob a (m_ref_count a + 1) k)"
proof -
  from assms(1) obtain fl where inv: "table_inv t fl" by (auto simp: table_ok_inv)
  have np: "h \<noteq> CurrentProcess" "h \<noteq> CurrentThread"
    using lookup_pseudo [OF inv, of h] assms(2) by (auto simp: IsPseudoHandle_def)
  have "DynamicCast KResourceLimit k ob = Inr (Some ob)"
    using assms(3,4) by (simp add: DynamicCast_def get_object_def IsDerivedFrom_def IsClassTokenDerivedFrom_def)
  then show ?thesis
    using np Open_live [OF assms(3,5,6)] assms(2)
    by (simp add: GetObject_def GetObjectWithoutPseudoHandle_def GetObjectImpl_lookup [OF inv] scoped_object_def)
qed

lemma with_limit_ok:
  assumes "limit_handle s h ob r" and "which < LimitableResource_Count"
    and "use (use_debug_asserts (svc_kernel s)) r = Inr (res, r')"
  shows "with_limit D cp ct s h which use = Inr (res, s\<lparr>svc_limits := (svc_limits s)(ob \<mapsto> r')\<rparr>)"
proof -
  obtain a where a: "table_ok (svc_table s)" "lookup (svc_table s) h = Some ob" "svc_limits s ob = Some r"
    "live_objects (svc_kernel s) ob = Some a" "m_class_token a = GetClassToken KResourceLimit"
    "0 < m_ref_count a" "unat (m_ref_count a) + 1 < 2 ^ 32"
    using assms(1) by (auto simp: limit_handle_def split: option.splits)
  show ?thesis
    using GetObject_token [OF a(1,2,4-7), of cp ct] open_then_close [OF a(4,6,7), of D] a(3) assms(2,3)
    by (simp add: with_limit_def IsValidResourceType_def drop_scoped_def)
qed

lemma limit_handle_update: "limit_handle s h ob r \<Longrightarrow>
    limit_handle (s\<lparr>svc_limits := (svc_limits s)(ob \<mapsto> r')\<rparr>) h ob r'"
  by (auto simp: limit_handle_def split: option.splits)

lemma with_limit_bad_handle:
  assumes "table_ok (svc_table s)" and "lookup (svc_table s) h = None" and "which < LimitableResource_Count"
  shows "with_limit D cp ct s h which use = Inr (Inl ResultInvalidHandle, s)"
proof -
  from assms(1) obtain fl where inv: "table_inv (svc_table s) fl" by (auto simp: table_ok_inv)
  have "\<not> derived_from KProcess KResourceLimit" "\<not> derived_from KThread KResourceLimit"
    by (simp_all add: derived_from.simps)
  then show ?thesis
    using assms by (simp add: with_limit_def IsValidResourceType_def GetObject_def
      GetObjectWithoutPseudoHandle_def GetObjectImpl_lookup [OF inv] scoped_object_def)
qed

lemma with_limit_bad_type:
  "LimitableResource_Count \<le> which \<Longrightarrow> with_limit D cp ct s h which use = Inr (Inl ResultInvalidEnumValue, s)"
  by (simp add: with_limit_def IsValidResourceType_def)

section \<open>The properties\<close>

text \<open>Setting a limit through a handle and reading it back through the same handle
  gives the value that was set; the reference the calls take on the object is given back, so
  the kernel and the table are as before. A limit below what is in use is refused, with the old
  limit kept.\<close>

theorem set_get_limit_round_trip:
  assumes "limit_handle s h ob r" and "rl_ok r" and "which < LimitableResource_Count" and "v \<le> s64_max"
  shows "(current_of r which \<le> v \<longrightarrow> (\<exists>s'. SetResourceLimitLimitValue D cp ct s h which v = Inr (Inr (), s') \<and>
      svc_kernel s' = svc_kernel s \<and> svc_table s' = svc_table s \<and>
      GetResourceLimitLimitValue D cp ct s' h which = Inr (Inr v, s'))) \<and>
    (v < current_of r which \<longrightarrow> SetResourceLimitLimitValue D cp ct s h which v = Inr (Inl ResultInvalidState, s) \<and>
      GetResourceLimitLimitValue D cp ct s h which = Inr (Inr (limit_of r which), s))"
proof -
  note b = rl_okD [OF assms(2,3)]
  have same: "s\<lparr>svc_limits := (svc_limits s)(ob \<mapsto> r)\<rparr> = s"
    using assms(1) by (simp add: limit_handle_def map_upd_triv)
  have lim: "GetResourceLimitLimitValue D cp ct s1 h which = Inr (Inr (limit_of r1 which), s1)"
    if "limit_handle s1 h ob r1" "rl_ok r1" for s1 r1
  proof -
    have "GetLimitValue d r1 which = Inr (limit_of r1 which)" for d
      using rl_okD [OF that(2) assms(3)] by (simp add: GetLimitValue_def)
    moreover have "s1\<lparr>svc_limits := (svc_limits s1)(ob \<mapsto> r1)\<rparr> = s1"
      using that(1) by (simp add: limit_handle_def map_upd_triv)
    ultimately show ?thesis
      unfolding GetResourceLimitLimitValue_def by (subst with_limit_ok [OF that(1) assms(3)]) simp_all
  qed
  show ?thesis
  proof (cases "current_of r which \<le> v")
    case True
    define r' where "r' = r\<lparr>m_limit_values := (m_limit_values r)[which := v],
      m_peak_values := (m_peak_values r)[which := current_of r which]\<rparr>"
    have ok': "rl_ok r'"
      using assms(2-4) True b by (auto simp: r'_def rl_ok_def of_defs nth_list_update)
    have l': "limit_of r' which = v"
      using assms(2,3) by (simp add: r'_def of_defs rl_ok_def)
    have "SetResourceLimitLimitValue D cp ct s h which v = Inr (Inr (), s\<lparr>svc_limits := (svc_limits s)(ob \<mapsto> r')\<rparr>)"
      unfolding SetResourceLimitLimitValue_def
      by (rule with_limit_ok [OF assms(1,3)]) (simp add: SetLimitValue_ok [OF assms(2,3)] True r'_def)
    then show ?thesis using True lim [OF limit_handle_update [OF assms(1)] ok'] l' by auto
  next
    case False
    have "SetResourceLimitLimitValue D cp ct s h which v = Inr (Inl ResultInvalidState, s\<lparr>svc_limits := (svc_limits s)(ob \<mapsto> r)\<rparr>)"
      unfolding SetResourceLimitLimitValue_def
      by (rule with_limit_ok [OF assms(1,3)]) (use False in \<open>simp add: SetLimitValue_ok [OF assms(2,3)]\<close>)
    then show ?thesis using False lim [OF assms(1,2)] same by simp
  qed
qed

definition sample_svc :: svc_state where
  "sample_svc = \<lparr>svc_kernel = sample_kernel, svc_table = sample_table, svc_limits = Map.empty\<rparr>"

text \<open>C31: safety. Creating a resource limit does not leak the object: on success the object has
  one reference, that of the handle, which names it; when the table is full the object is
  destroyed, the table is unchanged and the caller gets \<^verbatim>\<open>ResultOutOfHandles\<close>. An exhausted slab
  heap is reported and changes nothing.\<close>

theorem CreateResourceLimit_no_leak:
  assumes "table_ok (svc_table s)"
  shows "CreateResourceLimit D None s = Inr (Inl ResultOutOfResource, s) \<and>
    (m_count (svc_table s) = m_table_size (svc_table s) \<longrightarrow> (\<exists>s' k0.
      CreateResourceLimit D (Some ob) s = Inr (Inl ResultOutOfHandles, s') \<and> svc_table s' = svc_table s \<and>
      ref_count k0 ob = 0 \<and> svc_kernel s' = UnregisterKernelObject ob (D ob k0))) \<and>
    (m_count (svc_table s) \<noteq> m_table_size (svc_table s) \<longrightarrow> (\<exists>h s'.
      CreateResourceLimit D (Some ob) s = Inr (Inr h, s') \<and> limit_handle s' h ob new_KResourceLimit \<and>
      ref_count (svc_kernel s') ob = 1))"
proof -
  let ?a = "\<lparr>m_ref_count = 1, m_class_token = GetClassToken KResourceLimit\<rparr>"
  define k1 where "k1 = (RegisterKernelObject ob (svc_kernel s))\<lparr>live_objects :=
    (live_objects (svc_kernel s))(ob \<mapsto> ?a)\<rparr>"
  have c: "slab_create KResourceLimit ob (svc_kernel s) = Inr k1"
    by (simp add: slab_create_def Create_def new_KAutoObject_def get_object_def RegisterKernelObject_def k1_def)
  have live: "live_objects k1 ob = Some ?a" by (simp add: k1_def)
  from assms obtain fl where inv: "table_inv (svc_table s) fl" by (auto simp: table_ok_inv)
  show ?thesis
  proof (cases fl)
    case Nil
    then have full: "m_count (svc_table s) = m_table_size (svc_table s)"
      using table_invD(4) [OF inv] by (simp add: word_unat_eq_iff)
    let ?k = "set_ref_count ob ?a 0 k1"
    have cl: "Close D k1 ob = Inr (UnregisterKernelObject ob (D ob ?k))"
      using live by (simp add: Close_def get_object_def Let_def)
    have rc: "ref_count ?k ob = 0" by (simp add: ref_count_def)
    have add: "Add k1 (svc_table s) ob = Inr (Inl ResultOutOfHandles, k1, svc_table s)"
      using full_inv(1) inv Nil by simp
    show ?thesis
      using full rc by (auto simp: CreateResourceLimit_def c add cl)
  next
    case (Cons i fl')
    then have inv': "table_inv (svc_table s) (i # fl')" using inv by simp
    have ne: "m_count (svc_table s) \<noteq> m_table_size (svc_table s)" using table_full_iff [OF inv'] by auto
    have o: "Open k1 ob = Inr (True, set_ref_count ob ?a (m_ref_count ?a + 1) k1)"
      by (rule Open_live [OF live]) simp_all
    note A = Add_inv [OF inv' o refl refl]
    have cl: "Close D (set_ref_count ob ?a (m_ref_count ?a + 1) k1) ob = Inr k1"
      by (rule open_then_close [OF live]) simp_all
    have "table_ok (entered (allocated (svc_table s) i) i (m_next_linear_id (svc_table s)) ob)"
      using A(2) by (auto simp: table_ok_inv)
    then show ?thesis
      using ne A(1,3) c cl live by (auto simp: CreateResourceLimit_def limit_handle_def ref_count_def)
  qed
qed

lemma sample_svc_room: "m_count (svc_table sample_svc) \<noteq> m_table_size (svc_table sample_svc)"
  using table_full_iff [OF sample_table_inv(1)] by (auto simp: sample_svc_def)

lemma sample_svc_ok: "table_ok (svc_table sample_svc)"
  using sample_table_ok by (simp add: sample_svc_def)

theorem CreateResourceLimit_no_leak_witness:
  "\<exists>h s'. CreateResourceLimit no_destroy (Some 9) sample_svc = Inr (Inr h, s') \<and>
    limit_handle s' h 9 new_KResourceLimit \<and> ref_count (svc_kernel s') 9 = 1"
  using CreateResourceLimit_no_leak [OF sample_svc_ok, of no_destroy 9] sample_svc_room by blast

definition sample_limit_state :: svc_state where
  "sample_limit_state = \<lparr>svc_kernel = (fst sample_added)\<lparr>live_objects :=
      [7 \<mapsto> \<lparr>m_ref_count = 1, m_class_token = GetClassToken KResourceLimit\<rparr>]\<rparr>,
    svc_table = snd sample_added, svc_limits = [7 \<mapsto> sample_limit]\<rparr>"

theorem set_get_limit_round_trip_witness:
  "\<exists>s'. SetResourceLimitLimitValue no_destroy None None sample_limit_state sample_handle 1 10 = Inr (Inr (), s') \<and>
    GetResourceLimitLimitValue no_destroy None None s' sample_handle 1 = Inr (Inr 10, s')"
proof -
  have lh: "limit_handle sample_limit_state sample_handle 7 sample_limit"
    using sample_added_ok sample_Add(3) by (simp add: limit_handle_def sample_limit_state_def)
  have c: "current_of sample_limit 1 \<le> 10" by (simp add: sample_limit_def current_of_def)
  show ?thesis
    using set_get_limit_round_trip [OF lh sample_limit_ok, of 1 10 no_destroy None None] c
    by (auto simp: LimitableResource_Count_def s64_max_def)
qed

text \<open>A handle that does not name an object is refused by every call on resource limits
  and by \<^verbatim>\<open>CloseHandle\<close>, and so is a resource number outside the enumeration; the state is not
  changed by a refused call.\<close>

theorem bad_handle_refused:
  assumes "table_ok (svc_table s)" and "lookup (svc_table s) h = None"
  shows "(which < LimitableResource_Count \<longrightarrow>
      GetResourceLimitLimitValue D cp ct s h which = Inr (Inl ResultInvalidHandle, s) \<and>
      GetResourceLimitCurrentValue D cp ct s h which = Inr (Inl ResultInvalidHandle, s) \<and>
      SetResourceLimitLimitValue D cp ct s h which v = Inr (Inl ResultInvalidHandle, s)) \<and>
    (LimitableResource_Count \<le> which \<longrightarrow>
      GetResourceLimitLimitValue D cp ct s h which = Inr (Inl ResultInvalidEnumValue, s) \<and>
      GetResourceLimitCurrentValue D cp ct s h which = Inr (Inl ResultInvalidEnumValue, s) \<and>
      SetResourceLimitLimitValue D cp ct s h which v = Inr (Inl ResultInvalidEnumValue, s)) \<and>
    CloseHandle D s h = Inr (Inl ResultInvalidHandle, s)"
proof -
  from assms(1) obtain fl where inv: "table_inv (svc_table s) fl" by (auto simp: table_ok_inv)
  have "CloseHandle D s h = Inr (Inl ResultInvalidHandle, s)"
    using Remove_absent [OF inv assms(2), of D "svc_kernel s"] by (simp add: CloseHandle_def)
  then show ?thesis
    by (simp add: GetResourceLimitLimitValue_def GetResourceLimitCurrentValue_def
      SetResourceLimitLimitValue_def with_limit_bad_handle [OF assms] with_limit_bad_type)
qed

theorem bad_handle_refused_witness:
  "CloseHandle no_destroy sample_svc 3 = Inr (Inl ResultInvalidHandle, sample_svc)"
  using bad_handle_refused [OF sample_svc_ok, of 3 0 no_destroy] sample_table_inv(2)
  by (simp add: sample_svc_def)

end
