(* ===== verification/Buffer_Queue.thy ===== *)
theory Buffer_Queue
  imports Kernel_Objects
begin

text \<open>
  The core of the display buffer queue (\<^verbatim>\<open>core/hle/service/nvnflinger/buffer_queue_core.cpp\<close> and the
  slot, item, fence and buffer types it uses): 64 slots that pass between the producer (the
  game) and the consumer (the display), the queue of items between them, the history of recent
  frames, and the operations a Quick Save and a Quick Load perform on the slots. A shared pointer
  to a graphic buffer is the buffer with an identity; two pointers are equal when the identities
  are. The flag \<^verbatim>\<open>is_allocating\<close> is set nowhere in the program, so the wait for it is left out.
\<close>

section \<open>Fences, buffers, slots and items\<close>

record Fence =
  num_fences :: u32
  fences :: "(int \<times> u32) list"

definition NoFence :: Fence where
  "NoFence = \<lparr>num_fences = 0, fences = [(-1, 0), (-1, 0), (-1, 0), (-1, 0)]\<rparr>"

definition new_Fence :: Fence where
  "new_Fence = \<lparr>num_fences = 0, fences = [(0, 0), (0, 0), (0, 0), (0, 0)]\<rparr>"

record GraphicBuffer =
  gb_pointer :: nat
  gb_width :: u32
  gb_height :: u32
  gb_format :: u32
  gb_usage :: u32
  gb_handle :: u32

definition new_GraphicBuffer :: "nat \<Rightarrow> u32 \<Rightarrow> u32 \<Rightarrow> u32 \<Rightarrow> u32 \<Rightarrow> GraphicBuffer" where
  "new_GraphicBuffer p width height format usage = \<lparr>gb_pointer = p, gb_width = width, gb_height = height,
    gb_format = format, gb_usage = usage, gb_handle = 0\<rparr>"

definition same_buffer :: "GraphicBuffer option \<Rightarrow> GraphicBuffer option \<Rightarrow> bool" where
  "same_buffer a b \<longleftrightarrow> map_option gb_pointer a = map_option gb_pointer b"

datatype BufferState = Free | Dequeued | Queued | Acquired

record BufferSlot =
  graphic_buffer :: "GraphicBuffer option"
  buffer_state :: BufferState
  request_buffer_called :: bool
  frame_number :: u64
  fence :: Fence
  acquire_called :: bool
  needs_cleanup_on_release :: bool
  attached_by_consumer :: bool
  is_preallocated :: bool
  queue_time :: int
  presentation_time :: int

definition new_BufferSlot :: BufferSlot where
  "new_BufferSlot = \<lparr>graphic_buffer = None, buffer_state = Free, request_buffer_called = False,
    frame_number = 0, fence = new_Fence, acquire_called = False, needs_cleanup_on_release = False,
    attached_by_consumer = False, is_preallocated = False, queue_time = 0, presentation_time = 0\<rparr>"

record BufferItem =
  item_graphic_buffer :: "GraphicBuffer option"
  item_fence :: Fence
  item_crop :: "int \<times> int \<times> int \<times> int"
  item_transform :: u32
  item_scaling_mode :: u32
  item_timestamp :: int
  item_is_auto_timestamp :: bool
  item_frame_number :: u64
  item_slot :: int
  item_is_droppable :: bool
  item_acquire_called :: bool
  item_transform_to_display_inverse :: bool
  item_swap_interval :: int

definition NUM_BUFFER_SLOTS :: nat where
  "NUM_BUFFER_SLOTS = 64"

definition INVALID_BUFFER_SLOT :: int where
  "INVALID_BUFFER_SLOT = -1"

definition BUFFER_HISTORY_SIZE :: nat where
  "BUFFER_HISTORY_SIZE = 8"

text \<open>Status codes are numbers: the positive ones are also flags that are combined.\<close>

type_synonym Status = int

definition NoError :: Status where "NoError = 0"
definition StaleBufferSlot :: Status where "StaleBufferSlot = 1"
definition NoBufferAvailable :: Status where "NoBufferAvailable = 2"
definition PresentLater :: Status where "PresentLater = 3"
definition WouldBlock :: Status where "WouldBlock = -11"
definition NoMemory :: Status where "NoMemory = -12"
definition Busy :: Status where "Busy = -16"
definition NoInit :: Status where "NoInit = -19"
definition BadValue :: Status where "BadValue = -22"
definition InvalidOperation :: Status where "InvalidOperation = -38"
definition BufferNeedsReallocation :: Status where "BufferNeedsReallocation = 1"
definition ReleaseAllBuffers :: Status where "ReleaseAllBuffers = 2"

section \<open>The core\<close>

record BufferHistoryInfo =
  hist_frame_number :: u64
  hist_queue_time :: int
  hist_presentation_time :: int
  hist_state :: BufferState

record BufferQueueCore =
  is_abandoned :: bool
  consumer_controlled_by_app :: bool
  consumer_listener :: bool
  consumer_usage_bit :: u32
  connected_api :: int
  connected_producer_listener :: bool
  slots :: "BufferSlot list"
  queue :: "BufferItem list"
  override_max_buffer_count :: int
  dequeue_possible :: bool
  dequeue_buffer_cannot_block :: bool
  default_buffer_format :: u32
  default_width :: u32
  default_height :: u32
  buffer_has_been_queued :: bool
  frame_counter :: u64
  buffer_history_map :: "u64 \<rightharpoonup> BufferHistoryInfo"
  buffer_history_order :: "u64 list"
  transform_hint :: u32

definition use_async_buffer :: bool where
  "use_async_buffer = False"

definition default_max_buffer_count :: int where
  "default_max_buffer_count = 2"

definition max_acquired_buffer_count :: int where
  "max_acquired_buffer_count = 0"

definition NoConnectedApi :: int where
  "NoConnectedApi = 0"

definition Rgba8888 :: u32 where
  "Rgba8888 = 1"

definition new_BufferQueueCore :: BufferQueueCore where
  "new_BufferQueueCore = \<lparr>is_abandoned = False, consumer_controlled_by_app = False,
    consumer_listener = False, consumer_usage_bit = 0, connected_api = NoConnectedApi,
    connected_producer_listener = False, slots = replicate NUM_BUFFER_SLOTS new_BufferSlot, queue = [],
    override_max_buffer_count = 0, dequeue_possible = False, dequeue_buffer_cannot_block = False,
    default_buffer_format = Rgba8888, default_width = 1, default_height = 1,
    buffer_has_been_queued = False, frame_counter = 0, buffer_history_map = Map.empty,
    buffer_history_order = [], transform_hint = 0\<rparr>"

text \<open>Access to the slot array by a signed index.\<close>

definition slot_get :: "BufferQueueCore \<Rightarrow> int \<Rightarrow> kernel_fault + BufferSlot" where
  "slot_get c i = (if i < 0 then Inl KIndexOutOfRange else arr_get KIndexOutOfRange (slots c) (nat i))"

definition slot_upd :: "int \<Rightarrow> (BufferSlot \<Rightarrow> BufferSlot) \<Rightarrow> BufferQueueCore \<Rightarrow> kernel_fault + BufferQueueCore" where
  "slot_upd i f c = bindF (slot_get c i) (\<lambda>s. Inr (c\<lparr>slots := (slots c)[nat i := f s]\<rparr>))"

definition PushHistory :: "u64 \<Rightarrow> int \<Rightarrow> int \<Rightarrow> BufferState \<Rightarrow> BufferQueueCore \<Rightarrow> BufferQueueCore" where
  "PushHistory frame qtime ptime st c = (case buffer_history_map c frame of
      Some info \<Rightarrow> c\<lparr>buffer_history_map := (buffer_history_map c)(frame \<mapsto> info\<lparr>hist_state := st\<rparr>)\<rparr>
    | None \<Rightarrow>
        let m = (buffer_history_map c)(frame \<mapsto> \<lparr>hist_frame_number = frame, hist_queue_time = qtime,
                  hist_presentation_time = ptime, hist_state = st\<rparr>);
            ord = buffer_history_order c @ [frame]
        in if length ord > BUFFER_HISTORY_SIZE
           then c\<lparr>buffer_history_map := m(hd ord := None), buffer_history_order := tl ord\<rparr>
           else c\<lparr>buffer_history_map := m, buffer_history_order := ord\<rparr>)"

definition UpdateHistory :: "u64 \<Rightarrow> BufferState \<Rightarrow> BufferQueueCore \<Rightarrow> BufferQueueCore" where
  "UpdateHistory frame st c = (case buffer_history_map c frame of
      Some info \<Rightarrow> c\<lparr>buffer_history_map := (buffer_history_map c)(frame \<mapsto> info\<lparr>hist_state := st\<rparr>)\<rparr>
    | None \<Rightarrow> c)"

definition SignalDequeueCondition :: "BufferQueueCore \<Rightarrow> BufferQueueCore" where
  "SignalDequeueCondition c = c\<lparr>dequeue_possible := True\<rparr>"

text \<open>The part of \<^verbatim>\<open>WaitForDequeueCondition\<close> after the wait.\<close>

definition dequeue_woken :: "BufferQueueCore \<Rightarrow> BufferQueueCore" where
  "dequeue_woken c = c\<lparr>dequeue_possible := False\<rparr>"

definition GetMinUndequeuedBufferCountLocked :: "bool \<Rightarrow> BufferQueueCore \<Rightarrow> int" where
  "GetMinUndequeuedBufferCountLocked async c =
    (if \<not> use_async_buffer then 0
     else if dequeue_buffer_cannot_block c \<or> async then max_acquired_buffer_count + 1
     else max_acquired_buffer_count)"

definition GetMinMaxBufferCountLocked :: "bool \<Rightarrow> BufferQueueCore \<Rightarrow> int" where
  "GetMinMaxBufferCountLocked async c = GetMinUndequeuedBufferCountLocked async c"

text \<open>The scan over the slots from \<open>i\<close> on, \<open>n\<close> of them.\<close>

fun max_count_loop :: "nat \<Rightarrow> int \<Rightarrow> int \<Rightarrow> BufferQueueCore \<Rightarrow> kernel_fault + int" where
  "max_count_loop 0 i m c = Inr m"
| "max_count_loop (Suc n) i m c = bindF (slot_get c i) (\<lambda>s.
    max_count_loop n (i + 1)
      (if buffer_state s = Queued \<or> buffer_state s = Dequeued then i + 1 else m) c)"

definition GetMaxBufferCountLocked :: "bool \<Rightarrow> bool \<Rightarrow> BufferQueueCore \<Rightarrow> kernel_fault + int" where
  "GetMaxBufferCountLocked dbg async c =
    (let min_buffer_count = GetMinMaxBufferCountLocked async c;
         max_buffer_count = max default_max_buffer_count min_buffer_count in
     if override_max_buffer_count c \<noteq> 0 then
       bindF (ASSERT dbg (override_max_buffer_count c \<ge> min_buffer_count)) (\<lambda>_.
         Inr (override_max_buffer_count c))
     else max_count_loop (NUM_BUFFER_SLOTS - nat max_buffer_count) max_buffer_count max_buffer_count c)"

definition GetPreallocatedBufferCountLocked :: "BufferQueueCore \<Rightarrow> int" where
  "GetPreallocatedBufferCountLocked c = int (length (filter is_preallocated (slots c)))"

definition free_slot :: "BufferSlot \<Rightarrow> BufferSlot" where
  "free_slot s = s\<lparr>graphic_buffer := None,
    needs_cleanup_on_release := (if buffer_state s = Acquired then True else needs_cleanup_on_release s),
    buffer_state := Free, frame_number := 0xFFFFFFFF, acquire_called := False, fence := NoFence\<rparr>"

definition FreeBufferLocked :: "int \<Rightarrow> BufferQueueCore \<Rightarrow> kernel_fault + BufferQueueCore" where
  "FreeBufferLocked slot c = slot_upd slot free_slot c"

fun free_slots_loop :: "nat \<Rightarrow> int \<Rightarrow> BufferQueueCore \<Rightarrow> kernel_fault + BufferQueueCore" where
  "free_slots_loop 0 i c = Inr c"
| "free_slots_loop (Suc n) i c = bindF (FreeBufferLocked i c) (\<lambda>c. free_slots_loop n (i + 1) c)"

definition FreeAllBuffersLocked :: "BufferQueueCore \<Rightarrow> kernel_fault + BufferQueueCore" where
  "FreeAllBuffersLocked c = free_slots_loop NUM_BUFFER_SLOTS 0 (c\<lparr>buffer_has_been_queued := False\<rparr>)"

definition StillTracking :: "BufferQueueCore \<Rightarrow> BufferItem \<Rightarrow> kernel_fault + bool" where
  "StillTracking c item = bindF (slot_get c (item_slot item)) (\<lambda>s.
    Inr (graphic_buffer s \<noteq> None \<and> same_buffer (item_graphic_buffer item) (graphic_buffer s)))"

section \<open>Quick Save and Quick Load\<close>

definition rewind_entry :: "u32 \<Rightarrow> u32 \<Rightarrow> u32 \<Rightarrow> nat \<Rightarrow> int \<times> u32 \<Rightarrow> nat \<times> int \<times> u32" where
  "rewind_entry fid delta n f e = (if of_nat f < n \<and> fst e = sint fid
    then (1, fst e, snd e - delta) else (0, e))"

definition rewind :: "u32 \<Rightarrow> u32 \<Rightarrow> Fence \<Rightarrow> nat \<times> Fence" where
  "rewind fid delta fe =
    (let es = map (\<lambda>(f, e). rewind_entry fid delta (num_fences fe) f e) (enumerate 0 (fences fe)) in
     (sum_list (map fst es), fe\<lparr>fences := map snd es\<rparr>))"

definition rewind_core :: "u32 \<Rightarrow> u32 \<Rightarrow> BufferQueueCore \<Rightarrow> nat \<times> BufferQueueCore" where
  "rewind_core fid delta c =
    (sum_list (map (\<lambda>s. fst (rewind fid delta (fence s))) (slots c)) +
     sum_list (map (\<lambda>x. fst (rewind fid delta (item_fence x))) (queue c)),
     c\<lparr>slots := map (\<lambda>s. s\<lparr>fence := snd (rewind fid delta (fence s))\<rparr>) (slots c),
       queue := map (\<lambda>x. x\<lparr>item_fence := snd (rewind fid delta (item_fence x))\<rparr>) (queue c)\<rparr>)"

text \<open>The live queues \<^verbatim>\<open>g_queues\<close>, by address: the constructor of a queue adds it and the destructor
  takes it out.\<close>

definition construct_core :: "nat \<Rightarrow> (nat \<times> BufferQueueCore) list \<Rightarrow> (nat \<times> BufferQueueCore) list" where
  "construct_core p qs = qs @ [(p, new_BufferQueueCore)]"

definition destruct_core :: "nat \<Rightarrow> (nat \<times> BufferQueueCore) list \<Rightarrow> (nat \<times> BufferQueueCore) list" where
  "destruct_core p qs = filter (\<lambda>(q, _). q \<noteq> p) qs"

definition RewindFencesForRestore ::
  "u32 \<Rightarrow> u32 \<Rightarrow> (nat \<times> BufferQueueCore) list \<Rightarrow> nat \<times> (nat \<times> BufferQueueCore) list" where
  "RewindFencesForRestore fid delta qs =
    (sum_list (map (\<lambda>(_, c). fst (rewind_core fid delta c)) qs),
     map (\<lambda>(p, c). (p, snd (rewind_core fid delta c))) qs)"

record ProducerSlots =
  ps_core :: nat
  ps_dequeued :: "bool list"
  ps_requested :: "bool list"

definition SnapshotProducerSlots :: "(nat \<times> BufferQueueCore) list \<Rightarrow> ProducerSlots list" where
  "SnapshotProducerSlots qs = map (\<lambda>(p, c).
    \<lparr>ps_core = p, ps_dequeued = map (\<lambda>s. buffer_state s = Dequeued) (slots c),
     ps_requested = map request_buffer_called (slots c)\<rparr>) qs"

text \<open>One slot of \<^verbatim>\<open>RestoreProducerSlots\<close>: the flag says whether a slot was freed.\<close>

definition restore_slot :: "bool \<Rightarrow> bool \<Rightarrow> nat \<Rightarrow> bool \<times> BufferQueueCore \<Rightarrow> kernel_fault + bool \<times> BufferQueueCore" where
  "restore_slot saved_dequeued saved_requested n fc = (case fc of (freed, c) \<Rightarrow>
    bindF (slot_get c (int n)) (\<lambda>s.
    let held_now = buffer_state s = Dequeued;
        take_back = (\<lambda>s. s\<lparr>buffer_state := Dequeued, request_buffer_called := saved_requested, fence := NoFence\<rparr>)
    in
    if held_now \<and> \<not> saved_dequeued then
      bindF (slot_upd (int n) (\<lambda>s. s\<lparr>buffer_state := Free, frame_number := 0\<rparr>) c) (\<lambda>c. Inr (True, c))
    else if \<not> held_now \<and> saved_dequeued then
      if buffer_state s = Free \<and> graphic_buffer s \<noteq> None then
        bindF (slot_upd (int n) take_back c) (\<lambda>c. Inr (freed, c))
      else if buffer_state s = Queued \<and> graphic_buffer s \<noteq> None then
        bindF (slot_upd (int n) take_back (c\<lparr>queue := filter (\<lambda>x. item_slot x \<noteq> int n) (queue c)\<rparr>)) (\<lambda>c. Inr (freed, c))
      else if buffer_state s = Acquired \<and> graphic_buffer s \<noteq> None then
        bindF (slot_upd (int n) (\<lambda>s. (take_back s)\<lparr>needs_cleanup_on_release := True, acquire_called := False\<rparr>) c)
          (\<lambda>c. Inr (freed, c))
      else Inr (freed, c)
    else Inr (freed, c)))"

fun restore_loop :: "bool list \<Rightarrow> bool list \<Rightarrow> nat \<Rightarrow> bool \<times> BufferQueueCore \<Rightarrow> kernel_fault + bool \<times> BufferQueueCore" where
  "restore_loop (d # ds) (q # qs) n fc = bindF (restore_slot d q n fc) (\<lambda>fc. restore_loop ds qs (n + 1) fc)"
| "restore_loop _ _ n fc = Inr fc"

definition restore_core :: "ProducerSlots \<Rightarrow> BufferQueueCore \<Rightarrow> kernel_fault + BufferQueueCore" where
  "restore_core entry c =
    bindF (restore_loop (ps_dequeued entry) (ps_requested entry) 0 (False, c)) (\<lambda>(freed_any, c).
      Inr (if freed_any then SignalDequeueCondition c else c))"

fun update_core :: "nat \<Rightarrow> (BufferQueueCore \<Rightarrow> kernel_fault + BufferQueueCore) \<Rightarrow>
    (nat \<times> BufferQueueCore) list \<Rightarrow> kernel_fault + (nat \<times> BufferQueueCore) list" where
  "update_core p f [] = Inr []"
| "update_core p f ((q, c) # qs) =
    (if q = p then bindF (f c) (\<lambda>c. Inr ((q, c) # qs))
     else bindF (update_core p f qs) (\<lambda>qs. Inr ((q, c) # qs)))"

fun RestoreProducerSlots ::
  "ProducerSlots list \<Rightarrow> (nat \<times> BufferQueueCore) list \<Rightarrow> kernel_fault + (nat \<times> BufferQueueCore) list" where
  "RestoreProducerSlots [] qs = Inr qs"
| "RestoreProducerSlots (entry # saved) qs =
    bindF (update_core (ps_core entry) (restore_core entry) qs) (\<lambda>qs. RestoreProducerSlots saved qs)"

end
