(* ===== verification/Buffer_Producer.thy ===== *)
theory Buffer_Producer
  imports Buffer_Queue
begin

text \<open>
  The producer side of the buffer queue (\<^verbatim>\<open>buffer_queue_producer.cpp\<close>). Every operation is the code
  between taking and releasing the core's mutex. \<^verbatim>\<open>DequeueBuffer\<close> and \<^verbatim>\<open>AttachBuffer\<close> may wait for a
  slot: the model runs them along a list of changes that other threads make to the core while
  they wait, and says so when the list ends before the wait does. \<^verbatim>\<open>DequeueBuffer\<close> leaves the mutex
  once more to allocate a buffer; what happens meanwhile is its argument \<open>between\<close>. Callbacks to
  listeners, made after the mutex is released, are returned as a list of notes.
\<close>

section \<open>State and results\<close>

record BufferQueueProducer =
  core :: BufferQueueCore
  sticky_transform :: u32
  buffer_wait_event :: bool

definition new_BufferQueueProducer :: "BufferQueueCore \<Rightarrow> BufferQueueProducer" where
  "new_BufferQueueProducer c = \<lparr>core = c, sticky_transform = 0, buffer_wait_event = False\<rparr>"

datatype bq_note = OnFrameAvailable BufferItem | OnFrameReplaced BufferItem | OnBuffersReleased
  | OnBufferReleased

datatype 'a blocking = Done 'a BufferQueueCore | Blocked BufferQueueCore

record QueueBufferInput =
  in_timestamp :: int
  in_is_auto_timestamp :: int
  in_crop :: "int \<times> int \<times> int \<times> int"
  in_scaling_mode :: int
  in_transform :: u32
  in_sticky_transform :: u32
  in_async :: int
  in_swap_interval :: int
  in_fence :: Fence

record QueueBufferOutput =
  out_width :: u32
  out_height :: u32
  out_transform_hint :: u32
  out_num_pending_buffers :: u32

definition Inflate :: "u32 \<Rightarrow> u32 \<Rightarrow> u32 \<Rightarrow> u32 \<Rightarrow> QueueBufferOutput" where
  "Inflate w h hint n = \<lparr>out_width = w, out_height = h, out_transform_hint = hint,
    out_num_pending_buffers = n\<rparr>"

definition slot_in_range :: "int \<Rightarrow> bool" where
  "slot_in_range slot \<longleftrightarrow> \<not> (slot < 0 \<or> slot \<ge> int NUM_BUFFER_SLOTS)"

section \<open>Requesting and counting buffers\<close>

definition RequestBuffer ::
  "int \<Rightarrow> BufferQueueCore \<Rightarrow> kernel_fault + Status \<times> GraphicBuffer option \<times> BufferQueueCore" where
  "RequestBuffer slot c =
    (if is_abandoned c then Inr (NoInit, None, c)
     else if \<not> slot_in_range slot then Inr (BadValue, None, c)
     else bindF (slot_get c slot) (\<lambda>s.
       if buffer_state s \<noteq> Dequeued then Inr (BadValue, None, c)
       else bindF (slot_upd slot (\<lambda>s. s\<lparr>request_buffer_called := True\<rparr>) c) (\<lambda>c.
         Inr (NoError, graphic_buffer s, c))))"

definition SetBufferCount ::
  "int \<Rightarrow> BufferQueueProducer \<Rightarrow> kernel_fault + Status \<times> bq_note list \<times> BufferQueueProducer" where
  "SetBufferCount buffer_count p =
    (let c = core p in
     if is_abandoned c then Inr (NoInit, [], p)
     else if buffer_count > int NUM_BUFFER_SLOTS then Inr (BadValue, [], p)
     else if \<exists>s \<in> set (slots c). buffer_state s = Dequeued then Inr (BadValue, [], p)
     else if buffer_count = 0 then
       Inr (NoError, [], p\<lparr>core := SignalDequeueCondition (c\<lparr>override_max_buffer_count := 0\<rparr>)\<rparr>)
     else if buffer_count < GetMinMaxBufferCountLocked False c then Inr (BadValue, [], p)
     else bindF (if GetPreallocatedBufferCountLocked c \<le> 0 then FreeAllBuffersLocked c else Inr c) (\<lambda>c.
       let c = SignalDequeueCondition (c\<lparr>override_max_buffer_count := buffer_count\<rparr>) in
       Inr (NoError, if consumer_listener c then [OnBuffersReleased] else [],
         p\<lparr>core := c, buffer_wait_event := True\<rparr>)))"

section \<open>Waiting for a free slot\<close>

fun free_beyond :: "bool \<Rightarrow> nat \<Rightarrow> int \<Rightarrow> Status \<Rightarrow> BufferQueueCore \<Rightarrow> kernel_fault + Status \<times> BufferQueueCore" where
  "free_beyond dbg 0 i flags c = Inr (flags, c)"
| "free_beyond dbg (Suc n) i flags c = bindF (slot_get c i) (\<lambda>s.
    bindF (ASSERT dbg (buffer_state s = Free)) (\<lambda>_.
    if graphic_buffer s \<noteq> None \<and> buffer_state s = Free \<and> \<not> is_preallocated s then
      bindF (FreeBufferLocked i c) (\<lambda>c. free_beyond dbg n (i + 1) (flags OR ReleaseAllBuffers) c)
    else free_beyond dbg n (i + 1) flags c))"

text \<open>The scan for the oldest free slot, with the counts of dequeued and acquired slots.\<close>

fun scan_slots :: "nat \<Rightarrow> int \<Rightarrow> int \<Rightarrow> int \<Rightarrow> int \<Rightarrow> BufferQueueCore \<Rightarrow> kernel_fault + int \<times> int \<times> int" where
  "scan_slots 0 i found dequeued acquired c = Inr (found, dequeued, acquired)"
| "scan_slots (Suc n) i found dequeued acquired c = bindF (slot_get c i) (\<lambda>s.
    case buffer_state s of
      Dequeued \<Rightarrow> scan_slots n (i + 1) found (dequeued + 1) acquired c
    | Acquired \<Rightarrow> scan_slots n (i + 1) found dequeued (acquired + 1) c
    | Queued \<Rightarrow> scan_slots n (i + 1) found dequeued acquired c
    | Free \<Rightarrow>
        if found = INVALID_BUFFER_SLOT then scan_slots n (i + 1) i dequeued acquired c
        else bindF (slot_get c found) (\<lambda>f.
          scan_slots n (i + 1) (if frame_number s < frame_number f then i else found) dequeued acquired c))"

datatype pass_result = PassReturns Status int Status BufferQueueCore | PassWaits Status BufferQueueCore

text \<open>One pass of the loop of \<^verbatim>\<open>WaitForFreeSlotThenRelock\<close>: it returns a status with the slot it found
  and the flags so far, or goes on to wait.\<close>

definition slot_pass :: "bool \<Rightarrow> bool \<Rightarrow> Status \<Rightarrow> BufferQueueCore \<Rightarrow> kernel_fault + pass_result" where
  "slot_pass dbg async flags c =
    (if is_abandoned c then Inr (PassReturns NoInit 0 flags c)
     else bindF (GetMaxBufferCountLocked dbg async c) (\<lambda>max_buffer_count.
       if async \<and> override_max_buffer_count c \<noteq> 0 \<and> override_max_buffer_count c < max_buffer_count
       then Inr (PassReturns BadValue INVALID_BUFFER_SLOT flags c)
       else bindF (free_beyond dbg (NUM_BUFFER_SLOTS - nat max_buffer_count) max_buffer_count flags c) (\<lambda>(flags, c).
         bindF (scan_slots (nat max_buffer_count) 0 INVALID_BUFFER_SLOT 0 0 c) (\<lambda>(found, dequeued_count, acquired_count).
         if override_max_buffer_count c = 0 \<and> dequeued_count \<noteq> 0
         then Inr (PassReturns InvalidOperation found flags c)
         else if buffer_has_been_queued c \<and>
           max_buffer_count - (dequeued_count + 1) < GetMinUndequeuedBufferCountLocked async c
         then Inr (PassReturns InvalidOperation found flags c)
         else let too_many_buffers = int (length (queue c)) > max_buffer_count in
           if found = INVALID_BUFFER_SLOT \<or> too_many_buffers then
             if dequeue_buffer_cannot_block c \<and> acquired_count \<le> max_acquired_buffer_count
             then Inr (PassReturns WouldBlock found flags c)
             else Inr (PassWaits flags c)
           else Inr (PassReturns NoError found flags c)))))"

text \<open>The wait itself: it ends at once when the condition is already signalled, and else after the
  first change of the others that signals it.\<close>

type_synonym others = "BufferQueueCore \<Rightarrow> BufferQueueCore"

fun await_dequeue :: "others list \<Rightarrow> BufferQueueCore \<Rightarrow> BufferQueueCore + BufferQueueCore \<times> others list" where
  "await_dequeue [] c = (if dequeue_possible c then Inr (dequeue_woken c, []) else Inl c)"
| "await_dequeue (f # fs) c = (if dequeue_possible c then Inr (dequeue_woken c, f # fs) else await_dequeue fs (f c))"

lemma free_beyond_dequeue_possible:
  "free_beyond dbg n i flags c = Inr (flags', c') \<Longrightarrow> dequeue_possible c' = dequeue_possible c"
proof (induction n arbitrary: i flags c)
  case (Suc n)
  then show ?case
    by (auto simp: bindF_eq_Inr FreeBufferLocked_def slot_upd_def dest!: Suc.IH split: if_splits)
qed simp

lemma slot_pass_dequeue_possible:
  "slot_pass dbg async flags c = Inr (PassWaits flags' c') \<Longrightarrow> dequeue_possible c' = dequeue_possible c"
  by (auto simp: slot_pass_def bindF_eq_Inr Let_def dest: free_beyond_dequeue_possible split: if_splits)

lemma await_dequeue_smaller:
  "await_dequeue fs c = Inr (c', fs') \<Longrightarrow>
    2 * length fs' + of_bool (dequeue_possible c') < 2 * length fs + of_bool (dequeue_possible c)"
proof (induction fs c rule: await_dequeue.induct)
  case (2 f fs c)
  then show ?case
    by (cases "dequeue_possible c"; cases "dequeue_possible (f c)")
      (auto simp: dequeue_woken_def split: if_splits)
qed (auto simp: dequeue_woken_def split: if_splits)

function wait_for_slot ::
  "bool \<Rightarrow> bool \<Rightarrow> Status \<Rightarrow> others list \<Rightarrow> BufferQueueCore \<Rightarrow> kernel_fault + (Status \<times> int \<times> Status) blocking" where
  "wait_for_slot dbg async flags fs c = (case slot_pass dbg async flags c of
      Inl f \<Rightarrow> Inl f
    | Inr (PassReturns status found flags c) \<Rightarrow> Inr (Done (status, found, flags) c)
    | Inr (PassWaits flags c) \<Rightarrow> (case await_dequeue fs c of
          Inl c \<Rightarrow> Inr (Blocked c)
        | Inr (c, fs) \<Rightarrow> wait_for_slot dbg async flags fs c))"
  by pat_completeness auto
termination
  by (relation "measure (\<lambda>(dbg, async, flags, fs, c). 2 * length fs + of_bool (dequeue_possible c))")
    (auto dest!: await_dequeue_smaller slot_pass_dequeue_possible)

declare wait_for_slot.simps [simp del]

section \<open>Dequeueing\<close>

definition needs_reallocation :: "GraphicBuffer option \<Rightarrow> u32 \<Rightarrow> u32 \<Rightarrow> u32 \<Rightarrow> u32 \<Rightarrow> bool" where
  "needs_reallocation buffer width height format usage = (case buffer of
      None \<Rightarrow> True
    | Some b \<Rightarrow> gb_width b \<noteq> width \<or> gb_height b \<noteq> height \<or> gb_format b \<noteq> format \<or>
        gb_usage b AND usage \<noteq> usage)"

text \<open>The rest of the first critical section, once a slot is found: the slot's fence is handed
  out and replaced, and a buffer that does not fit is dropped.\<close>

definition dequeue_mark ::
  "int \<Rightarrow> u32 \<Rightarrow> u32 \<Rightarrow> u32 \<Rightarrow> u32 \<Rightarrow> Status \<Rightarrow> BufferQueueCore
    \<Rightarrow> kernel_fault + bool \<times> Status \<times> Fence \<times> BufferQueueCore" where
  "dequeue_mark found width height format usage flags c = bindF (slot_get c found) (\<lambda>s.
    let realloc = needs_reallocation (graphic_buffer s) width height format usage;
        s' = (if realloc then s\<lparr>buffer_state := Dequeued, acquire_called := False, graphic_buffer := None,
                request_buffer_called := False, fence := NoFence\<rparr>
              else s\<lparr>buffer_state := Dequeued\<rparr>)
    in bindF (slot_upd found (\<lambda>_. s'\<lparr>fence := NoFence\<rparr>) c) (\<lambda>c.
      Inr (attached_by_consumer s, if realloc then flags OR BufferNeedsReallocation else flags, fence s', c)))"

definition dequeue_install :: "int \<Rightarrow> GraphicBuffer \<Rightarrow> BufferQueueCore \<Rightarrow> kernel_fault + (Status + unit) \<times> BufferQueueCore" where
  "dequeue_install found buffer c =
    (if is_abandoned c then Inr (Inl NoInit, c)
     else bindF (slot_upd found (\<lambda>s. s\<lparr>frame_number := 0xFFFFFFFF, graphic_buffer := Some buffer\<rparr>) c) (\<lambda>c.
       Inr (Inr (), c)))"

definition DequeueBuffer ::
  "bool \<Rightarrow> nat \<Rightarrow> others \<Rightarrow> others list \<Rightarrow> bool \<Rightarrow> u32 \<Rightarrow> u32 \<Rightarrow> u32 \<Rightarrow> u32 \<Rightarrow> BufferQueueCore
    \<Rightarrow> kernel_fault + (Status \<times> (int \<times> Fence) option) blocking" where
  "DequeueBuffer dbg pointer between fs async width height format usage c =
    (if (width \<noteq> 0 \<and> height = 0) \<or> (width = 0 \<and> height \<noteq> 0) then Inr (Done (BadValue, None) c)
     else
       let format = (if format = 0 then default_buffer_format c else format);
           usage = usage OR consumer_usage_bit c in
       bindF (wait_for_slot dbg async NoError fs c) (\<lambda>w. case w of
           Blocked c \<Rightarrow> Inr (Blocked c)
         | Done (status, found, flags) c \<Rightarrow>
             if status \<noteq> NoError then Inr (Done (status, None) c)
             else if found = INVALID_BUFFER_SLOT then Inr (Done (Busy, None) c)
             else
               let use_default_size = (width = 0 \<and> height = 0);
                   width = (if use_default_size then default_width c else width);
                   height = (if use_default_size then default_height c else height) in
               bindF (dequeue_mark found width height format usage flags c) (\<lambda>(attached, flags, out_fence, c).
               bindF (if flags AND BufferNeedsReallocation \<noteq> 0
                      then dequeue_install found (new_GraphicBuffer pointer width height format usage) (between c)
                      else Inr (Inr (), c)) (\<lambda>(r, c). case r of
                   Inl status \<Rightarrow> Inr (Done (status, Some (found, out_fence)) c)
                 | Inr () \<Rightarrow> Inr (Done (if attached then flags OR BufferNeedsReallocation else flags,
                     Some (found, out_fence)) c)))))"

section \<open>Detaching and attaching\<close>

definition DetachBuffer :: "int \<Rightarrow> BufferQueueCore \<Rightarrow> kernel_fault + Status \<times> BufferQueueCore" where
  "DetachBuffer slot c =
    (if is_abandoned c then Inr (NoInit, c)
     else if \<not> slot_in_range slot then Inr (BadValue, c)
     else bindF (slot_get c slot) (\<lambda>s.
       if buffer_state s \<noteq> Dequeued then Inr (BadValue, c)
       else if \<not> request_buffer_called s then Inr (BadValue, c)
       else bindF (FreeBufferLocked slot c) (\<lambda>c. Inr (NoError, SignalDequeueCondition c))))"

text \<open>The oldest free slot that has a buffer.\<close>

fun oldest_buffer :: "nat \<Rightarrow> int \<Rightarrow> int \<Rightarrow> BufferQueueCore \<Rightarrow> kernel_fault + int" where
  "oldest_buffer 0 i found c = Inr found"
| "oldest_buffer (Suc n) i found c = bindF (slot_get c i) (\<lambda>s.
    if buffer_state s = Free \<and> graphic_buffer s \<noteq> None then
      if found = INVALID_BUFFER_SLOT then oldest_buffer n (i + 1) i c
      else bindF (slot_get c found) (\<lambda>f.
        oldest_buffer n (i + 1) (if frame_number s < frame_number f then i else found) c)
    else oldest_buffer n (i + 1) found c)"

definition DetachNextBuffer ::
  "BufferQueueCore \<Rightarrow> kernel_fault + Status \<times> (GraphicBuffer option \<times> Fence) option \<times> BufferQueueCore" where
  "DetachNextBuffer c =
    (if is_abandoned c then Inr (NoInit, None, c)
     else bindF (oldest_buffer NUM_BUFFER_SLOTS 0 INVALID_BUFFER_SLOT c) (\<lambda>found.
       if found = INVALID_BUFFER_SLOT then Inr (NoMemory, None, c)
       else bindF (slot_get c found) (\<lambda>s. bindF (FreeBufferLocked found c) (\<lambda>c.
         Inr (NoError, Some (graphic_buffer s, fence s), c)))))"

definition attach_mark :: "int \<Rightarrow> GraphicBuffer option \<Rightarrow> BufferQueueCore \<Rightarrow> kernel_fault + BufferQueueCore" where
  "attach_mark found buffer c = slot_upd found (\<lambda>s. s\<lparr>graphic_buffer := buffer, buffer_state := Dequeued,
    fence := NoFence, request_buffer_called := True\<rparr>) c"

definition AttachBuffer ::
  "bool \<Rightarrow> others list \<Rightarrow> GraphicBuffer option \<Rightarrow> BufferQueueCore
    \<Rightarrow> kernel_fault + (Status \<times> int option) blocking" where
  "AttachBuffer dbg fs buffer c =
    (if buffer = None then Inr (Done (BadValue, None) c)
     else bindF (wait_for_slot dbg False NoError fs c) (\<lambda>w. case w of
         Blocked c \<Rightarrow> Inr (Blocked c)
       | Done (status, found, flags) c \<Rightarrow>
           if status \<noteq> NoError then Inr (Done (status, None) c)
           else if found = INVALID_BUFFER_SLOT then Inr (Done (Busy, None) c)
           else bindF (attach_mark found buffer c) (\<lambda>c. Inr (Done (flags, Some found) c))))"

section \<open>Queueing\<close>

definition InverseDisplay :: u32 where
  "InverseDisplay = 8"

definition make_item :: "QueueBufferInput \<Rightarrow> int \<Rightarrow> u64 \<Rightarrow> bool \<Rightarrow> BufferSlot \<Rightarrow> BufferItem" where
  "make_item i slot frame droppable s = \<lparr>item_graphic_buffer = graphic_buffer s, item_fence = in_fence i,
    item_crop = in_crop i, item_transform = in_transform i AND NOT InverseDisplay,
    item_scaling_mode = word_of_int (in_scaling_mode i), item_timestamp = in_timestamp i,
    item_is_auto_timestamp = (in_is_auto_timestamp i \<noteq> 0), item_frame_number = frame, item_slot = slot,
    item_is_droppable = droppable, item_acquire_called = acquire_called s,
    item_transform_to_display_inverse = (in_transform i AND InverseDisplay \<noteq> 0),
    item_swap_interval = in_swap_interval i\<rparr>"

text \<open>Putting the item into the queue: a droppable front item is replaced, its slot freed if the
  core still tracks it.\<close>

definition enqueue_item :: "bool \<Rightarrow> BufferItem \<Rightarrow> BufferQueueCore \<Rightarrow> kernel_fault + bool \<times> BufferQueueCore" where
  "enqueue_item hist item c = (case queue c of
      [] \<Rightarrow> Inr (True, c\<lparr>queue := [item]\<rparr>)
    | front # rest \<Rightarrow>
        if item_is_droppable front then
          bindF (StillTracking c front) (\<lambda>tracked.
          bindF (if tracked then
              bindF (slot_upd (item_slot front) (\<lambda>s. s\<lparr>buffer_state := Free\<rparr>) c) (\<lambda>c.
                slot_upd (item_slot front) (\<lambda>s. s\<lparr>frame_number := 0\<rparr>)
                  (if hist then UpdateHistory (item_frame_number front) Free c else c))
            else Inr c) (\<lambda>c.
          Inr (False, c\<lparr>queue := item # rest\<rparr>)))
        else Inr (True, c\<lparr>queue := queue c @ [item]\<rparr>))"

text \<open>The rest of the critical section, after the checks: number the frame, mark the slot, put the
  item into the queue, record it in the history and signal the producer's condition.\<close>

definition queue_locked ::
  "bool \<Rightarrow> int \<Rightarrow> int \<Rightarrow> QueueBufferInput \<Rightarrow> BufferSlot \<Rightarrow> BufferQueueCore
    \<Rightarrow> kernel_fault + BufferItem \<times> bool \<times> BufferQueueCore" where
  "queue_locked hist now slot input s c =
    (let frame = frame_counter c + 1;
         item = make_item input slot frame (dequeue_buffer_cannot_block c \<or> in_async input \<noteq> 0) s in
     bindF (slot_upd slot (\<lambda>s. s\<lparr>buffer_state := Queued, frame_number := frame,
       queue_time := in_timestamp input, presentation_time := now, fence := in_fence input\<rparr>)
       (c\<lparr>frame_counter := frame\<rparr>)) (\<lambda>c.
     bindF (enqueue_item hist item c) (\<lambda>(available, c).
     bindF (slot_get c slot) (\<lambda>s.
     let c = (if hist then PushHistory (frame_counter c) (queue_time s) (presentation_time s) Queued c else c) in
     Inr (item, available, SignalDequeueCondition (c\<lparr>buffer_has_been_queued := True\<rparr>))))))"

definition QueueBuffer ::
  "bool \<Rightarrow> bool \<Rightarrow> int \<Rightarrow> int \<Rightarrow> QueueBufferInput \<Rightarrow> BufferQueueProducer
    \<Rightarrow> kernel_fault + Status \<times> QueueBufferOutput option \<times> bq_note list \<times> BufferQueueProducer" where
  "QueueBuffer dbg hist now slot input p =
    (let c = core p; async = (in_async input \<noteq> 0) in
     if in_scaling_mode input \<notin> {0, 1, 2, 3, 4} then Inr (BadValue, None, [], p)
     else if is_abandoned c then Inr (NoInit, None, [], p)
     else bindF (GetMaxBufferCountLocked dbg async c) (\<lambda>max_buffer_count.
       if slot < 0 \<or> slot \<ge> max_buffer_count then Inr (BadValue, None, [], p)
       else bindF (slot_get c slot) (\<lambda>s.
         if buffer_state s \<noteq> Dequeued then Inr (BadValue, None, [], p)
         else if \<not> request_buffer_called s then Inr (BadValue, None, [], p)
         else bindF (queue_locked hist now slot input s c) (\<lambda>(item, available, c).
           let note_item = item\<lparr>item_graphic_buffer := None, item_slot := INVALID_BUFFER_SLOT\<rparr> in
           Inr (NoError,
             Some (Inflate (default_width c) (default_height c) (transform_hint c) (of_nat (length (queue c)))),
             if consumer_listener c then [if available then OnFrameAvailable note_item else OnFrameReplaced note_item] else [],
             p\<lparr>core := c, sticky_transform := in_sticky_transform input\<rparr>)))))"

definition CancelBuffer :: "int \<Rightarrow> Fence \<Rightarrow> BufferQueueProducer \<Rightarrow> kernel_fault + BufferQueueProducer" where
  "CancelBuffer slot fe p =
    (let c = core p in
     if is_abandoned c then Inr p
     else if \<not> slot_in_range slot then Inr p
     else bindF (slot_get c slot) (\<lambda>s.
       if buffer_state s \<noteq> Dequeued then Inr p
       else bindF (slot_upd slot (\<lambda>s. s\<lparr>buffer_state := Free, frame_number := 0, fence := fe\<rparr>) c) (\<lambda>c.
         Inr (p\<lparr>core := SignalDequeueCondition c, buffer_wait_event := True\<rparr>))))"

section \<open>Queries, connections and preallocated buffers\<close>

definition Query :: "bool \<Rightarrow> int \<Rightarrow> BufferQueueProducer \<Rightarrow> kernel_fault + Status \<times> u32 option" where
  "Query dbg what p =
    (let c = core p in
     if is_abandoned c then Inr (NoInit, None)
     else if what = 0 then Inr (NoError, Some (default_width c))
     else if what = 1 then Inr (NoError, Some (default_height c))
     else if what = 2 then Inr (NoError, Some (default_buffer_format c))
     else if what = 3 then Inr (NoError, Some (word_of_int (GetMinUndequeuedBufferCountLocked False c)))
     else if what = 11 then Inr (NoError, Some (sticky_transform p))
     else if what = 9 then Inr (NoError, Some (of_bool (length (queue c) > 1)))
     else if what = 10 then Inr (NoError, Some (consumer_usage_bit c))
     else if what = 12 then bindF (GetMaxBufferCountLocked dbg False c) (\<lambda>n. Inr (NoError, Some (word_of_int n)))
     else bindF (ASSERT dbg False) (\<lambda>_. Inr (BadValue, None)))"

definition Connect ::
  "bool \<Rightarrow> int \<Rightarrow> bool \<Rightarrow> BufferQueueCore \<Rightarrow> Status \<times> QueueBufferOutput option \<times> BufferQueueCore" where
  "Connect listener api producer_controlled_by_app c =
    (if is_abandoned c then (NoInit, None, c)
     else if \<not> consumer_listener c then (NoInit, None, c)
     else if connected_api c \<noteq> NoConnectedApi then (BadValue, None, c)
     else
       let c' = c\<lparr>buffer_has_been_queued := False,
                  dequeue_buffer_cannot_block := (consumer_controlled_by_app c \<and> producer_controlled_by_app)\<rparr> in
       if api \<in> {1, 2, 3, 4} then
         (NoError, Some (Inflate (default_width c) (default_height c) (transform_hint c) (of_nat (length (queue c)))),
          c'\<lparr>connected_api := api, connected_producer_listener := listener\<rparr>)
       else (BadValue, None, c'))"

definition Disconnect ::
  "int \<Rightarrow> BufferQueueProducer \<Rightarrow> kernel_fault + Status \<times> bq_note list \<times> BufferQueueProducer" where
  "Disconnect api p =
    (let c = core p in
     if is_abandoned c then Inr (NoError, [], p)
     else if connected_api c = NoConnectedApi then Inr (NoInit, [], p)
     else if api \<in> {1, 2, 3, 4} then
       if connected_api c = api then
         bindF (FreeAllBuffersLocked (c\<lparr>queue := []\<rparr>)) (\<lambda>c.
           let c = SignalDequeueCondition (c\<lparr>connected_producer_listener := False, connected_api := NoConnectedApi\<rparr>) in
           Inr (NoError, if consumer_listener c then [OnBuffersReleased] else [],
             p\<lparr>core := c, buffer_wait_event := True\<rparr>))
       else Inr (BadValue, [], p)
     else Inr (BadValue, [], p))"

text \<open>\<open>pointer\<close> is the new buffer object; \<open>buffer\<close> the description from the parcel, if there is one.\<close>

definition SetPreallocatedBuffer ::
  "int \<Rightarrow> nat \<Rightarrow> GraphicBuffer option \<Rightarrow> BufferQueueProducer \<Rightarrow> kernel_fault + Status \<times> BufferQueueProducer" where
  "SetPreallocatedBuffer slot pointer buffer p =
    (if \<not> slot_in_range slot then Inr (BadValue, p)
     else
       let gb = (case buffer of None \<Rightarrow> new_GraphicBuffer pointer 0 0 0 0 | Some b \<Rightarrow> b\<lparr>gb_pointer := pointer\<rparr>) in
       bindF (slot_upd slot (\<lambda>_. new_BufferSlot\<lparr>fence := NoFence, graphic_buffer := Some gb, frame_number := 0\<rparr>) (core p)) (\<lambda>c.
       bindF (case buffer of
           None \<Rightarrow> Inr c
         | Some b \<Rightarrow> bindF (slot_upd slot (\<lambda>s. s\<lparr>is_preallocated := True\<rparr>) c) (\<lambda>c.
             Inr (c\<lparr>override_max_buffer_count := GetPreallocatedBufferCountLocked c, default_width := gb_width b,
               default_height := gb_height b, default_buffer_format := gb_format b\<rparr>))) (\<lambda>c.
       Inr (NoError, p\<lparr>core := SignalDequeueCondition c, buffer_wait_event := True\<rparr>))))"

text \<open>The reply of the \<^verbatim>\<open>GetBufferHistory\<close> transaction: the newest frames first, at most \<open>request\<close>
  of them. The map is iterated in no particular order, and then sorted.\<close>

definition GetBufferHistory :: "int \<Rightarrow> BufferQueueCore \<Rightarrow> Status \<times> BufferHistoryInfo list" where
  "GetBufferHistory request c =
    (if request \<le> 0 then (BadValue, [])
     else
       let snapshot = map (\<lambda>f. the (buffer_history_map c f))
             (rev (sort (filter (\<lambda>f. buffer_history_map c f \<noteq> None) (buffer_history_order c)))) in
       (NoError, take (nat request) snapshot))"

end
