(* ===== verification/Buffer_Consumer.thy ===== *)
theory Buffer_Consumer
  imports Buffer_Producer
begin

text \<open>
  The consumer side of the buffer queue: \<^verbatim>\<open>buffer_queue_consumer.cpp\<close>, the base class of consumers
  that keeps the consumer's own view of the slots (\<^verbatim>\<open>consumer_base.cpp\<close>) and the consumer of items
  that the hardware composer uses (\<^verbatim>\<open>buffer_item_consumer.cpp\<close>). Times are nanoseconds, as integers without
  bounds: the 64-bit sums of the source overflow only for times within a second of the ends of their range.
\<close>

section \<open>BufferQueueConsumer\<close>

definition MAX_REASONABLE_NSEC :: int where
  "MAX_REASONABLE_NSEC = 1000000000"

text \<open>The loop that drops front items while the one behind them is timely.\<close>

fun drop_loop :: "int \<Rightarrow> BufferItem list \<Rightarrow> BufferQueueCore \<Rightarrow> kernel_fault + BufferItem list \<times> BufferQueueCore" where
  "drop_loop expected (front # next # rest) c =
    (if item_is_auto_timestamp front then Inr (front # next # rest, c)
     else if item_timestamp next < expected - MAX_REASONABLE_NSEC \<or> item_timestamp next > expected
     then Inr (front # next # rest, c)
     else bindF (StillTracking c front) (\<lambda>tracked.
       bindF (if tracked then slot_upd (item_slot front) (\<lambda>s. s\<lparr>buffer_state := Free\<rparr>) c else Inr c) (\<lambda>c.
       drop_loop expected (next # rest) c)))"
| "drop_loop expected q c = Inr (q, c)"

definition num_acquired :: "BufferQueueCore \<Rightarrow> nat" where
  "num_acquired c = length (filter (\<lambda>s. buffer_state s = Acquired) (slots c))"

definition AcquireBuffer ::
  "int \<Rightarrow> BufferQueueCore \<Rightarrow> kernel_fault + Status \<times> BufferItem option \<times> BufferQueueCore" where
  "AcquireBuffer expected_present c =
    (if int (num_acquired c) \<ge> max_acquired_buffer_count + 1 then Inr (InvalidOperation, None, c)
     else if queue c = [] then Inr (NoBufferAvailable, None, c)
     else bindF (if expected_present \<noteq> 0 then drop_loop expected_present (queue c) c else Inr (queue c, c)) (\<lambda>(q, c).
       let front = hd q; c = c\<lparr>queue := q\<rparr> in
       if expected_present \<noteq> 0 \<and> item_timestamp front > expected_present \<and>
         item_timestamp front < expected_present + MAX_REASONABLE_NSEC
       then Inr (PresentLater, None, c)
       else bindF (StillTracking c front) (\<lambda>tracked.
         bindF (if tracked then slot_upd (item_slot front) (\<lambda>s. s\<lparr>acquire_called := True,
             needs_cleanup_on_release := False, buffer_state := Acquired\<rparr>) c else Inr c) (\<lambda>c.
         Inr (NoError,
           Some (if item_acquire_called front then front\<lparr>item_graphic_buffer := None\<rparr> else front),
           SignalDequeueCondition (c\<lparr>queue := tl q\<rparr>))))))"

definition ReleaseBuffer ::
  "int \<Rightarrow> u64 \<Rightarrow> BufferQueueCore \<Rightarrow> kernel_fault + Status \<times> bq_note list \<times> BufferQueueCore" where
  "ReleaseBuffer slot frame c =
    (if \<not> slot_in_range slot then Inr (BadValue, [], c)
     else bindF (slot_get c slot) (\<lambda>s.
       if frame \<noteq> frame_number s then Inr (StaleBufferSlot, [], c)
       else if \<exists>x \<in> set (queue c). item_slot x = slot then Inr (BadValue, [], c)
       else if buffer_state s = Acquired then
         bindF (slot_upd slot (\<lambda>s. s\<lparr>buffer_state := Free\<rparr>) c) (\<lambda>c.
           Inr (NoError, if connected_producer_listener c then [OnBufferReleased] else [], SignalDequeueCondition c))
       else if needs_cleanup_on_release s then
         bindF (slot_upd slot (\<lambda>s. s\<lparr>needs_cleanup_on_release := False\<rparr>) c) (\<lambda>c.
           Inr (StaleBufferSlot, [], c))
       else Inr (BadValue, [], c)))"

definition consumer_Connect :: "bool \<Rightarrow> bool \<Rightarrow> BufferQueueCore \<Rightarrow> Status \<times> BufferQueueCore" where
  "consumer_Connect listener controlled_by_app c =
    (if \<not> listener then (BadValue, c)
     else if is_abandoned c then (NoInit, c)
     else (NoError, c\<lparr>consumer_listener := listener, consumer_controlled_by_app := controlled_by_app\<rparr>))"

definition consumer_Disconnect :: "BufferQueueCore \<Rightarrow> kernel_fault + Status \<times> BufferQueueCore" where
  "consumer_Disconnect c =
    (if \<not> consumer_listener c then Inr (BadValue, c)
     else bindF (FreeAllBuffersLocked (c\<lparr>is_abandoned := True, consumer_listener := False, queue := []\<rparr>)) (\<lambda>c.
       Inr (NoError, SignalDequeueCondition c)))"

fun released_mask :: "BufferSlot list \<Rightarrow> nat \<Rightarrow> u64" where
  "released_mask [] s = 0"
| "released_mask (x # xs) s = (if acquire_called x then 0 else push_bit s 1) OR released_mask xs (s + 1)"

fun retain_queued :: "BufferItem list \<Rightarrow> u64 \<Rightarrow> u64" where
  "retain_queued [] m = m"
| "retain_queued (x # xs) m =
    retain_queued xs (if item_acquire_called x then m AND NOT (push_bit (nat (item_slot x)) 1) else m)"

definition GetReleasedBuffers :: "BufferQueueCore \<Rightarrow> Status \<times> u64 option" where
  "GetReleasedBuffers c =
    (if is_abandoned c then (NoInit, None)
     else (NoError, Some (retain_queued (queue c) (released_mask (slots c) 0))))"

section \<open>ConsumerBase\<close>

record ConsumerSlot =
  cs_graphic_buffer :: "GraphicBuffer option"
  cs_fence :: Fence
  cs_frame_number :: u64

record ConsumerBase =
  cb_slots :: "ConsumerSlot list"
  cb_is_abandoned :: bool
  cb_consumer :: bool

definition new_ConsumerBase :: ConsumerBase where
  "new_ConsumerBase = \<lparr>cb_slots = replicate NUM_BUFFER_SLOTS
      \<lparr>cs_graphic_buffer = None, cs_fence = new_Fence, cs_frame_number = 0\<rparr>,
    cb_is_abandoned = False, cb_consumer = True\<rparr>"

definition cslot_get :: "ConsumerBase \<Rightarrow> int \<Rightarrow> kernel_fault + ConsumerSlot" where
  "cslot_get b i = (if i < 0 then Inl KIndexOutOfRange else arr_get KIndexOutOfRange (cb_slots b) (nat i))"

definition cslot_upd :: "int \<Rightarrow> (ConsumerSlot \<Rightarrow> ConsumerSlot) \<Rightarrow> ConsumerBase \<Rightarrow> kernel_fault + ConsumerBase" where
  "cslot_upd i f b = bindF (cslot_get b i) (\<lambda>s. Inr (b\<lparr>cb_slots := (cb_slots b)[nat i := f s]\<rparr>))"

definition consumer_FreeBufferLocked :: "int \<Rightarrow> ConsumerBase \<Rightarrow> kernel_fault + ConsumerBase" where
  "consumer_FreeBufferLocked slot_index b = cslot_upd slot_index
    (\<lambda>s. s\<lparr>cs_graphic_buffer := None, cs_fence := NoFence, cs_frame_number := 0\<rparr>) b"

text \<open>Freeing the slots of a range for which \<open>p\<close> holds.\<close>

fun consumer_free_loop :: "(nat \<Rightarrow> bool) \<Rightarrow> nat \<Rightarrow> nat \<Rightarrow> ConsumerBase \<Rightarrow> kernel_fault + ConsumerBase" where
  "consumer_free_loop p 0 i b = Inr b"
| "consumer_free_loop p (Suc n) i b =
    bindF (if p i then consumer_FreeBufferLocked (int i) b else Inr b) (\<lambda>b. consumer_free_loop p n (i + 1) b)"

definition Abandon :: "ConsumerBase \<Rightarrow> BufferQueueCore \<Rightarrow> kernel_fault + ConsumerBase \<times> BufferQueueCore" where
  "Abandon b c =
    (if \<not> cb_is_abandoned b then
       bindF (consumer_free_loop (\<lambda>_. True) NUM_BUFFER_SLOTS 0 b) (\<lambda>b.
       bindF (consumer_Disconnect c) (\<lambda>(_, c).
       Inr (b\<lparr>cb_consumer := False, cb_is_abandoned := True\<rparr>, c)))
     else Inr (b, c))"

text \<open>The callback the producer makes after it has freed buffers. A failed query leaves the mask
  at 0.\<close>

definition handle_OnBuffersReleased :: "ConsumerBase \<Rightarrow> BufferQueueCore \<Rightarrow> kernel_fault + ConsumerBase" where
  "handle_OnBuffersReleased b c =
    (if cb_is_abandoned b then Inr b
     else
       let mask = (case GetReleasedBuffers c of (_, Some m) \<Rightarrow> m | (_, None) \<Rightarrow> 0) in
       consumer_free_loop (\<lambda>i. mask AND push_bit i 1 \<noteq> 0) NUM_BUFFER_SLOTS 0 b)"

definition AcquireBufferLocked ::
  "int \<Rightarrow> ConsumerBase \<Rightarrow> BufferQueueCore \<Rightarrow> kernel_fault + Status \<times> BufferItem option \<times> ConsumerBase \<times> BufferQueueCore" where
  "AcquireBufferLocked present_when b c = bindF (AcquireBuffer present_when c) (\<lambda>(err, item, c).
    case item of
      None \<Rightarrow> Inr (err, None, b, c)
    | Some x \<Rightarrow> bindF (cslot_upd (item_slot x) (\<lambda>s. s\<lparr>
          cs_graphic_buffer := (if item_graphic_buffer x \<noteq> None then item_graphic_buffer x else cs_graphic_buffer s),
          cs_frame_number := item_frame_number x, cs_fence := item_fence x\<rparr>) b) (\<lambda>b.
        Inr (err, Some x, b, c)))"

definition consumer_StillTracking :: "int \<Rightarrow> GraphicBuffer option \<Rightarrow> ConsumerBase \<Rightarrow> kernel_fault + bool" where
  "consumer_StillTracking slot buffer b =
    (if \<not> slot_in_range slot then Inr False
     else bindF (cslot_get b slot) (\<lambda>s. case cs_graphic_buffer s of
         None \<Rightarrow> Inr False
       | Some mine \<Rightarrow> (case buffer of
             None \<Rightarrow> Inl DanglingObject
           | Some theirs \<Rightarrow> Inr (gb_handle mine = gb_handle theirs))))"

definition AddReleaseFenceLocked ::
  "int \<Rightarrow> GraphicBuffer option \<Rightarrow> Fence \<Rightarrow> ConsumerBase \<Rightarrow> kernel_fault + Status \<times> ConsumerBase" where
  "AddReleaseFenceLocked slot buffer fe b = bindF (consumer_StillTracking slot buffer b) (\<lambda>tracked.
    if \<not> tracked then Inr (NoError, b)
    else bindF (cslot_upd slot (\<lambda>s. s\<lparr>cs_fence := fe\<rparr>) b) (\<lambda>b. Inr (NoError, b)))"

definition ReleaseBufferLocked ::
  "int \<Rightarrow> GraphicBuffer option \<Rightarrow> ConsumerBase \<Rightarrow> BufferQueueCore
    \<Rightarrow> kernel_fault + Status \<times> bq_note list \<times> ConsumerBase \<times> BufferQueueCore" where
  "ReleaseBufferLocked slot buffer b c = bindF (consumer_StillTracking slot buffer b) (\<lambda>tracked.
    if \<not> tracked then Inr (NoError, [], b, c)
    else bindF (cslot_get b slot) (\<lambda>s.
      bindF (ReleaseBuffer slot (cs_frame_number s) c) (\<lambda>(err, notes, c).
      bindF (if err = StaleBufferSlot then consumer_FreeBufferLocked slot b else Inr b) (\<lambda>b.
      bindF (cslot_upd slot (\<lambda>s. s\<lparr>cs_fence := NoFence\<rparr>) b) (\<lambda>b.
      Inr (err, notes, b, c))))))"

section \<open>BufferItemConsumer\<close>

definition item_AcquireBuffer ::
  "bool \<Rightarrow> int \<Rightarrow> bool \<Rightarrow> ConsumerBase \<Rightarrow> BufferQueueCore
    \<Rightarrow> kernel_fault + Status \<times> BufferItem option \<times> ConsumerBase \<times> BufferQueueCore" where
  "item_AcquireBuffer dbg present_when wait_for_fence b c =
    bindF (AcquireBufferLocked present_when b c) (\<lambda>(status, item, b, c). case item of
        None \<Rightarrow> Inr (status, None, b, c)
      | Some x \<Rightarrow> bindF (ASSERT dbg (\<not> wait_for_fence)) (\<lambda>_.
          bindF (cslot_get b (item_slot x)) (\<lambda>s.
          Inr (NoError, Some (x\<lparr>item_graphic_buffer := cs_graphic_buffer s\<rparr>), b, c))))"

definition item_ReleaseBuffer ::
  "BufferItem \<Rightarrow> Fence \<Rightarrow> ConsumerBase \<Rightarrow> BufferQueueCore
    \<Rightarrow> kernel_fault + Status \<times> bq_note list \<times> ConsumerBase \<times> BufferQueueCore" where
  "item_ReleaseBuffer item release_fence b c =
    bindF (AddReleaseFenceLocked (item_slot item) (item_graphic_buffer item) release_fence b) (\<lambda>(_, b).
    bindF (ReleaseBufferLocked (item_slot item) (item_graphic_buffer item) b c) (\<lambda>(status, notes, b, c).
    Inr (status, notes, b, c)))"

end
