(* ===== verification/Buffer_Invariants.thy ===== *)
theory Buffer_Invariants
  imports Buffer_Consumer
begin

text \<open>
  The invariant of the buffer queue and its preservation by every critical section of producer,
  consumer and Quick Load: items name slots of the array; an item whose buffer its slot still has
  is waiting there, under its own frame number and alone; at most one slot is acquired; the
  history has at most eight frames. The critical sections are the steps of \<open>bq_step\<close>.
\<close>

lemma bindF_InrE:
  assumes "bindF m k = Inr y"
  obtains x where "m = Inr x" and "k x = Inr y"
  using assms by (auto simp: bindF_eq_Inr)

section \<open>The invariant\<close>

definition slot_at :: "BufferQueueCore \<Rightarrow> int \<Rightarrow> BufferSlot" where
  "slot_at c i = slots c ! nat i"

definition has_buffer :: "GraphicBuffer option \<Rightarrow> BufferItem \<Rightarrow> bool" where
  "has_buffer b x \<longleftrightarrow> b \<noteq> None \<and> same_buffer (item_graphic_buffer x) b"

definition tracks :: "BufferQueueCore \<Rightarrow> BufferItem \<Rightarrow> bool" where
  "tracks c x \<longleftrightarrow> has_buffer (graphic_buffer (slot_at c (item_slot x))) x"

definition valid_slot :: "int \<Rightarrow> bool" where
  "valid_slot i \<longleftrightarrow> 0 \<le> i \<and> i < 64"

definition history_ok :: "BufferQueueCore \<Rightarrow> bool" where
  "history_ok c \<longleftrightarrow> length (buffer_history_order c) \<le> BUFFER_HISTORY_SIZE \<and>
    distinct (buffer_history_order c) \<and> dom (buffer_history_map c) = set (buffer_history_order c) \<and>
    (\<forall>f info. buffer_history_map c f = Some info \<longrightarrow> hist_frame_number info = f)"

definition queue_ok :: "BufferQueueCore \<Rightarrow> bool" where
  "queue_ok c \<longleftrightarrow> (\<forall>x \<in> set (queue c). valid_slot (item_slot x)) \<and>
    (\<forall>x \<in> set (queue c). tracks c x \<longrightarrow> buffer_state (slot_at c (item_slot x)) = Queued \<and>
      frame_number (slot_at c (item_slot x)) = item_frame_number x) \<and>
    distinct (map item_slot (filter (tracks c) (queue c)))"

definition bq_inv :: "BufferQueueCore \<Rightarrow> bool" where
  "bq_inv c \<longleftrightarrow> length (slots c) = 64 \<and> queue_ok c \<and> num_acquired c \<le> 1 \<and>
    0 \<le> override_max_buffer_count c \<and> override_max_buffer_count c \<le> 64 \<and> history_ok c"

text \<open>No item that names slot \<open>n\<close> has the buffer \<open>b\<close>.\<close>

definition no_item :: "BufferQueueCore \<Rightarrow> nat \<Rightarrow> GraphicBuffer option \<Rightarrow> bool" where
  "no_item c n b \<longleftrightarrow> (\<forall>x \<in> set (queue c). item_slot x = int n \<longrightarrow> \<not> has_buffer b x)"

text \<open>A pointer that no queued item holds, as that of a newly made buffer.\<close>

definition fresh_pointer :: "BufferQueueCore \<Rightarrow> nat \<Rightarrow> bool" where
  "fresh_pointer c p \<longleftrightarrow> (\<forall>x \<in> set (queue c). map_option gb_pointer (item_graphic_buffer x) \<noteq> Some p)"

section \<open>Independence from the other fields\<close>

lemma slots_queue_commute: "c\<lparr>slots := s, queue := q\<rparr> = c\<lparr>queue := q, slots := s\<rparr>" for c :: BufferQueueCore
  by simp

lemma slot_at_same: "slots c' = slots c \<Longrightarrow> slot_at c' i = slot_at c i"
  by (simp add: slot_at_def)

lemma bq_inv_cong:
  assumes "slots c' = slots c" "queue c' = queue c" "override_max_buffer_count c' = override_max_buffer_count c"
    "buffer_history_map c' = buffer_history_map c" "buffer_history_order c' = buffer_history_order c"
  shows "bq_inv c' = bq_inv c"
proof -
  have "tracks c' = tracks c" using assms(1) by (simp add: fun_eq_iff tracks_def slot_at_def)
  then show ?thesis
    using assms by (simp add: bq_inv_def queue_ok_def history_ok_def num_acquired_def slot_at_def)
qed

lemma bq_inv_fields [simp]:
  "bq_inv (c\<lparr>dequeue_possible := b\<rparr>) = bq_inv c"
  "bq_inv (c\<lparr>is_abandoned := b\<rparr>) = bq_inv c"
  "bq_inv (c\<lparr>consumer_listener := b\<rparr>) = bq_inv c"
  "bq_inv (c\<lparr>buffer_has_been_queued := b\<rparr>) = bq_inv c"
  "bq_inv (c\<lparr>consumer_controlled_by_app := b\<rparr>) = bq_inv c"
  "bq_inv (c\<lparr>connected_producer_listener := b\<rparr>) = bq_inv c"
  "bq_inv (c\<lparr>dequeue_buffer_cannot_block := b\<rparr>) = bq_inv c"
  "bq_inv (c\<lparr>connected_api := a\<rparr>) = bq_inv c"
  "bq_inv (c\<lparr>frame_counter := f\<rparr>) = bq_inv c"
  "bq_inv (c\<lparr>default_width := w\<rparr>) = bq_inv c"
  "bq_inv (c\<lparr>default_height := w\<rparr>) = bq_inv c"
  "bq_inv (c\<lparr>default_buffer_format := w\<rparr>) = bq_inv c"
  "bq_inv (SignalDequeueCondition c) = bq_inv c"
  "bq_inv (dequeue_woken c) = bq_inv c"
  by (rule bq_inv_cong; simp add: SignalDequeueCondition_def dequeue_woken_def)+

lemma bq_inv_override:
  "bq_inv c \<Longrightarrow> 0 \<le> n \<Longrightarrow> n \<le> 64 \<Longrightarrow> bq_inv (c\<lparr>override_max_buffer_count := n\<rparr>)"
proof -
  assume c: "bq_inv c" and n: "0 \<le> n" "n \<le> 64"
  have "tracks (c\<lparr>override_max_buffer_count := n\<rparr>) = tracks c"
    by (simp add: fun_eq_iff tracks_def slot_at_def)
  then show ?thesis
    using c n by (simp add: bq_inv_def queue_ok_def history_ok_def num_acquired_def slot_at_def)
qed

section \<open>Slots and items\<close>

lemma bq_invD:
  assumes "bq_inv c"
  shows "length (slots c) = 64" "queue_ok c" "num_acquired c \<le> 1"
  using assms by (simp_all add: bq_inv_def)

lemma slot_get_inv:
  "bq_inv c \<Longrightarrow> valid_slot i \<Longrightarrow> slot_get c i = Inr (slot_at c i)"
  by (auto simp: slot_get_def bq_inv_def valid_slot_def slot_at_def)

lemma slot_upd_inv:
  "bq_inv c \<Longrightarrow> valid_slot i \<Longrightarrow> slot_upd i f c = Inr (c\<lparr>slots := (slots c)[nat i := f (slot_at c i)]\<rparr>)"
  by (simp add: slot_upd_def slot_get_inv)

lemma slot_get_length: "length (slots c) = 64 \<Longrightarrow> valid_slot i \<Longrightarrow> slot_get c i = Inr (slot_at c i)"
  by (auto simp: slot_get_def valid_slot_def slot_at_def)

lemma slot_get_Inr: "slot_get c i = Inr s \<Longrightarrow> length (slots c) = 64 \<Longrightarrow> valid_slot i \<and> s = slot_at c i"
  by (auto simp: slot_get_def valid_slot_def slot_at_def arr_get_eq_Inr split: if_splits)

lemma slot_upd_Inr:
  "slot_upd i f c = Inr c' \<Longrightarrow> length (slots c) = 64 \<Longrightarrow>
    valid_slot i \<and> c' = c\<lparr>slots := (slots c)[nat i := f (slot_at c i)]\<rparr>"
  by (auto simp: slot_upd_def bindF_eq_Inr dest: slot_get_Inr)

lemma slot_in_range_valid [simp]: "slot_in_range i \<longleftrightarrow> valid_slot i"
  by (auto simp: slot_in_range_def valid_slot_def NUM_BUFFER_SLOTS_def)

lemma StillTracking_inv:
  "bq_inv c \<Longrightarrow> valid_slot (item_slot x) \<Longrightarrow> StillTracking c x = Inr (tracks c x)"
  by (simp add: StillTracking_def slot_get_inv tracks_def has_buffer_def)

lemma no_item_simps [simp]: "no_item c n None"
  by (simp add: no_item_def has_buffer_def)

lemma no_item_not_queued:
  assumes "queue_ok c" and "buffer_state (slots c ! n) \<noteq> Queued"
  shows "no_item c n (graphic_buffer (slots c ! n))"
  using assms by (fastforce simp: no_item_def queue_ok_def tracks_def slot_at_def)

lemma no_item_fresh: "fresh_pointer c (gb_pointer b) \<Longrightarrow> no_item c n (Some b)"
  by (auto simp: no_item_def fresh_pointer_def has_buffer_def same_buffer_def)

lemma length_filter_update:
  assumes "n < length xs"
  shows "length (filter P (xs[n := y])) + of_bool (P (xs ! n)) = length (filter P xs) + of_bool (P y)"
  using assms
proof (induction xs arbitrary: n)
  case (Cons x xs)
  then show ?case by (cases n) auto
qed simp

lemma num_acquired_update:
  assumes "n < length (slots c)"
  shows "num_acquired (c\<lparr>slots := (slots c)[n := s]\<rparr>) + of_bool (buffer_state (slots c ! n) = Acquired) =
    num_acquired c + of_bool (buffer_state s = Acquired)"
  using length_filter_update [OF assms, of "\<lambda>s. buffer_state s = Acquired" s] by (simp add: num_acquired_def)

text \<open>Changing one slot, to a buffer that no item of the slot has.\<close>

lemma tracks_update:
  assumes "length (slots c) = 64" and "n < 64" and "no_item c n (graphic_buffer s)" and "x \<in> set (queue c)"
    and "valid_slot (item_slot x)"
  shows "tracks (c\<lparr>slots := (slots c)[n := s]\<rparr>) x \<longleftrightarrow> item_slot x \<noteq> int n \<and> tracks c x"
  using assms by (auto simp: tracks_def slot_at_def no_item_def valid_slot_def nth_list_update)

lemma queue_ok_update:
  assumes "queue_ok c" and "length (slots c) = 64" and "n < 64" and "no_item c n (graphic_buffer s)"
  shows "queue_ok (c\<lparr>slots := (slots c)[n := s]\<rparr>)"
proof -
  let ?c = "c\<lparr>slots := (slots c)[n := s]\<rparr>"
  have v: "\<And>x. x \<in> set (queue c) \<Longrightarrow> valid_slot (item_slot x)" using assms(1) by (simp add: queue_ok_def)
  have t: "\<And>x. x \<in> set (queue c) \<Longrightarrow> tracks ?c x \<longleftrightarrow> item_slot x \<noteq> int n \<and> tracks c x"
    using tracks_update [OF assms(2-4)] v by blast
  have at: "slot_at ?c (item_slot x) = slot_at c (item_slot x)"
    if "x \<in> set (queue c)" "item_slot x \<noteq> int n" for x
    using that v [OF that(1)] by (auto simp: slot_at_def valid_slot_def nth_list_update)
  have f: "filter (tracks ?c) (queue c) = filter (\<lambda>x. item_slot x \<noteq> int n) (filter (tracks c) (queue c))"
    unfolding filter_filter by (rule filter_cong) (use t in auto)
  have "distinct (map item_slot (filter (tracks ?c) (queue c)))"
    using assms(1) by (simp only: f distinct_map_filter queue_ok_def)
  then show ?thesis
    using assms(1) t at v by (simp add: queue_ok_def)
qed

lemma bq_inv_update:
  assumes "bq_inv c" and "n < 64" and "no_item c n (graphic_buffer s)"
    and "buffer_state s = Acquired \<Longrightarrow> buffer_state (slots c ! n) = Acquired"
  shows "bq_inv (c\<lparr>slots := (slots c)[n := s]\<rparr>)"
proof -
  let ?c = "c\<lparr>slots := (slots c)[n := s]\<rparr>"
  have l: "length (slots c) = 64" using assms(1) by (simp add: bq_inv_def)
  have "queue_ok ?c" using queue_ok_update [OF _ l assms(2,3)] assms(1) by (simp add: bq_inv_def)
  moreover have "num_acquired ?c \<le> 1"
    using num_acquired_update [of n c s] l assms(1,2,4) by (auto simp: bq_inv_def of_bool_def split: if_splits)
  ultimately show ?thesis using assms(1) by (simp add: bq_inv_def history_ok_def)
qed

text \<open>Removing items keeps the invariant.\<close>

lemma bq_inv_queue_subset:
  assumes "bq_inv c" and "subseq q (queue c)"
  shows "bq_inv (c\<lparr>queue := q\<rparr>)"
proof -
  let ?c = "c\<lparr>queue := q\<rparr>"
  have t: "tracks ?c = tracks c" by (simp add: fun_eq_iff tracks_def slot_at_def)
  have "subseq (map item_slot (filter (tracks c) q)) (map item_slot (filter (tracks c) (queue c)))"
    using assms(2) by (intro subseq_map subseq_filter)
  then have "distinct (map item_slot (filter (tracks c) q))"
    using assms(1) by (auto simp: bq_inv_def queue_ok_def subseq_conv_nths intro: distinct_nthsI)
  moreover have "set q \<subseteq> set (queue c)" using assms(2) by (auto simp: subseq_conv_nths dest: in_set_nthsD)
  ultimately show ?thesis
    using assms(1) t by (auto simp: bq_inv_def queue_ok_def history_ok_def num_acquired_def slot_at_def)
qed


section \<open>Updates of one slot that the operations make\<close>

lemma valid_slot_nat: "valid_slot i \<Longrightarrow> nat i < 64 \<and> int (nat i) = i"
  by (auto simp: valid_slot_def)

lemma inv_slot_upd:
  assumes "bq_inv c" and "slot_upd i f c = Inr c'"
    and "no_item c (nat i) (graphic_buffer (f (slot_at c i)))"
    and "buffer_state (f (slot_at c i)) = Acquired \<Longrightarrow> buffer_state (slot_at c i) = Acquired"
  shows "bq_inv c'"
proof -
  have v: "valid_slot i" and c': "c' = c\<lparr>slots := (slots c)[nat i := f (slot_at c i)]\<rparr>"
    using slot_upd_Inr [OF assms(2)] bq_invD(1) [OF assms(1)] by auto
  show ?thesis unfolding c'
    by (rule bq_inv_update [OF assms(1)]) (use assms(3,4) valid_slot_nat [OF v] in \<open>auto simp: slot_at_def\<close>)
qed

text \<open>The buffer is kept and the slot was not waiting in the queue.\<close>

lemma inv_slot_upd_keep:
  assumes "bq_inv c" and "slot_upd i f c = Inr c'" and "buffer_state (slot_at c i) \<noteq> Queued"
    and "graphic_buffer (f (slot_at c i)) \<in> {graphic_buffer (slot_at c i), None}"
    and "buffer_state (f (slot_at c i)) = Acquired \<Longrightarrow> buffer_state (slot_at c i) = Acquired"
  shows "bq_inv c'"
proof (rule inv_slot_upd [OF assms(1,2) _ assms(5)])
  show "no_item c (nat i) (graphic_buffer (f (slot_at c i)))"
    using assms(4) no_item_not_queued [OF bq_invD(2) [OF assms(1)], of "nat i"] assms(3)
    by (auto simp: slot_at_def)
qed simp

lemma inv_FreeBufferLocked: "bq_inv c \<Longrightarrow> FreeBufferLocked i c = Inr c' \<Longrightarrow> bq_inv c'"
  unfolding FreeBufferLocked_def by (erule inv_slot_upd, assumption) (simp_all add: free_slot_def)

lemma inv_free_slots_loop: "bq_inv c \<Longrightarrow> free_slots_loop n i c = Inr c' \<Longrightarrow> bq_inv c'"
  by (induction n arbitrary: i c) (auto simp: bindF_eq_Inr dest: inv_FreeBufferLocked)

lemma inv_FreeAllBuffersLocked: "bq_inv c \<Longrightarrow> FreeAllBuffersLocked c = Inr c' \<Longrightarrow> bq_inv c'"
  unfolding FreeAllBuffersLocked_def by (rule inv_free_slots_loop) simp_all

lemma inv_free_beyond:
  "bq_inv c \<Longrightarrow> free_beyond dbg n i flags c = Inr (flags', c') \<Longrightarrow> bq_inv c'"
proof (induction n arbitrary: i flags c)
  case (Suc n)
  then show ?case
    by (auto simp: bindF_eq_Inr split: if_splits dest: inv_FreeBufferLocked intro: Suc.IH)
qed simp

lemma inv_slot_pass:
  assumes "bq_inv c" and "slot_pass dbg async flags c = Inr r"
  shows "case r of PassReturns st found fl c' \<Rightarrow> bq_inv c' | PassWaits fl c' \<Rightarrow> bq_inv c'"
  using assms by (auto simp: slot_pass_def bindF_eq_Inr Let_def dest: inv_free_beyond split: if_splits)

lemma override_FreeBufferLocked:
  "FreeBufferLocked i c = Inr c' \<Longrightarrow> override_max_buffer_count c' = override_max_buffer_count c \<and> queue c' = queue c"
  by (auto simp: FreeBufferLocked_def slot_upd_def bindF_eq_Inr)

section \<open>History\<close>

lemma inv_UpdateHistory [simp]: "bq_inv (UpdateHistory f st c) = bq_inv c"
proof -
  have t: "tracks (UpdateHistory f st c) = tracks c"
    by (auto simp: fun_eq_iff tracks_def slot_at_def UpdateHistory_def split: option.split)
  show ?thesis
    using t by (auto simp: bq_inv_def queue_ok_def num_acquired_def slot_at_def history_ok_def UpdateHistory_def
      split: option.split)
qed

lemma history_ok_PushHistory: "history_ok c \<Longrightarrow> history_ok (PushHistory f qt pt st c)"
proof -
  assume h: "history_ok c"
  show ?thesis
  proof (cases "buffer_history_map c f")
    case (Some info)
    then show ?thesis using h by (auto simp: history_ok_def PushHistory_def)
  next
    case None
    then have nf: "f \<notin> set (buffer_history_order c)" using h by (auto simp: history_ok_def)
    show ?thesis
    proof (cases "buffer_history_order c")
      case Nil
      then show ?thesis using h None by (auto simp: history_ok_def PushHistory_def Let_def BUFFER_HISTORY_SIZE_def)
    next
      case (Cons g gs)
      then show ?thesis
        using h None nf by (auto simp: history_ok_def PushHistory_def Let_def BUFFER_HISTORY_SIZE_def)
    qed
  qed
qed

lemma PushHistory_select [simp]:
  "slots (PushHistory f qt pt st c) = slots c" "queue (PushHistory f qt pt st c) = queue c"
  "override_max_buffer_count (PushHistory f qt pt st c) = override_max_buffer_count c"
  by (auto simp: PushHistory_def Let_def split: option.split)

lemma inv_PushHistory: "bq_inv c \<Longrightarrow> bq_inv (PushHistory f qt pt st c)"
proof -
  assume c: "bq_inv c"
  have "tracks (PushHistory f qt pt st c) = tracks c" by (simp add: fun_eq_iff tracks_def slot_at_def)
  then show ?thesis
    using c history_ok_PushHistory [of c f qt pt st]
    by (simp add: bq_inv_def queue_ok_def num_acquired_def slot_at_def)
qed


section \<open>The operations of the producer\<close>

lemma inv_RequestBuffer:
  assumes "bq_inv c" and "RequestBuffer slot c = Inr (st, b, c')"
  shows "bq_inv c'"
  using assms
  by (auto simp: RequestBuffer_def bindF_eq_Inr split: if_splits
    dest!: slot_get_Inr [OF _ bq_invD(1) [OF assms(1)]] elim!: inv_slot_upd_keep)

lemma inv_SetBufferCount:
  assumes "bq_inv (core p)" and "SetBufferCount n p = Inr (st, notes, p')"
  shows "bq_inv (core p')"
proof -
  have m: "GetMinMaxBufferCountLocked False (core p) = 0"
    by (simp add: GetMinMaxBufferCountLocked_def GetMinUndequeuedBufferCountLocked_def use_async_buffer_def)
  show ?thesis
    using assms m
    by (auto simp: SetBufferCount_def Let_def bindF_eq_Inr NUM_BUFFER_SLOTS_def split: if_splits
      dest: inv_FreeAllBuffersLocked intro!: bq_inv_override)
qed

lemma inv_dequeue_mark:
  assumes "bq_inv c" and "buffer_state (slot_at c found) = Free"
    and "dequeue_mark found w h fmt us flags c = Inr (att, flags', fe, c')"
  shows "bq_inv c'"
proof -
  obtain f where f: "slot_upd found f c = Inr c'"
    and g: "graphic_buffer (f (slot_at c found)) \<in> {graphic_buffer (slot_at c found), None}"
    and st: "buffer_state (f (slot_at c found)) = Dequeued"
    using assms(3) by (auto simp: dequeue_mark_def bindF_eq_Inr Let_def split: if_splits
      dest!: slot_get_Inr [OF _ bq_invD(1) [OF assms(1)]])
  show ?thesis by (rule inv_slot_upd_keep [OF assms(1) f _ g]) (simp_all add: assms(2) st)
qed

lemma inv_dequeue_install:
  assumes "bq_inv c" and "fresh_pointer c (gb_pointer b)" and "dequeue_install found b c = Inr (r, c')"
  shows "bq_inv c'"
  using assms(1,3) no_item_fresh [OF assms(2)]
  by (auto simp: dequeue_install_def bindF_eq_Inr split: if_splits elim!: inv_slot_upd)

lemma inv_DetachBuffer: "bq_inv c \<Longrightarrow> DetachBuffer slot c = Inr (st, c') \<Longrightarrow> bq_inv c'"
  by (auto simp: DetachBuffer_def bindF_eq_Inr split: if_splits dest: inv_FreeBufferLocked)

lemma inv_DetachNextBuffer: "bq_inv c \<Longrightarrow> DetachNextBuffer c = Inr (st, r, c') \<Longrightarrow> bq_inv c'"
  by (auto simp: DetachNextBuffer_def bindF_eq_Inr split: if_splits dest: inv_FreeBufferLocked)

lemma inv_CancelBuffer:
  assumes "bq_inv (core p)" and "CancelBuffer slot fe p = Inr p'"
  shows "bq_inv (core p')"
  using assms
  by (auto simp: CancelBuffer_def Let_def bindF_eq_Inr split: if_splits
    dest!: slot_get_Inr [OF _ bq_invD(1) [OF assms(1)]] inv_slot_upd_keep [OF assms(1)])

lemma inv_Connect: "bq_inv c \<Longrightarrow> Connect l api b c = (st, r, c') \<Longrightarrow> bq_inv c'"
  by (auto simp: Connect_def Let_def split: if_splits)

lemma inv_Disconnect:
  assumes "bq_inv (core p)" and "Disconnect api p = Inr (st, notes, p')"
  shows "bq_inv (core p')"
proof -
  have "bq_inv (core p\<lparr>queue := []\<rparr>)" using bq_inv_queue_subset [OF assms(1), of "[]"] by simp
  with assms show ?thesis
    by (auto simp: Disconnect_def Let_def bindF_eq_Inr split: if_splits dest: inv_FreeAllBuffersLocked)
qed

lemma inv_SetPreallocatedBuffer:
  assumes "bq_inv (core p)" and "fresh_pointer (core p) pointer"
    and "SetPreallocatedBuffer slot pointer buffer p = Inr (st, p')"
  shows "bq_inv (core p')"
proof (cases "valid_slot slot")
  case False
  then show ?thesis using assms by (auto simp: SetPreallocatedBuffer_def)
next
  case True
  define gb where "gb = (case buffer of None \<Rightarrow> new_GraphicBuffer pointer 0 0 0 0 | Some b \<Rightarrow> b\<lparr>gb_pointer := pointer\<rparr>)"
  let ?f = "\<lambda>_. new_BufferSlot\<lparr>fence := NoFence, graphic_buffer := Some gb, frame_number := 0\<rparr>"
  obtain c1 where c1: "slot_upd slot ?f (core p) = Inr c1"
    and rest: "bindF (case buffer of None \<Rightarrow> Inr c1
         | Some b \<Rightarrow> bindF (slot_upd slot (\<lambda>s. s\<lparr>is_preallocated := True\<rparr>) c1) (\<lambda>c.
             Inr (c\<lparr>override_max_buffer_count := GetPreallocatedBufferCountLocked c, default_width := gb_width b,
               default_height := gb_height b, default_buffer_format := gb_format b\<rparr>))) (\<lambda>c.
       Inr (NoError, p\<lparr>core := SignalDequeueCondition c, buffer_wait_event := True\<rparr>)) = Inr (st, p')"
    using assms(3) True by (auto simp: SetPreallocatedBuffer_def Let_def bindF_eq_Inr gb_def [symmetric])
  have pg: "gb_pointer gb = pointer" by (simp add: gb_def new_GraphicBuffer_def split: option.split)
  have i1: "bq_inv c1"
    by (rule inv_slot_upd [OF assms(1) c1])
      (use no_item_fresh [of "core p" gb] assms(2) pg in \<open>auto simp: new_BufferSlot_def\<close>)
  show ?thesis
  proof (cases buffer)
    case None
    then show ?thesis using rest i1 by auto
  next
    case (Some b)
    then obtain c2 where c2: "slot_upd slot (\<lambda>s. s\<lparr>is_preallocated := True\<rparr>) c1 = Inr c2"
      and p': "core p' = SignalDequeueCondition (c2\<lparr>override_max_buffer_count := GetPreallocatedBufferCountLocked c2,
        default_width := gb_width b, default_height := gb_height b, default_buffer_format := gb_format b\<rparr>)"
      using rest by (auto simp: bindF_eq_Inr)
    have st1: "buffer_state (slot_at c1 slot) = Free"
      using slot_upd_Inr [OF c1 bq_invD(1) [OF assms(1)]] bq_invD(1) [OF assms(1)] True
      by (auto simp: slot_at_def valid_slot_def new_BufferSlot_def)
    have i2: "bq_inv c2" by (rule inv_slot_upd_keep [OF i1 c2]) (simp_all add: st1)
    have "GetPreallocatedBufferCountLocked c2 \<le> 64"
      using length_filter_le [of is_preallocated "slots c2"] bq_invD(1) [OF i2]
      by (simp add: GetPreallocatedBufferCountLocked_def)
    then show ?thesis
      using bq_inv_override [OF i2, of "GetPreallocatedBufferCountLocked c2"]
      by (simp add: p' GetPreallocatedBufferCountLocked_def)
  qed
qed


section \<open>Queueing\<close>

lemma inv_add_item:
  assumes "bq_inv (c\<lparr>queue := q1 @ q2\<rparr>)" and "valid_slot (item_slot x)"
    and "tracks c x \<longrightarrow> buffer_state (slot_at c (item_slot x)) = Queued \<and>
      frame_number (slot_at c (item_slot x)) = item_frame_number x"
    and "\<And>y. y \<in> set (q1 @ q2) \<Longrightarrow> item_slot y = item_slot x \<Longrightarrow> \<not> tracks c y"
  shows "bq_inv (c\<lparr>queue := q1 @ x # q2\<rparr>)"
proof -
  have t: "tracks (c\<lparr>queue := q\<rparr>) = tracks c" for q by (simp add: fun_eq_iff tracks_def slot_at_def)
  have d: "distinct (map item_slot (filter (tracks c) q1) @ map item_slot (filter (tracks c) q2))"
    using assms(1) by (simp add: bq_inv_def queue_ok_def t)
  have n: "item_slot x \<notin> item_slot ` set (filter (tracks c) (q1 @ q2))" using assms(4) by auto
  have "distinct (map item_slot (filter (tracks c) (q1 @ x # q2)))"
    using d n by (auto simp: image_iff)
  then show ?thesis
    using assms(1-3) by (auto simp: bq_inv_def queue_ok_def t history_ok_def num_acquired_def slot_at_def)
qed

lemma front_alone:
  assumes "bq_inv c" and "queue c = front # rest" and "tracks c front"
    and "y \<in> set rest" and "item_slot y = item_slot front"
  shows "\<not> tracks c y"
proof
  assume "tracks c y"
  then have "item_slot y \<in> set (map item_slot (filter (tracks c) rest))" using assms(4) by simp
  then show False using assms by (simp add: bq_inv_def queue_ok_def)
qed

text \<open>A tracked front item: its slot becomes free when the item is taken out.\<close>

lemma inv_drop_front:
  assumes "bq_inv c" and "queue c = front # rest" and "tracks c front"
    and "graphic_buffer s = graphic_buffer (slot_at c (item_slot front))" and "buffer_state s \<noteq> Acquired"
  shows "bq_inv (c\<lparr>queue := rest, slots := (slots c)[nat (item_slot front) := s]\<rparr>)"
proof -
  let ?c = "c\<lparr>queue := rest\<rparr>"
  have i: "bq_inv ?c" using bq_inv_queue_subset [OF assms(1), of rest] assms(2) by auto
  have v: "valid_slot (item_slot front)" using assms(1,2) by (simp add: bq_inv_def queue_ok_def)
  from front_alone [OF assms(1-3)] have "no_item ?c (nat (item_slot front)) (graphic_buffer s)"
    using assms(4) v by (auto simp: no_item_def tracks_def valid_slot_def)
  then have "bq_inv (?c\<lparr>slots := (slots ?c)[nat (item_slot front) := s]\<rparr>)"
    by (intro bq_inv_update [OF i]) (use valid_slot_nat [OF v] assms(5) in auto)
  then show ?thesis by simp
qed

lemma inv_enqueue_item:
  assumes "bq_inv c" and "enqueue_item hist x c = Inr (av, c')" and "valid_slot (item_slot x)"
    and "buffer_state (slot_at c (item_slot x)) = Queued"
    and "frame_number (slot_at c (item_slot x)) = item_frame_number x"
    and none: "\<And>y. y \<in> set (queue c) \<Longrightarrow> item_slot y = item_slot x \<Longrightarrow> \<not> tracks c y"
  shows "bq_inv c'"
proof (cases "queue c")
  case Nil
  then have "bq_inv (c\<lparr>queue := [] @ []\<rparr>)" using assms(1) by (simp add: bq_inv_cong [of "c\<lparr>queue := []\<rparr>" c])
  from inv_add_item [OF this assms(3)] assms(2,4,5) Nil show ?thesis by (auto simp: enqueue_item_def)
next
  case (Cons front rest)
  have v: "valid_slot (item_slot front)" using assms(1) Cons by (simp add: bq_inv_def queue_ok_def)
  have same: "c\<lparr>queue := queue c\<rparr> = c" by simp
  consider (append) "\<not> item_is_droppable front" | (untracked) "item_is_droppable front" "\<not> tracks c front"
    | (tracked) "item_is_droppable front" "tracks c front" by blast
  then show ?thesis
  proof cases
    case append
    then have c': "c' = c\<lparr>queue := queue c @ x # []\<rparr>" using assms(2) Cons by (auto simp: enqueue_item_def)
    have i: "bq_inv (c\<lparr>queue := queue c @ []\<rparr>)" using assms(1) by (simp only: append_Nil2 same)
    show ?thesis
      unfolding c' by (rule inv_add_item [OF i assms(3)]) (use assms(4,5) none in auto)
  next
    case untracked
    then have c': "c' = c\<lparr>queue := [] @ x # rest\<rparr>"
      using assms(2) Cons StillTracking_inv [OF assms(1) v] by (auto simp: enqueue_item_def)
    have i: "bq_inv (c\<lparr>queue := [] @ rest\<rparr>)"
      using bq_inv_queue_subset [OF assms(1), of rest] Cons by auto
    show ?thesis
      unfolding c' by (rule inv_add_item [OF i assms(3)]) (use assms(4,5) none Cons in auto)
  next
    case tracked
    define s where "s = (slot_at c (item_slot front))\<lparr>buffer_state := Free, frame_number := 0\<rparr>"
    define ch where "ch = c\<lparr>queue := rest, slots := (slots c)[nat (item_slot front) := s]\<rparr>"
    define cu where "cu = (if hist then UpdateHistory (item_frame_number front) Free ch else ch)"
    have ne: "item_slot front \<noteq> item_slot x" using none [of front] Cons tracked by auto
    have ln: "nat (item_slot front) < length (slots c)" "item_slot front \<ge> 0"
      using v bq_invD(1) [OF assms(1)] by (auto simp: valid_slot_def)
    have "bq_inv ch" unfolding ch_def by (rule inv_drop_front [OF assms(1) Cons tracked(2)]) (simp_all add: s_def)
    then have "bq_inv cu" by (simp add: cu_def)
    then have icu: "bq_inv (cu\<lparr>queue := [] @ rest\<rparr>)"
      by (subst bq_inv_cong [of _ cu]) (auto simp: cu_def ch_def UpdateHistory_def split: option.split)
    have at: "slot_at cu i = slot_at ch i" for i by (simp add: cu_def slot_at_def UpdateHistory_def split: option.split)
    have at_x: "slot_at ch i = slot_at c i" if "i \<noteq> item_slot front" "valid_slot i" for i
      using that v by (auto simp: ch_def slot_at_def valid_slot_def nth_list_update)
    have trk: "tracks cu y \<longleftrightarrow> tracks c y" if "item_slot y = item_slot x" for y
      using at at_x [of "item_slot y"] that ne assms(3) by (simp add: tracks_def)
    have "bq_inv (cu\<lparr>queue := [] @ x # rest\<rparr>)"
      by (rule inv_add_item [OF icu assms(3)]) (use assms(3-5) none Cons ne trk at at_x in auto)
    moreover have "bq_inv c' = bq_inv (cu\<lparr>queue := [] @ x # rest\<rparr>)"
    proof (rule bq_inv_cong)
      have "c' = (if hist then UpdateHistory (item_frame_number front) Free
            (c\<lparr>slots := (slots c)[nat (item_slot front) := s]\<rparr>)
          else c\<lparr>slots := (slots c)[nat (item_slot front) := s]\<rparr>)\<lparr>queue := x # rest\<rparr>"
        using assms(2) Cons tracked StillTracking_inv [OF assms(1) v] ln
        by (auto simp: enqueue_item_def slot_upd_def slot_get_def slot_at_def s_def UpdateHistory_def
          split: option.splits)
      then show "slots c' = slots (cu\<lparr>queue := [] @ x # rest\<rparr>)" "queue c' = queue (cu\<lparr>queue := [] @ x # rest\<rparr>)"
        "override_max_buffer_count c' = override_max_buffer_count (cu\<lparr>queue := [] @ x # rest\<rparr>)"
        "buffer_history_map c' = buffer_history_map (cu\<lparr>queue := [] @ x # rest\<rparr>)"
        "buffer_history_order c' = buffer_history_order (cu\<lparr>queue := [] @ x # rest\<rparr>)"
        by (auto simp: cu_def ch_def UpdateHistory_def split: option.split)
    qed
    ultimately show ?thesis by simp
  qed
qed


lemma inv_queue_locked:
  assumes "bq_inv c" and "valid_slot slot" and "buffer_state (slot_at c slot) = Dequeued"
    and "queue_locked hist now slot input (slot_at c slot) c = Inr (item, av, c')"
  shows "bq_inv c'"
proof -
  define frame where "frame = frame_counter c + 1"
  define f where "f = (\<lambda>s :: BufferSlot. s\<lparr>buffer_state := Queued, frame_number := frame,
    queue_time := in_timestamp input, presentation_time := now, fence := in_fence input\<rparr>)"
  define x where "x = make_item input slot frame (dequeue_buffer_cannot_block c \<or> in_async input \<noteq> 0) (slot_at c slot)"
  obtain c1 where u: "slot_upd slot f (c\<lparr>frame_counter := frame\<rparr>) = Inr c1"
    and r1: "bindF (enqueue_item hist x c1) (\<lambda>(available, c). bindF (slot_get c slot) (\<lambda>s.
      Inr (x, available, SignalDequeueCondition ((if hist then PushHistory (frame_counter c) (queue_time s)
        (presentation_time s) Queued c else c)\<lparr>buffer_has_been_queued := True\<rparr>)))) = Inr (item, av, c')"
    using assms(4) unfolding queue_locked_def Let_def frame_def [symmetric] f_def [symmetric] x_def [symmetric]
    by (rule bindF_InrE)
  obtain av2 c2 where e2: "enqueue_item hist x c1 = Inr (av2, c2)"
    using r1 by (cases "enqueue_item hist x c1") auto
  with r1 obtain s2 where s2: "slot_get c2 slot = Inr s2" by (cases "slot_get c2 slot") auto
  have e: "enqueue_item hist x c1 = Inr (av, c2)" and c': "c' = SignalDequeueCondition ((if hist
      then PushHistory (frame_counter c2) (queue_time s2) (presentation_time s2) Queued c2
      else c2)\<lparr>buffer_has_been_queued := True\<rparr>)"
    using r1 e2 s2 by auto
  have ic': "bq_inv (c\<lparr>frame_counter := frame\<rparr>)" using assms(1) by simp
  have at': "slot_at (c\<lparr>frame_counter := frame\<rparr>) i = slot_at c i" for i by (simp add: slot_at_def)
  have i1: "bq_inv c1" by (rule inv_slot_upd_keep [OF ic' u]) (simp_all add: at' assms(3) f_def)
  have c1: "c1 = c\<lparr>frame_counter := frame, slots := (slots c)[nat slot := f (slot_at c slot)]\<rparr>"
    using slot_upd_Inr [OF u] bq_invD(1) [OF assms(1)] at' by simp
  have at1: "slot_at c1 slot = f (slot_at c slot)"
    using assms(2) bq_invD(1) [OF assms(1)] by (auto simp: c1 slot_at_def valid_slot_def)
  have none: "\<not> tracks c1 y" if "y \<in> set (queue c1)" "item_slot y = slot" for y
  proof -
    have "no_item c (nat slot) (graphic_buffer (slot_at c slot))"
      using no_item_not_queued [OF bq_invD(2) [OF assms(1)], of "nat slot"] assms(3) by (simp add: slot_at_def)
    then show ?thesis
      using that at1 assms(2) by (auto simp: tracks_def no_item_def c1 f_def valid_slot_def)
  qed
  have "bq_inv c2"
    by (rule inv_enqueue_item [OF i1 e]) (use assms(2) at1 none in \<open>simp_all add: make_item_def f_def x_def\<close>)
  then show ?thesis using inv_PushHistory by (simp add: c')
qed

lemma inv_QueueBuffer:
  assumes "bq_inv (core p)" and "QueueBuffer dbg hist now slot input p = Inr (st, out, notes, p')"
  shows "bq_inv (core p')"
  using assms
  by (auto simp: QueueBuffer_def Let_def bindF_eq_Inr split: if_splits
    dest!: slot_get_Inr [OF _ bq_invD(1) [OF assms(1)]] intro: inv_queue_locked)

section \<open>The operations of the consumer\<close>

lemma inv_drop_loop:
  assumes "bq_inv (c\<lparr>queue := q\<rparr>)" and "drop_loop e q c = Inr (q', c')"
  shows "bq_inv (c'\<lparr>queue := q'\<rparr>) \<and> queue c' = queue c \<and> num_acquired c' \<le> num_acquired c"
  using assms
proof (induction e q c rule: drop_loop.induct)
  case (1 e front nxt rest c)
  have v: "valid_slot (item_slot front)" using "1.prems"(1) by (simp add: bq_inv_def queue_ok_def)
  let ?c = "c\<lparr>queue := front # nxt # rest\<rparr>"
  have st: "StillTracking c front = Inr (tracks c front)"
    using slot_get_length [OF _ v, of c] bq_invD(1) [OF "1.prems"(1)]
    by (simp add: StillTracking_def tracks_def has_buffer_def)
  show ?case
  proof (cases "item_is_auto_timestamp front \<or> item_timestamp nxt < e - MAX_REASONABLE_NSEC \<or> item_timestamp nxt > e")
    case True
    then show ?thesis using "1.prems" by (auto split: if_splits)
  next
    case False
    obtain c1 where c1: "(if tracks c front then slot_upd (item_slot front) (\<lambda>s. s\<lparr>buffer_state := Free\<rparr>) c else Inr c) = Inr c1"
      and rec: "drop_loop e (nxt # rest) c1 = Inr (q', c')"
      using "1.prems"(2) False st by (auto simp: bindF_eq_Inr)
    have i1: "bq_inv (c1\<lparr>queue := nxt # rest\<rparr>) \<and> queue c1 = queue c \<and> num_acquired c1 \<le> num_acquired c"
    proof (cases "tracks c front")
      case True
      have l: "length (slots c) = 64" using "1.prems"(1) by (simp add: bq_inv_def)
      have c1': "c1 = c\<lparr>slots := (slots c)[nat (item_slot front) := (slot_at c (item_slot front))\<lparr>buffer_state := Free\<rparr>]\<rparr>"
        using c1 True slot_upd_Inr [OF _ l] by auto
      have "bq_inv (?c\<lparr>queue := nxt # rest, slots := (slots ?c)[nat (item_slot front) :=
          (slot_at c (item_slot front))\<lparr>buffer_state := Free\<rparr>]\<rparr>)"
        by (rule inv_drop_front [OF "1.prems"(1)]) (use True in \<open>auto simp: tracks_def slot_at_def\<close>)
      moreover have "num_acquired c1 \<le> num_acquired c"
        using num_acquired_update [of "nat (item_slot front)" c "(slot_at c (item_slot front))\<lparr>buffer_state := Free\<rparr>"]
          l valid_slot_nat [OF v] by (simp add: c1')
      ultimately show ?thesis by (simp add: c1' slots_queue_commute)
    next
      case False
      have "subseq (nxt # rest) (front # nxt # rest)" by (rule list_emb_Cons) simp
      then show ?thesis using False c1 bq_inv_queue_subset [OF "1.prems"(1), of "nxt # rest"] by simp
    qed
    have "bq_inv (c'\<lparr>queue := q'\<rparr>) \<and> queue c' = queue c1 \<and> num_acquired c' \<le> num_acquired c1"
      by (rule "1.IH" [of "tracks c front" c1]) (use False st c1 i1 rec in auto)
    then show ?thesis using i1 by simp
  qed
qed auto

lemma drop_loop_nonempty: "drop_loop e q c = Inr (q', c') \<Longrightarrow> q \<noteq> [] \<Longrightarrow> q' \<noteq> []"
proof (induction q arbitrary: c)
  case (Cons front q)
  then show ?case by (cases q) (auto simp: bindF_eq_Inr split: if_splits)
qed simp

lemma acquire_front:
  assumes "bq_inv c" and "queue c = front # rest" and "tracks c front" and "num_acquired c = 0"
    and "s = (slot_at c (item_slot front))\<lparr>acquire_called := True, needs_cleanup_on_release := False, buffer_state := Acquired\<rparr>"
  shows "bq_inv (c\<lparr>queue := rest, slots := (slots c)[nat (item_slot front) := s]\<rparr>)"
proof -
  let ?n = "nat (item_slot front)"
  have "bq_inv (c\<lparr>queue := rest, slots := (slots c)[?n := s\<lparr>buffer_state := Free\<rparr>]\<rparr>)" (is "bq_inv ?c0")
    by (rule inv_drop_front [OF assms(1-3)]) (simp_all add: assms(5))
  have v: "valid_slot (item_slot front)" using assms(1,2) by (simp add: bq_inv_def queue_ok_def)
  let ?c = "c\<lparr>queue := rest, slots := (slots c)[?n := s]\<rparr>"
  have l: "?n < length (slots c)" using v bq_invD(1) [OF assms(1)] by (auto simp: valid_slot_def)
  from front_alone [OF assms(1-3)] have "no_item (c\<lparr>queue := rest\<rparr>) ?n (graphic_buffer s)"
    using v by (auto simp: no_item_def tracks_def valid_slot_def assms(5))
  moreover have "queue_ok (c\<lparr>queue := rest\<rparr>)"
    using bq_inv_queue_subset [OF assms(1), of rest] assms(2) by (auto simp: bq_inv_def)
  ultimately have "queue_ok (c\<lparr>queue := rest, slots := (slots c)[?n := s]\<rparr>)"
    using queue_ok_update [of "c\<lparr>queue := rest\<rparr>" ?n s] bq_invD(1) [OF assms(1)] l by simp
  moreover have "num_acquired ?c \<le> 1"
    using num_acquired_update [OF l, of s] assms(4) by (auto simp: num_acquired_def of_bool_def split: if_splits)
  ultimately show ?thesis using assms(1) by (simp add: bq_inv_def history_ok_def)
qed

lemma inv_AcquireBuffer:
  assumes "bq_inv c" and "AcquireBuffer e c = Inr (st, item, c')"
  shows "bq_inv c'"
proof (cases "int (num_acquired c) \<ge> max_acquired_buffer_count + 1 \<or> queue c = []")
  case True
  then show ?thesis using assms by (auto simp: AcquireBuffer_def split: if_splits)
next
  case False
  then have none: "num_acquired c = 0" by (simp add: max_acquired_buffer_count_def)
  obtain q c1 where d: "(if e \<noteq> 0 then drop_loop e (queue c) c else Inr (queue c, c)) = Inr (q, c1)"
    using assms(2) False by (auto simp: AcquireBuffer_def bindF_eq_Inr split: if_splits)
  have i1: "bq_inv (c1\<lparr>queue := q\<rparr>)" and n1: "num_acquired c1 = 0" and ne: "q \<noteq> []"
    using d inv_drop_loop [of "queue c" c e q c1] drop_loop_nonempty [of e "queue c" c q c1] assms(1) none False
    by (auto split: if_splits)
  define front c2 where "front = hd q" and "c2 = c1\<lparr>queue := q\<rparr>"
  have q2: "queue c2 = front # tl q" using ne by (simp add: front_def c2_def)
  have v: "valid_slot (item_slot front)" using i1 ne by (simp add: bq_inv_def queue_ok_def front_def)
  have tr: "StillTracking c2 front = Inr (tracks c2 front)" using StillTracking_inv [OF _ v] i1 by (simp add: c2_def)
  consider (later) "c' = c2"
    | (untracked) "c' = SignalDequeueCondition (c2\<lparr>queue := tl q\<rparr>)"
    | (tracked) "tracks c2 front" and "c' = SignalDequeueCondition (c2\<lparr>queue := tl q, slots := (slots c2)
        [nat (item_slot front) := (slot_at c2 (item_slot front))\<lparr>acquire_called := True,
          needs_cleanup_on_release := False, buffer_state := Acquired\<rparr>]\<rparr>)"
  proof -
    have upd: "slot_upd (item_slot front) f c2 = Inr (c2\<lparr>slots := (slots c2)[nat (item_slot front) := f (slot_at c2 (item_slot front))]\<rparr>)" for f
      using slot_upd_inv [OF _ v] i1 by (simp add: c2_def)
    have "AcquireBuffer e c = (if e \<noteq> 0 \<and> item_timestamp front > e \<and> item_timestamp front < e + MAX_REASONABLE_NSEC
        then Inr (PresentLater, None, c2)
        else Inr (NoError, Some (if item_acquire_called front then front\<lparr>item_graphic_buffer := None\<rparr> else front),
          SignalDequeueCondition ((if tracks c2 front then c2\<lparr>slots := (slots c2)[nat (item_slot front) :=
            (slot_at c2 (item_slot front))\<lparr>acquire_called := True, needs_cleanup_on_release := False,
              buffer_state := Acquired\<rparr>]\<rparr> else c2)\<lparr>queue := tl q\<rparr>)))"
      unfolding AcquireBuffer_def d bindF_simps prod.case Let_def front_def [symmetric] c2_def [symmetric] tr upd
      using False by (simp add: if_distrib [of "\<lambda>x. bindF x _"])
    then show ?thesis using assms(2) that by (auto simp: slots_queue_commute split: if_splits)
  qed
  then show ?thesis
  proof cases
    case later
    then show ?thesis using i1 by (simp add: c2_def)
  next
    case untracked
    then show ?thesis using bq_inv_queue_subset [of c2 "tl q"] i1 q2 by (auto simp: c2_def SignalDequeueCondition_def)
  next
    case tracked
    have "num_acquired c2 = 0" using n1 by (simp add: c2_def num_acquired_def)
    then show ?thesis
      using acquire_front [OF _ q2 tracked(1) _ refl] i1 tracked(2) by (simp add: c2_def SignalDequeueCondition_def)
  qed
qed

lemma inv_ReleaseBuffer:
  assumes "bq_inv c" and "ReleaseBuffer slot frame c = Inr (st, notes, c')"
  shows "bq_inv c'"
proof -
  have upd: "bq_inv c1" if "slot_upd slot f c = Inr c1" and "buffer_state (slot_at c slot) \<noteq> Queued \<or>
      (\<forall>x \<in> set (queue c). item_slot x \<noteq> slot)" and "graphic_buffer (f (slot_at c slot)) = graphic_buffer (slot_at c slot)"
      and "buffer_state (f (slot_at c slot)) = Acquired \<Longrightarrow> buffer_state (slot_at c slot) = Acquired" for f c1
  proof (rule inv_slot_upd [OF assms(1) that(1)])
    have "valid_slot slot" using slot_upd_Inr [OF that(1)] bq_invD(1) [OF assms(1)] by simp
    then have "no_item c (nat slot) (graphic_buffer (slot_at c slot))"
      using that(2) no_item_not_queued [OF bq_invD(2) [OF assms(1)], of "nat slot"]
      by (auto simp: slot_at_def no_item_def valid_slot_def)
    then show "no_item c (nat slot) (graphic_buffer (f (slot_at c slot)))" by (simp add: that(3))
  qed (use that(4) in simp)
  show ?thesis
    using assms by (auto simp: ReleaseBuffer_def bindF_eq_Inr SignalDequeueCondition_def split: if_splits
      dest!: slot_get_Inr [OF _ bq_invD(1) [OF assms(1)]]) (erule upd; simp)+
qed

lemma inv_consumer_Connect: "bq_inv c \<Longrightarrow> consumer_Connect l b c = (st, c') \<Longrightarrow> bq_inv c'"
  by (auto simp: consumer_Connect_def split: if_splits)

lemma inv_consumer_Disconnect:
  assumes "bq_inv c" and "consumer_Disconnect c = Inr (st, c')"
  shows "bq_inv c'"
proof -
  have "bq_inv (c\<lparr>queue := []\<rparr>)" using bq_inv_queue_subset [OF assms(1), of "[]"] by simp
  then have "bq_inv (c\<lparr>is_abandoned := True, consumer_listener := False, queue := []\<rparr>)"
    by (subst bq_inv_cong [of _ "c\<lparr>queue := []\<rparr>"]) simp_all
  then show ?thesis
    using assms by (auto simp: consumer_Disconnect_def bindF_eq_Inr split: if_splits dest: inv_FreeAllBuffersLocked)
qed

section \<open>Quick Save and Quick Load\<close>

lemma inv_restore_slot:
  assumes "bq_inv c" and "restore_slot d r n (freed, c) = Inr (freed', c')"
  shows "bq_inv c'"
proof -
  have l: "length (slots c) = 64" using assms(1) by (simp add: bq_inv_def)
  have keep: "bq_inv c1" if "slot_upd (int n) f c = Inr c1" and "buffer_state (slot_at c (int n)) \<noteq> Queued"
      and "graphic_buffer (f (slot_at c (int n))) = graphic_buffer (slot_at c (int n))"
      and "buffer_state (f (slot_at c (int n))) \<noteq> Acquired" for f c1
    using inv_slot_upd_keep [OF assms(1) that(1,2)] that(3,4) by simp
  have take: "bq_inv c1" if "slot_upd (int n) f (c\<lparr>queue := filter (\<lambda>x. item_slot x \<noteq> int n) (queue c)\<rparr>) = Inr c1"
      and "buffer_state (f (slot_at c (int n))) \<noteq> Acquired" for f c1
  proof (rule inv_slot_upd [OF _ that(1)])
    show "bq_inv (c\<lparr>queue := filter (\<lambda>x. item_slot x \<noteq> int n) (queue c)\<rparr>)"
      by (rule bq_inv_queue_subset [OF assms(1)]) simp
  qed (use that(2) in \<open>auto simp: no_item_def slot_at_def\<close>)
  show ?thesis
    using assms by (auto simp: restore_slot_def Let_def bindF_eq_Inr split: if_splits
      dest!: slot_get_Inr [OF _ l]) ((erule keep; simp) | (erule take; simp))+
qed

lemma inv_restore_loop: "bq_inv c \<Longrightarrow> restore_loop ds rs n (freed, c) = Inr (freed', c') \<Longrightarrow> bq_inv c'"
proof (induction ds rs n "(freed, c)" arbitrary: freed c rule: restore_loop.induct)
  case (1 d ds r rs n)
  then obtain f1 c1 where "restore_slot d r n (freed, c) = Inr (f1, c1)" "restore_loop ds rs (n + 1) (f1, c1) = Inr (freed', c')"
    by (auto simp: bindF_eq_Inr)
  then show ?case using 1 inv_restore_slot by blast
qed auto

lemma inv_restore_core: "bq_inv c \<Longrightarrow> restore_core entry c = Inr c' \<Longrightarrow> bq_inv c'"
  by (auto simp: restore_core_def bindF_eq_Inr dest: inv_restore_loop split: if_splits)

lemma inv_rewind_core: "bq_inv c \<Longrightarrow> bq_inv (snd (rewind_core fid delta c))"
proof -
  assume c: "bq_inv c"
  let ?c = "snd (rewind_core fid delta c)"
  let ?r = "\<lambda>x :: BufferItem. x\<lparr>item_fence := snd (rewind fid delta (item_fence x))\<rparr>"
  have at: "graphic_buffer (slot_at ?c i) = graphic_buffer (slot_at c i)"
    "buffer_state (slot_at ?c i) = buffer_state (slot_at c i)"
    "frame_number (slot_at ?c i) = frame_number (slot_at c i)" if "valid_slot i" for i
    using that bq_invD(1) [OF c] by (auto simp: rewind_core_def slot_at_def valid_slot_def)
  have tr: "tracks ?c (?r x) = tracks c x" if "x \<in> set (queue c)" for x
    using at(1) [of "item_slot x"] that bq_invD(2) [OF c]
    by (auto simp: tracks_def has_buffer_def same_buffer_def queue_ok_def)
  have q: "queue ?c = map ?r (queue c)" by (simp add: rewind_core_def)
  have f: "filter (tracks ?c) (map ?r (queue c)) = map ?r (filter (tracks c) (queue c))"
    using tr by (simp add: filter_map comp_def cong: filter_cong)
  have "queue_ok ?c"
    using bq_invD(2) [OF c] at tr unfolding queue_ok_def q f by (auto simp: comp_def)
  moreover have "num_acquired ?c = num_acquired c"
    by (simp add: num_acquired_def rewind_core_def filter_map comp_def)
  moreover have "history_ok ?c = history_ok c" by (simp add: history_ok_def rewind_core_def)
  ultimately show ?thesis using c by (simp add: bq_inv_def rewind_core_def)
qed

lemma inv_new_core: "bq_inv new_BufferQueueCore"
  by (simp add: bq_inv_def new_BufferQueueCore_def queue_ok_def num_acquired_def new_BufferSlot_def
    NUM_BUFFER_SLOTS_def history_ok_def)

end
