(* ===== verification/Buffer_Steps.thy ===== *)
theory Buffer_Steps
  imports Buffer_Invariants
begin

text \<open>
  The buffer queue as a system of steps: each critical section that the producer, the consumer or
  a Quick Load runs under the core's mutex is one step on the core, in any interleaving. The
  invariant holds in every reachable state; no operation indexes outside the slots there; and a
  pass of the wait for a slot finds the oldest free one.
\<close>

section \<open>The slot count and the scans\<close>

lemma max_count_loop_returns:
  assumes "length (slots c) = 64" and "0 \<le> i" and "i + int n \<le> 64" and "0 \<le> m" and "m \<le> 64"
  shows "\<exists>r. max_count_loop n i m c = Inr r \<and> 0 \<le> r \<and> r \<le> 64"
  using assms
proof (induction n arbitrary: i m)
  case (Suc n)
  have "valid_slot i" using Suc.prems by (simp add: valid_slot_def)
  then show ?case using Suc.prems Suc.IH [of "i + 1"] by (simp add: slot_get_length)
qed simp

lemma GetMax_returns:
  assumes "bq_inv c" and "\<not> dbg \<or> 0 \<le> override_max_buffer_count c"
  shows "\<exists>r. GetMaxBufferCountLocked dbg async c = Inr r \<and> 0 \<le> r \<and> r \<le> 64 \<and>
    (override_max_buffer_count c \<noteq> 0 \<longrightarrow> r = override_max_buffer_count c)"
proof (cases "override_max_buffer_count c = 0")
  case True
  then show ?thesis
    using max_count_loop_returns [OF bq_invD(1) [OF assms(1)], of 2 62 2]
    by (simp add: GetMaxBufferCountLocked_def Let_def GetMinMaxBufferCountLocked_def
      GetMinUndequeuedBufferCountLocked_def use_async_buffer_def default_max_buffer_count_def NUM_BUFFER_SLOTS_def)
next
  case False
  then show ?thesis
    using assms by (auto simp: GetMaxBufferCountLocked_def Let_def GetMinMaxBufferCountLocked_def bq_inv_def
      GetMinUndequeuedBufferCountLocked_def use_async_buffer_def ASSERT_def)
qed

text \<open>Slot \<open>i\<close> is the oldest free one of the first \<open>n\<close>, the first of several with its frame number.\<close>

definition oldest_free :: "BufferQueueCore \<Rightarrow> int \<Rightarrow> int \<Rightarrow> bool" where
  "oldest_free c n i \<longleftrightarrow> 0 \<le> i \<and> i < n \<and> buffer_state (slot_at c i) = Free \<and>
    (\<forall>j. 0 \<le> j \<and> j < n \<and> buffer_state (slot_at c j) = Free \<longrightarrow>
      frame_number (slot_at c i) < frame_number (slot_at c j) \<or>
      frame_number (slot_at c i) = frame_number (slot_at c j) \<and> i \<le> j)"

definition scan_found :: "BufferQueueCore \<Rightarrow> int \<Rightarrow> int \<Rightarrow> bool" where
  "scan_found c n found \<longleftrightarrow>
    (if found = INVALID_BUFFER_SLOT then \<forall>j. 0 \<le> j \<and> j < n \<longrightarrow> buffer_state (slot_at c j) \<noteq> Free
     else oldest_free c n found)"

lemma scan_found_none: "scan_found c 0 INVALID_BUFFER_SLOT"
  unfolding scan_found_def by auto

lemma scan_found_skip:
  "scan_found c i found \<Longrightarrow> buffer_state (slot_at c i) \<noteq> Free \<Longrightarrow> scan_found c (i + 1) found"
  unfolding scan_found_def oldest_free_def by (auto split: if_splits) (metis order_le_less)+

lemma scan_found_first:
  "scan_found c i INVALID_BUFFER_SLOT \<Longrightarrow> 0 \<le> i \<Longrightarrow> buffer_state (slot_at c i) = Free \<Longrightarrow> scan_found c (i + 1) i"
  unfolding scan_found_def oldest_free_def INVALID_BUFFER_SLOT_def
  by auto (metis order_le_less)+

lemma scan_found_next:
  assumes "scan_found c i found" and "found \<noteq> INVALID_BUFFER_SLOT" and "buffer_state (slot_at c i) = Free"
  shows "scan_found c (i + 1) (if frame_number (slot_at c i) < frame_number (slot_at c found) then i else found)"
proof -
  have o: "oldest_free c i found" using assms(1,2) by (simp add: scan_found_def)
  then have "0 \<le> i" by (simp add: oldest_free_def)
  have "oldest_free c (i + 1) (if frame_number (slot_at c i) < frame_number (slot_at c found) then i else found)"
    unfolding oldest_free_def
  proof (intro conjI allI impI; (elim conjE)?)
    fix j assume j: "0 \<le> j" "j < i + 1" "buffer_state (slot_at c j) = Free"
    show "frame_number (slot_at c (if frame_number (slot_at c i) < frame_number (slot_at c found) then i else found))
        < frame_number (slot_at c j) \<or>
      frame_number (slot_at c (if frame_number (slot_at c i) < frame_number (slot_at c found) then i else found))
        = frame_number (slot_at c j) \<and> (if frame_number (slot_at c i) < frame_number (slot_at c found) then i else found) \<le> j"
    proof (cases "j = i")
      case True
      then show ?thesis using o by (auto simp: oldest_free_def)
    next
      case False
      then have "j < i" using j(2) by simp
      then show ?thesis using o j(1,3) by (fastforce simp: oldest_free_def)
    qed
  qed (use o \<open>0 \<le> i\<close> assms(3) in \<open>auto simp: oldest_free_def\<close>)
  then show ?thesis using \<open>0 \<le> i\<close> assms(2) by (auto simp: scan_found_def INVALID_BUFFER_SLOT_def)
qed

text \<open>The dequeued slots the scan counts, from \<open>i\<close> on.\<close>

definition count_state :: "BufferState \<Rightarrow> BufferQueueCore \<Rightarrow> int \<Rightarrow> nat \<Rightarrow> int" where
  "count_state st c i n = int (length (filter (\<lambda>k. buffer_state (slot_at c (i + int k)) = st) [0..<n]))"

lemma count_state_Suc:
  "count_state st c i (Suc n) = of_bool (buffer_state (slot_at c i) = st) + count_state st c (i + 1) n"
proof -
  have "[0..<Suc n] = 0 # map Suc [0..<n]" by (simp add: upt_conv_Cons map_Suc_upt del: upt_Suc)
  then show ?thesis by (simp add: count_state_def filter_map comp_def add.assoc del: upt_Suc)
qed

lemma scan_slots_returns:
  assumes "length (slots c) = 64" and "0 \<le> i" and "i + int n \<le> 64" and "scan_found c i found"
  shows "\<exists>f. scan_slots n i found d a c = Inr (f, d + count_state Dequeued c i n, a + count_state Acquired c i n) \<and>
    scan_found c (i + int n) f"
  using assms
proof (induction n arbitrary: i found d a)
  case 0
  then show ?case by (simp add: count_state_def)
next
  case (Suc n)
  have v: "valid_slot i" using Suc.prems by (simp add: valid_slot_def)
  have g: "slot_get c i = Inr (slot_at c i)" by (rule slot_get_length [OF Suc.prems(1) v])
  have IH: "\<exists>f. scan_slots n (i + 1) found' d' a' c = Inr (f, d' + count_state Dequeued c (i + 1) n,
      a' + count_state Acquired c (i + 1) n) \<and> scan_found c (i + int (Suc n)) f"
    if "scan_found c (i + 1) found'" for found' d' a'
    using Suc.IH [of "i + 1" found' d' a'] Suc.prems that by (simp add: algebra_simps)
  show ?case
  proof (cases "buffer_state (slot_at c i)")
    case Free
    show ?thesis
    proof (cases "found = INVALID_BUFFER_SLOT")
      case True
      have "scan_found c (i + 1) i" using scan_found_first Suc.prems Free True by simp
      from IH [OF this] show ?thesis using Free True g by (simp add: count_state_Suc)
    next
      case False
      then have "valid_slot found" using Suc.prems by (auto simp: scan_found_def oldest_free_def valid_slot_def)
      then have "slot_get c found = Inr (slot_at c found)" by (rule slot_get_length [OF Suc.prems(1)])
      with IH [OF scan_found_next [OF Suc.prems(4) False Free]] show ?thesis
        using Free False g by (simp add: count_state_Suc)
    qed
  qed (use IH [OF scan_found_skip [OF Suc.prems(4)]] g in \<open>simp_all add: count_state_Suc add.assoc [symmetric]\<close>)
qed

section \<open>One pass of the wait for a slot\<close>

lemma free_beyond_returns:
  assumes "bq_inv c" and "0 \<le> i" and "i + int n \<le> 64"
  shows "\<exists>fl c'. free_beyond False n i flags c = Inr (fl, c') \<and> bq_inv c' \<and>
    c' = c\<lparr>slots := slots c'\<rparr> \<and> (\<forall>j. 0 \<le> j \<and> j < i \<longrightarrow> slot_at c' j = slot_at c j)"
  using assms
proof (induction n arbitrary: i flags c)
  case (Suc n)
  have v: "valid_slot i" using Suc.prems by (simp add: valid_slot_def)
  note g = slot_get_inv [OF Suc.prems(1) v]
  let ?c = "c\<lparr>slots := (slots c)[nat i := free_slot (slot_at c i)]\<rparr>"
  have f: "FreeBufferLocked i c = Inr ?c" by (simp add: FreeBufferLocked_def slot_upd_inv [OF Suc.prems(1) v])
  show ?case
  proof (cases "graphic_buffer (slot_at c i) \<noteq> None \<and> buffer_state (slot_at c i) = Free \<and> \<not> is_preallocated (slot_at c i)")
    case True
    obtain fl c' where c': "free_beyond False n (i + 1) (flags OR ReleaseAllBuffers) ?c = Inr (fl, c')" "bq_inv c'"
      "c' = ?c\<lparr>slots := slots c'\<rparr>" "\<forall>j. 0 \<le> j \<and> j < i + 1 \<longrightarrow> slot_at c' j = slot_at ?c j"
      using Suc.IH [OF inv_FreeBufferLocked [OF Suc.prems(1) f], of "i + 1" "flags OR ReleaseAllBuffers"] Suc.prems
      by fastforce
    have "slot_at ?c j = slot_at c j" if "0 \<le> j" "j < i" for j using that by (simp add: slot_at_def)
    then show ?thesis using c' True g f by (auto simp: ASSERT_def)
  next
    case False
    then show ?thesis using Suc.IH [OF Suc.prems(1), of "i + 1" flags] Suc.prems g by (auto simp: ASSERT_def)
  qed
qed simp

lemma slot_at_frees:
  assumes "\<forall>j. 0 \<le> j \<and> j < n \<longrightarrow> slot_at c' j = slot_at c j"
  shows "oldest_free c' n i = oldest_free c n i" and "m \<le> n \<Longrightarrow> 0 \<le> m \<Longrightarrow> count_state st c' 0 (nat m) = count_state st c 0 (nat m)"
proof -
  show "oldest_free c' n i = oldest_free c n i" using assms unfolding oldest_free_def by auto
  show "m \<le> n \<Longrightarrow> 0 \<le> m \<Longrightarrow> count_state st c' 0 (nat m) = count_state st c 0 (nat m)"
    unfolding count_state_def using assms by (auto intro!: arg_cong [of _ _ length] filter_cong)
qed

text \<open>The pass with its loops replaced by what they compute.\<close>

lemma slot_pass_unfold:
  assumes "bq_inv c" and "\<not> is_abandoned c"
  shows "\<exists>m fl c' found. GetMaxBufferCountLocked False async c = Inr m \<and> 0 \<le> m \<and> m \<le> 64 \<and>
    (override_max_buffer_count c \<noteq> 0 \<longrightarrow> m = override_max_buffer_count c) \<and> bq_inv c' \<and> c' = c\<lparr>slots := slots c'\<rparr> \<and>
    (\<forall>j. 0 \<le> j \<and> j < m \<longrightarrow> slot_at c' j = slot_at c j) \<and> scan_found c' m found \<and>
    slot_pass False async flags c =
      (if override_max_buffer_count c = 0 \<and> count_state Dequeued c 0 (nat m) \<noteq> 0
         then Inr (PassReturns InvalidOperation found fl c')
       else if buffer_has_been_queued c \<and> m - (count_state Dequeued c 0 (nat m) + 1) < 0
         then Inr (PassReturns InvalidOperation found fl c')
       else if found = INVALID_BUFFER_SLOT \<or> int (length (queue c)) > m then
         if dequeue_buffer_cannot_block c \<and> count_state Acquired c 0 (nat m) \<le> max_acquired_buffer_count
         then Inr (PassReturns WouldBlock found fl c') else Inr (PassWaits fl c')
       else Inr (PassReturns NoError found fl c'))"
proof -
  obtain m where m: "GetMaxBufferCountLocked False async c = Inr m" "0 \<le> m" "m \<le> 64"
    "override_max_buffer_count c \<noteq> 0 \<longrightarrow> m = override_max_buffer_count c"
    using GetMax_returns [OF assms(1), of False async] by auto
  obtain fl c' where fb: "free_beyond False (64 - nat m) m flags c = Inr (fl, c')" "bq_inv c'"
    "c' = c\<lparr>slots := slots c'\<rparr>" "\<forall>j. 0 \<le> j \<and> j < m \<longrightarrow> slot_at c' j = slot_at c j"
    using free_beyond_returns [OF assms(1) m(2), of "64 - nat m" flags] m by auto
  have sel: "override_max_buffer_count c' = override_max_buffer_count c" "buffer_has_been_queued c' = buffer_has_been_queued c"
    "queue c' = queue c" "dequeue_buffer_cannot_block c' = dequeue_buffer_cannot_block c"
    using fb(3) by (metis BufferQueueCore.select_convs BufferQueueCore.update_convs(7) BufferQueueCore.surjective)+
  obtain found where sc: "scan_slots (nat m) 0 INVALID_BUFFER_SLOT 0 0 c' =
      Inr (found, count_state Dequeued c 0 (nat m), count_state Acquired c 0 (nat m))" "scan_found c' m found"
  proof -
    show ?thesis
      using scan_found_none scan_slots_returns [OF bq_invD(1) [OF fb(2)], of 0 "nat m" INVALID_BUFFER_SLOT 0 0] m(2,3)
        slot_at_frees(2) [OF fb(4) order_refl m(2)] that by auto
  qed
  have nb: "\<not> (async \<and> override_max_buffer_count c \<noteq> 0 \<and> override_max_buffer_count c < m)" using m(4) by auto
  have "slot_pass False async flags c =
      (if override_max_buffer_count c = 0 \<and> count_state Dequeued c 0 (nat m) \<noteq> 0
         then Inr (PassReturns InvalidOperation found fl c')
       else if buffer_has_been_queued c \<and> m - (count_state Dequeued c 0 (nat m) + 1) < 0
         then Inr (PassReturns InvalidOperation found fl c')
       else if found = INVALID_BUFFER_SLOT \<or> int (length (queue c)) > m then
         if dequeue_buffer_cannot_block c \<and> count_state Acquired c 0 (nat m) \<le> max_acquired_buffer_count
         then Inr (PassReturns WouldBlock found fl c') else Inr (PassWaits fl c')
       else Inr (PassReturns NoError found fl c'))"
    unfolding slot_pass_def m(1) bindF_simps if_not_P [OF nb]
    using assms(2) fb(1) sc(1)
    by (simp add: NUM_BUFFER_SLOTS_def sel Let_def GetMinUndequeuedBufferCountLocked_def use_async_buffer_def)
  with m fb sc show ?thesis by blast
qed

section \<open>The step relation\<close>

text \<open>One step for each critical section. A buffer object that enters a slot is new to the queue:
  dequeueing and preallocating make it, and an attached one comes from outside.\<close>

inductive bq_step :: "BufferQueueCore \<Rightarrow> BufferQueueCore \<Rightarrow> bool" where
  step_RequestBuffer: "RequestBuffer slot c = Inr (st, b, c') \<Longrightarrow> bq_step c c'"
| step_SetBufferCount: "SetBufferCount n p = Inr (st, notes, p') \<Longrightarrow> bq_step (core p) (core p')"
| step_wait: "slot_pass dbg async flags c = Inr (PassWaits fl c') \<Longrightarrow> bq_step c c'"
| step_woken: "bq_step c (dequeue_woken c)"
| step_no_slot: "slot_pass dbg async flags c = Inr (PassReturns st found fl c') \<Longrightarrow> bq_step c c'"
| step_dequeue: "slot_pass dbg async flags c = Inr (PassReturns NoError found fl c1) \<Longrightarrow>
    dequeue_mark found w h fmt us fl c1 = Inr (att, fl', fe, c') \<Longrightarrow> bq_step c c'"
| step_install: "fresh_pointer c (gb_pointer b) \<Longrightarrow> dequeue_install found b c = Inr (r, c') \<Longrightarrow> bq_step c c'"
| step_DetachBuffer: "DetachBuffer slot c = Inr (st, c') \<Longrightarrow> bq_step c c'"
| step_DetachNextBuffer: "DetachNextBuffer c = Inr (st, r, c') \<Longrightarrow> bq_step c c'"
| step_attach: "slot_pass dbg False flags c = Inr (PassReturns NoError found fl c1) \<Longrightarrow>
    fresh_pointer c1 (gb_pointer b) \<Longrightarrow> attach_mark found (Some b) c1 = Inr c' \<Longrightarrow> bq_step c c'"
| step_QueueBuffer: "QueueBuffer dbg hist now slot input p = Inr (st, out, notes, p') \<Longrightarrow> bq_step (core p) (core p')"
| step_CancelBuffer: "CancelBuffer slot fe p = Inr p' \<Longrightarrow> bq_step (core p) (core p')"
| step_Connect: "Connect l api b c = (st, out, c') \<Longrightarrow> bq_step c c'"
| step_Disconnect: "Disconnect api p = Inr (st, notes, p') \<Longrightarrow> bq_step (core p) (core p')"
| step_SetPreallocatedBuffer: "fresh_pointer (core p) ptr \<Longrightarrow>
    SetPreallocatedBuffer slot ptr buffer p = Inr (st, p') \<Longrightarrow> bq_step (core p) (core p')"
| step_AcquireBuffer: "AcquireBuffer e c = Inr (st, item, c') \<Longrightarrow> bq_step c c'"
| step_ReleaseBuffer: "ReleaseBuffer slot frame c = Inr (st, notes, c') \<Longrightarrow> bq_step c c'"
| step_consumer_Connect: "consumer_Connect l b c = (st, c') \<Longrightarrow> bq_step c c'"
| step_consumer_Disconnect: "consumer_Disconnect c = Inr (st, c') \<Longrightarrow> bq_step c c'"
| step_restore: "restore_core entry c = Inr c' \<Longrightarrow> bq_step c c'"
| step_rewind: "bq_step c (snd (rewind_core fid delta c))"

inductive bq_reachable :: "BufferQueueCore \<Rightarrow> bool" where
  bq_start: "bq_reachable new_BufferQueueCore"
| bq_next: "bq_reachable c \<Longrightarrow> bq_step c c' \<Longrightarrow> bq_reachable c'"

lemma bq_reachable_steps: "bq_step\<^sup>*\<^sup>* c c' \<Longrightarrow> bq_reachable c \<Longrightarrow> bq_reachable c'"
  by (induction rule: rtranclp_induct) (auto intro: bq_next)

lemma max_count_loop_bound: "max_count_loop n i m c = Inr r \<Longrightarrow> m \<le> i + int n \<Longrightarrow> 0 \<le> m \<Longrightarrow> 0 \<le> i \<Longrightarrow> 0 \<le> r \<and> r \<le> i + int n"
proof (induction n arbitrary: i m)
  case (Suc n)
  then show ?case by (fastforce simp: bindF_eq_Inr split: if_splits)
qed simp

lemma GetMax_bound:
  assumes "bq_inv c" and "GetMaxBufferCountLocked dbg async c = Inr r"
  shows "0 \<le> r \<and> r \<le> 64"
  using assms max_count_loop_bound [of 62 2 2 c r]
  by (auto simp: GetMaxBufferCountLocked_def Let_def GetMinMaxBufferCountLocked_def bindF_eq_Inr
    GetMinUndequeuedBufferCountLocked_def use_async_buffer_def default_max_buffer_count_def NUM_BUFFER_SLOTS_def
    bq_inv_def split: if_splits)

lemma slot_pass_found:
  assumes "bq_inv c" and "slot_pass dbg async flags c = Inr (PassReturns NoError found fl c')"
  shows "bq_inv c' \<and> valid_slot found \<and> buffer_state (slot_at c' found) = Free"
proof -
  have i': "bq_inv c'" using inv_slot_pass [OF assms] by simp
  obtain m d a where m: "GetMaxBufferCountLocked dbg async c = Inr m" and f: "found \<noteq> INVALID_BUFFER_SLOT"
    and s: "scan_slots (nat m) 0 INVALID_BUFFER_SLOT 0 0 c' = Inr (found, d, a)"
    using assms(2) by (auto simp: slot_pass_def bindF_eq_Inr Let_def NoError_def NoInit_def BadValue_def
      InvalidOperation_def WouldBlock_def split: if_splits)
  have m64: "0 \<le> m \<and> m \<le> 64" by (rule GetMax_bound [OF assms(1) m])
  then have "scan_found c' m found"
    using scan_slots_returns [OF bq_invD(1) [OF i'], of 0 "nat m" INVALID_BUFFER_SLOT 0 0] s
      scan_found_none by auto
  then show ?thesis using i' f m64 by (simp add: scan_found_def oldest_free_def valid_slot_def)
qed

lemma inv_attach_mark:
  "bq_inv c \<Longrightarrow> fresh_pointer c (gb_pointer b) \<Longrightarrow> attach_mark found (Some b) c = Inr c' \<Longrightarrow> bq_inv c'"
  unfolding attach_mark_def by (erule inv_slot_upd, assumption) (simp_all add: no_item_fresh)

lemma bq_step_inv: "bq_step c c' \<Longrightarrow> bq_inv c \<Longrightarrow> bq_inv c'"
proof (induction rule: bq_step.induct)
  case (step_wait dbg async flags c fl c')
  then show ?case using inv_slot_pass [OF step_wait(2,1)] by simp
next
  case (step_no_slot dbg async flags c st found fl c')
  then show ?case using inv_slot_pass [OF step_no_slot(2,1)] by simp
next
  case (step_dequeue dbg async flags c found fl c1 w h fmt us att fl' fe c')
  then show ?case using slot_pass_found [OF step_dequeue(3,1)] inv_dequeue_mark by blast
next
  case (step_attach dbg flags c found fl c1 b c')
  then show ?case using slot_pass_found [OF step_attach(4,1)] inv_attach_mark by blast
qed (auto simp: dequeue_woken_def intro: inv_RequestBuffer inv_SetBufferCount inv_dequeue_install inv_DetachBuffer
  inv_DetachNextBuffer inv_QueueBuffer inv_CancelBuffer inv_Connect inv_Disconnect
  inv_SetPreallocatedBuffer inv_AcquireBuffer inv_ReleaseBuffer inv_consumer_Connect inv_consumer_Disconnect
  inv_restore_core inv_rewind_core)

lemma bq_reachable_inv: "bq_reachable c \<Longrightarrow> bq_inv c"
  by (induction rule: bq_reachable.induct) (auto intro: inv_new_core bq_step_inv)

end
