(* ===== verification/Buffer_Total.thy ===== *)
theory Buffer_Total
  imports Buffer_Steps
begin

text \<open>
  Operations on the buffer queue return: under the invariant none of them indexes outside the
  slot array, and with debug assertions off none of them aborts.
\<close>

section \<open>Loops over the slots\<close>

lemma slot_upd_returns: "length (slots c) = 64 \<Longrightarrow> valid_slot i \<Longrightarrow>
  slot_upd i f c = Inr (c\<lparr>slots := (slots c)[nat i := f (slot_at c i)]\<rparr>)"
  by (simp add: slot_upd_def slot_get_length)

lemma free_slots_loop_returns:
  "length (slots c) = 64 \<Longrightarrow> 0 \<le> i \<Longrightarrow> i + int n \<le> 64 \<Longrightarrow> \<exists>c'. free_slots_loop n i c = Inr c'"
proof (induction n arbitrary: i c)
  case (Suc n)
  have "valid_slot i" using Suc.prems by (simp add: valid_slot_def)
  then show ?case using Suc.prems Suc.IH [of _ "i + 1"] by (simp add: FreeBufferLocked_def slot_upd_returns)
qed simp

lemma FreeAll_returns: "length (slots c) = 64 \<Longrightarrow> \<exists>c'. FreeAllBuffersLocked c = Inr c'"
  by (simp add: FreeAllBuffersLocked_def NUM_BUFFER_SLOTS_def free_slots_loop_returns)

lemma oldest_buffer_returns:
  "length (slots c) = 64 \<Longrightarrow> 0 \<le> i \<Longrightarrow> i + int n \<le> 64 \<Longrightarrow> found = INVALID_BUFFER_SLOT \<or> valid_slot found \<Longrightarrow>
    \<exists>r. oldest_buffer n i found c = Inr r \<and> (r = INVALID_BUFFER_SLOT \<or> valid_slot r)"
proof (induction n arbitrary: i found)
  case (Suc n)
  have v: "valid_slot i" using Suc.prems by (simp add: valid_slot_def)
  show ?case
    using Suc.prems v Suc.IH [of "i + 1" i] Suc.IH [of "i + 1" found]
    by (auto simp: slot_get_length)
qed simp

section \<open>The operations\<close>

lemma RequestBuffer_returns: "bq_inv c \<Longrightarrow> \<exists>r. RequestBuffer slot c = Inr r"
  by (auto simp: RequestBuffer_def slot_get_inv slot_upd_inv)

lemma SetBufferCount_returns: "bq_inv (core p) \<Longrightarrow> \<exists>r. SetBufferCount n p = Inr r"
  using FreeAll_returns [of "core p"] bq_invD(1) by (fastforce simp: SetBufferCount_def Let_def)

lemma slot_pass_returns: "bq_inv c \<Longrightarrow> \<exists>r. slot_pass False async flags c = Inr r"
proof (cases "is_abandoned c")
  case False
  assume "bq_inv c"
  from slot_pass_unfold [OF this False, of async flags] show ?thesis by (auto split: if_splits)
qed (simp add: slot_pass_def)

lemma DetachBuffer_returns: "bq_inv c \<Longrightarrow> \<exists>r. DetachBuffer slot c = Inr r"
  by (auto simp: DetachBuffer_def FreeBufferLocked_def slot_get_inv slot_upd_inv)

lemma DetachNextBuffer_returns: "bq_inv c \<Longrightarrow> \<exists>r. DetachNextBuffer c = Inr r"
  using oldest_buffer_returns [of c 0 64 INVALID_BUFFER_SLOT] bq_invD(1) [of c]
  by (auto simp: DetachNextBuffer_def NUM_BUFFER_SLOTS_def FreeBufferLocked_def slot_get_inv slot_upd_inv)

lemma CancelBuffer_returns: "bq_inv (core p) \<Longrightarrow> \<exists>r. CancelBuffer slot fe p = Inr r"
  by (auto simp: CancelBuffer_def Let_def slot_get_inv slot_upd_inv)

lemma Disconnect_returns: "bq_inv (core p) \<Longrightarrow> \<exists>r. Disconnect api p = Inr r"
  using FreeAll_returns [of "core p\<lparr>queue := []\<rparr>"] bq_invD(1) by (fastforce simp: Disconnect_def Let_def)

lemma consumer_Disconnect_returns: "bq_inv c \<Longrightarrow> \<exists>r. consumer_Disconnect c = Inr r"
  using FreeAll_returns [of "c\<lparr>is_abandoned := True, consumer_listener := False, queue := []\<rparr>"] bq_invD(1)
  by (fastforce simp: consumer_Disconnect_def)

lemma SetPreallocatedBuffer_returns: "bq_inv (core p) \<Longrightarrow> \<exists>r. SetPreallocatedBuffer slot ptr buffer p = Inr r"
  by (auto simp: SetPreallocatedBuffer_def Let_def bq_inv_def slot_upd_returns split: option.split)

lemma ReleaseBuffer_returns: "bq_inv c \<Longrightarrow> \<exists>r. ReleaseBuffer slot frame c = Inr r"
  by (auto simp: ReleaseBuffer_def slot_get_inv slot_upd_inv)

lemma drop_loop_returns:
  assumes "length (slots c) = 64" and "\<forall>x \<in> set q. valid_slot (item_slot x)"
  shows "\<exists>q' c'. drop_loop e q c = Inr (q', c')"
  using assms
proof (induction e q c rule: drop_loop.induct)
  case (1 e front nxt rest c)
  have v: "valid_slot (item_slot front)" using "1.prems" by simp
  have st: "StillTracking c front = Inr (tracks c front)"
    by (simp add: StillTracking_def tracks_def has_buffer_def slot_get_length [OF "1.prems"(1) v])
  show ?case using "1.prems" "1.IH" st by (auto simp: slot_upd_returns [OF _ v])
qed auto

lemma AcquireBuffer_returns:
  assumes "bq_inv c"
  shows "\<exists>r. AcquireBuffer e c = Inr r"
proof (cases "queue c = []")
  case False
  obtain q c1 where d: "(if e \<noteq> 0 then drop_loop e (queue c) c else Inr (queue c, c)) = Inr (q, c1)"
    using drop_loop_returns [of c "queue c" e] assms
    by (cases "e = 0") (auto simp: bq_inv_def queue_ok_def)
  have i1: "bq_inv (c1\<lparr>queue := q\<rparr>)" and ne: "q \<noteq> []"
    using d inv_drop_loop [of "queue c" c e q c1] drop_loop_nonempty [of e "queue c" c q c1] assms False
    by (auto split: if_splits)
  then have v: "valid_slot (item_slot (hd q))" by (simp add: bq_inv_def queue_ok_def)
  show ?thesis
    using False d StillTracking_inv [OF i1 v] slot_upd_inv [OF i1 v] by (simp add: AcquireBuffer_def Let_def)
qed (simp add: AcquireBuffer_def)

lemma enqueue_item_returns: "bq_inv c \<Longrightarrow> \<exists>av c'. enqueue_item hist x c = Inr (av, c') \<and> length (slots c') = 64"
proof (cases "queue c")
  case (Cons front rest)
  assume c: "bq_inv c"
  have v: "valid_slot (item_slot front)" using c Cons by (simp add: bq_inv_def queue_ok_def)
  show ?thesis
    using Cons StillTracking_inv [OF c v] slot_upd_inv [OF c v] bq_invD(1) [OF c]
    by (auto simp: enqueue_item_def slot_upd_returns [OF _ v] UpdateHistory_def split: option.split)
qed (auto simp: enqueue_item_def bq_inv_def)

lemma queue_locked_returns:
  assumes "bq_inv c" and "valid_slot slot" and "buffer_state (slot_at c slot) = Dequeued"
  shows "\<exists>r. queue_locked hist now slot input s c = Inr r"
proof -
  define c0 where "c0 = c\<lparr>frame_counter := frame_counter c + 1\<rparr>"
  define f where "f = (\<lambda>s :: BufferSlot. s\<lparr>buffer_state := Queued, frame_number := frame_counter c + 1,
    queue_time := in_timestamp input, presentation_time := now, fence := in_fence input\<rparr>)"
  have i0: "bq_inv c0" and at: "slot_at c0 slot = slot_at c slot" using assms(1) by (simp_all add: c0_def slot_at_def)
  obtain c1 where u: "slot_upd slot f c0 = Inr c1" using slot_upd_inv [OF i0 assms(2)] by simp
  have "bq_inv c1" by (rule inv_slot_upd_keep [OF i0 u]) (simp_all add: at assms(3) f_def)
  then obtain av c2 where e: "enqueue_item hist (make_item input slot (frame_counter c + 1)
      (dequeue_buffer_cannot_block c \<or> in_async input \<noteq> 0) s) c1 = Inr (av, c2)" and "length (slots c2) = 64"
    using enqueue_item_returns by blast
  then have "slot_get c2 slot = Inr (slot_at c2 slot)" using slot_get_length assms(2) by blast
  then show ?thesis
    unfolding queue_locked_def Let_def c0_def [symmetric] f_def [symmetric] u bindF_simps e by simp
qed

lemma QueueBuffer_returns: "bq_inv (core p) \<Longrightarrow> \<exists>r. QueueBuffer False hist now slot input p = Inr r"
proof -
  assume c: "bq_inv (core p)"
  obtain m where m: "GetMaxBufferCountLocked False (in_async input \<noteq> 0) (core p) = Inr m" "m \<le> 64"
    using GetMax_returns [OF c, of False] by auto
  have "\<exists>r. queue_locked hist now slot input (slot_at (core p) slot) (core p) = Inr r"
    if "0 \<le> slot" "slot < m" "buffer_state (slot_at (core p) slot) = Dequeued"
    using queue_locked_returns [OF c _ that(3)] that m(2) by (simp add: valid_slot_def)
  moreover have "slot_get (core p) slot = Inr (slot_at (core p) slot)" if "0 \<le> slot" "slot < m"
    using slot_get_inv [OF c] that m(2) by (simp add: valid_slot_def)
  ultimately show ?thesis using m(1) by (force simp: QueueBuffer_def Let_def)
qed

lemma restore_slot_returns:
  assumes "length (slots c) = 64" and "n < 64"
  shows "\<exists>f c'. restore_slot d r n (freed, c) = Inr (f, c') \<and> length (slots c') = 64"
proof -
  have v: "valid_slot (int n)" using assms(2) by (simp add: valid_slot_def)
  show ?thesis
    using assms(1) by (auto simp: restore_slot_def Let_def slot_get_length [OF _ v] slot_upd_returns [OF _ v])
qed

lemma restore_loop_returns:
  "length (slots c) = 64 \<Longrightarrow> n + length ds \<le> 64 \<Longrightarrow> \<exists>f c'. restore_loop ds rs n (freed, c) = Inr (f, c')"
proof (induction ds rs n "(freed, c)" arbitrary: freed c rule: restore_loop.induct)
  case (1 d ds r rs n)
  then obtain f1 c1 where s: "restore_slot d r n (freed, c) = Inr (f1, c1)" "length (slots c1) = 64"
    using restore_slot_returns [of c n d r freed] by auto
  then show ?case using "1.hyps" [OF s(1)] "1.prems" by (simp add: s)
qed auto

lemma restore_core_returns:
  "bq_inv c \<Longrightarrow> length (ps_dequeued entry) = 64 \<Longrightarrow> \<exists>r. restore_core entry c = Inr r"
  using restore_loop_returns [of c 0 "ps_dequeued entry" "ps_requested entry" False] bq_invD(1) [of c]
  by (auto simp: restore_core_def)

section \<open>Waiting\<close>

text \<open>What the other threads do while an operation waits or has left the mutex.\<close>

definition others_ok :: "others list \<Rightarrow> bool" where
  "others_ok fs \<longleftrightarrow> (\<forall>f \<in> set fs. \<forall>c. bq_inv c \<longrightarrow> bq_inv (f c))"

lemma await_dequeue_inv:
  "await_dequeue fs c = Inr (c', fs') \<Longrightarrow> bq_inv c \<Longrightarrow> others_ok fs \<Longrightarrow> bq_inv c' \<and> others_ok fs'"
  by (induction fs c rule: await_dequeue.induct) (auto simp: others_ok_def dequeue_woken_def split: if_splits)

lemma wait_for_slot_returns:
  "bq_inv c \<Longrightarrow> others_ok fs \<Longrightarrow> \<exists>w. wait_for_slot False async flags fs c = Inr w \<and>
    (case w of Done (st, found, fl) c' \<Rightarrow> bq_inv c' \<and> (st = NoError \<longrightarrow> valid_slot found \<and> buffer_state (slot_at c' found) = Free)
     | Blocked c' \<Rightarrow> True)"
proof (induction "2 * length fs + of_bool (dequeue_possible c)" arbitrary: fs c flags rule: less_induct)
  case less
  obtain r where r: "slot_pass False async flags c = Inr r" using slot_pass_returns [OF less.prems(1)] by blast
  show ?case
  proof (cases r)
    case (PassReturns st found fl c')
    have "bq_inv c'" using inv_slot_pass [OF less.prems(1) r] PassReturns by simp
    moreover have "valid_slot found \<and> buffer_state (slot_at c' found) = Free" if "st = NoError"
      using slot_pass_found [OF less.prems(1), of False async flags found fl c'] r PassReturns that by auto
    ultimately show ?thesis using r PassReturns by (simp add: wait_for_slot.simps)
  next
    case (PassWaits fl c')
    have i: "bq_inv c'" using inv_slot_pass [OF less.prems(1) r] PassWaits by simp
    have dp: "dequeue_possible c' = dequeue_possible c" using slot_pass_dequeue_possible r PassWaits by simp
    show ?thesis
    proof (cases "await_dequeue fs c'")
      case (Inl c1)
      then show ?thesis using r PassWaits by (simp add: wait_for_slot.simps)
    next
      case (Inr cf)
      obtain c1 fs1 where cf: "cf = (c1, fs1)" by (cases cf)
      have "bq_inv c1 \<and> others_ok fs1" using await_dequeue_inv i less.prems(2) Inr cf by blast
      moreover have "2 * length fs1 + of_bool (dequeue_possible c1) < 2 * length fs + (of_bool (dequeue_possible c) :: nat)"
        using await_dequeue_smaller [of fs c' c1 fs1] Inr cf dp by simp
      ultimately show ?thesis using less.hyps [of fs1 c1 fl] r PassWaits Inr cf by (simp add: wait_for_slot.simps [of _ _ flags])
    qed
  qed
qed

lemma DequeueBuffer_returns:
  assumes "bq_inv c" and "others_ok (between # fs)"
  shows "\<exists>r. DequeueBuffer False ptr between fs async w h fmt us c = Inr r"
proof -
  have o: "others_ok fs" "\<And>c. bq_inv c \<Longrightarrow> bq_inv (between c)" using assms(2) by (simp_all add: others_ok_def)
  have mark: "\<exists>att fl' fe c2. dequeue_mark found w h fmt us fl c1 = Inr (att, fl', fe, c2) \<and> bq_inv c2"
    if "bq_inv c1" "valid_slot found" "buffer_state (slot_at c1 found) = Free" for found w h fmt us fl c1
  proof -
    have "\<exists>att fl' fe c2. dequeue_mark found w h fmt us fl c1 = Inr (att, fl', fe, c2)"
      using that(1,2) by (simp add: dequeue_mark_def Let_def slot_get_inv slot_upd_inv)
    then show ?thesis using inv_dequeue_mark that by blast
  qed
  have install: "\<exists>r c3. dequeue_install found b c2 = Inr (r, c3)" if "bq_inv c2" "valid_slot found" for found b c2
    using that by (auto simp: dequeue_install_def slot_upd_inv)
  show ?thesis
  proof (cases "(w \<noteq> 0 \<and> h = 0) \<or> (w = 0 \<and> h \<noteq> 0)")
    case False
    obtain wt where wt: "wait_for_slot False async NoError fs c = Inr wt" "case wt of Done (st, found, fl) c' \<Rightarrow> bq_inv c' \<and>
        (st = NoError \<longrightarrow> valid_slot found \<and> buffer_state (slot_at c' found) = Free) | Blocked c' \<Rightarrow> True"
      using wait_for_slot_returns [OF assms(1) o(1), of async NoError] by blast
    show ?thesis
    proof (cases wt)
      case (Blocked c')
      then show ?thesis using wt(1) False by (simp add: DequeueBuffer_def Let_def)
    next
      case (Done sff c')
      obtain st found fl where sff: "sff = (st, found, fl)" by (cases sff)
      show ?thesis
      proof (cases "st = NoError \<and> found \<noteq> INVALID_BUFFER_SLOT")
        case True
        define w' h' fmt' us' where "w' = (if w = 0 \<and> h = 0 then default_width c' else w)"
          and "h' = (if w = 0 \<and> h = 0 then default_height c' else h)"
          and "fmt' = (if fmt = 0 then default_buffer_format c else fmt)" and "us' = us OR consumer_usage_bit c"
        have g: "\<not> st \<noteq> NoError" "found \<noteq> INVALID_BUFFER_SLOT" using True by simp_all
        have v: "bq_inv c'" "valid_slot found" "buffer_state (slot_at c' found) = Free"
          using wt(2) Done sff True by simp_all
        obtain att fl' fe c2 where m: "dequeue_mark found w' h' fmt' us' fl c' = Inr (att, fl', fe, c2)" "bq_inv c2"
          using mark [OF v, of w' h' fmt' us' fl] by blast
        obtain r c3 where i: "dequeue_install found (new_GraphicBuffer ptr w' h' fmt' us') (between c2) = Inr (r, c3)"
          using install [OF o(2) [OF m(2)] v(2)] by blast
        have "DequeueBuffer False ptr between fs async w h fmt us c =
          bindF (if fl' AND BufferNeedsReallocation \<noteq> 0 then Inr (r, c3) else Inr (Inr (), c2)) (\<lambda>(r, c). case r of
              Inl status \<Rightarrow> Inr (Done (status, Some (found, fe)) c)
            | Inr () \<Rightarrow> Inr (Done (if att then fl' OR BufferNeedsReallocation else fl', Some (found, fe)) c))"
          unfolding DequeueBuffer_def if_not_P [OF False] Let_def fmt'_def [symmetric] us'_def [symmetric] wt(1)
            Done sff bindF_simps blocking.case prod.case if_not_P [OF g(1)] if_not_P [OF g(2)] w'_def [symmetric]
            h'_def [symmetric] m(1) i by (rule refl)
        then show ?thesis
          by (cases "fl' AND BufferNeedsReallocation = 0"; cases r) (simp_all add: case_unit_Unity)
      qed (use wt(1) False Done sff in \<open>auto simp: DequeueBuffer_def Let_def\<close>)
    qed
  qed (auto simp: DequeueBuffer_def)
qed

section \<open>Attaching, queries and the base of consumers\<close>

lemma AttachBuffer_returns:
  assumes "bq_inv c" and "others_ok fs"
  shows "\<exists>r. AttachBuffer False fs buffer c = Inr r"
proof -
  obtain wt where wt: "wait_for_slot False False NoError fs c = Inr wt" "case wt of Done (st, found, fl) c' \<Rightarrow> bq_inv c' \<and>
      (st = NoError \<longrightarrow> valid_slot found \<and> buffer_state (slot_at c' found) = Free) | Blocked c' \<Rightarrow> True"
    using wait_for_slot_returns [OF assms, of False NoError] by blast
  show ?thesis
  proof (cases wt)
    case (Blocked c')
    then show ?thesis using wt(1) by (simp add: AttachBuffer_def)
  next
    case (Done sff c')
    obtain st found fl where sff: "sff = (st, found, fl)" by (cases sff)
    have "\<exists>c2. attach_mark found buffer c' = Inr c2" if "st = NoError"
      using wt(2) Done sff that by (auto simp: attach_mark_def slot_upd_inv)
    then show ?thesis using wt(1) Done sff by (auto simp: AttachBuffer_def)
  qed
qed

lemma Query_returns: "bq_inv (core p) \<Longrightarrow> \<exists>r. Query False what p = Inr r"
  using GetMax_returns [of "core p" False False] by (auto simp: Query_def Let_def)

lemma cslot_returns:
  assumes "length (cb_slots b) = 64" "valid_slot i"
  shows "cslot_get b i = Inr (cb_slots b ! nat i)" "cslot_upd i f b = Inr (b\<lparr>cb_slots := (cb_slots b)[nat i := f (cb_slots b ! nat i)]\<rparr>)"
proof -
  have "nat i < length (cb_slots b)" "\<not> i < 0" using assms by (auto simp: valid_slot_def)
  then show "cslot_get b i = Inr (cb_slots b ! nat i)" "cslot_upd i f b = Inr (b\<lparr>cb_slots := (cb_slots b)[nat i := f (cb_slots b ! nat i)]\<rparr>)"
    by (simp_all add: cslot_get_def cslot_upd_def)
qed

lemma consumer_free_loop_returns:
  "length (cb_slots b) = 64 \<Longrightarrow> i + n \<le> 64 \<Longrightarrow> \<exists>b'. consumer_free_loop P n i b = Inr b' \<and> length (cb_slots b') = 64"
proof (induction n arbitrary: i b)
  case (Suc n)
  have v: "valid_slot (int i)" using Suc.prems by (simp add: valid_slot_def)
  show ?case using Suc.IH [of _ "i + 1"] Suc.prems
    by (cases "P i") (simp_all add: consumer_FreeBufferLocked_def cslot_returns [OF _ v])
qed simp

lemma Abandon_returns: "bq_inv c \<Longrightarrow> length (cb_slots b) = 64 \<Longrightarrow> \<exists>r. Abandon b c = Inr r"
  using consumer_free_loop_returns [of b 0 64 "\<lambda>_. True"] consumer_Disconnect_returns [of c]
  by (auto simp: Abandon_def NUM_BUFFER_SLOTS_def)

lemma OnBuffersReleased_returns:
  assumes "length (cb_slots b) = 64"
  shows "\<exists>r. handle_OnBuffersReleased b c = Inr r"
proof (cases "cb_is_abandoned b")
  case False
  have "\<exists>r. consumer_free_loop P 64 0 b = Inr r" for P using consumer_free_loop_returns [OF assms, of 0 64 P] by auto
  then show ?thesis using False unfolding handle_OnBuffersReleased_def NUM_BUFFER_SLOTS_def Let_def by simp
qed (simp add: handle_OnBuffersReleased_def)

text \<open>An acquired item is one of the queue, and names a slot.\<close>

lemma drop_loop_suffix: "drop_loop e q c = Inr (q', c') \<Longrightarrow> set q' \<subseteq> set q \<and> (q \<noteq> [] \<longrightarrow> q' \<noteq> [])"
proof (induction q arbitrary: c)
  case (Cons front q)
  show ?case
  proof (cases q)
    case (Cons x rest)
    with Cons.prems consider "q' = front # q" | c1 where "drop_loop e q c1 = Inr (q', c')"
      by (auto simp: bindF_eq_Inr split: if_splits)
    then show ?thesis
    proof cases
      case 2
      from Cons.IH [OF this] Cons show ?thesis by auto
    qed simp
  qed (use Cons.prems in simp)
qed simp

lemma AcquireBuffer_item_slot:
  assumes "bq_inv c" "AcquireBuffer e c = Inr (st, Some x, c')"
  shows "valid_slot (item_slot x)"
proof -
  obtain q c1 where q: "(if e \<noteq> 0 then drop_loop e (queue c) c else Inr (queue c, c)) = Inr (q, c1)" "queue c \<noteq> []"
    and x: "item_slot x = item_slot (hd q)"
    using assms(2) by (auto simp: AcquireBuffer_def Let_def bindF_eq_Inr split: if_splits)
  have "hd q \<in> set (queue c)" using q drop_loop_suffix [of e "queue c" c q c1] by (cases "e = 0"; cases q) auto
  then show ?thesis using assms(1) x by (auto simp: bq_inv_def queue_ok_def)
qed

lemma AcquireBufferLocked_returns:
  assumes "bq_inv c" "length (cb_slots b) = 64"
  shows "\<exists>st item b' c'. AcquireBufferLocked e b c = Inr (st, item, b', c') \<and> length (cb_slots b') = 64 \<and>
    (\<forall>x. item = Some x \<longrightarrow> valid_slot (item_slot x))"
proof -
  obtain st item c' where a: "AcquireBuffer e c = Inr (st, item, c')" using AcquireBuffer_returns [OF assms(1), of e] by auto
  show ?thesis
  proof (cases item)
    case (Some x)
    have "valid_slot (item_slot x)" by (rule AcquireBuffer_item_slot [OF assms(1) a [unfolded Some]])
    then show ?thesis using a Some assms(2) by (simp add: AcquireBufferLocked_def cslot_returns)
  qed (use a assms(2) in \<open>simp add: AcquireBufferLocked_def\<close>)
qed

lemma item_AcquireBuffer_returns:
  assumes "bq_inv c" "length (cb_slots b) = 64"
  shows "\<exists>r. item_AcquireBuffer False e wait b c = Inr r"
proof -
  obtain st item b' c' where a: "AcquireBufferLocked e b c = Inr (st, item, b', c')" "length (cb_slots b') = 64"
    "\<forall>x. item = Some x \<longrightarrow> valid_slot (item_slot x)" using AcquireBufferLocked_returns [OF assms, of e] by blast
  then show ?thesis by (cases item) (simp_all add: item_AcquireBuffer_def cslot_returns)
qed

text \<open>
  The only fault of the base of consumers: it dereferences the buffer it is given to compare it with the one of the slot,
  if the slot has one.
\<close>

definition null_compared :: "int \<Rightarrow> GraphicBuffer option \<Rightarrow> ConsumerBase \<Rightarrow> bool" where
  "null_compared slot buffer b \<longleftrightarrow> buffer = None \<and> valid_slot slot \<and> cs_graphic_buffer (cb_slots b ! nat slot) \<noteq> None"

lemma consumer_StillTracking_cases:
  assumes "length (cb_slots b) = 64"
  shows "null_compared slot buffer b \<Longrightarrow> consumer_StillTracking slot buffer b = Inl DanglingObject"
    and "\<not> null_compared slot buffer b \<Longrightarrow> \<exists>t. consumer_StillTracking slot buffer b = Inr t \<and> (t \<longrightarrow> valid_slot slot)"
  using assms by (auto simp: null_compared_def consumer_StillTracking_def cslot_returns split: option.split)

lemma AddReleaseFenceLocked_returns:
  assumes "length (cb_slots b) = 64" "\<not> null_compared slot buffer b"
  shows "\<exists>st b'. AddReleaseFenceLocked slot buffer fe b = Inr (st, b') \<and> length (cb_slots b') = 64 \<and>
    \<not> null_compared slot buffer b'"
proof -
  obtain t where t: "consumer_StillTracking slot buffer b = Inr t" "t \<longrightarrow> valid_slot slot"
    using consumer_StillTracking_cases(2) [OF assms] by blast
  then show ?thesis using assms
    by (cases t) (auto simp: AddReleaseFenceLocked_def cslot_returns null_compared_def valid_slot_def)
qed

lemma ReleaseBufferLocked_returns:
  assumes "bq_inv c" "length (cb_slots b) = 64" "\<not> null_compared slot buffer b"
  shows "\<exists>r. ReleaseBufferLocked slot buffer b c = Inr r"
proof -
  obtain t where t: "consumer_StillTracking slot buffer b = Inr t" "t \<longrightarrow> valid_slot slot"
    using consumer_StillTracking_cases(2) [OF assms(2,3)] by blast
  show ?thesis
  proof (cases t)
    case True
    obtain err ns c' where "ReleaseBuffer slot (cs_frame_number (cb_slots b ! nat slot)) c = Inr (err, ns, c')"
      using ReleaseBuffer_returns [OF assms(1), of slot] by (metis prod_cases3)
    with True t assms(2) show ?thesis
      by (cases "err = StaleBufferSlot") (simp_all add: ReleaseBufferLocked_def consumer_FreeBufferLocked_def cslot_returns)
  qed (use t in \<open>simp add: ReleaseBufferLocked_def\<close>)
qed

lemma item_ReleaseBuffer_returns:
  assumes "bq_inv c" "length (cb_slots b) = 64"
  shows "(\<exists>r. item_ReleaseBuffer x fe b c = Inr r) \<longleftrightarrow> \<not> null_compared (item_slot x) (item_graphic_buffer x) b"
proof (cases "null_compared (item_slot x) (item_graphic_buffer x) b")
  case True
  then show ?thesis
    using consumer_StillTracking_cases(1) [OF assms(2) True] by (simp add: item_ReleaseBuffer_def AddReleaseFenceLocked_def)
next
  case False
  obtain st b' where b': "AddReleaseFenceLocked (item_slot x) (item_graphic_buffer x) fe b = Inr (st, b')"
    "length (cb_slots b') = 64" "\<not> null_compared (item_slot x) (item_graphic_buffer x) b'"
    using AddReleaseFenceLocked_returns [OF assms(2) False] by blast
  obtain r where "ReleaseBufferLocked (item_slot x) (item_graphic_buffer x) b' c = Inr r"
    using ReleaseBufferLocked_returns [OF assms(1) b'(2,3)] by blast
  with b'(1) False show ?thesis by (cases r) (simp add: item_ReleaseBuffer_def)
qed

end
