(* ===== verification/Buffer_Restore.thy ===== *)
theory Buffer_Restore
  imports Buffer_Behaviour
begin

text \<open>
  Round trips of the buffer queue: a buffer that is queued, shown and released; the slots over a
  Quick Save and a Quick Load; the fences rewound and advanced; and the history that the game
  asks for.
\<close>

section \<open>A buffer that is shown comes back\<close>

lemma AcquireBuffer_tracked:
  assumes "bq_inv c" and "queue c = front # rest" and "tracks c front" and "num_acquired c = 0"
  shows "AcquireBuffer 0 c = Inr (NoError, Some (if item_acquire_called front then front\<lparr>item_graphic_buffer := None\<rparr> else front),
    SignalDequeueCondition (c\<lparr>queue := rest, slots := (slots c)[nat (item_slot front) := (slot_at c (item_slot front))
      \<lparr>acquire_called := True, needs_cleanup_on_release := False, buffer_state := Acquired\<rparr>]\<rparr>))"
proof -
  have v: "valid_slot (item_slot front)" using assms(1,2) by (simp add: bq_inv_def queue_ok_def)
  have q: "c\<lparr>queue := front # rest\<rparr> = c" by (simp flip: assms(2))
  show ?thesis
    using assms(2,4) StillTracking_inv [OF assms(1) v] assms(3) slot_upd_inv [OF assms(1) v]
    by (simp add: AcquireBuffer_def Let_def max_acquired_buffer_count_def q slots_queue_commute)
qed

lemma ReleaseBuffer_acquired:
  assumes "length (slots c) = 64" and "valid_slot slot" and "frame_number (slot_at c slot) = frame"
    and "\<forall>x \<in> set (queue c). item_slot x \<noteq> slot" and "buffer_state (slot_at c slot) = Acquired"
  shows "\<exists>ns. ReleaseBuffer slot frame c = Inr (NoError, ns,
    SignalDequeueCondition (c\<lparr>slots := (slots c)[nat slot := (slot_at c slot)\<lparr>buffer_state := Free\<rparr>]\<rparr>))"
  using assms by (auto simp: ReleaseBuffer_def slot_get_length slot_upd_returns)

text \<open>The state after a dequeued and requested buffer went into an empty queue.\<close>

lemma QueueBuffer_into_empty:
  assumes "bq_inv (core p)" and "\<not> is_abandoned (core p)" and "in_scaling_mode input \<in> {0, 1, 2, 3, 4}"
    and "GetMaxBufferCountLocked False (in_async input \<noteq> 0) (core p) = Inr m" and "0 \<le> slot" and "slot < m"
    and "buffer_state s = Dequeued" and "request_buffer_called s" and "graphic_buffer s \<noteq> None"
    and "queue (core p) = []" and "num_acquired (core p) = 0" and s: "s = slots (core p) ! nat slot"
  obtains out ns p' x where "QueueBuffer False hist now slot input p = Inr (NoError, Some out, ns, p')"
    and "slots (core p') = (slots (core p))[nat slot := queued_slot input now (frame_counter (core p) + 1) s]"
    and "queue (core p') = [x]" and "item_slot x = slot" and "item_frame_number x = frame_counter (core p) + 1"
    and "item_graphic_buffer x = graphic_buffer s" and "item_acquire_called x = acquire_called s"
    and "tracks (core p') x" and "num_acquired (core p') = 0" and "nat slot < 64"
proof -
  have v: "valid_slot slot" using GetMax_bound [OF assms(1,4)] assms(5,6) by (simp add: valid_slot_def)
  have l: "length (slots (core p)) = 64" and n: "nat slot < 64" using assms(1) v by (auto simp: bq_inv_def valid_slot_def)
  have at: "slot_at (core p) slot = s" by (simp add: s slot_at_def)
  let ?frame = "frame_counter (core p) + 1"
  define x where "x = make_item input slot ?frame (dequeue_buffer_cannot_block (core p) \<or> in_async input \<noteq> 0) s"
  obtain c1 where ql: "queue_locked hist now slot input s (core p) = Inr (x, True, c1)"
    and c1: "slots c1 = (slots (core p))[nat slot := queued_slot input now ?frame s]" "queue c1 = [x]"
    using queue_locked_append [OF assms(1) v, of hist now input s] assms(10) at by (auto simp: x_def)
  have sg: "slot_get (core p) slot = Inr s" using slot_get_inv [OF assms(1) v] at by simp
  obtain out ns p' where q: "QueueBuffer False hist now slot input p = Inr (NoError, Some out, ns, p')" "core p' = c1"
    using assms(2-8) ql sg by (simp add: QueueBuffer_def Let_def)
  have tr: "tracks c1 x" using assms(9) l n
    by (simp add: tracks_def has_buffer_def x_def make_item_def slot_at_def c1(1) queued_slot_def same_buffer_def)
  have na: "num_acquired c1 = 0"
    using num_acquired_update [of "nat slot" "core p" "queued_slot input now ?frame s"] l n assms(7,11)
    by (simp add: c1(1) num_acquired_def s queued_slot_def)
  show ?thesis
    by (rule that [OF q(1)]) (use q(2) c1 tr na n in \<open>simp_all add: x_def make_item_def\<close>)
qed

text \<open>
  A dequeued and requested buffer that is queued into an empty queue is what the display
  acquires next: the item names the slot and the new frame number, and carries the buffer unless
  the display has seen it in this slot before. Releasing it with that frame number gives the slot
  back: it is free, still has its buffer, no other slot has changed and the queue is empty again.
\<close>

theorem queue_acquire_release:
  assumes "bq_reachable (core p)" and "\<not> is_abandoned (core p)" and "in_scaling_mode input \<in> {0, 1, 2, 3, 4}"
    and "GetMaxBufferCountLocked False (in_async input \<noteq> 0) (core p) = Inr m" and "0 \<le> slot" and "slot < m"
    and "buffer_state (slots (core p) ! nat slot) = Dequeued" and "request_buffer_called (slots (core p) ! nat slot)"
    and "graphic_buffer (slots (core p) ! nat slot) \<noteq> None" and "queue (core p) = []" and "num_acquired (core p) = 0"
  shows "\<exists>out ns p' item c2 ns' c3.
    QueueBuffer False hist now slot input p = Inr (NoError, Some out, ns, p') \<and>
    AcquireBuffer 0 (core p') = Inr (NoError, Some item, c2) \<and>
    ReleaseBuffer slot (item_frame_number item) c2 = Inr (NoError, ns', c3) \<and>
    item_slot item = slot \<and> item_frame_number item = frame_counter (core p) + 1 \<and>
    item_graphic_buffer item = (if acquire_called (slots (core p) ! nat slot) then None
      else graphic_buffer (slots (core p) ! nat slot)) \<and>
    queue c3 = [] \<and> buffer_state (slots c3 ! nat slot) = Free \<and>
    graphic_buffer (slots c3 ! nat slot) = graphic_buffer (slots (core p) ! nat slot) \<and>
    (\<forall>j < 64. j \<noteq> nat slot \<longrightarrow> slots c3 ! j = slots (core p) ! j)"
proof -
  define frame s where "frame = frame_counter (core p) + 1" and "s = slots (core p) ! nat slot"
  have i: "bq_inv (core p)" by (rule bq_reachable_inv [OF assms(1)])
  obtain out ns p' x where q: "QueueBuffer False hist now slot input p = Inr (NoError, Some out, ns, p')"
    and sl: "slots (core p') = (slots (core p))[nat slot := queued_slot input now frame s]"
    and x: "queue (core p') = [x]" "item_slot x = slot" "item_frame_number x = frame"
      "item_graphic_buffer x = graphic_buffer s" "item_acquire_called x = acquire_called s"
    and tr: "tracks (core p') x" "num_acquired (core p') = 0" and n: "nat slot < 64"
    using QueueBuffer_into_empty [OF i assms(2-11) refl, of hist now] unfolding frame_def s_def by blast
  have l: "length (slots (core p)) = 64" and v: "valid_slot slot" using i n assms(5) by (auto simp: bq_inv_def valid_slot_def)
  define c2 where "c2 = SignalDequeueCondition (core p'\<lparr>queue := [], slots := (slots (core p'))[nat slot :=
    (slot_at (core p') slot)\<lparr>acquire_called := True, needs_cleanup_on_release := False, buffer_state := Acquired\<rparr>]\<rparr>)"
  have a: "AcquireBuffer 0 (core p') = Inr (NoError, Some (if acquire_called s then x\<lparr>item_graphic_buffer := None\<rparr> else x), c2)"
    using AcquireBuffer_tracked [OF inv_QueueBuffer [OF i q] x(1) tr] by (simp only: x c2_def)
  have s2: "slots c2 = (slots (core p))[nat slot := (queued_slot input now frame s)
      \<lparr>acquire_called := True, needs_cleanup_on_release := False, buffer_state := Acquired\<rparr>]" and q2: "queue c2 = []"
    using l n by (simp_all add: c2_def SignalDequeueCondition_def slot_at_def sl)
  obtain ns' where r: "ReleaseBuffer slot frame c2 = Inr (NoError, ns',
      SignalDequeueCondition (c2\<lparr>slots := (slots c2)[nat slot := (slot_at c2 slot)\<lparr>buffer_state := Free\<rparr>]\<rparr>))"
    using ReleaseBuffer_acquired [OF _ v, of c2 frame] l n by (auto simp: s2 q2 slot_at_def queued_slot_def)
  define c3 where "c3 = SignalDequeueCondition (c2\<lparr>slots := (slots c2)[nat slot := (slot_at c2 slot)\<lparr>buffer_state := Free\<rparr>]\<rparr>)"
  have c3: "queue c3 = []" "buffer_state (slots c3 ! nat slot) = Free" "graphic_buffer (slots c3 ! nat slot) = graphic_buffer s"
    "\<forall>j < 64. j \<noteq> nat slot \<longrightarrow> slots c3 ! j = slots (core p) ! j"
    using l n by (simp_all add: c3_def SignalDequeueCondition_def q2 s2 slot_at_def queued_slot_def)
  show ?thesis
    unfolding frame_def [symmetric] s_def [symmetric]
    by (intro exI conjI; (rule q | rule a)?) (use r c3 x in \<open>simp_all add: c3_def [symmetric] if_distrib\<close>)
qed

theorem queue_acquire_release_witness:
  "\<exists>p out ns p' item c2 ns' c3. demo_dequeued = Inr p \<and>
    QueueBuffer False True 9 0 demo_input p = Inr (NoError, Some out, ns, p') \<and>
    AcquireBuffer 0 (core p') = Inr (NoError, Some item, c2) \<and>
    ReleaseBuffer 0 (item_frame_number item) c2 = Inr (NoError, ns', c3) \<and> buffer_state (slots c3 ! 0) = Free"
proof -
  have "(case demo_dequeued of Inl _ \<Rightarrow> False | Inr p \<Rightarrow> \<not> is_abandoned (core p) \<and>
      GetMaxBufferCountLocked False False (core p) = Inr 1 \<and> buffer_state (slots (core p) ! 0) = Dequeued \<and>
      request_buffer_called (slots (core p) ! 0) \<and> graphic_buffer (slots (core p) ! 0) \<noteq> None \<and>
      queue (core p) = [] \<and> num_acquired (core p) = 0)"
    by code_simp
  then obtain p where p: "demo_dequeued = Inr p" "\<not> is_abandoned (core p)"
      "GetMaxBufferCountLocked False False (core p) = Inr 1" "buffer_state (slots (core p) ! 0) = Dequeued"
      "request_buffer_called (slots (core p) ! 0)" "graphic_buffer (slots (core p) ! 0) \<noteq> None"
      "queue (core p) = []" "num_acquired (core p) = 0"
    by (auto split: sum.splits)
  have i: "in_scaling_mode demo_input \<in> {0, 1, 2, 3, 4}" "(in_async demo_input \<noteq> 0) = False"
    by (simp_all add: demo_input_def)
  show ?thesis
    using queue_acquire_release [OF demo_dequeued_reachable [OF p(1)] p(2) i(1), of 1 0 True 9] p i(2)
    by simp blast
qed

section \<open>The slots over a Quick Load\<close>

text \<open>What restoring does to one slot.\<close>

definition restored_slot :: "bool \<Rightarrow> bool \<Rightarrow> BufferSlot \<Rightarrow> BufferSlot" where
  "restored_slot d r s =
    (if buffer_state s = Dequeued \<and> \<not> d then s\<lparr>buffer_state := Free, frame_number := 0\<rparr>
     else if buffer_state s \<noteq> Dequeued \<and> d \<and> graphic_buffer s \<noteq> None then
       (let s' = s\<lparr>buffer_state := Dequeued, request_buffer_called := r, fence := NoFence\<rparr> in
        if buffer_state s = Acquired then s'\<lparr>needs_cleanup_on_release := True, acquire_called := False\<rparr> else s')
     else s)"

lemma restore_slot_slots:
  assumes "length (slots c) = 64" and "n < 64" and "restore_slot d r n (freed, c) = Inr (freed', c')"
  shows "slots c' = (slots c)[n := restored_slot d r (slots c ! n)]"
proof -
  have v: "valid_slot (int n)" using assms(2) by (simp add: valid_slot_def)
  show ?thesis
    using assms by (cases "buffer_state (slots c ! n)")
      (auto simp: restore_slot_def Let_def restored_slot_def slot_at_def slot_get_length [OF _ v] slot_upd_returns [OF _ v]
        split: if_splits)
qed

lemma restore_loop_slots:
  "length (slots c) = 64 \<Longrightarrow> n + length ds \<le> 64 \<Longrightarrow> length rs = length ds \<Longrightarrow>
    restore_loop ds rs n (freed, c) = Inr (freed', c') \<Longrightarrow> length (slots c') = 64 \<and>
    (\<forall>k < 64. slots c' ! k = (if n \<le> k \<and> k < n + length ds
      then restored_slot (ds ! (k - n)) (rs ! (k - n)) (slots c ! k) else slots c ! k))"
proof (induction ds rs n "(freed, c)" arbitrary: freed c rule: restore_loop.induct)
  case (1 d ds r rs n)
  then obtain f1 c1 where s: "restore_slot d r n (freed, c) = Inr (f1, c1)"
    "restore_loop ds rs (n + 1) (f1, c1) = Inr (freed', c')"
    by (auto simp: bindF_eq_Inr)
  have c1: "slots c1 = (slots c)[n := restored_slot d r (slots c ! n)]"
    using restore_slot_slots [OF _ _ s(1)] "1.prems" by simp
  have IH: "length (slots c') = 64 \<and> (\<forall>k < 64. slots c' ! k = (if n + 1 \<le> k \<and> k < n + 1 + length ds
      then restored_slot (ds ! (k - (n + 1))) (rs ! (k - (n + 1))) (slots c1 ! k) else slots c1 ! k))"
    using "1.hyps" [OF s(1)] s(2) "1.prems" by (simp add: c1)
  then show ?case
    using "1.prems" by (auto simp: c1 nth_Cons' nth_list_update)
qed auto

text \<open>
  A Quick Load gives the producer the slots it held at the Quick Save: restoring the slots
  saved from one reachable state into another always returns; each slot that has a buffer, or that
  the save does not want back, is dequeued afterwards exactly when it was dequeued at the save; a
  slot taken back has the saved request flag and its own buffer; and the queue's invariant holds, so
  no item of the queue tracks a slot that was taken back. The comment on \<^verbatim>\<open>RestoreProducerSlots\<close> speaks of the
  slots that are free now; the code, and this statement, take back queued and acquired ones too.
\<close>

theorem restore_gives_back:
  assumes "bq_reachable c0" and "bq_reachable c" and "SnapshotProducerSlots [(q, c0)] = [entry]"
  shows "\<exists>c'. restore_core entry c = Inr c' \<and> bq_inv c' \<and>
    (\<forall>n < 64. (buffer_state (slots c0 ! n) = Dequeued \<longrightarrow> graphic_buffer (slots c ! n) \<noteq> None) \<longrightarrow>
      (buffer_state (slots c' ! n) = Dequeued \<longleftrightarrow> buffer_state (slots c0 ! n) = Dequeued) \<and>
      graphic_buffer (slots c' ! n) = graphic_buffer (slots c ! n) \<and>
      (buffer_state (slots c ! n) \<noteq> Dequeued \<and> buffer_state (slots c0 ! n) = Dequeued \<longrightarrow>
        request_buffer_called (slots c' ! n) = request_buffer_called (slots c0 ! n) \<and>
        (\<forall>x \<in> set (queue c'). item_slot x = int n \<longrightarrow> \<not> tracks c' x)))"
proof -
  have i: "bq_inv c" and l: "length (slots c) = 64" "length (slots c0) = 64"
    using bq_reachable_inv [OF assms(2)] bq_reachable_inv [OF assms(1)] by (simp_all add: bq_inv_def)
  have e: "ps_dequeued entry = map (\<lambda>s. buffer_state s = Dequeued) (slots c0)"
    "ps_requested entry = map request_buffer_called (slots c0)"
    using assms(3) by (auto simp: SnapshotProducerSlots_def)
  obtain c' where c': "restore_core entry c = Inr c'" using restore_core_returns [OF i, of entry] e l by auto
  then obtain f c1 where r: "restore_loop (ps_dequeued entry) (ps_requested entry) 0 (False, c) = Inr (f, c1)"
    and "slots c' = slots c1"
    by (auto simp: restore_core_def bindF_eq_Inr SignalDequeueCondition_def split: if_splits)
  then have sl: "slots c' ! n = restored_slot (buffer_state (slots c0 ! n) = Dequeued)
      (request_buffer_called (slots c0 ! n)) (slots c ! n)" if "n < 64" for n
    using restore_loop_slots [OF l(1) _ _ r] that l(2) by (simp add: e)
  have i': "bq_inv c'" by (rule inv_restore_core [OF i c'])
  have "\<not> tracks c' x" if "x \<in> set (queue c')" "item_slot x = int n" "buffer_state (slots c' ! n) = Dequeued" for x n
    using i' that by (auto simp: bq_inv_def queue_ok_def slot_at_def)
  then show ?thesis using c' i' sl
    by (intro exI [of _ c'] conjI allI impI) (auto simp: restored_slot_def Let_def split: if_splits)
qed

theorem restore_gives_back_witness:
  "\<exists>c0 c entry c'. SnapshotProducerSlots [(0, c0)] = [entry] \<and> buffer_state (slots c0 ! 0) = Dequeued \<and>
    map item_slot (queue c) = [0] \<and> restore_core entry c = Inr c' \<and> bq_inv c'"
proof -
  obtain p0 where p0: "demo_dequeued = Inr p0" "buffer_state (slots (core p0) ! 0) = Dequeued" by (rule demo_dequeued_value)
  obtain p where p: "demo_queued = Inr p" "map item_slot (queue (core p)) = [0]" by (rule demo_queued_value)
  obtain entry where e: "SnapshotProducerSlots [(0, core p0)] = [entry]" by (simp add: SnapshotProducerSlots_def)
  obtain c' where "restore_core entry (core p) = Inr c'" "bq_inv c'"
    using restore_gives_back [OF demo_dequeued_reachable [OF p0(1)] demo_queued_reachable [OF p(1)] e] by blast
  then show ?thesis using e p0(2) p(2) by (intro exI conjI)
qed

lemma restore_slot_same:
  assumes "n < length (slots c)"
  shows "restore_slot (buffer_state (slots c ! n) = Dequeued) r n (freed, c) = Inr (freed, c)"
  using assms by (simp add: restore_slot_def slot_get_def Let_def)

lemma restore_loop_same:
  assumes "n \<le> length (slots c)"
  shows "restore_loop (map (\<lambda>s. buffer_state s = Dequeued) (drop n (slots c))) (map request_buffer_called (drop n (slots c))) n
    (freed, c) = Inr (freed, c)"
  using assms
proof (induction "length (slots c) - n" arbitrary: n)
  case (Suc k)
  then have "drop n (slots c) = slots c ! n # drop (n + 1) (slots c)" by (simp add: Cons_nth_drop_Suc)
  then show ?case using Suc restore_slot_same [of n c] by simp
qed simp

lemma restore_core_same: "restore_core \<lparr>ps_core = q, ps_dequeued = map (\<lambda>s. buffer_state s = Dequeued) (slots c),
    ps_requested = map request_buffer_called (slots c)\<rparr> c = Inr c"
  using restore_loop_same [of 0 c False] by (simp add: restore_core_def)

lemma update_core_same: "(q, c) \<in> set qs \<Longrightarrow> distinct (map fst qs) \<Longrightarrow> f c = Inr c \<Longrightarrow> update_core q f qs = Inr qs"
  by (induction q f qs rule: update_core.induct) (auto simp: image_iff)

lemma RestoreProducerSlots_same:
  assumes "distinct (map fst qs)" and "set es \<subseteq> set qs"
  shows "RestoreProducerSlots (SnapshotProducerSlots es) qs = Inr qs"
  using assms(2)
proof (induction es)
  case (Cons e es)
  obtain q c where e: "e = (q, c)" by (cases e)
  have "update_core q (restore_core \<lparr>ps_core = q, ps_dequeued = map (\<lambda>s. buffer_state s = Dequeued) (slots c),
      ps_requested = map request_buffer_called (slots c)\<rparr>) qs = Inr qs"
    by (rule update_core_same [OF _ assms(1) restore_core_same]) (use Cons.prems e in simp)
  then show ?case using Cons by (simp add: SnapshotProducerSlots_def e)
qed (simp add: SnapshotProducerSlots_def)

section \<open>Rewinding fences\<close>

lemma rewind_back: "rewind fid (- delta) (snd (rewind fid delta fe)) = (fst (rewind fid delta fe), fe)"
proof -
  have e: "snd (rewind_entry fid (- delta) n f (snd (rewind_entry fid delta n f e))) = e"
    "fst (rewind_entry fid (- delta) n f (snd (rewind_entry fid delta n f e))) = fst (rewind_entry fid delta n f e)" for n f e
    by (simp_all add: rewind_entry_def prod_eq_iff)
  have en: "enumerate 0 (map (\<lambda>x. snd (rewind_entry fid delta n (fst x) (snd x))) (enumerate 0 xs)) =
      map (\<lambda>x. (fst x, snd (rewind_entry fid delta n (fst x) (snd x)))) (enumerate 0 xs)" for n and xs :: "(int \<times> u32) list"
    by (rule nth_equalityI) (simp_all add: nth_enumerate_eq)
  have m: "map (\<lambda>x. snd x) (enumerate 0 xs) = xs" for xs :: "(int \<times> u32) list"
    using map_snd_enumerate [of 0 xs] by (simp add: comp_def)
  show ?thesis
    unfolding rewind_def Let_def by (simp add: comp_def split_beta en e m)
qed

lemma rewind_core_back:
  "rewind_core fid (- delta) (snd (rewind_core fid delta c)) = (fst (rewind_core fid delta c), c)"
  by (simp add: rewind_core_def comp_def rewind_back)

text \<open>
  Restoring the slots right after they were saved changes nothing on any of the live queues,
  and rewinding every fence of a sync point and then advancing them by the same amount gives all
  queues back as they were, with the same number of fences touched both times.
\<close>

theorem quick_load_round_trip:
  assumes "distinct (map fst qs)"
  shows "RestoreProducerSlots (SnapshotProducerSlots qs) qs = Inr qs \<and>
    RewindFencesForRestore fid (- delta) (snd (RewindFencesForRestore fid delta qs)) =
      (fst (RewindFencesForRestore fid delta qs), qs)"
  using RestoreProducerSlots_same [OF assms, of qs]
  by (simp add: RewindFencesForRestore_def comp_def case_prod_unfold rewind_core_back)

theorem quick_load_round_trip_witness:
  "\<exists>p0 p. demo_dequeued = Inr p0 \<and> demo_queued = Inr p \<and>
    RestoreProducerSlots (SnapshotProducerSlots [(1, core p0), (2, core p)]) [(1, core p0), (2, core p)] =
      Inr [(1, core p0), (2, core p)]"
proof -
  obtain p0 where p0: "demo_dequeued = Inr p0" by (rule demo_dequeued_value)
  obtain p where p: "demo_queued = Inr p" by (rule demo_queued_value)
  have "RestoreProducerSlots (SnapshotProducerSlots [(1, core p0), (2, core p)]) [(1, core p0), (2, core p)] =
      Inr [(1, core p0), (2, core p)]"
    by (rule conjunct1 [OF quick_load_round_trip]) simp
  with p0 p show ?thesis by (intro exI conjI)
qed

section \<open>The history\<close>

text \<open>
  In a reachable state a request for the history gets the newest frames first: at most as many
  as it asks for and at most eight, in strictly decreasing order of their numbers, each with the
  entry recorded for it, and no recorded frame that was left out is newer than one in the reply.
\<close>

theorem history_newest_first:
  assumes "bq_reachable c" and "0 < request"
  shows "\<exists>hs. GetBufferHistory request c = (NoError, hs) \<and> length hs \<le> 8 \<and> int (length hs) \<le> request \<and>
    sorted_wrt (\<lambda>a b. hist_frame_number b < hist_frame_number a) hs \<and>
    (\<forall>h \<in> set hs. buffer_history_map c (hist_frame_number h) = Some h) \<and>
    (\<forall>f \<in> dom (buffer_history_map c). f \<notin> hist_frame_number ` set hs \<longrightarrow>
      int (length hs) = request \<and> (\<forall>h \<in> set hs. f < hist_frame_number h))"
proof -
  define fs where "fs = rev (sort (buffer_history_order c))"
  define n where "n = nat request"
  have h: "length (buffer_history_order c) \<le> 8" "distinct (buffer_history_order c)"
    "dom (buffer_history_map c) = set (buffer_history_order c)"
    "\<And>f info. buffer_history_map c f = Some info \<Longrightarrow> hist_frame_number info = f"
    using bq_reachable_inv [OF assms(1)] by (auto simp: bq_inv_def history_ok_def BUFFER_HISTORY_SIZE_def)
  have all: "filter (\<lambda>f. buffer_history_map c f \<noteq> None) (buffer_history_order c) = buffer_history_order c"
    using h(3) by (intro filter_True) auto
  have fs: "set fs = dom (buffer_history_map c)" "sorted_wrt (\<lambda>a b. b < a) fs" "length fs \<le> 8"
    using h by (auto simp: fs_def sorted_wrt_rev strict_sorted_iff)
  define hs where "hs = map (\<lambda>f. the (buffer_history_map c f)) (take n fs)"
  have eq: "GetBufferHistory request c = (NoError, hs)"
    using assms(2) all by (simp add: GetBufferHistory_def fs_def n_def take_map hs_def)
  have nm: "hist_frame_number (the (buffer_history_map c f)) = f" if "f \<in> set fs" for f
    using that fs(1) h(4) by auto
  have tk: "set (take n fs) \<subseteq> set fs" by (rule set_take_subset)
  have cut: "n < length fs \<and> (\<forall>g \<in> set (take n fs). f < g)" if "f \<in> set fs" "f \<notin> set (take n fs)" for f
  proof -
    have "f \<in> set (drop n fs)" using that by (metis Un_iff append_take_drop_id set_append)
    moreover have "sorted_wrt (\<lambda>a b. b < a) (take n fs @ drop n fs)" using fs(2) by simp
    ultimately show ?thesis unfolding sorted_wrt_append by (cases "n < length fs") auto
  qed
  have im: "hist_frame_number ` set hs = set (take n fs)"
    using nm tk by (force simp: image_image hs_def)
  have "sorted_wrt (\<lambda>a b. hist_frame_number b < hist_frame_number a) hs"
    using sorted_wrt_take [OF fs(2), of n] nm [OF subsetD [OF tk]] by (auto simp: hs_def sorted_wrt_map elim!: sorted_wrt_mono_rel [rotated])
  moreover have "\<forall>h \<in> set hs. buffer_history_map c (hist_frame_number h) = Some h"
    using nm tk fs(1) unfolding hs_def by fastforce
  moreover have "\<forall>f \<in> dom (buffer_history_map c). f \<notin> set (take n fs) \<longrightarrow> n < length fs \<and>
      (\<forall>h \<in> set hs. f < hist_frame_number h)"
    using cut nm [OF subsetD [OF tk]] by (simp add: fs(1) [symmetric] hs_def)
  moreover have "length hs \<le> 8" "length hs = min (length fs) n" using fs(3) by (simp_all add: hs_def)
  ultimately show ?thesis
    using eq im assms(2) n_def by (intro exI [of _ hs] conjI) auto
qed

theorem history_newest_first_witness:
  "\<exists>p hs. demo_queued = Inr p \<and> GetBufferHistory 5 (core p) = (NoError, hs) \<and> length hs \<le> 8 \<and>
    dom (buffer_history_map (core p)) \<noteq> {}"
proof -
  have "(case demo_queued of Inl _ \<Rightarrow> False | Inr p \<Rightarrow> buffer_history_map (core p) 1 \<noteq> None)" by code_simp
  then obtain p where p: "demo_queued = Inr p" "buffer_history_map (core p) 1 \<noteq> None" by (auto split: sum.splits)
  obtain hs where h: "GetBufferHistory 5 (core p) = (NoError, hs)" "length hs \<le> 8"
    using history_newest_first [OF demo_queued_reachable [OF p(1)], of 5] by auto
  have "dom (buffer_history_map (core p)) \<noteq> {}" using p(2) by auto
  with p(1) h show ?thesis by (intro exI conjI)
qed

end
