(* ===== verification/Memory_Block.thy ===== *)
theory Memory_Block
  imports Lemon_Prelude
begin

text \<open>
  The blocks in which the kernel describes an address space (\<^verbatim>\<open>core/hle/kernel/k_memory_block.h\<close>): runs of
  pages with a state, permissions, attributes, and the counts of the locks held on them. States,
  permissions and attributes are bit masks at their width. A failed \<^verbatim>\<open>ASSERT\<close> logs and goes on, or
  aborts when debug assertions are on; the operations that have one take that setting.
\<close>

section \<open>States, permissions, attributes\<close>

type_synonym KMemoryState = u32
type_synonym KMemoryPermission = u8
type_synonym KMemoryAttribute = u8
type_synonym KMemoryBlockDisableMergeAttribute = u8

definition FlagCanReprotect :: KMemoryState where
  "FlagCanReprotect = push_bit 8 1"

definition FlagCanDebug :: KMemoryState where
  "FlagCanDebug = push_bit 9 1"

definition FlagCanUseIpc :: KMemoryState where
  "FlagCanUseIpc = push_bit 10 1"

definition FlagCanUseNonDeviceIpc :: KMemoryState where
  "FlagCanUseNonDeviceIpc = push_bit 11 1"

definition FlagCanUseNonSecureIpc :: KMemoryState where
  "FlagCanUseNonSecureIpc = push_bit 12 1"

definition FlagMapped :: KMemoryState where
  "FlagMapped = push_bit 13 1"

definition FlagCode :: KMemoryState where
  "FlagCode = push_bit 14 1"

definition FlagCanAlias :: KMemoryState where
  "FlagCanAlias = push_bit 15 1"

definition FlagCanCodeAlias :: KMemoryState where
  "FlagCanCodeAlias = push_bit 16 1"

definition FlagCanTransfer :: KMemoryState where
  "FlagCanTransfer = push_bit 17 1"

definition FlagCanQueryPhysical :: KMemoryState where
  "FlagCanQueryPhysical = push_bit 18 1"

definition FlagCanDeviceMap :: KMemoryState where
  "FlagCanDeviceMap = push_bit 19 1"

definition FlagCanAlignedDeviceMap :: KMemoryState where
  "FlagCanAlignedDeviceMap = push_bit 20 1"

definition FlagCanIpcUserBuffer :: KMemoryState where
  "FlagCanIpcUserBuffer = push_bit 21 1"

definition FlagReferenceCounted :: KMemoryState where
  "FlagReferenceCounted = push_bit 22 1"

definition FlagCanMapProcess :: KMemoryState where
  "FlagCanMapProcess = push_bit 23 1"

definition FlagCanChangeAttribute :: KMemoryState where
  "FlagCanChangeAttribute = push_bit 24 1"

definition FlagCanCodeMemory :: KMemoryState where
  "FlagCanCodeMemory = push_bit 25 1"

definition FlagLinearMapped :: KMemoryState where
  "FlagLinearMapped = push_bit 26 1"

definition FlagCanPermissionLock :: KMemoryState where
  "FlagCanPermissionLock = push_bit 27 1"

definition FlagsData :: KMemoryState where
  "FlagsData = FlagCanReprotect OR FlagCanUseIpc OR FlagCanUseNonDeviceIpc OR FlagCanUseNonSecureIpc OR
    FlagMapped OR FlagCanAlias OR FlagCanTransfer OR FlagCanQueryPhysical OR FlagCanDeviceMap OR
    FlagCanAlignedDeviceMap OR FlagCanIpcUserBuffer OR FlagReferenceCounted OR FlagCanChangeAttribute OR
    FlagLinearMapped"

definition FlagsCode :: KMemoryState where
  "FlagsCode = FlagCanDebug OR FlagCanUseIpc OR FlagCanUseNonDeviceIpc OR FlagCanUseNonSecureIpc OR
    FlagMapped OR FlagCode OR FlagCanQueryPhysical OR FlagCanDeviceMap OR FlagCanAlignedDeviceMap OR
    FlagReferenceCounted OR FlagLinearMapped"

definition FlagsMisc :: KMemoryState where
  "FlagsMisc = FlagMapped OR FlagReferenceCounted OR FlagCanQueryPhysical OR FlagCanDeviceMap OR
    FlagLinearMapped"

definition MS_Free :: KMemoryState where
  "MS_Free = 0x0"

definition MS_IoMemory :: KMemoryState where
  "MS_IoMemory = 0x1 OR FlagMapped OR FlagCanDeviceMap OR FlagCanAlignedDeviceMap"

definition MS_IoRegister :: KMemoryState where
  "MS_IoRegister = 0x1 OR FlagCanDeviceMap OR FlagCanAlignedDeviceMap"

definition MS_Static :: KMemoryState where
  "MS_Static = 0x2 OR FlagMapped OR FlagCanQueryPhysical"

definition MS_Code :: KMemoryState where
  "MS_Code = 0x3 OR FlagsCode OR FlagCanMapProcess"

definition MS_CodeData :: KMemoryState where
  "MS_CodeData = 0x4 OR FlagsData OR FlagCanMapProcess OR FlagCanCodeMemory OR FlagCanPermissionLock"

definition MS_Normal :: KMemoryState where
  "MS_Normal = 0x5 OR FlagsData OR FlagCanCodeMemory"

definition MS_Shared :: KMemoryState where
  "MS_Shared = 0x6 OR FlagMapped OR FlagReferenceCounted OR FlagLinearMapped"

definition MS_AliasCode :: KMemoryState where
  "MS_AliasCode = 0x8 OR FlagsCode OR FlagCanMapProcess OR FlagCanCodeAlias"

definition MS_AliasCodeData :: KMemoryState where
  "MS_AliasCodeData = 0x9 OR FlagsData OR FlagCanMapProcess OR FlagCanCodeAlias OR FlagCanCodeMemory OR
    FlagCanPermissionLock"

definition MS_Ipc :: KMemoryState where
  "MS_Ipc = 0xA OR FlagsMisc OR FlagCanAlignedDeviceMap OR FlagCanUseIpc OR FlagCanUseNonSecureIpc OR
    FlagCanUseNonDeviceIpc"

definition MS_Stack :: KMemoryState where
  "MS_Stack = 0xB OR FlagsMisc OR FlagCanAlignedDeviceMap OR FlagCanUseIpc OR FlagCanUseNonSecureIpc OR
    FlagCanUseNonDeviceIpc"

definition MS_ThreadLocal :: KMemoryState where
  "MS_ThreadLocal = 0xC OR FlagLinearMapped"

definition MS_Transferred :: KMemoryState where
  "MS_Transferred = 0xD OR FlagsMisc OR FlagCanAlignedDeviceMap OR FlagCanChangeAttribute OR FlagCanUseIpc OR
    FlagCanUseNonSecureIpc OR FlagCanUseNonDeviceIpc"

definition MS_SharedTransferred :: KMemoryState where
  "MS_SharedTransferred = 0xE OR FlagsMisc OR FlagCanAlignedDeviceMap OR FlagCanUseNonSecureIpc OR
    FlagCanUseNonDeviceIpc"

definition MS_SharedCode :: KMemoryState where
  "MS_SharedCode = 0xF OR FlagMapped OR FlagReferenceCounted OR FlagLinearMapped OR FlagCanUseNonSecureIpc OR
    FlagCanUseNonDeviceIpc"

definition MS_Inaccessible :: KMemoryState where
  "MS_Inaccessible = 0x10"

definition MS_NonSecureIpc :: KMemoryState where
  "MS_NonSecureIpc = 0x11 OR FlagsMisc OR FlagCanAlignedDeviceMap OR FlagCanUseNonSecureIpc OR
    FlagCanUseNonDeviceIpc"

definition MS_NonDeviceIpc :: KMemoryState where
  "MS_NonDeviceIpc = 0x12 OR FlagsMisc OR FlagCanUseNonDeviceIpc"

definition MS_Kernel :: KMemoryState where
  "MS_Kernel = 0x13"

definition MS_GeneratedCode :: KMemoryState where
  "MS_GeneratedCode = 0x14 OR FlagMapped OR FlagReferenceCounted OR FlagCanDebug OR FlagLinearMapped"

definition MS_CodeOut :: KMemoryState where
  "MS_CodeOut = 0x15 OR FlagMapped OR FlagReferenceCounted OR FlagLinearMapped"

definition MS_Coverage :: KMemoryState where
  "MS_Coverage = 0x16 OR FlagMapped"

definition MS_Insecure :: KMemoryState where
  "MS_Insecure = 0x17 OR FlagMapped OR FlagReferenceCounted OR FlagLinearMapped OR FlagCanChangeAttribute OR
    FlagCanDeviceMap OR FlagCanAlignedDeviceMap OR FlagCanQueryPhysical OR FlagCanUseNonSecureIpc OR
    FlagCanUseNonDeviceIpc"


section \<open>Permissions and attributes\<close>

definition Svc_Read :: u32 where "Svc_Read = push_bit 0 1"

definition Svc_Write :: u32 where "Svc_Write = push_bit 1 1"

definition Svc_Execute :: u32 where "Svc_Execute = push_bit 2 1"

definition KernelShift :: nat where "KernelShift = 3"

definition KernelRead :: KMemoryPermission where "KernelRead = push_bit KernelShift (ucast Svc_Read)"

definition KernelWrite :: KMemoryPermission where "KernelWrite = push_bit KernelShift (ucast Svc_Write)"

definition KernelExecute :: KMemoryPermission where "KernelExecute = push_bit KernelShift (ucast Svc_Execute)"

definition NotMapped :: KMemoryPermission where "NotMapped = push_bit (2 * KernelShift) 1"

definition KernelReadWrite :: KMemoryPermission where "KernelReadWrite = KernelRead OR KernelWrite"

definition KernelReadExecute :: KMemoryPermission where "KernelReadExecute = KernelRead OR KernelExecute"

definition UserRead :: KMemoryPermission where "UserRead = ucast Svc_Read OR KernelRead"

definition UserWrite :: KMemoryPermission where "UserWrite = ucast Svc_Write OR KernelWrite"

definition UserExecute :: KMemoryPermission where "UserExecute = ucast Svc_Execute"

definition UserReadWrite :: KMemoryPermission where "UserReadWrite = UserRead OR UserWrite"

definition UserReadExecute :: KMemoryPermission where "UserReadExecute = UserRead OR UserExecute"

definition Perm_UserMask :: KMemoryPermission where "Perm_UserMask = ucast (Svc_Read OR Svc_Write OR Svc_Execute)"

definition IpcLockChangeMask :: KMemoryPermission where "IpcLockChangeMask = NotMapped OR UserReadWrite"

definition ConvertToKMemoryPermission :: "u32 \<Rightarrow> KMemoryPermission" where
  "ConvertToKMemoryPermission perm =
    (ucast perm AND Perm_UserMask) OR KernelRead OR push_bit KernelShift (ucast perm AND UserWrite) OR
    (if perm = 0 then NotMapped else 0)"

definition Attr_Locked :: KMemoryAttribute where "Attr_Locked = push_bit 0 1"

definition Attr_IpcLocked :: KMemoryAttribute where "Attr_IpcLocked = push_bit 1 1"

definition Attr_DeviceShared :: KMemoryAttribute where "Attr_DeviceShared = push_bit 2 1"

definition Attr_Uncached :: KMemoryAttribute where "Attr_Uncached = push_bit 3 1"

definition Attr_PermissionLocked :: KMemoryAttribute where "Attr_PermissionLocked = push_bit 4 1"

definition Attr_SetMask :: KMemoryAttribute where "Attr_SetMask = Attr_Uncached OR Attr_PermissionLocked"

definition DM_Normal :: KMemoryBlockDisableMergeAttribute where "DM_Normal = push_bit 0 1"

definition DM_DeviceLeft :: KMemoryBlockDisableMergeAttribute where "DM_DeviceLeft = push_bit 1 1"

definition DM_IpcLeft :: KMemoryBlockDisableMergeAttribute where "DM_IpcLeft = push_bit 2 1"

definition DM_Locked :: KMemoryBlockDisableMergeAttribute where "DM_Locked = push_bit 3 1"

definition DM_DeviceRight :: KMemoryBlockDisableMergeAttribute where "DM_DeviceRight = push_bit 4 1"

definition DM_AllLeft :: KMemoryBlockDisableMergeAttribute where
  "DM_AllLeft = DM_Normal OR DM_DeviceLeft OR DM_IpcLeft OR DM_Locked"

definition DM_AllRight :: KMemoryBlockDisableMergeAttribute where "DM_AllRight = DM_DeviceRight"

section \<open>Blocks\<close>

record KMemoryBlock =
  m_device_disable_merge_left_count :: u16
  m_device_disable_merge_right_count :: u16
  m_address :: u64
  m_num_pages :: u64
  m_memory_state :: KMemoryState
  m_ipc_lock_count :: u16
  m_device_use_count :: u16
  m_ipc_disable_merge_count :: u16
  m_permission :: KMemoryPermission
  m_original_permission :: KMemoryPermission
  m_attribute :: KMemoryAttribute
  m_disable_merge_attribute :: KMemoryBlockDisableMergeAttribute

definition default_KMemoryBlock :: KMemoryBlock where
  "default_KMemoryBlock = \<lparr>m_device_disable_merge_left_count = 0, m_device_disable_merge_right_count = 0,
    m_address = 0, m_num_pages = 0, m_memory_state = 0, m_ipc_lock_count = 0, m_device_use_count = 0,
    m_ipc_disable_merge_count = 0, m_permission = 0, m_original_permission = 0, m_attribute = 0,
    m_disable_merge_attribute = 0\<rparr>"

definition PageSize :: u64 where "PageSize = 4096"

definition GetSize :: "KMemoryBlock \<Rightarrow> u64" where "GetSize b = m_num_pages b * PageSize"

definition GetEndAddress :: "KMemoryBlock \<Rightarrow> u64" where "GetEndAddress b = m_address b + GetSize b"

definition GetLastAddress :: "KMemoryBlock \<Rightarrow> u64" where "GetLastAddress b = GetEndAddress b - 1"

definition Compare :: "KMemoryBlock \<Rightarrow> KMemoryBlock \<Rightarrow> int" where
  "Compare lhs rhs =
    (if m_address lhs < m_address rhs then -1 else if m_address lhs \<le> GetLastAddress rhs then 0 else 1)"

record KMemoryInfo =
  i_address :: u64
  i_size :: u64
  i_state :: KMemoryState
  i_device_disable_merge_left_count :: u16
  i_device_disable_merge_right_count :: u16
  i_ipc_lock_count :: u16
  i_device_use_count :: u16
  i_ipc_disable_merge_count :: u16
  i_permission :: KMemoryPermission
  i_attribute :: KMemoryAttribute
  i_original_permission :: KMemoryPermission
  i_disable_merge_attribute :: KMemoryBlockDisableMergeAttribute

definition GetMemoryInfo :: "KMemoryBlock \<Rightarrow> KMemoryInfo" where
  "GetMemoryInfo b = \<lparr>i_address = m_address b, i_size = GetSize b, i_state = m_memory_state b,
    i_device_disable_merge_left_count = m_device_disable_merge_left_count b,
    i_device_disable_merge_right_count = m_device_disable_merge_right_count b,
    i_ipc_lock_count = m_ipc_lock_count b, i_device_use_count = m_device_use_count b,
    i_ipc_disable_merge_count = m_ipc_disable_merge_count b, i_permission = m_permission b,
    i_attribute = m_attribute b, i_original_permission = m_original_permission b,
    i_disable_merge_attribute = m_disable_merge_attribute b\<rparr>"

definition info_GetNumPages :: "KMemoryInfo \<Rightarrow> u64" where "info_GetNumPages i = i_size i div PageSize"

definition info_GetEndAddress :: "KMemoryInfo \<Rightarrow> u64" where "info_GetEndAddress i = i_address i + i_size i"

definition info_GetLastAddress :: "KMemoryInfo \<Rightarrow> u64" where "info_GetLastAddress i = info_GetEndAddress i - 1"

text \<open>The view of a block that user programs get.\<close>

record SvcMemoryInfo =
  base_address :: u64
  svc_size :: u64
  svc_state :: u32
  svc_attribute :: u32
  svc_permission :: u32
  ipc_count :: u32
  device_count :: u32

definition GetSvcMemoryInfo :: "KMemoryInfo \<Rightarrow> SvcMemoryInfo" where
  "GetSvcMemoryInfo i = \<lparr>base_address = i_address i, svc_size = i_size i, svc_state = i_state i AND 0xFF,
    svc_attribute = ucast (i_attribute i AND 0xFF), svc_permission = ucast (i_permission i AND Perm_UserMask),
    ipc_count = ucast (i_ipc_lock_count i), device_count = ucast (i_device_use_count i)\<rparr>"

definition block_Initialize :: "u64 \<Rightarrow> u64 \<Rightarrow> KMemoryState \<Rightarrow> KMemoryPermission \<Rightarrow> KMemoryAttribute \<Rightarrow> KMemoryBlock \<Rightarrow> KMemoryBlock" where
  "block_Initialize addr np ms p attr b = b\<lparr>m_device_disable_merge_left_count := 0,
    m_device_disable_merge_right_count := 0, m_address := addr, m_num_pages := np, m_memory_state := ms,
    m_ipc_lock_count := 0, m_device_use_count := 0, m_permission := p, m_original_permission := 0,
    m_attribute := attr, m_disable_merge_attribute := 0\<rparr>"

definition HasProperties :: "KMemoryState \<Rightarrow> KMemoryPermission \<Rightarrow> KMemoryAttribute \<Rightarrow> KMemoryBlock \<Rightarrow> bool" where
  "HasProperties s p a b \<longleftrightarrow> m_memory_state b = s \<and> m_permission b = p \<and>
    m_attribute b OR (Attr_IpcLocked OR Attr_DeviceShared) = a OR (Attr_IpcLocked OR Attr_DeviceShared)"

definition HasSameProperties :: "KMemoryBlock \<Rightarrow> KMemoryBlock \<Rightarrow> bool" where
  "HasSameProperties b rhs \<longleftrightarrow> m_memory_state b = m_memory_state rhs \<and> m_permission b = m_permission rhs \<and>
    m_original_permission b = m_original_permission rhs \<and> m_attribute b = m_attribute rhs \<and>
    m_ipc_lock_count b = m_ipc_lock_count rhs \<and> m_device_use_count b = m_device_use_count rhs"

definition CanMergeWith :: "KMemoryBlock \<Rightarrow> KMemoryBlock \<Rightarrow> bool" where
  "CanMergeWith b rhs \<longleftrightarrow> HasSameProperties b rhs \<and> m_disable_merge_attribute b AND DM_AllRight = 0 \<and>
    m_disable_merge_attribute rhs AND DM_AllLeft = 0"

definition Contains :: "KMemoryBlock \<Rightarrow> u64 \<Rightarrow> bool" where
  "Contains b addr \<longleftrightarrow> m_address b \<le> addr \<and> addr \<le> GetEndAddress b"

section \<open>Faults\<close>

datatype block_fault = BlockAssertFailed | EndDereferenced | NullBlock | BlockOutOfBounds | DuplicateBlock

definition block_assert :: "bool \<Rightarrow> bool \<Rightarrow> block_fault + unit" where
  "block_assert use_debug_asserts cond = (if cond \<or> \<not> use_debug_asserts then Inr () else Inl BlockAssertFailed)"

section \<open>Changes of a block\<close>

definition block_Add :: "bool \<Rightarrow> KMemoryBlock \<Rightarrow> KMemoryBlock \<Rightarrow> block_fault + KMemoryBlock" where
  "block_Add D added_block b =
    bindF (block_assert D (m_num_pages added_block > 0)) (\<lambda>_.
    bindF (block_assert D (m_address b + GetSize added_block - 1 < GetEndAddress b + GetSize added_block - 1)) (\<lambda>_.
    Inr (b\<lparr>m_num_pages := m_num_pages b + m_num_pages added_block,
      m_disable_merge_attribute := m_disable_merge_attribute b OR m_disable_merge_attribute added_block,
      m_device_disable_merge_right_count := m_device_disable_merge_right_count added_block\<rparr>)))"

definition block_Update :: "bool \<Rightarrow> KMemoryState \<Rightarrow> KMemoryPermission \<Rightarrow> KMemoryAttribute \<Rightarrow> bool \<Rightarrow> u8 \<Rightarrow> u8
    \<Rightarrow> KMemoryBlock \<Rightarrow> block_fault + KMemoryBlock" where
  "block_Update D s p a set_disable_merge_attr set_mask clear_mask b =
    bindF (block_assert D (m_original_permission b = 0)) (\<lambda>_.
    bindF (block_assert D (m_attribute b AND Attr_IpcLocked = 0)) (\<lambda>_.
    (let b = b\<lparr>m_memory_state := s, m_permission := p,
           m_attribute := a OR (m_attribute b AND (Attr_IpcLocked OR Attr_DeviceShared))\<rparr>;
         b = (if set_disable_merge_attr \<and> set_mask \<noteq> 0
              then b\<lparr>m_disable_merge_attribute := m_disable_merge_attribute b OR set_mask\<rparr> else b);
         b = (if clear_mask \<noteq> 0
              then b\<lparr>m_disable_merge_attribute := m_disable_merge_attribute b AND NOT clear_mask\<rparr> else b)
     in Inr b)))"

definition block_UpdateAttribute :: "bool \<Rightarrow> KMemoryAttribute \<Rightarrow> KMemoryAttribute \<Rightarrow> KMemoryBlock \<Rightarrow> block_fault + KMemoryBlock" where
  "block_UpdateAttribute D msk attr b =
    bindF (block_assert D (msk AND Attr_IpcLocked = 0)) (\<lambda>_.
    bindF (block_assert D (msk AND Attr_DeviceShared = 0)) (\<lambda>_.
    Inr (b\<lparr>m_attribute := (m_attribute b AND NOT msk) OR attr\<rparr>)))"

text \<open>A split fills a new block with the pages below the address and keeps the others.\<close>

definition Split :: "bool \<Rightarrow> u64 \<Rightarrow> KMemoryBlock \<Rightarrow> KMemoryBlock \<Rightarrow> block_fault + KMemoryBlock \<times> KMemoryBlock" where
  "Split D addr block b =
    bindF (block_assert D (m_address b < addr)) (\<lambda>_.
    bindF (block_assert D (Contains b addr)) (\<lambda>_.
    bindF (block_assert D (addr mod PageSize = 0)) (\<lambda>_.
    (let block = block\<lparr>m_address := m_address b, m_num_pages := (addr - m_address b) div PageSize,
           m_memory_state := m_memory_state b, m_ipc_lock_count := m_ipc_lock_count b,
           m_device_use_count := m_device_use_count b, m_permission := m_permission b,
           m_original_permission := m_original_permission b, m_attribute := m_attribute b,
           m_disable_merge_attribute := m_disable_merge_attribute b AND DM_AllLeft,
           m_ipc_disable_merge_count := m_ipc_disable_merge_count b,
           m_device_disable_merge_left_count := m_device_disable_merge_left_count b,
           m_device_disable_merge_right_count := 0\<rparr>
     in Inr (block, b\<lparr>m_address := addr, m_num_pages := m_num_pages b - m_num_pages block,
           m_ipc_disable_merge_count := 0, m_device_disable_merge_left_count := 0,
           m_disable_merge_attribute := m_disable_merge_attribute b AND DM_AllRight\<rparr>)))))"

section \<open>Device sharing and locks for IPC\<close>

text \<open>The lock functions all have the parameters of the member function pointer \<^verbatim>\<open>MemoryBlockLockFunction\<close>; several
  use only some of them.\<close>

type_synonym MemoryBlockLockFunction =
  "bool \<Rightarrow> KMemoryPermission \<Rightarrow> bool \<Rightarrow> bool \<Rightarrow> KMemoryBlock \<Rightarrow> block_fault + KMemoryBlock"

definition UpdateDeviceDisableMergeStateForShareLeft :: MemoryBlockLockFunction where
  "UpdateDeviceDisableMergeStateForShareLeft D new_perm left right b =
    (if left then
       let b = b\<lparr>m_disable_merge_attribute := m_disable_merge_attribute b OR DM_DeviceLeft,
             m_device_disable_merge_left_count := m_device_disable_merge_left_count b + 1\<rparr>
       in bindF (block_assert D (m_device_disable_merge_left_count b > 0)) (\<lambda>_. Inr b)
     else Inr b)"

definition UpdateDeviceDisableMergeStateForShareRight :: MemoryBlockLockFunction where
  "UpdateDeviceDisableMergeStateForShareRight D new_perm left right b =
    (if right then
       let b = b\<lparr>m_disable_merge_attribute := m_disable_merge_attribute b OR DM_DeviceRight,
             m_device_disable_merge_right_count := m_device_disable_merge_right_count b + 1\<rparr>
       in bindF (block_assert D (m_device_disable_merge_right_count b > 0)) (\<lambda>_. Inr b)
     else Inr b)"

definition UpdateDeviceDisableMergeStateForShare :: MemoryBlockLockFunction where
  "UpdateDeviceDisableMergeStateForShare D new_perm left right b =
    bindF (UpdateDeviceDisableMergeStateForShareLeft D new_perm left right b)
      (UpdateDeviceDisableMergeStateForShareRight D new_perm left right)"

definition ShareToDevice :: MemoryBlockLockFunction where
  "ShareToDevice D new_perm left right b =
    bindF (block_assert D (m_attribute b AND Attr_DeviceShared = Attr_DeviceShared \<or> m_device_use_count b = 0)) (\<lambda>_.
    let b = b\<lparr>m_device_use_count := m_device_use_count b + 1\<rparr> in
    bindF (block_assert D (m_device_use_count b > 0)) (\<lambda>_.
    UpdateDeviceDisableMergeStateForShare D new_perm left right
      (b\<lparr>m_attribute := m_attribute b OR Attr_DeviceShared\<rparr>)))"

definition UpdateDeviceDisableMergeStateForUnshareLeft :: MemoryBlockLockFunction where
  "UpdateDeviceDisableMergeStateForUnshareLeft D new_perm left right b =
    (if left \<and> m_device_disable_merge_left_count b = 0 then Inr b
     else
       let b = (if left then b\<lparr>m_device_disable_merge_left_count := m_device_disable_merge_left_count b - 1\<rparr> else b);
           b = b\<lparr>m_device_disable_merge_left_count := min (m_device_disable_merge_left_count b) (m_device_use_count b)\<rparr>
       in Inr (if m_device_disable_merge_left_count b = 0
               then b\<lparr>m_disable_merge_attribute := m_disable_merge_attribute b AND NOT DM_DeviceLeft\<rparr> else b))"

definition UpdateDeviceDisableMergeStateForUnshareRight :: MemoryBlockLockFunction where
  "UpdateDeviceDisableMergeStateForUnshareRight D new_perm left right b =
    (if right then
       let old_device_disable_merge_right_count = m_device_disable_merge_right_count b;
           b = b\<lparr>m_device_disable_merge_right_count := m_device_disable_merge_right_count b - 1\<rparr>
       in bindF (block_assert D (old_device_disable_merge_right_count > 0)) (\<lambda>_.
          Inr (if old_device_disable_merge_right_count = 1
               then b\<lparr>m_disable_merge_attribute := m_disable_merge_attribute b AND NOT DM_DeviceRight\<rparr> else b))
     else Inr b)"

definition UpdateDeviceDisableMergeStateForUnshare :: MemoryBlockLockFunction where
  "UpdateDeviceDisableMergeStateForUnshare D new_perm left right b =
    bindF (UpdateDeviceDisableMergeStateForUnshareLeft D new_perm left right b)
      (UpdateDeviceDisableMergeStateForUnshareRight D new_perm left right)"

definition unshare_count :: "bool \<Rightarrow> KMemoryBlock \<Rightarrow> block_fault + KMemoryBlock" where
  "unshare_count D b =
    bindF (block_assert D (m_attribute b AND Attr_DeviceShared = Attr_DeviceShared)) (\<lambda>_.
    let old_count = m_device_use_count b; b = b\<lparr>m_device_use_count := m_device_use_count b - 1\<rparr> in
    bindF (block_assert D (old_count > 0)) (\<lambda>_.
    Inr (if old_count = 1 then b\<lparr>m_attribute := m_attribute b AND NOT Attr_DeviceShared\<rparr> else b)))"

definition UnshareToDevice :: MemoryBlockLockFunction where
  "UnshareToDevice D new_perm left right b =
    bindF (unshare_count D b) (UpdateDeviceDisableMergeStateForUnshare D new_perm left right)"

definition UnshareToDeviceRight :: MemoryBlockLockFunction where
  "UnshareToDeviceRight D new_perm left right b =
    bindF (unshare_count D b) (UpdateDeviceDisableMergeStateForUnshareRight D new_perm left right)"

definition LockForIpc :: MemoryBlockLockFunction where
  "LockForIpc D new_perm left right b =
    bindF (block_assert D (m_attribute b AND Attr_IpcLocked = Attr_IpcLocked \<or> m_ipc_lock_count b = 0)) (\<lambda>_.
    let b = b\<lparr>m_ipc_lock_count := m_ipc_lock_count b + 1\<rparr> in
    bindF (block_assert D (m_ipc_lock_count b > 0)) (\<lambda>_.
    bindF
      (if m_ipc_lock_count b = 1 then
         bindF (block_assert D (m_original_permission b = 0)) (\<lambda>_.
         bindF (block_assert D (m_permission b OR new_perm OR NotMapped = m_permission b OR NotMapped)) (\<lambda>_.
         bindF (block_assert D (m_permission b AND UserExecute \<noteq> UserExecute \<or> new_perm = UserRead)) (\<lambda>_.
         Inr (b\<lparr>m_original_permission := m_permission b,
           m_permission := (new_perm AND IpcLockChangeMask) OR (m_permission b AND NOT IpcLockChangeMask)\<rparr>))))
       else Inr b)
      (\<lambda>b.
        let b = b\<lparr>m_attribute := m_attribute b OR Attr_IpcLocked\<rparr> in
        if left then
          let b = b\<lparr>m_disable_merge_attribute := m_disable_merge_attribute b OR DM_IpcLeft,
                m_ipc_disable_merge_count := m_ipc_disable_merge_count b + 1\<rparr>
          in bindF (block_assert D (m_ipc_disable_merge_count b > 0)) (\<lambda>_. Inr b)
        else Inr b)))"

definition UnlockForIpc :: MemoryBlockLockFunction where
  "UnlockForIpc D new_perm left right b =
    bindF (block_assert D (m_attribute b AND Attr_IpcLocked = Attr_IpcLocked)) (\<lambda>_.
    let old_lock_count = m_ipc_lock_count b; b = b\<lparr>m_ipc_lock_count := m_ipc_lock_count b - 1\<rparr> in
    bindF (block_assert D (old_lock_count > 0)) (\<lambda>_.
    bindF
      (if old_lock_count = 1 then
         bindF (block_assert D (m_original_permission b \<noteq> 0)) (\<lambda>_.
         Inr (b\<lparr>m_permission := m_original_permission b, m_original_permission := 0,
           m_attribute := m_attribute b AND NOT Attr_IpcLocked\<rparr>))
       else Inr b)
      (\<lambda>b.
        if left then
          let old_ipc_disable_merge_count = m_ipc_disable_merge_count b;
              b = b\<lparr>m_ipc_disable_merge_count := m_ipc_disable_merge_count b - 1\<rparr>
          in bindF (block_assert D (old_ipc_disable_merge_count > 0)) (\<lambda>_.
             Inr (if old_ipc_disable_merge_count = 1
                  then b\<lparr>m_disable_merge_attribute := m_disable_merge_attribute b AND NOT DM_IpcLeft\<rparr> else b))
        else Inr b)))"

text \<open>The values that the \<^verbatim>\<open>static_assert\<close>s of the header list.\<close>

lemma KMemoryState_values:
  "MS_Free = 0x00000000"
  "MS_IoMemory = 0x00182001"
  "MS_IoRegister = 0x00180001"
  "MS_Static = 0x00042002"
  "MS_Code = 0x04DC7E03"
  "MS_CodeData = 0x0FFEBD04"
  "MS_Normal = 0x077EBD05"
  "MS_Shared = 0x04402006"
  "MS_AliasCode = 0x04DD7E08"
  "MS_AliasCodeData = 0x0FFFBD09"
  "MS_Ipc = 0x045C3C0A"
  "MS_Stack = 0x045C3C0B"
  "MS_ThreadLocal = 0x0400000C"
  "MS_Transferred = 0x055C3C0D"
  "MS_SharedTransferred = 0x045C380E"
  "MS_SharedCode = 0x0440380F"
  "MS_Inaccessible = 0x00000010"
  "MS_NonSecureIpc = 0x045C3811"
  "MS_NonDeviceIpc = 0x044C2812"
  "MS_Kernel = 0x00000013"
  "MS_GeneratedCode = 0x04402214"
  "MS_CodeOut = 0x04402015"
  "MS_Coverage = 0x00002016"
  "MS_Insecure = 0x055C3817"
  by code_simp+

end
