(* ===== verification/Block_Manager.thy ===== *)
theory Block_Manager
  imports Memory_Block
begin

text \<open>
  The memory block manager (\<^verbatim>\<open>core/hle/kernel/k_memory_block_manager.cpp\<close>): the blocks of an address
  space in the order of their addresses, and the updates of ranges of pages, which split and merge blocks.
  The red-black tree is the list of its blocks in order and an iterator a position in that list; the end
  iterator is the length. Blocks come from a slab heap (\<^verbatim>\<open>k_dynamic_slab_heap.h\<close>), whose free list is a count: an
  allocated block is default-constructed, so which one it is does not matter.
\<close>

section \<open>The slab heap\<close>

record KMemoryBlockSlabManager =
  free_objects :: nat
  free_pages :: nat
  objects_per_page :: nat
  m_used :: nat
  m_peak :: nat
  m_count :: nat

definition slab_Allocate :: "KMemoryBlockSlabManager \<Rightarrow> KMemoryBlock option \<times> KMemoryBlockSlabManager" where
  "slab_Allocate sm =
    (let (ok, sm) =
       (if free_objects sm > 0 then (True, sm\<lparr>free_objects := free_objects sm - 1\<rparr>)
        else if free_pages sm > 0
        then (True, sm\<lparr>free_pages := free_pages sm - 1, free_objects := objects_per_page sm - 1,
               m_count := m_count sm + objects_per_page sm\<rparr>)
        else (False, sm))
     in if ok
        then (Some default_KMemoryBlock, sm\<lparr>m_used := m_used sm + 1, m_peak := max (m_peak sm) (m_used sm + 1)\<rparr>)
        else (None, sm))"

definition slab_Free :: "KMemoryBlockSlabManager \<Rightarrow> KMemoryBlockSlabManager" where
  "slab_Free sm = sm\<lparr>free_objects := free_objects sm + 1, m_used := m_used sm - 1\<rparr>"

section \<open>The allocator of an update\<close>

definition MaxBlocks :: nat where "MaxBlocks = 2"

record KMemoryBlockManagerUpdateAllocator =
  m_blocks :: "KMemoryBlock option list"
  m_index :: nat
  m_slab_manager :: KMemoryBlockSlabManager

fun allocate_blocks :: "nat \<Rightarrow> nat \<Rightarrow> KMemoryBlockManagerUpdateAllocator \<Rightarrow> block_fault + bool \<times> KMemoryBlockManagerUpdateAllocator" where
  "allocate_blocks 0 i al = Inr (True, al)"
| "allocate_blocks (Suc n) i al =
    (if i < MaxBlocks then
       let (b, sm) = slab_Allocate (m_slab_manager al) in
       bindF (arr_set BlockOutOfBounds (m_blocks al) (m_index al + i) b) (\<lambda>bs.
       let al = al\<lparr>m_blocks := bs, m_slab_manager := sm\<rparr> in
       if b = None then Inr (False, al) else allocate_blocks n (i + 1) al)
     else Inr (True, al))"

definition alloc_Initialize :: "bool \<Rightarrow> nat \<Rightarrow> KMemoryBlockManagerUpdateAllocator \<Rightarrow> block_fault + bool \<times> KMemoryBlockManagerUpdateAllocator" where
  "alloc_Initialize D num_blocks al =
    bindF (block_assert D (num_blocks \<le> MaxBlocks)) (\<lambda>_.
    allocate_blocks num_blocks 0 (al\<lparr>m_index := MaxBlocks - num_blocks\<rparr>))"

text \<open>Constructor and destructor; the first result says whether the blocks were there (\<^verbatim>\<open>ResultOutOfResource\<close> else).\<close>

definition new_UpdateAllocator :: "bool \<Rightarrow> KMemoryBlockSlabManager \<Rightarrow> nat \<Rightarrow> block_fault + bool \<times> KMemoryBlockManagerUpdateAllocator" where
  "new_UpdateAllocator D sm num_blocks =
    alloc_Initialize D num_blocks \<lparr>m_blocks = replicate MaxBlocks None, m_index = MaxBlocks, m_slab_manager = sm\<rparr>"

definition delete_UpdateAllocator :: "KMemoryBlockManagerUpdateAllocator \<Rightarrow> KMemoryBlockSlabManager" where
  "delete_UpdateAllocator al =
    fold (\<lambda>b sm. if b \<noteq> None then slab_Free sm else sm) (m_blocks al) (m_slab_manager al)"

definition alloc_Allocate :: "bool \<Rightarrow> KMemoryBlockManagerUpdateAllocator \<Rightarrow> block_fault + KMemoryBlock \<times> KMemoryBlockManagerUpdateAllocator" where
  "alloc_Allocate D al =
    bindF (block_assert D (m_index al < MaxBlocks)) (\<lambda>_.
    bindF (arr_get BlockOutOfBounds (m_blocks al) (m_index al)) (\<lambda>b.
    bindF (block_assert D (b \<noteq> None)) (\<lambda>_.
    case b of
      None \<Rightarrow> Inl NullBlock
    | Some block \<Rightarrow> Inr (block, al\<lparr>m_blocks := (m_blocks al)[m_index al := None], m_index := m_index al + 1\<rparr>))))"

definition alloc_Free :: "bool \<Rightarrow> KMemoryBlock \<Rightarrow> KMemoryBlockManagerUpdateAllocator \<Rightarrow> block_fault + KMemoryBlockManagerUpdateAllocator" where
  "alloc_Free D block al =
    bindF (block_assert D (m_index al \<le> MaxBlocks)) (\<lambda>_.
    if m_index al = 0 then Inr (al\<lparr>m_slab_manager := slab_Free (m_slab_manager al)\<rparr>)
    else bindF (arr_set BlockOutOfBounds (m_blocks al) (m_index al - 1) (Some block)) (\<lambda>bs.
         Inr (al\<lparr>m_blocks := bs, m_index := m_index al - 1\<rparr>)))"

section \<open>The tree\<close>

record KMemoryBlockManager =
  m_memory_block_tree :: "KMemoryBlock list"
  m_start_address :: u64
  m_end_address :: u64

definition FindIterator :: "KMemoryBlock list \<Rightarrow> u64 \<Rightarrow> nat" where
  "FindIterator tree address =
    (let key = block_Initialize address 1 MS_Free 0 0 default_KMemoryBlock
     in length (takeWhile (\<lambda>b. Compare key b \<noteq> 0) tree))"

definition FindBlock :: "KMemoryBlockManager \<Rightarrow> u64 \<Rightarrow> KMemoryBlock option" where
  "FindBlock m address =
    (let it = FindIterator (m_memory_block_tree m) address
     in if it < length (m_memory_block_tree m) then Some (m_memory_block_tree m ! it) else None)"

definition deref :: "KMemoryBlock list \<Rightarrow> nat \<Rightarrow> block_fault + KMemoryBlock" where
  "deref tree it = arr_get EndDereferenced tree it"

text \<open>Insertion of a block, which returns the iterator to it. The tree refuses a block that compares equal to one
  it has, and the caller would go on with an iterator that is not in the tree.\<close>

definition tree_insert :: "KMemoryBlock \<Rightarrow> KMemoryBlock list \<Rightarrow> block_fault + nat \<times> KMemoryBlock list" where
  "tree_insert block tree =
    (let below = takeWhile (\<lambda>b. Compare block b > 0) tree; above = dropWhile (\<lambda>b. Compare block b > 0) tree
     in case above of
          b # _ \<Rightarrow> if Compare block b = 0 then Inl DuplicateBlock else Inr (length below, below @ block # above)
        | [] \<Rightarrow> Inr (length below, below @ [block]))"

section \<open>Setting up and tearing down\<close>

definition Initialize_space :: "bool \<Rightarrow> u64 \<Rightarrow> u64 \<Rightarrow> KMemoryBlockSlabManager \<Rightarrow> KMemoryBlockManager
    \<Rightarrow> block_fault + bool \<times> KMemoryBlockSlabManager \<times> KMemoryBlockManager" where
  "Initialize_space D st nd sm m =
    (let (start_block, sm) = slab_Allocate sm in
     case start_block of
       None \<Rightarrow> Inr (False, sm, m)
     | Some b \<Rightarrow>
         let m = m\<lparr>m_start_address := st, m_end_address := nd\<rparr> in
         bindF (block_assert D (st mod PageSize = 0)) (\<lambda>_.
         bindF (block_assert D (nd mod PageSize = 0)) (\<lambda>_.
         bindF (tree_insert (block_Initialize st ((nd - st) div PageSize) MS_Free 0 0 b) (m_memory_block_tree m)) (\<lambda>(_, tree).
         Inr (True, sm, m\<lparr>m_memory_block_tree := tree\<rparr>)))))"

text \<open>The callback gets the address and the size of every block, in order.\<close>

fun finalize_loop :: "KMemoryBlock list \<Rightarrow> KMemoryBlockSlabManager \<Rightarrow> (u64 \<times> u64) list \<Rightarrow> KMemoryBlockSlabManager \<times> (u64 \<times> u64) list" where
  "finalize_loop [] sm calls = (sm, calls)"
| "finalize_loop (b # tree) sm calls = finalize_loop tree (slab_Free sm) (calls @ [(m_address b, GetSize b)])"

definition Finalize_space :: "KMemoryBlockSlabManager \<Rightarrow> KMemoryBlockManager
    \<Rightarrow> (u64 \<times> u64) list \<times> KMemoryBlockSlabManager \<times> KMemoryBlockManager" where
  "Finalize_space sm m =
    (let (sm, calls) = finalize_loop (m_memory_block_tree m) sm [] in (calls, sm, m\<lparr>m_memory_block_tree := []\<rparr>))"

section \<open>Free areas\<close>

definition AlignDown :: "u64 \<Rightarrow> u64 \<Rightarrow> u64" where
  "AlignDown v sz = v - v mod sz"

definition candidate_area :: "u64 \<Rightarrow> u64 \<Rightarrow> u64 \<Rightarrow> u64 \<Rightarrow> KMemoryInfo \<Rightarrow> u64" where
  "candidate_area region_start alignment offset guard_pages info =
    (let area = (if i_address info \<le> region_start then region_start else i_address info);
         area = area + guard_pages * PageSize;
         offset_area = AlignDown area alignment + offset
     in if area \<le> offset_area then offset_area else offset_area + alignment)"

fun find_free_loop :: "u64 \<Rightarrow> u64 \<Rightarrow> u64 \<Rightarrow> u64 \<Rightarrow> u64 \<Rightarrow> u64 \<Rightarrow> KMemoryBlock list \<Rightarrow> u64" where
  "find_free_loop region_start region_last num_pages alignment offset guard_pages [] = 0"
| "find_free_loop region_start region_last num_pages alignment offset guard_pages (b # tree) =
    (let info = GetMemoryInfo b in
     if region_last < i_address info then 0
     else if i_state info \<noteq> MS_Free
     then find_free_loop region_start region_last num_pages alignment offset guard_pages tree
     else
       let area = candidate_area region_start alignment offset guard_pages info;
           area_end = area + num_pages * PageSize + guard_pages * PageSize;
           area_last = area_end - 1
       in if i_address info \<le> area \<and> area < area_last \<and> area_last \<le> region_last \<and>
             area_last \<le> info_GetLastAddress info
          then area
          else find_free_loop region_start region_last num_pages alignment offset guard_pages tree)"

definition FindFreeArea :: "KMemoryBlockManager \<Rightarrow> u64 \<Rightarrow> u64 \<Rightarrow> u64 \<Rightarrow> u64 \<Rightarrow> u64 \<Rightarrow> u64 \<Rightarrow> u64" where
  "FindFreeArea m region_start region_num_pages num_pages alignment offset guard_pages =
    (if num_pages > 0 then
       let region_end = region_start + region_num_pages * PageSize; region_last = region_end - 1
       in find_free_loop region_start region_last num_pages alignment offset guard_pages
            (drop (FindIterator (m_memory_block_tree m) region_start) (m_memory_block_tree m))
     else 0)"

section \<open>Merging\<close>

text \<open>The loop of \<^verbatim>\<open>CoalesceForUpdate\<close>. Every round moves the iterator on or removes a block behind it.\<close>

function coalesce_loop :: "bool \<Rightarrow> u64 \<Rightarrow> u64 \<Rightarrow> nat \<Rightarrow> KMemoryBlockManagerUpdateAllocator \<Rightarrow> KMemoryBlock list
    \<Rightarrow> block_fault + KMemoryBlockManagerUpdateAllocator \<times> KMemoryBlock list" where
  "coalesce_loop D address num_pages prev al tree =
    (if \<not> prev < length tree then Inl EndDereferenced
     else if prev + 1 = length tree then Inr (al, tree)
     else
       let p = tree ! prev; b = tree ! (prev + 1) in
       if CanMergeWith p b then
         bindF (block_Add D b p) (\<lambda>p.
         bindF (alloc_Free D b al) (\<lambda>al.
         let tree = take prev tree @ p # drop (prev + 2) tree in
         if address + num_pages * PageSize < info_GetEndAddress (GetMemoryInfo p) then Inr (al, tree)
         else coalesce_loop D address num_pages prev al tree))
       else if address + num_pages * PageSize < info_GetEndAddress (GetMemoryInfo b) then Inr (al, tree)
       else coalesce_loop D address num_pages (prev + 1) al tree)"
  by pat_completeness auto
termination
  by (relation "measure (\<lambda>(D, address, num_pages, prev, al, tree). length tree - prev)") auto

declare coalesce_loop.simps [simp del]

definition CoalesceForUpdate :: "bool \<Rightarrow> u64 \<Rightarrow> u64 \<Rightarrow> KMemoryBlockManagerUpdateAllocator \<Rightarrow> KMemoryBlockManager
    \<Rightarrow> block_fault + KMemoryBlockManagerUpdateAllocator \<times> KMemoryBlockManager" where
  "CoalesceForUpdate D address num_pages al m =
    (let it = FindIterator (m_memory_block_tree m) address in
     bindF (if address \<noteq> m_start_address m then (if it = 0 then Inl EndDereferenced else Inr (it - 1)) else Inr it) (\<lambda>it.
     bindF (coalesce_loop D address num_pages it al (m_memory_block_tree m)) (\<lambda>(al, tree).
     Inr (al, m\<lparr>m_memory_block_tree := tree\<rparr>))))"

section \<open>Updates of a range\<close>

text \<open>The variables of the loops over a range. The four updates share the code that splits the block at the ends
  of the range and the code that moves on over a block that needs no change.\<close>

record range_loop =
  cur_address :: u64
  remaining_pages :: u64
  iter :: nat
  allocator :: KMemoryBlockManagerUpdateAllocator
  blocks :: "KMemoryBlock list"

text \<open>\<^verbatim>\<open>new_block = allocator->Allocate(); it->Split(new_block, addr); it = tree.insert(*new_block)\<close>\<close>

definition split_and_insert :: "bool \<Rightarrow> u64 \<Rightarrow> range_loop \<Rightarrow> block_fault + range_loop" where
  "split_and_insert D addr s =
    bindF (alloc_Allocate D (allocator s)) (\<lambda>(new_block, al).
    bindF (deref (blocks s) (iter s)) (\<lambda>b.
    bindF (Split D addr new_block b) (\<lambda>(new_block, b).
    bindF (tree_insert new_block ((blocks s)[iter s := b])) (\<lambda>(it, tree).
    Inr (s\<lparr>iter := it, allocator := al, blocks := tree\<rparr>)))))"

definition split_and_change :: "bool \<Rightarrow> (KMemoryBlock \<Rightarrow> block_fault + KMemoryBlock) \<Rightarrow> range_loop \<Rightarrow> block_fault + range_loop" where
  "split_and_change D change s =
    (let remaining_size = remaining_pages s * PageSize in
     bindF (deref (blocks s) (iter s)) (\<lambda>b.
     bindF
       (if m_address b \<noteq> cur_address s then
          bindF (split_and_insert D (cur_address s) s) (\<lambda>s.
          bindF (deref (blocks s) (iter s + 1)) (\<lambda>b.
          Inr (s\<lparr>iter := iter s + 1, cur_address := m_address b\<rparr>)))
        else Inr s)
       (\<lambda>s. bindF (deref (blocks s) (iter s)) (\<lambda>b.
         bindF (if GetSize b > remaining_size then split_and_insert D (cur_address s + remaining_size) s else Inr s) (\<lambda>s.
         bindF (deref (blocks s) (iter s)) (\<lambda>b.
         bindF (change b) (\<lambda>b'.
         Inr (s\<lparr>blocks := (blocks s)[iter s := b'], cur_address := cur_address s + GetSize b,
           remaining_pages := remaining_pages s - info_GetNumPages (GetMemoryInfo b), iter := iter s + 1\<rparr>))))))))"

definition just_advance :: "KMemoryBlock \<Rightarrow> range_loop \<Rightarrow> range_loop" where
  "just_advance b s =
    (let remaining_size = remaining_pages s * PageSize; end_address = info_GetEndAddress (GetMemoryInfo b) in
     if cur_address s + remaining_size < end_address
     then s\<lparr>remaining_pages := 0, cur_address := cur_address s + remaining_size, iter := iter s + 1\<rparr>
     else s\<lparr>remaining_pages := (cur_address s + remaining_size - end_address) div PageSize,
            cur_address := end_address, iter := iter s + 1\<rparr>)"

text \<open>One round: \<open>touch\<close> says which blocks are changed.\<close>

definition range_round :: "bool \<Rightarrow> (KMemoryBlock \<Rightarrow> bool) \<Rightarrow> (KMemoryBlock \<Rightarrow> block_fault + KMemoryBlock) \<Rightarrow> range_loop \<Rightarrow> block_fault + range_loop" where
  "range_round D touch change s =
    bindF (deref (blocks s) (iter s)) (\<lambda>b.
    if touch b then split_and_change D change s else Inr (just_advance b s))"

partial_function (option) range_while :: "(range_loop \<Rightarrow> block_fault + range_loop) \<Rightarrow> range_loop \<Rightarrow> (block_fault + range_loop) option" where
  "range_while body s =
    (if remaining_pages s > 0
     then (case body s of Inl f \<Rightarrow> Some (Inl f) | Inr s' \<Rightarrow> range_while body s')
     else Some (Inr s))"

declare range_while.simps [code]

text \<open>The frame of an update: the loop from the block that has the address, then the merging.\<close>

definition update_range :: "bool \<Rightarrow> (KMemoryBlock \<Rightarrow> bool) \<Rightarrow> (KMemoryBlock \<Rightarrow> block_fault + KMemoryBlock) \<Rightarrow> u64 \<Rightarrow> u64
    \<Rightarrow> KMemoryBlockManagerUpdateAllocator \<Rightarrow> KMemoryBlockManager
    \<Rightarrow> (block_fault + KMemoryBlockManagerUpdateAllocator \<times> KMemoryBlockManager) option" where
  "update_range D touch change address num_pages al m =
    map_option (\<lambda>r. bindF r (\<lambda>s. CoalesceForUpdate D address num_pages (allocator s) (m\<lparr>m_memory_block_tree := blocks s\<rparr>)))
      (range_while (range_round D touch change)
        \<lparr>cur_address = address, remaining_pages = num_pages, iter = FindIterator (m_memory_block_tree m) address,
         allocator = al, blocks = m_memory_block_tree m\<rparr>)"

definition assert_then :: "bool \<Rightarrow> bool \<Rightarrow> (block_fault + 'a) option \<Rightarrow> (block_fault + 'a) option" where
  "assert_then D cond k = (case block_assert D cond of Inl f \<Rightarrow> Some (Inl f) | Inr _ \<Rightarrow> k)"

definition manager_Update :: "bool \<Rightarrow> KMemoryBlockManagerUpdateAllocator \<Rightarrow> u64 \<Rightarrow> u64 \<Rightarrow> KMemoryState \<Rightarrow> KMemoryPermission \<Rightarrow> KMemoryAttribute
    \<Rightarrow> u8 \<Rightarrow> u8 \<Rightarrow> KMemoryBlockManager \<Rightarrow> (block_fault + KMemoryBlockManagerUpdateAllocator \<times> KMemoryBlockManager) option" where
  "manager_Update D al address num_pages state perm attr set_disable_attr clear_disable_attr m =
    assert_then D (address mod PageSize = 0)
    (assert_then D (attr AND (Attr_IpcLocked OR Attr_DeviceShared) = 0)
    (update_range D (\<lambda>b. \<not> HasProperties state perm attr b)
      (\<lambda>b. block_Update D state perm attr (m_address b = address) set_disable_attr clear_disable_attr b)
      address num_pages al m))"

definition UpdateIfMatch :: "bool \<Rightarrow> KMemoryBlockManagerUpdateAllocator \<Rightarrow> u64 \<Rightarrow> u64 \<Rightarrow> KMemoryState \<Rightarrow> KMemoryPermission \<Rightarrow> KMemoryAttribute
    \<Rightarrow> KMemoryState \<Rightarrow> KMemoryPermission \<Rightarrow> KMemoryAttribute \<Rightarrow> u8 \<Rightarrow> u8 \<Rightarrow> KMemoryBlockManager
    \<Rightarrow> (block_fault + KMemoryBlockManagerUpdateAllocator \<times> KMemoryBlockManager) option" where
  "UpdateIfMatch D al address num_pages test_state test_perm test_attr state perm attr set_disable_attr clear_disable_attr m =
    assert_then D (address mod PageSize = 0)
    (assert_then D (attr AND (Attr_IpcLocked OR Attr_DeviceShared) = 0)
    (update_range D (\<lambda>b. HasProperties test_state test_perm test_attr b \<and> \<not> HasProperties state perm attr b)
      (\<lambda>b. block_Update D state perm attr False set_disable_attr clear_disable_attr b)
      address num_pages al m))"

definition UpdateLock :: "bool \<Rightarrow> KMemoryBlockManagerUpdateAllocator \<Rightarrow> u64 \<Rightarrow> u64 \<Rightarrow> MemoryBlockLockFunction \<Rightarrow> KMemoryPermission
    \<Rightarrow> KMemoryBlockManager \<Rightarrow> (block_fault + KMemoryBlockManagerUpdateAllocator \<times> KMemoryBlockManager) option" where
  "UpdateLock D al address num_pages lock_func perm m =
    assert_then D (address mod PageSize = 0)
    (let end_address = address + num_pages * PageSize in
     update_range D (\<lambda>b. True)
      (\<lambda>b. lock_func D perm (m_address b = address) (GetEndAddress b = end_address) b)
      address num_pages al m)"

definition manager_UpdateAttribute :: "bool \<Rightarrow> KMemoryBlockManagerUpdateAllocator \<Rightarrow> u64 \<Rightarrow> u64 \<Rightarrow> KMemoryAttribute \<Rightarrow> KMemoryAttribute
    \<Rightarrow> KMemoryBlockManager \<Rightarrow> (block_fault + KMemoryBlockManagerUpdateAllocator \<times> KMemoryBlockManager) option" where
  "manager_UpdateAttribute D al address num_pages msk attr m =
    assert_then D (address mod PageSize = 0)
    (update_range D (\<lambda>b. m_attribute b AND msk \<noteq> attr) (block_UpdateAttribute D msk attr) address num_pages al m)"

section \<open>The audit\<close>

definition counted :: "KMemoryInfo \<Rightarrow> bool" where
  "counted info \<longleftrightarrow>
    \<not> (i_attribute info AND Attr_IpcLocked \<noteq> 0 \<and> i_ipc_lock_count info = 0) \<and>
    \<not> (i_attribute info AND Attr_DeviceShared \<noteq> 0 \<and> i_device_use_count info = 0)"

fun check_loop :: "KMemoryBlock \<Rightarrow> KMemoryBlock list \<Rightarrow> bool" where
  "check_loop prev [] = counted (GetMemoryInfo prev)"
| "check_loop prev (b # tree) =
    (if CanMergeWith prev b then False
     else if info_GetEndAddress (GetMemoryInfo prev) \<noteq> i_address (GetMemoryInfo b) then False
     else if \<not> counted (GetMemoryInfo b) then False
     else check_loop b tree)"

definition CheckState :: "KMemoryBlockManager \<Rightarrow> block_fault + bool" where
  "CheckState m = (case m_memory_block_tree m of [] \<Rightarrow> Inl EndDereferenced | b # tree \<Rightarrow> Inr (check_loop b tree))"

end
