(* ===== verification/Block_Laws.thy ===== *)
theory Block_Laws
  imports Block_Manager
begin

text \<open>
  The blocks of an address space as a partition of it, and the pages behind them: the list of the
  properties of all pages, in order, is what a block list stands for. Splits and merges do not change it, and
  an update of a range changes the pages of the range, each by the same function, and no other.
\<close>

section \<open>Pages behind blocks\<close>

record PageProps =
  pp_state :: KMemoryState
  pp_perm :: KMemoryPermission
  pp_orig :: KMemoryPermission
  pp_attr :: KMemoryAttribute
  pp_ipc :: u16
  pp_dev :: u16

definition props :: "KMemoryBlock \<Rightarrow> PageProps" where
  "props b = \<lparr>pp_state = m_memory_state b, pp_perm = m_permission b, pp_orig = m_original_permission b,
    pp_attr = m_attribute b, pp_ipc = m_ipc_lock_count b, pp_dev = m_device_use_count b\<rparr>"

definition npages :: "KMemoryBlock \<Rightarrow> nat" where
  "npages b = unat (m_num_pages b)"

definition start_of :: "KMemoryBlock \<Rightarrow> nat" where
  "start_of b = unat (m_address b)"

definition end_of :: "KMemoryBlock \<Rightarrow> nat" where
  "end_of b = start_of b + npages b * 4096"

definition pages :: "KMemoryBlock list \<Rightarrow> PageProps list" where
  "pages bs = concat (map (\<lambda>b. replicate (npages b) (props b)) bs)"

text \<open>The blocks follow one another without gaps from the first address to the second.\<close>

fun chained :: "nat \<Rightarrow> KMemoryBlock list \<Rightarrow> nat \<Rightarrow> bool" where
  "chained a [] e \<longleftrightarrow> a = e"
| "chained a (b # bs) e \<longleftrightarrow> start_of b = a \<and> 0 < npages b \<and> chained (end_of b) bs e"

lemma pages_simps [simp]:
  "pages [] = []" "pages (b # bs) = replicate (npages b) (props b) @ pages bs" "pages (bs @ cs) = pages bs @ pages cs"
  by (simp_all add: pages_def)

lemma chained_append [simp]: "chained a (bs @ cs) e \<longleftrightarrow> (\<exists>x. chained a bs x \<and> chained x cs e)"
  by (induction bs arbitrary: a) auto

lemma chained_length: "chained a bs e \<Longrightarrow> e = a + length (pages bs) * 4096"
proof (induction bs arbitrary: a)
  case (Cons b bs)
  then have "e = end_of b + length (pages bs) * 4096" "start_of b = a" by auto
  then show ?case by (simp add: end_of_def)
qed simp

lemma chained_le: "chained a bs e \<Longrightarrow> a \<le> e"
  by (drule chained_length) simp

lemma chained_in: "chained a bs e \<Longrightarrow> b \<in> set bs \<Longrightarrow> a \<le> start_of b \<and> end_of b \<le> e \<and> 0 < npages b"
proof (induction bs arbitrary: a)
  case (Cons c bs)
  then show ?case using chained_le [of "end_of c" bs e] by (force simp: end_of_def)
qed simp

lemma HasSameProperties_props: "HasSameProperties b c \<longleftrightarrow> props b = props c"
  by (auto simp: HasSameProperties_def props_def)

section \<open>Addresses that do not wrap\<close>

definition space_end :: nat where "space_end = 2 ^ 63"

definition fits :: "KMemoryBlock \<Rightarrow> bool" where
  "fits b \<longleftrightarrow> 0 < npages b \<and> end_of b \<le> space_end"

lemma unat_PageSize [simp]: "unat PageSize = 4096"
  by (simp add: PageSize_def)

lemma PageSize_nonzero [simp]: "PageSize \<noteq> 0"
  by (simp add: PageSize_def)

lemma unat_plus: "unat a + unat b < 2 ^ 64 \<Longrightarrow> unat (a + b :: u64) = unat a + unat b"
  by (simp add: unat_add_lem [THEN iffD1])

lemma unat_pages: "unat n * 4096 < 2 ^ 64 \<Longrightarrow> unat (n * PageSize) = unat n * 4096"
  by (simp add: unat_mult_lem [THEN iffD1])

lemma unat_minus: "b \<le> a \<Longrightarrow> unat (a - b :: u64) = unat a - unat b"
  by (rule unat_sub)

lemma fits_words:
  assumes "fits b"
  shows "unat (GetSize b) = npages b * 4096" "unat (GetEndAddress b) = end_of b"
    "unat (GetLastAddress b) = end_of b - 1" "unat (info_GetNumPages (GetMemoryInfo b)) = npages b"
    "info_GetEndAddress (GetMemoryInfo b) = GetEndAddress b"
proof -
  have le: "start_of b + npages b * 4096 \<le> 2 ^ 63" "0 < npages b"
    using assms by (simp_all add: fits_def end_of_def space_end_def)
  show s: "unat (GetSize b) = npages b * 4096"
    using le unat_pages [of "m_num_pages b"] by (simp add: GetSize_def npages_def)
  show e: "unat (GetEndAddress b) = end_of b"
    using le s unat_plus [of "m_address b" "GetSize b"] by (simp add: GetEndAddress_def end_of_def start_of_def)
  have "1 \<le> GetEndAddress b" using e le by (simp add: word_le_nat_alt end_of_def)
  then show "unat (GetLastAddress b) = end_of b - 1"
    using e unat_minus [of 1 "GetEndAddress b"] by (simp add: GetLastAddress_def)
  show "unat (info_GetNumPages (GetMemoryInfo b)) = npages b"
    using s by (simp add: info_GetNumPages_def GetMemoryInfo_def unat_div)
  show "info_GetEndAddress (GetMemoryInfo b) = GetEndAddress b"
    by (simp add: info_GetEndAddress_def GetMemoryInfo_def GetEndAddress_def)
qed

lemma Compare_fits:
  assumes "fits b"
  shows "Compare k b > 0 \<longleftrightarrow> end_of b \<le> start_of k" "Compare k b = 0 \<longleftrightarrow> start_of b \<le> start_of k \<and> start_of k < end_of b"
  using fits_words(3) [OF assms] assms
  by (auto simp: Compare_def word_less_nat_alt word_le_nat_alt start_of_def end_of_def fits_def)

lemma chained_fits: "chained a bs e \<Longrightarrow> e \<le> space_end \<Longrightarrow> b \<in> set bs \<Longrightarrow> fits b"
  using chained_in [of a bs e b] by (auto simp: fits_def)

section \<open>Finding and inserting\<close>

lemma takeWhile_prefix: "(\<And>x. x \<in> set ls \<Longrightarrow> P x) \<Longrightarrow> \<not> P b \<Longrightarrow> takeWhile P (ls @ b # rs) = ls"
  by (simp add: takeWhile_append takeWhile_tail)

lemma FindIterator_at:
  assumes "chained a (ls @ b # rs) e" "e \<le> space_end" "start_of b \<le> unat x" "unat x < end_of b"
  shows "FindIterator (ls @ b # rs) x = length ls"
proof -
  let ?k = "block_Initialize x 1 MS_Free 0 0 default_KMemoryBlock"
  have k: "start_of ?k = unat x" by (simp add: start_of_def block_Initialize_def)
  have "Compare ?k c \<noteq> 0" if "c \<in> set ls" for c
  proof -
    have "end_of c \<le> start_of b" using assms(1) chained_in [of a ls _ c] that by auto
    moreover have "fits c" using chained_fits [OF assms(1,2)] that by simp
    ultimately show ?thesis using Compare_fits(2) [of c ?k] assms(3) k by simp
  qed
  moreover have "Compare ?k b = 0"
    using Compare_fits(2) [of b ?k] chained_fits [OF assms(1,2), of b] assms(3,4) k by simp
  ultimately have "takeWhile (\<lambda>c. Compare ?k c \<noteq> 0) (ls @ b # rs) = ls"
    by (intro takeWhile_prefix) auto
  then show ?thesis by (simp add: FindIterator_def)
qed

lemma chained_find:
  assumes "chained a bs e" "a \<le> x" "x < e"
  obtains ls b rs where "bs = ls @ b # rs" "start_of b \<le> x" "x < end_of b"
  using assms
proof (induction bs arbitrary: a thesis)
  case (Cons c bs)
  show ?case
  proof (cases "x < end_of c")
    case True
    then show ?thesis using Cons.prems(1) [of "[]" c bs] Cons.prems by simp
  next
    case False
    then obtain ls b rs where "bs = ls @ b # rs" "start_of b \<le> x" "x < end_of b"
      using Cons.IH [where a = "end_of c"] Cons.prems by auto
    then show ?thesis using Cons.prems(1) [of "c # ls" b rs] by simp
  qed
qed simp

lemma tree_insert_at:
  assumes "\<And>c. c \<in> set ls \<Longrightarrow> fits c \<and> end_of c \<le> start_of b"
    and "\<And>c. c \<in> set rs \<Longrightarrow> fits c \<and> start_of b < start_of c"
  shows "tree_insert b (ls @ rs) = Inr (length ls, ls @ b # rs)"
proof (cases rs)
  case Nil
  have "takeWhile (\<lambda>c. Compare b c > 0) ls = ls" "dropWhile (\<lambda>c. Compare b c > 0) ls = []"
    using assms(1) Compare_fits(1) by (auto simp: takeWhile_eq_all_conv dropWhile_eq_Nil_conv)
  then show ?thesis using Nil unfolding tree_insert_def Let_def by (simp only: append_Nil2 list.case)
next
  case (Cons c cs)
  have c: "fits c" "start_of b < start_of c" using assms(2) Cons by simp_all
  have "\<not> Compare b c > 0" "Compare b c \<noteq> 0" using c Compare_fits [OF c(1), of b] by (simp_all add: end_of_def)
  moreover have "\<And>d. d \<in> set ls \<Longrightarrow> Compare b d > 0" using assms(1) Compare_fits(1) by blast
  ultimately have "takeWhile (\<lambda>c. Compare b c > 0) (ls @ c # cs) = ls" "dropWhile (\<lambda>c. Compare b c > 0) (ls @ c # cs) = c # cs"
    by (auto simp: takeWhile_prefix dropWhile_append3)
  then show ?thesis using Cons \<open>Compare b c \<noteq> 0\<close> by (simp add: tree_insert_def Let_def)
qed

section \<open>The allocator\<close>

definition alloc_wf :: "KMemoryBlockManagerUpdateAllocator \<Rightarrow> bool" where
  "alloc_wf al \<longleftrightarrow> length (m_blocks al) = 2 \<and> m_index al \<le> 2 \<and> (\<forall>i < 2. m_blocks al ! i \<noteq> None \<longleftrightarrow> m_index al \<le> i)"

definition held :: "KMemoryBlockManagerUpdateAllocator \<Rightarrow> nat" where
  "held al = 2 - m_index al"

text \<open>The slab heap has handed out the blocks the allocator holds and \<open>n\<close> others.\<close>

definition accounts :: "KMemoryBlockManagerUpdateAllocator \<Rightarrow> nat \<Rightarrow> bool" where
  "accounts al n \<longleftrightarrow> m_used (m_slab_manager al) = held al + n"

definition taken :: "KMemoryBlockManagerUpdateAllocator \<Rightarrow> KMemoryBlockManagerUpdateAllocator" where
  "taken al = al\<lparr>m_blocks := (m_blocks al)[m_index al := None], m_index := m_index al + 1\<rparr>"

lemma less_2_cases: "i < 2 \<longleftrightarrow> i = 0 \<or> i = (1 :: nat)"
  by auto

lemma all_less_2: "(\<forall>i < 2. P i) \<longleftrightarrow> P 0 \<and> P (1 :: nat)"
  by (auto simp: less_2_cases)

lemma alloc_Allocate_ok:
  assumes "alloc_wf al" "0 < held al"
  shows "\<exists>b. alloc_Allocate D al = Inr (b, taken al)"
  using assms by (auto simp: alloc_wf_def held_def alloc_Allocate_def taken_def block_assert_def MaxBlocks_def)

lemma taken_wf [simp]:
  assumes "alloc_wf al" "0 < held al"
  shows "alloc_wf (taken al)" "held (taken al) = held al - 1" "accounts al n \<Longrightarrow> accounts (taken al) (Suc n)"
proof -
  have "m_index al = 0 \<or> m_index al = 1" using assms(2) by (auto simp: held_def)
  then show "alloc_wf (taken al)"
    using assms by (auto simp: alloc_wf_def taken_def all_less_2 nth_list_update)
  show h: "held (taken al) = held al - 1" by (simp add: held_def taken_def)
  show "accounts al n \<Longrightarrow> accounts (taken al) (Suc n)"
    using assms(2) h by (simp add: accounts_def taken_def)
qed

lemma alloc_Free_ok:
  assumes "alloc_wf al"
  shows "\<exists>al'. alloc_Free D b al = Inr al' \<and> alloc_wf al' \<and> (\<forall>n. accounts al (Suc n) \<longrightarrow> accounts al' n)"
proof (cases "m_index al = 0")
  case True
  then show ?thesis using assms
    by (auto simp: alloc_Free_def alloc_wf_def block_assert_def accounts_def held_def slab_Free_def MaxBlocks_def)
next
  case False
  then have "m_index al = 1 \<or> m_index al = 2" using assms by (auto simp: alloc_wf_def)
  then show ?thesis using assms
    by (auto simp: alloc_Free_def alloc_wf_def block_assert_def accounts_def held_def MaxBlocks_def all_less_2 nth_list_update)
qed

section \<open>Splitting\<close>

definition split_low :: "nat \<Rightarrow> KMemoryBlock \<Rightarrow> KMemoryBlock" where
  "split_low k b = b\<lparr>m_num_pages := of_nat k, m_disable_merge_attribute := m_disable_merge_attribute b AND DM_AllLeft,
    m_device_disable_merge_right_count := 0\<rparr>"

definition split_high :: "nat \<Rightarrow> KMemoryBlock \<Rightarrow> KMemoryBlock" where
  "split_high k b = b\<lparr>m_address := m_address b + of_nat k * PageSize, m_num_pages := m_num_pages b - of_nat k,
    m_ipc_disable_merge_count := 0, m_device_disable_merge_left_count := 0,
    m_disable_merge_attribute := m_disable_merge_attribute b AND DM_AllRight\<rparr>"

lemma unat_of_small: "k < 2 ^ 64 \<Longrightarrow> unat (of_nat k :: u64) = k"
  by (simp add: unat_of_nat take_bit_nat_eq_self)

lemma fits_bound: "fits b \<Longrightarrow> npages b * 4096 \<le> 2 ^ 63 \<and> start_of b + npages b * 4096 \<le> 2 ^ 63"
  by (simp add: fits_def end_of_def space_end_def)

lemma split_parts:
  assumes "fits b" "0 < k" "k < npages b"
  shows "npages (split_low k b) = k" "start_of (split_low k b) = start_of b" "props (split_low k b) = props b"
    "npages (split_high k b) = npages b - k" "start_of (split_high k b) = start_of b + k * 4096"
    "props (split_high k b) = props b" "end_of (split_low k b) = start_of (split_high k b)"
    "end_of (split_high k b) = end_of b" "fits (split_low k b)" "fits (split_high k b)"
proof -
  have k: "unat (of_nat k :: u64) = k" using assms(3) fits_bound [OF assms(1)] by (intro unat_of_small) simp
  show low: "npages (split_low k b) = k" "start_of (split_low k b) = start_of b" "props (split_low k b) = props b"
    using k by (simp_all add: split_low_def npages_def start_of_def props_def)
  have "of_nat k \<le> m_num_pages b" using assms(3) k by (simp add: word_le_nat_alt npages_def)
  then show high: "npages (split_high k b) = npages b - k"
    using k unat_minus [of "of_nat k" "m_num_pages b"] by (simp add: split_high_def npages_def)
  have "unat (of_nat k * PageSize) = k * 4096"
    using k unat_pages [of "of_nat k"] assms(3) fits_bound [OF assms(1)] by simp
  then show start: "start_of (split_high k b) = start_of b + k * 4096"
    using unat_plus [of "m_address b" "of_nat k * PageSize"] assms(3) fits_bound [OF assms(1)]
    by (simp add: split_high_def start_of_def)
  show "props (split_high k b) = props b" by (simp add: split_high_def props_def)
  show ends: "end_of (split_low k b) = start_of (split_high k b)" "end_of (split_high k b) = end_of b"
    using low high start assms(3) by (simp_all add: end_of_def diff_mult_distrib)
  show "fits (split_low k b)" "fits (split_high k b)"
    using ends low high start assms fits_bound [OF assms(1)] by (auto simp: fits_def end_of_def space_end_def)
qed

lemma Split_at:
  assumes "fits b" "start_of b mod 4096 = 0" "0 < k" "k < npages b" "unat addr = start_of b + k * 4096"
  shows "Split D addr nb b = Inr (split_low k b, split_high k b)"
proof -
  have addr: "addr = m_address b + of_nat k * PageSize"
    using split_parts(5) [OF assms(1,3,4)] assms(5) by (simp add: split_high_def start_of_def word_unat_eq_iff)
  have lt: "m_address b < addr" using assms(3,5) by (simp add: word_less_nat_alt start_of_def)
  have "addr \<le> GetEndAddress b"
    using assms(4,5) fits_words(2) [OF assms(1)] by (simp add: word_le_nat_alt end_of_def)
  then have c: "Contains b addr" using lt by (simp add: Contains_def)
  have al: "addr mod PageSize = 0"
    using assms(2,5) by (simp add: word_unat_eq_iff unat_mod)
  have "unat (addr - m_address b) = k * 4096"
    using unat_minus [of "m_address b" addr] lt assms(5) by (simp add: start_of_def)
  then have "unat ((addr - m_address b) div PageSize) = k" by (simp add: unat_div)
  then have "(addr - m_address b) div PageSize = of_nat k"
    using split_parts(1) [OF assms(1,3,4)] by (simp add: word_unat_eq_iff split_low_def npages_def)
  then show ?thesis using lt c al unfolding Split_def Let_def addr split_low_def split_high_def
    by (simp add: block_assert_def)
qed

lemma split_and_insert_at:
  assumes "blocks s = ls @ b # rs" "iter s = length ls" "chained a (ls @ b # rs) e" "e \<le> space_end" "a mod 4096 = 0"
    and "0 < k" "k < npages b" "unat addr = start_of b + k * 4096" "alloc_wf (allocator s)" "0 < held (allocator s)"
  shows "split_and_insert D addr s =
    Inr (s\<lparr>allocator := taken (allocator s), blocks := ls @ split_low k b # split_high k b # rs\<rparr>)"
proof -
  obtain nb where nb: "alloc_Allocate D (allocator s) = Inr (nb, taken (allocator s))"
    using alloc_Allocate_ok [OF assms(9,10)] by blast
  have f: "fits b" using chained_fits [OF assms(3,4)] by simp
  have "start_of b = a + length (pages ls) * 4096" using assms(3) chained_length [of a ls] by auto
  then have al: "start_of b mod 4096 = 0" using assms(5) by simp
  note parts = split_parts [OF f assms(6,7)]
  have "tree_insert (split_low k b) (ls @ split_high k b # rs) =
      Inr (length ls, ls @ split_low k b # split_high k b # rs)"
  proof (rule tree_insert_at)
    show "fits c \<and> end_of c \<le> start_of (split_low k b)" if "c \<in> set ls" for c
      using assms(3) chained_in [of a ls _ c] chained_fits [OF assms(3,4), of c] that parts(2) by auto
    show "fits c \<and> start_of (split_low k b) < start_of c" if "c \<in> set (split_high k b # rs)" for c
      using assms(3,6) chained_in [of "end_of b" rs e c] chained_fits [OF assms(3,4), of c] that parts f
      by (auto simp: fits_def end_of_def)
  qed
  then show ?thesis
    using nb Split_at [OF f al assms(6-8)] assms(1,2) by (simp add: split_and_insert_def deref_def)
qed

end
