(* ===== verification/Block_Update.thy ===== *)
theory Block_Update
  imports Block_Laws
begin

text \<open>
  The loop over a range of pages: the locale \<open>range_change\<close> has the changes of a block that act on the
  properties of its pages, and the loop proved once for all of them. Then the merging, and what an
  update as a whole does.
\<close>

section \<open>The loop over a range\<close>

text \<open>No two neighbours could be merged.\<close>

abbreviation unmerged :: "KMemoryBlock list \<Rightarrow> bool" where
  "unmerged bs \<equiv> successively (\<lambda>b c. \<not> CanMergeWith b c) bs"

lemma CanMergeWith_split:
  "CanMergeWith (split_high k b) c \<longleftrightarrow> CanMergeWith b c" "CanMergeWith c (split_low k b) \<longleftrightarrow> CanMergeWith c b"
  by (auto simp: CanMergeWith_def HasSameProperties_def split_high_def split_low_def and.assoc)

lemma unmerged_split_high [simp]: "unmerged (split_high k b # rs) \<longleftrightarrow> unmerged (b # rs)"
  by (cases rs) (simp_all add: CanMergeWith_split)

lemma unmerged_split_low [simp]: "unmerged (ls @ [split_low k b]) \<longleftrightarrow> unmerged (ls @ [b])"
  by (cases ls rule: rev_cases) (simp_all add: successively_append_iff CanMergeWith_split)

lemma unat_less_pages:
  assumes "unat w + unat n * 4096 \<le> space_end"
  shows "unat (n * PageSize) = unat n * 4096" "unat (w + n * PageSize) = unat w + unat n * 4096"
proof -
  show p: "unat (n * PageSize) = unat n * 4096" using assms by (intro unat_pages) (simp add: space_end_def)
  show "unat (w + n * PageSize) = unat w + unat n * 4096"
    using assms p unat_plus [of w "n * PageSize"] by (simp add: space_end_def)
qed

lemma replicate_split: "n \<le> m \<Longrightarrow> replicate m x = replicate n x @ replicate (m - n) x"
  by (simp flip: replicate_add)

lemma word_unat_eqI: "unat x = unat y \<Longrightarrow> x = (y :: u64)"
  by (simp add: word_unat_eq_iff)

lemma just_advance_part:
  assumes "fits b" "unat (cur_address s) + unat (remaining_pages s) * 4096 < end_of b"
  shows "just_advance b s = s\<lparr>remaining_pages := 0, cur_address := cur_address s + remaining_pages s * PageSize, iter := iter s + 1\<rparr>"
proof -
  have "unat (cur_address s + remaining_pages s * PageSize) < unat (GetEndAddress b)"
    using assms unat_less_pages [of "cur_address s" "remaining_pages s"] fits_words(2) [OF assms(1)] by (simp add: fits_def)
  then show ?thesis using fits_words(5) [OF assms(1)] by (simp add: just_advance_def Let_def word_less_nat_alt)
qed

lemma just_advance_whole:
  assumes "fits b" "end_of b \<le> unat (cur_address s) + unat (remaining_pages s) * 4096"
    and "unat (cur_address s) + unat (remaining_pages s) * 4096 \<le> space_end" "unat (cur_address s) + m * 4096 = end_of b"
  shows "just_advance b s = s\<lparr>remaining_pages := remaining_pages s - of_nat m, cur_address := GetEndAddress b, iter := iter s + 1\<rparr>"
    and "unat (remaining_pages s - of_nat m) = unat (remaining_pages s) - m"
proof -
  let ?x = "cur_address s + remaining_pages s * PageSize"
  have x: "unat ?x = unat (cur_address s) + unat (remaining_pages s) * 4096"
    using unat_less_pages(2) [OF assms(3)] .
  have e: "unat (GetEndAddress b) = end_of b" using fits_words(2) [OF assms(1)] .
  then have d: "unat (?x - GetEndAddress b) = (unat (remaining_pages s) - m) * 4096"
    using unat_minus [of "GetEndAddress b" ?x] assms(2,4) x by (simp add: word_le_nat_alt diff_mult_distrib)
  have m: "m \<le> unat (remaining_pages s)" using assms(2,4) by simp
  then have mw: "unat (of_nat m :: u64) = m" using assms(3) by (intro unat_of_small) (simp add: space_end_def)
  show r: "unat (remaining_pages s - of_nat m) = unat (remaining_pages s) - m"
    using unat_minus [of "of_nat m" "remaining_pages s"] m mw by (simp add: word_le_nat_alt)
  have "(?x - GetEndAddress b) div PageSize = remaining_pages s - of_nat m"
    using d r by (intro word_unat_eqI) (simp add: unat_div)
  moreover have "\<not> ?x < GetEndAddress b" using x e assms(2) by (simp add: word_less_nat_alt)
  ultimately show "just_advance b s = s\<lparr>remaining_pages := remaining_pages s - of_nat m, cur_address := GetEndAddress b, iter := iter s + 1\<rparr>"
    using fits_words(5) [OF assms(1)] by (simp add: just_advance_def Let_def)
qed

text \<open>No two neighbours could be merged from the first block on that reaches beyond an address.\<close>

fun settled :: "nat \<Rightarrow> KMemoryBlock list \<Rightarrow> bool" where
  "settled r [] \<longleftrightarrow> True"
| "settled r (b # bs) \<longleftrightarrow> (r < end_of b \<longrightarrow> unmerged (b # bs)) \<and> settled r bs"

lemma unmerged_settled: "unmerged bs \<Longrightarrow> settled r bs"
proof (induction bs)
  case (Cons b bs)
  then show ?case by (cases bs) simp_all
qed simp

lemma settled_append: "\<forall>b \<in> set bs. end_of b \<le> r \<Longrightarrow> unmerged cs \<Longrightarrow> settled r (bs @ cs)"
  by (induction bs) (simp_all add: unmerged_settled)

text \<open>A change of \<open>n\<close> pages from number \<open>i\<close> on.\<close>

definition map_pages :: "(PageProps \<Rightarrow> PageProps) \<Rightarrow> nat \<Rightarrow> nat \<Rightarrow> PageProps list \<Rightarrow> PageProps list" where
  "map_pages f i n ps = take i ps @ map f (take n (drop i ps)) @ drop (i + n) ps"

lemma map_pages_append: "length ps = i \<Longrightarrow> map_pages f i n (ps @ qs) = ps @ map f (take n qs) @ drop n qs"
  by (simp add: map_pages_def)

locale range_change =
  fixes D :: bool
    and touch :: "KMemoryBlock \<Rightarrow> bool"
    and change :: "KMemoryBlock \<Rightarrow> block_fault + KMemoryBlock"
    and pupd :: "PageProps \<Rightarrow> PageProps"
    and ok :: "KMemoryBlock \<Rightarrow> bool"
  assumes change_ok: "ok b \<Longrightarrow> touch b \<Longrightarrow> fits b \<Longrightarrow> \<exists>b'. change b = Inr b' \<and> m_address b' = m_address b \<and>
      m_num_pages b' = m_num_pages b \<and> props b' = pupd (props b)"
    and skip_ok: "ok b \<Longrightarrow> \<not> touch b \<Longrightarrow> pupd (props b) = props b"
    and touch_props: "props b = props c \<Longrightarrow> touch b = touch c"
    and ok_split: "ok b \<Longrightarrow> ok (split_low k b) \<and> ok (split_high k b)"
begin

text \<open>A round on a block that starts at the current address and is changed.\<close>

lemma round_whole:
  assumes "touch b" "ok b" "fits b" "start_of b = unat w" "npages b \<le> unat n"
    and "unat w + unat n * 4096 \<le> space_end"
  shows "\<exists>b' w' n'. range_round D touch change \<lparr>cur_address = w, remaining_pages = n, iter = length ls, allocator = al, blocks = ls @ b # rs\<rparr> =
      Inr \<lparr>cur_address = w', remaining_pages = n', iter = length (ls @ [b']), allocator = al, blocks = (ls @ [b']) @ rs\<rparr> \<and>
    start_of b' = start_of b \<and> npages b' = npages b \<and> props b' = pupd (props b) \<and>
    unat w' = end_of b \<and> unat n' = unat n - npages b"
proof -
  obtain b' where b': "change b = Inr b'" "m_address b' = m_address b" "m_num_pages b' = m_num_pages b"
    "props b' = pupd (props b)" using change_ok [OF assms(2,1,3)] by blast
  note fw = fits_words [OF assms(3)]
  have "\<not> GetSize b > n * PageSize"
    using fw(1) unat_less_pages(1) [OF assms(6)] assms(5) by (simp add: word_less_nat_alt)
  moreover have "m_address b = w" using assms(4) by (intro word_unat_eqI) (simp add: start_of_def)
  moreover have "unat (w + GetSize b) = end_of b"
    using unat_plus [of w "GetSize b"] fw(1) assms(3,4) by (simp add: end_of_def fits_def space_end_def)
  moreover have "unat (n - info_GetNumPages (GetMemoryInfo b)) = unat n - npages b"
    using unat_minus [of "info_GetNumPages (GetMemoryInfo b)" n] fw(4) assms(5) by (simp add: word_le_nat_alt)
  ultimately show ?thesis using b' assms(1)
    by (auto simp: range_round_def deref_def split_and_change_def Let_def start_of_def npages_def)
qed

lemma round_last:
  assumes "touch b" "ok b" "chained a (ls @ b # rs) e" "e \<le> space_end" "a mod 4096 = 0"
    and "start_of b = unat w" "0 < unat n" "unat n < npages b" "alloc_wf al" "0 < held al"
  shows "\<exists>b' w'. range_round D touch change \<lparr>cur_address = w, remaining_pages = n, iter = length ls, allocator = al, blocks = ls @ b # rs\<rparr> =
      Inr \<lparr>cur_address = w', remaining_pages = 0, iter = length (ls @ [b']), allocator = taken al,
        blocks = ls @ b' # split_high (unat n) b # rs\<rparr> \<and>
    start_of b' = start_of b \<and> npages b' = unat n \<and> props b' = pupd (props b)"
proof -
  let ?k = "unat n"
  have f: "fits b" using chained_fits [OF assms(3,4)] by simp
  note parts = split_parts [OF f assms(7,8)]
  obtain b' where b': "change (split_low ?k b) = Inr b'" "m_address b' = m_address (split_low ?k b)"
    "m_num_pages b' = m_num_pages (split_low ?k b)" "props b' = pupd (props b)"
    using change_ok [of "split_low ?k b"] ok_split [OF assms(2)] touch_props [OF parts(3)] assms(1) parts(3,9) by metis
  have bound: "unat w + unat n * 4096 \<le> space_end" using assms(6,8) f by (simp add: fits_def end_of_def)
  note uw = unat_less_pages [OF bound]
  have "GetSize b > n * PageSize"
    using fits_words(1) [OF f] uw(1) assms(8) by (simp add: word_less_nat_alt)
  moreover have "m_address b = w" using assms(6) by (intro word_unat_eqI) (simp add: start_of_def)
  moreover have "split_and_insert D (w + n * PageSize) \<lparr>cur_address = w, remaining_pages = n, iter = length ls, allocator = al, blocks = ls @ b # rs\<rparr> =
      Inr \<lparr>cur_address = w, remaining_pages = n, iter = length ls, allocator = taken al,
        blocks = ls @ split_low ?k b # split_high ?k b # rs\<rparr>"
    using split_and_insert_at [where s = "\<lparr>cur_address = w, remaining_pages = n, iter = length ls, allocator = al, blocks = ls @ b # rs\<rparr>"
      and addr = "w + n * PageSize" and k = ?k and D = D, OF _ _ assms(3-5,7,8)] uw(2) assms(6,9,10) by simp
  moreover have "info_GetNumPages (GetMemoryInfo (split_low ?k b)) = n"
    using fits_words(4) [OF parts(9)] parts(1) by (intro word_unat_eqI) simp
  moreover have "start_of b' = start_of b \<and> npages b' = ?k"
    using b'(2,3) parts(1,2) by (simp add: start_of_def npages_def)
  ultimately show ?thesis using b' assms(1)
    by (auto simp: range_round_def deref_def split_and_change_def Let_def)
qed

text \<open>The loop from a block that starts at the current address. What it leaves is a list of blocks inside the
  range and a list of blocks that reach beyond it.\<close>

definition loop_result :: "nat \<Rightarrow> nat \<Rightarrow> nat \<Rightarrow> KMemoryBlock list \<Rightarrow> KMemoryBlockManagerUpdateAllocator
    \<Rightarrow> KMemoryBlock list \<Rightarrow> KMemoryBlock list \<Rightarrow> KMemoryBlockManagerUpdateAllocator \<Rightarrow> bool" where
  "loop_result c e n rs al new tail al' \<longleftrightarrow> chained c (new @ tail) e \<and>
    pages (new @ tail) = map pupd (take n (pages rs)) @ drop n (pages rs) \<and>
    (\<forall>b \<in> set new. end_of b \<le> c + n * 4096) \<and> (\<forall>b \<in> set tail. c + n * 4096 < end_of b) \<and>
    (unmerged rs \<longrightarrow> unmerged tail) \<and> alloc_wf al' \<and>
    (\<forall>k. accounts al (k + length rs) \<longrightarrow> accounts al' (k + length new + length tail))"

lemma range_while_step:
  "0 < unat (remaining_pages s) \<Longrightarrow> body s = Inr s' \<Longrightarrow> range_while body s = range_while body s'"
  "remaining_pages s = 0 \<Longrightarrow> range_while body s = Some (Inr s)"
  by (subst range_while.simps, simp add: word_less_nat_alt) (subst range_while.simps, simp)

lemma loop_result_last:
  assumes "fits b" "chained (end_of b) rs e" "0 < n" "n < npages b" "alloc_wf al" "0 < held al"
    and "start_of b' = start_of b" "npages b' = n" "props b' = pupd (props b)"
  shows "loop_result (start_of b) e n (b # rs) al [b'] (split_high n b # rs) (taken al)"
proof -
  note parts = split_parts [OF assms(1,3,4)]
  have "start_of b + n * 4096 < end_of x" if "x \<in> set (split_high n b # rs)" for x
    using that parts(8) assms(4) chained_in [OF assms(2), of x] by (auto simp: end_of_def)
  moreover have "end_of b' = start_of b + n * 4096" using assms(7,8) by (simp add: end_of_def)
  moreover have "replicate (npages b) (props b) = replicate n (props b) @ replicate (npages b - n) (props b)"
    using replicate_split [of n "npages b"] assms(4) by simp
  ultimately show ?thesis
    using assms parts by (simp add: loop_result_def)
qed

lemma loop_result_skip:
  assumes "chained (start_of b) (b # rs) e" "n < npages b" "alloc_wf al" "pupd (props b) = props b"
  shows "loop_result (start_of b) e n (b # rs) al [] (b # rs) al"
proof -
  have "start_of b + n * 4096 < end_of x" if "x \<in> set (b # rs)" for x
    using that assms(1,2) chained_in [of "end_of b" rs e x] by (auto simp: end_of_def)
  then show ?thesis using assms replicate_split [of n "npages b" "props b"] by (simp add: loop_result_def)
qed

lemma loop_result_Cons:
  assumes "loop_result (end_of b) e (n - npages b) rs al new tail al'" "npages b \<le> n"
    and "start_of b' = start_of b" "npages b' = npages b" "props b' = pupd (props b)" "0 < npages b"
  shows "loop_result (start_of b) e n (b # rs) al (b' # new) tail al'"
proof -
  have e: "end_of b' = end_of b" using assms(3,4) by (simp add: end_of_def)
  have r: "end_of b + (n - npages b) * 4096 = start_of b + n * 4096"
    using assms(2) by (simp add: end_of_def diff_mult_distrib)
  have "unmerged (b # rs) \<Longrightarrow> unmerged rs" by (cases rs) simp_all
  moreover have "accounts al' (k + length (b' # new) + length tail)" if "accounts al (k + length (b # rs))" for k
    using assms(1) that unfolding loop_result_def by (auto dest: spec [of _ "Suc k"])
  moreover have "end_of b \<le> start_of b + n * 4096" using assms(2) by (simp add: end_of_def)
  ultimately show ?thesis
    using assms e r by (auto simp: loop_result_def)
qed

lemma loop_aligned:
  assumes "chained a ls c" "chained c rs e" "e \<le> space_end" "a mod 4096 = 0" "unat w = c"
    and "c + unat n * 4096 \<le> e" "\<forall>b \<in> set rs. start_of b < c + unat n * 4096 \<longrightarrow> ok b" "alloc_wf al" "0 < held al"
  shows "\<exists>new tail s'. range_while (range_round D touch change)
      \<lparr>cur_address = w, remaining_pages = n, iter = length ls, allocator = al, blocks = ls @ rs\<rparr> = Some (Inr s') \<and>
    blocks s' = ls @ new @ tail \<and> loop_result c e (unat n) rs al new tail (allocator s')"
  using assms
proof (induction rs arbitrary: ls c w n)
  case Nil
  then have "n = 0" by (simp add: word_unat_eq_iff)
  then show ?case using Nil by (simp add: range_while_step(2) loop_result_def)
next
  case (Cons b rs)
  have f: "fits b" using chained_fits [OF Cons.prems(2,3)] by simp
  have st: "start_of b = c" "chained (end_of b) rs e" using Cons.prems(2) by simp_all
  have bound: "unat w + unat n * 4096 \<le> space_end" using Cons.prems(3,5,6) by simp
  show ?case
  proof (cases "unat n = 0")
    case True
    then have "n = 0" by (simp add: word_unat_eq_iff)
    moreover have "c < end_of x" if "x \<in> set (b # rs)" for x
      using chained_in [OF Cons.prems(2) that] by (simp add: end_of_def)
    ultimately show ?thesis using Cons.prems
      by (intro exI [of _ "[]"] exI [of _ "b # rs"]) (auto simp: range_while_step(2) loop_result_def)
  next
    case False
    let ?s = "\<lparr>cur_address = w, remaining_pages = n, iter = length ls, allocator = al, blocks = ls @ b # rs\<rparr>"
    have okb: "ok b" using Cons.prems(7) st(1) False by simp
    have continue: ?thesis if round: "range_round D touch change ?s =
        Inr \<lparr>cur_address = w', remaining_pages = n', iter = length (ls @ [b']), allocator = al, blocks = (ls @ [b']) @ rs\<rparr>"
      and b': "start_of b' = start_of b" "npages b' = npages b" "props b' = pupd (props b)" "npages b \<le> unat n"
        "unat w' = end_of b" "unat n' = unat n - npages b" for w' n' b'
    proof -
      have r: "end_of b + (unat n - npages b) * 4096 = c + unat n * 4096"
        using b'(4) st(1) by (simp add: end_of_def diff_mult_distrib)
      have "chained a (ls @ [b']) (end_of b)" using Cons.prems(1) b'(1,2) st f by (auto simp: end_of_def fits_def)
      then obtain new tail s' where "range_while (range_round D touch change)
          \<lparr>cur_address = w', remaining_pages = n', iter = length (ls @ [b']), allocator = al, blocks = (ls @ [b']) @ rs\<rparr> = Some (Inr s')"
        "blocks s' = (ls @ [b']) @ new @ tail" "loop_result (end_of b) e (unat n') rs al new tail (allocator s')"
        using Cons.IH [of "ls @ [b']" "end_of b" w' n'] st Cons.prems b'(5,6) r by auto
      moreover have "range_while (range_round D touch change) ?s = range_while (range_round D touch change)
          \<lparr>cur_address = w', remaining_pages = n', iter = length (ls @ [b']), allocator = al, blocks = (ls @ [b']) @ rs\<rparr>"
        using round False by (intro range_while_step(1)) auto
      ultimately show ?thesis
        using loop_result_Cons [of b e "unat n" rs al new tail _ b'] b' st(1) f
        by (intro exI [of _ "b' # new"] exI [of _ tail] exI [of _ s']) (simp add: fits_def)
    qed
    show ?thesis
    proof (cases "touch b")
      case touched: True
      show ?thesis
      proof (cases "npages b \<le> unat n")
        case True
        then show ?thesis
          using round_whole [OF touched okb f _ True bound, of ls al rs] st(1) Cons.prems(5) continue by metis
      next
        case less: False
        have ch: "chained a (ls @ b # rs) e" using Cons.prems(1,2) st(1) by auto
        obtain b' w' where "range_round D touch change ?s = Inr \<lparr>cur_address = w', remaining_pages = 0,
            iter = length (ls @ [b']), allocator = taken al, blocks = ls @ b' # split_high (unat n) b # rs\<rparr>"
          and b': "start_of b' = start_of b" "npages b' = unat n" "props b' = pupd (props b)"
          using round_last [OF touched okb ch Cons.prems(3,4), of w n al] st(1) Cons.prems(5,8,9) False less by auto
        then show ?thesis
          using range_while_step(1) [of ?s "range_round D touch change"] False
            loop_result_last [OF f st(2) _ _ Cons.prems(8,9) b'] less st(1)
          by (intro exI [of _ "[b']"] exI [of _ "split_high (unat n) b # rs"]) (auto simp: range_while_step(2))
      qed
    next
      case untouched: False
      have round: "range_round D touch change ?s = Inr (just_advance b ?s)"
        using untouched by (simp add: range_round_def deref_def)
      show ?thesis
      proof (cases "npages b \<le> unat n")
        case True
        then show ?thesis
          using continue [of "GetEndAddress b" "n - of_nat (npages b)" b] round
            just_advance_whole [of b ?s "npages b"] f fits_words(2) [OF f] bound Cons.prems(5) st(1) skip_ok [OF okb untouched]
          by (simp add: end_of_def)
      next
        case less: False
        then have "just_advance b ?s = ?s\<lparr>remaining_pages := 0, cur_address := w + n * PageSize, iter := length ls + 1\<rparr>"
          using just_advance_part [OF f, of ?s] st(1) Cons.prems(5) by (simp add: end_of_def)
        then show ?thesis
          using range_while_step(1) [of ?s "range_round D touch change"] round False
            loop_result_skip [of b rs e "unat n" al] less Cons.prems(2,8) st(1) skip_ok [OF okb untouched]
          by (intro exI [of _ "[]"] exI [of _ "b # rs"]) (auto simp: range_while_step(2))
      qed
    qed
  qed
qed

text \<open>What the loop leaves for the merging: a block \<open>p\<close> from which it starts, the blocks before and after.\<close>

definition ready :: "bool \<Rightarrow> nat \<Rightarrow> nat \<Rightarrow> u64 \<Rightarrow> nat \<Rightarrow> KMemoryBlock list \<Rightarrow> KMemoryBlockManagerUpdateAllocator
    \<Rightarrow> KMemoryBlock list \<Rightarrow> KMemoryBlock \<Rightarrow> KMemoryBlock list \<Rightarrow> KMemoryBlockManagerUpdateAllocator \<Rightarrow> bool" where
  "ready u a e addr n bs al xs p ys al' \<longleftrightarrow> chained a (xs @ p # ys) e \<and>
    pages (xs @ p # ys) = map_pages pupd ((unat addr - a) div 4096) n (pages bs) \<and>
    (if unat addr = a then xs = [] else FindIterator (xs @ p # ys) addr = length xs + 1) \<and>
    (u \<longrightarrow> unmerged (xs @ [p]) \<and> settled (unat addr + n * 4096) (p # ys)) \<and> alloc_wf al' \<and>
    (\<forall>k. accounts al (k + length bs) \<longrightarrow> accounts al' (k + length (xs @ p # ys)))"

lemma ready_aligned:
  assumes "chained a ls c" "chained c rs e" "e \<le> space_end" "c < e" "unat addr = c"
    and "loop_result c e n rs al new tail al'"
  shows "\<exists>xs p ys. ls @ new @ tail = xs @ p # ys \<and> ready (unmerged ls \<and> unmerged rs) a e addr n (ls @ rs) al xs p ys al'"
proof -
  have lr: "chained c (new @ tail) e" "\<forall>b \<in> set new. end_of b \<le> c + n * 4096" "unmerged rs \<longrightarrow> unmerged tail"
    using assms(6) unfolding loop_result_def by blast+
  have i: "(c - a) div 4096 = length (pages ls)" using chained_length [OF assms(1)] by simp
  have pg: "pages (ls @ new @ tail) = map_pages pupd ((c - a) div 4096) n (pages (ls @ rs))"
    using assms(6) by (simp add: i loop_result_def map_pages_def)
  have acc: "\<forall>k. accounts al (k + length (ls @ rs)) \<longrightarrow> accounts al' (k + length (ls @ new @ tail))"
  proof (intro allI impI)
    fix k assume "accounts al (k + length (ls @ rs))"
    then have "accounts al ((k + length ls) + length rs)" by (simp add: add.assoc)
    then have "accounts al' ((k + length ls) + length new + length tail)" using assms(6) unfolding loop_result_def by blast
    then show "accounts al' (k + length (ls @ new @ tail))" by (simp add: add.assoc)
  qed
  obtain q qs where q: "new @ tail = q # qs" using lr(1) assms(4) by (cases "new @ tail") auto
  have st: "unmerged rs \<longrightarrow> settled (c + n * 4096) (new @ tail)" using settled_append [OF lr(2)] lr(3) by blast
  show ?thesis
  proof (cases ls rule: rev_cases)
    case Nil
    then have "ready (unmerged ls \<and> unmerged rs) a e addr n (ls @ rs) al [] q qs al'"
      using assms(1,5,6) lr(1) pg st acc q by (auto simp: ready_def loop_result_def simp del: settled.simps)
    then show ?thesis using Nil q by (intro exI [of _ "[]"] exI [of _ q] exI [of _ qs]) simp
  next
    case (snoc xs p)
    have ne: "c \<noteq> a" using assms(1) snoc chained_in [OF assms(1), of p] by (auto simp: end_of_def)
    have ch: "chained a (ls @ new @ tail) e" using assms(1) lr(1) by (auto simp: q)
    have "start_of q = c" "c < end_of q" using lr(1) q by (auto simp: end_of_def)
    then have find: "FindIterator (ls @ q # qs) addr = length ls"
      using ch q assms(3,5) by (intro FindIterator_at [where a = a and e = e]) (simp_all add: q)
    have "end_of p = c" using assms(1) snoc by auto
    then have "ready (unmerged ls \<and> unmerged rs) a e addr n (ls @ rs) al xs p (new @ tail) al'"
      using assms(5,6) pg acc ch find snoc ne q st by (auto simp: ready_def loop_result_def)
    then show ?thesis using snoc by auto
  qed
qed

lemma loop_inside_untouched:
  assumes "\<not> touch b \<or> n = 0" "ls \<noteq> []" "chained a (ls @ b # rs) e" "e \<le> space_end" "a mod 4096 = 0"
    and "unat addr = start_of b + k * 4096" "0 < k" "k < npages b" "unat addr + unat n * 4096 \<le> e"
    and "\<forall>c \<in> set (b # rs). start_of c < unat addr + unat n * 4096 \<longrightarrow> ok c" "alloc_wf al" "0 < held al"
  shows "\<exists>xs p ys s'. range_while (range_round D touch change)
      \<lparr>cur_address = addr, remaining_pages = n, iter = length ls, allocator = al, blocks = ls @ b # rs\<rparr> = Some (Inr s') \<and>
    blocks s' = xs @ p # ys \<and> ready (unmerged (ls @ b # rs)) a e addr (unat n) (ls @ b # rs) al xs p ys (allocator s')"
proof -
  let ?s = "\<lparr>cur_address = addr, remaining_pages = n, iter = length ls, allocator = al, blocks = ls @ b # rs\<rparr>"
  let ?r = "unat addr + unat n * 4096"
  obtain xs p where xs: "ls = xs @ [p]" using assms(2) by (cases ls rule: rev_cases) auto
  have f: "fits b" using chained_fits [OF assms(3,4)] by simp
  have ch: "chained a ls (start_of b)" "chained (end_of b) rs e" using assms(3) by auto
  have inside: "start_of b \<le> unat addr" "unat addr < end_of b" using assms(6,8) by (simp_all add: end_of_def)
  have idx: "(unat addr - a) div 4096 = length (pages ls) + k"
    using chained_length [OF ch(1)] assms(6) by simp
  have ne: "unat addr \<noteq> a" using chained_le [OF ch(1)] assms(6,7) by simp
  have keep: "ready (unmerged (ls @ b # rs)) a e addr (unat n) (ls @ b # rs) al xs p (b # ys) al'"
    if ys: "chained (end_of b) ys e" "pages ys = map pupd (take (unat n - (npages b - k)) (pages rs)) @ drop (unat n - (npages b - k)) (pages rs)"
      and st: "unmerged (b # rs) \<longrightarrow> settled ?r (b # ys)" and al: "alloc_wf al'"
        "\<forall>k. accounts al (k + length rs) \<longrightarrow> accounts al' (k + length ys)" for ys al'
  proof -
    have "0 < unat n \<Longrightarrow> pupd (props b) = props b"
      using assms(1,10) skip_ok [of b] inside(1) by auto
    then have m: "map pupd (take (unat n) (replicate (npages b - k) (props b))) = take (unat n) (replicate (npages b - k) (props b))"
      by (cases "0 < unat n") simp_all
    have "pages (ls @ b # ys) = map_pages pupd (length (pages ls) + k) (unat n) (pages (ls @ b # rs))"
      using m ys(2) assms(8) replicate_split [of k "npages b" "props b"] replicate_split [of "unat n" "npages b - k" "props b"]
      by (auto simp: map_pages_def min_def)
    moreover have "FindIterator (ls @ b # ys) addr = length ls"
      using ch(1) f ys(1) assms(4) inside by (intro FindIterator_at [where a = a and e = e]) (auto simp: fits_def)
    moreover have "unmerged (ls @ b # rs) \<longrightarrow> unmerged ls \<and> unmerged (b # rs)" by (simp add: successively_append_iff)
    moreover have "end_of p \<le> ?r" using ch(1) xs inside by auto
    moreover have "accounts al' (j + length (xs @ p # b # ys))" if "accounts al (j + length (ls @ b # rs))" for j
      using al(2) that xs by (auto dest: spec [of _ "j + length ls + 1"] simp: ac_simps)
    ultimately show ?thesis
      using ch f ys(1) al(1) st ne xs by (auto simp: ready_def idx fits_def simp del: pages_simps)
  qed
  show ?thesis
  proof (cases "n = 0")
    case True
    then show ?thesis
      using keep [of rs al] ch(2) assms(11) xs unmerged_settled [of "b # rs"]
      by (intro exI [of _ xs] exI [of _ p] exI [of _ "b # rs"] exI [of _ ?s]) (auto simp: range_while_step(2))
  next
    case False
    then have untouched: "\<not> touch b" and n0: "0 < unat n" using assms(1) by (simp_all add: unat_gt_0)
    have round: "range_round D touch change ?s = Inr (just_advance b ?s)"
      using untouched by (simp add: range_round_def deref_def)
    show ?thesis
    proof (cases "npages b - k \<le> unat n")
      case True
      let ?m = "npages b - k"
      have m: "unat addr + ?m * 4096 = end_of b" using assms(6,8) by (simp add: end_of_def diff_mult_distrib)
      have le: "end_of b \<le> ?r" using True m by (metis add_le_cancel_left mult_le_mono1)
      have adv: "just_advance b ?s = ?s\<lparr>remaining_pages := n - of_nat ?m, cur_address := GetEndAddress b, iter := length ls + 1\<rparr>"
        "unat (n - of_nat ?m) = unat n - ?m"
        using just_advance_whole [of b ?s ?m] f le m assms(4,9) by simp_all
      have r: "end_of b + (unat n - ?m) * 4096 = ?r" using True m by (simp add: diff_mult_distrib)
      obtain new tail s' where res: "range_while (range_round D touch change)
          \<lparr>cur_address = GetEndAddress b, remaining_pages = n - of_nat ?m, iter = length (ls @ [b]), allocator = al, blocks = (ls @ [b]) @ rs\<rparr> = Some (Inr s')"
        "blocks s' = (ls @ [b]) @ new @ tail" "loop_result (end_of b) e (unat n - ?m) rs al new tail (allocator s')"
        using loop_aligned [of a "ls @ [b]" "end_of b" rs e "GetEndAddress b" "n - of_nat ?m" al] ch f assms(4,5,9-12)
          fits_words(2) [OF f] adv(2) r by (auto simp: fits_def)
      have lr: "chained (end_of b) (new @ tail) e" "unmerged rs \<longrightarrow> unmerged tail" "\<forall>x \<in> set new. end_of x \<le> ?r"
        using res(3) r by (auto simp: loop_result_def)
      have "unmerged (b # rs) \<longrightarrow> settled ?r (b # new @ tail)"
        using lr le settled_append [of "b # new" ?r tail] by (cases rs) auto
      then have "ready (unmerged (ls @ b # rs)) a e addr (unat n) (ls @ b # rs) al xs p (b # new @ tail) (allocator s')"
        using res(3) lr(1) by (intro keep) (auto simp: loop_result_def add.assoc)
      moreover have "range_while (range_round D touch change) ?s = Some (Inr s')"
        using range_while_step(1) [of ?s _ "just_advance b ?s"] round n0 res(1) adv(1) by simp
      ultimately show ?thesis using res(2) xs by (intro exI [of _ xs] exI [of _ p] exI [of _ "b # new @ tail"] exI [of _ s']) simp
    next
      case less: False
      have lt: "?r < end_of b" using less assms(6,8) by (simp add: end_of_def)
      have adv: "just_advance b ?s = ?s\<lparr>remaining_pages := 0, cur_address := addr + n * PageSize, iter := length ls + 1\<rparr>"
        using just_advance_part [OF f, of ?s] lt by simp
      then have "range_while (range_round D touch change) ?s = Some (Inr (just_advance b ?s))"
        using range_while_step(1) [of ?s _ "just_advance b ?s"] round n0 by (simp add: range_while_step(2))
      moreover have "ready (unmerged (ls @ b # rs)) a e addr (unat n) (ls @ b # rs) al xs p (b # rs) al"
        using less ch(2) assms(11) unmerged_settled [of "b # rs"] by (intro keep) auto
      ultimately show ?thesis using xs adv
        by (intro exI [of _ xs] exI [of _ p] exI [of _ "b # rs"] exI [of _ "just_advance b ?s"]) simp
    qed
  qed
qed

lemma loop_inside_touched:
  assumes "touch b" "0 < unat n" "chained a (ls @ b # rs) e" "e \<le> space_end" "a mod 4096 = 0"
    and "unat addr = start_of b + k * 4096" "0 < k" "k < npages b" "unat addr + unat n * 4096 \<le> e"
    and "\<forall>c \<in> set (b # rs). start_of c < unat addr + unat n * 4096 \<longrightarrow> ok c" "alloc_wf al" "held al = 2"
  shows "\<exists>xs p ys s'. range_while (range_round D touch change)
      \<lparr>cur_address = addr, remaining_pages = n, iter = length ls, allocator = al, blocks = ls @ b # rs\<rparr> = Some (Inr s') \<and>
    blocks s' = xs @ p # ys \<and> ready (unmerged (ls @ b # rs)) a e addr (unat n) (ls @ b # rs) al xs p ys (allocator s')"
proof -
  let ?low = "split_low k b" and ?high = "split_high k b"
  let ?s = "\<lparr>cur_address = addr, remaining_pages = n, iter = length ls, allocator = al, blocks = ls @ b # rs\<rparr>"
  let ?t = "\<lparr>cur_address = addr, remaining_pages = n, iter = length (ls @ [?low]), allocator = taken al, blocks = (ls @ [?low]) @ ?high # rs\<rparr>"
  have f: "fits b" using chained_fits [OF assms(3,4)] by simp
  note parts = split_parts [OF f assms(7,8)]
  have at: "m_address ?high = addr" using parts(5) assms(6) by (intro word_unat_eqI) (simp add: start_of_def)
  have "m_address b \<noteq> addr" using assms(6,7) by (auto simp: start_of_def)
  moreover have "split_and_insert D addr ?s = Inr (?s\<lparr>allocator := taken al, blocks := ls @ ?low # ?high # rs\<rparr>)"
    using split_and_insert_at [of ?s ls b rs a e k addr D] assms(3-8,11,12) by simp
  ultimately have "range_round D touch change ?s = range_round D touch change ?t"
    using assms(1) touch_props [OF parts(6)] at
    by (simp add: range_round_def deref_def split_and_change_def Let_def nth_append)
  then have same: "range_while (range_round D touch change) ?s = range_while (range_round D touch change) ?t"
    using assms(2) by (subst (1 2) range_while.simps) (simp add: word_less_nat_alt)
  have ch: "chained a (ls @ [?low]) (unat addr)" "chained (unat addr) (?high # rs) e"
    using assms(3,6-8) parts by auto
  have tk: "alloc_wf (taken al)" "0 < held (taken al)" using assms(11,12) by simp_all
  have "\<forall>c \<in> set (?high # rs). start_of c < unat addr + unat n * 4096 \<longrightarrow> ok c"
    using assms(2,6,10) ok_split [of b k] by (simp add: assms(6))
  then obtain new tail s' where res: "range_while (range_round D touch change) ?t = Some (Inr s')"
    "blocks s' = (ls @ [?low]) @ new @ tail" "loop_result (unat addr) e (unat n) (?high # rs) (taken al) new tail (allocator s')"
    using loop_aligned [OF ch assms(4,5) refl assms(9) _ tk] by metis
  have "unat addr < e" using assms(2,9) by simp
  then obtain xs p ys where xs: "(ls @ [?low]) @ new @ tail = xs @ p # ys"
    and rd: "ready (unmerged (ls @ [?low]) \<and> unmerged (?high # rs)) a e addr (unat n) ((ls @ [?low]) @ ?high # rs) (taken al) xs p ys (allocator s')"
    using ready_aligned [OF ch assms(4) _ refl res(3)] by metis
  have pg: "pages ((ls @ [?low]) @ ?high # rs) = pages (ls @ b # rs)"
    using parts assms(8) replicate_split [of k "npages b" "props b"] by simp
  have um: "unmerged (ls @ b # rs) \<Longrightarrow> unmerged (ls @ [?low]) \<and> unmerged (?high # rs)"
    unfolding unmerged_split_low unmerged_split_high by (auto simp: successively_append_iff)
  have "accounts (allocator s') (j + length (xs @ p # ys))" if "accounts al (j + length (ls @ b # rs))" for j
    using taken_wf(3) [OF assms(11) _ that] assms(12) rd unfolding ready_def by (auto dest: spec [of _ j])
  then have "ready (unmerged (ls @ b # rs)) a e addr (unat n) (ls @ b # rs) al xs p ys (allocator s')"
    using rd um unfolding ready_def pg by blast
  then show ?thesis using same res(1,2) xs by metis
qed

text \<open>The merging goes back one block, so it needs one unless the range starts the space or is split off.\<close>

definition reaches :: "nat \<Rightarrow> u64 \<Rightarrow> u64 \<Rightarrow> KMemoryBlock list \<Rightarrow> bool" where
  "reaches a addr n bs \<longleftrightarrow> unat addr = a \<or> end_of (hd bs) \<le> unat addr \<or> 0 < unat n \<and> touch (hd bs)"

lemma loop_ready:
  assumes "chained a bs e" "e \<le> space_end" "a mod 4096 = 0" "unat addr mod 4096 = 0" "a \<le> unat addr" "unat addr < e"
    and "unat addr + unat n * 4096 \<le> e" "reaches a addr n bs"
    and "\<forall>b \<in> set bs. unat addr < end_of b \<and> start_of b < unat addr + unat n * 4096 \<longrightarrow> ok b" "alloc_wf al" "held al = 2"
  shows "\<exists>xs p ys s'. range_while (range_round D touch change)
      \<lparr>cur_address = addr, remaining_pages = n, iter = FindIterator bs addr, allocator = al, blocks = bs\<rparr> = Some (Inr s') \<and>
    blocks s' = xs @ p # ys \<and> ready (unmerged bs) a e addr (unat n) bs al xs p ys (allocator s')"
proof -
  obtain ls b rs where bs: "bs = ls @ b # rs" "start_of b \<le> unat addr" "unat addr < end_of b"
    using chained_find [OF assms(1,5,6)] .
  have it: "FindIterator bs addr = length ls" using FindIterator_at [of a ls b rs e addr] assms(1,2) bs by simp
  have ch: "chained a ls (start_of b)" "chained (start_of b) (b # rs) e" using assms(1) bs(1) by auto
  have "start_of b mod 4096 = 0" using chained_length [OF ch(1)] assms(3) by simp
  then have dvd: "4096 dvd unat addr - start_of b" using assms(4) bs(2) by (intro dvd_diff_nat) (simp_all add: mod_eq_0_iff_dvd)
  define k where "k = (unat addr - start_of b) div 4096"
  have k: "unat addr = start_of b + k * 4096" "k < npages b"
    using dvd bs(2,3) by (simp_all add: k_def end_of_def less_mult_imp_div_less)
  have okr: "\<forall>c \<in> set (b # rs). start_of c < unat addr + unat n * 4096 \<longrightarrow> ok c"
  proof
    fix c assume c: "c \<in> set (b # rs)"
    have "unat addr < end_of c"
      using c bs(3) ch(2) chained_in [of "end_of b" rs e c] by (auto simp: end_of_def)
    then show "start_of c < unat addr + unat n * 4096 \<longrightarrow> ok c" using assms(9) c bs(1) by auto
  qed
  show ?thesis
  proof (cases "k = 0")
    case True
    then have c: "unat addr = start_of b" using k by simp
    obtain new tail s' where res: "range_while (range_round D touch change)
        \<lparr>cur_address = addr, remaining_pages = n, iter = length ls, allocator = al, blocks = ls @ b # rs\<rparr> = Some (Inr s')"
      "blocks s' = ls @ new @ tail" "loop_result (start_of b) e (unat n) (b # rs) al new tail (allocator s')"
      using loop_aligned [OF ch assms(2,3) c _ okr [unfolded c] assms(10)] assms(7,11) c by (metis zero_less_numeral)
    obtain xs p ys where "ls @ new @ tail = xs @ p # ys"
      "ready (unmerged ls \<and> unmerged (b # rs)) a e addr (unat n) (ls @ b # rs) al xs p ys (allocator s')"
      using ready_aligned [OF ch assms(2) _ c res(3)] assms(6) c by auto
    moreover have "unmerged (ls @ b # rs) \<Longrightarrow> unmerged ls \<and> unmerged (b # rs)" by (simp add: successively_append_iff)
    ultimately show ?thesis using res(1,2) unfolding it unfolding bs(1) ready_def by metis
  next
    case False
    show ?thesis
    proof (cases "touch b \<and> 0 < unat n")
      case True
      then show ?thesis
        using loop_inside_touched [of b n a ls rs e addr k al] assms(1-3,7,10,11) bs(1) k False okr unfolding it unfolding bs(1) by simp
    next
      case untouched: False
      have "ls \<noteq> []"
      proof
        assume "ls = []"
        then have "hd bs = b" "unat addr \<noteq> a" using bs(1) ch(1) k(1) False by simp_all
        then show False using assms(8) untouched bs(3) by (auto simp: reaches_def)
      qed
      then show ?thesis
        using loop_inside_untouched [of b n ls a rs e addr k al] assms(1-3,7,10,11) bs(1) k False okr untouched
        unfolding it unfolding bs(1) by (auto simp: unat_gt_0)
    qed
  qed
qed

end

section \<open>Merging\<close>

lemma block_Add_ok:
  assumes "fits p" "fits b" "end_of p = start_of b" "props p = props b"
  shows "\<exists>p'. block_Add D b p = Inr p' \<and> start_of p' = start_of p \<and> npages p' = npages p + npages b \<and> props p' = props p \<and>
    m_disable_merge_attribute p' = m_disable_merge_attribute p OR m_disable_merge_attribute b"
proof -
  have "0 < m_num_pages b" using assms(2) by (simp add: word_less_nat_alt fits_def npages_def)
  moreover have "m_address p + GetSize b - 1 < GetEndAddress p + GetSize b - 1"
  proof -
    have le: "end_of p + npages b * 4096 \<le> 2 ^ 63" using assms(2,3) by (simp add: fits_def end_of_def space_end_def)
    then have "unat (m_address p + GetSize b) = start_of p + npages b * 4096"
      "unat (GetEndAddress p + GetSize b) = end_of p + npages b * 4096"
      using unat_plus [of "m_address p" "GetSize b"] unat_plus [of "GetEndAddress p" "GetSize b"]
        fits_words(1) [OF assms(2)] fits_words(2) [OF assms(1)] by (simp_all add: start_of_def end_of_def)
    then show ?thesis
      using assms(1,2) unat_minus [of 1 "m_address p + GetSize b"] unat_minus [of 1 "GetEndAddress p + GetSize b"]
      by (auto simp: word_less_nat_alt word_le_nat_alt fits_def end_of_def intro!: diff_less_mono)
  qed
  moreover have "unat (m_num_pages p + m_num_pages b) = npages p + npages b"
    using unat_plus [of "m_num_pages p" "m_num_pages b"] fits_bound [OF assms(1)] fits_bound [OF assms(2)] by (simp add: npages_def)
  ultimately show ?thesis using assms(4)
    by (auto simp: block_Add_def block_assert_def start_of_def npages_def props_def)
qed

text \<open>A merged block has the left side of the first and the right side of the second.\<close>

lemma CanMergeWith_merged:
  assumes "CanMergeWith p b" "props p' = props p" "m_disable_merge_attribute p' = m_disable_merge_attribute p OR m_disable_merge_attribute b"
  shows "CanMergeWith c p' \<longleftrightarrow> CanMergeWith c p" "CanMergeWith p' c \<longleftrightarrow> CanMergeWith b c"
proof -
  have p: "props p = props b" "m_disable_merge_attribute p AND DM_AllRight = 0" "m_disable_merge_attribute b AND DM_AllLeft = 0"
    using assms(1) by (simp_all add: CanMergeWith_def HasSameProperties_props)
  have "m_disable_merge_attribute p' AND DM_AllLeft = m_disable_merge_attribute p AND DM_AllLeft"
    "m_disable_merge_attribute p' AND DM_AllRight = m_disable_merge_attribute b AND DM_AllRight"
    using p(2,3) assms(3) by (simp_all add: bit.conj_disj_distrib2)
  then show "CanMergeWith c p' \<longleftrightarrow> CanMergeWith c p" "CanMergeWith p' c \<longleftrightarrow> CanMergeWith b c"
    using assms(2) p(1) by (simp_all add: CanMergeWith_def HasSameProperties_props)
qed

definition merged :: "nat \<Rightarrow> nat \<Rightarrow> nat \<Rightarrow> KMemoryBlock list \<Rightarrow> KMemoryBlock \<Rightarrow> KMemoryBlock list \<Rightarrow> KMemoryBlockManagerUpdateAllocator
    \<Rightarrow> KMemoryBlockManagerUpdateAllocator \<Rightarrow> KMemoryBlock list \<Rightarrow> bool" where
  "merged r a e xs p ys al al' t \<longleftrightarrow> chained a t e \<and> pages t = pages (xs @ p # ys) \<and>
    (unmerged (xs @ [p]) \<and> settled r (p # ys) \<longrightarrow> unmerged t) \<and> alloc_wf al' \<and>
    (\<forall>k. accounts al (k + length (xs @ p # ys)) \<longrightarrow> accounts al' (k + length t))"

lemma coalesce_loop_merges:
  assumes "chained a (xs @ p # ys) e" "e \<le> space_end" "alloc_wf al" "unat address + unat n * 4096 \<le> space_end"
  shows "\<exists>al' t. coalesce_loop D address n (length xs) al (xs @ p # ys) = Inr (al', t) \<and>
    merged (unat address + unat n * 4096) a e xs p ys al al' t"
  using assms
proof (induction ys arbitrary: xs p al)
  case Nil
  then show ?case by (subst coalesce_loop.simps) (simp add: merged_def)
next
  case (Cons b ys)
  let ?r = "unat address + unat n * 4096"
  have f: "fits p" "fits b" using chained_fits [OF Cons.prems(1,2)] by simp_all
  have ch: "chained a xs (start_of p)" "end_of p = start_of b" "chained (end_of b) ys e" using Cons.prems(1) by auto
  have stop: "address + n * PageSize < info_GetEndAddress (GetMemoryInfo x) \<longleftrightarrow> ?r < end_of x" if "fits x" for x
    using unat_less_pages(2) [OF Cons.prems(4)] fits_words(2,5) [OF that] by (simp add: word_less_nat_alt)
  show ?case
  proof (cases "CanMergeWith p b")
    case True
    then have pr: "props p = props b" by (simp add: CanMergeWith_def HasSameProperties_props)
    obtain p' where p': "block_Add D b p = Inr p'" "start_of p' = start_of p" "npages p' = npages p + npages b"
      "props p' = props p" "m_disable_merge_attribute p' = m_disable_merge_attribute p OR m_disable_merge_attribute b"
      using block_Add_ok [OF f ch(2) pr] by blast
    have e': "end_of p' = end_of b" using p'(2,3) ch(2) by (simp add: end_of_def algebra_simps)
    then have f': "fits p'" using p'(3) f by (simp add: fits_def)
    note cm = CanMergeWith_merged [OF True p'(4,5)]
    obtain al1 where al1: "alloc_Free D b al = Inr al1" "alloc_wf al1" "\<forall>k. accounts al (Suc k) \<longrightarrow> accounts al1 k"
      using alloc_Free_ok [OF Cons.prems(3)] by blast
    have ch': "chained a (xs @ p' # ys) e" using ch p'(2,3) f e' by (auto simp: fits_def)
    have pg: "pages (xs @ p' # ys) = pages (xs @ p # b # ys)" using p'(3,4) pr by (simp add: replicate_add)
    have um: "unmerged (xs @ [p]) \<longrightarrow> unmerged (xs @ [p'])" using cm(1) by (cases xs rule: rev_cases) (simp_all add: successively_append_iff)
    have st: "settled ?r (p # b # ys) \<longrightarrow> settled ?r (p' # ys)" using cm(2) e' by (cases ys) auto
    have carry: "merged ?r a e xs p (b # ys) al al' t" if "merged ?r a e xs p' ys al1 al' t" for al' t
      using that um st pg al1(3) by (auto simp: merged_def simp del: pages_simps settled.simps)
    have step: "coalesce_loop D address n (length xs) al (xs @ p # b # ys) =
      (if ?r < end_of p' then Inr (al1, xs @ p' # ys) else coalesce_loop D address n (length xs) al1 (xs @ p' # ys))"
      using True p'(1) al1(1) stop [OF f'] by (subst coalesce_loop.simps) (simp add: nth_append Let_def)
    show ?thesis
    proof (cases "?r < end_of p'")
      case True
      have "unmerged (xs @ [p']) \<and> settled ?r (p' # ys) \<longrightarrow> unmerged (xs @ p' # ys)"
        using True by (cases ys) (auto simp: successively_append_iff)
      then have "merged ?r a e xs p' ys al1 al1 (xs @ p' # ys)" using ch' al1(2) by (simp add: merged_def)
      then show ?thesis using step True carry by auto
    next
      case False
      then show ?thesis using step Cons.IH [OF ch' Cons.prems(2) al1(2) Cons.prems(4)] carry by auto
    qed
  next
    case False
    have step: "coalesce_loop D address n (length xs) al (xs @ p # b # ys) =
      (if ?r < end_of b then Inr (al, xs @ p # b # ys) else coalesce_loop D address n (length (xs @ [p])) al ((xs @ [p]) @ b # ys))"
      using False stop [OF f(2)] by (subst coalesce_loop.simps) (simp add: nth_append Let_def)
    have um: "unmerged (xs @ [p]) \<longrightarrow> unmerged ((xs @ [p]) @ [b])" using False by (simp add: successively_append_iff)
    show ?thesis
    proof (cases "?r < end_of b")
      case True
      have "unmerged (xs @ [p]) \<and> settled ?r (p # b # ys) \<longrightarrow> unmerged (xs @ p # b # ys)"
        using True False by (auto simp: successively_append_iff)
      then have "merged ?r a e xs p (b # ys) al al (xs @ p # b # ys)" using Cons.prems(1,3) unfolding merged_def by blast
      then show ?thesis using step True by auto
    next
      case less: False
      have ch': "chained a ((xs @ [p]) @ b # ys) e" using Cons.prems(1) by simp
      have carry: "merged ?r a e xs p (b # ys) al al' t" if "merged ?r a e (xs @ [p]) b ys al al' t" for al' t
        using that um unfolding merged_def by (simp add: settled.simps(2) [of _ p])
      then show ?thesis using step less Cons.IH [OF ch' Cons.prems(2-4)] by auto
    qed
  qed
qed

section \<open>An update as a whole\<close>

definition space_wf :: "KMemoryBlockManager \<Rightarrow> bool" where
  "space_wf m \<longleftrightarrow> chained (unat (m_start_address m)) (m_memory_block_tree m) (unat (m_end_address m)) \<and>
    unat (m_end_address m) \<le> space_end \<and> unat (m_start_address m) mod 4096 = 0"

abbreviation pages_of :: "KMemoryBlockManager \<Rightarrow> PageProps list" where
  "pages_of m \<equiv> pages (m_memory_block_tree m)"

definition page_index :: "KMemoryBlockManager \<Rightarrow> u64 \<Rightarrow> nat" where
  "page_index m addr = (unat addr - unat (m_start_address m)) div 4096"

text \<open>The ranges an update may be given: aligned and inside the space.\<close>

definition in_space :: "KMemoryBlockManager \<Rightarrow> u64 \<Rightarrow> u64 \<Rightarrow> bool" where
  "in_space m addr n \<longleftrightarrow> unat addr mod 4096 = 0 \<and> unat (m_start_address m) \<le> unat addr \<and>
    unat addr < unat (m_end_address m) \<and> unat addr + unat n * 4096 \<le> unat (m_end_address m)"

definition overlaps :: "u64 \<Rightarrow> u64 \<Rightarrow> KMemoryBlock \<Rightarrow> bool" where
  "overlaps addr n b \<longleftrightarrow> unat addr < end_of b \<and> start_of b < unat addr + unat n * 4096"

text \<open>What an update by a page function promises.\<close>

definition updated :: "(PageProps \<Rightarrow> PageProps) \<Rightarrow> u64 \<Rightarrow> u64 \<Rightarrow> KMemoryBlockManagerUpdateAllocator \<Rightarrow> KMemoryBlockManager
    \<Rightarrow> KMemoryBlockManagerUpdateAllocator \<Rightarrow> KMemoryBlockManager \<Rightarrow> bool" where
  "updated f addr n al m al' m' \<longleftrightarrow> space_wf m' \<and>
    m_start_address m' = m_start_address m \<and> m_end_address m' = m_end_address m \<and>
    pages_of m' = map_pages f (page_index m addr) (unat n) (pages_of m) \<and>
    (unmerged (m_memory_block_tree m) \<longrightarrow> unmerged (m_memory_block_tree m')) \<and> alloc_wf al' \<and>
    (\<forall>k. accounts al (k + length (m_memory_block_tree m)) \<longrightarrow> accounts al' (k + length (m_memory_block_tree m')))"

context range_change
begin

lemma update_range_updates:
  assumes "space_wf m" "in_space m addr n" "reaches (unat (m_start_address m)) addr n (m_memory_block_tree m)"
    and "\<forall>b \<in> set (m_memory_block_tree m). overlaps addr n b \<longrightarrow> ok b" "alloc_wf al" "held al = 2"
  shows "\<exists>al' m'. update_range D touch change addr n al m = Some (Inr (al', m')) \<and> updated pupd addr n al m al' m'"
proof -
  let ?bs = "m_memory_block_tree m" and ?a = "unat (m_start_address m)" and ?e = "unat (m_end_address m)"
  obtain xs p ys s' where loop: "range_while (range_round D touch change)
      \<lparr>cur_address = addr, remaining_pages = n, iter = FindIterator ?bs addr, allocator = al, blocks = ?bs\<rparr> = Some (Inr s')"
    "blocks s' = xs @ p # ys" "ready (unmerged ?bs) ?a ?e addr (unat n) ?bs al xs p ys (allocator s')"
    using loop_ready [of ?a ?bs ?e addr n al] assms by (auto simp: space_wf_def in_space_def overlaps_def)
  have ch: "chained ?a (xs @ p # ys) ?e" "alloc_wf (allocator s')" using loop(3) by (auto simp: ready_def)
  have lim: "?e \<le> space_end" "unat addr + unat n * 4096 \<le> space_end" using assms(1,2) by (auto simp: space_wf_def in_space_def)
  obtain al' t where co: "coalesce_loop D addr n (length xs) (allocator s') (xs @ p # ys) = Inr (al', t)"
    "merged (unat addr + unat n * 4096) ?a ?e xs p ys (allocator s') al' t"
    using coalesce_loop_merges [OF ch(1) lim(1) ch(2) lim(2)] by blast
  have "CoalesceForUpdate D addr n (allocator s') (m\<lparr>m_memory_block_tree := blocks s'\<rparr>) = Inr (al', m\<lparr>m_memory_block_tree := t\<rparr>)"
  proof (cases "addr = m_start_address m")
    case True
    then have "xs = []" using loop(3) by (simp add: ready_def)
    moreover from this have "FindIterator (xs @ p # ys) addr = 0"
      using ch(1) True lim(1) FindIterator_at [of ?a "[]" p ys ?e addr] by (auto simp: end_of_def)
    ultimately show ?thesis using True loop(2) co(1) by (simp add: CoalesceForUpdate_def)
  next
    case False
    then have "FindIterator (xs @ p # ys) addr = length xs + 1" using loop(3) by (auto simp: ready_def word_unat_eq_iff)
    then show ?thesis using False loop(2) co(1) by (simp add: CoalesceForUpdate_def)
  qed
  moreover have "updated pupd addr n al m al' (m\<lparr>m_memory_block_tree := t\<rparr>)"
    using loop(3) co(2) assms(1) by (auto simp: updated_def ready_def merged_def space_wf_def page_index_def)
  ultimately show ?thesis using loop(1) by (simp add: update_range_def)
qed

end

end
