(* ===== verification/Block_Pages.thy ===== *)
theory Block_Pages
  imports Block_Update
begin

text \<open>
  The updates of the block manager as functions of pages: the locale of changes is interpreted on each of
  them, with the page function it computes and the blocks it may be applied to.
\<close>

section \<open>Page functions\<close>

definition page_has :: "KMemoryState \<Rightarrow> KMemoryPermission \<Rightarrow> KMemoryAttribute \<Rightarrow> PageProps \<Rightarrow> bool" where
  "page_has s p a q \<longleftrightarrow> pp_state q = s \<and> pp_perm q = p \<and>
    pp_attr q OR (Attr_IpcLocked OR Attr_DeviceShared) = a OR (Attr_IpcLocked OR Attr_DeviceShared)"

definition set_page :: "KMemoryState \<Rightarrow> KMemoryPermission \<Rightarrow> KMemoryAttribute \<Rightarrow> PageProps \<Rightarrow> PageProps" where
  "set_page s p a q = q\<lparr>pp_state := s, pp_perm := p,
    pp_attr := a OR (pp_attr q AND (Attr_IpcLocked OR Attr_DeviceShared))\<rparr>"

definition set_page_if :: "KMemoryState \<Rightarrow> KMemoryPermission \<Rightarrow> KMemoryAttribute \<Rightarrow> KMemoryState \<Rightarrow> KMemoryPermission \<Rightarrow> KMemoryAttribute
    \<Rightarrow> PageProps \<Rightarrow> PageProps" where
  "set_page_if ts tp ta s p a q = (if page_has ts tp ta q then set_page s p a q else q)"

definition set_page_attr :: "KMemoryAttribute \<Rightarrow> KMemoryAttribute \<Rightarrow> PageProps \<Rightarrow> PageProps" where
  "set_page_attr msk a q = q\<lparr>pp_attr := (pp_attr q AND NOT msk) OR a\<rparr>"

definition lock_page :: "KMemoryPermission \<Rightarrow> PageProps \<Rightarrow> PageProps" where
  "lock_page perm q =
    (let q = q\<lparr>pp_ipc := pp_ipc q + 1, pp_attr := pp_attr q OR Attr_IpcLocked\<rparr>
     in if pp_ipc q = 1
        then q\<lparr>pp_orig := pp_perm q, pp_perm := (perm AND IpcLockChangeMask) OR (pp_perm q AND NOT IpcLockChangeMask)\<rparr> else q)"

definition unlock_page :: "PageProps \<Rightarrow> PageProps" where
  "unlock_page q =
    (let r = q\<lparr>pp_ipc := pp_ipc q - 1\<rparr>
     in if pp_ipc q = 1 then r\<lparr>pp_perm := pp_orig q, pp_orig := 0, pp_attr := pp_attr q AND NOT Attr_IpcLocked\<rparr> else r)"

definition share_page :: "PageProps \<Rightarrow> PageProps" where
  "share_page q = q\<lparr>pp_dev := pp_dev q + 1, pp_attr := pp_attr q OR Attr_DeviceShared\<rparr>"

definition unshare_page :: "PageProps \<Rightarrow> PageProps" where
  "unshare_page q =
    (let r = q\<lparr>pp_dev := pp_dev q - 1\<rparr>
     in if pp_dev q = 1 then r\<lparr>pp_attr := pp_attr q AND NOT Attr_DeviceShared\<rparr> else r)"

section \<open>Where an update may be applied\<close>

text \<open>With debug assertions on, an update must not meet a locked block, and a lock must not overflow its counts.\<close>

definition plain :: "bool \<Rightarrow> KMemoryAttribute \<Rightarrow> KMemoryBlock \<Rightarrow> bool" where
  "plain D a b \<longleftrightarrow> a AND (Attr_IpcLocked OR Attr_DeviceShared) = 0 \<and>
    (D \<longrightarrow> m_original_permission b = 0 \<and> m_attribute b AND Attr_IpcLocked = 0)"

definition lockable :: "bool \<Rightarrow> KMemoryPermission \<Rightarrow> KMemoryBlock \<Rightarrow> bool" where
  "lockable D perm b \<longleftrightarrow> (D \<longrightarrow>
    (m_attribute b AND Attr_IpcLocked = Attr_IpcLocked \<or> m_ipc_lock_count b = 0) \<and> m_ipc_lock_count b + 1 \<noteq> 0 \<and>
    m_ipc_disable_merge_count b + 1 \<noteq> 0 \<and>
    (m_ipc_lock_count b = 0 \<longrightarrow> m_original_permission b = 0 \<and>
      m_permission b OR perm OR NotMapped = m_permission b OR NotMapped \<and>
      (m_permission b AND UserExecute \<noteq> UserExecute \<or> perm = UserRead)))"

definition shareable :: "bool \<Rightarrow> KMemoryBlock \<Rightarrow> bool" where
  "shareable D b \<longleftrightarrow> (D \<longrightarrow>
    (m_attribute b AND Attr_DeviceShared = Attr_DeviceShared \<or> m_device_use_count b = 0) \<and> m_device_use_count b + 1 \<noteq> 0 \<and>
    m_device_disable_merge_left_count b + 1 \<noteq> 0 \<and> m_device_disable_merge_right_count b + 1 \<noteq> 0)"

lemma HasProperties_page: "HasProperties s p a b \<longleftrightarrow> page_has s p a (props b)"
  by (simp add: HasProperties_def page_has_def props_def)

lemma merge_attr_bits:
  "x OR m = a OR m \<Longrightarrow> a AND m = 0 \<Longrightarrow> a OR (x AND m) = (x :: u8)"
  by (auto simp: bit_eq_iff bit_simps)

lemma set_page_same: "page_has s p a q \<Longrightarrow> a AND (Attr_IpcLocked OR Attr_DeviceShared) = 0 \<Longrightarrow> set_page s p a q = q"
  using merge_attr_bits [of "pp_attr q" "Attr_IpcLocked OR Attr_DeviceShared" a] by (simp add: page_has_def set_page_def)

lemma split_fields:
  "m_original_permission (split_low k b) = m_original_permission b" "m_original_permission (split_high k b) = m_original_permission b"
  "m_attribute (split_low k b) = m_attribute b" "m_attribute (split_high k b) = m_attribute b"
  "m_permission (split_low k b) = m_permission b" "m_permission (split_high k b) = m_permission b"
  "m_ipc_lock_count (split_low k b) = m_ipc_lock_count b" "m_ipc_lock_count (split_high k b) = m_ipc_lock_count b"
  "m_device_use_count (split_low k b) = m_device_use_count b" "m_device_use_count (split_high k b) = m_device_use_count b"
  "m_ipc_disable_merge_count (split_low k b) = m_ipc_disable_merge_count b" "m_ipc_disable_merge_count (split_high k b) = 0"
  "m_device_disable_merge_left_count (split_low k b) = m_device_disable_merge_left_count b"
  "m_device_disable_merge_left_count (split_high k b) = 0"
  "m_device_disable_merge_right_count (split_low k b) = 0"
  "m_device_disable_merge_right_count (split_high k b) = m_device_disable_merge_right_count b"
  by (simp_all add: split_low_def split_high_def)

lemma block_Update_page:
  "plain D a b \<Longrightarrow> \<exists>b'. block_Update D s p a left setm clear b = Inr b' \<and> m_address b' = m_address b \<and>
    m_num_pages b' = m_num_pages b \<and> props b' = set_page s p a (props b)"
  by (auto simp: plain_def block_Update_def block_assert_def Let_def props_def set_page_def)

interpretation set_range: range_change D "\<lambda>b. \<not> HasProperties s p a b"
    "\<lambda>b. block_Update D s p a (m_address b = addr) setm clear b" "set_page s p a" "plain D a" for D s p a addr setm clear
  by unfold_locales (auto simp: HasProperties_page set_page_same plain_def split_fields intro: block_Update_page)

interpretation set_range_if: range_change D "\<lambda>b. HasProperties ts tp ta b \<and> \<not> HasProperties s p a b"
    "\<lambda>b. block_Update D s p a False setm clear b" "set_page_if ts tp ta s p a" "plain D a" for D ts tp ta s p a setm clear
proof
  fix b
  assume "plain D a b" "HasProperties ts tp ta b \<and> \<not> HasProperties s p a b"
  then show "\<exists>b'. block_Update D s p a False setm clear b = Inr b' \<and> m_address b' = m_address b \<and>
      m_num_pages b' = m_num_pages b \<and> props b' = set_page_if ts tp ta s p a (props b)"
    using block_Update_page [of D a b s p False setm clear] by (simp add: set_page_if_def HasProperties_page)
qed (auto simp: HasProperties_page set_page_same set_page_if_def plain_def split_fields)

lemma attr_mask_bits: "x AND m = a \<Longrightarrow> (x AND NOT m) OR a = (x :: u8)"
  by (auto simp: bit_eq_iff bit_simps)

interpretation attr_range: range_change D "\<lambda>b. m_attribute b AND msk \<noteq> a" "block_UpdateAttribute D msk a" "set_page_attr msk a"
    "\<lambda>b. D \<longrightarrow> msk AND Attr_IpcLocked = 0 \<and> msk AND Attr_DeviceShared = 0" for D msk a
  by unfold_locales
    (auto simp: block_UpdateAttribute_def block_assert_def props_def set_page_attr_def attr_mask_bits)

text \<open>Every lock function changes the page properties of a block by its page function, whatever its end flags.\<close>

definition locks_as :: "(KMemoryBlock \<Rightarrow> block_fault + KMemoryBlock) \<Rightarrow> (PageProps \<Rightarrow> PageProps) \<Rightarrow> KMemoryBlock \<Rightarrow> bool" where
  "locks_as lock f b \<longleftrightarrow> (\<exists>b'. lock b = Inr b' \<and> m_address b' = m_address b \<and> m_num_pages b' = m_num_pages b \<and> props b' = f (props b))"

lemma block_assert_ok: "(D \<Longrightarrow> c) \<Longrightarrow> block_assert D c = Inr ()"
  by (auto simp: block_assert_def)

lemma LockForIpc_page:
  assumes "lockable D perm b"
  shows "locks_as (LockForIpc D perm left right) (lock_page perm) b"
proof -
  let ?c = "b\<lparr>m_ipc_lock_count := m_ipc_lock_count b + 1\<rparr>"
  define d where "d = (if m_ipc_lock_count ?c = 1 then ?c\<lparr>m_original_permission := m_permission b,
    m_permission := (perm AND IpcLockChangeMask) OR (m_permission b AND NOT IpcLockChangeMask)\<rparr> else ?c)"
  have a: "block_assert D (m_attribute b AND Attr_IpcLocked = Attr_IpcLocked \<or> m_ipc_lock_count b = 0) = Inr ()"
    "block_assert D (0 < m_ipc_lock_count ?c) = Inr ()" "block_assert D (0 < m_ipc_disable_merge_count b + 1) = Inr ()"
    using assms by (auto simp: lockable_def word_gt_0 intro!: block_assert_ok)
  have "(if m_ipc_lock_count ?c = 1 then
      bindF (block_assert D (m_original_permission ?c = 0)) (\<lambda>_.
      bindF (block_assert D (m_permission ?c OR perm OR NotMapped = m_permission ?c OR NotMapped)) (\<lambda>_.
      bindF (block_assert D (m_permission ?c AND UserExecute \<noteq> UserExecute \<or> perm = UserRead)) (\<lambda>_.
      Inr (?c\<lparr>m_original_permission := m_permission ?c,
        m_permission := (perm AND IpcLockChangeMask) OR (m_permission ?c AND NOT IpcLockChangeMask)\<rparr>))))
      else Inr ?c) = Inr d"
    using assms by (auto simp: lockable_def d_def block_assert_def)
  then have l: "LockForIpc D perm left right b = (let b = d\<lparr>m_attribute := m_attribute d OR Attr_IpcLocked\<rparr> in
      if left then
        let b = b\<lparr>m_disable_merge_attribute := m_disable_merge_attribute b OR DM_IpcLeft,
              m_ipc_disable_merge_count := m_ipc_disable_merge_count b + 1\<rparr>
        in bindF (block_assert D (m_ipc_disable_merge_count b > 0)) (\<lambda>_. Inr b)
      else Inr b)"
    using a(1,2) by (simp only: LockForIpc_def Let_def bindF_simps)
  have d: "m_ipc_disable_merge_count d = m_ipc_disable_merge_count b" "m_address d = m_address b" "m_num_pages d = m_num_pages b"
    "props (d\<lparr>m_attribute := m_attribute d OR Attr_IpcLocked\<rparr>) = lock_page perm (props b)"
    by (simp_all add: d_def props_def lock_page_def Let_def)
  show ?thesis unfolding locks_as_def l using a(3) d by (cases left) (simp_all add: Let_def props_def)
qed

lemma UnlockForIpc_page: "locks_as (UnlockForIpc False perm left right) unlock_page b"
  unfolding locks_as_def
  by (cases left; cases "m_ipc_lock_count b = 1")
    (simp_all add: UnlockForIpc_def block_assert_def Let_def props_def unlock_page_def)

lemma share_merge_state:
  assumes "D \<Longrightarrow> m_device_disable_merge_left_count b + 1 \<noteq> 0 \<and> m_device_disable_merge_right_count b + 1 \<noteq> 0"
  shows "\<exists>b'. UpdateDeviceDisableMergeStateForShare D perm left right b = Inr b' \<and> m_address b' = m_address b \<and>
    m_num_pages b' = m_num_pages b \<and> props b' = props b"
proof -
  have "block_assert D (0 < m_device_disable_merge_left_count b + 1) = Inr ()"
    "block_assert D (0 < m_device_disable_merge_right_count b + 1) = Inr ()"
    using assms by (auto simp: word_gt_0 intro!: block_assert_ok)
  then show ?thesis
    by (cases left; cases right) (simp_all add: UpdateDeviceDisableMergeStateForShare_def
      UpdateDeviceDisableMergeStateForShareLeft_def UpdateDeviceDisableMergeStateForShareRight_def Let_def props_def)
qed

lemma ShareToDevice_page:
  assumes "shareable D b"
  shows "locks_as (ShareToDevice D perm left right) share_page b"
proof -
  let ?c = "b\<lparr>m_device_use_count := m_device_use_count b + 1\<rparr>"
  have a: "block_assert D (m_attribute b AND Attr_DeviceShared = Attr_DeviceShared \<or> m_device_use_count b = 0) = Inr ()"
    "block_assert D (0 < m_device_use_count ?c) = Inr ()"
    using assms by (auto simp: shareable_def word_gt_0 intro!: block_assert_ok)
  have s: "ShareToDevice D perm left right b = UpdateDeviceDisableMergeStateForShare D perm left right
      (?c\<lparr>m_attribute := m_attribute ?c OR Attr_DeviceShared\<rparr>)"
    using a by (simp only: ShareToDevice_def Let_def bindF_simps)
  let ?d = "?c\<lparr>m_attribute := m_attribute ?c OR Attr_DeviceShared\<rparr>"
  have "D \<Longrightarrow> m_device_disable_merge_left_count ?d + 1 \<noteq> 0 \<and> m_device_disable_merge_right_count ?d + 1 \<noteq> 0"
    using assms by (simp add: shareable_def)
  then obtain b' where "UpdateDeviceDisableMergeStateForShare D perm left right ?d = Inr b'"
    "m_address b' = m_address ?d" "m_num_pages b' = m_num_pages ?d" "props b' = props ?d"
    using share_merge_state [of D ?d perm left right] by blast
  then show ?thesis unfolding locks_as_def s by (simp add: props_def share_page_def)
qed

lemma unshare_count_page: "locks_as (unshare_count False) unshare_page b"
  unfolding locks_as_def
  by (cases "m_device_use_count b = 1") (simp_all add: unshare_count_def block_assert_def Let_def props_def unshare_page_def)

lemma unshare_merge_state:
  "\<exists>b'. UpdateDeviceDisableMergeStateForUnshareLeft False perm left right b = Inr b' \<and> m_address b' = m_address b \<and>
    m_num_pages b' = m_num_pages b \<and> props b' = props b"
  "\<exists>b'. UpdateDeviceDisableMergeStateForUnshareRight False perm left right b = Inr b' \<and> m_address b' = m_address b \<and>
    m_num_pages b' = m_num_pages b \<and> props b' = props b"
  by (auto simp: UpdateDeviceDisableMergeStateForUnshareLeft_def UpdateDeviceDisableMergeStateForUnshareRight_def
    block_assert_def Let_def props_def)

lemma UnshareToDevice_page: "locks_as (UnshareToDevice False perm left right) unshare_page b"
  using unshare_count_page [of b] unfolding locks_as_def UnshareToDevice_def UpdateDeviceDisableMergeStateForUnshare_def
  by (metis bindF_simps(2) unshare_merge_state)

lemma UnshareToDeviceRight_page: "locks_as (UnshareToDeviceRight False perm left right) unshare_page b"
  using unshare_count_page [of b] unfolding locks_as_def UnshareToDeviceRight_def
  by (metis bindF_simps(2) unshare_merge_state(2))

lemma lockable_split: "lockable D perm b \<Longrightarrow> lockable D perm (split_low k b) \<and> lockable D perm (split_high k b)"
  by (simp add: lockable_def split_fields)

lemma shareable_split: "shareable D b \<Longrightarrow> shareable D (split_low k b) \<and> shareable D (split_high k b)"
  by (simp add: shareable_def split_fields)

interpretation ipc_lock: range_change D "\<lambda>b. True" "\<lambda>b. LockForIpc D perm (m_address b = addr) (GetEndAddress b = end_addr) b"
    "lock_page perm" "lockable D perm" for D perm addr end_addr
  by unfold_locales (use LockForIpc_page lockable_split in \<open>simp_all add: locks_as_def\<close>)

interpretation ipc_unlock: range_change False "\<lambda>b. True" "\<lambda>b. UnlockForIpc False perm (m_address b = addr) (GetEndAddress b = end_addr) b"
    "unlock_page" "\<lambda>b. True" for perm addr end_addr
  by unfold_locales (use UnlockForIpc_page in \<open>simp_all add: locks_as_def\<close>)

interpretation device_share: range_change D "\<lambda>b. True" "\<lambda>b. ShareToDevice D perm (m_address b = addr) (GetEndAddress b = end_addr) b"
    "share_page" "shareable D" for D perm addr end_addr
  by unfold_locales (use ShareToDevice_page shareable_split in \<open>simp_all add: locks_as_def\<close>)

interpretation device_unshare: range_change False "\<lambda>b. True" "\<lambda>b. UnshareToDevice False perm (m_address b = addr) (GetEndAddress b = end_addr) b"
    "unshare_page" "\<lambda>b. True" for perm addr end_addr
  by unfold_locales (use UnshareToDevice_page in \<open>simp_all add: locks_as_def\<close>)

interpretation device_unshare_right: range_change False "\<lambda>b. True"
    "\<lambda>b. UnshareToDeviceRight False perm (m_address b = addr) (GetEndAddress b = end_addr) b" "unshare_page" "\<lambda>b. True" for perm addr end_addr
  by unfold_locales (use UnshareToDeviceRight_page in \<open>simp_all add: locks_as_def\<close>)

end
