(* ===== verification/Block_History.thy ===== *)
theory Block_History
  imports Block_Behaviour
begin

text \<open>
  Histories of an address space: the space is set up, then updates follow one another, each with an
  allocator of its own that takes two blocks from the slab heap and gives back what it has left. After
  every history the audit of the source holds, the space is partitioned, and the slab heap has handed out
  exactly the blocks of the tree.
\<close>

section \<open>Operations\<close>

datatype SpaceOp =
    OpUpdate u64 u64 KMemoryState KMemoryPermission KMemoryAttribute u8 u8
  | OpUpdateIfMatch u64 u64 KMemoryState KMemoryPermission KMemoryAttribute KMemoryState KMemoryPermission KMemoryAttribute u8 u8
  | OpUpdateAttribute u64 u64 KMemoryAttribute KMemoryAttribute
  | OpLockForIpc u64 u64 KMemoryPermission
  | OpUnlockForIpc u64 u64 KMemoryPermission
  | OpShareToDevice u64 u64 KMemoryPermission
  | OpUnshareToDevice u64 u64 KMemoryPermission

fun apply_op :: "bool \<Rightarrow> SpaceOp \<Rightarrow> KMemoryBlockManagerUpdateAllocator \<Rightarrow> KMemoryBlockManager
    \<Rightarrow> (block_fault + KMemoryBlockManagerUpdateAllocator \<times> KMemoryBlockManager) option" where
  "apply_op D (OpUpdate addr n s p a setm clear) al m = manager_Update D al addr n s p a setm clear m"
| "apply_op D (OpUpdateIfMatch addr n ts tp ta s p a setm clear) al m = UpdateIfMatch D al addr n ts tp ta s p a setm clear m"
| "apply_op D (OpUpdateAttribute addr n msk a) al m = manager_UpdateAttribute D al addr n msk a m"
| "apply_op D (OpLockForIpc addr n perm) al m = UpdateLock D al addr n LockForIpc perm m"
| "apply_op D (OpUnlockForIpc addr n perm) al m = UpdateLock D al addr n UnlockForIpc perm m"
| "apply_op D (OpShareToDevice addr n perm) al m = UpdateLock D al addr n ShareToDevice perm m"
| "apply_op D (OpUnshareToDevice addr n perm) al m = UpdateLock D al addr n UnshareToDevice perm m"

definition all_overlapping :: "u64 \<Rightarrow> u64 \<Rightarrow> (KMemoryBlock \<Rightarrow> bool) \<Rightarrow> KMemoryBlockManager \<Rightarrow> bool" where
  "all_overlapping addr n P m \<longleftrightarrow> (\<forall>b \<in> set (m_memory_block_tree m). overlaps addr n b \<longrightarrow> P b)"

abbreviation locks :: KMemoryAttribute where "locks \<equiv> Attr_IpcLocked OR Attr_DeviceShared"

text \<open>What the callers see to: the range is in the space, attributes do not touch the lock bits, updates do not touch
  locked blocks, and locks do not overflow. Unlocks are covered with assertions that only log.\<close>

fun allowed :: "bool \<Rightarrow> SpaceOp \<Rightarrow> KMemoryBlockManager \<Rightarrow> bool" where
  "allowed D (OpUpdate addr n s p a setm clear) m \<longleftrightarrow> in_space m addr n \<and> a AND locks = 0 \<and>
    not_first (\<lambda>b. \<not> HasProperties s p a b) addr n m \<and> all_overlapping addr n (plain True a) m"
| "allowed D (OpUpdateIfMatch addr n ts tp ta s p a setm clear) m \<longleftrightarrow> in_space m addr n \<and> a AND locks = 0 \<and>
    not_first (\<lambda>b. HasProperties ts tp ta b \<and> \<not> HasProperties s p a b) addr n m \<and> all_overlapping addr n (plain True a) m"
| "allowed D (OpUpdateAttribute addr n msk a) m \<longleftrightarrow> in_space m addr n \<and> a AND locks = 0 \<and> msk AND locks = 0 \<and>
    not_first (\<lambda>b. m_attribute b AND msk \<noteq> a) addr n m"
| "allowed D (OpLockForIpc addr n perm) m \<longleftrightarrow> in_space m addr n \<and> 0 < n \<and> all_overlapping addr n (lockable True perm) m"
| "allowed D (OpUnlockForIpc addr n perm) m \<longleftrightarrow> in_space m addr n \<and> 0 < n \<and> \<not> D"
| "allowed D (OpShareToDevice addr n perm) m \<longleftrightarrow> in_space m addr n \<and> 0 < n \<and> all_overlapping addr n (shareable True) m"
| "allowed D (OpUnshareToDevice addr n perm) m \<longleftrightarrow> in_space m addr n \<and> 0 < n \<and> \<not> D"

fun op_range :: "SpaceOp \<Rightarrow> u64 \<times> u64" where
  "op_range (OpUpdate addr n s p a setm clear) = (addr, n)"
| "op_range (OpUpdateIfMatch addr n ts tp ta s p a setm clear) = (addr, n)"
| "op_range (OpUpdateAttribute addr n msk a) = (addr, n)"
| "op_range (OpLockForIpc addr n perm) = (addr, n)"
| "op_range (OpUnlockForIpc addr n perm) = (addr, n)"
| "op_range (OpShareToDevice addr n perm) = (addr, n)"
| "op_range (OpUnshareToDevice addr n perm) = (addr, n)"

text \<open>The abstract operation: a function applied to the pages of a range.\<close>

fun op_page :: "SpaceOp \<Rightarrow> PageProps \<Rightarrow> PageProps" where
  "op_page (OpUpdate addr n s p a setm clear) = set_page s p a"
| "op_page (OpUpdateIfMatch addr n ts tp ta s p a setm clear) = set_page_if ts tp ta s p a"
| "op_page (OpUpdateAttribute addr n msk a) = set_page_attr msk a"
| "op_page (OpLockForIpc addr n perm) = lock_page perm"
| "op_page (OpUnlockForIpc addr n perm) = unlock_page"
| "op_page (OpShareToDevice addr n perm) = share_page"
| "op_page (OpUnshareToDevice addr n perm) = unshare_page"

section \<open>Every operation returns and does what its page function says\<close>

lemma plain_mono: "plain True a b \<Longrightarrow> plain D a b"
  by (simp add: plain_def)

lemma locks_parts: "msk AND locks = 0 \<Longrightarrow> msk AND Attr_IpcLocked = 0 \<and> msk AND Attr_DeviceShared = 0"
  by (metis (no_types) and.assoc and_zero_eq word_bw_comms(1) bit.conj_disj_distrib or_eq_0_iff)

lemma Update_range:
  assumes "space_wf m" "in_space m addr n" "alloc_wf al" "held al = 2" "a AND locks = 0"
    and "not_first (\<lambda>b. \<not> HasProperties s p a b) addr n m" "all_overlapping addr n (plain True a) m"
  shows "\<exists>al' m'. manager_Update D al addr n s p a setm clear m = Some (Inr (al', m')) \<and> updated (set_page s p a) addr n al m al' m'"
  using set_range.update_range_updates [of m addr n s p a D al addr setm clear] assms
  by (auto simp: manager_Update_def assert_then_ok in_space_aligned all_overlapping_def plain_mono set_range.reaches_def not_first_def
    word_unat_eq_iff [of addr] word_less_nat_alt)

lemma UpdateIfMatch_range:
  assumes "space_wf m" "in_space m addr n" "alloc_wf al" "held al = 2" "a AND locks = 0"
    and "not_first (\<lambda>b. HasProperties ts tp ta b \<and> \<not> HasProperties s p a b) addr n m" "all_overlapping addr n (plain True a) m"
  shows "\<exists>al' m'. UpdateIfMatch D al addr n ts tp ta s p a setm clear m = Some (Inr (al', m')) \<and>
    updated (set_page_if ts tp ta s p a) addr n al m al' m'"
  using set_range_if.update_range_updates [of m addr n ts tp ta s p a D al setm clear] assms
  by (auto simp: UpdateIfMatch_def assert_then_ok in_space_aligned all_overlapping_def plain_mono set_range_if.reaches_def not_first_def
    word_unat_eq_iff [of addr] word_less_nat_alt)

lemma UpdateAttribute_range:
  assumes "space_wf m" "in_space m addr n" "alloc_wf al" "held al = 2" "msk AND locks = 0"
    and "not_first (\<lambda>b. m_attribute b AND msk \<noteq> a) addr n m"
  shows "\<exists>al' m'. manager_UpdateAttribute D al addr n msk a m = Some (Inr (al', m')) \<and> updated (set_page_attr msk a) addr n al m al' m'"
  using attr_range.update_range_updates [of m addr n msk a D al] assms locks_parts [of msk]
  by (auto simp: manager_UpdateAttribute_def assert_then_ok in_space_aligned attr_range.reaches_def not_first_def
    word_unat_eq_iff [of addr] word_less_nat_alt)

lemmas range_ops = Update_range UpdateIfMatch_range UpdateAttribute_range LockForIpc_range UnlockForIpc_range ShareToDevice_range
  UnshareToDevice_range

lemma lockable_mono: "lockable True perm b \<Longrightarrow> lockable D perm b" "shareable True b \<Longrightarrow> shareable D b"
  by (simp_all add: lockable_def shareable_def)

lemma apply_op_updates:
  assumes "allowed D op m" "space_wf m" "alloc_wf al" "held al = 2" "op_range op = (addr, n)"
  shows "\<exists>al' m'. apply_op D op al m = Some (Inr (al', m')) \<and> updated (op_page op) addr n al m al' m'"
  using assms by (cases op) (simp_all add: all_overlapping_def lockable_mono range_ops)

section \<open>Counts\<close>

lemma flag_iff: "x AND Attr_IpcLocked = 0 \<longleftrightarrow> \<not> bit x 1" "x AND Attr_DeviceShared = 0 \<longleftrightarrow> \<not> bit x 2"
  using bit_iff_and_push_bit_not_eq_0 [of x 1] bit_iff_and_push_bit_not_eq_0 [of x 2]
  by (simp_all add: Attr_IpcLocked_def Attr_DeviceShared_def)

lemma bit_flags: "bit Attr_IpcLocked n \<longleftrightarrow> n = 1" "bit Attr_DeviceShared n \<longleftrightarrow> n = 2"
  by (auto simp: Attr_IpcLocked_def Attr_DeviceShared_def bit_simps simp del: push_bit_of_1)

lemma page_counted_bits: "page_counted q \<longleftrightarrow> (bit (pp_attr q) 1 \<longrightarrow> pp_ipc q \<noteq> 0) \<and> (bit (pp_attr q) 2 \<longrightarrow> pp_dev q \<noteq> 0)"
  by (simp add: page_counted_def flag_iff)

lemma locks_bits: "a AND locks = 0 \<Longrightarrow> \<not> bit a 1 \<and> \<not> bit a 2"
  using locks_parts [of a] by (simp add: flag_iff)

lemma op_page_counted:
  assumes "allowed D op m" "page_counted q"
    and "\<And>perm addr n. op = OpLockForIpc addr n perm \<Longrightarrow> pp_ipc q + 1 \<noteq> 0"
    and "\<And>perm addr n. op = OpShareToDevice addr n perm \<Longrightarrow> pp_dev q + 1 \<noteq> 0"
  shows "page_counted (op_page op q)"
  using assms
  by (cases op)
    (auto simp: page_counted_bits set_page_def set_page_if_def set_page_attr_def lock_page_def unlock_page_def share_page_def
      unshare_page_def Let_def bit_simps bit_flags dest!: locks_bits)

text \<open>The pages of a range belong to blocks that overlap it.\<close>

lemma range_pages:
  assumes "chained a bs e" "q \<in> set (take n (drop i (pages bs)))"
  shows "\<exists>b \<in> set bs. props b = q \<and> a + i * 4096 < end_of b \<and> start_of b < a + i * 4096 + n * 4096"
  using assms
proof (induction bs arbitrary: a i n)
  case (Cons b bs)
  have b: "start_of b = a" "chained (end_of b) bs e" using Cons.prems(1) by simp_all
  consider (here) "q \<in> set (take n (replicate (npages b - i) (props b)))"
    | (later) "q \<in> set (take (n - (npages b - i)) (drop (i - npages b) (pages bs)))"
    using Cons.prems(2) by (auto simp: min_def split: if_splits)
  then show ?case
  proof cases
    case here
    then have "i < npages b" "0 < n" "q = props b" by (auto simp: min_def split: if_splits)
    then show ?thesis using b(1) by (auto simp: end_of_def)
  next
    case later
    then obtain c where c: "c \<in> set bs" "props c = q" "end_of b + (i - npages b) * 4096 < end_of c"
      "start_of c < end_of b + (i - npages b) * 4096 + (n - (npages b - i)) * 4096"
      using Cons.IH [OF b(2)] by blast
    have "n - (npages b - i) \<noteq> 0" using later by (cases "n - (npages b - i)") auto
    then have "end_of b + (i - npages b) * 4096 + (n - (npages b - i)) * 4096 = a + i * 4096 + n * 4096"
      "a + i * 4096 \<le> end_of b + (i - npages b) * 4096"
      using b(1) by (simp_all add: end_of_def diff_mult_distrib)
    then show ?thesis using c by (intro bexI [of _ c]) auto
  qed
qed simp

lemma overlapping_pages:
  assumes "space_wf m" "in_space m addr n" "all_overlapping addr n P m"
    and "q \<in> set (take (unat n) (drop (page_index m addr) (pages_of m)))"
  shows "\<exists>b. props b = q \<and> P b"
proof -
  let ?a = "unat (m_start_address m)"
  have "4096 dvd unat addr - ?a"
    using assms(1,2) by (intro dvd_diff_nat) (simp_all add: in_space_def space_wf_def mod_eq_0_iff_dvd)
  then have "?a + page_index m addr * 4096 = unat addr" using assms(2) by (simp add: page_index_def in_space_def)
  then show ?thesis
    using range_pages [OF _ assms(4)] assms(1,3) by (fastforce simp: space_wf_def all_overlapping_def overlaps_def)
qed

lemma set_map_pages: "set (map_pages f i n ps) \<subseteq> set ps \<union> f ` set (take n (drop i ps))"
  by (auto simp: map_pages_def dest: in_set_takeD in_set_dropD)

lemma update_counted:
  assumes "allowed D op m" "space_wf m" "op_range op = (addr, n)" "updated (op_page op) addr n al m al' m'"
    and "\<forall>q \<in> set (pages_of m). page_counted q"
  shows "\<forall>q \<in> set (pages_of m'). page_counted q"
proof -
  let ?slice = "take (unat n) (drop (page_index m addr) (pages_of m))"
  have ins: "in_space m addr n" using assms(1,3) by (cases op) auto
  have "page_counted (op_page op q)" if q: "q \<in> set ?slice" for q
  proof (rule op_page_counted [OF assms(1)])
    show "page_counted q" using q assms(5) by (auto dest: in_set_takeD in_set_dropD)
    show "pp_ipc q + 1 \<noteq> 0" if "op = OpLockForIpc addr' n' perm" for addr' n' perm
      using overlapping_pages [OF assms(2) ins _ q, of "lockable True perm"] that assms(1,3) by (auto simp: lockable_def props_def)
    show "pp_dev q + 1 \<noteq> 0" if "op = OpShareToDevice addr' n' perm" for addr' n' perm
      using overlapping_pages [OF assms(2) ins _ q, of "shareable True"] that assms(1,3) by (auto simp: shareable_def props_def)
  qed
  moreover have "pages_of m' = map_pages (op_page op) (page_index m addr) (unat n) (pages_of m)"
    using assms(4) by (simp add: updated_def)
  ultimately show ?thesis using set_map_pages assms(5) by fastforce
qed

section \<open>Histories\<close>

inductive space_history :: "bool \<Rightarrow> nat \<Rightarrow> KMemoryBlockSlabManager \<Rightarrow> KMemoryBlockManager \<Rightarrow> bool" for D k where
  set_up: "Initialize_space D st nd sm no_space = Inr (True, sm', m) \<Longrightarrow> m_used sm = k \<Longrightarrow> st < nd \<Longrightarrow>
    unat st mod 4096 = 0 \<Longrightarrow> unat nd mod 4096 = 0 \<Longrightarrow> unat nd \<le> space_end \<Longrightarrow> space_history D k sm' m"
| operate: "space_history D k sm m \<Longrightarrow> new_UpdateAllocator D sm MaxBlocks = Inr (True, al) \<Longrightarrow> allowed D op m \<Longrightarrow>
    apply_op D op al m = Some (Inr (al', m')) \<Longrightarrow> space_history D k (delete_UpdateAllocator al') m'"

definition space_inv :: "nat \<Rightarrow> KMemoryBlockSlabManager \<Rightarrow> KMemoryBlockManager \<Rightarrow> bool" where
  "space_inv k sm m \<longleftrightarrow> space_wf m \<and> m_start_address m < m_end_address m \<and> unmerged (m_memory_block_tree m) \<and>
    (\<forall>q \<in> set (pages_of m). page_counted q) \<and> m_used sm = k + length (m_memory_block_tree m)"

lemma slab_Allocate_used: "slab_Allocate sm = (Some b, sm') \<Longrightarrow> b = default_KMemoryBlock \<and> m_used sm' = m_used sm + 1"
  by (auto simp: slab_Allocate_def Let_def split: if_splits)

lemma new_UpdateAllocator_wf:
  assumes "new_UpdateAllocator D sm MaxBlocks = Inr (True, al)"
  shows "alloc_wf al \<and> held al = 2 \<and> accounts al (m_used sm)"
proof -
  obtain b1 s1 where b1: "slab_Allocate sm = (b1, s1)" by fastforce
  obtain b2 s2 where b2: "slab_Allocate s1 = (b2, s2)" by fastforce
  have al: "b1 \<noteq> None" "b2 \<noteq> None" "al = \<lparr>m_blocks = [b1, b2], m_index = 0, m_slab_manager = s2\<rparr>"
    using assms b1 b2
    by (auto simp: new_UpdateAllocator_def alloc_Initialize_def block_assert_def MaxBlocks_def numeral_2_eq_2 arr_set_def Let_def split: if_splits)
  moreover have "m_used s1 = m_used sm + 1" using al(1) b1 slab_Allocate_used by (cases b1) auto
  moreover have "m_used s2 = m_used s1 + 1" using al(2) b2 slab_Allocate_used by (cases b2) auto
  ultimately show ?thesis by (simp add: alloc_wf_def held_def accounts_def all_less_2)
qed

lemma delete_UpdateAllocator_used:
  assumes "alloc_wf al" "accounts al n"
  shows "m_used (delete_UpdateAllocator al) = n"
proof -
  obtain b1 b2 where b: "m_blocks al = [b1, b2]" using assms(1) by (auto simp: alloc_wf_def length_Suc_conv numeral_2_eq_2)
  then have "(b1 \<noteq> None) = (m_index al = 0)" "(b2 \<noteq> None) = (m_index al \<le> 1)" "m_index al \<le> 2"
    using assms(1) by (auto simp: alloc_wf_def all_less_2)
  then show ?thesis
    using assms(2) b by (cases "m_index al = 0"; cases "m_index al = 1")
      (auto simp: accounts_def held_def delete_UpdateAllocator_def slab_Free_def)
qed

lemma set_up_inv:
  assumes "Initialize_space D st nd sm no_space = Inr (True, sm', m)" "m_used sm = k" "st < nd"
    and "unat st mod 4096 = 0" "unat nd mod 4096 = 0" "unat nd \<le> space_end"
  shows "space_inv k sm' m"
proof -
  let ?b = "block_Initialize st ((nd - st) div PageSize) MS_Free 0 0 default_KMemoryBlock"
  have used: "m_used sm' = k + 1" "m = \<lparr>m_memory_block_tree = [?b], m_start_address = st, m_end_address = nd\<rparr>"
    using assms(1,2) slab_Allocate_used [of sm]
    by (auto simp: Initialize_space_def no_space_def tree_insert_def fault_elims split: prod.splits option.splits)
  have lt: "unat st < unat nd" using assms(3) by (simp add: word_less_nat_alt)
  have "unat (nd - st) = unat nd - unat st" using assms(3) by (intro unat_minus) simp
  moreover have "4096 dvd unat nd - unat st"
    using assms(4,5) by (intro dvd_diff_nat) (simp_all add: mod_eq_0_iff_dvd)
  ultimately have np: "npages ?b * 4096 = unat nd - unat st"
    by (simp add: npages_def block_Initialize_def unat_div)
  then have "0 < npages ?b" using lt by (cases "npages ?b") auto
  then have "chained (unat st) [?b] (unat nd)"
    using np lt by (simp add: end_of_def start_of_def) (simp add: block_Initialize_def)
  moreover have "page_counted (props ?b)"
    by (simp add: page_counted_def props_def block_Initialize_def)
  ultimately show ?thesis
    using used assms(3,4,6) by (simp add: space_inv_def space_wf_def)
qed

lemma operate_inv:
  assumes "space_inv k sm m" "new_UpdateAllocator D sm MaxBlocks = Inr (True, al)" "allowed D op m"
  shows "\<exists>al' m'. apply_op D op al m = Some (Inr (al', m')) \<and> space_inv k (delete_UpdateAllocator al') m'"
proof -
  obtain addr n where r: "op_range op = (addr, n)" by fastforce
  have al: "alloc_wf al" "held al = 2" "accounts al (k + length (m_memory_block_tree m))"
    using new_UpdateAllocator_wf [OF assms(2)] assms(1) by (simp_all add: space_inv_def)
  obtain al' m' where u: "apply_op D op al m = Some (Inr (al', m'))" "updated (op_page op) addr n al m al' m'"
    using apply_op_updates [OF assms(3) _ al(1,2) r] assms(1) by (auto simp: space_inv_def)
  have "\<forall>q \<in> set (pages_of m'). page_counted q"
    using update_counted [OF assms(3) _ r u(2)] assms(1) by (simp add: space_inv_def)
  moreover have "m_used (delete_UpdateAllocator al') = k + length (m_memory_block_tree m')"
    using u(2) al(3) by (intro delete_UpdateAllocator_used) (auto simp: updated_def)
  ultimately have "space_inv k (delete_UpdateAllocator al') m'"
    using u(2) assms(1) by (auto simp: space_inv_def updated_def)
  then show ?thesis using u(1) by blast
qed

lemma space_history_inv: "space_history D k sm m \<Longrightarrow> space_inv k sm m"
proof (induction rule: space_history.induct)
  case (set_up st nd sm sm' m)
  then show ?case by (rule set_up_inv)
next
  case (operate sm m al op al' m')
  then show ?case using operate_inv [of k sm m D al op] by auto
qed

lemma check_loop_holds:
  assumes "chained a (p # bs) e" "e \<le> space_end" "unmerged (p # bs)" "\<forall>q \<in> set (pages (p # bs)). page_counted q"
  shows "check_loop p bs"
  using assms
proof (induction bs arbitrary: a p)
  case Nil
  then show ?case by (auto simp: counted_def GetMemoryInfo_def page_counted_def props_def)
next
  case (Cons b bs)
  have f: "fits p" "fits b" using chained_fits [OF Cons.prems(1,2)] by simp_all
  have "unat (GetEndAddress p) = unat (m_address b)"
    using Cons.prems(1) fits_words(2) [OF f(1)] by (simp add: start_of_def)
  then have "info_GetEndAddress (GetMemoryInfo p) = i_address (GetMemoryInfo b)"
    using fits_words(5) [OF f(1)] by (simp add: word_unat_eq_iff GetMemoryInfo_def)
  moreover have "counted (GetMemoryInfo b)"
    using Cons.prems(4) f(2) by (auto simp: counted_def GetMemoryInfo_def page_counted_def props_def fits_def)
  moreover have "check_loop b bs" using Cons.IH [of "end_of p" b] Cons.prems by simp
  ultimately show ?case using Cons.prems(3) by simp
qed

text \<open>
  C29. After every history of an address space the audit of the block manager holds (neighbours follow one another, none
  could be merged, lock bits have counts), the blocks partition the space, the slab heap has handed out one block per
  block of the tree, and every further operation that is allowed returns.
\<close>

theorem space_history_audit:
  assumes "space_history D k sm m"
  shows "CheckState m = Inr True \<and> space_wf m \<and> m_used sm = k + length (m_memory_block_tree m) \<and>
    (\<forall>al op. new_UpdateAllocator D sm MaxBlocks = Inr (True, al) \<and> allowed D op m \<longrightarrow>
      (\<exists>al' m'. apply_op D op al m = Some (Inr (al', m'))))"
proof -
  have inv: "space_inv k sm m" using space_history_inv [OF assms] .
  have wf: "space_wf m" "m_start_address m < m_end_address m" using inv by (simp_all add: space_inv_def)
  obtain p bs where t: "m_memory_block_tree m = p # bs"
    using wf by (cases "m_memory_block_tree m") (auto simp: space_wf_def word_less_nat_alt)
  have "check_loop p bs"
    using check_loop_holds [of "unat (m_start_address m)" p bs "unat (m_end_address m)"] inv t
    by (simp add: space_inv_def space_wf_def)
  then have "CheckState m = Inr True" using t by (simp add: CheckState_def)
  moreover have "m_used sm = k + length (m_memory_block_tree m)" using inv by (simp add: space_inv_def)
  ultimately show ?thesis using operate_inv [OF inv] wf(1) by blast
qed

definition fresh_space :: KMemoryBlockManager where
  "fresh_space = \<lparr>m_memory_block_tree = [sample_block_at 0x10000 16 MS_Free 0], m_start_address = 0x10000, m_end_address = 0x20000\<rparr>"

definition map_heap :: SpaceOp where
  "map_heap = OpUpdate 0x14000 4 MS_Normal UserReadWrite 0 DM_Normal 0"

lemma fresh_history: "space_history True 0 (sample_slab\<lparr>free_objects := 7, m_used := 1, m_peak := 1\<rparr>) fresh_space"
  by (rule space_history.set_up [of True "0x10000" "0x20000" sample_slab])
    (simp_all add: Initialize_space_def slab_Allocate_def sample_slab_def no_space_def fresh_space_def sample_block_at_def block_assert_def
      tree_insert_def PageSize_def space_end_def)

lemma map_heap_allowed: "allowed True map_heap fresh_space"
  by (simp add: map_heap_def fresh_space_def in_space_def not_first_def all_overlapping_def plain_def HasProperties_def
    KMemoryState_values sample_block_at_def block_Initialize_def default_KMemoryBlock_def)

text \<open>The witness: a space is set up and a heap of four pages mapped in it.\<close>

theorem space_history_audit_witness:
  "\<exists>sm al al' m. new_UpdateAllocator True sm MaxBlocks = Inr (True, al) \<and> apply_op True map_heap al fresh_space = Some (Inr (al', m)) \<and>
    CheckState fresh_space = Inr True \<and> CheckState m = Inr True \<and>
    m_used (delete_UpdateAllocator al') = length (m_memory_block_tree m)"
proof -
  let ?sm = "sample_slab\<lparr>free_objects := 7, m_used := 1, m_peak := 1\<rparr>"
  obtain al where al: "new_UpdateAllocator True ?sm MaxBlocks = Inr (True, al)"
    by (simp add: new_UpdateAllocator_def alloc_Initialize_def block_assert_def MaxBlocks_def numeral_2_eq_2 arr_set_def Let_def
      slab_Allocate_def sample_slab_def)
  note a1 = space_history_audit [OF fresh_history]
  then obtain al' m where op: "apply_op True map_heap al fresh_space = Some (Inr (al', m))"
    using al map_heap_allowed by blast
  note a2 = space_history_audit [OF space_history.operate [OF fresh_history al map_heap_allowed op]]
  show ?thesis using al op a1 a2 by auto
qed

end
