(* ===== verification/Block_Areas.thy ===== *)
theory Block_Areas
  imports Block_History
begin

text \<open>
  The search for a free area: the address it returns is the lowest one with the alignment and offset asked for whose
  pages, guard pages on both sides included, lie in one free block and in the region.
\<close>

section \<open>Alignment\<close>

definition next_aligned :: "nat \<Rightarrow> nat \<Rightarrow> nat \<Rightarrow> nat" where
  "next_aligned align off c = (let d = c - c mod align + off in if c \<le> d then d else d + align)"

lemma next_aligned_least:
  assumes "off < align"
  shows "c \<le> next_aligned align off c" "next_aligned align off c mod align = off" "next_aligned align off c < c + align"
    and "c \<le> y \<Longrightarrow> y mod align = off \<Longrightarrow> next_aligned align off c \<le> y"
proof -
  define q r where "q = c div align" and "r = c mod align"
  have c: "c = align * q + r" "c - c mod align = align * q" "r < align"
    using assms by (simp_all add: q_def r_def minus_mod_eq_mult_div)
  have na: "next_aligned align off c = (if r \<le> off then align * q + off else align * q + off + align)"
    unfolding next_aligned_def Let_def c(2) using c(1) by simp
  show "c \<le> next_aligned align off c" "next_aligned align off c mod align = off" "next_aligned align off c < c + align"
    using c(1,3) assms unfolding na by auto
  assume y: "c \<le> y" "y mod align = off"
  define k where "k = y div align"
  have yk: "y = align * k + off" using y(2) by (metis k_def mult_div_mod_eq)
  show "next_aligned align off c \<le> y"
  proof (cases "r \<le> off")
    case True
    have "q \<le> k"
    proof (rule ccontr)
      assume "\<not> q \<le> k"
      then have "align * Suc k \<le> align * q" by (intro mult_le_mono2) simp
      then show False using y(1) yk c(1) assms by simp
    qed
    then have "align * q \<le> align * k" by (rule mult_le_mono2)
    then show ?thesis using True yk unfolding na by simp
  next
    case False
    have "Suc q \<le> k"
    proof (rule ccontr)
      assume "\<not> Suc q \<le> k"
      then have "align * k \<le> align * q" by (intro mult_le_mono2) simp
      then show False using y(1) yk c(1) False by linarith
    qed
    then have "align * Suc q \<le> align * k" by (rule mult_le_mono2)
    then show ?thesis using False yk unfolding na by simp
  qed
qed

section \<open>Areas\<close>

text \<open>An address at which the block has the pages and their guards, inside the region.\<close>

definition room :: "nat \<Rightarrow> nat \<Rightarrow> nat \<Rightarrow> nat \<Rightarrow> KMemoryBlock \<Rightarrow> nat \<Rightarrow> bool" where
  "room rs re np g b x \<longleftrightarrow> m_memory_state b = MS_Free \<and> max rs (start_of b) + g * 4096 \<le> x \<and>
    x + (np + g) * 4096 \<le> min re (end_of b)"

definition area_at :: "nat \<Rightarrow> nat \<Rightarrow> nat \<Rightarrow> nat \<Rightarrow> nat \<Rightarrow> nat \<Rightarrow> KMemoryBlock list \<Rightarrow> nat \<Rightarrow> bool" where
  "area_at rs re np g align off bs x \<longleftrightarrow> (\<exists>b \<in> set bs. room rs re np g b x) \<and> x mod align = off"

text \<open>Requests small enough that no sum of the search wraps around.\<close>

definition moderate :: "u64 \<Rightarrow> u64 \<Rightarrow> u64 \<Rightarrow> u64 \<Rightarrow> bool" where
  "moderate np align off g \<longleftrightarrow> unat np * 4096 \<le> 2 ^ 60 \<and> unat g * 4096 \<le> 2 ^ 60 \<and> unat align \<le> 2 ^ 60 \<and>
    unat off < unat align \<and> 0 < unat np"

lemma candidate_area_aligned:
  assumes "fits b" "unat rs \<le> space_end" "moderate np align off g"
  shows "unat (candidate_area rs align off g (GetMemoryInfo b)) =
    next_aligned (unat align) (unat off) (max (unat rs) (start_of b) + unat g * 4096)"
proof -
  define w where "w = (if i_address (GetMemoryInfo b) \<le> rs then rs else i_address (GetMemoryInfo b)) + g * PageSize"
  define c where "c = max (unat rs) (start_of b) + unat g * 4096"
  have b: "i_address (GetMemoryInfo b) = m_address b" by (simp add: GetMemoryInfo_def)
  have s: "start_of b \<le> 2 ^ 63" "unat rs \<le> 2 ^ 63" using assms(1,2) by (simp_all add: fits_def end_of_def space_end_def)
  have g: "unat (g * PageSize) = unat g * 4096" using assms(3) by (intro unat_pages) (simp add: moderate_def)
  have w: "unat w = c"
    using s g assms(3) unat_plus [of rs "g * PageSize"] unat_plus [of "m_address b" "g * PageSize"]
    by (auto simp: w_def c_def b moderate_def start_of_def word_le_nat_alt max_def)
  have le: "c \<le> 2 ^ 63 + 2 ^ 60" using s assms(3) by (auto simp: c_def moderate_def max_def)
  have d: "unat (AlignDown w align) = c - c mod unat align"
    using w unat_minus [of "w mod align" w] by (simp add: AlignDown_def word_le_nat_alt unat_mod)
  then have d_le: "unat (AlignDown w align) \<le> 2 ^ 63 + 2 ^ 60" using le by simp
  have sizes: "unat off < 2 ^ 60" "unat align \<le> 2 ^ 60" using assms(3) by (simp_all add: moderate_def)
  have o: "unat (AlignDown w align + off) = unat (AlignDown w align) + unat off"
    using d_le sizes by (intro unat_plus) simp
  moreover from this have "unat (AlignDown w align + off + align) = unat (AlignDown w align) + unat off + unat align"
    using d_le sizes unat_plus [of "AlignDown w align + off" align] by simp
  ultimately show ?thesis
    using w d unfolding c_def [symmetric] candidate_area_def Let_def w_def [symmetric] next_aligned_def
    by (simp add: word_le_nat_alt)
qed

lemma area_test:
  assumes "fits b" "unat rl + 1 = re" "re \<le> space_end" "moderate np align off g" "unat x < 2 ^ 63 + 2 ^ 61" "start_of b \<le> unat x"
  shows "(i_address (GetMemoryInfo b) \<le> x \<and> x < x + np * PageSize + g * PageSize - 1 \<and>
      x + np * PageSize + g * PageSize - 1 \<le> rl \<and> x + np * PageSize + g * PageSize - 1 \<le> info_GetLastAddress (GetMemoryInfo b)) \<longleftrightarrow>
    unat x + (unat np + unat g) * 4096 \<le> min re (end_of b)"
proof -
  have mod: "unat np * 4096 \<le> 2 ^ 60" "unat g * 4096 \<le> 2 ^ 60" "0 < unat np" using assms(4) by (simp_all add: moderate_def)
  have p: "unat (np * PageSize) = unat np * 4096" "unat (g * PageSize) = unat g * 4096" using mod by (simp_all add: unat_pages)
  have "unat (x + np * PageSize) = unat x + unat np * 4096" using unat_plus [of x "np * PageSize"] p mod assms(5) by simp
  then have e: "unat (x + np * PageSize + g * PageSize) = unat x + (unat np + unat g) * 4096"
    using unat_plus [of "x + np * PageSize" "g * PageSize"] p mod assms(5) by simp
  then have l: "unat (x + np * PageSize + g * PageSize - 1) = unat x + (unat np + unat g) * 4096 - 1"
    using unat_minus [of 1 "x + np * PageSize + g * PageSize"] mod(3) by (simp add: word_le_nat_alt)
  have "info_GetLastAddress (GetMemoryInfo b) = GetLastAddress b"
    using fits_words(5) [OF assms(1)] by (simp add: info_GetLastAddress_def GetLastAddress_def)
  then have b: "unat (info_GetLastAddress (GetMemoryInfo b)) = end_of b - 1" "0 < end_of b"
    using fits_words(3) [OF assms(1)] assms(1) by (simp_all add: fits_def end_of_def)
  have "unat (m_address b) \<le> unat x" using assms(6) by (simp add: start_of_def)
  then show ?thesis
    using l b mod(3) assms(2) by (auto simp: word_le_nat_alt word_less_nat_alt GetMemoryInfo_def)
qed

lemma find_free_least:
  assumes "chained c bs e" "e \<le> space_end" "unat rs \<le> space_end" "unat rl + 1 = re" "re \<le> space_end" "moderate np align off g"
  shows "(\<forall>y. area_at (unat rs) re (unat np) (unat g) (unat align) (unat off) bs y \<longrightarrow>
      area_at (unat rs) re (unat np) (unat g) (unat align) (unat off) bs (unat (find_free_loop rs rl np align off g bs)) \<and>
      unat (find_free_loop rs rl np align off g bs) \<le> y) \<and>
    ((\<forall>y. \<not> area_at (unat rs) re (unat np) (unat g) (unat align) (unat off) bs y) \<longrightarrow> find_free_loop rs rl np align off g bs = 0)"
  using assms(1)
proof (induction bs arbitrary: c)
  case Nil
  then show ?case by (simp add: area_at_def)
next
  case (Cons b bs)
  let ?P = "area_at (unat rs) re (unat np) (unat g) (unat align) (unat off)"
  let ?room = "room (unat rs) re (unat np) (unat g)"
  have f: "fits b" and np: "0 < unat np" using chained_fits [OF Cons.prems assms(2)] assms(6) by (simp_all add: moderate_def)
  have later: "end_of b \<le> start_of d" if "d \<in> set bs" for d using chained_in [of "end_of b" bs e d] Cons.prems that by simp
  have IH: "?P bs y \<Longrightarrow> ?P bs (unat (find_free_loop rs rl np align off g bs)) \<and> unat (find_free_loop rs rl np align off g bs) \<le> y"
    "(\<And>y. \<not> ?P bs y) \<Longrightarrow> find_free_loop rs rl np align off g bs = 0" for y
    using Cons.IH [of "end_of b"] Cons.prems by auto
  have next_block: ?case if "find_free_loop rs rl np align off g (b # bs) = find_free_loop rs rl np align off g bs"
    "\<And>y. y mod unat align = unat off \<Longrightarrow> \<not> ?room b y"
  proof -
    have "?P (b # bs) y \<longleftrightarrow> ?P bs y" for y using that(2) by (auto simp: area_at_def)
    then show ?thesis using IH that(1) by auto
  qed
  show ?case
  proof (cases "rl < m_address b")
    case True
    then have "re \<le> start_of b" using assms(4) by (simp add: word_less_nat_alt start_of_def)
    moreover have "start_of b \<le> start_of d" if "d \<in> set (b # bs)" for d using later [of d] that by (auto simp: end_of_def)
    ultimately have "\<not> ?room d y" if "d \<in> set (b # bs)" for d y
      using that np by (fastforce simp: room_def)
    then show ?thesis using True by (auto simp: area_at_def GetMemoryInfo_def)
  next
    case in_region: False
    show ?thesis
    proof (cases "m_memory_state b = MS_Free")
      case False
      then show ?thesis using in_region by (intro next_block) (simp_all add: GetMemoryInfo_def room_def)
    next
      case free: True
      let ?x = "candidate_area rs align off g (GetMemoryInfo b)"
      let ?c = "max (unat rs) (start_of b) + unat g * 4096"
      have off: "unat off < unat align" using assms(6) by (simp add: moderate_def)
      note na = next_aligned_least [OF off, of ?c]
      have x: "unat ?x = next_aligned (unat align) (unat off) ?c" using candidate_area_aligned [OF f assms(3,6)] .
      have "?c \<le> 2 ^ 63 + 2 ^ 60" "unat align \<le> 2 ^ 60"
        using assms(3,6) f by (auto simp: moderate_def fits_def end_of_def space_end_def max_def)
      then have small: "unat ?x < 2 ^ 63 + 2 ^ 61" using na(3) x by simp
      have ge: "start_of b \<le> unat ?x" using na(1) x by simp
      note test = area_test [OF f assms(4,5,6) small ge]
      have least: "?room b y \<Longrightarrow> y mod unat align = unat off \<Longrightarrow> unat ?x \<le> y" for y using na(4) x by (simp add: room_def)
      have loop: "find_free_loop rs rl np align off g (b # bs) =
          (if unat ?x + (unat np + unat g) * 4096 \<le> min re (end_of b) then ?x else find_free_loop rs rl np align off g bs)"
        using test in_region free by (simp add: Let_def GetMemoryInfo_def)
      show ?thesis
      proof (cases "unat ?x + (unat np + unat g) * 4096 \<le> min re (end_of b)")
        case True
        then have here: "?room b (unat ?x)" using free na(1) x by (simp add: room_def)
        moreover have "unat ?x \<le> y" if "d \<in> set bs" "?room d y" for d y
        proof -
          have "unat ?x \<le> end_of b" using True by simp
          also have "\<dots> \<le> y" using later [OF that(1)] that(2) by (auto simp: room_def max_def split: if_splits)
          finally show ?thesis .
        qed
        ultimately show ?thesis using True loop na(2) x least by (auto simp: area_at_def)
      next
        case False
        then have "\<not> ?room b y" if "y mod unat align = unat off" for y
          using least [OF _ that] by (fastforce simp: room_def)
        then show ?thesis using next_block loop [unfolded if_not_P [OF False]] by blast
      qed
    qed
  qed
qed

text \<open>
  C39. The search for a free area returns the lowest address in the region with the given alignment and offset at which the
  pages asked for, with their guard pages before and after, lie inside one free block; and zero when there is none.
\<close>

theorem FindFreeArea_lowest:
  assumes "space_wf m" "moderate np align off g"
    and "unat (m_start_address m) \<le> unat rs" "0 < unat rn" "unat rs + unat rn * 4096 \<le> unat (m_end_address m)"
    and "P = area_at (unat rs) (unat rs + unat rn * 4096) (unat np) (unat g) (unat align) (unat off) (m_memory_block_tree m)"
  shows "(\<forall>y. P y \<longrightarrow> P (unat (FindFreeArea m rs rn np align off g)) \<and> unat (FindFreeArea m rs rn np align off g) \<le> y) \<and>
    ((\<forall>y. \<not> P y) \<longrightarrow> FindFreeArea m rs rn np align off g = 0)"
proof -
  let ?bs = "m_memory_block_tree m" and ?re = "unat rs + unat rn * 4096"
  have wf: "chained (unat (m_start_address m)) ?bs (unat (m_end_address m))" "unat (m_end_address m) \<le> space_end"
    using assms(1) by (simp_all add: space_wf_def)
  have re: "unat (rs + rn * PageSize) = ?re" using unat_less_pages(2) [of rs rn] assms(5) wf(2) by simp
  then have rl: "unat (rs + rn * PageSize - 1) + 1 = ?re"
    using unat_minus [of 1 "rs + rn * PageSize"] assms(4) by (simp add: word_le_nat_alt)
  have "unat rs < unat (m_end_address m)" using assms(4,5) by simp
  then obtain ls b bs where t: "?bs = ls @ b # bs" "start_of b \<le> unat rs" "unat rs < end_of b"
    using chained_find [OF wf(1) assms(3)] by blast
  have find: "FindIterator ?bs rs = length ls" using FindIterator_at [OF wf(1) [unfolded t(1)] wf(2) t(2,3)] t(1) by simp
  have np: "0 < unat np" using assms(2) by (simp add: moderate_def)
  have area: "FindFreeArea m rs rn np align off g = find_free_loop rs (rs + rn * PageSize - 1) np align off g (b # bs)"
    using np find t(1) by (simp add: FindFreeArea_def Let_def word_less_nat_alt)
  have before: "\<not> room (unat rs) ?re (unat np) (unat g) d y" if "d \<in> set ls" for d y
  proof -
    have "end_of d \<le> start_of b" using wf(1) chained_in [of _ ls _ d] that t(1) by auto
    then show ?thesis using t(2) np by (auto simp: room_def)
  qed
  have P: "P y \<longleftrightarrow> area_at (unat rs) ?re (unat np) (unat g) (unat align) (unat off) (b # bs) y" for y
    using before by (auto simp: assms(6) area_at_def t(1))
  have ch: "chained (start_of b) (b # bs) (unat (m_end_address m))" using wf(1) t(1) by auto
  have lim: "unat rs \<le> space_end" "?re \<le> space_end" using assms(5) wf(2) by simp_all
  show ?thesis
    using find_free_least [OF ch wf(2) lim(1) rl lim(2) assms(2)] unfolding area P .
qed

theorem FindFreeArea_lowest_witness: "FindFreeArea sample_space 0x10000 16 2 0x2000 0 1 = 0x16000"
proof -
  let ?P = "area_at 0x10000 (0x10000 + 16 * 4096) 2 1 0x2000 0 (m_memory_block_tree sample_space)"
  define P where "P = ?P"
  have P: "P y \<longleftrightarrow> 0x15000 \<le> y \<and> y \<le> 0x1D000 \<and> y mod 0x2000 = 0" for y
    by (auto simp: P_def area_at_def room_def sample_space_def sample_block_at_def block_Initialize_def start_of_def end_of_def npages_def
      KMemoryState_values)
  have "(\<forall>y. P y \<longrightarrow> P (unat (FindFreeArea sample_space 0x10000 16 2 0x2000 0 1)) \<and>
      unat (FindFreeArea sample_space 0x10000 16 2 0x2000 0 1) \<le> y) \<and>
    ((\<forall>y. \<not> P y) \<longrightarrow> FindFreeArea sample_space 0x10000 16 2 0x2000 0 1 = 0)"
    by (rule FindFreeArea_lowest) (simp_all add: moderate_def P_def, simp_all add: sample_space_def)
  moreover have "P 0x16000" by (simp add: P)
  ultimately have r: "P (unat (FindFreeArea sample_space 0x10000 16 2 0x2000 0 1)) \<and>
    unat (FindFreeArea sample_space 0x10000 16 2 0x2000 0 1) \<le> 0x16000" by blast
  have eq: "x = 0x16000" if x: "0x15000 \<le> x" "x \<le> 0x16000" "x mod 0x2000 = 0" for x :: nat
  proof -
    obtain k where "x = 0x2000 * k" using x(3) by (auto simp: mod_eq_0_iff_dvd dvd_def)
    then show ?thesis using x(1,2) by simp
  qed
  have "unat (FindFreeArea sample_space 0x10000 16 2 0x2000 0 1) = 0x16000"
    by (rule eq) (use r in \<open>simp_all only: P\<close>)
  then show ?thesis by (simp add: word_unat_eq_iff)
qed

end
