(* ===== verification/Memory_Search.thy ===== *)
theory Memory_Search
  imports Guest_Memory Memory_Block
begin

text \<open>
  The live memory search (\<^verbatim>\<open>core/memory_search.cpp\<close>): a scanner for 32-bit values on the heap of the
  game, with exact searches, blind searches over a snapshot, refinement of candidates, and values
  that are frozen by a background thread; and the enumeration of memory regions it uses
  (\<^verbatim>\<open>core/memory_region_scan.cpp\<close>). The kernel's page table is seen through \<^verbatim>\<open>QueryInfo\<close>, a parameter. Floats
  are the 32 bits that hold them: a finite one is an integer multiple of \<open>2 ^ (-149)\<close>, and the
  only operation that rounds is the subtraction before a comparison with a tolerance.
\<close>

section \<open>Memory regions\<close>

record MemoryRegion =
  rg_address :: u64
  rg_size :: u64
  rg_state :: KMemoryState

record KProcessPageTable =
  GetAddressSpaceStart :: u64
  GetAddressSpaceSize :: u64
  QueryInfo :: "u64 \<Rightarrow> MemoryRegion option"

definition IsScannableMemoryState :: "KMemoryState \<Rightarrow> bool" where
  "IsScannableMemoryState st \<longleftrightarrow> st \<in> {MS_CodeData, MS_Normal, MS_Stack, MS_ThreadLocal, MS_Shared}"

text \<open>The loop of \<^verbatim>\<open>EnumerateScannableRegions\<close>: it ends at the end of the address space, at an error and when
  a query does not advance.\<close>

function enumerate_from :: "KProcessPageTable \<Rightarrow> u64 \<Rightarrow> u64 \<Rightarrow> MemoryRegion list" where
  "enumerate_from pt end_addr addr =
    (if \<not> addr < end_addr then []
     else case QueryInfo pt addr of
         None \<Rightarrow> []
       | Some info \<Rightarrow>
           let found = (if IsScannableMemoryState (rg_state info) then [info] else []);
               next = rg_address info + rg_size info
           in if next \<le> addr then found else found @ enumerate_from pt end_addr next)"
  by pat_completeness auto
termination
  by (relation "measure (\<lambda>(pt, end_addr, addr). 2 ^ 64 - unat addr)")
    (auto simp: word_less_nat_alt not_le intro!: diff_less_mono2 unsigned_less [where 'b = 64, simplified])

declare enumerate_from.simps [simp del]

definition EnumerateScannableRegions :: "KProcessPageTable \<Rightarrow> MemoryRegion list" where
  "EnumerateScannableRegions pt =
    enumerate_from pt (GetAddressSpaceStart pt + GetAddressSpaceSize pt) (GetAddressSpaceStart pt)"

section \<open>Values\<close>

datatype ValueType = Int32 | Float32

datatype Comparison = Increased | Decreased | Unchanged

record Match =
  mt_address :: u64
  mt_value :: u32

definition DecodeValue :: "u8 list \<Rightarrow> u32" where
  "DecodeValue bytes = ucast (le_value (take 4 bytes))"

definition EncodeValue :: "u32 \<Rightarrow> u8 list" where
  "EncodeValue v = le_bytes 4 (ucast v)"

text \<open>The fields of a float, and its value in units of \<open>2 ^ (-149)\<close> when it is finite.\<close>

definition float_exponent :: "u32 \<Rightarrow> nat" where
  "float_exponent b = unat (take_bit 8 (drop_bit 23 b))"

definition float_fraction :: "u32 \<Rightarrow> int" where
  "float_fraction b = uint (take_bit 23 b)"

definition float_negative :: "u32 \<Rightarrow> bool" where
  "float_negative b \<longleftrightarrow> bit b 31"

definition float_isfinite :: "u32 \<Rightarrow> bool" where
  "float_isfinite b \<longleftrightarrow> float_exponent b \<noteq> 255"

definition float_isnan :: "u32 \<Rightarrow> bool" where
  "float_isnan b \<longleftrightarrow> float_exponent b = 255 \<and> float_fraction b \<noteq> 0"

definition DecodeFloat :: "u32 \<Rightarrow> int" where
  "DecodeFloat b =
    (let magnitude = (if float_exponent b = 0 then float_fraction b
                      else (2 ^ 23 + float_fraction b) * 2 ^ (float_exponent b - 1))
     in if float_negative b then - magnitude else magnitude)"

text \<open>Rounding of a magnitude to 24 significant bits, to the nearest and then to the even one. The
  subtraction of two finite floats is the rounded difference; from \<open>2 ^ 277\<close> units on it overflows to
  infinity.\<close>

fun bit_length :: "nat \<Rightarrow> nat" where
  "bit_length n = (if n = 0 then 0 else Suc (bit_length (n div 2)))"

declare bit_length.simps [simp del]

definition round_magnitude :: "nat \<Rightarrow> nat" where
  "round_magnitude n =
    (let k = bit_length n - 24; q = n div 2 ^ k; r = n mod 2 ^ k;
         up = (2 * r > 2 ^ k \<or> 2 * r = 2 ^ k \<and> odd q \<and> 0 < k)
     in (if up then q + 1 else q) * 2 ^ k)"

definition float_distance_le :: "u32 \<Rightarrow> u32 \<Rightarrow> u32 \<Rightarrow> bool" where
  "float_distance_le current needle tolerance =
    (if float_isnan needle then False
     else if \<not> float_isfinite tolerance then True
     else if \<not> float_isfinite needle then False
     else let d = round_magnitude (nat \<bar>DecodeFloat current - DecodeFloat needle\<bar>)
       in d < 2 ^ 277 \<and> int d \<le> DecodeFloat tolerance)"

definition float_positive :: "u32 \<Rightarrow> bool" where
  "float_positive t \<longleftrightarrow> \<not> float_isnan t \<and> \<not> float_negative t \<and> t \<noteq> 0"

definition MatchesFloat :: "u32 \<Rightarrow> u32 \<Rightarrow> u32 \<Rightarrow> bool" where
  "MatchesFloat current_bits needle tolerance =
    (if \<not> float_isfinite current_bits then False
     else if float_positive tolerance then float_distance_le current_bits needle tolerance
     else float_isfinite needle \<and> DecodeFloat current_bits = DecodeFloat needle)"

definition SatisfiesFloatComparison :: "Comparison \<Rightarrow> u32 \<Rightarrow> u32 \<Rightarrow> bool" where
  "SatisfiesFloatComparison comparison previous current =
    (if \<not> float_isfinite previous \<or> \<not> float_isfinite current then False
     else case comparison of
         Increased \<Rightarrow> DecodeFloat current > DecodeFloat previous
       | Decreased \<Rightarrow> DecodeFloat current < DecodeFloat previous
       | Unchanged \<Rightarrow> DecodeFloat current = DecodeFloat previous)"

definition SatisfiesComparison :: "Comparison \<Rightarrow> u32 \<Rightarrow> u32 \<Rightarrow> bool" where
  "SatisfiesComparison comparison previous current = (case comparison of
      Increased \<Rightarrow> sint current > sint previous
    | Decreased \<Rightarrow> sint current < sint previous
    | Unchanged \<Rightarrow> current = previous)"

section \<open>The system the search works on\<close>

text \<open>The application process, if there is one: its memory and its page table.\<close>

record SearchSystem =
  ApplicationMemory :: "GuestMemory option"
  ApplicationPageTable :: KProcessPageTable

definition resize :: "nat \<Rightarrow> u8 list \<Rightarrow> u8 list" where
  "resize n buffer = take n buffer @ replicate (n - length buffer) 0"

definition ReadBlockUnsafe :: "Rasterizer \<Rightarrow> VAddr \<Rightarrow> u64 \<Rightarrow> GuestMemory \<times> u8 list \<Rightarrow>
    mem_fault + (bool \<times> GuestMemory \<times> u8 list)" where
  "ReadBlockUnsafe r src_addr sz s = ReadBlockImpl r src_addr sz True s"

definition WriteBlockUnsafe :: "Rasterizer \<Rightarrow> VAddr \<Rightarrow> u8 list \<Rightarrow> GuestMemory \<Rightarrow> mem_fault + (bool \<times> GuestMemory)" where
  "WriteBlockUnsafe r dest_addr src_buffer m = WriteBlockImpl r dest_addr src_buffer True m"

section \<open>Exact search\<close>

text \<open>\<^verbatim>\<open>std::search\<close>: the offset of the first occurrence.\<close>

fun std_search :: "u8 list \<Rightarrow> u8 list \<Rightarrow> nat option" where
  "std_search needle [] = None"
| "std_search needle (x # xs) =
    (if take (length needle) (x # xs) = needle then Some 0 else map_option Suc (std_search needle xs))"

lemma std_search_less: "std_search needle xs = Some k \<Longrightarrow> k < length xs"
  by (induction xs arbitrary: k) (auto split: if_splits)

text \<open>The occurrences in the rest of a buffer that starts at offset \<open>pos\<close>.\<close>

function search_ints :: "u8 list \<Rightarrow> u32 \<Rightarrow> u64 \<Rightarrow> nat \<Rightarrow> nat \<Rightarrow> u8 list \<Rightarrow> Match list \<Rightarrow> Match list" where
  "search_ints needle v base max_results pos rest results = (case std_search needle rest of
      None \<Rightarrow> results
    | Some k \<Rightarrow>
        let results = results @ [\<lparr>mt_address = base + of_nat (pos + k), mt_value = v\<rparr>] in
        if length results \<ge> max_results then results
        else search_ints needle v base max_results (pos + k + 1) (drop (k + 1) rest) results)"
  by pat_completeness auto
termination
  by (relation "measure (\<lambda>(needle, v, base, max_results, pos, rest, results). length rest)")
    (auto dest: std_search_less)

declare search_ints.simps [simp del]

text \<open>The aligned values of a buffer, \<open>n\<close> of them from index \<open>i\<close> on.\<close>

fun search_floats :: "u32 \<Rightarrow> u32 \<Rightarrow> u64 \<Rightarrow> nat \<Rightarrow> u8 list \<Rightarrow> nat \<Rightarrow> nat \<Rightarrow> Match list \<Rightarrow> Match list" where
  "search_floats needle tolerance base max_results buffer 0 i results = results"
| "search_floats needle tolerance base max_results buffer (Suc n) i results =
    (if \<not> length results < max_results then results
     else
       let offset = i * 4; current = DecodeValue (drop offset buffer) in
       search_floats needle tolerance base max_results buffer n (i + 1)
         (if MatchesFloat current needle tolerance
          then results @ [\<lparr>mt_address = base + of_nat offset, mt_value = current\<rparr>] else results))"

fun search_regions :: "Rasterizer \<Rightarrow> u32 \<Rightarrow> ValueType \<Rightarrow> u32 \<Rightarrow> nat \<Rightarrow> MemoryRegion list \<Rightarrow> GuestMemory \<times> u8 list
    \<Rightarrow> Match list \<Rightarrow> mem_fault + Match list \<times> GuestMemory" where
  "search_regions r needle_value type tolerance max_results [] s results = Inr (results, fst s)"
| "search_regions r needle_value type tolerance max_results (region # regions) s results =
    (if rg_state region \<noteq> MS_Normal \<or> length results \<ge> max_results \<or> unat (rg_size region) < 4
     then search_regions r needle_value type tolerance max_results regions s results
     else
       bindF (ReadBlockUnsafe r (rg_address region) (rg_size region) (fst s, resize (unat (rg_size region)) (snd s)))
         (\<lambda>(ok, m, buffer).
           if \<not> ok then search_regions r needle_value type tolerance max_results regions (m, buffer) results
           else search_regions r needle_value type tolerance max_results regions (m, buffer)
             (if type = Float32
              then search_floats needle_value tolerance (rg_address region) max_results buffer (length buffer div 4) 0 results
              else search_ints (EncodeValue needle_value) needle_value (rg_address region) max_results 0 buffer results)))"

definition Search :: "Rasterizer \<Rightarrow> u32 \<Rightarrow> ValueType \<Rightarrow> u32 \<Rightarrow> nat \<Rightarrow> SearchSystem \<Rightarrow> mem_fault + Match list \<times> SearchSystem" where
  "Search r needle_value type tolerance max_results sys = (case ApplicationMemory sys of
      None \<Rightarrow> Inr ([], sys)
    | Some m \<Rightarrow>
        if type = Float32 \<and> \<not> float_isfinite needle_value then Inr ([], sys)
        else bindF (search_regions r needle_value type tolerance max_results
            (EnumerateScannableRegions (ApplicationPageTable sys)) (m, []) [])
          (\<lambda>(results, m). Inr (results, sys\<lparr>ApplicationMemory := Some m\<rparr>)))"

section \<open>Blind search\<close>

record SnapshotRegion =
  sn_region :: MemoryRegion
  sn_data :: "u8 list"

text \<open>\<open>alloc\<close> says for which regions the host has the memory to hold them; running out of it drops
  the snapshot.\<close>

fun snapshot_regions :: "Rasterizer \<Rightarrow> (MemoryRegion \<Rightarrow> bool) \<Rightarrow> MemoryRegion list \<Rightarrow> GuestMemory \<Rightarrow> SnapshotRegion list
    \<Rightarrow> mem_fault + SnapshotRegion list \<times> GuestMemory" where
  "snapshot_regions r alloc [] m snapshot = Inr (snapshot, m)"
| "snapshot_regions r alloc (region # regions) m snapshot =
    (if rg_state region \<noteq> MS_Normal \<or> unat (rg_size region) < 4
     then snapshot_regions r alloc regions m snapshot
     else if \<not> alloc region then Inr ([], m)
     else
       bindF (ReadBlockUnsafe r (rg_address region) (rg_size region) (m, resize (unat (rg_size region)) []))
         (\<lambda>(ok, m, buffer). snapshot_regions r alloc regions m
            (if \<not> ok then snapshot else snapshot @ [\<lparr>sn_region = region, sn_data = buffer\<rparr>])))"

definition TakeSnapshot :: "Rasterizer \<Rightarrow> (MemoryRegion \<Rightarrow> bool) \<Rightarrow> SearchSystem
    \<Rightarrow> mem_fault + SnapshotRegion list \<times> SearchSystem" where
  "TakeSnapshot r alloc sys = (case ApplicationMemory sys of
      None \<Rightarrow> Inr ([], sys)
    | Some m \<Rightarrow> bindF (snapshot_regions r alloc (EnumerateScannableRegions (ApplicationPageTable sys)) m [])
        (\<lambda>(snapshot, m). Inr (snapshot, sys\<lparr>ApplicationMemory := Some m\<rparr>)))"

definition keep_value :: "ValueType \<Rightarrow> Comparison \<Rightarrow> u32 \<Rightarrow> u32 \<Rightarrow> bool" where
  "keep_value type comparison previous current =
    (if type = Float32 then SatisfiesFloatComparison comparison previous current
     else SatisfiesComparison comparison previous current)"

fun compare_values :: "Comparison \<Rightarrow> ValueType \<Rightarrow> nat \<Rightarrow> u64 \<Rightarrow> u8 list \<Rightarrow> u8 list \<Rightarrow> nat \<Rightarrow> nat \<Rightarrow> Match list \<Rightarrow> Match list" where
  "compare_values comparison type max_results base data buffer 0 i results = results"
| "compare_values comparison type max_results base data buffer (Suc n) i results =
    (let offset = i * 4; previous = DecodeValue (drop offset data); current = DecodeValue (drop offset buffer) in
     if \<not> keep_value type comparison previous current
     then compare_values comparison type max_results base data buffer n (i + 1) results
     else
       let results = results @ [\<lparr>mt_address = base + of_nat offset, mt_value = current\<rparr>] in
       if length results \<ge> max_results then results
       else compare_values comparison type max_results base data buffer n (i + 1) results)"

fun compare_regions :: "Rasterizer \<Rightarrow> Comparison \<Rightarrow> ValueType \<Rightarrow> nat \<Rightarrow> SnapshotRegion list \<Rightarrow> GuestMemory \<times> u8 list
    \<Rightarrow> Match list \<Rightarrow> mem_fault + Match list \<times> GuestMemory" where
  "compare_regions r comparison type max_results [] s results = Inr (results, fst s)"
| "compare_regions r comparison type max_results (sn # snapshot) s results =
    (if length results \<ge> max_results then Inr (results, fst s)
     else
       let region = sn_region sn in
       bindF (ReadBlockUnsafe r (rg_address region) (rg_size region) (fst s, resize (unat (rg_size region)) (snd s)))
         (\<lambda>(ok, m, buffer). compare_regions r comparison type max_results snapshot (m, buffer)
            (if \<not> ok then results
             else compare_values comparison type max_results (rg_address region) (sn_data sn) buffer
               (length buffer div 4) 0 results)))"

text \<open>The snapshot is used up by the comparison.\<close>

definition CompareSnapshot :: "Rasterizer \<Rightarrow> Comparison \<Rightarrow> ValueType \<Rightarrow> nat \<Rightarrow> SnapshotRegion list \<Rightarrow> SearchSystem
    \<Rightarrow> mem_fault + Match list \<times> SnapshotRegion list \<times> SearchSystem" where
  "CompareSnapshot r comparison type max_results snapshot sys = (case ApplicationMemory sys of
      None \<Rightarrow> Inr ([], [], sys)
    | Some m \<Rightarrow> bindF (compare_regions r comparison type max_results snapshot (m, []) [])
        (\<lambda>(results, m). Inr (results, [], sys\<lparr>ApplicationMemory := Some m\<rparr>)))"

section \<open>Refinement\<close>

definition keep_candidate :: "Comparison option \<Rightarrow> u32 \<Rightarrow> ValueType \<Rightarrow> u32 \<Rightarrow> u32 \<Rightarrow> u32 \<Rightarrow> bool" where
  "keep_candidate comparison needle_value type tolerance previous current = (case comparison of
      Some cmp \<Rightarrow> keep_value type cmp previous current
    | None \<Rightarrow> if type = Float32 then MatchesFloat current needle_value tolerance else current = needle_value)"

fun refine_loop :: "Rasterizer \<Rightarrow> Comparison option \<Rightarrow> u32 \<Rightarrow> ValueType \<Rightarrow> u32 \<Rightarrow> Match list \<Rightarrow> GuestMemory \<times> u8 list
    \<Rightarrow> Match list \<Rightarrow> mem_fault + Match list \<times> GuestMemory" where
  "refine_loop r comparison needle_value type tolerance [] s results = Inr (results, fst s)"
| "refine_loop r comparison needle_value type tolerance (candidate # candidates) s results =
    bindF (ReadBlockUnsafe r (mt_address candidate) 4 s) (\<lambda>(ok, m, buffer).
      refine_loop r comparison needle_value type tolerance candidates (m, buffer)
        (if ok \<and> keep_candidate comparison needle_value type tolerance (mt_value candidate) (DecodeValue buffer)
         then results @ [\<lparr>mt_address = mt_address candidate, mt_value = DecodeValue buffer\<rparr>] else results))"

definition Refine :: "Rasterizer \<Rightarrow> Match list \<Rightarrow> Comparison option \<Rightarrow> u32 \<Rightarrow> ValueType \<Rightarrow> u32 \<Rightarrow> SearchSystem
    \<Rightarrow> mem_fault + Match list \<times> SearchSystem" where
  "Refine r candidates comparison needle_value type tolerance sys =
    (if candidates = [] then Inr ([], sys)
     else case ApplicationMemory sys of
         None \<Rightarrow> Inr ([], sys)
       | Some m \<Rightarrow> bindF (refine_loop r comparison needle_value type tolerance candidates (m, replicate 4 0) [])
           (\<lambda>(results, m). Inr (results, sys\<lparr>ApplicationMemory := Some m\<rparr>)))"

section \<open>Editing and freezing\<close>

definition search_Read :: "Rasterizer \<Rightarrow> u64 \<Rightarrow> u8 list \<Rightarrow> SearchSystem \<Rightarrow> mem_fault + bool \<times> u8 list \<times> SearchSystem" where
  "search_Read r address out sys = (case ApplicationMemory sys of
      None \<Rightarrow> Inr (False, out, sys)
    | Some m \<Rightarrow> bindF (ReadBlockUnsafe r address (of_nat (length out)) (m, out))
        (\<lambda>(ok, m, out). Inr (ok, out, sys\<lparr>ApplicationMemory := Some m\<rparr>)))"

definition search_Write :: "Rasterizer \<Rightarrow> u64 \<Rightarrow> u8 list \<Rightarrow> SearchSystem \<Rightarrow> mem_fault + bool \<times> SearchSystem" where
  "search_Write r address v sys = (case ApplicationMemory sys of
      None \<Rightarrow> Inr (False, sys)
    | Some m \<Rightarrow> bindF (WriteBlockUnsafe r address v m) (\<lambda>(ok, m). Inr (ok, sys\<lparr>ApplicationMemory := Some m\<rparr>)))"

text \<open>The frozen values, an ordered map, and whether the background thread runs.\<close>

record FreezeState =
  g_frozen :: "(u64 \<times> u32) list"
  g_freeze_thread :: bool

definition new_FreezeState :: FreezeState where
  "new_FreezeState = \<lparr>g_frozen = [], g_freeze_thread = False\<rparr>"

definition map_set :: "u64 \<Rightarrow> u32 \<Rightarrow> (u64 \<times> u32) list \<Rightarrow> (u64 \<times> u32) list" where
  "map_set a v xs = takeWhile (\<lambda>(b, _). b < a) xs @ (a, v) # dropWhile (\<lambda>(b, _). b \<le> a) xs"

definition SetFrozen :: "u64 \<Rightarrow> u32 \<Rightarrow> FreezeState \<Rightarrow> FreezeState" where
  "SetFrozen address v f = f\<lparr>g_frozen := map_set address v (g_frozen f), g_freeze_thread := True\<rparr>"

definition ClearFrozen :: "u64 \<Rightarrow> FreezeState \<Rightarrow> FreezeState" where
  "ClearFrozen address f =
    (let xs = filter (\<lambda>(a, _). a \<noteq> address) (g_frozen f) in
     f\<lparr>g_frozen := xs, g_freeze_thread := (if xs = [] then False else g_freeze_thread f)\<rparr>)"

definition ClearAllFrozen :: "FreezeState \<Rightarrow> FreezeState" where
  "ClearAllFrozen f = f\<lparr>g_frozen := [], g_freeze_thread := False\<rparr>"

definition GetFrozen :: "FreezeState \<Rightarrow> Match list" where
  "GetFrozen f = map (\<lambda>(a, v). \<lparr>mt_address = a, mt_value = v\<rparr>) (g_frozen f)"

text \<open>One round of the background thread.\<close>

fun freeze_writes :: "Rasterizer \<Rightarrow> (u64 \<times> u32) list \<Rightarrow> SearchSystem \<Rightarrow> mem_fault + SearchSystem" where
  "freeze_writes r [] sys = Inr sys"
| "freeze_writes r ((address, v) # xs) sys =
    bindF (search_Write r address (EncodeValue v) sys) (\<lambda>(_, sys). freeze_writes r xs sys)"

definition FreezeTick :: "Rasterizer \<Rightarrow> FreezeState \<Rightarrow> SearchSystem \<Rightarrow> mem_fault + SearchSystem" where
  "FreezeTick r f sys = (if g_freeze_thread f then freeze_writes r (g_frozen f) sys else Inr sys)"

end
