(* ===== verification/Memory_Search_Laws.thy ===== *)
theory Memory_Search_Laws
  imports Memory_Search Guest_Memory_Laws
begin

text \<open>
  What the memory search finds, against lists of the values in memory: an exact search lists the
  occurrences of its needle in order, a blind search the aligned words that compare as asked with
  the snapshot, a refinement the candidates that still qualify, and a round of the freeze thread
  leaves the frozen values in memory. The unchecked block access these operations use runs no
  notification of the rasterizer, so pages it has cached are covered too.
\<close>

section \<open>Unchecked block access\<close>

definition unsafe_entry :: "(nat \<Rightarrow> u64) \<Rightarrow> nat \<Rightarrow> bool" where
  "unsafe_entry entries page \<longleftrightarrow>
     (raw_type (entries page) \<in> {DebugMemory, RasterizerCachedMemory} \<longrightarrow> ExtractPointer (entries page) True \<noteq> 0)"

definition unsafe_block :: "GuestMemory \<Rightarrow> nat \<Rightarrow> nat \<Rightarrow> bool" where
  "unsafe_block m a n \<longleftrightarrow>
     address_space_bits (page_table m) < 64 \<and> a + n \<le> 2 ^ address_space_bits (page_table m) \<and>
     (\<forall>i < n. unsafe_entry (entry_of m) ((a + i) div 4096))"

lemma unsafe_block_bound: "unsafe_block m a n \<Longrightarrow> a + n \<le> 2 ^ 63"
  using space_le [of "address_space_bits (page_table m)"] by (auto simp: unsafe_block_def)

lemma unsafe_block_part:
  assumes "unsafe_block m a n" and "i + k \<le> n"
  shows "unsafe_block m (a + i) k"
proof -
  have "unsafe_entry (entry_of m) ((a + i + j) div 4096)" if "j < k" for j
    using assms that by (simp add: unsafe_block_def add.assoc)
  then show ?thesis using assms by (auto simp: unsafe_block_def)
qed

text \<open>A cached page as the access sees it: the bytes are those behind the pointer under the mark.\<close>

lemma translate_cached_chunk:
  assumes "n + unat po \<le> 4096" "page * 4096 + unat (po :: 12 word) = a" "a + n \<le> 2 ^ 63" "i < n"
    "raw_type (entry_of m page) = RasterizerCachedMemory" "ExtractPointer (entry_of m page) True \<noteq> 0"
  shows "translate m (of_nat (a + i)) = Some (ExtractPointer (entry_of m page) True + of_nat a + of_nat i)"
  using page_chunk [OF assms(1-4)] assms(5,6) by (simp add: translate_def Let_def ac_simps)

lemma visit_read_unsafe:
  assumes "0 < n" "n + unat po \<le> 4096" "page * 4096 + unat (po :: 12 word) = a" "a + n \<le> 2 ^ 63"
    "unsafe_entry (entry_of m) page"
  shows "visit_page (read_walker r True) off page po n (m, buf) = Inr (m, splice buf off (load_bytes m a n))"
proof (cases "raw_type (entry_of m page) = RasterizerCachedMemory")
  case False
  then have "plain_entry (entry_of m) page" using assms(5) by (auto simp: plain_entry_def unsafe_entry_def)
  then show ?thesis using visit_read [OF assms(1-4)] by blast
next
  case True
  have va: "push_bit 12 (of_nat page) + ucast po = (of_nat a :: u64)"
    using current_vaddr_nat [of page po] assms(3) by simp
  have pg: "page_of (of_nat a) = page" using page_chunk [OF assms(2-4,1)] by simp
  have nz: "ExtractPointer (entry_of m page) True \<noteq> 0" using True assms(5) by (simp add: unsafe_entry_def)
  have "load_bytes m a n = host_read m (ExtractPointer (entry_of m page) True + of_nat a) n"
    using translate_cached_chunk [OF assms(2-4) _ True nz]
    by (auto simp: load_bytes_def host_read_def byte_at_def intro!: nth_equalityI simp del: of_nat_add)
  then show ?thesis using True nz
    by (simp add: visit_page_def Let_def read_walker_def read_ptr_def GetPointerFromRasterizerCachedMemory_def va pg)
qed

interpretation unsafe_reader: block_walk "read_walker r True" base "2 ^ 63" "read_effect base" unsafe_entry
    "\<lambda>off s. off \<le> length (snd s)" for r base
proof
  fix n page off and po :: "12 word" and s :: "GuestMemory \<times> u8 list"
  assume "0 < n" "n + unat po \<le> 4096" "page * 4096 + unat po = base + off" "base + off + n \<le> 2 ^ 63"
    "unsafe_entry (entry_of (fst s)) page"
  then show "visit_page (read_walker r True) off page po n s = Inr (read_effect base off n s)"
    using visit_read_unsafe [of n po page "base + off" "fst s" r off "snd s"] by (simp add: read_effect_def)
qed (use reader.compose reader.none reader.keeps reader.entries in auto)

lemma unsafe_mapped_pages:
  assumes "unsafe_block m a n"
  shows "(\<forall>i < n. raw_type (entry_of m ((a + i) div 4096)) \<noteq> Unmapped) \<longleftrightarrow> all_mapped m a n"
proof -
  have "mapped m (of_nat (a + i)) \<longleftrightarrow> raw_type (entry_of m ((a + i) div 4096)) \<noteq> Unmapped" if "i < n" for i
    using unsafe_block_bound [OF assms] assms that
    by (cases "raw_type (entry_of m ((a + i) div 4096))")
      (auto simp: mapped_def translate_def Let_def page_of_nat unsafe_block_def unsafe_entry_def simp del: of_nat_add)
  then show ?thesis by (auto simp: all_mapped_def)
qed

lemma ReadBlockUnsafe_reads:
  assumes "unsafe_block m (unat addr) n" "length buf = n"
  shows "ReadBlockUnsafe r addr (of_nat n) (m, buf) = Inr (all_mapped m (unat addr) n, m, load_bytes m (unat addr) n)"
  using unsafe_reader.WalkBlock_E [of "unat addr" addr "(m, buf)" n r] assms unsafe_block_bound [OF assms(1)]
    unsafe_mapped_pages [OF assms(1)]
  by (simp add: unsafe_block_def ReadBlockUnsafe_def ReadBlockImpl_def read_effect_def splice_def)

lemma visit_write_unsafe:
  assumes "0 < n" "n + unat po \<le> 4096" "page * 4096 + unat (po :: 12 word) = a" "a + n \<le> 2 ^ 63"
    "unsafe_entry (entry_of m) page"
  shows "visit_page (write_walker r buffer True) off page po n (m, u) =
    Inr (store_bytes m a (take n (drop off buffer)), ())"
proof (cases "raw_type (entry_of m page) = RasterizerCachedMemory")
  case False
  then have "plain_entry (entry_of m) page" using assms(5) by (auto simp: plain_entry_def unsafe_entry_def)
  then show ?thesis using visit_write [OF assms(1-4)] by blast
next
  case True
  have va: "push_bit 12 (of_nat page) + ucast po = (of_nat a :: u64)"
    using current_vaddr_nat [of page po] assms(3) by simp
  have pg: "page_of (of_nat a) = page" using page_chunk [OF assms(2-4,1)] by simp
  have nz: "ExtractPointer (entry_of m page) True \<noteq> 0" using True assms(5) by (simp add: unsafe_entry_def)
  let ?bs = "take n (drop off buffer)"
  have "store_bytes m a ?bs = host_write m (ExtractPointer (entry_of m page) True + of_nat a) ?bs"
    by (rule store_bytes_chunk) (use translate_cached_chunk [OF assms(2-4) _ True nz] assms(2) in auto)
  then show ?thesis using True nz
    by (simp add: visit_page_def Let_def write_walker_def write_ptr_def GetPointerFromRasterizerCachedMemory_def va pg)
qed

interpretation unsafe_writer: block_walk "write_walker r buffer True" base "2 ^ 63" "write_effect buffer base" unsafe_entry
    "\<lambda>off s. True" for r buffer base
proof
  fix n page off and po :: "12 word" and s :: "GuestMemory \<times> unit"
  assume "0 < n" "n + unat po \<le> 4096" "page * 4096 + unat po = base + off" "base + off + n \<le> 2 ^ 63"
    "unsafe_entry (entry_of (fst s)) page"
  then show "visit_page (write_walker r buffer True) off page po n s = Inr (write_effect buffer base off n s)"
    using visit_write_unsafe [of n po page "base + off" "fst s" r buffer off "snd s"]
    by (cases s) (simp add: write_effect_def)
qed (use writer.compose writer.none writer.entries in auto)

lemma WriteBlockUnsafe_writes:
  assumes "unsafe_block m (unat addr) (length buffer)"
  shows "WriteBlockUnsafe r addr buffer m =
    Inr (all_mapped m (unat addr) (length buffer), store_bytes m (unat addr) buffer)"
  using unsafe_writer.WalkBlock_E [of "unat addr" addr "(m, ())" "length buffer" r buffer] assms
    unsafe_mapped_pages [OF assms] unsafe_block_bound [OF assms]
  by (simp add: unsafe_block_def WriteBlockUnsafe_def WriteBlockImpl_def write_effect_def)

section \<open>Occurrences of the needle\<close>

definition occurrences :: "u8 list \<Rightarrow> u8 list \<Rightarrow> nat list" where
  "occurrences needle xs = filter (\<lambda>i. take (length needle) (drop i xs) = needle) [0..<length xs]"

lemma occurrences_Cons:
  "occurrences needle (x # xs) =
    (if take (length needle) (x # xs) = needle then [0] else []) @ map Suc (occurrences needle xs)"
proof -
  have "[0..<length (x # xs)] = 0 # map Suc [0..<length xs]"
    by (simp add: upt_conv_Cons map_Suc_upt del: upt_Suc)
  then show ?thesis by (simp add: occurrences_def filter_map comp_def del: upt_Suc)
qed

lemma occurrences_none: "std_search needle xs = None \<Longrightarrow> occurrences needle xs = []"
  by (induction xs) (auto simp: occurrences_Cons split: if_splits, simp add: occurrences_def)

lemma occurrences_drop:
  "std_search needle xs = Some k \<Longrightarrow>
    occurrences needle xs = k # map (\<lambda>i. i + (k + 1)) (occurrences needle (drop (k + 1) xs))"
  by (induction xs arbitrary: k) (auto simp: occurrences_Cons split: if_splits)

lemma search_ints_finds:
  assumes "length results < max_results"
  shows "search_ints needle v base max_results pos rest results = take max_results (results @
    map (\<lambda>i. \<lparr>mt_address = base + of_nat (pos + i), mt_value = v\<rparr>) (occurrences needle rest))"
  using assms
proof (induction needle v base max_results pos rest results rule: search_ints.induct)
  case (1 needle v base max_results pos rest results)
  show ?case
  proof (cases "std_search needle rest")
    case None
    then have "occurrences needle rest = []" by (rule occurrences_none)
    then show ?thesis using None "1.prems" by (subst search_ints.simps) simp
  next
    case (Some k)
    let ?r = "results @ [\<lparr>mt_address = base + of_nat (pos + k), mt_value = v\<rparr>]"
    show ?thesis
    proof (cases "length ?r \<ge> max_results")
      case True
      then have "max_results = length ?r" using "1.prems" by simp
      then show ?thesis using Some by (subst search_ints.simps) (simp add: occurrences_drop [OF Some])
    next
      case False
      then show ?thesis
        using Some "1.IH" [OF Some refl False] occurrences_drop [OF Some]
        by (subst search_ints.simps) (simp add: comp_def add.assoc add.commute [of k] add.left_commute)
    qed
  qed
qed

section \<open>Values in memory\<close>

definition word_at :: "GuestMemory \<Rightarrow> nat \<Rightarrow> u32" where
  "word_at m a = DecodeValue (load_bytes m a 4)"

definition heap_region :: "MemoryRegion \<Rightarrow> bool" where
  "heap_region rg \<longleftrightarrow> rg_state rg = MS_Normal \<and> 4 \<le> unat (rg_size rg)"

text \<open>The region is readable: the pages it has marks on have pointers under them.\<close>

definition region_ok :: "GuestMemory \<Rightarrow> MemoryRegion \<Rightarrow> bool" where
  "region_ok m rg \<longleftrightarrow> (heap_region rg \<longrightarrow> unsafe_block m (unat (rg_address rg)) (unat (rg_size rg)))"

definition searched :: "GuestMemory \<Rightarrow> MemoryRegion \<Rightarrow> bool" where
  "searched m rg \<longleftrightarrow> heap_region rg \<and> all_mapped m (unat (rg_address rg)) (unat (rg_size rg))"

text \<open>The matches an exact search has in a region: at every offset for integers, at the aligned
  ones for floats.\<close>

definition int_hits :: "GuestMemory \<Rightarrow> u32 \<Rightarrow> MemoryRegion \<Rightarrow> Match list" where
  "int_hits m v rg = map (\<lambda>i. \<lparr>mt_address = rg_address rg + of_nat i, mt_value = v\<rparr>)
    (filter (\<lambda>i. i + 4 \<le> unat (rg_size rg) \<and> load_bytes m (unat (rg_address rg) + i) 4 = EncodeValue v) [0..<unat (rg_size rg)])"

definition word_hits :: "(nat \<Rightarrow> bool) \<Rightarrow> GuestMemory \<Rightarrow> MemoryRegion \<Rightarrow> Match list" where
  "word_hits P m rg = map (\<lambda>i. \<lparr>mt_address = rg_address rg + of_nat (i * 4), mt_value = word_at m (unat (rg_address rg) + i * 4)\<rparr>)
    (filter (\<lambda>i. P (unat (rg_address rg) + i * 4)) [0..<unat (rg_size rg) div 4])"

definition exact_hits :: "GuestMemory \<Rightarrow> ValueType \<Rightarrow> u32 \<Rightarrow> u32 \<Rightarrow> MemoryRegion \<Rightarrow> Match list" where
  "exact_hits m type v tolerance rg =
    (if type = Float32 then word_hits (\<lambda>a. MatchesFloat (word_at m a) v tolerance) m rg else int_hits m v rg)"

lemma take_drop_load: "take k (drop i (load_bytes m a n)) = load_bytes m (a + i) (min k (n - i))"
  by (rule nth_equalityI) (auto simp: load_bytes_def add.assoc)

lemma DecodeValue_load: "i + 4 \<le> n \<Longrightarrow> DecodeValue (drop i (load_bytes m a n)) = word_at m (a + i)"
  by (simp add: word_at_def DecodeValue_def take_drop_load take_drop_load [of 4 0, simplified])

lemma length_EncodeValue [simp]: "length (EncodeValue v) = 4"
  by (simp add: EncodeValue_def)

lemma DecodeValue_EncodeValue [simp]: "DecodeValue (EncodeValue v) = v"
  by (simp add: DecodeValue_def EncodeValue_def le_value_le_bytes) (rule bit_eqI, auto simp: bit_simps)

lemma occurrences_load:
  "occurrences (EncodeValue v) (load_bytes m a n) =
    filter (\<lambda>i. i + 4 \<le> n \<and> load_bytes m (a + i) 4 = EncodeValue v) [0..<n]"
proof -
  have "load_bytes m (a + i) (min 4 (n - i)) = EncodeValue v \<longleftrightarrow> i + 4 \<le> n \<and> load_bytes m (a + i) 4 = EncodeValue v" if "i < n" for i
  proof (cases "i + 4 \<le> n")
    case False
    then have "length (load_bytes m (a + i) (min 4 (n - i))) \<noteq> length (EncodeValue v)" by simp
    then show ?thesis using False by metis
  qed (simp add: min_absorb1)
  then show ?thesis unfolding occurrences_def take_drop_load length_EncodeValue length_load_bytes
    by (intro filter_cong) auto
qed

lemma int_hits_occurrences:
  "int_hits m v rg = map (\<lambda>i. \<lparr>mt_address = rg_address rg + of_nat i, mt_value = v\<rparr>)
    (occurrences (EncodeValue v) (load_bytes m (unat (rg_address rg)) (unat (rg_size rg))))"
  by (simp only: int_hits_def occurrences_load)

lemma length_resize [simp]: "length (resize n buffer) = n"
  by (simp add: resize_def)

lemma region_read:
  assumes "region_ok m rg" and "heap_region rg"
  shows "ReadBlockUnsafe r (rg_address rg) (rg_size rg) (m, resize (unat (rg_size rg)) buf) =
    Inr (searched m rg, m, load_bytes m (unat (rg_address rg)) (unat (rg_size rg)))"
  using ReadBlockUnsafe_reads [of m "rg_address rg" "unat (rg_size rg)" "resize (unat (rg_size rg)) buf" r] assms
  by (simp add: region_ok_def searched_def)

section \<open>Loops that stop at a number of results\<close>

lemma take_full: "length xs = n \<Longrightarrow> take n (xs @ ys) = xs"
  by simp

lemma search_floats_finds:
  assumes "length results \<le> max_results"
  shows "search_floats needle tolerance base max_results buffer n i results = take max_results (results @
    map (\<lambda>k. \<lparr>mt_address = base + of_nat (k * 4), mt_value = DecodeValue (drop (k * 4) buffer)\<rparr>)
      (filter (\<lambda>k. MatchesFloat (DecodeValue (drop (k * 4) buffer)) needle tolerance) [i..<i + n]))"
  using assms
proof (induction n arbitrary: i results)
  case (Suc n)
  show ?case
  proof (cases "length results < max_results")
    case True
    then obtain d where "max_results = Suc (length results + d)" using less_imp_Suc_add by blast
    then show ?thesis using Suc.IH [of _ "i + 1"] by (simp add: Let_def upt_conv_Cons Suc_diff_le del: upt_Suc)
  qed (use Suc.prems in simp)
qed simp

lemma compare_values_finds:
  assumes "length results < max_results"
  shows "compare_values comparison type max_results base data buffer n i results = take max_results (results @
    map (\<lambda>k. \<lparr>mt_address = base + of_nat (k * 4), mt_value = DecodeValue (drop (k * 4) buffer)\<rparr>)
      (filter (\<lambda>k. keep_value type comparison (DecodeValue (drop (k * 4) data)) (DecodeValue (drop (k * 4) buffer))) [i..<i + n]))"
  using assms
proof (induction n arbitrary: i results)
  case (Suc n)
  let ?keep = "keep_value type comparison (DecodeValue (drop (i * 4) data)) (DecodeValue (drop (i * 4) buffer))"
  show ?case
  proof (cases "?keep \<and> length results + 1 \<ge> max_results")
    case True
    then have "max_results = length results + 1" using Suc.prems by simp
    then show ?thesis using True by (simp add: Let_def upt_conv_Cons del: upt_Suc)
  next
    case False
    obtain d where "max_results = Suc (length results + d)" using Suc.prems less_imp_Suc_add by blast
    then show ?thesis using False Suc.IH [of _ "i + 1"] by (auto simp: Let_def upt_conv_Cons not_le Suc_diff_le simp del: upt_Suc)
  qed
qed simp

lemma words_of_load:
  "map (\<lambda>k. \<lparr>mt_address = rg_address rg + of_nat (k * 4), mt_value = DecodeValue (drop (k * 4) (load_bytes m a n))\<rparr>)
      (filter (\<lambda>k. P (DecodeValue (drop (k * 4) (load_bytes m a n))) k) [0..<0 + n div 4]) =
    map (\<lambda>k. \<lparr>mt_address = rg_address rg + of_nat (k * 4), mt_value = word_at m (a + k * 4)\<rparr>)
      (filter (\<lambda>k. P (word_at m (a + k * 4)) k) [0..<n div 4])"
proof -
  have "DecodeValue (drop (k * 4) (load_bytes m a n)) = word_at m (a + k * 4)" if "k < n div 4" for k
    using that by (intro DecodeValue_load) auto
  then show ?thesis by (auto intro!: map_cong filter_cong)
qed

lemma search_regions_finds:
  assumes "\<forall>rg \<in> set regions. region_ok m rg" and "length results \<le> max_results"
  shows "search_regions r v type tolerance max_results regions (m, buf) results =
    Inr (take max_results (results @ concat (map (exact_hits m type v tolerance) (filter (searched m) regions))), m)"
  using assms
proof (induction regions arbitrary: buf results)
  case (Cons rg regions)
  show ?case
  proof (cases "\<not> heap_region rg \<or> length results = max_results")
    case True
    then have "search_regions r v type tolerance max_results (rg # regions) (m, buf) results =
        search_regions r v type tolerance max_results regions (m, buf) results"
      by (auto simp: heap_region_def not_le)
    also have "\<dots> = Inr (take max_results (results @ concat (map (exact_hits m type v tolerance) (filter (searched m) regions))), m)"
      using Cons by simp
    finally show ?thesis using True by (cases "heap_region rg") (simp_all add: take_full, simp add: searched_def)
  next
    case False
    then have h: "heap_region rg" "length results < max_results" using Cons.prems by auto
    let ?b = "load_bytes m (unat (rg_address rg)) (unat (rg_size rg))"
    let ?n = "(if type = Float32 then search_floats v tolerance (rg_address rg) max_results ?b (length ?b div 4) 0 results
      else search_ints (EncodeValue v) v (rg_address rg) max_results 0 ?b results)"
    have hits: "?n = take max_results (results @ exact_hits m type v tolerance rg)"
      using search_floats_finds [of results max_results v tolerance "rg_address rg" ?b "length ?b div 4" 0] h(2)
        search_ints_finds [of results max_results "EncodeValue v" v "rg_address rg" 0 ?b]
        words_of_load [of rg m "unat (rg_address rg)" "unat (rg_size rg)" "\<lambda>w k. MatchesFloat w v tolerance"]
      by (simp add: exact_hits_def word_hits_def int_hits_def occurrences_load)
    have "search_regions r v type tolerance max_results (rg # regions) (m, buf) results =
        search_regions r v type tolerance max_results regions (m, ?b) (if searched m rg then ?n else results)"
      using h region_read [of m rg r buf] Cons.prems(1) by (simp add: heap_region_def not_le)
    also have "\<dots> = Inr (take max_results ((if searched m rg then take max_results (results @ exact_hits m type v tolerance rg) else results) @
        concat (map (exact_hits m type v tolerance) (filter (searched m) regions))), m)"
      unfolding hits using Cons.prems h(2) by (intro Cons.IH) auto
    finally show ?thesis by (auto simp: min_def)
  qed
qed simp

section \<open>Blind searches\<close>

text \<open>A snapshot holds the regions that could be read, with the bytes they had.\<close>

definition shot :: "GuestMemory \<Rightarrow> MemoryRegion \<Rightarrow> SnapshotRegion" where
  "shot m rg = \<lparr>sn_region = rg, sn_data = load_bytes m (unat (rg_address rg)) (unat (rg_size rg))\<rparr>"

lemma snapshot_regions_takes:
  assumes "\<forall>rg \<in> set regions. region_ok m rg \<and> (heap_region rg \<longrightarrow> alloc rg)"
  shows "snapshot_regions r alloc regions m snapshot = Inr (snapshot @ map (shot m) (filter (searched m) regions), m)"
  using assms
proof (induction regions arbitrary: snapshot)
  case (Cons rg regions)
  show ?case
  proof (cases "heap_region rg")
    case True
    then show ?thesis using Cons region_read [of m rg r "[]"]
      by (simp add: heap_region_def not_le shot_def)
  next
    case False
    moreover from this have "\<not> searched m rg" by (simp add: searched_def)
    ultimately show ?thesis using Cons by (auto simp: heap_region_def not_le)
  qed
qed simp

text \<open>The values of a region that compare to the ones they had.\<close>

definition changed_hits :: "GuestMemory \<Rightarrow> GuestMemory \<Rightarrow> ValueType \<Rightarrow> Comparison \<Rightarrow> MemoryRegion \<Rightarrow> Match list" where
  "changed_hits m0 m type cmp = word_hits (\<lambda>a. keep_value type cmp (word_at m0 a) (word_at m a)) m"

lemma compare_regions_finds:
  assumes "\<forall>rg \<in> set regions. region_ok m rg \<and> heap_region rg" and "length results \<le> max_results"
  shows "compare_regions r cmp type max_results (map (shot m0) regions) (m, buf) results =
    Inr (take max_results (results @ concat (map (changed_hits m0 m type cmp) (filter (searched m) regions))), m)"
  using assms
proof (induction regions arbitrary: buf results)
  case (Cons rg regions)
  show ?case
  proof (cases "length results < max_results")
    case True
    let ?b = "load_bytes m (unat (rg_address rg)) (unat (rg_size rg))"
    let ?old = "load_bytes m0 (unat (rg_address rg)) (unat (rg_size rg))"
    let ?n = "compare_values cmp type max_results (rg_address rg) ?old ?b (length ?b div 4) 0 results"
    have hits: "?n = take max_results (results @ changed_hits m0 m type cmp rg)"
    proof -
      have "DecodeValue (drop (k * 4) (load_bytes x a n)) = word_at x (a + k * 4)" if "k < n div 4" for k x a n
        using that by (intro DecodeValue_load) auto
      then show ?thesis using compare_values_finds [OF True, of cmp type "rg_address rg" ?old ?b "length ?b div 4" 0]
        by (auto simp: changed_hits_def word_hits_def intro!: arg_cong2 [of _ _ _ _ take] map_cong filter_cong)
    qed
    have "compare_regions r cmp type max_results (map (shot m0) (rg # regions)) (m, buf) results =
        compare_regions r cmp type max_results (map (shot m0) regions) (m, ?b) (if searched m rg then ?n else results)"
      using True region_read [of m rg r buf] Cons.prems(1) by (simp add: shot_def)
    also have "\<dots> = Inr (take max_results ((if searched m rg then take max_results (results @ changed_hits m0 m type cmp rg) else results) @
        concat (map (changed_hits m0 m type cmp) (filter (searched m) regions))), m)"
      unfolding hits using Cons.prems True by (intro Cons.IH) auto
    finally show ?thesis by (auto simp: min_def)
  qed (use Cons.prems in simp)
qed simp

section \<open>Refinement\<close>

definition kept :: "GuestMemory \<Rightarrow> Comparison option \<Rightarrow> u32 \<Rightarrow> ValueType \<Rightarrow> u32 \<Rightarrow> Match \<Rightarrow> bool" where
  "kept m cmp v type tolerance c \<longleftrightarrow> all_mapped m (unat (mt_address c)) 4 \<and>
    keep_candidate cmp v type tolerance (mt_value c) (word_at m (unat (mt_address c)))"

definition refreshed :: "GuestMemory \<Rightarrow> Match \<Rightarrow> Match" where
  "refreshed m c = c\<lparr>mt_value := word_at m (unat (mt_address c))\<rparr>"

lemma refine_loop_keeps:
  assumes "\<forall>c \<in> set candidates. unsafe_block m (unat (mt_address c)) 4" and "length buf = 4"
  shows "refine_loop r cmp v type tolerance candidates (m, buf) results =
    Inr (results @ map (refreshed m) (filter (kept m cmp v type tolerance) candidates), m)"
  using assms
proof (induction candidates arbitrary: buf results)
  case (Cons c candidates)
  have "refine_loop r cmp v type tolerance (c # candidates) (m, buf) results =
      refine_loop r cmp v type tolerance candidates (m, load_bytes m (unat (mt_address c)) 4)
        (if kept m cmp v type tolerance c then results @ [refreshed m c] else results)"
    using Cons.prems ReadBlockUnsafe_reads [of m "mt_address c" 4 buf r]
    by (cases c) (simp add: kept_def refreshed_def word_at_def)
  then show ?case using Cons by simp
qed simp

section \<open>Frozen values\<close>

text \<open>The table of frozen values is an ordered map, and the thread runs while it has entries.\<close>

definition frozen_inv :: "FreezeState \<Rightarrow> bool" where
  "frozen_inv f \<longleftrightarrow> sorted_wrt (<) (map fst (g_frozen f)) \<and> (g_freeze_thread f \<longleftrightarrow> g_frozen f \<noteq> [])"

lemma map_set_Cons:
  assumes "sorted_wrt (<) (map fst ((b, w) # xs))"
  shows "map_set a v ((b, w) # xs) =
    (if b < a then (b, w) # map_set a v xs else if b = a then (a, v) # xs else (a, v) # (b, w) # xs)"
proof -
  have "dropWhile (\<lambda>(c, _). c \<le> b) xs = xs"
    using assms by (cases xs) auto
  then show ?thesis by (auto simp: map_set_def)
qed

lemma map_set_Nil [simp]: "map_set a v [] = [(a, v)]"
  by (simp add: map_set_def)

lemma map_set_keys: "sorted_wrt (<) (map fst xs) \<Longrightarrow> fst ` set (map_set a v xs) = insert a (fst ` set xs)"
proof (induction xs)
  case (Cons x xs)
  then show ?case by (cases x) (simp add: map_set_Cons insert_commute)
qed simp

lemma map_set_sorted: "sorted_wrt (<) (map fst xs) \<Longrightarrow> sorted_wrt (<) (map fst (map_set a v xs))"
proof (induction xs)
  case (Cons x xs)
  then show ?case using map_set_keys [of xs a v] by (cases x) (force simp: map_set_Cons)
qed simp

lemma map_of_map_set: "sorted_wrt (<) (map fst xs) \<Longrightarrow> map_of (map_set a v xs) = (map_of xs)(a \<mapsto> v)"
  by (induction xs) (auto simp: map_set_Cons fun_eq_iff)

lemma map_of_filter_key: "map_of (filter (\<lambda>(b, _). b \<noteq> a) xs) = (map_of xs)(a := None)"
  by (induction xs) (auto simp: fun_eq_iff)

text \<open>The sequences of calls of the table, and the map they are meant to keep.\<close>

datatype FreezeOp = OpSetFrozen u64 u32 | OpClearFrozen u64 | OpClearAllFrozen

fun freeze_step :: "FreezeOp \<Rightarrow> FreezeState \<Rightarrow> FreezeState" where
  "freeze_step (OpSetFrozen a v) f = SetFrozen a v f"
| "freeze_step (OpClearFrozen a) f = ClearFrozen a f"
| "freeze_step OpClearAllFrozen f = ClearAllFrozen f"

fun freeze_spec :: "FreezeOp \<Rightarrow> (u64 \<rightharpoonup> u32) \<Rightarrow> (u64 \<rightharpoonup> u32)" where
  "freeze_spec (OpSetFrozen a v) F = F(a \<mapsto> v)"
| "freeze_spec (OpClearFrozen a) F = F(a := None)"
| "freeze_spec OpClearAllFrozen F = Map.empty"

lemma map_set_nonempty [simp]: "map_set a v xs \<noteq> []"
  by (simp add: map_set_def)

lemma freeze_step_refines:
  "frozen_inv f \<Longrightarrow> frozen_inv (freeze_step x f) \<and> map_of (g_frozen (freeze_step x f)) = freeze_spec x (map_of (g_frozen f))"
proof (cases x)
  case (OpSetFrozen a v)
  moreover assume "frozen_inv f"
  ultimately show ?thesis by (simp add: frozen_inv_def SetFrozen_def map_set_sorted map_of_map_set)
qed (auto simp: frozen_inv_def ClearFrozen_def ClearAllFrozen_def Let_def map_of_filter_key sorted_wrt_map sorted_wrt_filter)

lemma freeze_steps_refine:
  "frozen_inv f \<Longrightarrow> frozen_inv (fold freeze_step xs f) \<and>
     map_of (g_frozen (fold freeze_step xs f)) = fold freeze_spec xs (map_of (g_frozen f))"
proof (induction xs arbitrary: f)
  case (Cons x xs)
  then show ?case using freeze_step_refines [of f x] Cons.IH [of "freeze_step x f"] by simp
qed simp

lemma new_frozen_inv [simp]: "frozen_inv new_FreezeState" "g_frozen new_FreezeState = []"
  by (simp_all add: frozen_inv_def new_FreezeState_def)

text \<open>The words at a set of addresses: mapped, and no two of their bytes at one host byte.\<close>

definition word_ok :: "GuestMemory \<Rightarrow> u64 \<Rightarrow> bool" where
  "word_ok m a \<longleftrightarrow> unsafe_block m (unat a) 4 \<and> all_mapped m (unat a) 4 \<and> no_alias m (unat a) 4"

definition apart :: "GuestMemory \<Rightarrow> u64 \<Rightarrow> u64 \<Rightarrow> bool" where
  "apart m a b \<longleftrightarrow> (\<forall>i < 4. \<forall>j < 4. translate m (of_nat (unat a + i)) \<noteq> translate m (of_nat (unat b + j)))"

definition words_ok :: "GuestMemory \<Rightarrow> u64 set \<Rightarrow> bool" where
  "words_ok m A \<longleftrightarrow> (\<forall>a \<in> A. word_ok m a) \<and> (\<forall>a \<in> A. \<forall>b \<in> A. a \<noteq> b \<longrightarrow> apart m a b)"

definition backs :: "GuestMemory \<Rightarrow> u64 \<Rightarrow> u64 \<Rightarrow> bool" where
  "backs m a p \<longleftrightarrow> (\<exists>i < 4. translate m (of_nat (unat a + i)) = Some p)"

lemma unsafe_block_store [simp]: "unsafe_block (store_bytes m a bs) b n = unsafe_block m b n"
  by (simp add: unsafe_block_def)

lemma words_ok_store [simp]: "words_ok (store_bytes m a bs) A = words_ok m A"
  by (simp add: words_ok_def word_ok_def apart_def no_alias_def)

lemma word_at_stored: "word_ok m a \<Longrightarrow> word_at (store_bytes m (unat a) (EncodeValue v)) (unat a) = v"
  using load_store_bytes [of m "unat a" "EncodeValue v"] by (simp add: word_ok_def word_at_def)

lemma word_at_apart:
  assumes "\<And>p. backs m a p \<Longrightarrow> host m' p = host m p" "page_table m' = page_table m"
  shows "word_at m' (unat a) = word_at m (unat a)"
proof -
  have "translate m' = translate m" using assms(2) by (auto simp: translate_def entry_of_def fun_eq_iff)
  then have "load_bytes m' (unat a) 4 = load_bytes m (unat a) 4"
    using assms(1) unfolding load_bytes_def byte_at_def backs_def
    by (intro map_cong refl) (force simp del: of_nat_add split: option.split)
  then show ?thesis by (simp add: word_at_def)
qed

lemma freeze_writes_holds:
  assumes "ApplicationMemory sys = Some m" "words_ok m (fst ` set xs)" "distinct (map fst xs)"
  shows "\<exists>m'. freeze_writes r xs sys = Inr (sys\<lparr>ApplicationMemory := Some m'\<rparr>) \<and> page_table m' = page_table m \<and>
    (\<forall>(a, v) \<in> set xs. word_at m' (unat a) = v) \<and>
    (\<forall>p. (\<forall>a \<in> fst ` set xs. \<not> backs m a p) \<longrightarrow> host m' p = host m p)"
  using assms
proof (induction xs arbitrary: sys m)
  case Nil
  then show ?case by (intro exI [of _ m]) simp
next
  case (Cons x xs)
  obtain a v where x: "x = (a, v)" by fastforce
  let ?m = "store_bytes m (unat a) (EncodeValue v)"
  have ok: "word_ok m a" using Cons.prems(2) x by (simp add: words_ok_def)
  have "search_Write r a (EncodeValue v) sys = Inr (True, sys\<lparr>ApplicationMemory := Some ?m\<rparr>)"
    using WriteBlockUnsafe_writes [of m a "EncodeValue v" r] ok Cons.prems(1)
    by (simp add: search_Write_def word_ok_def)
  moreover have "words_ok m (fst ` set xs)" using Cons.prems(2) by (auto simp: words_ok_def)
  then obtain m' where m': "freeze_writes r xs (sys\<lparr>ApplicationMemory := Some ?m\<rparr>) = Inr (sys\<lparr>ApplicationMemory := Some m'\<rparr>)"
    "page_table m' = page_table m" "\<forall>(a, v) \<in> set xs. word_at m' (unat a) = v"
    "\<forall>p. (\<forall>a \<in> fst ` set xs. \<not> backs m a p) \<longrightarrow> host m' p = host ?m p"
    using Cons.IH [of "sys\<lparr>ApplicationMemory := Some ?m\<rparr>" ?m] Cons.prems(3) by (auto simp: backs_def)
  have "host m' p = host ?m p" if "backs m a p" for p
  proof -
    have "\<not> backs m b p" if "b \<in> fst ` set xs" for b
    proof
      assume "backs m b p"
      moreover have "apart m a b" using Cons.prems(2,3) that x by (auto simp: words_ok_def)
      ultimately show False using \<open>backs m a p\<close> unfolding backs_def apart_def by metis
    qed
    then show ?thesis using m'(4) by simp
  qed
  then have "word_at m' (unat a) = v"
    using word_at_apart [of ?m a m'] word_at_stored [OF ok] m'(2) by (simp add: backs_def)
  moreover have "host m' p = host m p" if "\<forall>b \<in> fst ` set (x # xs). \<not> backs m b p" for p
    using that m'(4) x store_bytes_frame [of "EncodeValue v" m "unat a" p] by (simp add: backs_def)
  ultimately show ?case using m' x by (intro exI [of _ m']) auto
qed

end
