(* ===== verification/Memory_Search_Behaviour.thy ===== *)
theory Memory_Search_Behaviour
  imports Memory_Search_Laws
begin

text \<open>
  The properties of the memory search, with runs on a process whose heap is one region that
  crosses two guest pages on host pages far apart.
\<close>

section \<open>A process to search\<close>

definition sample_region :: MemoryRegion where
  "sample_region = \<lparr>rg_address = 0x1FFC, rg_size = 8, rg_state = MS_Normal\<rparr>"

definition sample_table :: KProcessPageTable where
  "sample_table = \<lparr>GetAddressSpaceStart = 0x1FFC, GetAddressSpaceSize = 8, QueryInfo = (\<lambda>_. Some sample_region)\<rparr>"

text \<open>The memory with a word at the page boundary.\<close>

definition sample_word :: "u32 \<Rightarrow> GuestMemory" where
  "sample_word v = store_bytes sample_memory 0x1FFC (EncodeValue v)"

definition sample_system :: "GuestMemory \<Rightarrow> SearchSystem" where
  "sample_system m = \<lparr>ApplicationMemory = Some m, ApplicationPageTable = sample_table\<rparr>"

lemma sample_regions [simp]: "EnumerateScannableRegions sample_table = [sample_region]"
  by (simp add: EnumerateScannableRegions_def sample_table_def enumerate_from.simps sample_region_def
    IsScannableMemoryState_def)

lemma sample_search_block:
  "unsafe_block sample_memory 0x1FFC 8" "all_mapped sample_memory 0x1FFC 8" "no_alias sample_memory 0x1FFC 8"
proof -
  have t: "translate sample_memory (of_nat (0x1FFC + i)) =
      (if i < 4 then Some (0x10000 + of_nat (0x1FFC + i)) else Some (0x20000 + of_nat (0x1FFC + i)))" if "i < 8" for i
    using that sample_translate [of "0x1FFC + i"] by (cases "i < 4") simp_all
  show "unsafe_block sample_memory 0x1FFC 8"
  proof -
    have "(0x1FFC + i) div 4096 = (if i < 4 then 1 else 2)" if "i < 8" for i :: nat using that by auto
    then show ?thesis by (auto simp: unsafe_block_def unsafe_entry_def) (simp_all add: sample_memory_def)
  qed
  show "all_mapped sample_memory 0x1FFC 8" using t by (simp add: all_mapped_def mapped_def del: of_nat_add)
  have "translate sample_memory (of_nat (0x1FFC + i)) \<noteq> translate sample_memory (of_nat (0x1FFC + j))"
    if "i < 8" "j < 8" "i \<noteq> j" for i j
  proof -
    have "{i, j} \<subseteq> {0, 1, 2, 3, 4, 5, 6, 7}" using that by auto
    then show ?thesis using t [OF that(1)] t [OF that(2)] that(3) by auto
  qed
  then show "no_alias sample_memory 0x1FFC 8" by (auto simp: no_alias_def)
qed

lemma sample_word_ok [simp]:
  "region_ok (sample_word v) sample_region" "searched (sample_word v) sample_region"
  using sample_search_block
  by (simp_all add: region_ok_def searched_def heap_region_def sample_region_def sample_word_def)

lemma sample_part:
  assumes "i + 4 \<le> 8"
  shows "word_ok sample_memory (of_nat (0x1FFC + i))"
proof -
  have "unat (of_nat (0x1FFC + i) :: u64) = 0x1FFC + i" using assms by (simp add: unat_of_nat take_bit_nat_eq_self del: of_nat_add)
  moreover have "unsafe_block sample_memory (0x1FFC + i) 4" using unsafe_block_part [OF sample_search_block(1)] assms by blast
  moreover have "0x1FFC + (i + j) = 0x1FFC + i + j" for j by simp
  then have "all_mapped sample_memory (0x1FFC + i) 4" "no_alias sample_memory (0x1FFC + i) 4"
    using sample_search_block(2,3) assms unfolding all_mapped_def no_alias_def
    by (metis add_less_cancel_left add_left_cancel less_le_trans)+
  ultimately show ?thesis by (simp add: word_ok_def)
qed

lemma DecodeValue_prefix: "DecodeValue (EncodeValue v @ xs) = v"
  using DecodeValue_EncodeValue [of v] by (simp add: DecodeValue_def del: DecodeValue_EncodeValue)

lemma sample_zero: "byte_at sample_memory a = 0"
  by (simp add: byte_at_def split: option.split) (simp add: sample_memory_def)

lemma sample_word_bytes: "load_bytes (sample_word v) 0x1FFC 8 = EncodeValue v @ [0, 0, 0, 0]"
proof -
  have w: "word_ok sample_memory 0x1FFC" using sample_part [of 0] by simp
  have "load_bytes (sample_word v) 0x1FFC 4 = EncodeValue v"
    using w load_store_bytes [of sample_memory "0x1FFC" "EncodeValue v"] by (simp add: word_ok_def sample_word_def)
  moreover have "byte_at (sample_word v) (of_nat (0x2000 + i)) = 0" if "i < 4" for i
  proof -
    have "translate sample_memory (of_nat (0x1FFC + j)) \<noteq> translate sample_memory (of_nat (0x2000 + i))" if "j < 4" for j
    proof
      have "0x1FFC + (i + 4) = 0x2000 + i" by simp
      moreover assume "translate sample_memory (of_nat (0x1FFC + j)) = translate sample_memory (of_nat (0x2000 + i))"
      ultimately have eq: "translate sample_memory (of_nat (0x1FFC + j)) = translate sample_memory (of_nat (0x1FFC + (i + 4)))"
        by metis
      have "j < 8" "i + 4 < 8" using \<open>i < 4\<close> that by simp_all
      then have "j = i + 4" using eq sample_search_block(3) unfolding no_alias_def by blast
      then show False using that by simp
    qed
    then have "byte_at (sample_word v) (of_nat (0x2000 + i)) = byte_at sample_memory (of_nat (0x2000 + i))"
      using store_bytes_frame [of "EncodeValue v" sample_memory "0x1FFC"]
      by (auto simp: byte_at_def sample_word_def simp del: of_nat_add split: option.split)
    then show ?thesis by (simp add: sample_zero)
  qed
  then have "load_bytes (sample_word v) 0x2000 4 = map (\<lambda>_. 0) [0..<4]"
    unfolding load_bytes_def by (intro map_cong refl) auto
  then have "load_bytes (sample_word v) 0x2000 4 = [0, 0, 0, 0]" by (simp add: upt_conv_Cons)
  ultimately show ?thesis using load_bytes_append [of "sample_word v" "0x1FFC" 4 4] by simp
qed

lemma sample_word_values: "word_at (sample_word v) 0x1FFC = v" "word_at (sample_word v) 0x2000 = 0"
  using DecodeValue_load [of 0 8 "sample_word v" "0x1FFC"] DecodeValue_load [of 4 8 "sample_word v" "0x1FFC"]
  by (simp_all add: sample_word_bytes DecodeValue_prefix) (simp add: DecodeValue_def numeral_eq_Suc)

lemma sample_words:
  "word_ok (sample_word v) 0x1FFC" "word_ok (sample_word v) 0x2000"
  using sample_part [of 0] sample_part [of 4] by (simp_all add: word_ok_def sample_word_def no_alias_def)

section \<open>Properties\<close>

text \<open>
  An exact search finds everything there is to find: its result is the list, cut at the number
  of results asked for, of all occurrences of the needle in the readable heap regions, in the order
  of the address space; at every offset (overlapping ones included) for integers, at the aligned
  offsets whose float matches within the tolerance for floats. The memory is not changed.
\<close>

theorem Search_finds_all:
  assumes "ApplicationMemory sys = Some m"
    and "\<forall>rg \<in> set (EnumerateScannableRegions (ApplicationPageTable sys)). region_ok m rg"
    and "type = Float32 \<longrightarrow> float_isfinite v"
  shows "Search r v type tolerance max_results sys = Inr (take max_results (concat (map (exact_hits m type v tolerance)
    (filter (searched m) (EnumerateScannableRegions (ApplicationPageTable sys))))), sys)"
  using assms search_regions_finds [of "EnumerateScannableRegions (ApplicationPageTable sys)" m "[]" max_results r v type tolerance "[]"]
  by (auto simp: Search_def)

theorem Search_finds_all_witness:
  "Search idle_rasterizer 0x1020304 Int32 0 10 (sample_system (sample_word 0x1020304)) =
     Inr ([\<lparr>mt_address = 0x1FFC, mt_value = 0x1020304\<rparr>], sample_system (sample_word 0x1020304))"
proof -
  have "exact_hits (sample_word 0x1020304) Int32 0x1020304 0 sample_region = [\<lparr>mt_address = 0x1FFC, mt_value = 0x1020304\<rparr>]"
  proof -
    have "occurrences (EncodeValue 0x1020304) (EncodeValue 0x1020304 @ [0, 0, 0, 0]) = [0]" by code_simp
    then show ?thesis
      by (simp add: exact_hits_def int_hits_occurrences sample_region_def sample_word_bytes)
  qed
  then show ?thesis
    using Search_finds_all [of "sample_system (sample_word 0x1020304)" "sample_word 0x1020304" Int32 "0x1020304"
      idle_rasterizer 0 10] by (simp add: sample_system_def)
qed

text \<open>
  C7. A blind search compares the memory with the snapshot: after a snapshot of one memory, a
  comparison on a later one lists, up to the number of results asked for, the aligned words of the
  heap regions readable both times whose value has increased, decreased or stayed, by the signed
  order for integers and by the order of the values for floats. The snapshot is used up.
\<close>

theorem blind_search_finds:
  assumes "ApplicationMemory sys = Some m0"
    and "\<forall>rg \<in> set (EnumerateScannableRegions (ApplicationPageTable sys)).
      region_ok m0 rg \<and> region_ok m rg \<and> (heap_region rg \<longrightarrow> alloc rg)"
  shows "\<exists>snapshot. TakeSnapshot r alloc sys = Inr (snapshot, sys) \<and>
    CompareSnapshot r cmp type max_results snapshot (sys\<lparr>ApplicationMemory := Some m\<rparr>) =
      Inr (take max_results (concat (map (changed_hits m0 m type cmp)
        (filter (\<lambda>rg. searched m0 rg \<and> searched m rg) (EnumerateScannableRegions (ApplicationPageTable sys))))),
      [], sys\<lparr>ApplicationMemory := Some m\<rparr>)"
proof -
  let ?rs = "EnumerateScannableRegions (ApplicationPageTable sys)"
  let ?s = "map (shot m0) (filter (searched m0) ?rs)"
  have "TakeSnapshot r alloc sys = Inr (?s, sys)"
    using assms snapshot_regions_takes [of ?rs m0 alloc r "[]"] by (auto simp: TakeSnapshot_def)
  moreover have "\<forall>rg \<in> set (filter (searched m0) ?rs). region_ok m rg \<and> heap_region rg"
    using assms(2) by (auto simp: searched_def)
  ultimately show ?thesis
    using compare_regions_finds [of "filter (searched m0) ?rs" m "[]" max_results r cmp type m0 "[]"]
    by (intro exI [of _ ?s]) (simp add: CompareSnapshot_def filter_filter conj_commute)
qed

theorem blind_search_finds_witness:
  "\<exists>snapshot. TakeSnapshot idle_rasterizer (\<lambda>_. True) (sample_system (sample_word 7)) = Inr (snapshot, sample_system (sample_word 7)) \<and>
    CompareSnapshot idle_rasterizer Decreased Int32 5 snapshot (sample_system (sample_word 0xFFFFFFFF)) =
      Inr ([\<lparr>mt_address = 0x1FFC, mt_value = 0xFFFFFFFF\<rparr>], [], sample_system (sample_word 0xFFFFFFFF))"
proof -
  have "changed_hits (sample_word 7) (sample_word 0xFFFFFFFF) Int32 Decreased sample_region =
      [\<lparr>mt_address = 0x1FFC, mt_value = 0xFFFFFFFF\<rparr>]"
    by (simp add: changed_hits_def word_hits_def sample_region_def upt_conv_Cons sample_word_values keep_value_def SatisfiesComparison_def)
  then show ?thesis
    using blind_search_finds [of "sample_system (sample_word 7)" "sample_word 7" "sample_word 0xFFFFFFFF" "\<lambda>_. True"
      idle_rasterizer Decreased Int32 5] by (simp add: sample_system_def)
qed

text \<open>
  A refinement keeps, in their order, exactly the candidates that are still mapped and whose
  value now equals the needle (within the tolerance, for floats) or compares as asked with the value
  the candidate had, and gives them the values they have now. The memory is not changed.
\<close>

theorem Refine_keeps:
  assumes "ApplicationMemory sys = Some m"
    and "\<forall>c \<in> set candidates. unsafe_block m (unat (mt_address c)) 4"
  shows "Refine r candidates cmp v type tolerance sys =
    Inr (map (refreshed m) (filter (kept m cmp v type tolerance) candidates), sys)"
  using assms refine_loop_keeps [of candidates m "replicate 4 0" r cmp v type tolerance "[]"] by (auto simp: Refine_def)

theorem Refine_keeps_witness:
  "Refine idle_rasterizer [\<lparr>mt_address = 0x1FFC, mt_value = 5\<rparr>, \<lparr>mt_address = 0x2000, mt_value = 0\<rparr>] (Some Increased) 0 Int32 0
     (sample_system (sample_word 6)) = Inr ([\<lparr>mt_address = 0x1FFC, mt_value = 6\<rparr>], sample_system (sample_word 6))"
  using Refine_keeps [of "sample_system (sample_word 6)" "sample_word 6"
      "[\<lparr>mt_address = 0x1FFC, mt_value = 5\<rparr>, \<lparr>mt_address = 0x2000, mt_value = 0\<rparr>]" idle_rasterizer "Some Increased" 0 Int32 0]
    sample_words [of 6]
  by (simp add: sample_system_def word_ok_def kept_def refreshed_def sample_word_values keep_candidate_def keep_value_def
    SatisfiesComparison_def)

text \<open>
  C30. Freezing: after any sequence of calls that freeze and release values, the frozen values
  listed are those of the map the calls describe, in the order of their addresses, and one round of
  the background thread leaves every frozen value at its address and every host byte behind no
  frozen address as it was, provided the frozen words are mapped and do not share bytes.
\<close>

theorem freeze_holds_values:
  assumes "F = fold freeze_spec calls Map.empty" "f = fold freeze_step calls new_FreezeState"
    and "ApplicationMemory sys = Some m" "words_ok m (dom F)"
  shows "sorted_wrt (<) (map mt_address (GetFrozen f)) \<and>
    (\<forall>a v. \<lparr>mt_address = a, mt_value = v\<rparr> \<in> set (GetFrozen f) \<longleftrightarrow> F a = Some v) \<and>
    (\<exists>m'. FreezeTick r f sys = Inr (sys\<lparr>ApplicationMemory := Some m'\<rparr>) \<and> page_table m' = page_table m \<and>
      (\<forall>a v. F a = Some v \<longrightarrow> word_at m' (unat a) = v) \<and>
      (\<forall>p. (\<forall>a \<in> dom F. \<not> backs m a p) \<longrightarrow> host m' p = host m p))"
proof -
  have f: "frozen_inv f" "map_of (g_frozen f) = F"
    using freeze_steps_refine [of new_FreezeState calls] assms(1,2) by simp_all
  then have d: "distinct (map fst (g_frozen f))"
    by (simp add: frozen_inv_def strict_sorted_iff)
  have keys: "fst ` set (g_frozen f) = dom F" using f(2) by (simp add: dom_map_of_conv_image_fst flip: f(2))
  have entries: "F a = Some v \<longleftrightarrow> (a, v) \<in> set (g_frozen f)" for a v
    using map_of_eq_Some_iff [OF d] f(2) by simp
  have "sorted_wrt (<) (map mt_address (GetFrozen f))"
    using f(1) by (simp add: frozen_inv_def GetFrozen_def comp_def case_prod_unfold)
  moreover have "\<lparr>mt_address = a, mt_value = v\<rparr> \<in> set (GetFrozen f) \<longleftrightarrow> F a = Some v" for a v
    using entries by (auto simp: GetFrozen_def)
  moreover have "FreezeTick r f sys = freeze_writes r (g_frozen f) sys"
    using f(1) by (auto simp: FreezeTick_def frozen_inv_def)
  then have "\<exists>m'. FreezeTick r f sys = Inr (sys\<lparr>ApplicationMemory := Some m'\<rparr>) \<and> page_table m' = page_table m \<and>
      (\<forall>a v. F a = Some v \<longrightarrow> word_at m' (unat a) = v) \<and>
      (\<forall>p. (\<forall>a \<in> dom F. \<not> backs m a p) \<longrightarrow> host m' p = host m p)"
    using freeze_writes_holds [OF assms(3) _ d, of r] assms(4) entries unfolding keys by auto
  ultimately show ?thesis by blast
qed

theorem freeze_holds_values_witness:
  "\<exists>m'. FreezeTick idle_rasterizer (SetFrozen 0x1FFC 9 (SetFrozen 0x1FFC 3 new_FreezeState)) (sample_system (sample_word 1)) =
      Inr (sample_system m') \<and> word_at m' 0x1FFC = 9"
proof -
  have "words_ok (sample_word 1) (dom [(0x1FFC :: u64) \<mapsto> (9 :: u32)])"
    using sample_words(1) [of 1] by (auto simp: words_ok_def)
  then have "\<exists>m'. FreezeTick idle_rasterizer (SetFrozen 0x1FFC 9 (SetFrozen 0x1FFC 3 new_FreezeState))
      (sample_system (sample_word 1)) = Inr ((sample_system (sample_word 1))\<lparr>ApplicationMemory := Some m'\<rparr>) \<and>
      page_table m' = page_table (sample_word 1) \<and> (\<forall>a v. [(0x1FFC :: u64) \<mapsto> (9 :: u32)] a = Some v \<longrightarrow> word_at m' (unat a) = v) \<and>
      (\<forall>p. (\<forall>a \<in> dom [(0x1FFC :: u64) \<mapsto> (9 :: u32)]. \<not> backs (sample_word 1) a p) \<longrightarrow> host m' p = host (sample_word 1) p)"
    using freeze_holds_values [of "[0x1FFC \<mapsto> 9]" "[OpSetFrozen 0x1FFC 3, OpSetFrozen 0x1FFC 9]"
        "SetFrozen 0x1FFC 9 (SetFrozen 0x1FFC 3 new_FreezeState)" "sample_system (sample_word 1)" "sample_word 1" idle_rasterizer]
    by (simp add: sample_system_def)
  then show ?thesis by (elim ex_forward conjE) (auto simp: sample_system_def dest: spec [of _ "0x1FFC :: u64"])
qed

end
