(* ===== verification/Block_Scan.thy ===== *)
theory Block_Scan
  imports Block_History Memory_Search_Behaviour
begin

text \<open>
  The enumeration of memory regions on a page table that keeps its blocks in the block manager: \<^verbatim>\<open>QueryInfo\<close> of
  \<^verbatim>\<open>k_page_table_base.cpp\<close>, which the memory search takes as a parameter, and the regions it then sees.
\<close>

section \<open>Queries\<close>

record KPageTableBase =
  m_address_space_start :: u64
  m_address_space_end :: u64
  m_memory_block_manager :: KMemoryBlockManager

definition base_Contains :: "KPageTableBase \<Rightarrow> u64 \<Rightarrow> u64 \<Rightarrow> bool" where
  "base_Contains pt addr sz \<longleftrightarrow> m_address_space_start pt \<le> addr \<and> addr < addr + sz \<and> addr + sz - 1 \<le> m_address_space_end pt - 1"

definition QueryInfoImpl :: "KPageTableBase \<Rightarrow> u64 \<Rightarrow> KMemoryInfo option" where
  "QueryInfoImpl pt address = map_option GetMemoryInfo (FindBlock (m_memory_block_manager pt) address)"

definition base_QueryInfo :: "KPageTableBase \<Rightarrow> u64 \<Rightarrow> KMemoryInfo option" where
  "base_QueryInfo pt addr =
    (if \<not> base_Contains pt addr 1
     then Some \<lparr>i_address = m_address_space_end pt, i_size = 0 - m_address_space_end pt, i_state = 0x10,
       i_device_disable_merge_left_count = 0, i_device_disable_merge_right_count = 0, i_ipc_lock_count = 0,
       i_device_use_count = 0, i_ipc_disable_merge_count = 0, i_permission = 0, i_attribute = 0,
       i_original_permission = 0, i_disable_merge_attribute = 0\<rparr>
     else QueryInfoImpl pt addr)"

definition region_of_info :: "KMemoryInfo \<Rightarrow> MemoryRegion" where
  "region_of_info info = \<lparr>rg_address = i_address info, rg_size = i_size info, rg_state = i_state info\<rparr>"

text \<open>The page table as the enumeration of regions sees it.\<close>

definition process_table :: "KPageTableBase \<Rightarrow> KProcessPageTable" where
  "process_table pt = \<lparr>GetAddressSpaceStart = m_address_space_start pt,
    GetAddressSpaceSize = m_address_space_end pt - m_address_space_start pt,
    QueryInfo = (\<lambda>addr. map_option region_of_info (base_QueryInfo pt addr))\<rparr>"

section \<open>The regions are the blocks\<close>

definition table_wf :: "KPageTableBase \<Rightarrow> bool" where
  "table_wf pt \<longleftrightarrow> space_wf (m_memory_block_manager pt) \<and> m_start_address (m_memory_block_manager pt) = m_address_space_start pt \<and>
    m_end_address (m_memory_block_manager pt) = m_address_space_end pt"

definition region_of_block :: "KMemoryBlock \<Rightarrow> MemoryRegion" where
  "region_of_block b = \<lparr>rg_address = m_address b, rg_size = GetSize b, rg_state = m_memory_state b\<rparr>"

lemma table_wf_blocks:
  assumes "table_wf pt"
  shows "chained (unat (m_address_space_start pt)) (m_memory_block_tree (m_memory_block_manager pt)) (unat (m_address_space_end pt))"
    "unat (m_address_space_end pt) \<le> space_end"
  using assms unfolding table_wf_def space_wf_def by metis+

lemma base_QueryInfo_block:
  assumes "table_wf pt" "m_memory_block_tree (m_memory_block_manager pt) = ls @ b # rs" "start_of b \<le> unat addr" "unat addr < end_of b"
  shows "base_QueryInfo pt addr = Some (GetMemoryInfo b)"
proof -
  let ?a = "unat (m_address_space_start pt)" and ?e = "unat (m_address_space_end pt)"
  have wf: "chained ?a (ls @ b # rs) ?e" "?e \<le> space_end" using table_wf_blocks [OF assms(1)] assms(2) by simp_all
  have b: "?a \<le> start_of b" "end_of b \<le> ?e" using chained_in [OF wf(1), of b] by simp_all
  have "unat (addr + 1) = unat addr + 1" using unat_plus [of addr 1] b(2) wf(2) assms(4) by (simp add: space_end_def)
  moreover have "unat (m_address_space_end pt - 1) = ?e - 1"
    using unat_minus [of 1 "m_address_space_end pt"] b(2) assms(4) by (simp add: word_le_nat_alt)
  ultimately have "base_Contains pt addr 1"
    using b assms(3,4) by (simp add: base_Contains_def word_le_nat_alt word_less_nat_alt)
  then show ?thesis
    using FindIterator_at [OF wf assms(3,4)] assms(2) by (simp add: base_QueryInfo_def QueryInfoImpl_def FindBlock_def nth_append)
qed

lemma enumerate_blocks:
  assumes "table_wf pt" "m_memory_block_tree (m_memory_block_manager pt) = ls @ rs" "chained (unat addr) rs (unat (m_address_space_end pt))"
  shows "enumerate_from (process_table pt) (m_address_space_end pt) addr =
    map region_of_block (filter (\<lambda>b. IsScannableMemoryState (m_memory_state b)) rs)"
  using assms(2,3)
proof (induction rs arbitrary: ls addr)
  case Nil
  then show ?case by (subst enumerate_from.simps) (simp add: word_less_nat_alt)
next
  case (Cons b rs)
  let ?e = "unat (m_address_space_end pt)"
  have e: "?e \<le> space_end" using table_wf_blocks(2) [OF assms(1)] .
  have f: "fits b" using chained_fits [OF Cons.prems(2) e] by simp
  have at: "start_of b = unat addr" "0 < npages b" "chained (end_of b) rs ?e" using Cons.prems(2) by simp_all
  then have lt: "unat addr < end_of b" "end_of b \<le> ?e" using chained_le [OF at(3)] by (simp_all add: end_of_def)
  have q: "base_QueryInfo pt addr = Some (GetMemoryInfo b)"
    using base_QueryInfo_block [OF assms(1) Cons.prems(1)] at(1) lt(1) by simp
  have r: "region_of_info (GetMemoryInfo b) = region_of_block b"
    by (simp add: region_of_info_def region_of_block_def GetMemoryInfo_def)
  have n: "rg_address (region_of_block b) + rg_size (region_of_block b) = GetEndAddress b"
    by (simp add: region_of_block_def GetEndAddress_def)
  have u: "unat (GetEndAddress b) = end_of b" using fits_words(2) [OF f] .
  have "enumerate_from (process_table pt) (m_address_space_end pt) (GetEndAddress b) =
      map region_of_block (filter (\<lambda>b. IsScannableMemoryState (m_memory_state b)) rs)"
    using Cons.IH [of "ls @ [b]" "GetEndAddress b"] Cons.prems(1) at(3) u by simp
  moreover have "addr < m_address_space_end pt" "\<not> GetEndAddress b \<le> addr"
    using lt u by (simp_all add: word_less_nat_alt word_le_nat_alt)
  ultimately show ?case
    by (subst enumerate_from.simps) (simp add: process_table_def q r n Let_def, simp add: region_of_block_def)
qed

text \<open>
  C40. On a page table whose blocks partition the address space, the enumeration of regions that the memory search
  starts from lists exactly the blocks of a scannable state, in the order of their addresses: it neither stops early nor
  misses or repeats a block.
\<close>

theorem scan_lists_blocks:
  assumes "table_wf pt"
  shows "EnumerateScannableRegions (process_table pt) = map region_of_block
    (filter (\<lambda>b. IsScannableMemoryState (m_memory_state b)) (m_memory_block_tree (m_memory_block_manager pt)))"
proof -
  have "EnumerateScannableRegions (process_table pt) =
      enumerate_from (process_table pt) (m_address_space_end pt) (m_address_space_start pt)"
    by (simp add: EnumerateScannableRegions_def, simp add: process_table_def)
  then show ?thesis using enumerate_blocks [OF assms _ table_wf_blocks(1) [OF assms]] by simp
qed

theorem scan_lists_blocks_witness:
  "EnumerateScannableRegions (process_table \<lparr>m_address_space_start = 0x10000, m_address_space_end = 0x20000,
      m_memory_block_manager = sample_space\<lparr>m_memory_block_tree :=
        [sample_block_at 0x10000 4 MS_Code UserReadExecute, sample_block_at 0x14000 12 MS_Normal UserReadWrite]\<rparr>\<rparr>) =
    [\<lparr>rg_address = 0x14000, rg_size = 0xC000, rg_state = MS_Normal\<rparr>]"
  by (subst scan_lists_blocks)
    (simp_all add: table_wf_def space_wf_def sample_space_def sample_block_at_def block_Initialize_def start_of_def end_of_def npages_def
      space_end_def IsScannableMemoryState_def KMemoryState_values region_of_block_def GetSize_def PageSize_def)

end
