(* ===== verification/Block_Search.thy ===== *)
theory Block_Search
  imports Block_Scan
begin

text \<open>
  Exact integer searches on a page table that keeps its blocks in the block manager. The occurrences of a value are
  specified byte by byte on the guest memory, apart from the search: every address at which the four little-endian bytes of the
  value stand inside one readable heap block.
\<close>

section \<open>Occurrences\<close>

definition heap_block :: "GuestMemory \<Rightarrow> KMemoryBlock \<Rightarrow> bool" where
  "heap_block m b \<longleftrightarrow> m_memory_state b = MS_Normal \<and> all_mapped m (start_of b) (npages b * 4096)"

definition value_bytes_at :: "GuestMemory \<Rightarrow> u32 \<Rightarrow> nat \<Rightarrow> bool" where
  "value_bytes_at m v a \<longleftrightarrow> (\<forall>i < 4. byte_at m (of_nat (a + i)) = ucast (drop_bit (8 * i) v))"

definition occurs_at :: "GuestMemory \<Rightarrow> KPageTableBase \<Rightarrow> u32 \<Rightarrow> u64 \<Rightarrow> bool" where
  "occurs_at m pt v a \<longleftrightarrow>
     (\<exists>b \<in> set (m_memory_block_tree (m_memory_block_manager pt)).
        heap_block m b \<and> start_of b \<le> unat a \<and> unat a + 4 \<le> end_of b \<and> value_bytes_at m v (unat a))"

text \<open>The occurrences in one block, in ascending order.\<close>

definition block_hits :: "GuestMemory \<Rightarrow> u32 \<Rightarrow> KMemoryBlock \<Rightarrow> u64 list" where
  "block_hits m v b = map (\<lambda>i. m_address b + of_nat i)
     (filter (\<lambda>i. i + 4 \<le> npages b * 4096 \<and> value_bytes_at m v (start_of b + i)) [0..<npages b * 4096])"

text \<open>A process with one heap block of two pages, zero but for a word that ends at the page boundary.\<close>

definition search_table :: KPageTableBase where
  "search_table = \<lparr>m_address_space_start = 0x1000, m_address_space_end = 0x3000,
     m_memory_block_manager = \<lparr>m_memory_block_tree = [sample_block_at 0x1000 2 MS_Normal UserReadWrite],
       m_start_address = 0x1000, m_end_address = 0x3000\<rparr>\<rparr>"

definition search_system :: "u32 \<Rightarrow> SearchSystem" where
  "search_system v = \<lparr>ApplicationMemory = Some (sample_word v), ApplicationPageTable = process_table search_table\<rparr>"

section \<open>Lemmas\<close>

lemma load_bytes_value: "load_bytes m a 4 = EncodeValue v \<longleftrightarrow> value_bytes_at m v a"
proof -
  have "(ucast (drop_bit (8 * i) (ucast v :: u64)) :: u8) = ucast (drop_bit (8 * i) v)" if "i < 4" for i
    using that by (intro bit_word_eqI) (auto simp: bit_simps)
  then show ?thesis
    by (auto simp: load_bytes_def EncodeValue_def le_bytes_def value_bytes_at_def)
qed

lemma int_hits_block:
  assumes "fits b"
  shows "int_hits m v (region_of_block b) = map (\<lambda>a. \<lparr>mt_address = a, mt_value = v\<rparr>) (block_hits m v b)"
  using fits_words(1) [OF assms]
  by (simp add: int_hits_def block_hits_def region_of_block_def load_bytes_value start_of_def comp_def)

lemma block_address:
  assumes "fits b" "i < npages b * 4096"
  shows "unat (m_address b + of_nat i) = start_of b + i"
proof -
  have "start_of b + i < 2 ^ 63" using assms by (simp add: fits_def end_of_def space_end_def)
  then show ?thesis by (simp add: start_of_def unat_word_ariths unat_of_nat)
qed

lemma block_hits_in:
  assumes "fits b"
  shows "a \<in> set (block_hits m v b) \<longleftrightarrow> start_of b \<le> unat a \<and> unat a + 4 \<le> end_of b \<and> value_bytes_at m v (unat a)"
proof
  assume "a \<in> set (block_hits m v b)"
  then show "start_of b \<le> unat a \<and> unat a + 4 \<le> end_of b \<and> value_bytes_at m v (unat a)"
    using block_address [OF assms] by (auto simp: block_hits_def end_of_def)
next
  assume a: "start_of b \<le> unat a \<and> unat a + 4 \<le> end_of b \<and> value_bytes_at m v (unat a)"
  let ?i = "unat a - start_of b"
  have i: "?i + 4 \<le> npages b * 4096" "start_of b + ?i = unat a" using a by (auto simp: end_of_def)
  have "a = m_address b + of_nat ?i"
    using block_address [OF assms, of ?i] i by (intro word_unat_eq_iff [THEN iffD2]) simp
  moreover have "?i \<in> set (filter (\<lambda>i. i + 4 \<le> npages b * 4096 \<and> value_bytes_at m v (start_of b + i)) [0..<npages b * 4096])"
    using i a by (auto intro: less_le_trans [OF _ i(1)])
  ultimately show "a \<in> set (block_hits m v b)" unfolding block_hits_def set_map by (rule image_eqI)
qed

lemma block_hits_sorted:
  assumes "fits b"
  shows "sorted_wrt (<) (block_hits m v b)"
proof -
  have "sorted_wrt (<) (filter P [0..<n])" for P and n :: nat by (intro sorted_wrt_filter) simp
  then show ?thesis unfolding block_hits_def sorted_wrt_map
    by (rule sorted_wrt_mono_rel [rotated]) (use block_address [OF assms] in \<open>auto simp: word_less_nat_alt\<close>)
qed

lemma hits_sorted:
  "chained a bs e \<Longrightarrow> e \<le> space_end \<Longrightarrow> sorted_wrt (<) (concat (map (block_hits m v) (filter P bs)))"
proof (induction bs arbitrary: a)
  case (Cons b bs)
  have fb: "fits c" if "c \<in> set (b # bs)" for c using chained_fits [OF Cons.prems that] .
  have rest: "chained (end_of b) bs e" using Cons.prems(1) by simp
  have "x < y" if "x \<in> set (block_hits m v b)" "c \<in> set bs" "y \<in> set (block_hits m v c)" for x y c
    using that block_hits_in [of b x m v] block_hits_in [of c y m v] fb chained_in [OF rest that(2)]
    by (auto simp: word_less_nat_alt)
  with Cons.IH [OF rest Cons.prems(2)] block_hits_sorted [OF fb] show ?case by (auto simp: sorted_wrt_append)
qed simp

lemma scanned_regions:
  assumes "table_wf pt"
  shows "EnumerateScannableRegions (process_table pt) = map region_of_block
    (filter (\<lambda>b. IsScannableMemoryState (m_memory_state b)) (m_memory_block_tree (m_memory_block_manager pt)))"
proof -
  have "EnumerateScannableRegions (process_table pt) =
      enumerate_from (process_table pt) (m_address_space_end pt) (m_address_space_start pt)"
    by (simp add: EnumerateScannableRegions_def, simp add: process_table_def)
  then show ?thesis using enumerate_blocks [OF assms _ table_wf_blocks(1) [OF assms]] by simp
qed

lemma searched_block:
  assumes "fits b"
  shows "heap_region (region_of_block b) \<longleftrightarrow> m_memory_state b = MS_Normal"
    "searched m (region_of_block b) \<longleftrightarrow> heap_block m b"
    "region_ok m (region_of_block b) \<longleftrightarrow> (m_memory_state b = MS_Normal \<longrightarrow> unsafe_block m (start_of b) (npages b * 4096))"
proof -
  have "unat (GetSize b) = npages b * 4096" "0 < npages b" using fits_words(1) [OF assms] assms by (simp_all add: fits_def)
  then show "heap_region (region_of_block b) \<longleftrightarrow> m_memory_state b = MS_Normal"
    "searched m (region_of_block b) \<longleftrightarrow> heap_block m b"
    "region_ok m (region_of_block b) \<longleftrightarrow> (m_memory_state b = MS_Normal \<longrightarrow> unsafe_block m (start_of b) (npages b * 4096))"
    by (auto simp: heap_region_def searched_def region_ok_def region_of_block_def heap_block_def start_of_def)
qed

lemma concat_block_hits:
  "(\<And>b. b \<in> set bs \<Longrightarrow> fits b) \<Longrightarrow>
   concat (map (exact_hits m Int32 v tolerance) (filter (searched m) (map region_of_block bs))) =
     map (\<lambda>a. \<lparr>mt_address = a, mt_value = v\<rparr>) (concat (map (block_hits m v) (filter (heap_block m) bs)))"
  by (induction bs) (auto simp: searched_block exact_hits_def int_hits_block)

lemma search_table_block:
  "start_of (sample_block_at 0x1000 2 MS_Normal UserReadWrite) = 0x1000"
  "npages (sample_block_at 0x1000 2 MS_Normal UserReadWrite) = 2"
  "end_of (sample_block_at 0x1000 2 MS_Normal UserReadWrite) = 0x3000"
  "m_memory_state (sample_block_at 0x1000 2 MS_Normal UserReadWrite) = MS_Normal"
  by (simp_all add: sample_block_at_def block_Initialize_def start_of_def end_of_def npages_def)

lemma sample_pages:
  assumes "0x1000 \<le> x" "x < 0x3000"
  shows "translate sample_memory (of_nat x) = Some (of_nat ((if x < 0x2000 then 0x10000 else 0x20000) + x))"
    "unsafe_entry (entry_of sample_memory) (x div 4096)"
proof -
  have d: "x div 4096 = (if x < 0x2000 then 1 else 2)" using assms by auto
  then show "translate sample_memory (of_nat x) = Some (of_nat ((if x < 0x2000 then 0x10000 else 0x20000) + x))"
    using sample_translate [of x] assms by auto
  show "unsafe_entry (entry_of sample_memory) (x div 4096)" unfolding d by (simp add: unsafe_entry_def)
qed

lemma sample_word_zero:
  assumes "0x1000 \<le> x" "x < 0x3000" "x < 0x1FFC \<or> 0x2000 \<le> x"
  shows "byte_at (sample_word v) (of_nat x) = 0"
proof -
  let ?p = "of_nat ((if x < 0x2000 then 0x10000 else 0x20000) + x) :: u64"
  have "translate sample_memory (of_nat (0x1FFC + j)) \<noteq> Some ?p" if "j < 4" for j
  proof
    assume "translate sample_memory (of_nat (0x1FFC + j)) = Some ?p"
    then have "unat (of_nat (0x10000 + (0x1FFC + j)) :: u64) = unat ?p"
      using sample_pages(1) [of "0x1FFC + j"] that by (simp del: of_nat_add)
    then show False using assms that by (simp add: unat_of_nat take_bit_nat_eq_self del: of_nat_add split: if_splits)
  qed
  then have "byte_at (sample_word v) (of_nat x) = byte_at sample_memory (of_nat x)"
    using store_bytes_frame [of "EncodeValue v" sample_memory "0x1FFC" ?p] sample_pages(1) [OF assms(1,2)]
    by (auto simp: byte_at_def sample_word_def simp del: of_nat_add split: option.split)
  then show ?thesis by (simp add: sample_zero)
qed

lemma sample_occurrence: "occurs_at (sample_word 0x1020304) search_table 0x1020304 a \<longleftrightarrow> a = 0x1FFC"
proof -
  let ?m = "sample_word 0x1020304"
  have heap: "heap_block ?m (sample_block_at 0x1000 2 MS_Normal UserReadWrite)"
    using sample_pages(1) by (auto simp: heap_block_def search_table_block all_mapped_def mapped_def sample_word_def simp del: of_nat_add)
  have at: "occurs_at ?m search_table 0x1020304 a \<longleftrightarrow>
      0x1000 \<le> unat a \<and> unat a + 4 \<le> 0x3000 \<and> value_bytes_at ?m 0x1020304 (unat a)"
    using heap by (simp add: occurs_at_def search_table_def search_table_block)
  have "load_bytes ?m 0x1FFC 4 = EncodeValue 0x1020304"
    using take_drop_load [of 4 0 ?m "0x1FFC" 8] by (simp add: sample_word_bytes)
  then have there: "value_bytes_at ?m 0x1020304 0x1FFC" by (simp add: load_bytes_value)
  have "unat a = 0x1FFC" if "0x1000 \<le> unat a" "unat a + 4 \<le> 0x3000" "value_bytes_at ?m 0x1020304 (unat a)"
  proof (rule ccontr)
    assume ne: "unat a \<noteq> 0x1FFC"
    have b: "byte_at ?m (of_nat (unat a + 0)) = 4" "byte_at ?m (of_nat (unat a + 3)) = 1"
      using that(3) [unfolded value_bytes_at_def, rule_format, of 0] that(3) [unfolded value_bytes_at_def, rule_format, of 3]
      by (simp_all add: drop_bit_eq_div del: of_nat_add)
    show False
    proof (cases "unat a < 0x1FFC")
      case True
      with b(1) sample_word_zero [of "unat a + 0"] that(1,2) show False by simp
    next
      case False
      with b(2) sample_word_zero [of "unat a + 3"] that(1,2) ne show False by (simp del: of_nat_add)
    qed
  qed
  then show ?thesis using at there by (auto simp: word_unat_eq_iff)
qed

section \<open>Properties\<close>

text \<open>
  C24. An exact integer search on a page table whose blocks partition the address space finds every occurrence of the
  value: its result is the list, in ascending order of the addresses and cut at the number of results asked for, of all the
  addresses, aligned or not and overlapping or not, at which the four little-endian bytes of the value stand inside one
  heap block that is mapped throughout. Each has the value asked for, and nothing is changed.
\<close>

theorem Search_lists_occurrences:
  assumes "ApplicationMemory sys = Some m" "ApplicationPageTable sys = process_table pt" "table_wf pt"
    and "\<forall>b \<in> set (m_memory_block_tree (m_memory_block_manager pt)).
      m_memory_state b = MS_Normal \<longrightarrow> unsafe_block m (start_of b) (npages b * 4096)"
  shows "\<exists>hits. Search r v Int32 tolerance max_results sys =
      Inr (take max_results (map (\<lambda>a. \<lparr>mt_address = a, mt_value = v\<rparr>) hits), sys) \<and>
    sorted_wrt (<) hits \<and> (\<forall>a. a \<in> set hits \<longleftrightarrow> occurs_at m pt v a)"
proof -
  let ?bs = "m_memory_block_tree (m_memory_block_manager pt)"
  let ?scan = "filter (\<lambda>b. IsScannableMemoryState (m_memory_state b)) ?bs"
  let ?hits = "concat (map (block_hits m v) (filter (heap_block m) ?bs))"
  have fb: "fits b" if "b \<in> set ?bs" for b using chained_fits [OF table_wf_blocks [OF assms(3)] that] .
  have "heap_block m b \<Longrightarrow> IsScannableMemoryState (m_memory_state b)" for b
    by (simp add: heap_block_def IsScannableMemoryState_def)
  then have same: "filter (heap_block m) ?scan = filter (heap_block m) ?bs" by (auto intro: filter_cong)
  have "Search r v Int32 tolerance max_results sys =
      Inr (take max_results (concat (map (exact_hits m Int32 v tolerance) (filter (searched m) (map region_of_block ?scan)))), sys)"
    using Search_finds_all [OF assms(1), of Int32 v r tolerance max_results] assms(2,4) fb searched_block(3)
    by (auto simp: scanned_regions [OF assms(3)])
  then have "Search r v Int32 tolerance max_results sys =
      Inr (take max_results (map (\<lambda>a. \<lparr>mt_address = a, mt_value = v\<rparr>) ?hits), sys)"
    using concat_block_hits [of ?scan m v tolerance] fb unfolding same by simp
  moreover have "sorted_wrt (<) ?hits" by (rule hits_sorted [OF table_wf_blocks [OF assms(3)]])
  moreover have "a \<in> set ?hits \<longleftrightarrow> occurs_at m pt v a" for a
    using block_hits_in [OF fb] by (auto simp: occurs_at_def)
  ultimately show ?thesis by blast
qed

theorem Search_lists_occurrences_witness:
  "Search idle_rasterizer 0x1020304 Int32 0 10 (search_system 0x1020304) =
     Inr ([\<lparr>mt_address = 0x1FFC, mt_value = 0x1020304\<rparr>], search_system 0x1020304)"
proof -
  let ?m = "sample_word 0x1020304"
  have wf: "table_wf search_table"
    by (simp add: table_wf_def space_wf_def search_table_def search_table_block space_end_def)
  have ok: "\<forall>b \<in> set (m_memory_block_tree (m_memory_block_manager search_table)).
      m_memory_state b = MS_Normal \<longrightarrow> unsafe_block ?m (start_of b) (npages b * 4096)"
    using sample_pages(2)
    by (auto simp: search_table_def search_table_block unsafe_block_def sample_word_def) (simp_all add: sample_memory_def)
  have sys: "ApplicationMemory (search_system 0x1020304) = Some ?m" "ApplicationPageTable (search_system 0x1020304) = process_table search_table"
    by (simp_all add: search_system_def)
  from Search_lists_occurrences [OF sys wf ok, of idle_rasterizer "0x1020304" 0 10] obtain hits where
    s: "Search idle_rasterizer 0x1020304 Int32 0 10 (search_system 0x1020304) =
      Inr (take 10 (map (\<lambda>a. \<lparr>mt_address = a, mt_value = 0x1020304\<rparr>) hits), search_system 0x1020304)"
    and h: "sorted_wrt (<) hits" "set hits = {0x1FFC}" by (auto simp: sample_occurrence)
  have "hits = [0x1FFC]" using strict_sorted_equal [OF h(1), of "[0x1FFC]"] h(2) by simp
  with s show ?thesis by simp
qed

end
