(* ===== verification/Tiny_Mt.thy ===== *)
theory Tiny_Mt
  imports Lemon_Prelude
begin

text \<open>
  The random number generator \<^verbatim>\<open>TinyMT\<close> of \<^verbatim>\<open>common/tiny_mt.h\<close>, from which the kernel draws its random placements. Its
  state is an array of four words; every index below is a constant or taken modulo four. Floats are not modelled.
\<close>

section \<open>The generator\<close>

type_synonym TinyMT = "u32 list"

definition NumStateWords :: nat where "NumStateWords = 4"
definition ParamMat1 :: u32 where "ParamMat1 = 0x8F7011EE"
definition ParamMat2 :: u32 where "ParamMat2 = 0xFC78FF1F"
definition ParamTmat :: u32 where "ParamTmat = 0x3793FDFF"
definition ParamMult :: u32 where "ParamMult = 0x6C078965"
definition ParamPlus :: u32 where "ParamPlus = 0x0019660D"
definition ParamXor :: u32 where "ParamXor = 0x5D588B65"
definition TopBitmask :: u32 where "TopBitmask = 0x7FFFFFFF"
definition MinimumInitIterations :: nat where "MinimumInitIterations = 8"
definition NumDiscardedInitOutputs :: nat where "NumDiscardedInitOutputs = 8"

definition new_TinyMT :: TinyMT where
  "new_TinyMT = replicate NumStateWords 0"

definition XorByShifted27 :: "u32 \<Rightarrow> u32" where
  "XorByShifted27 v = v XOR drop_bit 27 v"

definition XorByShifted30 :: "u32 \<Rightarrow> u32" where
  "XorByShifted30 v = v XOR drop_bit 30 v"

definition GenerateRandomU32 :: "TinyMT \<Rightarrow> u32 \<times> TinyMT" where
  "GenerateRandomU32 d =
    (let x0 = (d ! 0 AND TopBitmask) XOR d ! 1 XOR d ! 2;
         y0 = d ! 3;
         x1 = x0 XOR push_bit 1 x0;
         y1 = y0 XOR drop_bit 1 y0 XOR x1;
         state0 = d ! 1;
         state1 = d ! 2;
         state2 = x1 XOR push_bit 10 y1;
         state3 = y1;
         (state1, state2) = (if y1 AND 1 \<noteq> 0 then (state1 XOR ParamMat1, state2 XOR ParamMat2) else (state1, state2));
         t1 = state0 + drop_bit 8 state2;
         t0 = state3 XOR t1;
         t0 = (if t1 AND 1 \<noteq> 0 then t0 XOR ParamTmat else t0)
     in (t0, [state0, state1, state2, state3]))"

definition GenerateRandomU24 :: "TinyMT \<Rightarrow> u32 \<times> TinyMT" where
  "GenerateRandomU24 d = (let (r, d) = GenerateRandomU32 d in (drop_bit 8 r, d))"

section \<open>Initialization\<close>

fun discard_outputs :: "nat \<Rightarrow> TinyMT \<Rightarrow> TinyMT" where
  "discard_outputs 0 d = d"
| "discard_outputs (Suc n) d = discard_outputs n (snd (GenerateRandomU32 d))"

definition FinalizeInitialization :: "TinyMT \<Rightarrow> TinyMT" where
  "FinalizeInitialization d =
    (let d = (if d ! 0 AND TopBitmask = 0 \<and> d ! 1 = 0 \<and> d ! 2 = 0 \<and> d ! 3 = 0 then [0x54, 0x49, 0x4E, 0x59] else d)
     in discard_outputs NumDiscardedInitOutputs d)"

definition GenerateInitialValuePlus :: "nat \<Rightarrow> u32 \<Rightarrow> TinyMT \<Rightarrow> TinyMT" where
  "GenerateInitialValuePlus index v d =
    (let i0 = index mod NumStateWords; i1 = (index + 1) mod NumStateWords;
         i2 = (index + 2) mod NumStateWords; i3 = (index + 3) mod NumStateWords;
         x = XorByShifted27 (d ! i0 XOR d ! i1 XOR d ! i3) * ParamPlus;
         y = x + of_nat index + v
     in d[i0 := y, i1 := d ! i1 + x, i2 := d ! i2 + y])"

definition GenerateInitialValueXor :: "nat \<Rightarrow> TinyMT \<Rightarrow> TinyMT" where
  "GenerateInitialValueXor index d =
    (let i0 = index mod NumStateWords; i1 = (index + 1) mod NumStateWords;
         i2 = (index + 2) mod NumStateWords; i3 = (index + 3) mod NumStateWords;
         x = XorByShifted27 (d ! i0 + d ! i1 + d ! i3) * ParamXor;
         y = x - of_nat index
     in d[i0 := y, i1 := d ! i1 XOR x, i2 := d ! i2 XOR y])"

fun mix_seed :: "nat \<Rightarrow> nat \<Rightarrow> TinyMT \<Rightarrow> TinyMT" where
  "mix_seed 0 i d = d"
| "mix_seed (Suc n) i d =
    (let mixed = XorByShifted30 (d ! ((i - 1) mod NumStateWords)); k = i mod NumStateWords
     in mix_seed n (i + 1) (d[k := d ! k XOR (mixed * ParamMult + of_nat i)]))"

definition Initialize_seed :: "u32 \<Rightarrow> TinyMT" where
  "Initialize_seed seed =
    FinalizeInitialization (mix_seed (MinimumInitIterations - 1) 1 [seed, ParamMat1, ParamMat2, ParamTmat])"

fun plus_loop :: "nat \<Rightarrow> nat \<Rightarrow> u32 list \<Rightarrow> TinyMT \<Rightarrow> TinyMT" where
  "plus_loop 0 i seed d = d"
| "plus_loop (Suc n) i seed d =
    plus_loop n (i + 1) seed
      (GenerateInitialValuePlus ((i + 1) mod NumStateWords) (if i < length seed then seed ! i else 0) d)"

fun xor_loop :: "nat \<Rightarrow> nat \<Rightarrow> nat \<Rightarrow> TinyMT \<Rightarrow> TinyMT" where
  "xor_loop 0 i iterations d = d"
| "xor_loop (Suc n) i iterations d =
    xor_loop n (i + 1) iterations (GenerateInitialValueXor ((i + 1 + iterations) mod NumStateWords) d)"

definition Initialize_array :: "u32 list \<Rightarrow> TinyMT" where
  "Initialize_array seed =
    (let iterations = max (length seed + 1) MinimumInitIterations - 1;
         d = GenerateInitialValuePlus 0 (of_nat (length seed)) [0, ParamMat1, ParamMat2, ParamTmat];
         d = plus_loop iterations 0 seed d;
         d = xor_loop NumStateWords 0 iterations d
     in FinalizeInitialization d)"

section \<open>Random bytes\<close>

text \<open>\<^verbatim>\<open>AlignUp\<close> and \<^verbatim>\<open>AlignDown\<close> of \<^verbatim>\<open>common/alignment.h\<close>, on values that are far from the end of their type.\<close>

definition align_up :: "nat \<Rightarrow> nat \<Rightarrow> nat" where
  "align_up v sz = (if v mod sz = 0 then v - v mod sz else v - v mod sz + sz)"

definition align_down :: "nat \<Rightarrow> nat \<Rightarrow> nat" where
  "align_down v sz = v - v mod sz"

text \<open>The bytes written to a buffer at an address, as pairs of an address and a byte in the order of the writes.\<close>

definition word_bytes :: "nat \<Rightarrow> u32 \<Rightarrow> u8 list" where
  "word_bytes n v = le_bytes n (ucast v)"

definition writes_at :: "nat \<Rightarrow> u8 list \<Rightarrow> (nat \<times> u8) list" where
  "writes_at a bs = zip [a..<a + length bs] bs"

function random_words :: "nat \<Rightarrow> nat \<Rightarrow> TinyMT \<Rightarrow> (nat \<times> u8) list \<times> TinyMT" where
  "random_words cur_dst end_dst d =
    (if cur_dst < end_dst then
       let (r, d) = GenerateRandomU32 d; (ws, d) = random_words (cur_dst + 4) end_dst d
       in (writes_at cur_dst (word_bytes 4 r) @ ws, d)
     else ([], d))"
  by pat_completeness auto
termination
  by (relation "measure (\<lambda>(cur_dst, end_dst, d). end_dst - cur_dst)") auto

declare random_words.simps [simp del]

text \<open>\<^verbatim>\<open>memcpy\<close> copies from the four bytes of the random word.\<close>

definition GenerateRandomBytes :: "nat \<Rightarrow> nat \<Rightarrow> TinyMT \<Rightarrow> (nat \<times> u8) list \<times> TinyMT" where
  "GenerateRandomBytes start sz d =
    (let finish = start + sz;
         aligned_start = align_up start 4;
         aligned_end = align_down finish 4;
         (w1, d) = (if start < aligned_start
                    then let (r, d) = GenerateRandomU32 d in (writes_at start (word_bytes (aligned_start - start) r), d)
                    else ([], d));
         (w2, d) = random_words aligned_start aligned_end d;
         (w3, d) = (if aligned_end < finish
                    then let (r, d) = GenerateRandomU32 d in (writes_at aligned_end (word_bytes (finish - aligned_end) r), d)
                    else ([], d))
     in (w1 @ w2 @ w3, d))"

section \<open>The state never becomes zero\<close>

definition mt_live :: "TinyMT \<Rightarrow> bool" where
  "mt_live d \<longleftrightarrow> length d = 4 \<and> \<not> (d ! 0 AND TopBitmask = 0 \<and> d ! 1 = 0 \<and> d ! 2 = 0 \<and> d ! 3 = 0)"

lemma xor_zero_eq: "x XOR y = (0 :: u32) \<Longrightarrow> x = y"
  by (metis xor.assoc xor_self_eq xor.left_neutral xor.right_neutral)

lemma xor_shift_left_zero:
  assumes "x XOR push_bit 1 x = (0 :: u32)"
  shows "x = 0"
proof (rule bit_eqI)
  fix n
  have *: "bit x k \<Longrightarrow> 1 \<le> k \<and> bit x (k - 1)" for k
    using arg_cong [OF xor_zero_eq [OF assms], of "\<lambda>w. bit w k"] by (simp only: bit_push_bit_iff)
  have "\<not> bit x n" by (induction n) (auto dest: *)
  then show "bit x n = bit (0 :: u32) n" by simp
qed

lemma xor_shift_right_zero:
  assumes "x XOR drop_bit 1 x = (0 :: u32)"
  shows "x = 0"
proof (rule bit_eqI)
  fix n
  have *: "bit x (Suc k) \<longleftrightarrow> bit x k" for k
    using xor_zero_eq [OF assms] by (metis bit_drop_bit_eq comp_def plus_1_eq_Suc)
  have "bit x (n + k) \<longleftrightarrow> bit x n" for k by (induction k) (simp_all add: *)
  from this [of 32] show "bit x n = bit (0 :: u32) n" by (auto dest: bit_imp_le_length)
qed

lemma GenerateRandomU32_next:
  assumes "x0 = (d ! 0 AND TopBitmask) XOR d ! 1 XOR d ! 2" "x1 = x0 XOR push_bit 1 x0" "y1 = d ! 3 XOR drop_bit 1 (d ! 3) XOR x1"
  shows "snd (GenerateRandomU32 d) = (if y1 AND 1 \<noteq> 0
    then [d ! 1, d ! 2 XOR ParamMat1, (x1 XOR push_bit 10 y1) XOR ParamMat2, y1]
    else [d ! 1, d ! 2, x1 XOR push_bit 10 y1, y1])"
  unfolding GenerateRandomU32_def assms [symmetric] Let_def by (simp only: split: if_splits) (simp add: split: prod.split)

lemma top_bit_clear: "x AND TopBitmask = y \<Longrightarrow> y AND TopBitmask = 0 \<Longrightarrow> y = 0"
  by (metis and.assoc and.idem)

lemma GenerateRandomU32_live:
  assumes "mt_live d"
  shows "mt_live (snd (GenerateRandomU32 d))"
proof (rule ccontr)
  assume dead: "\<not> mt_live (snd (GenerateRandomU32 d))"
  define x0 where "x0 = (d ! 0 AND TopBitmask) XOR d ! 1 XOR d ! 2"
  define x1 where "x1 = x0 XOR push_bit 1 x0"
  define y1 where "y1 = d ! 3 XOR drop_bit 1 (d ! 3) XOR x1"
  note nxt = GenerateRandomU32_next [OF x0_def x1_def y1_def]
  have "y1 = 0" using dead by (auto simp: nxt mt_live_def split: if_splits)
  then have z: "d ! 1 AND TopBitmask = 0" "d ! 2 = 0" "x1 = 0"
    using dead by (simp_all add: nxt mt_live_def)
  have "x0 = 0" using z(3) unfolding x1_def by (rule xor_shift_left_zero)
  then have "d ! 0 AND TopBitmask = d ! 1" using z(2) xor_zero_eq [of "d ! 0 AND TopBitmask" "d ! 1"] by (simp only: x0_def xor.right_neutral)
  moreover from this have "d ! 1 = 0" using top_bit_clear z(1) by blast
  moreover have "d ! 3 = 0" using \<open>y1 = 0\<close> unfolding y1_def z(3) xor.right_neutral by (rule xor_shift_right_zero)
  ultimately show False using assms z(2) by (simp add: mt_live_def)
qed

lemma discard_live: "mt_live d \<Longrightarrow> mt_live (discard_outputs n d)"
  by (induction n arbitrary: d) (simp_all add: GenerateRandomU32_live)

lemma FinalizeInitialization_live: "length d = 4 \<Longrightarrow> mt_live (FinalizeInitialization d)"
  unfolding FinalizeInitialization_def Let_def
  by (intro discard_live) (auto simp: mt_live_def TopBitmask_def)

lemma mix_seed_length [simp]: "length (mix_seed n i d) = length d"
  by (induction n i d rule: mix_seed.induct) (simp_all add: Let_def)

lemma initial_value_length [simp]:
  "length (GenerateInitialValuePlus i v d) = length d" "length (GenerateInitialValueXor i d) = length d"
  by (simp_all add: GenerateInitialValuePlus_def GenerateInitialValueXor_def Let_def)

lemma seed_loops_length [simp]: "length (plus_loop n i seed d) = length d" "length (xor_loop n i it d) = length d"
  by (induction n arbitrary: i d) simp_all

text \<open>However it is seeded, the generator starts in a live state and every output leaves it in one.\<close>

lemma Initialize_live: "mt_live (Initialize_seed seed)" "mt_live (Initialize_array seeds)"
  unfolding Initialize_seed_def Initialize_array_def Let_def by (intro FinalizeInitialization_live; simp)+

section \<open>Random bytes fill the buffer\<close>

lemma writes_at_addresses [simp]: "map fst (writes_at a bs) = [a..<a + length bs]"
  by (simp add: writes_at_def)

lemma upt_split: "a \<le> b \<Longrightarrow> b \<le> c \<Longrightarrow> [a..<c] = [a..<b] @ [b..<c]"
  using upt_add_eq_append [of a b "c - b"] by simp

lemma random_words_addresses:
  assumes "4 dvd b - a" "a \<le> b"
  shows "map fst (fst (random_words a b d)) = [a..<b]"
  using assms
proof (induction a b d rule: random_words.induct)
  case (1 a b d)
  obtain r d' where r: "GenerateRandomU32 d = (r, d')" by force
  show ?case
  proof (cases "a < b")
    case True
    then have "4 \<le> b - a" using "1.prems"(1) dvd_imp_le by force
    then have le: "a + 4 \<le> b" "4 dvd b - (a + 4)" using dvd_diff_nat [OF "1.prems"(1), of 4] by simp_all
    have "[a..<b] = [a..<a + 4] @ [a + 4..<b]" using upt_split [of a "a + 4" b] le(1) by simp
    then show ?thesis
      using "1.IH" [OF True r [symmetric] refl le(2,1)] True r
      by (subst random_words.simps) (simp add: word_bytes_def case_prod_beta)
  qed (use "1.prems" in \<open>simp add: random_words.simps\<close>)
qed

lemma align_bounds:
  "align_down v 4 \<le> v" "v < align_down v 4 + 4" "v \<le> align_up v 4" "align_up v 4 < v + 4" "4 dvd align_down v 4" "4 dvd align_up v 4"
  unfolding align_down_def align_up_def by (auto simp: mod_eq_0_iff_dvd) presburger+

text \<open>A buffer with a word boundary inside is filled from its start to its end, and nothing else is written.\<close>

lemma GenerateRandomBytes_fills:
  assumes "align_up start 4 \<le> align_down (start + sz) 4"
  shows "map fst (fst (GenerateRandomBytes start sz d)) = [start..<start + sz]"
proof -
  let ?a = "align_up start 4" and ?b = "align_down (start + sz) 4"
  have b: "start \<le> ?a" "?b \<le> start + sz" "?a - start \<le> 4" "start + sz - ?b \<le> 4" "4 dvd ?b - ?a"
    using align_bounds [of start] align_bounds [of "start + sz"] by (auto intro: dvd_diff_nat)
  have "[start..<start + sz] = [start..<?a] @ [?a..<?b] @ [?b..<start + sz]"
    using upt_split [of start ?a "start + sz"] upt_split [of ?a ?b "start + sz"] assms b(1,2) by simp
  then show ?thesis
    using random_words_addresses [OF b(5) assms] b(1,2)
    unfolding GenerateRandomBytes_def Let_def case_prod_beta by (simp add: word_bytes_def)
qed

text \<open>A buffer without one is overrun: one byte at an odd address has three bytes written from it on, and two
  more at the word before it.\<close>

lemma GenerateRandomBytes_overruns:
  "map fst (fst (GenerateRandomBytes 5 1 d)) = [5, 6, 7, 4, 5]"
  by (simp add: GenerateRandomBytes_def Let_def align_up_def align_down_def word_bytes_def random_words.simps upt_rec case_prod_beta)

end
