(* ===== verification/Page_Bitmap.thy ===== *)
theory Page_Bitmap
  imports Tiny_Mt
begin

text \<open>
  The hierarchical bitmap of free pages (\<^verbatim>\<open>core/hle/kernel/k_page_bitmap.h\<close>) with its random bit generator. The words of all levels lie
  in one array, the management data of a page heap, in which a storage pointer is a position; the operations take that
  array and return it changed. Level 0 is the top; a set bit there says that the word below it is not zero. Offsets
  and sizes are natural numbers, since they stay far below the width of \<^verbatim>\<open>size_t\<close>; the count of set bits has its width.
\<close>

section \<open>Faults\<close>

datatype page_fault = PageOutOfBounds | NullStorage | PageAssertFailed | ShiftTooFar | DivideByZero

definition page_assert :: "bool \<Rightarrow> bool \<Rightarrow> page_fault + unit" where
  "page_assert D c = (if D \<and> \<not> c then Inl PageAssertFailed else Inr ())"

section \<open>Counting zeros\<close>

definition countr_zero :: "u64 \<Rightarrow> nat" where
  "countr_zero v = length (takeWhile (\<lambda>i. \<not> bit v i) [0..<64])"

definition countl_zero :: "u64 \<Rightarrow> nat" where
  "countl_zero v = length (takeWhile (\<lambda>i. \<not> bit v i) (rev [0..<64]))"

section \<open>The random bit generator\<close>

record RandomBitGenerator =
  gen_rng :: TinyMT
  m_entropy :: u32
  m_bits_available :: nat

text \<open>The seed is drawn from the host.\<close>

definition new_RandomBitGenerator :: "u64 \<Rightarrow> RandomBitGenerator" where
  "new_RandomBitGenerator random64 = \<lparr>gen_rng = Initialize_seed (ucast random64), m_entropy = 0, m_bits_available = 0\<rparr>"

definition RefreshEntropy :: "RandomBitGenerator \<Rightarrow> RandomBitGenerator" where
  "RefreshEntropy g = (let (r, mt) = GenerateRandomU32 (gen_rng g) in g\<lparr>gen_rng := mt, m_entropy := r, m_bits_available := 32\<rparr>)"

definition GenerateRandomBit :: "RandomBitGenerator \<Rightarrow> bool \<times> RandomBitGenerator" where
  "GenerateRandomBit g =
    (let g = (if m_bits_available g = 0 then RefreshEntropy g else g)
     in (m_entropy g AND 1 \<noteq> 0, g\<lparr>m_entropy := drop_bit 1 (m_entropy g), m_bits_available := m_bits_available g - 1\<rparr>))"

function select_loop :: "nat \<Rightarrow> u64 \<Rightarrow> nat \<Rightarrow> RandomBitGenerator \<Rightarrow> nat \<times> RandomBitGenerator" where
  "select_loop cur_num_bits bitmap selected g =
    (if cur_num_bits = 0 then (selected, g)
     else
       let high = drop_bit cur_num_bits bitmap;
           low = bitmap AND NOT (push_bit cur_num_bits 0xFFFFFFFFFFFFFFFF);
           (take_high, g) = (if high = 0 then (False, g) else if low = 0 then (True, g) else GenerateRandomBit g)
       in if take_high then select_loop (cur_num_bits div 2) high (selected + cur_num_bits) g
          else select_loop (cur_num_bits div 2) low selected g)"
  by pat_completeness auto
termination
  by (relation "measure (\<lambda>(cur_num_bits, bitmap, selected, g). cur_num_bits)") auto

declare select_loop.simps [simp del]

definition SelectRandomBit :: "u64 \<Rightarrow> RandomBitGenerator \<Rightarrow> nat \<times> RandomBitGenerator" where
  "SelectRandomBit bitmap g = select_loop (64 div 2) bitmap 0 g"

text \<open>Shifting the 32 bits of entropy by 32 is undefined.\<close>

function random_bits_loop :: "nat \<Rightarrow> u64 \<Rightarrow> RandomBitGenerator \<Rightarrow> page_fault + u64 \<times> RandomBitGenerator" where
  "random_bits_loop num_bits result g =
    (if num_bits = 0 then Inr (result, g)
     else
       let g = (if m_bits_available g = 0 then RefreshEntropy g else g);
           cur_bits = min num_bits (m_bits_available g);
           msk = push_bit cur_bits 1 - 1;
           result = push_bit cur_bits result OR (ucast (m_entropy g) AND msk)
       in if cur_bits \<ge> 32 then Inl ShiftTooFar
          else random_bits_loop (num_bits - cur_bits) result
            (g\<lparr>m_entropy := drop_bit cur_bits (m_entropy g), m_bits_available := m_bits_available g - cur_bits\<rparr>))"
  by pat_completeness auto
termination
  by (relation "measure (\<lambda>(num_bits, result, g). num_bits)") (auto simp: RefreshEntropy_def case_prod_beta)

declare random_bits_loop.simps [simp del]

definition GenerateRandomBits :: "nat \<Rightarrow> RandomBitGenerator \<Rightarrow> page_fault + u64 \<times> RandomBitGenerator" where
  "GenerateRandomBits num_bits g = random_bits_loop num_bits 0 g"

definition GenerateRandom :: "u64 \<Rightarrow> RandomBitGenerator \<Rightarrow> page_fault + u64 \<times> RandomBitGenerator" where
  "GenerateRandom mx g =
    (let bits_needed = 1 + (64 - countl_zero mx) in
     bindF (GenerateRandomBits bits_needed g) (\<lambda>(rnd, g).
     if mx = 0 then Inl DivideByZero else Inr (rnd - rnd div mx * mx, g)))"

section \<open>The bitmap\<close>

definition MaxDepth :: nat where "MaxDepth = 4"

record KPageBitmap =
  m_bit_storages :: "nat option list"
  m_end_storages :: "nat option list"
  m_rng :: RandomBitGenerator
  m_num_bits :: u64
  m_used_depths :: nat

definition new_KPageBitmap :: "u64 \<Rightarrow> KPageBitmap" where
  "new_KPageBitmap random64 = \<lparr>m_bit_storages = replicate MaxDepth None, m_end_storages = replicate MaxDepth None,
    m_rng = new_RandomBitGenerator random64, m_num_bits = 0, m_used_depths = 0\<rparr>"

definition storage_at :: "nat option list \<Rightarrow> nat \<Rightarrow> page_fault + nat" where
  "storage_at ps depth = bindF (arr_get PageOutOfBounds ps depth) (\<lambda>p. case p of None \<Rightarrow> Inl NullStorage | Some a \<Rightarrow> Inr a)"

definition bitmap_word :: "KPageBitmap \<Rightarrow> nat \<Rightarrow> nat \<Rightarrow> u64 list \<Rightarrow> page_fault + u64" where
  "bitmap_word bm depth i data = bindF (storage_at (m_bit_storages bm) depth) (\<lambda>a. arr_get PageOutOfBounds data (a + i))"

definition set_word_at :: "KPageBitmap \<Rightarrow> nat \<Rightarrow> nat \<Rightarrow> u64 \<Rightarrow> u64 list \<Rightarrow> page_fault + u64 list" where
  "set_word_at bm depth i v data = bindF (storage_at (m_bit_storages bm) depth) (\<lambda>a. arr_set PageOutOfBounds data (a + i) v)"

function GetRequiredDepth :: "nat \<Rightarrow> nat" where
  "GetRequiredDepth region_size = (if region_size div 64 = 0 then 1 else 1 + GetRequiredDepth (region_size div 64))"
  by pat_completeness auto
termination
  by (relation "measure id") auto

declare GetRequiredDepth.simps [simp del]

fun overhead_loop :: "nat \<Rightarrow> nat \<Rightarrow> nat \<Rightarrow> nat" where
  "overhead_loop 0 region_size overhead_bits = overhead_bits"
| "overhead_loop (Suc depth) region_size overhead_bits =
    (let region_size = align_up region_size 64 div 64 in overhead_loop depth region_size (overhead_bits + region_size))"

definition bitmap_overhead :: "nat \<Rightarrow> nat" where
  "bitmap_overhead region_size = overhead_loop (GetRequiredDepth region_size) region_size 0 * 8"

text \<open>The levels are laid out from the lowest to the top. The result is the position behind the last.\<close>

fun init_levels :: "nat \<Rightarrow> nat \<Rightarrow> nat \<Rightarrow> KPageBitmap \<Rightarrow> page_fault + nat \<times> KPageBitmap" where
  "init_levels 0 storage sz bm = Inr (storage, bm)"
| "init_levels (Suc depth) storage sz bm =
    bindF (arr_set PageOutOfBounds (m_bit_storages bm) depth (Some storage)) (\<lambda>bs.
    let sz = align_up sz 64 div 64; storage = storage + sz in
    bindF (arr_set PageOutOfBounds (m_end_storages bm) depth (Some storage)) (\<lambda>es.
    init_levels depth storage sz (bm\<lparr>m_bit_storages := bs, m_end_storages := es\<rparr>)))"

definition bitmap_Initialize :: "bool \<Rightarrow> nat \<Rightarrow> nat \<Rightarrow> KPageBitmap \<Rightarrow> page_fault + nat \<times> KPageBitmap" where
  "bitmap_Initialize D storage sz bm =
    (let bm = bm\<lparr>m_num_bits := 0, m_used_depths := GetRequiredDepth sz\<rparr> in
     bindF (page_assert D (m_used_depths bm \<le> MaxDepth)) (\<lambda>_.
     init_levels (m_used_depths bm) storage sz bm))"

section \<open>Searching\<close>

text \<open>The two loops of \<^verbatim>\<open>FindFreeBlock\<close> differ in the choice of a bit.\<close>

function find_loop :: "bool \<Rightarrow> bool \<Rightarrow> KPageBitmap \<Rightarrow> u64 list \<Rightarrow> nat \<Rightarrow> nat \<Rightarrow> RandomBitGenerator
    \<Rightarrow> page_fault + int \<times> RandomBitGenerator" where
  "find_loop D random bm data depth offset g =
    bindF (bitmap_word bm depth offset data) (\<lambda>v.
    if v = 0 then bindF (page_assert D (depth = 0)) (\<lambda>_. Inr (-1, g))
    else
      let (b, g) = (if random then SelectRandomBit v g else (countr_zero v, g));
          offset = offset * 64 + b
      in if depth + 1 < m_used_depths bm then find_loop D random bm data (depth + 1) offset g
         else Inr (int offset, g))"
  by pat_completeness auto
termination
  by (relation "measure (\<lambda>(D, random, bm, data, depth, offset, g). m_used_depths bm - depth)") auto

declare find_loop.simps [simp del]

definition FindFreeBlock :: "bool \<Rightarrow> bool \<Rightarrow> KPageBitmap \<Rightarrow> u64 list \<Rightarrow> page_fault + int \<times> KPageBitmap" where
  "FindFreeBlock D random bm data =
    bindF (find_loop D random bm data 0 0 (m_rng bm)) (\<lambda>(r, g). Inr (r, bm\<lparr>m_rng := g\<rparr>))"

record range_search =
  num_valid_options :: nat
  chosen_offset :: int
  range_rng :: RandomBitGenerator

fun option_loop :: "nat \<Rightarrow> nat \<Rightarrow> nat \<Rightarrow> nat \<Rightarrow> u64 \<Rightarrow> range_search \<Rightarrow> page_fault + range_search" where
  "option_loop 0 option cnt storage_index storage r = Inr r"
| "option_loop (Suc n) option cnt storage_index storage r =
    (let free_mask = push_bit cnt 1 - 1 in
     bindF
       (if storage AND free_mask = free_mask then
          let r = r\<lparr>num_valid_options := num_valid_options r + 1\<rparr> in
          bindF (if num_valid_options r = 1 then Inr (True, range_rng r)
                 else bindF (GenerateRandom (of_nat (num_valid_options r)) (range_rng r)) (\<lambda>(x, g). Inr (x = 0, g))) (\<lambda>(chosen, g).
          Inr (if chosen then r\<lparr>range_rng := g, chosen_offset := int (storage_index * 64 + option * cnt)\<rparr>
               else r\<lparr>range_rng := g\<rparr>))
        else Inr r) (\<lambda>r.
     option_loop n (option + 1) cnt storage_index (drop_bit cnt storage) r))"

fun storage_loop :: "nat \<Rightarrow> nat \<Rightarrow> nat \<Rightarrow> nat \<Rightarrow> nat \<Rightarrow> u64 list \<Rightarrow> range_search \<Rightarrow> page_fault + range_search" where
  "storage_loop 0 storage_index storage_start options cnt data r = Inr r"
| "storage_loop (Suc n) storage_index storage_start options cnt data r =
    bindF (arr_get PageOutOfBounds data (storage_start + storage_index)) (\<lambda>storage.
    bindF (option_loop options 0 cnt storage_index storage r) (\<lambda>r.
    storage_loop n (storage_index + 1) storage_start options cnt data r))"

text \<open>A count of 64 passes the guard, but then the mask shifts by the width of the word.\<close>

definition FindFreeRange :: "nat \<Rightarrow> KPageBitmap \<Rightarrow> u64 list \<Rightarrow> page_fault + int \<times> KPageBitmap" where
  "FindFreeRange cnt bm data =
    (if m_used_depths bm = 0 then Inl PageOutOfBounds
     else
       bindF (storage_at (m_bit_storages bm) (m_used_depths bm - 1)) (\<lambda>storage_start.
       bindF (storage_at (m_end_storages bm) (m_used_depths bm - 1)) (\<lambda>storage_end.
       if \<not> (storage_start < storage_end \<and> cnt \<le> 64) then Inr (-1, bm)
       else if cnt = 0 then Inl DivideByZero
       else
         let options_per_storage = max (64 div cnt) 1; num_entries = max (storage_end - storage_start) 1 in
         if cnt = 64 then Inl ShiftTooFar
         else
           bindF (storage_loop num_entries 0 storage_start options_per_storage cnt data
             \<lparr>num_valid_options = 0, chosen_offset = -1, range_rng = m_rng bm\<rparr>) (\<lambda>r.
           Inr (chosen_offset r, bm\<lparr>m_rng := range_rng r\<rparr>)))))"

section \<open>Setting and clearing\<close>

text \<open>The loops over the levels go on to the level above while the word was or becomes zero; the number of levels left is one more
  than the depth.\<close>

fun set_bit_levels :: "bool \<Rightarrow> KPageBitmap \<Rightarrow> nat \<Rightarrow> nat \<Rightarrow> u64 list \<Rightarrow> page_fault + u64 list" where
  "set_bit_levels D bm 0 offset data = Inr data"
| "set_bit_levels D bm (Suc depth) offset data =
    (let ind = offset div 64; msk = push_bit (offset mod 64) 1 in
     bindF (bitmap_word bm depth ind data) (\<lambda>v.
     bindF (page_assert D (v AND msk = 0)) (\<lambda>_.
     bindF (set_word_at bm depth ind (v OR msk) data) (\<lambda>data.
     if v \<noteq> 0 then Inr data else set_bit_levels D bm depth ind data))))"

fun clear_bit_levels :: "bool \<Rightarrow> KPageBitmap \<Rightarrow> nat \<Rightarrow> nat \<Rightarrow> u64 list \<Rightarrow> page_fault + u64 list" where
  "clear_bit_levels D bm 0 offset data = Inr data"
| "clear_bit_levels D bm (Suc depth) offset data =
    (let ind = offset div 64; msk = push_bit (offset mod 64) 1 in
     bindF (bitmap_word bm depth ind data) (\<lambda>v.
     bindF (page_assert D (v AND msk \<noteq> 0)) (\<lambda>_.
     let v = v AND NOT msk in
     bindF (set_word_at bm depth ind v data) (\<lambda>data.
     if v \<noteq> 0 then Inr data else clear_bit_levels D bm depth ind data))))"

definition SetBit :: "bool \<Rightarrow> nat \<Rightarrow> KPageBitmap \<Rightarrow> u64 list \<Rightarrow> page_fault + KPageBitmap \<times> u64 list" where
  "SetBit D offset bm data =
    bindF (set_bit_levels D bm (m_used_depths bm) offset data) (\<lambda>data. Inr (bm\<lparr>m_num_bits := m_num_bits bm + 1\<rparr>, data))"

definition ClearBit :: "bool \<Rightarrow> nat \<Rightarrow> KPageBitmap \<Rightarrow> u64 list \<Rightarrow> page_fault + KPageBitmap \<times> u64 list" where
  "ClearBit D offset bm data =
    bindF (clear_bit_levels D bm (m_used_depths bm) offset data) (\<lambda>data. Inr (bm\<lparr>m_num_bits := m_num_bits bm - 1\<rparr>, data))"

lemma set_word_at_length: "set_word_at bm depth i v data = Inr data' \<Longrightarrow> length data' = length data"
  by (auto simp: set_word_at_def fault_elims)

lemma clear_bit_levels_length: "clear_bit_levels D bm n offset data = Inr data' \<Longrightarrow> length data' = length data"
  by (induction n arbitrary: offset data)
    (auto simp: Let_def bindF_eq_Inr split: if_splits dest!: set_word_at_length)

text \<open>Ranges of whole words. The remaining count wraps when it is not a multiple of 64.\<close>

function full_words :: "nat \<Rightarrow> u64 \<Rightarrow> u64 list \<Rightarrow> page_fault + bool" where
  "full_words p remaining data =
    (if \<not> p < length data then Inl PageOutOfBounds
     else if data ! p \<noteq> NOT 0 then Inr False
     else if remaining - 64 > 0 then full_words (p + 1) (remaining - 64) data else Inr True)"
  by pat_completeness auto
termination
  by (relation "measure (\<lambda>(p, remaining, data). length data - p)") auto

function clear_words :: "bool \<Rightarrow> KPageBitmap \<Rightarrow> nat \<Rightarrow> nat \<Rightarrow> nat \<Rightarrow> u64 \<Rightarrow> u64 list \<Rightarrow> page_fault + u64 list" where
  "clear_words D bm depth base ind remaining data =
    (if \<not> base + ind < length data then Inl PageOutOfBounds
     else
       bindF (clear_bit_levels D bm depth ind (data[base + ind := 0])) (\<lambda>data.
       if remaining - 64 > 0 then clear_words D bm depth base (ind + 1) (remaining - 64) data else Inr data))"
  by pat_completeness auto
termination
  by (relation "measure (\<lambda>(D, bm, depth, base, ind, remaining, data). length data - (base + ind))")
    (auto dest!: clear_bit_levels_length)

declare full_words.simps [simp del] clear_words.simps [simp del]

definition ClearRange :: "bool \<Rightarrow> nat \<Rightarrow> nat \<Rightarrow> KPageBitmap \<Rightarrow> u64 list \<Rightarrow> page_fault + bool \<times> KPageBitmap \<times> u64 list" where
  "ClearRange D offset cnt bm data =
    (if m_used_depths bm = 0 then Inl PageOutOfBounds
     else
       let depth = m_used_depths bm - 1; bit_ind = offset div 64;
           bm' = bm\<lparr>m_num_bits := m_num_bits bm - of_nat cnt\<rparr> in
       bindF (storage_at (m_bit_storages bm) depth) (\<lambda>bits.
       if cnt < 64 then
         let shift = offset mod 64 in
         bindF (page_assert D (shift + cnt \<le> 64)) (\<lambda>_.
         let msk = push_bit shift (push_bit cnt 1 - 1) in
         bindF (arr_get PageOutOfBounds data (bits + bit_ind)) (\<lambda>v.
         if v AND msk \<noteq> msk then Inr (False, bm, data)
         else
           let v = v AND NOT msk; data = data[bits + bit_ind := v] in
           bindF (if v = 0 then clear_bit_levels D bm depth bit_ind data else Inr data) (\<lambda>data.
           Inr (True, bm', data))))
       else
         bindF (page_assert D (offset mod 64 = 0)) (\<lambda>_.
         bindF (page_assert D (cnt mod 64 = 0)) (\<lambda>_.
         bindF (full_words (bits + bit_ind) (of_nat cnt) data) (\<lambda>all.
         if \<not> all then Inr (False, bm, data)
         else
           bindF (clear_words D bm depth bits bit_ind (of_nat cnt) data) (\<lambda>data.
           Inr (True, bm', data)))))))"

end
