(* ===== verification/Page_Heap.thy ===== *)
theory Page_Heap
  imports Page_Bitmap Memory_Block
begin

text \<open>
  The page heap (\<^verbatim>\<open>core/hle/kernel/k_page_heap.h\<close>, \<^verbatim>\<open>k_page_heap.cpp\<close>): physical memory in free blocks of seven sizes, one
  bitmap per size, all in the heap's management data. Freeing a block merges it with the others of its group
  into the next size; an allocation splits a larger block and frees what is left of it. The addresses of the loops of \<^verbatim>\<open>Free\<close> may wrap, so
  these are partial functions, with \<open>None\<close> for not returning. Block shifts are those of a table, in increasing order.
\<close>

section \<open>Alignment and loops\<close>

definition AlignDown_u64 :: "u64 \<Rightarrow> u64 \<Rightarrow> u64" where
  "AlignDown_u64 v sz = v - v mod sz"

definition AlignUp_u64 :: "u64 \<Rightarrow> u64 \<Rightarrow> u64" where
  "AlignUp_u64 v sz = (let m = v mod sz; v = v - m in if m = 0 then v else v + sz)"

definition size_shift :: "u64 \<Rightarrow> nat \<Rightarrow> page_fault + u64" where
  "size_shift v s = (if s \<ge> 64 then Inl ShiftTooFar else Inr (drop_bit s v))"

definition bindO :: "(page_fault + 'a) option \<Rightarrow> ('a \<Rightarrow> (page_fault + 'b) option) \<Rightarrow> (page_fault + 'b) option" where
  "bindO m k = (case m of None \<Rightarrow> None | Some (Inl f) \<Rightarrow> Some (Inl f) | Some (Inr x) \<Rightarrow> k x)"

partial_function (option) loop_while :: "('s \<Rightarrow> bool) \<Rightarrow> ('s \<Rightarrow> page_fault + 's) \<Rightarrow> 's \<Rightarrow> (page_fault + 's) option" where
  "loop_while test body s =
    (if test s then (case body s of Inl f \<Rightarrow> Some (Inl f) | Inr s' \<Rightarrow> loop_while test body s') else Some (Inr s))"

declare loop_while.simps [code]

section \<open>Blocks of one size\<close>

record Block =
  m_bitmap :: KPageBitmap
  blk_heap_address :: u64
  m_end_offset :: u64
  m_block_shift :: nat
  m_next_block_shift :: nat

definition blk_GetSize :: "Block \<Rightarrow> u64" where
  "blk_GetSize b = push_bit (m_block_shift b) 1"

definition blk_GetNumPages :: "Block \<Rightarrow> u64" where
  "blk_GetNumPages b = blk_GetSize b div PageSize"

definition blk_GetNumFreeBlocks :: "Block \<Rightarrow> u64" where
  "blk_GetNumFreeBlocks b = m_num_bits (m_bitmap b)"

definition blk_GetNumFreePages :: "Block \<Rightarrow> u64" where
  "blk_GetNumFreePages b = blk_GetNumFreeBlocks b * blk_GetNumPages b"

definition blk_Initialize :: "bool \<Rightarrow> u64 \<Rightarrow> u64 \<Rightarrow> nat \<Rightarrow> nat \<Rightarrow> nat \<Rightarrow> Block \<Rightarrow> page_fault + nat \<times> Block" where
  "blk_Initialize D addr sz bs nbs bit_storage b =
    (let b = b\<lparr>m_block_shift := bs, m_next_block_shift := nbs\<rparr>;
         finish = addr + sz;
         align = (if m_next_block_shift b \<noteq> 0 then push_bit (m_next_block_shift b) 1 else push_bit (m_block_shift b) 1);
         addr = AlignDown_u64 addr align;
         finish = AlignUp_u64 finish align;
         b = b\<lparr>blk_heap_address := addr, m_end_offset := (finish - addr) div push_bit (m_block_shift b) 1\<rparr> in
     bindF (bitmap_Initialize D bit_storage (unat (m_end_offset b)) (m_bitmap b)) (\<lambda>(st, bm).
     Inr (st, b\<lparr>m_bitmap := bm\<rparr>)))"

definition PushBlock :: "bool \<Rightarrow> u64 \<Rightarrow> Block \<Rightarrow> u64 list \<Rightarrow> page_fault + u64 \<times> Block \<times> u64 list" where
  "PushBlock D address b data =
    (let offset = unat (drop_bit (m_block_shift b) (address - blk_heap_address b)) in
     bindF (SetBit D offset (m_bitmap b) data) (\<lambda>(bm, data).
     let b = b\<lparr>m_bitmap := bm\<rparr> in
     if m_next_block_shift b \<noteq> 0 then
       let diff = 2 ^ (m_next_block_shift b - m_block_shift b); offset = align_down offset diff in
       bindF (ClearRange D offset diff (m_bitmap b) data) (\<lambda>(cleared, bm, data).
       let b = b\<lparr>m_bitmap := bm\<rparr> in
       if cleared then Inr (blk_heap_address b + push_bit (m_block_shift b) (of_nat offset), b, data)
       else Inr (0, b, data))
     else Inr (0, b, data)))"

definition PopBlock :: "bool \<Rightarrow> bool \<Rightarrow> Block \<Rightarrow> u64 list \<Rightarrow> page_fault + u64 \<times> Block \<times> u64 list" where
  "PopBlock D random b data =
    bindF (FindFreeBlock D random (m_bitmap b) data) (\<lambda>(soffset, bm).
    let b = b\<lparr>m_bitmap := bm\<rparr> in
    if soffset < 0 then Inr (0, b, data)
    else
      let offset = nat soffset in
      bindF (ClearBit D offset (m_bitmap b) data) (\<lambda>(bm, data).
      Inr (blk_heap_address b + push_bit (m_block_shift b) (of_nat offset), b\<lparr>m_bitmap := bm\<rparr>, data)))"

definition blk_overhead :: "u64 \<Rightarrow> nat \<Rightarrow> nat \<Rightarrow> nat" where
  "blk_overhead region_size cur_block_shift next_block_shift =
    (let cur_block_size = push_bit cur_block_shift 1;
         next_block_size = push_bit next_block_shift 1;
         align = (if next_block_shift \<noteq> 0 then next_block_size else cur_block_size)
     in bitmap_overhead (unat ((align * 2 + AlignUp_u64 region_size align) div cur_block_size)))"

section \<open>The heap\<close>

record KPageHeap =
  hp_heap_address :: u64
  m_heap_size :: u64
  m_initial_used_size :: u64
  m_num_blocks :: nat
  hp_blocks :: "Block list"
  hp_rng :: RandomBitGenerator
  m_management_data :: "u64 list"

definition NumMemoryBlockPageShifts :: nat where "NumMemoryBlockPageShifts = 7"

definition MemoryBlockPageShifts :: "nat list" where
  "MemoryBlockPageShifts = [0xC, 0x10, 0x15, 0x16, 0x19, 0x1D, 0x1E]"

definition new_Block :: "u64 \<Rightarrow> Block" where
  "new_Block random64 = \<lparr>m_bitmap = new_KPageBitmap random64, blk_heap_address = 0, m_end_offset = 0, m_block_shift = 0, m_next_block_shift = 0\<rparr>"

definition new_KPageHeap :: "u64 list \<Rightarrow> u64 \<Rightarrow> KPageHeap" where
  "new_KPageHeap seeds seed = \<lparr>hp_heap_address = 0, m_heap_size = 0, m_initial_used_size = 0, m_num_blocks = 0,
    hp_blocks = map new_Block seeds, hp_rng = new_RandomBitGenerator seed, m_management_data = []\<rparr>"

definition hp_GetEndAddress :: "KPageHeap \<Rightarrow> u64" where
  "hp_GetEndAddress hp = hp_heap_address hp + m_heap_size hp"

definition GetPageOffset :: "KPageHeap \<Rightarrow> u64 \<Rightarrow> u64" where
  "GetPageOffset hp block = (block - hp_heap_address hp) div PageSize"

definition GetPageOffsetToEnd :: "KPageHeap \<Rightarrow> u64 \<Rightarrow> u64" where
  "GetPageOffsetToEnd hp block = (hp_GetEndAddress hp - block) div PageSize"

definition hp_block :: "KPageHeap \<Rightarrow> nat \<Rightarrow> page_fault + Block" where
  "hp_block hp i = arr_get PageOutOfBounds (hp_blocks hp) i"

definition hp_set :: "nat \<Rightarrow> Block \<Rightarrow> u64 list \<Rightarrow> KPageHeap \<Rightarrow> KPageHeap" where
  "hp_set i b data hp = hp\<lparr>hp_blocks := (hp_blocks hp)[i := b], m_management_data := data\<rparr>"

definition vector_resize :: "nat \<Rightarrow> u64 list \<Rightarrow> u64 list" where
  "vector_resize n xs = take n xs @ replicate (n - length xs) 0"

fun init_blocks :: "bool \<Rightarrow> nat \<Rightarrow> nat list \<Rightarrow> nat \<Rightarrow> KPageHeap \<Rightarrow> page_fault + nat \<times> KPageHeap" where
  "init_blocks D i [] storage hp = Inr (storage, hp)"
| "init_blocks D i (cur # shifts) storage hp =
    bindF (hp_block hp i) (\<lambda>b.
    bindF (blk_Initialize D (hp_heap_address hp) (m_heap_size hp) cur (case shifts of [] \<Rightarrow> 0 | next # _ \<Rightarrow> next) storage b) (\<lambda>(storage, b).
    init_blocks D (i + 1) shifts storage (hp_set i b (m_management_data hp) hp)))"

text \<open>The last assertion compares the host address of the management data, \<open>data_ptr\<close>, with the address the
  guest's kernel would have it at.\<close>

definition heap_Initialize :: "bool \<Rightarrow> u64 \<Rightarrow> u64 \<Rightarrow> u64 \<Rightarrow> u64 \<Rightarrow> u64 \<Rightarrow> nat list \<Rightarrow> KPageHeap \<Rightarrow> page_fault + KPageHeap" where
  "heap_Initialize D data_ptr address sz management_address management_size block_shifts hp =
    bindF (page_assert D (address AND (PageSize - 1) = 0)) (\<lambda>_.
    bindF (page_assert D (sz AND (PageSize - 1) = 0)) (\<lambda>_.
    bindF (page_assert D (0 < length block_shifts \<and> length block_shifts \<le> NumMemoryBlockPageShifts)) (\<lambda>_.
    let management_end = management_address + management_size;
        hp = hp\<lparr>hp_heap_address := address, m_heap_size := sz, m_num_blocks := length block_shifts,
          m_management_data := vector_resize (unat (management_size div 8)) (m_management_data hp)\<rparr> in
    bindF (init_blocks D 0 block_shifts 0 hp) (\<lambda>(storage, hp).
    bindF (page_assert D (data_ptr + 8 * of_nat storage \<le> management_end)) (\<lambda>_.
    Inr hp)))))"

definition hp_Initialize :: "bool \<Rightarrow> u64 \<Rightarrow> u64 \<Rightarrow> u64 \<Rightarrow> u64 \<Rightarrow> u64 \<Rightarrow> KPageHeap \<Rightarrow> page_fault + KPageHeap" where
  "hp_Initialize D data_ptr address sz management_address management_size hp =
    heap_Initialize D data_ptr address sz management_address management_size MemoryBlockPageShifts hp"

fun free_pages_loop :: "nat \<Rightarrow> nat \<Rightarrow> u64 \<Rightarrow> KPageHeap \<Rightarrow> page_fault + u64" where
  "free_pages_loop 0 i num_free hp = Inr num_free"
| "free_pages_loop (Suc n) i num_free hp =
    bindF (hp_block hp i) (\<lambda>b. free_pages_loop n (i + 1) (num_free + blk_GetNumFreePages b) hp)"

definition GetNumFreePages :: "KPageHeap \<Rightarrow> page_fault + u64" where
  "GetNumFreePages hp = free_pages_loop (m_num_blocks hp) 0 0 hp"

definition GetFreeSize :: "KPageHeap \<Rightarrow> page_fault + u64" where
  "GetFreeSize hp = bindF (GetNumFreePages hp) (\<lambda>n. Inr (n * PageSize))"

definition SetInitialUsedSize :: "bool \<Rightarrow> u64 \<Rightarrow> KPageHeap \<Rightarrow> page_fault + KPageHeap" where
  "SetInitialUsedSize D reserved_size hp =
    bindF (GetNumFreePages hp) (\<lambda>n.
    let free_size = n * PageSize in
    bindF (page_assert D (m_heap_size hp \<ge> free_size + reserved_size)) (\<lambda>_.
    Inr (hp\<lparr>m_initial_used_size := m_heap_size hp - free_size - reserved_size\<rparr>)))"

fun overhead_sum :: "u64 \<Rightarrow> nat list \<Rightarrow> nat" where
  "overhead_sum region_size [] = 0"
| "overhead_sum region_size (cur # shifts) =
    blk_overhead region_size cur (case shifts of [] \<Rightarrow> 0 | next # _ \<Rightarrow> next) + overhead_sum region_size shifts"

definition heap_overhead :: "u64 \<Rightarrow> nat list \<Rightarrow> nat" where
  "heap_overhead region_size block_shifts = align_up (overhead_sum region_size block_shifts) 4096"

definition CalculateManagementOverheadSize :: "u64 \<Rightarrow> nat" where
  "CalculateManagementOverheadSize region_size = heap_overhead region_size MemoryBlockPageShifts"

section \<open>Block sizes\<close>

definition GetBlockSize :: "nat \<Rightarrow> u64" where
  "GetBlockSize index = push_bit (MemoryBlockPageShifts ! index) 1"

definition GetBlockNumPages :: "nat \<Rightarrow> u64" where
  "GetBlockNumPages index = GetBlockSize index div PageSize"

fun aligned_index_loop :: "nat \<Rightarrow> u64 \<Rightarrow> nat list \<Rightarrow> int" where
  "aligned_index_loop i target_pages [] = -1"
| "aligned_index_loop i target_pages (shift # shifts) =
    (if target_pages \<le> push_bit shift 1 div PageSize then int i else aligned_index_loop (i + 1) target_pages shifts)"

definition GetAlignedBlockIndex :: "u64 \<Rightarrow> u64 \<Rightarrow> int" where
  "GetAlignedBlockIndex num_pages align_pages = aligned_index_loop 0 (max num_pages align_pages) MemoryBlockPageShifts"

fun block_index_loop :: "nat \<Rightarrow> u64 \<Rightarrow> int" where
  "block_index_loop 0 num_pages = -1"
| "block_index_loop (Suc i) num_pages = (if num_pages \<ge> GetBlockNumPages i then int i else block_index_loop i num_pages)"

definition GetBlockIndex :: "u64 \<Rightarrow> int" where
  "GetBlockIndex num_pages = block_index_loop NumMemoryBlockPageShifts num_pages"

section \<open>Free\<close>

function FreeBlock :: "bool \<Rightarrow> u64 \<Rightarrow> nat \<Rightarrow> KPageHeap \<Rightarrow> page_fault + KPageHeap" where
  "FreeBlock D block index hp =
    bindF (hp_block hp index) (\<lambda>b.
    bindF (PushBlock D block b (m_management_data hp)) (\<lambda>(block, b, data).
    let hp = hp_set index b data hp in
    if block \<noteq> 0 then FreeBlock D block (index + 1) hp else Inr hp))"
  by pat_completeness auto
termination
  by (relation "measure (\<lambda>(D, block, index, hp). length (hp_blocks hp) - index)")
    (auto simp: hp_block_def hp_set_def arr_get_eq_Inr)

declare FreeBlock.simps [simp del]

text \<open>The largest block size of which the range has a block, as one more than its index, with the range of these blocks.\<close>

fun big_search :: "nat \<Rightarrow> u64 \<Rightarrow> u64 \<Rightarrow> KPageHeap \<Rightarrow> page_fault + nat \<times> u64 \<times> u64" where
  "big_search 0 start finish hp = Inr (0, start, finish)"
| "big_search (Suc big_index) start finish hp =
    bindF (hp_block hp big_index) (\<lambda>b.
    let block_size = blk_GetSize b;
        big_start = AlignUp_u64 start block_size;
        big_end = AlignDown_u64 finish block_size
    in if big_start < big_end then Inr (Suc big_index, big_start, big_end) else big_search big_index start finish hp)"

definition free_big :: "bool \<Rightarrow> nat \<Rightarrow> u64 \<Rightarrow> u64 \<Rightarrow> KPageHeap \<Rightarrow> (page_fault + KPageHeap) option" where
  "free_big D big_index big_start big_end hp =
    bindO (Some (hp_block hp big_index)) (\<lambda>b.
    bindO (loop_while (\<lambda>(block, hp). block < big_end)
      (\<lambda>(block, hp). bindF (FreeBlock D block big_index hp) (\<lambda>hp. Inr (block + blk_GetSize b, hp))) (big_start, hp)) (\<lambda>(_, hp).
    Some (Inr hp)))"

fun free_before :: "bool \<Rightarrow> nat \<Rightarrow> u64 \<Rightarrow> u64 \<Rightarrow> KPageHeap \<Rightarrow> (page_fault + KPageHeap) option" where
  "free_before D 0 before_start before_end hp = Some (Inr hp)"
| "free_before D (Suc i) before_start before_end hp =
    bindO (Some (hp_block hp i)) (\<lambda>b.
    bindO (loop_while (\<lambda>(before_end, hp). before_start + blk_GetSize b \<le> before_end)
      (\<lambda>(before_end, hp). let before_end = before_end - blk_GetSize b in
         bindF (FreeBlock D before_end i hp) (\<lambda>hp. Inr (before_end, hp))) (before_end, hp)) (\<lambda>(before_end, hp).
    free_before D i before_start before_end hp))"

fun free_after :: "bool \<Rightarrow> nat \<Rightarrow> u64 \<Rightarrow> u64 \<Rightarrow> KPageHeap \<Rightarrow> (page_fault + KPageHeap) option" where
  "free_after D 0 after_start after_end hp = Some (Inr hp)"
| "free_after D (Suc i) after_start after_end hp =
    bindO (Some (hp_block hp i)) (\<lambda>b.
    bindO (loop_while (\<lambda>(after_start, hp). after_start + blk_GetSize b \<le> after_end)
      (\<lambda>(after_start, hp). bindF (FreeBlock D after_start i hp) (\<lambda>hp. Inr (after_start + blk_GetSize b, hp))) (after_start, hp))
      (\<lambda>(after_start, hp).
    free_after D i after_start after_end hp))"

definition heap_Free :: "bool \<Rightarrow> u64 \<Rightarrow> u64 \<Rightarrow> KPageHeap \<Rightarrow> (page_fault + KPageHeap) option" where
  "heap_Free D addr num_pages hp =
    (if num_pages = 0 then Some (Inr hp)
     else
       let start = addr; finish = addr + num_pages * PageSize in
       bindO (Some (big_search (m_num_blocks hp) start finish hp)) (\<lambda>(n, big_start, big_end).
       bindO (if n = 0 then Some (Inr hp) else free_big D (n - 1) big_start big_end hp) (\<lambda>hp.
       let before_end = (if n = 0 then start else big_start); after_start = (if n = 0 then finish else big_end) in
       bindO (Some (page_assert D (0 < n))) (\<lambda>_.
       bindO (free_before D (n - 1) start before_end hp) (\<lambda>hp.
       free_after D (n - 1) after_start finish hp)))))"

section \<open>Allocate\<close>

fun linear_loop :: "bool \<Rightarrow> nat \<Rightarrow> nat \<Rightarrow> u64 \<Rightarrow> KPageHeap \<Rightarrow> (page_fault + u64 \<times> KPageHeap) option" where
  "linear_loop D 0 i needed_size hp = Some (Inr (0, hp))"
| "linear_loop D (Suc n) i needed_size hp =
    bindO (Some (hp_block hp i)) (\<lambda>b.
    bindO (Some (PopBlock D False b (m_management_data hp))) (\<lambda>(addr, b, data).
    let hp = hp_set i b data hp in
    if addr \<noteq> 0 then
      let allocated_size = blk_GetSize b in
      bindO (if allocated_size > needed_size
             then heap_Free D (addr + needed_size) ((allocated_size - needed_size) div PageSize) hp
             else Some (Inr hp)) (\<lambda>hp.
      Some (Inr (addr, hp)))
    else linear_loop D n (i + 1) needed_size hp))"

definition AllocateByLinearSearch :: "bool \<Rightarrow> nat \<Rightarrow> KPageHeap \<Rightarrow> (page_fault + u64 \<times> KPageHeap) option" where
  "AllocateByLinearSearch D index hp =
    bindO (Some (hp_block hp index)) (\<lambda>b.
    linear_loop D (m_num_blocks hp - index) index (blk_GetSize b) hp)"

definition MinimumPossibleAlignmentsForRandomAllocation :: u64 where
  "MinimumPossibleAlignmentsForRandomAllocation = 4"

definition block_alignments :: "nat \<Rightarrow> u64 \<Rightarrow> nat \<Rightarrow> KPageHeap \<Rightarrow> page_fault + u64" where
  "block_alignments i needed_size align_shift hp =
    bindF (hp_block hp i) (\<lambda>b.
    bindF (size_shift (blk_GetSize b - needed_size) align_shift) (\<lambda>x.
    Inr ((1 + x) * blk_GetNumFreeBlocks b)))"

text \<open>The number of blocks to look at, and their possible alignments.\<close>

fun alignments_loop :: "nat \<Rightarrow> nat \<Rightarrow> u64 \<Rightarrow> u64 \<Rightarrow> nat \<Rightarrow> KPageHeap \<Rightarrow> page_fault + nat \<times> u64" where
  "alignments_loop 0 i possible_alignments needed_size align_shift hp = Inr (i, possible_alignments)"
| "alignments_loop (Suc n) i possible_alignments needed_size align_shift hp =
    bindF (block_alignments i needed_size align_shift hp) (\<lambda>x.
    let possible_alignments = possible_alignments + x in
    if possible_alignments \<ge> MinimumPossibleAlignmentsForRandomAllocation then Inr (i + 1, possible_alignments)
    else alignments_loop n (i + 1) possible_alignments needed_size align_shift hp)"

fun choose_loop :: "nat \<Rightarrow> nat \<Rightarrow> nat \<Rightarrow> u64 \<Rightarrow> u64 \<Rightarrow> u64 \<Rightarrow> nat \<Rightarrow> KPageHeap \<Rightarrow> page_fault + nat" where
  "choose_loop index 0 i possible_alignments rnd needed_size align_shift hp = Inr index"
| "choose_loop index (Suc n) i possible_alignments rnd needed_size align_shift hp =
    bindF (block_alignments i needed_size align_shift hp) (\<lambda>x.
    let possible_alignments = possible_alignments + x in
    if rnd < possible_alignments then Inr i
    else choose_loop index n (i + 1) possible_alignments rnd needed_size align_shift hp)"

definition choose_block :: "nat \<Rightarrow> u64 \<Rightarrow> nat \<Rightarrow> KPageHeap \<Rightarrow> page_fault + nat \<times> KPageHeap" where
  "choose_block index needed_size align_shift hp =
    bindF (if index < m_num_blocks hp
           then alignments_loop (m_num_blocks hp - index) index 0 needed_size align_shift hp
           else Inr (m_num_blocks hp, 0)) (\<lambda>(max_blocks, possible_alignments).
    if possible_alignments > 0 \<and> index + 1 < max_blocks then
      bindF (GenerateRandom possible_alignments (hp_rng hp)) (\<lambda>(rnd, g).
      let hp = hp\<lparr>hp_rng := g\<rparr> in
      bindF (choose_loop index (max_blocks - index) index 0 rnd needed_size align_shift hp) (\<lambda>index.
      Inr (index, hp)))
    else Inr (index, hp))"

text \<open>The part of a popped block that is allocated is chosen at random; what lies before and after it is freed.\<close>

definition place_in_block :: "bool \<Rightarrow> u64 \<Rightarrow> u64 \<Rightarrow> u64 \<Rightarrow> nat \<Rightarrow> KPageHeap \<Rightarrow> (page_fault + u64 \<times> KPageHeap) option" where
  "place_in_block D addr leftover_size needed_size align_shift hp =
    (if leftover_size > 0 then
       bindO (Some (size_shift leftover_size align_shift)) (\<lambda>x.
       bindO (Some (GenerateRandom (1 + x) (hp_rng hp))) (\<lambda>(rnd, g).
       let hp = hp\<lparr>hp_rng := g\<rparr>; random_offset = push_bit align_shift rnd in
       bindO (if random_offset \<noteq> 0 then heap_Free D addr (random_offset div PageSize) hp else Some (Inr hp)) (\<lambda>hp.
       let addr = addr + random_offset in
       bindO (if random_offset \<noteq> leftover_size
              then heap_Free D (addr + needed_size) ((leftover_size - random_offset) div PageSize) hp
              else Some (Inr hp)) (\<lambda>hp.
       Some (Inr (addr, hp))))))
     else Some (Inr (addr, hp)))"

definition AllocateByRandom :: "bool \<Rightarrow> nat \<Rightarrow> u64 \<Rightarrow> u64 \<Rightarrow> KPageHeap \<Rightarrow> (page_fault + u64 \<times> KPageHeap) option" where
  "AllocateByRandom D index num_pages align_pages hp =
    (let needed_size = num_pages * PageSize; align_size = align_pages * PageSize; align_shift = countr_zero align_size in
     bindO (Some (choose_block index needed_size align_shift hp)) (\<lambda>(index, hp).
     bindO (Some (hp_block hp index)) (\<lambda>b.
     bindO (Some (PopBlock D True b (m_management_data hp))) (\<lambda>(addr, b, data).
     let hp = hp_set index b data hp in
     if addr \<noteq> 0 then place_in_block D addr (blk_GetSize b - needed_size) needed_size align_shift hp
     else Some (Inr (0, hp))))))"

definition AllocateBlock :: "bool \<Rightarrow> nat \<Rightarrow> bool \<Rightarrow> KPageHeap \<Rightarrow> (page_fault + u64 \<times> KPageHeap) option" where
  "AllocateBlock D index random hp =
    (if random then
       bindO (Some (hp_block hp index)) (\<lambda>b.
       AllocateByRandom D index (blk_GetNumPages b) (blk_GetNumPages b) hp)
     else AllocateByLinearSearch D index hp)"

definition AllocateAligned :: "bool \<Rightarrow> nat \<Rightarrow> u64 \<Rightarrow> u64 \<Rightarrow> KPageHeap \<Rightarrow> (page_fault + u64 \<times> KPageHeap) option" where
  "AllocateAligned D index num_pages align_pages hp = AllocateByRandom D index num_pages align_pages hp"

end
