(* ===== verification/Page_Group.thy ===== *)
theory Page_Group
  imports Page_Heap Block_Manager
begin

text \<open>
  Groups of physical pages (\<^verbatim>\<open>core/hle/kernel/k_page_group.h\<close>, \<^verbatim>\<open>k_page_group.cpp\<close>): a linked list of blocks, each with its first page and number of pages in 32
  bits. The list is that of its nodes from the first to the last; the nodes come from a slab heap, of which the group has the
  present state. The operations that reach the memory manager are with it, in \<open>Memory_Manager\<close>.
\<close>

section \<open>Results\<close>

datatype mm_result = ResultSuccess | ResultOutOfResource | ResultOutOfMemory | ResultBusy

section \<open>Block infos\<close>

record KBlockInfo =
  m_page_index :: u32
  info_num_pages :: u32

definition info_Initialize :: "bool \<Rightarrow> u64 \<Rightarrow> u64 \<Rightarrow> page_fault + KBlockInfo" where
  "info_Initialize D addr np =
    bindF (page_assert D (addr AND (PageSize - 1) = 0)) (\<lambda>_.
    bindF (page_assert D (ucast (ucast np :: u32) = np)) (\<lambda>_.
    Inr \<lparr>m_page_index = ucast (addr div PageSize), info_num_pages = ucast np\<rparr>))"

definition info_GetAddress :: "KBlockInfo \<Rightarrow> u64" where
  "info_GetAddress b = ucast (m_page_index b) * PageSize"

definition node_GetNumPages :: "KBlockInfo \<Rightarrow> u64" where
  "node_GetNumPages b = ucast (info_num_pages b)"

definition node_GetSize :: "KBlockInfo \<Rightarrow> u64" where
  "node_GetSize b = node_GetNumPages b * PageSize"

text \<open>The sum of the two 32-bit fields wraps before it is scaled.\<close>

definition node_GetEndAddress :: "KBlockInfo \<Rightarrow> u64" where
  "node_GetEndAddress b = ucast (m_page_index b + info_num_pages b) * PageSize"

definition node_GetLastAddress :: "KBlockInfo \<Rightarrow> u64" where
  "node_GetLastAddress b = node_GetEndAddress b - 1"

definition info_IsEquivalentTo :: "KBlockInfo \<Rightarrow> KBlockInfo \<Rightarrow> bool" where
  "info_IsEquivalentTo b rhs \<longleftrightarrow> m_page_index b = m_page_index rhs \<and> info_num_pages b = info_num_pages rhs"

definition IsStrictlyBefore :: "KBlockInfo \<Rightarrow> u64 \<Rightarrow> bool" where
  "IsStrictlyBefore b addr =
    (let finish = node_GetEndAddress b in if m_page_index b \<noteq> 0 \<and> finish = 0 then False else finish < addr)"

definition TryConcatenate :: "u64 \<Rightarrow> u64 \<Rightarrow> KBlockInfo \<Rightarrow> KBlockInfo option" where
  "TryConcatenate addr np b =
    (if addr \<noteq> 0 \<and> addr = node_GetEndAddress b then Some (b\<lparr>info_num_pages := info_num_pages b + ucast np\<rparr>) else None)"

section \<open>Page groups\<close>

record KPageGroup =
  pg_blocks :: "KBlockInfo list"
  pg_manager :: KMemoryBlockSlabManager

fun pages_loop :: "KBlockInfo list \<Rightarrow> u64 \<Rightarrow> u64" where
  "pages_loop [] num_pages = num_pages"
| "pages_loop (b # bs) num_pages = pages_loop bs (num_pages + node_GetNumPages b)"

definition group_GetNumPages :: "KPageGroup \<Rightarrow> u64" where
  "group_GetNumPages pg = pages_loop (pg_blocks pg) 0"

fun free_nodes :: "KBlockInfo list \<Rightarrow> KMemoryBlockSlabManager \<Rightarrow> KMemoryBlockSlabManager" where
  "free_nodes [] sm = sm"
| "free_nodes (b # bs) sm = free_nodes bs (slab_Free sm)"

definition group_Finalize :: "KPageGroup \<Rightarrow> KPageGroup" where
  "group_Finalize pg = \<lparr>pg_blocks = [], pg_manager = free_nodes (pg_blocks pg) (pg_manager pg)\<rparr>"

definition concat_last :: "u64 \<Rightarrow> u64 \<Rightarrow> KBlockInfo list \<Rightarrow> KBlockInfo list option" where
  "concat_last addr np bs =
    (if bs = [] then None else map_option (\<lambda>b. butlast bs @ [b]) (TryConcatenate addr np (last bs)))"

definition AddBlock :: "bool \<Rightarrow> u64 \<Rightarrow> u64 \<Rightarrow> KPageGroup \<Rightarrow> page_fault + mm_result \<times> KPageGroup" where
  "AddBlock D addr num_pages pg =
    (if num_pages = 0 then Inr (ResultSuccess, pg)
     else
       bindF (page_assert D (addr < addr + num_pages * PageSize)) (\<lambda>_.
       case concat_last addr num_pages (pg_blocks pg) of
         Some bs \<Rightarrow> Inr (ResultSuccess, pg\<lparr>pg_blocks := bs\<rparr>)
       | None \<Rightarrow>
           let (b, sm) = slab_Allocate (pg_manager pg); pg = pg\<lparr>pg_manager := sm\<rparr> in
           if b = None then Inr (ResultOutOfResource, pg)
           else bindF (info_Initialize D addr num_pages) (\<lambda>info. Inr (ResultSuccess, pg\<lparr>pg_blocks := pg_blocks pg @ [info]\<rparr>))))"

fun equivalent_loop :: "KBlockInfo list \<Rightarrow> KBlockInfo list \<Rightarrow> bool" where
  "equivalent_loop (l # ls) (r # rs) = (if \<not> info_IsEquivalentTo l r then False else equivalent_loop ls rs)"
| "equivalent_loop ls rs \<longleftrightarrow> ls = [] \<and> rs = []"

definition group_IsEquivalentTo :: "KPageGroup \<Rightarrow> KPageGroup \<Rightarrow> bool" where
  "group_IsEquivalentTo pg rhs = equivalent_loop (pg_blocks pg) (pg_blocks rhs)"

end
