(* ===== verification/Memory_Manager.thy ===== *)
theory Memory_Manager
  imports Page_Group
begin

text \<open>
  The memory manager (\<^verbatim>\<open>core/hle/kernel/k_memory_manager.h\<close>, \<^verbatim>\<open>k_memory_manager.cpp\<close>): the managers of the memory regions, each with a page heap and
  a reference count per page, in one list per pool; and the operations of page groups on them (\<^verbatim>\<open>k_page_group.cpp\<close>). Pointers to managers are indices of the
  manager array. The memory layout is the list of the regions of its physical trees in order. Of the device memory, the bitmap of optimized pages is the
  list of its words, and what is filled is a list of ranges with the byte, in order. Pools are their numbers.
\<close>

section \<open>Loops\<close>

partial_function (option) loop_opt :: "('s \<Rightarrow> bool) \<Rightarrow> ('s \<Rightarrow> (page_fault + 's) option) \<Rightarrow> 's \<Rightarrow> (page_fault + 's) option" where
  "loop_opt test body s =
    (if test s then (case body s of None \<Rightarrow> None
       | Some r \<Rightarrow> (case r of Inl f \<Rightarrow> Some (Inl f) | Inr s' \<Rightarrow> loop_opt test body s'))
     else Some (Inr s))"

declare loop_opt.simps [code]

section \<open>Memory regions\<close>

record KMemoryRegion =
  rg_address :: u64
  rg_last_address :: u64
  rg_pair_address :: u64
  rg_attributes :: u32
  rg_type_id :: u32

definition rg_GetEndAddress :: "KMemoryRegion \<Rightarrow> u64" where
  "rg_GetEndAddress r = rg_last_address r + 1"

definition rg_GetSize :: "KMemoryRegion \<Rightarrow> u64" where
  "rg_GetSize r = rg_GetEndAddress r - rg_address r"

definition rg_IsDerivedFrom :: "u32 \<Rightarrow> KMemoryRegion \<Rightarrow> bool" where
  "rg_IsDerivedFrom type r \<longleftrightarrow> rg_type_id r OR type = rg_type_id r"

definition tree_Find :: "u64 \<Rightarrow> KMemoryRegion list \<Rightarrow> KMemoryRegion option" where
  "tree_Find address tree = find (\<lambda>r. rg_address r \<le> address \<and> address \<le> rg_last_address r) tree"

definition DramUserPool :: u32 where "DramUserPool = 0xC0000266"
definition DramApplicationPool :: u32 where "DramApplicationPool = 0xC0000E66"
definition DramAppletPool :: u32 where "DramAppletPool = 0xC0001666"
definition DramSystemNonSecurePool :: u32 where "DramSystemNonSecurePool = 0xC0001A66"
definition DramSystemPool :: u32 where "DramSystemPool = 0xC2002666"

definition GetPoolFromMemoryRegionType :: "u32 \<Rightarrow> page_fault + nat" where
  "GetPoolFromMemoryRegionType type =
    (if type OR DramApplicationPool = type then Inr 0
     else if type OR DramAppletPool = type then Inr 1
     else if type OR DramSystemPool = type then Inr 2
     else if type OR DramSystemNonSecurePool = type then Inr 3
     else Inl PageAssertFailed)"

section \<open>One manager\<close>

definition PoolCount :: nat where "PoolCount = 4"
definition MaxManagerCount :: nat where "MaxManagerCount = 10"

record Impl =
  im_heap :: KPageHeap
  m_page_reference_counts :: "u16 list"
  m_management_region :: u64
  m_pool :: nat
  im_next :: "nat option"
  im_prev :: "nat option"
  optimize_map :: "u64 list"

definition CalculateOptimizedProcessOverheadSize :: "u64 \<Rightarrow> u64" where
  "CalculateOptimizedProcessOverheadSize region_size = AlignUp_u64 (region_size div PageSize) 64 div 64 * 8"

definition manager_overhead :: "u64 \<Rightarrow> u64" where
  "manager_overhead region_size =
    (let ref_count_size = region_size div PageSize * 2;
         optimize_map_size = AlignUp_u64 (region_size div PageSize) 64 div 64 * 8;
         manager_meta_size = AlignUp_u64 (optimize_map_size + ref_count_size) PageSize;
         page_heap_size = of_nat (CalculateManagementOverheadSize region_size)
     in manager_meta_size + page_heap_size)"

definition refs_resize :: "nat \<Rightarrow> u16 list \<Rightarrow> u16 list" where
  "refs_resize n xs = take n xs @ replicate (n - length xs) 0"

text \<open>\<open>intended_size\<close> is the memory size of the board, \<open>data_ptr\<close> the host address of the heap's management data.\<close>

definition im_Initialize :: "bool \<Rightarrow> u64 \<Rightarrow> u64 \<Rightarrow> u64 \<Rightarrow> u64 \<Rightarrow> u64 \<Rightarrow> u64 \<Rightarrow> nat \<Rightarrow> Impl \<Rightarrow> page_fault + u64 \<times> Impl" where
  "im_Initialize D intended_size data_ptr address sz management management_end p im =
    (let ref_count_size = sz div PageSize * 2;
         optimize_map_size = CalculateOptimizedProcessOverheadSize sz;
         manager_size = AlignUp_u64 (optimize_map_size + ref_count_size) PageSize;
         page_heap_size = of_nat (CalculateManagementOverheadSize sz);
         total_management_size = manager_size + page_heap_size in
     bindF (page_assert D (manager_size \<le> total_management_size)) (\<lambda>_.
     bindF (page_assert D (management + total_management_size \<le> management_end)) (\<lambda>_.
     bindF (page_assert D (total_management_size AND (PageSize - 1) = 0)) (\<lambda>_.
     let im = im\<lparr>m_pool := p, m_management_region := management,
           m_page_reference_counts := refs_resize (unat (intended_size div PageSize)) (m_page_reference_counts im)\<rparr> in
     bindF (page_assert D (m_management_region im AND (PageSize - 1) = 0)) (\<lambda>_.
     bindF (hp_Initialize D data_ptr address sz (management + manager_size) page_heap_size (im_heap im)) (\<lambda>hp.
     Inr (total_management_size, im\<lparr>im_heap := hp\<rparr>)))))))"

definition im_result :: "Impl \<Rightarrow> (page_fault + u64 \<times> KPageHeap) option \<Rightarrow> (page_fault + u64 \<times> Impl) option" where
  "im_result im r = bindO r (\<lambda>(addr, hp). Some (Inr (addr, im\<lparr>im_heap := hp\<rparr>)))"

text \<open>A negative index is one before the array of block sizes.\<close>

definition im_AllocateBlock :: "bool \<Rightarrow> int \<Rightarrow> bool \<Rightarrow> Impl \<Rightarrow> (page_fault + u64 \<times> Impl) option" where
  "im_AllocateBlock D index random im =
    (if index < 0 then Some (Inl PageOutOfBounds) else im_result im (AllocateBlock D (nat index) random (im_heap im)))"

definition im_AllocateAligned :: "bool \<Rightarrow> int \<Rightarrow> u64 \<Rightarrow> u64 \<Rightarrow> Impl \<Rightarrow> (page_fault + u64 \<times> Impl) option" where
  "im_AllocateAligned D index num_pages align_pages im =
    (if index < 0 then Some (Inl PageOutOfBounds)
     else im_result im (AllocateAligned D (nat index) num_pages align_pages (im_heap im)))"

definition im_Free :: "bool \<Rightarrow> u64 \<Rightarrow> u64 \<Rightarrow> Impl \<Rightarrow> (page_fault + Impl) option" where
  "im_Free D addr num_pages im = bindO (heap_Free D addr num_pages (im_heap im)) (\<lambda>hp. Some (Inr (im\<lparr>im_heap := hp\<rparr>)))"

definition SetInitialUsedHeapSize :: "bool \<Rightarrow> u64 \<Rightarrow> Impl \<Rightarrow> page_fault + Impl" where
  "SetInitialUsedHeapSize D reserved_size im =
    bindF (SetInitialUsedSize D reserved_size (im_heap im)) (\<lambda>hp. Inr (im\<lparr>im_heap := hp\<rparr>))"

text \<open>The pages from \<open>index\<close> to \<open>end\<close>, none if the sum wraps.\<close>

definition page_span :: "u64 \<Rightarrow> u64 \<Rightarrow> KPageHeap \<Rightarrow> nat \<times> nat" where
  "page_span address num_pages hp =
    (let index = GetPageOffset hp address; finish = index + num_pages in (unat finish - unat index, unat index))"

fun open_loop :: "bool \<Rightarrow> (u16 \<Rightarrow> bool) \<Rightarrow> nat \<Rightarrow> nat \<Rightarrow> u16 list \<Rightarrow> page_fault + u16 list" where
  "open_loop D ok 0 index refs = Inr refs"
| "open_loop D ok (Suc n) index refs =
    bindF (arr_get PageOutOfBounds refs index) (\<lambda>r.
    let ref_count = r + 1 in
    bindF (page_assert D (ok ref_count)) (\<lambda>_.
    open_loop D ok n (index + 1) (refs[index := ref_count])))"

definition im_open :: "bool \<Rightarrow> (u16 \<Rightarrow> bool) \<Rightarrow> u64 \<Rightarrow> u64 \<Rightarrow> Impl \<Rightarrow> page_fault + Impl" where
  "im_open D ok address num_pages im =
    (let (n, index) = page_span address num_pages (im_heap im) in
     bindF (open_loop D ok n index (m_page_reference_counts im)) (\<lambda>refs. Inr (im\<lparr>m_page_reference_counts := refs\<rparr>)))"

definition im_OpenFirst :: "bool \<Rightarrow> u64 \<Rightarrow> u64 \<Rightarrow> Impl \<Rightarrow> page_fault + Impl" where
  "im_OpenFirst D address num_pages im = im_open D (\<lambda>ref_count. ref_count = 1) address num_pages im"

definition im_Open :: "bool \<Rightarrow> u64 \<Rightarrow> u64 \<Rightarrow> Impl \<Rightarrow> page_fault + Impl" where
  "im_Open D address num_pages im = im_open D (\<lambda>ref_count. ref_count > 1) address num_pages im"

definition free_run :: "bool \<Rightarrow> nat \<Rightarrow> nat \<Rightarrow> Impl \<Rightarrow> (page_fault + Impl) option" where
  "free_run D free_start free_count im =
    (if free_count > 0 then im_Free D (hp_heap_address (im_heap im) + of_nat free_start * PageSize) (of_nat free_count) im
     else Some (Inr im))"

fun close_loop :: "bool \<Rightarrow> nat \<Rightarrow> nat \<Rightarrow> nat \<Rightarrow> nat \<Rightarrow> Impl \<Rightarrow> (page_fault + Impl) option" where
  "close_loop D 0 index free_start free_count im = free_run D free_start free_count im"
| "close_loop D (Suc n) index free_start free_count im =
    bindO (Some (arr_get PageOutOfBounds (m_page_reference_counts im) index)) (\<lambda>r.
    bindO (Some (page_assert D (r > 0))) (\<lambda>_.
    let ref_count = r - 1; im = im\<lparr>m_page_reference_counts := (m_page_reference_counts im)[index := ref_count]\<rparr> in
    if ref_count = 0 then
      if free_count > 0 then close_loop D n (index + 1) free_start (free_count + 1) im
      else close_loop D n (index + 1) index 1 im
    else
      bindO (free_run D free_start free_count im) (\<lambda>im.
      close_loop D n (index + 1) free_start 0 im)))"

definition im_Close :: "bool \<Rightarrow> u64 \<Rightarrow> u64 \<Rightarrow> Impl \<Rightarrow> (page_fault + Impl) option" where
  "im_Close D address num_pages im =
    (let (n, index) = page_span address num_pages (im_heap im) in close_loop D n index 0 0 im)"

section \<open>Optimized memory\<close>

definition im_InitializeOptimizedMemory :: "Impl \<Rightarrow> Impl" where
  "im_InitializeOptimizedMemory im =
    (let n = unat (CalculateOptimizedProcessOverheadSize (m_heap_size (im_heap im)) div 8)
     in im\<lparr>optimize_map := replicate (min n (length (optimize_map im))) 0 @ drop n (optimize_map im)\<rparr>)"

fun track_loop :: "(u64 \<Rightarrow> u64 \<Rightarrow> u64) \<Rightarrow> nat \<Rightarrow> nat \<Rightarrow> u64 list \<Rightarrow> page_fault + u64 list" where
  "track_loop f 0 offset m = Inr m"
| "track_loop f (Suc n) offset m =
    bindF (arr_get PageOutOfBounds m (offset div 64)) (\<lambda>w.
    track_loop f n (offset + 1) (m[offset div 64 := f w (push_bit (offset mod 64) 1)]))"

text \<open>The pages from \<open>offset\<close> to \<open>last\<close>.\<close>

definition track_span :: "u64 \<Rightarrow> u64 \<Rightarrow> KPageHeap \<Rightarrow> nat \<times> nat" where
  "track_span block num_pages hp =
    (let offset = GetPageOffset hp block; last = offset + num_pages - 1 in (unat last + 1 - unat offset, unat offset))"

definition TrackUnoptimizedAllocation :: "u64 \<Rightarrow> u64 \<Rightarrow> Impl \<Rightarrow> page_fault + Impl" where
  "TrackUnoptimizedAllocation block num_pages im =
    (let (n, offset) = track_span block num_pages (im_heap im) in
     bindF (track_loop (\<lambda>w b. w AND NOT b) n offset (optimize_map im)) (\<lambda>m. Inr (im\<lparr>optimize_map := m\<rparr>)))"

definition TrackOptimizedAllocation :: "u64 \<Rightarrow> u64 \<Rightarrow> Impl \<Rightarrow> page_fault + Impl" where
  "TrackOptimizedAllocation block num_pages im =
    (let (n, offset) = track_span block num_pages (im_heap im) in
     bindF (track_loop (\<lambda>w b. w OR b) n offset (optimize_map im)) (\<lambda>m. Inr (im\<lparr>optimize_map := m\<rparr>)))"

type_synonym fill = "u64 \<times> u64 \<times> u8"

fun process_loop :: "u64 \<Rightarrow> u8 \<Rightarrow> nat \<Rightarrow> nat \<Rightarrow> u64 list \<Rightarrow> bool \<Rightarrow> fill list \<Rightarrow> page_fault + bool \<times> fill list" where
  "process_loop heap_address fill_pattern 0 offset m any_new fills = Inr (any_new, fills)"
| "process_loop heap_address fill_pattern (Suc n) offset m any_new fills =
    bindF (arr_get PageOutOfBounds m (offset div 64)) (\<lambda>w.
    if w AND push_bit (offset mod 64) 1 = 0
    then process_loop heap_address fill_pattern n (offset + 1) m True
      (fills @ [(heap_address + of_nat offset * PageSize, PageSize, fill_pattern)])
    else process_loop heap_address fill_pattern n (offset + 1) m any_new fills)"

definition ProcessOptimizedAllocation :: "u64 \<Rightarrow> u64 \<Rightarrow> u8 \<Rightarrow> Impl \<Rightarrow> page_fault + bool \<times> fill list" where
  "ProcessOptimizedAllocation block num_pages fill_pattern im =
    (let (n, offset) = track_span block num_pages (im_heap im)
     in process_loop (hp_heap_address (im_heap im)) fill_pattern n offset (optimize_map im) False [])"

section \<open>All managers\<close>

record KMemoryManager =
  mm_physical_tree :: "KMemoryRegion list"
  mm_linear_tree :: "KMemoryRegion list"
  m_pool_managers_head :: "nat option list"
  m_pool_managers_tail :: "nat option list"
  m_managers :: "Impl list"
  m_num_managers :: nat
  m_optimized_process_ids :: "u64 list"
  m_has_optimized_process :: "bool list"
  mm_fills :: "fill list"

definition mm_impl :: "KMemoryManager \<Rightarrow> nat \<Rightarrow> page_fault + Impl" where
  "mm_impl mm i = arr_get PageOutOfBounds (m_managers mm) i"

definition mm_set :: "nat \<Rightarrow> Impl \<Rightarrow> KMemoryManager \<Rightarrow> KMemoryManager" where
  "mm_set i im mm = mm\<lparr>m_managers := (m_managers mm)[i := im]\<rparr>"

definition on_impl :: "(Impl \<Rightarrow> (page_fault + Impl) option) \<Rightarrow> nat \<Rightarrow> KMemoryManager \<Rightarrow> (page_fault + KMemoryManager) option" where
  "on_impl f i mm = bindO (Some (mm_impl mm i)) (\<lambda>im. bindO (f im) (\<lambda>im. Some (Inr (mm_set i im mm))))"

text \<open>Taking the lock of a pool only checks its number.\<close>

definition pool_lock :: "nat \<Rightarrow> page_fault + unit" where
  "pool_lock pool = (if pool < PoolCount then Inr () else Inl PageOutOfBounds)"

definition GetManager :: "bool \<Rightarrow> u64 \<Rightarrow> KMemoryManager \<Rightarrow> page_fault + nat" where
  "GetManager D address mm =
    (case tree_Find address (mm_linear_tree mm) of
       None \<Rightarrow> Inl (if D then PageAssertFailed else NullStorage)
     | Some r \<Rightarrow> Inr (unat (rg_attributes r)))"

definition mm_GetPool :: "bool \<Rightarrow> u64 \<Rightarrow> KMemoryManager \<Rightarrow> page_fault + nat" where
  "mm_GetPool D address mm = bindF (GetManager D address mm) (\<lambda>i. bindF (mm_impl mm i) (\<lambda>im. Inr (m_pool im)))"

definition EncodeOption :: "u32 \<Rightarrow> u32 \<Rightarrow> u32" where
  "EncodeOption pool dir = push_bit 4 pool OR push_bit 0 dir"

definition option_GetPool :: "u32 \<Rightarrow> nat" where
  "option_GetPool option = unat (drop_bit 4 (option AND push_bit 4 0xF))"

definition option_GetDirection :: "u32 \<Rightarrow> nat" where
  "option_GetDirection option = unat (drop_bit 0 (option AND push_bit 0 0xF))"

definition GetFirstManager :: "nat \<Rightarrow> nat \<Rightarrow> KMemoryManager \<Rightarrow> page_fault + nat option" where
  "GetFirstManager pool dir mm =
    arr_get PageOutOfBounds (if dir = 1 then m_pool_managers_tail mm else m_pool_managers_head mm) pool"

definition GetNextManager :: "nat \<Rightarrow> nat \<Rightarrow> KMemoryManager \<Rightarrow> page_fault + nat option" where
  "GetNextManager cur dir mm = bindF (mm_impl mm cur) (\<lambda>im. Inr (if dir = 1 then im_prev im else im_next im))"

text \<open>The loops over the managers of a pool. The body says whether to break; the result is the manager the loop stopped at.\<close>

definition pool_loop :: "nat \<Rightarrow> (nat \<Rightarrow> 's \<Rightarrow> (page_fault + bool \<times> 's) option) \<Rightarrow> ('s \<Rightarrow> KMemoryManager) \<Rightarrow> nat option \<Rightarrow> 's
    \<Rightarrow> (page_fault + nat option \<times> 's) option" where
  "pool_loop dir body mm_of start s =
    bindO (loop_opt (\<lambda>(cur, stop, s). cur \<noteq> None \<and> \<not> stop)
      (\<lambda>(cur, stop, s). bindO (body (the cur) s) (\<lambda>(stop, s).
         if stop then Some (Inr (cur, True, s))
         else bindO (Some (GetNextManager (the cur) dir (mm_of s))) (\<lambda>nxt. Some (Inr (nxt, False, s)))))
      (start, False, s)) (\<lambda>(cur, stop, s). Some (Inr (cur, s)))"

section \<open>Reference counts\<close>

text \<open>Going through the managers of a range of pages.\<close>

definition each_manager :: "bool \<Rightarrow> (u64 \<Rightarrow> u64 \<Rightarrow> nat \<Rightarrow> KMemoryManager \<Rightarrow> (page_fault + KMemoryManager) option) \<Rightarrow> u64 \<Rightarrow> u64 \<Rightarrow> KMemoryManager
    \<Rightarrow> (page_fault + KMemoryManager) option" where
  "each_manager D f address num_pages mm =
    bindO (loop_opt (\<lambda>(address, num_pages, mm). num_pages \<noteq> 0)
      (\<lambda>(address, num_pages, mm).
         bindO (Some (GetManager D address mm)) (\<lambda>i.
         bindO (Some (mm_impl mm i)) (\<lambda>im.
         let cur_pages = min num_pages (GetPageOffsetToEnd (im_heap im) address) in
         bindO (f address cur_pages i mm) (\<lambda>mm.
         Some (Inr (address + cur_pages * PageSize, num_pages - cur_pages, mm))))))
      (address, num_pages, mm)) (\<lambda>(_, _, mm). Some (Inr mm))"

definition locked :: "(u64 \<Rightarrow> u64 \<Rightarrow> Impl \<Rightarrow> (page_fault + Impl) option) \<Rightarrow> u64 \<Rightarrow> u64 \<Rightarrow> nat \<Rightarrow> KMemoryManager
    \<Rightarrow> (page_fault + KMemoryManager) option" where
  "locked f address cur_pages i mm = on_impl (\<lambda>im. bindO (Some (pool_lock (m_pool im))) (\<lambda>_. f address cur_pages im)) i mm"

definition mm_Open :: "bool \<Rightarrow> u64 \<Rightarrow> u64 \<Rightarrow> KMemoryManager \<Rightarrow> (page_fault + KMemoryManager) option" where
  "mm_Open D = each_manager D (locked (\<lambda>address n im. Some (im_Open D address n im)))"

definition mm_OpenFirst :: "bool \<Rightarrow> u64 \<Rightarrow> u64 \<Rightarrow> KMemoryManager \<Rightarrow> (page_fault + KMemoryManager) option" where
  "mm_OpenFirst D = each_manager D (locked (\<lambda>address n im. Some (im_OpenFirst D address n im)))"

definition mm_Close :: "bool \<Rightarrow> u64 \<Rightarrow> u64 \<Rightarrow> KMemoryManager \<Rightarrow> (page_fault + KMemoryManager) option" where
  "mm_Close D = each_manager D (locked (im_Close D))"

section \<open>Sizes\<close>

fun size_loop :: "(Impl \<Rightarrow> page_fault + u64) \<Rightarrow> nat \<Rightarrow> nat \<Rightarrow> u64 \<Rightarrow> KMemoryManager \<Rightarrow> page_fault + u64" where
  "size_loop f 0 i sum_size mm = Inr sum_size"
| "size_loop f (Suc n) i sum_size mm = bindF (mm_impl mm i) (\<lambda>im. bindF (f im) (\<lambda>x. size_loop f n (i + 1) (sum_size + x) mm))"

definition mm_GetSize :: "KMemoryManager \<Rightarrow> page_fault + u64" where
  "mm_GetSize mm = size_loop (\<lambda>im. Inr (m_heap_size (im_heap im))) (m_num_managers mm) 0 0 mm"

definition mm_GetFreeSize :: "KMemoryManager \<Rightarrow> page_fault + u64" where
  "mm_GetFreeSize mm = size_loop (\<lambda>im. bindF (pool_lock (m_pool im)) (\<lambda>_. GetFreeSize (im_heap im))) (m_num_managers mm) 0 0 mm"

definition pool_size :: "(Impl \<Rightarrow> page_fault + u64) \<Rightarrow> nat \<Rightarrow> KMemoryManager \<Rightarrow> (page_fault + u64) option" where
  "pool_size f pool mm =
    bindO (Some (GetFirstManager pool 0 mm)) (\<lambda>first.
    bindO (pool_loop 0 (\<lambda>cur sum_size. Some (bindF (mm_impl mm cur) (\<lambda>im. bindF (f im) (\<lambda>x. Inr (False, sum_size + x))))) (\<lambda>_. mm) first 0) (\<lambda>(_, sum_size).
    Some (Inr sum_size)))"

definition pool_GetSize :: "nat \<Rightarrow> KMemoryManager \<Rightarrow> (page_fault + u64) option" where
  "pool_GetSize pool mm = pool_size (\<lambda>im. Inr (m_heap_size (im_heap im))) pool mm"

definition pool_GetFreeSize :: "nat \<Rightarrow> KMemoryManager \<Rightarrow> (page_fault + u64) option" where
  "pool_GetFreeSize pool mm = bindO (Some (pool_lock pool)) (\<lambda>_. pool_size (\<lambda>im. GetFreeSize (im_heap im)) pool mm)"

section \<open>Optimized processes\<close>

definition InitializeOptimizedMemory :: "u64 \<Rightarrow> nat \<Rightarrow> KMemoryManager \<Rightarrow> (page_fault + mm_result \<times> KMemoryManager) option" where
  "InitializeOptimizedMemory process_id pool mm =
    bindO (Some (pool_lock pool)) (\<lambda>_.
    bindO (Some (arr_get PageOutOfBounds (m_has_optimized_process mm) pool)) (\<lambda>has.
    if has then Some (Inr (ResultBusy, mm))
    else
      let mm = mm\<lparr>m_optimized_process_ids := (m_optimized_process_ids mm)[pool := process_id],
            m_has_optimized_process := (m_has_optimized_process mm)[pool := True]\<rparr> in
      bindO (Some (GetFirstManager pool 0 mm)) (\<lambda>first.
      bindO (pool_loop 0 (\<lambda>cur mm. bindO (on_impl (\<lambda>im. Some (Inr (im_InitializeOptimizedMemory im))) cur mm) (\<lambda>mm. Some (Inr (False, mm)))) id first mm) (\<lambda>(_, mm).
      Some (Inr (ResultSuccess, mm))))))"

definition FinalizeOptimizedMemory :: "u64 \<Rightarrow> nat \<Rightarrow> KMemoryManager \<Rightarrow> page_fault + KMemoryManager" where
  "FinalizeOptimizedMemory process_id pool mm =
    bindF (pool_lock pool) (\<lambda>_.
    bindF (arr_get PageOutOfBounds (m_has_optimized_process mm) pool) (\<lambda>has.
    bindF (arr_get PageOutOfBounds (m_optimized_process_ids mm) pool) (\<lambda>pid.
    if has \<and> pid = process_id then Inr (mm\<lparr>m_has_optimized_process := (m_has_optimized_process mm)[pool := False]\<rparr>)
    else Inr mm)))"

section \<open>Allocation\<close>

definition AllocateAndOpenContinuous :: "bool \<Rightarrow> u64 \<Rightarrow> u64 \<Rightarrow> u32 \<Rightarrow> KMemoryManager \<Rightarrow> (page_fault + u64 \<times> KMemoryManager) option" where
  "AllocateAndOpenContinuous D num_pages align_pages option mm =
    (if num_pages = 0 then Some (Inr (0, mm))
     else
       let pool = option_GetPool option; dir = option_GetDirection option in
       bindO (Some (pool_lock pool)) (\<lambda>_.
       let heap_index = GetAlignedBlockIndex num_pages align_pages in
       bindO (Some (GetFirstManager pool dir mm)) (\<lambda>first.
       bindO (pool_loop dir (\<lambda>cur (_, mm).
           bindO (Some (mm_impl mm cur)) (\<lambda>im.
           bindO (im_AllocateAligned D heap_index num_pages align_pages im) (\<lambda>(addr, im).
           Some (Inr (addr \<noteq> 0, (addr, mm_set cur im mm)))))) snd first (0, mm)) (\<lambda>(chosen, allocated_block, mm).
       if allocated_block = 0 then Some (Inr (0, mm))
       else
         bindO (Some (arr_get PageOutOfBounds (m_has_optimized_process mm) pool)) (\<lambda>has.
         bindO (if has then on_impl (\<lambda>im. Some (TrackUnoptimizedAllocation allocated_block num_pages im)) (the chosen) mm else Some (Inr mm)) (\<lambda>mm.
         bindO (on_impl (\<lambda>im. Some (im_OpenFirst D allocated_block num_pages im)) (the chosen) mm) (\<lambda>mm.
         Some (Inr (allocated_block, mm)))))))))"

record group_state =
  gs_result :: mm_result
  gs_num_pages :: u64
  gs_group :: KPageGroup
  gs_mm :: KMemoryManager

text \<open>One block of the page group: the flag is set when the manager has no block left. A block that cannot be added is freed again.\<close>

definition group_block :: "bool \<Rightarrow> bool \<Rightarrow> bool \<Rightarrow> nat \<Rightarrow> nat \<Rightarrow> group_state \<Rightarrow> (page_fault + bool \<times> group_state) option" where
  "group_block D unoptimized random index cur_manager gs =
    bindO (Some (mm_impl (gs_mm gs) cur_manager)) (\<lambda>im.
    bindO (im_AllocateBlock D (int index) random im) (\<lambda>(allocated_block, im).
    let pages_per_alloc = GetBlockNumPages index; mm = mm_set cur_manager im (gs_mm gs); gs = gs\<lparr>gs_mm := mm\<rparr> in
    if allocated_block = 0 then Some (Inr (True, gs))
    else
      bindO (Some (AddBlock D allocated_block pages_per_alloc (gs_group gs))) (\<lambda>(res, pg).
      let gs = gs\<lparr>gs_group := pg, gs_result := res\<rparr> in
      if res \<noteq> ResultSuccess then
        bindO (on_impl (im_Free D allocated_block pages_per_alloc) cur_manager mm) (\<lambda>mm. Some (Inr (True, gs\<lparr>gs_mm := mm\<rparr>)))
      else
        bindO (if unoptimized then on_impl (\<lambda>im. Some (TrackUnoptimizedAllocation allocated_block pages_per_alloc im)) cur_manager mm
               else Some (Inr mm)) (\<lambda>mm.
        Some (Inr (False, gs\<lparr>gs_mm := mm, gs_num_pages := gs_num_pages gs - pages_per_alloc\<rparr>))))))"

definition group_manager :: "bool \<Rightarrow> bool \<Rightarrow> bool \<Rightarrow> nat \<Rightarrow> nat \<Rightarrow> group_state \<Rightarrow> (page_fault + bool \<times> group_state) option" where
  "group_manager D unoptimized random index cur_manager gs =
    bindO (loop_opt (\<lambda>(stop, gs). gs_num_pages gs \<ge> GetBlockNumPages index \<and> \<not> stop)
      (\<lambda>(stop, gs). group_block D unoptimized random index cur_manager gs) (False, gs)) (\<lambda>(_, gs).
    Some (Inr (gs_result gs \<noteq> ResultSuccess, gs)))"

fun group_levels :: "bool \<Rightarrow> bool \<Rightarrow> bool \<Rightarrow> nat \<Rightarrow> nat \<Rightarrow> nat \<Rightarrow> group_state \<Rightarrow> (page_fault + group_state) option" where
  "group_levels D unoptimized random pool dir 0 gs = Some (Inr gs)"
| "group_levels D unoptimized random pool dir (Suc index) gs =
    (if gs_num_pages gs > 0 \<and> gs_result gs = ResultSuccess then
       bindO (Some (GetFirstManager pool dir (gs_mm gs))) (\<lambda>first.
       bindO (pool_loop dir (group_manager D unoptimized random index) gs_mm first gs) (\<lambda>(_, gs).
       group_levels D unoptimized random pool dir index gs))
     else Some (Inr gs))"

fun free_group :: "bool \<Rightarrow> KBlockInfo list \<Rightarrow> KMemoryManager \<Rightarrow> (page_fault + KMemoryManager) option" where
  "free_group D [] mm = Some (Inr mm)"
| "free_group D (it # its) mm =
    bindO (Some (GetManager D (info_GetAddress it) mm)) (\<lambda>i.
    bindO (Some (mm_impl mm i)) (\<lambda>im.
    let node_num_pages = min (node_GetNumPages it) ((hp_GetEndAddress (im_heap im) - info_GetAddress it) div PageSize) in
    bindO (on_impl (im_Free D (info_GetAddress it) node_num_pages) i mm) (\<lambda>mm.
    free_group D its mm)))"

definition AllocatePageGroupImpl :: "bool \<Rightarrow> u64 \<Rightarrow> nat \<Rightarrow> nat \<Rightarrow> bool \<Rightarrow> bool \<Rightarrow> KPageGroup \<Rightarrow> KMemoryManager
    \<Rightarrow> (page_fault + mm_result \<times> KPageGroup \<times> KMemoryManager) option" where
  "AllocatePageGroupImpl D num_pages pool dir unoptimized random out mm =
    (let heap_index = GetBlockIndex num_pages in
     if heap_index < 0 then Some (Inr (ResultOutOfMemory, out, mm))
     else
       bindO (group_levels D unoptimized random pool dir (nat heap_index + 1)
         \<lparr>gs_result = ResultSuccess, gs_num_pages = num_pages, gs_group = out, gs_mm = mm\<rparr>) (\<lambda>gs.
       let res = (if gs_result gs = ResultSuccess \<and> gs_num_pages gs \<noteq> 0 then ResultOutOfMemory else gs_result gs) in
       if res = ResultSuccess then Some (Inr (res, gs_group gs, gs_mm gs))
       else
         bindO (free_group D (pg_blocks (gs_group gs)) (gs_mm gs)) (\<lambda>mm.
         Some (Inr (res, group_Finalize (gs_group gs), mm)))))"

text \<open>The blocks of a group, each through its managers.\<close>

fun each_block :: "(u64 \<Rightarrow> u64 \<Rightarrow> KMemoryManager \<Rightarrow> (page_fault + KMemoryManager) option) \<Rightarrow> KBlockInfo list \<Rightarrow> KMemoryManager
    \<Rightarrow> (page_fault + KMemoryManager) option" where
  "each_block f [] mm = Some (Inr mm)"
| "each_block f (b # bs) mm = bindO (f (info_GetAddress b) (node_GetNumPages b) mm) (\<lambda>mm. each_block f bs mm)"

definition AllocateAndOpen :: "bool \<Rightarrow> u64 \<Rightarrow> u32 \<Rightarrow> KPageGroup \<Rightarrow> KMemoryManager
    \<Rightarrow> (page_fault + mm_result \<times> KPageGroup \<times> KMemoryManager) option" where
  "AllocateAndOpen D num_pages option out mm =
    bindO (Some (page_assert D (group_GetNumPages out = 0))) (\<lambda>_.
    if num_pages = 0 then Some (Inr (ResultSuccess, out, mm))
    else
      let pool = option_GetPool option; dir = option_GetDirection option in
      bindO (Some (pool_lock pool)) (\<lambda>_.
      bindO (Some (arr_get PageOutOfBounds (m_has_optimized_process mm) pool)) (\<lambda>has.
      bindO (AllocatePageGroupImpl D num_pages pool dir has True out mm) (\<lambda>(res, out, mm).
      if res \<noteq> ResultSuccess then Some (Inr (res, out, mm))
      else
        bindO (each_block (each_manager D (\<lambda>address n i mm. on_impl (\<lambda>im. Some (im_OpenFirst D address n im)) i mm)) (pg_blocks out) mm) (\<lambda>mm.
        Some (Inr (ResultSuccess, out, mm)))))))"

definition process_pages :: "bool \<Rightarrow> u8 \<Rightarrow> u64 \<Rightarrow> u64 \<Rightarrow> KMemoryManager \<Rightarrow> (page_fault + bool \<times> KMemoryManager) option" where
  "process_pages D fill_pattern block_address block_pages mm =
    bindO (loop_opt (\<lambda>(address, remaining, any_new, mm). remaining > 0)
      (\<lambda>(address, remaining, any_new, mm).
         bindO (Some (GetManager D address mm)) (\<lambda>i.
         bindO (Some (mm_impl mm i)) (\<lambda>im.
         let cur_pages = min remaining (GetPageOffsetToEnd (im_heap im) address) in
         bindO (Some (ProcessOptimizedAllocation address cur_pages fill_pattern im)) (\<lambda>(any_new, fills).
         Some (Inr (address + cur_pages * PageSize, remaining - cur_pages, any_new, mm\<lparr>mm_fills := mm_fills mm @ fills\<rparr>))))))
      (block_address, block_pages, False, mm)) (\<lambda>(_, _, any_new, mm). Some (Inr (any_new, mm)))"

definition optimize_block :: "bool \<Rightarrow> u8 \<Rightarrow> u64 \<Rightarrow> u64 \<Rightarrow> KMemoryManager \<Rightarrow> (page_fault + KMemoryManager) option" where
  "optimize_block D fill_pattern block_address block_pages mm =
    (if block_pages = 0 then Some (Inr mm)
     else
       bindO (process_pages D fill_pattern block_address block_pages mm) (\<lambda>(any_new, mm).
       if any_new then each_manager D (locked (\<lambda>address n im. Some (TrackOptimizedAllocation address n im))) block_address block_pages mm
       else Some (Inr mm)))"

definition DramBase :: u64 where "DramBase = 0x80000000"

text \<open>The last loop fills the blocks through the host's buffer, at offsets from the base of the memory.\<close>

definition AllocateForProcess :: "bool \<Rightarrow> u64 \<Rightarrow> u32 \<Rightarrow> u64 \<Rightarrow> u8 \<Rightarrow> KPageGroup \<Rightarrow> KMemoryManager
    \<Rightarrow> (page_fault + mm_result \<times> KPageGroup \<times> KMemoryManager) option" where
  "AllocateForProcess D num_pages option process_id fill_pattern out mm =
    bindO (Some (page_assert D (group_GetNumPages out = 0))) (\<lambda>_.
    let pool = option_GetPool option; dir = option_GetDirection option in
    bindO (Some (pool_lock pool)) (\<lambda>_.
    bindO (Some (arr_get PageOutOfBounds (m_has_optimized_process mm) pool)) (\<lambda>has_optimized.
    bindO (Some (arr_get PageOutOfBounds (m_optimized_process_ids mm) pool)) (\<lambda>pid.
    let is_optimized = (pid = process_id) in
    bindO (AllocatePageGroupImpl D num_pages pool dir (has_optimized \<and> \<not> is_optimized) False out mm) (\<lambda>(res, out, mm).
    if res \<noteq> ResultSuccess then Some (Inr (res, out, mm))
    else if has_optimized \<and> is_optimized then
      bindO (each_block (optimize_block D fill_pattern) (pg_blocks out) mm) (\<lambda>mm. Some (Inr (ResultSuccess, out, mm)))
    else
      Some (Inr (ResultSuccess, out,
        mm\<lparr>mm_fills := mm_fills mm @ map (\<lambda>b. (info_GetAddress b - DramBase, node_GetSize b, fill_pattern)) (pg_blocks out)\<rparr>)))))))"

section \<open>Page groups\<close>

definition group_Open :: "bool \<Rightarrow> KPageGroup \<Rightarrow> KMemoryManager \<Rightarrow> (page_fault + KMemoryManager) option" where
  "group_Open D pg mm = each_block (mm_Open D) (pg_blocks pg) mm"

definition group_OpenFirst :: "bool \<Rightarrow> KPageGroup \<Rightarrow> KMemoryManager \<Rightarrow> (page_fault + KMemoryManager) option" where
  "group_OpenFirst D pg mm = each_block (mm_OpenFirst D) (pg_blocks pg) mm"

definition group_Close :: "bool \<Rightarrow> KPageGroup \<Rightarrow> KMemoryManager \<Rightarrow> (page_fault + KMemoryManager) option" where
  "group_Close D pg mm = each_block (mm_Close D) (pg_blocks pg) mm"

definition CloseAndReset :: "bool \<Rightarrow> KPageGroup \<Rightarrow> KMemoryManager \<Rightarrow> (page_fault + KPageGroup \<times> KMemoryManager) option" where
  "CloseAndReset D pg mm = bindO (each_block (mm_Close D) (pg_blocks pg) mm) (\<lambda>mm. Some (Inr (group_Finalize pg, mm)))"

text \<open>A scope opens a group when it is entered and closes it when it is left, unless that was cancelled. The value is the group that is left to close.\<close>

definition scoped_enter :: "bool \<Rightarrow> KPageGroup option \<Rightarrow> bool \<Rightarrow> KMemoryManager \<Rightarrow> (page_fault + KPageGroup option \<times> KMemoryManager) option" where
  "scoped_enter D gp not_first mm = (case gp of
      None \<Rightarrow> Some (Inr (None, mm))
    | Some pg \<Rightarrow> bindO (if not_first then group_Open D pg mm else group_OpenFirst D pg mm) (\<lambda>mm. Some (Inr (Some pg, mm))))"

definition scoped_leave :: "bool \<Rightarrow> KPageGroup option \<Rightarrow> KMemoryManager \<Rightarrow> (page_fault + KMemoryManager) option" where
  "scoped_leave D gp mm = (case gp of None \<Rightarrow> Some (Inr mm) | Some pg \<Rightarrow> group_Close D pg mm)"

definition CancelClose :: "KPageGroup option \<Rightarrow> KPageGroup option" where
  "CancelClose gp = None"

section \<open>Initialization\<close>

fun scan_regions :: "bool \<Rightarrow> nat \<Rightarrow> KMemoryRegion list \<Rightarrow> u64 \<Rightarrow> u64 \<Rightarrow> nat \<Rightarrow> page_fault + u64 \<times> u64 \<times> nat" where
  "scan_regions D k [] region_address region_size region_pool = Inr (region_address, region_size, region_pool)"
| "scan_regions D k (it # its) region_address region_size region_pool =
    (if \<not> rg_IsDerivedFrom DramUserPool it \<or> unat (rg_attributes it) \<noteq> k
     then scan_regions D k its region_address region_size region_pool
     else
       bindF (page_assert D (rg_GetEndAddress it \<noteq> 0)) (\<lambda>_.
       bindF (page_assert D (rg_address it \<noteq> 0)) (\<lambda>_.
       bindF (page_assert D (rg_GetSize it > 0)) (\<lambda>_.
       bindF (GetPoolFromMemoryRegionType (rg_type_id it)) (\<lambda>pool.
       if region_address = 0 then scan_regions D k its (rg_address it) (rg_GetSize it) pool
       else
         bindF (page_assert D (rg_address it = region_address + region_size)) (\<lambda>_.
         bindF (page_assert D (pool = region_pool)) (\<lambda>_.
         scan_regions D k its region_address (rg_GetEndAddress it - region_address) region_pool)))))))"

definition link_manager :: "nat \<Rightarrow> nat \<Rightarrow> KMemoryManager \<Rightarrow> page_fault + KMemoryManager" where
  "link_manager pool k mm =
    bindF (arr_get PageOutOfBounds (m_pool_managers_tail mm) pool) (\<lambda>tail.
    bindF (case tail of
        None \<Rightarrow> bindF (arr_set PageOutOfBounds (m_pool_managers_head mm) pool (Some k)) (\<lambda>hs. Inr (mm\<lparr>m_pool_managers_head := hs\<rparr>))
      | Some t \<Rightarrow>
          bindF (mm_impl mm t) (\<lambda>im.
          let mm = mm_set t (im\<lparr>im_next := Some k\<rparr>) mm in
          bindF (mm_impl mm k) (\<lambda>im. Inr (mm_set k (im\<lparr>im_prev := Some t\<rparr>) mm)))) (\<lambda>mm.
    Inr (mm\<lparr>m_pool_managers_tail := (m_pool_managers_tail mm)[pool := Some k]\<rparr>)))"

text \<open>The managers are set up in the order of their regions; \<open>n\<close> is the number that is left.\<close>

fun init_managers :: "bool \<Rightarrow> u64 \<Rightarrow> (nat \<Rightarrow> u64) \<Rightarrow> u64 \<Rightarrow> nat \<Rightarrow> u64 \<Rightarrow> KMemoryManager \<Rightarrow> page_fault + KMemoryManager" where
  "init_managers D intended_size data_ptr region_end 0 management_region mm = Inr mm"
| "init_managers D intended_size data_ptr region_end (Suc n) management_region mm =
    bindF (scan_regions D (m_num_managers mm) (mm_physical_tree mm) 0 0 PoolCount) (\<lambda>(region_address, region_size, region_pool).
    if region_size = 0 then Inr mm
    else
      let k = m_num_managers mm; mm = mm\<lparr>m_num_managers := k + 1\<rparr> in
      bindF (page_assert D (m_num_managers mm \<le> length (m_managers mm))) (\<lambda>_.
      bindF (mm_impl mm k) (\<lambda>im.
      bindF (im_Initialize D intended_size (data_ptr k) region_address region_size management_region region_end region_pool im) (\<lambda>(cur_size, im).
      let management_region = management_region + cur_size; mm = mm_set k im mm in
      bindF (page_assert D (management_region \<le> region_end)) (\<lambda>_.
      bindF (link_manager region_pool k mm) (\<lambda>mm.
      init_managers D intended_size data_ptr region_end n management_region mm))))))"

definition InitialProcessBinarySizeMax :: u64 where "InitialProcessBinarySizeMax = 12 * 1024 * 1024"

definition free_region :: "bool \<Rightarrow> u64 \<Rightarrow> KMemoryRegion \<Rightarrow> u64 list \<Rightarrow> KMemoryManager \<Rightarrow> (page_fault + u64 list \<times> KMemoryManager) option" where
  "free_region D ini_start it reserved_sizes mm =
    (let ini_size = InitialProcessBinarySizeMax; ini_end = ini_start + ini_size; ini_last = ini_end - 1;
         k = unat (rg_attributes it); cur_start = rg_address it; cur_last = rg_last_address it; cur_end = rg_GetEndAddress it in
     if cur_start \<le> ini_start \<and> ini_last \<le> cur_last then
       bindO (if cur_start \<noteq> ini_start then on_impl (im_Free D cur_start ((ini_start - cur_start) div PageSize)) k mm else Some (Inr mm)) (\<lambda>mm.
       bindO (on_impl (\<lambda>im. Some (im_OpenFirst D ini_start (ini_size div PageSize) im)) k mm) (\<lambda>mm.
       bindO (Some (arr_get PageOutOfBounds reserved_sizes k)) (\<lambda>rs.
       let reserved_sizes = reserved_sizes[k := rs + ini_size] in
       bindO (if ini_last \<noteq> cur_last then
                bindO (Some (page_assert D (cur_end \<noteq> 0))) (\<lambda>_. on_impl (im_Free D ini_end ((cur_end - ini_end) div PageSize)) k mm)
              else Some (Inr mm)) (\<lambda>mm.
       Some (Inr (reserved_sizes, mm))))))
     else
       bindO (Some (if cur_start \<le> ini_last then page_assert D (cur_last < ini_start) else page_assert D (cur_end \<noteq> 0))) (\<lambda>_.
       bindO (on_impl (im_Free D cur_start (rg_GetSize it div PageSize)) k mm) (\<lambda>mm.
       Some (Inr (reserved_sizes, mm)))))"

fun free_regions :: "bool \<Rightarrow> u64 \<Rightarrow> KMemoryRegion list \<Rightarrow> u64 list \<Rightarrow> KMemoryManager \<Rightarrow> (page_fault + u64 list \<times> KMemoryManager) option" where
  "free_regions D ini_start [] reserved_sizes mm = Some (Inr (reserved_sizes, mm))"
| "free_regions D ini_start (it # its) reserved_sizes mm =
    (if rg_IsDerivedFrom DramUserPool it
     then bindO (free_region D ini_start it reserved_sizes mm) (\<lambda>(reserved_sizes, mm). free_regions D ini_start its reserved_sizes mm)
     else free_regions D ini_start its reserved_sizes mm)"

fun used_loop :: "bool \<Rightarrow> nat \<Rightarrow> nat \<Rightarrow> u64 list \<Rightarrow> KMemoryManager \<Rightarrow> page_fault + KMemoryManager" where
  "used_loop D 0 i reserved_sizes mm = Inr mm"
| "used_loop D (Suc n) i reserved_sizes mm =
    bindF (arr_get PageOutOfBounds reserved_sizes i) (\<lambda>rs.
    bindF (mm_impl mm i) (\<lambda>im.
    bindF (SetInitialUsedHeapSize D rs im) (\<lambda>im.
    used_loop D n (i + 1) reserved_sizes (mm_set i im mm))))"

definition mm_Initialize :: "bool \<Rightarrow> u64 \<Rightarrow> (nat \<Rightarrow> u64) \<Rightarrow> u64 \<Rightarrow> u64 \<Rightarrow> u64 \<Rightarrow> KMemoryManager \<Rightarrow> (page_fault + KMemoryManager) option" where
  "mm_Initialize D intended_size data_ptr ini_start management_region management_region_size mm =
    (let region_end = management_region + management_region_size; mm = mm\<lparr>m_num_managers := 0\<rparr> in
     bindO (Some (init_managers D intended_size data_ptr region_end MaxManagerCount management_region mm)) (\<lambda>mm.
     bindO (free_regions D ini_start (mm_physical_tree mm) (replicate MaxManagerCount 0) mm) (\<lambda>(reserved_sizes, mm).
     Some (used_loop D (m_num_managers mm) 0 reserved_sizes mm))))"

end
