(* ===== verification/Bitmap_Laws.thy ===== *)
theory Bitmap_Laws
  imports Page_Bitmap
begin

text \<open>
  What the page bitmap computes. Its invariant says that the levels lie one behind another and that a bit of a level is set exactly when the
  word below it is not zero; its contents are the set bits of the lowest level. The operations act on the contents as
  operations on a set, change no word outside the bitmap, and always return.
\<close>

section \<open>Random numbers\<close>

lemma takeWhile_upt_least:
  assumes "P n" "n < m" "\<And>i. i < n \<Longrightarrow> \<not> P i"
  shows "takeWhile (\<lambda>i. \<not> P i) [0..<m] = [0..<n]"
proof -
  have "[0..<m] = [0..<n] @ n # [Suc n..<m]" using assms(2) upt_split [of 0 n m] upt_conv_Cons by simp
  moreover have "takeWhile (\<lambda>i. \<not> P i) [0..<n] = [0..<n]" using assms(3) by (simp add: takeWhile_eq_all_conv)
  ultimately show ?thesis using assms(1) by (simp add: takeWhile_append)
qed

lemma countr_zero_least:
  assumes "v \<noteq> 0"
  shows "bit v (countr_zero v)" "countr_zero v < 64" "bit v i \<Longrightarrow> countr_zero v \<le> i"
proof -
  let ?n = "LEAST i. bit v i"
  have "\<exists>i. bit v i" using assms by (metis bit_eqI bit_0_eq bot_apply bot_bool_def)
  then have n: "bit v ?n" by (rule LeastI_ex)
  have l: "?n < 64" using bit_imp_le_length [OF n] by simp
  have "takeWhile (\<lambda>i. \<not> bit v i) [0..<64] = [0..<?n]"
    using takeWhile_upt_least [of "bit v", OF n l] not_less_Least [where P = "bit v"] by blast
  then have c: "countr_zero v = ?n" by (simp only: countr_zero_def length_upt)
  then show "bit v (countr_zero v)" "countr_zero v < 64" "bit v i \<Longrightarrow> countr_zero v \<le> i"
    using n l by (simp_all only: c Least_le)
qed

lemma all_ones: "0xFFFFFFFFFFFFFFFF = (-1 :: u64)"
  by simp

lemma select_loop_bit:
  assumes "b \<noteq> 0" "\<And>i. bit b i \<Longrightarrow> i < 2 ^ n" "\<And>i. bit b i \<Longrightarrow> bit v (selected + i)"
  shows "bit v (fst (select_loop (2 ^ n div 2) b selected g))"
  using assms
proof (induction n arbitrary: b selected g)
  case 0
  then have "bit b 0" by (metis bit_eqI bit_0_eq bot_apply bot_bool_def less_one power_0)
  then show ?case using "0.prems"(3) [of 0] by (subst select_loop.simps) simp
next
  case (Suc n)
  define high where "high = drop_bit (2 ^ n) b"
  define low where "low = b AND NOT (push_bit (2 ^ n) 0xFFFFFFFFFFFFFFFF)"
  have lowbit: "bit low i \<longleftrightarrow> bit b i \<and> i < 2 ^ n" for i
    unfolding low_def all_ones by (auto simp: bit_and_iff bit_not_iff bit_push_bit_iff bit_mask_iff dest: bit_imp_le_length)
  have highbit: "bit high i \<longleftrightarrow> bit b (2 ^ n + i)" for i by (simp add: high_def bit_drop_bit_eq)
  have h: "bit v (fst (select_loop (2 ^ n div 2) high (selected + 2 ^ n) g'))" if "high \<noteq> 0" for g'
  proof (rule Suc.IH [OF that])
    show "i < 2 ^ n" if "bit high i" for i using Suc.prems(2) [of "2 ^ n + i"] that highbit by simp
    show "bit v (selected + 2 ^ n + i)" if "bit high i" for i
      using Suc.prems(3) [of "2 ^ n + i"] that highbit by (simp add: add.assoc)
  qed
  have l: "bit v (fst (select_loop (2 ^ n div 2) low selected g'))" if "low \<noteq> 0" for g'
    using Suc.IH [OF that] lowbit Suc.prems(3) by blast
  have "\<not> (high = 0 \<and> low = 0)"
  proof
    assume z: "high = 0 \<and> low = 0"
    have "\<not> bit b i" for i
      using z lowbit [of i] highbit [of "i - 2 ^ n"] by (cases "i < 2 ^ n") simp_all
    then show False using Suc.prems(1) by (metis bit_eqI bit_0_eq bot_apply bot_bool_def)
  qed
  then show ?case
    using h l by (subst select_loop.simps) (simp add: Let_def case_prod_beta flip: high_def low_def)
qed

lemma SelectRandomBit_bit: "v \<noteq> 0 \<Longrightarrow> bit v (fst (SelectRandomBit v g)) \<and> fst (SelectRandomBit v g) < 64"
  using select_loop_bit [of v 6 v 0 g] bit_imp_le_length [of v]
  by (auto simp: SelectRandomBit_def dest: bit_imp_le_length)

text \<open>Up to 30 bits are drawn without the undefined shift of the entropy, and the result is below the bound.\<close>

definition gen_ok :: "RandomBitGenerator \<Rightarrow> bool" where
  "gen_ok g \<longleftrightarrow> m_bits_available g \<le> 32"

lemma refresh_available: "m_bits_available (RefreshEntropy g) = 32"
  by (simp add: RefreshEntropy_def case_prod_beta)

lemma random_bits_loop_returns:
  assumes "num_bits < 32" "gen_ok g"
  shows "\<exists>r g'. random_bits_loop num_bits result g = Inr (r, g') \<and> gen_ok g'"
  using assms
proof (induction num_bits result g rule: random_bits_loop.induct)
  case (1 num_bits result g)
  show ?case
  proof (cases "num_bits = 0")
    case False
    let ?g = "if m_bits_available g = 0 then RefreshEntropy g else g"
    let ?c = "min num_bits (m_bits_available ?g)"
    have c: "\<not> 32 \<le> ?c" "num_bits - ?c < 32" "gen_ok (?g\<lparr>m_entropy := drop_bit ?c (m_entropy ?g), m_bits_available := m_bits_available ?g - ?c\<rparr>)"
      using "1.prems" by (auto simp: gen_ok_def refresh_available)
    show ?thesis
      using "1.IH" [OF False refl refl refl refl c(1) c(2,3)] False c(1) by (subst random_bits_loop.simps) (simp only: Let_def if_False)
  qed (use "1.prems" in \<open>simp add: random_bits_loop.simps\<close>)
qed

lemma countl_zero_bound:
  assumes "unat v < 2 ^ k" "k \<le> 64"
  shows "64 - countl_zero v \<le> k"
proof -
  have "\<not> bit v i" if "k \<le> i" for i
  proof
    assume "bit v i"
    then have "bit (unat v) i" by (simp add: bit_unsigned_iff)
    then have "odd (unat v div 2 ^ i)" unfolding bit_iff_odd .
    then have "\<not> unat v < 2 ^ i" by (metis div_less even_zero)
    then show False using assms(1) power_increasing [OF that, of "2 :: nat"] by linarith
  qed
  then have "takeWhile (\<lambda>i. \<not> bit v i) (rev [k..<64]) = rev [k..<64]" by (simp add: takeWhile_eq_all_conv)
  moreover have "rev [0..<64] = rev [k..<64] @ rev [0..<k]" using upt_split [of 0 k 64] assms(2) by (metis rev_append zero_le)
  ultimately have "countl_zero v \<ge> 64 - k" unfolding countl_zero_def by (simp add: takeWhile_append del: upt_Suc)
  then show ?thesis by simp
qed

lemma GenerateRandom_below:
  assumes "0 < unat mx" "unat mx < 2 ^ 30" "gen_ok g"
  shows "\<exists>r g'. GenerateRandom mx g = Inr (r, g') \<and> unat r < unat mx \<and> gen_ok g'"
proof -
  have "1 + (64 - countl_zero mx) < 32" using countl_zero_bound [OF assms(2)] by simp
  then obtain r g' where r: "GenerateRandomBits (1 + (64 - countl_zero mx)) g = Inr (r, g')" "gen_ok g'"
    using random_bits_loop_returns [OF _ assms(3)] unfolding GenerateRandomBits_def by blast
  have "mx \<noteq> 0" using assms(1) by auto
  moreover have "r - r div mx * mx = r mod mx" by (simp add: minus_div_mult_eq_mod)
  moreover have "unat (r mod mx) < unat mx" using assms(1) by (simp add: unat_mod)
  ultimately show ?thesis using r by (simp add: GenerateRandom_def Let_def)
qed

section \<open>Levels\<close>

fun level_size :: "nat \<Rightarrow> nat \<Rightarrow> nat" where
  "level_size 0 n = n"
| "level_size (Suc k) n = (level_size k n + 63) div 64"

abbreviation levels_below :: "KPageBitmap \<Rightarrow> nat \<Rightarrow> nat" where
  "levels_below bm d \<equiv> m_used_depths bm - d"

definition base :: "KPageBitmap \<Rightarrow> nat \<Rightarrow> nat" where
  "base bm d = the (m_bit_storages bm ! d)"

definition bitmap_shape :: "nat \<Rightarrow> nat \<Rightarrow> nat \<Rightarrow> KPageBitmap \<Rightarrow> bool" where
  "bitmap_shape n lo hi bm \<longleftrightarrow> 0 < n \<and> 0 < m_used_depths bm \<and> m_used_depths bm \<le> 4 \<and>
    length (m_bit_storages bm) = 4 \<and> length (m_end_storages bm) = 4 \<and> level_size (m_used_depths bm) n = 1 \<and>
    (\<forall>d < m_used_depths bm. m_bit_storages bm ! d = Some (base bm d) \<and>
      m_end_storages bm ! d = Some (base bm d + level_size (levels_below bm d) n) \<and>
      lo \<le> base bm d \<and> base bm d + level_size (levels_below bm d) n \<le> hi) \<and>
    (\<forall>d d'. d < d' \<and> d' < m_used_depths bm \<longrightarrow> base bm d' + level_size (levels_below bm d') n \<le> base bm d)"

definition level_word :: "KPageBitmap \<Rightarrow> u64 list \<Rightarrow> nat \<Rightarrow> nat \<Rightarrow> u64" where
  "level_word bm data d i = data ! (base bm d + i)"

definition level_bit :: "KPageBitmap \<Rightarrow> u64 list \<Rightarrow> nat \<Rightarrow> nat \<Rightarrow> bool" where
  "level_bit bm data d i = bit (level_word bm data d (i div 64)) (i mod 64)"

text \<open>Among the top \<open>k\<close> levels the summaries are right; no bit behind the end of a level is set.\<close>

definition summaries :: "nat \<Rightarrow> nat \<Rightarrow> KPageBitmap \<Rightarrow> u64 list \<Rightarrow> bool" where
  "summaries k n bm data \<longleftrightarrow>
    (\<forall>d. d + 1 < k \<longrightarrow> (\<forall>i < level_size (levels_below bm (d + 1)) n. level_bit bm data d i \<longleftrightarrow> level_word bm data (d + 1) i \<noteq> 0)) \<and>
    (\<forall>d < k. \<forall>i < 64 * level_size (levels_below bm d) n. level_bit bm data d i \<longrightarrow> i < level_size (levels_below bm (d + 1)) n)"

definition bits_of :: "nat \<Rightarrow> KPageBitmap \<Rightarrow> u64 list \<Rightarrow> nat set" where
  "bits_of n bm data = {i. i < n \<and> level_bit bm data (m_used_depths bm - 1) i}"

definition bitmap_ok :: "nat \<Rightarrow> nat \<Rightarrow> nat \<Rightarrow> KPageBitmap \<Rightarrow> u64 list \<Rightarrow> bool" where
  "bitmap_ok n lo hi bm data \<longleftrightarrow> bitmap_shape n lo hi bm \<and> hi \<le> length data \<and> summaries (m_used_depths bm) n bm data \<and>
    m_num_bits bm = of_nat (card (bits_of n bm data))"

lemma level_size_div: "i < level_size k n \<Longrightarrow> i div 64 < level_size (Suc k) n"
  by simp

lemma shape_level:
  assumes "bitmap_shape n lo hi bm" "d < m_used_depths bm"
  shows "storage_at (m_bit_storages bm) d = Inr (base bm d)" "lo \<le> base bm d" "base bm d + level_size (levels_below bm d) n \<le> hi"
    "levels_below bm d = Suc (levels_below bm (d + 1))"
  using assms unfolding bitmap_shape_def by (auto simp: storage_at_def)

lemma word_at_ok:
  assumes "bitmap_shape n lo hi bm" "hi \<le> length data" "d < m_used_depths bm" "i < level_size (levels_below bm d) n"
  shows "bitmap_word bm d i data = Inr (level_word bm data d i)"
    "set_word_at bm d i v data = Inr (data[base bm d + i := v])"
  using shape_level [OF assms(1,3)] assms(2,4) by (simp_all add: bitmap_word_def set_word_at_def level_word_def)

lemma level_word_update:
  assumes "bitmap_shape n lo hi bm" "hi \<le> length data" "d < m_used_depths bm" "i < level_size (levels_below bm d) n"
    and "e < m_used_depths bm" "j < level_size (levels_below bm e) n"
  shows "level_word bm (data[base bm d + i := v]) e j = (if e = d \<and> j = i then v else level_word bm data e j)"
proof -
  have apart: "base bm b + level_size (levels_below bm b) n \<le> base bm a" if "a < b" "b < m_used_depths bm" for a b
    using assms(1) that by (simp add: bitmap_shape_def)
  have "base bm d + i = base bm e + j \<longleftrightarrow> e = d \<and> j = i"
    using apart [of d e] apart [of e d] assms(3-6) by (cases d e rule: linorder_cases) auto
  then show ?thesis
    using shape_level(3) [OF assms(1,3)] assms(2,4) by (simp add: level_word_def nth_list_update)
qed

lemma single_bit: "bit (push_bit k 1 :: u64) j \<longleftrightarrow> j = k \<and> k < 64" "bit (2 ^ k :: u64) j \<longleftrightarrow> j = k \<and> k < 64"
  by (auto simp: bit_simps)

lemma and_single_bit: "(v :: u64) AND push_bit k 1 = 0 \<longleftrightarrow> \<not> bit v k"
  by (simp add: bit_iff_and_push_bit_not_eq_0)

lemma level_bit_update:
  assumes "bitmap_shape n lo hi bm" "hi \<le> length data" "d < m_used_depths bm" "p < level_size (levels_below bm (d + 1)) n"
    and "e < m_used_depths bm" "i < 64 * level_size (levels_below bm e) n"
  shows "level_bit bm (data[base bm d + p div 64 := level_word bm data d (p div 64) OR push_bit (p mod 64) 1]) e i \<longleftrightarrow>
      level_bit bm data e i \<or> e = d \<and> i = p"
    "level_bit bm (data[base bm d + p div 64 := level_word bm data d (p div 64) AND NOT (push_bit (p mod 64) 1)]) e i \<longleftrightarrow>
      level_bit bm data e i \<and> \<not> (e = d \<and> i = p)"
proof -
  have p: "p div 64 < level_size (levels_below bm d) n"
    using level_size_div [OF assms(4)] shape_level(4) [OF assms(1,3)] by simp
  have i: "i div 64 < level_size (levels_below bm e) n" using assms(6) by linarith
  have eq: "i div 64 = p div 64 \<and> i mod 64 = p mod 64 \<longleftrightarrow> i = p" by (metis div_mult_mod_eq)
  show "level_bit bm (data[base bm d + p div 64 := level_word bm data d (p div 64) OR push_bit (p mod 64) 1]) e i \<longleftrightarrow>
      level_bit bm data e i \<or> e = d \<and> i = p"
    using eq by (auto simp: level_bit_def level_word_update [OF assms(1-3) p assms(5) i] bit_or_iff single_bit)
  show "level_bit bm (data[base bm d + p div 64 := level_word bm data d (p div 64) AND NOT (push_bit (p mod 64) 1)]) e i \<longleftrightarrow>
      level_bit bm data e i \<and> \<not> (e = d \<and> i = p)"
    using eq by (auto simp: level_bit_def level_word_update [OF assms(1-3) p assms(5) i] bit_and_iff bit_not_iff single_bit)
qed

section \<open>Changing a bit\<close>

definition same_outside :: "nat \<Rightarrow> nat \<Rightarrow> u64 list \<Rightarrow> u64 list \<Rightarrow> bool" where
  "same_outside lo hi data data' \<longleftrightarrow> length data' = length data \<and> (\<forall>p. p < lo \<or> hi \<le> p \<longrightarrow> data' ! p = data ! p)"

lemma same_outside_refl [simp]: "same_outside lo hi data data"
  by (simp add: same_outside_def)

lemma same_outside_trans: "same_outside lo hi a b \<Longrightarrow> same_outside lo hi b c \<Longrightarrow> same_outside lo hi a c"
  by (simp add: same_outside_def)

lemma same_outside_update:
  assumes "bitmap_shape n lo hi bm" "d < m_used_depths bm" "i < level_size (levels_below bm d) n"
  shows "same_outside lo hi data (data[base bm d + i := v])"
  using shape_level [OF assms(1,2)] assms(3) by (auto simp: same_outside_def)

lemma summaries_above:
  assumes "bitmap_shape n lo hi bm" "hi \<le> length data" "k < m_used_depths bm" "j < level_size (levels_below bm k) n"
    and "summaries (Suc k) n bm data"
  shows "summaries k n bm (data[base bm k + j := w])"
proof -
  have word: "level_word bm (data[base bm k + j := w]) e i = level_word bm data e i"
    if "e < k" "i < level_size (levels_below bm e) n" for e i
    using level_word_update [OF assms(1-4)] that assms(3) by simp
  have bit: "level_bit bm (data[base bm k + j := w]) e i = level_bit bm data e i"
    if "e < k" "i < 64 * level_size (levels_below bm e) n" for e i
    using word [OF that(1), of "i div 64"] that(2) by (simp add: level_bit_def less_mult_imp_div_less mult.commute)
  have le: "level_size (levels_below bm (d + 1)) n \<le> 64 * level_size (levels_below bm d) n" if "d < k" for d
    using shape_level(4) [OF assms(1), of d] that assms(3) by simp
  show ?thesis
    unfolding summaries_def
  proof (intro conjI allI impI)
    fix d i
    assume d: "d + 1 < k" "i < level_size (levels_below bm (d + 1)) n"
    then show "level_bit bm (data[base bm k + j := w]) d i \<longleftrightarrow> level_word bm (data[base bm k + j := w]) (d + 1) i \<noteq> 0"
      using assms(5) le [of d] by (simp add: bit word summaries_def)
  next
    fix d i
    assume "d < k" "i < 64 * level_size (levels_below bm d) n" "level_bit bm (data[base bm k + j := w]) d i"
    then show "i < level_size (levels_below bm (d + 1)) n" using assms(5) by (simp add: bit summaries_def)
  qed
qed

lemma summaries_step:
  assumes "bitmap_shape n lo hi bm" "hi \<le> length data" "k < m_used_depths bm" "j < level_size (levels_below bm k) n"
    and old: "summaries (Suc k) n bm data" and s: "summaries k n bm data'"
    and tidy: "\<And>b. b < 64 \<Longrightarrow> bit w b \<Longrightarrow> 64 * j + b < level_size (levels_below bm (k + 1)) n"
    and words: "\<And>i. i < level_size (levels_below bm k) n \<Longrightarrow> level_word bm data' k i = (if i = j then w else level_word bm data k i)"
    and above: "\<And>i. 0 < k \<Longrightarrow> i < level_size (levels_below bm k) n \<Longrightarrow>
      level_bit bm data' (k - 1) i \<longleftrightarrow> (if i = j then w \<noteq> 0 else level_bit bm data (k - 1) i)"
  shows "summaries (Suc k) n bm data'"
  unfolding summaries_def
proof (intro conjI allI impI)
  fix d i
  assume d: "d + 1 < Suc k" "i < level_size (levels_below bm (d + 1)) n"
  show "level_bit bm data' d i \<longleftrightarrow> level_word bm data' (d + 1) i \<noteq> 0"
  proof (cases "d + 1 = k")
    case True
    then show ?thesis using above [of i] words [of i] d old by (auto simp: summaries_def)
  qed (use d s in \<open>simp add: summaries_def\<close>)
next
  fix d i
  assume d: "d < Suc k" "i < 64 * level_size (levels_below bm d) n" "level_bit bm data' d i"
  show "i < level_size (levels_below bm (d + 1)) n"
  proof (cases "d = k")
    case True
    then have "i div 64 < level_size (levels_below bm k) n" using d(2) by (simp add: less_mult_imp_div_less mult.commute)
    then have b: "bit (if i div 64 = j then w else level_word bm data k (i div 64)) (i mod 64)"
      using d(3) words [of "i div 64"] True by (simp add: level_bit_def)
    show ?thesis
    proof (cases "i div 64 = j")
      case True
      then show ?thesis using tidy [of "i mod 64"] b \<open>d = k\<close> by auto
    next
      case False
      then have "level_bit bm data k i" using b by (simp add: level_bit_def)
      then show ?thesis using old d(2) \<open>d = k\<close> by (simp add: summaries_def)
    qed
  qed (use d s in \<open>simp add: summaries_def\<close>)
qed

text \<open>The loops over the levels: \<open>bits_changed\<close> says what becomes of the lowest of the top \<open>k\<close> levels, the levels below it
  are left alone.\<close>

definition bits_changed :: "nat \<Rightarrow> nat \<Rightarrow> nat \<Rightarrow> nat \<Rightarrow> nat \<Rightarrow> bool \<Rightarrow> KPageBitmap \<Rightarrow> u64 list \<Rightarrow> u64 list \<Rightarrow> bool" where
  "bits_changed k n lo hi p b bm data data' \<longleftrightarrow> same_outside lo hi data data' \<and> summaries k n bm data' \<and>
    (\<forall>e i. k \<le> e \<and> e < m_used_depths bm \<and> i < level_size (levels_below bm e) n \<longrightarrow> level_word bm data' e i = level_word bm data e i) \<and>
    (0 < k \<longrightarrow> (\<forall>i < 64 * level_size (levels_below bm (k - 1)) n.
      level_bit bm data' (k - 1) i \<longleftrightarrow> (if i = p then b else level_bit bm data (k - 1) i)))"

lemma word_zero_bit: "w = (0 :: u64) \<Longrightarrow> \<not> bit w b" "bit (w :: u64) b \<Longrightarrow> w \<noteq> 0"
  by auto

lemma level_above:
  assumes "bitmap_shape n lo hi bm" "k < m_used_depths bm" "0 < k" "j < level_size (levels_below bm k) n" "summaries (Suc k) n bm data"
  shows "level_bit bm data (k - 1) j \<longleftrightarrow> level_word bm data k j \<noteq> 0" "j < 64 * level_size (levels_below bm (k - 1)) n"
  using assms(5) shape_level(4) [OF assms(1), of "k - 1"] assms(2-4) unfolding summaries_def
  by (auto dest!: spec [of _ "k - 1"])

lemma word_changed:
  assumes shape: "bitmap_shape n lo hi bm" "hi \<le> length data" "k < m_used_depths bm" and j: "j < level_size (levels_below bm k) n"
    and old: "summaries (Suc k) n bm data"
    and tidy: "\<And>b. b < 64 \<Longrightarrow> bit w b \<Longrightarrow> 64 * j + b < level_size (levels_below bm (k + 1)) n"
    and up: "if (level_word bm data k j = 0) = (w = 0) then data' = data[base bm k + j := w]
      else bits_changed k n lo hi j (w \<noteq> 0) bm (data[base bm k + j := w]) data'"
  shows "same_outside lo hi data data'" "summaries (Suc k) n bm data'"
    "k \<le> e \<Longrightarrow> e < m_used_depths bm \<Longrightarrow> i < level_size (levels_below bm e) n \<Longrightarrow>
      level_word bm data' e i = (if e = k \<and> i = j then w else level_word bm data e i)"
proof -
  let ?data = "data[base bm k + j := w]"
  note upd = level_word_update [OF shape j, of _ _ w]
  have above: "summaries k n bm ?data" using summaries_above [OF shape j old] .
  have bit_up: "level_bit bm ?data (k - 1) i = level_bit bm data (k - 1) i" if "0 < k" "i < 64 * level_size (levels_below bm (k - 1)) n" for i
    using upd [of "k - 1" "i div 64"] that shape(3) by (auto simp: level_bit_def less_mult_imp_div_less mult.commute)
  note sum_above = level_above [OF shape(1,3) _ _ old]
  have rest: "same_outside lo hi data data' \<and> summaries k n bm data' \<and>
    (\<forall>e i. k \<le> e \<and> e < m_used_depths bm \<and> i < level_size (levels_below bm e) n \<longrightarrow> level_word bm data' e i = level_word bm ?data e i) \<and>
    (0 < k \<longrightarrow> (\<forall>i < level_size (levels_below bm k) n. level_bit bm data' (k - 1) i \<longleftrightarrow> (if i = j then w \<noteq> 0 else level_bit bm data (k - 1) i)))"
  proof (cases "(level_word bm data k j = 0) = (w = 0)")
    case True
    then have "data' = ?data" using up by simp
    then show ?thesis using True above same_outside_update [OF shape(1,3) j] bit_up sum_above j by auto
  next
    case False
    then have "bits_changed k n lo hi j (w \<noteq> 0) bm ?data data'" using up by simp
    then show ?thesis
      using same_outside_trans [OF same_outside_update [OF shape(1,3) j]] bit_up sum_above(2) by (auto simp: bits_changed_def)
  qed
  have words: "level_word bm data' k i = (if i = j then w else level_word bm data k i)" if "i < level_size (levels_below bm k) n" for i
    using rest upd [of k i] that shape(3) by simp
  show "summaries (Suc k) n bm data'"
    by (rule summaries_step [OF shape j old _ tidy words]) (use rest in auto)
  show "same_outside lo hi data data'" using rest by simp
  show "k \<le> e \<Longrightarrow> e < m_used_depths bm \<Longrightarrow> i < level_size (levels_below bm e) n \<Longrightarrow>
      level_word bm data' e i = (if e = k \<and> i = j then w else level_word bm data e i)"
    using rest upd [of e i] by simp
qed

lemma tidy_word:
  assumes "summaries (Suc k) n bm data" "j < level_size (levels_below bm k) n" "c < 64" "bit (level_word bm data k j) c"
  shows "64 * j + c < level_size (levels_below bm (k + 1)) n"
proof -
  have "level_bit bm data k (64 * j + c)" using assms(3,4) by (simp add: level_bit_def)
  moreover have "64 * j + c < 64 * level_size (levels_below bm k) n" using assms(2,3) by linarith
  ultimately show ?thesis using assms(1) by (simp add: summaries_def)
qed

lemma bits_changed_step:
  assumes shape: "bitmap_shape n lo hi bm" "hi \<le> length data" "k < m_used_depths bm" "p < level_size (levels_below bm (k + 1)) n"
    and old: "summaries (Suc k) n bm data"
    and w: "w = (if b then level_word bm data k (p div 64) OR push_bit (p mod 64) 1
                 else level_word bm data k (p div 64) AND NOT (push_bit (p mod 64) 1))"
    and up: "if (level_word bm data k (p div 64) = 0) = (w = 0) then data' = data[base bm k + p div 64 := w]
      else bits_changed k n lo hi (p div 64) (w \<noteq> 0) bm (data[base bm k + p div 64 := w]) data'"
  shows "bits_changed (Suc k) n lo hi p b bm data data'"
proof -
  let ?j = "p div 64"
  have j: "?j < level_size (levels_below bm k) n" using level_size_div [OF shape(4)] shape_level(4) [OF shape(1,3)] by simp
  have bit_w: "bit w c \<longleftrightarrow> (if c = p mod 64 then b else bit (level_word bm data k ?j) c)" if "c < 64" for c
    using that by (auto simp: w bit_simps single_bit)
  have tidy: "64 * ?j + c < level_size (levels_below bm (k + 1)) n" if "c < 64" "bit w c" for c
    using that bit_w tidy_word [OF old j, of c] shape(4) by (cases "c = p mod 64") simp_all
  note result = word_changed [OF shape(1-3) j old tidy up]
  have "level_bit bm data' k i \<longleftrightarrow> (if i = p then b else level_bit bm data k i)" if i: "i < 64 * level_size (levels_below bm k) n" for i
  proof -
    have "i div 64 < level_size (levels_below bm k) n" using i by (simp add: less_mult_imp_div_less mult.commute)
    moreover have "i = p \<longleftrightarrow> i div 64 = ?j \<and> i mod 64 = p mod 64" by (metis div_mult_mod_eq)
    ultimately show ?thesis using bit_w [of "i mod 64"] result(3) [of k "i div 64"] shape(3) by (auto simp: level_bit_def)
  qed
  then show ?thesis using result by (auto simp: bits_changed_def)
qed

lemma page_assert_ok: "(D \<Longrightarrow> c) \<Longrightarrow> page_assert D c = Inr ()"
  by (auto simp: page_assert_def)

lemma set_bit_levels_sets:
  assumes "bitmap_shape n lo hi bm" "hi \<le> length data" "k \<le> m_used_depths bm" "summaries k n bm data"
    and "0 < k \<Longrightarrow> p < level_size (levels_below bm k) n \<and> \<not> level_bit bm data (k - 1) p"
  shows "\<exists>data'. set_bit_levels D bm k p data = Inr data' \<and> bits_changed k n lo hi p True bm data data'"
  using assms(2-)
proof (induction k arbitrary: p data)
  case 0
  then show ?case by (simp add: bits_changed_def)
next
  case (Suc k)
  let ?j = "p div 64" and ?v = "level_word bm data k (p div 64)" and ?m = "push_bit (p mod 64) 1 :: u64"
  let ?data = "data[base bm k + ?j := ?v OR ?m]"
  have k: "k < m_used_depths bm" and p: "p < level_size (levels_below bm (k + 1)) n" and clear: "\<not> bit ?v (p mod 64)"
    using Suc.prems by (simp_all add: level_bit_def)
  have j: "?j < level_size (levels_below bm k) n" using level_size_div [OF p] shape_level(4) [OF assms(1) k] by simp
  have nz: "?v OR ?m \<noteq> 0" by (rule word_zero_bit(2) [of _ "p mod 64"]) (simp add: bit_simps)
  have run: "set_bit_levels D bm (Suc k) p data = (if ?v \<noteq> 0 then Inr ?data else set_bit_levels D bm k ?j ?data)"
    using word_at_ok [OF assms(1) Suc.prems(1) k j] clear by (simp add: Let_def page_assert_ok and_single_bit flip: push_bit_of_1)
  have step: "bits_changed (Suc k) n lo hi p True bm data data'"
    if "if (?v = 0) = (?v OR ?m = 0) then data' = ?data else bits_changed k n lo hi ?j (?v OR ?m \<noteq> 0) bm ?data data'" for data'
    using bits_changed_step [OF assms(1) Suc.prems(1) k p Suc.prems(3) _ that] by simp
  show ?case
  proof (cases "?v = 0")
    case True
    have "\<not> level_bit bm ?data (k - 1) ?j" if "0 < k"
      using level_above [OF assms(1) k that j Suc.prems(3)] level_bit_update(1) [OF assms(1) Suc.prems(1) k p, of "k - 1" ?j] that k True by auto
    then obtain data' where "set_bit_levels D bm k ?j ?data = Inr data'" "bits_changed k n lo hi ?j True bm ?data data'"
      using Suc.IH [of ?data ?j] Suc.prems(1) k j summaries_above [OF assms(1) Suc.prems(1) k j Suc.prems(3)] by auto
    then show ?thesis using run step [of data'] True nz by auto
  next
    case False
    then show ?thesis using run step [of ?data] nz by auto
  qed
qed

lemma clear_bit_levels_clears:
  assumes "bitmap_shape n lo hi bm" "hi \<le> length data" "k \<le> m_used_depths bm" "summaries k n bm data"
    and "0 < k \<Longrightarrow> p < level_size (levels_below bm k) n \<and> level_bit bm data (k - 1) p"
  shows "\<exists>data'. clear_bit_levels D bm k p data = Inr data' \<and> bits_changed k n lo hi p False bm data data'"
  using assms(2-)
proof (induction k arbitrary: p data)
  case 0
  then show ?case by (simp add: bits_changed_def)
next
  case (Suc k)
  let ?j = "p div 64" and ?v = "level_word bm data k (p div 64)" and ?m = "push_bit (p mod 64) 1 :: u64"
  let ?w = "?v AND NOT ?m"
  let ?data = "data[base bm k + ?j := ?w]"
  have k: "k < m_used_depths bm" and p: "p < level_size (levels_below bm (k + 1)) n" and set: "bit ?v (p mod 64)"
    using Suc.prems by (simp_all add: level_bit_def)
  have j: "?j < level_size (levels_below bm k) n" using level_size_div [OF p] shape_level(4) [OF assms(1) k] by simp
  have nz: "?v \<noteq> 0" using set by auto
  have run: "clear_bit_levels D bm (Suc k) p data = (if ?w \<noteq> 0 then Inr ?data else clear_bit_levels D bm k ?j ?data)"
    using word_at_ok [OF assms(1) Suc.prems(1) k j] set by (simp add: Let_def page_assert_ok and_single_bit flip: push_bit_of_1)
  have step: "bits_changed (Suc k) n lo hi p False bm data data'"
    if "if (?v = 0) = (?w = 0) then data' = ?data else bits_changed k n lo hi ?j (?w \<noteq> 0) bm ?data data'" for data'
    using bits_changed_step [OF assms(1) Suc.prems(1) k p Suc.prems(3) _ that] by simp
  show ?case
  proof (cases "?w = 0")
    case True
    have "level_bit bm ?data (k - 1) ?j" if "0 < k"
      using level_above [OF assms(1) k that j Suc.prems(3)] level_bit_update(2) [OF assms(1) Suc.prems(1) k p, of "k - 1" ?j] that k nz by auto
    then obtain data' where "clear_bit_levels D bm k ?j ?data = Inr data'" "bits_changed k n lo hi ?j False bm ?data data'"
      using Suc.IH [of ?data ?j] Suc.prems(1) k j summaries_above [OF assms(1) Suc.prems(1) k j Suc.prems(3)] by auto
    then show ?thesis using run step [of data'] True nz by auto
  next
    case False
    then show ?thesis using run step [of ?data] nz by auto
  qed
qed

section \<open>The operations on the set of bits\<close>

lemma bits_of_finite [simp]: "finite (bits_of n bm data)"
  by (simp add: bits_of_def)

lemma bits_of_fields [simp]: "bits_of n (bm\<lparr>m_num_bits := c\<rparr>) data = bits_of n bm data" "bits_of n (bm\<lparr>m_rng := g\<rparr>) data = bits_of n bm data"
  by (simp_all add: bits_of_def level_bit_def level_word_def base_def)

lemma shape_fields [simp]:
  "bitmap_shape n lo hi (bm\<lparr>m_num_bits := c\<rparr>) = bitmap_shape n lo hi bm" "bitmap_shape n lo hi (bm\<lparr>m_rng := g\<rparr>) = bitmap_shape n lo hi bm"
  "summaries k n (bm\<lparr>m_num_bits := c\<rparr>) data = summaries k n bm data" "summaries k n (bm\<lparr>m_rng := g\<rparr>) data = summaries k n bm data"
  by (simp_all add: bitmap_shape_def base_def summaries_def level_bit_def level_word_def)

lemma bitmap_okD:
  assumes "bitmap_ok n lo hi bm data"
  shows "bitmap_shape n lo hi bm" "hi \<le> length data" "summaries (m_used_depths bm) n bm data" "0 < m_used_depths bm"
    "p < n \<Longrightarrow> p < 64 * level_size (levels_below bm (m_used_depths bm - 1)) n"
  using assms by (auto simp: bitmap_ok_def bitmap_shape_def)

lemma bits_changed_bits:
  assumes "bitmap_ok n lo hi bm data" "bits_changed (m_used_depths bm) n lo hi p b bm data data'" "p < n"
  shows "bits_of n bm data' = (if b then insert p (bits_of n bm data) else bits_of n bm data - {p})"
  using assms(2,3) bitmap_okD(4,5) [OF assms(1)] by (auto simp: bits_changed_def bits_of_def split: if_splits)

lemma SetBit_inserts:
  assumes "bitmap_ok n lo hi bm data" "p < n" "p \<notin> bits_of n bm data"
  shows "\<exists>bm' data'. SetBit D p bm data = Inr (bm', data') \<and> bitmap_ok n lo hi bm' data' \<and> same_outside lo hi data data' \<and>
    bits_of n bm' data' = insert p (bits_of n bm data) \<and> m_rng bm' = m_rng bm"
proof -
  note ok = bitmap_okD [OF assms(1)]
  obtain data' where d: "set_bit_levels D bm (m_used_depths bm) p data = Inr data'"
    "bits_changed (m_used_depths bm) n lo hi p True bm data data'"
    using set_bit_levels_sets [OF ok(1,2) _ ok(3), of p D] assms(2,3) by (auto simp: bits_of_def)
  have b: "bits_of n bm data' = insert p (bits_of n bm data)" using bits_changed_bits [OF assms(1) d(2) assms(2)] by simp
  then show ?thesis
    using d assms(1,3) by (auto simp: SetBit_def bits_changed_def bitmap_ok_def same_outside_def)
qed

lemma ClearBit_removes:
  assumes "bitmap_ok n lo hi bm data" "p \<in> bits_of n bm data"
  shows "\<exists>bm' data'. ClearBit D p bm data = Inr (bm', data') \<and> bitmap_ok n lo hi bm' data' \<and> same_outside lo hi data data' \<and>
    bits_of n bm' data' = bits_of n bm data - {p} \<and> m_rng bm' = m_rng bm"
proof -
  note ok = bitmap_okD [OF assms(1)]
  have p: "p < n" using assms(2) by (simp add: bits_of_def)
  obtain data' where d: "clear_bit_levels D bm (m_used_depths bm) p data = Inr data'"
    "bits_changed (m_used_depths bm) n lo hi p False bm data data'"
    using clear_bit_levels_clears [OF ok(1,2) _ ok(3), of p D] assms(2) p by (auto simp: bits_of_def)
  have b: "bits_of n bm data' = bits_of n bm data - {p}" using bits_changed_bits [OF assms(1) d(2) p] by simp
  have "0 < card (bits_of n bm data)" using assms(2) card_gt_0_iff bits_of_finite by blast
  then show ?thesis
    using d assms b by (auto simp: ClearBit_def bits_changed_def bitmap_ok_def same_outside_def of_nat_diff)
qed

section \<open>The search\<close>

lemma div_64_Suc: "x div 64 ^ Suc k = x div 64 ^ k div (64 :: nat)"
  by (metis div_mult2_eq power_Suc2)

lemma bits_of_path:
  assumes "bitmap_ok n lo hi bm data" "x \<in> bits_of n bm data" "k < m_used_depths bm"
  shows "level_bit bm data (m_used_depths bm - 1 - k) (x div 64 ^ k) \<and> x div 64 ^ k < level_size k n"
  using assms(3)
proof (induction k)
  case 0
  then show ?case using assms(2) by (simp add: bits_of_def)
next
  case (Suc k)
  let ?e = "m_used_depths bm - 1 - k" and ?y = "x div 64 ^ k"
  note ok = bitmap_okD [OF assms(1)]
  have e: "?e < m_used_depths bm" "0 < ?e" "levels_below bm ?e = Suc k" using Suc.prems by simp_all
  have y: "level_bit bm data ?e ?y" "?y div 64 < level_size (Suc k) n" using Suc level_size_div by auto
  have s: "summaries (Suc ?e) n bm data" using ok(3) Suc.prems unfolding summaries_def by simp
  have "level_word bm data ?e (?y div 64) \<noteq> 0" using y(1) unfolding level_bit_def by auto
  then have "level_bit bm data (?e - 1) (?y div 64)"
    using level_above(1) [OF ok(1) e(1,2) _ s, of "?y div 64"] y(2) e(3) by simp
  then show ?case using y(2) unfolding div_64_Suc by simp
qed

lemma find_loop_finds:
  assumes "bitmap_ok n lo hi bm data" "d < m_used_depths bm" "q < level_size (levels_below bm d) n" "level_word bm data d q \<noteq> 0"
  shows "\<exists>r g'. find_loop D random bm data d q g = Inr (int r, g') \<and> r \<in> bits_of n bm data \<and> r div 64 ^ levels_below bm d = q \<and>
    (\<not> random \<longrightarrow> (\<forall>x \<in> bits_of n bm data. x div 64 ^ levels_below bm d = q \<longrightarrow> r \<le> x))"
  using assms(2-)
proof (induction "levels_below bm d" arbitrary: d q g)
  case (Suc k)
  note ok = bitmap_okD [OF assms(1)]
  let ?v = "level_word bm data d q"
  obtain b g1 where b: "(if random then SelectRandomBit ?v g else (countr_zero ?v, g)) = (b, g1)" by fastforce
  have bit: "bit ?v b" "b < 64"
    using b SelectRandomBit_bit [OF Suc.prems(3), of g] countr_zero_least [OF Suc.prems(3)] by (auto split: if_splits)
  have least: "b \<le> c" if "bit ?v c" "\<not> random" for c using b countr_zero_least(3) [OF Suc.prems(3) that(1)] that(2) by auto
  let ?i = "q * 64 + b"
  have i: "?i < level_size (levels_below bm (d + 1)) n"
    using tidy_word [of d n bm data q b] bit Suc.prems ok(3) by (simp add: summaries_def mult.commute)
  have run: "find_loop D random bm data d q g = (if d + 1 < m_used_depths bm then find_loop D random bm data (d + 1) ?i g1 else Inr (int ?i, g1))"
    using word_at_ok(1) [OF ok(1,2) Suc.prems(1,2)] Suc.prems(3) b by (subst find_loop.simps) simp
  have k: "levels_below bm (d + 1) = k" using Suc.hyps(2) by simp
  have path: "?i \<le> x div 64 ^ k" if x: "x \<in> bits_of n bm data" "x div 64 ^ Suc k = q" "\<not> random" for x
  proof -
    have "level_bit bm data d (x div 64 ^ k)" using bits_of_path [OF assms(1) x(1), of k] Suc.prems(1) Suc.hyps(2) by simp
    moreover have q: "x div 64 ^ k div 64 = q" using x(2) unfolding div_64_Suc .
    ultimately have "b \<le> x div 64 ^ k mod 64" using least x(3) by (simp add: level_bit_def)
    then show ?thesis using q by (metis add_le_cancel_left div_mult_mod_eq)
  qed
  show ?case
  proof (cases "d + 1 < m_used_depths bm")
    case True
    have "level_bit bm data d ?i" using bit by (simp add: level_bit_def)
    then have "level_word bm data (d + 1) ?i \<noteq> 0" using ok(3) True i by (simp add: summaries_def)
    then obtain r g' where r: "find_loop D random bm data (d + 1) ?i g1 = Inr (int r, g')" "r \<in> bits_of n bm data" "r div 64 ^ k = ?i"
      "\<not> random \<longrightarrow> (\<forall>x \<in> bits_of n bm data. x div 64 ^ k = ?i \<longrightarrow> r \<le> x)"
      using Suc.hyps(1) [of "d + 1" ?i g1] True i k by auto
    have "r div 64 ^ Suc k = q" using r(3) bit(2) unfolding div_64_Suc by simp
    moreover have "r \<le> x" if x: "x \<in> bits_of n bm data" "x div 64 ^ Suc k = q" "\<not> random" for x
    proof (cases "x div 64 ^ k = ?i")
      case False
      then have "r div 64 ^ k < x div 64 ^ k" using path [OF x] r(3) by simp
      then show ?thesis by (meson div_le_mono leD linear)
    qed (use r(4) x in blast)
    ultimately show ?thesis using run True r(1,2) Suc.hyps(2) by auto
  next
    case False
    then have z: "k = 0" "m_used_depths bm - 1 = d" using k Suc.prems(1) by simp_all
    then have "?i \<in> bits_of n bm data" using i bit k by (simp add: bits_of_def level_bit_def)
    moreover have "levels_below bm d = 1" using Suc.hyps(2) z(1) by simp
    ultimately show ?thesis using run False z(1) path bit(2) by (intro exI [of _ ?i]) auto
  qed
qed simp

lemma FindFreeBlock_finds:
  assumes "bitmap_ok n lo hi bm data"
  shows "bits_of n bm data = {} \<Longrightarrow> FindFreeBlock D random bm data = Inr (-1, bm)"
    "bits_of n bm data \<noteq> {} \<Longrightarrow> \<exists>r g. FindFreeBlock D random bm data = Inr (int r, bm\<lparr>m_rng := g\<rparr>) \<and> r \<in> bits_of n bm data \<and>
      (\<not> random \<longrightarrow> (\<forall>x \<in> bits_of n bm data. r \<le> x))"
proof -
  note ok = bitmap_okD [OF assms]
  have top: "level_size (levels_below bm 0) n = 1" using ok(1) by (simp add: bitmap_shape_def)
  have run: "bitmap_word bm 0 0 data = Inr (level_word bm data 0 0)" using word_at_ok(1) [OF ok(1,2,4)] top by simp
  have z: "x div 64 ^ m_used_depths bm = 0" if "x \<in> bits_of n bm data" for x
  proof -
    obtain k where k: "m_used_depths bm = Suc k" using ok(4) by (cases "m_used_depths bm") auto
    have "x div 64 ^ k div 64 < level_size (Suc k) n" using bits_of_path [OF assms that, of k] k level_size_div by auto
    then show ?thesis using top k unfolding k div_64_Suc by (simp only: diff_zero less_one)
  qed
  have empty: "bits_of n bm data = {}" if "level_word bm data 0 0 = 0"
  proof (rule ccontr)
    assume "bits_of n bm data \<noteq> {}"
    then obtain x where x: "x \<in> bits_of n bm data" by blast
    have "level_bit bm data 0 (x div 64 ^ (m_used_depths bm - 1))" using bits_of_path [OF assms x, of "m_used_depths bm - 1"] ok(4) by simp
    moreover have "x div 64 ^ (m_used_depths bm - 1) div 64 = 0"
      using z [OF x] ok(4) div_64_Suc [of x "m_used_depths bm - 1"] by simp
    ultimately show False using that by (simp add: level_bit_def)
  qed
  note find = find_loop_finds [OF assms ok(4), of 0 D random "m_rng bm"]
  show "FindFreeBlock D random bm data = Inr (-1, bm)" if "bits_of n bm data = {}"
  proof -
    have "level_word bm data 0 0 = 0" using find that top by auto
    then show ?thesis using run by (simp add: FindFreeBlock_def find_loop.simps page_assert_ok)
  qed
  show "\<exists>r g. FindFreeBlock D random bm data = Inr (int r, bm\<lparr>m_rng := g\<rparr>) \<and> r \<in> bits_of n bm data \<and>
      (\<not> random \<longrightarrow> (\<forall>x \<in> bits_of n bm data. r \<le> x))" if "bits_of n bm data \<noteq> {}"
  proof -
    have nz: "level_word bm data 0 0 \<noteq> 0" using empty that by blast
    obtain r g where "find_loop D random bm data 0 0 (m_rng bm) = Inr (int r, g)" "r \<in> bits_of n bm data"
      "\<not> random \<longrightarrow> (\<forall>x \<in> bits_of n bm data. x div 64 ^ m_used_depths bm = 0 \<longrightarrow> r \<le> x)"
      using find [OF _ nz] top by auto
    then show ?thesis using z by (auto simp: FindFreeBlock_def)
  qed
qed

section \<open>Clearing a range\<close>

lemma range_mask_bit:
  "c < 64 \<Longrightarrow> bit (push_bit sh (push_bit cnt 1 - 1) :: u64) c \<longleftrightarrow> sh \<le> c \<and> c < sh + cnt"
  "c < 64 \<Longrightarrow> bit (push_bit sh (2 ^ cnt - 1) :: u64) c \<longleftrightarrow> sh \<le> c \<and> c < sh + cnt"
  by (auto simp: bit_simps simp flip: mask_eq_exp_minus_1)

lemma and_eq_mask: "(v :: u64) AND m = m \<longleftrightarrow> (\<forall>c < 64. bit m c \<longrightarrow> bit v c)"
  by (auto simp: bit_eq_iff bit_and_iff dest: bit_imp_le_length)

lemma in_word_range:
  fixes p x cnt :: nat
  assumes "p mod 64 + cnt \<le> 64"
  shows "x \<in> {p..<p + cnt} \<longleftrightarrow> x div 64 = p div 64 \<and> p mod 64 \<le> x mod 64 \<and> x mod 64 < p mod 64 + cnt"
proof
  assume "x \<in> {p..<p + cnt}"
  then have x: "p \<le> x" "x < p + cnt" by simp_all
  have "x div 64 = p div 64"
  proof (rule div_nat_eqI)
    show "64 * (p div 64) \<le> x" using x(1) by (metis dual_order.trans times_div_less_eq_dividend)
    show "x < 64 * Suc (p div 64)" unfolding mult_Suc_right using x(2) assms mult_div_mod_eq [of 64 p] by linarith
  qed
  then show "x div 64 = p div 64 \<and> p mod 64 \<le> x mod 64 \<and> x mod 64 < p mod 64 + cnt"
    using x mult_div_mod_eq [of 64 x] mult_div_mod_eq [of 64 p] by (intro conjI) linarith+
next
  assume "x div 64 = p div 64 \<and> p mod 64 \<le> x mod 64 \<and> x mod 64 < p mod 64 + cnt"
  then have "p \<le> x" "x < p + cnt" using mult_div_mod_eq [of 64 x] mult_div_mod_eq [of 64 p] by linarith+
  then show "x \<in> {p..<p + cnt}" by simp
qed

lemma range_bits:
  assumes "p mod 64 + cnt \<le> 64" "p + cnt \<le> n"
  shows "{p..<p + cnt} \<subseteq> bits_of n bm data \<longleftrightarrow>
    (\<forall>c < 64. p mod 64 \<le> c \<and> c < p mod 64 + cnt \<longrightarrow> bit (level_word bm data (m_used_depths bm - 1) (p div 64)) c)"
proof
  assume sub: "{p..<p + cnt} \<subseteq> bits_of n bm data"
  show "\<forall>c < 64. p mod 64 \<le> c \<and> c < p mod 64 + cnt \<longrightarrow> bit (level_word bm data (m_used_depths bm - 1) (p div 64)) c"
  proof (intro allI impI)
    fix c assume "c < (64 :: nat)" "p mod 64 \<le> c \<and> c < p mod 64 + cnt"
    moreover from this have "64 * (p div 64) + c \<in> {p..<p + cnt}" by (simp only: in_word_range [OF assms(1)]) simp
    then have "64 * (p div 64) + c \<in> bits_of n bm data" using sub by blast
    ultimately show "bit (level_word bm data (m_used_depths bm - 1) (p div 64)) c" by (simp add: bits_of_def level_bit_def)
  qed
next
  assume all: "\<forall>c < 64. p mod 64 \<le> c \<and> c < p mod 64 + cnt \<longrightarrow> bit (level_word bm data (m_used_depths bm - 1) (p div 64)) c"
  show "{p..<p + cnt} \<subseteq> bits_of n bm data"
  proof
    fix x assume x: "x \<in> {p..<p + cnt}"
    then have "x < n" "x div 64 = p div 64" "p mod 64 \<le> x mod 64 \<and> x mod 64 < p mod 64 + cnt"
      using in_word_range [OF assms(1), of x] assms(2) by auto
    then show "x \<in> bits_of n bm data" using all by (simp add: bits_of_def level_bit_def)
  qed
qed

lemma clear_above:
  assumes "bitmap_shape n lo hi bm" "hi \<le> length data" "k < m_used_depths bm" "j < level_size (levels_below bm k) n"
    and "summaries (Suc k) n bm data" "level_word bm data k j \<noteq> 0"
  shows "\<exists>data'. (if w = 0 then clear_bit_levels D bm k j (data[base bm k + j := w]) else Inr (data[base bm k + j := w])) = Inr data' \<and>
    (if (level_word bm data k j = 0) = (w = 0) then data' = data[base bm k + j := w]
     else bits_changed k n lo hi j (w \<noteq> 0) bm (data[base bm k + j := w]) data')"
proof (cases "w = 0")
  case True
  let ?data = "data[base bm k + j := w]"
  have "level_bit bm ?data (k - 1) j" if "0 < k"
    using level_above [OF assms(1,3) that assms(4,5)] level_word_update [OF assms(1-4), of "k - 1" "j div 64" w] that assms(3,6)
    by (auto simp: level_bit_def less_mult_imp_div_less mult.commute)
  then show ?thesis
    using clear_bit_levels_clears [OF assms(1), of ?data k j D] assms summaries_above [OF assms(1-5), of w] True by auto
qed (use assms(6) in simp)

lemma ClearRange_removes:
  assumes ok: "bitmap_ok n lo hi bm data" and cnt: "cnt < 64" "0 < cnt" "p mod 64 + cnt \<le> 64" "p + cnt \<le> n"
  shows "\<not> {p..<p + cnt} \<subseteq> bits_of n bm data \<Longrightarrow> ClearRange D p cnt bm data = Inr (False, bm, data)"
    "{p..<p + cnt} \<subseteq> bits_of n bm data \<Longrightarrow> \<exists>bm' data'. ClearRange D p cnt bm data = Inr (True, bm', data') \<and>
      bitmap_ok n lo hi bm' data' \<and> same_outside lo hi data data' \<and> bits_of n bm' data' = bits_of n bm data - {p..<p + cnt} \<and> m_rng bm' = m_rng bm"
proof -
  let ?k = "m_used_depths bm - 1" and ?j = "p div 64"
  note okD = bitmap_okD [OF ok]
  let ?v = "level_word bm data ?k ?j" and ?m = "push_bit (p mod 64) (push_bit cnt 1 - 1) :: u64"
  let ?w = "?v AND NOT ?m" and ?bm = "bm\<lparr>m_num_bits := m_num_bits bm - of_nat cnt\<rparr>"
  let ?data = "data[base bm ?k + ?j := ?w]"
  have k: "?k < m_used_depths bm" "Suc ?k = m_used_depths bm" "levels_below bm ?k = 1" using okD(4) by simp_all
  have j: "?j < level_size (levels_below bm ?k) n" using level_size_div [of p 0 n] k(3) cnt by simp
  have old: "summaries (Suc ?k) n bm data" using okD(3) k(2) by simp
  have get: "base bm ?k + ?j < length data" "data ! (base bm ?k + ?j) = ?v"
    using shape_level(3) [OF okD(1) k(1)] okD(2) j by (simp_all add: level_word_def)
  have test: "?v AND ?m = ?m \<longleftrightarrow> {p..<p + cnt} \<subseteq> bits_of n bm data"
    unfolding range_bits [OF cnt(3,4)] and_eq_mask by (simp add: range_mask_bit)
  have run: "ClearRange D p cnt bm data = (if ?v AND ?m \<noteq> ?m then Inr (False, bm, data)
      else bindF (if ?w = 0 then clear_bit_levels D bm ?k ?j ?data else Inr ?data) (\<lambda>data. Inr (True, ?bm, data)))"
    using okD(4) cnt shape_level(1) [OF okD(1) k(1)] get unfolding ClearRange_def Let_def by (simp add: page_assert_ok)
  show "ClearRange D p cnt bm data = Inr (False, bm, data)" if "\<not> {p..<p + cnt} \<subseteq> bits_of n bm data"
    using run test that by simp
  assume sub: "{p..<p + cnt} \<subseteq> bits_of n bm data"
  have bit_w: "bit ?w c \<longleftrightarrow> bit ?v c \<and> \<not> (p mod 64 \<le> c \<and> c < p mod 64 + cnt)" if "c < 64" for c
    using that range_mask_bit(1) [OF that, of "p mod 64" cnt] by (auto simp: bit_and_iff bit_not_iff)
  have nz: "?v \<noteq> 0" using sub cnt unfolding range_bits [OF cnt(3,4)] by (auto dest!: spec [of _ "p mod 64"])
  obtain data' where d: "(if ?w = 0 then clear_bit_levels D bm ?k ?j ?data else Inr ?data) = Inr data'"
    "if (?v = 0) = (?w = 0) then data' = ?data else bits_changed ?k n lo hi ?j (?w \<noteq> 0) bm ?data data'"
    using clear_above [OF okD(1,2) k(1) j old nz, where w = ?w and D = D] by blast
  have tidy: "64 * ?j + c < level_size (levels_below bm (?k + 1)) n" if "c < 64" "bit ?w c" for c
    using tidy_word [OF old j that(1)] that bit_w by blast
  note ch = word_changed [OF okD(1,2) k(1) j old tidy d(2)]
  have bits: "bits_of n bm data' = bits_of n bm data - {p..<p + cnt}"
  proof (rule set_eqI)
    fix x
    have lw: "level_word bm data' ?k (x div 64) = (if x div 64 = ?j then ?w else level_word bm data ?k (x div 64))" if "x < n"
      using ch(3) [OF _ _ le_refl k(1), of "x div 64"] k(3) that by simp
    have "bit (if x div 64 = ?j then ?w else level_word bm data ?k (x div 64)) (x mod 64) \<longleftrightarrow>
        bit (level_word bm data ?k (x div 64)) (x mod 64) \<and> x \<notin> {p..<p + cnt}"
      unfolding in_word_range [OF cnt(3)] using bit_w [of "x mod 64"] by simp
    then show "x \<in> bits_of n bm data' \<longleftrightarrow> x \<in> bits_of n bm data - {p..<p + cnt}"
      using lw by (auto simp only: bits_of_def level_bit_def mem_Collect_eq Diff_iff)
  qed
  have "card (bits_of n bm data') = card (bits_of n bm data) - cnt" "cnt \<le> card (bits_of n bm data)"
    using bits card_Diff_subset [OF _ sub] card_mono [OF _ sub] by simp_all
  then have "bitmap_ok n lo hi ?bm data'" using ok ch(1,2) k(2) by (simp add: bitmap_ok_def same_outside_def of_nat_diff)
  then show "\<exists>bm' data'. ClearRange D p cnt bm data = Inr (True, bm', data') \<and>
      bitmap_ok n lo hi bm' data' \<and> same_outside lo hi data data' \<and> bits_of n bm' data' = bits_of n bm data - {p..<p + cnt} \<and> m_rng bm' = m_rng bm"
    using run test sub d(1) ch(1) bits by simp
qed

section \<open>Setting up\<close>

lemma align_up_64: "align_up v 64 div 64 = (v + 63) div 64"
proof (cases "v mod 64 = 0")
  case True
  then show ?thesis by (auto simp: align_up_def elim!: dvdE)
next
  case False
  then obtain m where m: "v mod 64 = Suc m" "m < 64" using mod_less_divisor [of 64 v] by (metis Suc_lessD not0_implies_Suc zero_less_numeral)
  then have "v + 63 = m + (v div 64 + 1) * 64" using mult_div_mod_eq [of 64 v] by (simp only: add_mult_distrib mult.commute [of 64])
  then have "(v + 63) div 64 = v div 64 + 1" using m(2) by simp
  moreover have "v - v mod 64 + 64 = 64 * (v div 64 + 1)" by (simp add: minus_mod_eq_mult_div)
  ultimately show ?thesis using False by (simp add: align_up_def)
qed

lemma level_size_pos: "0 < n \<Longrightarrow> 0 < level_size k n"
  by (induction k) simp_all

lemma level_size_mono: "n \<le> n' \<Longrightarrow> level_size k n \<le> level_size k n'"
  by (induction k) (simp_all add: div_le_mono)

lemma level_size_bound: "n \<le> 64 ^ (k + j) \<Longrightarrow> level_size k n \<le> 64 ^ j"
proof (induction k arbitrary: j)
  case (Suc k)
  then have "level_size k n \<le> 64 * 64 ^ j" using Suc.IH [of "Suc j"] by simp
  then show ?case by simp
qed simp

lemma GetRequiredDepth_bound: "0 < GetRequiredDepth n \<and> n < 64 ^ GetRequiredDepth n"
proof (induction n rule: GetRequiredDepth.induct)
  case (1 n)
  show ?case
  proof (cases "n div 64 = 0")
    case False
    then have "n div 64 < 64 ^ GetRequiredDepth (n div 64)" using 1 by blast
    then have "n < 64 ^ GetRequiredDepth (n div 64) * 64" by (simp add: div_less_iff_less_mult)
    then show ?thesis using False by (subst (1 2) GetRequiredDepth.simps) simp
  qed (simp add: GetRequiredDepth.simps)
qed

lemma GetRequiredDepth_least: "n < 64 ^ k \<Longrightarrow> 0 < k \<Longrightarrow> GetRequiredDepth n \<le> k"
proof (induction n arbitrary: k rule: GetRequiredDepth.induct)
  case (1 n)
  show ?case
  proof (cases "n div 64 = 0")
    case False
    then obtain j where j: "k = Suc j" "0 < j" using "1.prems" by (cases k; cases "k - 1") auto
    then have "n div 64 < 64 ^ j" using "1.prems"(1) by (simp add: div_less_iff_less_mult mult.commute)
    then show ?thesis using "1.IH" [OF False, of j] j False by (subst GetRequiredDepth.simps) simp
  qed (use "1.prems" in \<open>simp add: GetRequiredDepth.simps\<close>)
qed

definition level_words :: "nat \<Rightarrow> nat \<Rightarrow> nat \<Rightarrow> nat" where
  "level_words i m n = (\<Sum>t<m. level_size (i + t + 1) n)"

lemma level_words_Suc: "level_words i (Suc m) n = level_size (Suc i) n + level_words (Suc i) m n"
  unfolding level_words_def sum.lessThan_Suc_shift by simp

lemma init_levels_lays_out:
  assumes "m \<le> 4" "length (m_bit_storages bm) = 4" "length (m_end_storages bm) = 4"
  shows "\<exists>bm'. init_levels m st (level_size i n) bm = Inr (st + level_words i m n, bm') \<and>
    length (m_bit_storages bm') = 4 \<and> length (m_end_storages bm') = 4 \<and>
    m_rng bm' = m_rng bm \<and> m_num_bits bm' = m_num_bits bm \<and> m_used_depths bm' = m_used_depths bm \<and>
    (\<forall>d < m. m_bit_storages bm' ! d = Some (base bm' d) \<and> m_end_storages bm' ! d = Some (base bm' d + level_size (i + m - d) n) \<and>
      st \<le> base bm' d \<and> base bm' d + level_size (i + m - d) n \<le> st + level_words i m n) \<and>
    (\<forall>d d'. d < d' \<and> d' < m \<longrightarrow> base bm' d' + level_size (i + m - d') n \<le> base bm' d) \<and>
    (\<forall>d. m \<le> d \<longrightarrow> m_bit_storages bm' ! d = m_bit_storages bm ! d \<and> m_end_storages bm' ! d = m_end_storages bm ! d)"
  using assms
proof (induction m arbitrary: st i bm)
  case 0
  then show ?case by (simp add: level_words_def)
next
  case (Suc m)
  let ?st = "st + level_size (Suc i) n"
  let ?bm = "bm\<lparr>m_bit_storages := (m_bit_storages bm)[m := Some st], m_end_storages := (m_end_storages bm)[m := Some ?st]\<rparr>"
  obtain bm' where bm': "init_levels m ?st (level_size (Suc i) n) ?bm = Inr (?st + level_words (Suc i) m n, bm')"
    "length (m_bit_storages bm') = 4" "length (m_end_storages bm') = 4"
    "m_rng bm' = m_rng bm" "m_num_bits bm' = m_num_bits bm" "m_used_depths bm' = m_used_depths bm"
    "\<And>d. d < m \<Longrightarrow> m_bit_storages bm' ! d = Some (base bm' d) \<and> m_end_storages bm' ! d = Some (base bm' d + level_size (Suc i + m - d) n) \<and>
      ?st \<le> base bm' d \<and> base bm' d + level_size (Suc i + m - d) n \<le> ?st + level_words (Suc i) m n"
    "\<And>d d'. d < d' \<Longrightarrow> d' < m \<Longrightarrow> base bm' d' + level_size (Suc i + m - d') n \<le> base bm' d"
    "\<And>d. m \<le> d \<Longrightarrow> m_bit_storages bm' ! d = m_bit_storages ?bm ! d \<and> m_end_storages bm' ! d = m_end_storages ?bm ! d"
    using Suc.IH [of ?bm ?st "Suc i"] Suc.prems by auto
  have run: "init_levels (Suc m) st (level_size i n) bm = Inr (st + level_words i (Suc m) n, bm')"
    using bm'(1) Suc.prems by (simp add: Let_def align_up_64 level_words_Suc add.assoc)
  have new: "m_bit_storages bm' ! m = Some st" "m_end_storages bm' ! m = Some ?st" "base bm' m = st"
    using bm'(9) [of m] Suc.prems by (simp_all add: base_def)
  have le: "?st \<le> st + level_words i (Suc m) n" by (simp add: level_words_Suc)
  show ?case
  proof (intro exI [of _ bm'] conjI allI impI)
    fix d d'
    assume d: "d < d' \<and> d' < Suc m"
    show "base bm' d' + level_size (i + Suc m - d') n \<le> base bm' d"
      using d new bm'(7) [of d] bm'(8) [of d d'] by (cases "d' = m") auto
  next
    fix d
    assume "Suc m \<le> d"
    then show "m_bit_storages bm' ! d = m_bit_storages bm ! d" "m_end_storages bm' ! d = m_end_storages bm ! d"
      using bm'(9) [of d] by auto
  qed (use run bm'(2-6) new le in \<open>auto simp: less_Suc_eq level_words_Suc add.assoc dest: bm'(7)\<close>)
qed

lemma bitmap_Initialize_empty:
  assumes "0 < n" "n < 64 ^ 4" "length (m_bit_storages bm) = 4" "length (m_end_storages bm) = 4"
    and "st + level_words 0 (GetRequiredDepth n) n \<le> length data" "\<And>p. st \<le> p \<Longrightarrow> p < length data \<Longrightarrow> data ! p = 0"
  shows "\<exists>bm'. bitmap_Initialize D st n bm = Inr (st + level_words 0 (GetRequiredDepth n) n, bm') \<and> m_rng bm' = m_rng bm \<and>
    bitmap_ok n st (st + level_words 0 (GetRequiredDepth n) n) bm' data \<and> bits_of n bm' data = {}"
proof -
  let ?u = "GetRequiredDepth n" and ?bm = "bm\<lparr>m_num_bits := 0, m_used_depths := GetRequiredDepth n\<rparr>"
  have u: "0 < ?u" "n < 64 ^ ?u" "?u \<le> 4" using GetRequiredDepth_bound [of n] GetRequiredDepth_least [OF assms(2)] by simp_all
  have top: "level_size ?u n = 1" using level_size_bound [of n ?u 0] level_size_pos [OF assms(1), of ?u] u(2) by simp
  obtain bm' where bm': "init_levels ?u st n ?bm = Inr (st + level_words 0 ?u n, bm')" "m_rng bm' = m_rng bm" "m_num_bits bm' = 0"
    "m_used_depths bm' = ?u" and shape: "bitmap_shape n st (st + level_words 0 ?u n) bm'"
    using init_levels_lays_out [OF u(3), of ?bm st 0 n] assms(1,3,4) u top by (auto simp: bitmap_shape_def)
  have zero: "level_word bm' data d i = 0" if "d < m_used_depths bm'" "i < level_size (levels_below bm' d) n" for d i
    using shape_level [OF shape that(1)] that(2) assms(5) by (simp add: level_word_def assms(6))
  then have zbit: "\<not> level_bit bm' data d i" if "d < m_used_depths bm'" "i < 64 * level_size (levels_below bm' d) n" for d i
    using that by (simp add: level_bit_def less_mult_imp_div_less mult.commute)
  have le: "level_size (levels_below bm' (d + 1)) n \<le> 64 * level_size (levels_below bm' d) n" if "d < m_used_depths bm'" for d
    using shape_level(4) [OF shape that] by simp
  have empty: "bits_of n bm' data = {}"
    using zbit [of "m_used_depths bm' - 1"] le [of "m_used_depths bm' - 1"] u(1) bm'(4) by (fastforce simp: bits_of_def)
  have "summaries (m_used_depths bm') n bm' data"
    unfolding summaries_def using zbit zero le by (meson add_lessD1 less_le_trans)
  then show ?thesis
    using bm' shape empty assms(5) u(3) by (simp add: bitmap_Initialize_def Let_def page_assert_ok MaxDepth_def bitmap_ok_def)
qed

lemma overhead_loop_words: "overhead_loop m (level_size i n) acc = acc + level_words i m n"
  by (induction m arbitrary: i acc) (simp_all add: level_words_def [of _ 0] level_words_Suc Let_def align_up_64 flip: level_size.simps(2))

lemma bitmap_overhead_words: "bitmap_overhead n = 8 * level_words 0 (GetRequiredDepth n) n"
  using overhead_loop_words [of "GetRequiredDepth n" 0 n 0] by (simp add: bitmap_overhead_def)

lemma bitmap_overhead_mono:
  assumes "n \<le> n'"
  shows "bitmap_overhead n \<le> bitmap_overhead n'"
proof -
  have d: "GetRequiredDepth n \<le> GetRequiredDepth n'"
    using GetRequiredDepth_least [of n "GetRequiredDepth n'"] GetRequiredDepth_bound [of n'] assms by simp
  have "level_words 0 (GetRequiredDepth n) n \<le> level_words 0 (GetRequiredDepth n) n'"
    unfolding level_words_def by (intro sum_mono level_size_mono assms)
  also have "\<dots> \<le> level_words 0 (GetRequiredDepth n') n'"
    unfolding level_words_def using d by (intro sum_mono2) auto
  finally show ?thesis by (simp add: bitmap_overhead_words)
qed

end
