(* ===== verification/Buddy_Blocks.thy ===== *)
theory Buddy_Blocks
  imports Main
begin

text \<open>
  Free memory as sets of aligned blocks of several sizes, the abstract view of a page heap. Block \<open>k\<close> of size index \<open>i\<close> has the pages
  whose number divided by \<open>2 ^ P i\<close> is \<open>k\<close>; a group is the blocks of one size that make up a block of the next. The free
  blocks are disjoint, and no group of them is complete: this is what merging on every free keeps, and what
  makes a search by block size find every aligned free range of that size.
\<close>

section \<open>Blocks and groups\<close>

definition block_range :: "(nat \<Rightarrow> nat) \<Rightarrow> nat \<Rightarrow> nat \<Rightarrow> nat set" where
  "block_range P i k = {x. x div 2 ^ P i = k}"

definition block_group :: "(nat \<Rightarrow> nat) \<Rightarrow> nat \<Rightarrow> nat \<Rightarrow> nat set" where
  "block_group P i g = {k. k div 2 ^ (P (i + 1) - P i) = g}"

definition free_of :: "(nat \<Rightarrow> nat) \<Rightarrow> nat \<Rightarrow> (nat \<Rightarrow> nat set) \<Rightarrow> nat set" where
  "free_of P L F = {x. \<exists>i < L. x div 2 ^ P i \<in> F i}"

definition buddy_ok :: "(nat \<Rightarrow> nat) \<Rightarrow> nat \<Rightarrow> nat \<Rightarrow> nat \<Rightarrow> (nat \<Rightarrow> nat set) \<Rightarrow> bool" where
  "buddy_ok P L lo hi F \<longleftrightarrow> free_of P L F \<subseteq> {lo..<hi} \<and>
    (\<forall>x. \<forall>i < L. \<forall>j < L. x div 2 ^ P i \<in> F i \<and> x div 2 ^ P j \<in> F j \<longrightarrow> i = j) \<and>
    (\<forall>i g. i + 1 < L \<longrightarrow> \<not> block_group P i g \<subseteq> F i)"

lemma div_interval: "{x. x div d = (k :: nat)} = {k * d..<k * d + d}" if "0 < d"
proof -
  have "x div d = k \<longleftrightarrow> k * d \<le> x \<and> x < k * d + d" for x
  proof
    assume "x div d = k"
    then show "k * d \<le> x \<and> x < k * d + d"
      using div_times_less_eq_dividend [of x d] dividend_less_div_times [OF that, of x] by (simp add: add.commute)
  next
    assume "k * d \<le> x \<and> x < k * d + d"
    then show "x div d = k" using div_nat_eqI [of d k x] by (simp add: mult.commute add.commute)
  qed
  then show ?thesis by (simp add: set_eq_iff)
qed

lemma block_range_interval: "block_range P i k = {k * 2 ^ P i..<k * 2 ^ P i + 2 ^ P i}"
  unfolding block_range_def by (rule div_interval) simp

lemma block_group_interval: "block_group P i g = {g * 2 ^ (P (i + 1) - P i)..<g * 2 ^ (P (i + 1) - P i) + 2 ^ (P (i + 1) - P i)}"
  unfolding block_group_def by (rule div_interval) simp

lemma block_range_start [simp]: "k * 2 ^ P i \<in> block_range P i k"
  by (simp add: block_range_def)

lemma free_of_iff: "x \<in> free_of P L F \<longleftrightarrow> (\<exists>i < L. \<exists>k \<in> F i. x \<in> block_range P i k)"
  by (auto simp: free_of_def block_range_def)

lemma free_of_mono: "(\<And>i. F i \<subseteq> G i) \<Longrightarrow> free_of P L F \<subseteq> free_of P L G"
  by (fastforce simp: free_of_def)

lemma free_of_insert: "i < L \<Longrightarrow> free_of P L (F(i := insert k (F i))) = free_of P L F \<union> block_range P i k"
  by (fastforce simp: free_of_def block_range_def split: if_splits)

lemma free_of_remove:
  assumes "i < L" "\<And>x j. j < L \<Longrightarrow> x div 2 ^ P i \<in> K \<Longrightarrow> x div 2 ^ P j \<in> F j \<Longrightarrow> j = i"
  shows "free_of P L (F(i := F i - K)) = free_of P L F - (\<Union>k \<in> K. block_range P i k)"
  using assms by (fastforce simp: free_of_def block_range_def split: if_splits)

lemma buddy_ok_subset: "buddy_ok P L lo hi G \<Longrightarrow> (\<And>i. F i \<subseteq> G i) \<Longrightarrow> buddy_ok P L lo hi F"
  unfolding buddy_ok_def using free_of_mono [of F G P L] by (meson subset_iff)

lemma block_group_start: "g * 2 ^ (P (i + 1) - P i) \<in> block_group P i g"
  by (simp add: block_group_def)

lemma buddy_empty: "buddy_ok P L lo hi (\<lambda>_. {})"
  using block_group_start by (auto simp: buddy_ok_def free_of_def)

section \<open>Increasing sizes\<close>

locale block_sizes =
  fixes P :: "nat \<Rightarrow> nat" and L :: nat
  assumes sizes_increase: "i + 1 < L \<Longrightarrow> P i < P (i + 1)"
begin

lemma sizes_le: "i \<le> j \<Longrightarrow> j < L \<Longrightarrow> P i \<le> P j"
proof (induction j)
  case (Suc j)
  then show ?case using sizes_increase [of j] by (cases "i = Suc j") auto
qed simp

lemma larger_div: "i \<le> j \<Longrightarrow> j < L \<Longrightarrow> x div 2 ^ P j = x div 2 ^ P i div (2 ^ (P j - P i) :: nat)"
  using sizes_le [of i j] by (simp flip: div_mult2_eq power_add)

lemma parent_range:
  assumes "i + 1 < L"
  shows "block_range P (i + 1) g = (\<Union>k \<in> block_group P i g. block_range P i k)"
  using larger_div [of i "i + 1"] assms by (auto simp: block_range_def block_group_def)

lemma block_nested:
  assumes "i \<le> j" "j < L" "x \<in> block_range P i k" "x \<in> block_range P j l"
  shows "block_range P i k \<subseteq> block_range P j l"
  using assms larger_div [OF assms(1,2)] by (auto simp: block_range_def)

text \<open>One step of freeing: the new block joins the free ones, or completes its group, which then goes up as one block.\<close>

lemma push_step:
  assumes ok: "buddy_ok P L lo hi F" and i: "i < L" and inside: "block_range P i k \<subseteq> {lo..<hi}"
    and free: "block_range P i k \<inter> free_of P L F = {}"
  defines "G \<equiv> F(i := insert k (F i))" and "g \<equiv> k div 2 ^ (P (i + 1) - P i)"
  shows "\<not> (i + 1 < L \<and> block_group P i g \<subseteq> G i) \<Longrightarrow> buddy_ok P L lo hi G \<and> free_of P L G = free_of P L F \<union> block_range P i k"
    "i + 1 < L \<Longrightarrow> block_group P i g \<subseteq> G i \<Longrightarrow> buddy_ok P L lo hi (G(i := G i - block_group P i g)) \<and>
      block_range P (i + 1) g \<subseteq> {lo..<hi} \<and> block_range P (i + 1) g \<inter> free_of P L (G(i := G i - block_group P i g)) = {} \<and>
      free_of P L (G(i := G i - block_group P i g)) \<union> block_range P (i + 1) g = free_of P L F \<union> block_range P i k"
proof -
  have all: "free_of P L G = free_of P L F \<union> block_range P i k" unfolding G_def by (rule free_of_insert [OF i])
  have sub: "free_of P L G \<subseteq> {lo..<hi}" using all ok inside by (simp add: buddy_ok_def)
  have one: "a = b" if "a < L" "b < L" "x div 2 ^ P a \<in> G a" "x div 2 ^ P b \<in> G b" for x a b
  proof -
    have old: "a = b" if "x div 2 ^ P a \<in> F a" "x div 2 ^ P b \<in> F b" using ok that \<open>a < L\<close> \<open>b < L\<close> by (auto simp: buddy_ok_def)
    have new: "x div 2 ^ P i \<noteq> k" if "x div 2 ^ P c \<in> F c" "c < L" for c
      using free that by (auto simp: free_of_def block_range_def)
    show ?thesis using that old new by (auto simp: G_def split: if_splits)
  qed
  show "buddy_ok P L lo hi G \<and> free_of P L G = free_of P L F \<union> block_range P i k" if "\<not> (i + 1 < L \<and> block_group P i g \<subseteq> G i)"
  proof -
    have "\<not> block_group P j h \<subseteq> G j" if "j + 1 < L" for j h
    proof (cases "j = i \<and> h = g")
      case False
      have "k \<notin> block_group P j h" if "j = i" using False that by (auto simp: block_group_def g_def)
      then show ?thesis using ok \<open>j + 1 < L\<close> unfolding buddy_ok_def G_def by (metis fun_upd_apply subset_insert)
    qed (use \<open>\<not> (i + 1 < L \<and> block_group P i g \<subseteq> G i)\<close> that in auto)
    then show ?thesis using sub one all unfolding buddy_ok_def by blast
  qed
  assume up: "i + 1 < L" and full: "block_group P i g \<subseteq> G i"
  let ?H = "G(i := G i - block_group P i g)"
  have k: "k \<in> block_group P i g" by (simp add: block_group_def g_def)
  have "?H j \<subseteq> F j" for j using k by (auto simp: G_def)
  then have okH: "buddy_ok P L lo hi ?H" using buddy_ok_subset [OF ok] by blast
  have freeH: "free_of P L ?H = free_of P L G - block_range P (i + 1) g"
    unfolding parent_range [OF up] by (rule free_of_remove [OF i]) (use one i full in blast)
  have "block_range P (i + 1) g \<subseteq> free_of P L G"
    unfolding parent_range [OF up] unfolding subset_iff free_of_iff using full i by blast
  then show "buddy_ok P L lo hi ?H \<and> block_range P (i + 1) g \<subseteq> {lo..<hi} \<and> block_range P (i + 1) g \<inter> free_of P L ?H = {} \<and>
      free_of P L ?H \<union> block_range P (i + 1) g = free_of P L F \<union> block_range P i k"
    using okH freeH all sub by blast
qed

lemma pop_step:
  assumes "buddy_ok P L lo hi F" "i < L" "k \<in> F i"
  shows "buddy_ok P L lo hi (F(i := F i - {k}))" "free_of P L (F(i := F i - {k})) = free_of P L F - block_range P i k"
    "block_range P i k \<subseteq> free_of P L F" "block_range P i k \<subseteq> {lo..<hi}"
proof -
  show "buddy_ok P L lo hi (F(i := F i - {k}))" by (rule buddy_ok_subset [OF assms(1)]) auto
  have "free_of P L (F(i := F i - {k})) = free_of P L F - (\<Union>l \<in> {k}. block_range P i l)"
    by (rule free_of_remove [OF assms(2)]) (use assms in \<open>auto simp: buddy_ok_def\<close>)
  then show "free_of P L (F(i := F i - {k})) = free_of P L F - block_range P i k" by simp
  show "block_range P i k \<subseteq> free_of P L F" unfolding subset_iff free_of_iff using assms(2,3) by blast
  then show "block_range P i k \<subseteq> {lo..<hi}" using assms(1) by (auto simp: buddy_ok_def)
qed

text \<open>An aligned free range of a size lies inside one free block of that size or larger.\<close>

lemma covered:
  assumes ok: "buddy_ok P L lo hi F" and "i < L" "block_range P i k \<subseteq> free_of P L F"
  shows "\<exists>j l. i \<le> j \<and> j < L \<and> l \<in> F j \<and> block_range P i k \<subseteq> block_range P j l"
  using assms(2,3)
proof (induction i arbitrary: k)
  case 0
  have "k * 2 ^ P 0 \<in> free_of P L F" using "0.prems"(2) by auto
  then obtain j l where "j < L" "l \<in> F j" "k * 2 ^ P 0 \<in> block_range P j l" by (auto simp: free_of_iff)
  then show ?case using block_nested [of 0 j "k * 2 ^ P 0" k l] by auto
next
  case (Suc i)
  have up: "i + 1 < L" using Suc.prems(1) by simp
  have cover: "\<exists>j l. i \<le> j \<and> j < L \<and> l \<in> F j \<and> block_range P i m \<subseteq> block_range P j l" if "m \<in> block_group P i k" for m
    using Suc.IH [of m] Suc.prems that parent_range [OF up, of k] by auto
  obtain m where m: "m \<in> block_group P i k" "m \<notin> F i" using ok up unfolding buddy_ok_def by blast
  obtain j l where jl: "i \<le> j" "j < L" "l \<in> F j" "block_range P i m \<subseteq> block_range P j l" using cover [OF m(1)] by blast
  have x: "m * 2 ^ P i \<in> block_range P i m" "m * 2 ^ P i \<in> block_range P (i + 1) k" "m * 2 ^ P i \<in> block_range P j l"
    using jl(4) m(1) block_range_start [of m P i] unfolding parent_range [OF up, of k] by blast+
  have "j \<noteq> i" using jl(3) x m(2) by (auto simp: block_range_def)
  then have "i + 1 \<le> j" using jl(1) by simp
  then show ?case using block_nested [OF _ jl(2) x(2,3)] jl(2,3) by (simp only: Suc_eq_plus1) blast
qed

text \<open>The free blocks are determined by the free pages.\<close>

lemma canonical_subset:
  assumes "buddy_ok P L lo hi F" "buddy_ok P L lo hi G" "free_of P L F = free_of P L G" "i < L" "k \<in> F i"
  shows "k \<in> G i"
proof -
  let ?x = "k * 2 ^ P i"
  have "block_range P i k \<subseteq> free_of P L G" using pop_step(3) [OF assms(1,4,5)] assms(3) by simp
  then obtain j l where j: "i \<le> j" "j < L" "l \<in> G j" "block_range P i k \<subseteq> block_range P j l" using covered [OF assms(2,4)] by blast
  have "block_range P j l \<subseteq> free_of P L F" using pop_step(3) [OF assms(2) j(2,3)] assms(3) by simp
  then obtain m q where m: "j \<le> m" "m < L" "q \<in> F m" "block_range P j l \<subseteq> block_range P m q" using covered [OF assms(1) j(2)] by blast
  have x: "?x div 2 ^ P i = k" "?x div 2 ^ P j = l" "?x div 2 ^ P m = q"
    using subsetD [OF j(4) block_range_start] subsetD [OF m(4) subsetD [OF j(4) block_range_start]] unfolding block_range_def by simp_all
  then have "i = m" using assms(1,4,5) m(2,3) unfolding buddy_ok_def by metis
  then have "i = j" using j(1) m(1) by simp
  then show ?thesis using x(1,2) j(3) by simp
qed

lemma canonical:
  assumes "buddy_ok P L lo hi F" "buddy_ok P L lo hi G" "free_of P L F = free_of P L G" "i < L"
  shows "F i = G i"
  using canonical_subset [OF assms] canonical_subset [OF assms(2,1) assms(3) [symmetric] assms(4)] by blast

lemma free_count:
  assumes "buddy_ok P L lo hi F"
  shows "card (free_of P L F) = (\<Sum>i<L. card (F i) * 2 ^ P i)" "\<And>i. i < L \<Longrightarrow> finite (F i)"
proof -
  have fin: "finite (F i)" if "i < L" for i
  proof (rule finite_subset)
    have "k < hi" if "k \<in> F i" for k
    proof -
      have "k * 2 ^ P i \<in> free_of P L F" using \<open>i < L\<close> that by (auto simp: free_of_def)
      then have "k * 2 ^ P i < hi" using assms by (auto simp: buddy_ok_def)
      moreover have "k \<le> k * 2 ^ P i" by simp
      ultimately show ?thesis by linarith
    qed
    then show "F i \<subseteq> {..<hi}" by auto
  qed simp
  then show "\<And>i. i < L \<Longrightarrow> finite (F i)" .
  let ?A = "\<lambda>i. \<Union>k \<in> F i. block_range P i k"
  have un: "free_of P L F = (\<Union>i \<in> {..<L}. ?A i)" by (rule set_eqI) (simp only: free_of_iff UN_iff lessThan_iff Bex_def)
  have level: "finite (?A i)" "card (?A i) = card (F i) * 2 ^ P i" if "i < L" for i
  proof -
    show "finite (?A i)" using fin [OF that] by (simp add: block_range_interval)
    have "card (?A i) = (\<Sum>k \<in> F i. card (block_range P i k))"
    proof (rule card_UN_disjoint)
      show "\<forall>k \<in> F i. finite (block_range P i k)" by (simp add: block_range_interval)
      show "\<forall>k \<in> F i. \<forall>l \<in> F i. k \<noteq> l \<longrightarrow> block_range P i k \<inter> block_range P i l = {}" by (auto simp: block_range_def)
    qed (rule fin [OF that])
    then show "card (?A i) = card (F i) * 2 ^ P i" by (simp add: block_range_interval)
  qed
  have "card (\<Union>i \<in> {..<L}. ?A i) = (\<Sum>i<L. card (?A i))"
  proof (rule card_UN_disjoint)
    show "\<forall>i \<in> {..<L}. \<forall>j \<in> {..<L}. i \<noteq> j \<longrightarrow> ?A i \<inter> ?A j = {}"
      using assms by (fastforce simp: buddy_ok_def block_range_def)
  qed (use level in auto)
  then show "card (free_of P L F) = (\<Sum>i<L. card (F i) * 2 ^ P i)" using un level by simp
qed

end

end
