(* ===== verification/Heap_Laws.thy ===== *)
theory Heap_Laws
  imports Bitmap_Laws Buddy_Blocks Page_Heap
begin

text \<open>
  The page heap as a set of free pages: the bitmaps of its seven block sizes are the block sets of \<open>Buddy_Blocks\<close>. Freeing adds a range of pages and allocating takes one
  away; both keep the blocks disjoint and merged, and always return.
\<close>

section \<open>Page addresses\<close>

definition page_address :: "nat \<Rightarrow> u64" where
  "page_address p = of_nat (p * 4096)"

definition page_shift :: "nat \<Rightarrow> nat" where
  "page_shift i = MemoryBlockPageShifts ! i - 12"

definition page_limit :: nat where "page_limit = 2 ^ 51"

lemma less_7_cases:
  assumes "i < (7 :: nat)"
  obtains "i = 0" | "i = 1" | "i = 2" | "i = 3" | "i = 4" | "i = 5" | "i = 6"
  using assms by linarith

interpretation sizes: block_sizes page_shift 7
proof
  fix i :: nat
  assume "i + 1 < 7"
  then have "i < 7" by simp
  then show "page_shift i < page_shift (i + 1)"
    by (cases i rule: less_7_cases) (use \<open>i + 1 < 7\<close> in \<open>simp_all add: page_shift_def MemoryBlockPageShifts_def\<close>)
qed

lemma page_shift_table: "i < 7 \<Longrightarrow> MemoryBlockPageShifts ! i = page_shift i + 12" "i < 7 \<Longrightarrow> page_shift i \<le> 18"
  by (cases i rule: less_7_cases; simp add: page_shift_def MemoryBlockPageShifts_def)+

lemma page_shift_0 [simp]: "page_shift 0 = 0"
  by (simp add: page_shift_def MemoryBlockPageShifts_def)

lemma size_bound: "i < 7 \<Longrightarrow> 2 ^ page_shift i \<le> (262144 :: nat)"
  using power_increasing [OF page_shift_table(2), of i "2 :: nat"] by simp

lemma unat_page_address: "p \<le> page_limit \<Longrightarrow> unat (page_address p) = p * 4096"
  unfolding page_address_def unat_of_nat by (simp add: page_limit_def)

lemma page_address_add: "page_address p + page_address q = page_address (p + q)"
  by (simp add: page_address_def add_mult_distrib)

lemma page_address_diff: "q \<le> p \<Longrightarrow> page_address p - page_address q = page_address (p - q)"
  by (simp add: page_address_def diff_mult_distrib of_nat_diff)

lemma page_address_less: "p \<le> page_limit \<Longrightarrow> q \<le> page_limit \<Longrightarrow> page_address p < page_address q \<longleftrightarrow> p < q"
  by (simp add: word_less_nat_alt unat_page_address)

lemma page_address_le: "p \<le> page_limit \<Longrightarrow> q \<le> page_limit \<Longrightarrow> page_address p \<le> page_address q \<longleftrightarrow> p \<le> q"
  by (simp add: word_le_nat_alt unat_page_address)

lemma page_address_0: "page_address 0 = 0" "p \<le> page_limit \<Longrightarrow> page_address p = 0 \<longleftrightarrow> p = 0"
  using unat_page_address [of p] by (auto simp: page_address_def word_unat_eq_iff)

lemma page_address_eqI: "p \<le> page_limit \<Longrightarrow> unat w = p * 4096 \<Longrightarrow> w = page_address p"
  by (simp add: unat_page_address word_unat_eq_iff)

lemma size_address: "push_bit (k + 12) 1 = page_address (2 ^ k)"
  by (simp add: page_address_def push_bit_eq_mult power_add)

lemma push_address: "push_bit (k + 12) (of_nat n) = page_address (n * 2 ^ k)"
  by (simp add: page_address_def push_bit_eq_mult power_add)

lemma PageSize_address: "PageSize = page_address 1" "of_nat n * PageSize = page_address n"
  by (simp_all add: page_address_def PageSize_def)

lemma page_address_pages: "p \<le> page_limit \<Longrightarrow> page_address p div PageSize = of_nat p"
  by (rule word_unat_eq_iff [THEN iffD2]) (simp add: unat_div unat_page_address PageSize_def unat_of_nat page_limit_def)

lemma page_address_drop: "p \<le> page_limit \<Longrightarrow> unat (drop_bit (k + 12) (page_address p)) = p div 2 ^ k"
  by (subst unat_drop_bit_eq) (simp add: drop_bit_eq_div unat_page_address power_add)

lemma AlignDown_address:
  assumes "p \<le> page_limit" "d \<le> page_limit" "0 < d"
  shows "AlignDown_u64 (page_address p) (page_address d) = page_address (p div d * d)"
proof -
  have "unat (page_address p mod page_address d) = p mod d * 4096"
    using assms by (simp add: unat_mod unat_page_address mod_mult_mult2)
  then have "page_address p mod page_address d = page_address (p mod d)"
    using assms by (intro page_address_eqI) (auto intro: order_trans [OF mod_less_eq_dividend])
  then show ?thesis
    using assms by (simp add: AlignDown_u64_def page_address_diff minus_mod_eq_div_mult)
qed

lemma AlignUp_address:
  assumes "p \<le> page_limit" "d \<le> page_limit" "0 < d"
  shows "AlignUp_u64 (page_address p) (page_address d) = page_address ((p + d - 1) div d * d)"
proof -
  have "unat (page_address p mod page_address d) = p mod d * 4096"
    using assms by (simp add: unat_mod unat_page_address mod_mult_mult2)
  then have m: "page_address p mod page_address d = page_address (p mod d)"
    using assms by (intro page_address_eqI) (auto intro: order_trans [OF mod_less_eq_dividend])
  have le: "p mod d \<le> page_limit" using assms(1) mod_less_eq_dividend order_trans by blast
  have up: "(p + d - 1) div d * d = (if p mod d = 0 then p else p div d * d + d)"
  proof (cases "p mod d = 0")
    case True
    then have p: "p = p div d * d" using div_mult_mod_eq [of p d] by simp
    then have "p + d - 1 = (d - 1) + p div d * d" using assms(3) by simp
    then have "(p + d - 1) div d = p div d + (d - 1) div d" using assms(3) by (simp only: div_mult_self1 not_gr_zero)
    then have "(p + d - 1) div d = p div d" using assms(3) by (simp only: div_less diff_less zero_less_one add_0_right)
    then show ?thesis using True p by simp
  next
    case False
    then have "p + d - 1 = (p mod d - 1) + (p div d + 1) * d"
      using div_mult_mod_eq [of p d] by (simp add: add_mult_distrib)
    then have "(p + d - 1) div d = (p div d + 1) + (p mod d - 1) div d" using assms(3) by (simp only: div_mult_self1 not_gr_zero)
    moreover have "(p mod d - 1) div d = 0" using mod_less_divisor [OF assms(3), of p] by simp
    ultimately have "(p + d - 1) div d = p div d + 1" by simp
    then show ?thesis using False by simp
  qed
  show ?thesis
    unfolding AlignUp_u64_def Let_def m up
    using page_address_0(1) page_address_0(2) [OF le] page_address_diff [of "p mod d" p] page_address_add [of "p div d * d" d]
    by (simp add: minus_mod_eq_div_mult)
qed

section \<open>One block size\<close>

definition group_size :: "nat \<Rightarrow> nat" where
  "group_size i = (if i + 1 < 7 then 2 ^ (page_shift (i + 1) - page_shift i) else 1)"

definition level_base :: "Block \<Rightarrow> nat" where
  "level_base b = unat (blk_heap_address b) div 2 ^ m_block_shift b"

abbreviation level_bits :: "Block \<Rightarrow> u64 list \<Rightarrow> nat set" where
  "level_bits b data \<equiv> bits_of (unat (m_end_offset b)) (m_bitmap b) data"

definition level_set :: "Block \<Rightarrow> u64 list \<Rightarrow> nat set" where
  "level_set b data = (+) (level_base b) ` level_bits b data"

definition level_ok :: "nat \<Rightarrow> nat \<Rightarrow> nat \<Rightarrow> nat \<Rightarrow> nat \<Rightarrow> Block \<Rightarrow> u64 list \<Rightarrow> bool" where
  "level_ok i pl ph lo hi b data \<longleftrightarrow> m_block_shift b = page_shift i + 12 \<and>
    m_next_block_shift b = (if i + 1 < 7 then page_shift (i + 1) + 12 else 0) \<and>
    blk_heap_address b = page_address (level_base b * 2 ^ page_shift i) \<and>
    group_size i dvd level_base b \<and> group_size i dvd unat (m_end_offset b) \<and>
    level_base b * 2 ^ page_shift i \<le> pl \<and> ph \<le> (level_base b + unat (m_end_offset b)) * 2 ^ page_shift i \<and>
    (level_base b + unat (m_end_offset b)) * 2 ^ page_shift i \<le> page_limit \<and>
    bitmap_ok (unat (m_end_offset b)) lo hi (m_bitmap b) data"

lemma level_fields [simp]:
  "level_base (b\<lparr>m_bitmap := bm\<rparr>) = level_base b" "level_set (b\<lparr>m_bitmap := bm\<lparr>m_rng := g\<rparr>\<rparr>) data = level_set (b\<lparr>m_bitmap := bm\<rparr>) data"
  by (simp_all add: level_base_def level_set_def)

lemma level_ok_bitmap:
  assumes "level_ok i pl ph lo hi b data" "bitmap_ok (unat (m_end_offset b)) lo hi bm data'"
  shows "level_ok i pl ph lo hi (b\<lparr>m_bitmap := bm\<rparr>) data'"
  using assms by (simp add: level_ok_def)

lemma level_okD:
  assumes "level_ok i pl ph lo hi b data"
  shows "m_block_shift b = page_shift i + 12" "m_next_block_shift b = (if i + 1 < 7 then page_shift (i + 1) + 12 else 0)"
    "blk_heap_address b = page_address (level_base b * 2 ^ page_shift i)"
    "level_base b * 2 ^ page_shift i \<le> pl" "ph \<le> (level_base b + unat (m_end_offset b)) * 2 ^ page_shift i"
    "(level_base b + unat (m_end_offset b)) * 2 ^ page_shift i \<le> page_limit"
    "bitmap_ok (unat (m_end_offset b)) lo hi (m_bitmap b) data"
  using assms unfolding level_ok_def by blast+

lemma level_block:
  assumes "level_ok i pl ph lo hi b data" "block_range page_shift i k \<subseteq> {pl..<ph}"
  shows "level_base b \<le> k" "k - level_base b < unat (m_end_offset b)" "k * 2 ^ page_shift i \<le> page_limit"
proof -
  have s: "pl \<le> k * 2 ^ page_shift i" "k * 2 ^ page_shift i < ph"
    using subsetD [OF assms(2) block_range_start] by simp_all
  note ok = level_okD [OF assms(1)]
  have "level_base b * 2 ^ page_shift i \<le> k * 2 ^ page_shift i" using s(1) ok(4) by (rule order_trans [rotated])
  then show base: "level_base b \<le> k" by simp
  have "k * 2 ^ page_shift i < (level_base b + unat (m_end_offset b)) * 2 ^ page_shift i" using s(2) ok(5) by (rule less_le_trans)
  then show "k - level_base b < unat (m_end_offset b)" using base by (simp add: less_diff_conv2)
  show "k * 2 ^ page_shift i \<le> page_limit" using s(2) ok(5,6) by linarith
qed

lemma group_size_facts: "i < 7 \<Longrightarrow> group_size i dvd 64" "i < 7 \<Longrightarrow> group_size i < 64"
  by (cases i rule: less_7_cases; simp add: group_size_def page_shift_def MemoryBlockPageShifts_def)+

lemma group_size_pos: "0 < group_size i"
  by (simp add: group_size_def)

text \<open>The offset of a group in the bitmap of its size.\<close>

lemma aligned_in_word:
  fixes d p :: nat
  assumes "d dvd 64" "d dvd p"
  shows "p mod 64 + d \<le> 64"
proof -
  obtain c where c: "64 = d * c" using assms(1) by (elim dvdE)
  have "d dvd p mod 64" using assms by (simp add: dvd_mod)
  then obtain m where m: "p mod 64 = d * m" by (elim dvdE)
  have "d * m < d * c" using m c mod_less_divisor [of 64 p] by simp
  then have "Suc m \<le> c" by simp
  then have "d * Suc m \<le> d * c" by (rule mult_le_mono2)
  then show ?thesis using m c by simp
qed

lemma group_offset:
  assumes "level_ok i pl ph lo hi b data" "i < 7" "level_base b \<le> k" "k - level_base b < unat (m_end_offset b)"
  defines "d \<equiv> group_size i" and "p \<equiv> align_down (k - level_base b) (group_size i)"
  shows "level_base b + p = k div d * d" "p mod 64 + d \<le> 64" "p + d \<le> unat (m_end_offset b)"
proof -
  obtain q n where q: "level_base b = d * q" "unat (m_end_offset b) = d * n" using assms(1) unfolding level_ok_def d_def by (auto elim!: dvdE)
  have d: "0 < d" "d dvd 64" using group_size_facts [OF assms(2)] group_size_pos by (simp_all add: d_def)
  define x where "x = k - level_base b"
  have k: "k = x + d * q" using assms(3) q(1) by (simp add: x_def)
  have p: "p = x div d * d" unfolding p_def align_down_def d_def [symmetric] x_def [symmetric] by (simp add: minus_mod_eq_div_mult)
  show "level_base b + p = k div d * d" using k p q(1) d(1) by (simp add: add_mult_distrib2 mult.commute)
  show "p mod 64 + d \<le> 64" using aligned_in_word [OF d(2)] p by simp
  have "x div d < n" using assms(4) q(2) d(1) by (simp add: x_def div_less_iff_less_mult mult.commute)
  then have "Suc (x div d) * d \<le> n * d" by (intro mult_le_mono1) simp
  then show "p + d \<le> unat (m_end_offset b)" using p q(2) by (simp add: mult.commute)
qed

lemma level_set_iff: "level_base b \<le> k \<Longrightarrow> k \<in> level_set b data \<longleftrightarrow> k - level_base b \<in> level_bits b data"
  by (force simp: level_set_def)

lemma next_diff: "i + 1 < 7 \<Longrightarrow> 2 ^ (page_shift (i + 1) + 12 - (page_shift i + 12)) = group_size i"
  by (simp add: group_size_def)

lemma group_address:
  assumes "i + 1 < 7"
  shows "g * group_size i * 2 ^ page_shift i = g * 2 ^ page_shift (i + 1)"
  using sizes.sizes_increase [OF assms] assms by (simp add: group_size_def flip: power_add)

lemma PushBlock_pushes:
  assumes ok: "level_ok i pl ph lo hi b data" and i: "i < 7" and k: "block_range page_shift i k \<subseteq> {pl..<ph}" "k \<notin> level_set b data"
  defines "G \<equiv> insert k (level_set b data)" and "g \<equiv> k div group_size i"
  shows "\<exists>b' data'. PushBlock D (page_address (k * 2 ^ page_shift i)) b data = Inr
      (if i + 1 < 7 \<and> block_group page_shift i g \<subseteq> G then page_address (g * 2 ^ page_shift (i + 1)) else 0, b', data') \<and>
    level_ok i pl ph lo hi b' data' \<and> same_outside lo hi data data' \<and>
    level_set b' data' = (if i + 1 < 7 \<and> block_group page_shift i g \<subseteq> G then G - block_group page_shift i g else G)"
proof -
  note okD = level_okD [OF ok] and kb = level_block [OF ok k(1)]
  let ?n = "unat (m_end_offset b)" and ?o = "k - level_base b" and ?d = "group_size i"
  have "page_address (k * 2 ^ page_shift i) - blk_heap_address b = page_address (?o * 2 ^ page_shift i)"
    using kb(1) unfolding okD(3) by (subst page_address_diff) (simp_all add: diff_mult_distrib)
  moreover have "?o * 2 ^ page_shift i \<le> page_limit" using kb(3) by (meson diff_le_self le_trans mult_le_mono1)
  ultimately have off_eq: "unat (drop_bit (m_block_shift b) (page_address (k * 2 ^ page_shift i) - blk_heap_address b)) = ?o"
    unfolding okD(1) by (simp only: page_address_drop) simp
  obtain bm1 data1 where set: "SetBit D ?o (m_bitmap b) data = Inr (bm1, data1)" "bitmap_ok ?n lo hi bm1 data1" "same_outside lo hi data data1"
    "bits_of ?n bm1 data1 = insert ?o (level_bits b data)"
    using SetBit_inserts [OF okD(7) kb(2)] k(2) level_set_iff [OF kb(1)] by blast
  let ?b = "b\<lparr>m_bitmap := bm1\<rparr>"
  have ok1: "level_ok i pl ph lo hi ?b data1" by (rule level_ok_bitmap [OF ok set(2)])
  have G: "level_set ?b data1 = G" using set(4) kb(1) by (simp add: level_set_def G_def)
  show ?thesis
  proof (cases "i + 1 < 7")
    case False
    then show ?thesis using off_eq set(1,3) ok1 G okD(2) by (simp add: PushBlock_def Let_def)
  next
    case True
    let ?p = "align_down ?o ?d"
    note off = group_offset [OF ok i kb(1,2)]
    have d: "?d < 64" "0 < ?d" using group_size_facts(2) [OF i] group_size_pos by simp_all
    have grp: "block_group page_shift i g = (+) (level_base b) ` {?p..<?p + ?d}"
    proof -
      have "block_group page_shift i g = {g * ?d..<g * ?d + ?d}" using True unfolding block_group_interval by (simp add: group_size_def)
      also have "\<dots> = {level_base b + ?p..<level_base b + (?p + ?d)}" by (simp only: g_def add.assoc flip: off(1))
      also have "\<dots> = (+) (level_base b) ` {?p..<?p + ?d}" by (simp only: image_add_atLeastLessThan ac_simps)
      finally show ?thesis .
    qed
    have test: "{?p..<?p + ?d} \<subseteq> bits_of ?n bm1 data1 \<longleftrightarrow> block_group page_shift i g \<subseteq> G"
      unfolding grp G [symmetric] level_set_def level_fields(1) by (subst inj_image_subset_iff) simp_all
    note cl = ClearRange_removes [OF set(2) d off(2,3), of D]
    have run: "PushBlock D (page_address (k * 2 ^ page_shift i)) b data =
      bindF (ClearRange D ?p ?d bm1 data1) (\<lambda>(cleared, bm, data). let b = b\<lparr>m_bitmap := bm\<rparr> in
        if cleared then Inr (blk_heap_address b + push_bit (m_block_shift b) (of_nat ?p), b, data) else Inr (0, b, data))"
      using off_eq set(1) okD(1,2) True next_diff [OF True] by (simp add: PushBlock_def Let_def)
    show ?thesis
    proof (cases "block_group page_shift i g \<subseteq> G")
      case False
      then show ?thesis using run cl(1) test ok1 set(3) G True by (simp add: Let_def)
    next
      case sub: True
      obtain bm2 data2 where c: "ClearRange D ?p ?d bm1 data1 = Inr (True, bm2, data2)" "bitmap_ok ?n lo hi bm2 data2"
        "same_outside lo hi data1 data2" "bits_of ?n bm2 data2 = bits_of ?n bm1 data1 - {?p..<?p + ?d}"
        using cl(2) test sub by blast
      have "blk_heap_address b + push_bit (m_block_shift b) (of_nat ?p) = page_address (g * 2 ^ page_shift (i + 1))"
        unfolding okD(1,3) push_address page_address_add g_def
        by (simp only: off(1) group_address [OF True] flip: add_mult_distrib)
      moreover have "level_set (b\<lparr>m_bitmap := bm2\<rparr>) data2 = G - block_group page_shift i g"
        unfolding grp G [symmetric] level_set_def by (simp add: c(4) image_set_diff)
      ultimately show ?thesis
        using run c(1) sub True level_ok_bitmap [OF ok c(2)] same_outside_trans [OF set(3) c(3)] by (simp add: Let_def)
    qed
  qed
qed

lemma PopBlock_pops:
  assumes ok: "level_ok i pl ph lo hi b data"
  shows "level_set b data = {} \<Longrightarrow> PopBlock D random b data = Inr (0, b, data)"
    "level_set b data \<noteq> {} \<Longrightarrow> \<exists>k b' data'. PopBlock D random b data = Inr (page_address (k * 2 ^ page_shift i), b', data') \<and>
      k \<in> level_set b data \<and> level_ok i pl ph lo hi b' data' \<and> same_outside lo hi data data' \<and> level_set b' data' = level_set b data - {k} \<and>
      blk_GetSize b' = blk_GetSize b \<and> (\<not> random \<longrightarrow> (\<forall>l \<in> level_set b data. k \<le> l))"
proof -
  note okD = level_okD [OF ok]
  let ?n = "unat (m_end_offset b)"
  show "PopBlock D random b data = Inr (0, b, data)" if "level_set b data = {}"
  proof -
    have "level_bits b data = {}" using that by (simp add: level_set_def)
    then show ?thesis using FindFreeBlock_finds(1) [OF okD(7)] by (simp add: PopBlock_def Let_def)
  qed
  assume "level_set b data \<noteq> {}"
  then have ne: "level_bits b data \<noteq> {}" by (simp add: level_set_def)
  obtain off g where f: "FindFreeBlock D random (m_bitmap b) data = Inr (int off, (m_bitmap b)\<lparr>m_rng := g\<rparr>)" "off \<in> level_bits b data"
    "\<not> random \<longrightarrow> (\<forall>x \<in> level_bits b data. off \<le> x)" using FindFreeBlock_finds(2) [OF okD(7) ne] by blast
  let ?bm = "(m_bitmap b)\<lparr>m_rng := g\<rparr>" and ?k = "level_base b + off"
  have "bitmap_ok ?n lo hi ?bm data" using okD(7) by (simp add: bitmap_ok_def)
  then obtain bm data' where c: "ClearBit D off ?bm data = Inr (bm, data')" "bitmap_ok ?n lo hi bm data'" "same_outside lo hi data data'"
    "bits_of ?n bm data' = level_bits b data - {off}"
    using ClearBit_removes [of ?n lo hi ?bm data off D] f(2) by auto
  have "blk_heap_address b + push_bit (m_block_shift b) (of_nat off) = page_address (?k * 2 ^ page_shift i)"
    unfolding okD(1,3) push_address page_address_add by (simp add: add_mult_distrib)
  then have "PopBlock D random b data = Inr (page_address (?k * 2 ^ page_shift i), b\<lparr>m_bitmap := bm\<rparr>, data')"
    using f(1) c(1) by (simp add: PopBlock_def Let_def)
  moreover have "level_set (b\<lparr>m_bitmap := bm\<rparr>) data' = level_set b data - {?k}" by (auto simp: level_set_def c(4))
  moreover have "?k \<in> level_set b data" "\<not> random \<longrightarrow> (\<forall>l \<in> level_set b data. ?k \<le> l)" using f(2,3) by (auto simp: level_set_def)
  moreover have "blk_GetSize (b\<lparr>m_bitmap := bm\<rparr>) = blk_GetSize b" by (simp add: blk_GetSize_def)
  ultimately show "\<exists>k b' data'. PopBlock D random b data = Inr (page_address (k * 2 ^ page_shift i), b', data') \<and>
      k \<in> level_set b data \<and> level_ok i pl ph lo hi b' data' \<and> same_outside lo hi data data' \<and> level_set b' data' = level_set b data - {k} \<and>
      blk_GetSize b' = blk_GetSize b \<and> (\<not> random \<longrightarrow> (\<forall>l \<in> level_set b data. k \<le> l))"
    using c(3) level_ok_bitmap [OF ok c(2)] by blast
qed

section \<open>The heap\<close>

lemma bitmap_frame:
  assumes "bitmap_ok n lo hi bm data" "length data' = length data" "\<And>p. lo \<le> p \<Longrightarrow> p < hi \<Longrightarrow> data' ! p = data ! p"
  shows "bitmap_ok n lo hi bm data'" "bits_of n bm data' = bits_of n bm data"
proof -
  note ok = bitmap_okD [OF assms(1)]
  have word: "level_word bm data' d i = level_word bm data d i" if "d < m_used_depths bm" "i < level_size (levels_below bm d) n" for d i
    using shape_level [OF ok(1) that(1)] that(2) assms(3) by (simp add: level_word_def)
  have bit: "level_bit bm data' d i = level_bit bm data d i" if "d < m_used_depths bm" "i < 64 * level_size (levels_below bm d) n" for d i
    using word [OF that(1), of "i div 64"] that(2) by (simp add: level_bit_def less_mult_imp_div_less mult.commute)
  have le: "level_size (levels_below bm (d + 1)) n \<le> 64 * level_size (levels_below bm d) n" if "d < m_used_depths bm" for d
    using shape_level(4) [OF ok(1) that] by simp
  show bits: "bits_of n bm data' = bits_of n bm data"
    using bit [of "m_used_depths bm - 1"] ok(4,5) by (auto simp: bits_of_def)
  have "summaries (m_used_depths bm) n bm data'"
    unfolding summaries_def
  proof (intro conjI allI impI)
    fix d i
    assume d: "d + 1 < m_used_depths bm" "i < level_size (levels_below bm (d + 1)) n"
    then show "level_bit bm data' d i \<longleftrightarrow> level_word bm data' (d + 1) i \<noteq> 0"
      using ok(3) le [of d] bit [of d i] word [of "d + 1" i] by (simp add: summaries_def)
  next
    fix d i
    assume "d < m_used_depths bm" "i < 64 * level_size (levels_below bm d) n" "level_bit bm data' d i"
    then show "i < level_size (levels_below bm (d + 1)) n" using ok(3) bit [of d i] by (simp add: summaries_def)
  qed
  then show "bitmap_ok n lo hi bm data'" using assms(1,2) bits by (simp add: bitmap_ok_def)
qed

lemma level_frame:
  assumes "level_ok i pl ph lo hi b data" "same_outside lo' hi' data data'" "hi \<le> lo' \<or> hi' \<le> lo"
  shows "level_ok i pl ph lo hi b data'" "level_set b data' = level_set b data"
proof -
  have same: "length data' = length data" "\<And>p. lo \<le> p \<Longrightarrow> p < hi \<Longrightarrow> data' ! p = data ! p"
    using assms(2,3) by (auto simp: same_outside_def)
  note frame = bitmap_frame [OF level_okD(7) [OF assms(1)] same]
  show "level_ok i pl ph lo hi b data'" using level_ok_bitmap [OF assms(1) frame(1)] by simp
  show "level_set b data' = level_set b data" using frame(2) by (simp add: level_set_def)
qed

definition heap_sets :: "KPageHeap \<Rightarrow> nat \<Rightarrow> nat set" where
  "heap_sets hp i = (if i < 7 then level_set (hp_blocks hp ! i) (m_management_data hp) else {})"

definition heap_free :: "KPageHeap \<Rightarrow> nat set" where
  "heap_free hp = free_of page_shift 7 (heap_sets hp)"

definition heap_ok :: "nat \<Rightarrow> nat \<Rightarrow> (nat \<Rightarrow> nat) \<Rightarrow> KPageHeap \<Rightarrow> bool" where
  "heap_ok pl ph r hp \<longleftrightarrow> length (hp_blocks hp) = 7 \<and> m_num_blocks hp = 7 \<and> 0 < pl \<and> pl < ph \<and> ph \<le> 2 ^ 50 \<and> ph - pl < 2 ^ 24 \<and>
    hp_heap_address hp = page_address pl \<and> m_heap_size hp = page_address (ph - pl) \<and> gen_ok (hp_rng hp) \<and>
    (\<forall>i < 7. r i \<le> r (Suc i)) \<and>
    (\<forall>i < 7. level_ok i pl ph (r i) (r (Suc i)) (hp_blocks hp ! i) (m_management_data hp)) \<and>
    buddy_ok page_shift 7 pl ph (heap_sets hp)"

lemma heap_okD:
  assumes "heap_ok pl ph r hp"
  shows "length (hp_blocks hp) = 7" "m_num_blocks hp = 7" "0 < pl" "ph \<le> page_limit" "ph + 262144 \<le> page_limit" "gen_ok (hp_rng hp)"
    "i < 7 \<Longrightarrow> level_ok i pl ph (r i) (r (Suc i)) (hp_blocks hp ! i) (m_management_data hp)"
    "buddy_ok page_shift 7 pl ph (heap_sets hp)" "i < 7 \<Longrightarrow> hp_block hp i = Inr (hp_blocks hp ! i)"
  using assms by (auto simp: heap_ok_def page_limit_def hp_block_def)

lemma heap_page_nonzero: "heap_ok pl ph r hp \<Longrightarrow> p \<in> {pl..<ph} \<Longrightarrow> page_address p \<noteq> 0"
  using heap_okD(3,4) [of pl ph r hp] page_address_0(2) [of p] by force

lemma regions_mono: "heap_ok pl ph r hp \<Longrightarrow> i \<le> j \<Longrightarrow> j \<le> 7 \<Longrightarrow> r i \<le> r j"
proof (induction j)
  case (Suc j)
  then show ?case by (cases "i = Suc j") (auto simp: heap_ok_def intro: order_trans)
qed simp

lemma heap_step:
  assumes ok: "heap_ok pl ph r hp" and i: "i < 7" and b: "level_ok i pl ph (r i) (r (Suc i)) b data"
    and same: "same_outside (r i) (r (Suc i)) (m_management_data hp) data"
    and buddy: "buddy_ok page_shift 7 pl ph ((heap_sets hp)(i := level_set b data))"
  shows "heap_ok pl ph r (hp_set i b data hp)" "heap_sets (hp_set i b data hp) = (heap_sets hp)(i := level_set b data)"
proof -
  note okD = heap_okD [OF ok]
  have frame: "level_ok j pl ph (r j) (r (Suc j)) (hp_blocks hp ! j) data" "level_set (hp_blocks hp ! j) data = heap_sets hp j" if "j < 7" "j \<noteq> i" for j
  proof -
    have "r (Suc j) \<le> r i \<or> r (Suc i) \<le> r j"
      using regions_mono [OF ok, of "Suc j" i] regions_mono [OF ok, of "Suc i" j] that i by (cases "j < i") auto
    then show "level_ok j pl ph (r j) (r (Suc j)) (hp_blocks hp ! j) data" "level_set (hp_blocks hp ! j) data = heap_sets hp j"
      using level_frame [OF okD(7) [OF that(1)] same] that(1) by (auto simp: heap_sets_def)
  qed
  show sets: "heap_sets (hp_set i b data hp) = (heap_sets hp)(i := level_set b data)"
  proof
    fix j
    show "heap_sets (hp_set i b data hp) j = ((heap_sets hp)(i := level_set b data)) j"
      using frame(2) [of j] i okD(1) by (cases "j = i"; cases "j < 7") (simp_all add: heap_sets_def hp_set_def)
  qed
  have "level_ok j pl ph (r j) (r (Suc j)) (hp_blocks (hp_set i b data hp) ! j) data" if "j < 7" for j
    using frame(1) [OF that] b okD(1) that by (cases "j = i") (simp_all add: hp_set_def)
  then show "heap_ok pl ph r (hp_set i b data hp)"
    using ok buddy unfolding heap_ok_def sets by (simp add: hp_set_def)
qed

lemma hp_set_rng [simp]: "hp_rng (hp_set i b data hp) = hp_rng hp"
  by (simp add: hp_set_def)

lemma FreeBlock_frees:
  assumes "heap_ok pl ph r hp" "i < 7" "block_range page_shift i k \<subseteq> {pl..<ph}" "block_range page_shift i k \<inter> heap_free hp = {}"
  shows "\<exists>hp'. FreeBlock D (page_address (k * 2 ^ page_shift i)) i hp = Inr hp' \<and> heap_ok pl ph r hp' \<and>
    heap_free hp' = heap_free hp \<union> block_range page_shift i k \<and> hp_rng hp' = hp_rng hp"
  using assms
proof (induction "7 - i" arbitrary: i k hp rule: less_induct)
  case less
  note okD = heap_okD [OF less.prems(1)] and i = less.prems(2)
  let ?b = "hp_blocks hp ! i" and ?data = "m_management_data hp" and ?F = "heap_sets hp"
  let ?G = "?F(i := insert k (?F i))" and ?g = "k div 2 ^ (page_shift (i + 1) - page_shift i)"
  let ?up = "i + 1 < 7 \<and> block_group page_shift i ?g \<subseteq> ?G i"
  have "k \<notin> ?F i" using less.prems(4) sizes.pop_step(3) [OF okD(8) i, of k] block_range_start [of k page_shift i] unfolding heap_free_def by blast
  then have k: "k \<notin> level_set ?b ?data" using i by (simp add: heap_sets_def)
  have g: "i + 1 < 7 \<Longrightarrow> k div group_size i = ?g" by (simp add: group_size_def)
  obtain b data where push: "PushBlock D (page_address (k * 2 ^ page_shift i)) ?b ?data = Inr (if ?up then page_address (?g * 2 ^ page_shift (i + 1)) else 0, b, data)"
    "level_ok i pl ph (r i) (r (Suc i)) b data" "same_outside (r i) (r (Suc i)) ?data data"
    "level_set b data = (if ?up then ?G i - block_group page_shift i ?g else ?G i)"
    using PushBlock_pushes [OF okD(7) [OF i] i less.prems(3) k, of D] i g by (cases "i + 1 < 7") (auto simp: heap_sets_def)
  note step = sizes.push_step [OF okD(8) i less.prems(3)]
  have run: "FreeBlock D (page_address (k * 2 ^ page_shift i)) i hp =
      (if ?up \<and> page_address (?g * 2 ^ page_shift (i + 1)) \<noteq> 0
       then FreeBlock D (page_address (?g * 2 ^ page_shift (i + 1))) (i + 1) (hp_set i b data hp) else Inr (hp_set i b data hp))"
    using okD(9) [OF i] push(1) by (subst FreeBlock.simps) (simp add: Let_def)
  have disj: "block_range page_shift i k \<inter> free_of page_shift 7 ?F = {}" using less.prems(4) by (simp add: heap_free_def)
  show ?case
  proof (cases ?up)
    case False
    have upd: "?F(i := level_set b data) = ?G" unfolding push(4) if_not_P [OF False] by simp
    have "buddy_ok page_shift 7 pl ph (?F(i := level_set b data))" "free_of page_shift 7 (?F(i := level_set b data)) = heap_free hp \<union> block_range page_shift i k"
      using step(1) [OF disj False] unfolding upd heap_free_def by blast+
    moreover have "FreeBlock D (page_address (k * 2 ^ page_shift i)) i hp = Inr (hp_set i b data hp)"
      unfolding run using False by (intro if_not_P) blast
    ultimately show ?thesis
      using heap_step [OF less.prems(1) i push(2,3)] by (intro exI [of _ "hp_set i b data hp"]) (simp add: heap_free_def)
  next
    case True
    have upd: "?F(i := level_set b data) = ?G(i := ?G i - block_group page_shift i ?g)" unfolding push(4) if_P [OF True] by simp
    note up = step(2) [OF disj conjunct1 [OF True] conjunct2 [OF True]]
    have hp: "heap_ok pl ph r (hp_set i b data hp)" "heap_sets (hp_set i b data hp) = ?G(i := ?G i - block_group page_shift i ?g)"
      using heap_step [OF less.prems(1) i push(2,3)] up unfolding upd by simp_all
    have "?g * 2 ^ page_shift (i + 1) \<in> {pl..<ph}" using up block_range_start [of ?g page_shift "i + 1"] by blast
    then have "page_address (?g * 2 ^ page_shift (i + 1)) \<noteq> 0" by (rule heap_page_nonzero [OF less.prems(1)])
    then have "FreeBlock D (page_address (k * 2 ^ page_shift i)) i hp = FreeBlock D (page_address (?g * 2 ^ page_shift (i + 1))) (i + 1) (hp_set i b data hp)"
      using run True by simp
    moreover have "7 - (i + 1) < 7 - i" using i by simp
    ultimately show ?thesis
      using less.hyps [of "i + 1" "hp_set i b data hp" ?g] True hp up by (simp add: heap_free_def)
  qed
qed

section \<open>Freeing a range\<close>

definition pages_freed :: "nat \<Rightarrow> nat \<Rightarrow> (nat \<Rightarrow> nat) \<Rightarrow> KPageHeap \<Rightarrow> nat set \<Rightarrow> KPageHeap \<Rightarrow> bool" where
  "pages_freed pl ph r hp S hp' \<longleftrightarrow> heap_ok pl ph r hp' \<and> heap_free hp' = heap_free hp \<union> S \<and> hp_rng hp' = hp_rng hp"

lemma freed_trans: "pages_freed pl ph r a S b \<Longrightarrow> pages_freed pl ph r b T c \<Longrightarrow> pages_freed pl ph r a (S \<union> T) c"
  by (simp add: pages_freed_def Un_assoc)

lemma freed_rest: "pages_freed pl ph r hp S hp' \<Longrightarrow> X \<inter> heap_free hp = {} \<Longrightarrow> X \<inter> S = {} \<Longrightarrow> X \<inter> heap_free hp' = {}"
  unfolding pages_freed_def by blast

lemma freed_refl: "heap_ok pl ph r hp \<Longrightarrow> pages_freed pl ph r hp {} hp"
  by (simp add: pages_freed_def)

lemma bindO_simps [simp]: "bindO (Some (Inr x)) k = k x" "bindO (Some (Inl f)) k = Some (Inl f)"
  by (simp_all add: bindO_def)

lemma loop_while_counts:
  assumes "\<And>j s. j < m \<Longrightarrow> Q j s \<Longrightarrow> test s \<and> (\<exists>s'. body s = Inr s' \<and> Q (Suc j) s')" "\<And>s. Q m s \<Longrightarrow> \<not> test s"
  shows "j \<le> m \<Longrightarrow> Q j s \<Longrightarrow> \<exists>s'. loop_while test body s = Some (Inr s') \<and> Q m s'"
proof (induction "m - j" arbitrary: j s)
  case 0
  then show ?case using assms(2) [of s] by (subst loop_while.simps) simp
next
  case (Suc n)
  then have "j < m" by simp
  then obtain s' where "test s" "body s = Inr s'" "Q (Suc j) s'" using assms(1) [of j s] Suc.prems(2) by auto
  then show ?case using Suc.hyps(1) [of "Suc j" s'] Suc.hyps(2) \<open>j < m\<close> by (subst loop_while.simps) simp
qed

lemma blk_size: "level_ok i pl ph lo hi b data \<Longrightarrow> blk_GetSize b = page_address (2 ^ page_shift i)"
  by (simp only: blk_GetSize_def level_okD(1) size_address)

lemma freed_next:
  assumes "pages_freed pl ph r hp {a..<b} hp1" "b = k * 2 ^ page_shift i" "i < 7" "a \<le> b" "{a..<c} \<subseteq> {pl..<ph}" "{a..<c} \<inter> heap_free hp = {}"
    "b + 2 ^ page_shift i \<le> c"
  shows "\<exists>hp2. FreeBlock D (page_address b) i hp1 = Inr hp2 \<and> pages_freed pl ph r hp {a..<b + 2 ^ page_shift i} hp2"
proof -
  have S: "block_range page_shift i k = {b..<b + 2 ^ page_shift i}" by (simp add: block_range_interval assms(2))
  have sub: "block_range page_shift i k \<subseteq> {a..<c}" "block_range page_shift i k \<inter> {a..<b} = {}" unfolding S using assms(4,7) by auto
  then have in_heap: "block_range page_shift i k \<subseteq> {pl..<ph}" using assms(5) by blast
  have "block_range page_shift i k \<inter> heap_free hp1 = {}" using assms(1,6) sub unfolding pages_freed_def by blast
  then obtain hp2 where hp2: "FreeBlock D (page_address b) i hp1 = Inr hp2" "pages_freed pl ph r hp1 {b..<b + 2 ^ page_shift i} hp2"
    using FreeBlock_frees [of pl ph r hp1 i k D] assms(1-3) in_heap S by (auto simp: pages_freed_def)
  moreover have "{a..<b} \<union> {b..<b + 2 ^ page_shift i} = {a..<b + 2 ^ page_shift i}" using assms(4) by auto
  ultimately show ?thesis using freed_trans [OF assms(1) hp2(2)] by auto
qed

text \<open>A loop upwards over \<open>m\<close> blocks, which ends at the first address for which its test fails.\<close>

lemma loop_up:
  assumes ok: "heap_ok pl ph r hp" "i < 7" and range: "{k * 2 ^ page_shift i..<(k + m) * 2 ^ page_shift i} \<subseteq> {pl..<ph}"
    "{k * 2 ^ page_shift i..<(k + m) * 2 ^ page_shift i} \<inter> heap_free hp = {}"
    and test: "\<And>j. j \<le> m \<Longrightarrow> test (page_address ((k + j) * 2 ^ page_shift i)) \<longleftrightarrow> j < m"
    and sz: "sz = page_address (2 ^ page_shift i)"
  shows "\<exists>hp'. loop_while (\<lambda>(a, hp). test a) (\<lambda>(a, hp). bindF (FreeBlock D a i hp) (\<lambda>hp. Inr (a + sz, hp))) (page_address (k * 2 ^ page_shift i), hp) =
      Some (Inr (page_address ((k + m) * 2 ^ page_shift i), hp')) \<and> pages_freed pl ph r hp {k * 2 ^ page_shift i..<(k + m) * 2 ^ page_shift i} hp'"
proof -
  let ?a = "\<lambda>j. (k + j) * 2 ^ page_shift i"
  let ?Q = "\<lambda>j (a, h). a = page_address (?a j) \<and> pages_freed pl ph r hp {?a 0..<?a j} h"
  have "\<exists>s'. loop_while (\<lambda>(a, hp). test a) (\<lambda>(a, hp). bindF (FreeBlock D a i hp) (\<lambda>hp. Inr (a + sz, hp))) (page_address (?a 0), hp) = Some (Inr s') \<and> ?Q m s'"
  proof (rule loop_while_counts [of m ?Q _ _ 0])
    fix j s
    assume j: "j < m" and Q: "?Q j s"
    obtain a h where s: "s = (a, h)" "a = page_address (?a j)" "pages_freed pl ph r hp {?a 0..<?a j} h" using Q by (cases s) auto
    have step: "?a j + 2 ^ page_shift i = ?a (Suc j)" by (simp add: add_mult_distrib)
    have le: "?a (Suc j) \<le> ?a m" using j by (intro mult_le_mono1) simp
    obtain h' where h': "FreeBlock D a i h = Inr h'" "pages_freed pl ph r hp {?a 0..<?a (Suc j)} h'"
      using freed_next [OF s(3) refl ok(2), of "?a m" D] range le s(2) unfolding step by auto
    have "a + sz = page_address (?a (Suc j))" unfolding s(2) sz page_address_add step ..
    then show "(case s of (a, hp) \<Rightarrow> test a) \<and> (\<exists>s'. (case s of (a, hp) \<Rightarrow> bindF (FreeBlock D a i hp) (\<lambda>hp. Inr (a + sz, hp))) = Inr s' \<and> ?Q (Suc j) s')"
      using test [of j] j h' s by simp
  next
    fix s
    assume "?Q m s"
    then show "\<not> (case s of (a, hp) \<Rightarrow> test a)" using test [of m] by (cases s) simp
  qed (use freed_refl [OF ok(1)] in simp_all)
  then show ?thesis by auto
qed

text \<open>A loop downwards frees blocks while one fits above \<open>a\<close>.\<close>

lemma freed_below:
  assumes "pages_freed pl ph r hp {e..<c} hp1" "e = Suc k * 2 ^ page_shift i" "i < 7" "e \<le> c" "{a..<c} \<subseteq> {pl..<ph}" "{a..<c} \<inter> heap_free hp = {}"
    "a \<le> k * 2 ^ page_shift i"
  shows "\<exists>hp2. FreeBlock D (page_address (k * 2 ^ page_shift i)) i hp1 = Inr hp2 \<and> pages_freed pl ph r hp {k * 2 ^ page_shift i..<c} hp2"
proof -
  let ?b = "k * 2 ^ page_shift i"
  have S: "block_range page_shift i k = {?b..<e}" by (simp add: block_range_interval assms(2) add.commute)
  have be: "?b \<le> e" by (simp add: assms(2))
  have sub: "block_range page_shift i k \<subseteq> {a..<c}" "block_range page_shift i k \<inter> {e..<c} = {}" unfolding S using assms(4,7) by auto
  then have in_heap: "block_range page_shift i k \<subseteq> {pl..<ph}" using assms(5) by blast
  have "block_range page_shift i k \<inter> heap_free hp1 = {}" using assms(1,6) sub unfolding pages_freed_def by blast
  then obtain hp2 where hp2: "FreeBlock D (page_address ?b) i hp1 = Inr hp2" "pages_freed pl ph r hp1 {?b..<e} hp2"
    using FreeBlock_frees [of pl ph r hp1 i k D] assms(1,3) in_heap S by (auto simp: pages_freed_def)
  moreover have "{e..<c} \<union> {?b..<e} = {?b..<c}" using assms(4) be by auto
  ultimately show ?thesis using freed_trans [OF assms(1) hp2(2)] by auto
qed

lemma loop_down:
  assumes ok: "heap_ok pl ph r hp" "i < 7" and a: "a \<le> (q - m) * 2 ^ page_shift i" "m \<le> q" "(q - m) * 2 ^ page_shift i < a + 2 ^ page_shift i"
    and range: "{a..<q * 2 ^ page_shift i} \<subseteq> {pl..<ph}" "{a..<q * 2 ^ page_shift i} \<inter> heap_free hp = {}" "a \<le> ph" "q * 2 ^ page_shift i \<le> ph"
    and sz: "sz = page_address (2 ^ page_shift i)"
  shows "\<exists>hp'. loop_while (\<lambda>(e, hp). page_address a + sz \<le> e)
      (\<lambda>(e, hp). let e = e - sz in bindF (FreeBlock D e i hp) (\<lambda>hp. Inr (e, hp))) (page_address (q * 2 ^ page_shift i), hp) =
      Some (Inr (page_address ((q - m) * 2 ^ page_shift i), hp')) \<and> pages_freed pl ph r hp {(q - m) * 2 ^ page_shift i..<q * 2 ^ page_shift i} hp'"
proof -
  let ?w = "2 ^ page_shift i :: nat" and ?e = "\<lambda>j. (q - j) * 2 ^ page_shift i"
  let ?Q = "\<lambda>j (x, h). x = page_address (?e j) \<and> pages_freed pl ph r hp {?e j..<q * 2 ^ page_shift i} h"
  let ?test = "\<lambda>(e, hp). page_address a + sz \<le> e" and ?body = "\<lambda>(e, hp). let e = e - sz in bindF (FreeBlock D e i hp) (\<lambda>hp. Inr (e, hp))"
  have lim: "a + ?w \<le> page_limit" "?e j \<le> page_limit" for j
    using heap_okD(4,5) [OF ok(1)] size_bound [OF ok(2)] range(3,4) mult_le_mono1 [OF diff_le_self, of q j ?w] by linarith+
  have test: "?test (page_address (?e j), h) \<longleftrightarrow> a + ?w \<le> ?e j" for j h
    by (simp only: sz page_address_add page_address_le [OF lim(1,2)] prod.case)
  have "\<exists>s'. loop_while ?test ?body (page_address (?e 0), hp) = Some (Inr s') \<and> ?Q m s'"
  proof (rule loop_while_counts [of m ?Q _ _ 0])
    fix j s
    assume j: "j < m" and Q: "?Q j s"
    obtain x h where s: "s = (x, h)" "x = page_address (?e j)" "pages_freed pl ph r hp {?e j..<q * ?w} h" using Q by (cases s) auto
    have q: "q - j = Suc (q - Suc j)" using j a(2) by simp
    have eq: "?e j = Suc (q - Suc j) * ?w" and ec: "?e j \<le> q * ?w" using q by (simp_all only: mult_le_mono1 diff_le_self)
    have step: "?e j = ?e (Suc j) + ?w" unfolding q by simp
    have le: "?e m \<le> ?e (Suc j)" using j by (intro mult_le_mono1) simp
    obtain h' where h': "FreeBlock D (page_address (?e (Suc j))) i h = Inr h'" "pages_freed pl ph r hp {?e (Suc j)..<q * ?w} h'"
      using freed_below [OF s(3) eq ok(2) ec range(1,2) order_trans [OF a(1) le]] by blast
    have "x - sz = page_address (?e (Suc j))" unfolding s(2) sz step by (simp add: page_address_diff)
    then show "?test s \<and> (\<exists>s'. ?body s = Inr s' \<and> ?Q (Suc j) s')"
      using test [of j h] step le a(1) h' s by (simp add: Let_def)
  next
    fix s
    assume "?Q m s"
    then show "\<not> ?test s" using test [of m] a(3) by (cases s) simp
  qed (use freed_refl [OF ok(1)] in simp_all)
  then show ?thesis by auto
qed

lemma size_dvd: "i \<le> j \<Longrightarrow> j < 7 \<Longrightarrow> (2 :: nat) ^ page_shift i dvd 2 ^ page_shift j"
  using sizes.sizes_le [of i j] by (simp add: le_imp_power_dvd)

lemma blocks_between:
  fixes w :: nat
  assumes "0 < w" "a \<le> e"
  shows "(e - a) div w * w \<le> e - a" "e - a < (e - a) div w * w + w"
  using div_times_less_eq_dividend dividend_less_div_times [OF assms(1), of "e - a"] by (simp_all add: add.commute)

lemma blocks_below:
  fixes w :: nat
  assumes "0 < w" "a \<le> q * w"
  defines "m \<equiv> (q * w - a) div w"
  shows "m \<le> q" "a \<le> (q - m) * w" "(q - m) * w < a + w" "(q - m) * w \<le> q * w"
proof -
  note b = blocks_between [OF assms(1,2), folded m_def]
  have "m * w \<le> q * w" using b(1) by linarith
  then show "m \<le> q" using assms(1) by simp
  then show "a \<le> (q - m) * w" "(q - m) * w < a + w" "(q - m) * w \<le> q * w"
    using b assms(2) by (simp_all add: diff_mult_distrib)
qed

text \<open>The levels below the big blocks, from large to small: what is left is smaller than a block, in the end nothing.\<close>

lemma free_before_frees:
  assumes "heap_ok pl ph r hp" "n \<le> 7" "a \<le> e" "{a..<e} \<subseteq> {pl..<ph}" "{a..<e} \<inter> heap_free hp = {}" "e \<le> ph"
    and "if n = 0 then a = e else 2 ^ page_shift (n - 1) dvd e"
  shows "\<exists>hp'. free_before D n (page_address a) (page_address e) hp = Some (Inr hp') \<and> pages_freed pl ph r hp {a..<e} hp'"
  using assms
proof (induction n arbitrary: e hp)
  case 0
  then show ?case using freed_refl by simp
next
  case (Suc i)
  note okD = heap_okD [OF Suc.prems(1)]
  let ?w = "2 ^ page_shift i :: nat" and ?m = "(e - a) div 2 ^ page_shift i" and ?b = "hp_blocks hp ! i"
  obtain q where q: "e = q * ?w" using Suc.prems(7) by (auto elim!: dvdE simp: mult.commute)
  let ?e = "(q - ?m) * ?w"
  have i: "i < 7" using Suc.prems(2) by simp
  have m: "?m \<le> q" "a \<le> ?e" "?e < a + ?w" "?e \<le> e" using blocks_below [of ?w a q] Suc.prems(3) q by simp_all
  obtain h1 where h1: "loop_while (\<lambda>(e, hp). page_address a + blk_GetSize ?b \<le> e)
      (\<lambda>(e, hp). let e = e - blk_GetSize ?b in bindF (FreeBlock D e i hp) (\<lambda>hp. Inr (e, hp))) (page_address e, hp) =
      Some (Inr (page_address ?e, h1))" "pages_freed pl ph r hp {?e..<e} h1"
    using loop_down [OF Suc.prems(1) i m(2,1,3), of "blk_GetSize ?b" D] Suc.prems(3-6) blk_size [OF okD(7) [OF i]] unfolding q by auto
  have rest: "{a..<?e} \<subseteq> {a..<e}" "{a..<?e} \<inter> {?e..<e} = {}" using m(4) by auto
  have left: "{a..<?e} \<subseteq> {pl..<ph}" "{a..<?e} \<inter> heap_free h1 = {}" "?e \<le> ph"
    using Suc.prems(4-6) m(4) rest freed_rest [OF h1(2)] by (blast, blast, linarith)
  have "if i = 0 then a = ?e else 2 ^ page_shift (i - 1) dvd ?e" using m(2,3) size_dvd [of "i - 1" i] i by (auto intro: dvd_mult)
  then obtain h2 where h2: "free_before D i (page_address a) (page_address ?e) h1 = Some (Inr h2)" "pages_freed pl ph r h1 {a..<?e} h2"
    using Suc.IH [OF _ _ m(2) left(1,2,3)] h1(2) i by (auto simp: pages_freed_def)
  have "{?e..<e} \<union> {a..<?e} = {a..<e}" using m(2,4) by auto
  then show ?case using freed_trans [OF h1(2) h2(2)] h1(1) h2(1) okD(9) [OF i] by simp
qed

lemma free_after_frees:
  assumes "heap_ok pl ph r hp" "n \<le> 7" "a \<le> e" "{a..<e} \<subseteq> {pl..<ph}" "{a..<e} \<inter> heap_free hp = {}" "e \<le> ph"
    and "if n = 0 then a = e else 2 ^ page_shift (n - 1) dvd a"
  shows "\<exists>hp'. free_after D n (page_address a) (page_address e) hp = Some (Inr hp') \<and> pages_freed pl ph r hp {a..<e} hp'"
  using assms
proof (induction n arbitrary: a hp)
  case 0
  then show ?case using freed_refl by simp
next
  case (Suc i)
  note okD = heap_okD [OF Suc.prems(1)]
  let ?w = "2 ^ page_shift i :: nat" and ?m = "(e - a) div 2 ^ page_shift i" and ?b = "hp_blocks hp ! i"
  obtain q where q: "a = q * ?w" using Suc.prems(7) by (auto elim!: dvdE simp: mult.commute)
  let ?a = "(q + ?m) * ?w"
  have i: "i < 7" using Suc.prems(2) by simp
  have m: "a \<le> ?a" "?a \<le> e" "e < ?a + ?w"
  proof -
    have "?a = a + ?m * ?w" unfolding add_mult_distrib q ..
    moreover have "0 < ?w" by simp
    ultimately show "a \<le> ?a" "?a \<le> e" "e < ?a + ?w" using blocks_between [OF _ Suc.prems(3), of ?w] Suc.prems(3) by linarith+
  qed
  have lim: "(q + j) * ?w + ?w \<le> page_limit" if "j \<le> ?m" for j
    using okD(5) size_bound [OF i] Suc.prems(6) m(2) mult_le_mono1 [of "q + j" "q + ?m" ?w] that by linarith
  have test: "page_address ((q + j) * ?w) + blk_GetSize ?b \<le> page_address e \<longleftrightarrow> j < ?m" if "j \<le> ?m" for j
  proof -
    have "page_address ((q + j) * ?w) + blk_GetSize ?b \<le> page_address e \<longleftrightarrow> (q + j) * ?w + ?w \<le> e"
      using page_address_le [OF lim [OF that], of e] okD(4) Suc.prems(6) by (simp only: blk_size [OF okD(7) [OF i]] page_address_add)
    also have "\<dots> \<longleftrightarrow> j < ?m"
    proof
      assume "j < ?m"
      then have "(q + Suc j) * ?w \<le> ?a" by (intro mult_le_mono1) simp
      then show "(q + j) * ?w + ?w \<le> e" using m(2) by (simp add: add_mult_distrib)
    next
      assume "(q + j) * ?w + ?w \<le> e"
      then show "j < ?m" using m(3) that by (cases "j = ?m") auto
    qed
    finally show ?thesis .
  qed
  obtain h1 where h1: "loop_while (\<lambda>(a, hp). a + blk_GetSize ?b \<le> page_address e)
      (\<lambda>(a, hp). bindF (FreeBlock D a i hp) (\<lambda>hp. Inr (a + blk_GetSize ?b, hp))) (page_address a, hp) =
      Some (Inr (page_address ?a, h1))" "pages_freed pl ph r hp {a..<?a} h1"
    using loop_up [OF Suc.prems(1) i, of q ?m "\<lambda>a. a + blk_GetSize ?b \<le> page_address e" "blk_GetSize ?b" D] test
      Suc.prems(4,5) m(1,2) blk_size [OF okD(7) [OF i]] unfolding q [symmetric] by fastforce
  have rest: "{?a..<e} \<subseteq> {a..<e}" "{?a..<e} \<inter> {a..<?a} = {}" using m(1) by auto
  have left: "{?a..<e} \<subseteq> {pl..<ph}" "{?a..<e} \<inter> heap_free h1 = {}"
    using Suc.prems(4,5) rest freed_rest [OF h1(2)] by (blast, blast)
  have "if i = 0 then ?a = e else 2 ^ page_shift (i - 1) dvd ?a" using m(2,3) size_dvd [of "i - 1" i] i by (auto intro: dvd_mult)
  then obtain h2 where h2: "free_after D i (page_address ?a) (page_address e) h1 = Some (Inr h2)" "pages_freed pl ph r h1 {?a..<e} h2"
    using Suc.IH [OF _ _ m(2) left Suc.prems(6)] h1(2) i by (auto simp: pages_freed_def)
  have "{a..<?a} \<union> {?a..<e} = {a..<e}" using m(1,2) by auto
  then show ?case using freed_trans [OF h1(2) h2(2)] h1(1) h2(1) okD(9) [OF i] by simp
qed

lemma big_search_finds:
  assumes "heap_ok pl ph r hp" "a < e" "e \<le> ph" "0 < n" "n \<le> 7"
  shows "\<exists>b s t. big_search n (page_address a) (page_address e) hp = Inr (Suc b, page_address s, page_address t) \<and> b < n \<and>
    2 ^ page_shift b dvd s \<and> 2 ^ page_shift b dvd t \<and> a \<le> s \<and> s < t \<and> t \<le> e \<and> (b = 0 \<longrightarrow> s = a \<and> t = e)"
  using assms(4,5)
proof (induction n)
  case (Suc i)
  note okD = heap_okD [OF assms(1)]
  let ?w = "2 ^ page_shift i :: nat"
  have i: "i < 7" using Suc.prems by simp
  define s where "s = (a + ?w - 1) div ?w * ?w"
  define t where "t = e div ?w * ?w"
  have lim: "a \<le> page_limit" "e \<le> page_limit" "?w \<le> page_limit" "a + ?w \<le> page_limit"
    using okD(4,5) size_bound [OF i] assms(2,3) by linarith+
  have s: "a \<le> s" "s \<le> a + ?w" and t: "t \<le> e"
  proof -
    have "a + ?w - 1 < s + ?w" "s \<le> a + ?w - 1" unfolding s_def
      using dividend_less_div_times [of ?w "a + ?w - 1"] div_times_less_eq_dividend [of "a + ?w - 1" ?w] by (simp_all add: add.commute)
    moreover have "1 \<le> ?w" by simp
    ultimately show "a \<le> s" "s \<le> a + ?w" by linarith+
    show "t \<le> e" by (simp add: t_def)
  qed
  have "AlignUp_u64 (page_address a) (page_address ?w) = page_address s" "AlignDown_u64 (page_address e) (page_address ?w) = page_address t"
    using AlignUp_address [OF lim(1,3)] AlignDown_address [OF lim(2,3)] by (simp_all add: s_def t_def)
  moreover have "page_address s < page_address t \<longleftrightarrow> s < t" using page_address_less [of s t] s t lim by linarith
  ultimately have run: "big_search (Suc i) (page_address a) (page_address e) hp =
      (if s < t then Inr (Suc i, page_address s, page_address t) else big_search i (page_address a) (page_address e) hp)"
    using okD(9) [OF i] by (simp add: Let_def blk_size [OF okD(7) [OF i]])
  show ?case
  proof (cases "s < t")
    case True
    have "i = 0 \<longrightarrow> s = a \<and> t = e" by (simp add: s_def t_def)
    moreover have "?w dvd s" "?w dvd t" by (simp_all add: s_def t_def)
    ultimately show ?thesis using run True s t by auto
  next
    case False
    then have "i \<noteq> 0" using assms(2) by (cases "i = 0") (simp_all add: s_def t_def)
    then have "\<exists>b s t. big_search i (page_address a) (page_address e) hp = Inr (Suc b, page_address s, page_address t) \<and> b < i \<and>
      2 ^ page_shift b dvd s \<and> 2 ^ page_shift b dvd t \<and> a \<le> s \<and> s < t \<and> t \<le> e \<and> (b = 0 \<longrightarrow> s = a \<and> t = e)"
      using Suc.IH i by simp
    then show ?thesis unfolding run if_not_P [OF False] using less_SucI by blast
  qed
qed simp

lemma free_big_frees:
  assumes "heap_ok pl ph r hp" "i < 7" "2 ^ page_shift i dvd s" "2 ^ page_shift i dvd t" "s < t" "{s..<t} \<subseteq> {pl..<ph}" "{s..<t} \<inter> heap_free hp = {}" "t \<le> ph"
  shows "\<exists>hp'. free_big D i (page_address s) (page_address t) hp = Some (Inr hp') \<and> pages_freed pl ph r hp {s..<t} hp'"
proof -
  note okD = heap_okD [OF assms(1)]
  let ?w = "2 ^ page_shift i :: nat" and ?b = "hp_blocks hp ! i"
  obtain k l where kl: "s = k * ?w" "t = l * ?w" using assms(3,4) by (auto elim!: dvdE simp: mult.commute)
  have "k < l" using assms(5) kl by simp
  then obtain m where m: "l = k + m" using less_imp_add_positive by blast
  have test: "page_address ((k + j) * ?w) < page_address t \<longleftrightarrow> j < m" if "j \<le> m" for j
  proof -
    have "(k + j) * ?w \<le> page_limit" "t \<le> page_limit" using okD(4) assms(8) mult_le_mono1 [of "k + j" l ?w] that kl(2) m by linarith+
    then show ?thesis using page_address_less kl(2) m by simp
  qed
  obtain hp' where "loop_while (\<lambda>(a, hp). a < page_address t)
      (\<lambda>(a, hp). bindF (FreeBlock D a i hp) (\<lambda>hp. Inr (a + blk_GetSize ?b, hp))) (page_address s, hp) = Some (Inr (page_address t, hp'))"
      "pages_freed pl ph r hp {s..<t} hp'"
    using loop_up [OF assms(1,2), of k m "\<lambda>a. a < page_address t" "blk_GetSize ?b" D] test assms(6,7) blk_size [OF okD(7) [OF assms(2)]]
    unfolding kl m by blast
  then show ?thesis using okD(9) [OF assms(2)] by (simp add: free_big_def)
qed

text \<open>Freeing pages that are not free adds them to the free ones.\<close>

lemma heap_Free_frees:
  assumes ok: "heap_ok pl ph r hp" and range: "{a..<a + n} \<subseteq> {pl..<ph}" "{a..<a + n} \<inter> heap_free hp = {}" "a + n \<le> ph"
  shows "\<exists>hp'. heap_Free D (page_address a) (of_nat n) hp = Some (Inr hp') \<and> pages_freed pl ph r hp {a..<a + n} hp'"
proof (cases "n = 0")
  case True
  then show ?thesis using freed_refl [OF ok] by (simp add: heap_Free_def)
next
  case False
  let ?e = "a + n"
  note okD = heap_okD [OF ok]
  have n0: "of_nat n \<noteq> (0 :: u64)" using False okD(4) range(3) by (simp add: word_unat_eq_iff unat_of_nat page_limit_def)
  have fin: "page_address a + of_nat n * PageSize = page_address ?e" unfolding PageSize_address(2) page_address_add ..
  obtain b s t where big: "big_search 7 (page_address a) (page_address ?e) hp = Inr (Suc b, page_address s, page_address t)" "b < 7"
    "2 ^ page_shift b dvd s" "2 ^ page_shift b dvd t" "a \<le> s" "s < t" "t \<le> ?e" "b = 0 \<longrightarrow> s = a \<and> t = ?e"
    using big_search_finds [OF ok, of a ?e 7] False range(3) by auto
  have parts: "{s..<t} \<subseteq> {a..<?e}" "{a..<s} \<subseteq> {a..<?e}" "{t..<?e} \<subseteq> {a..<?e}" "{a..<s} \<inter> {s..<t} = {}" "{t..<?e} \<inter> ({s..<t} \<union> {a..<s}) = {}"
    using big(5-7) by auto
  have free: "X \<subseteq> {a..<?e} \<Longrightarrow> X \<subseteq> {pl..<ph} \<and> X \<inter> heap_free hp = {}" for X using range by blast
  obtain h1 where h1: "free_big D b (page_address s) (page_address t) hp = Some (Inr h1)" "pages_freed pl ph r hp {s..<t} h1"
    using free_big_frees [OF ok big(2-4,6), of D] free [OF parts(1)] big(7) range(3) by auto
  have dvd: "2 ^ page_shift (b - 1) dvd s" "2 ^ page_shift (b - 1) dvd t" using size_dvd [of "b - 1" b] big(2-4) dvd_trans by auto
  have ends: "if b = 0 then a = s else 2 ^ page_shift (b - 1) dvd s" "if b = 0 then t = ?e else 2 ^ page_shift (b - 1) dvd t" "s \<le> ph" "b \<le> 7"
    using big(2,6-8) dvd range(3) by auto
  have d1: "{a..<s} \<inter> heap_free h1 = {}" using freed_rest [OF h1(2)] free [OF parts(2)] parts(4) by blast
  have ok1: "heap_ok pl ph r h1" using h1(2) by (simp add: pages_freed_def)
  obtain h2 where h2: "free_before D b (page_address a) (page_address s) h1 = Some (Inr h2)" "pages_freed pl ph r h1 {a..<s} h2"
    using free_before_frees [OF ok1 ends(4) big(5) conjunct1 [OF free [OF parts(2)]] d1 ends(3,1)] by blast
  note h12 = freed_trans [OF h1(2) h2(2)]
  have d2: "{t..<?e} \<inter> heap_free h2 = {}" using freed_rest [OF h12] free [OF parts(3)] parts(5) by blast
  have ok2: "heap_ok pl ph r h2" using h2(2) by (simp add: pages_freed_def)
  obtain h3 where h3: "free_after D b (page_address t) (page_address ?e) h2 = Some (Inr h3)" "pages_freed pl ph r h2 {t..<?e} h3"
    using free_after_frees [OF ok2 ends(4) big(7) conjunct1 [OF free [OF parts(3)]] d2 range(3) ends(2)] by blast
  have "{s..<t} \<union> {a..<s} \<union> {t..<?e} = {a..<?e}" using big(5-7) by auto
  then have "pages_freed pl ph r hp {a..<?e} h3" using freed_trans [OF h12 h3(2)] by simp
  moreover have "heap_Free D (page_address a) (of_nat n) hp = Some (Inr h3)"
    unfolding heap_Free_def Let_def fin okD(2) big(1) using n0 h1(1) h2(1) h3(1) by (simp add: page_assert_ok)
  ultimately show ?thesis by blast
qed

end
