(* ===== verification/Heap_Allocation.thy ===== *)
theory Heap_Allocation
  imports Heap_Laws
begin

text \<open>
  Allocation from the page heap: both searches take an aligned range out of the free pages and fail only when no free block is as large as
  asked for. The seeds of the random placement do not matter for either.
\<close>

section \<open>Taking a block\<close>

definition pages_taken :: "nat \<Rightarrow> nat \<Rightarrow> (nat \<Rightarrow> nat) \<Rightarrow> KPageHeap \<Rightarrow> nat set \<Rightarrow> KPageHeap \<Rightarrow> bool" where
  "pages_taken pl ph r hp S hp' \<longleftrightarrow> heap_ok pl ph r hp' \<and> S \<subseteq> heap_free hp \<and> heap_free hp' = heap_free hp - S"

lemma taken_part:
  assumes "pages_taken pl ph r hp S h" "pages_freed pl ph r h T h'" "T \<subseteq> S"
  shows "pages_taken pl ph r hp (S - T) h'"
  using assms by (auto simp: pages_taken_def pages_freed_def)

lemma hp_set_same: "heap_ok pl ph r hp \<Longrightarrow> hp_set i (hp_blocks hp ! i) (m_management_data hp) hp = hp"
  by (simp add: hp_set_def)

lemma heap_pop:
  assumes ok: "heap_ok pl ph r hp" and i: "i < 7"
  shows "heap_sets hp i = {} \<Longrightarrow> PopBlock D random (hp_blocks hp ! i) (m_management_data hp) = Inr (0, hp_blocks hp ! i, m_management_data hp)"
    "heap_sets hp i \<noteq> {} \<Longrightarrow> \<exists>k b data. PopBlock D random (hp_blocks hp ! i) (m_management_data hp) = Inr (page_address (k * 2 ^ page_shift i), b, data) \<and>
      page_address (k * 2 ^ page_shift i) \<noteq> 0 \<and> pages_taken pl ph r hp (block_range page_shift i k) (hp_set i b data hp) \<and>
      blk_GetSize b = page_address (2 ^ page_shift i) \<and> block_range page_shift i k \<subseteq> {pl..<ph}"
proof -
  note okD = heap_okD [OF ok]
  let ?b = "hp_blocks hp ! i" and ?data = "m_management_data hp"
  have sets: "level_set ?b ?data = heap_sets hp i" using i by (simp add: heap_sets_def)
  show "heap_sets hp i = {} \<Longrightarrow> PopBlock D random ?b ?data = Inr (0, ?b, ?data)"
    using PopBlock_pops(1) [OF okD(7) [OF i]] sets by simp
  assume "heap_sets hp i \<noteq> {}"
  then obtain k b data where pop: "PopBlock D random ?b ?data = Inr (page_address (k * 2 ^ page_shift i), b, data)" "k \<in> heap_sets hp i"
    "level_ok i pl ph (r i) (r (Suc i)) b data" "same_outside (r i) (r (Suc i)) ?data data" "level_set b data = heap_sets hp i - {k}"
    "blk_GetSize b = blk_GetSize ?b"
    using PopBlock_pops(2) [OF okD(7) [OF i]] sets by metis
  note step = sizes.pop_step [OF okD(8) i pop(2)]
  have "heap_ok pl ph r (hp_set i b data hp)" "heap_sets (hp_set i b data hp) = (heap_sets hp)(i := heap_sets hp i - {k})"
    using heap_step [OF ok i pop(3,4)] step(1) pop(5) by simp_all
  then have "pages_taken pl ph r hp (block_range page_shift i k) (hp_set i b data hp)"
    using step(2,3) by (simp add: pages_taken_def heap_free_def)
  moreover have "page_address (k * 2 ^ page_shift i) \<noteq> 0"
    by (rule heap_page_nonzero [OF ok]) (use step(4) block_range_start [of k page_shift i] in blast)
  ultimately show "\<exists>k b data. PopBlock D random ?b ?data = Inr (page_address (k * 2 ^ page_shift i), b, data) \<and>
      page_address (k * 2 ^ page_shift i) \<noteq> 0 \<and> pages_taken pl ph r hp (block_range page_shift i k) (hp_set i b data hp) \<and>
      blk_GetSize b = page_address (2 ^ page_shift i) \<and> block_range page_shift i k \<subseteq> {pl..<ph}"
    using pop(1,6) step(4) blk_size [OF okD(7) [OF i]] by auto
qed

text \<open>Freeing the end of what was taken.\<close>

lemma free_tail:
  assumes "pages_taken pl ph r hp {a..<a + s} h" "m \<le> s" "a + s \<le> ph" "{a..<a + s} \<subseteq> {pl..<ph}"
  shows "\<exists>h'. heap_Free D (page_address (a + m)) (of_nat (s - m)) h = Some (Inr h') \<and> pages_taken pl ph r hp {a..<a + m} h' \<and> hp_rng h' = hp_rng h"
proof -
  have ok: "heap_ok pl ph r h" and T: "{a + m..<a + s} \<subseteq> {a..<a + s}" "{a..<a + s} - {a + m..<a + s} = {a..<a + m}"
    using assms(1,2) by (auto simp: pages_taken_def)
  have "{a + m..<a + s} \<inter> heap_free h = {}" using assms(1) T(1) by (auto simp: pages_taken_def)
  then obtain h' where h': "heap_Free D (page_address (a + m)) (of_nat (s - m)) h = Some (Inr h')" "pages_freed pl ph r h {a + m..<a + s} h'"
    using heap_Free_frees [OF ok, of "a + m" "s - m" D] assms(2-4) T(1) by fastforce
  then show ?thesis using taken_part [OF assms(1) h'(2) T(1)] T(2) by (auto simp: pages_freed_def)
qed

section \<open>Linear search\<close>

lemma smaller_start: "j \<le> i \<Longrightarrow> i < 7 \<Longrightarrow> l * 2 ^ page_shift i = (l * 2 ^ (page_shift i - page_shift j)) * (2 ^ page_shift j :: nat)"
  using sizes.sizes_le [of j i] by (simp flip: power_add)

lemma linear_loop_finds:
  assumes ok: "heap_ok pl ph r hp" and "j \<le> i" "n + i = 7"
  shows "if \<forall>l \<in> {i..<7}. heap_sets hp l = {} then linear_loop D n i (page_address (2 ^ page_shift j)) hp = Some (Inr (0, hp))
    else \<exists>k hp'. linear_loop D n i (page_address (2 ^ page_shift j)) hp = Some (Inr (page_address (k * 2 ^ page_shift j), hp')) \<and>
      page_address (k * 2 ^ page_shift j) \<noteq> 0 \<and> pages_taken pl ph r hp (block_range page_shift j k) hp'"
  using assms(2,3)
proof (induction n arbitrary: i)
  case (Suc n)
  note okD = heap_okD [OF ok]
  have i: "i < 7" using Suc.prems by simp
  have split: "{i..<7} = insert i {Suc i..<7}" using i by auto
  show ?case
  proof (cases "heap_sets hp i = {}")
    case True
    then have "linear_loop D (Suc n) i (page_address (2 ^ page_shift j)) hp = linear_loop D n (Suc i) (page_address (2 ^ page_shift j)) hp"
      using heap_pop(1) [OF ok i True] hp_set_same [OF ok] okD(9) [OF i] by (simp add: Let_def)
    then show ?thesis using Suc.IH [of "Suc i"] Suc.prems True unfolding split by simp
  next
    case False
    obtain l b data where pop: "PopBlock D False (hp_blocks hp ! i) (m_management_data hp) = Inr (page_address (l * 2 ^ page_shift i), b, data)"
      "page_address (l * 2 ^ page_shift i) \<noteq> 0" "pages_taken pl ph r hp (block_range page_shift i l) (hp_set i b data hp)"
      "blk_GetSize b = page_address (2 ^ page_shift i)" "block_range page_shift i l \<subseteq> {pl..<ph}"
      using heap_pop(2) [OF ok i False] by blast
    let ?k = "l * 2 ^ (page_shift i - page_shift j)" and ?w = "2 ^ page_shift i :: nat" and ?m = "2 ^ page_shift j :: nat"
    have start: "l * ?w = ?k * ?m" by (rule smaller_start [OF Suc.prems(1) i])
    have le: "?m \<le> ?w" using sizes.sizes_le [OF Suc.prems(1) i] by simp
    have lim: "?w \<le> page_limit" "?m \<le> page_limit" using okD(5) size_bound [OF i] le by linarith+
    have inside: "{?k * ?m..<?k * ?m + ?w} \<subseteq> {pl..<ph}" using pop(5) unfolding block_range_interval start .
    then have "?k * ?m + ?w \<le> ph" by (simp add: atLeastLessThan_subset_iff)
    then obtain h' where h': "heap_Free D (page_address (?k * ?m + ?m)) (of_nat (?w - ?m)) (hp_set i b data hp) = Some (Inr h')"
      "pages_taken pl ph r hp {?k * ?m..<?k * ?m + ?m} h'"
      using free_tail [OF pop(3) [unfolded block_range_interval start] le _ inside] by blast
    have gt: "page_address ?m < page_address ?w \<longleftrightarrow> ?m < ?w" by (rule page_address_less [OF lim(2,1)])
    have pages: "(page_address ?w - page_address ?m) div PageSize = of_nat (?w - ?m)"
      using lim le by (simp only: page_address_diff) (simp add: page_address_pages)
    have run: "linear_loop D (Suc n) i (page_address ?m) hp = bindO (if ?m < ?w then heap_Free D (page_address (?k * ?m + ?m)) (of_nat (?w - ?m)) (hp_set i b data hp)
        else Some (Inr (hp_set i b data hp))) (\<lambda>hp. Some (Inr (page_address (?k * ?m), hp)))"
      using okD(9) [OF i] pop(1,2,4) gt pages unfolding start by (simp add: Let_def page_address_add)
    have "\<exists>hp'. linear_loop D (Suc n) i (page_address ?m) hp = Some (Inr (page_address (?k * ?m), hp')) \<and> pages_taken pl ph r hp {?k * ?m..<?k * ?m + ?m} hp'"
    proof (cases "?m < ?w")
      case True
      then show ?thesis using h' run by simp
    next
      case False
      then have "?m = ?w" using le by linarith
      then show ?thesis using run pop(3) unfolding block_range_interval start by simp
    qed
    moreover have "\<not> (\<forall>l \<in> {i..<7}. heap_sets hp l = {})" using False unfolding split by simp
    ultimately show ?thesis using pop(2) unfolding start block_range_interval by (simp only: if_False) blast
  qed
qed simp

text \<open>Whether a size has a free block: what a search sees of the free pages.\<close>

lemma block_available:
  assumes "heap_ok pl ph r hp" "i < 7"
  shows "(\<exists>k. block_range page_shift i k \<subseteq> heap_free hp) \<longleftrightarrow> \<not> (\<forall>l \<in> {i..<7}. heap_sets hp l = {})"
proof
  note okD = heap_okD [OF assms(1)]
  assume "\<exists>k. block_range page_shift i k \<subseteq> heap_free hp"
  then show "\<not> (\<forall>l \<in> {i..<7}. heap_sets hp l = {})" using sizes.covered [OF okD(8) assms(2)] unfolding heap_free_def by fastforce
next
  note okD = heap_okD [OF assms(1)]
  assume "\<not> (\<forall>l \<in> {i..<7}. heap_sets hp l = {})"
  then obtain l k where l: "i \<le> l" "l < 7" "k \<in> heap_sets hp l" by auto
  let ?k = "k * 2 ^ (page_shift l - page_shift i)"
  have "?k * 2 ^ page_shift i \<in> block_range page_shift l k" by (simp only: smaller_start [OF l(1,2), symmetric] block_range_start)
  then have "block_range page_shift i ?k \<subseteq> block_range page_shift l k" using sizes.block_nested [OF l(1,2) block_range_start] by blast
  then show "\<exists>k. block_range page_shift i k \<subseteq> heap_free hp" using sizes.pop_step(3) [OF okD(8) l(2,3)] unfolding heap_free_def by blast
qed

lemma AllocateByLinearSearch_allocates:
  assumes "heap_ok pl ph r hp" "i < 7"
  shows "(\<exists>k. block_range page_shift i k \<subseteq> heap_free hp) \<Longrightarrow> \<exists>k hp'. AllocateByLinearSearch D i hp = Some (Inr (page_address (k * 2 ^ page_shift i), hp')) \<and>
      page_address (k * 2 ^ page_shift i) \<noteq> 0 \<and> pages_taken pl ph r hp (block_range page_shift i k) hp'"
    "\<not> (\<exists>k. block_range page_shift i k \<subseteq> heap_free hp) \<Longrightarrow> AllocateByLinearSearch D i hp = Some (Inr (0, hp))"
  using linear_loop_finds [OF assms(1) order_refl, of "7 - i" i D] heap_okD(2,9) [OF assms(1)] blk_size [OF heap_okD(7) [OF assms]] assms(2)
  unfolding block_available [OF assms] by (simp_all add: AllocateByLinearSearch_def)

section \<open>Random placement\<close>

text \<open>The possible placements of \<open>n\<close> pages, aligned to \<open>2 ^ s\<close>, in the free blocks of one size.\<close>

definition placements :: "KPageHeap \<Rightarrow> nat \<Rightarrow> nat \<Rightarrow> nat \<Rightarrow> nat" where
  "placements hp n s l = (1 + (2 ^ page_shift l - n) div 2 ^ s) * card (heap_sets hp l)"

lemma size_shift_address:
  assumes "p \<le> page_limit" "s + 12 < 64"
  shows "size_shift (page_address p) (s + 12) = Inr (of_nat (p div 2 ^ s))"
proof -
  have "drop_bit (s + 12) (page_address p) = of_nat (p div 2 ^ s)" unfolding page_address_drop [OF assms(1), of s, symmetric] by simp
  then show ?thesis using assms(2) by (simp add: size_shift_def)
qed

lemma block_alignments_placements:
  assumes ok: "heap_ok pl ph r hp" and l: "l < 7" and n: "n \<le> 2 ^ page_shift l" "s \<le> 18"
  shows "block_alignments l (page_address n) (s + 12) hp = Inr (of_nat (placements hp n s l))"
proof -
  note okD = heap_okD [OF ok]
  let ?b = "hp_blocks hp ! l" and ?w = "2 ^ page_shift l :: nat"
  have "?w \<le> page_limit" using okD(5) size_bound [OF l] by linarith
  then have "size_shift (blk_GetSize ?b - page_address n) (s + 12) = Inr (of_nat ((?w - n) div 2 ^ s))"
    unfolding blk_size [OF okD(7) [OF l]] page_address_diff [OF n(1)] using n by (intro size_shift_address) linarith+
  moreover have "m_num_bits (m_bitmap ?b) = of_nat (card (heap_sets hp l))"
    using level_okD(7) [OF okD(7) [OF l]] l by (simp add: bitmap_ok_def heap_sets_def level_set_def card_image)
  ultimately show ?thesis using okD(9) [OF l] by (simp add: block_alignments_def blk_GetNumFreeBlocks_def placements_def algebra_simps)
qed

lemma heap_free_card: "heap_ok pl ph r hp \<Longrightarrow> card (heap_free hp) = (\<Sum>l<7. card (heap_sets hp l) * 2 ^ page_shift l)"
  unfolding heap_free_def by (rule sizes.free_count(1) [OF heap_okD(8)])

lemma heap_free_bound:
  assumes "heap_ok pl ph r hp"
  shows "heap_free hp \<subseteq> {pl..<ph}" "card (heap_free hp) < 2 ^ 24"
proof -
  show sub: "heap_free hp \<subseteq> {pl..<ph}" using heap_okD(8) [OF assms] by (simp add: buddy_ok_def heap_free_def)
  have "card (heap_free hp) \<le> card {pl..<ph}" by (rule card_mono [OF _ sub]) simp
  moreover have "ph - pl < 2 ^ 24" using assms by (simp add: heap_ok_def)
  ultimately show "card (heap_free hp) < 2 ^ 24" by simp
qed

lemma placements_bound:
  assumes "heap_ok pl ph r hp" "0 < n" "m \<le> 7"
  shows "sum (placements hp n s) {i..<m} < 2 ^ 24"
proof -
  have one: "placements hp n s l \<le> card (heap_sets hp l) * 2 ^ page_shift l" for l
  proof -
    have "(2 ^ page_shift l - n) div 2 ^ s \<le> 2 ^ page_shift l - n" by simp
    moreover have "0 < (2 :: nat) ^ page_shift l" by simp
    ultimately have "1 + (2 ^ page_shift l - n) div 2 ^ s \<le> 2 ^ page_shift l" using assms(2) by linarith
    then show ?thesis unfolding placements_def by (subst mult.commute) (rule mult_le_mono2)
  qed
  have "sum (placements hp n s) {i..<m} \<le> (\<Sum>l \<in> {i..<m}. card (heap_sets hp l) * 2 ^ page_shift l)" by (rule sum_mono) (rule one)
  also have "\<dots> \<le> (\<Sum>l<7. card (heap_sets hp l) * 2 ^ page_shift l)" by (rule sum_mono2) (use assms(3) in auto)
  finally show ?thesis using heap_free_card [OF assms(1)] heap_free_bound(2) [OF assms(1)] by linarith
qed

lemma placements_zero: "heap_ok pl ph r hp \<Longrightarrow> l < 7 \<Longrightarrow> placements hp n s l = 0 \<longleftrightarrow> heap_sets hp l = {}"
  using sizes.free_count(2) [OF heap_okD(8), of pl ph r hp l] by (auto simp: placements_def)

lemma block_alignments_rng [simp]: "block_alignments l needed sh (hp\<lparr>hp_rng := g\<rparr>) = block_alignments l needed sh hp"
  by (simp add: block_alignments_def hp_block_def)

lemma alignments_loop_sums:
  assumes "\<And>l. l \<in> {index..<7} \<Longrightarrow> block_alignments l needed sh hp = Inr (of_nat (W l))" "\<And>m. m \<le> 7 \<Longrightarrow> sum W {index..<m} < 2 ^ 24"
    and "n + i = 7" "index \<le> i"
  shows "\<exists>m. alignments_loop n i (of_nat (sum W {index..<i})) needed sh hp = Inr (m, of_nat (sum W {index..<m})) \<and>
    i \<le> m \<and> m \<le> 7 \<and> (m < 7 \<longrightarrow> 0 < sum W {index..<m}) \<and> (i < 7 \<longrightarrow> i < m)"
  using assms(3,4)
proof (induction n arbitrary: i)
  case (Suc n)
  let ?t = "sum W {index..<Suc i}"
  have step: "of_nat (sum W {index..<i}) + of_nat (W i) = (of_nat ?t :: u64)" using Suc.prems by simp
  have b: "block_alignments i needed sh hp = Inr (of_nat (W i))" using assms(1) Suc.prems by simp
  have big: "MinimumPossibleAlignmentsForRandomAllocation \<le> (of_nat ?t :: u64) \<longleftrightarrow> 4 \<le> ?t"
    using assms(2) [of "Suc i"] Suc.prems(1) unfolding MinimumPossibleAlignmentsForRandomAllocation_def word_le_nat_alt unat_of_nat by simp
  have run: "alignments_loop (Suc n) i (of_nat (sum W {index..<i})) needed sh hp =
      (if 4 \<le> ?t then Inr (Suc i, of_nat ?t) else alignments_loop n (Suc i) (of_nat ?t) needed sh hp)"
    unfolding alignments_loop.simps(2) b bindF_simps Let_def step big by simp
  show ?case
  proof (cases "4 \<le> ?t")
    case True
    then have "0 < ?t" by linarith
    then show ?thesis unfolding run if_P [OF True] using Suc.prems by (intro exI [of _ "Suc i"]) (simp del: sum.op_ivl_Suc)
  next
    case False
    have "Suc i \<le> 7" using Suc.prems(1) by simp
    then show ?thesis unfolding run if_not_P [OF False] using Suc.IH [of "Suc i"] Suc.prems by fastforce
  qed
qed simp

lemma choose_loop_chooses:
  assumes "\<And>l. l \<in> {index..<7} \<Longrightarrow> block_alignments l needed sh hp = Inr (of_nat (W l))" "\<And>m. m \<le> 7 \<Longrightarrow> sum W {index..<m} < 2 ^ 24"
    and "m \<le> 7" "unat rnd < sum W {index..<m}" "n + i = m" "index \<le> i" "sum W {index..<i} \<le> unat rnd"
  shows "\<exists>l. choose_loop index n i (of_nat (sum W {index..<i})) rnd needed sh hp = Inr l \<and> index \<le> l \<and> l < 7 \<and> W l \<noteq> 0"
  using assms(5-)
proof (induction n arbitrary: i)
  case (Suc n)
  let ?t = "sum W {index..<Suc i}"
  have step: "of_nat (sum W {index..<i}) + of_nat (W i) = (of_nat ?t :: u64)" "?t = sum W {index..<i} + W i" using Suc.prems by simp_all
  have b: "block_alignments i needed sh hp = Inr (of_nat (W i))" using assms(1,3) Suc.prems by simp
  have less: "rnd < of_nat ?t \<longleftrightarrow> unat rnd < ?t" using assms(2) [of "Suc i"] assms(3) Suc.prems(1) unfolding word_less_nat_alt unat_of_nat by simp
  have run: "choose_loop index (Suc n) i (of_nat (sum W {index..<i})) rnd needed sh hp =
      (if unat rnd < ?t then Inr i else choose_loop index n (Suc i) (of_nat ?t) rnd needed sh hp)"
    unfolding choose_loop.simps(2) b bindF_simps Let_def step(1) less by simp
  show ?case
  proof (cases "unat rnd < ?t")
    case True
    then have "W i \<noteq> 0" using Suc.prems(3) step(2) by linarith
    then show ?thesis unfolding run if_P [OF True] using Suc.prems assms(3) by simp
  next
    case False
    then show ?thesis unfolding run if_not_P [OF False] using Suc.IH [of "Suc i"] Suc.prems by simp
  qed
qed (use assms(4) in simp)

lemma choose_block_chooses:
  assumes ok: "heap_ok pl ph r hp" and index: "index < 7" and n: "0 < n" "n \<le> 2 ^ page_shift index" "s \<le> 18"
  shows "\<exists>l g. choose_block index (page_address n) (s + 12) hp = Inr (l, hp\<lparr>hp_rng := g\<rparr>) \<and> gen_ok g \<and> index \<le> l \<and> l < 7 \<and>
    (heap_sets hp l = {} \<longrightarrow> (\<forall>j \<in> {index..<7}. heap_sets hp j = {}))"
proof -
  note okD = heap_okD [OF ok]
  let ?W = "placements hp n s"
  have le: "n \<le> 2 ^ page_shift l" if "l \<in> {index..<7}" for l
    using power_increasing [OF sizes.sizes_le [of index l], of "2 :: nat"] that by (intro order_trans [OF n(2)]) simp
  have W: "block_alignments l (page_address n) (s + 12) hp = Inr (of_nat (?W l))" if "l \<in> {index..<7}" for l
    using block_alignments_placements [OF ok _ le [OF that] n(3)] that by simp
  have bound: "sum ?W {index..<m} < 2 ^ 24" if "m \<le> 7" for m by (rule placements_bound [OF ok n(1) that])
  obtain m where m: "alignments_loop (7 - index) index 0 (page_address n) (s + 12) hp = Inr (m, of_nat (sum ?W {index..<m}))"
    "index < m" "m \<le> 7" "m < 7 \<longrightarrow> 0 < sum ?W {index..<m}"
    using alignments_loop_sums [OF W bound, where n = "7 - index" and i = index] index by auto
  define t where "t = sum ?W {index..<m}"
  note m = m [folded t_def]
  have small: "t < 2 ^ 24" unfolding t_def by (rule bound [OF m(3)])
  then have t: "unat (of_nat t :: u64) = t" unfolding unat_of_nat by simp
  then have pos: "(of_nat t :: u64) > 0 \<longleftrightarrow> t \<noteq> 0" by (simp add: word_gt_0 word_unat_eq_iff)
  show ?thesis
  proof (cases "t \<noteq> 0 \<and> index + 1 < m")
    case True
    obtain rnd g where rnd: "GenerateRandom (of_nat t) (hp_rng hp) = Inr (rnd, g)" "unat rnd < t" "gen_ok g"
      using GenerateRandom_below [of "of_nat t" "hp_rng hp"] True unfolding t using small okD(6) by fastforce
    obtain l where l: "choose_loop index (m - index) index 0 rnd (page_address n) (s + 12) hp = Inr l" "index \<le> l" "l < 7" "?W l \<noteq> 0"
      using choose_loop_chooses [OF W bound m(3) rnd(2) [unfolded t_def], where n = "m - index" and i = index] m(2) by auto
    have rng: "choose_loop index k i a rnd needed sh (hp\<lparr>hp_rng := g\<rparr>) = choose_loop index k i a rnd needed sh hp" for k i a needed sh
      by (induction k arbitrary: i a) (simp_all cong: if_cong)
    have "choose_block index (page_address n) (s + 12) hp = Inr (l, hp\<lparr>hp_rng := g\<rparr>)"
      using index m(1) rnd(1) l(1) True pos rng by (simp add: choose_block_def okD(2))
    moreover have "heap_sets hp l \<noteq> {}" using placements_zero [OF ok l(3), of n s] l(4) by simp
    ultimately show ?thesis using rnd(3) l(2,3) by blast
  next
    case False
    have "choose_block index (page_address n) (s + 12) hp = Inr (index, hp\<lparr>hp_rng := hp_rng hp\<rparr>)"
      using index m(1) False pos by (auto simp: choose_block_def okD(2))
    moreover have "\<forall>j \<in> {index..<7}. heap_sets hp j = {}" if "heap_sets hp index = {}"
    proof -
      have "?W index = 0" using that placements_zero [OF ok index] by simp
      then have "t = 0" using False m(2) unfolding t_def by (cases "m = Suc index") auto
      then have "m = 7" "\<forall>j \<in> {index..<m}. ?W j = 0" using m(3,4) unfolding t_def by auto
      then show ?thesis using placements_zero [OF ok] by simp
    qed
    ultimately show ?thesis using okD(6) index by blast
  qed
qed

lemma free_head:
  assumes "pages_taken pl ph r hp {a..<a + s} h" "m \<le> s" "a + s \<le> ph" "{a..<a + s} \<subseteq> {pl..<ph}"
  shows "\<exists>h'. heap_Free D (page_address a) (of_nat m) h = Some (Inr h') \<and> pages_taken pl ph r hp {a + m..<a + s} h'"
proof -
  have ok: "heap_ok pl ph r h" and T: "{a..<a + m} \<subseteq> {a..<a + s}" "{a..<a + s} - {a..<a + m} = {a + m..<a + s}"
    using assms(1,2) by (auto simp: pages_taken_def)
  have "{a..<a + m} \<inter> heap_free h = {}" using assms(1) T(1) by (auto simp: pages_taken_def)
  then obtain h' where h': "heap_Free D (page_address a) (of_nat m) h = Some (Inr h')" "pages_freed pl ph r h {a..<a + m} h'"
    using heap_Free_frees [OF ok, of a m D] assms(2-4) T(1) by fastforce
  then show ?thesis using taken_part [OF assms(1) h'(2) T(1)] T(2) by auto
qed

lemma heap_rng [simp]: "heap_free (hp\<lparr>hp_rng := g\<rparr>) = heap_free hp" "heap_sets (hp\<lparr>hp_rng := g\<rparr>) = heap_sets hp"
proof -
  show "heap_sets (hp\<lparr>hp_rng := g\<rparr>) = heap_sets hp" by (rule ext) (simp add: heap_sets_def)
  then show "heap_free (hp\<lparr>hp_rng := g\<rparr>) = heap_free hp" by (simp add: heap_free_def)
qed

lemma heap_ok_rng: "heap_ok pl ph r hp \<Longrightarrow> gen_ok g \<Longrightarrow> heap_ok pl ph r (hp\<lparr>hp_rng := g\<rparr>)"
  unfolding heap_ok_def by simp

lemma place_in_block_places:
  assumes t: "pages_taken pl ph r hp {a..<a + w} h" and w: "n \<le> w" "w \<le> 262144" "s \<le> 18" "2 ^ s dvd a"
    and inside: "a + w \<le> ph" "{a..<a + w} \<subseteq> {pl..<ph}"
  shows "\<exists>p hp'. place_in_block D (page_address a) (page_address (w - n)) (page_address n) (s + 12) h = Some (Inr (page_address p, hp')) \<and>
    pages_taken pl ph r hp {p..<p + n} hp' \<and> 2 ^ s dvd p \<and> a \<le> p \<and> p + n \<le> a + w"
proof (cases "n = w")
  case True
  then show ?thesis using t w(4) by (intro exI [of _ a] exI [of _ h]) (simp add: place_in_block_def page_address_0(1))
next
  case False
  have ok: "heap_ok pl ph r h" using t by (simp add: pages_taken_def)
  note okD = heap_okD [OF ok]
  let ?x = "(w - n) div 2 ^ s"
  have lim: "w \<le> page_limit" "w - n \<le> page_limit" using w(2) by (simp_all add: page_limit_def)
  have pos: "page_address (w - n) > 0" using False w(1) lim page_address_0(2) [OF lim(2)] by (simp add: word_gt_0)
  have "?x \<le> w - n" by simp
  then have x: "?x \<le> 262144" using w(2) by linarith
  then have max: "unat (1 + of_nat ?x :: u64) = 1 + ?x" using unat_of_nat [of "1 + ?x", where 'a = 64] by simp
  obtain rnd g where rnd: "GenerateRandom (1 + of_nat ?x) (hp_rng h) = Inr (rnd, g)" "unat rnd < 1 + ?x" "gen_ok g"
    using GenerateRandom_below [of "1 + of_nat ?x" "hp_rng h"] max x okD(6) by auto
  define off where "off = unat rnd * 2 ^ s"
  have "off \<le> ?x * 2 ^ s" unfolding off_def using rnd(2) by (intro mult_le_mono1) simp
  then have off: "off \<le> w - n" using div_times_less_eq_dividend [of "w - n" "2 ^ s"] by linarith
  then have offl: "off \<le> page_limit" "off \<le> w" using lim(2) by linarith+
  have push: "push_bit (s + 12) rnd = page_address off" using push_address [of s "unat rnd"] by (simp add: off_def)
  have "pages_taken pl ph r hp {a..<a + w} (h\<lparr>hp_rng := g\<rparr>)" using t heap_ok_rng [OF ok rnd(3)] by (simp add: pages_taken_def)
  then obtain h1 where h1: "heap_Free D (page_address a) (of_nat off) (h\<lparr>hp_rng := g\<rparr>) = Some (Inr h1)" "pages_taken pl ph r hp {a + off..<a + w} h1"
    using free_head [OF _ offl(2) inside] by blast
  let ?a = "a + off" and ?w = "w - off"
  have aw: "?a + ?w = a + w" "n \<le> ?w" "{?a..<?a + ?w} \<subseteq> {pl..<ph}" "?w - n = w - n - off" using off offl(2) w(1) inside(2) by auto
  obtain h2 where h2: "heap_Free D (page_address (?a + n)) (of_nat (w - n - off)) h1 = Some (Inr h2)" "pages_taken pl ph r hp {?a..<?a + n} h2"
    using free_tail [of pl ph r hp ?a ?w h1 n D] h1(2) inside(1) aw(2,3) unfolding aw(1,4) by blast
  have eq0: "page_address off = 0 \<longleftrightarrow> off = 0" by (rule page_address_0(2) [OF offl(1)])
  have eq1: "page_address off = page_address (w - n) \<longleftrightarrow> off = w - n"
    using unat_page_address [OF offl(1)] unat_page_address [OF lim(2)] by (metis mult_cancel2 zero_neq_numeral)
  have skip: "heap_Free D addr (of_nat 0) hp = Some (Inr hp)" for addr hp by (simp add: heap_Free_def)
  have run1: "(if page_address off \<noteq> 0 then heap_Free D (page_address a) (page_address off div PageSize) (h\<lparr>hp_rng := g\<rparr>) else Some (Inr (h\<lparr>hp_rng := g\<rparr>))) = Some (Inr h1)"
    unfolding eq0 page_address_pages [OF offl(1)] using h1(1) skip by (cases "off = 0") simp_all
  have rest: "(page_address (w - n) - page_address off) div PageSize = of_nat (w - n - off)"
    unfolding page_address_diff [OF off] using lim(2) by (intro page_address_pages) linarith
  have run2: "(if page_address off \<noteq> page_address (w - n) then heap_Free D (page_address a + page_address off + page_address n)
      ((page_address (w - n) - page_address off) div PageSize) h1 else Some (Inr h1)) = Some (Inr h2)"
    unfolding eq1 rest page_address_add using h2(1) skip by (cases "off = w - n") simp_all
  have sh: "size_shift (page_address (w - n)) (s + 12) = Inr (of_nat ?x)" using w(3) by (intro size_shift_address [OF lim(2)]) linarith
  have "place_in_block D (page_address a) (page_address (w - n)) (page_address n) (s + 12) h = Some (Inr (page_address ?a, h2))"
    unfolding place_in_block_def if_P [OF pos] sh bindO_simps rnd(1) prod.case Let_def push run1 unfolding run2 bindO_simps unfolding page_address_add ..
  moreover have "2 ^ s dvd ?a" using w(4) by (simp add: off_def)
  moreover have "?a + n \<le> a + w" using off w(1) by linarith
  ultimately show ?thesis using h2(2) by (intro exI [of _ ?a] exI [of _ h2]) simp
qed

text \<open>A random allocation takes pages that are free, aligned as asked for, and fails only when no block of the size is free.\<close>

lemma countr_zero_address:
  assumes "s \<le> 18"
  shows "countr_zero (page_address (2 ^ s)) = s + 12"
proof -
  have eq: "page_address (2 ^ s) = push_bit (s + 12) 1" by (rule size_address [symmetric])
  have b: "bit (page_address (2 ^ s)) i \<longleftrightarrow> i = s + 12" for i
    unfolding eq bit_push_bit_iff using assms by (cases "i = s + 12") (auto simp: bit_1_iff)
  have ne: "page_address (2 ^ s) \<noteq> 0" using b [of "s + 12"] by auto
  show ?thesis using countr_zero_least(1) [OF ne] b by simp
qed

lemma AllocateByRandom_allocates:
  assumes ok: "heap_ok pl ph r hp" and i: "i < 7" and n: "0 < n" "n \<le> 2 ^ page_shift i" and s: "s \<le> page_shift i"
  shows "if \<exists>k. block_range page_shift i k \<subseteq> heap_free hp
    then \<exists>p hp'. AllocateByRandom D i (of_nat n) (2 ^ s) hp = Some (Inr (page_address p, hp')) \<and> page_address p \<noteq> 0 \<and>
      pages_taken pl ph r hp {p..<p + n} hp' \<and> 2 ^ s dvd p
    else \<exists>hp'. AllocateByRandom D i (of_nat n) (2 ^ s) hp = Some (Inr (0, hp')) \<and> pages_taken pl ph r hp {} hp'"
proof -
  have s18: "s \<le> 18" using s page_shift_table(2) [OF i] by linarith
  obtain l g where ch: "choose_block i (page_address n) (s + 12) hp = Inr (l, hp\<lparr>hp_rng := g\<rparr>)" "gen_ok g" "i \<le> l" "l < 7"
    "heap_sets hp l = {} \<longrightarrow> (\<forall>j \<in> {i..<7}. heap_sets hp j = {})"
    using choose_block_chooses [OF ok i n s18] by blast
  let ?hp = "hp\<lparr>hp_rng := g\<rparr>" and ?w = "2 ^ page_shift l :: nat"
  have hp: "heap_ok pl ph r ?hp" by (rule heap_ok_rng [OF ok ch(2)])
  have align: "2 ^ s * PageSize = page_address (2 ^ s)" using PageSize_address(2) [of "2 ^ s"] by simp
  have run: "AllocateByRandom D i (of_nat n) (2 ^ s) hp = bindO (Some (PopBlock D True (hp_blocks hp ! l) (m_management_data hp))) (\<lambda>(addr, b, data).
      if addr \<noteq> 0 then place_in_block D addr (blk_GetSize b - page_address n) (page_address n) (s + 12) (hp_set l b data ?hp) else Some (Inr (0, hp_set l b data ?hp)))"
    unfolding AllocateByRandom_def Let_def PageSize_address(2) align countr_zero_address [OF s18] ch(1) using heap_okD(9) [OF hp ch(4)] by simp
  have avail: "(\<exists>k. block_range page_shift i k \<subseteq> heap_free hp) \<longleftrightarrow> heap_sets hp l \<noteq> {}"
    unfolding block_available [OF ok i] using ch(3-5) by auto
  show ?thesis
  proof (cases "heap_sets hp l = {}")
    case True
    have "PopBlock D True (hp_blocks hp ! l) (m_management_data hp) = Inr (0, hp_blocks hp ! l, m_management_data hp)"
      by (rule heap_pop(1) [OF ok ch(4) True])
    then have "AllocateByRandom D i (of_nat n) (2 ^ s) hp = Some (Inr (0, ?hp))" unfolding run using hp_set_same [OF hp, of l] by simp
    moreover have "pages_taken pl ph r hp {} ?hp" using hp by (simp add: pages_taken_def)
    ultimately show ?thesis using avail True by (simp only: if_False simp_thms) blast
  next
    case False
    obtain k b data where pop: "PopBlock D True (hp_blocks hp ! l) (m_management_data hp) = Inr (page_address (k * ?w), b, data)"
      "page_address (k * ?w) \<noteq> 0" "pages_taken pl ph r hp (block_range page_shift l k) (hp_set l b data ?hp)"
      "blk_GetSize b = page_address ?w" "block_range page_shift l k \<subseteq> {pl..<ph}"
      using heap_pop(2) [OF hp ch(4), of D True] False by (auto simp: pages_taken_def)
    have w: "n \<le> ?w" "2 ^ s dvd k * ?w"
    proof -
      show "n \<le> ?w" using power_increasing [OF sizes.sizes_le [OF ch(3,4)], of "2 :: nat"] by (intro order_trans [OF n(2)]) simp
      show "2 ^ s dvd k * ?w" using s sizes.sizes_le [OF ch(3,4)] by (intro dvd_mult le_imp_power_dvd) linarith
    qed
    have inside: "k * ?w + ?w \<le> ph" "{k * ?w..<k * ?w + ?w} \<subseteq> {pl..<ph}"
      using pop(5) unfolding block_range_interval by (simp_all add: atLeastLessThan_subset_iff)
    obtain p hp' where p: "place_in_block D (page_address (k * ?w)) (page_address (?w - n)) (page_address n) (s + 12) (hp_set l b data ?hp) = Some (Inr (page_address p, hp'))"
      "pages_taken pl ph r hp {p..<p + n} hp'" "2 ^ s dvd p" "k * ?w \<le> p" "p + n \<le> k * ?w + ?w"
      using place_in_block_places [OF pop(3) [unfolded block_range_interval] w(1) size_bound [OF ch(4)] s18 w(2) inside] by blast
    have "AllocateByRandom D i (of_nat n) (2 ^ s) hp = Some (Inr (page_address p, hp'))"
      unfolding run pop(1) using pop(2,4) p(1) page_address_diff [OF w(1)] by simp
    moreover have "p \<in> {k * ?w..<k * ?w + ?w}" using p(4,5) n(1) by simp
    then have "page_address p \<noteq> 0" using heap_page_nonzero [OF ok] inside(2) by blast
    ultimately show ?thesis using avail False p(2,3) by (simp only: if_True simp_thms) blast
  qed
qed

end
