(* ===== verification/Heap_Start.thy ===== *)
theory Heap_Start
  imports Heap_Allocation
begin

text \<open>
  The page heap from its initialisation on: the bitmaps of the seven sizes fit in the management data the size computation asks for, and
  the heap starts with no free page.
\<close>

section \<open>The size of a bitmap\<close>

definition block_align :: "nat \<Rightarrow> nat" where
  "block_align i = group_size i * 2 ^ page_shift i"

definition block_count :: "nat \<Rightarrow> nat \<Rightarrow> nat \<Rightarrow> nat" where
  "block_count pl ph i = ((ph + block_align i - 1) div block_align i - pl div block_align i) * group_size i"

definition block_words :: "nat \<Rightarrow> nat \<Rightarrow> nat \<Rightarrow> nat" where
  "block_words pl ph i = level_words 0 (GetRequiredDepth (block_count pl ph i)) (block_count pl ph i)"

definition heap_regions :: "nat \<Rightarrow> nat \<Rightarrow> nat \<Rightarrow> nat" where
  "heap_regions pl ph i = sum (block_words pl ph) {..<i}"

definition heap_bounds :: "nat \<Rightarrow> nat \<Rightarrow> bool" where
  "heap_bounds pl ph \<longleftrightarrow> 0 < pl \<and> pl < ph \<and> ph \<le> 2 ^ 50 \<and> ph - pl \<le> 2 ^ 23"

definition next_shift :: "nat \<Rightarrow> nat" where
  "next_shift i = (if i + 1 < 7 then page_shift (i + 1) + 12 else 0)"

lemma block_align_size: "i < 7 \<Longrightarrow> block_align i = 2 ^ (if i + 1 < 7 then page_shift (i + 1) else page_shift i)"
  using group_address [of i 1] by (simp add: block_align_def group_size_def)

lemma block_align_bounds: "0 < block_align i" "i < 7 \<Longrightarrow> block_align i \<le> 262144"
proof -
  show "0 < block_align i" by (simp add: block_align_def group_size_pos)
  show "block_align i \<le> 262144" if "i < 7" unfolding block_align_size [OF that] using that size_bound by (cases "i + 1 < 7") simp_all
qed

lemma align_word: "i < 7 \<Longrightarrow> (if next_shift i \<noteq> 0 then push_bit (next_shift i) 1 else push_bit (page_shift i + 12) 1) = page_address (block_align i)"
  unfolding block_align_size by (simp only: next_shift_def size_address if_distrib if_cancel split: if_split) simp

lemma rounding:
  fixes d :: nat
  assumes "0 < d"
  shows "x \<le> (x + d - 1) div d * d" "(x + d - 1) div d * d < x + d" "x div d * d \<le> x" "x < x div d * d + d"
proof -
  show "x div d * d \<le> x" "x < x div d * d + d"
    using div_times_less_eq_dividend dividend_less_div_times [OF assms, of x] by (simp_all add: add.commute)
  have "(x + d - 1) div d * d \<le> x + d - 1" "x + d - 1 < (x + d - 1) div d * d + d"
    using div_times_less_eq_dividend dividend_less_div_times [OF assms, of "x + d - 1"] by (simp_all add: add.commute)
  then show "x \<le> (x + d - 1) div d * d" "(x + d - 1) div d * d < x + d" using assms by linarith+
qed

lemma block_count_size:
  assumes "heap_bounds pl ph" "i < 7"
  defines "A \<equiv> block_align i"
  shows "block_count pl ph i * 2 ^ page_shift i = (ph + A - 1) div A * A - pl div A * A" "pl div A < (ph + A - 1) div A"
    "0 < block_count pl ph i" "block_count pl ph i < 64 ^ 4"
proof -
  have A: "0 < A" "A \<le> 262144" using block_align_bounds [of i] assms(2) by (simp_all add: A_def)
  note up = rounding(1,2) [OF A(1), of ph] and down = rounding(3,4) [OF A(1), of pl]
  have b: "pl < ph" "ph - pl \<le> 2 ^ 23" using assms(1) by (simp_all add: heap_bounds_def)
  show eq: "block_count pl ph i * 2 ^ page_shift i = (ph + A - 1) div A * A - pl div A * A"
    unfolding block_count_def A_def diff_mult_distrib by (simp add: block_align_def mult.assoc)
  have "pl div A * A < (ph + A - 1) div A * A" using up(1) down(1) b(1) by linarith
  then show "pl div A < (ph + A - 1) div A" by simp
  then show "0 < block_count pl ph i" by (simp add: block_count_def A_def group_size_pos)
  have "block_count pl ph i * 1 \<le> block_count pl ph i * 2 ^ page_shift i" by (rule mult_le_mono2) simp
  then show "block_count pl ph i < 64 ^ 4" unfolding eq using up(2) down(2) b A(2) by simp
qed

lemma block_count_overhead:
  assumes "heap_bounds pl ph" "i < 7"
  shows "block_count pl ph i * 2 ^ page_shift i \<le> 2 * block_align i + (ph - pl + block_align i - 1) div block_align i * block_align i"
proof -
  let ?A = "block_align i"
  have "block_count pl ph i * 2 ^ page_shift i = (ph + ?A - 1) div ?A * ?A - pl div ?A * ?A" by (rule block_count_size(1) [OF assms])
  moreover have "pl < ph" using assms(1) by (simp add: heap_bounds_def)
  ultimately show ?thesis
    using rounding(2) [OF block_align_bounds(1), of ph i] rounding(4) [OF block_align_bounds(1), of pl i] rounding(1) [OF block_align_bounds(1), of "ph - pl" i]
    by linarith
qed

lemma address_div:
  assumes "c * w \<le> page_limit" "0 < w" "w \<le> page_limit"
  shows "page_address (c * w) div page_address w = of_nat c"
proof (rule word_unat_eq_iff [THEN iffD2])
  have "c * 1 \<le> c * w" using assms(2) by (intro mult_le_mono2) simp
  then have "c \<le> page_limit" using assms(1) by linarith
  then have "c < 2 ^ 64" by (simp add: page_limit_def)
  then show "unat (page_address (c * w) div page_address w) = unat (of_nat c :: u64)"
    using assms by (simp add: unat_div unat_page_address unat_of_nat div_mult_mult2)
qed

section \<open>Initialisation\<close>

lemma blk_Initialize_empty:
  assumes bounds: "heap_bounds pl ph" and i: "i < 7" and b: "length (m_bit_storages (m_bitmap b)) = 4" "length (m_end_storages (m_bitmap b)) = 4"
    and data: "st + block_words pl ph i \<le> length data" "\<And>p. st \<le> p \<Longrightarrow> p < length data \<Longrightarrow> data ! p = 0"
  shows "\<exists>b'. blk_Initialize D (page_address pl) (page_address (ph - pl)) (page_shift i + 12) (next_shift i) st b = Inr (st + block_words pl ph i, b') \<and>
    level_ok i pl ph st (st + block_words pl ph i) b' data \<and> level_set b' data = {}"
proof -
  let ?A = "block_align i" and ?w = "2 ^ page_shift i :: nat" and ?c = "block_count pl ph i"
  let ?lo = "pl div ?A * ?A" and ?hi = "(ph + ?A - 1) div ?A * ?A"
  have A: "0 < ?A" "?A \<le> 262144" using block_align_bounds [of i] i by simp_all
  have hb: "0 < pl" "pl < ph" "ph \<le> 2 ^ 50" using bounds by (simp_all add: heap_bounds_def)
  have lim: "pl \<le> page_limit" "ph \<le> page_limit" "?A \<le> page_limit" "?w \<le> page_limit" "?hi \<le> page_limit"
    using hb A(2) size_bound [OF i] rounding(2) [OF A(1), of ph] by (simp_all add: page_limit_def)
  note cnt = block_count_size [OF bounds i]
  have span: "?lo \<le> ?hi" "?c * ?w \<le> page_limit" using cnt(1,2) lim(5) by simp_all
  have ends: "page_address pl + page_address (ph - pl) = page_address ph" using hb by (simp add: page_address_add)
  have down: "AlignDown_u64 (page_address pl) (page_address ?A) = page_address ?lo" by (rule AlignDown_address [OF lim(1,3) A(1)])
  have up: "AlignUp_u64 (page_address ph) (page_address ?A) = page_address ?hi" by (rule AlignUp_address [OF lim(2,3) A(1)])
  have count: "(page_address ?hi - page_address ?lo) div push_bit (page_shift i + 12) 1 = of_nat ?c"
    unfolding page_address_diff [OF span(1)] size_address cnt(1) [symmetric] by (rule address_div [OF span(2) _ lim(4)]) simp
  have c64: "unat (of_nat ?c :: u64) = ?c" using cnt(4) unfolding unat_of_nat by simp
  obtain bm where bm: "bitmap_Initialize D st ?c (m_bitmap b) = Inr (st + block_words pl ph i, bm)"
    "bitmap_ok ?c st (st + block_words pl ph i) bm data" "bits_of ?c bm data = {}"
    using bitmap_Initialize_empty [OF cnt(3,4) b data(1) [unfolded block_words_def] data(2), of D] unfolding block_words_def by blast
  define b' where "b' = b\<lparr>m_block_shift := page_shift i + 12, m_next_block_shift := next_shift i, blk_heap_address := page_address ?lo,
    m_end_offset := of_nat ?c, m_bitmap := bm\<rparr>"
  note fields = align_word [OF i] ends down up count c64 bm(1)
  have run: "blk_Initialize D (page_address pl) (page_address (ph - pl)) (page_shift i + 12) (next_shift i) st b = Inr (st + block_words pl ph i, b')"
    using fields by (cases "next_shift i = 0") (simp_all add: blk_Initialize_def Let_def b'_def del: push_bit_of_1)
  have b': "m_block_shift b' = page_shift i + 12" "m_next_block_shift b' = next_shift i" "blk_heap_address b' = page_address ?lo"
    "unat (m_end_offset b') = ?c" "m_bitmap b' = bm" using c64 by (simp_all add: b'_def)
  have lo: "?lo = pl div ?A * group_size i * ?w" by (simp add: block_align_def mult.assoc)
  have "?lo \<le> page_limit" using lim(1) rounding(3) [OF A(1), of pl] by linarith
  then have base: "level_base b' = pl div ?A * group_size i"
    unfolding level_base_def b'(1,3) lo by (simp add: unat_page_address power_add)
  have "group_size i dvd ?c" "group_size i dvd level_base b'" unfolding base block_count_def by simp_all
  moreover have "level_base b' * ?w = ?lo" unfolding base lo ..
  then have "(level_base b' + ?c) * ?w = ?hi" unfolding add_mult_distrib cnt(1) using span(1) by simp
  ultimately have "level_ok i pl ph st (st + block_words pl ph i) b' data"
    unfolding level_ok_def b' using bm(2) rounding(1) [OF A(1), of ph] rounding(3) [OF A(1), of pl] lim(5) \<open>level_base b' * ?w = ?lo\<close>
    by (simp only: next_shift_def simp_thms)
  then show ?thesis using run bm(3) b' by (simp add: level_set_def)
qed

definition shifts_from :: "nat \<Rightarrow> nat list" where
  "shifts_from i = map (\<lambda>j. page_shift j + 12) [i..<7]"

lemma shifts_all: "MemoryBlockPageShifts = shifts_from 0"
  by (simp add: shifts_from_def page_shift_def MemoryBlockPageShifts_def upt_conv_Cons)

lemma shift_count: "length MemoryBlockPageShifts = 7"
  by (simp add: MemoryBlockPageShifts_def)

lemma shifts_step: "i < 7 \<Longrightarrow> shifts_from i = (page_shift i + 12) # shifts_from (Suc i)" "shifts_from 7 = []"
  "i < 7 \<Longrightarrow> (case shifts_from (Suc i) of [] \<Rightarrow> 0 | next # _ \<Rightarrow> next) = next_shift i"
proof -
  show step: "i < 7 \<Longrightarrow> shifts_from i = (page_shift i + 12) # shifts_from (Suc i)" for i by (simp add: shifts_from_def upt_conv_Cons)
  show "shifts_from 7 = []" by (simp add: shifts_from_def)
  moreover assume "i < 7"
  ultimately show "(case shifts_from (Suc i) of [] \<Rightarrow> 0 | next # _ \<Rightarrow> next) = next_shift i"
    using step [of "Suc i"] by (cases "i = 6") (simp_all add: next_shift_def)
qed

lemma regions_step: "heap_regions pl ph (Suc i) = heap_regions pl ph i + block_words pl ph i"
  by (simp add: heap_regions_def)

lemma regions_le: "i \<le> j \<Longrightarrow> heap_regions pl ph i \<le> heap_regions pl ph j"
  unfolding heap_regions_def by (rule sum_mono2) auto

definition empty_level :: "nat \<Rightarrow> nat \<Rightarrow> nat \<Rightarrow> Block \<Rightarrow> u64 list \<Rightarrow> bool" where
  "empty_level pl ph i b data \<longleftrightarrow> level_ok i pl ph (heap_regions pl ph i) (heap_regions pl ph (Suc i)) b data \<and> level_set b data = {}"

definition fresh_block :: "Block \<Rightarrow> bool" where
  "fresh_block b \<longleftrightarrow> length (m_bit_storages (m_bitmap b)) = 4 \<and> length (m_end_storages (m_bitmap b)) = 4"

lemma init_blocks_empty:
  assumes bounds: "heap_bounds pl ph" and data: "heap_regions pl ph 7 \<le> length (m_management_data hp)" "\<And>p. p < length (m_management_data hp) \<Longrightarrow> m_management_data hp ! p = 0"
    and "hp_heap_address hp = page_address pl" "m_heap_size hp = page_address (ph - pl)" "length (hp_blocks hp) = 7" "n + i = 7"
    and "\<And>j. i \<le> j \<Longrightarrow> j < 7 \<Longrightarrow> fresh_block (hp_blocks hp ! j)" "\<And>j. j < i \<Longrightarrow> empty_level pl ph j (hp_blocks hp ! j) (m_management_data hp)"
  shows "\<exists>bs. init_blocks D i (shifts_from i) (heap_regions pl ph i) hp = Inr (heap_regions pl ph 7, hp\<lparr>hp_blocks := bs\<rparr>) \<and> length bs = 7 \<and>
    (\<forall>j < 7. empty_level pl ph j (bs ! j) (m_management_data hp))"
  using assms(2-)
proof (induction n arbitrary: i hp)
  case 0
  then show ?case by (intro exI [of _ "hp_blocks hp"]) (simp add: shifts_step(2))
next
  case (Suc n)
  let ?b = "hp_blocks hp ! i" and ?data = "m_management_data hp" and ?R = "heap_regions pl ph"
  have i: "i < 7" using Suc.prems(6) by simp
  have fit: "?R i + block_words pl ph i \<le> length ?data" using Suc.prems(1) regions_le [of "Suc i" 7 pl ph] i unfolding regions_step by simp
  obtain b where b: "blk_Initialize D (page_address pl) (page_address (ph - pl)) (page_shift i + 12) (next_shift i) (?R i) ?b = Inr (?R (Suc i), b)"
    "empty_level pl ph i b ?data"
    using blk_Initialize_empty [OF bounds i _ _ fit, of ?b D] Suc.prems(2) Suc.prems(7) [of i] i unfolding empty_level_def regions_step fresh_block_def by auto
  let ?hp = "hp_set i b ?data hp"
  have hp: "hp_blocks ?hp = (hp_blocks hp)[i := b]" "m_management_data ?hp = ?data" "hp_heap_address ?hp = hp_heap_address hp" "m_heap_size ?hp = m_heap_size hp"
    by (simp_all add: hp_set_def)
  have "init_blocks D i (shifts_from i) (?R i) hp = init_blocks D (Suc i) (shifts_from (Suc i)) (?R (Suc i)) ?hp"
    unfolding shifts_step(1) [OF i] using b(1) Suc.prems(3-5) i shifts_step(3) [OF i] by (simp add: hp_block_def)
  moreover have "fresh_block (hp_blocks ?hp ! j)" if "Suc i \<le> j" "j < 7" for j using Suc.prems(7) [of j] that by (simp add: hp)
  moreover have "empty_level pl ph j (hp_blocks ?hp ! j) ?data" if "j < Suc i" for j
    using Suc.prems(5,8) b(2) that i by (cases "j = i") (simp_all add: hp)
  ultimately obtain bs where "init_blocks D i (shifts_from i) (?R i) hp = Inr (?R 7, ?hp\<lparr>hp_blocks := bs\<rparr>)" "length bs = 7"
    "\<forall>j < 7. empty_level pl ph j (bs ! j) ?data"
    using Suc.IH [of ?hp "Suc i"] Suc.prems(1-6) unfolding hp by fastforce
  then show ?case by (intro exI [of _ bs]) (simp add: hp_set_def)
qed

lemma blk_overhead_enough:
  assumes bounds: "heap_bounds pl ph" and i: "i < 7"
  shows "8 * block_words pl ph i \<le> blk_overhead (page_address (ph - pl)) (page_shift i + 12) (next_shift i)"
proof -
  let ?A = "block_align i" and ?w = "2 ^ page_shift i :: nat" and ?n = "ph - pl"
  let ?R = "2 * ?A + (?n + ?A - 1) div ?A * ?A"
  have A: "0 < ?A" "?A \<le> 262144" using block_align_bounds [of i] i by simp_all
  have n: "?n \<le> 2 ^ 23" using bounds by (simp add: heap_bounds_def)
  have lim: "?n \<le> page_limit" "?A \<le> page_limit" "?w \<le> page_limit" "?R \<le> page_limit"
    using n A(2) size_bound [OF i] rounding(2) [OF A(1), of ?n] by (simp_all add: page_limit_def)
  obtain q where q: "?R = q * ?w"
  proof
    show "?R = (2 * group_size i + (?n + ?A - 1) div ?A * group_size i) * ?w" by (simp add: block_align_def add_mult_distrib mult.assoc)
  qed
  have "(page_address ?A * 2 + AlignUp_u64 (page_address ?n) (page_address ?A)) div push_bit (page_shift i + 12) 1 = of_nat q"
  proof -
    have "page_address ?A * 2 + AlignUp_u64 (page_address ?n) (page_address ?A) = page_address (q * ?w)"
      unfolding AlignUp_address [OF lim(1,2) A(1)] mult_2_right page_address_add q [symmetric] by (simp only: mult_2)
    then show ?thesis unfolding size_address using address_div [of q ?w] lim(3,4) q by simp
  qed
  moreover have "q * 1 \<le> q * ?w" by (rule mult_le_mono2) simp
  then have "q \<le> page_limit" using lim(4) q by linarith
  then have "unat (of_nat q :: u64) = q" unfolding unat_of_nat by (simp add: page_limit_def)
  ultimately have over: "blk_overhead (page_address ?n) (page_shift i + 12) (next_shift i) = bitmap_overhead q"
    unfolding blk_overhead_def Let_def align_word [OF i] by simp
  have "block_count pl ph i * ?w \<le> q * ?w" using block_count_overhead [OF bounds i] unfolding q .
  then have "block_count pl ph i \<le> q" by simp
  then show ?thesis unfolding over block_words_def by (metis bitmap_overhead_mono bitmap_overhead_words)
qed

lemma align_up_ge:
  assumes "0 < d"
  shows "x \<le> align_up x d"
proof -
  have "x \<le> x - x mod d + d" using mod_less_divisor [OF assms, of x] mod_less_eq_dividend [of x d] by linarith
  then show ?thesis by (cases "x mod d = 0") (simp_all add: align_up_def)
qed

lemma heap_overhead_enough:
  assumes "heap_bounds pl ph"
  shows "8 * heap_regions pl ph 7 \<le> heap_overhead (page_address (ph - pl)) MemoryBlockPageShifts"
proof -
  have "8 * sum (block_words pl ph) {i..<7} \<le> overhead_sum (page_address (ph - pl)) (shifts_from i)" if "n + i = 7" for n i
    using that
  proof (induction n arbitrary: i)
    case (Suc n)
    then have i: "i < 7" by simp
    have "sum (block_words pl ph) {i..<7} = block_words pl ph i + sum (block_words pl ph) {Suc i..<7}" using i by (rule sum.atLeast_Suc_lessThan)
    then show ?case
      using Suc.IH [of "Suc i"] Suc.prems blk_overhead_enough [OF assms i] shifts_step(3) [OF i] unfolding shifts_step(1) [OF i] by simp
  qed simp
  from this [of 7 0] have "8 * heap_regions pl ph 7 \<le> overhead_sum (page_address (ph - pl)) MemoryBlockPageShifts"
    by (simp add: heap_regions_def shifts_all atLeast0LessThan)
  also have "\<dots> \<le> align_up (overhead_sum (page_address (ph - pl)) MemoryBlockPageShifts) 4096" by (rule align_up_ge) simp
  finally show ?thesis unfolding heap_overhead_def .
qed

lemma page_aligned: "page_address p AND (PageSize - 1) = 0"
proof -
  have "PageSize - 1 = mask 12" by (simp add: PageSize_def mask_eq_exp_minus_1)
  moreover have "page_address p = push_bit 12 (of_nat p)" by (simp add: page_address_def push_bit_eq_mult)
  ultimately show ?thesis by (simp only: take_bit_push_bit flip: take_bit_eq_mask) simp
qed

lemma vector_resize_fresh: "length (vector_resize n []) = n" "p < n \<Longrightarrow> vector_resize n [] ! p = 0"
  by (simp_all add: vector_resize_def)

lemma new_gen_ok: "gen_ok (new_RandomBitGenerator seed)"
  by (simp add: gen_ok_def new_RandomBitGenerator_def Initialize_live)

lemma heap_Initialize_empty:
  assumes bounds: "heap_bounds pl ph" and seeds: "length seeds = 7"
    and room: "CalculateManagementOverheadSize (page_address (ph - pl)) \<le> unat msize"
  shows "\<exists>hp e. hp_Initialize D data_ptr (page_address pl) (page_address (ph - pl)) maddr msize (new_KPageHeap seeds seed) =
      (if D \<and> \<not> data_ptr + e \<le> maddr + msize then Inl PageAssertFailed else Inr hp) \<and>
    heap_ok pl ph (heap_regions pl ph) hp \<and> heap_free hp = {} \<and> e \<le> msize"
proof -
  let ?data = "vector_resize (unat (msize div 8)) []" and ?R = "heap_regions pl ph"
  let ?hp = "(new_KPageHeap seeds seed)\<lparr>hp_heap_address := page_address pl, m_heap_size := page_address (ph - pl), m_num_blocks := 7, m_management_data := ?data\<rparr>"
  have R: "8 * ?R 7 \<le> unat msize" using heap_overhead_enough [OF bounds] room by (simp add: CalculateManagementOverheadSize_def)
  have len: "?R 7 \<le> length ?data" using R by (simp add: vector_resize_fresh unat_div)
  have fresh: "fresh_block (hp_blocks ?hp ! j)" if "j < 7" for j
    using that seeds by (simp add: new_KPageHeap_def new_Block_def new_KPageBitmap_def fresh_block_def MaxDepth_def)
  obtain bs where bs: "init_blocks D 0 MemoryBlockPageShifts 0 ?hp = Inr (?R 7, ?hp\<lparr>hp_blocks := bs\<rparr>)" "length bs = 7" "\<forall>j < 7. empty_level pl ph j (bs ! j) ?data"
    using init_blocks_empty [OF bounds, where hp = ?hp and i = 0 and n = 7 and D = D] len fresh seeds vector_resize_fresh(2)
    unfolding shifts_all by (auto simp: heap_regions_def new_KPageHeap_def vector_resize_fresh)
  let ?res = "?hp\<lparr>hp_blocks := bs\<rparr>"
  have "unat (8 * of_nat (?R 7) :: u64) = 8 * ?R 7" using R unsigned_less [of msize, where 'a = nat] unat_of_nat [of "8 * ?R 7", where 'a = 64] by simp
  then have e: "8 * of_nat (?R 7) \<le> msize" using R by (simp add: word_le_nat_alt)
  have "m_management_data (new_KPageHeap seeds seed) = []" by (simp add: new_KPageHeap_def)
  then have run: "heap_Initialize D data_ptr (page_address pl) (page_address (ph - pl)) maddr msize MemoryBlockPageShifts (new_KPageHeap seeds seed) =
      (if D \<and> \<not> data_ptr + 8 * of_nat (?R 7) \<le> maddr + msize then Inl PageAssertFailed else Inr ?res)"
    using bs(1) page_aligned shift_count by (simp add: heap_Initialize_def page_assert_def Let_def NumMemoryBlockPageShifts_def)
  have none: "heap_sets ?res = (\<lambda>_. {})" using bs(3) by (intro ext) (simp add: heap_sets_def empty_level_def)
  have "heap_ok pl ph ?R ?res"
    using bounds bs(2,3) buddy_empty unfolding heap_ok_def none heap_bounds_def by (simp add: empty_level_def regions_step new_KPageHeap_def new_gen_ok)
  moreover have "heap_free ?res = {}" by (simp add: heap_free_def none free_of_def)
  ultimately show ?thesis unfolding hp_Initialize_def using run e by (intro exI [of _ ?res] exI [of _ "8 * of_nat (?R 7)"]) blast
qed

end
