(* ===== verification/Heap_Behaviour.thy ===== *)
theory Heap_Behaviour
  imports Heap_Start
begin

text \<open>
  What the page heap promises its clients. In every run of allocations and frees the pages of the region are free or in exactly one allocated range, and the page
  count of the heap is the number of free ones. Allocating an aligned range fails only when no free block is large enough, and giving a block back restores the blocks there were.
\<close>

section \<open>Counting and choosing a size\<close>

lemma free_pages_loop_counts:
  assumes ok: "heap_ok pl ph r hp" and "n + i = 7"
  shows "free_pages_loop n i (of_nat (\<Sum>l<i. card (heap_sets hp l) * 2 ^ page_shift l)) hp = Inr (of_nat (card (heap_free hp)))"
  using assms(2)
proof (induction n arbitrary: i)
  case 0
  then show ?case using heap_free_card [OF ok] by simp
next
  case (Suc n)
  then have i: "i < 7" by simp
  note okD = heap_okD [OF ok]
  let ?b = "hp_blocks hp ! i"
  have "2 ^ page_shift i \<le> page_limit" using okD(5) size_bound [OF i] by linarith
  then have "blk_GetNumPages ?b = of_nat (2 ^ page_shift i)" unfolding blk_GetNumPages_def blk_size [OF okD(7) [OF i]] by (rule page_address_pages)
  moreover have "m_num_bits (m_bitmap ?b) = of_nat (card (heap_sets hp i))"
    using level_okD(7) [OF okD(7) [OF i]] i by (simp add: bitmap_ok_def heap_sets_def level_set_def card_image)
  ultimately have "blk_GetNumFreePages ?b = of_nat (card (heap_sets hp i) * 2 ^ page_shift i)"
    by (simp add: blk_GetNumFreePages_def blk_GetNumFreeBlocks_def)
  then show ?case using Suc.IH [of "Suc i"] Suc.prems okD(9) [OF i] by simp
qed

lemma aligned_index_loop_fits:
  "aligned_index_loop i t xs = int j \<Longrightarrow> i \<le> j \<and> j - i < length xs \<and> t \<le> push_bit (xs ! (j - i)) 1 div PageSize"
proof (induction xs arbitrary: i)
  case (Cons x xs)
  show ?case
  proof (cases "t \<le> push_bit x 1 div PageSize")
    case True
    then show ?thesis using Cons.prems by simp
  next
    case False
    then have "Suc i \<le> j \<and> j - Suc i < length xs \<and> t \<le> push_bit (xs ! (j - Suc i)) 1 div PageSize"
      using Cons.IH [of "Suc i"] Cons.prems by simp
    moreover from this have "j - i = Suc (j - Suc i)" by linarith
    ultimately show ?thesis by simp
  qed
qed simp

lemma GetAlignedBlockIndex_fits:
  assumes "GetAlignedBlockIndex (of_nat n) (2 ^ s) = int i" "n \<le> page_limit" "s \<le> 51"
  shows "i < 7" "n \<le> 2 ^ page_shift i" "s \<le> page_shift i"
proof -
  have fits: "i < 7 \<and> max (of_nat n) (2 ^ s) \<le> push_bit (MemoryBlockPageShifts ! i) 1 div PageSize"
    using aligned_index_loop_fits [OF assms(1) [unfolded GetAlignedBlockIndex_def]] by (simp only: shift_count diff_zero simp_thms)
  then show i: "i < 7" ..
  let ?w = "2 ^ page_shift i :: nat"
  have "?w \<le> page_limit" using size_bound [OF i] by (simp add: page_limit_def)
  then have w: "push_bit (MemoryBlockPageShifts ! i) 1 div PageSize = of_nat ?w"
    unfolding page_shift_table(1) [OF i] size_address by (rule page_address_pages)
  have small: "unat (of_nat x :: u64) = x" if "x \<le> page_limit" for x using that unfolding unat_of_nat by (simp add: page_limit_def)
  have "(2 :: nat) ^ s \<le> page_limit" unfolding page_limit_def by (rule power_increasing [OF assms(3)]) simp
  then have "unat ((2 :: u64) ^ s) = 2 ^ s" using small [of "2 ^ s"] by simp
  moreover have "of_nat n \<le> (of_nat ?w :: u64)" "2 ^ s \<le> (of_nat ?w :: u64)" using fits unfolding w max.bounded_iff by blast+
  ultimately have le: "n \<le> ?w" "2 ^ s \<le> ?w"
    unfolding word_le_nat_alt small [OF assms(2)] small [OF \<open>?w \<le> page_limit\<close>] by simp_all
  show "n \<le> ?w" by (rule le(1))
  show "s \<le> page_shift i" using le(2) by simp
qed

section \<open>Runs of the heap\<close>

text \<open>The heap as its clients use it: the pages of the region are freed after the initialisation; then ranges are allocated, as pages with an alignment or as a
  block of a size, and given back. The list has the ranges that are allocated, as first page and number of pages.\<close>

inductive heap_runs :: "bool \<Rightarrow> nat \<Rightarrow> nat \<Rightarrow> KPageHeap \<Rightarrow> (nat \<times> nat) list \<Rightarrow> bool" for D pl ph where
  start: "hp_Initialize D data_ptr (page_address pl) (page_address (ph - pl)) maddr msize (new_KPageHeap seeds seed) = Inr hp \<Longrightarrow>
    CalculateManagementOverheadSize (page_address (ph - pl)) \<le> unat msize \<Longrightarrow> length seeds = 7 \<Longrightarrow>
    heap_Free D (page_address pl) (of_nat (ph - pl)) hp = Some (Inr hp') \<Longrightarrow> heap_runs D pl ph hp' []"
| aligned: "heap_runs D pl ph hp live \<Longrightarrow> 0 < n \<Longrightarrow> n \<le> page_limit \<Longrightarrow> s \<le> 51 \<Longrightarrow> GetAlignedBlockIndex (of_nat n) (2 ^ s) = int i \<Longrightarrow>
    AllocateAligned D i (of_nat n) (2 ^ s) hp = Some (Inr (addr, hp')) \<Longrightarrow>
    heap_runs D pl ph hp' (if addr = 0 then live else (unat addr div 4096, n) # live)"
| block: "heap_runs D pl ph hp live \<Longrightarrow> i < 7 \<Longrightarrow> AllocateBlock D i random hp = Some (Inr (addr, hp')) \<Longrightarrow>
    heap_runs D pl ph hp' (if addr = 0 then live else (unat addr div 4096, 2 ^ page_shift i) # live)"
| free: "heap_runs D pl ph hp live \<Longrightarrow> (p, n) \<in> set live \<Longrightarrow> heap_Free D (page_address p) (of_nat n) hp = Some (Inr hp') \<Longrightarrow>
    heap_runs D pl ph hp' (remove1 (p, n) live)"

definition range_pages :: "nat \<times> nat \<Rightarrow> nat list" where
  "range_pages a = [fst a..<fst a + snd a]"

definition live_pages :: "(nat \<times> nat) list \<Rightarrow> nat list" where
  "live_pages live = concat (map range_pages live)"

lemma live_pages_simps [simp]: "live_pages [] = []" "live_pages (a # live) = range_pages a @ live_pages live"
  by (simp_all add: live_pages_def)

lemma set_range_pages [simp]: "set (range_pages (p, n)) = {p..<p + n}" "distinct (range_pages a)"
  by (simp_all add: range_pages_def)

definition heap_split :: "nat \<Rightarrow> nat \<Rightarrow> KPageHeap \<Rightarrow> (nat \<times> nat) list \<Rightarrow> bool" where
  "heap_split pl ph hp live \<longleftrightarrow> heap_ok pl ph (heap_regions pl ph) hp \<and> distinct (live_pages live) \<and>
    heap_free hp = {pl..<ph} - set (live_pages live) \<and> set (live_pages live) \<subseteq> {pl..<ph}"

lemma live_pages_remove:
  assumes "a \<in> set live" "distinct (live_pages live)"
  shows "distinct (live_pages (remove1 a live)) \<and> set (live_pages (remove1 a live)) = set (live_pages live) - set (range_pages a) \<and>
    set (range_pages a) \<subseteq> set (live_pages live)"
  using assms
proof (induction live)
  case (Cons b live)
  show ?case
  proof (cases "b = a")
    case True
    then show ?thesis using Cons.prems by auto
  next
    case False
    then have "distinct (live_pages (remove1 a live)) \<and> set (live_pages (remove1 a live)) = set (live_pages live) - set (range_pages a) \<and>
      set (range_pages a) \<subseteq> set (live_pages live)" using Cons by auto
    then show ?thesis using False Cons.prems(2) by auto
  qed
qed simp

lemma heap_split_take:
  assumes "heap_split pl ph hp live" "pages_taken pl ph (heap_regions pl ph) hp {p..<p + n} hp'"
  shows "heap_split pl ph hp' ((p, n) # live)"
  using assms set_range_pages(2) [of "(p, n)"] unfolding heap_split_def pages_taken_def live_pages_simps distinct_append set_append set_range_pages(1) by blast

lemma taken_pages:
  assumes "heap_ok pl ph r hp" "pages_taken pl ph r hp {p..<p + n} hp'" "0 < n"
  shows "p \<in> {pl..<ph}" "unat (page_address p) div 4096 = p"
proof -
  have "p \<in> {p..<p + n}" using assms(3) by simp
  then show "p \<in> {pl..<ph}" using assms(1,2) heap_free_bound(1) [OF assms(1)] unfolding pages_taken_def by blast
  then have "p \<le> page_limit" using heap_okD(4) [OF assms(1)] by simp
  then show "unat (page_address p) div 4096 = p" by (simp add: unat_page_address)
qed

lemma AllocateAligned_allocates:
  assumes "heap_ok pl ph r hp" "0 < n" "n \<le> page_limit" "s \<le> 51" "GetAlignedBlockIndex (of_nat n) (2 ^ s) = int i"
  shows "if \<exists>k. block_range page_shift i k \<subseteq> heap_free hp
    then \<exists>p hp'. AllocateAligned D i (of_nat n) (2 ^ s) hp = Some (Inr (page_address p, hp')) \<and> page_address p \<noteq> 0 \<and>
      pages_taken pl ph r hp {p..<p + n} hp' \<and> 2 ^ s dvd p
    else \<exists>hp'. AllocateAligned D i (of_nat n) (2 ^ s) hp = Some (Inr (0, hp')) \<and> pages_taken pl ph r hp {} hp'"
  unfolding AllocateAligned_def
  by (rule AllocateByRandom_allocates [OF assms(1) GetAlignedBlockIndex_fits(1) [OF assms(5,3,4)] assms(2) GetAlignedBlockIndex_fits(2,3) [OF assms(5,3,4)]])

lemma AllocateBlock_allocates:
  assumes "heap_ok pl ph r hp" "i < 7"
  shows "if \<exists>k. block_range page_shift i k \<subseteq> heap_free hp
    then \<exists>k hp'. AllocateBlock D i random hp = Some (Inr (page_address (k * 2 ^ page_shift i), hp')) \<and>
      page_address (k * 2 ^ page_shift i) \<noteq> 0 \<and> pages_taken pl ph r hp (block_range page_shift i k) hp'
    else \<exists>hp'. AllocateBlock D i random hp = Some (Inr (0, hp')) \<and> pages_taken pl ph r hp {} hp'"
proof (cases random)
  case False
  have "pages_taken pl ph r hp {} hp" using assms(1) by (simp add: pages_taken_def)
  then show ?thesis
    using AllocateByLinearSearch_allocates [OF assms, of D] False unfolding AllocateBlock_def by (simp only: if_False split: if_split) blast
next
  case True
  let ?w = "2 ^ page_shift i :: nat"
  have "blk_GetNumPages (hp_blocks hp ! i) = of_nat ?w"
    unfolding blk_GetNumPages_def blk_size [OF heap_okD(7) [OF assms]] using heap_okD(5) [OF assms(1)] size_bound [OF assms(2)]
    by (intro page_address_pages) linarith
  then have run: "AllocateBlock D i random hp = AllocateByRandom D i (of_nat ?w) (2 ^ page_shift i) hp"
    using True heap_okD(9) [OF assms] by (simp add: AllocateBlock_def)
  have start: "\<exists>k. p = k * ?w \<and> {p..<p + ?w} = block_range page_shift i k" if "?w dvd p" for p
    using that unfolding block_range_interval by (auto elim!: dvdE simp: mult.commute)
  show ?thesis
    using AllocateByRandom_allocates [OF assms _ order_refl order_refl, of D] start unfolding run by (simp split: if_splits) metis
qed

lemma heap_split_give_back:
  assumes "heap_split pl ph hp live" "(p, n) \<in> set live"
  shows "\<exists>hp'. heap_Free D (page_address p) (of_nat n) hp = Some (Inr hp') \<and> heap_split pl ph hp' (remove1 (p, n) live)"
proof (cases "n = 0")
  case True
  have "set (range_pages (p, n)) = {}" using True by simp
  then have "heap_split pl ph hp (remove1 (p, n) live)"
    using assms live_pages_remove [OF assms(2)] unfolding heap_split_def by simp
  then show ?thesis using True by (simp add: heap_Free_def)
next
  case False
  note sp = assms(1) [unfolded heap_split_def]
  have rm: "distinct (live_pages (remove1 (p, n) live))" "set (live_pages (remove1 (p, n) live)) = set (live_pages live) - {p..<p + n}"
    "{p..<p + n} \<subseteq> set (live_pages live)" using live_pages_remove [OF assms(2)] sp by simp_all
  have range: "{p..<p + n} \<subseteq> {pl..<ph}" "{p..<p + n} \<inter> heap_free hp = {}" using rm(3) sp by blast+
  then have "p + n \<le> ph" using False by (simp add: atLeastLessThan_subset_iff)
  then obtain hp' where h: "heap_Free D (page_address p) (of_nat n) hp = Some (Inr hp')" "pages_freed pl ph (heap_regions pl ph) hp {p..<p + n} hp'"
    using heap_Free_frees [of pl ph "heap_regions pl ph" hp p n D] sp range by blast
  then have "heap_split pl ph hp' (remove1 (p, n) live)" using sp rm range unfolding heap_split_def pages_freed_def by blast
  then show ?thesis using h(1) by blast
qed

lemma heap_start_splits:
  assumes "heap_bounds pl ph" "length seeds = 7" "CalculateManagementOverheadSize (page_address (ph - pl)) \<le> unat msize"
    and "hp_Initialize D data_ptr (page_address pl) (page_address (ph - pl)) maddr msize (new_KPageHeap seeds seed) = Inr hp"
  shows "\<exists>hp'. heap_Free D (page_address pl) (of_nat (ph - pl)) hp = Some (Inr hp') \<and> heap_split pl ph hp' []"
proof -
  have ok: "heap_ok pl ph (heap_regions pl ph) hp" "heap_free hp = {}"
    using heap_Initialize_empty [OF assms(1-3), of D data_ptr maddr seed] assms(4) by (auto split: if_splits)
  have "pl + (ph - pl) = ph" using assms(1) by (simp add: heap_bounds_def)
  then show ?thesis using heap_Free_frees [OF ok(1), of pl "ph - pl" D] ok(2) unfolding pages_freed_def heap_split_def by auto
qed

lemma heap_runs_split:
  assumes "heap_runs D pl ph hp live" "heap_bounds pl ph"
  shows "heap_split pl ph hp live"
  using assms(1)
proof induction
  case (start data_ptr maddr msize seeds seed hp hp')
  then show ?case using heap_start_splits [OF assms(2) start(3,2,1)] by auto
next
  case (aligned hp live n s i addr hp')
  note ok = conjunct1 [OF aligned.IH [unfolded heap_split_def]]
  show ?case
  proof (cases "\<exists>k. block_range page_shift i k \<subseteq> heap_free hp")
    case True
    then obtain p where p: "addr = page_address p" "page_address p \<noteq> 0" "pages_taken pl ph (heap_regions pl ph) hp {p..<p + n} hp'"
      using AllocateAligned_allocates [OF ok aligned.hyps(2-5), of D] aligned.hyps(6) by auto
    then show ?thesis using heap_split_take [OF aligned.IH p(3)] taken_pages(2) [OF ok p(3) aligned.hyps(2)] by simp
  next
    case False
    then have "addr = 0" "pages_taken pl ph (heap_regions pl ph) hp {} hp'"
      using AllocateAligned_allocates [OF ok aligned.hyps(2-5), of D] aligned.hyps(6) by auto
    then show ?thesis using aligned.IH by (simp add: heap_split_def pages_taken_def)
  qed
next
  case (block hp live i random addr hp')
  note ok = conjunct1 [OF block.IH [unfolded heap_split_def]]
  show ?case
  proof (cases "\<exists>k. block_range page_shift i k \<subseteq> heap_free hp")
    case True
    then obtain k where k: "addr = page_address (k * 2 ^ page_shift i)" "page_address (k * 2 ^ page_shift i) \<noteq> 0"
      "pages_taken pl ph (heap_regions pl ph) hp {k * 2 ^ page_shift i..<k * 2 ^ page_shift i + 2 ^ page_shift i} hp'"
      using AllocateBlock_allocates [OF ok block.hyps(2), of D random] block.hyps(3) unfolding block_range_interval by auto
    then show ?thesis using heap_split_take [OF block.IH k(3)] taken_pages(2) [OF ok k(3)] by simp
  next
    case False
    then have "addr = 0" "pages_taken pl ph (heap_regions pl ph) hp {} hp'"
      using AllocateBlock_allocates [OF ok block.hyps(2), of D random] block.hyps(3) by auto
    then show ?thesis using block.IH by (simp add: heap_split_def pages_taken_def)
  qed
next
  case (free hp live p n hp')
  then show ?case using heap_split_give_back [OF free.IH free.hyps(2), of D] by auto
qed

lemma heap_counts: "heap_ok pl ph r hp \<Longrightarrow> GetNumFreePages hp = Inr (of_nat (card (heap_free hp)))"
  using free_pages_loop_counts [of pl ph r hp 7 0] heap_okD(2) [of pl ph r hp] by (simp add: GetNumFreePages_def)

lemma length_live_pages: "length (live_pages live) = sum_list (map snd live)"
  by (induction live) (simp_all add: range_pages_def)

lemma split_card:
  assumes "heap_split pl ph hp live"
  shows "card (heap_free hp) = ph - pl - sum_list (map snd live)"
proof -
  have "card (set (live_pages live)) = sum_list (map snd live)"
    using assms distinct_card length_live_pages unfolding heap_split_def by metis
  then show ?thesis using assms card_Diff_subset [of "set (live_pages live)" "{pl..<ph}"] unfolding heap_split_def by simp
qed

section \<open>A heap of sixteen pages\<close>

lemma small_bitmap:
  assumes "n \<le> 1000"
  shows "bitmap_overhead n \<le> 136"
proof -
  have "bitmap_overhead n \<le> bitmap_overhead 1000" by (rule bitmap_overhead_mono [OF assms])
  moreover have "GetRequiredDepth 1000 = Suc (Suc 0)" by (subst GetRequiredDepth.simps, subst GetRequiredDepth.simps, simp)
  ultimately show ?thesis by (simp add: bitmap_overhead_def align_up_def)
qed

lemma overhead_16: "CalculateManagementOverheadSize (page_address 16) \<le> 4096"
proof -
  let ?s = "page_address 16"
  have s: "?s = 65536" by (simp add: page_address_def)
  have "blk_overhead ?s 12 16 \<le> 136" "blk_overhead ?s 16 21 \<le> 136" "blk_overhead ?s 21 22 \<le> 136" "blk_overhead ?s 22 25 \<le> 136"
    "blk_overhead ?s 25 29 \<le> 136" "blk_overhead ?s 29 30 \<le> 136" "blk_overhead ?s 30 0 \<le> 136"
    unfolding blk_overhead_def Let_def s AlignUp_u64_def by (rule small_bitmap, simp)+
  then have "overhead_sum ?s MemoryBlockPageShifts \<le> 952" by (simp add: MemoryBlockPageShifts_def)
  then show ?thesis by (simp add: CalculateManagementOverheadSize_def heap_overhead_def align_up_def)
qed

lemma heap_16_bounds: "heap_bounds 16 32"
  by (simp add: heap_bounds_def)

lemma one_page_index: "GetAlignedBlockIndex (of_nat 1) (2 ^ 0) = int 0"
  by (simp add: GetAlignedBlockIndex_def MemoryBlockPageShifts_def PageSize_def)

lemma heap_start:
  assumes "heap_bounds pl ph" "length seeds = 7" "CalculateManagementOverheadSize (page_address (ph - pl)) \<le> unat msize"
    and "\<forall>e \<le> msize. data_ptr + e \<le> maddr + msize"
  shows "\<exists>hp hp'. hp_Initialize D data_ptr (page_address pl) (page_address (ph - pl)) maddr msize (new_KPageHeap seeds seed) = Inr hp \<and>
    GetNumFreePages hp = Inr 0 \<and> heap_Free D (page_address pl) (of_nat (ph - pl)) hp = Some (Inr hp') \<and> heap_runs D pl ph hp' []"
proof -
  obtain hp where hp: "hp_Initialize D data_ptr (page_address pl) (page_address (ph - pl)) maddr msize (new_KPageHeap seeds seed) = Inr hp"
    "heap_ok pl ph (heap_regions pl ph) hp" "heap_free hp = {}"
    using heap_Initialize_empty [OF assms(1-3), of D data_ptr maddr seed] assms(4) by auto
  obtain hp' where hp': "heap_Free D (page_address pl) (of_nat (ph - pl)) hp = Some (Inr hp')" using heap_start_splits [OF assms(1-3) hp(1)] by blast
  show ?thesis using hp(1) hp' heap_counts [OF hp(2)] hp(3) heap_runs.start [OF hp(1) assms(3,2) hp'] by simp
qed

lemma heap_16: "\<exists>hp. heap_runs True 16 32 hp [] \<and> heap_free hp = {16..<32}"
proof -
  obtain hp where hp: "heap_runs True 16 32 hp []"
    using heap_start [OF heap_16_bounds, of "replicate 7 0" 4096 0 0 True 0] overhead_16 by auto
  then show ?thesis using heap_runs_split [OF hp heap_16_bounds] by (auto simp: heap_split_def)
qed

lemma heap_16_allocated: "\<exists>hp p. heap_runs True 16 32 hp [(p, 1)]"
proof -
  obtain hp where hp: "heap_runs True 16 32 hp []" "heap_free hp = {16..<32}" using heap_16 by blast
  have ok: "heap_ok 16 32 (heap_regions 16 32) hp" using heap_runs_split [OF hp(1) heap_16_bounds] by (simp add: heap_split_def)
  have free: "\<exists>k. block_range page_shift 0 k \<subseteq> heap_free hp" by (rule exI [of _ 16]) (simp add: hp(2) block_range_interval)
  have lim: "(1 :: nat) \<le> page_limit" "(0 :: nat) \<le> 51" by (simp_all add: page_limit_def)
  obtain p hp' where p: "AllocateAligned True 0 (of_nat 1) (2 ^ 0) hp = Some (Inr (page_address p, hp'))" "page_address p \<noteq> 0"
    "pages_taken 16 32 (heap_regions 16 32) hp {p..<p + 1} hp'"
    using AllocateAligned_allocates [OF ok zero_less_one lim one_page_index, of True] free by auto
  show ?thesis
    using heap_runs.aligned [OF hp(1) zero_less_one lim one_page_index p(1)] taken_pages(2) [OF ok p(3)] p(2) by (intro exI [of _ hp'] exI [of _ p]) simp
qed

section \<open>Properties\<close>

text \<open>
  C13. In every run of the page heap, from its initialisation over any sequence of allocations and frees, the allocated ranges do not
  overlap and lie in the region, the free pages are exactly the other ones, the heap's count of free pages is right, and
  every allocated range can be freed: the call returns without a fault.
\<close>

theorem page_heap_accounts:
  assumes "heap_runs D pl ph hp live" "heap_bounds pl ph"
  shows "distinct (live_pages live) \<and> set (live_pages live) \<subseteq> {pl..<ph} \<and> heap_free hp = {pl..<ph} - set (live_pages live) \<and>
    GetNumFreePages hp = Inr (of_nat (ph - pl - sum_list (map snd live))) \<and>
    (\<forall>a \<in> set live. \<exists>hp'. heap_Free D (page_address (fst a)) (of_nat (snd a)) hp = Some (Inr hp'))"
proof -
  note sp = heap_runs_split [OF assms]
  have "\<exists>hp'. heap_Free D (page_address (fst a)) (of_nat (snd a)) hp = Some (Inr hp')" if "a \<in> set live" for a
    using heap_split_give_back [OF sp, of "fst a" "snd a" D] that by auto
  then show ?thesis using sp heap_counts [of pl ph "heap_regions pl ph" hp] split_card [OF sp] unfolding heap_split_def by auto
qed

theorem page_heap_accounts_witness:
  "\<exists>hp p. heap_runs True 16 32 hp [(p, 1)] \<and> GetNumFreePages hp = Inr 15 \<and> p \<in> {16..<32} - heap_free hp"
proof -
  obtain hp p where hp: "heap_runs True 16 32 hp [(p, 1)]" using heap_16_allocated by blast
  then show ?thesis using page_heap_accounts [OF hp heap_16_bounds] by (intro exI [of _ hp] exI [of _ p]) (auto simp: live_pages_def)
qed

text \<open>
  C12. A page heap whose management data has the size the heap computes for its region is initialised without a fault, provided the
  host address of that data is low enough for the last assertion, and has no free page; freeing the region then makes every page free.
\<close>

theorem page_heap_starts:
  assumes "heap_bounds pl ph" and "length seeds = 7" and "CalculateManagementOverheadSize (page_address (ph - pl)) \<le> unat msize"
    and "\<forall>e \<le> msize. data_ptr + e \<le> maddr + msize"
  shows "\<exists>hp hp'. hp_Initialize D data_ptr (page_address pl) (page_address (ph - pl)) maddr msize (new_KPageHeap seeds seed) = Inr hp \<and>
    GetNumFreePages hp = Inr 0 \<and> heap_Free D (page_address pl) (of_nat (ph - pl)) hp = Some (Inr hp') \<and> GetNumFreePages hp' = Inr (of_nat (ph - pl))"
proof -
  obtain hp hp' where hp: "hp_Initialize D data_ptr (page_address pl) (page_address (ph - pl)) maddr msize (new_KPageHeap seeds seed) = Inr hp"
    "GetNumFreePages hp = Inr 0" "heap_Free D (page_address pl) (of_nat (ph - pl)) hp = Some (Inr hp')" "heap_runs D pl ph hp' []"
    using heap_start [OF assms, of D seed] by blast
  note sp = heap_runs_split [OF hp(4) assms(1)]
  have "heap_ok pl ph (heap_regions pl ph) hp'" using sp by (simp add: heap_split_def)
  then show ?thesis using hp(1-3) heap_counts split_card [OF sp] by (intro exI [of _ hp] exI [of _ hp']) simp
qed

theorem page_heap_starts_witness:
  "\<exists>hp hp'. hp_Initialize True 0 (page_address 16) (page_address 16) 0 4096 (new_KPageHeap (replicate 7 0) 0) = Inr hp \<and>
    GetNumFreePages hp = Inr 0 \<and> heap_Free True (page_address 16) 16 hp = Some (Inr hp') \<and> GetNumFreePages hp' = Inr 16"
  using page_heap_starts [OF heap_16_bounds, of "replicate 7 0" 4096 0 0 True 0] overhead_16 by simp

text \<open>
  C35. An allocation of pages with an alignment, by the random search from the block size the heap chooses for it, returns a range that was
  free, aligned as asked for, and takes exactly it out of the free pages; it fails, and takes nothing, only when
  no block of the chosen size is free.
\<close>

theorem AllocateAligned_takes:
  assumes "heap_runs D pl ph hp live" and "heap_bounds pl ph" and "0 < n" and "n \<le> page_limit" and "s \<le> 51"
    and "GetAlignedBlockIndex (of_nat n) (2 ^ s) = int i"
  shows "if \<exists>k. block_range page_shift i k \<subseteq> heap_free hp
    then \<exists>p hp'. AllocateAligned D i (of_nat n) (2 ^ s) hp = Some (Inr (page_address p, hp')) \<and> page_address p \<noteq> 0 \<and> 2 ^ s dvd p \<and>
      {p..<p + n} \<subseteq> heap_free hp \<and> heap_free hp' = heap_free hp - {p..<p + n}
    else \<exists>hp'. AllocateAligned D i (of_nat n) (2 ^ s) hp = Some (Inr (0, hp')) \<and> heap_free hp' = heap_free hp"
proof -
  have "heap_ok pl ph (heap_regions pl ph) hp" using heap_runs_split [OF assms(1,2)] by (simp add: heap_split_def)
  from AllocateAligned_allocates [OF this assms(3-6), of D] show ?thesis unfolding pages_taken_def by (simp only: split: if_splits) auto
qed

theorem AllocateAligned_takes_witness:
  "\<exists>hp p hp'. heap_runs True 16 32 hp [] \<and> AllocateAligned True 0 1 1 hp = Some (Inr (page_address p, hp')) \<and> heap_free hp' = {16..<32} - {p}"
proof -
  obtain hp where hp: "heap_runs True 16 32 hp []" "heap_free hp = {16..<32}" using heap_16 by blast
  have free: "\<exists>k. block_range page_shift 0 k \<subseteq> heap_free hp" by (rule exI [of _ 16]) (simp add: hp(2) block_range_interval)
  have lim: "(1 :: nat) \<le> page_limit" "(0 :: nat) \<le> 51" by (simp_all add: page_limit_def)
  show ?thesis using AllocateAligned_takes [OF hp(1) heap_16_bounds zero_less_one lim one_page_index] free hp by auto
qed

text \<open>
  C37. A block that either search allocates and that is then freed leaves the heap with the same free blocks of every size as before: splitting
  and merging undo each other.
\<close>

theorem block_round_trip:
  assumes "heap_runs D pl ph hp live" and "heap_bounds pl ph" and "i < 7"
    and "AllocateBlock D i random hp = Some (Inr (addr, hp1))" and "addr \<noteq> 0"
  shows "\<exists>hp2. heap_Free D addr (2 ^ page_shift i) hp1 = Some (Inr hp2) \<and> heap_sets hp2 = heap_sets hp \<and> heap_free hp2 = heap_free hp \<and>
    GetNumFreePages hp2 = GetNumFreePages hp"
proof -
  let ?w = "2 ^ page_shift i :: nat"
  have ok: "heap_ok pl ph (heap_regions pl ph) hp" using heap_runs_split [OF assms(1,2)] by (simp add: heap_split_def)
  obtain k where k: "addr = page_address (k * ?w)" "pages_taken pl ph (heap_regions pl ph) hp {k * ?w..<k * ?w + ?w} hp1"
    using AllocateBlock_allocates [OF ok assms(3), of D random] assms(4,5) unfolding block_range_interval by (auto split: if_splits)
  have range: "{k * ?w..<k * ?w + ?w} \<subseteq> {pl..<ph}" "{k * ?w..<k * ?w + ?w} \<inter> heap_free hp1 = {}" "heap_ok pl ph (heap_regions pl ph) hp1"
    using k(2) heap_free_bound(1) [OF ok] unfolding pages_taken_def by blast+
  then have "k * ?w + ?w \<le> ph" by (simp add: atLeastLessThan_subset_iff)
  then obtain hp2 where hp2: "heap_Free D addr (of_nat ?w) hp1 = Some (Inr hp2)" "pages_freed pl ph (heap_regions pl ph) hp1 {k * ?w..<k * ?w + ?w} hp2"
    using heap_Free_frees [OF range(3,1,2), of D] k(1) by blast
  have ok2: "heap_ok pl ph (heap_regions pl ph) hp2" and same: "heap_free hp2 = heap_free hp" using hp2(2) k(2) unfolding pages_freed_def pages_taken_def by blast+
  have "heap_sets hp2 j = heap_sets hp j" for j
    using sizes.canonical [OF heap_okD(8) [OF ok2] heap_okD(8) [OF ok] same [unfolded heap_free_def]] by (cases "j < 7") (simp_all add: heap_sets_def)
  then show ?thesis using hp2(1) same heap_counts [OF ok] heap_counts [OF ok2] by (intro exI [of _ hp2]) auto
qed

theorem block_round_trip_witness:
  "\<exists>hp addr hp1 hp2. heap_runs True 16 32 hp [] \<and> AllocateBlock True 0 False hp = Some (Inr (addr, hp1)) \<and>
    heap_Free True addr (2 ^ page_shift 0) hp1 = Some (Inr hp2) \<and> heap_sets hp2 = heap_sets hp"
proof -
  obtain hp where hp: "heap_runs True 16 32 hp []" "heap_free hp = {16..<32}" using heap_16 by blast
  have ok: "heap_ok 16 32 (heap_regions 16 32) hp" using heap_runs_split [OF hp(1) heap_16_bounds] by (simp add: heap_split_def)
  have free: "\<exists>k. block_range page_shift 0 k \<subseteq> heap_free hp" by (rule exI [of _ 16]) (simp add: hp(2) block_range_interval)
  obtain addr hp1 where a: "AllocateBlock True 0 False hp = Some (Inr (addr, hp1))" "addr \<noteq> 0"
    using AllocateBlock_allocates [OF ok, of 0 True False] free by auto
  show ?thesis using block_round_trip [OF hp(1) heap_16_bounds _ a] hp(1) a(1) by auto
qed

end
