(* ===== verification/Manager_Laws.thy ===== *)
theory Manager_Laws
  imports Memory_Manager Heap_Behaviour
begin

text \<open>
  The reference counts of the memory manager. A manager is in order when its heap is, and no free page has a reference. Opening and closing are operations that change the
  counts of a range of pages one by one and may give pages back to the heap: the locale \<open>ref_operation\<close> states that for one manager, and
  gives it for ranges that reach over several.
\<close>

section \<open>One manager\<close>

definition page_ref :: "nat \<Rightarrow> Impl \<Rightarrow> nat \<Rightarrow> u16" where
  "page_ref pl im p = m_page_reference_counts im ! (p - pl)"

abbreviation impl_free :: "Impl \<Rightarrow> nat set" where
  "impl_free im \<equiv> heap_free (im_heap im)"

definition impl_ok :: "nat \<Rightarrow> nat \<Rightarrow> Impl \<Rightarrow> bool" where
  "impl_ok pl ph im \<longleftrightarrow> heap_ok pl ph (heap_regions pl ph) (im_heap im) \<and> ph - pl \<le> length (m_page_reference_counts im) \<and>
    ph - pl \<le> 64 * length (optimize_map im) \<and>
    m_pool im < PoolCount \<and> (\<forall>p \<in> impl_free im. page_ref pl im p = 0)"

definition same_links :: "Impl \<Rightarrow> Impl \<Rightarrow> bool" where
  "same_links im im' \<longleftrightarrow> m_pool im' = m_pool im \<and> im_next im' = im_next im \<and> im_prev im' = im_prev im"

definition bump :: "(u16 \<Rightarrow> u16) \<Rightarrow> nat \<Rightarrow> nat \<Rightarrow> u16 list \<Rightarrow> u16 list" where
  "bump f i n refs = map (\<lambda>j. if i \<le> j \<and> j < i + n then f (refs ! j) else refs ! j) [0..<length refs]"

lemma bump_nth: "j < length refs \<Longrightarrow> bump f i n refs ! j = (if i \<le> j \<and> j < i + n then f (refs ! j) else refs ! j)" "length (bump f i n refs) = length refs"
  by (simp_all add: bump_def)

lemma bump_0: "bump f i 0 refs = refs"
  by (rule nth_equalityI) (auto simp: bump_nth)

lemma bump_Suc:
  assumes "i < length refs"
  shows "bump f (Suc i) n (refs[i := f (refs ! i)]) = bump f i (Suc n) refs"
proof (rule nth_equalityI)
  fix j
  assume "j < length (bump f (Suc i) n (refs[i := f (refs ! i)]))"
  then show "bump f (Suc i) n (refs[i := f (refs ! i)]) ! j = bump f i (Suc n) refs ! j"
    using assms by (cases "j = i") (auto simp: bump_nth)
qed (simp add: bump_nth)

lemma bump_ref:
  assumes "ph - pl \<le> length (m_page_reference_counts im)" "p \<in> {pl..<ph}" "pl \<le> a"
  shows "page_ref pl (im\<lparr>im_heap := hp, m_page_reference_counts := bump f (a - pl) n (m_page_reference_counts im)\<rparr>) p =
    (if p \<in> {a..<a + n} then f (page_ref pl im p) else page_ref pl im p)"
proof -
  have "p - pl < length (m_page_reference_counts im)" using assms(1,2) by auto
  moreover have "a - pl \<le> p - pl \<and> p - pl < a - pl + n \<longleftrightarrow> p \<in> {a..<a + n}" using assms(2,3) by auto
  ultimately show ?thesis by (simp add: page_ref_def bump_nth)
qed

lemma page_span_pages:
  assumes ok: "heap_ok pl ph r hp" and "pl \<le> a" "a + n \<le> ph"
  shows "page_span (page_address a) (of_nat n) hp = (n, a - pl)"
proof -
  have lim: "ph \<le> page_limit" by (rule heap_okD(4) [OF ok])
  have "GetPageOffset hp (page_address a) = of_nat (a - pl)"
    using ok assms(2,3) lim page_address_pages [of "a - pl"] by (simp add: GetPageOffset_def heap_ok_def page_address_diff)
  moreover have small: "unat (of_nat x :: u64) = x" if "x \<le> ph" for x using that lim unfolding unat_of_nat by (simp add: page_limit_def)
  have "unat (of_nat (a - pl) + of_nat n :: u64) = a - pl + n" unfolding of_nat_add [symmetric] by (rule small) (use assms(2,3) in simp)
  moreover have "unat (of_nat (a - pl) :: u64) = a - pl" by (rule small) (use assms(3) in simp)
  ultimately show ?thesis unfolding page_span_def Let_def by (simp only: add_diff_cancel_left')
qed

lemma open_loop_opens:
  assumes "i + n \<le> length refs" "D \<Longrightarrow> \<forall>j. i \<le> j \<and> j < i + n \<longrightarrow> ok (refs ! j + 1)"
  shows "open_loop D ok n i refs = Inr (bump (\<lambda>r. r + 1) i n refs)"
  using assms
proof (induction n arbitrary: i refs)
  case (Suc n)
  have i: "i < length refs" using Suc.prems(1) by simp
  have "page_assert D (ok (refs ! i + 1)) = Inr ()" using Suc.prems(2) by (intro page_assert_ok) auto
  moreover have "\<forall>j. Suc i \<le> j \<and> j < Suc i + n \<longrightarrow> ok (refs[i := refs ! i + 1] ! j + 1)" if D using Suc.prems(2) [OF that] by auto
  then have "open_loop D ok n (Suc i) (refs[i := refs ! i + 1]) = Inr (bump (\<lambda>r. r + 1) (Suc i) n (refs[i := refs ! i + 1]))"
    using Suc.IH [of "Suc i" "refs[i := refs ! i + 1]"] Suc.prems(1) by simp
  ultimately show ?case using i bump_Suc [OF i, of "\<lambda>r. r + 1" n] by (simp add: Let_def)
qed (simp add: bump_0)

lemma im_open_opens:
  assumes ok: "impl_ok pl ph im" and range: "pl \<le> a" "a + n \<le> ph"
    and pages: "\<forall>p \<in> {a..<a + n}. p \<notin> impl_free im" "D \<Longrightarrow> \<forall>p \<in> {a..<a + n}. good (page_ref pl im p + 1)"
  shows "\<exists>im'. im_open D good (page_address a) (of_nat n) im = Inr im' \<and> impl_ok pl ph im' \<and> same_links im im' \<and> impl_free im' = impl_free im \<and>
    (\<forall>p \<in> {pl..<ph}. page_ref pl im' p = (if p \<in> {a..<a + n} then page_ref pl im p + 1 else page_ref pl im p))"
proof -
  let ?refs = "m_page_reference_counts im"
  note okD = ok [unfolded impl_ok_def]
  have len: "ph - pl \<le> length ?refs" using okD by blast
  have "good (?refs ! j + 1)" if "a - pl \<le> j" "j < a - pl + n" D for j
    using pages(2) [OF that(3)] that(1,2) range by (force simp: page_ref_def dest!: bspec [of _ _ "pl + j"])
  then have "open_loop D good n (a - pl) ?refs = Inr (bump (\<lambda>r. r + 1) (a - pl) n ?refs)"
    using open_loop_opens [of "a - pl" n ?refs D good] len range by auto
  then have run: "im_open D good (page_address a) (of_nat n) im = Inr (im\<lparr>im_heap := im_heap im, m_page_reference_counts := bump (\<lambda>r. r + 1) (a - pl) n ?refs\<rparr>)"
    using page_span_pages [OF _ range, of "heap_regions pl ph" "im_heap im"] okD by (simp add: im_open_def)
  let ?im = "im\<lparr>im_heap := im_heap im, m_page_reference_counts := bump (\<lambda>r. r + 1) (a - pl) n ?refs\<rparr>"
  have refs: "\<forall>p \<in> {pl..<ph}. page_ref pl ?im p = (if p \<in> {a..<a + n} then page_ref pl im p + 1 else page_ref pl im p)"
    using bump_ref [OF len _ range(1)] by blast
  have "page_ref pl ?im p = 0" if "p \<in> impl_free im" for p
  proof -
    have "p \<in> {pl..<ph}" using heap_free_bound(1) [OF conjunct1 [OF okD]] that by blast
    then have "page_ref pl ?im p = page_ref pl im p" using refs pages(1) that by (simp only: if_not_P split: if_split) blast
    then show ?thesis using okD that by simp
  qed
  then have "impl_ok pl ph ?im" using okD by (simp add: impl_ok_def bump_nth)
  then show ?thesis using run refs by (intro exI [of _ ?im]) (simp add: same_links_def)
qed

text \<open>Closing: the run of pages that have lost their last reference is freed when it ends.\<close>

lemma free_run_frees:
  assumes "heap_ok pl ph r (im_heap im)" "{pl + fs..<pl + fs + fc} \<subseteq> {pl..<ph}" "{pl + fs..<pl + fs + fc} \<inter> impl_free im = {}" "fc = 0 \<or> pl + fs + fc \<le> ph"
  shows "\<exists>hp. free_run D fs fc im = Some (Inr (im\<lparr>im_heap := hp\<rparr>)) \<and> pages_freed pl ph r (im_heap im) {pl + fs..<pl + fs + fc} hp"
proof -
  have addr: "hp_heap_address (im_heap im) + of_nat fs * PageSize = page_address (pl + fs)"
    using assms(1) by (simp add: heap_ok_def PageSize_address(2) page_address_add)
  show ?thesis
  proof (cases "fc = 0")
    case True
    then show ?thesis using freed_refl [OF assms(1)] by (intro exI [of _ "im_heap im"]) (simp add: free_run_def)
  next
    case False
    then obtain hp where "heap_Free D (page_address (pl + fs)) (of_nat fc) (im_heap im) = Some (Inr hp)"
      "pages_freed pl ph r (im_heap im) {pl + fs..<pl + fs + fc} hp"
      using heap_Free_frees [OF assms(1-3), of D] assms(4) by blast
    then show ?thesis using False addr by (intro exI [of _ hp]) (simp add: free_run_def im_Free_def)
  qed
qed

lemma close_loop_closes:
  assumes "heap_ok pl ph r (im_heap im)" "i + n \<le> ph - pl" "i + n \<le> length (m_page_reference_counts im)"
    and "\<forall>j. i \<le> j \<and> j < i + n \<longrightarrow> m_page_reference_counts im ! j \<noteq> 0 \<and> pl + j \<notin> impl_free im"
    and "fc = 0 \<or> fs + fc = i" "{pl + fs..<pl + fs + fc} \<inter> impl_free im = {}"
  shows "\<exists>hp. close_loop D n i fs fc im = Some (Inr (im\<lparr>im_heap := hp, m_page_reference_counts := bump (\<lambda>r. r - 1) i n (m_page_reference_counts im)\<rparr>)) \<and>
    pages_freed pl ph r (im_heap im) ({pl + fs..<pl + fs + fc} \<union> {pl + j | j. i \<le> j \<and> j < i + n \<and> m_page_reference_counts im ! j = 1}) hp"
  using assms
proof (induction n arbitrary: i fs fc im)
  case 0
  have "{pl + fs..<pl + fs + fc} \<subseteq> {pl..<ph}" "fc = 0 \<or> pl + fs + fc \<le> ph" using "0.prems"(2,5) heap_okD(3) [OF "0.prems"(1)] by auto
  then obtain hp where "free_run D fs fc im = Some (Inr (im\<lparr>im_heap := hp\<rparr>))" "pages_freed pl ph r (im_heap im) {pl + fs..<pl + fs + fc} hp"
    using free_run_frees [OF "0.prems"(1) _ "0.prems"(6), of D] by blast
  moreover have "{pl + j | j. i \<le> j \<and> j < i + 0 \<and> m_page_reference_counts im ! j = 1} = {}" by auto
  ultimately show ?case by (intro exI [of _ hp]) (simp only: bump_0 Un_empty_right close_loop.simps, simp)
next
  case (Suc n)
  let ?refs = "m_page_reference_counts im"
  let ?refs' = "?refs[i := ?refs ! i - 1]"
  let ?im = "im\<lparr>m_page_reference_counts := ?refs'\<rparr>"
  have i: "i < length ?refs" "?refs ! i \<noteq> 0" "pl + i \<notin> impl_free im" using Suc.prems(3,4) by auto
  have asr: "page_assert D (?refs ! i > 0) = Inr ()" using i(2) by (intro page_assert_ok) (simp add: word_gt_0)
  have bump: "bump (\<lambda>r. r - 1) (Suc i) n ?refs' = bump (\<lambda>r. r - 1) i (Suc n) ?refs" by (rule bump_Suc [OF i(1)])
  have rest: "\<forall>j. Suc i \<le> j \<and> j < Suc i + n \<longrightarrow> ?refs' ! j \<noteq> 0 \<and> pl + j \<notin> impl_free im" using Suc.prems(4) by auto
  have len: "Suc i + n \<le> ph - pl" "Suc i + n \<le> length ?refs'" using Suc.prems(2,3) by simp_all
  let ?old = "{pl + j | j. Suc i \<le> j \<and> j < Suc i + n \<and> ?refs ! j = 1}"
  have old: "{pl + j | j. Suc i \<le> j \<and> j < Suc i + n \<and> ?refs' ! j = 1} = ?old" by auto
  have run: "close_loop D (Suc n) i fs fc im = (if ?refs ! i = 1 then
        close_loop D n (Suc i) (if fc > 0 then fs else i) (if fc > 0 then fc + 1 else 1) ?im
      else bindO (free_run D fs fc ?im) (\<lambda>im. close_loop D n (Suc i) fs 0 im))"
    using i(1) asr by (simp add: Let_def)
  show ?case
  proof (cases "?refs ! i = 1")
    case True
    let ?fs = "if fc > 0 then fs else i" and ?fc = "if fc > 0 then fc + 1 else 1"
    have new: "{pl + ?fs..<pl + ?fs + ?fc} = insert (pl + i) {pl + fs..<pl + fs + fc}" "?fs + ?fc = Suc i" using Suc.prems(5) by auto
    have all: "{pl + j | j. i \<le> j \<and> j < i + Suc n \<and> ?refs ! j = 1} = insert (pl + i) ?old" using True by (auto simp: less_Suc_eq_le Suc_le_eq order_le_less)
    obtain hp where hp: "close_loop D n (Suc i) ?fs ?fc ?im = Some (Inr (?im\<lparr>im_heap := hp, m_page_reference_counts := bump (\<lambda>r. r - 1) (Suc i) n ?refs'\<rparr>))"
      "pages_freed pl ph r (im_heap im) ({pl + ?fs..<pl + ?fs + ?fc} \<union> ?old) hp"
      using Suc.IH [where im = ?im and i = "Suc i" and fs = ?fs and fc = ?fc] Suc.prems(1,6) len rest new i(3) old by auto
    have "{pl + ?fs..<pl + ?fs + ?fc} \<union> ?old = {pl + fs..<pl + fs + fc} \<union> insert (pl + i) ?old" using new(1) by blast
    then show ?thesis unfolding run if_P [OF True] all using hp bump by (intro exI [of _ hp]) simp
  next
    case False
    have all: "{pl + j | j. i \<le> j \<and> j < i + Suc n \<and> ?refs ! j = 1} = ?old" using False by (auto simp: less_Suc_eq_le Suc_le_eq order_le_less)
    have "{pl + fs..<pl + fs + fc} \<subseteq> {pl..<ph}" "fc = 0 \<or> pl + fs + fc \<le> ph" using Suc.prems(2,5) by auto
    then obtain hp1 where f: "free_run D fs fc ?im = Some (Inr (?im\<lparr>im_heap := hp1\<rparr>))" "pages_freed pl ph r (im_heap im) {pl + fs..<pl + fs + fc} hp1"
      using free_run_frees [where im = ?im and r = r and pl = pl and ph = ph and fs = fs and fc = fc and D = D] Suc.prems(1,6) by auto
    let ?im1 = "?im\<lparr>im_heap := hp1\<rparr>"
    have ok1: "heap_ok pl ph r hp1" using f(2) by (simp add: pages_freed_def)
    have "\<forall>j. Suc i \<le> j \<and> j < Suc i + n \<longrightarrow> ?refs' ! j \<noteq> 0 \<and> pl + j \<notin> heap_free hp1"
      using rest f(2) Suc.prems(5) unfolding pages_freed_def by auto
    then obtain hp where hp: "close_loop D n (Suc i) fs 0 ?im1 = Some (Inr (?im1\<lparr>im_heap := hp, m_page_reference_counts := bump (\<lambda>r. r - 1) (Suc i) n ?refs'\<rparr>))"
      "pages_freed pl ph r hp1 ?old hp"
      using Suc.IH [where im = ?im1 and i = "Suc i" and fs = fs and fc = 0] ok1 len old by auto
    show ?thesis unfolding run if_not_P [OF False] all using hp f(1) bump freed_trans [OF f(2) hp(2)] by (intro exI [of _ hp]) simp
  qed
qed

lemma im_Close_closes:
  assumes ok: "impl_ok pl ph im" and range: "pl \<le> a" "a + n \<le> ph" and refs: "\<forall>p \<in> {a..<a + n}. page_ref pl im p \<noteq> 0"
  shows "\<exists>im'. im_Close D (page_address a) (of_nat n) im = Some (Inr im') \<and> impl_ok pl ph im' \<and> same_links im im' \<and>
    impl_free im' = impl_free im \<union> {p \<in> {a..<a + n}. page_ref pl im p = 1} \<and>
    (\<forall>p \<in> {pl..<ph}. page_ref pl im' p = (if p \<in> {a..<a + n} then page_ref pl im p - 1 else page_ref pl im p))"
proof -
  let ?refs = "m_page_reference_counts im"
  note okD = ok [unfolded impl_ok_def]
  have len: "ph - pl \<le> length ?refs" using okD by blast
  have pages: "?refs ! j \<noteq> 0 \<and> pl + j \<notin> impl_free im" if "a - pl \<le> j" "j < a - pl + n" for j
  proof -
    have "pl + j \<in> {a..<a + n}" using that range(1) by auto
    then have "page_ref pl im (pl + j) \<noteq> 0" using refs by blast
    then show ?thesis using okD by (auto simp: page_ref_def)
  qed
  obtain hp where hp: "close_loop D n (a - pl) 0 0 im = Some (Inr (im\<lparr>im_heap := hp, m_page_reference_counts := bump (\<lambda>r. r - 1) (a - pl) n ?refs\<rparr>))"
    "pages_freed pl ph (heap_regions pl ph) (im_heap im) {pl + j | j. a - pl \<le> j \<and> j < a - pl + n \<and> ?refs ! j = 1} hp"
    using close_loop_closes [where im = im and i = "a - pl" and n = n and fs = 0 and fc = 0 and D = D and r = "heap_regions pl ph" and pl = pl and ph = ph] okD range len pages
    by fastforce
  let ?im = "im\<lparr>im_heap := hp, m_page_reference_counts := bump (\<lambda>r. r - 1) (a - pl) n ?refs\<rparr>"
  have gone: "{pl + j | j. a - pl \<le> j \<and> j < a - pl + n \<and> ?refs ! j = 1} = {p \<in> {a..<a + n}. page_ref pl im p = 1}"
  proof (intro set_eqI iffI)
    fix p
    assume "p \<in> {p \<in> {a..<a + n}. page_ref pl im p = 1}"
    then show "p \<in> {pl + j | j. a - pl \<le> j \<and> j < a - pl + n \<and> ?refs ! j = 1}"
      using range(1) by (intro CollectI exI [of _ "p - pl"]) (auto simp: page_ref_def)
  qed (use range(1) in \<open>auto simp: page_ref_def\<close>)
  have new: "\<forall>p \<in> {pl..<ph}. page_ref pl ?im p = (if p \<in> {a..<a + n} then page_ref pl im p - 1 else page_ref pl im p)"
    using bump_ref [OF len _ range(1)] by blast
  have free: "impl_free ?im = impl_free im \<union> {p \<in> {a..<a + n}. page_ref pl im p = 1}" and okh: "heap_ok pl ph (heap_regions pl ph) hp"
    using hp(2) unfolding gone pages_freed_def by simp_all
  have "page_ref pl ?im p = 0" if "p \<in> impl_free ?im" for p
  proof -
    have "p \<in> {pl..<ph}" using heap_free_bound(1) [OF okh] that by auto
    moreover have "p \<in> impl_free im \<Longrightarrow> p \<notin> {a..<a + n} \<and> page_ref pl im p = 0" using okD refs by blast
    ultimately show ?thesis using new that unfolding free by auto
  qed
  then have "impl_ok pl ph ?im" using okD okh by (simp add: impl_ok_def bump_nth)
  moreover have "im_Close D (page_address a) (of_nat n) im = Some (Inr ?im)"
    using page_span_pages [OF _ range, of "heap_regions pl ph" "im_heap im"] okD hp(1) by (simp add: im_Close_def)
  moreover have "same_links im ?im" by (simp add: same_links_def)
  ultimately show ?thesis using free new by blast
qed

section \<open>All managers\<close>

text \<open>The bounds of the regions, in the order of the managers, are a parameter. A page of a region is in its manager by the layout.\<close>

definition region_of :: "(nat \<times> nat) list \<Rightarrow> nat \<Rightarrow> nat set" where
  "region_of rgs i = {fst (rgs ! i)..<snd (rgs ! i)}"

definition layout_ok :: "(nat \<times> nat) list \<Rightarrow> KMemoryRegion list \<Rightarrow> bool" where
  "layout_ok rgs tree \<longleftrightarrow> (\<forall>i < length rgs. \<forall>p \<in> region_of rgs i. \<exists>r. tree_Find (page_address p) tree = Some r \<and> unat (rg_attributes r) = i)"

definition mm_ok :: "(nat \<times> nat) list \<Rightarrow> KMemoryManager \<Rightarrow> bool" where
  "mm_ok rgs mm \<longleftrightarrow> m_num_managers mm = length rgs \<and> length (m_has_optimized_process mm) = PoolCount \<and> length rgs \<le> length (m_managers mm) \<and> layout_ok rgs (mm_linear_tree mm) \<and>
    (\<forall>i < length rgs. impl_ok (fst (rgs ! i)) (snd (rgs ! i)) (m_managers mm ! i))"

definition mm_pages :: "(nat \<times> nat) list \<Rightarrow> nat set" where
  "mm_pages rgs = (\<Union>i < length rgs. region_of rgs i)"

definition mm_free :: "(nat \<times> nat) list \<Rightarrow> KMemoryManager \<Rightarrow> nat set" where
  "mm_free rgs mm = (\<Union>i < length rgs. impl_free (m_managers mm ! i))"

definition owner :: "KMemoryManager \<Rightarrow> nat \<Rightarrow> nat" where
  "owner mm p = unat (rg_attributes (the (tree_Find (page_address p) (mm_linear_tree mm))))"

definition mm_ref :: "(nat \<times> nat) list \<Rightarrow> KMemoryManager \<Rightarrow> nat \<Rightarrow> u16" where
  "mm_ref rgs mm p = page_ref (fst (rgs ! owner mm p)) (m_managers mm ! owner mm p) p"

text \<open>What no operation on pages changes.\<close>

definition mm_frame :: "KMemoryManager \<Rightarrow> KMemoryManager \<Rightarrow> bool" where
  "mm_frame mm mm' \<longleftrightarrow> mm_physical_tree mm' = mm_physical_tree mm \<and> mm_linear_tree mm' = mm_linear_tree mm \<and>
    m_pool_managers_head mm' = m_pool_managers_head mm \<and> m_pool_managers_tail mm' = m_pool_managers_tail mm \<and>
    m_num_managers mm' = m_num_managers mm \<and> m_optimized_process_ids mm' = m_optimized_process_ids mm \<and>
    m_has_optimized_process mm' = m_has_optimized_process mm \<and> mm_fills mm' = mm_fills mm \<and> length (m_managers mm') = length (m_managers mm) \<and>
    (\<forall>i < length (m_managers mm). same_links (m_managers mm ! i) (m_managers mm' ! i))"

lemma frame_refl: "mm_frame mm mm"
  by (simp add: mm_frame_def same_links_def)

lemma frame_trans: "mm_frame a b \<Longrightarrow> mm_frame b c \<Longrightarrow> mm_frame a c"
  by (simp add: mm_frame_def same_links_def)

lemma frame_owner: "mm_frame mm mm' \<Longrightarrow> owner mm' p = owner mm p"
  by (simp add: mm_frame_def owner_def)

lemma frame_set:
  assumes "same_links (m_managers mm ! i) im"
  shows "mm_frame mm (mm_set i im mm)"
proof -
  have "same_links (m_managers mm ! j) ((m_managers mm)[i := im] ! j)" if "j < length (m_managers mm)" for j
    using assms that by (cases "i = j") (simp_all add: same_links_def)
  then show ?thesis by (simp add: mm_frame_def mm_set_def)
qed

lemma owner_region:
  assumes "mm_ok rgs mm" "i < length rgs" "p \<in> region_of rgs i"
  shows "owner mm p = i" "GetManager D (page_address p) mm = Inr i"
  using assms by (fastforce simp: mm_ok_def layout_ok_def owner_def GetManager_def)+

lemma mm_okD:
  assumes "mm_ok rgs mm" "i < length rgs"
  shows "impl_ok (fst (rgs ! i)) (snd (rgs ! i)) (m_managers mm ! i)" "mm_impl mm i = Inr (m_managers mm ! i)" "i < length (m_managers mm)"
    "impl_free (m_managers mm ! i) \<subseteq> region_of rgs i"
proof -
  show ok: "impl_ok (fst (rgs ! i)) (snd (rgs ! i)) (m_managers mm ! i)" and "i < length (m_managers mm)" using assms by (auto simp: mm_ok_def)
  then show "mm_impl mm i = Inr (m_managers mm ! i)" by (simp add: mm_impl_def)
  show "impl_free (m_managers mm ! i) \<subseteq> region_of rgs i" unfolding region_of_def
    by (rule heap_free_bound(1) [OF conjunct1 [OF ok [unfolded impl_ok_def]]])
qed

lemma mm_free_region:
  assumes "mm_ok rgs mm" "i < length rgs" "p \<in> region_of rgs i"
  shows "p \<in> mm_free rgs mm \<longleftrightarrow> p \<in> impl_free (m_managers mm ! i)" "mm_ref rgs mm p = page_ref (fst (rgs ! i)) (m_managers mm ! i) p"
proof -
  have "j = i" if "j < length rgs" "p \<in> impl_free (m_managers mm ! j)" for j
    using owner_region(1) [OF assms] owner_region(1) [OF assms(1) that(1)] mm_okD(4) [OF assms(1) that(1)] that(2) by blast
  then show "p \<in> mm_free rgs mm \<longleftrightarrow> p \<in> impl_free (m_managers mm ! i)" using assms(2) by (auto simp: mm_free_def)
  show "mm_ref rgs mm p = page_ref (fst (rgs ! i)) (m_managers mm ! i) p" using owner_region(1) [OF assms] by (simp add: mm_ref_def)
qed

lemma mm_set_ok:
  assumes "mm_ok rgs mm" "i < length rgs" "impl_ok (fst (rgs ! i)) (snd (rgs ! i)) im"
  shows "mm_ok rgs (mm_set i im mm)"
proof -
  have "impl_ok (fst (rgs ! j)) (snd (rgs ! j)) ((m_managers mm)[i := im] ! j)" if "j < length rgs" for j
    using assms that mm_okD(1,3) [OF assms(1) that] by (cases "j = i") simp_all
  then show ?thesis using assms(1) by (simp add: mm_ok_def mm_set_def)
qed

lemma mm_set_free:
  assumes "mm_ok rgs mm" "i < length rgs"
  shows "mm_free rgs (mm_set i im mm) = (mm_free rgs mm - impl_free (m_managers mm ! i)) \<union> impl_free im"
proof -
  have other: "impl_free (m_managers mm ! j) \<inter> impl_free (m_managers mm ! i) = {}" if "j < length rgs" "j \<noteq> i" for j
  proof -
    have "region_of rgs j \<inter> region_of rgs i = {}" using owner_region(1) [OF assms(1) that(1)] owner_region(1) [OF assms] that(2) by blast
    then show ?thesis using mm_okD(4) [OF assms(1) that(1)] mm_okD(4) [OF assms] by blast
  qed
  have get: "m_managers (mm_set i im mm) ! j = (if j = i then im else m_managers mm ! j)" if "j < length rgs" for j
    using that mm_okD(3) [OF assms(1) that] by (simp add: mm_set_def)
  show ?thesis
  proof (intro set_eqI)
    fix p
    have "p \<in> mm_free rgs (mm_set i im mm) \<longleftrightarrow> (\<exists>j < length rgs. j \<noteq> i \<and> p \<in> impl_free (m_managers mm ! j)) \<or> p \<in> impl_free im"
      using get assms(2) by (auto simp: mm_free_def split: if_splits)
    also have "\<dots> \<longleftrightarrow> p \<in> (mm_free rgs mm - impl_free (m_managers mm ! i)) \<union> impl_free im" using other unfolding mm_free_def by blast
    finally show "p \<in> mm_free rgs (mm_set i im mm) \<longleftrightarrow> p \<in> (mm_free rgs mm - impl_free (m_managers mm ! i)) \<union> impl_free im" .
  qed
qed

lemma mm_set_ref:
  assumes "mm_ok rgs mm" "i < length rgs" "j < length rgs" "p \<in> region_of rgs j"
  shows "mm_ref rgs (mm_set i im mm) p = (if j = i then page_ref (fst (rgs ! i)) im p else mm_ref rgs mm p)"
  using owner_region(1) [OF assms(1,3,4)] mm_okD(3) [OF assms(1,2)] by (simp add: mm_ref_def mm_set_def owner_def)

section \<open>Operations on ranges\<close>

definition pages_changed :: "(nat \<times> nat) list \<Rightarrow> (u16 \<Rightarrow> u16) \<Rightarrow> (u16 \<Rightarrow> bool) \<Rightarrow> nat set \<Rightarrow> KMemoryManager \<Rightarrow> KMemoryManager \<Rightarrow> bool" where
  "pages_changed rgs upd frees S mm mm' \<longleftrightarrow> mm_ok rgs mm' \<and> mm_frame mm mm' \<and>
    (\<forall>p \<in> mm_pages rgs. mm_ref rgs mm' p = (if p \<in> S then upd (mm_ref rgs mm p) else mm_ref rgs mm p)) \<and>
    mm_free rgs mm' = mm_free rgs mm \<union> {p \<in> S. frees (mm_ref rgs mm p)}"

lemma changed_refl: "mm_ok rgs mm \<Longrightarrow> pages_changed rgs upd frees {} mm mm"
  by (simp add: pages_changed_def frame_refl)

lemma changed_trans:
  assumes "pages_changed rgs upd frees S a b" "pages_changed rgs upd frees T b c" "S \<inter> T = {}" "S \<subseteq> mm_pages rgs" "T \<subseteq> mm_pages rgs"
  shows "pages_changed rgs upd frees (S \<union> T) a c"
proof -
  have T: "mm_ref rgs b p = mm_ref rgs a p" if "p \<in> T" for p
  proof -
    have "p \<in> mm_pages rgs" "p \<notin> S" using assms(3,5) that by blast+
    then show ?thesis using assms(1) unfolding pages_changed_def by auto
  qed
  have "{p \<in> T. frees (mm_ref rgs b p)} = {p \<in> T. frees (mm_ref rgs a p)}" using T by auto
  moreover have "mm_ref rgs c p = (if p \<in> S \<union> T then upd (mm_ref rgs a p) else mm_ref rgs a p)" if "p \<in> mm_pages rgs" for p
    using assms(1-3) that T unfolding pages_changed_def by auto
  ultimately show ?thesis using assms(1,2) frame_trans unfolding pages_changed_def by blast
qed

text \<open>Pages outside the changed ones.\<close>

lemma changed_other:
  assumes "pages_changed rgs upd frees S mm mm'" "p \<in> mm_pages rgs" "p \<notin> S"
  shows "mm_ref rgs mm' p = mm_ref rgs mm p" "p \<in> mm_free rgs mm' \<longleftrightarrow> p \<in> mm_free rgs mm"
  using assms unfolding pages_changed_def by auto

lemma min_of_nat: "a < 2 ^ 64 \<Longrightarrow> b < 2 ^ 64 \<Longrightarrow> min (of_nat a) (of_nat b) = (of_nat (min a b) :: u64)"
  by (simp add: min_def word_le_nat_alt unat_of_nat)

lemma to_end_pages:
  assumes "heap_ok pl ph r hp" "pl \<le> a" "a < ph"
  shows "GetPageOffsetToEnd hp (page_address a) = of_nat (ph - a)"
proof -
  have "ph \<le> page_limit" by (rule heap_okD(4) [OF assms(1)])
  then show ?thesis using assms page_address_pages [of "ph - a"]
    by (simp add: GetPageOffsetToEnd_def hp_GetEndAddress_def heap_ok_def page_address_add page_address_diff)
qed

lemma mm_pages_limit: "mm_ok rgs mm \<Longrightarrow> i < length rgs \<Longrightarrow> snd (rgs ! i) \<le> page_limit"
  using mm_okD(1) heap_okD(4) unfolding impl_ok_def by blast

lemma locked_on_impl:
  assumes "mm_ok rgs mm" "i < length rgs"
  shows "locked f x y i mm = on_impl (f x y) i mm"
proof -
  have "m_pool (m_managers mm ! i) < PoolCount" using mm_okD(1) [OF assms] by (simp add: impl_ok_def)
  then show ?thesis using mm_okD(2) [OF assms] by (simp add: locked_def on_impl_def pool_lock_def)
qed

lemma each_manager_step:
  assumes "n \<noteq> 0" "GetManager D x mm = Inr i" "mm_impl mm i = Inr im" "h x (min n (GetPageOffsetToEnd (im_heap im) x)) i mm = Some (Inr mm')"
  shows "each_manager D h x n mm = each_manager D h (x + min n (GetPageOffsetToEnd (im_heap im) x) * PageSize) (n - min n (GetPageOffsetToEnd (im_heap im) x)) mm'"
  unfolding each_manager_def by (subst loop_opt.simps) (simp add: assms Let_def)

lemma open_again: "r \<noteq> 0 \<Longrightarrow> r \<noteq> - 1 \<Longrightarrow> 1 < r + (1 :: u16)"
proof -
  assume r: "r \<noteq> 0" "r \<noteq> - 1"
  have "unat (- 1 :: u16) = 65535" by (simp add: unsigned_minus_1_eq_mask mask_eq_exp_minus_1)
  then have "unat r \<noteq> 0" "unat r \<noteq> 65535" "unat r < 65536" using r unsigned_less [of r, where 'a = nat] by (simp_all add: word_unat_eq_iff)
  then show ?thesis by (simp add: word_less_nat_alt unat_word_ariths)
qed

definition group_blocks :: "KBlockInfo list \<Rightarrow> (nat \<times> nat) list \<Rightarrow> bool" where
  "group_blocks bs rs \<longleftrightarrow> list_all2 (\<lambda>b (a, n). info_GetAddress b = page_address a \<and> node_GetNumPages b = of_nat n) bs rs"

locale ref_operation =
  fixes f :: "u64 \<Rightarrow> u64 \<Rightarrow> Impl \<Rightarrow> (page_fault + Impl) option"
    and pre :: "u16 \<Rightarrow> bool"
    and upd :: "u16 \<Rightarrow> u16"
    and frees :: "u16 \<Rightarrow> bool"
  assumes acts: "impl_ok pl ph im \<Longrightarrow> pl \<le> a \<Longrightarrow> a + n \<le> ph \<Longrightarrow> \<forall>p \<in> {a..<a + n}. p \<notin> impl_free im \<and> pre (page_ref pl im p) \<Longrightarrow>
    \<exists>im'. f (page_address a) (of_nat n) im = Some (Inr im') \<and> impl_ok pl ph im' \<and> same_links im im' \<and>
      impl_free im' = impl_free im \<union> {p \<in> {a..<a + n}. frees (page_ref pl im p)} \<and>
      (\<forall>p \<in> {pl..<ph}. page_ref pl im' p = (if p \<in> {a..<a + n} then upd (page_ref pl im p) else page_ref pl im p))"
begin

definition ready :: "(nat \<times> nat) list \<Rightarrow> KMemoryManager \<Rightarrow> nat set \<Rightarrow> bool" where
  "ready rgs mm S \<longleftrightarrow> S \<subseteq> mm_pages rgs \<and> (\<forall>p \<in> S. p \<notin> mm_free rgs mm \<and> pre (mm_ref rgs mm p))"

lemma ready_rest: "ready rgs mm (S \<union> T) \<Longrightarrow> pages_changed rgs upd frees S mm mm' \<Longrightarrow> S \<inter> T = {} \<Longrightarrow> ready rgs mm' T"
  using changed_other [of rgs upd frees S mm mm'] unfolding ready_def by (metis IntI Un_iff empty_iff le_sup_iff subset_iff)

lemma ready_limit:
  assumes "mm_ok rgs mm" "ready rgs mm {a..<a + n}"
  shows "n \<le> page_limit"
proof (cases "n = 0")
  case False
  then have "a + n - 1 \<in> mm_pages rgs" using assms(2) by (auto simp: ready_def)
  then show ?thesis using mm_pages_limit [OF assms(1)] by (fastforce simp: mm_pages_def region_of_def)
qed simp

lemma on_impl_acts:
  assumes ok: "mm_ok rgs mm" and i: "i < length rgs" and range: "fst (rgs ! i) \<le> a" "a + n \<le> snd (rgs ! i)" and pages: "ready rgs mm {a..<a + n}"
  shows "\<exists>mm'. on_impl (f (page_address a) (of_nat n)) i mm = Some (Inr mm') \<and> pages_changed rgs upd frees {a..<a + n} mm mm'"
proof -
  let ?im = "m_managers mm ! i" and ?pl = "fst (rgs ! i)" and ?ph = "snd (rgs ! i)"
  have sub: "{a..<a + n} \<subseteq> region_of rgs i" using range by (auto simp: region_of_def)
  have "\<forall>p \<in> {a..<a + n}. p \<notin> impl_free ?im \<and> pre (page_ref ?pl ?im p)"
    using pages sub mm_free_region [OF ok i] unfolding ready_def by (metis subset_iff)
  then obtain im where im: "f (page_address a) (of_nat n) ?im = Some (Inr im)" "impl_ok ?pl ?ph im" "same_links ?im im"
    "impl_free im = impl_free ?im \<union> {p \<in> {a..<a + n}. frees (page_ref ?pl ?im p)}"
    "\<forall>p \<in> {?pl..<?ph}. page_ref ?pl im p = (if p \<in> {a..<a + n} then upd (page_ref ?pl ?im p) else page_ref ?pl ?im p)"
    using acts [OF mm_okD(1) [OF ok i] range] by blast
  have "mm_ref rgs (mm_set i im mm) p = (if p \<in> {a..<a + n} then upd (mm_ref rgs mm p) else mm_ref rgs mm p)" if "p \<in> mm_pages rgs" for p
  proof -
    obtain j where j: "j < length rgs" "p \<in> region_of rgs j" using \<open>p \<in> mm_pages rgs\<close> by (auto simp: mm_pages_def)
    show ?thesis
    proof (cases "j = i")
      case True
      then show ?thesis using mm_set_ref [OF ok i j] mm_free_region(2) [OF ok j] im(5) j by (simp add: region_of_def)
    next
      case False
      then have "p \<notin> {a..<a + n}" using sub owner_region(1) [OF ok i] owner_region(1) [OF ok j] by blast
      then show ?thesis using False mm_set_ref [OF ok i j] by auto
    qed
  qed
  moreover have "mm_free rgs (mm_set i im mm) = mm_free rgs mm \<union> {p \<in> {a..<a + n}. frees (mm_ref rgs mm p)}"
  proof -
    have "{p \<in> {a..<a + n}. frees (page_ref ?pl ?im p)} = {p \<in> {a..<a + n}. frees (mm_ref rgs mm p)}"
      using sub mm_free_region(2) [OF ok i] by auto
    moreover have "impl_free ?im \<subseteq> mm_free rgs mm" using i by (auto simp: mm_free_def)
    ultimately show ?thesis unfolding mm_set_free [OF ok i] im(4) by blast
  qed
  ultimately have "pages_changed rgs upd frees {a..<a + n} mm (mm_set i im mm)"
    unfolding pages_changed_def using mm_set_ok [OF ok i im(2)] frame_set [OF im(3)] by blast
  moreover have "on_impl (f (page_address a) (of_nat n)) i mm = Some (Inr (mm_set i im mm))"
    using mm_okD(2) [OF ok i] im(1) by (simp add: on_impl_def)
  ultimately show ?thesis by blast
qed

lemma each_manager_acts:
  assumes "mm_ok rgs mm" "ready rgs mm {a..<a + n}" and h: "\<And>x y i mm. mm_ok rgs mm \<Longrightarrow> i < length rgs \<Longrightarrow> h x y i mm = on_impl (f x y) i mm"
  shows "\<exists>mm'. each_manager D h (page_address a) (of_nat n) mm = Some (Inr mm') \<and> pages_changed rgs upd frees {a..<a + n} mm mm'"
  using assms(1,2)
proof (induction n arbitrary: a mm rule: less_induct)
  case (less n)
  show ?case
  proof (cases "n = 0")
    case True
    then show ?thesis using changed_refl [OF less.prems(1)] by (simp add: each_manager_def loop_opt.simps [of "\<lambda>(address, num_pages, mm). num_pages \<noteq> 0"])
  next
    case False
    have "a \<in> mm_pages rgs" using less.prems(2) False by (auto simp: ready_def)
    then obtain i where i: "i < length rgs" "a \<in> region_of rgs i" by (auto simp: mm_pages_def)
    let ?pl = "fst (rgs ! i)" and ?ph = "snd (rgs ! i)" and ?im = "m_managers mm ! i"
    define c where "c = min n (?ph - a)"
    have ah: "?pl \<le> a" "a < ?ph" using i(2) by (simp_all add: region_of_def)
    have c: "0 < c" "c \<le> n" "a + c \<le> ?ph" using False ah by (auto simp: c_def)
    have lim: "?ph \<le> page_limit" "n \<le> page_limit"
      using mm_pages_limit [OF less.prems(1) i(1)] ready_limit [OF less.prems] False by auto
    have hok: "heap_ok ?pl ?ph (heap_regions ?pl ?ph) (im_heap ?im)" using mm_okD(1) [OF less.prems(1) i(1)] by (simp add: impl_ok_def)
    have cur: "min (of_nat n) (GetPageOffsetToEnd (im_heap ?im) (page_address a)) = of_nat c"
      unfolding to_end_pages [OF hok ah] c_def by (rule min_of_nat) (use lim in \<open>simp_all add: page_limit_def\<close>)
    have split: "{a..<a + n} = {a..<a + c} \<union> {a + c..<a + c + (n - c)}" "{a..<a + c} \<inter> {a + c..<a + c + (n - c)} = {}"
      using c(2) by auto
    have rdy: "ready rgs mm {a..<a + c}" using less.prems(2) unfolding ready_def split(1) by blast
    obtain mm1 where mm1: "on_impl (f (page_address a) (of_nat c)) i mm = Some (Inr mm1)" "pages_changed rgs upd frees {a..<a + c} mm mm1"
      using on_impl_acts [OF less.prems(1) i(1) ah(1) c(3) rdy] by blast
    have ok1: "mm_ok rgs mm1" using mm1(2) by (simp add: pages_changed_def)
    have rdy1: "ready rgs mm1 {a + c..<a + c + (n - c)}" by (rule ready_rest [OF _ mm1(2) split(2)]) (use less.prems(2) split(1) in simp)
    obtain mm2 where mm2: "each_manager D h (page_address (a + c)) (of_nat (n - c)) mm1 = Some (Inr mm2)"
      "pages_changed rgs upd frees {a + c..<a + c + (n - c)} mm1 mm2"
      using less.IH [OF _ ok1 rdy1] c False by auto
    have "of_nat n \<noteq> (0 :: u64)" using False lim(2) by (simp add: word_unat_eq_iff unat_of_nat page_limit_def)
    then have "each_manager D h (page_address a) (of_nat n) mm = each_manager D h (page_address (a + c)) (of_nat (n - c)) mm1"
      using each_manager_step [OF _ owner_region(2) [OF less.prems(1) i] mm_okD(2) [OF less.prems(1) i(1)], of "of_nat n" h mm1]
        mm1(1) h [OF less.prems(1) i(1)] cur c(2) by (simp add: PageSize_address(2) page_address_add of_nat_diff)
    moreover have "pages_changed rgs upd frees {a..<a + n} mm mm2"
      unfolding split(1) using changed_trans [OF mm1(2) mm2(2) split(2)] rdy rdy1 by (simp add: ready_def)
    ultimately show ?thesis using mm2(1) by simp
  qed
qed

lemma locked_acts:
  assumes "mm_ok rgs mm" "ready rgs mm {a..<a + n}"
  shows "\<exists>mm'. each_manager D (locked f) (page_address a) (of_nat n) mm = Some (Inr mm') \<and> pages_changed rgs upd frees {a..<a + n} mm mm'"
  by (rule each_manager_acts [OF assms]) (rule locked_on_impl)

text \<open>The blocks of a page group, when they do not overlap.\<close>

lemma each_block_acts:
  assumes "\<And>mm a n. mm_ok rgs mm \<Longrightarrow> ready rgs mm {a..<a + n} \<Longrightarrow>
      \<exists>mm'. g (page_address a) (of_nat n) mm = Some (Inr mm') \<and> pages_changed rgs upd frees {a..<a + n} mm mm'"
    and "mm_ok rgs mm" "group_blocks bs rs" "distinct (live_pages rs)" "ready rgs mm (set (live_pages rs))"
  shows "\<exists>mm'. each_block g bs mm = Some (Inr mm') \<and> pages_changed rgs upd frees (set (live_pages rs)) mm mm'"
  using assms(2-)
proof (induction bs arbitrary: mm rs)
  case Nil
  then show ?case using changed_refl by (simp add: group_blocks_def live_pages_def)
next
  case (Cons b bs)
  obtain a n rs' where rs: "rs = (a, n) # rs'" "info_GetAddress b = page_address a" "node_GetNumPages b = of_nat n" "group_blocks bs rs'"
    using Cons.prems(2) by (auto simp: group_blocks_def list_all2_Cons1)
  have set: "set (live_pages rs) = {a..<a + n} \<union> set (live_pages rs')" "{a..<a + n} \<inter> set (live_pages rs') = {}" "distinct (live_pages rs')"
    using Cons.prems(3) by (auto simp: rs(1) range_pages_def)
  have rdy: "ready rgs mm {a..<a + n}" using Cons.prems(4) unfolding set(1) ready_def by blast
  obtain mm1 where mm1: "g (page_address a) (of_nat n) mm = Some (Inr mm1)" "pages_changed rgs upd frees {a..<a + n} mm mm1"
    using assms(1) [OF Cons.prems(1) rdy] by blast
  have ok1: "mm_ok rgs mm1" using mm1(2) by (simp add: pages_changed_def)
  have rdy1: "ready rgs mm1 (set (live_pages rs'))" by (rule ready_rest [OF _ mm1(2) set(2)]) (use Cons.prems(4) set(1) in simp)
  obtain mm2 where mm2: "each_block g bs mm1 = Some (Inr mm2)" "pages_changed rgs upd frees (set (live_pages rs')) mm1 mm2"
    using Cons.IH [OF ok1 rs(4) set(3) rdy1] by blast
  have "pages_changed rgs upd frees (set (live_pages rs)) mm mm2"
    unfolding set(1) using changed_trans [OF mm1(2) mm2(2) set(2)] rdy rdy1 by (simp add: ready_def)
  then show ?case using mm1(1) mm2(1) by (simp add: rs(2,3))
qed

end

text \<open>Opening pages that are open already, opening pages for the first time, and closing them.\<close>

interpretation im_op: ref_operation "\<lambda>x y im. Some (im_Open D x y im)" "\<lambda>r. r \<noteq> 0 \<and> r \<noteq> - 1" "\<lambda>r. r + 1" "\<lambda>r. False" for D
proof
  fix pl ph im a n
  assume a: "impl_ok pl ph im" "pl \<le> a" "a + n \<le> ph" "\<forall>p \<in> {a..<a + n}. p \<notin> impl_free im \<and> page_ref pl im p \<noteq> 0 \<and> page_ref pl im p \<noteq> - 1"
  have "1 < page_ref pl im p + 1" if "p \<in> {a..<a + n}" for p using a(4) that open_again by blast
  then show "\<exists>im'. Some (im_Open D (page_address a) (of_nat n) im) = Some (Inr im') \<and> impl_ok pl ph im' \<and> same_links im im' \<and>
      impl_free im' = impl_free im \<union> {p \<in> {a..<a + n}. False} \<and>
      (\<forall>p \<in> {pl..<ph}. page_ref pl im' p = (if p \<in> {a..<a + n} then page_ref pl im p + 1 else page_ref pl im p))"
    using im_open_opens [OF a(1-3), of D "\<lambda>r. r > 1"] a(4) by (simp add: im_Open_def)
qed

interpretation im_first: ref_operation "\<lambda>x y im. Some (im_OpenFirst D x y im)" "\<lambda>r. r = 0" "\<lambda>r. 1" "\<lambda>r. False" for D
proof
  fix pl ph im a n
  assume a: "impl_ok pl ph im" "pl \<le> a" "a + n \<le> ph" "\<forall>p \<in> {a..<a + n}. p \<notin> impl_free im \<and> page_ref pl im p = 0"
  then show "\<exists>im'. Some (im_OpenFirst D (page_address a) (of_nat n) im) = Some (Inr im') \<and> impl_ok pl ph im' \<and> same_links im im' \<and>
      impl_free im' = impl_free im \<union> {p \<in> {a..<a + n}. False} \<and>
      (\<forall>p \<in> {pl..<ph}. page_ref pl im' p = (if p \<in> {a..<a + n} then 1 else page_ref pl im p))"
    using im_open_opens [OF a(1-3), of D "\<lambda>r. r = 1"] by (simp add: im_OpenFirst_def) auto
qed

interpretation im_close: ref_operation "im_Close D" "\<lambda>r. r \<noteq> 0" "\<lambda>r. r - 1" "\<lambda>r. r = 1" for D
  by unfold_locales (rule im_Close_closes, auto)

end
