(* ===== verification/Manager_Allocation.thy ===== *)
theory Manager_Allocation
  imports Manager_Laws
begin

text \<open>
  Allocation by the memory manager. The managers of a pool are a chain, which its loops follow; what an operation takes from one manager it takes from the whole. A contiguous
  allocation takes free pages of the first manager of the chain that has a block for them and opens them.
\<close>

section \<open>The managers of a pool\<close>

definition im_link :: "nat \<Rightarrow> Impl \<Rightarrow> nat option" where
  "im_link dir im = (if dir = 1 then im_prev im else im_next im)"

fun chain :: "nat \<Rightarrow> Impl list \<Rightarrow> nat option \<Rightarrow> nat list \<Rightarrow> bool" where
  "chain dir ms start [] \<longleftrightarrow> start = None"
| "chain dir ms start (c # cs) \<longleftrightarrow> start = Some c \<and> c < length ms \<and> chain dir ms (im_link dir (ms ! c)) cs"

definition pool_list :: "nat \<Rightarrow> nat \<Rightarrow> KMemoryManager \<Rightarrow> nat list \<Rightarrow> bool" where
  "pool_list pool dir mm cs \<longleftrightarrow> (\<exists>first. GetFirstManager pool dir mm = Inr first \<and> chain dir (m_managers mm) first cs)"

lemma chain_frame:
  assumes "length ms' = length ms" "\<forall>i < length ms. same_links (ms ! i) (ms' ! i)"
  shows "chain dir ms start cs \<Longrightarrow> chain dir ms' start cs"
  using assms by (induction cs arbitrary: start) (auto simp: same_links_def im_link_def)

lemma same_link: "same_links im im' \<Longrightarrow> im_link dir im' = im_link dir im"
  by (simp add: same_links_def im_link_def)

lemma pool_list_frame: "mm_frame mm mm' \<Longrightarrow> pool_list pool dir mm cs \<Longrightarrow> pool_list pool dir mm' cs"
  unfolding pool_list_def GetFirstManager_def mm_frame_def using chain_frame by metis

lemma pool_loop_end: "pool_loop dir body mm_of None s = Some (Inr (None, s))"
  unfolding pool_loop_def by (subst loop_opt.simps) simp

lemma pool_loop_stop:
  assumes "body c s = Some (Inr (True, s'))"
  shows "pool_loop dir body mm_of (Some c) s = Some (Inr (Some c, s'))"
  unfolding pool_loop_def by (subst loop_opt.simps, simp add: assms, subst loop_opt.simps) simp

lemma pool_loop_go:
  assumes "body c s = Some (Inr (False, s'))" "c < length (m_managers (mm_of s'))"
  shows "pool_loop dir body mm_of (Some c) s = pool_loop dir body mm_of (im_link dir (m_managers (mm_of s') ! c)) s'"
proof -
  have "GetNextManager c dir (mm_of s') = Inr (im_link dir (m_managers (mm_of s') ! c))"
    using assms(2) by (simp add: GetNextManager_def mm_impl_def im_link_def)
  then show ?thesis unfolding pool_loop_def by (subst loop_opt.simps) (simp add: assms(1))
qed

section \<open>Taking pages\<close>

definition mm_taken :: "(nat \<times> nat) list \<Rightarrow> nat set \<Rightarrow> KMemoryManager \<Rightarrow> KMemoryManager \<Rightarrow> bool" where
  "mm_taken rgs S mm mm' \<longleftrightarrow> mm_ok rgs mm' \<and> mm_frame mm mm' \<and> (\<forall>p \<in> mm_pages rgs. mm_ref rgs mm' p = mm_ref rgs mm p) \<and>
    S \<subseteq> mm_free rgs mm \<and> mm_free rgs mm' = mm_free rgs mm - S"

lemma mm_taken_refl: "mm_ok rgs mm \<Longrightarrow> mm_taken rgs {} mm mm"
  by (simp add: mm_taken_def frame_refl)

lemma mm_taken_trans: "mm_taken rgs S a b \<Longrightarrow> mm_taken rgs T b c \<Longrightarrow> mm_taken rgs (S \<union> T) a c"
  unfolding mm_taken_def using frame_trans by (intro conjI) (blast | auto)+

lemma mm_set_counts:
  assumes "mm_ok rgs mm" "i < length rgs" "m_page_reference_counts im = m_page_reference_counts (m_managers mm ! i)"
  shows "\<forall>p \<in> mm_pages rgs. mm_ref rgs (mm_set i im mm) p = mm_ref rgs mm p"
proof
  fix p
  assume "p \<in> mm_pages rgs"
  then obtain j where j: "j < length rgs" "p \<in> region_of rgs j" by (auto simp: mm_pages_def)
  show "mm_ref rgs (mm_set i im mm) p = mm_ref rgs mm p"
    using mm_set_ref [OF assms(1,2) j] mm_free_region(2) [OF assms(1) j] assms(3) by (simp add: page_ref_def)
qed

lemma impl_taken:
  assumes "impl_ok pl ph im" "pages_taken pl ph (heap_regions pl ph) (im_heap im) S hp"
  shows "impl_ok pl ph (im\<lparr>im_heap := hp\<rparr>)" "S \<subseteq> {pl..<ph}"
  using assms heap_free_bound(1) [of pl ph "heap_regions pl ph" "im_heap im"] by (auto simp: impl_ok_def pages_taken_def page_ref_def)

lemma mm_set_taken:
  assumes ok: "mm_ok rgs mm" and i: "i < length rgs"
    and "pages_taken (fst (rgs ! i)) (snd (rgs ! i)) (heap_regions (fst (rgs ! i)) (snd (rgs ! i))) (im_heap (m_managers mm ! i)) S hp"
  shows "mm_taken rgs S mm (mm_set i ((m_managers mm ! i)\<lparr>im_heap := hp\<rparr>) mm)" "S \<subseteq> region_of rgs i"
proof -
  let ?im = "m_managers mm ! i" and ?im' = "(m_managers mm ! i)\<lparr>im_heap := hp\<rparr>"
  note im = impl_taken [OF mm_okD(1) [OF ok i] assms(3)]
  show "S \<subseteq> region_of rgs i" using im(2) by (simp add: region_of_def)
  have "mm_frame mm (mm_set i ?im' mm)" by (rule frame_set) (simp add: same_links_def)
  moreover have "\<forall>p \<in> mm_pages rgs. mm_ref rgs (mm_set i ?im' mm) p = mm_ref rgs mm p" by (rule mm_set_counts [OF ok i]) simp
  moreover have "S \<subseteq> impl_free ?im" "impl_free ?im' = impl_free ?im - S" using assms(3) by (simp_all add: pages_taken_def)
  moreover have "impl_free ?im \<subseteq> mm_free rgs mm" using i by (auto simp: mm_free_def)
  ultimately show "mm_taken rgs S mm (mm_set i ?im' mm)"
    unfolding mm_taken_def mm_set_free [OF ok i] using mm_set_ok [OF ok i im(1)] by auto
qed

lemma taken_impl_free:
  assumes "mm_ok rgs mm" "mm_taken rgs S mm mm'" "i < length rgs"
  shows "impl_free (m_managers mm' ! i) = impl_free (m_managers mm ! i) - S"
proof -
  have ok': "mm_ok rgs mm'" using assms(2) by (simp add: mm_taken_def)
  have "p \<in> impl_free (m_managers mm' ! i) \<longleftrightarrow> p \<in> impl_free (m_managers mm ! i) - S" if "p \<in> region_of rgs i" for p
    using mm_free_region(1) [OF assms(1,3) that] mm_free_region(1) [OF ok' assms(3) that] assms(2) by (auto simp: mm_taken_def)
  then show ?thesis using mm_okD(4) [OF assms(1,3)] mm_okD(4) [OF ok' assms(3)] by blast
qed

section \<open>The optimized map\<close>

lemma track_loop_length:
  assumes "i + n \<le> 64 * length m"
  shows "\<exists>m'. track_loop f n i m = Inr m' \<and> length m' = length m"
  using assms
proof (induction n arbitrary: i m)
  case (Suc n)
  have "i div 64 < length m" using Suc.prems by (simp add: less_mult_imp_div_less mult.commute)
  then show ?case using Suc.IH [of "i + 1" "m[i div 64 := f (m ! (i div 64)) (push_bit (i mod 64) 1)]"] Suc.prems by simp
qed simp

lemma track_span_pages:
  assumes ok: "heap_ok pl ph r hp" and "pl \<le> a" "a + n \<le> ph" "0 < n"
  shows "track_span (page_address a) (of_nat n) hp = (n, a - pl)"
proof -
  have lim: "ph \<le> page_limit" by (rule heap_okD(4) [OF ok])
  have off: "GetPageOffset hp (page_address a) = of_nat (a - pl)"
    using ok assms(2,3) lim page_address_pages [of "a - pl"] by (simp add: GetPageOffset_def heap_ok_def page_address_diff)
  have small: "unat (of_nat x :: u64) = x" if "x \<le> ph" for x using that lim unfolding unat_of_nat by (simp add: page_limit_def)
  have "of_nat (a - pl) + of_nat n - 1 = (of_nat (a - pl + n - 1) :: u64)" using assms(4) by (simp add: of_nat_diff)
  moreover have "unat (of_nat (a - pl + n - 1) :: u64) = a - pl + n - 1" by (rule small) (use assms(2,3) in simp)
  moreover have "unat (of_nat (a - pl) :: u64) = a - pl" by (rule small) (use assms(3) in simp)
  ultimately show ?thesis unfolding track_span_def Let_def off using assms(4) by simp
qed

lemma track_keeps:
  assumes "mm_ok rgs mm" "i < length rgs" "{a..<a + n} \<subseteq> region_of rgs i" "0 < n"
  shows "\<exists>mm'. on_impl (\<lambda>im. Some (TrackUnoptimizedAllocation (page_address a) (of_nat n) im)) i mm = Some (Inr mm') \<and> mm_taken rgs {} mm mm'"
proof -
  let ?pl = "fst (rgs ! i)" and ?ph = "snd (rgs ! i)" and ?im = "m_managers mm ! i"
  note okD = mm_okD(1) [OF assms(1,2), unfolded impl_ok_def]
  have range: "?pl \<le> a" "a + n \<le> ?ph" using assms(3,4) by (simp_all add: region_of_def atLeastLessThan_subset_iff)
  have "?ph - ?pl \<le> 64 * length (optimize_map ?im)" using okD by blast
  then have "a - ?pl + n \<le> 64 * length (optimize_map ?im)" using range by linarith
  then obtain m where m: "track_loop (\<lambda>w b. w AND NOT b) n (a - ?pl) (optimize_map ?im) = Inr m" "length m = length (optimize_map ?im)"
    using track_loop_length by blast
  let ?im' = "?im\<lparr>optimize_map := m\<rparr>"
  have run: "on_impl (\<lambda>im. Some (TrackUnoptimizedAllocation (page_address a) (of_nat n) im)) i mm = Some (Inr (mm_set i ?im' mm))"
    using track_span_pages [OF conjunct1 [OF okD] range assms(4)] mm_okD(2) [OF assms(1,2)] m(1) by (simp add: on_impl_def TrackUnoptimizedAllocation_def)
  have "\<forall>p \<in> mm_pages rgs. mm_ref rgs (mm_set i ?im' mm) p = mm_ref rgs mm p" by (rule mm_set_counts [OF assms(1,2)]) simp
  moreover have "impl_ok ?pl ?ph ?im'" using okD m(2) by (simp add: impl_ok_def page_ref_def)
  moreover have "mm_frame mm (mm_set i ?im' mm)" by (rule frame_set) (simp add: same_links_def)
  moreover have "mm_free rgs (mm_set i ?im' mm) = mm_free rgs mm" unfolding mm_set_free [OF assms(1,2)] using assms(2) by (auto simp: mm_free_def)
  ultimately have "mm_taken rgs {} mm (mm_set i ?im' mm)" unfolding mm_taken_def using mm_set_ok [OF assms(1,2)] by blast
  then show ?thesis using run by blast
qed

section \<open>Contiguous pages\<close>

definition has_block :: "nat \<Rightarrow> KMemoryManager \<Rightarrow> nat \<Rightarrow> bool" where
  "has_block i mm c \<longleftrightarrow> (\<exists>k. block_range page_shift i k \<subseteq> impl_free (m_managers mm ! c))"

definition aligned_body :: "bool \<Rightarrow> int \<Rightarrow> u64 \<Rightarrow> u64 \<Rightarrow> nat \<Rightarrow> u64 \<times> KMemoryManager \<Rightarrow> (page_fault + bool \<times> u64 \<times> KMemoryManager) option" where
  "aligned_body D index num_pages align_pages = (\<lambda>cur (_, mm). bindO (Some (mm_impl mm cur)) (\<lambda>im.
    bindO (im_AllocateAligned D index num_pages align_pages im) (\<lambda>(addr, im). Some (Inr (addr \<noteq> 0, (addr, mm_set cur im mm))))))"

lemma aligned_body_acts:
  assumes "mm_ok rgs mm" "c < length rgs" "0 < n" "n \<le> page_limit" "s \<le> 51" "GetAlignedBlockIndex (of_nat n) (2 ^ s) = int i"
  shows "if has_block i mm c
    then \<exists>p mm'. aligned_body D (int i) (of_nat n) (2 ^ s) c (x, mm) = Some (Inr (True, page_address p, mm')) \<and> page_address p \<noteq> 0 \<and>
      mm_taken rgs {p..<p + n} mm mm' \<and> {p..<p + n} \<subseteq> region_of rgs c \<and> 2 ^ s dvd p
    else \<exists>mm'. aligned_body D (int i) (of_nat n) (2 ^ s) c (x, mm) = Some (Inr (False, 0, mm')) \<and> mm_taken rgs {} mm mm'"
proof -
  let ?im = "m_managers mm ! c"
  have ok: "heap_ok (fst (rgs ! c)) (snd (rgs ! c)) (heap_regions (fst (rgs ! c)) (snd (rgs ! c))) (im_heap ?im)"
    using mm_okD(1) [OF assms(1,2)] by (simp add: impl_ok_def)
  note alloc = AllocateAligned_allocates [OF ok assms(3-6), of D]
  have run: "aligned_body D (int i) (of_nat n) (2 ^ s) c (x, mm) = Some (Inr (addr \<noteq> 0, addr, mm_set c (?im\<lparr>im_heap := hp\<rparr>) mm))"
    if "AllocateAligned D i (of_nat n) (2 ^ s) (im_heap ?im) = Some (Inr (addr, hp))" for addr hp
    using that mm_okD(2) [OF assms(1,2)] by (simp add: aligned_body_def im_AllocateAligned_def im_result_def)
  show ?thesis
  proof (cases "has_block i mm c")
    case True
    then obtain p hp where "AllocateAligned D i (of_nat n) (2 ^ s) (im_heap ?im) = Some (Inr (page_address p, hp))" "page_address p \<noteq> 0"
      "pages_taken (fst (rgs ! c)) (snd (rgs ! c)) (heap_regions (fst (rgs ! c)) (snd (rgs ! c))) (im_heap ?im) {p..<p + n} hp" "2 ^ s dvd p"
      using alloc unfolding has_block_def by auto
    then show ?thesis unfolding if_P [OF True] using run mm_set_taken [OF assms(1,2)]
      by (intro exI [of _ p] exI [of _ "mm_set c (?im\<lparr>im_heap := hp\<rparr>) mm"]) auto
  next
    case False
    then obtain hp where "AllocateAligned D i (of_nat n) (2 ^ s) (im_heap ?im) = Some (Inr (0, hp))"
      "pages_taken (fst (rgs ! c)) (snd (rgs ! c)) (heap_regions (fst (rgs ! c)) (snd (rgs ! c))) (im_heap ?im) {} hp"
      using alloc unfolding has_block_def by auto
    then show ?thesis using False run mm_set_taken(1) [OF assms(1,2)] by auto
  qed
qed

lemma aligned_loop_acts:
  assumes n: "0 < n" "n \<le> page_limit" "s \<le> 51" "GetAlignedBlockIndex (of_nat n) (2 ^ s) = int i"
    and "mm_ok rgs mm" "chain dir (m_managers mm) start cs" "set cs \<subseteq> {..<length rgs}"
  shows "if \<exists>c \<in> set cs. has_block i mm c
    then \<exists>c p mm'. pool_loop dir (aligned_body D (int i) (of_nat n) (2 ^ s)) snd start (0, mm) = Some (Inr (Some c, page_address p, mm')) \<and>
      page_address p \<noteq> 0 \<and> c \<in> set cs \<and> mm_taken rgs {p..<p + n} mm mm' \<and> {p..<p + n} \<subseteq> region_of rgs c \<and> 2 ^ s dvd p
    else \<exists>mm'. pool_loop dir (aligned_body D (int i) (of_nat n) (2 ^ s)) snd start (0, mm) = Some (Inr (None, 0, mm')) \<and> mm_taken rgs {} mm mm'"
  using assms(5-)
proof (induction cs arbitrary: start mm)
  case Nil
  then show ?case using mm_taken_refl by (simp add: pool_loop_end)
next
  case (Cons c cs)
  let ?body = "aligned_body D (int i) (of_nat n) (2 ^ s)"
  have c: "start = Some c" "c < length rgs" "chain dir (m_managers mm) (im_link dir (m_managers mm ! c)) cs" "c < length (m_managers mm)"
    using Cons.prems(2,3) by auto
  note act = aligned_body_acts [OF Cons.prems(1) c(2) n, of D 0]
  show ?case
  proof (cases "has_block i mm c")
    case True
    then show ?thesis using act c(1) pool_loop_stop [of ?body c "(0, mm)" _ dir snd] by fastforce
  next
    case False
    then obtain mm1 where mm1: "?body c (0, mm) = Some (Inr (False, 0, mm1))" "mm_taken rgs {} mm mm1" using act by auto
    have ok1: "mm_ok rgs mm1" and fr: "mm_frame mm mm1" using mm1(2) by (simp_all add: mm_taken_def)
    have same: "has_block i mm1 d \<longleftrightarrow> has_block i mm d" if "d < length rgs" for d
      using taken_impl_free [OF Cons.prems(1) mm1(2) that] by (simp add: has_block_def)
    have links: "length (m_managers mm1) = length (m_managers mm)" "\<forall>i < length (m_managers mm). same_links (m_managers mm ! i) (m_managers mm1 ! i)"
      using fr by (simp_all add: mm_frame_def)
    have ch: "chain dir (m_managers mm1) (im_link dir (m_managers mm1 ! c)) cs"
      using chain_frame [OF links c(3)] links(2) c(4) same_link by metis
    have go: "pool_loop dir ?body snd start (0, mm) = pool_loop dir ?body snd (im_link dir (m_managers mm1 ! c)) (0, mm1)"
      unfolding c(1) using pool_loop_go [of ?body c "(0, mm)" "(0, mm1)" snd dir] mm1(1) links(1) c(4) by simp
    have ex: "(\<exists>d \<in> set (c # cs). has_block i mm d) \<longleftrightarrow> (\<exists>d \<in> set cs. has_block i mm1 d)" using False same Cons.prems(3) by auto
    have "mm_taken rgs S mm mm'" if "mm_taken rgs S mm1 mm'" for S mm' using mm_taken_trans [OF mm1(2) that] by simp
    then show ?thesis unfolding go ex using Cons.IH [OF ok1 ch] Cons.prems(3) by (simp split: if_splits) blast+
  qed
qed

lemma AllocateAndOpenContinuous_acts:
  assumes n: "0 < n" "n \<le> page_limit" "s \<le> 51" "GetAlignedBlockIndex (of_nat n) (2 ^ s) = int i"
    and ok: "mm_ok rgs mm" and pool: "option_GetPool opt < PoolCount" "pool_list (option_GetPool opt) (option_GetDirection opt) mm cs" "set cs \<subseteq> {..<length rgs}"
  shows "if \<exists>c \<in> set cs. has_block i mm c
    then \<exists>p mm1 mm'. AllocateAndOpenContinuous D (of_nat n) (2 ^ s) opt mm = Some (Inr (page_address p, mm')) \<and> page_address p \<noteq> 0 \<and> 2 ^ s dvd p \<and>
      mm_taken rgs {p..<p + n} mm mm1 \<and> pages_changed rgs (\<lambda>r. 1) (\<lambda>r. False) {p..<p + n} mm1 mm'
    else \<exists>mm'. AllocateAndOpenContinuous D (of_nat n) (2 ^ s) opt mm = Some (Inr (0, mm')) \<and> mm_taken rgs {} mm mm'"
proof -
  let ?pool = "option_GetPool opt" and ?dir = "option_GetDirection opt"
  have n0: "of_nat n \<noteq> (0 :: u64)" using n(1,2) by (simp add: word_unat_eq_iff unat_of_nat page_limit_def)
  obtain first where first: "GetFirstManager ?pool ?dir mm = Inr first" "chain ?dir (m_managers mm) first cs" using pool(2) by (auto simp: pool_list_def)
  note loop = aligned_loop_acts [OF n ok first(2) pool(3), of D]
  have lock: "pool_lock ?pool = Inr ()" using pool(1) by (simp add: pool_lock_def)
  have run: "AllocateAndOpenContinuous D (of_nat n) (2 ^ s) opt mm =
    bindO (pool_loop ?dir (aligned_body D (int i) (of_nat n) (2 ^ s)) snd first (0, mm)) (\<lambda>(chosen, allocated_block, mm).
       if allocated_block = 0 then Some (Inr (0, mm))
       else
         bindO (Some (arr_get PageOutOfBounds (m_has_optimized_process mm) ?pool)) (\<lambda>has.
         bindO (if has then on_impl (\<lambda>im. Some (TrackUnoptimizedAllocation allocated_block (of_nat n) im)) (the chosen) mm else Some (Inr mm)) (\<lambda>mm.
         bindO (on_impl (\<lambda>im. Some (im_OpenFirst D allocated_block (of_nat n) im)) (the chosen) mm) (\<lambda>mm.
         Some (Inr (allocated_block, mm))))))"
    unfolding AllocateAndOpenContinuous_def Let_def if_not_P [OF n0] lock n(4) first(1) aligned_body_def by simp
  show ?thesis
  proof (cases "\<exists>c \<in> set cs. has_block i mm c")
    case True
    then obtain c p mm1 where l: "pool_loop ?dir (aligned_body D (int i) (of_nat n) (2 ^ s)) snd first (0, mm) = Some (Inr (Some c, page_address p, mm1))"
      "page_address p \<noteq> 0" "c \<in> set cs" "mm_taken rgs {p..<p + n} mm mm1" "{p..<p + n} \<subseteq> region_of rgs c" "2 ^ s dvd p" using loop by auto
    have ok1: "mm_ok rgs mm1" using l(4) by (simp add: mm_taken_def)
    have c: "c < length rgs" using l(3) pool(3) by auto
    let ?has = "m_has_optimized_process mm1 ! ?pool"
    have has: "arr_get PageOutOfBounds (m_has_optimized_process mm1) ?pool = Inr ?has" using ok1 pool(1) by (simp add: mm_ok_def)
    obtain mm2 where mm2: "(if ?has then on_impl (\<lambda>im. Some (TrackUnoptimizedAllocation (page_address p) (of_nat n) im)) c mm1 else Some (Inr mm1)) = Some (Inr mm2)"
      "mm_taken rgs {} mm1 mm2" using track_keeps [OF ok1 c l(5) n(1)] mm_taken_refl [OF ok1] by (cases ?has) auto
    have taken: "mm_taken rgs {p..<p + n} mm mm2" using mm_taken_trans [OF l(4) mm2(2)] by simp
    have ok2: "mm_ok rgs mm2" using mm2(2) by (simp add: mm_taken_def)
    have range: "fst (rgs ! c) \<le> p" "p + n \<le> snd (rgs ! c)" using l(5) n(1) by (simp_all add: region_of_def atLeastLessThan_subset_iff)
    have "{p..<p + n} \<subseteq> mm_pages rgs" using l(5) c by (auto simp: mm_pages_def)
    moreover have "mm_ref rgs mm2 q = 0" if "q \<in> {p..<p + n}" for q
    proof -
      have q: "q \<in> region_of rgs c" "q \<in> mm_free rgs mm" using that l(4,5) by (auto simp: mm_taken_def)
      then have "mm_ref rgs mm q = 0" using mm_free_region [OF ok c q(1)] mm_okD(1) [OF ok c] by (simp add: impl_ok_def)
      then show ?thesis using taken that calculation unfolding mm_taken_def by auto
    qed
    ultimately have "im_first.ready rgs mm2 {p..<p + n}" using taken by (auto simp: im_first.ready_def mm_taken_def)
    then obtain mm' where mm': "on_impl (\<lambda>im. Some (im_OpenFirst D (page_address p) (of_nat n) im)) c mm2 = Some (Inr mm')"
      "pages_changed rgs (\<lambda>r. 1) (\<lambda>r. False) {p..<p + n} mm2 mm'" using im_first.on_impl_acts [OF ok2 c range] by blast
    have "AllocateAndOpenContinuous D (of_nat n) (2 ^ s) opt mm = Some (Inr (page_address p, mm'))"
      unfolding run using l(1,2) has mm2(1) mm'(1) by (cases ?has) simp_all
    then show ?thesis unfolding if_P [OF True] using l(2,6) taken mm'(2) by blast
  next
    case False
    then show ?thesis using loop run by auto
  qed
qed

end
