(* ===== verification/Group_Allocation.thy ===== *)
theory Group_Allocation
  imports Manager_Allocation
begin

text \<open>
  Allocating a page group: blocks of the sizes from the largest that fits down to one page, from each manager of the pool in turn. The group lists the pages that were taken; the allocation
  runs out of memory only when the pool has no free page left, and what it gives up on it gives back.
\<close>

section \<open>Adding blocks\<close>

definition slab_capacity :: "KMemoryBlockSlabManager \<Rightarrow> nat" where
  "slab_capacity sm = free_objects sm + free_pages sm * objects_per_page sm"

definition extends :: "nat \<Rightarrow> (nat \<times> nat) list \<Rightarrow> bool" where
  "extends a rs \<longleftrightarrow> rs \<noteq> [] \<and> fst (last rs) + snd (last rs) = a"

definition add_range :: "nat \<Rightarrow> nat \<Rightarrow> (nat \<times> nat) list \<Rightarrow> (nat \<times> nat) list" where
  "add_range a n rs = (if extends a rs then butlast rs @ [(fst (last rs), snd (last rs) + n)] else rs @ [(a, n)])"

text \<open>The ranges are of pages whose numbers have 32 bits.\<close>

definition ranges_ok :: "(nat \<times> nat) list \<Rightarrow> bool" where
  "ranges_ok rs \<longleftrightarrow> (\<forall>r \<in> set rs. 0 < fst r \<and> 0 < snd r \<and> fst r + snd r < 2 ^ 32)"

lemma add_range_pages: "live_pages (add_range a n rs) = live_pages rs @ [a..<a + n]"
proof (cases "extends a rs")
  case True
  obtain b m where last: "last rs = (b, m)" by fastforce
  have rs: "rs = butlast rs @ [(b, m)]" using True last by (metis append_butlast_last_id extends_def)
  have "[b..<b + (m + n)] = [b..<b + m] @ [b + m..<b + m + n]" using upt_add_eq_append [of b "b + m" n] by (simp add: add.assoc)
  moreover have "live_pages (xs @ ys) = live_pages xs @ live_pages ys" for xs ys by (simp add: live_pages_def)
  ultimately show ?thesis using True last by (subst (2) rs) (simp add: add_range_def extends_def range_pages_def)
next
  case False
  then show ?thesis unfolding add_range_def if_not_P [OF False] by (simp add: live_pages_def range_pages_def)
qed

lemma add_range_ok: "ranges_ok rs \<Longrightarrow> 0 < a \<Longrightarrow> 0 < n \<Longrightarrow> a + n < 2 ^ 32 \<Longrightarrow> ranges_ok (add_range a n rs)"
  using last_in_set [of rs] unfolding ranges_ok_def add_range_def extends_def by (auto dest: in_set_butlastD split: if_splits)

lemma page_index_32: "x < 2 ^ 32 \<Longrightarrow> ucast (of_nat x :: u32) = (of_nat x :: u64)"
  by (rule word_unat_eq_iff [THEN iffD2]) (simp add: unsigned_ucast_eq unat_of_nat take_bit_nat_eq_self)

lemma page_word_32: "x < 2 ^ 32 \<Longrightarrow> ucast (of_nat x :: u64) = (of_nat x :: u32)"
  by (rule word_unat_eq_iff [THEN iffD2]) (simp add: unsigned_ucast_eq unat_of_nat take_bit_nat_eq_self)

definition range_info :: "nat \<times> nat \<Rightarrow> KBlockInfo" where
  "range_info r = \<lparr>m_page_index = of_nat (fst r), info_num_pages = of_nat (snd r)\<rparr>"

lemma range_info_reads:
  assumes "0 < a" "a + n < 2 ^ 32"
  shows "info_GetAddress (range_info (a, n)) = page_address a" "node_GetNumPages (range_info (a, n)) = of_nat n"
    "node_GetEndAddress (range_info (a, n)) = page_address (a + n)"
proof -
  have "a < 2 ^ 32" "n < 2 ^ 32" using assms(2) by simp_all
  then show "info_GetAddress (range_info (a, n)) = page_address a" "node_GetNumPages (range_info (a, n)) = of_nat n"
    by (simp_all add: info_GetAddress_def node_GetNumPages_def range_info_def page_index_32 PageSize_address(2))
  show "node_GetEndAddress (range_info (a, n)) = page_address (a + n)"
    unfolding node_GetEndAddress_def range_info_def using page_index_32 [OF assms(2)] by (simp add: PageSize_address(2) flip: of_nat_add)
qed

lemma range_info_blocks: "ranges_ok rs \<Longrightarrow> group_blocks (map range_info rs) rs"
  by (induction rs) (auto simp: group_blocks_def ranges_ok_def range_info_reads(1,2))

lemma slab_gives:
  "fst (slab_Allocate sm) = None \<Longrightarrow> snd (slab_Allocate sm) = sm \<and> slab_capacity sm = 0"
  "fst (slab_Allocate sm) \<noteq> None \<Longrightarrow> 0 < objects_per_page sm \<Longrightarrow> Suc (slab_capacity (snd (slab_Allocate sm))) = slab_capacity sm"
  "objects_per_page (snd (slab_Allocate sm)) = objects_per_page sm"
  by (auto simp: slab_Allocate_def slab_capacity_def Let_def split: if_splits nat.splits) (cases "free_pages sm"; simp)

lemma page_mask: "a * 4096 AND 4095 = (0 :: nat)"
proof -
  have "(4095 :: nat) = mask 12" by (simp add: mask_eq_exp_minus_1)
  then show ?thesis unfolding take_bit_eq_mask [symmetric] by (simp only: flip: take_bit_eq_mask) (simp add: take_bit_eq_mod)
qed

lemma info_Initialize_range:
  assumes "0 < a" "a + n < 2 ^ 32"
  shows "info_Initialize D (page_address a) (of_nat n) = Inr (range_info (a, n))"
proof -
  have a: "a < 2 ^ 32" "n < 2 ^ 32" using assms(2) by simp_all
  then have lim: "a \<le> page_limit" by (simp add: page_limit_def)
  have "page_address a AND (PageSize - 1) = 0"
    by (rule word_unat_eq_iff [THEN iffD2]) (simp add: unat_page_address [OF lim] PageSize_def unsigned_and_eq page_mask)
  then show ?thesis using page_address_pages [OF lim] page_word_32 [OF a(1)] page_word_32 [OF a(2)] page_index_32 [OF a(2)]
    by (simp add: info_Initialize_def page_assert_ok range_info_def)
qed

lemma concat_last_range:
  assumes "ranges_ok rs" "0 < a" "a + n < 2 ^ 32"
  shows "concat_last (page_address a) (of_nat n) (map range_info rs) = (if extends a rs then Some (map range_info (add_range a n rs)) else None)"
proof (cases "rs = []")
  case False
  obtain b m where last: "last rs = (b, m)" by fastforce
  have bm: "0 < b" "b + m < 2 ^ 32" using assms(1) last_in_set [OF False] unfolding ranges_ok_def last by auto
  have lim: "a \<le> page_limit" "b + m \<le> page_limit" using bm(2) assms(3) by (simp_all add: page_limit_def)
  have n: "n < 2 ^ 32" using assms(3) by simp
  have "page_address a \<noteq> 0" using page_address_0(2) [OF lim(1)] assms(2) by simp
  moreover have "page_address a = page_address (b + m) \<longleftrightarrow> b + m = a"
    using unat_page_address [OF lim(1)] unat_page_address [OF lim(2)] by (metis mult_cancel2 zero_neq_numeral)
  moreover have "(range_info (b, m))\<lparr>info_num_pages := info_num_pages (range_info (b, m)) + ucast (of_nat n :: u64)\<rparr> = range_info (b, m + n)"
    using page_word_32 [OF n] by (simp add: range_info_def)
  ultimately show ?thesis
    using False last by (simp add: concat_last_def last_map TryConcatenate_def range_info_reads(3) [OF bm] extends_def add_range_def map_butlast)
qed (simp add: concat_last_def extends_def)

lemma AddBlock_adds:
  assumes pg: "pg_blocks pg = map range_info rs" "ranges_ok rs" "0 < objects_per_page (pg_manager pg)" and n: "0 < a" "0 < n" "a + n < 2 ^ 32"
  shows "if \<not> extends a rs \<and> slab_capacity (pg_manager pg) = 0 then AddBlock D (page_address a) (of_nat n) pg = Inr (ResultOutOfResource, pg)
    else \<exists>pg'. AddBlock D (page_address a) (of_nat n) pg = Inr (ResultSuccess, pg') \<and> pg_blocks pg' = map range_info (add_range a n rs) \<and>
      slab_capacity (pg_manager pg') + length (add_range a n rs) = slab_capacity (pg_manager pg) + length rs \<and>
      objects_per_page (pg_manager pg') = objects_per_page (pg_manager pg)"
proof -
  have lim: "a \<le> page_limit" "a + n \<le> page_limit" using n(3) by (simp_all add: page_limit_def)
  have "of_nat n \<noteq> (0 :: u64)" using n(2,3) by (simp add: word_unat_eq_iff unat_of_nat)
  moreover have "page_assert D (page_address a < page_address a + of_nat n * PageSize) = Inr ()"
    using n(2) page_address_less [OF lim] by (intro page_assert_ok) (simp add: PageSize_address(2) page_address_add)
  ultimately have run: "AddBlock D (page_address a) (of_nat n) pg = (case concat_last (page_address a) (of_nat n) (pg_blocks pg) of
         Some bs \<Rightarrow> Inr (ResultSuccess, pg\<lparr>pg_blocks := bs\<rparr>)
       | None \<Rightarrow>
           let (b, sm) = slab_Allocate (pg_manager pg); pg = pg\<lparr>pg_manager := sm\<rparr> in
           if b = None then Inr (ResultOutOfResource, pg)
           else bindF (info_Initialize D (page_address a) (of_nat n)) (\<lambda>info. Inr (ResultSuccess, pg\<lparr>pg_blocks := pg_blocks pg @ [info]\<rparr>)))"
    by (simp add: AddBlock_def)
  note cat = concat_last_range [OF pg(2) n(1,3)]
  show ?thesis
  proof (cases "extends a rs")
    case True
    then show ?thesis unfolding run pg(1) cat by (simp add: add_range_def extends_def)
  next
    case False
    obtain b sm where sm: "slab_Allocate (pg_manager pg) = (b, sm)" by fastforce
    note gives = slab_gives [of "pg_manager pg", unfolded sm fst_conv snd_conv]
    show ?thesis
    proof (cases "b = None")
      case True
      then show ?thesis unfolding run pg(1) cat using False gives(1) by (simp add: sm Let_def)
    next
      case some: False
      have "Suc (slab_capacity sm) = slab_capacity (pg_manager pg)" using gives(2) some pg(3) by simp
      then show ?thesis unfolding run pg(1) cat using False some gives(3) pg(1) info_Initialize_range [OF n(1,3)] by (simp add: sm Let_def add_range_def)
    qed
  qed
qed

section \<open>Giving back\<close>

definition mm_given :: "(nat \<times> nat) list \<Rightarrow> nat set \<Rightarrow> KMemoryManager \<Rightarrow> KMemoryManager \<Rightarrow> bool" where
  "mm_given rgs S mm mm' \<longleftrightarrow> mm_ok rgs mm' \<and> mm_frame mm mm' \<and> (\<forall>p \<in> mm_pages rgs. mm_ref rgs mm' p = mm_ref rgs mm p) \<and>
    mm_free rgs mm' = mm_free rgs mm \<union> S"

lemma taken_given: "mm_taken rgs S a b \<Longrightarrow> mm_given rgs T b c \<Longrightarrow> T \<subseteq> S \<Longrightarrow> mm_taken rgs (S - T) a c"
  unfolding mm_given_def mm_taken_def using frame_trans by (intro conjI) (blast | auto)+

lemma mm_free_ref:
  assumes "mm_ok rgs mm" "p \<in> mm_free rgs mm"
  shows "mm_ref rgs mm p = 0" "p \<in> mm_pages rgs"
proof -
  obtain i where i: "i < length rgs" "p \<in> impl_free (m_managers mm ! i)" using assms(2) by (auto simp: mm_free_def)
  have "p \<in> region_of rgs i" using mm_okD(4) [OF assms(1) i(1)] i(2) by blast
  then show "mm_ref rgs mm p = 0" "p \<in> mm_pages rgs"
    using mm_free_region(2) [OF assms(1) i(1)] mm_okD(1) [OF assms(1) i(1)] i by (auto simp: impl_ok_def mm_pages_def)
qed

lemma on_impl_Free_gives:
  assumes ok: "mm_ok rgs mm" and c: "c < length rgs" and range: "{a..<a + n} \<subseteq> region_of rgs c" "0 < n"
    and taken: "mm_ok rgs mm0" "mm_taken rgs S mm0 mm" "{a..<a + n} \<subseteq> S"
  shows "\<exists>mm'. on_impl (im_Free D (page_address a) (of_nat n)) c mm = Some (Inr mm') \<and> mm_given rgs {a..<a + n} mm mm'"
proof -
  let ?im = "m_managers mm ! c" and ?pl = "fst (rgs ! c)" and ?ph = "snd (rgs ! c)"
  note imp = mm_okD(1) [OF ok c]
  have hok: "heap_ok ?pl ?ph (heap_regions ?pl ?ph) (im_heap ?im)" using imp by (simp add: impl_ok_def)
  have zero: "p \<notin> impl_free ?im" "page_ref ?pl ?im p = 0" if "p \<in> {a..<a + n}" for p
  proof -
    have p: "p \<in> region_of rgs c" "p \<in> mm_free rgs mm0" "p \<notin> mm_free rgs mm" using that taken(2,3) range(1) by (auto simp: mm_taken_def)
    have "mm_ref rgs mm p = 0" using mm_free_ref [OF taken(1) p(2)] taken(2) by (simp add: mm_taken_def)
    then show "p \<notin> impl_free ?im" "page_ref ?pl ?im p = 0" using mm_free_region [OF ok c p(1)] p(3) by simp_all
  qed
  have "{a..<a + n} \<subseteq> {?pl..<?ph}" "a + n \<le> ?ph" using range by (simp_all add: region_of_def atLeastLessThan_subset_iff)
  then obtain hp where hp: "heap_Free D (page_address a) (of_nat n) (im_heap ?im) = Some (Inr hp)"
    "pages_freed ?pl ?ph (heap_regions ?pl ?ph) (im_heap ?im) {a..<a + n} hp"
    using heap_Free_frees [OF hok, of a n D] zero(1) by blast
  let ?im' = "?im\<lparr>im_heap := hp\<rparr>"
  have run: "on_impl (im_Free D (page_address a) (of_nat n)) c mm = Some (Inr (mm_set c ?im' mm))"
    using mm_okD(2) [OF ok c] hp(1) by (simp add: on_impl_def im_Free_def)
  have "impl_ok ?pl ?ph ?im'" using imp hp(2) zero(2) by (auto simp: impl_ok_def pages_freed_def page_ref_def)
  then have ok': "mm_ok rgs (mm_set c ?im' mm)" by (rule mm_set_ok [OF ok c])
  have refs: "\<forall>p \<in> mm_pages rgs. mm_ref rgs (mm_set c ?im' mm) p = mm_ref rgs mm p" by (rule mm_set_counts [OF ok c]) simp
  have "impl_free ?im \<subseteq> mm_free rgs mm" using c by (auto simp: mm_free_def)
  then have "mm_free rgs (mm_set c ?im' mm) = mm_free rgs mm \<union> {a..<a + n}" unfolding mm_set_free [OF ok c] using hp(2) by (auto simp: pages_freed_def)
  moreover have "mm_frame mm (mm_set c ?im' mm)" by (rule frame_set) (simp add: same_links_def)
  ultimately show ?thesis using run ok' refs unfolding mm_given_def by blast
qed

section \<open>The regions of a pool\<close>

text \<open>No region of the pool begins where another one ends, and their page numbers have 32 bits.\<close>

definition pool_regions :: "(nat \<times> nat) list \<Rightarrow> nat list \<Rightarrow> bool" where
  "pool_regions rgs cs \<longleftrightarrow> set cs \<subseteq> {..<length rgs} \<and> (\<forall>c \<in> set cs. snd (rgs ! c) < 2 ^ 32 \<and> (\<forall>d \<in> set cs. snd (rgs ! c) \<notin> region_of rgs d))"

definition in_pool :: "(nat \<times> nat) list \<Rightarrow> nat list \<Rightarrow> (nat \<times> nat) list \<Rightarrow> bool" where
  "in_pool rgs cs rs \<longleftrightarrow> (\<forall>r \<in> set rs. \<exists>c \<in> set cs. {fst r..<fst r + snd r} \<subseteq> region_of rgs c)"

lemma add_range_in_pool:
  assumes "mm_ok rgs mm" "pool_regions rgs cs" "in_pool rgs cs rs" "ranges_ok rs" "c \<in> set cs" "{a..<a + n} \<subseteq> region_of rgs c" "0 < n"
  shows "in_pool rgs cs (add_range a n rs)"
proof (cases "extends a rs")
  case False
  then show ?thesis using assms(3,5,6) unfolding in_pool_def add_range_def by auto
next
  case True
  obtain b m where last: "last rs = (b, m)" by fastforce
  have bm: "(b, m) \<in> set rs" "b + m = a" using True last last_in_set [of rs] by (auto simp: extends_def)
  obtain d where d: "d \<in> set cs" "{b..<b + m} \<subseteq> region_of rgs d" using assms(3) bm(1) by (force simp: in_pool_def)
  have m: "0 < m" using assms(4) bm(1) by (force simp: ranges_ok_def)
  have le: "b + m \<le> snd (rgs ! d)" "fst (rgs ! d) \<le> b" using d(2) m by (simp_all add: region_of_def atLeastLessThan_subset_iff)
  have ac: "a \<in> region_of rgs c" using assms(6,7) by auto
  have "snd (rgs ! d) \<noteq> a" using assms(2,5) d(1) ac unfolding pool_regions_def by blast
  then have "a \<in> region_of rgs d" using le bm(2) by (simp add: region_of_def)
  moreover have "c < length rgs" "d < length rgs" using assms(2,5) d(1) by (auto simp: pool_regions_def)
  ultimately have "d = c" using owner_region(1) [OF assms(1)] ac by metis
  moreover have "{b..<b + (m + n)} = {b..<b + m} \<union> {a..<a + n}" using bm(2) by auto
  ultimately have "{b..<b + (m + n)} \<subseteq> region_of rgs c" using d(2) assms(6) by simp
  then show ?thesis using True last assms(3,5) unfolding in_pool_def add_range_def by (auto dest: in_set_butlastD)
qed

lemma GetBlockNumPages_pages:
  assumes "i < 7"
  shows "GetBlockNumPages i = of_nat (2 ^ page_shift i)" "unat (GetBlockNumPages i) = 2 ^ page_shift i"
proof -
  have lim: "2 ^ page_shift i \<le> page_limit" using size_bound [OF assms] by (simp add: page_limit_def)
  have "GetBlockSize i = page_address (2 ^ page_shift i)" unfolding GetBlockSize_def page_shift_table(1) [OF assms] size_address ..
  then show eq: "GetBlockNumPages i = of_nat (2 ^ page_shift i)" using page_address_pages [OF lim] by (simp add: GetBlockNumPages_def)
  show "unat (GetBlockNumPages i) = 2 ^ page_shift i" unfolding eq unat_of_nat using lim by (simp add: page_limit_def)
qed

section \<open>Blocks of one size\<close>

definition group_inv :: "(nat \<times> nat) list \<Rightarrow> nat list \<Rightarrow> KMemoryManager \<Rightarrow> nat \<Rightarrow> nat \<Rightarrow> group_state \<Rightarrow> (nat \<times> nat) list \<Rightarrow> bool" where
  "group_inv rgs cs mm n cap gs rs \<longleftrightarrow> pg_blocks (gs_group gs) = map range_info rs \<and> ranges_ok rs \<and> in_pool rgs cs rs \<and> distinct (live_pages rs) \<and>
    mm_taken rgs (set (live_pages rs)) mm (gs_mm gs) \<and> unat (gs_num_pages gs) + length (live_pages rs) = n \<and>
    slab_capacity (pg_manager (gs_group gs)) + length rs = cap \<and> 0 < objects_per_page (pg_manager (gs_group gs))"

lemma length_ranges: "ranges_ok rs \<Longrightarrow> length rs \<le> length (live_pages rs)"
  by (induction rs) (auto simp: ranges_ok_def range_pages_def)

text \<open>How a step leaves the state: the free pages only shrink; it stopped because the manager has no block of the size or the slab heap is empty.\<close>

definition group_step :: "(nat \<times> nat) list \<Rightarrow> nat list \<Rightarrow> KMemoryManager \<Rightarrow> nat \<Rightarrow> nat \<Rightarrow> group_state \<Rightarrow> group_state \<Rightarrow> bool" where
  "group_step rgs cs mm n cap gs gs' \<longleftrightarrow> (\<exists>rs. group_inv rgs cs mm n cap gs' rs) \<and> mm_free rgs (gs_mm gs') \<subseteq> mm_free rgs (gs_mm gs) \<and>
    unat (gs_num_pages gs') \<le> unat (gs_num_pages gs) \<and> (gs_result gs' = ResultSuccess \<or> gs_result gs' = ResultOutOfResource \<and> cap < n)"

lemma group_block_adds:
  assumes mm: "mm_ok rgs mm" and pool: "pool_regions rgs cs" "c \<in> set cs" and i: "i < 7"
    and inv: "group_inv rgs cs mm n cap gs rs" "gs_result gs = ResultSuccess" "GetBlockNumPages i \<le> gs_num_pages gs"
    and hp: "AllocateBlock D i random (im_heap (m_managers (gs_mm gs) ! c)) = Some (Inr (page_address a, hp))" "page_address a \<noteq> 0"
      "pages_taken (fst (rgs ! c)) (snd (rgs ! c)) (heap_regions (fst (rgs ! c)) (snd (rgs ! c))) (im_heap (m_managers (gs_mm gs) ! c)) {a..<a + 2 ^ page_shift i} hp"
    and small: "0 < a" "0 < (2 :: nat) ^ page_shift i" "a + 2 ^ page_shift i < 2 ^ 32"
  shows "\<exists>stop gs'. group_block D u random i c gs = Some (Inr (stop, gs')) \<and> group_step rgs cs mm n cap gs gs' \<and>
    (if stop then gs_result gs' = ResultOutOfResource else gs_result gs' = ResultSuccess \<and> unat (gs_num_pages gs') < unat (gs_num_pages gs))"
proof -
  let ?mm = "gs_mm gs" and ?im = "m_managers (gs_mm gs) ! c" and ?w = "2 ^ page_shift i :: nat" and ?S = "set (live_pages rs)"
  let ?mm' = "mm_set c (?im\<lparr>im_heap := hp\<rparr>) ?mm" and ?R = "{a..<a + 2 ^ page_shift i}" and ?rs = "add_range a (2 ^ page_shift i) rs"
  note invD = inv(1) [unfolded group_inv_def]
  have taken: "mm_taken rgs ?S mm ?mm" using invD by blast
  have ok: "mm_ok rgs ?mm" using taken by (simp add: mm_taken_def)
  have c: "c < length rgs" using pool by (auto simp: pool_regions_def)
  note np = GetBlockNumPages_pages [OF i]
  note t = mm_set_taken [OF ok c hp(3)]
  have ok': "mm_ok rgs ?mm'" using t(1) by (simp add: mm_taken_def)
  have both: "mm_taken rgs (?S \<union> ?R) mm ?mm'" "?S \<inter> ?R = {}" using mm_taken_trans [OF taken t(1)] taken t(1) by (auto simp: mm_taken_def)
  have wle: "?w \<le> unat (gs_num_pages gs)" using inv(3) by (simp add: word_le_nat_alt np(2))
  have add: "if \<not> extends a rs \<and> slab_capacity (pg_manager (gs_group gs)) = 0 then AddBlock D (page_address a) (of_nat ?w) (gs_group gs) = Inr (ResultOutOfResource, gs_group gs)
    else \<exists>pg'. AddBlock D (page_address a) (of_nat ?w) (gs_group gs) = Inr (ResultSuccess, pg') \<and> pg_blocks pg' = map range_info ?rs \<and>
      slab_capacity (pg_manager pg') + length ?rs = slab_capacity (pg_manager (gs_group gs)) + length rs \<and>
      objects_per_page (pg_manager pg') = objects_per_page (pg_manager (gs_group gs))"
    by (rule AddBlock_adds) (use invD small in blast)+
  define w where "w = (of_nat ?w :: u64)"
  have run: "group_block D u random i c gs = bindO (Some (AddBlock D (page_address a) w (gs_group gs))) (\<lambda>(res, pg).
      let gs = gs\<lparr>gs_mm := ?mm', gs_group := pg, gs_result := res\<rparr> in
      if res \<noteq> ResultSuccess then
        bindO (on_impl (im_Free D (page_address a) w) c ?mm') (\<lambda>mm. Some (Inr (True, gs\<lparr>gs_mm := mm\<rparr>)))
      else
        bindO (if u then on_impl (\<lambda>im. Some (TrackUnoptimizedAllocation (page_address a) w im)) c ?mm' else Some (Inr ?mm')) (\<lambda>mm.
        Some (Inr (False, gs\<lparr>gs_mm := mm, gs_num_pages := gs_num_pages gs - w\<rparr>))))"
    using hp(1,2) mm_okD(2) [OF ok c] np(1) [folded w_def] by (simp add: group_block_def im_AllocateBlock_def im_result_def Let_def)
  show ?thesis
  proof (cases "\<not> extends a rs \<and> slab_capacity (pg_manager (gs_group gs)) = 0")
    case True
    obtain mm2 where mm2: "on_impl (im_Free D (page_address a) w) c ?mm' = Some (Inr mm2)" "mm_given rgs ?R ?mm' mm2"
      using on_impl_Free_gives [OF ok' c t(2) small(2) mm both(1), of D] unfolding w_def by auto
    let ?gs = "gs\<lparr>gs_mm := mm2, gs_result := ResultOutOfResource\<rparr>"
    have "(?S \<union> ?R) - ?R = ?S" using both(2) by blast
    then have "mm_taken rgs ?S mm mm2" using taken_given [OF both(1) mm2(2)] by simp
    then have gi: "group_inv rgs cs mm n cap ?gs rs" using invD by (simp add: group_inv_def)
    have "length rs \<le> length (live_pages rs)" using invD length_ranges by blast
    then have "cap < n" using invD True wle small(2) by linarith
    moreover have "mm_free rgs mm2 \<subseteq> mm_free rgs ?mm" using mm2(2) t(1) by (auto simp: mm_given_def mm_taken_def)
    moreover have "group_block D u random i c gs = Some (Inr (True, ?gs))" unfolding run using add True mm2(1) by (simp add: w_def)
    ultimately show ?thesis using gi unfolding group_step_def by (intro exI [of _ True] exI [of _ ?gs]) auto
  next
    case False
    then obtain pg where pg: "AddBlock D (page_address a) w (gs_group gs) = Inr (ResultSuccess, pg)" "pg_blocks pg = map range_info ?rs"
      "slab_capacity (pg_manager pg) + length ?rs = slab_capacity (pg_manager (gs_group gs)) + length rs"
      "objects_per_page (pg_manager pg) = objects_per_page (pg_manager (gs_group gs))"
      using add unfolding if_not_P [OF False] w_def by blast
    obtain mm2 where mm2: "(if u then on_impl (\<lambda>im. Some (TrackUnoptimizedAllocation (page_address a) w im)) c ?mm' else Some (Inr ?mm')) = Some (Inr mm2)"
      "mm_taken rgs {} ?mm' mm2" using track_keeps [OF ok' c t(2) small(2)] mm_taken_refl [OF ok'] unfolding w_def by (cases u) auto
    let ?gs = "gs\<lparr>gs_mm := mm2, gs_group := pg, gs_result := ResultSuccess, gs_num_pages := gs_num_pages gs - w\<rparr>"
    have set: "set (live_pages ?rs) = ?S \<union> ?R" "distinct (live_pages ?rs)" "length (live_pages ?rs) = length (live_pages rs) + ?w"
      using both(2) invD by (auto simp: add_range_pages)
    have "mm_taken rgs (set (live_pages ?rs)) mm mm2" using mm_taken_trans [OF both(1) mm2(2)] set(1) by simp
    moreover have num: "unat (gs_num_pages gs - w) = unat (gs_num_pages gs) - ?w" using inv(3) np unfolding w_def by (simp add: unat_sub)
    moreover have "ranges_ok ?rs" by (rule add_range_ok [OF _ small]) (use invD in blast)
    moreover have "in_pool rgs cs ?rs" by (rule add_range_in_pool [OF ok pool(1) _ _ pool(2) t(2) small(2)]) (use invD in blast)+
    moreover have "unat (gs_num_pages gs) - ?w + (length (live_pages rs) + ?w) = n" using invD wle by linarith
    ultimately have gi: "group_inv rgs cs mm n cap ?gs ?rs" using invD pg set unfolding group_inv_def by simp
    have fewer: "unat (gs_num_pages gs - w) < unat (gs_num_pages gs)" using num wle small(2) by linarith
    have "mm_free rgs mm2 \<subseteq> mm_free rgs ?mm" using mm2(2) t(1) by (auto simp: mm_taken_def)
    moreover have "group_block D u random i c gs = Some (Inr (False, ?gs))" unfolding run using pg(1) mm2(1) by (cases u) simp_all
    ultimately show ?thesis using gi fewer unfolding group_step_def by (intro exI [of _ False] exI [of _ ?gs]) auto
  qed
qed

lemma group_block_acts:
  assumes mm: "mm_ok rgs mm" and pool: "pool_regions rgs cs" "c \<in> set cs" and i: "i < 7"
    and inv: "group_inv rgs cs mm n cap gs rs" "gs_result gs = ResultSuccess" "GetBlockNumPages i \<le> gs_num_pages gs"
  shows "\<exists>stop gs'. group_block D u random i c gs = Some (Inr (stop, gs')) \<and> group_step rgs cs mm n cap gs gs' \<and>
    (if stop then gs_result gs' = ResultSuccess \<longrightarrow> \<not> has_block i (gs_mm gs') c
     else gs_result gs' = ResultSuccess \<and> unat (gs_num_pages gs') < unat (gs_num_pages gs))"
proof -
  let ?mm = "gs_mm gs" and ?im = "m_managers (gs_mm gs) ! c" and ?w = "2 ^ page_shift i :: nat"
  let ?pl = "fst (rgs ! c)" and ?ph = "snd (rgs ! c)"
  note invD = inv(1) [unfolded group_inv_def]
  have taken: "mm_taken rgs (set (live_pages rs)) mm ?mm" using invD by blast
  have ok: "mm_ok rgs ?mm" using taken by (simp add: mm_taken_def)
  have c: "c < length rgs" using pool by (auto simp: pool_regions_def)
  have hok: "heap_ok ?pl ?ph (heap_regions ?pl ?ph) (im_heap ?im)" using mm_okD(1) [OF ok c] by (simp add: impl_ok_def)
  note np = GetBlockNumPages_pages [OF i]
  note alloc = AllocateBlock_allocates [OF hok i, of D random]
  show ?thesis
  proof (cases "has_block i ?mm c")
    case False
    then obtain hp where hp: "AllocateBlock D i random (im_heap ?im) = Some (Inr (0, hp))"
      "pages_taken ?pl ?ph (heap_regions ?pl ?ph) (im_heap ?im) {} hp" using alloc unfolding has_block_def by auto
    let ?mm' = "mm_set c (?im\<lparr>im_heap := hp\<rparr>) ?mm"
    have run: "group_block D u random i c gs = Some (Inr (True, gs\<lparr>gs_mm := ?mm'\<rparr>))"
      using hp(1) mm_okD(2) [OF ok c] by (simp add: group_block_def im_AllocateBlock_def im_result_def)
    note t = mm_set_taken(1) [OF ok c hp(2)]
    have "mm_taken rgs (set (live_pages rs)) mm ?mm'" using mm_taken_trans [OF taken t] by simp
    then have "group_inv rgs cs mm n cap (gs\<lparr>gs_mm := ?mm'\<rparr>) rs" using invD by (simp add: group_inv_def)
    moreover have "\<not> has_block i ?mm' c" using False taken_impl_free [OF ok t c] by (simp add: has_block_def)
    moreover have "mm_free rgs ?mm' \<subseteq> mm_free rgs ?mm" using t by (auto simp: mm_taken_def)
    ultimately show ?thesis using run inv(2) unfolding group_step_def by (intro exI [of _ True] exI [of _ "gs\<lparr>gs_mm := ?mm'\<rparr>"]) auto
  next
    case True
    then obtain k hp where hp: "AllocateBlock D i random (im_heap ?im) = Some (Inr (page_address (k * ?w), hp))" "page_address (k * ?w) \<noteq> 0"
      "pages_taken ?pl ?ph (heap_regions ?pl ?ph) (im_heap ?im) {k * ?w..<k * ?w + ?w} hp"
      using alloc unfolding has_block_def block_range_interval by auto
    define a where "a = k * ?w"
    note hp = hp [folded a_def]
    let ?mm' = "mm_set c (?im\<lparr>im_heap := hp\<rparr>) ?mm"
    note t = mm_set_taken [OF ok c hp(3)]
    have ok': "mm_ok rgs ?mm'" using t(1) by (simp add: mm_taken_def)
    have range: "{a..<a + ?w} \<subseteq> region_of rgs c" "0 < ?w" using t(2) by simp_all
    have "0 < a" "a + ?w < 2 ^ 32"
    proof -
      show "0 < a" using hp(2) by (cases "a = 0") (simp_all add: page_address_0)
      have "a + ?w \<le> ?ph" using range by (simp add: region_of_def atLeastLessThan_subset_iff)
      then show "a + ?w < 2 ^ 32" using pool by (fastforce simp: pool_regions_def)
    qed
    note small = this(1) range(2) this(2)
    obtain stop gs' where "group_block D u random i c gs = Some (Inr (stop, gs'))" "group_step rgs cs mm n cap gs gs'"
      "if stop then gs_result gs' = ResultOutOfResource else gs_result gs' = ResultSuccess \<and> unat (gs_num_pages gs') < unat (gs_num_pages gs)"
      using group_block_adds [OF mm pool i inv hp small, of u] by blast
    then show ?thesis by (intro exI [of _ stop] exI [of _ gs']) (cases stop; simp)
  qed
qed

lemma step_refl: "group_inv rgs cs mm n cap gs rs \<Longrightarrow> gs_result gs = ResultSuccess \<Longrightarrow> group_step rgs cs mm n cap gs gs"
  by (auto simp: group_step_def)

lemma step_trans: "group_step rgs cs mm n cap a b \<Longrightarrow> group_step rgs cs mm n cap b c \<Longrightarrow> group_step rgs cs mm n cap a c"
  by (auto simp: group_step_def)

text \<open>The blocks of the size are used up in a manager, or fewer pages than one block are left to allocate.\<close>

definition used_up :: "nat \<Rightarrow> group_state \<Rightarrow> nat \<Rightarrow> bool" where
  "used_up i gs c \<longleftrightarrow> gs_num_pages gs < GetBlockNumPages i \<or> \<not> has_block i (gs_mm gs) c"

lemma group_manager_acts:
  assumes mm: "mm_ok rgs mm" and pool: "pool_regions rgs cs" "c \<in> set cs" and i: "i < 7"
    and inv: "group_inv rgs cs mm n cap gs rs" "gs_result gs = ResultSuccess"
  shows "\<exists>gs'. group_manager D u random i c gs = Some (Inr (gs_result gs' \<noteq> ResultSuccess, gs')) \<and> group_step rgs cs mm n cap gs gs' \<and>
    (gs_result gs' = ResultSuccess \<longrightarrow> used_up i gs' c)"
  using inv
proof (induction "unat (gs_num_pages gs)" arbitrary: gs rs rule: less_induct)
  case less
  let ?test = "\<lambda>(stop, gs). gs_num_pages gs \<ge> GetBlockNumPages i \<and> \<not> stop" and ?body = "\<lambda>(stop, gs). group_block D u random i c gs"
  have eq: "group_manager D u random i c gs = bindO (loop_opt ?test ?body (False, gs)) (\<lambda>(_, gs). Some (Inr (gs_result gs \<noteq> ResultSuccess, gs)))" for gs
    by (simp add: group_manager_def)
  show ?case
  proof (cases "GetBlockNumPages i \<le> gs_num_pages gs")
    case False
    then have "loop_opt ?test ?body (False, gs) = Some (Inr (False, gs))" by (subst loop_opt.simps) simp
    then show ?thesis unfolding eq using False step_refl [OF less.prems] less.prems(2) by (intro exI [of _ gs]) (auto simp: used_up_def)
  next
    case True
    obtain stop gs1 where s: "group_block D u random i c gs = Some (Inr (stop, gs1))" "group_step rgs cs mm n cap gs gs1"
      "if stop then gs_result gs1 = ResultSuccess \<longrightarrow> \<not> has_block i (gs_mm gs1) c
       else gs_result gs1 = ResultSuccess \<and> unat (gs_num_pages gs1) < unat (gs_num_pages gs)"
      using group_block_acts [OF mm pool i less.prems True, of D u random] by blast
    have first: "loop_opt ?test ?body (False, gs) = loop_opt ?test ?body (stop, gs1)" using True s(1) by (subst loop_opt.simps) simp
    show ?thesis
    proof (cases stop)
      case True
      then have "loop_opt ?test ?body (stop, gs1) = Some (Inr (stop, gs1))" by (subst loop_opt.simps) simp
      then show ?thesis unfolding eq first using s(2,3) True by (intro exI [of _ gs1]) (auto simp: used_up_def)
    next
      case False
      obtain rs1 where rs1: "group_inv rgs cs mm n cap gs1 rs1" using s(2) by (auto simp: group_step_def)
      obtain gs' where "group_manager D u random i c gs1 = Some (Inr (gs_result gs' \<noteq> ResultSuccess, gs'))" "group_step rgs cs mm n cap gs1 gs'"
        "gs_result gs' = ResultSuccess \<longrightarrow> used_up i gs' c"
        using less.hyps [OF _ rs1] s(3) False by auto
      then show ?thesis unfolding eq first using s(3) False step_trans [OF s(2)] by (intro exI [of _ gs']) auto
    qed
  qed
qed

lemma inv_mm: "group_inv rgs cs mm n cap gs rs \<Longrightarrow> mm_ok rgs (gs_mm gs)" "group_inv rgs cs mm n cap gs rs \<Longrightarrow> mm_frame mm (gs_mm gs)"
  by (simp_all add: group_inv_def mm_taken_def)

lemma used_up_step:
  assumes "group_inv rgs cs mm n cap gs rs" "group_step rgs cs mm n cap gs gs'" "c < length rgs" "used_up i gs c"
  shows "used_up i gs' c"
proof -
  obtain rs' where ok': "mm_ok rgs (gs_mm gs')" using assms(2) inv_mm(1) unfolding group_step_def by blast
  note ok = inv_mm(1) [OF assms(1)]
  have sub: "impl_free (m_managers (gs_mm gs') ! c) \<subseteq> impl_free (m_managers (gs_mm gs) ! c)"
  proof
    fix p
    assume p: "p \<in> impl_free (m_managers (gs_mm gs') ! c)"
    then have r: "p \<in> region_of rgs c" using mm_okD(4) [OF ok' assms(3)] by blast
    then show "p \<in> impl_free (m_managers (gs_mm gs) ! c)"
      using p mm_free_region(1) [OF ok' assms(3) r] mm_free_region(1) [OF ok assms(3) r] assms(2) by (auto simp: group_step_def)
  qed
  have "gs_num_pages gs' \<le> gs_num_pages gs" using assms(2) by (simp add: group_step_def word_le_nat_alt)
  then show ?thesis using assms(4) sub unfolding used_up_def has_block_def by (meson order_le_less_trans subset_trans)
qed

section \<open>All sizes\<close>

lemma group_pool_acts:
  assumes mm: "mm_ok rgs mm" and pool: "pool_regions rgs cs" and i: "i < 7"
    and "group_inv rgs cs mm n cap gs rs" "gs_result gs = ResultSuccess" "chain dir (m_managers mm) start ds" "set ds \<subseteq> set cs"
  shows "\<exists>cur gs'. pool_loop dir (group_manager D u random i) gs_mm start gs = Some (Inr (cur, gs')) \<and> group_step rgs cs mm n cap gs gs' \<and>
    (gs_result gs' = ResultSuccess \<longrightarrow> (\<forall>c \<in> set ds. used_up i gs' c))"
  using assms(4-)
proof (induction ds arbitrary: start gs rs)
  case Nil
  then show ?case using step_refl [OF Nil(1,2)] by (simp add: pool_loop_end)
next
  case (Cons c ds)
  have c: "start = Some c" "c \<in> set cs" "c < length (m_managers mm)" "chain dir (m_managers mm) (im_link dir (m_managers mm ! c)) ds" using Cons.prems(3,4) by auto
  have cl: "c < length rgs" using pool c(2) by (auto simp: pool_regions_def)
  obtain gs1 where s: "group_manager D u random i c gs = Some (Inr (gs_result gs1 \<noteq> ResultSuccess, gs1))" "group_step rgs cs mm n cap gs gs1"
    "gs_result gs1 = ResultSuccess \<longrightarrow> used_up i gs1 c"
    using group_manager_acts [OF mm pool c(2) i Cons.prems(1,2), of D u random] by blast
  show ?case
  proof (cases "gs_result gs1 = ResultSuccess")
    case False
    then have "pool_loop dir (group_manager D u random i) gs_mm start gs = Some (Inr (Some c, gs1))"
      using pool_loop_stop [of "group_manager D u random i" c gs gs1 dir gs_mm] s(1) c(1) by simp
    then show ?thesis using s(2) False by blast
  next
    case True
    obtain rs1 where rs1: "group_inv rgs cs mm n cap gs1 rs1" using s(2) by (auto simp: group_step_def)
    have fr: "length (m_managers (gs_mm gs1)) = length (m_managers mm)" "same_links (m_managers mm ! c) (m_managers (gs_mm gs1) ! c)"
      using inv_mm(2) [OF rs1] c(3) by (simp_all add: mm_frame_def)
    have go: "pool_loop dir (group_manager D u random i) gs_mm start gs = pool_loop dir (group_manager D u random i) gs_mm (im_link dir (m_managers mm ! c)) gs1"
      using pool_loop_go [of "group_manager D u random i" c gs gs1 gs_mm dir] s(1) True c(1,3) fr same_link by simp
    obtain cur gs' where r: "pool_loop dir (group_manager D u random i) gs_mm (im_link dir (m_managers mm ! c)) gs1 = Some (Inr (cur, gs'))"
      "group_step rgs cs mm n cap gs1 gs'" "gs_result gs' = ResultSuccess \<longrightarrow> (\<forall>c \<in> set ds. used_up i gs' c)"
      using Cons.IH [OF rs1 True c(4)] Cons.prems(4) by auto
    then show ?thesis unfolding go using step_trans [OF s(2) r(2)] used_up_step [OF rs1 r(2) cl] s(3) True by auto
  qed
qed

lemma group_levels_acts:
  assumes mm: "mm_ok rgs mm" and pool: "pool_regions rgs cs" "pool_list pool dir mm cs"
    and "i \<le> 7" "group_inv rgs cs mm n cap gs rs" "gs_result gs = ResultSuccess"
  shows "\<exists>gs'. group_levels D u random pool dir i gs = Some (Inr gs') \<and> group_step rgs cs mm n cap gs gs' \<and>
    (gs_result gs' = ResultSuccess \<and> gs_num_pages gs' \<noteq> 0 \<and> 0 < i \<longrightarrow> (\<forall>c \<in> set cs. used_up 0 gs' c))"
  using assms(4-)
proof (induction i arbitrary: gs rs)
  case 0
  then show ?case using step_refl by auto
next
  case (Suc i)
  show ?case
  proof (cases "gs_num_pages gs = 0")
    case True
    then show ?thesis using step_refl [OF Suc.prems(2,3)] by auto
  next
    case False
    obtain first where first: "GetFirstManager pool dir mm = Inr first" "chain dir (m_managers mm) first cs" using pool(2) by (auto simp: pool_list_def)
    have same: "GetFirstManager pool dir (gs_mm gs) = Inr first" using first(1) inv_mm(2) [OF Suc.prems(2)] by (simp only: GetFirstManager_def mm_frame_def)
    obtain cur gs1 where s: "pool_loop dir (group_manager D u random i) gs_mm first gs = Some (Inr (cur, gs1))" "group_step rgs cs mm n cap gs gs1"
      "gs_result gs1 = ResultSuccess \<longrightarrow> (\<forall>c \<in> set cs. used_up i gs1 c)"
      using group_pool_acts [OF mm pool(1) _ Suc.prems(2,3) first(2), of i D u random] Suc.prems(1) by auto
    have run: "group_levels D u random pool dir (Suc i) gs = group_levels D u random pool dir i gs1"
      using False Suc.prems(3) same s(1) by (simp add: word_gt_0)
    obtain rs1 where rs1: "group_inv rgs cs mm n cap gs1 rs1" using s(2) by (auto simp: group_step_def)
    show ?thesis
    proof (cases "gs_result gs1 = ResultSuccess \<and> 0 < i")
      case True
      obtain gs' where "group_levels D u random pool dir i gs1 = Some (Inr gs')" "group_step rgs cs mm n cap gs1 gs'"
        "gs_result gs' = ResultSuccess \<and> gs_num_pages gs' \<noteq> 0 \<and> 0 < i \<longrightarrow> (\<forall>c \<in> set cs. used_up 0 gs' c)"
        using Suc.IH [OF _ rs1] Suc.prems(1) True by auto
      then show ?thesis unfolding run using step_trans [OF s(2)] True by blast
    next
      case False
      then have "group_levels D u random pool dir i gs1 = Some (Inr gs1)" by (cases i) auto
      then show ?thesis unfolding run using s(2,3) False by auto
    qed
  qed
qed

section \<open>The whole allocation\<close>

lemma free_group_gives:
  assumes mm: "mm_ok rgs mm" and pool: "pool_regions rgs cs"
    and "in_pool rgs cs rs" "ranges_ok rs" "distinct (live_pages rs)" "mm_taken rgs S mm m" "set (live_pages rs) \<subseteq> S"
  shows "\<exists>m'. free_group D (map range_info rs) m = Some (Inr m') \<and> mm_taken rgs (S - set (live_pages rs)) mm m'"
  using assms(3-)
proof (induction rs arbitrary: m S)
  case Nil
  then show ?case by simp
next
  case (Cons r rs)
  obtain a n where r: "r = (a, n)" by fastforce
  have an: "0 < a" "0 < n" "a + n < 2 ^ 32" using Cons.prems(2) by (auto simp: ranges_ok_def r)
  obtain c where c: "c \<in> set cs" "{a..<a + n} \<subseteq> region_of rgs c" using Cons.prems(1) by (auto simp: in_pool_def r)
  have cl: "c < length rgs" using pool c(1) by (auto simp: pool_regions_def)
  have ok: "mm_ok rgs m" using Cons.prems(4) by (simp add: mm_taken_def)
  let ?im = "m_managers m ! c" and ?ph = "snd (rgs ! c)"
  have range: "fst (rgs ! c) \<le> a" "a < ?ph" "a + n \<le> ?ph" using c(2) an(2) by (auto simp: region_of_def atLeastLessThan_subset_iff)
  have hok: "heap_ok (fst (rgs ! c)) ?ph (heap_regions (fst (rgs ! c)) ?ph) (im_heap ?im)" using mm_okD(1) [OF ok cl] by (simp add: impl_ok_def)
  have lim: "?ph \<le> page_limit" by (rule heap_okD(4) [OF hok])
  have "(hp_GetEndAddress (im_heap ?im) - page_address a) div PageSize = of_nat (?ph - a)"
    using to_end_pages [OF hok range(1,2)] by (simp add: GetPageOffsetToEnd_def)
  moreover have "min (of_nat n) (of_nat (?ph - a)) = (of_nat (min n (?ph - a)) :: u64)" using an(3) lim by (intro min_of_nat) (simp_all add: page_limit_def)
  ultimately have part: "min (of_nat n) ((hp_GetEndAddress (im_heap ?im) - page_address a) div PageSize) = of_nat n" using range(3) by simp
  have all: "set (live_pages (r # rs)) = {a..<a + n} \<union> set (live_pages rs)" "{a..<a + n} \<inter> set (live_pages rs) = {}"
    using Cons.prems(3) by (auto simp: r range_pages_def)
  have "a \<in> region_of rgs c" using range by (simp add: region_of_def)
  note mgr = owner_region(2) [OF ok cl this]
  obtain m1 where m1: "on_impl (im_Free D (page_address a) (of_nat n)) c m = Some (Inr m1)" "mm_given rgs {a..<a + n} m m1"
    using on_impl_Free_gives [OF ok cl c(2) an(2) mm Cons.prems(4), of D] Cons.prems(5) all(1) by auto
  have t1: "mm_taken rgs (S - {a..<a + n}) mm m1" by (rule taken_given [OF Cons.prems(4) m1(2)]) (use Cons.prems(5) all(1) in blast)
  have rest: "in_pool rgs cs rs" "ranges_ok rs" "distinct (live_pages rs)" using Cons.prems(1-3) by (auto simp: in_pool_def ranges_ok_def)
  have "set (live_pages rs) \<subseteq> S - {a..<a + n}" using Cons.prems(5) all by blast
  then obtain m' where m': "free_group D (map range_info rs) m1 = Some (Inr m')" "mm_taken rgs (S - {a..<a + n} - set (live_pages rs)) mm m'"
    using Cons.IH [OF rest t1] by blast
  have "free_group D (map range_info (r # rs)) m = free_group D (map range_info rs) m1"
    using mgr mm_okD(2) [OF ok cl] part m1(1) by (simp add: r range_info_reads(1,2) [OF an(1,3)] Let_def)
  then show ?case using m' unfolding all(1) by (simp add: Diff_eq Int_assoc)
qed

definition pool_free :: "nat list \<Rightarrow> KMemoryManager \<Rightarrow> nat set" where
  "pool_free cs mm = (\<Union>c \<in> set cs. impl_free (m_managers mm ! c))"

lemma pool_free_finite: "mm_ok rgs mm \<Longrightarrow> pool_regions rgs cs \<Longrightarrow> finite (pool_free cs mm)"
proof -
  assume a: "mm_ok rgs mm" "pool_regions rgs cs"
  have "finite (impl_free (m_managers mm ! c))" if "c \<in> set cs" for c
    by (rule finite_subset [OF mm_okD(4) [OF a(1)]]) (use a(2) that in \<open>auto simp: pool_regions_def region_of_def\<close>)
  then show ?thesis by (simp add: pool_free_def)
qed

lemma group_in_pool:
  assumes "mm_ok rgs mm" "pool_regions rgs cs" "in_pool rgs cs rs" "set (live_pages rs) \<subseteq> mm_free rgs mm"
  shows "set (live_pages rs) \<subseteq> pool_free cs mm"
proof
  fix p
  assume p: "p \<in> set (live_pages rs)"
  then obtain a n where "(a, n) \<in> set rs" "p \<in> {a..<a + n}" by (auto simp: live_pages_def range_pages_def)
  then obtain c where c: "c \<in> set cs" "p \<in> region_of rgs c" using assms(3) by (fastforce simp: in_pool_def)
  then have "c < length rgs" using assms(2) by (auto simp: pool_regions_def)
  then show "p \<in> pool_free cs mm" using mm_free_region(1) [OF assms(1) _ c(2)] p assms(4) c(1) by (auto simp: pool_free_def)
qed

lemma block_index_found: "GetBlockNumPages 0 \<le> n \<Longrightarrow> 0 < i \<Longrightarrow> \<exists>j < i. block_index_loop i n = int j"
proof (induction i)
  case (Suc i)
  then show ?case by (cases "i = 0") (auto intro: less_SucI)
qed simp

lemma empty_manager: "\<not> has_block 0 mm c \<Longrightarrow> impl_free (m_managers mm ! c) = {}"
  unfolding has_block_def block_range_interval by (metis empty_subsetI insert_subset nat_mult_1_right page_shift_0 power_0 equals0I atLeastLessThan_singleton Suc_eq_plus1)

text \<open>The two ways an allocation of \<open>n\<close> pages ends.\<close>

definition group_taken :: "(nat \<times> nat) list \<Rightarrow> nat list \<Rightarrow> nat \<Rightarrow> KMemoryManager \<Rightarrow> KPageGroup \<Rightarrow> (nat \<times> nat) list \<Rightarrow> KMemoryManager \<Rightarrow> bool" where
  "group_taken rgs cs n mm out rs mm' \<longleftrightarrow> pg_blocks out = map range_info rs \<and> ranges_ok rs \<and> distinct (live_pages rs) \<and> length (live_pages rs) = n \<and>
    set (live_pages rs) \<subseteq> pool_free cs mm \<and> mm_taken rgs (set (live_pages rs)) mm mm'"

definition group_refused :: "(nat \<times> nat) list \<Rightarrow> nat list \<Rightarrow> nat \<Rightarrow> nat \<Rightarrow> KMemoryManager \<Rightarrow> mm_result \<Rightarrow> KPageGroup \<Rightarrow> KMemoryManager \<Rightarrow> bool" where
  "group_refused rgs cs n cap mm res out mm' \<longleftrightarrow>
    (res = ResultOutOfMemory \<and> card (pool_free cs mm) < n \<or> res = ResultOutOfResource \<and> cap < n) \<and>
    pg_blocks out = [] \<and> slab_capacity (pg_manager out) = cap \<and> mm_taken rgs {} mm mm'"

lemma free_nodes_capacity: "slab_capacity (free_nodes bs sm) = slab_capacity sm + length bs"
  by (induction bs arbitrary: sm) (simp_all add: slab_Free_def slab_capacity_def)

lemma AllocatePageGroupImpl_acts:
  assumes mm: "mm_ok rgs mm" and pool: "pool_regions rgs cs" "pool_list pool dir mm cs"
    and n: "0 < n" "n < 2 ^ 64" and out: "pg_blocks out = []" "0 < objects_per_page (pg_manager out)"
  shows "\<exists>res out' mm'. AllocatePageGroupImpl D (of_nat n) pool dir u random out mm = Some (Inr (res, out', mm')) \<and>
    (if res = ResultSuccess then \<exists>rs. group_taken rgs cs n mm out' rs mm'
     else group_refused rgs cs n (slab_capacity (pg_manager out)) mm res out' mm')"
proof -
  let ?cap = "slab_capacity (pg_manager out)"
  let ?gs = "\<lparr>gs_result = ResultSuccess, gs_num_pages = of_nat n, gs_group = out, gs_mm = mm\<rparr>"
  have un: "unat (of_nat n :: u64) = n" using n(2) by (simp add: unat_of_nat)
  have "GetBlockNumPages 0 \<le> of_nat n" using n(1) un GetBlockNumPages_pages(2) [of 0] by (simp add: word_le_nat_alt)
  then obtain j where j: "j < 7" "GetBlockIndex (of_nat n) = int j"
    using block_index_found [of "of_nat n" 7] by (auto simp: GetBlockIndex_def NumMemoryBlockPageShifts_def MemoryBlockPageShifts_def)
  have inv: "group_inv rgs cs mm n ?cap ?gs []" using mm_taken_refl [OF mm] un out by (simp add: group_inv_def ranges_ok_def in_pool_def)
  obtain gs where gs: "group_levels D u random pool dir (nat (int j) + 1) ?gs = Some (Inr gs)" "group_step rgs cs mm n ?cap ?gs gs"
    "gs_result gs = ResultSuccess \<and> gs_num_pages gs \<noteq> 0 \<longrightarrow> (\<forall>c \<in> set cs. used_up 0 gs c)"
    using group_levels_acts [OF mm pool _ inv, of "nat (int j) + 1" D u random] j(1) by auto
  obtain rs where rs: "group_inv rgs cs mm n ?cap gs rs" using gs(2) by (auto simp: group_step_def)
  note rsD = rs [unfolded group_inv_def]
  let ?res = "if gs_result gs = ResultSuccess \<and> gs_num_pages gs \<noteq> 0 then ResultOutOfMemory else gs_result gs"
  have run: "AllocatePageGroupImpl D (of_nat n) pool dir u random out mm =
    (if ?res = ResultSuccess then Some (Inr (?res, gs_group gs, gs_mm gs))
     else bindO (free_group D (pg_blocks (gs_group gs)) (gs_mm gs)) (\<lambda>mm. Some (Inr (?res, group_Finalize (gs_group gs), mm))))"
    unfolding AllocatePageGroupImpl_def Let_def j(2) using gs(1) by simp
  have sub: "set (live_pages rs) \<subseteq> pool_free cs mm" by (rule group_in_pool [OF mm pool(1)]) (use rsD in \<open>auto simp: mm_taken_def\<close>)
  show ?thesis
  proof (cases "?res = ResultSuccess")
    case True
    then have "gs_num_pages gs = 0" by (simp split: if_splits)
    then have "group_taken rgs cs n mm (gs_group gs) rs (gs_mm gs)" using rsD sub unfolding group_taken_def by simp
    then show ?thesis unfolding run if_P [OF True] True by auto
  next
    case False
    have taken: "mm_taken rgs (set (live_pages rs)) mm (gs_mm gs)" using rsD by blast
    obtain mm' where mm': "free_group D (map range_info rs) (gs_mm gs) = Some (Inr mm')" "mm_taken rgs (set (live_pages rs) - set (live_pages rs)) mm mm'"
      using free_group_gives [OF mm pool(1) _ _ _ taken, of rs D] rsD by blast
    have "card (pool_free cs mm) < n" if "gs_result gs = ResultSuccess" "gs_num_pages gs \<noteq> 0"
    proof -
      have "impl_free (m_managers (gs_mm gs) ! c) = {}" if "c \<in> set cs" for c
      proof (rule empty_manager)
        have "GetBlockNumPages 0 = 1" using GetBlockNumPages_pages(1) [of 0] by simp
        then have "\<not> gs_num_pages gs < GetBlockNumPages 0" using \<open>gs_num_pages gs \<noteq> 0\<close> by (simp add: word_less_nat_alt unat_eq_zero)
        then show "\<not> has_block 0 (gs_mm gs) c" using gs(3) that \<open>gs_num_pages gs \<noteq> 0\<close> \<open>gs_result gs = ResultSuccess\<close> by (simp add: used_up_def)
      qed
      moreover have "c < length rgs" if "c \<in> set cs" for c using pool(1) that by (auto simp: pool_regions_def)
      ultimately have "pool_free cs mm \<subseteq> set (live_pages rs)" using taken_impl_free [OF mm taken] unfolding pool_free_def by auto
      then have "card (pool_free cs mm) \<le> length (live_pages rs)" using card_mono [of "set (live_pages rs)"] card_length le_trans by blast
      moreover have "unat (gs_num_pages gs) \<noteq> 0" using that(2) by (simp add: unat_eq_zero)
      ultimately show ?thesis using rsD by linarith
    qed
    then have "?res = ResultOutOfMemory \<and> card (pool_free cs mm) < n \<or> ?res = ResultOutOfResource \<and> ?cap < n"
      using False gs(2) by (auto simp: group_step_def)
    moreover have "slab_capacity (pg_manager (group_Finalize (gs_group gs))) = ?cap" "pg_blocks (group_Finalize (gs_group gs)) = []"
      using rsD by (simp_all add: group_Finalize_def free_nodes_capacity)
    ultimately have "group_refused rgs cs n ?cap mm ?res (group_Finalize (gs_group gs)) mm'" using mm'(2) by (simp add: group_refused_def)
    moreover have "AllocatePageGroupImpl D (of_nat n) pool dir u random out mm = Some (Inr (?res, group_Finalize (gs_group gs), mm'))"
      unfolding run if_not_P [OF False] using mm'(1) rsD by simp
    ultimately show ?thesis using False by (intro exI [of _ ?res] exI [of _ "group_Finalize (gs_group gs)"] exI [of _ mm']) simp
  qed
qed

end
