(* ===== verification/Manager_Behaviour.thy ===== *)
theory Manager_Behaviour
  imports Group_Allocation "HOL-Library.Multiset"
begin

text \<open>
  What the memory manager promises its clients. In every run of allocations, opens and closes the count of a page is the number of references that were taken to it and not given back, and
  the free pages are those with none. An allocation of a page group succeeds when the pool has the pages, and closing the group gives them back.
\<close>

section \<open>Allocating and opening\<close>

definition group_pages :: "KPageGroup \<Rightarrow> nat list" where
  "group_pages pg = live_pages (map (\<lambda>b. (unat (m_page_index b), unat (info_num_pages b))) (pg_blocks pg))"

lemma group_blocks_read: "group_blocks bs (map (\<lambda>b. (unat (m_page_index b), unat (info_num_pages b))) bs)"
  by (induction bs) (simp_all add: group_blocks_def info_GetAddress_def node_GetNumPages_def flip: PageSize_address(2))

lemma group_pages_ranges:
  assumes "pg_blocks pg = map range_info rs" "ranges_ok rs"
  shows "group_pages pg = live_pages rs"
proof -
  have "map (\<lambda>b. (unat (m_page_index b), unat (info_num_pages b))) (map range_info rs) = rs"
    using assms(2) by (induction rs) (auto simp: ranges_ok_def range_info_def unat_of_nat)
  then show ?thesis by (simp add: group_pages_def assms(1))
qed

text \<open>The pool and direction that an option names, with the managers of the pool in that direction.\<close>

definition pool_option :: "(nat \<times> nat) list \<Rightarrow> u32 \<Rightarrow> KMemoryManager \<Rightarrow> nat list \<Rightarrow> bool" where
  "pool_option rgs opt mm cs \<longleftrightarrow> option_GetPool opt < PoolCount \<and> pool_regions rgs cs \<and>
    pool_list (option_GetPool opt) (option_GetDirection opt) mm cs"

lemma taken_opens:
  assumes "mm_ok rgs mm" "mm_taken rgs S mm mm1"
  shows "im_first.ready rgs mm1 S"
proof -
  have "S \<subseteq> mm_pages rgs" using assms mm_free_ref(2) unfolding mm_taken_def by blast
  moreover have "mm_ref rgs mm1 p = 0" if "p \<in> S" for p using assms(2) mm_free_ref [OF assms(1), of p] that unfolding mm_taken_def by auto
  ultimately show ?thesis using assms(2) by (auto simp: im_first.ready_def mm_taken_def)
qed

lemma taken_opened:
  assumes "mm_taken rgs S mm mm1" "pages_changed rgs (\<lambda>r. 1) (\<lambda>r. False) S mm1 mm'"
  shows "mm_free rgs mm' = mm_free rgs mm - S" "\<forall>p \<in> mm_pages rgs. mm_ref rgs mm' p = (if p \<in> S then 1 else mm_ref rgs mm p)" "mm_ok rgs mm'"
  using assms by (auto simp: mm_taken_def pages_changed_def)

lemma AllocateAndOpen_acts:
  assumes mm: "mm_ok rgs mm" and opt: "pool_option rgs opt mm cs"
    and n: "0 < n" "n < 2 ^ 64" and out: "pg_blocks out = []" "0 < objects_per_page (pg_manager out)"
  shows "\<exists>res out' mm'. AllocateAndOpen D (of_nat n) opt out mm = Some (Inr (res, out', mm')) \<and>
    (if res = ResultSuccess then \<exists>rs mm1. group_taken rgs cs n mm out' rs mm1 \<and> pages_changed rgs (\<lambda>r. 1) (\<lambda>r. False) (set (live_pages rs)) mm1 mm'
     else group_refused rgs cs n (slab_capacity (pg_manager out)) mm res out' mm')"
proof -
  let ?pool = "option_GetPool opt" and ?dir = "option_GetDirection opt"
  let ?open = "\<lambda>address n i mm. on_impl (\<lambda>im. Some (im_OpenFirst D address n im)) i mm"
  note optD = opt [unfolded pool_option_def]
  let ?has = "m_has_optimized_process mm ! ?pool"
  have has: "arr_get PageOutOfBounds (m_has_optimized_process mm) ?pool = Inr ?has" using mm optD by (simp add: mm_ok_def)
  obtain res out' mm1 where a: "AllocatePageGroupImpl D (of_nat n) ?pool ?dir ?has True out mm = Some (Inr (res, out', mm1))"
    "if res = ResultSuccess then \<exists>rs. group_taken rgs cs n mm out' rs mm1 else group_refused rgs cs n (slab_capacity (pg_manager out)) mm res out' mm1"
    using AllocatePageGroupImpl_acts [OF mm _ _ n out, of cs ?pool ?dir D ?has True] optD by blast
  have n0: "of_nat n \<noteq> (0 :: u64)" using n by (simp add: word_unat_eq_iff unat_of_nat)
  have asr: "page_assert D (group_GetNumPages out = 0) = Inr ()" by (rule page_assert_ok) (simp add: group_GetNumPages_def out(1))
  have lock: "pool_lock ?pool = Inr ()" using optD by (simp add: pool_lock_def)
  have run: "AllocateAndOpen D (of_nat n) opt out mm = (if res \<noteq> ResultSuccess then Some (Inr (res, out', mm1))
      else bindO (each_block (each_manager D ?open) (pg_blocks out') mm1) (\<lambda>mm. Some (Inr (ResultSuccess, out', mm))))"
    unfolding AllocateAndOpen_def Let_def asr if_not_P [OF n0] lock has using a(1) by simp
  show ?thesis
  proof (cases "res = ResultSuccess")
    case False
    then show ?thesis unfolding run using a(2) by auto
  next
    case True
    then obtain rs where rs: "group_taken rgs cs n mm out' rs mm1" using a(2) by auto
    note rsD = rs [unfolded group_taken_def]
    have ok1: "mm_ok rgs mm1" using rsD by (simp add: mm_taken_def)
    have one: "\<exists>mm'. each_manager D ?open (page_address a) (of_nat n) mm = Some (Inr mm') \<and> pages_changed rgs (\<lambda>r. 1) (\<lambda>r. False) {a..<a + n} mm mm'"
      if "mm_ok rgs mm" "im_first.ready rgs mm {a..<a + n}" for mm a n by (rule im_first.each_manager_acts [OF that]) simp
    have bl: "group_blocks (map range_info rs) rs" and d: "distinct (live_pages rs)" using rsD range_info_blocks by blast+
    have rdy: "im_first.ready rgs mm1 (set (live_pages rs))" using taken_opens [OF mm] rsD by blast
    obtain mm' where "each_block (each_manager D ?open) (map range_info rs) mm1 = Some (Inr mm')"
      "pages_changed rgs (\<lambda>r. 1) (\<lambda>r. False) (set (live_pages rs)) mm1 mm'"
      using im_first.each_block_acts [OF one ok1 bl d rdy] by blast
    then show ?thesis unfolding run using True rs rsD by auto
  qed
qed

text \<open>Memory for a process that is not the optimized one of the pool is filled, block by block, and not opened.\<close>

lemma AllocateForProcess_fills:
  assumes mm: "mm_ok rgs mm" and opt: "pool_option rgs opt mm cs"
    and n: "0 < n" "n < 2 ^ 64" and out: "pg_blocks out = []" "0 < objects_per_page (pg_manager out)"
    and process: "length (m_optimized_process_ids mm) = PoolCount"
      "\<not> (m_has_optimized_process mm ! option_GetPool opt \<and> m_optimized_process_ids mm ! option_GetPool opt = process_id)"
  shows "\<exists>res out' mm'. AllocateForProcess D (of_nat n) opt process_id fill_pattern out mm = Some (Inr (res, out', mm')) \<and>
    (if res = ResultSuccess then \<exists>rs mm1. group_taken rgs cs n mm out' rs mm1 \<and>
       mm' = mm1\<lparr>mm_fills := mm_fills mm @ map (\<lambda>(a, k). (page_address a - DramBase, page_address k, fill_pattern)) rs\<rparr>
     else group_refused rgs cs n (slab_capacity (pg_manager out)) mm res out' mm')"
proof -
  let ?pool = "option_GetPool opt" and ?dir = "option_GetDirection opt"
  note optD = opt [unfolded pool_option_def]
  let ?has = "m_has_optimized_process mm ! ?pool" and ?pid = "m_optimized_process_ids mm ! ?pool"
  let ?u = "?has \<and> \<not> ?pid = process_id"
  have has: "arr_get PageOutOfBounds (m_has_optimized_process mm) ?pool = Inr ?has" "arr_get PageOutOfBounds (m_optimized_process_ids mm) ?pool = Inr ?pid"
    using mm optD process(1) by (simp_all add: mm_ok_def)
  obtain res out' mm1 where a: "AllocatePageGroupImpl D (of_nat n) ?pool ?dir ?u False out mm = Some (Inr (res, out', mm1))"
    "if res = ResultSuccess then \<exists>rs. group_taken rgs cs n mm out' rs mm1 else group_refused rgs cs n (slab_capacity (pg_manager out)) mm res out' mm1"
    using AllocatePageGroupImpl_acts [OF mm _ _ n out, of cs ?pool ?dir D ?u False] optD by blast
  have asr: "page_assert D (group_GetNumPages out = 0) = Inr ()" by (rule page_assert_ok) (simp add: group_GetNumPages_def out(1))
  have lock: "pool_lock ?pool = Inr ()" using optD by (simp add: pool_lock_def)
  have run: "AllocateForProcess D (of_nat n) opt process_id fill_pattern out mm = (if res \<noteq> ResultSuccess then Some (Inr (res, out', mm1))
      else Some (Inr (ResultSuccess, out', mm1\<lparr>mm_fills := mm_fills mm1 @ map (\<lambda>b. (info_GetAddress b - DramBase, node_GetSize b, fill_pattern)) (pg_blocks out')\<rparr>)))"
    unfolding AllocateForProcess_def Let_def asr lock has using a(1) process(2) by auto
  show ?thesis
  proof (cases "res = ResultSuccess")
    case False
    then show ?thesis unfolding run using a(2) by auto
  next
    case True
    then obtain rs where rs: "group_taken rgs cs n mm out' rs mm1" using a(2) by auto
    have "mm_fills mm1 = mm_fills mm" using rs by (simp add: group_taken_def mm_taken_def mm_frame_def)
    moreover have "map (\<lambda>b. (info_GetAddress b - DramBase, node_GetSize b, fill_pattern)) (pg_blocks out') =
        map (\<lambda>(a, k). (page_address a - DramBase, page_address k, fill_pattern)) rs"
      using rs by (auto simp: group_taken_def ranges_ok_def node_GetSize_def range_info_reads(1,2) PageSize_address(2))
    ultimately show ?thesis unfolding run using True rs by auto
  qed
qed

section \<open>References\<close>

text \<open>The references to pages that the clients hold, against the pages that were free at the start.\<close>

definition mm_counts :: "(nat \<times> nat) list \<Rightarrow> nat set \<Rightarrow> KMemoryManager \<Rightarrow> nat multiset \<Rightarrow> bool" where
  "mm_counts rgs F mm held \<longleftrightarrow> mm_ok rgs mm \<and> F \<subseteq> mm_pages rgs \<and> set_mset held \<subseteq> F \<and> mm_free rgs mm = F - set_mset held \<and>
    (\<forall>p \<in> F. mm_ref rgs mm p = of_nat (count held p) \<and> count held p < 65536)"

lemma counts_start: "mm_ok rgs mm \<Longrightarrow> mm_counts rgs (mm_free rgs mm) mm {#}"
  using mm_free_ref [of rgs mm] by (auto simp: mm_counts_def)

lemma counts_refused: "mm_counts rgs F mm held \<Longrightarrow> mm_taken rgs {} mm mm' \<Longrightarrow> mm_counts rgs F mm' held"
  by (auto simp: mm_counts_def mm_taken_def)

lemma count_mset_distinct: "distinct xs \<Longrightarrow> count (mset xs) p = (if p \<in> set xs then 1 else 0)"
  by (simp add: count_mset distinct_count_atmost_1)

lemma counts_taken:
  assumes "mm_counts rgs F mm held" "mm_taken rgs (set ps) mm mm1" "pages_changed rgs (\<lambda>r. 1) (\<lambda>r. False) (set ps) mm1 mm'" "distinct ps"
  shows "mm_counts rgs F mm' (held + mset ps)"
proof -
  note c = assms(1) [unfolded mm_counts_def]
  have new: "set ps \<subseteq> F" "set ps \<inter> set_mset held = {}" using assms(2) c by (auto simp: mm_taken_def)
  have free: "mm_free rgs mm' = F - set_mset (held + mset ps)" using assms(2,3) c by (auto simp: mm_taken_def pages_changed_def)
  have "mm_ref rgs mm' p = of_nat (count (held + mset ps) p) \<and> count (held + mset ps) p < 65536" if "p \<in> F" for p
  proof -
    have pg: "p \<in> mm_pages rgs" using c that by blast
    have "p \<in> set ps \<Longrightarrow> count held p = 0" using new(2) by (auto simp: not_in_iff)
    then show ?thesis using assms(2,3) c pg that count_mset_distinct [OF assms(4), of p] unfolding mm_taken_def pages_changed_def by auto
  qed
  then show ?thesis using assms(3) c free new unfolding mm_counts_def pages_changed_def by auto
qed

lemma group_pages_act:
  assumes "mm_ok rgs mm" "distinct (group_pages pg)"
  shows "im_op.ready rgs mm (set (group_pages pg)) \<Longrightarrow> \<exists>mm'. group_Open D pg mm = Some (Inr mm') \<and> pages_changed rgs (\<lambda>r. r + 1) (\<lambda>r. False) (set (group_pages pg)) mm mm'"
    "im_close.ready rgs mm (set (group_pages pg)) \<Longrightarrow> \<exists>mm'. group_Close D pg mm = Some (Inr mm') \<and> pages_changed rgs (\<lambda>r. r - 1) (\<lambda>r. r = 1) (set (group_pages pg)) mm mm'"
  using im_op.each_block_acts [where rgs = rgs and mm = mm and g = "mm_Open D", OF _ assms(1) group_blocks_read assms(2) [unfolded group_pages_def]]
    im_close.each_block_acts [where rgs = rgs and mm = mm and g = "mm_Close D", OF _ assms(1) group_blocks_read assms(2) [unfolded group_pages_def]]
    im_op.locked_acts im_close.locked_acts
  unfolding group_Open_def group_Close_def mm_Open_def mm_Close_def group_pages_def by blast+

lemma held_pages:
  assumes "mm_counts rgs F mm held" "distinct ps" "mset ps \<subseteq># held"
  shows "set ps \<subseteq> F" "set ps \<subseteq> mm_pages rgs" "p \<in> set ps \<Longrightarrow> p \<notin> mm_free rgs mm \<and> unat (mm_ref rgs mm p) = count held p \<and> 0 < count held p"
proof -
  note c = assms(1) [unfolded mm_counts_def]
  have sub: "set ps \<subseteq> set_mset held" using set_mset_mono [OF assms(3)] by simp
  then show "set ps \<subseteq> F" "set ps \<subseteq> mm_pages rgs" using c by blast+
  have "p \<in> set ps \<Longrightarrow> 0 < count held p" using sub by auto
  moreover have "p \<in> set ps \<Longrightarrow> unat (mm_ref rgs mm p) = count held p"
  proof -
    assume "p \<in> set ps"
    then have "mm_ref rgs mm p = of_nat (count held p)" "count held p < 65536" using c sub by blast+
    then show ?thesis by (simp add: unat_of_nat)
  qed
  ultimately show "p \<in> set ps \<Longrightarrow> p \<notin> mm_free rgs mm \<and> unat (mm_ref rgs mm p) = count held p \<and> 0 < count held p" using c sub by auto
qed

lemma held_ready:
  assumes "mm_counts rgs F mm held" "distinct ps" "mset ps \<subseteq># held"
  shows "im_close.ready rgs mm (set ps)" "\<forall>p \<in> set ps. count held p < 65535 \<Longrightarrow> im_op.ready rgs mm (set ps)"
proof -
  note h = held_pages [OF assms]
  have nz: "mm_ref rgs mm p \<noteq> 0" if "p \<in> set ps" for p using h(3) [OF that] by (metis less_irrefl unat_0)
  then show "im_close.ready rgs mm (set ps)" using h(2,3) by (auto simp: im_close.ready_def)
  have "unat (- 1 :: u16) = 65535" by (simp add: unsigned_minus_1_eq_mask mask_eq_exp_minus_1)
  then have "mm_ref rgs mm p \<noteq> - 1" if "p \<in> set ps" "count held p < 65535" for p using h(3) [OF that(1)] that(2) by auto
  then show "\<forall>p \<in> set ps. count held p < 65535 \<Longrightarrow> im_op.ready rgs mm (set ps)" using h(2,3) nz by (auto simp: im_op.ready_def)
qed

lemma counts_opened:
  assumes "mm_counts rgs F mm held" "distinct ps" "mset ps \<subseteq># held" "\<forall>p \<in> set ps. count held p < 65535"
    and "pages_changed rgs (\<lambda>r. r + 1) (\<lambda>r. False) (set ps) mm mm'"
  shows "mm_counts rgs F mm' (held + mset ps)"
proof -
  note c = assms(1) [unfolded mm_counts_def] and h = held_pages [OF assms(1-3)]
  have sub: "set ps \<subseteq> set_mset held" using set_mset_mono [OF assms(3)] by simp
  have "mm_ref rgs mm' p = of_nat (count (held + mset ps) p) \<and> count (held + mset ps) p < 65536" if "p \<in> F" for p
  proof -
    have "mm_ref rgs mm' p = (if p \<in> set ps then mm_ref rgs mm p + 1 else mm_ref rgs mm p)" using c that assms(5) unfolding pages_changed_def by blast
    moreover have "mm_ref rgs mm p = of_nat (count held p)" "count held p < 65536" using c that by blast+
    ultimately show ?thesis using assms(4) unfolding count_union count_mset_distinct [OF assms(2)] by (cases "p \<in> set ps") auto
  qed
  then show ?thesis using c sub assms(5) unfolding mm_counts_def pages_changed_def by auto
qed

lemma counts_closed:
  assumes "mm_counts rgs F mm held" "distinct ps" "mset ps \<subseteq># held"
    and "pages_changed rgs (\<lambda>r. r - 1) (\<lambda>r. r = 1) (set ps) mm mm'"
  shows "mm_counts rgs F mm' (held - mset ps)" "mm_free rgs mm' = mm_free rgs mm \<union> {p \<in> set ps. count held p = 1}"
proof -
  note c = assms(1) [unfolded mm_counts_def] and h = held_pages [OF assms(1-3)]
  have "(mm_ref rgs mm p = 1) = (count held p = 1)" if "p \<in> set ps" for p
  proof -
    have "mm_ref rgs mm p = 1 \<longleftrightarrow> unat (mm_ref rgs mm p) = 1" by (simp add: word_unat_eq_iff)
    then show ?thesis using h(3) [OF that] by simp
  qed
  then show free: "mm_free rgs mm' = mm_free rgs mm \<union> {p \<in> set ps. count held p = 1}" using assms(4) by (auto simp: pages_changed_def)
  have gone: "p \<in> set_mset (held - mset ps) \<longleftrightarrow> p \<in> set_mset held \<and> \<not> (p \<in> set ps \<and> count held p = 1)" for p
    using h(3) [of p] count_mset_distinct [OF assms(2), of p] by (auto simp flip: count_greater_zero_iff split: if_splits)
  have "mm_ref rgs mm' p = of_nat (count (held - mset ps) p) \<and> count (held - mset ps) p < 65536" if "p \<in> F" for p
  proof -
    have "mm_ref rgs mm' p = (if p \<in> set ps then mm_ref rgs mm p - 1 else mm_ref rgs mm p)" using c that assms(4) unfolding pages_changed_def by blast
    moreover have "mm_ref rgs mm p = of_nat (count held p)" "count held p < 65536" using c that by blast+
    ultimately show ?thesis using h(3) [of p] unfolding count_diff count_mset_distinct [OF assms(2)] by (cases "p \<in> set ps") (auto simp: of_nat_diff)
  qed
  moreover have "mm_free rgs mm' = F - set_mset (held - mset ps)" unfolding free using c gone h(1) by auto
  ultimately show "mm_counts rgs F mm' (held - mset ps)" using c gone assms(4) unfolding mm_counts_def pages_changed_def by auto
qed

section \<open>Runs of the memory manager\<close>

text \<open>From a state in order: page groups and contiguous ranges are allocated, page groups of held pages are opened again, and closed. A refused allocation is a step too.\<close>

inductive mm_runs :: "bool \<Rightarrow> (nat \<times> nat) list \<Rightarrow> nat set \<Rightarrow> KMemoryManager \<Rightarrow> nat multiset \<Rightarrow> bool" for D rgs where
  start: "mm_ok rgs mm \<Longrightarrow> mm_runs D rgs (mm_free rgs mm) mm {#}"
| group: "mm_runs D rgs F mm held \<Longrightarrow> pool_option rgs opt mm cs \<Longrightarrow> 0 < n \<Longrightarrow> n < 2 ^ 64 \<Longrightarrow> pg_blocks out = [] \<Longrightarrow> 0 < objects_per_page (pg_manager out) \<Longrightarrow>
    AllocateAndOpen D (of_nat n) opt out mm = Some (Inr (res, out', mm')) \<Longrightarrow> mm_runs D rgs F mm' (held + mset (group_pages out'))"
| continuous: "mm_runs D rgs F mm held \<Longrightarrow> pool_option rgs opt mm cs \<Longrightarrow> 0 < n \<Longrightarrow> n \<le> page_limit \<Longrightarrow> s \<le> 51 \<Longrightarrow> GetAlignedBlockIndex (of_nat n) (2 ^ s) = int i \<Longrightarrow>
    AllocateAndOpenContinuous D (of_nat n) (2 ^ s) opt mm = Some (Inr (addr, mm')) \<Longrightarrow>
    mm_runs D rgs F mm' (if addr = 0 then held else held + mset [unat addr div 4096..<unat addr div 4096 + n])"
| opened: "mm_runs D rgs F mm held \<Longrightarrow> distinct (group_pages pg) \<Longrightarrow> mset (group_pages pg) \<subseteq># held \<Longrightarrow> \<forall>p \<in> set (group_pages pg). count held p < 65535 \<Longrightarrow>
    group_Open D pg mm = Some (Inr mm') \<Longrightarrow> mm_runs D rgs F mm' (held + mset (group_pages pg))"
| closed: "mm_runs D rgs F mm held \<Longrightarrow> distinct (group_pages pg) \<Longrightarrow> mset (group_pages pg) \<subseteq># held \<Longrightarrow>
    group_Close D pg mm = Some (Inr mm') \<Longrightarrow> mm_runs D rgs F mm' (held - mset (group_pages pg))"

lemma mm_runs_counts: "mm_runs D rgs F mm held \<Longrightarrow> mm_counts rgs F mm held"
proof (induction rule: mm_runs.induct)
  case (start mm)
  then show ?case by (rule counts_start)
next
  case (group F mm held opt cs n out res out' mm')
  have ok: "mm_ok rgs mm" using group.IH by (simp add: mm_counts_def)
  note act = AllocateAndOpen_acts [OF ok group.hyps(2-6), of D, unfolded group.hyps(7)]
  show ?case
  proof (cases "res = ResultSuccess")
    case True
    then obtain rs mm1 where rs: "group_taken rgs cs n mm out' rs mm1" "pages_changed rgs (\<lambda>r. 1) (\<lambda>r. False) (set (live_pages rs)) mm1 mm'" using act by auto
    then have "group_pages out' = live_pages rs" using group_pages_ranges by (simp add: group_taken_def)
    then show ?thesis using counts_taken [OF group.IH _ rs(2)] rs(1) by (simp add: group_taken_def)
  next
    case False
    then have "mm_taken rgs {} mm mm'" "group_pages out' = []" using act by (auto simp: group_refused_def group_pages_def)
    then show ?thesis using counts_refused [OF group.IH] by simp
  qed
next
  case (continuous F mm held opt cs n s i addr mm')
  have ok: "mm_ok rgs mm" using continuous.IH by (simp add: mm_counts_def)
  have opt: "option_GetPool opt < PoolCount" "pool_list (option_GetPool opt) (option_GetDirection opt) mm cs" "set cs \<subseteq> {..<length rgs}"
    using continuous.hyps(2) by (simp_all add: pool_option_def pool_regions_def)
  note act = AllocateAndOpenContinuous_acts [OF continuous.hyps(3-6) ok opt, of D, unfolded continuous.hyps(7)]
  show ?case
  proof (cases "\<exists>c \<in> set cs. has_block i mm c")
    case True
    then obtain p mm1 where p: "addr = page_address p" "addr \<noteq> 0" "mm_taken rgs {p..<p + n} mm mm1" "pages_changed rgs (\<lambda>r. 1) (\<lambda>r. False) {p..<p + n} mm1 mm'"
      using act by auto
    have "p \<in> mm_free rgs mm" using p(3) continuous.hyps(3) by (auto simp: mm_taken_def)
    then obtain j where j: "j < length rgs" "p \<in> region_of rgs j" using mm_free_ref(2) [OF ok] by (auto simp: mm_pages_def)
    then have "p \<le> page_limit" using mm_pages_limit [OF ok j(1)] by (simp add: region_of_def)
    then have "unat addr div 4096 = p" using p(1) by (simp add: unat_page_address)
    then show ?thesis using counts_taken [OF continuous.IH, of "[p..<p + n]" mm1 mm'] p(2-4) by simp
  next
    case False
    then show ?thesis using act counts_refused [OF continuous.IH] by auto
  qed
next
  case (opened F mm held pg mm')
  have ok: "mm_ok rgs mm" using opened.IH by (simp add: mm_counts_def)
  have "pages_changed rgs (\<lambda>r. r + 1) (\<lambda>r. False) (set (group_pages pg)) mm mm'"
    using group_pages_act(1) [OF ok opened.hyps(2) held_ready(2) [OF opened.IH opened.hyps(2-4)], of D] opened.hyps(5) by auto
  then show ?case by (rule counts_opened [OF opened.IH opened.hyps(2-4)])
next
  case (closed F mm held pg mm')
  have ok: "mm_ok rgs mm" using closed.IH by (simp add: mm_counts_def)
  have "pages_changed rgs (\<lambda>r. r - 1) (\<lambda>r. r = 1) (set (group_pages pg)) mm mm'"
    using group_pages_act(2) [OF ok closed.hyps(2) held_ready(1) [OF closed.IH closed.hyps(2,3)], of D] closed.hyps(4) by auto
  then show ?case by (rule counts_closed(1) [OF closed.IH closed.hyps(2,3)])
qed

text \<open>A scope over a group of held pages that is entered and left keeps all counts; when the closing is cancelled the references stay.\<close>

lemma scoped_group_restores:
  assumes "mm_counts rgs F mm held" "distinct (group_pages pg)" "mset (group_pages pg) \<subseteq># held" "\<forall>p \<in> set (group_pages pg). count held p < 65535"
  shows "\<exists>mm1 mm2. scoped_enter D (Some pg) True mm = Some (Inr (Some pg, mm1)) \<and> scoped_leave D (Some pg) mm1 = Some (Inr mm2) \<and> mm_counts rgs F mm2 held \<and>
    scoped_leave D (CancelClose (Some pg)) mm1 = Some (Inr mm1) \<and> mm_counts rgs F mm1 (held + mset (group_pages pg))"
proof -
  have ok: "mm_ok rgs mm" using assms(1) by (simp add: mm_counts_def)
  obtain mm1 where o1: "group_Open D pg mm = Some (Inr mm1)" "pages_changed rgs (\<lambda>r. r + 1) (\<lambda>r. False) (set (group_pages pg)) mm mm1"
    using group_pages_act(1) [OF ok assms(2) held_ready(2) [OF assms], of D] by blast
  note c1 = counts_opened [OF assms o1(2)]
  have ok1: "mm_ok rgs mm1" using c1 by (simp add: mm_counts_def)
  have sub: "mset (group_pages pg) \<subseteq># held + mset (group_pages pg)" by simp
  obtain mm2 where o2: "group_Close D pg mm1 = Some (Inr mm2)" "pages_changed rgs (\<lambda>r. r - 1) (\<lambda>r. r = 1) (set (group_pages pg)) mm1 mm2"
    using group_pages_act(2) [OF ok1 assms(2) held_ready(1) [OF c1 assms(2) sub], of D] by blast
  have "mm_counts rgs F mm2 held" using counts_closed(1) [OF c1 assms(2) sub o2(2)] by simp
  then show ?thesis using o1(1) o2(1) c1 by (simp add: scoped_enter_def scoped_leave_def CancelClose_def)
qed

section \<open>A pool of one region\<close>

text \<open>Sixteen pages in one manager of the first pool.\<close>

definition tiny_impl :: "KPageHeap \<Rightarrow> Impl" where
  "tiny_impl hp = \<lparr>im_heap = hp, m_page_reference_counts = replicate 16 0, m_management_region = 0, m_pool = 0, im_next = None, im_prev = None, optimize_map = [0]\<rparr>"

definition tiny_tree :: "KMemoryRegion list" where
  "tiny_tree = [\<lparr>rg_address = 0x10000, rg_last_address = 0x1FFFF, rg_pair_address = 0, rg_attributes = 0, rg_type_id = DramApplicationPool\<rparr>]"

definition tiny_manager :: "KPageHeap \<Rightarrow> KMemoryManager" where
  "tiny_manager hp = \<lparr>mm_physical_tree = tiny_tree, mm_linear_tree = tiny_tree, m_pool_managers_head = Some 0 # replicate 9 None,
    m_pool_managers_tail = Some 0 # replicate 9 None, m_managers = replicate MaxManagerCount (tiny_impl hp), m_num_managers = 1, m_optimized_process_ids = replicate 4 0,
    m_has_optimized_process = replicate 4 False, mm_fills = []\<rparr>"

definition tiny_group :: KPageGroup where
  "tiny_group = \<lparr>pg_blocks = [], pg_manager = \<lparr>free_objects = 16, free_pages = 0, objects_per_page = 64, m_used = 0, m_peak = 0, m_count = 16\<rparr>\<rparr>"

lemma tiny_start: "\<exists>hp. mm_ok [(16, 32)] (tiny_manager hp) \<and> mm_free [(16, 32)] (tiny_manager hp) = {16..<32} \<and> card (pool_free [0] (tiny_manager hp)) = 16"
proof -
  obtain hp where hp: "heap_runs True 16 32 hp []" "heap_free hp = {16..<32}" using heap_16 by blast
  have ok: "heap_ok 16 32 (heap_regions 16 32) hp" using heap_runs_split [OF hp(1) heap_16_bounds] by (simp add: heap_split_def)
  have "tree_Find (page_address p) tiny_tree \<noteq> None" if "p \<in> {16..<32}" for p
  proof -
    have "p \<le> page_limit" using that by (simp add: page_limit_def)
    then show ?thesis using that by (simp add: tree_Find_def tiny_tree_def word_le_nat_alt unat_page_address)
  qed
  moreover have "unat (rg_attributes r) = 0" if "tree_Find x tiny_tree = Some r" for x r
    using that by (auto simp: tree_Find_def tiny_tree_def split: if_splits)
  ultimately have "layout_ok [(16, 32)] tiny_tree" by (fastforce simp: layout_ok_def region_of_def)
  moreover have "impl_ok 16 32 (tiny_impl hp)" using ok hp(2) by (auto simp: impl_ok_def tiny_impl_def page_ref_def PoolCount_def)
  ultimately have "mm_ok [(16, 32)] (tiny_manager hp)" by (simp add: mm_ok_def tiny_manager_def PoolCount_def MaxManagerCount_def)
  then show ?thesis using hp(2) by (intro exI [of _ hp]) (simp add: mm_free_def pool_free_def tiny_manager_def tiny_impl_def MaxManagerCount_def lessThan_Suc)
qed

lemma tiny_option: "pool_option [(16, 32)] 0 (tiny_manager hp) [0]"
  by (simp add: pool_option_def option_GetPool_def option_GetDirection_def PoolCount_def pool_regions_def region_of_def pool_list_def GetFirstManager_def
      tiny_manager_def tiny_impl_def MaxManagerCount_def im_link_def)

lemma tiny_allocated:
  "\<exists>hp out mm. mm_runs True [(16, 32)] {16..<32} (tiny_manager hp) {#} \<and>
    AllocateAndOpen True (of_nat 5) 0 tiny_group (tiny_manager hp) = Some (Inr (ResultSuccess, out, mm)) \<and> length (group_pages out) = 5"
proof -
  obtain hp where hp: "mm_ok [(16, 32)] (tiny_manager hp)" "mm_free [(16, 32)] (tiny_manager hp) = {16..<32}" "card (pool_free [0] (tiny_manager hp)) = 16"
    using tiny_start by blast
  have g: "pg_blocks tiny_group = []" "0 < objects_per_page (pg_manager tiny_group)" "slab_capacity (pg_manager tiny_group) = 16"
    by (simp_all add: tiny_group_def slab_capacity_def)
  obtain res out mm where a: "AllocateAndOpen True (of_nat 5) 0 tiny_group (tiny_manager hp) = Some (Inr (res, out, mm))"
    "if res = ResultSuccess then \<exists>rs mm1. group_taken [(16, 32)] [0] 5 (tiny_manager hp) out rs mm1 \<and> pages_changed [(16, 32)] (\<lambda>r. 1) (\<lambda>r. False) (set (live_pages rs)) mm1 mm
     else group_refused [(16, 32)] [0] 5 16 (tiny_manager hp) res out mm"
    using AllocateAndOpen_acts [OF hp(1) tiny_option _ _ g(1,2), of 5 True] unfolding g(3) by auto
  have res: "res = ResultSuccess" using a(2) hp(3) by (auto simp: group_refused_def split: if_splits)
  then obtain rs mm1 where "group_taken [(16, 32)] [0] 5 (tiny_manager hp) out rs mm1" using a(2) by auto
  then have "length (group_pages out) = 5" using group_pages_ranges by (auto simp: group_taken_def)
  then show ?thesis using a(1) res mm_runs.start [OF hp(1)] hp(2) by auto
qed

section \<open>Properties\<close>

text \<open>
  C14. In every run of the memory manager, over any sequence of allocations of page groups and of contiguous pages, opens and closes, the reference count of
  every page is the number of references the clients hold to it, the free pages are exactly those without one, and a page group of held pages
  can be closed: the call returns without a fault and frees exactly the pages whose last reference it gave back. A run starts from managers in order, with the pages
  free then as its pages; the pools it allocates from have no region that begins where another one ends.
\<close>

theorem memory_manager_accounts:
  assumes "mm_runs D rgs F mm held"
  shows "mm_free rgs mm = F - set_mset held \<and> (\<forall>p \<in> F. unat (mm_ref rgs mm p) = count held p) \<and>
    (\<forall>pg. distinct (group_pages pg) \<and> mset (group_pages pg) \<subseteq># held \<longrightarrow>
      (\<exists>mm'. group_Close D pg mm = Some (Inr mm') \<and> mm_free rgs mm' = mm_free rgs mm \<union> {p \<in> set (group_pages pg). count held p = 1}))"
proof (intro conjI allI impI)
  note c = mm_runs_counts [OF assms]
  have ok: "mm_ok rgs mm" using c by (simp add: mm_counts_def)
  show "mm_free rgs mm = F - set_mset held" using c by (simp add: mm_counts_def)
  show "\<forall>p \<in> F. unat (mm_ref rgs mm p) = count held p" using c by (simp add: mm_counts_def unat_of_nat)
  fix pg
  assume "distinct (group_pages pg) \<and> mset (group_pages pg) \<subseteq># held"
  then have pg: "distinct (group_pages pg)" "mset (group_pages pg) \<subseteq># held" by blast+
  show "\<exists>mm'. group_Close D pg mm = Some (Inr mm') \<and> mm_free rgs mm' = mm_free rgs mm \<union> {p \<in> set (group_pages pg). count held p = 1}"
    using group_pages_act(2) [OF ok pg(1) held_ready(1) [OF c pg], of D] counts_closed(2) [OF c pg] by blast
qed

text \<open>
  C18. With enough nodes for the page group, an allocation of pages succeeds exactly when the pool has as many free pages. Then the group is of that many distinct pages that were free
  in the pool, each has one reference, and no other page changes; otherwise the result is out-of-memory, the group is empty
  and every page taken on the way is free again. The request is for at least one page into an empty group, from a pool no region of which begins where another one
  ends (where one does, a refused allocation can lose pages).
\<close>

theorem AllocateAndOpen_succeeds:
  assumes "mm_runs D rgs F mm held" and "pool_option rgs opt mm cs" and "0 < n" and "n < 2 ^ 64" and "pg_blocks out = []"
    and "0 < objects_per_page (pg_manager out)" and "n \<le> slab_capacity (pg_manager out)"
  shows "\<exists>res out' mm'. AllocateAndOpen D (of_nat n) opt out mm = Some (Inr (res, out', mm')) \<and>
    (if n \<le> card (pool_free cs mm)
     then res = ResultSuccess \<and> distinct (group_pages out') \<and> length (group_pages out') = n \<and> set (group_pages out') \<subseteq> pool_free cs mm
     else res = ResultOutOfMemory \<and> group_pages out' = []) \<and>
    mm_free rgs mm' = mm_free rgs mm - set (group_pages out') \<and>
    (\<forall>p \<in> mm_pages rgs. mm_ref rgs mm' p = (if p \<in> set (group_pages out') then 1 else mm_ref rgs mm p))"
proof -
  have ok: "mm_ok rgs mm" using mm_runs_counts [OF assms(1)] by (simp add: mm_counts_def)
  have fin: "finite (pool_free cs mm)" using pool_free_finite [OF ok] assms(2) by (simp add: pool_option_def)
  obtain res out' mm' where a: "AllocateAndOpen D (of_nat n) opt out mm = Some (Inr (res, out', mm'))"
    "if res = ResultSuccess then \<exists>rs mm1. group_taken rgs cs n mm out' rs mm1 \<and> pages_changed rgs (\<lambda>r. 1) (\<lambda>r. False) (set (live_pages rs)) mm1 mm'
     else group_refused rgs cs n (slab_capacity (pg_manager out)) mm res out' mm'"
    using AllocateAndOpen_acts [OF ok assms(2-6), of D] by blast
  show ?thesis
  proof (cases "res = ResultSuccess")
    case True
    then obtain rs mm1 where rs: "group_taken rgs cs n mm out' rs mm1" "pages_changed rgs (\<lambda>r. 1) (\<lambda>r. False) (set (live_pages rs)) mm1 mm'" using a(2) by auto
    note rsD = rs(1) [unfolded group_taken_def]
    have pages: "group_pages out' = live_pages rs" using group_pages_ranges rsD by blast
    have "n \<le> card (pool_free cs mm)" using card_mono [OF fin, of "set (live_pages rs)"] distinct_card [of "live_pages rs"] rsD by simp
    moreover note taken_opened [OF _ rs(2), of mm]
    ultimately show ?thesis using a(1) True rsD by (intro exI [of _ res] exI [of _ out'] exI [of _ mm']) (simp add: pages)
  next
    case False
    then have r: "group_refused rgs cs n (slab_capacity (pg_manager out)) mm res out' mm'" using a(2) by simp
    then have "\<not> n \<le> card (pool_free cs mm)" "res = ResultOutOfMemory" "group_pages out' = []" using assms(7) by (auto simp: group_refused_def group_pages_def)
    then show ?thesis using a(1) r by (intro exI [of _ res] exI [of _ out'] exI [of _ mm']) (simp add: group_refused_def mm_taken_def)
  qed
qed

theorem AllocateAndOpen_succeeds_witness:
  "\<exists>hp out' mm'. AllocateAndOpen True 5 0 tiny_group (tiny_manager hp) = Some (Inr (ResultSuccess, out', mm')) \<and> length (group_pages out') = 5"
proof -
  obtain hp where hp: "mm_ok [(16, 32)] (tiny_manager hp)" "card (pool_free [0] (tiny_manager hp)) = 16" using tiny_start by blast
  show ?thesis using AllocateAndOpen_succeeds [OF mm_runs.start [OF hp(1)] tiny_option, of 5 tiny_group True] hp(2)
    by (auto simp: tiny_group_def slab_capacity_def)
qed

theorem memory_manager_accounts_witness:
  "\<exists>mm held. mm_runs True [(16, 32)] {16..<32} mm held \<and> size held = 5 \<and> mm_free [(16, 32)] mm = {16..<32} - set_mset held"
proof -
  obtain hp out mm where a: "mm_runs True [(16, 32)] {16..<32} (tiny_manager hp) {#}"
    "AllocateAndOpen True (of_nat 5) 0 tiny_group (tiny_manager hp) = Some (Inr (ResultSuccess, out, mm))" "length (group_pages out) = 5" using tiny_allocated by blast
  have run: "mm_runs True [(16, 32)] {16..<32} mm ({#} + mset (group_pages out))"
    by (rule mm_runs.group [OF a(1) tiny_option _ _ _ _ a(2)]) (simp_all add: tiny_group_def)
  then show ?thesis using memory_manager_accounts [OF run] a(3) by (intro exI [of _ mm] exI [of _ "{#} + mset (group_pages out)"]) simp
qed

text \<open>
  C38. Closing and resetting a page group that an allocation gave undoes the allocation: the call returns without a fault, the group is empty, the free pages are those from before
  and every count is what it was. The allocation is of at least one page into an empty group, from a pool no region of which begins where another one ends.
\<close>

theorem group_round_trip:
  assumes "mm_runs D rgs F mm held" and "pool_option rgs opt mm cs" and "0 < n" and "n < 2 ^ 64" and "pg_blocks out = []"
    and "0 < objects_per_page (pg_manager out)" and "AllocateAndOpen D (of_nat n) opt out mm = Some (Inr (ResultSuccess, out1, mm1))"
  shows "\<exists>out2 mm2. CloseAndReset D out1 mm1 = Some (Inr (out2, mm2)) \<and> group_pages out2 = [] \<and> mm_free rgs mm2 = mm_free rgs mm \<and>
    (\<forall>p \<in> mm_pages rgs. mm_ref rgs mm2 p = mm_ref rgs mm p)"
proof -
  have ok: "mm_ok rgs mm" using mm_runs_counts [OF assms(1)] by (simp add: mm_counts_def)
  obtain rs mm0 where rs: "group_taken rgs cs n mm out1 rs mm0" "pages_changed rgs (\<lambda>r. 1) (\<lambda>r. False) (set (live_pages rs)) mm0 mm1"
    using AllocateAndOpen_acts [OF ok assms(2-6), of D, unfolded assms(7)] by auto
  note rsD = rs(1) [unfolded group_taken_def]
  let ?S = "set (live_pages rs)"
  have taken: "mm_taken rgs ?S mm mm0" using rsD by blast
  note opened = taken_opened [OF taken rs(2)]
  have pages: "group_pages out1 = live_pages rs" "distinct (group_pages out1)" using group_pages_ranges rsD by auto
  have free: "p \<in> mm_pages rgs" "mm_ref rgs mm p = 0" "p \<in> mm_free rgs mm" if "p \<in> ?S" for p using mm_free_ref [OF ok, of p] taken that by (auto simp: mm_taken_def)
  have "im_close.ready rgs mm1 (set (group_pages out1))" using opened(1,2) free(1) unfolding pages(1) by (auto simp: im_close.ready_def)
  then obtain mm2 where c: "group_Close D out1 mm1 = Some (Inr mm2)" "pages_changed rgs (\<lambda>r. r - 1) (\<lambda>r. r = 1) ?S mm1 mm2"
    using group_pages_act(2) [OF opened(3) pages(2), of D] unfolding pages(1) by blast
  have "mm_ref rgs mm2 p = mm_ref rgs mm p" if "p \<in> mm_pages rgs" for p
    using c(2) opened(2) free(2) [of p] that unfolding pages_changed_def by auto
  moreover have "{p \<in> ?S. mm_ref rgs mm1 p = 1} = ?S" using opened(2) free(1) by auto
  then have "mm_free rgs mm2 = mm_free rgs mm" using c(2) opened(1) free(3) unfolding pages_changed_def by auto
  moreover have "CloseAndReset D out1 mm1 = Some (Inr (group_Finalize out1, mm2))" using c(1) by (simp add: CloseAndReset_def group_Close_def)
  ultimately show ?thesis by (intro exI [of _ "group_Finalize out1"] exI [of _ mm2]) (simp add: group_Finalize_def group_pages_def)
qed

theorem group_round_trip_witness:
  "\<exists>hp out1 mm1 out2 mm2. AllocateAndOpen True 5 0 tiny_group (tiny_manager hp) = Some (Inr (ResultSuccess, out1, mm1)) \<and>
    CloseAndReset True out1 mm1 = Some (Inr (out2, mm2)) \<and> mm_free [(16, 32)] mm2 = mm_free [(16, 32)] (tiny_manager hp)"
proof -
  obtain hp out mm where a: "mm_runs True [(16, 32)] {16..<32} (tiny_manager hp) {#}"
    "AllocateAndOpen True (of_nat 5) 0 tiny_group (tiny_manager hp) = Some (Inr (ResultSuccess, out, mm))" using tiny_allocated by blast
  obtain out2 mm2 where "CloseAndReset True out mm = Some (Inr (out2, mm2))" "mm_free [(16, 32)] mm2 = mm_free [(16, 32)] (tiny_manager hp)"
    using group_round_trip [OF a(1) tiny_option _ _ _ _ a(2)] by (auto simp: tiny_group_def)
  then show ?thesis using a(2) by (intro exI [of _ hp] exI [of _ out] exI [of _ mm] exI [of _ out2] exI [of _ mm2]) simp
qed

end
