(* ===== verification/Spec2Isabelle.thy ===== *)
theory Spec2Isabelle
  imports Cheat_Confinement Cheat_Loops Svc_Resource Buffer_Restore Block_Areas Block_Search Manager_Behaviour
begin

text \<open>
  A verification library for Lemon, a console emulator (a fork of yuzu and Eden). The program is
  large; this library models the parts of its core that keep state, can be read on their own and
  carry invariants that other parts rely on. All source paths below are relative to \<^verbatim>\<open>src/src/\<close>.

  \<^bold>\<open>The parts and how they interact.\<close>
  The cheat engine (\<^verbatim>\<open>core/memory/cheat_engine.cpp\<close>) parses a cheat file, loads it into a virtual machine
  (\<^verbatim>\<open>core/memory/dmnt_cheat_vm.cpp\<close>) and runs that machine once per frame; the machine reaches the game
  only through callbacks, which check the address and then read or write guest memory
  (\<^verbatim>\<open>core/memory.cpp\<close>) through the guest page table (\<^verbatim>\<open>common/page_table.h\<close>). In the emulated kernel, objects
  are reference counted and typed by class tokens (\<^verbatim>\<open>core/hle/kernel/k_auto_object.h\<close>, \<^verbatim>\<open>k_class_token.h\<close>); a
  process names them through its handle table (\<^verbatim>\<open>k_handle_table.h\<close>, \<^verbatim>\<open>.cpp\<close>); resource limits
  (\<^verbatim>\<open>k_resource_limit.cpp\<close>) are such objects, and supervisor calls (\<^verbatim>\<open>svc/svc_resource_limit.cpp\<close>,
  \<^verbatim>\<open>svc/svc_synchronization.cpp\<close>) act on them through handles. The display side
  (\<^verbatim>\<open>core/hle/service/nvnflinger/\<close>) passes frames from the game to the screen through a buffer queue. The kernel describes
  an address space as a partition into memory blocks (\<^verbatim>\<open>k_memory_block.h\<close>, \<^verbatim>\<open>k_memory_block_manager.cpp\<close>); the memory
  search of the cheat tools lists these blocks to know what to scan. The physical pages behind them come from the page heap (\<^verbatim>\<open>k_page_heap.cpp\<close>), which
  keeps its free blocks in bitmaps (\<^verbatim>\<open>k_page_bitmap.h\<close>) and picks among them with the random generator of \<^verbatim>\<open>common/tiny_mt.h\<close>. The memory manager
  (\<^verbatim>\<open>k_memory_manager.cpp\<close>) has such a heap for each region of a pool, counts the references to every page, and gives pages out as page groups (\<^verbatim>\<open>k_page_group.cpp\<close>).

  \<^bold>\<open>Conventions.\<close>
  \<open>Lemon_Prelude\<close> has the result type of code that may fault (\<open>'f + 'a\<close>, with \<open>bindF\<close> for the next
  statement), array access with the bounds written out, and the lemmas and named collections on both. A
  fault is what C++ leaves undefined or aborts on: an index out of range, a failed assertion, a use of a
  dead object. Assertions are checked only when debug assertions are on, so the definitions that have
  them take that setting. Machine integers are words of their width; times and signed 32- and 64-bit values
  that cannot overflow where they are used are \<open>int\<close>, and where they can, the code's own
  wrap-around is written out. A mutex makes a critical section one step; a wait inside it
  splits it, and what other threads do meanwhile is an argument. Locks and logging have no other effect.

  \<^bold>\<open>The cheat virtual machine.\<close>
  \<open>Cheat_Types\<close> has the machine's state (\<open>DmntCheatVm\<close>), the opcodes as a datatype with one constructor per struct of
  \<^verbatim>\<open>dmnt_cheat_types.h\<close>, and the callback interface; \<open>Cheat_Decode\<close> is \<^verbatim>\<open>DecodeNextOpcode\<close>, one definition per
  opcode; \<open>Cheat_Log\<close> is \<^verbatim>\<open>LogOpcode\<close>; \<open>Cheat_Vm\<close> is \<^verbatim>\<open>SkipConditionalBlock\<close>, \<^verbatim>\<open>LoadProgram\<close> and \<^verbatim>\<open>Execute\<close>, again one
  definition per opcode. The loop of \<^verbatim>\<open>Execute\<close> may run forever (the program can jump back), so \<open>execute_loop\<close> is
  a partial function with \<open>None\<close> for not returning. \<open>Cheat_Safety\<close> shows that no access to the machine's arrays is
  out of range, and has the locale \<open>vm_environment\<close> of callbacks that keep a relation on what is behind them.
  C1 is that safety over whole runs, the fetches from the program included, C2 that a program without loop ends comes to an end and what can keep it from a normal return, C3 that an unmet condition skips
  exactly its branch, C4 that a list is loaded exactly when it fits, C5 arithmetic at every width
  (all in \<open>Cheat_Behaviour\<close>, over \<open>Cheat_Blocks\<close> and \<open>Cheat_Loading\<close>), with the round trip of saved registers; C8, in \<open>Cheat_Loops\<close>,
  is the number of rounds of a counted loop.

  \<^bold>\<open>Guest memory.\<close>
  \<open>Page_Table\<close> is the packed page entry and the table; \<open>Guest_Memory\<close> is the walk over blocks and the
  operations built from it, with the callbacks of the walk as a record; \<open>Guest_Memory_Laws\<close> has the locale
  \<open>block_walk\<close> of walks whose callbacks have an effect per byte, its interpretations on the callbacks that read,
  write and copy, and that reads see writes and nothing else changes (C10 and C11), among them that \<^verbatim>\<open>CopyBlock\<close> copies
  the destination onto itself.

  \<^bold>\<open>The cheat engine.\<close>
  \<open>Cheat_Parser\<close> is the text parser (parsed entries are well formed; C15, a printed file parses back; C16, a name
  that is not closed makes the search for its end read past the text); \<open>Cheat_Engine\<close> the callbacks and the engine over a world of processes;
  \<open>Cheat_Confinement\<close> interprets \<open>vm_environment\<close> on those callbacks: a running cheat changes only mapped bytes
  inside the regions it was given (C17), and the machine runs what the file says.

  \<^bold>\<open>The memory search.\<close>
  \<open>Memory_Search\<close> models the scanner of the cheat tools (\<^verbatim>\<open>core/memory_search.cpp\<close>, \<^verbatim>\<open>core/memory_region_scan.cpp\<close>):
  exact and blind searches, refinement and frozen values, over the unchecked block access of the guest memory.
  Floats are their 32 bits, with comparisons and the one rounded subtraction on exact integers.
  \<open>Memory_Search_Laws\<close> interprets \<open>block_walk\<close> on the unchecked callbacks and computes what the loops find;
  \<open>Memory_Search_Behaviour\<close> has what an exact search finds on any list of regions, C7 (blind search), what a refinement keeps,
  and C30 (the freeze table is a map, and a round of its thread puts the values in memory); C24, in \<open>Block_Search\<close>, is that an exact search for an
  integer lists all its occurrences in the heap of a process, in ascending order. What the search takes for equal floats is not what its comments say, and
  no property rests on it.

  \<^bold>\<open>Kernel objects, handles, resource limits.\<close>
  \<open>Kernel_Objects\<close> models class tokens, reference counts and scoped references; \<open>Handle_Table\<close> the table with
  its free list and serial numbers; \<open>Handle_Laws\<close> the invariant and what each operation does to lookups;
  \<open>Handle_Behaviour\<close> the locale \<open>handle_map\<close> that the table implements, and C19 to C23. \<open>Resource_Limit\<close> models
  reservations that wait, with the wait as an argument; \<open>Resource_Laws\<close> the steps of the threads that share a
  limit and its account (C26 to C28). \<open>Svc_Resource\<close> puts both together in the supervisor calls (C31); C32, in \<open>Handle_Behaviour\<close>, is that lookups respect the class hierarchy.

  \<^bold>\<open>Memory blocks.\<close>
  \<open>Memory_Block\<close> models a block, its locks and its updates; \<open>Block_Manager\<close> the block tree, the slab heap its nodes come
  from, the two-node update allocator, the updates and the queries of \<^verbatim>\<open>k_page_table_base.cpp\<close> built on it. The tree is the list of its
  nodes in order and an iterator an index of it; the loops over a range may not end on a malformed tree, so
  they are partial functions, and the theorems show that they return. \<open>Block_Laws\<close> has the invariant, the
  partition of an address space; \<open>Block_Update\<close> the locale \<open>range_change\<close> of changes that a range loop applies block by block;
  \<open>Block_Pages\<close> reads a tree page by page and interprets the locale on every update, lock and unlock. \<open>Block_Behaviour\<close> has C6 (an
  update sets the pages of its range and no other), C9 (the update that steps back from the first block)
  and C25 (an IPC lock is undone by its unlock); \<open>Block_History\<close> C29 (the audit of the manager holds after every history);
  \<open>Block_Areas\<close> C39 (the search for a free area returns the lowest one); \<open>Block_Scan\<close> C40 (the memory search lists the blocks), which \<open>Block_Search\<close> puts together with the search.

  \<^bold>\<open>The buffer queue.\<close>
  \<open>Buffer_Queue\<close> models the core (\<^verbatim>\<open>buffer_queue_core.cpp\<close>): slots, items, counts, history, and the slots and fences
  over a Quick Save and a Quick Load. \<open>Buffer_Producer\<close> and \<open>Buffer_Consumer\<close> have one definition per operation of
  \<^verbatim>\<open>buffer_queue_producer.cpp\<close>, \<^verbatim>\<open>buffer_queue_consumer.cpp\<close>, \<^verbatim>\<open>consumer_base.cpp\<close> and \<^verbatim>\<open>buffer_item_consumer.cpp\<close>.
  \<open>Buffer_Invariants\<close> has the invariant and that each operation keeps it; \<open>Buffer_Steps\<close> the step relation and what
  the scans for a slot compute; \<open>Buffer_Total\<close> that operations return; \<open>Buffer_Behaviour\<close> the locales \<open>fifo_system\<close> and
  \<open>numbered_fifo\<close>, their interpretation on the queue, and C33, C34 and C36; \<open>Buffer_Restore\<close> the round trips of a buffer and over a restore.

  \<^bold>\<open>The page heap.\<close>
  \<open>Tiny_Mt\<close> is the random generator, whose state never becomes the dead one; \<open>Page_Bitmap\<close> the bitmap of up to four levels and the
  generator of random bits; \<open>Page_Heap\<close> the blocks of the seven sizes, the heap and its searches. The management data is one list of words and a bitmap
  level a position in it, so that the levels and sizes share it as they do in the code. \<open>Bitmap_Laws\<close> reads a bitmap as the set of its
  lowest bits, with the upper levels as summaries; \<open>Buddy_Blocks\<close> is the abstract view, sets of disjoint blocks with no complete group, in the locale
  \<open>block_sizes\<close> of increasing sizes; \<open>Heap_Laws\<close> interprets it on the size table and shows that \<^verbatim>\<open>Free\<close> returns and adds exactly its pages;
  \<open>Heap_Allocation\<close> the same for both searches; \<open>Heap_Start\<close> the initialisation. \<open>Heap_Behaviour\<close> has the runs of the heap: C12 (the
  management data suffices and the heap starts empty), C13 (no page is given out twice and none is lost), C35 (aligned allocation) and C37 (freeing undoes
  an allocation, block by block).

  \<^bold>\<open>The memory manager.\<close>
  \<open>Page_Group\<close> is the list of blocks of a page group, whose nodes come from a slab heap; \<open>Memory_Manager\<close> the manager of one region (\<open>Impl\<close>), the managers
  of all regions with their pool lists, and every operation on them, allocation, counting, optimized memory and initialisation. A pointer to a manager is its index. \<open>Manager_Laws\<close>
  has the invariant and the locale \<open>ref_operation\<close> of operations that change the counts of a range page by page, which it extends from one manager to ranges over
  several and to page groups; opening, opening first and closing interpret it. \<open>Manager_Allocation\<close> follows the chain of a pool's managers and has the contiguous
  allocation; \<open>Group_Allocation\<close> the allocation of page groups, size by size, and that what it gives up on it gives back. \<open>Manager_Behaviour\<close> has the runs of the
  manager: C14 (the count of a page is the number of references held, and the free pages are those without one), C18 (an allocation succeeds exactly when the
  pool has the pages) and C38 (closing an allocated group restores everything).

  \<^bold>\<open>Bounds and fuel.\<close>
  No definition has fuel of its own. Waits (\<open>reserve_loop\<close>, \<open>wait_for_slot\<close>) recurse on the list of what the
  other threads do and say so when it ends first; \<open>wait_for_slot\<close> also counts the pending signal in its measure,
  since a signal that is already there ends the wait at once. The range loops of the memory blocks, of \<^verbatim>\<open>KPageHeap::Free\<close> and of the memory manager are
  partial functions without a bound, and are shown to return. The page heap's theorems are for regions of at most 2 to the 23 pages, 32 GiB, which
  four levels of bitmap hold; the emulated console has at most 8 GiB. Loops over arrays recurse on the number of
  entries left, which is the bound the code has.

  \<^bold>\<open>Not modelled.\<close>
  Of the modelled parts: host page protection and cache maintenance in the guest memory, exclusive
  writes, the balancing of the block tree, unlocks that fail an assertion, the parcel decoding in front of the buffer queue, the kernel event it signals, the wait for \<^verbatim>\<open>is_allocating\<close>,
  which nothing sets, and the floats of the random generator. \<^verbatim>\<open>FindFreeRange\<close> and clearing a range of 64 pages or more are definitions without a law: no call in the heap
  reaches them. The laws of the memory manager start from managers in order: that \<^verbatim>\<open>KMemoryManager::Initialize\<close> sets them up from a memory layout is a definition without a law, as are the
  fills of the optimized process. They are for pools no region of which begins where another one ends; where one does, a failed allocation can lose pages. Of the program: the GPU and shader recompiler, audio, the file system, the
  remaining kernel and services, the front ends and JNI, save states beyond the buffer queue, the CPU recompiler and
  everything under \<^verbatim>\<open>externals/\<close>. The mapping operations of \<^verbatim>\<open>k_page_table_base.cpp\<close>, which join the memory blocks to the page groups,
  and the hardware composer that drives the buffer queue are the parts nearest to what is here.
\<close>

end
